(* ===== verification/Prelude.thy ===== *)
theory Prelude
  imports Main
begin

section \<open>Shared vocabulary\<close>

text \<open>
  Generic material of the development: the result type of fallible code, the state and error
  monad the evaluator and the executor run in, the association lists that model the program's
  insertion-ordered maps, decimal rendering and the checked arithmetic of 64-bit integers.

  A Rust \<open>str\<close> is its UTF-8 byte sequence and a byte buffer is a byte sequence; both are char
  lists here (a HOL character is one byte).
\<close>

named_theorems monad_simps \<open>unfolding of the state and error monad\<close>
named_theorems alist_simps \<open>association lists seen as finite maps\<close>
named_theorems frame \<open>what an operation leaves unchanged\<close>

type_synonym bytes = string
type_synonym rstr = string

subsection \<open>Results\<close>

text \<open>
  \<open>Ok\<close> and \<open>Err\<close> are Rust's \<open>Result\<close> with an error rendered as its message.
  \<open>Crash\<close> is a panic or a recursion deeper than the stack: no \<open>?\<close>, \<open>try\<close> or \<open>match\<close> of the
  program observes it.
\<close>

datatype 'a res = Ok 'a | Err string | Crash

type_synonym ('w, 'a) M = "'w \<Rightarrow> 'a res \<times> 'w"

definition ret :: "'a \<Rightarrow> ('w, 'a) M" where
  "ret x = (\<lambda>w. (Ok x, w))"

definition fail :: "string \<Rightarrow> ('w, 'a) M" where
  "fail m = (\<lambda>w. (Err m, w))"

definition crash :: "('w, 'a) M" where
  "crash = (\<lambda>w. (Crash, w))"

definition bindM :: "('w, 'a) M \<Rightarrow> ('a \<Rightarrow> ('w, 'b) M) \<Rightarrow> ('w, 'b) M" where
  "bindM m k = (\<lambda>w. case m w of
     (Ok x, w') \<Rightarrow> k x w' | (Err e, w') \<Rightarrow> (Err e, w') | (Crash, w') \<Rightarrow> (Crash, w'))"

definition liftR :: "'a res \<Rightarrow> ('w, 'a) M" where
  "liftR r = (\<lambda>w. (r, w))"

text \<open>Running a fallible step over a list, left to right, stopping at the first error.\<close>

fun mapM :: "('a \<Rightarrow> ('w, 'b) M) \<Rightarrow> 'a list \<Rightarrow> ('w, 'b list) M" where
  "mapM f [] = ret []"
| "mapM f (x # xs) = bindM (f x) (\<lambda>y. bindM (mapM f xs) (\<lambda>ys. ret (y # ys)))"

fun filterM :: "('a \<Rightarrow> ('w, bool) M) \<Rightarrow> 'a list \<Rightarrow> ('w, 'a list) M" where
  "filterM f [] = ret []"
| "filterM f (x # xs) =
     bindM (f x) (\<lambda>b. bindM (filterM f xs) (\<lambda>ys. ret (if b then x # ys else ys)))"

fun findM :: "('a \<Rightarrow> ('w, bool) M) \<Rightarrow> 'a list \<Rightarrow> ('w, 'a option) M" where
  "findM f [] = ret None"
| "findM f (x # xs) = bindM (f x) (\<lambda>b. if b then ret (Some x) else findM f xs)"

fun foldM :: "('b \<Rightarrow> 'a \<Rightarrow> ('w, 'b) M) \<Rightarrow> 'b \<Rightarrow> 'a list \<Rightarrow> ('w, 'b) M" where
  "foldM f a [] = ret a"
| "foldM f a (x # xs) = bindM (f a x) (\<lambda>a'. foldM f a' xs)"

lemmas [monad_simps] = ret_def fail_def crash_def bindM_def liftR_def

lemma bindM_ret [simp]: "bindM (ret x) k = k x"
  by (simp add: monad_simps)

lemma bindM_fail [simp]: "bindM (fail e) k = fail e"
  by (simp add: monad_simps)

lemma bindM_crash [simp]: "bindM crash k = crash"
  by (simp add: monad_simps)

lemma bindM_Ok: "bindM m k w = (Ok y, w'') \<longleftrightarrow> (\<exists>x w'. m w = (Ok x, w') \<and> k x w' = (Ok y, w''))"
  by (auto simp: bindM_def split: prod.splits res.splits)

lemma bindM_Err:
  "bindM m k w = (Err e, w'') \<longleftrightarrow>
     m w = (Err e, w'') \<or> (\<exists>x w'. m w = (Ok x, w') \<and> k x w' = (Err e, w''))"
  by (auto simp: bindM_def split: prod.splits res.splits)

lemma bindM_Crash:
  "bindM m k w = (Crash, w'') \<longleftrightarrow>
     m w = (Crash, w'') \<or> (\<exists>x w'. m w = (Ok x, w') \<and> k x w' = (Crash, w''))"
  by (auto simp: bindM_def split: prod.splits res.splits)

lemma mapM_length: "mapM f xs w = (Ok ys, w') \<Longrightarrow> length ys = length xs"
  by (induction xs arbitrary: ys w w') (auto simp: bindM_Ok ret_def)

lemma mapM_succeeds:
  assumes "\<And>x w. x \<in> set xs \<Longrightarrow> \<exists>y w'. f x w = (Ok y, w')"
  shows "\<exists>ys w'. mapM f xs w = (Ok ys, w')"
  using assms
proof (induction xs arbitrary: w)
  case (Cons x xs)
  obtain y w1 where "f x w = (Ok y, w1)" using Cons.prems[of x w] by auto
  moreover have "\<exists>ys w'. mapM f xs w1 = (Ok ys, w')" using Cons.prems by (intro Cons.IH) simp
  ultimately show ?case by (auto simp: bindM_def ret_def)
qed (simp add: ret_def)

text \<open>The same without a state: \<open>?\<close> on a \<open>Result\<close>, and a loop of fallible checks.\<close>

definition bindR :: "'a res \<Rightarrow> ('a \<Rightarrow> 'b res) \<Rightarrow> 'b res" where
  "bindR r k = (case r of Ok x \<Rightarrow> k x | Err e \<Rightarrow> Err e | Crash \<Rightarrow> Crash)"

fun eachR :: "('a \<Rightarrow> unit res) \<Rightarrow> 'a list \<Rightarrow> unit res" where
  "eachR f [] = Ok ()"
| "eachR f (x # xs) = bindR (f x) (\<lambda>_. eachR f xs)"

definition ensure :: "bool \<Rightarrow> string \<Rightarrow> unit res" where
  "ensure b msg = (if b then Ok () else Err msg)"

lemma bindR_Ok [simp]: "bindR r k = Ok y \<longleftrightarrow> (\<exists>x. r = Ok x \<and> k x = Ok y)"
  by (cases r) (auto simp: bindR_def)

lemma eachR_Ok [simp]: "eachR f xs = Ok u \<longleftrightarrow> (\<forall>x \<in> set xs. f x = Ok ())"
  by (induction xs) auto

lemma ensure_Ok [simp]: "ensure b msg = Ok u \<longleftrightarrow> b"
  by (simp add: ensure_def)

text \<open>\<open>Vec::get\<close>, and its use behind \<open>ok_or_else\<close>.\<close>

definition nth_opt :: "'a list \<Rightarrow> nat \<Rightarrow> 'a option" where
  "nth_opt xs i = (if i < length xs then Some (xs ! i) else None)"

definition get_or :: "'a list \<Rightarrow> nat \<Rightarrow> string \<Rightarrow> 'a res" where
  "get_or xs i msg = (case nth_opt xs i of Some x \<Rightarrow> Ok x | None \<Rightarrow> Err msg)"

lemma nth_opt_Some [simp]: "nth_opt xs i = Some x \<longleftrightarrow> i < length xs \<and> xs ! i = x"
  by (auto simp: nth_opt_def)

lemma nth_opt_None [simp]: "nth_opt xs i = None \<longleftrightarrow> length xs \<le> i"
  by (auto simp: nth_opt_def)

lemma get_or_Ok [simp]: "get_or xs i msg = Ok x \<longleftrightarrow> i < length xs \<and> xs ! i = x"
  by (auto simp: get_or_def split: option.split)

subsection \<open>Association lists in insertion order\<close>

text \<open>
  The program's objects and workspaces are vectors of entries with a linear \<open>find\<close>; writing
  replaces the first entry of the key in place or appends a new one.
\<close>

fun al_set :: "'k \<Rightarrow> 'v \<Rightarrow> ('k \<times> 'v) list \<Rightarrow> ('k \<times> 'v) list" where
  "al_set k v [] = [(k, v)]"
| "al_set k v ((k', v') # xs) = (if k' = k then (k', v) # xs else (k', v') # al_set k v xs)"

fun al_remove :: "'k \<Rightarrow> ('k \<times> 'v) list \<Rightarrow> ('k \<times> 'v) list" where
  "al_remove k [] = []"
| "al_remove k ((k', v') # xs) = (if k' = k then xs else (k', v') # al_remove k xs)"

lemma map_of_al_set [simp, alist_simps]: "map_of (al_set k v xs) = (map_of xs)(k \<mapsto> v)"
  by (induction xs) auto

lemma keys_al_set [simp]: "set (map fst (al_set k v xs)) = insert k (set (map fst xs))"
  by (induction xs rule: al_set.induct[of _ k v]) auto

lemma set_al_set: "set (al_set k v xs) \<subseteq> insert (k, v) (set xs)"
  by (induction xs rule: al_set.induct[of _ k v]) auto

lemma distinct_al_set [simp]: "distinct (map fst (al_set k v xs)) = distinct (map fst xs)"
proof (induction xs)
  case (Cons x xs)
  have "set (map fst (al_set k v xs)) = insert k (set (map fst xs))"
    by (rule keys_al_set)
  with Cons show ?case by (cases x) (auto simp: image_iff)
qed simp

lemma al_remove_subset: "set (al_remove k xs) \<subseteq> set xs"
  by (induction k xs rule: al_remove.induct) auto

lemma distinct_al_remove [simp]: "distinct (map fst xs) \<Longrightarrow> distinct (map fst (al_remove k xs))"
proof (induction xs)
  case (Cons x xs)
  moreover have "fst ` set (al_remove k xs) \<subseteq> fst ` set xs"
    by (rule image_mono[OF al_remove_subset])
  ultimately show ?case by (cases x) auto
qed simp

lemma map_of_al_remove [alist_simps]:
  "distinct (map fst xs) \<Longrightarrow> map_of (al_remove k xs) = (map_of xs)(k := None)"
proof (induction xs)
  case (Cons x xs)
  then show ?case
    by (cases x) (auto simp: fun_eq_iff map_of_eq_None_iff)
qed simp

subsection \<open>Decimal rendering\<close>

definition digit_char :: "nat \<Rightarrow> char" where
  "digit_char d = char_of (48 + d)"

fun nat_digits :: "nat \<Rightarrow> string" where
  "nat_digits n = (if n < 10 then [digit_char n] else nat_digits (n div 10) @ [digit_char (n mod 10)])"

declare nat_digits.simps [simp del]

definition string_of_int :: "int \<Rightarrow> string" where
  "string_of_int i = (if i < 0 then CHR ''-'' # nat_digits (nat (- i)) else nat_digits (nat i))"

text \<open>\<open>split\<close> on a character.\<close>

fun split_on :: "char \<Rightarrow> string \<Rightarrow> string list" where
  "split_on sep [] = [[]]"
| "split_on sep (c # cs) =
     (if c = sep then [] # split_on sep cs
      else case split_on sep cs of [] \<Rightarrow> [[c]] | p # ps \<Rightarrow> (c # p) # ps)"

text \<open>The UTF-8 bytes of the dash and the arrow the program's messages contain.\<close>

definition em_dash :: string where "em_dash = map char_of [226, 128, 148 :: nat]"

definition right_arrow :: string where "right_arrow = map char_of [226, 134, 146 :: nat]"

subsection \<open>64-bit integers\<close>

definition i64_min :: int where "i64_min = - (2 ^ 63)"
definition i64_max :: int where "i64_max = 2 ^ 63 - 1"

definition in_i64 :: "int \<Rightarrow> bool" where
  "in_i64 n \<longleftrightarrow> i64_min \<le> n \<and> n \<le> i64_max"

definition checked_i64 :: "int \<Rightarrow> int option" where
  "checked_i64 n = (if in_i64 n then Some n else None)"

text \<open>Rust's \<open>/\<close> and \<open>%\<close> on integers truncate towards zero.\<close>

definition trunc_div :: "int \<Rightarrow> int \<Rightarrow> int" where
  "trunc_div a b = sgn a * sgn b * (\<bar>a\<bar> div \<bar>b\<bar>)"

definition trunc_rem :: "int \<Rightarrow> int \<Rightarrow> int" where
  "trunc_rem a b = sgn a * (\<bar>a\<bar> mod \<bar>b\<bar>)"

lemma trunc_div_rem: "trunc_div a b * b + trunc_rem a b = a"
proof -
  have "sgn a * (\<bar>a\<bar> div \<bar>b\<bar> * \<bar>b\<bar> + \<bar>a\<bar> mod \<bar>b\<bar>) = a"
    by (simp only: div_mult_mod_eq sgn_mult_abs)
  moreover have "sgn b * b = \<bar>b\<bar>"
    by (simp add: abs_sgn mult.commute)
  ultimately show ?thesis
    unfolding trunc_div_def trunc_rem_def by (metis distrib_left mult.assoc mult.commute)
qed

lemma trunc_rem_bound: "b \<noteq> 0 \<Longrightarrow> \<bar>trunc_rem a b\<bar> < \<bar>b\<bar>"
  by (auto simp: trunc_rem_def abs_mult sgn_if)

lemma checked_i64_Some [simp]: "checked_i64 n = Some m \<longleftrightarrow> in_i64 n \<and> m = n"
  by (auto simp: checked_i64_def)

end
