(* ===== verification/F64.thy ===== *)
theory F64
  imports Prelude
begin

section \<open>IEEE 754 binary64\<close>

text \<open>
  Rust's \<open>f64\<close>, as far as the DSL uses it: conversion from and to \<open>i64\<close>, the four
  operations and the remainder, comparison, \<open>fract\<close>, parsing and printing. A finite number
  \<open>FFin s m e\<close> is \<open>m * 2 ^ e\<close>, negated when \<open>s\<close>; every operation computes the exact result and rounds it once to
  the nearest representable number, ties to even.
\<close>

datatype f64 = FNaN | FInf bool | FFin bool nat int

subsection \<open>Rounding\<close>

fun bit_len :: "nat \<Rightarrow> nat" where
  "bit_len n = (if n = 0 then 0 else Suc (bit_len (n div 2)))"

declare bit_len.simps [simp del]

text \<open>\<open>mul_pow2 n e\<close> scales by \<open>2 ^ e\<close> where \<open>e\<close> is positive; \<open>floor_log2 p q\<close> is the binary exponent of \<open>p / q\<close>.\<close>

definition mul_pow2 :: "nat \<Rightarrow> int \<Rightarrow> nat" where
  "mul_pow2 n e = (if 0 \<le> e then n * 2 ^ nat e else n)"

definition floor_log2 :: "nat \<Rightarrow> nat \<Rightarrow> int" where
  "floor_log2 p q =
     (let d = int (bit_len p) - int (bit_len q)
      in if mul_pow2 q d \<le> mul_pow2 p (- d) then d else d - 1)"

definition round_f64 :: "bool \<Rightarrow> nat \<Rightarrow> nat \<Rightarrow> f64" where
  "round_f64 s p q =
     (if p = 0 then FFin s 0 (- 1074) else
      let e = max (- 1074) (floor_log2 p q - 52);
          num = mul_pow2 p (- e); den = mul_pow2 q e;
          m = num div den; r = num mod den;
          m' = (if den < 2 * r \<or> (den = 2 * r \<and> odd m) then m + 1 else m);
          (m'', e') = (if m' = 2 ^ 53 then (2 ^ 52, e + 1) else (m', e))
      in if 971 < e' then FInf s else FFin s m'' e')"

definition round_scaled :: "bool \<Rightarrow> nat \<Rightarrow> int \<Rightarrow> f64" where
  "round_scaled s n e = round_f64 s (mul_pow2 n e) (mul_pow2 1 (- e))"

subsection \<open>Conversions and predicates\<close>

definition f64_of_int :: "int \<Rightarrow> f64" where
  "f64_of_int n = round_f64 (n < 0) (nat \<bar>n\<bar>) 1"

definition f64_zero :: f64 where "f64_zero = FFin False 0 (- 1074)"

fun f64_is_finite :: "f64 \<Rightarrow> bool" where
  "f64_is_finite (FFin _ _ _) = True"
| "f64_is_finite _ = False"

fun f64_is_nan :: "f64 \<Rightarrow> bool" where
  "f64_is_nan FNaN = True"
| "f64_is_nan _ = False"

text \<open>\<open>x.fract() == 0.0\<close> (a NaN for infinities and NaN, hence false).\<close>

fun f64_fract_zero :: "f64 \<Rightarrow> bool" where
  "f64_fract_zero (FFin s m e) = (mul_pow2 1 (- e) dvd m)"
| "f64_fract_zero _ = False"

fun f64_neg :: "f64 \<Rightarrow> f64" where
  "f64_neg FNaN = FNaN"
| "f64_neg (FInf s) = FInf (\<not> s)"
| "f64_neg (FFin s m e) = FFin (\<not> s) m e"

definition clamp_i64 :: "int \<Rightarrow> int" where
  "clamp_i64 n = max i64_min (min i64_max n)"

text \<open>\<open>x as i64\<close>: truncate, saturate, NaN is 0.\<close>

fun f64_to_i64 :: "f64 \<Rightarrow> int" where
  "f64_to_i64 FNaN = 0"
| "f64_to_i64 (FInf s) = (if s then i64_min else i64_max)"
| "f64_to_i64 (FFin s m e) =
     (let t = int (mul_pow2 m e div mul_pow2 1 (- e)) in clamp_i64 (if s then - t else t))"

text \<open>The value of a finite number, scaled by \<open>2\<close> to the power \<open>- e0\<close> with \<open>e0\<close> at most its exponent.\<close>

definition scaled :: "bool \<Rightarrow> nat \<Rightarrow> int \<Rightarrow> int \<Rightarrow> int" where
  "scaled s m e e0 = (let v = int (m * 2 ^ nat (e - e0)) in if s then - v else v)"

datatype ordering = Less | Equal | Greater

definition cmp_int :: "int \<Rightarrow> int \<Rightarrow> ordering" where
  "cmp_int a b = (if a < b then Less else if a = b then Equal else Greater)"

fun f64_partial_cmp :: "f64 \<Rightarrow> f64 \<Rightarrow> ordering option" where
  "f64_partial_cmp FNaN _ = None"
| "f64_partial_cmp _ FNaN = None"
| "f64_partial_cmp (FInf s) (FInf t) = Some (if s = t then Equal else if s then Less else Greater)"
| "f64_partial_cmp (FInf s) (FFin _ _ _) = Some (if s then Less else Greater)"
| "f64_partial_cmp (FFin _ _ _) (FInf t) = Some (if t then Greater else Less)"
| "f64_partial_cmp (FFin s m e) (FFin t n d) =
     Some (cmp_int (scaled s m e (min e d)) (scaled t n d (min e d)))"

definition f64_eq :: "f64 \<Rightarrow> f64 \<Rightarrow> bool" where
  "f64_eq a b \<longleftrightarrow> f64_partial_cmp a b = Some Equal"

subsection \<open>Arithmetic\<close>

fun f64_add :: "f64 \<Rightarrow> f64 \<Rightarrow> f64" where
  "f64_add FNaN _ = FNaN"
| "f64_add _ FNaN = FNaN"
| "f64_add (FInf s) (FInf t) = (if s = t then FInf s else FNaN)"
| "f64_add (FInf s) (FFin _ _ _) = FInf s"
| "f64_add (FFin _ _ _) (FInf t) = FInf t"
| "f64_add (FFin s m e) (FFin t n d) =
     (let e0 = min e d; v = scaled s m e e0 + scaled t n d e0
      in if v = 0 then FFin (s \<and> t) 0 (- 1074) else round_scaled (v < 0) (nat \<bar>v\<bar>) e0)"

definition f64_sub :: "f64 \<Rightarrow> f64 \<Rightarrow> f64" where
  "f64_sub a b = f64_add a (f64_neg b)"

fun f64_mul :: "f64 \<Rightarrow> f64 \<Rightarrow> f64" where
  "f64_mul FNaN _ = FNaN"
| "f64_mul _ FNaN = FNaN"
| "f64_mul (FInf s) (FInf t) = FInf (s \<noteq> t)"
| "f64_mul (FInf s) (FFin t n _) = (if n = 0 then FNaN else FInf (s \<noteq> t))"
| "f64_mul (FFin s m _) (FInf t) = (if m = 0 then FNaN else FInf (s \<noteq> t))"
| "f64_mul (FFin s m e) (FFin t n d) = round_scaled (s \<noteq> t) (m * n) (e + d)"

fun f64_div :: "f64 \<Rightarrow> f64 \<Rightarrow> f64" where
  "f64_div FNaN _ = FNaN"
| "f64_div _ FNaN = FNaN"
| "f64_div (FInf s) (FInf t) = FNaN"
| "f64_div (FInf s) (FFin t _ _) = FInf (s \<noteq> t)"
| "f64_div (FFin s _ _) (FInf t) = FFin (s \<noteq> t) 0 (- 1074)"
| "f64_div (FFin s m e) (FFin t n d) =
     (if n = 0 then (if m = 0 then FNaN else FInf (s \<noteq> t))
      else round_f64 (s \<noteq> t) (mul_pow2 m (e - d)) (mul_pow2 n (d - e)))"

fun f64_rem :: "f64 \<Rightarrow> f64 \<Rightarrow> f64" where
  "f64_rem FNaN _ = FNaN"
| "f64_rem _ FNaN = FNaN"
| "f64_rem (FInf _) _ = FNaN"
| "f64_rem (FFin s m e) (FInf _) = FFin s m e"
| "f64_rem (FFin s m e) (FFin t n d) =
     (if n = 0 then FNaN
      else let e0 = min e d
           in round_scaled s ((m * 2 ^ nat (e - e0)) mod (n * 2 ^ nat (d - e0))) e0)"

subsection \<open>Text\<close>

definition is_digit :: "char \<Rightarrow> bool" where
  "is_digit c \<longleftrightarrow> 48 \<le> (of_char c :: nat) \<and> (of_char c :: nat) \<le> 57"

definition digit_val :: "char \<Rightarrow> nat" where
  "digit_val c = of_char c - 48"

definition digits_val :: "string \<Rightarrow> nat" where
  "digits_val = foldl (\<lambda>n c. 10 * n + digit_val c) 0"

definition to_ascii_lower :: "char \<Rightarrow> char" where
  "to_ascii_lower c =
     (if 65 \<le> (of_char c :: nat) \<and> (of_char c :: nat) \<le> 90 then char_of (of_char c + 32 :: nat) else c)"

definition strip_sign :: "string \<Rightarrow> bool \<times> string" where
  "strip_sign s = (case s of
     c # cs \<Rightarrow> if c = CHR ''-'' then (True, cs) else if c = CHR ''+'' then (False, cs) else (False, s)
   | [] \<Rightarrow> (False, s))"

text \<open>
  \<open>f64::from_str\<close>: an optional sign, then \<open>inf\<close>, \<open>infinity\<close> or \<open>nan\<close> in any case, or digits with
  an optional point (a digit on one side of it) and an optional exponent with at least one digit.
\<close>

definition parse_exp :: "string \<Rightarrow> int option" where
  "parse_exp s = (case s of
     [] \<Rightarrow> Some 0
   | c # cs \<Rightarrow> if c = CHR ''e'' \<or> c = CHR ''E''
       then (let (neg, ds) = strip_sign cs
             in if ds \<noteq> [] \<and> list_all is_digit ds
                then Some (if neg then - int (digits_val ds) else int (digits_val ds)) else None)
       else None)"

definition parse_number :: "bool \<Rightarrow> string \<Rightarrow> f64 option" where
  "parse_number neg s =
     (let ip = takeWhile is_digit s; r1 = dropWhile is_digit s;
          (fp, r2) = (case r1 of
              c # cs \<Rightarrow> if c = CHR ''.'' then (takeWhile is_digit cs, dropWhile is_digit cs) else ([], r1)
            | [] \<Rightarrow> ([], r1))
      in if ip = [] \<and> fp = [] then None
         else case parse_exp r2 of None \<Rightarrow> None
           | Some x \<Rightarrow> (let k = x - int (length fp); n = digits_val (ip @ fp)
                       in Some (if 0 \<le> k then round_f64 neg (n * 10 ^ nat k) 1
                                else round_f64 neg n (10 ^ nat (- k)))))"

definition f64_parse :: "string \<Rightarrow> f64 option" where
  "f64_parse s =
     (let (neg, t) = strip_sign s; l = map to_ascii_lower t
      in if l = ''inf'' \<or> l = ''infinity'' then Some (FInf neg)
         else if l = ''nan'' then Some FNaN
         else parse_number neg t)"

text \<open>
  \<open>Display\<close>: the shortest decimal digits that round back to the number (the closer candidate of
  that length), printed without an exponent.
\<close>

function neg_log10 :: "nat \<Rightarrow> nat \<Rightarrow> nat" where
  "neg_log10 p q = (if p = 0 \<or> q \<le> p then 0 else Suc (neg_log10 (10 * p) q))"
  by pat_completeness auto
termination
  by (relation "measure (\<lambda>(p, q). q - p)") auto

declare neg_log10.simps [simp del]

definition pick_digits :: "nat \<Rightarrow> int \<Rightarrow> nat \<Rightarrow> nat \<Rightarrow> int \<Rightarrow> nat option" where
  "pick_digits m e p q k =
     (let num = (if 0 \<le> k then p * 10 ^ nat k else p); den = (if 0 \<le> k then q else q * 10 ^ nat (- k));
          lo = num div den;
          back = (\<lambda>d. (if 0 \<le> k then round_f64 False d (10 ^ nat k)
                       else round_f64 False (d * 10 ^ nat (- k)) 1) = FFin False m e);
          near_lo = (2 * (num mod den) < den)
      in if back lo \<and> (near_lo \<or> \<not> back (lo + 1)) then Some lo
         else if back (lo + 1) then Some (lo + 1) else None)"

fun shortest_digits :: "nat \<Rightarrow> nat \<Rightarrow> int \<Rightarrow> nat \<Rightarrow> nat \<Rightarrow> int \<Rightarrow> nat \<times> int" where
  "shortest_digits 0 m e p q k = (0, k)"
| "shortest_digits (Suc n) m e p q k =
     (case pick_digits m e p q k of Some d \<Rightarrow> (d, k) | None \<Rightarrow> shortest_digits n m e p q (k + 1))"

definition place_point :: "string \<Rightarrow> int \<Rightarrow> string" where
  "place_point ds k =
     (if k \<le> 0 then ds @ replicate (nat (- k)) (CHR ''0'')
      else let w = nat k; pad = replicate (w + 1 - length ds) (CHR ''0'') @ ds; i = length pad - w
           in take i pad @ ''.'' @ drop i pad)"

fun f64_to_string :: "f64 \<Rightarrow> string" where
  "f64_to_string FNaN = ''NaN''"
| "f64_to_string (FInf s) = (if s then ''-inf'' else ''inf'')"
| "f64_to_string (FFin s m e) =
     (let body = (if m = 0 then ''0'' else
        let p = mul_pow2 m e; q = mul_pow2 1 (- e);
            k0 = (if q \<le> p then 1 - int (length (nat_digits (p div q))) else int (neg_log10 p q));
            (d, k) = shortest_digits 17 m e p q k0
        in place_point (nat_digits d) k)
      in if s then CHR ''-'' # body else body)"

subsection \<open>Exactness\<close>

lemma mul_pow2_simps [simp]:
  "0 \<le> e \<Longrightarrow> mul_pow2 n e = n * 2 ^ nat e" "e \<le> 0 \<Longrightarrow> mul_pow2 n e = n"
  by (auto simp: mul_pow2_def)

lemma bit_len_bound: "0 < n \<Longrightarrow> 2 ^ (bit_len n - 1) \<le> n \<and> n < 2 ^ bit_len n"
proof (induction n rule: bit_len.induct)
  case (1 n)
  show ?case
  proof (cases "n = 1")
    case True
    then show ?thesis by (simp add: bit_len.simps)
  next
    case False
    with "1.prems" have h: "0 < n div 2" by simp
    with 1 have IH: "2 ^ (bit_len (n div 2) - 1) \<le> n div 2" "n div 2 < 2 ^ bit_len (n div 2)"
      by auto
    from h have "bit_len (n div 2) \<noteq> 0" by (simp add: bit_len.simps)
    then obtain b where b: "bit_len (n div 2) = Suc b" by (cases "bit_len (n div 2)") auto
    have "bit_len n = Suc (Suc b)" using "1.prems" b by (simp add: bit_len.simps[of n])
    moreover from IH b have "2 ^ Suc b \<le> n" "n < 2 ^ Suc (Suc b)" by auto
    ultimately show ?thesis by simp
  qed
qed

lemma bit_len_le:
  assumes "n < 2 ^ k"
  shows "bit_len n \<le> k"
proof (cases "n = 0")
  case False
  with assms bit_len_bound[of n] have "(2::nat) ^ (bit_len n - 1) < 2 ^ k"
    by (meson le_less_trans not_gr_zero)
  then have "bit_len n - 1 < k" by (rule power_less_imp_less_exp[rotated]) simp
  then show ?thesis by simp
qed (simp add: bit_len.simps)

lemma floor_log2_one:
  assumes "0 < p" "p < 2 ^ k" "0 < k"
  shows "floor_log2 p 1 < int k"
proof -
  have "bit_len p \<le> k" "bit_len 1 = 1"
    using bit_len_le[OF assms(2)] by (auto simp: bit_len.simps)
  then show ?thesis by (auto simp: floor_log2_def Let_def)
qed

lemma to_i64_shift: "f64_to_i64 (FFin s (p * 2 ^ k) (- int k)) = clamp_i64 (if s then - int p else int p)"
  by (simp add: Let_def)

lemma round_f64_exact:
  assumes "0 < p" "p < 2 ^ 53"
  shows "\<exists>k. round_f64 s p 1 = FFin s (p * 2 ^ k) (- int k)"
proof -
  define k where "k = nat (- max (- 1074) (floor_log2 p 1 - 52))"
  have e: "max (- 1074) (floor_log2 p 1 - 52) = - int k"
    using floor_log2_one[of p 53] assms by (auto simp: k_def)
  show ?thesis
  proof (cases "p * 2 ^ k = 2 ^ 53")
    case False
    with assms have "round_f64 s p 1 = FFin s (p * 2 ^ k) (- int k)"
      unfolding round_f64_def e by (simp add: Let_def)
    then show ?thesis by blast
  next
    case True
    with assms obtain j where j: "k = Suc j" by (cases k) auto
    with True have "p * 2 ^ j = 2 ^ 52" by simp
    moreover from True j assms have "round_f64 s p 1 = FFin s (2 ^ 52) (- int j)"
      unfolding round_f64_def e by (simp add: Let_def nat_add_distrib)
    ultimately show ?thesis by metis
  qed
qed

text \<open>Integers up to \<open>2 ^ 53\<close> in absolute value convert without loss.\<close>

lemma f64_of_int_exact:
  assumes "\<bar>n\<bar> \<le> 2 ^ 53"
  shows "f64_to_i64 (f64_of_int n) = n" and "f64_to_i64 (f64_neg (f64_of_int n)) = - n"
proof -
  let ?p = "nat \<bar>n\<bar>"
  have c: "clamp_i64 n = n" "clamp_i64 (- n) = - n"
    using assms by (auto simp: clamp_i64_def i64_min_def i64_max_def)
  consider "n = 0" | "?p = 2 ^ 53" | "0 < ?p" "?p < 2 ^ 53"
    using assms by (auto simp: nat_eq_iff) linarith
  then have "f64_to_i64 (f64_of_int n) = n \<and> f64_to_i64 (f64_neg (f64_of_int n)) = - n"
  proof cases
    case 1
    then show ?thesis
      by (simp add: f64_of_int_def round_f64_def clamp_i64_def i64_min_def i64_max_def Let_def)
  next
    case 2
    have "round_f64 s (2 ^ 53) 1 = FFin s (2 ^ 52) 1" for s
      by (simp add: round_f64_def floor_log2_def bit_len.simps mul_pow2_def Let_def)
    with 2 have "f64_of_int n = FFin (n < 0) (2 ^ 52) 1" by (simp add: f64_of_int_def)
    moreover from 2 have "n = 2 ^ 53 \<or> n = - (2 ^ 53)"
      by (auto simp: nat_eq_iff abs_if split: if_splits)
    ultimately show ?thesis using c by (auto simp: Let_def)
  next
    case 3
    then obtain k where "f64_of_int n = FFin (n < 0) (?p * 2 ^ k) (- int k)"
      unfolding f64_of_int_def using round_f64_exact by blast
    with c show ?thesis by (auto simp: to_i64_shift simp del: f64_to_i64.simps)
  qed
  then show "f64_to_i64 (f64_of_int n) = n" and "f64_to_i64 (f64_neg (f64_of_int n)) = - n"
    by simp_all
qed

lemma f64_to_i64_range: "in_i64 (f64_to_i64 x)"
  by (cases x) (auto simp: in_i64_def clamp_i64_def i64_min_def i64_max_def Let_def)

subsection \<open>Decimal digits\<close>

lemma digit_char [simp]: "d < 10 \<Longrightarrow> is_digit (digit_char d)" "d < 10 \<Longrightarrow> digit_val (digit_char d) = d"
  by (simp_all add: is_digit_def digit_val_def digit_char_def)

lemma nat_digits_digits: "list_all is_digit (nat_digits n) \<and> nat_digits n \<noteq> []"
proof (induction n rule: nat_digits.induct)
  case (1 n)
  then show ?case by (cases "n < 10") (simp_all add: nat_digits.simps[of n])
qed

lemma digits_val_nat_digits: "digits_val (nat_digits n) = n"
proof (induction n rule: nat_digits.induct)
  case (1 n)
  then show ?case by (cases "n < 10") (simp_all add: nat_digits.simps[of n] digits_val_def)
qed

end
