(* ===== verification/Metrics.thy ===== *)
theory Metrics
  imports F64 "HOL-Library.Word"
begin

section \<open>Clock values and delivery metrics\<close>

text \<open>
  Wall-clock readings and elapsed times (\<open>time.rs\<close>), 64-bit counters and gauges, and the
  histograms behind the delivery metrics (\<open>metrics.rs\<close>). A histogram keeps one raw hit count per
  boundary; the queue consumer collects a burst of deliveries in a \<open>delivery_delta\<close> and merges it
  in one pass.
\<close>

subsection \<open>Time\<close>

record elapsed_nanos =
  el_duration :: nat
  el_reversed :: bool

text \<open>\<open>UnixNanos::from_system_time\<close>: signed nanoseconds since the epoch, clamped to \<open>i64\<close>.\<close>

definition from_system_time :: "int \<Rightarrow> int" where
  "from_system_time nanos = clamp_i64 nanos"

definition to_wire_u64 :: "int \<Rightarrow> nat" where
  "to_wire_u64 t = (if 0 \<le> t then nat t else 0)"

definition elapsed_since :: "int \<Rightarrow> int \<Rightarrow> elapsed_nanos" where
  "elapsed_since later earlier =
     (let delta = later - earlier in
      if delta < 0 then \<lparr>el_duration = 0, el_reversed = True\<rparr>
      else \<lparr>el_duration = nat delta, el_reversed = False\<rparr>)"

definition between_u64 :: "nat \<Rightarrow> nat \<Rightarrow> elapsed_nanos" where
  "between_u64 later earlier =
     (if earlier \<le> later then \<lparr>el_duration = later - earlier, el_reversed = False\<rparr>
      else \<lparr>el_duration = 0, el_reversed = True\<rparr>)"

definition as_seconds_f64 :: "nat \<Rightarrow> f64" where
  "as_seconds_f64 ns = f64_div (f64_of_int (int ns)) (f64_of_int 1000000000)"

subsection \<open>Counters, gauges, histograms\<close>

type_synonym counter = "64 word"

definition gauge_dec :: "counter \<Rightarrow> counter" where
  "gauge_dec g = (if g = 0 then 0 else g - 1)"

record histogram =
  h_boundaries :: "f64 list"
  h_buckets :: "counter list"
  h_count :: counter
  h_sum :: f64

definition f64_le :: "f64 \<Rightarrow> f64 \<Rightarrow> bool" where
  "f64_le a b \<longleftrightarrow> f64_partial_cmp a b = Some Less \<or> f64_partial_cmp a b = Some Equal"

text \<open>The index of the first boundary at or above the value.\<close>

fun bucket_index :: "f64 list \<Rightarrow> f64 \<Rightarrow> nat option" where
  "bucket_index [] v = None"
| "bucket_index (b # bs) v = (if f64_le v b then Some 0 else map_option Suc (bucket_index bs v))"

definition bump_at :: "nat option \<Rightarrow> counter list \<Rightarrow> counter list" where
  "bump_at i xs = (case i of Some k \<Rightarrow> xs[k := xs ! k + 1] | None \<Rightarrow> xs)"

definition hist_observe :: "f64 \<Rightarrow> histogram \<Rightarrow> histogram" where
  "hist_observe v h = h\<lparr>h_buckets := bump_at (bucket_index (h_boundaries h) v) (h_buckets h),
     h_count := h_count h + 1, h_sum := f64_add (h_sum h) v\<rparr>"

subsection \<open>Delivery bursts\<close>

text \<open>\<open>OUTPUT_DELIVERY_BUCKETS\<close>: the decimal literals, read as the compiler reads them.\<close>

definition dec_ratio :: "nat \<Rightarrow> nat \<Rightarrow> f64" where
  "dec_ratio p q = round_f64 False p q"

definition output_delivery_buckets :: "f64 list" where
  "output_delivery_buckets = map (\<lambda>(p, q). dec_ratio p q)
     [(1, 1000), (5, 1000), (25, 1000), (1, 10), (5, 10), (25, 10), (10, 1), (30, 1), (60, 1), (300, 1), (900, 1), (3600, 1)]"

record delivery_delta =
  dd_hits :: "counter list"
  dd_count :: counter
  dd_sum :: f64
  dd_reversed :: counter

definition delta_empty :: delivery_delta where
  "delta_empty = \<lparr>dd_hits = replicate (length output_delivery_buckets) 0, dd_count = 0, dd_sum = f64_zero, dd_reversed = 0\<rparr>"

definition delta_record :: "elapsed_nanos \<Rightarrow> delivery_delta \<Rightarrow> delivery_delta" where
  "delta_record el d = (let v = as_seconds_f64 (el_duration el) in
     d\<lparr>dd_hits := bump_at (bucket_index output_delivery_buckets v) (dd_hits d), dd_count := dd_count d + 1,
       dd_sum := f64_add (dd_sum d) v, dd_reversed := dd_reversed d + (if el_reversed el then 1 else 0)\<rparr>)"

definition delta_is_empty :: "delivery_delta \<Rightarrow> bool" where
  "delta_is_empty d \<longleftrightarrow> dd_count d = 0"

text \<open>\<open>Histogram::merge_delivery_delta\<close>.\<close>

definition hist_merge :: "delivery_delta \<Rightarrow> histogram \<Rightarrow> histogram" where
  "hist_merge d h = h\<lparr>h_buckets := map2 (+) (h_buckets h) (dd_hits d) @ drop (length (dd_hits d)) (h_buckets h),
     h_count := h_count h + dd_count d, h_sum := f64_add (h_sum h) (dd_sum d)\<rparr>"

record output_metrics =
  om_received :: counter
  om_injected :: counter
  om_written :: counter
  om_failed :: counter
  om_retries :: counter
  om_wedged :: counter
  om_errored_unwritable :: counter
  om_bytes_written :: counter
  om_queue_depth :: counter
  om_in_retry :: counter
  om_delivery :: histogram
  om_negative_delta :: counter

text \<open>\<open>OutputMetrics::observe_delivery\<close>, one delivery at a time, and the merge of a burst.\<close>

definition observe_delivery :: "int \<Rightarrow> int \<Rightarrow> output_metrics \<Rightarrow> output_metrics" where
  "observe_delivery emitted_at delivered_at m =
     (let el = elapsed_since delivered_at emitted_at in
      m\<lparr>om_negative_delta := om_negative_delta m + (if el_reversed el then 1 else 0),
        om_delivery := hist_observe (as_seconds_f64 (el_duration el)) (om_delivery m)\<rparr>)"

definition merge_delivery_delta :: "delivery_delta \<Rightarrow> output_metrics \<Rightarrow> output_metrics" where
  "merge_delivery_delta d m =
     (if delta_is_empty d then m
      else m\<lparr>om_delivery := hist_merge d (om_delivery m),
             om_negative_delta := (if dd_reversed d \<noteq> 0 then om_negative_delta m + dd_reversed d else om_negative_delta m)\<rparr>)"

definition delivery_histogram :: histogram where
  "delivery_histogram = \<lparr>h_boundaries = output_delivery_buckets,
     h_buckets = replicate (length output_delivery_buckets) 0, h_count = 0, h_sum = f64_zero\<rparr>"

subsection \<open>Elapsed times\<close>

text \<open>An elapsed time is never negative; a clock that went back shows as a reversal of length zero.\<close>

lemma elapsed_since_cases:
  "earlier \<le> later \<Longrightarrow> elapsed_since later earlier = \<lparr>el_duration = nat (later - earlier), el_reversed = False\<rparr>"
  "later < earlier \<Longrightarrow> elapsed_since later earlier = \<lparr>el_duration = 0, el_reversed = True\<rparr>"
  by (simp_all add: elapsed_since_def Let_def)

text \<open>On times the wire can carry, the two ways of computing an elapsed time agree.\<close>

lemma elapsed_wire:
  "0 \<le> a \<Longrightarrow> 0 \<le> b \<Longrightarrow> between_u64 (to_wire_u64 a) (to_wire_u64 b) = elapsed_since a b"
  by (auto simp: between_u64_def to_wire_u64_def elapsed_since_def Let_def nat_diff_distrib nat_le_eq_zle)

text \<open>The difference of two \<open>i64\<close> readings fits the \<open>u64\<close> duration.\<close>

lemma elapsed_fits: "in_i64 a \<Longrightarrow> in_i64 b \<Longrightarrow> el_duration (elapsed_since a b) < 2 ^ 64"
  by (auto simp: elapsed_since_def Let_def in_i64_def i64_min_def i64_max_def)

subsection \<open>Merging a burst\<close>

lemma bucket_index_less: "bucket_index bs v = Some i \<Longrightarrow> i < length bs"
  by (induction bs arbitrary: i) (auto split: if_splits)

lemma length_bump_at [simp]: "length (bump_at i xs) = length xs"
  by (simp add: bump_at_def split: option.split)

lemma map2_bump:
  "length xs = length ys \<Longrightarrow> map2 (+) xs (bump_at i ys) = bump_at i (map2 (+) xs (ys :: counter list))"
proof -
  assume len: "length xs = length ys"
  show ?thesis
  proof (cases i)
    case (Some k)
    show ?thesis
      using len Some by (cases "k < length ys")
        (auto simp: bump_at_def list_update_beyond intro!: nth_equalityI simp: nth_list_update)
  qed (simp add: bump_at_def)
qed

lemma map2_replicate0: "length xs = n \<Longrightarrow> map2 (+) xs (replicate n (0 :: counter)) = xs"
  by (induction xs arbitrary: n) auto

text \<open>Everything of the histogram but the floating-point sum.\<close>

definition hist_tally :: "histogram \<Rightarrow> f64 list \<times> counter list \<times> counter" where
  "hist_tally h = (h_boundaries h, h_buckets h, h_count h)"

definition observe_all :: "elapsed_nanos list \<Rightarrow> histogram \<Rightarrow> histogram" where
  "observe_all els h = fold (\<lambda>el. hist_observe (as_seconds_f64 (el_duration el))) els h"

definition record_all :: "elapsed_nanos list \<Rightarrow> delivery_delta \<Rightarrow> delivery_delta" where
  "record_all els d = fold delta_record els d"

lemma record_all_shape:
  "length (dd_hits d) = length output_delivery_buckets \<Longrightarrow> length (dd_hits (record_all els d)) = length output_delivery_buckets"
  unfolding record_all_def by (induction els arbitrary: d) (auto simp: delta_record_def Let_def)

lemma tally_observe: "hist_tally h1 = hist_tally h2 \<Longrightarrow> hist_tally (hist_observe v h1) = hist_tally (hist_observe v h2)"
  by (simp add: hist_tally_def hist_observe_def)

lemma tally_observe_all: "hist_tally h1 = hist_tally h2 \<Longrightarrow> hist_tally (observe_all els h1) = hist_tally (observe_all els h2)"
proof (induction els arbitrary: h1 h2)
  case (Cons el els)
  show ?case
    using Cons.IH[OF tally_observe[OF Cons.prems, of "as_seconds_f64 (el_duration el)"]] by (simp add: observe_all_def)
qed (simp add: observe_all_def)

text \<open>Folding a burst and merging it tallies the same hits as observing each delivery by itself.\<close>

lemma merge_record_all:
  assumes "h_boundaries h = output_delivery_buckets" "length (h_buckets h) = length output_delivery_buckets"
    and "length (dd_hits d) = length output_delivery_buckets"
  shows "hist_tally (hist_merge (record_all els d) h) = hist_tally (observe_all els (hist_merge d h))"
  using assms
proof (induction els arbitrary: d rule: list.induct)
  case Nil
  then show ?case by (simp add: record_all_def observe_all_def)
next
  case (Cons el els)
  let ?v = "as_seconds_f64 (el_duration el)"
  have "hist_tally (hist_merge (delta_record el d) h) = hist_tally (hist_observe ?v (hist_merge d h))"
    using Cons.prems by (simp add: hist_tally_def hist_merge_def hist_observe_def delta_record_def Let_def map2_bump)
  moreover have "hist_tally (hist_merge (record_all els (delta_record el d)) h)
      = hist_tally (observe_all els (hist_merge (delta_record el d) h))"
    using Cons.prems by (intro Cons.IH) (auto simp: delta_record_def Let_def)
  ultimately show ?case
    using tally_observe_all[of "hist_merge (delta_record el d) h" "hist_observe ?v (hist_merge d h)" els]
    by (simp add: record_all_def observe_all_def)
qed

lemma merge_burst:
  assumes "h_boundaries h = output_delivery_buckets" "length (h_buckets h) = length output_delivery_buckets"
  shows "hist_tally (hist_merge (record_all els delta_empty) h) = hist_tally (observe_all els h)"
proof -
  have "hist_tally (hist_merge delta_empty h) = hist_tally h"
    using assms by (simp add: hist_tally_def hist_merge_def delta_empty_def map2_replicate0)
  then show ?thesis
    using merge_record_all[OF assms, of delta_empty els] tally_observe_all[of "hist_merge delta_empty h" h els]
    by (simp add: delta_empty_def)
qed

end
