(* ===== verification/SyslogPeers.thy ===== *)
theory SyslogPeers
  imports Metrics
begin

section \<open>Peers of an output\<close>

text \<open>
  \<open>modules/output/syslog_peers.rs\<close>: the rotation of the syslog outputs over their peers (\<open>PeerList\<close>) and of the batched
  outputs (\<open>RotatingPeers\<close>), with the cooldown of a peer that failed. An attempt at a peer is an argument; it may
  change that peer's state \<open>'p\<close> and the state \<open>'w\<close> of the output. An \<open>Instant\<close> is its nanoseconds.
\<close>

definition peer_cooldown :: nat where "peer_cooldown = 5 * 1000000000"

record 'p peer_state =
  ps_conn :: 'p
  ps_cooldown :: "nat option"

record peer_metrics =
  pr_events_written :: counter
  pr_connect_failures :: counter
  pr_cooldowns_entered :: counter

record 'p peer_list =
  pl_cursor :: "64 word"
  pl_state :: "'p peer_state list"
  pl_metrics :: "peer_metrics list"

definition peer_list_new :: "'p list \<Rightarrow> 'p peer_list" where
  "peer_list_new conns = \<lparr>pl_cursor = 0, pl_state = map (\<lambda>c. \<lparr>ps_conn = c, ps_cooldown = None\<rparr>) conns,
     pl_metrics = map (\<lambda>_. \<lparr>pr_events_written = 0, pr_connect_failures = 0, pr_cooldowns_entered = 0\<rparr>) conns\<rparr>"

datatype peer_send_error = PeersEmpty | AllPeersUnavailable nat | PeerPreSendShutdown

datatype attempt_result = AttOk | AttErr string | AttPreSend | AttCut

text \<open>How a rotation ends; \<open>Cut\<close> is the caller dropping it in the middle of an attempt.\<close>

datatype rotation_end = Sent | Unsent peer_send_error | Cut

text \<open>An attempt at peer number \<open>idx\<close>: its result, the connection and the output after it, and the time it failed.\<close>

type_synonym ('p, 'w) attempt = "nat \<Rightarrow> 'p \<Rightarrow> 'w \<Rightarrow> attempt_result \<times> 'p \<times> 'w \<times> nat"

definition cooled :: "nat \<Rightarrow> 'p peer_state \<Rightarrow> bool" where
  "cooled now st = (case ps_cooldown st of Some till \<Rightarrow> now < till | None \<Rightarrow> False)"

definition peer_succeeded :: "nat \<Rightarrow> 'p \<Rightarrow> 'p peer_list \<Rightarrow> 'p peer_list" where
  "peer_succeeded idx conn pl = pl\<lparr>pl_state := (pl_state pl)[idx := \<lparr>ps_conn = conn, ps_cooldown = None\<rparr>],
     pl_metrics := (pl_metrics pl)[idx := (pl_metrics pl ! idx)\<lparr>pr_events_written := pr_events_written (pl_metrics pl ! idx) + 1\<rparr>]\<rparr>"

definition peer_failed :: "nat \<Rightarrow> 'p \<Rightarrow> nat \<Rightarrow> 'p peer_list \<Rightarrow> 'p peer_list" where
  "peer_failed idx conn failed_at pl = (let m = pl_metrics pl ! idx in
     pl\<lparr>pl_state := (pl_state pl)[idx := \<lparr>ps_conn = conn, ps_cooldown = Some (failed_at + peer_cooldown)\<rparr>],
        pl_metrics := (pl_metrics pl)[idx := m\<lparr>pr_connect_failures := pr_connect_failures m + 1,
          pr_cooldowns_entered := pr_cooldowns_entered m + 1\<rparr>]\<rparr>)"

definition peer_touched :: "nat \<Rightarrow> 'p \<Rightarrow> 'p peer_list \<Rightarrow> 'p peer_list" where
  "peer_touched idx conn pl = pl\<lparr>pl_state := (pl_state pl)[idx := (pl_state pl ! idx)\<lparr>ps_conn := conn\<rparr>]\<rparr>"

text \<open>
  The loop over the peers in the order of the rotation. \<open>stop\<close> is the shutdown flag before each of them; the loop
  that is not aware of the shutdown reads none, and takes every error for a failure of the peer.
\<close>

fun rotate_over :: "bool \<Rightarrow> (nat \<Rightarrow> bool) \<Rightarrow> nat \<Rightarrow> ('p, 'w) attempt \<Rightarrow> nat list \<Rightarrow> 'p peer_list \<Rightarrow> 'w \<Rightarrow>
    rotation_end \<times> 'p peer_list \<times> 'w" where
  "rotate_over aware stop now att [] pl w = (Unsent (AllPeersUnavailable (length (pl_state pl))), pl, w)"
| "rotate_over aware stop now att (idx # idxs) pl w =
     (if aware \<and> stop idx then (Unsent PeerPreSendShutdown, pl, w)
      else if cooled now (pl_state pl ! idx) then rotate_over aware stop now att idxs pl w
      else case att idx (ps_conn (pl_state pl ! idx)) w of
        (AttOk, c, w', _) \<Rightarrow> (Sent, peer_succeeded idx c pl, w')
      | (AttErr e, c, w', failed_at) \<Rightarrow> rotate_over aware stop now att idxs (peer_failed idx c failed_at pl) w'
      | (AttPreSend, c, w', failed_at) \<Rightarrow>
          (if aware then (Unsent PeerPreSendShutdown, peer_touched idx c pl, w')
           else rotate_over aware stop now att idxs (peer_failed idx c failed_at pl) w')
      | (AttCut, c, w', failed_at) \<Rightarrow> (Cut, peer_touched idx c pl, w'))"

definition rotation_order :: "nat \<Rightarrow> nat \<Rightarrow> nat list" where
  "rotation_order n start = map (\<lambda>offset. (start + offset) mod n) [0 ..< n]"

definition rotation :: "bool \<Rightarrow> (nat \<Rightarrow> bool) \<Rightarrow> nat \<Rightarrow> ('p, 'w) attempt \<Rightarrow> 'p peer_list \<Rightarrow> 'w \<Rightarrow>
    rotation_end \<times> 'p peer_list \<times> 'w" where
  "rotation aware stop now att pl w =
     (let n = length (pl_state pl) in
      if n = 0 then (Unsent PeersEmpty, pl, w)
      else rotate_over aware stop now att (rotation_order n (unat (pl_cursor pl) mod n)) (pl\<lparr>pl_cursor := pl_cursor pl + 1\<rparr>) w)"

definition write_with_rotation_at :: "nat \<Rightarrow> ('p, 'w) attempt \<Rightarrow> 'p peer_list \<Rightarrow> 'w \<Rightarrow> rotation_end \<times> 'p peer_list \<times> 'w" where
  "write_with_rotation_at = rotation False (\<lambda>_. False)"

definition write_with_rotation_shutdown_aware :: "(nat \<Rightarrow> bool) \<Rightarrow> nat \<Rightarrow> ('p, 'w) attempt \<Rightarrow> 'p peer_list \<Rightarrow> 'w \<Rightarrow>
    rotation_end \<times> 'p peer_list \<times> 'w" where
  "write_with_rotation_shutdown_aware = rotation True"

subsection \<open>One candidate at a time\<close>

record rotating_peers =
  rp_cursor :: "64 word"
  rp_cooldown :: "nat option list"

definition rotating_new :: "nat \<Rightarrow> rotating_peers" where
  "rotating_new n = \<lparr>rp_cursor = 0, rp_cooldown = replicate n None\<rparr>"

definition rp_free :: "nat \<Rightarrow> nat option \<Rightarrow> bool" where
  "rp_free now guard = (case guard of None \<Rightarrow> True | Some till \<Rightarrow> till \<le> now)"

definition rp_select :: "nat \<Rightarrow> rotating_peers \<Rightarrow> nat \<times> rotating_peers" where
  "rp_select now rp =
     (let n = length (rp_cooldown rp); start = unat (rp_cursor rp) mod n
      in (case find (\<lambda>c. rp_free now (rp_cooldown rp ! c)) (rotation_order n start) of Some c \<Rightarrow> c | None \<Rightarrow> start,
          rp\<lparr>rp_cursor := rp_cursor rp + 1\<rparr>))"

definition mark_success :: "nat \<Rightarrow> rotating_peers \<Rightarrow> rotating_peers" where
  "mark_success idx rp = rp\<lparr>rp_cooldown := (rp_cooldown rp)[idx := None]\<rparr>"

definition mark_failure :: "nat \<Rightarrow> nat \<Rightarrow> rotating_peers \<Rightarrow> rotating_peers" where
  "mark_failure now idx rp = rp\<lparr>rp_cooldown := (rp_cooldown rp)[idx := Some (now + peer_cooldown)]\<rparr>"

subsection \<open>The order of a rotation\<close>

lemma rotation_order_set: "0 < n \<Longrightarrow> set (rotation_order n start) = {..<n}"
proof
  assume n: "0 < n"
  show "set (rotation_order n start) \<subseteq> {..<n}" using n by (auto simp: rotation_order_def)
  show "{..<n} \<subseteq> set (rotation_order n start)"
  proof
    fix i assume i: "i \<in> {..<n}"
    define k where "k = (i + n - start mod n) mod n"
    have "(start + k) mod n = (start mod n + (i + n - start mod n)) mod n" unfolding k_def by (simp add: mod_simps)
    also have "start mod n + (i + n - start mod n) = i + n" using mod_less_divisor[OF n, of start] by simp
    also have "(i + n) mod n = i" using i by simp
    finally show "i \<in> set (rotation_order n start)" using n by (force simp: rotation_order_def k_def image_iff)
  qed
qed

lemma rotation_order_distinct: "distinct (rotation_order n start)"
proof (cases "n = 0")
  case False
  then have "card (set (rotation_order n start)) = length (rotation_order n start)"
    by (simp add: rotation_order_set) (simp add: rotation_order_def)
  then show ?thesis by (rule card_distinct)
qed (simp add: rotation_order_def)

lemma rotation_order_length [simp]: "length (rotation_order n start) = n"
  by (simp add: rotation_order_def)

lemma rotation_order_hd: "0 < n \<Longrightarrow> start < n \<Longrightarrow> rotation_order n start ! 0 = start"
  by (simp add: rotation_order_def)

subsection \<open>What a rotation does\<close>

lemma peer_updates [simp]:
  "length (pl_state (peer_failed i c t pl)) = length (pl_state pl)" "length (pl_state (peer_succeeded i c pl)) = length (pl_state pl)"
  "length (pl_state (peer_touched i c pl)) = length (pl_state pl)"
  "j \<noteq> i \<Longrightarrow> pl_state (peer_failed i c t pl) ! j = pl_state pl ! j" "j \<noteq> i \<Longrightarrow> pl_state (peer_succeeded i c pl) ! j = pl_state pl ! j"
  "j \<noteq> i \<Longrightarrow> pl_state (peer_touched i c pl) ! j = pl_state pl ! j"
  by (simp_all add: peer_failed_def peer_succeeded_def peer_touched_def Let_def)

lemma peer_updates_at:
  "i < length (pl_state pl) \<Longrightarrow> pl_state (peer_failed i c t pl) ! i = \<lparr>ps_conn = c, ps_cooldown = Some (t + peer_cooldown)\<rparr>"
  "i < length (pl_state pl) \<Longrightarrow> pl_state (peer_succeeded i c pl) ! i = \<lparr>ps_conn = c, ps_cooldown = None\<rparr>"
  "i < length (pl_state pl) \<Longrightarrow> ps_conn (pl_state (peer_touched i c pl) ! i) = c"
  by (simp_all add: peer_failed_def peer_succeeded_def peer_touched_def Let_def)

text \<open>An invariant of the connections and the output that every attempt keeps is kept by a rotation.\<close>

lemma rotate_over_inv:
  assumes "rotate_over aware stop now att idxs pl w = (r, pl', w')" "set idxs \<subseteq> {..<n}" "length (pl_state pl) = n"
    and "\<forall>i < n. P i (ps_conn (pl_state pl ! i)) w"
    and att: "\<And>i c w r c' w' t. i < n \<Longrightarrow> P i c w \<Longrightarrow> att i c w = (r, c', w', t) \<Longrightarrow> P i c' w' \<and> (\<forall>j d. j \<noteq> i \<longrightarrow> P j d w \<longrightarrow> P j d w')"
  shows "length (pl_state pl') = n \<and> (\<forall>i < n. P i (ps_conn (pl_state pl' ! i)) w')"
  using assms(1-4)
proof (induction idxs arbitrary: pl w)
  case (Cons idx idxs)
  obtain ar c w1 t where a: "att idx (ps_conn (pl_state pl ! idx)) w = (ar, c, w1, t)" by (cases "att idx (ps_conn (pl_state pl ! idx)) w") auto
  have i: "idx < length (pl_state pl)" and sub: "set idxs \<subseteq> {..<n}" using Cons.prems(2,3) by auto
  have keep: "P idx c w1 \<and> (\<forall>j d. j \<noteq> idx \<longrightarrow> P j d w \<longrightarrow> P j d w1)" using att[OF _ _ a] Cons.prems(3,4) i by blast
  have upd: "\<forall>j < n. P j (ps_conn (pl_state q ! j)) w1"
    if "pl_state q ! idx = st" "ps_conn st = c" "\<forall>j. j \<noteq> idx \<longrightarrow> pl_state q ! j = pl_state pl ! j" for q st
  proof (intro allI impI)
    fix j assume "j < n"
    then show "P j (ps_conn (pl_state q ! j)) w1" using keep that Cons.prems(4) by (cases "j = idx") simp_all
  qed
  have f: "\<forall>j < n. P j (ps_conn (pl_state (peer_failed idx c t pl) ! j)) w1"
    by (rule upd[OF peer_updates_at(1)[OF i]]) simp_all
  have s: "\<forall>j < n. P j (ps_conn (pl_state (peer_succeeded idx c pl) ! j)) w1"
    by (rule upd[OF peer_updates_at(2)[OF i]]) simp_all
  have p: "\<forall>j < n. P j (ps_conn (pl_state (peer_touched idx c pl) ! j)) w1"
    by (rule upd[OF refl peer_updates_at(3)[OF i]]) simp
  have rec: ?case if "rotate_over aware stop now att idxs (peer_failed idx c t pl) w1 = (r, pl', w')"
    using Cons.IH[OF that sub _ f] Cons.prems(3) by simp
  show ?case
  proof (cases "aware \<and> stop idx")
    case True
    then show ?thesis using Cons.prems(1,3,4) by auto
  next
    case False
    show ?thesis
    proof (cases "cooled now (pl_state pl ! idx)")
      case True
      then have "rotate_over aware stop now att idxs pl w = (r, pl', w')" using Cons.prems(1) False by (simp split: if_splits)
      from Cons.IH[OF this sub Cons.prems(3,4)] show ?thesis .
    next
      case nc: False
      show ?thesis
      proof (cases ar)
        case AttOk
        then show ?thesis using Cons.prems(1,3) False nc a s by (auto split: if_splits)
      next
        case (AttErr e)
        then show ?thesis using Cons.prems(1) False nc a by (intro rec) (auto split: if_splits)
      next
        case AttCut
        then show ?thesis using Cons.prems(1,3) False nc a p by (auto split: if_splits)
      next
        case AttPreSend
        then show ?thesis using Cons.prems(1,3) False nc a p rec by (cases aware) (auto split: if_splits)
      qed
    qed
  qed
qed simp

text \<open>
  The result of a rotation: success at the first peer that is not cooling and whose attempt works; \<open>AllPeersUnavailable\<close> only
  when every peer cools, from before or from a failure in this very call.
\<close>

lemma rotate_over_Sent:
  assumes "rotate_over aware stop now att idxs pl w = (Sent, pl', w')" "set idxs \<subseteq> {..<n}" "length (pl_state pl) = n"
    and "\<forall>i < n. P (ps_conn (pl_state pl ! i))" and att: "\<And>i c w r c' w' t. P c \<Longrightarrow> att i c w = (r, c', w', t) \<Longrightarrow> P c'"
  shows "\<exists>idx < n. \<exists>c0 w1 c t. P c0 \<and> att idx c0 w1 = (AttOk, c, w', t) \<and> ps_conn (pl_state pl' ! idx) = c"
  using assms(1-4)
proof (induction idxs arbitrary: pl w)
  case (Cons idx idxs)
  obtain ar c w1 t where a: "att idx (ps_conn (pl_state pl ! idx)) w = (ar, c, w1, t)" by (cases "att idx (ps_conn (pl_state pl ! idx)) w") auto
  have i: "idx < length (pl_state pl)" and sub: "set idxs \<subseteq> {..<n}" using Cons.prems(2,3) by auto
  have "P c" using att[OF _ a] Cons.prems(3,4) i by blast
  then have f: "\<forall>j < n. P (ps_conn (pl_state (peer_failed idx c t pl) ! j))"
    using Cons.prems(4) peer_updates_at(1)[OF i, of c t] by (metis peer_state.select_convs(1) peer_updates(4))
  have run: "\<not> (aware \<and> stop idx)" using Cons.prems(1) by auto
  show ?case
  proof (cases "cooled now (pl_state pl ! idx)")
    case True
    then have "rotate_over aware stop now att idxs pl w = (Sent, pl', w')" using Cons.prems(1) run by (simp split: if_splits)
    from Cons.IH[OF this sub Cons.prems(3,4)] show ?thesis .
  next
    case nc: False
    show ?thesis
    proof (cases "ar = AttOk")
      case True
      then have e: "pl' = peer_succeeded idx c pl" "w' = w1" using Cons.prems(1) run nc a by (auto split: if_splits)
      have "P (ps_conn (pl_state pl ! idx))" using Cons.prems(3,4) i by blast
      then show ?thesis using a True e peer_updates_at(2)[OF i, of c] i Cons.prems(3) by (intro exI[of _ idx]) auto
    next
      case False
      then have "rotate_over aware stop now att idxs (peer_failed idx c t pl) w1 = (Sent, pl', w')"
        using Cons.prems(1) run nc a by (cases ar) (auto split: if_splits)
      from Cons.IH[OF this sub _ f] show ?thesis using Cons.prems(3) by simp
    qed
  qed
qed simp

lemma rotate_over_unavailable:
  assumes "rotate_over aware stop now att idxs pl w = (Unsent (AllPeersUnavailable k), pl', w')" "set idxs \<subseteq> {..<length (pl_state pl)}"
    and "\<forall>i < length (pl_state pl). i \<notin> set idxs \<longrightarrow> cooled now (pl_state pl ! i)" "distinct idxs"
    and "\<And>i c w r c' w' t. att i c w = (r, c', w', t) \<Longrightarrow> now \<le> t"
  shows "k = length (pl_state pl) \<and> length (pl_state pl') = k \<and> (\<forall>i < k. cooled now (pl_state pl' ! i))"
  using assms(1-4)
proof (induction idxs arbitrary: pl w)
  case (Cons idx idxs)
  obtain ar c w1 t where a: "att idx (ps_conn (pl_state pl ! idx)) w = (ar, c, w1, t)" by (cases "att idx (ps_conn (pl_state pl ! idx)) w") auto
  have i: "idx < length (pl_state pl)" and sub: "set idxs \<subseteq> {..<length (pl_state pl)}" and d: "distinct idxs" using Cons.prems(2,4) by auto
  have t: "now \<le> t" using assms(5) a by blast
  show ?case
  proof (cases "cooled now (pl_state pl ! idx)")
    case True
    then have "\<forall>i < length (pl_state pl). i \<notin> set idxs \<longrightarrow> cooled now (pl_state pl ! i)" using Cons.prems(3) by auto
    then show ?thesis using Cons.IH[OF _ sub _ d] Cons.prems(1) True by (auto split: if_splits)
  next
    case False
    define q where "q = peer_failed idx c t pl"
    have rec: "rotate_over aware stop now att idxs q w1 = (Unsent (AllPeersUnavailable k), pl', w')"
      using Cons.prems(1) False a by (cases ar) (auto simp: q_def split: if_splits)
    have "\<forall>i < length (pl_state q). i \<notin> set idxs \<longrightarrow> cooled now (pl_state q ! i)"
    proof (intro allI impI)
      fix j assume "j < length (pl_state q)" "j \<notin> set idxs"
      then show "cooled now (pl_state q ! j)"
        using Cons.prems(3) peer_updates_at(1)[OF i, of c t] t by (cases "j = idx") (auto simp: q_def cooled_def peer_cooldown_def)
    qed
    then show ?thesis using Cons.IH[OF rec] sub d by (simp add: q_def)
  qed
qed auto

text \<open>A rotation gives up only when every peer cools down, from an earlier failure or from one in this very call. The candidate for a
  batch is the first peer from the cursor on that does not cool down, and the peer at the cursor when all of them do.\<close>

theorem peers_rotation:
  assumes "\<forall>i c w. now \<le> snd (snd (snd (att i c w)))"
  shows "(rotation aware stop now att pl w = (Unsent (AllPeersUnavailable k), pl', w') \<longrightarrow>
      k = length (pl_state pl) \<and> length (pl_state pl') = k \<and> (\<forall>i < k. cooled now (pl_state pl' ! i))) \<and>
    (rp_cooldown rp \<noteq> [] \<longrightarrow> (case rp_select now rp of (c, _) \<Rightarrow> c < length (rp_cooldown rp) \<and>
      (\<exists>before. \<exists>after. rotation_order (length (rp_cooldown rp)) (unat (rp_cursor rp) mod length (rp_cooldown rp)) = before @ c # after \<and>
        (\<forall>b \<in> set before. \<not> rp_free now (rp_cooldown rp ! b)) \<and>
        (rp_free now (rp_cooldown rp ! c) \<or> before = [] \<and> (\<forall>i < length (rp_cooldown rp). \<not> rp_free now (rp_cooldown rp ! i))))))"
proof (intro conjI impI)
  have att: "\<And>i c w r c' w' t. att i c w = (r, c', w', t) \<Longrightarrow> now \<le> t"
    using assms by (metis snd_conv)
  assume r: "rotation aware stop now att pl w = (Unsent (AllPeersUnavailable k), pl', w')"
  then have n: "0 < length (pl_state pl)" by (auto simp: rotation_def)
  have "rotate_over aware stop now att (rotation_order (length (pl_state pl)) (unat (pl_cursor pl) mod length (pl_state pl)))
      (pl\<lparr>pl_cursor := pl_cursor pl + 1\<rparr>) w = (Unsent (AllPeersUnavailable k), pl', w')"
    using r n by (simp add: rotation_def Let_def)
  from rotate_over_unavailable[OF this _ _ rotation_order_distinct att]
  show "k = length (pl_state pl)" "length (pl_state pl') = k" "\<forall>i < k. cooled now (pl_state pl' ! i)"
    using rotation_order_set[OF n] by auto
next
  assume ne: "rp_cooldown rp \<noteq> []"
  let ?n = "length (rp_cooldown rp)" and ?ok = "\<lambda>c. rp_free now (rp_cooldown rp ! c)"
  let ?start = "unat (rp_cursor rp) mod ?n"
  let ?ord = "rotation_order ?n ?start"
  have n: "0 < ?n" using ne by simp
  note set = rotation_order_set[OF n, of ?start]
  show "case rp_select now rp of (c, _) \<Rightarrow> c < ?n \<and> (\<exists>before. \<exists>after. ?ord = before @ c # after \<and> (\<forall>b \<in> set before. \<not> ?ok b) \<and>
      (?ok c \<or> before = [] \<and> (\<forall>i < ?n. \<not> ?ok i)))"
  proof (cases "find ?ok ?ord")
    case None
    then have "\<forall>i < ?n. \<not> ?ok i" using set by (auto simp: find_None_iff)
    moreover have "?ord = [] @ ?start # tl ?ord"
      using rotation_order_hd[OF n, of ?start] n by (cases ?ord) (auto simp: rotation_order_def)
    ultimately show ?thesis using None n by (auto simp: rp_select_def Let_def)
  next
    case (Some c)
    then obtain i where i: "i < ?n" "?ok c" "c = ?ord ! i" "\<forall>j < i. \<not> ?ok (?ord ! j)" by (auto simp: find_Some_iff)
    have "?ord = take i ?ord @ c # drop (Suc i) ?ord" using i by (simp add: id_take_nth_drop)
    moreover have "\<forall>b \<in> set (take i ?ord). \<not> ?ok b" using i by (auto simp: in_set_conv_nth)
    moreover have "c < ?n" using i set nth_mem[of i ?ord] by auto
    ultimately show ?thesis using Some i(2) by (auto simp: rp_select_def Let_def)
  qed
qed

theorem peers_rotation_witness:
  "rotation True (\<lambda>_. False) 7 (\<lambda>i c w. (AttErr [], c, w, 7)) (peer_list_new [()]) () =
     (Unsent (AllPeersUnavailable 1), peer_failed 0 () 7 (peer_list_new [()]\<lparr>pl_cursor := 1\<rparr>), ()) \<and>
   cooled 7 (pl_state (peer_failed 0 () 7 (peer_list_new [()]\<lparr>pl_cursor := 1\<rparr>)) ! 0)"
proof -
  let ?after = "peer_failed 0 () 7 (peer_list_new [()]\<lparr>pl_cursor := 1\<rparr>)"
  have r: "rotation True (\<lambda>_. False) 7 (\<lambda>i c w. (AttErr [], c, w, 7)) (peer_list_new [()]) () =
     (Unsent (AllPeersUnavailable 1), peer_failed 0 () 7 (peer_list_new [()]\<lparr>pl_cursor := 1\<rparr>), ())"
    by (simp add: rotation_def rotation_order_def peer_list_new_def cooled_def peer_failed_def)
  have "\<forall>(i :: nat) (c :: unit) (w :: unit). 7 \<le> snd (snd (snd (AttErr [], c, w, 7 :: nat)))" by simp
  from peers_rotation[OF this, THEN conjunct1, THEN mp, OF r, THEN conjunct2, THEN conjunct2] r show ?thesis by simp
qed

end
