(* ===== verification/ByteSource.thy ===== *)
theory ByteSource
  imports Prelude
begin

section \<open>Byte sources\<close>

text \<open>
  What a connection delivers to a reader: the pieces the socket hands over, in order, ending in the end
  of the stream or a read error. \<open>Idle\<close> is a silence longer than the reader's timer; a reader without a
  timer waits it out. \<open>read\<close>, \<open>read_exact\<close> and the buffered \<open>fill_buf\<close> and \<open>consume\<close> of tokio are loops over
  the pieces, and their result depends only on the bytes that arrive, not on how they are cut.
\<close>

datatype chunk = Data bytes | ReadError | Idle

datatype read_end = AtEof | AtError | AtIdle

datatype read_outcome = Got bytes | Stop read_end

text \<open>The bytes a reader gets to see and what it meets after them; \<open>t\<close> is whether it has a timer.\<close>

fun arrived :: "bool \<Rightarrow> chunk list \<Rightarrow> bytes" where
  "arrived t [] = []"
| "arrived t (Data b # s) = b @ arrived t s"
| "arrived t (ReadError # s) = []"
| "arrived t (Idle # s) = (if t then [] else arrived t s)"

fun ending :: "bool \<Rightarrow> chunk list \<Rightarrow> read_end" where
  "ending t [] = AtEof"
| "ending t (Data b # s) = ending t s"
| "ending t (ReadError # s) = AtError"
| "ending t (Idle # s) = (if t then AtIdle else ending t s)"

fun weight :: "chunk list \<Rightarrow> nat" where
  "weight [] = 0"
| "weight (Data b # s) = length b + weight s"
| "weight (_ # s) = weight s"

text \<open>One \<open>read\<close> into a buffer of \<open>n\<close> bytes.\<close>

fun read_some :: "bool \<Rightarrow> nat \<Rightarrow> chunk list \<Rightarrow> read_outcome \<times> chunk list" where
  "read_some t n [] = (Stop AtEof, [])"
| "read_some t n (Data b # s) =
     (if b = [] then read_some t n s
      else (Got (take n b), if length b \<le> n then s else Data (drop n b) # s))"
| "read_some t n (ReadError # s) = (Stop AtError, s)"
| "read_some t n (Idle # s) = (if t then (Stop AtIdle, s) else read_some t n s)"

lemma read_some_Got:
  "read_some t n s = (Got b, s') \<Longrightarrow> 0 < n \<Longrightarrow>
     b \<noteq> [] \<and> length b \<le> n \<and> arrived t s = b @ arrived t s' \<and> ending t s' = ending t s \<and> weight s = length b + weight s'"
  by (induction t n s arbitrary: b s' rule: read_some.induct) (auto split: if_splits)

lemma read_some_Stop:
  "read_some t n s = (Stop e, s') \<Longrightarrow> arrived t s = [] \<and> e = ending t s \<and> weight s' \<le> weight s"
  by (induction t n s arbitrary: s' rule: read_some.induct) (auto split: if_splits)

text \<open>The loop of \<open>read_exact\<close>: the bytes or why it stopped, the bytes received, the rest.\<close>

function read_exact :: "bool \<Rightarrow> nat \<Rightarrow> chunk list \<Rightarrow> (read_end + bytes) \<times> nat \<times> chunk list" where
  "read_exact t n s =
     (if n = 0 then (Inr [], 0, s)
      else case read_some t n s of
        (Stop e, s') \<Rightarrow> (Inl e, 0, s')
      | (Got b, s') \<Rightarrow> (case read_exact t (n - length b) s' of
          (r, k, s'') \<Rightarrow> (case r of Inl e \<Rightarrow> Inl e | Inr c \<Rightarrow> Inr (b @ c), length b + k, s'')))"
  by pat_completeness auto
termination
  by (relation "measure (\<lambda>(t, n, s). n)") (auto dest!: sym[of "(_, _)" "read_some _ _ _"] dest: read_some_Got)

declare read_exact.simps [simp del]

lemma read_exact_full:
  "n \<le> length (arrived t s) \<Longrightarrow>
     \<exists>s'. read_exact t n s = (Inr (take n (arrived t s)), n, s') \<and> arrived t s' = drop n (arrived t s)
        \<and> ending t s' = ending t s \<and> weight s = n + weight s'"
proof (induction t n s rule: read_exact.induct)
  case (1 t n s)
  show ?case
  proof (cases "n = 0")
    case False
    obtain r s1 where r: "read_some t n s = (r, s1)" by fastforce
    show ?thesis
    proof (cases r)
      case (Stop e)
      then show ?thesis using read_some_Stop[of t n s e s1] r False 1(2) by simp
    next
      case (Got b)
      note g = read_some_Got[OF r[unfolded Got]] False
      have ih: "\<exists>s'. read_exact t (n - length b) s1 = (Inr (take (n - length b) (arrived t s1)), n - length b, s')
        \<and> arrived t s' = drop (n - length b) (arrived t s1) \<and> ending t s' = ending t s1 \<and> weight s1 = n - length b + weight s'"
        using 1(1)[OF False r[symmetric] Got] g 1(2) by auto
      then show ?thesis using g r Got by (subst read_exact.simps) auto
    qed
  qed (simp add: read_exact.simps)
qed

lemma read_exact_short:
  "length (arrived t s) < n \<Longrightarrow>
     \<exists>s'. read_exact t n s = (Inl (ending t s), length (arrived t s), s') \<and> weight s' \<le> weight s"
proof (induction t n s rule: read_exact.induct)
  case (1 t n s)
  obtain r s1 where r: "read_some t n s = (r, s1)" by fastforce
  have n: "0 < n" using 1(2) by simp
  show ?case
  proof (cases r)
    case (Stop e)
    then show ?thesis using read_some_Stop[of t n s e s1] r n by (subst read_exact.simps) simp
  next
    case (Got b)
    note g = read_some_Got[OF r[unfolded Got] n]
    have "\<exists>s'. read_exact t (n - length b) s1 = (Inl (ending t s1), length (arrived t s1), s') \<and> weight s' \<le> weight s1"
      using 1(1)[OF _ r[symmetric] Got] g n 1(2) by auto
    then show ?thesis using g r Got n by (subst read_exact.simps) auto
  qed
qed

lemma read_exact_ok:
  assumes "arrived t s = b @ r" "length b = n"
  obtains s' where "read_exact t n s = (Inr b, n, s')" "arrived t s' = r" "ending t s' = ending t s" "weight s = n + weight s'"
  using read_exact_full[of n t s] assms that by auto

lemma read_exact_Inr:
  assumes "read_exact t n s = (Inr b, k, s')"
  shows "k = n \<and> length b = n \<and> arrived t s = b @ arrived t s' \<and> ending t s' = ending t s \<and> weight s = n + weight s'"
proof (cases "n \<le> length (arrived t s)")
  case True
  then show ?thesis using read_exact_full[OF True] assms by auto
next
  case False
  then show ?thesis using read_exact_short[of t s n] assms by auto
qed

lemma read_exact_Inl:
  assumes "read_exact t n s = (Inl e, k, s')"
  shows "length (arrived t s) < n \<and> k = length (arrived t s) \<and> e = ending t s \<and> weight s' \<le> weight s"
proof (cases "n \<le> length (arrived t s)")
  case True
  then show ?thesis using read_exact_full[OF True] assms by auto
next
  case False
  then show ?thesis using read_exact_short[of t s n] assms by auto
qed

text \<open>Cutting the same bytes differently gives the same result.\<close>

definition same_bytes :: "bool \<Rightarrow> chunk list \<Rightarrow> chunk list \<Rightarrow> bool" where
  "same_bytes t s u \<longleftrightarrow> arrived t s = arrived t u \<and> ending t s = ending t u"

lemma read_exact_same:
  assumes "same_bytes t s u"
  obtains e k s' u' where "read_exact t n s = (Inl e, k, s')" "read_exact t n u = (Inl e, k, u')"
  | b s' u' where "read_exact t n s = (Inr b, n, s')" "read_exact t n u = (Inr b, n, u')" "same_bytes t s' u'"
proof (cases "n \<le> length (arrived t s)")
  case True
  then obtain s' u' where "read_exact t n s = (Inr (take n (arrived t s)), n, s')" "read_exact t n u = (Inr (take n (arrived t s)), n, u')"
    "same_bytes t s' u'"
    using read_exact_full[of n t s] read_exact_full[of n t u] assms by (auto simp: same_bytes_def)
  then show thesis by (rule that(2))
next
  case False
  then obtain s' u' where "read_exact t n s = (Inl (ending t s), length (arrived t s), s')"
    "read_exact t n u = (Inl (ending t s), length (arrived t s), u')"
    using read_exact_short[of t s n] read_exact_short[of t u n] assms by (auto simp: same_bytes_def not_le)
  then show thesis by (rule that(1))
qed

text \<open>\<open>fill_buf\<close> of a buffered reader: the bytes at hand, empty at the end; \<open>consume\<close> drops the first of them.\<close>

fun fill_buf :: "bool \<Rightarrow> chunk list \<Rightarrow> read_outcome \<times> chunk list" where
  "fill_buf t [] = (Stop AtEof, [])"
| "fill_buf t (Data b # s) = (if b = [] then fill_buf t s else (Got b, Data b # s))"
| "fill_buf t (ReadError # s) = (Stop AtError, s)"
| "fill_buf t (Idle # s) = (if t then (Stop AtIdle, s) else fill_buf t s)"

fun consume_buf :: "nat \<Rightarrow> chunk list \<Rightarrow> chunk list" where
  "consume_buf n (Data b # s) = Data (drop n b) # s"
| "consume_buf n s = s"

lemma fill_buf_Got:
  "fill_buf t s = (Got b, s') \<Longrightarrow> b \<noteq> [] \<and> (\<exists>s''. s' = Data b # s'') \<and> arrived t s' = arrived t s \<and> ending t s' = ending t s
     \<and> weight s' \<le> weight s"
  by (induction t s rule: fill_buf.induct) (auto split: if_splits)

lemma fill_buf_Stop: "fill_buf t s = (Stop e, s') \<Longrightarrow> arrived t s = [] \<and> e = ending t s"
  by (induction t s rule: fill_buf.induct) (auto split: if_splits)

lemma fill_buf_chunk: "fill_buf t s = (Got b, s') \<Longrightarrow> Data b \<in> set s"
  by (induction t s rule: fill_buf.induct) (auto split: if_splits)

text \<open>One connection's bytes as a single piece.\<close>

lemma arrived_simple [simp]: "arrived t [Data b] = b" "ending t [Data b] = AtEof" "weight [Data b] = length b"
  by simp_all

end
