(* ===== verification/Value.thy ===== *)
theory Value
  imports F64
begin

section \<open>DSL values\<close>

text \<open>
  The two representations of a DSL value (\<open>dsl/value.rs\<close>): the transient form that flows through
  evaluation, whose objects are slices of entries in insertion order that may repeat a key, and
  the owned form that crosses an event boundary, whose objects are insertion-ordered maps. An
  \<open>i64\<close> is an integer in range (\<open>val_ok\<close>); a timestamp is its nanoseconds since the epoch.
\<close>

datatype val =
    VNull
  | VBool bool
  | VInt int
  | VFloat f64
  | VString rstr
  | VBytes bytes
  | VTimestamp int
  | VArray "val list"
  | VObject "(rstr \<times> val) list"

datatype owned =
    ONull
  | OBool bool
  | OInt int
  | OFloat f64
  | OString rstr
  | OBytes bytes
  | OTimestamp int
  | OArray "owned list"
  | OObject "(rstr \<times> owned) list"

type_synonym obj = "(rstr \<times> val) list"
type_synonym omap = "(rstr \<times> owned) list"

subsection \<open>Conversions between the two forms\<close>

text \<open>\<open>OwnedValue::view_in\<close>\<close>

fun view_in :: "owned \<Rightarrow> val" where
  "view_in ONull = VNull"
| "view_in (OBool b) = VBool b"
| "view_in (OInt n) = VInt n"
| "view_in (OFloat n) = VFloat n"
| "view_in (OString s) = VString s"
| "view_in (OBytes b) = VBytes b"
| "view_in (OTimestamp t) = VTimestamp t"
| "view_in (OArray items) = VArray (map view_in items)"
| "view_in (OObject m) = VObject (map (\<lambda>(k, v). (k, view_in v)) m)"

text \<open>\<open>IndexMap::insert\<close>, folded over entries as the loops that build a map do.\<close>

definition imap_insert :: "'v \<times> ('k \<times> 'v) list \<Rightarrow> 'k \<Rightarrow> ('k \<times> 'v) list" where
  "imap_insert = (\<lambda>(v, m) k. al_set k v m)"

definition imap_of :: "('k \<times> 'v) list \<Rightarrow> ('k \<times> 'v) list" where
  "imap_of es = foldl (\<lambda>m (k, v). imap_insert (v, m) k) [] es"

text \<open>\<open>Value::to_owned_value\<close>\<close>

fun to_owned_value :: "val \<Rightarrow> owned" where
  "to_owned_value VNull = ONull"
| "to_owned_value (VBool b) = OBool b"
| "to_owned_value (VInt n) = OInt n"
| "to_owned_value (VFloat n) = OFloat n"
| "to_owned_value (VString s) = OString s"
| "to_owned_value (VBytes b) = OBytes b"
| "to_owned_value (VTimestamp t) = OTimestamp t"
| "to_owned_value (VArray items) = OArray (map to_owned_value items)"
| "to_owned_value (VObject entries) =
     OObject (imap_of (map (\<lambda>(k, v). (k, to_owned_value v)) entries))"

subsection \<open>Predicates and accessors\<close>

text \<open>\<open>Value::is_truthy\<close>\<close>

fun is_truthy :: "val \<Rightarrow> bool" where
  "is_truthy VNull = False"
| "is_truthy (VBool b) = b"
| "is_truthy (VInt n) = (n \<noteq> 0)"
| "is_truthy (VFloat n) = (\<not> f64_eq n f64_zero \<and> \<not> f64_is_nan n)"
| "is_truthy (VString s) = (s \<noteq> [])"
| "is_truthy (VBytes b) = (b \<noteq> [])"
| "is_truthy (VTimestamp _) = True"
| "is_truthy (VArray a) = (a \<noteq> [])"
| "is_truthy (VObject m) = (m \<noteq> [])"

fun is_bytes :: "val \<Rightarrow> bool" where
  "is_bytes (VBytes _) = True"
| "is_bytes _ = False"

fun is_string :: "val \<Rightarrow> bool" where
  "is_string (VString _) = True"
| "is_string _ = False"

text \<open>\<open>Value::get\<close>: the first entry of the key in insertion order.\<close>

fun val_get :: "val \<Rightarrow> rstr \<Rightarrow> val option" where
  "val_get (VObject entries) k = map_of entries k"
| "val_get _ k = None"

text \<open>\<open>Value::type_name\<close>\<close>

fun type_name :: "val \<Rightarrow> string" where
  "type_name VNull = ''null''"
| "type_name (VBool _) = ''bool''"
| "type_name (VInt _) = ''int''"
| "type_name (VFloat _) = ''float''"
| "type_name (VString _) = ''string''"
| "type_name (VBytes _) = ''bytes''"
| "type_name (VTimestamp _) = ''timestamp''"
| "type_name (VArray _) = ''array''"
| "type_name (VObject _) = ''object''"

subsection \<open>Structural equality\<close>

text \<open>\<open>PartialEq for Value\<close>: numbers by value, objects entry by entry in order.\<close>

fun val_eq :: "val \<Rightarrow> val \<Rightarrow> bool"
  and vals_eq :: "val list \<Rightarrow> val list \<Rightarrow> bool"
  and entries_eq :: "obj \<Rightarrow> obj \<Rightarrow> bool" where
  "val_eq VNull VNull = True"
| "val_eq (VBool a) (VBool b) = (a = b)"
| "val_eq (VInt a) (VInt b) = (a = b)"
| "val_eq (VFloat a) (VFloat b) = f64_eq a b"
| "val_eq (VInt a) (VFloat b) = f64_eq (f64_of_int a) b"
| "val_eq (VFloat b) (VInt a) = f64_eq (f64_of_int a) b"
| "val_eq (VString a) (VString b) = (a = b)"
| "val_eq (VBytes a) (VBytes b) = (a = b)"
| "val_eq (VTimestamp a) (VTimestamp b) = (a = b)"
| "val_eq (VArray a) (VArray b) = vals_eq a b"
| "val_eq (VObject a) (VObject b) = entries_eq a b"
| "val_eq _ _ = False"
| "vals_eq [] [] = True"
| "vals_eq (x # xs) (y # ys) = (val_eq x y \<and> vals_eq xs ys)"
| "vals_eq _ _ = False"
| "entries_eq [] [] = True"
| "entries_eq ((k, x) # xs) ((l, y) # ys) = ((k = l \<and> val_eq x y) \<and> entries_eq xs ys)"
| "entries_eq _ _ = False"

subsection \<open>Well-formed values\<close>

text \<open>
  What the Rust types guarantee: an \<open>Int\<close> is an \<open>i64\<close>, and an owned object has one entry per key.
\<close>

fun val_ok :: "val \<Rightarrow> bool" where
  "val_ok (VInt n) = in_i64 n"
| "val_ok (VArray xs) = list_all val_ok xs"
| "val_ok (VObject es) = list_all (\<lambda>(k, v). val_ok v) es"
| "val_ok _ = True"

fun owned_ok :: "owned \<Rightarrow> bool" where
  "owned_ok (OInt n) = in_i64 n"
| "owned_ok (OArray xs) = list_all owned_ok xs"
| "owned_ok (OObject m) = (distinct (map fst m) \<and> list_all (\<lambda>(k, v). owned_ok v) m)"
| "owned_ok _ = True"

abbreviation entries_ok :: "obj \<Rightarrow> bool" where
  "entries_ok es \<equiv> list_all (\<lambda>(k, v). val_ok v) es"

lemma entries_ok_map_of: "entries_ok es \<Longrightarrow> map_of es k = Some v \<Longrightarrow> val_ok v"
  by (auto simp: list_all_iff dest!: map_of_SomeD)

lemma entries_ok_al_set: "entries_ok es \<Longrightarrow> val_ok v \<Longrightarrow> entries_ok (al_set k v es)"
  using set_al_set[of k v es] by (force simp: list_all_iff)

lemma entries_ok_al_remove: "entries_ok es \<Longrightarrow> entries_ok (al_remove k es)"
  using al_remove_subset[of k es] by (auto simp: list_all_iff)

subsection \<open>Insertion-ordered maps\<close>

lemma imap_of_snoc: "imap_of (es @ [(k, v)]) = al_set k v (imap_of es)"
  by (simp add: imap_of_def imap_insert_def)

lemma imap_of_distinct [simp]: "distinct (map fst (imap_of es))"
proof (induction es rule: rev_induct)
  case (snoc x xs)
  then show ?case by (cases x) (simp add: imap_of_snoc)
qed (simp add: imap_of_def)

lemma al_set_fresh: "k \<notin> fst ` set m \<Longrightarrow> al_set k v m = m @ [(k, v)]"
  by (induction m) auto

lemma imap_of_id: "distinct (map fst es) \<Longrightarrow> imap_of es = es"
proof (induction es rule: rev_induct)
  case (snoc x xs)
  then show ?case by (cases x) (auto simp: imap_of_snoc al_set_fresh)
qed (simp add: imap_of_def)

lemma map_of_imap_of: "map_of (imap_of es) k = map_of (rev es) k"
proof (induction es rule: rev_induct)
  case (snoc x xs)
  then show ?case by (cases x) (simp add: imap_of_snoc)
qed (simp add: imap_of_def)

lemma set_imap_of: "set (imap_of es) \<subseteq> set es"
proof (induction es rule: rev_induct)
  case (snoc x xs)
  then show ?case using set_al_set[of "fst x" "snd x" "imap_of xs"] by (cases x) (auto simp: imap_of_snoc)
qed (simp add: imap_of_def)

subsection \<open>The two forms agree\<close>

lemma to_owned_view [simp]: "owned_ok v \<Longrightarrow> to_owned_value (view_in v) = v"
proof (induction v)
  case (OArray xs)
  then show ?case by (simp add: list_all_iff map_idI)
next
  case (OObject m)
  have "map ((\<lambda>(k, v). (k, to_owned_value v)) \<circ> (\<lambda>(k, v). (k, view_in v))) m = m"
    using OObject by (intro map_idI) (fastforce simp: list_all_iff)
  with OObject show ?case by (simp add: imap_of_id)
qed auto

lemma view_in_ok: "owned_ok v \<Longrightarrow> val_ok (view_in v)"
  by (induction v) (fastforce simp: list_all_iff)+

lemma to_owned_value_ok: "val_ok v \<Longrightarrow> owned_ok (to_owned_value v)"
proof (induction v)
  case (VArray xs)
  then show ?case by (auto simp: list_all_iff)
next
  case (VObject es)
  have "owned_ok w" if "(k, w) \<in> set (map (\<lambda>(k, v). (k, to_owned_value v)) es)" for k w
    using that VObject by (fastforce simp: list_all_iff)
  then have "\<forall>(k, w) \<in> set (imap_of (map (\<lambda>(k, v). (k, to_owned_value v)) es)). owned_ok w"
    using set_imap_of[of "map (\<lambda>(k, v). (k, to_owned_value v)) es"] by blast
  then show ?case by (simp add: list_all_iff)
qed auto

end
