(* ===== verification/Event.thy ===== *)
theory Event
  imports Value
begin

section \<open>Events\<close>

text \<open>
  The message that flows through a pipeline (\<open>event.rs\<close>): the owned form that crosses channels and
  persistence and the borrowed form a pipeline run works on, the acknowledgement handle an input
  embeds, and the workspace operations. The owned workspace is a hash map: an association list
  with one entry per key, in the map's iteration order.
\<close>

datatype ip_addr = V4 nat nat nat nat | V6 "nat list"

type_synonym sock_addr = "ip_addr \<times> nat"
type_synonym uuid = nat

record hop_stamp =
  node_id :: string
  arrival_unix_nano :: nat
  departure_unix_nano :: nat

subsection \<open>Acknowledgement handles\<close>

datatype ack_position = AckOffset nat nat | AckCursor string

text \<open>\<open>AckHandle\<close>: the pending position; \<open>Drop\<close> sends it on the input's channel unless disarmed.\<close>

record ack_handle =
  ack_pos :: "ack_position option"

definition ack_new :: "ack_position \<Rightarrow> ack_handle" where
  "ack_new p = \<lparr>ack_pos = Some p\<rparr>"

definition ack_disarm :: "ack_handle \<Rightarrow> ack_handle" where
  "ack_disarm h = h\<lparr>ack_pos := None\<rparr>"

definition ack_drop :: "ack_handle \<Rightarrow> ack_position list \<Rightarrow> ack_handle \<times> ack_position list" where
  "ack_drop h chan = (h\<lparr>ack_pos := None\<rparr>, case ack_pos h of Some p \<Rightarrow> chan @ [p] | None \<Rightarrow> chan)"

subsection \<open>The two forms of an event\<close>

record owned_event =
  oe_key :: uuid
  oe_received_at :: int
  oe_source :: sock_addr
  oe_ingress :: bytes
  oe_egress :: bytes
  oe_workspace :: omap
  oe_ltp_stamps :: "hop_stamp list option"
  oe_ack :: "ack_handle option"

record borrowed_event =
  be_key :: uuid
  be_received_at :: int
  be_source :: sock_addr
  be_ingress :: bytes
  be_egress :: bytes
  be_ltp_stamps :: "hop_stamp list option"
  be_workspace :: obj

record queued_event =
  qe_event :: owned_event
  qe_emitted_ns :: int

text \<open>\<open>OwnedEvent::new\<close>, with the minted key and the clock reading as arguments.\<close>

definition event_new :: "uuid \<Rightarrow> int \<Rightarrow> bytes \<Rightarrow> sock_addr \<Rightarrow> owned_event" where
  "event_new key now ingress src =
     \<lparr>oe_key = key, oe_received_at = now, oe_source = src, oe_ingress = ingress, oe_egress = ingress,
      oe_workspace = [], oe_ltp_stamps = None, oe_ack = None\<rparr>"

definition event_with_ack :: "uuid \<Rightarrow> int \<Rightarrow> bytes \<Rightarrow> sock_addr \<Rightarrow> ack_handle \<Rightarrow> owned_event" where
  "event_with_ack key now ingress src ack =
     \<lparr>oe_key = key, oe_received_at = now, oe_source = src, oe_ingress = ingress, oe_egress = ingress,
      oe_workspace = [], oe_ltp_stamps = None, oe_ack = Some ack\<rparr>"

definition from_ltp_parts :: "uuid \<Rightarrow> int \<Rightarrow> sock_addr \<Rightarrow> bytes \<Rightarrow> hop_stamp list \<Rightarrow> owned_event" where
  "from_ltp_parts key received_at src payload stamps =
     \<lparr>oe_key = key, oe_received_at = received_at, oe_source = src, oe_ingress = payload,
      oe_egress = payload, oe_workspace = [],
      oe_ltp_stamps = (if stamps \<noteq> [] then Some stamps else None), oe_ack = None\<rparr>"

definition from_persisted_parts_with_stamps ::
  "uuid \<Rightarrow> int \<Rightarrow> sock_addr \<Rightarrow> bytes \<Rightarrow> bytes \<Rightarrow> hop_stamp list option \<Rightarrow> owned_event" where
  "from_persisted_parts_with_stamps key received_at src ingress egress stamps =
     \<lparr>oe_key = key, oe_received_at = received_at, oe_source = src, oe_ingress = ingress,
      oe_egress = egress, oe_workspace = [],
      oe_ltp_stamps = (case stamps of Some s \<Rightarrow> if s \<noteq> [] then Some s else None | None \<Rightarrow> None),
      oe_ack = None\<rparr>"

definition ltp_stamps_slice :: "owned_event \<Rightarrow> hop_stamp list" where
  "ltp_stamps_slice ev = (case oe_ltp_stamps ev of Some s \<Rightarrow> s | None \<Rightarrow> [])"

subsection \<open>Boundary conversions\<close>

text \<open>\<open>OwnedEvent::view_in\<close>\<close>

definition event_view_in :: "owned_event \<Rightarrow> borrowed_event" where
  "event_view_in ev =
     \<lparr>be_key = oe_key ev, be_received_at = oe_received_at ev, be_source = oe_source ev,
      be_ingress = oe_ingress ev, be_egress = oe_egress ev, be_ltp_stamps = oe_ltp_stamps ev,
      be_workspace = map (\<lambda>(k, v). (k, view_in v)) (oe_workspace ev)\<rparr>"

text \<open>\<open>BorrowedEvent::to_owned\<close>: every entry is inserted into a fresh map, the handle is not carried.\<close>

definition event_to_owned :: "borrowed_event \<Rightarrow> owned_event" where
  "event_to_owned ev =
     \<lparr>oe_key = be_key ev, oe_received_at = be_received_at ev, oe_source = be_source ev,
      oe_ingress = be_ingress ev, oe_egress = be_egress ev,
      oe_workspace = imap_of (map (\<lambda>(k, v). (k, to_owned_value v)) (be_workspace ev)),
      oe_ltp_stamps = be_ltp_stamps ev, oe_ack = None\<rparr>"

definition to_owned_without_workspace :: "borrowed_event \<Rightarrow> owned_event" where
  "to_owned_without_workspace ev =
     \<lparr>oe_key = be_key ev, oe_received_at = be_received_at ev, oe_source = be_source ev,
      oe_ingress = be_ingress ev, oe_egress = be_egress ev, oe_workspace = [],
      oe_ltp_stamps = be_ltp_stamps ev, oe_ack = None\<rparr>"

text \<open>\<open>BorrowedEvent::snapshot_in\<close>: a copy of every field; values are immutable.\<close>

definition snapshot_in :: "borrowed_event \<Rightarrow> borrowed_event" where
  "snapshot_in ev =
     \<lparr>be_key = be_key ev, be_received_at = be_received_at ev, be_source = be_source ev,
      be_ingress = be_ingress ev, be_egress = be_egress ev, be_ltp_stamps = be_ltp_stamps ev,
      be_workspace = map id (be_workspace ev)\<rparr>"

subsection \<open>Workspace operations\<close>

definition workspace_get :: "borrowed_event \<Rightarrow> rstr \<Rightarrow> val option" where
  "workspace_get ev k = map_of (be_workspace ev) k"

text \<open>\<open>workspace_set\<close> and \<open>workspace_set_str\<close> differ only in where the key is allocated.\<close>

definition workspace_set :: "rstr \<Rightarrow> val \<Rightarrow> borrowed_event \<Rightarrow> borrowed_event" where
  "workspace_set k v ev = ev\<lparr>be_workspace := al_set k v (be_workspace ev)\<rparr>"

definition workspace_set_str :: "rstr \<Rightarrow> val \<Rightarrow> borrowed_event \<Rightarrow> borrowed_event" where
  "workspace_set_str k v ev = ev\<lparr>be_workspace := al_set k v (be_workspace ev)\<rparr>"

text \<open>\<open>workspace_remove\<close>: the removed value and the event without its first entry.\<close>

definition workspace_remove :: "rstr \<Rightarrow> borrowed_event \<Rightarrow> val option \<times> borrowed_event" where
  "workspace_remove k ev =
     (map_of (be_workspace ev) k, ev\<lparr>be_workspace := al_remove k (be_workspace ev)\<rparr>)"

subsection \<open>Keyed stores\<close>

text \<open>
  The interface the executor relies on: a store of named values with lookup, insert-or-replace
  and removal. Its laws are those of a finite map.
\<close>

locale keyed_store =
  fixes lookup :: "'m \<Rightarrow> 'k \<Rightarrow> 'v option"
    and update :: "'k \<Rightarrow> 'v \<Rightarrow> 'm \<Rightarrow> 'm"
    and delete :: "'k \<Rightarrow> 'm \<Rightarrow> 'm"
    and invar :: "'m \<Rightarrow> bool"
  assumes lookup_update: "lookup (update k v m) = (lookup m)(k \<mapsto> v)"
    and lookup_delete: "invar m \<Longrightarrow> lookup (delete k m) = (lookup m)(k := None)"
    and invar_update: "invar m \<Longrightarrow> invar (update k v m)"
    and invar_delete: "invar m \<Longrightarrow> invar (delete k m)"
begin

lemma lookup_same: "lookup (update k v m) k = Some v"
  by (simp add: lookup_update)

lemma lookup_other: "k' \<noteq> k \<Longrightarrow> lookup (update k v m) k' = lookup m k'"
  by (simp add: lookup_update)

lemma scratch_key: "invar m \<Longrightarrow> lookup (delete k (update k v m)) = (lookup m)(k := None)"
  by (simp add: lookup_delete lookup_update invar_update)

lemma merge: "lookup (fold (\<lambda>(k, v). update k v) es m) = lookup m ++ map_of (rev es)"
  by (induction es arbitrary: m) (auto simp: lookup_update map_add_def fun_eq_iff split: option.splits)

lemma invar_merge: "invar m \<Longrightarrow> invar (fold (\<lambda>(k, v). update k v) es m)"
  by (induction es arbitrary: m) (auto simp: invar_update)

end

definition workspace_ok :: "borrowed_event \<Rightarrow> bool" where
  "workspace_ok ev \<longleftrightarrow> distinct (map fst (be_workspace ev)) \<and> entries_ok (be_workspace ev)"

definition workspace_distinct :: "borrowed_event \<Rightarrow> bool" where
  "workspace_distinct ev \<longleftrightarrow> distinct (map fst (be_workspace ev))"

interpretation ws: keyed_store workspace_get workspace_set "\<lambda>k ev. snd (workspace_remove k ev)"
    workspace_distinct
  by unfold_locales
    (auto simp: workspace_get_def workspace_set_def workspace_remove_def workspace_distinct_def
      alist_simps fun_eq_iff)

lemma workspace_set_str_eq [simp]: "workspace_set_str = workspace_set"
  by (intro ext) (simp add: workspace_set_str_def workspace_set_def)

lemma workspace_ok_distinct: "workspace_ok ev \<Longrightarrow> workspace_distinct ev"
  by (simp add: workspace_ok_def workspace_distinct_def)

lemma workspace_ok_set: "workspace_ok ev \<Longrightarrow> val_ok v \<Longrightarrow> workspace_ok (workspace_set k v ev)"
  by (simp add: workspace_ok_def workspace_set_def entries_ok_al_set)

lemma workspace_ok_remove: "workspace_ok ev \<Longrightarrow> workspace_ok (snd (workspace_remove k ev))"
  by (simp add: workspace_ok_def workspace_remove_def entries_ok_al_remove)

lemma workspace_ok_get: "workspace_ok ev \<Longrightarrow> workspace_get ev k = Some v \<Longrightarrow> val_ok v"
  by (auto simp: workspace_ok_def workspace_get_def dest: entries_ok_map_of)

subsection \<open>What the workspace operations leave unchanged\<close>

text \<open>The header of an event: everything but \<open>egress\<close> and the workspace.\<close>

definition be_header ::
  "borrowed_event \<Rightarrow> uuid \<times> int \<times> sock_addr \<times> bytes \<times> hop_stamp list option" where
  "be_header ev = (be_key ev, be_received_at ev, be_source ev, be_ingress ev, be_ltp_stamps ev)"

definition oe_header ::
  "owned_event \<Rightarrow> uuid \<times> int \<times> sock_addr \<times> bytes \<times> hop_stamp list option" where
  "oe_header ev = (oe_key ev, oe_received_at ev, oe_source ev, oe_ingress ev, oe_ltp_stamps ev)"

lemma header_workspace [frame, simp]:
  "be_header (workspace_set k v ev) = be_header ev"
  "be_header (snd (workspace_remove k ev)) = be_header ev"
  "be_header (snapshot_in ev) = be_header ev"
  "be_header (ev\<lparr>be_egress := b\<rparr>) = be_header ev"
  by (simp_all add: be_header_def workspace_set_def workspace_remove_def snapshot_in_def)

lemma header_convert [frame, simp]:
  "be_header (event_view_in oev) = oe_header oev"
  "oe_header (event_to_owned ev) = be_header ev"
  "oe_header (to_owned_without_workspace ev) = be_header ev"
  by (simp_all add: be_header_def oe_header_def event_view_in_def event_to_owned_def
      to_owned_without_workspace_def)

lemma snapshot_in_id [simp]: "snapshot_in ev = ev"
  by (simp add: snapshot_in_def)

definition owned_event_ok :: "owned_event \<Rightarrow> bool" where
  "owned_event_ok ev \<longleftrightarrow> distinct (map fst (oe_workspace ev)) \<and> list_all (\<lambda>(k, v). owned_ok v) (oe_workspace ev)"

lemma event_view_in_ok:
  assumes "owned_event_ok ev"
  shows "workspace_ok (event_view_in ev)"
proof -
  have "map fst (map (\<lambda>(k, v). (k, view_in v)) xs) = map fst xs" for xs :: omap
    by auto
  moreover have "entries_ok (map (\<lambda>(k, v). (k, view_in v)) (oe_workspace ev))"
    using assms by (auto simp: owned_event_ok_def list_all_iff view_in_ok)
  ultimately show ?thesis
    using assms unfolding owned_event_ok_def workspace_ok_def event_view_in_def by (simp del: map_map)
qed

text \<open>Borrowing an event and owning it again changes nothing but the acknowledgement handle.\<close>

lemma event_to_owned_view:
  assumes "owned_event_ok ev"
  shows "event_to_owned (event_view_in ev) = ev\<lparr>oe_ack := None\<rparr>"
proof -
  have "map ((\<lambda>(k, v). (k, to_owned_value v)) \<circ> (\<lambda>(k, v). (k, view_in v))) (oe_workspace ev)
        = oe_workspace ev"
    using assms by (intro map_idI) (fastforce simp: owned_event_ok_def list_all_iff)
  with assms show ?thesis
    by (simp add: event_to_owned_def event_view_in_def imap_of_id owned_event_ok_def)
qed

end
