(* ===== verification/LtpWire.thy ===== *)
theory LtpWire
  imports ByteSource Event
begin

section \<open>LTP frames\<close>

text \<open>
  The complete-frame codec of \<open>ltp.rs\<close> and the incremental frame reader of \<open>modules/input/ltp.rs\<close>. The
  protobuf coding of a frame's metadata is done by a third-party derive macro: encoder and decoder are
  arguments, the length the encoder announces is the length of what it writes.
\<close>

subsection \<open>Constants and messages\<close>

definition frame_magic :: bytes where "frame_magic = ''LTP'' @ [CHR 0x00]"
definition frame_version :: nat where "frame_version = 1"
definition meta_len_size :: nat where "meta_len_size = 4"
definition payload_len_size :: nat where "payload_len_size = 4"
definition frame_prefix_size :: nat where "frame_prefix_size = length frame_magic + 1 + meta_len_size"
definition max_meta_len :: nat where "max_meta_len = 64 * 1024"
definition max_payload_len :: nat where "max_payload_len = 16 * 1024 * 1024"

record ltp_meta =
  lm_key :: bytes
  lm_stamps :: "hop_stamp list"

record ltp_hello =
  lh_node_id :: rstr

datatype frame_error =
    BadMagic
  | BadVersion nat
  | MetaTooLarge nat
  | PayloadTooLarge nat
  | Truncated
  | Trailing
  | MetaDecode

text \<open>The messages of the errors an encoder can give; a decode error carries the library's text.\<close>

fun frame_error_text :: "frame_error \<Rightarrow> string" where
  "frame_error_text BadMagic = ''invalid LTP frame magic''"
| "frame_error_text (BadVersion v) = ''unsupported LTP frame version '' @ nat_digits v"
| "frame_error_text (MetaTooLarge n) = ''LTP metadata length '' @ nat_digits n @ '' exceeds the limit''"
| "frame_error_text (PayloadTooLarge n) = ''LTP payload length '' @ nat_digits n @ '' exceeds the limit''"
| "frame_error_text Truncated = ''truncated LTP frame''"
| "frame_error_text Trailing = ''trailing bytes after LTP frame''"
| "frame_error_text MetaDecode = ''invalid LTP metadata: ''"

text \<open>\<open>u32::to_be_bytes\<close> and \<open>u32::from_be_bytes\<close>.\<close>

definition be32 :: "nat \<Rightarrow> bytes" where
  "be32 n = map char_of [n div 2 ^ 24, n div 2 ^ 16, n div 2 ^ 8, n]"

definition of_be32 :: "bytes \<Rightarrow> nat" where
  "of_be32 b = foldl (\<lambda>n c. n * 256 + of_char c) 0 b"

subsection \<open>The complete-frame codec\<close>

definition encode_message_frame :: "('m \<Rightarrow> bytes) \<Rightarrow> 'm \<Rightarrow> bytes \<Rightarrow> frame_error + bytes" where
  "encode_message_frame enc m payload =
     (let meta_len = length (enc m) in
      if max_meta_len < meta_len then Inl (MetaTooLarge meta_len)
      else if max_payload_len < length payload then Inl (PayloadTooLarge (length payload))
      else Inr (frame_magic @ [char_of frame_version] @ be32 meta_len @ enc m @ be32 (length payload) @ payload))"

definition encode_frame :: "(ltp_meta \<Rightarrow> bytes) \<Rightarrow> ltp_meta \<Rightarrow> bytes \<Rightarrow> frame_error + bytes" where
  "encode_frame enc m payload = encode_message_frame enc m payload"

definition encode_hello_frame :: "(ltp_hello \<Rightarrow> bytes) \<Rightarrow> ltp_hello \<Rightarrow> frame_error + bytes" where
  "encode_hello_frame enc h = encode_message_frame enc h []"

definition slice :: "nat \<Rightarrow> nat \<Rightarrow> bytes \<Rightarrow> bytes" where
  "slice i j b = take (j - i) (drop i b)"

definition decode_frame :: "(bytes \<Rightarrow> ltp_meta option) \<Rightarrow> bytes \<Rightarrow> frame_error + ltp_meta \<times> bytes" where
  "decode_frame dec frame =
     (if length frame < length frame_magic then Inl Truncated
      else if slice 0 (length frame_magic) frame \<noteq> frame_magic then Inl BadMagic
      else if length frame < length frame_magic + 1 then Inl Truncated
      else let version = of_char (frame ! length frame_magic) in
      if version \<noteq> frame_version then Inl (BadVersion version)
      else if length frame < frame_prefix_size then Inl Truncated
      else let meta_len = of_be32 (slice (length frame_magic + 1) frame_prefix_size frame) in
      if max_meta_len < meta_len then Inl (MetaTooLarge meta_len)
      else let meta_start = frame_prefix_size;
               meta_end = meta_start + meta_len;
               payload_len_end = meta_end + payload_len_size in
      if length frame < payload_len_end then Inl Truncated
      else let payload_len = of_be32 (slice meta_end payload_len_end frame) in
      if max_payload_len < payload_len then Inl (PayloadTooLarge payload_len)
      else let payload_end = payload_len_end + payload_len in
      if length frame < payload_end then Inl Truncated
      else if payload_end < length frame then Inl Trailing
      else case dec (slice meta_start meta_end frame) of
          None \<Rightarrow> Inl MetaDecode
        | Some m \<Rightarrow> Inr (m, slice payload_len_end payload_end frame))"

subsection \<open>The incremental reader\<close>

datatype frame_fault =
    TruncatedPrefix
  | ReadFailed
  | FaultMagic
  | FaultVersion nat
  | FaultMetaLen nat
  | TruncatedMeta
  | TruncatedPayloadLen
  | FaultPayloadLen nat
  | TruncatedPayload

datatype frame_read =
    NoFrame
  | Frame bytes bytes
  | BadFrame frame_fault

text \<open>
  \<open>read_frame_inner\<close>: the frame, the payload bytes it counted as received, and the rest of the stream. The
  lengths are checked before anything of that length is read.
\<close>

definition read_frame :: "chunk list \<Rightarrow> frame_read \<times> nat \<times> chunk list" where
  "read_frame s = (case read_exact False 1 s of
     (Inl AtEof, _, s1) \<Rightarrow> (NoFrame, 0, s1)
   | (Inl _, _, s1) \<Rightarrow> (BadFrame ReadFailed, 0, s1)
   | (Inr first, _, s1) \<Rightarrow> (case read_exact False (frame_prefix_size - 1) s1 of
       (Inl _, _, s2) \<Rightarrow> (BadFrame TruncatedPrefix, 0, s2)
     | (Inr others, _, s2) \<Rightarrow>
        (let prefix = first @ others in
         if slice 0 (length frame_magic) prefix \<noteq> frame_magic then (BadFrame FaultMagic, 0, s2)
         else if of_char (prefix ! length frame_magic) \<noteq> frame_version
           then (BadFrame (FaultVersion (of_char (prefix ! length frame_magic))), 0, s2)
         else let meta_len = of_be32 (slice 5 9 prefix) in
         if max_meta_len < meta_len then (BadFrame (FaultMetaLen meta_len), 0, s2)
         else (case read_exact False meta_len s2 of
           (Inl _, _, s3) \<Rightarrow> (BadFrame TruncatedMeta, 0, s3)
         | (Inr metadata, _, s3) \<Rightarrow> (case read_exact False payload_len_size s3 of
             (Inl _, _, s4) \<Rightarrow> (BadFrame TruncatedPayloadLen, 0, s4)
           | (Inr len_bytes, _, s4) \<Rightarrow>
               (let payload_len = of_be32 len_bytes in
                if max_payload_len < payload_len then (BadFrame (FaultPayloadLen payload_len), 0, s4)
                else (case read_exact False payload_len s4 of
                  (Inl AtEof, n, s5) \<Rightarrow> (BadFrame TruncatedPayload, n, s5)
                | (Inl _, n, s5) \<Rightarrow> (BadFrame ReadFailed, n, s5)
                | (Inr payload, n, s5) \<Rightarrow> (Frame metadata payload, n, s5))))))))"

subsection \<open>Lengths and slices\<close>

lemma of_char_char_of [simp]: "of_char (char_of n :: char) = (n mod 256 :: nat)"
  by simp

lemma length_be32 [simp]: "length (be32 n) = 4"
  by (simp add: be32_def)

lemma of_be32_be32: "n < 2 ^ 32 \<Longrightarrow> of_be32 (be32 n) = n"
proof -
  assume n: "n < 2 ^ 32"
  have "n div 2 ^ 24 mod 256 = n div 2 ^ 24" using n by (simp add: less_mult_imp_div_less)
  moreover have "n div 2 ^ 16 = n div 2 ^ 24 * 256 + n div 2 ^ 16 mod 256"
    using div_mult_mod_eq[of "n div 2 ^ 16" 256] by (simp add: div_mult2_eq[symmetric])
  moreover have "n div 2 ^ 8 = n div 2 ^ 16 * 256 + n div 2 ^ 8 mod 256"
    using div_mult_mod_eq[of "n div 2 ^ 8" 256] by (simp add: div_mult2_eq[symmetric])
  moreover have "n = n div 2 ^ 8 * 256 + n mod 256"
    by simp
  ultimately show ?thesis by (simp add: of_be32_def be32_def)
qed

lemma of_be32_inj: "length b = 4 \<Longrightarrow> be32 (of_be32 b) = b"
proof -
  assume "length b = 4"
  then obtain a1 a2 a3 a4 where b: "b = [a1, a2, a3, a4]"
    by (auto simp: length_Suc_conv eval_nat_numeral)
  have small: "(of_char a :: nat) < 256" for a :: char by (rule nat_of_char_less_256)
  define x1 x2 x3 x4 where x: "x1 = (of_char a1 :: nat)" "x2 = (of_char a2 :: nat)" "x3 = (of_char a3 :: nat)" "x4 = (of_char a4 :: nat)"
  have le: "x1 < 256" "x2 < 256" "x3 < 256" "x4 < 256" using small x by auto
  have d: "(((x1 * 256 + x2) * 256 + x3) * 256 + x4) div 2 ^ 24 = x1"
    "(((x1 * 256 + x2) * 256 + x3) * 256 + x4) div 2 ^ 16 = x1 * 256 + x2"
    "(((x1 * 256 + x2) * 256 + x3) * 256 + x4) div 2 ^ 8 = (x1 * 256 + x2) * 256 + x3"
    using le by (auto simp: div_eq_dividend_iff)
  have c: "char_of (y * 256 + of_char a) = a" for y :: nat and a :: char
    by (metis char_of_mod_256 char_of_char mod_mult_self3)
  show ?thesis unfolding b be32_def of_be32_def using d c[of x1 a2] c[of "x1 * 256 + x2" a3] c[of "(x1 * 256 + x2) * 256 + x3" a4]
    by (simp add: x)
qed

lemma frame_consts [simp]: "length frame_magic = 4" "frame_prefix_size = 9" "payload_len_size = 4"
  by (simp_all add: frame_magic_def frame_prefix_size_def meta_len_size_def payload_len_size_def)

lemma limits_u32: "max_meta_len < 2 ^ 32" "max_payload_len < 2 ^ 32"
  by (simp_all add: max_meta_len_def max_payload_len_def)

lemma slice_mid: "length xs = i \<Longrightarrow> length ys + i = j \<Longrightarrow> slice i j (xs @ ys @ zs) = ys"
  by (auto simp: slice_def)

text \<open>The wire form of one frame, given its coded metadata.\<close>

definition frame_bytes :: "bytes \<Rightarrow> bytes \<Rightarrow> bytes" where
  "frame_bytes mb p = frame_magic @ [char_of frame_version] @ be32 (length mb) @ mb @ be32 (length p) @ p"

definition frame_fits :: "bytes \<Rightarrow> bytes \<Rightarrow> bool" where
  "frame_fits mb p \<longleftrightarrow> length mb \<le> max_meta_len \<and> length p \<le> max_payload_len"

lemma length_frame_bytes [simp]: "length (frame_bytes mb p) = 13 + length mb + length p"
  by (simp add: frame_bytes_def)

lemma encode_message_frame_Inr [simp]:
  "encode_message_frame enc m p = Inr f \<longleftrightarrow> frame_fits (enc m) p \<and> f = frame_bytes (enc m) p"
  by (auto simp: encode_message_frame_def frame_bytes_def frame_fits_def Let_def not_less)

lemma frame_fits_u32: "frame_fits mb p \<Longrightarrow> length mb < 2 ^ 32 \<and> length p < 2 ^ 32"
  using limits_u32 by (auto simp: frame_fits_def)

subsection \<open>Decoding\<close>

lemma decode_frame_bytes:
  assumes "frame_fits mb p"
  shows "decode_frame dec (frame_bytes mb p) = (case dec mb of None \<Rightarrow> Inl MetaDecode | Some m \<Rightarrow> Inr (m, p))"
proof -
  let ?f = "frame_bytes mb p"
  define q where "q = frame_magic @ [char_of frame_version] @ be32 (length mb)"
  have q: "length q = 9" "?f = q @ mb @ be32 (length p) @ p" by (simp_all add: q_def frame_bytes_def)
  have s: "slice 0 4 ?f = frame_magic" "?f ! 4 = char_of frame_version" "slice 5 9 ?f = be32 (length mb)"
    by (simp_all add: slice_def frame_bytes_def nth_append)
  have s': "slice 9 (9 + length mb) ?f = mb" "slice (9 + length mb) (13 + length mb) ?f = be32 (length p)"
    "slice (13 + length mb) (13 + length mb + length p) ?f = p"
    unfolding q(2) using slice_mid[of q 9 mb "9 + length mb"] slice_mid[of "q @ mb" "9 + length mb" "be32 (length p)" "13 + length mb" p]
      slice_mid[of "q @ mb @ be32 (length p)" "13 + length mb" p "13 + length mb + length p" "[]"] q(1)
    by (simp_all add: add.commute)
  have n: "of_be32 (be32 (length mb)) = length mb" "of_be32 (be32 (length p)) = length p"
    using frame_fits_u32[OF assms] by (simp_all add: of_be32_be32)
  show ?thesis using s s' n assms
    by (simp add: decode_frame_def Let_def frame_version_def frame_fits_def add.commute add.left_commute split: option.split)
qed

lemma slice_split: "i \<le> j \<Longrightarrow> j \<le> length b \<Longrightarrow> drop i b = slice i j b @ drop j b"
  unfolding slice_def by (metis append_take_drop_id drop_drop le_add_diff_inverse2)

lemma length_slice: "i \<le> j \<Longrightarrow> j \<le> length b \<Longrightarrow> length (slice i j b) = j - i"
  by (simp add: slice_def)

lemma frame_of_parts:
  assumes "slice 0 4 f = frame_magic" "of_char (f ! 4) = frame_version" "slice 5 9 f = lb" "slice 9 (9 + n) f = mb"
    "slice (9 + n) (13 + n) f = pb" "slice (13 + n) (13 + n + k) f = p" "length f = 13 + n + k" "of_be32 lb = n" "of_be32 pb = k"
  shows "f = frame_bytes mb p" "length mb = n" "length p = k"
proof -
  have "f = slice 0 4 f @ drop 4 f" using slice_split[of 0 4 f] assms(7) by simp
  moreover have "drop 4 f = f ! 4 # drop 5 f" using assms(7) by (simp add: Cons_nth_drop_Suc eval_nat_numeral)
  moreover have "drop 5 f = lb @ mb @ pb @ p"
  proof -
    have "drop 5 f = lb @ drop 9 f" using slice_split[of 5 9 f] assms(3,7) by simp
    also have "drop 9 f = mb @ drop (9 + n) f" using slice_split[of 9 "9 + n" f] assms(4,7) by simp
    also have "drop (9 + n) f = pb @ drop (13 + n) f" using slice_split[of "9 + n" "13 + n" f] assms(5,7) by simp
    also have "drop (13 + n) f = p" using slice_split[of "13 + n" "13 + n + k" f] assms(6,7) by simp
    finally show ?thesis .
  qed
  moreover have "f ! 4 = char_of frame_version" using assms(2) by (metis char_of_char)
  moreover show "length mb = n" "length p = k" using length_slice[of 9 "9 + n" f] length_slice[of "13 + n" "13 + n + k" f] assms by auto
  moreover have "lb = be32 n" "pb = be32 k"
    using of_be32_inj[of lb] of_be32_inj[of pb] length_slice[of 5 9 f] length_slice[of "9 + n" "13 + n" f] assms by auto
  ultimately show "f = frame_bytes mb p" using assms(1) by (simp add: frame_bytes_def)
qed

lemma decode_frame_Inr:
  assumes "decode_frame dec f = Inr (m, p)"
  obtains mb where "f = frame_bytes mb p" "dec mb = Some m" "frame_fits mb p"
proof -
  define n where "n = of_be32 (slice 5 9 f)"
  define k where "k = of_be32 (slice (9 + n) (13 + n) f)"
  have c: "slice 0 4 f = frame_magic" "of_char (f ! 4) = frame_version" "length f = 13 + n + k" "n \<le> max_meta_len" "k \<le> max_payload_len"
    "dec (slice 9 (9 + n) f) = Some m" "p = slice (13 + n) (13 + n + k) f"
    using assms unfolding n_def k_def
    by (auto simp: decode_frame_def Let_def not_less add.commute add.left_commute split: if_splits option.splits)
  note parts = frame_of_parts[OF c(1,2) refl refl refl refl c(3) n_def[symmetric] k_def[symmetric]]
  show thesis using that[of "slice 9 (9 + n) f"] parts c by (simp add: frame_fits_def)
qed

subsection \<open>Reading from a stream\<close>

lemma read_frame_bytes:
  assumes fits: "frame_fits mb p" and s: "arrived False s = frame_bytes mb p @ rest"
  obtains s' where "read_frame s = (Frame mb p, length p, s')" "arrived False s' = rest" "ending False s' = ending False s"
    "weight s = 13 + length mb + length p + weight s'"
proof -
  define first others where "first = take 1 frame_magic" and "others = drop 1 frame_magic @ [char_of frame_version] @ be32 (length mb)"
  have pre: "first @ others = frame_magic @ [char_of frame_version] @ be32 (length mb)" "length first = 1" "length others = 8"
    by (simp_all add: first_def others_def frame_magic_def)
  have "arrived False s = first @ others @ mb @ be32 (length p) @ p @ rest"
    using s pre(1) unfolding frame_bytes_def by (metis append.assoc)
  from read_exact_ok[OF this pre(2)] obtain s1 where
    s1: "read_exact False 1 s = (Inr first, 1, s1)" "arrived False s1 = others @ mb @ be32 (length p) @ p @ rest"
      "ending False s1 = ending False s" "weight s = 1 + weight s1" .
  from read_exact_ok[OF s1(2) pre(3)] obtain s2 where
    s2: "read_exact False 8 s1 = (Inr others, 8, s2)" "arrived False s2 = mb @ be32 (length p) @ p @ rest"
      "ending False s2 = ending False s1" "weight s1 = 8 + weight s2" .
  from read_exact_ok[OF s2(2) refl] obtain s3 where
    s3: "read_exact False (length mb) s2 = (Inr mb, length mb, s3)" "arrived False s3 = be32 (length p) @ p @ rest"
      "ending False s3 = ending False s2" "weight s2 = length mb + weight s3" .
  from read_exact_ok[OF s3(2) length_be32] obtain s4 where
    s4: "read_exact False 4 s3 = (Inr (be32 (length p)), 4, s4)" "arrived False s4 = p @ rest"
      "ending False s4 = ending False s3" "weight s3 = 4 + weight s4" .
  from read_exact_ok[OF s4(2) refl] obtain s5 where
    s5: "read_exact False (length p) s4 = (Inr p, length p, s5)" "arrived False s5 = rest"
      "ending False s5 = ending False s4" "weight s4 = length p + weight s5" .
  have n: "of_be32 (be32 (length mb)) = length mb" "of_be32 (be32 (length p)) = length p"
    using frame_fits_u32[OF fits] by (simp_all add: of_be32_be32)
  have h: "slice 0 4 (first @ others) = frame_magic" "of_char ((first @ others) ! 4) = frame_version"
    "slice 5 9 (first @ others) = be32 (length mb)"
    unfolding pre(1) by (simp_all add: slice_def nth_append frame_version_def)
  have "read_frame s = (Frame mb p, length p, s5)"
    using s1(1) s2(1) s3(1) s4(1) s5(1) h n fits by (simp add: read_frame_def Let_def frame_fits_def)
  moreover have "weight s = 13 + length mb + length p + weight s5" using s1 s2 s3 s4 s5 by simp
  ultimately show thesis using that s5 s4 s3 s2 s1 by simp
qed

lemma read_frame_Frame:
  assumes "read_frame s = (Frame mb p, k, s')"
  shows "frame_fits mb p \<and> k = length p \<and> arrived False s = frame_bytes mb p @ arrived False s' \<and>
    ending False s' = ending False s \<and> weight s = 13 + length mb + length p + weight s'"
proof -
  obtain first s1 k1 where 1: "read_exact False 1 s = (Inr first, k1, s1)"
    using assms by (auto simp: read_frame_def split: prod.splits sum.splits read_end.splits)
  obtain others s2 k2 where 2: "read_exact False 8 s1 = (Inr others, k2, s2)"
    using assms 1 by (auto simp: read_frame_def split: prod.splits sum.splits read_end.splits)
  let ?pre = "first @ others"
  have h: "slice 0 4 ?pre = frame_magic" "of_char (?pre ! 4) = frame_version" "of_be32 (slice 5 9 ?pre) \<le> max_meta_len"
    using assms 1 2 by (auto simp: read_frame_def Let_def not_less split: prod.splits sum.splits if_splits)
  obtain s3 k3 where 3: "read_exact False (of_be32 (slice 5 9 ?pre)) s2 = (Inr mb, k3, s3)"
    using assms 1 2 h by (auto simp: read_frame_def Let_def split: prod.splits sum.splits if_splits read_end.splits)
  obtain lb s4 k4 where 4: "read_exact False 4 s3 = (Inr lb, k4, s4)"
    using assms 1 2 3 h by (auto simp: read_frame_def Let_def split: prod.splits sum.splits if_splits read_end.splits)
  have 5: "of_be32 lb \<le> max_payload_len" "read_exact False (of_be32 lb) s4 = (Inr p, k, s')"
    using assms 1 2 3 4 h by (auto simp: read_frame_def Let_def not_less split: prod.splits sum.splits if_splits read_end.splits)
  note r = read_exact_Inr[OF 1] read_exact_Inr[OF 2] read_exact_Inr[OF 3] read_exact_Inr[OF 4] read_exact_Inr[OF 5(2)]
  have f: "?pre @ mb @ lb @ p = frame_bytes mb p"
  proof (rule frame_of_parts(1)[of _ "slice 5 9 ?pre" "of_be32 (slice 5 9 ?pre)" _ lb "of_be32 lb"])
    let ?f = "?pre @ mb @ lb @ p" and ?n = "of_be32 (slice 5 9 ?pre)"
    have pre9: "length ?pre = 9" using r by simp
    show "slice 0 4 ?f = frame_magic" "of_char (?f ! 4) = frame_version" "slice 5 9 ?f = slice 5 9 ?pre"
      using h(1,2) r by (auto simp: slice_def nth_append)
    show "slice 9 (9 + ?n) ?f = mb" using slice_mid[OF pre9, of mb "9 + ?n" "lb @ p"] r by simp
    show "slice (9 + ?n) (13 + ?n) ?f = lb" using slice_mid[of "?pre @ mb" "9 + ?n" lb "13 + ?n" p] r pre9 by simp
    show "slice (13 + ?n) (13 + ?n + of_be32 lb) ?f = p"
      using slice_mid[of "?pre @ mb @ lb" "13 + ?n" p "13 + ?n + of_be32 lb" "[]"] r pre9 by (simp add: add.commute)
    show "length ?f = 13 + ?n + of_be32 lb" using r by simp
  qed (rule refl)+
  have "arrived False s = (?pre @ mb @ lb @ p) @ arrived False s'" using r by simp
  then show ?thesis using f r h(3) 5(1) by (simp add: frame_fits_def)
qed

lemma read_frame_NoFrame:
  assumes "read_frame s = (NoFrame, k, s')"
  shows "arrived False s = [] \<and> ending False s = AtEof"
proof -
  obtain k1 where "read_exact False 1 s = (Inl AtEof, k1, s')"
    using assms by (auto simp: read_frame_def Let_def split: prod.splits sum.splits if_splits read_end.splits)
  from read_exact_Inl[OF this] show ?thesis by auto
qed

text \<open>A frame read is a frame the codec accepts, unless its metadata does not decode.\<close>

lemma read_frame_decodes:
  assumes "read_frame s = (Frame mb p, k, s')" "dec mb = Some m"
  shows "\<exists>f. arrived False s = f @ arrived False s' \<and> decode_frame dec f = Inr (m, p)"
  using read_frame_Frame[OF assms(1)] assms(2) by (auto simp: decode_frame_bytes)

text \<open>How the stream is cut into pieces does not matter.\<close>

lemma read_frame_same:
  assumes su: "same_bytes False s u"
  shows "fst (read_frame s) = fst (read_frame u) \<and> fst (snd (read_frame s)) = fst (snd (read_frame u))"
proof (rule read_exact_same[OF su, of 1])
  fix first s1 u1
  assume 1: "read_exact False 1 s = (Inr first, 1, s1)" "read_exact False 1 u = (Inr first, 1, u1)" "same_bytes False s1 u1"
  show ?thesis
  proof (rule read_exact_same[OF 1(3), of 8])
    fix others s2 u2
    assume 2: "read_exact False 8 s1 = (Inr others, 8, s2)" "read_exact False 8 u1 = (Inr others, 8, u2)" "same_bytes False s2 u2"
    let ?n = "of_be32 (slice 5 9 (first @ others))"
    show ?thesis
    proof (rule read_exact_same[OF 2(3), of ?n])
      fix mb s3 u3
      assume 3: "read_exact False ?n s2 = (Inr mb, ?n, s3)" "read_exact False ?n u2 = (Inr mb, ?n, u3)" "same_bytes False s3 u3"
      show ?thesis
      proof (rule read_exact_same[OF 3(3), of 4])
        fix lb s4 u4
        assume 4: "read_exact False 4 s3 = (Inr lb, 4, s4)" "read_exact False 4 u3 = (Inr lb, 4, u4)" "same_bytes False s4 u4"
        show ?thesis
          by (rule read_exact_same[OF 4(3), of "of_be32 lb"])
            (use 1(1,2) 2(1,2) 3(1,2) 4(1,2) in \<open>auto simp: read_frame_def Let_def split: read_end.split\<close>)
      qed (use 1(1,2) 2(1,2) 3(1,2) in \<open>auto simp: read_frame_def Let_def\<close>)
    qed (use 1(1,2) 2(1,2) in \<open>auto simp: read_frame_def Let_def\<close>)
  qed (use 1(1,2) in \<open>auto simp: read_frame_def Let_def\<close>)
qed (auto simp: read_frame_def split: read_end.split)

lemma read_frame_same_rest:
  assumes su: "same_bytes False s u" and "read_frame s = (Frame mb p, k, s')" "read_frame u = (Frame mb p, k, u')"
  shows "same_bytes False s' u'"
  using read_frame_Frame[OF assms(2)] read_frame_Frame[OF assms(3)] su by (auto simp: same_bytes_def)

end
