(* ===== verification/Text.thy ===== *)
theory Text
  imports Event
begin

section \<open>Text of the standard library: UTF-8, addresses\<close>

text \<open>
  What the program uses of Rust's standard library for text: \<open>str::from_utf8\<close>, the \<open>Display\<close> of an
  IP address and the \<open>FromStr\<close> of a socket address.
\<close>

subsection \<open>UTF-8 validation\<close>

definition cont_byte :: "nat \<Rightarrow> bool" where
  "cont_byte b \<longleftrightarrow> 128 \<le> b \<and> b \<le> 191"

text \<open>The well-formed byte sequences of the Unicode standard, table 3-7.\<close>

fun utf8_bytes :: "nat list \<Rightarrow> bool" where
  "utf8_bytes [] = True"
| "utf8_bytes (a # xs) =
     (if a \<le> 127 then utf8_bytes xs
      else if 194 \<le> a \<and> a \<le> 223 then
        (case xs of b # ys \<Rightarrow> cont_byte b \<and> utf8_bytes ys | _ \<Rightarrow> False)
      else if 224 \<le> a \<and> a \<le> 239 then
        (case xs of b # c # ys \<Rightarrow>
           (if a = 224 then 160 \<le> b \<and> b \<le> 191 else if a = 237 then 128 \<le> b \<and> b \<le> 159 else cont_byte b)
           \<and> cont_byte c \<and> utf8_bytes ys | _ \<Rightarrow> False)
      else if 240 \<le> a \<and> a \<le> 244 then
        (case xs of b # c # d # ys \<Rightarrow>
           (if a = 240 then 144 \<le> b \<and> b \<le> 191 else if a = 244 then 128 \<le> b \<and> b \<le> 143 else cont_byte b)
           \<and> cont_byte c \<and> cont_byte d \<and> utf8_bytes ys | _ \<Rightarrow> False)
      else False)"

definition utf8_valid :: "bytes \<Rightarrow> bool" where
  "utf8_valid s = utf8_bytes (map of_char s)"

text \<open>
  \<open>String::from_utf8_lossy\<close>: each maximal prefix of an ill-formed sequence becomes one replacement
  character. \<open>utf8_step\<close> is the length of the next chunk and whether it is well formed.
\<close>

definition second_ok :: "nat \<Rightarrow> nat \<Rightarrow> bool" where
  "second_ok a b = (if a = 224 then 160 \<le> b \<and> b \<le> 191 else if a = 237 then 128 \<le> b \<and> b \<le> 159
     else if a = 240 then 144 \<le> b \<and> b \<le> 191 else if a = 244 then 128 \<le> b \<and> b \<le> 143 else cont_byte b)"

definition byte_at :: "nat list \<Rightarrow> nat \<Rightarrow> nat" where
  "byte_at xs i = (if i < length xs then xs ! i else 0)"

definition utf8_step :: "nat list \<Rightarrow> nat \<times> bool" where
  "utf8_step xs = (let a = byte_at xs 0; b = byte_at xs 1; c = byte_at xs 2; d = byte_at xs 3 in
     if a \<le> 127 then (1, True)
     else if 194 \<le> a \<and> a \<le> 223 then (if cont_byte b then (2, True) else (1, False))
     else if 224 \<le> a \<and> a \<le> 239 then
       (if \<not> second_ok a b then (1, False) else if \<not> cont_byte c then (2, False) else (3, True))
     else if 240 \<le> a \<and> a \<le> 244 then
       (if \<not> second_ok a b then (1, False) else if \<not> cont_byte c then (2, False)
        else if \<not> cont_byte d then (3, False) else (4, True))
     else (1, False))"

lemma utf8_step_pos: "(n, ok) = utf8_step xs \<Longrightarrow> 0 < n"
  by (auto simp: utf8_step_def Let_def split: if_splits)

function (sequential) utf8_lossy_bytes :: "nat list \<Rightarrow> nat list" where
  "utf8_lossy_bytes [] = []"
| "utf8_lossy_bytes xs = (case utf8_step xs of (n, ok) \<Rightarrow>
     (if ok then take n xs else [239, 191, 189]) @ utf8_lossy_bytes (drop n xs))"
  by pat_completeness auto
termination
  by (relation "measure length") (auto dest: utf8_step_pos)

definition from_utf8_lossy :: "bytes \<Rightarrow> rstr" where
  "from_utf8_lossy s = map char_of (utf8_lossy_bytes (map of_char s))"

subsection \<open>Display of an address\<close>

definition hex_char :: "nat \<Rightarrow> char" where
  "hex_char d = (if d < 10 then char_of (48 + d) else char_of (87 + d))"

fun hex_digits :: "nat \<Rightarrow> string" where
  "hex_digits n = (if n < 16 then [hex_char n] else hex_digits (n div 16) @ [hex_char (n mod 16)])"

declare hex_digits.simps [simp del]

fun join :: "string \<Rightarrow> string list \<Rightarrow> string" where
  "join sep [] = []"
| "join sep [x] = x"
| "join sep (x # xs) = x @ sep @ join sep xs"

definition show_v4 :: "nat \<Rightarrow> nat \<Rightarrow> nat \<Rightarrow> nat \<Rightarrow> string" where
  "show_v4 a b c d = join ''.'' (map nat_digits [a, b, c, d])"

text \<open>The first longest run of zero segments: \<open>(start, length)\<close>.\<close>

fun zero_span :: "nat \<Rightarrow> nat \<times> nat \<Rightarrow> nat \<times> nat \<Rightarrow> nat list \<Rightarrow> nat \<times> nat" where
  "zero_span i longest current [] = longest"
| "zero_span i longest current (s # ss) =
     (if s = 0 then
        (let cur = (if snd current = 0 then (i, 1) else (fst current, snd current + 1));
             lng = (if snd longest < snd cur then cur else longest)
         in zero_span (i + 1) lng cur ss)
      else zero_span (i + 1) longest (0, 0) ss)"

definition show_segments :: "nat list \<Rightarrow> string" where
  "show_segments ss = join '':'' (map hex_digits ss)"

definition show_v6 :: "nat list \<Rightarrow> string" where
  "show_v6 ss =
     (if take 5 ss = [0, 0, 0, 0, 0] \<and> ss ! 5 = 65535
      then ''::ffff:'' @ show_v4 (ss ! 6 div 256) (ss ! 6 mod 256) (ss ! 7 div 256) (ss ! 7 mod 256)
      else let (st, len) = zero_span 0 (0, 0) (0, 0) ss
           in if 1 < len then show_segments (take st ss) @ ''::'' @ show_segments (drop (st + len) ss)
              else show_segments ss)"

fun show_ip :: "ip_addr \<Rightarrow> string" where
  "show_ip (V4 a b c d) = show_v4 a b c d"
| "show_ip (V6 ss) = show_v6 ss"

fun ip_ok :: "ip_addr \<Rightarrow> bool" where
  "ip_ok (V4 a b c d) = (a < 256 \<and> b < 256 \<and> c < 256 \<and> d < 256)"
| "ip_ok (V6 ss) = (length ss = 8 \<and> list_all (\<lambda>s. s < 65536) ss)"

subsection \<open>Parsing a socket address\<close>

type_synonym 'a parser = "string \<Rightarrow> ('a \<times> string) option"

definition read_char :: "char \<Rightarrow> string \<Rightarrow> string option" where
  "read_char c s = (case s of x # xs \<Rightarrow> if x = c then Some xs else None | [] \<Rightarrow> None)"

definition digit_of :: "nat \<Rightarrow> char \<Rightarrow> nat option" where
  "digit_of radix c =
     (let n = of_char c :: nat;
          d = (if 48 \<le> n \<and> n \<le> 57 then n - 48 else if 97 \<le> n \<and> n \<le> 122 then n - 87
               else if 65 \<le> n \<and> n \<le> 90 then n - 55 else 99)
      in if d < radix then Some d else None)"

definition is_digit_of :: "nat \<Rightarrow> char \<Rightarrow> bool" where
  "is_digit_of radix c \<longleftrightarrow> digit_of radix c \<noteq> None"

text \<open>\<open>read_number\<close>: digits of the radix, at most \<open>max_digits\<close>, below \<open>bound\<close>, leading zeros optional.\<close>

definition read_number :: "nat \<Rightarrow> nat option \<Rightarrow> bool \<Rightarrow> nat \<Rightarrow> nat parser" where
  "read_number radix max_digits allow_zero bound s =
     (let ds = takeWhile (is_digit_of radix) s; rest = dropWhile (is_digit_of radix) s;
          n = foldl (\<lambda>n c. radix * n + the (digit_of radix c)) 0 ds
      in if ds = [] then None
         else if (case max_digits of Some k \<Rightarrow> k < length ds | None \<Rightarrow> False) then None
         else if bound \<le> n then None
         else if \<not> allow_zero \<and> hd ds = CHR ''0'' \<and> 1 < length ds then None
         else Some (n, rest))"

definition read_sep :: "char \<Rightarrow> nat \<Rightarrow> 'a parser \<Rightarrow> 'a parser" where
  "read_sep sep i p s =
     (if 0 < i then (case read_char sep s of None \<Rightarrow> None | Some s' \<Rightarrow> p s') else p s)"

definition read_octet :: "nat \<Rightarrow> nat parser" where
  "read_octet i = read_sep (CHR ''.'') i (read_number 10 (Some 3) False 256)"

definition read_ipv4 :: "ip_addr parser" where
  "read_ipv4 s =
     (case read_octet 0 s of None \<Rightarrow> None | Some (a, s1) \<Rightarrow>
      case read_octet 1 s1 of None \<Rightarrow> None | Some (b, s2) \<Rightarrow>
      case read_octet 2 s2 of None \<Rightarrow> None | Some (c, s3) \<Rightarrow>
      case read_octet 3 s3 of None \<Rightarrow> None | Some (d, s4) \<Rightarrow> Some (V4 a b c d, s4))"

definition read_port :: "nat parser" where
  "read_port s = (case read_char (CHR '':'') s of None \<Rightarrow> None
     | Some s' \<Rightarrow> read_number 10 None True 65536 s')"

text \<open>\<open>read_groups\<close>: up to \<open>limit\<close> hexadecimal groups, the last two possibly as a dotted address.\<close>

fun read_groups :: "nat \<Rightarrow> nat \<Rightarrow> nat \<Rightarrow> string \<Rightarrow> nat list \<times> bool \<times> string" where
  "read_groups 0 i limit s = ([], False, s)"
| "read_groups (Suc n) i limit s =
     (case (if i < limit - 1 then read_sep (CHR '':'') i read_ipv4 s else None) of
        Some (V4 a b c d, s') \<Rightarrow> ([a * 256 + b, c * 256 + d], True, s')
      | _ \<Rightarrow> (case read_sep (CHR '':'') i (read_number 16 (Some 4) True 65536) s of
           None \<Rightarrow> ([], False, s)
         | Some (g, s') \<Rightarrow> (let (gs, v4, s'') = read_groups n (i + 1) limit s' in (g # gs, v4, s''))))"

definition read_ipv6 :: "ip_addr parser" where
  "read_ipv6 s =
     (let (hd_gs, hd_v4, s1) = read_groups 8 0 8 s
      in if length hd_gs = 8 then Some (V6 hd_gs, s1)
         else if hd_v4 then None
         else case read_char (CHR '':'') s1 of None \<Rightarrow> None | Some s2 \<Rightarrow>
              case read_char (CHR '':'') s2 of None \<Rightarrow> None | Some s3 \<Rightarrow>
              (let limit = 8 - (length hd_gs + 1);
                   (tl_gs, _, s4) = read_groups limit 0 limit s3;
                   zeros = replicate (8 - length hd_gs - length tl_gs) 0
               in Some (V6 (hd_gs @ zeros @ tl_gs), s4)))"

definition read_scope :: "string \<Rightarrow> string" where
  "read_scope s = (case read_char (CHR ''%'') s of None \<Rightarrow> s
     | Some s' \<Rightarrow> (case read_number 10 None True (2 ^ 32) s' of None \<Rightarrow> s | Some (_, s'') \<Rightarrow> s''))"

definition read_socket_v4 :: "sock_addr parser" where
  "read_socket_v4 s = (case read_ipv4 s of None \<Rightarrow> None | Some (ip, s1) \<Rightarrow>
     (case read_port s1 of None \<Rightarrow> None | Some (port, s2) \<Rightarrow> Some ((ip, port), s2)))"

definition read_socket_v6 :: "sock_addr parser" where
  "read_socket_v6 s =
     (case read_char (CHR ''['') s of None \<Rightarrow> None | Some s1 \<Rightarrow>
      case read_ipv6 s1 of None \<Rightarrow> None | Some (ip, s2) \<Rightarrow>
      case read_char (CHR '']'') (read_scope s2) of None \<Rightarrow> None | Some s3 \<Rightarrow>
      case read_port s3 of None \<Rightarrow> None | Some (port, s4) \<Rightarrow> Some ((ip, port), s4))"

text \<open>\<open>SocketAddr::from_str\<close>: the IPv4 form, else the bracketed IPv6 form, to the end of the text.\<close>

definition parse_socket_addr :: "string \<Rightarrow> sock_addr option" where
  "parse_socket_addr s =
     (case (case read_socket_v4 s of Some r \<Rightarrow> Some r | None \<Rightarrow> read_socket_v6 s) of
        Some (a, []) \<Rightarrow> Some a | _ \<Rightarrow> None)"

end
