(* ===== verification/LtpInput.thy ===== *)
theory LtpInput
  imports LtpWire Metrics Text
begin

section \<open>The LTP listener\<close>

text \<open>
  \<open>modules/input/ltp.rs\<close>: the decision about a frame's event, a connection from the handshake to its end, the
  registry of established connections per peer key, and the checks on the declared listeners. TLS, the
  protobuf coding and the uuid library are third-party code: their results are arguments.
\<close>

record ltp_codec =
  lc_meta_enc :: "ltp_meta \<Rightarrow> bytes"
  lc_meta_dec :: "bytes \<Rightarrow> ltp_meta option"
  lc_hello_enc :: "ltp_hello \<Rightarrow> bytes"
  lc_hello_dec :: "bytes \<Rightarrow> ltp_hello option"
  lc_uuid_of :: "bytes \<Rightarrow> uuid"
  lc_uuid_bytes :: "uuid \<Rightarrow> bytes"
  lc_uuid_v7 :: "bytes \<Rightarrow> bool"

text \<open>
  What the code relies on: decoding inverts encoding, a uuid is its 16 bytes, and a fixed-width timestamp
  takes the same space whatever its value, and none when it is zero.
\<close>

definition sealed_at :: "nat \<Rightarrow> nat \<Rightarrow> hop_stamp list \<Rightarrow> hop_stamp list" where
  "sealed_at i t ss = ss[i := (ss ! i)\<lparr>departure_unix_nano := t\<rparr>]"

definition stamp_ok :: "hop_stamp \<Rightarrow> bool" where
  "stamp_ok s \<longleftrightarrow> utf8_valid (node_id s) \<and> arrival_unix_nano s < 2 ^ 64 \<and> departure_unix_nano s < 2 ^ 64"

definition meta_ok :: "ltp_meta \<Rightarrow> bool" where
  "meta_ok m \<longleftrightarrow> (\<forall>s \<in> set (lm_stamps m). stamp_ok s)"

definition codec_ok :: "ltp_codec \<Rightarrow> bool" where
  "codec_ok cx \<longleftrightarrow>
     (\<forall>m. meta_ok m \<longrightarrow> lc_meta_dec cx (lc_meta_enc cx m) = Some m) \<and>
     (\<forall>b m. lc_meta_dec cx b = Some m \<longrightarrow> meta_ok m) \<and>
     (\<forall>h. utf8_valid (lh_node_id h) \<longrightarrow> lc_hello_dec cx (lc_hello_enc cx h) = Some h) \<and>
     (\<forall>k < 2 ^ 128. length (lc_uuid_bytes cx k) = 16 \<and> lc_uuid_of cx (lc_uuid_bytes cx k) = k) \<and>
     (\<forall>b. length b = 16 \<longrightarrow> lc_uuid_of cx b < 2 ^ 128 \<and> lc_uuid_bytes cx (lc_uuid_of cx b) = b) \<and>
     (\<forall>key ss i t u. i < length ss \<longrightarrow> u \<noteq> 0 \<longrightarrow>
        length (lc_meta_enc cx \<lparr>lm_key = key, lm_stamps = sealed_at i t ss\<rparr>)
        \<le> length (lc_meta_enc cx \<lparr>lm_key = key, lm_stamps = sealed_at i u ss\<rparr>))"

text \<open>The events the daemon makes carry such a key and such stamps.\<close>

definition key_ok :: "ltp_codec \<Rightarrow> uuid \<Rightarrow> bool" where
  "key_ok cx k \<longleftrightarrow> k < 2 ^ 128 \<and> lc_uuid_v7 cx (lc_uuid_bytes cx k)"

definition ltp_event_ok :: "ltp_codec \<Rightarrow> owned_event \<Rightarrow> bool" where
  "ltp_event_ok cx ev \<longleftrightarrow> key_ok cx (oe_key ev) \<and> (\<forall>s \<in> set (ltp_stamps_slice ev). stamp_ok s)"

subsection \<open>The event of a frame\<close>

record ltp_peer_metrics =
  pm_network :: histogram
  pm_intra :: histogram
  pm_negative :: counter
  pm_loop_dropped :: counter

datatype frame_decision = Forward owned_event | DropCycle | DropMaxHops | DropMetadataTooLarge

definition bump_loop_dropped :: "ltp_peer_metrics \<Rightarrow> ltp_peer_metrics" where
  "bump_loop_dropped pm = pm\<lparr>pm_loop_dropped := pm_loop_dropped pm + 1\<rparr>"

definition observe_network :: "nat \<Rightarrow> hop_stamp list \<Rightarrow> ltp_peer_metrics \<Rightarrow> ltp_peer_metrics" where
  "observe_network arrival ss pm =
     (if ss \<noteq> [] \<and> departure_unix_nano (last ss) \<noteq> 0
      then let el = between_u64 arrival (departure_unix_nano (last ss)) in
        pm\<lparr>pm_negative := pm_negative pm + (if el_reversed el then 1 else 0),
           pm_network := hist_observe (as_seconds_f64 (el_duration el)) (pm_network pm)\<rparr>
      else pm)"

definition event_from_frame :: "ltp_codec \<Rightarrow> ltp_meta \<Rightarrow> bytes \<Rightarrow> sock_addr \<Rightarrow> rstr \<Rightarrow> nat \<Rightarrow> int \<Rightarrow> ltp_peer_metrics \<Rightarrow>
    frame_decision res \<times> ltp_peer_metrics" where
  "event_from_frame cx m payload src me max_hops now pm =
     (if length (lm_key m) \<noteq> 16 then (Err ''LTP event key must be exactly 16 bytes'', pm)
      else if \<not> lc_uuid_v7 cx (lm_key m) then (Err ''LTP event key must be an RFC 4122 UUIDv7'', pm)
      else if \<exists>s \<in> set (lm_stamps m). node_id s = me then (Ok DropCycle, bump_loop_dropped pm)
      else if max_hops \<le> length (lm_stamps m) then (Ok DropMaxHops, bump_loop_dropped pm)
      else
        (let arrival = to_wire_u64 now;
             pm' = observe_network arrival (lm_stamps m) pm;
             stamps = lm_stamps m @ [\<lparr>node_id = me, arrival_unix_nano = arrival, departure_unix_nano = 1\<rparr>] in
         if max_meta_len < length (lc_meta_enc cx (m\<lparr>lm_stamps := stamps\<rparr>)) then (Ok DropMetadataTooLarge, pm')
         else (Ok (Forward (from_ltp_parts (lc_uuid_of cx (lm_key m)) now src payload
                 (sealed_at (length stamps - 1) 0 stamps))), pm')))"

subsection \<open>Established connections per peer key\<close>

text \<open>
  Per key the connections in the order they were activated, each with its generation. A connection's task
  holds a lease; dropping the lease releases its generation.
\<close>

record peer_table =
  pt_next :: "64 word"
  pt_by_spki :: "bytes \<Rightarrow> 64 word list option"

definition peer_table_new :: peer_table where
  "peer_table_new = \<lparr>pt_next = 0, pt_by_spki = (\<lambda>_. None)\<rparr>"

text \<open>The new generation and the one it evicts.\<close>

definition activate :: "bytes \<Rightarrow> peer_table \<Rightarrow> (64 word \<times> 64 word option) \<times> peer_table" where
  "activate spki pt =
     (let generation = pt_next pt;
          established = (case pt_by_spki pt spki of Some q \<Rightarrow> q | None \<Rightarrow> []);
          (evicted, kept) = (if length established = 2 then (Some (hd established), tl established) else (None, established))
      in ((generation, evicted), \<lparr>pt_next = generation + 1, pt_by_spki = (pt_by_spki pt)(spki \<mapsto> kept @ [generation])\<rparr>))"

definition release :: "bytes \<Rightarrow> 64 word \<Rightarrow> peer_table \<Rightarrow> peer_table" where
  "release spki generation pt = (case pt_by_spki pt spki of
     None \<Rightarrow> pt
   | Some q \<Rightarrow> (let q' = remove1 generation q in
       pt\<lparr>pt_by_spki := (pt_by_spki pt)(spki := (if q' = [] then None else Some q'))\<rparr>))"

subsection \<open>A connection\<close>

record input_metrics =
  im_received :: counter
  im_invalid :: counter
  im_injected :: counter
  im_bytes :: counter

record peer_route =
  pr_expected :: rstr
  pr_node_id :: rstr
  pr_max_hops :: nat

text \<open>What a connection changes: counters, the peer's metrics, the registry, and the events sent on.\<close>

record listener =
  ls_input :: input_metrics
  ls_rejected_unknown :: counter
  ls_peer :: ltp_peer_metrics
  ls_table :: peer_table
  ls_sent :: "owned_event list"

datatype conn_error =
    HandshakeTimedOut
  | HandshakeFailed
  | NoRawKey
  | UndeclaredKey
  | HelloTimedOut
  | HelloFault frame_fault
  | ClosedBeforeHello
  | HelloPayloadNotEmpty
  | HelloDecodeFailed
  | HelloMismatch
  | NoPeerMetrics
  | EventFault frame_fault
  | EventDecodeFailed
  | EventRejected string

datatype tls_outcome = TlsTimedOut | TlsFailed | TlsUp "bytes option"

definition count_bytes :: "nat \<Rightarrow> listener \<Rightarrow> listener" where
  "count_bytes n l = l\<lparr>ls_input := (ls_input l)\<lparr>im_bytes := im_bytes (ls_input l) + of_nat n\<rparr>\<rparr>"

definition count_invalid :: "listener \<Rightarrow> listener" where
  "count_invalid l = l\<lparr>ls_input := (ls_input l)\<lparr>im_invalid := im_invalid (ls_input l) + 1\<rparr>\<rparr>"

definition send_on :: "owned_event \<Rightarrow> listener \<Rightarrow> listener" where
  "send_on ev l = l\<lparr>ls_sent := ls_sent l @ [ev], ls_input := (ls_input l)\<lparr>im_received := im_received (ls_input l) + 1\<rparr>\<rparr>"

text \<open>Handshake, route and hello: the route, the key and the rest of the stream.\<close>

definition establish :: "ltp_codec \<Rightarrow> (bytes \<Rightarrow> peer_route option) \<Rightarrow> (rstr \<Rightarrow> bool) \<Rightarrow> tls_outcome \<Rightarrow> bool \<Rightarrow> chunk list \<Rightarrow> listener \<Rightarrow>
    (conn_error + bytes \<times> peer_route \<times> chunk list) \<times> listener" where
  "establish cx routes has_metrics tls late s l = (case tls of
     TlsTimedOut \<Rightarrow> (Inl HandshakeTimedOut, l)
   | TlsFailed \<Rightarrow> (Inl HandshakeFailed, l)
   | TlsUp None \<Rightarrow> (Inl NoRawKey, l)
   | TlsUp (Some spki) \<Rightarrow> (case routes spki of
       None \<Rightarrow> (Inl UndeclaredKey, l)
     | Some route \<Rightarrow>
        (if late then (Inl HelloTimedOut, l)
         else case read_frame s of
           (NoFrame, _, _) \<Rightarrow> (Inl ClosedBeforeHello, l)
         | (BadFrame e, _, _) \<Rightarrow> (Inl (HelloFault e), l)
         | (Frame mb payload, _, s') \<Rightarrow>
            (if payload \<noteq> [] then (Inl HelloPayloadNotEmpty, l)
             else case lc_hello_dec cx mb of
               None \<Rightarrow> (Inl HelloDecodeFailed, l)
             | Some hello \<Rightarrow>
                (if lh_node_id hello \<noteq> pr_expected route
                 then (Inl HelloMismatch, l\<lparr>ls_rejected_unknown := ls_rejected_unknown l + 1\<rparr>)
                 else if \<not> has_metrics (pr_expected route) then (Inl NoPeerMetrics, l)
                 else (Inr (spki, route, s'), l))))))"

text \<open>
  The event loop: \<open>clock k\<close> is the reading for the \<open>k\<close>-th frame, \<open>open k\<close> whether the channel takes the \<open>k\<close>-th
  event of this listener.
\<close>

function event_loop :: "ltp_codec \<Rightarrow> peer_route \<Rightarrow> sock_addr \<Rightarrow> (nat \<Rightarrow> int) \<Rightarrow> (nat \<Rightarrow> bool) \<Rightarrow> nat \<Rightarrow> chunk list \<Rightarrow> listener \<Rightarrow>
    (conn_error + unit) \<times> listener" where
  "event_loop cx route src clock takes k s l = (case read_frame s of
     (NoFrame, n, _) \<Rightarrow> (Inr (), count_bytes n l)
   | (BadFrame e, n, _) \<Rightarrow> (Inl (EventFault e), count_invalid (count_bytes n l))
   | (Frame mb payload, n, s') \<Rightarrow>
      (let l1 = count_bytes n l in
       case lc_meta_dec cx mb of
         None \<Rightarrow> (Inl EventDecodeFailed, count_invalid l1)
       | Some m \<Rightarrow> (case event_from_frame cx m payload src (pr_node_id route) (pr_max_hops route) (clock k) (ls_peer l1) of
           (decision, pm) \<Rightarrow>
             (let l2 = l1\<lparr>ls_peer := pm\<rparr> in
              case decision of
                Ok (Forward ev) \<Rightarrow>
                  (if takes (length (ls_sent l2)) then event_loop cx route src clock takes (k + 1) s' (send_on ev l2)
                   else (Inr (), l2))
              | Ok _ \<Rightarrow> event_loop cx route src clock takes (k + 1) s' (count_invalid l2)
              | Err e \<Rightarrow> (Inl (EventRejected e), count_invalid l2)
              | Crash \<Rightarrow> (Inl (EventRejected []), count_invalid l2)))))"
  by pat_completeness auto
termination
  by (relation "measure (\<lambda>(cx, route, src, clock, takes, k, s, l). weight s)")
    (auto dest!: sym[of "(_, _)" "read_frame _"] dest!: read_frame_Frame)

declare event_loop.simps [simp del]

definition handle_connection :: "ltp_codec \<Rightarrow> (bytes \<Rightarrow> peer_route option) \<Rightarrow> (rstr \<Rightarrow> bool) \<Rightarrow> tls_outcome \<Rightarrow> bool \<Rightarrow> sock_addr \<Rightarrow>
    (nat \<Rightarrow> int) \<Rightarrow> (nat \<Rightarrow> bool) \<Rightarrow> chunk list \<Rightarrow> listener \<Rightarrow> (conn_error + unit) \<times> listener" where
  "handle_connection cx routes has_metrics tls late src clock takes s l =
     (case establish cx routes has_metrics tls late s l of
        (Inl e, l1) \<Rightarrow> (Inl e, l1)
      | (Inr (spki, route, s'), l1) \<Rightarrow>
         (case activate spki (ls_table l1) of ((generation, _), pt) \<Rightarrow>
          (case event_loop cx route src clock takes 0 s' (l1\<lparr>ls_table := pt\<rparr>) of
             (r, l2) \<Rightarrow> (r, l2\<lparr>ls_table := release spki generation (ls_table l2)\<rparr>))))"

subsection \<open>What a forwarded event carries\<close>

lemma codec_okD:
  assumes "codec_ok cx"
  shows "meta_ok m \<Longrightarrow> lc_meta_dec cx (lc_meta_enc cx m) = Some m" "utf8_valid (lh_node_id h) \<Longrightarrow> lc_hello_dec cx (lc_hello_enc cx h) = Some h"
    "lc_meta_dec cx b = Some m \<Longrightarrow> meta_ok m"
    "k < 2 ^ 128 \<Longrightarrow> length (lc_uuid_bytes cx k) = 16" "k < 2 ^ 128 \<Longrightarrow> lc_uuid_of cx (lc_uuid_bytes cx k) = k"
    "length b = 16 \<Longrightarrow> lc_uuid_of cx b < 2 ^ 128" "length b = 16 \<Longrightarrow> lc_uuid_bytes cx (lc_uuid_of cx b) = b"
    "i < length ss \<Longrightarrow> u \<noteq> 0 \<Longrightarrow> length (lc_meta_enc cx \<lparr>lm_key = key, lm_stamps = sealed_at i t ss\<rparr>)
        \<le> length (lc_meta_enc cx \<lparr>lm_key = key, lm_stamps = sealed_at i u ss\<rparr>)"
  using assms unfolding codec_ok_def by blast+

lemma stamp_ok_sealed:
  assumes "\<forall>s \<in> set ss. stamp_ok s" "t < 2 ^ 64"
  shows "\<forall>s \<in> set (sealed_at i t ss). stamp_ok s"
proof (cases "i < length ss")
  case True
  then have "stamp_ok ((ss ! i)\<lparr>departure_unix_nano := t\<rparr>)" using assms by (simp add: stamp_ok_def)
  then show ?thesis using assms(1) set_update_subset_insert[of ss i] by (fastforce simp: sealed_at_def)
qed (use assms(1) in \<open>simp add: sealed_at_def list_update_beyond\<close>)

lemma to_wire_u64_bound: "in_i64 t \<Longrightarrow> to_wire_u64 t < 2 ^ 64"
  by (auto simp: to_wire_u64_def in_i64_def i64_max_def)

lemma sealed_at_simps [simp]:
  "length (sealed_at i t ss) = length ss"
  "map node_id (sealed_at i t ss) = map node_id ss"
  "sealed_at i t (sealed_at i u ss) = sealed_at i t ss"
  "sealed_at (length ss) t (ss @ [s]) = ss @ [s\<lparr>departure_unix_nano := t\<rparr>]"
proof -
  show "length (sealed_at i t ss) = length ss" "sealed_at (length ss) t (ss @ [s]) = ss @ [s\<lparr>departure_unix_nano := t\<rparr>]"
    by (simp_all add: sealed_at_def)
  show "map node_id (sealed_at i t ss) = map node_id ss"
  proof (rule nth_equalityI)
    fix j assume "j < length (map node_id (sealed_at i t ss))"
    then show "map node_id (sealed_at i t ss) ! j = map node_id ss ! j"
      by (cases "i = j") (simp_all add: sealed_at_def)
  qed (simp add: sealed_at_def)
  show "sealed_at i t (sealed_at i u ss) = sealed_at i t ss"
    by (cases "i < length ss") (simp_all add: sealed_at_def list_update_beyond)
qed

lemma event_from_frame_Forward:
  assumes "event_from_frame cx m payload src me max_hops now pm = (Ok (Forward ev), pm')"
  shows "length (lm_key m) = 16" "lc_uuid_v7 cx (lm_key m)" "me \<notin> node_id ` set (lm_stamps m)" "length (lm_stamps m) < max_hops"
    "ltp_stamps_slice ev = lm_stamps m @ [\<lparr>node_id = me, arrival_unix_nano = to_wire_u64 now, departure_unix_nano = 0\<rparr>]"
    "oe_key ev = lc_uuid_of cx (lm_key m)" "oe_ingress ev = payload" "oe_egress ev = payload" "oe_source ev = src" "oe_received_at ev = now"
    "length (lc_meta_enc cx (m\<lparr>lm_stamps := lm_stamps m @ [\<lparr>node_id = me, arrival_unix_nano = to_wire_u64 now, departure_unix_nano = 1\<rparr>]\<rparr>))
       \<le> max_meta_len"
  using assms
  by (auto simp: event_from_frame_def Let_def from_ltp_parts_def ltp_stamps_slice_def not_le not_less split: if_splits)

lemma event_from_frame_ok:
  assumes "codec_ok cx" "meta_ok m" "utf8_valid me" "in_i64 now"
    "event_from_frame cx m payload src me max_hops now pm = (Ok (Forward ev), pm')"
  shows "ltp_event_ok cx ev"
proof -
  note f = event_from_frame_Forward[OF assms(5)]
  have "key_ok cx (oe_key ev)" using f(1,2,6) codec_okD(6,7)[OF assms(1) f(1)] by (simp add: key_ok_def)
  moreover have "stamp_ok \<lparr>node_id = me, arrival_unix_nano = to_wire_u64 now, departure_unix_nano = 0\<rparr>"
    using assms(3,4) to_wire_u64_bound by (simp add: stamp_ok_def)
  ultimately show ?thesis using assms(2) f(5) by (auto simp: ltp_event_ok_def meta_ok_def)
qed

text \<open>The space the output needs for the event was reserved when it was accepted.\<close>

lemma forward_reserves:
  assumes "codec_ok cx" "event_from_frame cx \<lparr>lm_key = key, lm_stamps = ss\<rparr> payload src me max_hops now pm = (Ok (Forward ev), pm')"
  shows "length (lc_meta_enc cx \<lparr>lm_key = key, lm_stamps = sealed_at (length ss) t (ltp_stamps_slice ev)\<rparr>) \<le> max_meta_len"
proof -
  let ?stamp = "\<lparr>node_id = me, arrival_unix_nano = to_wire_u64 now, departure_unix_nano = 1\<rparr>"
  note f = event_from_frame_Forward[OF assms(2)]
  have "sealed_at (length ss) t (ltp_stamps_slice ev) = sealed_at (length ss) t (ss @ [?stamp])"
    "ss @ [?stamp] = sealed_at (length ss) 1 (ss @ [?stamp])"
    using f(5) by simp_all
  then show ?thesis
    using codec_okD(8)[OF assms(1), of "length ss" "ss @ [?stamp]" 1 key t] f(11) by simp
qed

subsection \<open>The loop over frames\<close>

text \<open>The loop as it acts on frames already cut out of the stream: \<open>None\<close> when it goes on reading.\<close>

fun deliver_frames :: "ltp_codec \<Rightarrow> peer_route \<Rightarrow> sock_addr \<Rightarrow> (nat \<Rightarrow> int) \<Rightarrow> (nat \<Rightarrow> bool) \<Rightarrow> nat \<Rightarrow> (bytes \<times> bytes) list \<Rightarrow> listener \<Rightarrow>
    (conn_error + unit) option \<times> listener" where
  "deliver_frames cx route src clock takes k [] l = (None, l)"
| "deliver_frames cx route src clock takes k ((mb, p) # fs) l =
     (let l1 = count_bytes (length p) l in
      case lc_meta_dec cx mb of
        None \<Rightarrow> (Some (Inl EventDecodeFailed), count_invalid l1)
      | Some m \<Rightarrow> (case event_from_frame cx m p src (pr_node_id route) (pr_max_hops route) (clock k) (ls_peer l1) of
          (decision, pm) \<Rightarrow>
            (let l2 = l1\<lparr>ls_peer := pm\<rparr> in
             case decision of
               Ok (Forward ev) \<Rightarrow>
                 (if takes (length (ls_sent l2)) then deliver_frames cx route src clock takes (k + 1) fs (send_on ev l2)
                  else (Some (Inr ()), l2))
             | Ok _ \<Rightarrow> deliver_frames cx route src clock takes (k + 1) fs (count_invalid l2)
             | Err e \<Rightarrow> (Some (Inl (EventRejected e)), count_invalid l2)
             | Crash \<Rightarrow> (Some (Inl (EventRejected [])), count_invalid l2))))"

definition wire :: "(bytes \<times> bytes) list \<Rightarrow> bytes" where
  "wire fs = concat (map (\<lambda>(mb, p). frame_bytes mb p) fs)"

lemma wire_simps [simp]: "wire [] = []" "wire ((mb, p) # fs) = frame_bytes mb p @ wire fs" "wire (fs @ gs) = wire fs @ wire gs"
  by (simp_all add: wire_def)

lemma event_loop_frames:
  assumes "\<forall>(mb, p) \<in> set fs. frame_fits mb p" "arrived False s = wire fs @ tl'"
  shows "\<exists>s'. arrived False s' = tl' \<and> ending False s' = ending False s \<and>
    (\<forall>k l. event_loop cx route src clock takes k s l =
      (case deliver_frames cx route src clock takes k fs l of
         (Some r, l') \<Rightarrow> (r, l') | (None, l') \<Rightarrow> event_loop cx route src clock takes (k + length fs) s' l'))"
  using assms
proof (induction fs arbitrary: s)
  case (Cons f fs)
  obtain mb p where f: "f = (mb, p)" by fastforce
  obtain s1 where s1: "read_frame s = (Frame mb p, length p, s1)" "arrived False s1 = wire fs @ tl'" "ending False s1 = ending False s"
    using read_frame_bytes[of mb p s "wire fs @ tl'"] Cons.prems f by auto
  have fits: "\<forall>(mb, p) \<in> set fs. frame_fits mb p" using Cons.prems(1) by simp
  obtain s' where s': "arrived False s' = tl'" "ending False s' = ending False s1"
    "\<And>k l. event_loop cx route src clock takes k s1 l =
      (case deliver_frames cx route src clock takes k fs l of
         (Some r, l') \<Rightarrow> (r, l') | (None, l') \<Rightarrow> event_loop cx route src clock takes (k + length fs) s' l')"
    using Cons.IH[OF fits s1(2)] by blast
  have "event_loop cx route src clock takes k s l =
      (case deliver_frames cx route src clock takes k (f # fs) l of
         (Some r, l') \<Rightarrow> (r, l') | (None, l') \<Rightarrow> event_loop cx route src clock takes (k + length (f # fs)) s' l')" for k l
    by (subst event_loop.simps)
      (auto simp: s1(1) f Let_def s'(3) split: option.split prod.split res.split frame_decision.split)
  then show ?case using s' s1(3) by (intro exI[of _ s']) simp
qed auto

lemma event_loop_complete:
  assumes "\<forall>(mb, p) \<in> set fs. frame_fits mb p" "arrived False s = wire fs" "ending False s = AtEof"
  shows "event_loop cx route src clock takes k s l =
    (case deliver_frames cx route src clock takes k fs l of (Some r, l') \<Rightarrow> (r, l') | (None, l') \<Rightarrow> (Inr (), l'))"
proof -
  obtain s' where s': "arrived False s' = []" "ending False s' = AtEof"
    "event_loop cx route src clock takes k s l =
      (case deliver_frames cx route src clock takes k fs l of
         (Some r, l') \<Rightarrow> (r, l') | (None, l') \<Rightarrow> event_loop cx route src clock takes (k + length fs) s' l')"
    using event_loop_frames[of fs s "[]" cx route src clock takes] assms by auto
  obtain s'' where "read_exact False 1 s' = (Inl AtEof, 0, s'')" using read_exact_short[of False s' 1] s' by auto
  then have "read_frame s' = (NoFrame, 0, s'')" by (simp add: read_frame_def)
  then have "event_loop cx route src clock takes n s' l' = (Inr (), l')" for n l'
    by (subst event_loop.simps) (simp add: count_bytes_def)
  then show ?thesis using s'(3) by (simp split: prod.split option.split)
qed

lemma event_loop_same:
  "same_bytes False s u \<Longrightarrow> event_loop cx route src clock takes k s l = event_loop cx route src clock takes k u l"
proof (induction "weight s" arbitrary: s u k l rule: less_induct)
  case less
  obtain r n s' where s: "read_frame s = (r, n, s')" by (cases "read_frame s") auto
  obtain u' where u: "read_frame u = (r, n, u')" using read_frame_same[OF less.prems] s by (cases "read_frame u") auto
  show ?case
  proof (cases r)
    case (Frame mb p)
    have "weight s' < weight s" using read_frame_Frame[OF s[unfolded Frame]] by auto
    from less.hyps[OF this] read_frame_same_rest[OF less.prems s[unfolded Frame] u[unfolded Frame]]
    have "event_loop cx route src clock takes (k + 1) s' l' = event_loop cx route src clock takes (k + 1) u' l'" for l' by blast
    then show ?thesis using s u Frame by (subst (1 2) event_loop.simps) (simp add: Let_def split: option.split prod.split res.split frame_decision.split)
  qed (subst (1 2) event_loop.simps, simp add: s u)+
qed

subsection \<open>Counting\<close>

text \<open>Every frame of the loop is an event sent on, an invalid event, or the one the closed channel refused.\<close>

definition counted :: "listener \<Rightarrow> listener \<Rightarrow> nat \<Rightarrow> nat \<Rightarrow> bool" where
  "counted l l' sent dropped \<longleftrightarrow> (\<exists>evs. length evs = sent \<and> ls_sent l' = ls_sent l @ evs) \<and>
     im_received (ls_input l') = im_received (ls_input l) + of_nat sent \<and> im_invalid (ls_input l') = im_invalid (ls_input l) + of_nat dropped"

lemma counted_simps:
  "counted l (count_bytes n l) 0 0"
  "counted (count_invalid (count_bytes n l\<lparr>ls_peer := pm\<rparr>)) l' i j \<Longrightarrow> counted l l' i (Suc j)"
  "counted (send_on ev (count_bytes n l\<lparr>ls_peer := pm\<rparr>)) l' i j \<Longrightarrow> counted l l' (Suc i) j"
  "counted l (count_bytes n l\<lparr>ls_peer := pm\<rparr>) 0 0"
  "counted l (count_invalid (count_bytes n l\<lparr>ls_peer := pm\<rparr>)) 0 1"
  "counted l (count_invalid (count_bytes n l)) 0 1"
  by (auto simp: counted_def count_bytes_def count_invalid_def send_on_def add.assoc)

lemma deliver_frames_counts:
  assumes "deliver_frames cx route src clock takes k fs l = (r, l')"
  shows "\<exists>sent dropped. counted l l' sent dropped \<and> (r = None \<longrightarrow> sent + dropped = length fs)"
  using assms
proof (induction fs arbitrary: k l)
  case Nil
  then show ?case by (intro exI[of _ 0]) (auto simp: counted_def)
next
  case (Cons f fs)
  obtain mb p where f: "f = (mb, p)" by fastforce
  show ?case
  proof (cases "lc_meta_dec cx mb")
    case None
    then show ?thesis using Cons.prems f counted_simps(6)[of l "length p"] by (intro exI[of _ 0] exI[of _ 1]) (auto simp: Let_def)
  next
    case (Some m)
    obtain d pm where d: "event_from_frame cx m p src (pr_node_id route) (pr_max_hops route) (clock k) (ls_peer (count_bytes (length p) l)) = (d, pm)"
      by fastforce
    let ?l2 = "(count_bytes (length p) l)\<lparr>ls_peer := pm\<rparr>"
    consider (fwd) ev where "d = Ok (Forward ev)" "takes (length (ls_sent ?l2))"
      | (closed) ev where "d = Ok (Forward ev)" "\<not> takes (length (ls_sent ?l2))"
      | (drop) "d = Ok DropCycle \<or> d = Ok DropMaxHops \<or> d = Ok DropMetadataTooLarge"
      | (err) "d = Crash \<or> (\<exists>e. d = Err e)"
      by (metis frame_decision.exhaust res.exhaust)
    then show ?thesis
    proof cases
      case fwd
      then have "deliver_frames cx route src clock takes (k + 1) fs (send_on ev ?l2) = (r, l')" using Cons.prems f Some d by (simp add: Let_def)
      from Cons.IH[OF this] obtain i j where "counted (send_on ev ?l2) l' i j" "r = None \<longrightarrow> i + j = length fs" by blast
      with counted_simps(3) show ?thesis by (intro exI[of _ "Suc i"] exI[of _ j]) auto
    next
      case drop
      then have "deliver_frames cx route src clock takes (k + 1) fs (count_invalid ?l2) = (r, l')" using Cons.prems f Some d by (auto simp: Let_def)
      from Cons.IH[OF this] obtain i j where "counted (count_invalid ?l2) l' i j" "r = None \<longrightarrow> i + j = length fs" by blast
      with counted_simps(2) show ?thesis by (intro exI[of _ i] exI[of _ "Suc j"]) auto
    next
      case closed
      then show ?thesis using Cons.prems f Some d counted_simps(4)[of l pm "length p"]
        by (intro exI[of _ 0]) (auto simp: Let_def)
    next
      case err
      then show ?thesis using Cons.prems f Some d counted_simps(5)[of l pm "length p"]
        by (intro exI[of _ 0] exI[of _ 1]) (auto simp: Let_def)
    qed
  qed
qed

subsection \<open>The registry in any interleaving\<close>

text \<open>
  The registry with the leases alive, oldest first, after \<open>n\<close> activations; leases are dropped in any order,
  also those of connections that were evicted.
\<close>

inductive leased :: "nat \<Rightarrow> peer_table \<Rightarrow> (bytes \<times> 64 word) list \<Rightarrow> bool" where
  leased_new: "leased 0 peer_table_new []"
| leased_activate: "leased n pt live \<Longrightarrow> activate spki pt = ((g, ev), pt') \<Longrightarrow> leased (Suc n) pt' (live @ [(spki, g)])"
| leased_release: "leased n pt live \<Longrightarrow> (spki, g) \<in> set live \<Longrightarrow> leased n (release spki g pt) (remove1 (spki, g) live)"

definition entries :: "peer_table \<Rightarrow> bytes \<Rightarrow> 64 word list" where
  "entries pt spki = (case pt_by_spki pt spki of Some q \<Rightarrow> q | None \<Rightarrow> [])"

definition leased_inv :: "nat \<Rightarrow> peer_table \<Rightarrow> (bytes \<times> 64 word) list \<Rightarrow> bool" where
  "leased_inv n pt live \<longleftrightarrow> pt_next pt = of_nat n \<and> (\<forall>(spki, g) \<in> set live. unat g < n) \<and> distinct (map snd live) \<and>
     (\<forall>spki. pt_by_spki pt spki \<noteq> Some [] \<and> length (entries pt spki) \<le> 2 \<and> sorted_wrt (<) (entries pt spki) \<and>
        (\<forall>g \<in> set (entries pt spki). (spki, g) \<in> set live) \<and>
        (\<forall>g. (spki, g) \<in> set live \<longrightarrow> g \<in> set (entries pt spki) \<or> (\<forall>h \<in> set (entries pt spki). g < h)))"

lemma entries_simps:
  "entries \<lparr>pt_next = x, pt_by_spki = f\<rparr> spki = (case f spki of Some q \<Rightarrow> q | None \<Rightarrow> [])"
  "entries (pt\<lparr>pt_by_spki := f\<rparr>) spki = (case f spki of Some q \<Rightarrow> q | None \<Rightarrow> [])"
  by (simp_all add: entries_def)

lemma leased_inv_new: "leased_inv 0 peer_table_new []"
  by (simp add: leased_inv_def peer_table_new_def entries_def)

lemma entries_activate:
  assumes "activate spki pt = ((g, ev), pt')"
  shows "g = pt_next pt" "pt_next pt' = g + 1"
    "entries pt' s = (if s = spki then (if length (entries pt spki) = 2 then tl (entries pt spki) else entries pt spki) @ [g] else entries pt s)"
    "pt_by_spki pt' s = Some [] \<longleftrightarrow> s \<noteq> spki \<and> pt_by_spki pt s = Some []"
  using assms by (auto simp: activate_def Let_def entries_def split: if_splits prod.splits)

lemma leased_inv_activate:
  assumes inv: "leased_inv n pt live" and act: "activate spki pt = ((g, ev), pt')" and n: "n < 2 ^ 64"
  shows "leased_inv (Suc n) pt' (live @ [(spki, g)])"
proof -
  note e = entries_activate[OF act]
  have g: "g = of_nat n" "unat g = n" using e(1) inv n by (simp_all add: leased_inv_def unat_of_nat)
  have fresh: "h < g" if "(s, h) \<in> set live" for s h
    using that inv g by (auto simp: leased_inv_def word_less_nat_alt)
  have "g \<notin> snd ` set live" using fresh by fastforce
  moreover have "\<forall>(s, h) \<in> set (live @ [(spki, g)]). unat h < Suc n" using inv g by (auto simp: leased_inv_def)
  moreover have "length (entries pt' s) \<le> 2 \<and> sorted_wrt (<) (entries pt' s) \<and>
        (\<forall>h \<in> set (entries pt' s). (s, h) \<in> set (live @ [(spki, g)])) \<and>
        (\<forall>h. (s, h) \<in> set (live @ [(spki, g)]) \<longrightarrow> h \<in> set (entries pt' s) \<or> (\<forall>h' \<in> set (entries pt' s). h < h'))" for s
  proof (cases "s = spki")
    case True
    let ?q = "entries pt spki"
    have q: "length ?q \<le> 2" "sorted_wrt (<) ?q" "\<forall>h \<in> set ?q. (spki, h) \<in> set live"
      "\<forall>h. (spki, h) \<in> set live \<longrightarrow> h \<in> set ?q \<or> (\<forall>h' \<in> set ?q. h < h')"
      using inv by (auto simp: leased_inv_def)
    have lt: "\<forall>h \<in> set ?q. h < g" using q(3) fresh by blast
    show ?thesis
    proof (cases "length ?q = 2")
      case True
      then obtain a b where ab: "?q = [a, b]" by (auto simp: length_Suc_conv eval_nat_numeral)
      then show ?thesis using q lt \<open>s = spki\<close> fresh e(3)[of spki] by fastforce
    next
      case False
      then show ?thesis using q lt \<open>s = spki\<close> fresh e(3)[of spki] by (auto simp: sorted_wrt_append)
    qed
  next
    case False
    then show ?thesis using inv e(3)[of s] by (auto simp: leased_inv_def)
  qed
  moreover have "pt_by_spki pt' s \<noteq> Some []" for s using e(4)[of s] inv by (auto simp: leased_inv_def)
  moreover have "pt_next pt' = of_nat (Suc n)" using e(2) g by simp
  moreover have "distinct (map snd live)" using inv by (simp add: leased_inv_def)
  ultimately show ?thesis unfolding leased_inv_def by auto
qed

lemma entries_release:
  "entries (release spki g pt) s = (if s = spki then remove1 g (entries pt spki) else entries pt s)"
  "pt_next (release spki g pt) = pt_next pt"
  "pt_by_spki pt s \<noteq> Some [] \<Longrightarrow> pt_by_spki (release spki g pt) s \<noteq> Some []"
  by (auto simp: release_def entries_def Let_def split: option.splits if_splits)

lemma leased_inv_release:
  assumes inv: "leased_inv n pt live" and live: "(spki, g) \<in> set live"
  shows "leased_inv n (release spki g pt) (remove1 (spki, g) live)"
proof -
  have d: "distinct live" "distinct (map snd live)" using inv by (auto simp: leased_inv_def distinct_map)
  have sub: "set (remove1 (spki, g) live) = set live - {(spki, g)}" using d(1) by (rule set_remove1_eq)
  have "distinct (map snd (remove1 (spki, g) live))"
    using d by (metis (no_types, lifting) distinct_map distinct_remove1 inj_on_subset set_remove1_subset)
  moreover have "length (entries (release spki g pt) s) \<le> 2 \<and> sorted_wrt (<) (entries (release spki g pt) s) \<and>
        (\<forall>h \<in> set (entries (release spki g pt) s). (s, h) \<in> set live - {(spki, g)}) \<and>
        (\<forall>h. (s, h) \<in> set live - {(spki, g)} \<longrightarrow> h \<in> set (entries (release spki g pt) s) \<or> (\<forall>h' \<in> set (entries (release spki g pt) s). h < h'))" for s
  proof (cases "s = spki")
    case True
    let ?q = "entries pt spki"
    have q: "length ?q \<le> 2" "sorted_wrt (<) ?q" "\<forall>h \<in> set ?q. (spki, h) \<in> set live"
      "\<forall>h. (spki, h) \<in> set live \<longrightarrow> h \<in> set ?q \<or> (\<forall>h' \<in> set ?q. h < h')"
      using inv by (auto simp: leased_inv_def)
    have dq: "distinct ?q" using q(2) by (auto intro: strict_sorted_imp_sorted simp: strict_sorted_iff)
    have "sorted_wrt (<) (remove1 g ?q)" using q(2) dq by (metis sorted_wrt_filter distinct_remove1_removeAll removeAll_filter_not_eq)
    then show ?thesis using q dq True by (auto simp: entries_release length_remove1)
  next
    case False
    then show ?thesis using inv by (auto simp: leased_inv_def entries_release)
  qed
  ultimately show ?thesis using inv entries_release(2,3) sub unfolding leased_inv_def by auto
qed

lemma leased_leased_inv: "leased n pt live \<Longrightarrow> n \<le> 2 ^ 64 \<Longrightarrow> leased_inv n pt live"
  by (induction rule: leased.induct) (auto intro: leased_inv_new leased_inv_activate leased_inv_release)

end
