(* ===== verification/SyslogIn.thy ===== *)
theory SyslogIn
  imports LtpInput
begin

section \<open>The syslog inputs\<close>

text \<open>
  \<open>modules/input/validate.rs\<close> and the readers of \<open>modules/input/syslog_tcp.rs\<close>, which \<open>unix_socket.rs\<close> shares: both
  framings of RFC 6587 with their detection. The readers have an idle timer, so a silence ends the
  connection. \<open>mint k\<close> is the key and the time of the \<open>k\<close>-th event, \<open>takes k\<close> whether the channel takes it; the
  rate limiter only delays.
\<close>

subsection \<open>The priority of a message\<close>

datatype pri_error =
    EmptyMessage
  | NoOpen nat
  | BadContent bytes
  | OutOfRange nat
  | ClosePosition nat
  | NoClose

text \<open>The position of the first element that satisfies a test, as \<open>Iterator::position\<close>.\<close>

definition position :: "('a \<Rightarrow> bool) \<Rightarrow> 'a list \<Rightarrow> nat option" where
  "position p xs = (let n = length (takeWhile (\<lambda>x. \<not> p x) xs) in if n < length xs then Some n else None)"

definition validate_pri :: "bytes \<Rightarrow> pri_error + unit" where
  "validate_pri msg =
     (if msg = [] then Inl EmptyMessage
      else if hd msg \<noteq> CHR ''<'' then Inl (NoOpen (of_char (hd msg)))
      else case position (\<lambda>c. c = CHR ''>'') msg of
        Some pos \<Rightarrow>
          (if 2 \<le> pos \<and> pos \<le> 4 then
             let prival = LtpWire.slice 1 pos msg in
             if list_all is_digit prival then
               (if digits_val prival \<le> 191 then Inr () else Inl (OutOfRange (digits_val prival)))
             else Inl (BadContent prival)
           else Inl (ClosePosition pos))
      | None \<Rightarrow> Inl NoClose)"

definition pri_ok :: "bytes \<Rightarrow> bool" where
  "pri_ok msg \<longleftrightarrow> validate_pri msg = Inr ()"

subsection \<open>Framing\<close>

datatype tcp_framing = FrAuto | FrOctetCounting | FrNonTransparent

datatype framing_error =
    EmptyLen
  | NonDigit nat
  | LeadingZero
  | TooManyDigits
  | ExceedsLimit nat
  | InvalidPri pri_error
  | NoDelimiter

datatype close_reason = CEof | CTimeout | CChannelClosed | CIoError | CFraming framing_error

fun close_of :: "read_end \<Rightarrow> close_reason" where
  "close_of AtEof = CEof"
| "close_of AtError = CIoError"
| "close_of AtIdle = CTimeout"

definition max_message_size :: nat where "max_message_size = 1024 * 1024"
definition max_msg_len_digits :: nat where "max_msg_len_digits = 7"

text \<open>The first byte decides; nothing is decided when none comes.\<close>

definition detect_framing :: "chunk list \<Rightarrow> tcp_framing option \<times> chunk list" where
  "detect_framing s = (case fill_buf True s of
     (Got b, s') \<Rightarrow> (Some (if is_digit (hd b) \<and> hd b \<noteq> CHR ''0'' then FrOctetCounting else FrNonTransparent), s')
   | (Stop _, s') \<Rightarrow> (None, s'))"

text \<open>\<open>read_msg_len\<close>: the length or why the connection is closed, the bytes read, the rest of the stream.\<close>

function read_msg_len :: "string \<Rightarrow> chunk list \<Rightarrow> (close_reason + nat) \<times> nat \<times> chunk list" where
  "read_msg_len len_str s = (case read_exact True 1 s of
     (Inl e, _, s') \<Rightarrow> (Inl (close_of e), 0, s')
   | (Inr b, _, s') \<Rightarrow>
      (let byte = hd b in
       if byte = CHR '' '' then
         (if len_str = [] then Inl (CFraming EmptyLen)
          else if max_message_size < digits_val len_str then Inl (CFraming (ExceedsLimit (digits_val len_str)))
          else Inr (digits_val len_str), 1, s')
       else if \<not> is_digit byte then (Inl (CFraming (NonDigit (of_char byte))), 1, s')
       else if len_str = [] \<and> byte = CHR ''0'' then (Inl (CFraming LeadingZero), 1, s')
       else if max_msg_len_digits < length (len_str @ [byte]) then (Inl (CFraming TooManyDigits), 1, s')
       else (case read_msg_len (len_str @ [byte]) s' of (r, k, s'') \<Rightarrow> (r, 1 + k, s''))))"
  by pat_completeness auto
termination
  by (relation "measure (\<lambda>(acc, s). Suc max_msg_len_digits - length acc)") (auto simp: max_msg_len_digits_def)

declare read_msg_len.simps [simp del]

subsection \<open>The state of a connection\<close>

record syslog_conn =
  sc_metrics :: input_metrics
  sc_sent :: "owned_event list"

definition sc_bytes :: "nat \<Rightarrow> syslog_conn \<Rightarrow> syslog_conn" where
  "sc_bytes n c = c\<lparr>sc_metrics := (sc_metrics c)\<lparr>im_bytes := im_bytes (sc_metrics c) + of_nat n\<rparr>\<rparr>"

definition sc_invalid :: "syslog_conn \<Rightarrow> syslog_conn" where
  "sc_invalid c = c\<lparr>sc_metrics := (sc_metrics c)\<lparr>im_invalid := im_invalid (sc_metrics c) + 1\<rparr>\<rparr>"

text \<open>Making an event of a message and sending it on; \<open>None\<close> when the channel is closed.\<close>

definition emit :: "(nat \<Rightarrow> uuid \<times> int) \<Rightarrow> (nat \<Rightarrow> bool) \<Rightarrow> sock_addr \<Rightarrow> bytes \<Rightarrow> syslog_conn \<Rightarrow> syslog_conn option" where
  "emit mint takes addr msg c =
     (let k = length (sc_sent c) in
      if takes k then Some (c\<lparr>sc_sent := sc_sent c @ [event_new (fst (mint k)) (snd (mint k)) msg addr],
          sc_metrics := (sc_metrics c)\<lparr>im_received := im_received (sc_metrics c) + 1\<rparr>\<rparr>)
      else None)"

subsection \<open>Octet counting\<close>

lemma read_msg_len_weight:
  "read_msg_len acc s = (r, k, s') \<Longrightarrow> weight s' \<le> weight s \<and> (\<forall>n. r = Inr n \<longrightarrow> weight s' < weight s)"
proof (induction acc s arbitrary: r k s' rule: read_msg_len.induct)
  case (1 acc s)
  obtain x n s1 where x: "read_exact True 1 s = (x, n, s1)" by (cases "read_exact True 1 s") auto
  show ?case
  proof (cases x)
    case (Inl e)
    then show ?thesis using 1(2) x read_exact_Inl[of True 1 s e n s1] by (subst (asm) read_msg_len.simps) auto
  next
    case (Inr b)
    obtain r1 k1 s2 where rest: "read_msg_len (acc @ [hd b]) s1 = (r1, k1, s2)" by (cases "read_msg_len (acc @ [hd b]) s1") auto
    have w: "weight s = 1 + weight s1" using read_exact_Inr[of True 1 s b n s1] x Inr by auto
    show ?thesis
    proof (cases "hd b \<noteq> CHR '' '' \<and> is_digit (hd b) \<and> \<not> (acc = [] \<and> hd b = CHR ''0'') \<and> \<not> max_msg_len_digits < length (acc @ [hd b])")
      case True
      then have "weight s2 \<le> weight s1" using 1(1)[OF x[symmetric] Inr refl refl] rest True by simp
      moreover have "s' = s2" using 1(2) x Inr True rest by (subst (asm) read_msg_len.simps) (auto simp: Let_def)
      ultimately show ?thesis using w by simp
    next
      case False
      then have "s' = s1" using 1(2) x Inr by (subst (asm) read_msg_len.simps) (auto simp: Let_def split: if_splits)
      then show ?thesis using w by simp
    qed
  qed
qed

function read_octet_counting :: "(nat \<Rightarrow> uuid \<times> int) \<Rightarrow> (nat \<Rightarrow> bool) \<Rightarrow> sock_addr \<Rightarrow> chunk list \<Rightarrow> syslog_conn \<Rightarrow> close_reason \<times> syslog_conn" where
  "read_octet_counting mint takes addr s c = (case read_msg_len [] s of
     (Inl reason, k, _) \<Rightarrow> (reason, sc_bytes k c)
   | (Inr msg_len, k, s1) \<Rightarrow>
      (case read_exact True msg_len s1 of
         (Inl e, n, _) \<Rightarrow> (close_of e, sc_bytes n (sc_bytes k c))
       | (Inr buf, n, s2) \<Rightarrow>
          (let c1 = sc_bytes n (sc_bytes k c) in
           case validate_pri buf of
             Inl e \<Rightarrow> (CFraming (InvalidPri e), sc_invalid c1)
           | Inr _ \<Rightarrow> (case emit mint takes addr buf c1 of
               None \<Rightarrow> (CChannelClosed, c1)
             | Some c2 \<Rightarrow> read_octet_counting mint takes addr s2 c2))))"
  by pat_completeness auto
termination
proof (relation "measure (\<lambda>(_, _, _, s, _). weight s)"; clarsimp)
  fix s s1 s2 :: "chunk list" and msg_len k n buf
  assume 1: "(Inr msg_len, k, s1) = read_msg_len [] s" and 2: "(Inr buf, n, s2) = read_exact True msg_len s1"
  show "weight s2 < weight s" using read_msg_len_weight[OF 1[symmetric]] read_exact_Inr[OF 2[symmetric]] by auto
qed

declare read_octet_counting.simps [simp del]

subsection \<open>Non-transparent framing\<close>

text \<open>
  \<open>read_until_delimiter\<close> appends to \<open>buf\<close>. Its size check looks at a piece without a delimiter only; a piece comes
  from the buffer of the reader, which holds 8 KiB.
\<close>

definition is_delimiter :: "char \<Rightarrow> bool" where
  "is_delimiter c \<longleftrightarrow> c = CHR 0x0A \<or> c = CHR 0x00"

function read_until_delimiter :: "bytes \<Rightarrow> chunk list \<Rightarrow> (close_reason + bool) \<times> bytes \<times> nat \<times> chunk list" where
  "read_until_delimiter buf s = (case fill_buf True s of
     (Stop AtEof, s') \<Rightarrow> (Inr False, buf, 0, s')
   | (Stop e, s') \<Rightarrow> (Inl (close_of e), buf, 0, s')
   | (Got available, s') \<Rightarrow> (case position is_delimiter available of
       Some pos \<Rightarrow> (Inr True, buf @ take pos available, pos + 1, consume_buf (pos + 1) s')
     | None \<Rightarrow>
        (if max_message_size < length buf + length available then (Inl (CFraming NoDelimiter), buf, 0, s')
         else (case read_until_delimiter (buf @ available) (consume_buf (length available) s') of
             (r, buf', k, s'') \<Rightarrow> (r, buf', length available + k, s'')))))"
  by pat_completeness auto
termination
proof (relation "measure (\<lambda>(_, s). weight s)"; clarsimp)
  fix s s' :: "chunk list" and b
  assume "(Got b, s') = fill_buf True s"
  from fill_buf_Got[OF this[symmetric]] show "weight (consume_buf (length b) s') < weight s" by (cases b) auto
qed

declare read_until_delimiter.simps [simp del]

definition strip_cr :: "bytes \<Rightarrow> bytes" where
  "strip_cr buf = rev (dropWhile (\<lambda>c. c = CHR 0x0D) (rev buf))"

lemma read_until_delimiter_weight:
  "read_until_delimiter buf s = (r, buf', k, s') \<Longrightarrow> r = Inr True \<Longrightarrow> weight s' < weight s"
proof (induction buf s arbitrary: r buf' k s' rule: read_until_delimiter.induct)
  case (1 buf s)
  obtain x s1 where x: "fill_buf True s = (x, s1)" by fastforce
  show ?case
  proof (cases x)
    case (Got b)
    note g = fill_buf_Got[OF x[unfolded Got]]
    then obtain t where t: "s1 = Data b # t" by blast
    show ?thesis
    proof (cases "position is_delimiter b")
      case None
      obtain r1 b1 k1 s2 where rest: "read_until_delimiter (buf @ b) (consume_buf (length b) s1) = (r1, b1, k1, s2)"
        by (cases "read_until_delimiter (buf @ b) (consume_buf (length b) s1)") auto
      have big: "\<not> max_message_size < length buf + length b" and r: "r1 = r" "s2 = s'"
        using 1(2,3) x Got None rest by (subst (asm) read_until_delimiter.simps; auto split: if_splits)+
      have "weight s' < weight (consume_buf (length b) s1)"
        using 1(1)[OF x[symmetric] Got None big, of r1 b1 k1 s2] rest r 1(3) by auto
      then show ?thesis using g t by simp
    next
      case (Some pos)
      then have "s' = Data (drop (pos + 1) b) # t" using 1(2) x Got t by (subst (asm) read_until_delimiter.simps) auto
      then show ?thesis using g t by (cases b) auto
    qed
  next
    case (Stop e)
    then show ?thesis using 1(2,3) x by (subst (asm) read_until_delimiter.simps) (auto split: read_end.splits)
  qed
qed

function read_non_transparent :: "(nat \<Rightarrow> uuid \<times> int) \<Rightarrow> (nat \<Rightarrow> bool) \<Rightarrow> sock_addr \<Rightarrow> chunk list \<Rightarrow> syslog_conn \<Rightarrow> close_reason \<times> syslog_conn" where
  "read_non_transparent mint takes addr s c = (case read_until_delimiter [] s of
     (Inl reason, _, k, _) \<Rightarrow> (reason, sc_bytes k c)
   | (Inr False, buf, k, _) \<Rightarrow>
      (let msg = strip_cr buf; c1 = sc_bytes k c in
       if msg = [] then (CEof, c1)
       else case validate_pri msg of
         Inl e \<Rightarrow> (CEof, sc_invalid c1)
       | Inr _ \<Rightarrow> (case emit mint takes addr msg c1 of None \<Rightarrow> (CChannelClosed, c1) | Some c2 \<Rightarrow> (CEof, c2)))
   | (Inr True, buf, k, s') \<Rightarrow>
      (let msg = strip_cr buf; c1 = sc_bytes k c in
       if msg = [] then read_non_transparent mint takes addr s' c1
       else case validate_pri msg of
         Inl e \<Rightarrow> (CFraming (InvalidPri e), sc_invalid c1)
       | Inr _ \<Rightarrow> (case emit mint takes addr msg c1 of
           None \<Rightarrow> (CChannelClosed, c1)
         | Some c2 \<Rightarrow> read_non_transparent mint takes addr s' c2)))"
  by pat_completeness auto
termination
  by (relation "measure (\<lambda>(_, _, _, s, _). weight s)") (auto dest!: sym[of "(_, _)" "read_until_delimiter _ _"] read_until_delimiter_weight)

declare read_non_transparent.simps [simp del]

text \<open>A connection, from the first byte to its end; \<open>None\<close> when it closed before any.\<close>

definition syslog_connection :: "tcp_framing \<Rightarrow> (nat \<Rightarrow> uuid \<times> int) \<Rightarrow> (nat \<Rightarrow> bool) \<Rightarrow> sock_addr \<Rightarrow> chunk list \<Rightarrow> syslog_conn \<Rightarrow>
    close_reason option \<times> syslog_conn" where
  "syslog_connection framing mint takes addr s c =
     (case (if framing = FrAuto then detect_framing s else (Some framing, s)) of
        (None, _) \<Rightarrow> (None, c)
      | (Some FrOctetCounting, s') \<Rightarrow> (case read_octet_counting mint takes addr s' c of (r, c') \<Rightarrow> (Some r, c'))
      | (Some _, s') \<Rightarrow> (case read_non_transparent mint takes addr s' c of (r, c') \<Rightarrow> (Some r, c')))"

end
