(* ===== verification/SyslogIn_Facts.thy ===== *)
theory SyslogIn_Facts
  imports SyslogIn
begin

section \<open>Reading syslog messages\<close>

text \<open>
  A stream of well-framed messages is read back message by message, however its bytes are cut into pieces; with octet
  counting this holds of any bytes.
\<close>

definition octet_frame :: "bytes \<Rightarrow> bytes" where
  "octet_frame msg = nat_digits (length msg) @ CHR '' '' # msg"

definition line_frame :: "bytes \<Rightarrow> bytes" where
  "line_frame msg = msg @ [CHR 0x0A]"

text \<open>A message a line can carry: it has no delimiter in it and no carriage return at its end.\<close>

definition line_safe :: "bytes \<Rightarrow> bool" where
  "line_safe msg \<longleftrightarrow> list_all (\<lambda>c. \<not> is_delimiter c) msg \<and> (msg = [] \<or> last msg \<noteq> CHR 0x0D)"

text \<open>The state after one message of \<open>n\<close> bytes on the wire, and after several.\<close>

definition take_msg :: "(nat \<Rightarrow> uuid \<times> int) \<Rightarrow> sock_addr \<Rightarrow> nat \<Rightarrow> bytes \<Rightarrow> syslog_conn \<Rightarrow> syslog_conn" where
  "take_msg mint addr n msg c = the (emit mint (\<lambda>_. True) addr msg (sc_bytes n c))"

fun take_msgs :: "(nat \<Rightarrow> uuid \<times> int) \<Rightarrow> sock_addr \<Rightarrow> (bytes \<Rightarrow> bytes) \<Rightarrow> bytes list \<Rightarrow> syslog_conn \<Rightarrow> syslog_conn" where
  "take_msgs mint addr frame [] c = c"
| "take_msgs mint addr frame (m # ms) c = take_msgs mint addr frame ms (take_msg mint addr (length (frame m)) m c)"

lemma sc_bytes_add [simp]: "sc_bytes n (sc_bytes k c) = sc_bytes (k + n) c" "sc_bytes 0 c = c"
  by (simp_all add: sc_bytes_def add.assoc)

lemma sc_bytes_sent [simp]: "sc_sent (sc_bytes n c) = sc_sent c"
  by (simp add: sc_bytes_def)

lemma emit_takes: "takes (length (sc_sent c)) \<Longrightarrow> emit mint takes addr msg (sc_bytes n c) = Some (take_msg mint addr n msg c)"
  by (simp add: take_msg_def emit_def Let_def)

lemma take_msgs_facts:
  "map oe_ingress (sc_sent (take_msgs mint addr frame ms c)) = map oe_ingress (sc_sent c) @ ms"
  "im_received (sc_metrics (take_msgs mint addr frame ms c)) = im_received (sc_metrics c) + of_nat (length ms)"
  "im_bytes (sc_metrics (take_msgs mint addr frame ms c)) = im_bytes (sc_metrics c) + of_nat (length (concat (map frame ms)))"
  "im_invalid (sc_metrics (take_msgs mint addr frame ms c)) = im_invalid (sc_metrics c)"
  by (induction ms arbitrary: c)
    (simp_all add: take_msg_def emit_def Let_def event_new_def sc_bytes_def add.assoc)

lemma sent_length: "length (sc_sent (take_msg mint addr n m c)) = Suc (length (sc_sent c))"
  by (simp add: take_msg_def emit_def Let_def)

subsection \<open>The length prefix\<close>

lemma nat_digits_length: "n < 10 ^ k \<Longrightarrow> 0 < k \<Longrightarrow> length (nat_digits n) \<le> k"
proof (induction n arbitrary: k rule: nat_digits.induct)
  case (1 n)
  show ?case
  proof (cases "n < 10")
    case False
    then have "1 < k" using "1.prems" by (cases "k = 1") auto
    moreover have "n div 10 < 10 ^ (k - 1)" using "1.prems" by (cases k) auto
    ultimately have "length (nat_digits (n div 10)) \<le> k - 1" using "1.IH"[OF False, of "k - 1"] by simp
    then show ?thesis using False \<open>1 < k\<close> by (simp add: nat_digits.simps[of n])
  qed (use 1 in \<open>simp add: nat_digits.simps[of n]\<close>)
qed

lemma nat_digits_hd: "0 < n \<Longrightarrow> hd (nat_digits n) \<noteq> CHR ''0''"
proof (induction n rule: nat_digits.induct)
  case (1 n)
  show ?case
  proof (cases "n < 10")
    case True
    then show ?thesis using 1(2) digit_char(2)[of n] by (auto simp: nat_digits.simps[of n] digit_val_def)
  next
    case False
    then show ?thesis using 1 nat_digits_digits[of "n div 10"] by (simp add: nat_digits.simps[of n])
  qed
qed

lemma digit_plain: "is_digit c \<Longrightarrow> c \<noteq> CHR '' '' \<and> \<not> is_delimiter c \<and> c \<noteq> CHR ''<''"
  by (auto simp: is_digit_def is_delimiter_def)

lemma read_msg_len_digits:
  assumes "arrived True s = ds @ CHR '' '' # rest" "list_all is_digit ds" "acc @ ds \<noteq> []" "acc = [] \<longrightarrow> hd ds \<noteq> CHR ''0''"
    and "length (acc @ ds) \<le> max_msg_len_digits" "digits_val (acc @ ds) \<le> max_message_size"
  shows "\<exists>s'. read_msg_len acc s = (Inr (digits_val (acc @ ds)), length ds + 1, s') \<and> arrived True s' = rest \<and> ending True s' = ending True s"
  using assms
proof (induction ds arbitrary: acc s)
  case Nil
  then obtain s1 where "read_exact True 1 s = (Inr [CHR '' ''], 1, s1)" "arrived True s1 = rest" "ending True s1 = ending True s"
    using read_exact_ok[of True s "[CHR '' '']" rest 1] by auto
  then show ?case using Nil by (subst read_msg_len.simps) (auto simp: not_less)
next
  case (Cons d ds)
  obtain s1 where s1: "read_exact True 1 s = (Inr [d], 1, s1)" "arrived True s1 = ds @ CHR '' '' # rest" "ending True s1 = ending True s"
    using read_exact_ok[of True s "[d]" "ds @ CHR '' '' # rest" 1] Cons.prems(1) by auto
  obtain s' where "read_msg_len (acc @ [d]) s1 = (Inr (digits_val (acc @ d # ds)), length ds + 1, s')" "arrived True s' = rest"
    "ending True s' = ending True s1"
    using Cons.IH[OF s1(2), of "acc @ [d]"] Cons.prems by auto
  then show ?case using s1 Cons.prems digit_plain[of d] by (subst read_msg_len.simps) (auto simp: Let_def)
qed

lemma read_msg_len_frame:
  assumes "arrived True s = octet_frame m @ rest" "m \<noteq> []" "length m \<le> max_message_size"
  shows "\<exists>s'. read_msg_len [] s = (Inr (length m), length (nat_digits (length m)) + 1, s') \<and> arrived True s' = m @ rest \<and>
    ending True s' = ending True s"
proof -
  have "length m < 10 ^ max_msg_len_digits" using assms(3) by (simp add: max_message_size_def max_msg_len_digits_def)
  then have "length (nat_digits (length m)) \<le> max_msg_len_digits"
    by (rule nat_digits_length) (simp add: max_msg_len_digits_def)
  then show ?thesis
    using read_msg_len_digits[of s "nat_digits (length m)" "m @ rest" "[]"] assms nat_digits_digits[of "length m"] nat_digits_hd[of "length m"]
    by (simp add: octet_frame_def digits_val_nat_digits)
qed

subsection \<open>Octet counting\<close>

lemma pri_ok_ne: "pri_ok m \<Longrightarrow> m \<noteq> []"
  by (auto simp: pri_ok_def validate_pri_def)

lemma read_octet_counting_frames:
  assumes "\<forall>m \<in> set ms. pri_ok m \<and> length m \<le> max_message_size" "\<forall>k. takes k"
    and "arrived True s = concat (map octet_frame ms) @ rest"
  shows "\<exists>s'. arrived True s' = rest \<and> ending True s' = ending True s \<and>
    (\<forall>c. read_octet_counting mint takes addr s c = read_octet_counting mint takes addr s' (take_msgs mint addr octet_frame ms c))"
  using assms
proof (induction ms arbitrary: s)
  case (Cons m ms)
  have ms: "\<forall>m \<in> set ms. pri_ok m \<and> length m \<le> max_message_size" using Cons.prems(1) by simp
  obtain s1 where s1: "read_msg_len [] s = (Inr (length m), length (nat_digits (length m)) + 1, s1)"
    "arrived True s1 = m @ concat (map octet_frame ms) @ rest" "ending True s1 = ending True s"
    using read_msg_len_frame[of s m "concat (map octet_frame ms) @ rest"] Cons.prems pri_ok_ne[of m] by auto
  obtain s2 where s2: "read_exact True (length m) s1 = (Inr m, length m, s2)" "arrived True s2 = concat (map octet_frame ms) @ rest"
    "ending True s2 = ending True s1"
    using read_exact_ok[OF s1(2) refl] by metis
  obtain s3 where s3: "arrived True s3 = rest" "ending True s3 = ending True s2"
    "\<And>c. read_octet_counting mint takes addr s2 c = read_octet_counting mint takes addr s3 (take_msgs mint addr octet_frame ms c)"
    using Cons.IH[OF ms Cons.prems(2) s2(2)] by blast
  have v: "validate_pri m = Inr ()" using Cons.prems(1) by (simp add: pri_ok_def)
  have "read_octet_counting mint takes addr s c = read_octet_counting mint takes addr s3 (take_msgs mint addr octet_frame (m # ms) c)" for c
    by (subst read_octet_counting.simps)
      (use Cons.prems(2) in \<open>simp add: s1(1) s2(1) v emit_takes s3(3) octet_frame_def add.assoc\<close>)
  then show ?case using s1(3) s2(3) s3 by metis
qed auto

lemma read_octet_counting_end:
  assumes "arrived True s = []"
  shows "read_octet_counting mint takes addr s c = (close_of (ending True s), c)"
proof -
  obtain s' where "read_exact True 1 s = (Inl (ending True s), 0, s')" using read_exact_short[of True s 1] assms by auto
  then have "read_msg_len [] s = (Inl (close_of (ending True s)), 0, s')" by (subst read_msg_len.simps) simp
  then show ?thesis by (subst read_octet_counting.simps) simp
qed

text \<open>How the bytes are cut does not matter, even for bytes that are no frames.\<close>

lemma read_msg_len_same:
  assumes "same_bytes True s u" "read_msg_len acc s = (r, k, s')"
  shows "\<exists>u'. read_msg_len acc u = (r, k, u') \<and> (\<forall>n. r = Inr n \<longrightarrow> same_bytes True s' u')"
  using assms
proof (induction acc s arbitrary: u r k s' rule: read_msg_len.induct)
  case (1 acc s)
  show ?case
  proof (rule read_exact_same[OF 1(2), of 1])
    fix e k' s1 u1 assume "read_exact True 1 s = (Inl e, k', s1)" "read_exact True 1 u = (Inl e, k', u1)"
    then show ?thesis using 1(3) by (subst (asm) read_msg_len.simps, subst read_msg_len.simps) auto
  next
    fix b s1 u1 assume b: "read_exact True 1 s = (Inr b, 1, s1)" "read_exact True 1 u = (Inr b, 1, u1)" "same_bytes True s1 u1"
    obtain r1 k1 s2 where rest: "read_msg_len (acc @ [hd b]) s1 = (r1, k1, s2)" by (cases "read_msg_len (acc @ [hd b]) s1") auto
    show ?thesis
    proof (cases "hd b \<noteq> CHR '' '' \<and> is_digit (hd b) \<and> \<not> (acc = [] \<and> hd b = CHR ''0'') \<and> \<not> max_msg_len_digits < length (acc @ [hd b])")
      case True
      then obtain u2 where u2: "read_msg_len (acc @ [hd b]) u1 = (r1, k1, u2)" "\<forall>n. r1 = Inr n \<longrightarrow> same_bytes True s2 u2"
        using 1(1)[OF b(1)[symmetric] refl refl refl _ _ _ _ b(3) rest] by auto
      have "r = r1" "k = 1 + k1" "s' = s2" using 1(3) b(1) True rest by (subst (asm) read_msg_len.simps; auto simp: Let_def)+
      moreover have "read_msg_len acc u = (r1, 1 + k1, u2)" using b(2) True u2(1) by (subst read_msg_len.simps) (auto simp: Let_def)
      ultimately show ?thesis using u2(2) by blast
    next
      case False
      then show ?thesis using 1(3) b by (subst (asm) read_msg_len.simps, subst read_msg_len.simps) (auto simp: Let_def split: if_splits)
    qed
  qed
qed

lemma read_octet_counting_same:
  "same_bytes True s u \<Longrightarrow> read_octet_counting mint takes addr s c = read_octet_counting mint takes addr u c"
proof (induction mint takes addr s c arbitrary: u rule: read_octet_counting.induct)
  case (1 mint takes addr s c)
  obtain r k s1 where r: "read_msg_len [] s = (r, k, s1)" by (cases "read_msg_len [] s") auto
  obtain u1 where u1: "read_msg_len [] u = (r, k, u1)" "\<forall>n. r = Inr n \<longrightarrow> same_bytes True s1 u1"
    using read_msg_len_same[OF 1(2) r] by blast
  show ?case
  proof (cases r)
    case (Inl e)
    then show ?thesis using r u1(1) by (subst (1 2) read_octet_counting.simps) simp
  next
    case (Inr n)
    then have su: "same_bytes True s1 u1" using u1(2) by blast
    show ?thesis
    proof (rule read_exact_same[OF su, of n])
      fix e k' s2 u2 assume "read_exact True n s1 = (Inl e, k', s2)" "read_exact True n u1 = (Inl e, k', u2)"
      then show ?thesis using r u1(1) Inr by (subst (1 2) read_octet_counting.simps) simp
    next
      fix b s2 u2 assume b: "read_exact True n s1 = (Inr b, n, s2)" "read_exact True n u1 = (Inr b, n, u2)" "same_bytes True s2 u2"
      have "read_octet_counting mint takes addr s2 c2 = read_octet_counting mint takes addr u2 c2"
        if "validate_pri b = Inr v" "emit mint takes addr b (sc_bytes n (sc_bytes k c)) = Some c2" for v c2
        using 1(1)[OF r[symmetric] Inr _ _ _ _ _ _ _ b(3)] b(1) that by auto
      then show ?thesis using r u1(1) Inr b(1,2)
        by (subst (1 2) read_octet_counting.simps) (auto simp: Let_def split: sum.split option.split)
    qed
  qed
qed

subsection \<open>Non-transparent framing\<close>

lemma position_None: "position p xs = None \<longleftrightarrow> (\<forall>x \<in> set xs. \<not> p x)"
  by (induction xs) (auto simp: position_def Let_def split: if_splits)

lemma position_append:
  "\<forall>x \<in> set a. \<not> p x \<Longrightarrow> p y \<Longrightarrow> position p (a @ y # b) = Some (length a)"
  by (simp add: position_def takeWhile_append2)

lemma read_until_line:
  assumes "arrived True s = m @ d # rest" "\<forall>c \<in> set m. \<not> is_delimiter c" "is_delimiter d" "length buf + length m \<le> max_message_size"
  shows "\<exists>s'. read_until_delimiter buf s = (Inr True, buf @ m, length m + 1, s') \<and> arrived True s' = rest \<and> ending True s' = ending True s"
  using assms
proof (induction buf s arbitrary: m rule: read_until_delimiter.induct)
  case (1 buf s)
  obtain x s1 where x: "fill_buf True s = (x, s1)" by fastforce
  show ?case
  proof (cases x)
    case (Stop e)
    then show ?thesis using fill_buf_Stop[of True s e s1] x 1(2) by simp
  next
    case (Got b)
    note g = fill_buf_Got[OF x[unfolded Got]]
    then obtain t where t: "s1 = Data b # t" by blast
    have bt: "b @ arrived True t = m @ d # rest" using g t 1(2) by simp
    show ?thesis
    proof (cases "\<exists>m'. m = b @ m' \<and> arrived True t = m' @ d # rest")
      case True
      then obtain m' where m: "m = b @ m'" "arrived True t = m' @ d # rest" by blast
      have none: "position is_delimiter b = None" using 1(3) m by (auto simp: position_None)
      have big: "\<not> max_message_size < length buf + length b" using 1(5) m by simp
      have a: "arrived True (consume_buf (length b) s1) = m' @ d # rest" "ending True (consume_buf (length b) s1) = ending True s"
        using m t g by simp_all
      obtain s' where "read_until_delimiter (buf @ b) (consume_buf (length b) s1) = (Inr True, (buf @ b) @ m', length m' + 1, s')"
        "arrived True s' = rest" "ending True s' = ending True s"
        using 1(1)[OF x[symmetric] Got none big a(1)] 1(3-5) m a(2) by auto
      then show ?thesis using x Got none big m by (subst read_until_delimiter.simps) auto
    next
      case False
      then obtain us where us: "b = m @ us" "us @ arrived True t = d # rest"
        using bt unfolding append_eq_append_conv2 by auto
      then obtain b' where b: "b = m @ d # b'" "rest = b' @ arrived True t" using False by (cases us) auto
      have pos: "position is_delimiter b = Some (length m)" unfolding b(1) by (rule position_append[OF 1(3,4)])
      show ?thesis using x Got pos b t g by (subst read_until_delimiter.simps) auto
    qed
  qed
qed

lemma strip_cr_safe: "line_safe m \<Longrightarrow> strip_cr m = m"
  by (cases m rule: rev_cases) (auto simp: strip_cr_def line_safe_def)

lemma read_non_transparent_frames:
  assumes "\<forall>m \<in> set ms. pri_ok m \<and> line_safe m \<and> length m \<le> max_message_size" "\<forall>k. takes k"
    and "arrived True s = concat (map line_frame ms) @ rest"
  shows "\<exists>s'. arrived True s' = rest \<and> ending True s' = ending True s \<and>
    (\<forall>c. read_non_transparent mint takes addr s c = read_non_transparent mint takes addr s' (take_msgs mint addr line_frame ms c))"
  using assms
proof (induction ms arbitrary: s)
  case (Cons m ms)
  have ms: "\<forall>m \<in> set ms. pri_ok m \<and> line_safe m \<and> length m \<le> max_message_size" using Cons.prems(1) by simp
  have safe: "\<forall>c \<in> set m. \<not> is_delimiter c" using Cons.prems(1) by (auto simp: line_safe_def list_all_iff)
  have line: "arrived True s = m @ CHR 0x0A # (concat (map line_frame ms) @ rest)" using Cons.prems(3) by (simp add: line_frame_def[of m])
  obtain s1 where s1: "read_until_delimiter [] s = (Inr True, m, length m + 1, s1)" "arrived True s1 = concat (map line_frame ms) @ rest"
    "ending True s1 = ending True s"
    using read_until_line[OF line safe _, of "[]"] Cons.prems(1) by (auto simp: is_delimiter_def)
  obtain s2 where s2: "arrived True s2 = rest" "ending True s2 = ending True s1"
    "\<And>c. read_non_transparent mint takes addr s1 c = read_non_transparent mint takes addr s2 (take_msgs mint addr line_frame ms c)"
    using Cons.IH[OF ms Cons.prems(2) s1(2)] by blast
  have v: "validate_pri m = Inr ()" "m \<noteq> []" "strip_cr m = m" using Cons.prems(1) pri_ok_ne strip_cr_safe by (auto simp: pri_ok_def)
  have "read_non_transparent mint takes addr s c = read_non_transparent mint takes addr s2 (take_msgs mint addr line_frame (m # ms) c)" for c
    by (subst read_non_transparent.simps) (use Cons.prems(2) in \<open>simp add: s1(1) v emit_takes s2(3) line_frame_def\<close>)
  then show ?case using s1(3) s2 by metis
qed auto

lemma read_non_transparent_end:
  assumes "arrived True s = []"
  shows "read_non_transparent mint takes addr s c = (close_of (ending True s), c)"
proof -
  obtain s' where "fill_buf True s = (Stop (ending True s), s')"
    using fill_buf_Got[of True s] fill_buf_Stop[of True s] assms by (cases "fill_buf True s"; cases "fst (fill_buf True s)") auto
  then have "read_until_delimiter [] s = (case ending True s of AtEof \<Rightarrow> Inr False | e \<Rightarrow> Inl (close_of e), [], 0, s')"
    by (subst read_until_delimiter.simps) (simp split: read_end.split)
  then show ?thesis by (subst read_non_transparent.simps) (auto simp: strip_cr_def split: read_end.split)
qed

text \<open>A message is never longer than the limit and one buffer of the reader.\<close>

lemma read_until_bounded:
  assumes "read_until_delimiter buf s = (r, buf', k, s')" "\<forall>b. Data b \<in> set s \<longrightarrow> length b \<le> cap" "length buf \<le> max_message_size"
  shows "length buf' \<le> max_message_size + cap \<and> (\<forall>b. Data b \<in> set s' \<longrightarrow> length b \<le> cap)"
  using assms
proof (induction buf s arbitrary: r buf' k s' rule: read_until_delimiter.induct)
  case (1 buf s)
  have sub: "fill_buf True s = (x, s1) \<Longrightarrow> \<forall>b. Data b \<in> set s1 \<longrightarrow> length b \<le> cap" for x s1
    using 1(3) by (induction "True" s rule: fill_buf.induct) (auto split: if_splits)
  obtain x s1 where x: "fill_buf True s = (x, s1)" by fastforce
  show ?case
  proof (cases x)
    case (Stop e)
    then show ?thesis using 1(2,4) x sub[OF x] by (subst (asm) read_until_delimiter.simps) (auto split: read_end.splits)
  next
    case (Got b)
    note g = fill_buf_Got[OF x[unfolded Got]]
    then obtain t where t: "s1 = Data b # t" by blast
    have b: "length b \<le> cap" "\<forall>c. Data c \<in> set t \<longrightarrow> length c \<le> cap" using sub[OF x] t by auto
    show ?thesis
    proof (cases "position is_delimiter b")
      case (Some pos)
      then have "buf' = buf @ take pos b \<and> s' = Data (drop (pos + 1) b) # t" using 1(2) x Got t by (subst (asm) read_until_delimiter.simps) auto
      then show ?thesis using b 1(4) by auto
    next
      case None
      show ?thesis
      proof (cases "max_message_size < length buf + length b")
        case True
        then have "buf' = buf \<and> s' = s1" using 1(2) x Got None by (subst (asm) read_until_delimiter.simps) auto
        then show ?thesis using b t 1(4) by auto
      next
        case False
        obtain r1 b1 k1 s2 where rest: "read_until_delimiter (buf @ b) (consume_buf (length b) s1) = (r1, b1, k1, s2)"
          by (cases "read_until_delimiter (buf @ b) (consume_buf (length b) s1)") auto
        have "buf' = b1" "s' = s2" using 1(2) x Got None False rest by (subst (asm) read_until_delimiter.simps; auto)+
        then show ?thesis using 1(1)[OF x[symmetric] Got None False rest] b t False by auto
      qed
    qed
  qed
qed

end
