(* ===== verification/Syntax.thy ===== *)
theory Syntax
  imports Text
begin

section \<open>Abstract syntax of the DSL\<close>

text \<open>
  The syntax tree (\<open>dsl/ast.rs\<close>). Source spans are left out: they position diagnostics and nothing
  else reads them. Statements of a process and of a pipeline nest through branch bodies.
\<close>

datatype bin_op =
    OpEq | OpNe | OpLt | OpLe | OpGt | OpGe
  | OpAnd | OpOr
  | OpAdd | OpSub | OpMul | OpDiv | OpMod

datatype un_op = OpNot | OpNeg

datatype expr =
    StringLit rstr
  | Template "fragment list"
  | IntLit int
  | FloatLit f64
  | BoolLit bool
  | NullLit
  | Ident "rstr list"
  | FuncCall "rstr option" rstr "expr list" "block_arg option"
  | BinOp expr bin_op expr
  | UnaryOp un_op expr
  | HashLit "(rstr \<times> expr) list"
  | ArrayLit "expr list"
  | PropertyAccess expr "rstr list"
  | SwitchExpr expr "(expr option \<times> expr) list"
and fragment = Literal rstr | Interp expr
and block_arg = BlockArg (ba_params: "rstr list") (ba_body: func_body)
and func_body = FuncBody (fb_lets: "(rstr \<times> expr) list") (fb_ret: expr)

record function_def =
  fd_name :: rstr
  fd_params :: "rstr list"
  fd_body :: func_body

datatype assign_target = Egress | Workspace "rstr list"

datatype process_statement =
    Assign assign_target expr
  | LetBinding rstr expr
  | ProcessCall rstr
  | PDrop
  | PError "expr option"
  | PIf "(expr \<times> branch_body list) list" "branch_body list option"
  | PSwitch expr "(expr option \<times> branch_body list) list"
  | TryCatch "process_statement list" "process_statement list"
  | ExprStmt expr
and pipeline_statement =
    SInput "rstr list"
  | SProcessChain "chain_element list"
  | SOutput rstr
  | SDrop
  | SFinish
  | SError "expr option"
  | SIf "(expr \<times> branch_body list) list" "branch_body list option"
  | SSwitch expr "(expr option \<times> branch_body list) list"
and branch_body = BProcess process_statement | BPipeline pipeline_statement
and chain_element = Named rstr | Inline "process_statement list"

record process_def =
  pd_name :: rstr
  pd_body :: "process_statement list"

record pipeline_def =
  pl_name :: rstr
  pl_body :: "pipeline_statement list"

text \<open>\<open>walk_children\<close>: the immediate sub-expressions, in the order the visitor meets them.\<close>

fun fragment_exprs :: "fragment \<Rightarrow> expr list" where
  "fragment_exprs (Interp e) = [e]"
| "fragment_exprs (Literal _) = []"

fun arm_exprs :: "expr option \<times> expr \<Rightarrow> expr list" where
  "arm_exprs (Some e, b) = [e, b]"
| "arm_exprs (None, b) = [b]"

fun children :: "expr \<Rightarrow> expr list" where
  "children (FuncCall ns name args blk) =
     args @ (case blk of Some b \<Rightarrow> map snd (fb_lets (ba_body b)) @ [fb_ret (ba_body b)] | None \<Rightarrow> [])"
| "children (BinOp l op r) = [l, r]"
| "children (UnaryOp op e) = [e]"
| "children (PropertyAccess b path) = [b]"
| "children (Template fs) = concat (map fragment_exprs fs)"
| "children (HashLit es) = map snd es"
| "children (ArrayLit es) = es"
| "children (SwitchExpr s arms) = s # concat (map arm_exprs arms)"
| "children _ = []"

end
