(* ===== verification/Eval.thy ===== *)
theory Eval
  imports Syntax
begin

section \<open>Expression evaluation\<close>

text \<open>
  The evaluator (\<open>dsl/eval.rs\<close>) and the dispatch of the function registry (\<open>functions/mod.rs\<close>).
  Built-in functions are closures held by the registry: an entry is a function of the arguments
  and the event that may read and change the world \<open>'w\<close> behind it (tables, the clock). The
  rendering of a timestamp belongs to a library and is a field of the environment.

  The evaluator recurses once per nested expression and once per user-defined function call.
  \<open>eval_expr_with_scope\<close> takes the number of stack frames left; each helper takes the recursive
  call as an argument.
\<close>

subsection \<open>Registry\<close>

datatype field_type =
    TString | TInt | TFloat | TBool | TTimestamp | TNull | TObject | TArray | TBytes | TAny
  | TUnion "field_type list"

datatype arity = Fixed | Optional nat | Variadic nat

record function_sig =
  fs_args :: "field_type list"
  fs_arity :: arity
  fs_ret :: field_type

type_synonym 'w builtin = "val list \<Rightarrow> borrowed_event \<Rightarrow> ('w, val) M"
type_synonym fn_key = "rstr option \<times> rstr"

record 'w registry =
  reg_functions :: "(fn_key \<times> 'w builtin) list"
  reg_signatures :: "(fn_key \<times> function_sig) list"
  user_definitions :: "(rstr \<times> function_def) list"
  to_rfc3339 :: "int \<Rightarrow> string"

definition sig_fixed :: "field_type list \<Rightarrow> field_type \<Rightarrow> function_sig" where
  "sig_fixed args r = \<lparr>fs_args = args, fs_arity = Fixed, fs_ret = r\<rparr>"

definition sig_optional :: "field_type list \<Rightarrow> nat \<Rightarrow> field_type \<Rightarrow> function_sig" where
  "sig_optional args required r = \<lparr>fs_args = args, fs_arity = Optional required, fs_ret = r\<rparr>"

definition sig_variadic :: "field_type \<Rightarrow> nat \<Rightarrow> field_type \<Rightarrow> function_sig" where
  "sig_variadic elem mn r = \<lparr>fs_args = [elem], fs_arity = Variadic mn, fs_ret = r\<rparr>"

definition register_with_sig ::
  "rstr option \<Rightarrow> rstr \<Rightarrow> function_sig \<Rightarrow> 'w builtin \<Rightarrow> 'w registry \<Rightarrow> 'w registry" where
  "register_with_sig ns name fsig f reg =
     reg\<lparr>reg_functions := al_set (ns, name) f (reg_functions reg),
         reg_signatures := al_set (ns, name) fsig (reg_signatures reg)\<rparr>"

text \<open>\<open>register_user_function\<close>: the definition and a synthesized \<open>Any\<close> signature.\<close>

definition register_user_function :: "function_def \<Rightarrow> 'w registry \<Rightarrow> 'w registry" where
  "register_user_function fd reg =
     reg\<lparr>reg_signatures := al_set (None, fd_name fd)
            (sig_fixed (replicate (length (fd_params fd)) TAny) TAny) (reg_signatures reg),
         user_definitions := al_set (fd_name fd) fd (user_definitions reg)\<rparr>"

text \<open>\<open>validate_arity\<close>\<close>

definition show_nat :: "nat \<Rightarrow> string" where
  "show_nat n = nat_digits n"

definition arity_ok :: "function_sig \<Rightarrow> nat \<Rightarrow> bool" where
  "arity_ok fsig actual = (case fs_arity fsig of
     Fixed \<Rightarrow> actual = length (fs_args fsig)
   | Optional required \<Rightarrow> required \<le> actual \<and> actual \<le> length (fs_args fsig)
   | Variadic mn \<Rightarrow> mn \<le> actual)"

definition arity_expected :: "function_sig \<Rightarrow> string" where
  "arity_expected fsig = (case fs_arity fsig of
     Fixed \<Rightarrow> (let n = length (fs_args fsig)
               in if n = 1 then ''1 argument'' else show_nat n @ '' arguments'')
   | Optional required \<Rightarrow> (let mx = length (fs_args fsig)
               in if required = mx then show_nat required @ '' arguments''
                  else show_nat required @ '' to '' @ show_nat mx @ '' arguments'')
   | Variadic mn \<Rightarrow> ''at least '' @ show_nat mn @ (if mn = 1 then '' argument'' else '' arguments''))"

definition validate_arity :: "rstr option \<Rightarrow> rstr \<Rightarrow> function_sig \<Rightarrow> nat \<Rightarrow> unit res" where
  "validate_arity ns name fsig actual =
     (if arity_ok fsig actual then Ok ()
      else let prefix = (case ns of Some n \<Rightarrow> n @ ''.'' @ name | None \<Rightarrow> name)
           in Err (prefix @ ''() expects '' @ arity_expected fsig @ '', got '' @ show_nat actual))"

subsection \<open>Local scopes\<close>

type_synonym scope = "rstr \<Rightarrow> val option"

definition scope_bind :: "rstr \<Rightarrow> val \<Rightarrow> scope \<Rightarrow> scope" where
  "scope_bind name v sc = sc(name \<mapsto> v)"

definition scope_bind_all :: "rstr list \<Rightarrow> val list \<Rightarrow> scope \<Rightarrow> scope" where
  "scope_bind_all ps vs sc = foldl (\<lambda>s (p, v). scope_bind p v s) sc (zip ps vs)"

subsection \<open>Value helpers\<close>

text \<open>\<open>values_match\<close>: the \<open>==\<close> operator and the statement-form switch.\<close>

fun values_match :: "val \<Rightarrow> val \<Rightarrow> bool" where
  "values_match (VInt a) (VInt b) = (a = b)"
| "values_match (VFloat a) (VFloat b) = f64_eq a b"
| "values_match (VInt a) (VFloat b) = f64_eq (f64_of_int a) b"
| "values_match (VFloat b) (VInt a) = f64_eq (f64_of_int a) b"
| "values_match (VString a) (VString b) = (a = b)"
| "values_match (VBytes a) (VBytes b) = (a = b)"
| "values_match (VBool a) (VBool b) = (a = b)"
| "values_match VNull VNull = True"
| "values_match (VArray a) (VArray b) = vals_eq a b"
| "values_match (VObject a) (VObject b) = entries_eq a b"
| "values_match _ _ = False"

text \<open>\<open>values_equal\<close>: the expression-form switch.\<close>

fun values_equal :: "val \<Rightarrow> val \<Rightarrow> bool" where
  "values_equal VNull VNull = True"
| "values_equal (VBool x) (VBool y) = (x = y)"
| "values_equal (VInt x) (VInt y) = (x = y)"
| "values_equal (VFloat x) (VFloat y) = f64_eq x y"
| "values_equal (VInt x) (VFloat y) = f64_eq (f64_of_int x) y"
| "values_equal (VFloat y) (VInt x) = f64_eq (f64_of_int x) y"
| "values_equal (VString x) (VString y) = (x = y)"
| "values_equal _ _ = False"

text \<open>\<open>value_to_string\<close>\<close>

fun value_to_string :: "(int \<Rightarrow> string) \<Rightarrow> val \<Rightarrow> string" where
  "value_to_string rfc (VString s) = s"
| "value_to_string rfc VNull = []"
| "value_to_string rfc (VBool b) = (if b then ''true'' else ''false'')"
| "value_to_string rfc (VInt n) = string_of_int n"
| "value_to_string rfc (VFloat n) =
     (if f64_fract_zero n \<and> f64_is_finite n then string_of_int (f64_to_i64 n) else f64_to_string n)"
| "value_to_string rfc (VBytes _) = ''<bytes>''"
| "value_to_string rfc (VTimestamp t) = rfc t"
| "value_to_string rfc (VArray a) = ''['' @ join '', '' (map (value_to_string rfc) a) @ '']''"
| "value_to_string rfc (VObject es) =
     ''{'' @ join '', '' (map (\<lambda>(k, v). k @ '': '' @ value_to_string rfc v) es) @ ''}''"

fun value_to_f64 :: "val \<Rightarrow> f64" where
  "value_to_f64 (VInt n) = f64_of_int n"
| "value_to_f64 (VFloat n) = n"
| "value_to_f64 (VString s) = (case f64_parse s of Some x \<Rightarrow> x | None \<Rightarrow> f64_zero)"
| "value_to_f64 (VBool b) = (if b then f64_of_int 1 else f64_zero)"
| "value_to_f64 _ = f64_zero"

fun bytes_cmp :: "bytes \<Rightarrow> bytes \<Rightarrow> ordering" where
  "bytes_cmp [] [] = Equal"
| "bytes_cmp [] (_ # _) = Less"
| "bytes_cmp (_ # _) [] = Greater"
| "bytes_cmp (a # as) (b # bs) =
     (if a = b then bytes_cmp as bs else if (of_char a :: nat) < of_char b then Less else Greater)"

fun compare_values :: "val \<Rightarrow> val \<Rightarrow> ordering option" where
  "compare_values (VInt a) (VInt b) = Some (cmp_int a b)"
| "compare_values (VFloat a) (VFloat b) = f64_partial_cmp a b"
| "compare_values (VInt a) (VFloat b) = f64_partial_cmp (f64_of_int a) b"
| "compare_values (VFloat a) (VInt b) = f64_partial_cmp a (f64_of_int b)"
| "compare_values (VBytes a) (VBytes b) = Some (bytes_cmp a b)"
| "compare_values _ _ = None"

subsection \<open>Arithmetic\<close>

text \<open>\<open>numeric_value_from_f64\<close>: integral finite results in the \<open>i64\<close> range become \<open>Int\<close>.\<close>

definition f64_ge :: "f64 \<Rightarrow> f64 \<Rightarrow> bool" where
  "f64_ge a b \<longleftrightarrow> f64_partial_cmp a b = Some Greater \<or> f64_partial_cmp a b = Some Equal"

definition f64_lt :: "f64 \<Rightarrow> f64 \<Rightarrow> bool" where
  "f64_lt a b \<longleftrightarrow> f64_partial_cmp a b = Some Less"

definition numeric_value_from_f64 :: "f64 \<Rightarrow> val" where
  "numeric_value_from_f64 n =
     (let mn = f64_of_int i64_min; mx = f64_neg mn
      in if f64_is_finite n \<and> f64_fract_zero n \<and> f64_ge n mn \<and> f64_lt n mx then VInt (f64_to_i64 n)
         else if f64_is_finite n then VFloat n
         else VNull)"

text \<open>\<open>arithmetic_labels\<close>; the other operators are unreachable there.\<close>

fun arithmetic_labels :: "bin_op \<Rightarrow> string \<times> string" where
  "arithmetic_labels OpAdd = (''add'', ''+'')"
| "arithmetic_labels OpSub = (''subtract'', ''-'')"
| "arithmetic_labels OpMul = (''multiply'', ''*'')"
| "arithmetic_labels OpDiv = (''divide'', ''/'')"
| "arithmetic_labels OpMod = (''modulo'', ''%'')"
| "arithmetic_labels _ = ([], [])"

definition checked_int_op :: "bin_op \<Rightarrow> int \<Rightarrow> int \<Rightarrow> int option" where
  "checked_int_op op l r = (case op of
     OpAdd \<Rightarrow> checked_i64 (l + r)
   | OpSub \<Rightarrow> checked_i64 (l - r)
   | OpMul \<Rightarrow> checked_i64 (l * r)
   | OpDiv \<Rightarrow> if r = 0 then Some 0 else checked_i64 (trunc_div l r)
   | OpMod \<Rightarrow> if r = 0 then Some 0
              else if l = i64_min \<and> r = -1 then None else Some (trunc_rem l r)
   | _ \<Rightarrow> None)"

definition exact_int_op :: "bin_op \<Rightarrow> int \<Rightarrow> int \<Rightarrow> int res" where
  "exact_int_op op l r =
     (case checked_int_op op l r of
        Some n \<Rightarrow> Ok n
      | None \<Rightarrow> (let sym = snd (arithmetic_labels op)
                in Err (''integer overflow for operator `'' @ sym @ ''`: '' @ string_of_int l @ '' '' @ sym
                        @ '' '' @ string_of_int r @ '' exceeds i64'')))"

definition numeric_op :: "bin_op \<Rightarrow> (f64 \<Rightarrow> f64 \<Rightarrow> f64) \<Rightarrow> val \<Rightarrow> val \<Rightarrow> val res" where
  "numeric_op op f l r =
     (if is_bytes l \<or> is_bytes r then Err (''cannot '' @ fst (arithmetic_labels op) @ '' a bytes value'')
      else case (l, r) of
        (VInt a, VInt b) \<Rightarrow> (case exact_int_op op a b of Ok n \<Rightarrow> Ok (VInt n) | Err m \<Rightarrow> Err m | Crash \<Rightarrow> Crash)
      | _ \<Rightarrow> Ok (numeric_value_from_f64 (f (value_to_f64 l) (value_to_f64 r))))"

definition add_values :: "(int \<Rightarrow> string) \<Rightarrow> val \<Rightarrow> val \<Rightarrow> val res" where
  "add_values rfc l r =
     (if is_bytes l \<or> is_bytes r then
        (case (l, r) of
           (VBytes a, VBytes b) \<Rightarrow> Ok (VBytes (a @ b))
         | _ \<Rightarrow> Err (''cannot concatenate '' @ type_name l @ '' and '' @ type_name r
                    @ '' (only bytes + bytes is supported)''))
      else if is_string l \<or> is_string r then Ok (VString (value_to_string rfc l @ value_to_string rfc r))
      else numeric_op OpAdd f64_add l r)"

definition guard_zero :: "(f64 \<Rightarrow> f64 \<Rightarrow> f64) \<Rightarrow> f64 \<Rightarrow> f64 \<Rightarrow> f64" where
  "guard_zero f a b = (if \<not> f64_eq b f64_zero then f a b else f64_zero)"

definition eval_bin_op :: "(int \<Rightarrow> string) \<Rightarrow> val \<Rightarrow> bin_op \<Rightarrow> val \<Rightarrow> val res" where
  "eval_bin_op rfc l op r = (case op of
     OpEq \<Rightarrow> Ok (VBool (values_match l r))
   | OpNe \<Rightarrow> Ok (VBool (\<not> values_match l r))
   | OpLt \<Rightarrow> Ok (VBool (compare_values l r = Some Less))
   | OpLe \<Rightarrow> Ok (VBool (compare_values l r \<in> {Some Less, Some Equal}))
   | OpGt \<Rightarrow> Ok (VBool (compare_values l r = Some Greater))
   | OpGe \<Rightarrow> Ok (VBool (compare_values l r \<in> {Some Greater, Some Equal}))
   | OpAnd \<Rightarrow> Ok (VBool (is_truthy l \<and> is_truthy r))
   | OpOr \<Rightarrow> Ok (VBool (is_truthy l \<or> is_truthy r))
   | OpAdd \<Rightarrow> add_values rfc l r
   | OpSub \<Rightarrow> numeric_op OpSub f64_sub l r
   | OpMul \<Rightarrow> numeric_op OpMul f64_mul l r
   | OpDiv \<Rightarrow> numeric_op OpDiv (guard_zero f64_div) l r
   | OpMod \<Rightarrow> numeric_op OpMod (guard_zero f64_rem) l r)"

definition eval_unary_op :: "un_op \<Rightarrow> val \<Rightarrow> val res" where
  "eval_unary_op op v = (case op of
     OpNot \<Rightarrow> Ok (VBool (\<not> is_truthy v))
   | OpNeg \<Rightarrow> if is_bytes v then Err ''cannot negate a bytes value''
              else Ok (numeric_value_from_f64 (f64_neg (value_to_f64 v))))"

subsection \<open>Identifiers\<close>

definition bytes_to_value :: "bytes \<Rightarrow> val" where
  "bytes_to_value b = (if utf8_valid b then VString b else VBytes b)"

definition field_err :: "rstr \<Rightarrow> string" where
  "field_err f = ''cannot access field `'' @ f @ ''` on a bytes value''"

definition or_null :: "val option \<Rightarrow> val" where
  "or_null r = (case r of Some v \<Rightarrow> v | None \<Rightarrow> VNull)"

text \<open>\<open>resolve_workspace_path\<close>\<close>

fun resolve_workspace_path :: "rstr list \<Rightarrow> val \<Rightarrow> val res" where
  "resolve_workspace_path [] v = Ok v"
| "resolve_workspace_path (p # ps) v = (case v of
     VObject entries \<Rightarrow> resolve_workspace_path ps (or_null (map_of entries p))
   | VBytes _ \<Rightarrow> Err (field_err p)
   | _ \<Rightarrow> Ok VNull)"

text \<open>\<open>resolve_workspace_direct\<close>; indexing an empty path would panic.\<close>

definition resolve_workspace_direct :: "rstr list \<Rightarrow> borrowed_event \<Rightarrow> val res" where
  "resolve_workspace_direct parts ev = (case parts of
     [] \<Rightarrow> Crash
   | p # ps \<Rightarrow> (let first = or_null (workspace_get ev p)
               in if ps = [] then Ok first else resolve_workspace_path ps first))"

definition resolve_event :: "rstr list \<Rightarrow> borrowed_event \<Rightarrow> val res" where
  "resolve_event parts ev =
     (let head = hd parts; ip = VString (show_ip (fst (be_source ev))); port = VInt (int (snd (be_source ev)))
      in if head = ''ingress'' then Ok (bytes_to_value (be_ingress ev))
         else if head = ''egress'' then Ok (bytes_to_value (be_egress ev))
         else if head = ''received_at'' then Ok (VTimestamp (be_received_at ev))
         else if head = ''source'' then
           (case tl parts of
              [] \<Rightarrow> Ok (VObject [(''ip'', ip), (''port'', port)])
            | [f] \<Rightarrow> if f = ''ip'' then Ok ip else if f = ''port'' then Ok port
                    else Err (''unknown ident path: source.'' @ f @ '' '' @ em_dash @ '' only source.ip / source.port are defined'')
            | _ \<Rightarrow> Err (''unknown ident path: source.'' @ join ''.'' (tl parts)
                       @ '' '' @ em_dash @ '' only source.ip / source.port are defined''))
         else if head = ''error'' then Ok (or_null (workspace_get ev ''_error''))
         else if head = ''workspace'' then
           (if tl parts = [] then Ok (VObject (be_workspace ev)) else resolve_workspace_direct (tl parts) ev)
         else Err (''unknown identifier: '' @ join ''.'' parts))"

text \<open>\<open>resolve_ident\<close>: a let-bound name first, then the event.\<close>

definition resolve_ident :: "rstr list \<Rightarrow> borrowed_event \<Rightarrow> scope \<Rightarrow> val res" where
  "resolve_ident parts ev sc = (case parts of
     [] \<Rightarrow> Crash
   | p # ps \<Rightarrow> (case sc p of
       Some root \<Rightarrow> if ps = [] then Ok root else resolve_workspace_path ps root
     | None \<Rightarrow> resolve_event parts ev))"

text \<open>The walk of a postfix property access.\<close>

fun prop_walk :: "rstr list \<Rightarrow> val \<Rightarrow> val res" where
  "prop_walk [] cur = Ok cur"
| "prop_walk (f # fs) cur = (case cur of
     VObject entries \<Rightarrow> prop_walk fs (or_null (map_of entries f))
   | VBytes _ \<Rightarrow> Err (field_err f)
   | _ \<Rightarrow> prop_walk fs VNull)"

subsection \<open>Block primitives\<close>

type_synonym 'w eval_fn = "expr \<Rightarrow> scope \<Rightarrow> ('w, val) M"

text \<open>Executing \<open>let\<close> bindings in declaration order, then the trailing expression.\<close>

definition eval_body :: "'w eval_fn \<Rightarrow> func_body \<Rightarrow> scope \<Rightarrow> ('w, val) M" where
  "eval_body rec b sc =
     bindM (foldM (\<lambda>s (x, e). bindM (rec e s) (\<lambda>v. ret (scope_bind x v s))) sc (fb_lets b))
       (\<lambda>s. rec (fb_ret b) s)"

definition eval_block_body ::
  "'w eval_fn \<Rightarrow> block_arg \<Rightarrow> val list \<Rightarrow> scope \<Rightarrow> ('w, val) M" where
  "eval_block_body rec blk vs sc =
     (if length vs \<noteq> length (ba_params blk)
      then fail (''block arity mismatch: declared '' @ show_nat (length (ba_params blk))
                 @ '' parameter(s) but caller bound '' @ show_nat (length vs))
      else eval_body rec (ba_body blk) (scope_bind_all (ba_params blk) vs sc))"

definition expect_collection_arg ::
  "'w eval_fn \<Rightarrow> string \<Rightarrow> expr list \<Rightarrow> nat \<Rightarrow> scope \<Rightarrow> ('w, val) M" where
  "expect_collection_arg rec name args expected sc =
     (if length args \<noteq> expected
      then fail (name @ ''() with a block expects '' @ show_nat expected @ '' argument(s), got ''
                 @ show_nat (length args))
      else case args of
        [] \<Rightarrow> crash
      | a # _ \<Rightarrow> bindM (rec a sc) (\<lambda>v. (case v of
           VArray _ \<Rightarrow> ret v | VObject _ \<Rightarrow> ret v | VNull \<Rightarrow> ret v
         | _ \<Rightarrow> fail (name @ ''() expects an array or object as its first argument, got '' @ type_name v))))"

definition expect_block_arity ::
  "string \<Rightarrow> block_arg \<Rightarrow> string \<Rightarrow> nat \<Rightarrow> string \<Rightarrow> ('w, unit) M" where
  "expect_block_arity name blk ctype expected example =
     (if length (ba_params blk) \<noteq> expected
      then fail (name @ ''() over an '' @ ctype @ '' requires exactly '' @ show_nat expected
                 @ '' block parameter(s) (`'' @ example @ ''`); got '' @ show_nat (length (ba_params blk)))
      else ret ())"

definition eval_map :: "'w eval_fn \<Rightarrow> expr list \<Rightarrow> block_arg \<Rightarrow> scope \<Rightarrow> ('w, val) M" where
  "eval_map rec args blk sc = bindM (expect_collection_arg rec ''map'' args 1 sc) (\<lambda>c. (case c of
     VArray items \<Rightarrow> bindM (expect_block_arity ''map'' blk ''array'' 1 ''{ |x| ... }'') (\<lambda>_.
       bindM (mapM (\<lambda>x. eval_block_body rec blk [x] sc) items) (\<lambda>out. ret (VArray out)))
   | VObject entries \<Rightarrow> bindM (expect_block_arity ''map'' blk ''object'' 2 ''{ |key, value| ... }'') (\<lambda>_.
       bindM (mapM (\<lambda>(k, v). eval_block_body rec blk [VString k, v] sc) entries) (\<lambda>out. ret (VArray out)))
   | _ \<Rightarrow> bindM (expect_block_arity ''map'' blk ''array'' 1 ''{ |x| ... }'') (\<lambda>_. ret (VArray []))))"

definition truthyM :: "('w, val) M \<Rightarrow> ('w, bool) M" where
  "truthyM m = bindM m (\<lambda>v. ret (is_truthy v))"

definition eval_filter :: "'w eval_fn \<Rightarrow> expr list \<Rightarrow> block_arg \<Rightarrow> scope \<Rightarrow> ('w, val) M" where
  "eval_filter rec args blk sc = bindM (expect_collection_arg rec ''filter'' args 1 sc) (\<lambda>c. (case c of
     VArray items \<Rightarrow> bindM (expect_block_arity ''filter'' blk ''array'' 1 ''{ |x| ... }'') (\<lambda>_.
       bindM (filterM (\<lambda>x. truthyM (eval_block_body rec blk [x] sc)) items) (\<lambda>out. ret (VArray out)))
   | VObject entries \<Rightarrow> bindM (expect_block_arity ''filter'' blk ''object'' 2 ''{ |key, value| ... }'') (\<lambda>_.
       bindM (filterM (\<lambda>(k, v). truthyM (eval_block_body rec blk [VString k, v] sc)) entries)
         (\<lambda>out. ret (VObject out)))
   | _ \<Rightarrow> bindM (expect_block_arity ''filter'' blk ''array'' 1 ''{ |x| ... }'') (\<lambda>_. ret (VArray []))))"

definition eval_find :: "'w eval_fn \<Rightarrow> expr list \<Rightarrow> block_arg \<Rightarrow> scope \<Rightarrow> ('w, val) M" where
  "eval_find rec args blk sc = bindM (expect_collection_arg rec ''find'' args 1 sc) (\<lambda>c. (case c of
     VArray items \<Rightarrow> bindM (expect_block_arity ''find'' blk ''array'' 1 ''{ |x| ... }'') (\<lambda>_.
       bindM (findM (\<lambda>x. truthyM (eval_block_body rec blk [x] sc)) items) (\<lambda>r. ret (or_null r)))
   | VObject entries \<Rightarrow> bindM (expect_block_arity ''find'' blk ''object'' 2 ''{ |key, value| ... }'') (\<lambda>_.
       bindM (findM (\<lambda>(k, v). truthyM (eval_block_body rec blk [VString k, v] sc)) entries)
         (\<lambda>r. ret (case r of Some (k, v) \<Rightarrow> VArray [VString k, v] | None \<Rightarrow> VNull)))
   | _ \<Rightarrow> bindM (expect_block_arity ''find'' blk ''array'' 1 ''{ |x| ... }'') (\<lambda>_. ret VNull)))"

definition eval_reduce :: "'w eval_fn \<Rightarrow> expr list \<Rightarrow> block_arg \<Rightarrow> scope \<Rightarrow> ('w, val) M" where
  "eval_reduce rec args blk sc = bindM (expect_collection_arg rec ''reduce'' args 2 sc) (\<lambda>c.
     bindM (case c of
         VObject _ \<Rightarrow> expect_block_arity ''reduce'' blk ''object'' 3 ''{ |acc, key, value| ... }''
       | _ \<Rightarrow> expect_block_arity ''reduce'' blk ''array'' 2 ''{ |acc, x| ... }'') (\<lambda>_.
     bindM (rec (args ! 1) sc) (\<lambda>acc. (case c of
         VArray items \<Rightarrow> foldM (\<lambda>a x. eval_block_body rec blk [a, x] sc) acc items
       | VObject entries \<Rightarrow> foldM (\<lambda>a (k, v). eval_block_body rec blk [a, VString k, v] sc) acc entries
       | _ \<Rightarrow> ret acc))))"

definition eval_block_primitive ::
  "'w eval_fn \<Rightarrow> rstr option \<Rightarrow> rstr \<Rightarrow> expr list \<Rightarrow> block_arg \<Rightarrow> scope \<Rightarrow> ('w, val) M" where
  "eval_block_primitive rec ns name args blk sc = (case ns of
     Some n \<Rightarrow> fail (''block-arg primitives are flat-namespaced; '' @ n @ ''.'' @ name
                    @ '' does not accept a `{ |x| ... }` block'')
   | None \<Rightarrow>
       if name = ''map'' then eval_map rec args blk sc
       else if name = ''filter'' then eval_filter rec args blk sc
       else if name = ''find'' then eval_find rec args blk sc
       else if name = ''reduce'' then eval_reduce rec args blk sc
       else fail (''function `'' @ name
                  @ ''` does not accept a block argument (only map / filter / find / reduce do)''))"

subsection \<open>Function calls\<close>

definition call_user_function :: "'w eval_fn \<Rightarrow> function_def \<Rightarrow> val list \<Rightarrow> ('w, val) M" where
  "call_user_function rec fd args =
     (if length args \<noteq> length (fd_params fd)
      then fail (''function '' @ fd_name fd @ ''() expects '' @ show_nat (length (fd_params fd))
                 @ '' argument(s), got '' @ show_nat (length args))
      else eval_body rec (fd_body fd) (scope_bind_all (fd_params fd) args Map.empty))"

definition unknown_function :: "'w registry \<Rightarrow> rstr option \<Rightarrow> rstr \<Rightarrow> string" where
  "unknown_function reg ns name = (case ns of
     None \<Rightarrow> ''unknown function: '' @ name
   | Some n \<Rightarrow> if list_ex (\<lambda>((n', _), _). n' = Some n) (reg_functions reg)
       then ''unknown function '' @ [CHR 0x27] @ n @ ''.'' @ name @ [CHR 0x27] @ '' in namespace '' @ [CHR 0x27] @ n @ [CHR 0x27]
       else ''unknown function namespace: '' @ [CHR 0x27] @ n @ [CHR 0x27])"

text \<open>\<open>FunctionRegistry::call\<close>: a user definition first, then the registered closure behind its arity check.\<close>

definition registry_call ::
  "'w registry \<Rightarrow> borrowed_event \<Rightarrow> 'w eval_fn \<Rightarrow> rstr option \<Rightarrow> rstr \<Rightarrow> val list \<Rightarrow> ('w, val) M" where
  "registry_call reg ev rec ns name args =
     (case (if ns = None then map_of (user_definitions reg) name else None) of
        Some fd \<Rightarrow> call_user_function rec fd args
      | None \<Rightarrow> (case map_of (reg_functions reg) (ns, name) of
          None \<Rightarrow> fail (unknown_function reg ns name)
        | Some f \<Rightarrow> bindM (case map_of (reg_signatures reg) (ns, name) of
              Some fsig \<Rightarrow> liftR (validate_arity ns name fsig (length args)) | None \<Rightarrow> ret ())
            (\<lambda>_. f args ev)))"

subsection \<open>Expressions\<close>

fun eval_fragments :: "(int \<Rightarrow> string) \<Rightarrow> 'w eval_fn \<Rightarrow> fragment list \<Rightarrow> scope \<Rightarrow> ('w, string) M" where
  "eval_fragments rfc rec [] sc = ret []"
| "eval_fragments rfc rec (Literal s # fs) sc =
     bindM (eval_fragments rfc rec fs sc) (\<lambda>out. ret (s @ out))"
| "eval_fragments rfc rec (Interp e # fs) sc = bindM (rec e sc) (\<lambda>v.
     if is_bytes v
     then fail ''cannot interpolate bytes into a string template (use to_string() first)''
     else bindM (eval_fragments rfc rec fs sc) (\<lambda>out. ret (value_to_string rfc v @ out)))"

fun eval_switch_arms :: "'w eval_fn \<Rightarrow> val \<Rightarrow> (expr option \<times> expr) list \<Rightarrow> scope \<Rightarrow> ('w, val) M" where
  "eval_switch_arms rec target [] sc = ret VNull"
| "eval_switch_arms rec target ((None, body) # arms) sc = rec body sc"
| "eval_switch_arms rec target ((Some pat, body) # arms) sc = bindM (rec pat sc) (\<lambda>pv.
     if values_equal target pv then rec body sc else eval_switch_arms rec target arms sc)"

text \<open>One frame of \<open>eval_expr_with_scope\<close>.\<close>

fun eval_frame :: "'w registry \<Rightarrow> borrowed_event \<Rightarrow> 'w eval_fn \<Rightarrow> 'w eval_fn" where
  "eval_frame reg ev rec (StringLit s) sc = ret (VString s)"
| "eval_frame reg ev rec (Template fs) sc =
     bindM (eval_fragments (to_rfc3339 reg) rec fs sc) (\<lambda>out. ret (VString out))"
| "eval_frame reg ev rec (IntLit n) sc = ret (VInt n)"
| "eval_frame reg ev rec (FloatLit f) sc = ret (VFloat f)"
| "eval_frame reg ev rec (BoolLit b) sc = ret (VBool b)"
| "eval_frame reg ev rec NullLit sc = ret VNull"
| "eval_frame reg ev rec (Ident parts) sc = liftR (resolve_ident parts ev sc)"
| "eval_frame reg ev rec (FuncCall ns name args blk) sc = (case blk of
     Some b \<Rightarrow> eval_block_primitive rec ns name args b sc
   | None \<Rightarrow> bindM (mapM (\<lambda>a. rec a sc) args) (\<lambda>vs. registry_call reg ev rec ns name vs))"
| "eval_frame reg ev rec (BinOp l op r) sc = bindM (rec l sc) (\<lambda>lv. bindM (rec r sc) (\<lambda>rv.
     liftR (eval_bin_op (to_rfc3339 reg) lv op rv)))"
| "eval_frame reg ev rec (UnaryOp op e) sc = bindM (rec e sc) (\<lambda>v. liftR (eval_unary_op op v))"
| "eval_frame reg ev rec (HashLit es) sc =
     bindM (mapM (\<lambda>(k, e). bindM (rec e sc) (\<lambda>v. ret (k, v))) es) (\<lambda>out. ret (VObject out))"
| "eval_frame reg ev rec (ArrayLit es) sc = bindM (mapM (\<lambda>e. rec e sc) es) (\<lambda>out. ret (VArray out))"
| "eval_frame reg ev rec (PropertyAccess b path) sc = bindM (rec b sc) (\<lambda>v. liftR (prop_walk path v))"
| "eval_frame reg ev rec (SwitchExpr s arms) sc =
     bindM (rec s sc) (\<lambda>target. eval_switch_arms rec target arms sc)"

primrec eval_expr_with_scope :: "'w registry \<Rightarrow> borrowed_event \<Rightarrow> nat \<Rightarrow> 'w eval_fn" where
  "eval_expr_with_scope reg ev 0 = (\<lambda>e sc. crash)"
| "eval_expr_with_scope reg ev (Suc n) = eval_frame reg ev (eval_expr_with_scope reg ev n)"

definition eval_expr :: "'w registry \<Rightarrow> borrowed_event \<Rightarrow> nat \<Rightarrow> expr \<Rightarrow> ('w, val) M" where
  "eval_expr reg ev n e = eval_expr_with_scope reg ev n e Map.empty"

end
