(* ===== verification/Eval_Facts.thy ===== *)
theory Eval_Facts
  imports Eval
begin

section \<open>Facts about evaluation\<close>

text \<open>
  Three predicates on computations carry the proofs about the evaluator and the executor:
  \<open>totalM\<close> (never a crash, whatever the world), \<open>postM\<close> (what a successful result satisfies) and
  \<open>leM\<close> (the same outcome unless the left side crashes). Each is closed under the combinators of
  the monad; the evaluator's frames are then covered by those rules.
\<close>

named_theorems totalM_rules \<open>computations that never crash\<close>
named_theorems postM_rules \<open>results that satisfy a predicate\<close>
named_theorems leM_rules \<open>computations that only a crash distinguishes\<close>

subsection \<open>Computations that never crash\<close>

definition totalM :: "('w, 'a) M \<Rightarrow> bool" where
  "totalM m \<longleftrightarrow> (\<forall>w. fst (m w) \<noteq> Crash)"

lemma totalM_ret [totalM_rules]: "totalM (ret x)"
  by (simp add: totalM_def ret_def)

lemma totalM_fail [totalM_rules]: "totalM (fail e)"
  by (simp add: totalM_def fail_def)

lemma totalM_liftR [totalM_rules]: "r \<noteq> Crash \<Longrightarrow> totalM (liftR r)"
  by (simp add: totalM_def liftR_def)

lemma totalM_bind [totalM_rules]: "totalM m \<Longrightarrow> (\<And>x. totalM (k x)) \<Longrightarrow> totalM (bindM m k)"
  by (auto simp: totalM_def bindM_def split: prod.splits res.splits) (metis fst_conv)+

lemma totalM_mapM [totalM_rules]: "(\<And>x. x \<in> set xs \<Longrightarrow> totalM (f x)) \<Longrightarrow> totalM (mapM f xs)"
  by (induction xs) (auto intro!: totalM_rules)

lemma totalM_filterM [totalM_rules]: "(\<And>x. x \<in> set xs \<Longrightarrow> totalM (f x)) \<Longrightarrow> totalM (filterM f xs)"
  by (induction xs) (auto intro!: totalM_rules)

lemma totalM_findM [totalM_rules]: "(\<And>x. x \<in> set xs \<Longrightarrow> totalM (f x)) \<Longrightarrow> totalM (findM f xs)"
  by (induction xs) (auto intro!: totalM_rules)

lemma totalM_foldM [totalM_rules]:
  "(\<And>a x. x \<in> set xs \<Longrightarrow> totalM (f a x)) \<Longrightarrow> totalM (foldM f a xs)"
  by (induction xs arbitrary: a) (auto intro!: totalM_rules)

subsection \<open>Results of a successful computation\<close>

definition postM :: "('a \<Rightarrow> bool) \<Rightarrow> ('w, 'a) M \<Rightarrow> bool" where
  "postM P m \<longleftrightarrow> (\<forall>w x w'. m w = (Ok x, w') \<longrightarrow> P x)"

lemma postM_ret [postM_rules]: "P x \<Longrightarrow> postM P (ret x)"
  by (simp add: postM_def ret_def)

lemma postM_fail [postM_rules]: "postM P (fail e)"
  by (simp add: postM_def fail_def)

lemma postM_crash [postM_rules]: "postM P crash"
  by (simp add: postM_def crash_def)

lemma postM_liftR [postM_rules]: "(\<And>x. r = Ok x \<Longrightarrow> P x) \<Longrightarrow> postM P (liftR r)"
  by (simp add: postM_def liftR_def)

lemma postM_bind: "postM Q m \<Longrightarrow> (\<And>x. Q x \<Longrightarrow> postM P (k x)) \<Longrightarrow> postM P (bindM m k)"
  by (auto simp: postM_def bindM_Ok) blast

lemma postM_True [simp]: "postM (\<lambda>_. True) m"
  by (simp add: postM_def)

lemma postM_mapM: "(\<And>x. x \<in> set xs \<Longrightarrow> postM P (f x)) \<Longrightarrow> postM (list_all P) (mapM f xs)"
proof (induction xs)
  case (Cons x xs)
  then show ?case
    by (auto intro!: postM_bind[where Q = P] postM_bind[where Q = "list_all P"] postM_ret)
qed (simp add: postM_ret)

lemma postM_filterM: "postM (\<lambda>ys. set ys \<subseteq> set xs) (filterM f xs)"
proof (induction xs)
  case (Cons x xs)
  then show ?case
    by (auto intro!: postM_bind[where Q = "\<lambda>_. True"] postM_bind[where Q = "\<lambda>ys. set ys \<subseteq> set xs"] postM_ret
        split: if_splits)
qed (simp add: postM_ret)

lemma postM_findM: "postM (\<lambda>r. set_option r \<subseteq> set xs) (findM f xs)"
proof (induction xs)
  case (Cons x xs)
  have "postM (\<lambda>r. set_option r \<subseteq> set (x # xs)) (findM f xs)"
    using Cons by (auto simp: postM_def)
  then show ?case by (auto intro!: postM_bind[where Q = "\<lambda>_. True"] postM_ret)
qed (simp add: postM_ret)

lemma postM_foldM:
  "P a \<Longrightarrow> (\<And>a x. P a \<Longrightarrow> x \<in> set xs \<Longrightarrow> postM P (f a x)) \<Longrightarrow> postM P (foldM f a xs)"
  by (induction xs arbitrary: a) (auto intro: postM_bind[where Q = P] postM_ret)

subsection \<open>Computations that agree unless the first crashes\<close>

definition leM :: "('w, 'a) M \<Rightarrow> ('w, 'a) M \<Rightarrow> bool" where
  "leM m m' \<longleftrightarrow> (\<forall>w. fst (m w) = Crash \<or> m' w = m w)"

lemma leM_refl [leM_rules, simp]: "leM m m"
  by (simp add: leM_def)

lemma leM_crash [leM_rules, simp]: "leM crash m"
  by (simp add: leM_def crash_def)

lemma leM_bind [leM_rules]: "leM m m' \<Longrightarrow> (\<And>x. leM (k x) (k' x)) \<Longrightarrow> leM (bindM m k) (bindM m' k')"
  unfolding leM_def bindM_def
  by (auto split: prod.splits res.splits) (metis fst_conv prod.inject res.distinct res.inject)+

lemma leM_mapM [leM_rules]: "(\<And>x. leM (f x) (g x)) \<Longrightarrow> leM (mapM f xs) (mapM g xs)"
  by (induction xs) (auto intro!: leM_rules)

lemma leM_filterM [leM_rules]: "(\<And>x. leM (f x) (g x)) \<Longrightarrow> leM (filterM f xs) (filterM g xs)"
  by (induction xs) (auto intro!: leM_rules)

lemma leM_findM [leM_rules]: "(\<And>x. leM (f x) (g x)) \<Longrightarrow> leM (findM f xs) (findM g xs)"
  by (induction xs) (auto intro!: leM_rules)

lemma leM_foldM [leM_rules]: "(\<And>a x. leM (f a x) (g a x)) \<Longrightarrow> leM (foldM f a xs) (foldM g a xs)"
  by (induction xs arbitrary: a) (auto intro!: leM_rules)

lemma leM_run: "leM m m' \<Longrightarrow> m w = (r, w') \<Longrightarrow> r \<noteq> Crash \<Longrightarrow> m' w = (r, w')"
  by (auto simp: leM_def) (metis fst_conv)

lemma leM_trans: "leM a b \<Longrightarrow> leM b c \<Longrightarrow> leM a c"
  unfolding leM_def by metis

subsection \<open>More stack never changes a result\<close>

lemma leM_eval_body [leM_rules]:
  "(\<And>e s. leM (rec e s) (rec' e s)) \<Longrightarrow> leM (eval_body rec b sc) (eval_body rec' b sc)"
  unfolding eval_body_def by (auto intro!: leM_rules split: prod.split)

lemma leM_eval_block_body [leM_rules]:
  "(\<And>e s. leM (rec e s) (rec' e s)) \<Longrightarrow> leM (eval_block_body rec b vs sc) (eval_block_body rec' b vs sc)"
  unfolding eval_block_body_def by (auto intro!: leM_rules)

lemma leM_truthyM [leM_rules]: "leM m m' \<Longrightarrow> leM (truthyM m) (truthyM m')"
  unfolding truthyM_def by (auto intro!: leM_rules)

lemma leM_expect_collection_arg [leM_rules]:
  "(\<And>e s. leM (rec e s) (rec' e s)) \<Longrightarrow>
   leM (expect_collection_arg rec nm args k sc) (expect_collection_arg rec' nm args k sc)"
  unfolding expect_collection_arg_def by (auto intro!: leM_rules split: list.split)

lemma leM_eval_map [leM_rules]:
  "(\<And>e s. leM (rec e s) (rec' e s)) \<Longrightarrow> leM (eval_map rec args b sc) (eval_map rec' args b sc)"
  unfolding eval_map_def by (auto intro!: leM_rules split: val.split prod.split)

lemma leM_eval_filter [leM_rules]:
  "(\<And>e s. leM (rec e s) (rec' e s)) \<Longrightarrow> leM (eval_filter rec args b sc) (eval_filter rec' args b sc)"
  unfolding eval_filter_def by (auto intro!: leM_rules split: val.split prod.split)

lemma leM_eval_find [leM_rules]:
  "(\<And>e s. leM (rec e s) (rec' e s)) \<Longrightarrow> leM (eval_find rec args b sc) (eval_find rec' args b sc)"
  unfolding eval_find_def by (auto intro!: leM_rules split: val.split prod.split)

lemma leM_eval_reduce [leM_rules]:
  "(\<And>e s. leM (rec e s) (rec' e s)) \<Longrightarrow> leM (eval_reduce rec args b sc) (eval_reduce rec' args b sc)"
  unfolding eval_reduce_def by (auto intro!: leM_rules split: val.split prod.split)

lemma leM_eval_block_primitive [leM_rules]:
  "(\<And>e s. leM (rec e s) (rec' e s)) \<Longrightarrow>
   leM (eval_block_primitive rec ns nm args b sc) (eval_block_primitive rec' ns nm args b sc)"
  unfolding eval_block_primitive_def by (auto intro!: leM_rules split: option.split)

lemma leM_call_user_function [leM_rules]:
  "(\<And>e s. leM (rec e s) (rec' e s)) \<Longrightarrow>
   leM (call_user_function rec fd args) (call_user_function rec' fd args)"
  unfolding call_user_function_def by (auto intro!: leM_rules)

lemma leM_registry_call [leM_rules]:
  "(\<And>e s. leM (rec e s) (rec' e s)) \<Longrightarrow>
   leM (registry_call reg ev rec ns nm args) (registry_call reg ev rec' ns nm args)"
  unfolding registry_call_def by (auto intro!: leM_rules split: option.split)

lemma leM_eval_fragments [leM_rules]:
  "(\<And>e s. leM (rec e s) (rec' e s)) \<Longrightarrow> leM (eval_fragments rfc rec fs sc) (eval_fragments rfc rec' fs sc)"
  by (induction rfc rec fs sc rule: eval_fragments.induct) (auto intro!: leM_rules)

lemma leM_eval_switch_arms [leM_rules]:
  "(\<And>e s. leM (rec e s) (rec' e s)) \<Longrightarrow>
   leM (eval_switch_arms rec t arms sc) (eval_switch_arms rec' t arms sc)"
  by (induction rec t arms sc rule: eval_switch_arms.induct) (auto intro!: leM_rules)

lemma leM_eval_frame:
  assumes "\<And>e s. leM (rec e s) (rec' e s)"
  shows "leM (eval_frame reg ev rec e sc) (eval_frame reg ev rec' e sc)"
  using assms by (cases e) (auto intro!: leM_rules split: option.split prod.split)

lemma eval_Suc_le: "leM (eval_expr_with_scope reg ev n e sc) (eval_expr_with_scope reg ev (Suc n) e sc)"
proof (induction n arbitrary: e sc)
  case (Suc n)
  have "leM (eval_frame reg ev (eval_expr_with_scope reg ev n) e sc)
            (eval_frame reg ev (eval_expr_with_scope reg ev (Suc n)) e sc)"
    by (rule leM_eval_frame) (rule Suc)
  then show ?case by simp
qed simp

lemma eval_mono:
  "n \<le> m \<Longrightarrow> leM (eval_expr_with_scope reg ev n e sc) (eval_expr_with_scope reg ev m e sc)"
  by (induction m rule: dec_induct) (auto intro: leM_trans[OF _ eval_Suc_le] simp del: eval_expr_with_scope.simps)

subsection \<open>Evaluation terminates\<close>

inductive subexpr :: "expr \<Rightarrow> expr \<Rightarrow> bool" where
  here: "subexpr e e"
| child: "c \<in> set (children e) \<Longrightarrow> subexpr x c \<Longrightarrow> subexpr x e"

text \<open>The expressions of a function body.\<close>

definition body_exprs :: "func_body \<Rightarrow> expr list" where
  "body_exprs b = map snd (fb_lets b) @ [fb_ret b]"

lemma size_snd_mem: "(k, e) \<in> set es \<Longrightarrow> size e < Suc (size_list (size_prod (\<lambda>_. 0) size) es)"
  using size_list_estimation'[of "(k, e)" es "size e" "size_prod (\<lambda>_. 0) size"] by simp

lemma mem_fragment_exprs [simp]: "c \<in> set (fragment_exprs f) \<longleftrightarrow> f = Interp c"
  by (cases f) auto

lemma mem_arm_exprs: "c \<in> set (arm_exprs (p, b)) \<longleftrightarrow> p = Some c \<or> c = b"
  by (cases p) auto

lemma children_size: "c \<in> set (children e) \<Longrightarrow> size c < size e"
proof (cases e)
  case (FuncCall ns nm args blk)
  have "size (fb_ret b) < size b" "\<And>k x. (k, x) \<in> set (fb_lets b) \<Longrightarrow> size x < size b" for b
    by (cases b; auto dest: size_snd_mem)+
  then have "c \<in> set (body_exprs b) \<Longrightarrow> size c < size b" for b
    by (auto simp: body_exprs_def)
  moreover have "size (ba_body b) < size b" for b
    by (cases b) simp
  ultimately have "c \<in> set (body_exprs (ba_body b)) \<Longrightarrow> size c < size b" for b
    by (meson less_trans)
  moreover have "c \<in> set args \<Longrightarrow> size c \<le> size_list size args"
    by (rule size_list_estimation') auto
  moreover assume "c \<in> set (children e)"
  then have "c \<in> set args \<or> (\<exists>b. blk = Some b \<and> c \<in> set (body_exprs (ba_body b)))"
    using FuncCall by (auto simp: body_exprs_def split: option.splits)
  ultimately show ?thesis using FuncCall by fastforce
next
  case (Template fs)
  assume "c \<in> set (children e)"
  with Template have "Interp c \<in> set fs" by (auto simp: mem_fragment_exprs)
  then have "size (Interp c) \<le> size_list size fs" by (rule size_list_estimation') simp
  with Template show ?thesis by simp
next
  case (ArrayLit es)
  assume "c \<in> set (children e)"
  with ArrayLit have "c \<in> set es" by simp
  then have "size c \<le> size_list size es" by (rule size_list_estimation') simp
  with ArrayLit show ?thesis by simp
next
  case (SwitchExpr t arms)
  let ?sz = "size_prod (size_option size) size :: expr option \<times> expr \<Rightarrow> nat"
  assume "c \<in> set (children e)"
  with SwitchExpr consider "c = t" | p b where "(p, b) \<in> set arms" "p = Some c \<or> c = b"
    by (fastforce simp: mem_arm_exprs)
  then show ?thesis
  proof cases
    case 2
    then have "size c \<le> ?sz (p, b)" by auto
    with 2(1) have "size c \<le> size_list ?sz arms" by (rule size_list_estimation')
    with SwitchExpr show ?thesis by simp
  qed (simp add: SwitchExpr)
qed (auto dest!: size_snd_mem)

lemma children_arm:
  "(p, b) \<in> set arms \<Longrightarrow> b \<in> set (children (SwitchExpr t arms)) \<and>
     (\<forall>q. p = Some q \<longrightarrow> q \<in> set (children (SwitchExpr t arms)))"
  by (cases p) (auto intro!: bexI[of _ "(p, b)"])

text \<open>A syntax tree without an empty path.\<close>

definition expr_wf :: "expr \<Rightarrow> bool" where
  "expr_wf e \<longleftrightarrow> (\<forall>parts. subexpr (Ident parts) e \<longrightarrow> parts \<noteq> [])"

text \<open>
  \<open>calls_below reg rk r e\<close>: the user-defined functions that \<open>e\<close> calls have a rank below \<open>r\<close>.
  A registry is ranked when every body only calls functions of a smaller rank, that is, when the
  call graph has no cycle (the analyzer rejects recursion).
\<close>

definition calls_below :: "'w registry \<Rightarrow> (rstr \<Rightarrow> nat) \<Rightarrow> nat \<Rightarrow> expr \<Rightarrow> bool" where
  "calls_below reg rk r e \<longleftrightarrow> (\<forall>name args. subexpr (FuncCall None name args None) e \<longrightarrow>
     map_of (user_definitions reg) name \<noteq> None \<longrightarrow> rk name < r)"

definition reg_ranked :: "'w registry \<Rightarrow> (rstr \<Rightarrow> nat) \<Rightarrow> nat \<Rightarrow> bool" where
  "reg_ranked reg rk D \<longleftrightarrow> (\<forall>name fd. map_of (user_definitions reg) name = Some fd \<longrightarrow>
     (\<forall>b \<in> set (body_exprs (fd_body fd)). calls_below reg rk (rk name) b \<and> expr_wf b \<and> size b \<le> D))"

text \<open>The calls that the dispatch lets through to the closure of a built-in function: no user-defined function of the name, and
  the arity of the signature.\<close>

definition applies :: "'w registry \<Rightarrow> fn_key \<Rightarrow> val list \<Rightarrow> bool" where
  "applies reg key args \<longleftrightarrow> (fst key = None \<longrightarrow> map_of (user_definitions reg) (snd key) = None) \<and>
     (\<forall>fsig. map_of (reg_signatures reg) key = Some fsig \<longrightarrow> arity_ok fsig (length args))"

text \<open>The functions under some keys never panic; the keys that an expression calls without a block; and a set of keys that holds
  those of the bodies of all user-defined functions.\<close>

definition total_on :: "fn_key set \<Rightarrow> 'w registry \<Rightarrow> bool" where
  "total_on K reg \<longleftrightarrow> (\<forall>key \<in> K. \<forall>f args ev. map_of (reg_functions reg) key = Some f \<longrightarrow> applies reg key args \<longrightarrow> totalM (f args ev))"

definition called :: "expr \<Rightarrow> fn_key set" where
  "called e = {(ns, name). \<exists>args. subexpr (FuncCall ns name args None) e}"

definition bodies_call :: "fn_key set \<Rightarrow> 'w registry \<Rightarrow> bool" where
  "bodies_call K reg \<longleftrightarrow> (\<forall>name fd. map_of (user_definitions reg) name = Some fd \<longrightarrow> (\<forall>b \<in> set (body_exprs (fd_body fd)). called b \<subseteq> K))"

definition builtins_total :: "'w registry \<Rightarrow> bool" where
  "builtins_total reg \<longleftrightarrow> (\<forall>key f args ev. map_of (reg_functions reg) key = Some f \<longrightarrow> applies reg key args \<longrightarrow> totalM (f args ev))"

lemma eval_body_total:
  assumes "\<And>b s. b \<in> set (body_exprs bd) \<Longrightarrow> totalM (rec b s)"
  shows "totalM (eval_body rec bd sc)"
proof -
  have "totalM (rec e s)" if "(x, e) \<in> set (fb_lets bd)" for x e s
    using that by (intro assms) (force simp: body_exprs_def)
  moreover have "totalM (rec (fb_ret bd) s)" for s
    by (intro assms) (simp add: body_exprs_def)
  ultimately show ?thesis
    unfolding eval_body_def by (auto intro!: totalM_rules split: prod.split)
qed

lemma eval_block_body_total:
  "(\<And>b s. b \<in> set (body_exprs (ba_body blk)) \<Longrightarrow> totalM (rec b s)) \<Longrightarrow> totalM (eval_block_body rec blk vs sc)"
  unfolding eval_block_body_def by (auto intro!: totalM_rules eval_body_total)

lemma expect_collection_arg_total:
  "0 < k \<Longrightarrow> (\<And>a s. a \<in> set args \<Longrightarrow> totalM (rec a s)) \<Longrightarrow> totalM (expect_collection_arg rec nm args k sc)"
  unfolding expect_collection_arg_def by (auto intro!: totalM_rules split: list.split val.split)

lemma expect_block_arity_total [totalM_rules]: "totalM (expect_block_arity nm b t k ex)"
  unfolding expect_block_arity_def by (auto intro!: totalM_rules)

lemma truthyM_total [totalM_rules]: "totalM m \<Longrightarrow> totalM (truthyM m)"
  unfolding truthyM_def by (auto intro!: totalM_rules)

lemma eval_map_total:
  assumes "\<And>a s. a \<in> set args \<Longrightarrow> totalM (rec a s)" "\<And>vs. totalM (eval_block_body rec b vs sc)"
  shows "totalM (eval_map rec args b sc)"
  unfolding eval_map_def
  by (auto intro!: totalM_rules assms expect_collection_arg_total split: val.split prod.split)

lemma eval_filter_total:
  assumes "\<And>a s. a \<in> set args \<Longrightarrow> totalM (rec a s)" "\<And>vs. totalM (eval_block_body rec b vs sc)"
  shows "totalM (eval_filter rec args b sc)"
  unfolding eval_filter_def
  by (auto intro!: totalM_rules assms expect_collection_arg_total split: val.split prod.split)

lemma eval_find_total:
  assumes "\<And>a s. a \<in> set args \<Longrightarrow> totalM (rec a s)" "\<And>vs. totalM (eval_block_body rec b vs sc)"
  shows "totalM (eval_find rec args b sc)"
  unfolding eval_find_def
  by (auto intro!: totalM_rules assms expect_collection_arg_total split: val.split prod.split)

lemma eval_reduce_total:
  assumes "\<And>a s. a \<in> set args \<Longrightarrow> totalM (rec a s)" "\<And>vs. totalM (eval_block_body rec b vs sc)"
  shows "totalM (eval_reduce rec args b sc)"
proof (cases "length args = 2")
  case True
  then have "totalM (rec (args ! 1) sc)" by (intro assms) simp
  then show ?thesis
    unfolding eval_reduce_def
    by (auto intro!: totalM_rules assms expect_collection_arg_total split: val.split prod.split)
next
  case False
  then show ?thesis unfolding eval_reduce_def expect_collection_arg_def by (simp add: totalM_rules)
qed

lemma eval_block_primitive_total:
  assumes "\<And>a s. a \<in> set args \<Longrightarrow> totalM (rec a s)"
    and "\<And>b s. b \<in> set (body_exprs (ba_body blk)) \<Longrightarrow> totalM (rec b s)"
  shows "totalM (eval_block_primitive rec ns nm args blk sc)"
proof -
  have "totalM (eval_block_body rec blk vs sc)" for vs
    by (rule eval_block_body_total) (rule assms(2))
  then have "totalM (eval_map rec args blk sc)" "totalM (eval_filter rec args blk sc)"
    "totalM (eval_find rec args blk sc)" "totalM (eval_reduce rec args blk sc)"
    using assms(1) eval_map_total eval_filter_total eval_find_total eval_reduce_total by blast+
  then show ?thesis
    unfolding eval_block_primitive_def by (auto intro!: totalM_rules split: option.split)
qed

lemma eval_fragments_total:
  "(\<And>e s. Interp e \<in> set fs \<Longrightarrow> totalM (rec e s)) \<Longrightarrow> totalM (eval_fragments rfc rec fs sc)"
  by (induction rfc rec fs sc rule: eval_fragments.induct) (auto intro!: totalM_rules)

lemma eval_switch_arms_total:
  "(\<And>p b s. (p, b) \<in> set arms \<Longrightarrow> totalM (rec b s)) \<Longrightarrow>
   (\<And>q b s. (Some q, b) \<in> set arms \<Longrightarrow> totalM (rec q s)) \<Longrightarrow>
   totalM (eval_switch_arms rec t arms sc)"
proof (induction rec t arms sc rule: eval_switch_arms.induct)
  case (3 rec target pat body arms sc)
  have "totalM (rec pat s)" "totalM (rec body s)" for s
    using "3.prems"(1)[of "Some pat" body] "3.prems"(2)[of pat body] by auto
  moreover have "totalM (eval_switch_arms rec target arms sc)" if "\<not> values_equal target x" for x
    by (rule "3.IH"[OF that]) (meson "3.prems" list.set_intros(2))+
  ultimately show ?case by (auto intro!: totalM_bind)
qed (auto intro!: totalM_rules)

text \<open>What a call comes down to.\<close>

lemma registry_call_cases:
  obtains (user) fd where "ns = None" "map_of (user_definitions reg) nm = Some fd"
      "registry_call reg ev rec ns nm args = call_user_function rec fd args"
  | (failed) e where "registry_call reg ev rec ns nm args = fail e"
  | (builtin) f where "map_of (reg_functions reg) (ns, nm) = Some f" "applies reg (ns, nm) args"
      "registry_call reg ev rec ns nm args = f args ev"
proof (cases "if ns = None then map_of (user_definitions reg) nm else None")
  case None
  note none = this
  show ?thesis
  proof (cases "map_of (reg_functions reg) (ns, nm)")
    case None
    then show ?thesis using none by (intro failed) (simp add: registry_call_def)
  next
    case (Some f)
    show ?thesis
    proof (cases "applies reg (ns, nm) args")
      case True
      then have "registry_call reg ev rec ns nm args = f args ev"
        using none Some by (cases "map_of (reg_signatures reg) (ns, nm)")
          (auto simp: registry_call_def applies_def validate_arity_def liftR_def ret_def bindM_def)
      then show ?thesis using builtin Some True by blast
    next
      case False
      then obtain fsig where "map_of (reg_signatures reg) (ns, nm) = Some fsig" "\<not> arity_ok fsig (length args)"
        using none by (auto simp: applies_def split: if_splits)
      then show ?thesis using none Some
        by (intro failed) (auto simp: registry_call_def validate_arity_def Let_def liftR_def fail_def bindM_def)
    qed
  qed
next
  case (Some fd)
  then show ?thesis using user by (auto simp: registry_call_def split: if_splits)
qed

lemma registry_call_total:
  assumes "total_on K reg" "(ns, nm) \<in> K"
    and "\<And>fd. ns = None \<Longrightarrow> map_of (user_definitions reg) nm = Some fd \<Longrightarrow> totalM (call_user_function rec fd args)"
  shows "totalM (registry_call reg ev rec ns nm args)"
  using assms by (cases rule: registry_call_cases[of ns reg nm ev rec args]) (auto intro: totalM_rules simp: total_on_def)

lemma resolve_workspace_path_total: "resolve_workspace_path ps v \<noteq> Crash"
  by (induction ps v rule: resolve_workspace_path.induct) (auto split: val.split)

lemma resolve_ident_total: "parts \<noteq> [] \<Longrightarrow> resolve_ident parts ev sc \<noteq> Crash"
  using resolve_workspace_path_total
  by (auto simp: resolve_ident_def resolve_event_def resolve_workspace_direct_def Let_def
      split: list.split option.split)

lemma prop_walk_total: "prop_walk fs v \<noteq> Crash"
  by (induction fs v rule: prop_walk.induct) (auto split: val.split)

lemma numeric_op_total: "numeric_op op f l r \<noteq> Crash"
  by (auto simp: numeric_op_def exact_int_op_def Let_def split: val.split option.split)

lemma eval_bin_op_total: "eval_bin_op rfc l op r \<noteq> Crash"
  using numeric_op_total by (auto simp: eval_bin_op_def add_values_def split: bin_op.split val.split)

lemma eval_unary_op_total: "eval_unary_op op v \<noteq> Crash"
  by (auto simp: eval_unary_op_def split: un_op.split)

text \<open>A frame does not crash if its recursive calls on sub-expressions and callee bodies do not.\<close>

lemma eval_frame_total:
  assumes sub: "\<And>c s. c \<in> set (children e) \<Longrightarrow> totalM (rec c s)"
    and fn: "\<And>nm args fd vs. e = FuncCall None nm args None \<Longrightarrow>
      map_of (user_definitions reg) nm = Some fd \<Longrightarrow> totalM (call_user_function rec fd vs)"
    and "total_on K reg" "called e \<subseteq> K" and "\<And>parts. e = Ident parts \<Longrightarrow> parts \<noteq> []"
  shows "totalM (eval_frame reg ev rec e sc)"
proof (cases e)
  case (FuncCall ns nm args blk)
  show ?thesis
  proof (cases blk)
    case None
    then have "(ns, nm) \<in> K" using FuncCall assms(4) by (auto simp: called_def intro: subexpr.here)
    with FuncCall None sub fn show ?thesis
      by (auto intro!: totalM_rules registry_call_total[OF assms(3)])
  next
    case (Some b)
    have "totalM (eval_block_primitive rec ns nm args b sc)"
      using FuncCall Some by (intro eval_block_primitive_total sub) (auto simp: body_exprs_def)
    with FuncCall Some show ?thesis by simp
  qed
next
  case (SwitchExpr t arms)
  have "totalM (rec t sc)" using SwitchExpr sub by simp
  moreover have "totalM (eval_switch_arms rec v arms sc)" for v
    using sub children_arm[of _ _ arms t] unfolding SwitchExpr
    by (intro eval_switch_arms_total) blast+
  ultimately show ?thesis using SwitchExpr by (auto intro!: totalM_rules)
next
  case (Template fs)
  have "totalM (eval_fragments rfc rec fs sc)" for rfc
    using Template by (intro eval_fragments_total) (force intro!: sub)
  with Template show ?thesis by (auto intro!: totalM_rules)
next
  case (HashLit es)
  have "totalM (rec x s)" if "(k, x) \<in> set es" for k x s
    using HashLit that by (intro sub) force
  with HashLit show ?thesis by (auto intro!: totalM_rules split: prod.split)
qed (use sub assms(5) in \<open>auto intro!: totalM_rules eval_bin_op_total eval_unary_op_total
       prop_walk_total resolve_ident_total\<close>)

lemma eval_total_on:
  assumes "total_on K reg" "reg_ranked reg rk D" "bodies_call K reg"
    and "called e \<subseteq> K" "calls_below reg rk r e" "expr_wf e" "size e + r * Suc D < n"
  shows "totalM (eval_expr_with_scope reg ev n e sc)"
  using assms(4-7)
proof (induction n arbitrary: e r sc)
  case (Suc n)
  have "totalM (eval_frame reg ev (eval_expr_with_scope reg ev n) e sc)"
  proof (rule eval_frame_total)
    fix c s assume c: "c \<in> set (children e)"
    then have "called c \<subseteq> K" "calls_below reg rk r c" "expr_wf c"
      using Suc.prems by (auto simp: called_def calls_below_def expr_wf_def intro: subexpr.child)
    then show "totalM (eval_expr_with_scope reg ev n c s)"
      using Suc.IH[of c r s] Suc.prems children_size[OF c] by simp
  next
    fix nm args fd vs
    assume e: "e = FuncCall None nm args None" and fd: "map_of (user_definitions reg) nm = Some fd"
    have r: "rk nm < r" using Suc.prems(2) e fd by (auto simp: calls_below_def intro: subexpr.here)
    then have "Suc (rk nm) * Suc D \<le> r * Suc D" by (intro mult_le_mono1) simp
    with Suc.prems(4) have "D + rk nm * Suc D < n" by simp
    moreover have "called b \<subseteq> K" "calls_below reg rk (rk nm) b" "expr_wf b" "size b \<le> D"
      if "b \<in> set (body_exprs (fd_body fd))" for b
      using assms(2,3) fd that by (auto simp: reg_ranked_def bodies_call_def)
    ultimately have "totalM (eval_expr_with_scope reg ev n b s)"
      if "b \<in> set (body_exprs (fd_body fd))" for b s
      using that Suc.IH[of b "rk nm" s] by fastforce
    then show "totalM (call_user_function (eval_expr_with_scope reg ev n) fd vs)"
      unfolding call_user_function_def by (auto intro!: totalM_rules eval_body_total)
  next
    fix parts assume "e = Ident parts"
    then show "parts \<noteq> []" using Suc.prems(3) by (auto simp: expr_wf_def intro: subexpr.here)
  qed (rule assms(1) Suc.prems(1))+
  then show ?case by simp
qed simp

lemma eval_total:
  assumes "builtins_total reg" "reg_ranked reg rk D"
    and "calls_below reg rk r e" "expr_wf e" "size e + r * Suc D < n"
  shows "totalM (eval_expr_with_scope reg ev n e sc)"
  by (rule eval_total_on[where K = UNIV]) (use assms in \<open>auto simp: builtins_total_def total_on_def bodies_call_def\<close>)

subsection \<open>Evaluation keeps values well formed\<close>

definition scope_ok :: "scope \<Rightarrow> bool" where
  "scope_ok sc \<longleftrightarrow> (\<forall>x v. sc x = Some v \<longrightarrow> val_ok v)"

definition builtins_ok :: "'w registry \<Rightarrow> bool" where
  "builtins_ok reg \<longleftrightarrow> (\<forall>key f args ev. map_of (reg_functions reg) key = Some f \<longrightarrow>
     list_all val_ok args \<longrightarrow> workspace_ok ev \<longrightarrow> postM val_ok (f args ev))"

definition lits_ok :: "expr \<Rightarrow> bool" where
  "lits_ok e \<longleftrightarrow> (\<forall>n. subexpr (IntLit n) e \<longrightarrow> in_i64 n)"

definition user_lits_ok :: "'w registry \<Rightarrow> bool" where
  "user_lits_ok reg \<longleftrightarrow> (\<forall>name fd. map_of (user_definitions reg) name = Some fd \<longrightarrow>
     (\<forall>b \<in> set (body_exprs (fd_body fd)). lits_ok b))"

definition event_ok :: "borrowed_event \<Rightarrow> bool" where
  "event_ok ev \<longleftrightarrow> workspace_ok ev \<and> snd (be_source ev) < 65536"

lemma in_i64_small [simp]: "in_i64 0" "in_i64 1" "n < 65536 \<Longrightarrow> in_i64 (int n)"
  by (auto simp: in_i64_def i64_min_def i64_max_def)

lemma scope_ok_bind [intro]: "scope_ok sc \<Longrightarrow> val_ok v \<Longrightarrow> scope_ok (scope_bind x v sc)"
  by (auto simp: scope_ok_def scope_bind_def)

lemma scope_ok_bind_all:
  "scope_ok sc \<Longrightarrow> list_all val_ok vs \<Longrightarrow> scope_ok (scope_bind_all ps vs sc)"
proof (induction ps arbitrary: vs sc)
  case (Cons p ps)
  then show ?case by (cases vs) (auto simp: scope_bind_all_def)
qed (simp add: scope_bind_all_def)

lemma scope_ok_empty [simp]: "scope_ok Map.empty"
  by (simp add: scope_ok_def)

lemma or_null_ok: "(\<And>v. r = Some v \<Longrightarrow> val_ok v) \<Longrightarrow> val_ok (or_null r)"
  by (cases r) (auto simp: or_null_def)

lemma resolve_workspace_path_ok: "resolve_workspace_path ps v = Ok u \<Longrightarrow> val_ok v \<Longrightarrow> val_ok u"
  by (induction ps v rule: resolve_workspace_path.induct)
    (auto intro!: or_null_ok dest: entries_ok_map_of split: val.splits)

lemma prop_walk_ok: "prop_walk ps v = Ok u \<Longrightarrow> val_ok v \<Longrightarrow> val_ok u"
  by (induction ps v rule: prop_walk.induct)
    (auto intro!: or_null_ok dest: entries_ok_map_of split: val.splits)

lemma bytes_to_value_ok [simp]: "val_ok (bytes_to_value b)"
  by (simp add: bytes_to_value_def)

lemma resolve_ident_ok:
  assumes "event_ok ev" "scope_ok sc" "resolve_ident parts ev sc = Ok v"
  shows "val_ok v"
proof -
  have g: "val_ok (or_null (workspace_get ev k))" for k
    using assms(1) by (auto simp: event_ok_def intro!: or_null_ok dest: workspace_ok_get)
  have w: "entries_ok (be_workspace ev)" "snd (be_source ev) < 65536"
    using assms(1) by (auto simp: event_ok_def workspace_ok_def)
  have d: "resolve_workspace_direct ps ev = Ok u \<Longrightarrow> val_ok u" for ps u
    using g by (auto simp: resolve_workspace_direct_def Let_def split: list.splits if_splits
        dest: resolve_workspace_path_ok)
  show ?thesis using assms(2,3) g w
    by (auto simp: resolve_ident_def resolve_event_def scope_ok_def Let_def
        split: list.splits option.splits if_splits dest: d resolve_workspace_path_ok)
qed

lemma exact_int_op_ok: "exact_int_op op l r = Ok n \<Longrightarrow> in_i64 l \<Longrightarrow> in_i64 r \<Longrightarrow> in_i64 n"
proof -
  assume "in_i64 r"
  moreover have "in_i64 (trunc_rem l r)" if "r \<noteq> 0" "in_i64 r"
    using trunc_rem_bound[OF that(1), of l] that(2) by (auto simp: in_i64_def i64_min_def i64_max_def)
  ultimately show "exact_int_op op l r = Ok n \<Longrightarrow> in_i64 l \<Longrightarrow> in_i64 n"
    by (auto simp: exact_int_op_def checked_int_op_def Let_def split: option.splits bin_op.splits if_splits)
qed

lemma numeric_value_from_f64_ok [simp]: "val_ok (numeric_value_from_f64 x)"
  by (simp add: numeric_value_from_f64_def Let_def f64_to_i64_range)

lemma numeric_op_ok: "numeric_op op f l r = Ok v \<Longrightarrow> val_ok l \<Longrightarrow> val_ok r \<Longrightarrow> val_ok v"
  by (auto simp: numeric_op_def split: if_splits val.splits res.splits dest: exact_int_op_ok)

lemma eval_bin_op_ok: "eval_bin_op rfc l op r = Ok v \<Longrightarrow> val_ok l \<Longrightarrow> val_ok r \<Longrightarrow> val_ok v"
proof -
  assume l: "val_ok l" "val_ok r"
  have "add_values rfc l r = Ok v \<Longrightarrow> val_ok v"
    using l by (auto simp: add_values_def dest: numeric_op_ok split: if_splits val.splits)
  then show "eval_bin_op rfc l op r = Ok v \<Longrightarrow> val_ok v"
    using l by (auto simp: eval_bin_op_def dest: numeric_op_ok split: bin_op.splits)
qed

lemma eval_unary_op_ok: "eval_unary_op op v = Ok u \<Longrightarrow> val_ok u"
  by (auto simp: eval_unary_op_def split: un_op.splits if_splits)

text \<open>
  A body, a block and a call keep values well formed when the recursive call does; \<open>rec_ok rec xs\<close>
  says so of the expressions in \<open>xs\<close>.
\<close>

definition rec_ok :: "'w eval_fn \<Rightarrow> expr set \<Rightarrow> bool" where
  "rec_ok rec xs \<longleftrightarrow> (\<forall>e \<in> xs. \<forall>sc. scope_ok sc \<longrightarrow> postM val_ok (rec e sc))"

lemma eval_body_ok:
  assumes "rec_ok rec (set (body_exprs b))" "scope_ok sc"
  shows "postM val_ok (eval_body rec b sc)"
proof -
  have "postM scope_ok (foldM (\<lambda>s (x, e). bindM (rec e s) (\<lambda>v. ret (scope_bind x v s))) sc (fb_lets b))"
  proof (rule postM_foldM)
    fix s p assume "scope_ok s" "p \<in> set (fb_lets b)"
    then have "postM val_ok (rec (snd p) s)" using assms(1) by (auto simp: rec_ok_def body_exprs_def)
    then show "postM scope_ok (case p of (x, e) \<Rightarrow> bindM (rec e s) (\<lambda>v. ret (scope_bind x v s)))"
      using \<open>scope_ok s\<close> by (auto intro!: postM_bind[where Q = val_ok] postM_ret split: prod.split)
  qed (rule assms(2))
  then show ?thesis
    using assms(1) unfolding eval_body_def
    by (auto intro!: postM_bind[where Q = scope_ok] simp: rec_ok_def body_exprs_def)
qed

lemma eval_block_body_ok:
  assumes "rec_ok rec (set (body_exprs (ba_body b)))" "scope_ok sc" "list_all val_ok vs"
  shows "postM val_ok (eval_block_body rec b vs sc)"
  using assms unfolding eval_block_body_def
  by (auto intro!: postM_rules eval_body_ok scope_ok_bind_all)

lemma call_user_function_ok:
  assumes "rec_ok rec (set (body_exprs (fd_body fd)))" "list_all val_ok vs"
  shows "postM val_ok (call_user_function rec fd vs)"
  using assms unfolding call_user_function_def
  by (auto intro!: postM_rules eval_body_ok scope_ok_bind_all)

lemma expect_collection_arg_ok:
  assumes "rec_ok rec (set args)" "scope_ok sc"
  shows "postM val_ok (expect_collection_arg rec nm args k sc)"
proof (cases args)
  case (Cons a as)
  then have "postM val_ok (rec a sc)" using assms by (simp add: rec_ok_def)
  then show ?thesis
    unfolding expect_collection_arg_def Cons
    by (auto intro!: postM_bind[where Q = val_ok] postM_rules split: val.split)
qed (simp add: expect_collection_arg_def postM_rules)

lemma postM_arity: "(\<And>u. postM P (k u)) \<Longrightarrow> postM P (bindM (expect_block_arity nm b t n ex) k)"
  by (rule postM_bind[where Q = "\<lambda>_. True"]) auto

lemma eval_map_ok:
  assumes "rec_ok rec (set args)" "rec_ok rec (set (body_exprs (ba_body b)))" "scope_ok sc"
  shows "postM val_ok (eval_map rec args b sc)"
  unfolding eval_map_def
proof (rule postM_bind[OF expect_collection_arg_ok[OF assms(1,3)]], goal_cases)
  case (1 c)
  note blk = eval_block_body_ok[OF assms(2,3)]
  have "postM (list_all val_ok) (mapM (\<lambda>x. eval_block_body rec b [x] sc) xs)" if "list_all val_ok xs" for xs
    using that by (intro postM_mapM blk) (auto simp: list_all_iff)
  moreover have "postM (list_all val_ok) (mapM (\<lambda>(k, v). eval_block_body rec b [VString k, v] sc) es)"
    if "entries_ok es" for es
    using that by (intro postM_mapM) (auto intro!: blk simp: list_all_iff)
  ultimately show ?case
    using 1 by (auto intro!: postM_arity postM_bind[where Q = "list_all val_ok"] postM_ret split: val.split)
qed

lemma eval_filter_ok:
  assumes "rec_ok rec (set args)" "scope_ok sc"
  shows "postM val_ok (eval_filter rec args b sc)"
  unfolding eval_filter_def
proof (rule postM_bind[OF expect_collection_arg_ok[OF assms]], goal_cases)
  case (1 c)
  then show ?case
    by (cases c) (auto 5 4 intro!: postM_arity postM_bind[OF postM_filterM] postM_ret simp: list_all_iff)
qed

lemma eval_find_ok:
  assumes "rec_ok rec (set args)" "scope_ok sc"
  shows "postM val_ok (eval_find rec args b sc)"
  unfolding eval_find_def
proof (rule postM_bind[OF expect_collection_arg_ok[OF assms]], goal_cases)
  case (1 c)
  then show ?case
    by (cases c) (auto 5 4 intro!: postM_arity postM_bind[OF postM_findM] postM_ret or_null_ok
        simp: list_all_iff split: option.split)
qed

lemma eval_reduce_ok:
  assumes "rec_ok rec (set args)" "rec_ok rec (set (body_exprs (ba_body b)))" "scope_ok sc"
  shows "postM val_ok (eval_reduce rec args b sc)"
proof (cases "length args = 2")
  case True
  then have acc: "postM val_ok (rec (args ! 1) sc)" using assms(1,3) by (simp add: rec_ok_def)
  note blk = eval_block_body_ok[OF assms(2,3)]
  show ?thesis unfolding eval_reduce_def
  proof (rule postM_bind[OF expect_collection_arg_ok[OF assms(1,3)]],
      rule postM_bind[where Q = "\<lambda>_. True"], simp, rule postM_bind[OF acc], goal_cases)
    case (1 c u a)
    then show ?case
      by (cases c) (auto 5 4 intro!: postM_foldM blk postM_ret simp: list_all_iff)
  qed
next
  case False
  then show ?thesis
    unfolding eval_reduce_def expect_collection_arg_def by (simp add: postM_def fail_def bindM_def)
qed

lemma eval_block_primitive_ok:
  assumes "rec_ok rec (set args)" "rec_ok rec (set (body_exprs (ba_body b)))" "scope_ok sc"
  shows "postM val_ok (eval_block_primitive rec ns nm args b sc)"
  using eval_map_ok[OF assms] eval_filter_ok[OF assms(1,3)] eval_find_ok[OF assms(1,3)]
    eval_reduce_ok[OF assms]
  unfolding eval_block_primitive_def by (auto intro!: postM_rules split: option.split)

lemma registry_call_ok:
  assumes "builtins_ok reg" "workspace_ok ev" "list_all val_ok vs"
    and "\<And>fd. ns = None \<Longrightarrow> map_of (user_definitions reg) nm = Some fd \<Longrightarrow>
      rec_ok rec (set (body_exprs (fd_body fd)))"
  shows "postM val_ok (registry_call reg ev rec ns nm vs)"
  using assms unfolding registry_call_def
  by (auto intro!: postM_rules call_user_function_ok postM_bind[where Q = "\<lambda>_. True"]
      simp: builtins_ok_def split: option.split)

lemma eval_switch_arms_ok:
  "rec_ok rec (\<Union>(set ` arm_exprs ` set arms)) \<Longrightarrow> scope_ok sc \<Longrightarrow> postM val_ok (eval_switch_arms rec t arms sc)"
proof (induction rec t arms sc rule: eval_switch_arms.induct)
  case (3 rec target pat body arms sc)
  then show ?case by (auto intro!: postM_bind[where Q = "\<lambda>_. True"] simp: rec_ok_def)
qed (auto intro: postM_ret simp: rec_ok_def)

lemma postM_rec_mapM:
  "rec_ok rec (set es) \<Longrightarrow> scope_ok sc \<Longrightarrow> postM (list_all val_ok) (mapM (\<lambda>e. rec e sc) es)"
  by (rule postM_mapM) (auto simp: rec_ok_def)

lemma eval_frame_ok:
  assumes "builtins_ok reg" "event_ok ev" "scope_ok sc"
    and sub: "rec_ok rec (set (children e))"
    and fn: "\<And>nm args fd. e = FuncCall None nm args None \<Longrightarrow>
      map_of (user_definitions reg) nm = Some fd \<Longrightarrow> rec_ok rec (set (body_exprs (fd_body fd)))"
    and lit: "\<And>n. e = IntLit n \<Longrightarrow> in_i64 n"
  shows "postM val_ok (eval_frame reg ev rec e sc)"
proof (cases e)
  case (FuncCall ns nm args blk)
  have args: "rec_ok rec (set args)" using sub FuncCall by (simp add: rec_ok_def)
  show ?thesis
  proof (cases blk)
    case None
    have "postM val_ok (registry_call reg ev rec ns nm vs)" if "list_all val_ok vs" for vs
      using that assms(1,2) fn FuncCall None by (intro registry_call_ok) (auto simp: event_ok_def)
    with FuncCall None assms(3) show ?thesis
      by (auto intro!: postM_bind[OF postM_rec_mapM[OF args]])
  next
    case (Some b)
    have "rec_ok rec (set (body_exprs (ba_body b)))"
      using sub FuncCall Some by (simp add: rec_ok_def body_exprs_def)
    with args assms(3) FuncCall Some show ?thesis by (simp add: eval_block_primitive_ok)
  qed
next
  case (SwitchExpr t arms)
  then have "rec_ok rec (\<Union>(set ` arm_exprs ` set arms))" "postM val_ok (rec t sc)"
    using sub assms(3) by (auto simp: rec_ok_def)
  with SwitchExpr assms(3) show ?thesis by (auto intro!: postM_bind eval_switch_arms_ok)
next
  case (HashLit es)
  have "postM (\<lambda>(k, v). val_ok v) (case p of (k, x) \<Rightarrow> bindM (rec x sc) (\<lambda>v. ret (k, v)))"
    if p: "p \<in> set es" for p
  proof -
    have "snd p \<in> set (children e)" using p HashLit by force
    then have "postM val_ok (rec (snd p) sc)" using sub assms(3) by (simp add: rec_ok_def)
    then show ?thesis by (auto intro!: postM_bind[where Q = val_ok] postM_ret split: prod.split)
  qed
  then have "postM entries_ok (mapM (\<lambda>(k, e). bindM (rec e sc) (\<lambda>v. ret (k, v))) es)"
    by (rule postM_mapM)
  with HashLit show ?thesis by (auto intro!: postM_bind[where Q = entries_ok] postM_ret)
next
  case (BinOp l op r)
  then have "postM val_ok (rec l sc)" "postM val_ok (rec r sc)" using sub assms(3) by (auto simp: rec_ok_def)
  with BinOp show ?thesis
    by (auto intro!: postM_bind[where Q = val_ok] postM_liftR dest: eval_bin_op_ok)
next
  case (ArrayLit es)
  with sub assms(3) show ?thesis
    by (auto intro!: postM_bind[OF postM_rec_mapM] postM_ret simp: rec_ok_def)
next
  case (PropertyAccess b path)
  then have "postM val_ok (rec b sc)" using sub assms(3) by (auto simp: rec_ok_def)
  with PropertyAccess show ?thesis
    by (auto intro!: postM_bind[where Q = val_ok] postM_liftR dest: prop_walk_ok)
qed (use assms in \<open>auto intro!: postM_bind[where Q = "\<lambda>_. True"] postM_rules dest: resolve_ident_ok eval_unary_op_ok\<close>)

lemma eval_ok:
  assumes "builtins_ok reg" "user_lits_ok reg" "event_ok ev" "lits_ok e" "scope_ok sc"
  shows "postM val_ok (eval_expr_with_scope reg ev n e sc)"
  using assms(4,5)
proof (induction n arbitrary: e sc)
  case (Suc n)
  have "rec_ok (eval_expr_with_scope reg ev n) (set (children e))"
    using Suc by (auto simp: rec_ok_def lits_ok_def intro: subexpr.child)
  moreover have "rec_ok (eval_expr_with_scope reg ev n) (set (body_exprs (fd_body fd)))"
    if "map_of (user_definitions reg) nm = Some fd" for nm fd
    using that assms(2) Suc.IH by (auto simp: rec_ok_def user_lits_ok_def)
  moreover have "e = IntLit k \<Longrightarrow> in_i64 k" for k
    using Suc.prems(1) by (auto simp: lits_ok_def intro: subexpr.here)
  ultimately have "postM val_ok (eval_frame reg ev (eval_expr_with_scope reg ev n) e sc)"
    using Suc.prems assms by (intro eval_frame_ok) auto
  then show ?case by simp
qed (simp add: postM_crash)

subsection \<open>Integer arithmetic\<close>

text \<open>Arithmetic on two integers is exact: out of range is an error, never a wrapped value.\<close>

lemma int_op_exact:
  "eval_bin_op rfc (VInt l) OpAdd (VInt r) = Ok v \<longleftrightarrow> in_i64 (l + r) \<and> v = VInt (l + r)"
  "eval_bin_op rfc (VInt l) OpSub (VInt r) = Ok v \<longleftrightarrow> in_i64 (l - r) \<and> v = VInt (l - r)"
  "eval_bin_op rfc (VInt l) OpMul (VInt r) = Ok v \<longleftrightarrow> in_i64 (l * r) \<and> v = VInt (l * r)"
  by (auto simp: eval_bin_op_def add_values_def numeric_op_def exact_int_op_def checked_int_op_def
      checked_i64_def Let_def split: if_splits)

lemma int_div_mod:
  assumes "eval_bin_op rfc (VInt l) OpDiv (VInt r) = Ok (VInt q)" "eval_bin_op rfc (VInt l) OpMod (VInt r) = Ok (VInt m)"
  shows "if r = 0 then q = 0 \<and> m = 0 else l = q * r + m \<and> \<bar>m\<bar> < \<bar>r\<bar>"
proof (cases "r = 0")
  case False
  with assms have "q = trunc_div l r" "m = trunc_rem l r"
    by (auto simp: eval_bin_op_def numeric_op_def exact_int_op_def checked_int_op_def Let_def
        checked_i64_def split: if_splits option.splits)
  with False show ?thesis using trunc_div_rem[of l r] trunc_rem_bound[of r l] by simp
qed (use assms in \<open>auto simp: eval_bin_op_def numeric_op_def exact_int_op_def checked_int_op_def\<close>)

end
