(* ===== verification/Blueprint.thy ===== *)
theory Blueprint
  imports Eval_Facts "HOL-Library.List_Lexorder" "HOL-Library.Char_ord"
begin

section \<open>The execution blueprint\<close>

text \<open>
  The intermediate representation a configuration is compiled to (\<open>pipeline/blueprint.rs\<close>): its
  data, the compiler and the checks that seal it. Identifiers are 32-bit indices into vectors.
\<close>

subsection \<open>Data\<close>

definition u32_limit :: nat where "u32_limit = 2 ^ 32"

text \<open>The \<open>from_index\<close> of every identifier type; they differ in the message.\<close>

definition from_index :: "string \<Rightarrow> nat \<Rightarrow> nat res" where
  "from_index what i =
     (if i < u32_limit then Ok i else Err (what @ '' count exceeds the execution IR limit''))"

datatype process_target = Known nat | Unknown

record process_edge =
  edge_name :: rstr
  edge_target :: process_target

datatype process_code =
    CAssign assign_target expr
  | CLet rstr expr
  | CCall rstr nat
  | CDrop
  | CError "expr option"
  | CIf "(expr \<times> process_code list) list" "process_code list option"
  | CSwitch expr "(expr option \<times> process_code list) list"
  | CTry "process_code list" "process_code list"
  | CExpr expr

record process_body_code =
  pb_name :: rstr
  pb_code :: "process_code list"
  pb_edges :: "process_edge list"

datatype site_kind = KNamed | KInline

record process_site =
  site_name :: rstr
  site_kind :: site_kind
  site_body :: nat
  site_node :: nat

datatype pipeline_code =
    LInput "rstr list"
  | LProcessChain "process_site list"
  | LOutput rstr nat
  | LDrop
  | LFinish
  | LError "expr option"
  | LIf "(expr \<times> pipeline_code list) list" "pipeline_code list option"
  | LSwitch expr "(expr option \<times> pipeline_code list) list"

record metric_node =
  mn_parent :: "nat option"
  mn_step :: nat
  mn_path :: rstr
  mn_name :: rstr
  mn_target :: process_target
  mn_children :: "nat list"

record pipeline_flow =
  flow_inputs :: "rstr list"
  flow_processes :: "rstr list"
  flow_outputs :: "rstr list"

record pipeline_blueprint =
  bp_name :: rstr
  bp_code :: "pipeline_code list"
  bp_flow :: pipeline_flow
  bp_subscription :: "rstr list"
  bp_nodes :: "metric_node list"
  bp_timers :: "rstr list"

text \<open>
  The fields of \<open>UnsealedRuntimeBlueprint\<close> that execution reads; the definitions of inputs and
  outputs and the global blocks are carried through unchanged and are left out. The ordered maps
  are association lists in key order.
\<close>

record blueprint =
  ub_functions :: "(rstr \<times> function_def) list"
  ub_bodies :: "process_body_code list"
  ub_names :: "(rstr \<times> nat) list"
  ub_pipelines :: "(rstr \<times> pipeline_blueprint) list"
  ub_ids :: "(rstr \<times> nat) list"
  ub_order :: "rstr list"

record config =
  cfg_processes :: "(rstr \<times> process_def) list"
  cfg_pipelines :: "(rstr \<times> pipeline_def) list"
  cfg_functions :: "(rstr \<times> function_def) list"

subsection \<open>Compiling process bodies\<close>

text \<open>The edge table of the body under compilation and the slot of each callee name.\<close>

type_synonym edge_state = "process_edge list \<times> (rstr \<times> nat) list"

definition call_target :: "(rstr \<times> nat) list \<Rightarrow> rstr \<Rightarrow> process_target" where
  "call_target names name = (case map_of names name of Some i \<Rightarrow> Known i | None \<Rightarrow> Unknown)"

definition edge_slot :: "(rstr \<times> nat) list \<Rightarrow> rstr \<Rightarrow> (edge_state, nat) M" where
  "edge_slot names name = (\<lambda>(edges, slots). case map_of slots name of
     Some slot \<Rightarrow> (Ok slot, (edges, slots))
   | None \<Rightarrow> (case from_index ''process edge'' (length edges) of
       Ok slot \<Rightarrow> (Ok slot, (edges @ [\<lparr>edge_name = name, edge_target = call_target names name\<rparr>],
                            al_set name slot slots))
     | Err m \<Rightarrow> (Err m, (edges, slots))
     | Crash \<Rightarrow> (Crash, (edges, slots))))"

fun compile_process_statement ::
      "(rstr \<times> nat) list \<Rightarrow> process_statement \<Rightarrow> (edge_state, process_code) M"
  and compile_process_statements ::
      "(rstr \<times> nat) list \<Rightarrow> process_statement list \<Rightarrow> (edge_state, process_code list) M"
  and compile_process_branch ::
      "(rstr \<times> nat) list \<Rightarrow> branch_body list \<Rightarrow> (edge_state, process_code list) M"
  and compile_process_branches :: "(rstr \<times> nat) list \<Rightarrow> (expr \<times> branch_body list) list \<Rightarrow>
      (edge_state, (expr \<times> process_code list) list) M"
  and compile_process_arms :: "(rstr \<times> nat) list \<Rightarrow> (expr option \<times> branch_body list) list \<Rightarrow>
      (edge_state, (expr option \<times> process_code list) list) M"
where
  "compile_process_statement names (Assign t e) = ret (CAssign t e)"
| "compile_process_statement names (LetBinding x e) = ret (CLet x e)"
| "compile_process_statement names (ProcessCall name) =
     bindM (edge_slot names name) (\<lambda>slot. ret (CCall name slot))"
| "compile_process_statement names PDrop = ret CDrop"
| "compile_process_statement names (PError e) = ret (CError e)"
| "compile_process_statement names (PIf branches els) =
     bindM (compile_process_branches names branches) (\<lambda>bs.
     bindM (case els of None \<Rightarrow> ret None
            | Some b \<Rightarrow> bindM (compile_process_branch names b) (\<lambda>c. ret (Some c))) (\<lambda>el.
     ret (CIf bs el)))"
| "compile_process_statement names (PSwitch e arms) =
     bindM (compile_process_arms names arms) (\<lambda>as. ret (CSwitch e as))"
| "compile_process_statement names (TryCatch t c) =
     bindM (compile_process_statements names t) (\<lambda>tb.
     bindM (compile_process_statements names c) (\<lambda>cb. ret (CTry tb cb)))"
| "compile_process_statement names (ExprStmt e) = ret (CExpr e)"
| "compile_process_statements names [] = ret []"
| "compile_process_statements names (s # ss) =
     bindM (compile_process_statement names s) (\<lambda>c.
     bindM (compile_process_statements names ss) (\<lambda>cs. ret (c # cs)))"
| "compile_process_branch names [] = ret []"
| "compile_process_branch names (BProcess s # bs) =
     bindM (compile_process_statement names s) (\<lambda>c.
     bindM (compile_process_branch names bs) (\<lambda>cs. ret (c # cs)))"
| "compile_process_branch names (BPipeline _ # bs) = fail ''pipeline statement found in process body''"
| "compile_process_branches names [] = ret []"
| "compile_process_branches names ((c, b) # bs) =
     bindM (compile_process_branch names b) (\<lambda>code.
     bindM (compile_process_branches names bs) (\<lambda>cs. ret ((c, code) # cs)))"
| "compile_process_arms names [] = ret []"
| "compile_process_arms names ((p, b) # bs) =
     bindM (compile_process_branch names b) (\<lambda>code.
     bindM (compile_process_arms names bs) (\<lambda>cs. ret ((p, code) # cs)))"

definition compile_process_body ::
  "(rstr \<times> nat) list \<Rightarrow> rstr \<Rightarrow> process_statement list \<Rightarrow> process_body_code res" where
  "compile_process_body names name stmts =
     (case compile_process_statements names stmts ([], []) of
        (Ok code, (edges, _)) \<Rightarrow> Ok \<lparr>pb_name = name, pb_code = code, pb_edges = edges\<rparr>
      | (Err m, _) \<Rightarrow> Err m
      | (Crash, _) \<Rightarrow> Crash)"

text \<open>\<open>BlueprintCompiler::new\<close>: identifiers in the order of the sorted names.\<close>

fun number_names :: "rstr list \<Rightarrow> (rstr \<times> nat) list \<Rightarrow> (rstr \<times> nat) list res" where
  "number_names [] acc = Ok acc"
| "number_names (n # ns) acc =
     bindR (from_index ''process body'' (length acc)) (\<lambda>i. number_names ns (al_set n i acc))"

definition compiler_new :: "config \<Rightarrow> (rstr \<times> nat) list res" where
  "compiler_new cfg = number_names (sort (map fst (cfg_processes cfg))) []"

fun compile_named ::
  "config \<Rightarrow> (rstr \<times> nat) list \<Rightarrow> (rstr \<times> nat) list \<Rightarrow> process_body_code list \<Rightarrow> process_body_code list res"
where
  "compile_named cfg names [] bodies = Ok bodies"
| "compile_named cfg names ((name, expected) # rest) bodies =
     bindR (case map_of (cfg_processes cfg) name of
              Some def \<Rightarrow> Ok def
            | None \<Rightarrow> Err (''process '' @ [CHR 0x27] @ name @ [CHR 0x27] @ '' disappeared during compile'')) (\<lambda>def.
     bindR (compile_process_body names name (pd_body def)) (\<lambda>body.
     bindR (from_index ''process body'' (length bodies)) (\<lambda>actual.
     if actual \<noteq> expected then Err ''process body id assignment is not deterministic''
     else compile_named cfg names rest (bodies @ [body]))))"

definition compile_named_processes :: "config \<Rightarrow> (rstr \<times> nat) list \<Rightarrow> process_body_code list res" where
  "compile_named_processes cfg names = compile_named cfg names names []"

subsection \<open>Compiling pipelines\<close>

text \<open>The bodies compiled so far, the output timers of the pipeline and the slot of each output.\<close>

type_synonym pipe_state = "process_body_code list \<times> rstr list \<times> (rstr \<times> nat) list"

definition compile_inline :: "(rstr \<times> nat) list \<Rightarrow> process_statement list \<Rightarrow> (pipe_state, nat) M" where
  "compile_inline names stmts = (\<lambda>(bodies, tm).
     (case bindR (from_index ''process body'' (length bodies)) (\<lambda>i.
             bindR (compile_process_body names (''(inline@'' @ show_nat i @ '')'') stmts) (\<lambda>b. Ok (i, b))) of
        Ok (i, b) \<Rightarrow> (Ok i, (bodies @ [b], tm))
      | Err m \<Rightarrow> (Err m, (bodies, tm))
      | Crash \<Rightarrow> (Crash, (bodies, tm))))"

definition unset_node :: nat where "unset_node = u32_limit - 1"

fun compile_site :: "(rstr \<times> nat) list \<Rightarrow> chain_element \<Rightarrow> (pipe_state, process_site) M" where
  "compile_site names (Named name) = (case map_of names name of
     Some i \<Rightarrow> ret \<lparr>site_name = name, site_kind = KNamed, site_body = i, site_node = unset_node\<rparr>
   | None \<Rightarrow> fail (''pipeline references unknown process '' @ [CHR 0x27] @ name @ [CHR 0x27]))"
| "compile_site names (Inline stmts) = bindM (compile_inline names stmts) (\<lambda>i.
     ret \<lparr>site_name = ''(inline)'', site_kind = KInline, site_body = i, site_node = unset_node\<rparr>)"

definition output_slot :: "rstr \<Rightarrow> (pipe_state, nat) M" where
  "output_slot name = (\<lambda>(bodies, timers, slots). case map_of slots name of
     Some slot \<Rightarrow> (Ok slot, (bodies, timers, slots))
   | None \<Rightarrow> (case from_index ''output timer'' (length timers) of
       Ok slot \<Rightarrow> (Ok slot, (bodies, timers @ [name], al_set name slot slots))
     | Err m \<Rightarrow> (Err m, (bodies, timers, slots))
     | Crash \<Rightarrow> (Crash, (bodies, timers, slots))))"

fun compile_pipeline_statement ::
      "(rstr \<times> nat) list \<Rightarrow> pipeline_statement \<Rightarrow> (pipe_state, pipeline_code) M"
  and compile_pipeline_branch ::
      "(rstr \<times> nat) list \<Rightarrow> branch_body list \<Rightarrow> (pipe_state, pipeline_code list) M"
  and compile_pipeline_branches :: "(rstr \<times> nat) list \<Rightarrow> (expr \<times> branch_body list) list \<Rightarrow>
      (pipe_state, (expr \<times> pipeline_code list) list) M"
  and compile_pipeline_arms :: "(rstr \<times> nat) list \<Rightarrow> (expr option \<times> branch_body list) list \<Rightarrow>
      (pipe_state, (expr option \<times> pipeline_code list) list) M"
where
  "compile_pipeline_statement names (SInput ns) = ret (LInput ns)"
| "compile_pipeline_statement names (SProcessChain chain) =
     bindM (mapM (compile_site names) chain) (\<lambda>sites. ret (LProcessChain sites))"
| "compile_pipeline_statement names (SOutput name) =
     bindM (output_slot name) (\<lambda>slot. ret (LOutput name slot))"
| "compile_pipeline_statement names SDrop = ret LDrop"
| "compile_pipeline_statement names SFinish = ret LFinish"
| "compile_pipeline_statement names (SError e) = ret (LError e)"
| "compile_pipeline_statement names (SIf branches els) =
     bindM (compile_pipeline_branches names branches) (\<lambda>bs.
     bindM (case els of None \<Rightarrow> ret None
            | Some b \<Rightarrow> bindM (compile_pipeline_branch names b) (\<lambda>c. ret (Some c))) (\<lambda>el.
     ret (LIf bs el)))"
| "compile_pipeline_statement names (SSwitch e arms) =
     bindM (compile_pipeline_arms names arms) (\<lambda>as. ret (LSwitch e as))"
| "compile_pipeline_branch names [] = ret []"
| "compile_pipeline_branch names (BPipeline s # bs) =
     bindM (compile_pipeline_statement names s) (\<lambda>c.
     bindM (compile_pipeline_branch names bs) (\<lambda>cs. ret (c # cs)))"
| "compile_pipeline_branch names (BProcess _ # bs) = fail ''process statement found in pipeline body''"
| "compile_pipeline_branches names [] = ret []"
| "compile_pipeline_branches names ((c, b) # bs) =
     bindM (compile_pipeline_branch names b) (\<lambda>code.
     bindM (compile_pipeline_branches names bs) (\<lambda>cs. ret ((c, code) # cs)))"
| "compile_pipeline_arms names [] = ret []"
| "compile_pipeline_arms names ((p, b) # bs) =
     bindM (compile_pipeline_branch names b) (\<lambda>code.
     bindM (compile_pipeline_arms names bs) (\<lambda>cs. ret ((p, code) # cs)))"

subsection \<open>Metric nodes\<close>

text \<open>
  \<open>add_metric_node\<close>: a node per call path. The state is the node table and the next step. The
  recursion descends one process call per level and carries the stack frames left; the ancestors
  are the bodies on the path.
\<close>

type_synonym node_state = "metric_node list \<times> nat"

definition push_node :: "metric_node \<Rightarrow> (node_state, nat) M" where
  "push_node node = (\<lambda>(nodes, step). case from_index ''metric node'' (length nodes) of
     Ok i \<Rightarrow> if Suc step < u32_limit then (Ok i, (nodes @ [node\<lparr>mn_step := step\<rparr>], Suc step))
            else (Err ''metric step overflow'', (nodes, step))
   | Err m \<Rightarrow> (Err m, (nodes, step))
   | Crash \<Rightarrow> (Crash, (nodes, step)))"

definition set_children :: "nat \<Rightarrow> nat list \<Rightarrow> (node_state, unit) M" where
  "set_children i cs = (\<lambda>(nodes, step).
     if i < length nodes then (Ok (), (nodes[i := (nodes ! i)\<lparr>mn_children := cs\<rparr>], step))
     else (Crash, (nodes, step)))"

definition drop_before :: "nat \<Rightarrow> (nat \<times> rstr) list \<Rightarrow> (nat \<times> rstr) list" where
  "drop_before i anc = dropWhile (\<lambda>(a, _). a \<noteq> i) anc"

definition cycle_message :: "rstr list \<Rightarrow> string" where
  "cycle_message path = ''process call cycle: '' @ join '' -> '' path"

primrec add_metric_node :: "process_body_code list \<Rightarrow> nat \<Rightarrow> nat option \<Rightarrow> process_target \<Rightarrow>
    rstr \<Rightarrow> rstr \<Rightarrow> (nat \<times> rstr) list \<Rightarrow> (node_state, nat) M" where
  "add_metric_node bodies 0 parent target name path anc = crash"
| "add_metric_node bodies (Suc n) parent target name path anc =
     bindM (push_node \<lparr>mn_parent = parent, mn_step = 0, mn_path = path, mn_name = name,
                       mn_target = target, mn_children = []\<rparr>) (\<lambda>i.
     case target of
       Unknown \<Rightarrow> ret i
     | Known b \<Rightarrow> bindM (liftR (get_or bodies b ''process body id is out of range'')) (\<lambda>body.
         if b \<in> set (map fst anc)
         then fail (cycle_message (map snd (drop_before b anc) @ [name]))
         else bindM (mapM (\<lambda>e. add_metric_node bodies n (Some i) (edge_target e) (edge_name e)
                            (path @ ''/'' @ edge_name e) (anc @ [(b, name)])) (pb_edges body)) (\<lambda>cs.
              bindM (set_children i cs) (\<lambda>_. ret i))))"

definition attach_site :: "process_body_code list \<Rightarrow> process_site \<Rightarrow> (node_state, process_site) M" where
  "attach_site bodies site =
     bindM (add_metric_node bodies (length bodies + 2) None (Known (site_body site)) (site_name site)
              (''/'' @ site_name site) []) (\<lambda>i. ret (site\<lparr>site_node := i\<rparr>))"

fun attach_statement :: "process_body_code list \<Rightarrow> pipeline_code \<Rightarrow> (node_state, pipeline_code) M"
  and attach_nodes :: "process_body_code list \<Rightarrow> pipeline_code list \<Rightarrow> (node_state, pipeline_code list) M"
  and attach_branches :: "process_body_code list \<Rightarrow> (expr \<times> pipeline_code list) list \<Rightarrow>
      (node_state, (expr \<times> pipeline_code list) list) M"
  and attach_arms :: "process_body_code list \<Rightarrow> (expr option \<times> pipeline_code list) list \<Rightarrow>
      (node_state, (expr option \<times> pipeline_code list) list) M"
where
  "attach_statement bodies (LProcessChain sites) =
     bindM (mapM (attach_site bodies) sites) (\<lambda>ss. ret (LProcessChain ss))"
| "attach_statement bodies (LIf branches els) =
     bindM (attach_branches bodies branches) (\<lambda>bs.
     bindM (case els of None \<Rightarrow> ret None
            | Some b \<Rightarrow> bindM (attach_nodes bodies b) (\<lambda>c. ret (Some c))) (\<lambda>el.
     ret (LIf bs el)))"
| "attach_statement bodies (LSwitch e arms) =
     bindM (attach_arms bodies arms) (\<lambda>as. ret (LSwitch e as))"
| "attach_statement bodies s = ret s"
| "attach_nodes bodies [] = ret []"
| "attach_nodes bodies (s # ss) = bindM (attach_statement bodies s) (\<lambda>c.
     bindM (attach_nodes bodies ss) (\<lambda>cs. ret (c # cs)))"
| "attach_branches bodies [] = ret []"
| "attach_branches bodies ((c, b) # bs) = bindM (attach_nodes bodies b) (\<lambda>code.
     bindM (attach_branches bodies bs) (\<lambda>cs. ret ((c, code) # cs)))"
| "attach_arms bodies [] = ret []"
| "attach_arms bodies ((p, b) # bs) = bindM (attach_nodes bodies b) (\<lambda>code.
     bindM (attach_arms bodies bs) (\<lambda>cs. ret ((p, code) # cs)))"

subsection \<open>Flow and the whole compiler\<close>

definition push_new :: "'a \<Rightarrow> 'a list \<Rightarrow> 'a list" where
  "push_new x xs = (if x \<in> set xs then xs else xs @ [x])"

fun flow_statement :: "pipeline_code \<Rightarrow> pipeline_flow \<Rightarrow> pipeline_flow"
  and flow_visit :: "pipeline_code list \<Rightarrow> pipeline_flow \<Rightarrow> pipeline_flow"
  and flow_branches :: "(expr \<times> pipeline_code list) list \<Rightarrow> pipeline_flow \<Rightarrow> pipeline_flow"
  and flow_arms :: "(expr option \<times> pipeline_code list) list \<Rightarrow> pipeline_flow \<Rightarrow> pipeline_flow"
where
  "flow_statement (LInput ns) fl = fl\<lparr>flow_inputs := fold push_new ns (flow_inputs fl)\<rparr>"
| "flow_statement (LProcessChain sites) fl =
     fl\<lparr>flow_processes := fold (\<lambda>s ps. if site_kind s = KNamed then push_new (site_name s) ps else ps)
                            sites (flow_processes fl)\<rparr>"
| "flow_statement (LOutput name _) fl = fl\<lparr>flow_outputs := push_new name (flow_outputs fl)\<rparr>"
| "flow_statement (LIf branches els) fl =
     (let fl' = flow_branches branches fl in case els of Some b \<Rightarrow> flow_visit b fl' | None \<Rightarrow> fl')"
| "flow_statement (LSwitch _ arms) fl = flow_arms arms fl"
| "flow_statement _ fl = fl"
| "flow_visit [] fl = fl"
| "flow_visit (s # ss) fl = flow_visit ss (flow_statement s fl)"
| "flow_branches [] fl = fl"
| "flow_branches ((_, b) # bs) fl = flow_branches bs (flow_visit b fl)"
| "flow_arms [] fl = fl"
| "flow_arms ((_, b) # bs) fl = flow_arms bs (flow_visit b fl)"

definition collect_pipeline_flow :: "pipeline_code list \<Rightarrow> pipeline_flow" where
  "collect_pipeline_flow code =
     flow_visit code \<lparr>flow_inputs = [], flow_processes = [], flow_outputs = []\<rparr>"

text \<open>The names of the first top-level \<open>input\<close> statement.\<close>

fun first_input :: "pipeline_code list \<Rightarrow> rstr list" where
  "first_input [] = []"
| "first_input (LInput ns # _) = ns"
| "first_input (_ # ss) = first_input ss"

definition compile_pipeline ::
  "(rstr \<times> nat) list \<Rightarrow> pipeline_def \<Rightarrow> (process_body_code list, pipeline_blueprint) M" where
  "compile_pipeline names pl = (\<lambda>bodies.
     case mapM (compile_pipeline_statement names) (pl_body pl) (bodies, [], []) of
       (Ok code, (bodies', timers, _)) \<Rightarrow>
         (case attach_nodes bodies' code ([], 1) of
            (Ok code', (nodes, _)) \<Rightarrow>
              (Ok \<lparr>bp_name = pl_name pl, bp_code = code', bp_flow = collect_pipeline_flow code',
                   bp_subscription = first_input code', bp_nodes = nodes, bp_timers = timers\<rparr>, bodies')
          | (Err m, _) \<Rightarrow> (Err m, bodies')
          | (Crash, _) \<Rightarrow> (Crash, bodies'))
     | (Err m, (bodies', _)) \<Rightarrow> (Err m, bodies')
     | (Crash, (bodies', _)) \<Rightarrow> (Crash, bodies'))"

fun compile_pipelines :: "config \<Rightarrow> (rstr \<times> nat) list \<Rightarrow> rstr list \<Rightarrow>
    (rstr \<times> pipeline_blueprint) list \<Rightarrow> (process_body_code list, (rstr \<times> pipeline_blueprint) list) M" where
  "compile_pipelines cfg names [] acc = ret acc"
| "compile_pipelines cfg names (n # ns) acc =
     (case map_of (cfg_pipelines cfg) n of
        None \<Rightarrow> fail (''pipeline '' @ [CHR 0x27] @ n @ [CHR 0x27] @ '' disappeared during compile'')
      | Some pl \<Rightarrow> bindM (compile_pipeline names pl) (\<lambda>c. compile_pipelines cfg names ns (al_set n c acc)))"

fun number_order :: "nat \<Rightarrow> rstr list \<Rightarrow> (rstr \<times> nat) list res" where
  "number_order i [] = Ok []"
| "number_order i (n # ns) = bindR (from_index ''pipeline'' i) (\<lambda>j.
     bindR (number_order (Suc i) ns) (\<lambda>rest. Ok ((n, j) # rest)))"

text \<open>\<open>UnsealedRuntimeBlueprint::compile\<close>\<close>

definition blueprint_compile :: "config \<Rightarrow> blueprint res" where
  "blueprint_compile cfg =
     bindR (compiler_new cfg) (\<lambda>names.
     bindR (compile_named_processes cfg names) (\<lambda>named.
     (case compile_pipelines cfg names (sort (map fst (cfg_pipelines cfg))) [] named of
        (Ok pipelines, bodies) \<Rightarrow>
          bindR (number_order 0 (map fst pipelines)) (\<lambda>ids.
          Ok \<lparr>ub_functions = cfg_functions cfg, ub_bodies = bodies, ub_names = names,
              ub_pipelines = pipelines, ub_ids = ids, ub_order = map fst pipelines\<rparr>)
      | (Err m, _) \<Rightarrow> Err m
      | (Crash, _) \<Rightarrow> Crash)))"

subsection \<open>Sealing\<close>

definition quoted :: "string \<Rightarrow> string" where
  "quoted s = [CHR 0x27] @ s @ [CHR 0x27]"

fun validate_process_statement :: "process_body_code \<Rightarrow> process_code \<Rightarrow> unit res"
  and validate_process_code :: "process_body_code \<Rightarrow> process_code list \<Rightarrow> unit res"
  and validate_process_branches :: "process_body_code \<Rightarrow> (expr \<times> process_code list) list \<Rightarrow> unit res"
  and validate_process_arms :: "process_body_code \<Rightarrow> (expr option \<times> process_code list) list \<Rightarrow> unit res"
where
  "validate_process_statement body (CCall name slot) =
     bindR (get_or (pb_edges body) slot (''process '' @ quoted (pb_name body) @ '' call edge slot is out of range''))
       (\<lambda>e. ensure (edge_name e = name) (''process '' @ quoted (pb_name body) @ '' call edge identity mismatch''))"
| "validate_process_statement body (CIf branches els) =
     bindR (validate_process_branches body branches) (\<lambda>_.
       case els of Some b \<Rightarrow> validate_process_code body b | None \<Rightarrow> Ok ())"
| "validate_process_statement body (CSwitch _ arms) = validate_process_arms body arms"
| "validate_process_statement body (CTry t c) =
     bindR (validate_process_code body t) (\<lambda>_. validate_process_code body c)"
| "validate_process_statement body _ = Ok ()"
| "validate_process_code body [] = Ok ()"
| "validate_process_code body (s # ss) =
     bindR (validate_process_statement body s) (\<lambda>_. validate_process_code body ss)"
| "validate_process_branches body [] = Ok ()"
| "validate_process_branches body ((_, b) # bs) =
     bindR (validate_process_code body b) (\<lambda>_. validate_process_branches body bs)"
| "validate_process_arms body [] = Ok ()"
| "validate_process_arms body ((_, b) # bs) =
     bindR (validate_process_code body b) (\<lambda>_. validate_process_arms body bs)"

text \<open>
  \<open>visit\<close> of \<open>validate_process_cycles\<close>: a depth-first walk with the path (\<open>active\<close>) and the
  finished bodies (\<open>done\<close>, threaded; newest first). The message only names bodies on the path,
  which the lookup has accepted before.
\<close>

definition body_name :: "blueprint \<Rightarrow> nat \<Rightarrow> rstr" where
  "body_name bp i = (case nth_opt (ub_bodies bp) i of Some b \<Rightarrow> pb_name b | None \<Rightarrow> [])"

primrec visit :: "blueprint \<Rightarrow> nat \<Rightarrow> nat list \<Rightarrow> nat \<Rightarrow> (nat list, unit) M" where
  "visit bp 0 active i = crash"
| "visit bp (Suc n) active i = (\<lambda>fin.
     if i \<in> set fin then (Ok (), fin)
     else if i \<in> set active
     then (Err (cycle_message (map (body_name bp) (dropWhile (\<lambda>a. a \<noteq> i) active) @ [body_name bp i])), fin)
     else bindM (liftR (get_or (ub_bodies bp) i ''process body id is out of range'')) (\<lambda>body.
          bindM (mapM (\<lambda>e. case edge_target e of
                    Known t \<Rightarrow> visit bp n (active @ [i]) t | Unknown \<Rightarrow> ret ()) (pb_edges body)) (\<lambda>_.
          (\<lambda>fin'. (Ok (), List.insert i fin')))) fin)"

definition visit_all :: "blueprint \<Rightarrow> (nat list, unit list) M" where
  "visit_all bp = mapM (\<lambda>i. bindM (liftR (from_index ''process body'' i)) (\<lambda>j.
     visit bp (length (ub_bodies bp) + 2) [] j)) [0..<length (ub_bodies bp)]"

definition validate_process_cycles :: "blueprint \<Rightarrow> unit res" where
  "validate_process_cycles bp = bindR (fst (visit_all bp [])) (\<lambda>_. Ok ())"

definition validate_edges :: "blueprint \<Rightarrow> process_body_code \<Rightarrow> unit res" where
  "validate_edges bp body =
     eachR (\<lambda>(i, e).
       bindR (ensure (case edge_target e of Known t \<Rightarrow> t < length (ub_bodies bp) | Unknown \<Rightarrow> True)
                (''process '' @ quoted (pb_name body) @ '' edge target is out of range'')) (\<lambda>_.
       bindR (from_index ''process edge'' i) (\<lambda>_.
       ensure (edge_name e \<notin> set (map edge_name (take i (pb_edges body))))
         (''process '' @ quoted (pb_name body) @ '' has duplicate edge '' @ quoted (edge_name e)))))
     (enumerate 0 (pb_edges body))"

definition validate_process_identity_and_edges :: "blueprint \<Rightarrow> unit res" where
  "validate_process_identity_and_edges bp =
     bindR (eachR (\<lambda>(name, i).
       bindR (get_or (ub_bodies bp) i (''process body id for '' @ quoted name @ '' is out of range''))
         (\<lambda>b. ensure (pb_name b = name) (''process body identity mismatch for '' @ quoted name))) (ub_names bp)) (\<lambda>_.
     bindR (eachR (\<lambda>body. bindR (validate_edges bp body) (\<lambda>_. validate_process_code body (pb_code body)))
              (ub_bodies bp)) (\<lambda>_.
     validate_process_cycles bp))"

definition pipeline_err :: "pipeline_blueprint \<Rightarrow> string \<Rightarrow> string" where
  "pipeline_err pl msg = ''pipeline '' @ quoted (bp_name pl) @ '' '' @ msg"

definition validate_child :: "pipeline_blueprint \<Rightarrow> nat \<Rightarrow> metric_node \<Rightarrow> process_edge \<Rightarrow> nat \<Rightarrow> unit res" where
  "validate_child pl nid node e cid =
     bindR (get_or (bp_nodes pl) cid (pipeline_err pl ''metric child id is out of range'')) (\<lambda>child.
     ensure (mn_parent child = Some nid \<and> mn_target child = edge_target e
             \<and> mn_name child = edge_name e \<and> mn_path child = mn_path node @ ''/'' @ edge_name e)
       (pipeline_err pl ''metric child identity mismatch''))"

definition validate_node :: "blueprint \<Rightarrow> pipeline_blueprint \<Rightarrow> nat \<Rightarrow> metric_node \<Rightarrow> unit res" where
  "validate_node bp pl i node =
     bindR (from_index ''metric node'' i) (\<lambda>nid.
     bindR (if Suc i < u32_limit then Ok (Suc i) else Err ''metric step overflow'') (\<lambda>step.
     bindR (ensure (mn_step node = step) (pipeline_err pl ''metric step sequence mismatch'')) (\<lambda>_.
     (case mn_target node of
        Known b \<Rightarrow>
          bindR (get_or (ub_bodies bp) b (pipeline_err pl ''metric body is out of range'')) (\<lambda>body.
          bindR (ensure (length (mn_children node) = length (pb_edges body))
                   (pipeline_err pl ''metric child count mismatch'')) (\<lambda>_.
          eachR (\<lambda>(e, cid). validate_child pl nid node e cid) (zip (pb_edges body) (mn_children node))))
      | Unknown \<Rightarrow> ensure (mn_children node = []) (pipeline_err pl ''unknown metric node has children'')))))"

definition validate_site :: "blueprint \<Rightarrow> pipeline_blueprint \<Rightarrow> process_site \<Rightarrow> unit res" where
  "validate_site bp pl site =
     bindR (ensure ((site_kind site = KNamed) = (site_body site \<in> set (map snd (ub_names bp))))
              (pipeline_err pl ''process site kind mismatch'')) (\<lambda>_.
     bindR (get_or (bp_nodes pl) (site_node site) (pipeline_err pl ''root metric node is out of range'')) (\<lambda>node.
     ensure (mn_parent node = None \<and> mn_target node = Known (site_body site)
             \<and> mn_name node = site_name site \<and> mn_path node = ''/'' @ site_name site)
       (pipeline_err pl ''root metric identity mismatch'')))"

fun validate_pipeline_statement :: "blueprint \<Rightarrow> pipeline_blueprint \<Rightarrow> pipeline_code \<Rightarrow> unit res"
  and validate_pipeline_code :: "blueprint \<Rightarrow> pipeline_blueprint \<Rightarrow> pipeline_code list \<Rightarrow> unit res"
  and validate_pipeline_branches ::
      "blueprint \<Rightarrow> pipeline_blueprint \<Rightarrow> (expr \<times> pipeline_code list) list \<Rightarrow> unit res"
  and validate_pipeline_arms ::
      "blueprint \<Rightarrow> pipeline_blueprint \<Rightarrow> (expr option \<times> pipeline_code list) list \<Rightarrow> unit res"
where
  "validate_pipeline_statement bp pl (LProcessChain sites) = eachR (validate_site bp pl) sites"
| "validate_pipeline_statement bp pl (LOutput name slot) =
     ensure (nth_opt (bp_timers pl) slot = Some name) (pipeline_err pl ''output timer identity mismatch'')"
| "validate_pipeline_statement bp pl (LIf branches els) =
     bindR (validate_pipeline_branches bp pl branches) (\<lambda>_.
       case els of Some b \<Rightarrow> validate_pipeline_code bp pl b | None \<Rightarrow> Ok ())"
| "validate_pipeline_statement bp pl (LSwitch _ arms) = validate_pipeline_arms bp pl arms"
| "validate_pipeline_statement bp pl _ = Ok ()"
| "validate_pipeline_code bp pl [] = Ok ()"
| "validate_pipeline_code bp pl (s # ss) =
     bindR (validate_pipeline_statement bp pl s) (\<lambda>_. validate_pipeline_code bp pl ss)"
| "validate_pipeline_branches bp pl [] = Ok ()"
| "validate_pipeline_branches bp pl ((_, b) # bs) =
     bindR (validate_pipeline_code bp pl b) (\<lambda>_. validate_pipeline_branches bp pl bs)"
| "validate_pipeline_arms bp pl [] = Ok ()"
| "validate_pipeline_arms bp pl ((_, b) # bs) =
     bindR (validate_pipeline_code bp pl b) (\<lambda>_. validate_pipeline_arms bp pl bs)"

definition validate_pipeline :: "blueprint \<Rightarrow> pipeline_blueprint \<Rightarrow> unit res" where
  "validate_pipeline bp pl =
     bindR (ensure (length (bp_nodes pl) < u32_limit)
              (pipeline_err pl ''metric node count exceeds the IR limit'')) (\<lambda>_.
     bindR (eachR (\<lambda>(i, node). validate_node bp pl i node) (enumerate 0 (bp_nodes pl))) (\<lambda>_.
     bindR (ensure (bp_subscription pl = first_input (bp_code pl))
              (pipeline_err pl ''subscription input identity mismatch'')) (\<lambda>_.
     validate_pipeline_code bp pl (bp_code pl))))"

definition seal :: "blueprint \<Rightarrow> blueprint res" where
  "seal bp =
     bindR (validate_process_identity_and_edges bp) (\<lambda>_.
     bindR (eachR (\<lambda>(_, pl). validate_pipeline bp pl) (ub_pipelines bp)) (\<lambda>_.
     bindR (ensure (length (ub_order bp) = length (ub_pipelines bp) \<and> length (ub_ids bp) = length (ub_pipelines bp))
              ''pipeline identity table length mismatch'') (\<lambda>_.
     bindR (eachR (\<lambda>(i, name). bindR (from_index ''pipeline'' i) (\<lambda>expected.
              ensure (map_of (ub_ids bp) name = Some expected \<and> map_of (ub_pipelines bp) name \<noteq> None)
                (''pipeline identity table mismatch for '' @ quoted name))) (enumerate 0 (ub_order bp))) (\<lambda>_.
     Ok bp))))"

definition compile_runtime_blueprint :: "config \<Rightarrow> blueprint res" where
  "compile_runtime_blueprint cfg = bindR (blueprint_compile cfg) seal"

subsection \<open>What a sealed blueprint guarantees\<close>

text \<open>The call graph: body \<open>i\<close> has an edge to body \<open>j\<close>.\<close>

definition body_calls :: "blueprint \<Rightarrow> nat \<Rightarrow> nat set" where
  "body_calls bp i = {j. i < length (ub_bodies bp) \<and>
     (\<exists>e \<in> set (pb_edges (ub_bodies bp ! i)). edge_target e = Known j)}"

text \<open>A finished list in which every body comes after (to the left of) the bodies it calls.\<close>

fun topo :: "blueprint \<Rightarrow> nat list \<Rightarrow> bool" where
  "topo bp [] \<longleftrightarrow> True"
| "topo bp (i # fin) \<longleftrightarrow> body_calls bp i \<subseteq> set fin \<and> topo bp fin"

fun topo_rank :: "nat list \<Rightarrow> nat \<Rightarrow> nat" where
  "topo_rank [] x = 0"
| "topo_rank (i # fin) x = (if x \<in> set fin then topo_rank fin x else Suc (length fin))"

lemma topo_rank_le: "topo_rank fin x \<le> length fin"
  by (induction fin) (auto simp: le_Suc_eq)

lemma topo_closed: "topo bp fin \<Longrightarrow> i \<in> set fin \<Longrightarrow> body_calls bp i \<subseteq> set fin"
  by (induction fin) auto

lemma topo_rank_call:
  "topo bp fin \<Longrightarrow> i \<in> set fin \<Longrightarrow> j \<in> body_calls bp i \<Longrightarrow> topo_rank fin j < topo_rank fin i"
proof (induction fin)
  case (Cons k fin)
  show ?case
  proof (cases "i \<in> set fin")
    case True
    then have "j \<in> set fin" using Cons.prems topo_closed by auto
    with True Cons show ?thesis by simp
  next
    case False
    then have "j \<in> set fin" using Cons.prems by auto
    with False topo_rank_le[of fin j] show ?thesis by simp
  qed
qed simp

definition visited :: "blueprint \<Rightarrow> nat list \<Rightarrow> nat list \<Rightarrow> bool" where
  "visited bp fin fin' \<longleftrightarrow> set fin \<subseteq> set fin' \<and> (topo bp fin \<longrightarrow> topo bp fin')"

lemma visit_edges:
  assumes "\<And>t fin fin' u. visit bp n act t fin = (Ok u, fin') \<Longrightarrow> visited bp fin fin' \<and> t \<in> set fin'"
    and "mapM (\<lambda>e. case edge_target e of Known t \<Rightarrow> visit bp n act t | Unknown \<Rightarrow> ret ()) es fin = (Ok us, fin')"
  shows "visited bp fin fin' \<and> (\<forall>e \<in> set es. \<forall>t. edge_target e = Known t \<longrightarrow> t \<in> set fin')"
  using assms(2)
proof (induction es arbitrary: fin us)
  case (Cons e es)
  then obtain u fin1 us1 where
    1: "(case edge_target e of Known t \<Rightarrow> visit bp n act t | Unknown \<Rightarrow> ret ()) fin = (Ok u, fin1)" and
    2: "mapM (\<lambda>e. case edge_target e of Known t \<Rightarrow> visit bp n act t | Unknown \<Rightarrow> ret ()) es fin1 = (Ok us1, fin')"
    by (auto simp: bindM_Ok ret_def)
  have "visited bp fin fin1 \<and> (\<forall>t. edge_target e = Known t \<longrightarrow> t \<in> set fin1)"
    using 1 assms(1) by (cases "edge_target e") (auto simp: visited_def ret_def)
  with Cons.IH[OF 2] show ?case by (auto simp: visited_def)
qed (auto simp: visited_def ret_def)

lemma visit_visited:
  "visit bp n act i fin = (Ok u, fin') \<Longrightarrow> visited bp fin fin' \<and> i \<in> set fin'"
proof (induction n arbitrary: act i fin fin' u)
  case (Suc n)
  show ?case
  proof (cases "i \<in> set fin")
    case False
    with Suc.prems obtain us fin1 where lt: "i < length (ub_bodies bp)" and
      m: "mapM (\<lambda>e. case edge_target e of Known t \<Rightarrow> visit bp n (act @ [i]) t | Unknown \<Rightarrow> ret ())
            (pb_edges (ub_bodies bp ! i)) fin = (Ok us, fin1)" and fin': "fin' = List.insert i fin1"
      by (auto simp: bindM_Ok liftR_def split: if_splits)
    from visit_edges[OF Suc.IH m] have "visited bp fin fin1" "body_calls bp i \<subseteq> set fin1"
      using lt by (auto simp: body_calls_def)
    then show ?thesis by (auto simp: visited_def fin' List.insert_def)
  qed (use Suc.prems in \<open>auto simp: visited_def\<close>)
qed (simp add: crash_def)

lemma visit_list_visited:
  "mapM (\<lambda>i. bindM (liftR (from_index w i)) (\<lambda>j. visit bp n act j)) is fin = (Ok us, fin') \<Longrightarrow>
   visited bp fin fin' \<and> set is \<subseteq> set fin'"
proof (induction "is" arbitrary: fin us)
  case (Cons i "is")
  then obtain u fin1 us1 where 1: "visit bp n act i fin = (Ok u, fin1)" and
    2: "mapM (\<lambda>i. bindM (liftR (from_index w i)) (\<lambda>j. visit bp n act j)) is fin1 = (Ok us1, fin')"
    by (auto simp: bindM_Ok ret_def liftR_def from_index_def split: if_splits)
  from visit_visited[OF 1] Cons.IH[OF 2] show ?case by (auto simp: visited_def)
qed (auto simp: visited_def ret_def)

definition call_graph :: "blueprint \<Rightarrow> (nat \<times> nat) set" where
  "call_graph bp = {(i, j). j \<in> body_calls bp i}"

lemma rank_acyclic: "(\<And>i j. j \<in> body_calls bp i \<Longrightarrow> (rk j :: nat) < rk i) \<Longrightarrow> acyclic (call_graph bp)"
  by (rule acyclicI_order[where f = rk]) (auto simp: call_graph_def)

lemma cycles_ok_acyclic:
  assumes "validate_process_cycles bp = Ok u"
  shows "acyclic (call_graph bp)"
proof -
  obtain us fin where "visit_all bp [] = (Ok us, fin)"
    using assms unfolding validate_process_cycles_def by (cases "visit_all bp []") auto
  from visit_list_visited[OF this[unfolded visit_all_def]]
  have t: "topo bp fin" and c: "{..<length (ub_bodies bp)} \<subseteq> set fin"
    by (auto simp: visited_def)
  show ?thesis
  proof (rule rank_acyclic)
    fix i j assume j: "j \<in> body_calls bp i"
    then have "i \<in> set fin" using c by (auto simp: body_calls_def)
    then show "topo_rank fin j < topo_rank fin i" using topo_rank_call[OF t _ j] by simp
  qed
qed

text \<open>A rank bounded by the number of bodies: how many bodies a call chain from \<open>i\<close> can reach.\<close>

definition edges_in_range :: "blueprint \<Rightarrow> bool" where
  "edges_in_range bp \<longleftrightarrow> (\<forall>i. body_calls bp i \<subseteq> {..<length (ub_bodies bp)})"

definition call_rank :: "blueprint \<Rightarrow> nat \<Rightarrow> nat" where
  "call_rank bp i = card ((call_graph bp)\<^sup>+ `` {i})"

lemma reach_in_range: "edges_in_range bp \<Longrightarrow> (call_graph bp)\<^sup>+ `` {i} \<subseteq> {..<length (ub_bodies bp)}"
proof -
  assume "edges_in_range bp"
  then have "Range (call_graph bp) \<subseteq> {..<length (ub_bodies bp)}"
    by (auto simp: call_graph_def edges_in_range_def)
  moreover have "(call_graph bp)\<^sup>+ `` {i} \<subseteq> Range ((call_graph bp)\<^sup>+)" by blast
  ultimately show ?thesis by (simp only: trancl_range)
qed

lemma call_rank_le: "edges_in_range bp \<Longrightarrow> call_rank bp i \<le> length (ub_bodies bp)"
  using card_mono[OF _ reach_in_range, of bp i] by (simp add: call_rank_def)

lemma call_rank_less:
  assumes "edges_in_range bp" "acyclic (call_graph bp)" "j \<in> body_calls bp i"
  shows "call_rank bp j < call_rank bp i"
  unfolding call_rank_def
proof (rule psubset_card_mono)
  show "finite ((call_graph bp)\<^sup>+ `` {i})"
    using finite_subset[OF reach_in_range[OF assms(1)]] by blast
  have "(i, j) \<in> call_graph bp" using assms(3) by (simp add: call_graph_def)
  then have "(call_graph bp)\<^sup>+ `` {j} \<subseteq> (call_graph bp)\<^sup>+ `` {i}" "j \<in> (call_graph bp)\<^sup>+ `` {i}"
    by (auto intro: trancl_into_trancl2)
  moreover have "j \<notin> (call_graph bp)\<^sup>+ `` {j}" using assms(2) by (auto simp: acyclic_def)
  ultimately show "(call_graph bp)\<^sup>+ `` {j} \<subset> (call_graph bp)\<^sup>+ `` {i}" by blast
qed

text \<open>The walk neither runs out of frames nor rejects a graph without a cycle.\<close>

lemma visit_accepts:
  assumes "edges_in_range bp" "acyclic (call_graph bp)"
  shows "i < length (ub_bodies bp) \<Longrightarrow> \<forall>a \<in> set act. call_rank bp i < call_rank bp a \<Longrightarrow>
    call_rank bp i < n \<Longrightarrow> \<exists>fin'. visit bp n act i fin = (Ok (), fin')"
proof (induction n arbitrary: act i fin)
  case (Suc n)
  let ?f = "\<lambda>e. case edge_target e of Known t \<Rightarrow> visit bp n (act @ [i]) t | Unknown \<Rightarrow> ret ()"
  have "\<exists>us fin'. mapM ?f (pb_edges (ub_bodies bp ! i)) fin = (Ok us, fin')"
  proof (rule mapM_succeeds)
    fix e fin1 assume e: "e \<in> set (pb_edges (ub_bodies bp ! i))"
    show "\<exists>u fin2. ?f e fin1 = (Ok u, fin2)"
    proof (cases "edge_target e")
      case (Known t)
      then have "t \<in> body_calls bp i" using Suc.prems(1) e by (auto simp: body_calls_def)
      with call_rank_less[OF assms this] assms(1) Suc.prems have "t < length (ub_bodies bp)"
        "\<forall>a \<in> set (act @ [i]). call_rank bp t < call_rank bp a" "call_rank bp t < n"
        by (auto simp: edges_in_range_def intro: less_trans)
      then show ?thesis using Suc.IH Known by simp
    qed (simp add: ret_def)
  qed
  then obtain us fin' where "mapM ?f (pb_edges (ub_bodies bp ! i)) fin = (Ok us, fin')" by blast
  moreover have "i \<notin> set act" using Suc.prems(2) by auto
  ultimately show ?case using Suc.prems(1)
    by (auto simp: bindM_def liftR_def get_or_def nth_opt_def)
qed simp

lemma visit_all_accepts:
  assumes "edges_in_range bp" "acyclic (call_graph bp)" "length (ub_bodies bp) \<le> u32_limit"
  shows "validate_process_cycles bp = Ok ()"
proof -
  let ?f = "\<lambda>i. bindM (liftR (from_index ''process body'' i)) (\<lambda>j. visit bp (length (ub_bodies bp) + 2) [] j)"
  have "\<exists>us fin'. mapM ?f [0..<length (ub_bodies bp)] [] = (Ok us, fin')"
  proof (rule mapM_succeeds)
    fix i fin assume i: "i \<in> set [0..<length (ub_bodies bp)]"
    then have "\<exists>fin'. visit bp (length (ub_bodies bp) + 2) [] i fin = (Ok (), fin')"
      using call_rank_le[OF assms(1), of i] by (intro visit_accepts[OF assms(1,2)]) auto
    then show "\<exists>u fin'. ?f i fin = (Ok u, fin')"
      using i assms(3) by (auto simp: bindM_def liftR_def from_index_def simp del: visit.simps)
  qed
  then obtain us fin' where "visit_all bp [] = (Ok us, fin')"
    unfolding visit_all_def by blast
  then show ?thesis by (simp add: validate_process_cycles_def bindR_def)
qed

text \<open>The calls of a code tree: callee name and edge slot.\<close>

fun stmt_calls :: "process_code \<Rightarrow> (rstr \<times> nat) list"
  and code_calls :: "process_code list \<Rightarrow> (rstr \<times> nat) list"
  and branches_calls :: "(expr \<times> process_code list) list \<Rightarrow> (rstr \<times> nat) list"
  and arms_calls :: "(expr option \<times> process_code list) list \<Rightarrow> (rstr \<times> nat) list"
where
  "stmt_calls (CCall name slot) = [(name, slot)]"
| "stmt_calls (CIf bs els) = branches_calls bs @ (case els of Some b \<Rightarrow> code_calls b | None \<Rightarrow> [])"
| "stmt_calls (CSwitch _ arms) = arms_calls arms"
| "stmt_calls (CTry t c) = code_calls t @ code_calls c"
| "stmt_calls _ = []"
| "code_calls [] = []"
| "code_calls (s # ss) = stmt_calls s @ code_calls ss"
| "branches_calls [] = []"
| "branches_calls ((_, b) # bs) = code_calls b @ branches_calls bs"
| "arms_calls [] = []"
| "arms_calls ((_, b) # bs) = code_calls b @ arms_calls bs"

definition call_ok :: "process_body_code \<Rightarrow> rstr \<times> nat \<Rightarrow> bool" where
  "call_ok body c \<longleftrightarrow> snd c < length (pb_edges body) \<and> edge_name (pb_edges body ! snd c) = fst c"

lemma validate_code_iff:
  "validate_process_statement body s = Ok () \<longleftrightarrow> (\<forall>c \<in> set (stmt_calls s). call_ok body c)"
  "validate_process_code body code = Ok () \<longleftrightarrow> (\<forall>c \<in> set (code_calls code). call_ok body c)"
  "validate_process_branches body bs = Ok () \<longleftrightarrow> (\<forall>c \<in> set (branches_calls bs). call_ok body c)"
  "validate_process_arms body arms = Ok () \<longleftrightarrow> (\<forall>c \<in> set (arms_calls arms). call_ok body c)"
  by (induction body s and body code and body bs and body arms rule:
      validate_process_statement_validate_process_code_validate_process_branches_validate_process_arms.induct)
    (auto simp: call_ok_def split: option.splits)

lemma in_enumerate: "i < length xs \<Longrightarrow> (i, xs ! i) \<in> set (enumerate 0 xs)"
  by (simp add: in_set_enumerate_eq)

lemma validate_edgesD:
  assumes "validate_edges bp body = Ok ()"
  shows "\<And>e t. e \<in> set (pb_edges body) \<Longrightarrow> edge_target e = Known t \<Longrightarrow> t < length (ub_bodies bp)"
    and "distinct (map edge_name (pb_edges body))"
proof -
  have all: "(case edge_target (pb_edges body ! i) of Known t \<Rightarrow> t < length (ub_bodies bp) | Unknown \<Rightarrow> True)
      \<and> edge_name (pb_edges body ! i) \<notin> set (map edge_name (take i (pb_edges body)))"
    if "i < length (pb_edges body)" for i
    using bspec[OF assms[unfolded validate_edges_def eachR_Ok] in_enumerate[OF that]] by simp
  show "t < length (ub_bodies bp)" if "e \<in> set (pb_edges body)" "edge_target e = Known t" for e t
    using all that by (auto simp: in_set_conv_nth) fastforce
  show "distinct (map edge_name (pb_edges body))"
    unfolding distinct_conv_nth
  proof (intro allI impI)
    have le: "map edge_name (pb_edges body) ! i \<noteq> map edge_name (pb_edges body) ! j"
      if "i < j" "j < length (pb_edges body)" for i j
    proof -
      have "pb_edges body ! i \<in> set (take j (pb_edges body))"
        using that by (metis in_set_conv_nth length_take min.absorb4 nth_take)
      then have "edge_name (pb_edges body ! i) \<in> set (map edge_name (take j (pb_edges body)))" by simp
      then show ?thesis using all[OF that(2)] that by (metis length_map nth_map order.strict_trans)
    qed
    fix i j assume "i < length (map edge_name (pb_edges body))" "j < length (map edge_name (pb_edges body))" "i \<noteq> j"
    then show "map edge_name (pb_edges body) ! i \<noteq> map edge_name (pb_edges body) ! j"
      using le[of i j] le[of j i] by (metis length_map linorder_neqE_nat)
  qed
qed

lemma sealD:
  assumes "seal bp = Ok bp'"
  shows "bp' = bp" "edges_in_range bp" "acyclic (call_graph bp)"
    and "\<And>body. body \<in> set (ub_bodies bp) \<Longrightarrow> validate_edges bp body = Ok () \<and> validate_process_code body (pb_code body) = Ok ()"
    and "\<And>nm pl. (nm, pl) \<in> set (ub_pipelines bp) \<Longrightarrow> validate_pipeline bp pl = Ok ()"
    and "\<And>nm i. (nm, i) \<in> set (ub_names bp) \<Longrightarrow> i < length (ub_bodies bp) \<and> pb_name (ub_bodies bp ! i) = nm"
proof -
  have v: "validate_process_identity_and_edges bp = Ok ()" and
    p: "eachR (\<lambda>(_, pl). validate_pipeline bp pl) (ub_pipelines bp) = Ok ()" and "bp' = bp"
    using assms by (auto simp: seal_def)
  then show "bp' = bp" by simp
  show b: "validate_edges bp body = Ok () \<and> validate_process_code body (pb_code body) = Ok ()"
    if "body \<in> set (ub_bodies bp)" for body
    using v that by (auto simp: validate_process_identity_and_edges_def)
  show "edges_in_range bp"
    unfolding edges_in_range_def body_calls_def using b validate_edgesD(1) by (fastforce simp: in_set_conv_nth)
  show "acyclic (call_graph bp)"
    using v by (auto simp: validate_process_identity_and_edges_def intro: cycles_ok_acyclic)
  show "validate_pipeline bp pl = Ok ()" if "(nm, pl) \<in> set (ub_pipelines bp)" for nm pl
    using p that by auto
  show "i < length (ub_bodies bp) \<and> pb_name (ub_bodies bp ! i) = nm" if "(nm, i) \<in> set (ub_names bp)" for nm i
    using v that by (auto simp: validate_process_identity_and_edges_def)
qed

text \<open>A metric node of a validated pipeline: its children mirror the edges of its body.\<close>

definition node_ok :: "blueprint \<Rightarrow> pipeline_blueprint \<Rightarrow> nat \<Rightarrow> bool" where
  "node_ok bp pl i \<longleftrightarrow> (let node = bp_nodes pl ! i in mn_step node = Suc i \<and>
     (\<forall>b. mn_target node = Known b \<longrightarrow> b < length (ub_bodies bp)
       \<and> length (mn_children node) = length (pb_edges (ub_bodies bp ! b))
       \<and> (\<forall>s < length (mn_children node). mn_children node ! s < length (bp_nodes pl)
           \<and> mn_parent (bp_nodes pl ! (mn_children node ! s)) = Some i
           \<and> mn_target (bp_nodes pl ! (mn_children node ! s)) = edge_target (pb_edges (ub_bodies bp ! b) ! s)
           \<and> mn_name (bp_nodes pl ! (mn_children node ! s)) = edge_name (pb_edges (ub_bodies bp ! b) ! s))))"

lemma validate_pipeline_node:
  assumes "validate_pipeline bp pl = Ok ()" "i < length (bp_nodes pl)"
  shows "node_ok bp pl i"
proof -
  let ?node = "bp_nodes pl ! i"
  have v: "validate_node bp pl i ?node = Ok ()"
    using assms in_enumerate[OF assms(2)] by (fastforce simp: validate_pipeline_def)
  then have step: "mn_step ?node = Suc i" by (auto simp: validate_node_def split: if_splits)
  have "b < length (ub_bodies bp) \<and> length (mn_children ?node) = length (pb_edges (ub_bodies bp ! b))
      \<and> (\<forall>(e, cid) \<in> set (zip (pb_edges (ub_bodies bp ! b)) (mn_children ?node)). validate_child pl i ?node e cid = Ok ())"
    if "mn_target ?node = Known b" for b
    using v that by (auto simp: validate_node_def from_index_def split: if_splits)
  moreover have "(pb_edges (ub_bodies bp ! b) ! s, mn_children ?node ! s)
      \<in> set (zip (pb_edges (ub_bodies bp ! b)) (mn_children ?node))"
    if "s < length (mn_children ?node)" "length (mn_children ?node) = length (pb_edges (ub_bodies bp ! b))" for s b
    using that by (metis length_zip min.idem nth_mem nth_zip)
  ultimately show ?thesis
    using step unfolding node_ok_def Let_def validate_child_def by fastforce
qed

lemma validate_sites:
  "validate_pipeline_code bp pl (LProcessChain sites # code) = Ok () \<Longrightarrow> site \<in> set sites \<Longrightarrow>
   site_node site < length (bp_nodes pl) \<and> mn_target (bp_nodes pl ! site_node site) = Known (site_body site)
   \<and> mn_name (bp_nodes pl ! site_node site) = site_name site"
  by (fastforce simp: validate_site_def)

end
