(* ===== verification/Exec.thy ===== *)
theory Exec
  imports Blueprint "HOL-Library.Word"
begin

section \<open>Pipeline execution\<close>

text \<open>
  The executor of a sealed blueprint (\<open>pipeline/execution.rs\<close>) and the assignment helpers
  (\<open>dsl/exec.rs\<close>). What a run reads is a record of environment fields; what it changes is a record
  of state: the world behind the built-in functions, the counters of the metric nodes, the events
  handed to taps, the observations of output timers, and the accumulators of the run.

  The executor and the evaluator share one stack: a call with \<open>n\<close> frames left evaluates
  expressions and runs nested code with \<open>n - 1\<close>.
\<close>

subsection \<open>Assignment\<close>

text \<open>\<open>set_object_path\<close>: every entry of the key is rewritten, a missing key is appended.\<close>

definition object_entries :: "val option \<Rightarrow> obj" where
  "object_entries cur = (case cur of Some (VObject es) \<Rightarrow> es | _ \<Rightarrow> [])"

fun set_object_path :: "val option \<Rightarrow> rstr list \<Rightarrow> val \<Rightarrow> val" where
  "set_object_path cur [] v = v"
| "set_object_path cur (p # ps) v =
     (let es = object_entries cur;
          placed = map (\<lambda>(k, old). if k = p then (k, set_object_path (Some old) ps v) else (k, old)) es
      in VObject (if p \<in> set (map fst es) then placed else placed @ [(p, set_object_path None ps v)]))"

text \<open>\<open>set_workspace_path\<close>; indexing an empty path panics.\<close>

definition set_workspace_path :: "rstr list \<Rightarrow> val \<Rightarrow> borrowed_event \<Rightarrow> borrowed_event res" where
  "set_workspace_path path v ev = (case path of
     [] \<Rightarrow> Crash
   | [p] \<Rightarrow> Ok (workspace_set_str p v ev)
   | p # ps \<Rightarrow> Ok (workspace_set_str p (set_object_path (workspace_get ev p) ps v) ev))"

definition apply_assign :: "(int \<Rightarrow> string) \<Rightarrow> assign_target \<Rightarrow> val \<Rightarrow> borrowed_event \<Rightarrow> borrowed_event res" where
  "apply_assign rfc target v ev = (case target of
     Egress \<Rightarrow> Ok (ev\<lparr>be_egress := (case v of VBytes b \<Rightarrow> b | VString s \<Rightarrow> s | _ \<Rightarrow> value_to_string rfc v)\<rparr>)
   | Workspace path \<Rightarrow> set_workspace_path path v ev)"

subsection \<open>What a run produces\<close>

datatype pipeline_termination = Finished | Dropped | Errored

record trace_entry =
  te_stage :: string
  te_label :: string
  te_detail :: string

record process_event =
  pe_key :: uuid
  pe_source :: sock_addr
  pe_received_at :: int
  pe_ingress :: bytes
  pe_ltp_stamps :: "hop_stamp list option"

record output_event =
  ov_key :: uuid
  ov_source :: sock_addr
  ov_received_at :: int
  ov_ingress :: bytes
  ov_egress :: bytes
  ov_ltp_stamps :: "hop_stamp list option"

definition process_event_from_owned :: "owned_event \<Rightarrow> process_event" where
  "process_event_from_owned ev =
     \<lparr>pe_key = oe_key ev, pe_source = oe_source ev, pe_received_at = oe_received_at ev,
      pe_ingress = oe_ingress ev, pe_ltp_stamps = oe_ltp_stamps ev\<rparr>"

definition output_event_from_owned :: "owned_event \<Rightarrow> output_event" where
  "output_event_from_owned ev =
     \<lparr>ov_key = oe_key ev, ov_source = oe_source ev, ov_received_at = oe_received_at ev,
      ov_ingress = oe_ingress ev, ov_egress = oe_egress ev, ov_ltp_stamps = oe_ltp_stamps ev\<rparr>"

datatype errored_ctx =
    EProcess (ctx_timestamp: int) (ctx_pipeline: rstr) (ctx_site: rstr) (ctx_reason: string)
      process_event
  | EOutput (ctx_timestamp: int) (ctx_pipeline: rstr) (ctx_site: rstr) (ctx_reason: string)
      rstr output_event

fun payload_size_hint :: "errored_ctx \<Rightarrow> nat" where
  "payload_size_hint (EProcess _ _ _ _ ev) = length (pe_ingress ev)"
| "payload_size_hint (EOutput _ _ _ _ _ ev) = length (ov_egress ev)"

datatype capture_policy = StripAll | CaptureAll | DiskOnly "rstr list"

fun should_capture_workspace :: "capture_policy \<Rightarrow> rstr \<Rightarrow> bool" where
  "should_capture_workspace StripAll name = False"
| "should_capture_workspace CaptureAll name = True"
| "should_capture_workspace (DiskOnly disk) name = (name \<in> set disk)"

subsection \<open>State and environment\<close>

text \<open>\<open>ProcessCounters\<close>: 64-bit counters with wrap-around.\<close>

record process_counters =
  pc_in :: "64 word"
  pc_out :: "64 word"
  pc_dropped :: "64 word"
  pc_errored :: "64 word"

definition pc_start :: "process_counters \<Rightarrow> process_counters" where
  "pc_start c = c\<lparr>pc_in := pc_in c + 1\<rparr>"

definition pc_continued :: "process_counters \<Rightarrow> process_counters" where
  "pc_continued c = c\<lparr>pc_out := pc_out c + 1\<rparr>"

definition pc_drop :: "process_counters \<Rightarrow> process_counters" where
  "pc_drop c = c\<lparr>pc_dropped := pc_dropped c + 1\<rparr>"

definition pc_error :: "process_counters \<Rightarrow> process_counters" where
  "pc_error c = c\<lparr>pc_errored := pc_errored c + 1\<rparr>"

record 'w xstate =
  x_world :: 'w
  x_counters :: "process_counters list"
  x_taps :: "(string \<times> owned_event) list"
  x_timers :: "(int \<times> int) list list"
  x_trace :: "trace_entry list option"
  x_outputs :: "(rstr \<times> queued_event) list"
  x_errored :: "errored_ctx list"

record 'w xenv =
  xe_bp :: blueprint
  xe_pl :: pipeline_blueprint
  xe_funcs :: "'w registry"
  xe_tap :: "(string \<Rightarrow> 'w \<Rightarrow> bool) option"
  xe_now :: "'w \<Rightarrow> int \<times> 'w"
  xe_policy :: capture_policy
  xe_original :: owned_event
  xe_dispatch :: int

definition liftW :: "('w, 'a) M \<Rightarrow> ('w xstate, 'a) M" where
  "liftW m = (\<lambda>x. case m (x_world x) of (r, w) \<Rightarrow> (r, x\<lparr>x_world := w\<rparr>))"

definition modify :: "('s \<Rightarrow> 's) \<Rightarrow> ('s, unit) M" where
  "modify f = (\<lambda>s. (Ok (), f s))"

definition clock :: "'w xenv \<Rightarrow> ('w xstate, int) M" where
  "clock env = liftW (\<lambda>w. case xe_now env w of (t, w') \<Rightarrow> (Ok t, w'))"

definition bump_counter :: "(process_counters \<Rightarrow> process_counters) \<Rightarrow> nat \<Rightarrow> 'w xstate \<Rightarrow> 'w xstate" where
  "bump_counter f i x = x\<lparr>x_counters := (x_counters x)[i := f (x_counters x ! i)]\<rparr>"

definition push_trace :: "string \<Rightarrow> string \<Rightarrow> string \<Rightarrow> ('w xstate, unit) M" where
  "push_trace stage label detail = modify (\<lambda>x.
     x\<lparr>x_trace := map_option (\<lambda>t. t @ [\<lparr>te_stage = stage, te_label = label, te_detail = detail\<rparr>]) (x_trace x)\<rparr>)"

definition push_errored :: "errored_ctx \<Rightarrow> ('w xstate, unit) M" where
  "push_errored c = modify (\<lambda>x. x\<lparr>x_errored := x_errored x @ [c]\<rparr>)"

text \<open>\<open>emit_tap\<close>: only when the tap point has a subscriber.\<close>

definition emit_tap :: "'w xenv \<Rightarrow> rstr \<Rightarrow> borrowed_event \<Rightarrow> ('w xstate, unit) M" where
  "emit_tap env name ev = modify (\<lambda>x. (case xe_tap env of
     None \<Rightarrow> x
   | Some subscribed \<Rightarrow> (let key = ''process '' @ name in
       if subscribed key (x_world x) then x\<lparr>x_taps := x_taps x @ [(key, event_to_owned ev)]\<rparr> else x)))"

text \<open>\<open>match\<close> on a \<open>Result\<close>: both outcomes are handled; a crash is not.\<close>

definition attempt :: "('s, 'a) M \<Rightarrow> ('a \<Rightarrow> ('s, 'b) M) \<Rightarrow> (string \<Rightarrow> ('s, 'b) M) \<Rightarrow> ('s, 'b) M" where
  "attempt m k h = (\<lambda>s. case m s of
     (Ok x, s') \<Rightarrow> k x s' | (Err e, s') \<Rightarrow> h e s' | (Crash, s') \<Rightarrow> (Crash, s'))"

subsection \<open>Processes\<close>

datatype exec_result = Continue borrowed_event | XDropped

type_synonym 'w exec_fn =
  "process_code list \<Rightarrow> nat \<Rightarrow> borrowed_event \<Rightarrow> scope \<Rightarrow> ('w xstate, exec_result \<times> scope) M"

definition failed :: "string \<Rightarrow> string" where
  "failed m = ''process failed: '' @ m"

text \<open>The outcome of a call whose body returned: the counter, and the tap of a named process.\<close>

definition finish_call :: "'w xenv \<Rightarrow> rstr \<Rightarrow> nat \<Rightarrow> site_kind \<Rightarrow> exec_result \<Rightarrow> ('w xstate, borrowed_event option) M" where
  "finish_call env name nid kind r = (case r of
     Continue ev \<Rightarrow> bindM (modify (bump_counter pc_continued nid)) (\<lambda>_.
       bindM (if kind = KNamed then emit_tap env name ev else ret ()) (\<lambda>_. ret (Some ev)))
   | XDropped \<Rightarrow> bindM (modify (bump_counter pc_drop nid)) (\<lambda>_. ret None))"

text \<open>
  \<open>IrProcessRegistry::call\<close>. Errors are the message inside \<open>ProcessError::Failed\<close>; the callers that
  print the error add its prefix.
\<close>

definition ir_call :: "'w xenv \<Rightarrow> 'w exec_fn \<Rightarrow> process_target \<Rightarrow> rstr \<Rightarrow> nat \<Rightarrow> borrowed_event \<Rightarrow> site_kind \<Rightarrow>
    ('w xstate, borrowed_event option) M" where
  "ir_call env rec target name nid ev kind =
     bindM (liftR (get_or (bp_nodes (xe_pl env)) nid ''metric node id is out of range'')) (\<lambda>node.
     bindM (liftR (ensure (mn_target node = target) ''process body and metric node identity mismatch'')) (\<lambda>_.
     bindM (\<lambda>x. (if nid < length (x_counters x) then Ok () else Err ''process counter id is out of range'', x)) (\<lambda>_.
     bindM (modify (bump_counter pc_start nid)) (\<lambda>_.
     bindM (case target of
         Known b \<Rightarrow> bindM (liftR (get_or (ub_bodies (xe_bp env)) b ''process body id is out of range'')) (\<lambda>body. ret (Some body))
       | Unknown \<Rightarrow> ret None) (\<lambda>body.
     attempt (case body of
         Some b \<Rightarrow> bindM (rec (pb_code b) nid ev Map.empty) (\<lambda>(r, _). ret r)
       | None \<Rightarrow> ret (Continue ev))
       (finish_call env name nid kind)
       (\<lambda>e. bindM (modify (bump_counter pc_error nid)) (\<lambda>_. fail e)))))))"

text \<open>Choosing the branch of an \<open>if\<close> chain and the arm of a \<open>switch\<close>.\<close>

fun select_branch :: "(expr \<Rightarrow> ('s, val) M) \<Rightarrow> (expr \<times> 'b) list \<Rightarrow> 'b option \<Rightarrow> ('s, 'b option) M" where
  "select_branch ev [] els = ret els"
| "select_branch ev ((c, b) # bs) els =
     bindM (ev c) (\<lambda>v. if is_truthy v then ret (Some b) else select_branch ev bs els)"

fun select_arm :: "(expr \<Rightarrow> ('s, val) M) \<Rightarrow> val \<Rightarrow> (expr option \<times> 'b) list \<Rightarrow> ('s, 'b option) M" where
  "select_arm ev v [] = ret None"
| "select_arm ev v ((None, b) # arms) = ret (Some b)"
| "select_arm ev v ((Some p, b) # arms) =
     bindM (ev p) (\<lambda>pv. if values_match v pv then ret (Some b) else select_arm ev v arms)"

definition error_message :: "'w xenv \<Rightarrow> (expr \<Rightarrow> ('w xstate, val) M) \<Rightarrow> expr option \<Rightarrow> ('w xstate, string) M" where
  "error_message env ev e = (case e of
     Some x \<Rightarrow> bindM (ev x) (\<lambda>v. ret (value_to_string (to_rfc3339 (xe_funcs env)) v))
   | None \<Rightarrow> ret ''explicit error routing'')"

text \<open>The call statement: the edge and the child node of the current node.\<close>

definition exec_call :: "'w xenv \<Rightarrow> 'w exec_fn \<Rightarrow> rstr \<Rightarrow> nat \<Rightarrow> nat \<Rightarrow> borrowed_event \<Rightarrow>
    ('w xstate, borrowed_event option) M" where
  "exec_call env rec name slot nid ev =
     bindM (liftR (get_or (bp_nodes (xe_pl env)) nid ''metric node id is out of range'')) (\<lambda>node.
     bindM (case mn_target node of Known b \<Rightarrow> ret b
            | Unknown \<Rightarrow> fail ''unknown process metric node cannot execute a process body'') (\<lambda>cur.
     bindM (liftR (get_or (ub_bodies (xe_bp env)) cur ''process body id is out of range'')) (\<lambda>body.
     bindM (liftR (get_or (pb_edges body) slot ''process edge slot is out of range'')) (\<lambda>e.
     bindM (liftR (ensure (edge_name e = name) ''process edge identity mismatch'')) (\<lambda>_.
     bindM (liftR (get_or (mn_children node) slot ''metric child slot is out of range'')) (\<lambda>child.
     attempt (ir_call env rec (edge_target e) (edge_name e) child ev KNamed) ret (\<lambda>m. fail (failed m))))))))"

text \<open>Running an optional nested body; without one the statement is a no-op.\<close>

definition exec_body_opt :: "'w exec_fn \<Rightarrow> process_code list option \<Rightarrow> nat \<Rightarrow> borrowed_event \<Rightarrow> scope \<Rightarrow>
    ('w xstate, exec_result \<times> scope) M" where
  "exec_body_opt rec body nid ev sc = (case body of
     Some b \<Rightarrow> rec b nid ev sc | None \<Rightarrow> ret (Continue ev, sc))"

text \<open>\<open>try\<close>/\<open>catch\<close>: the catch body starts from the event and scope before the try body.\<close>

definition exec_try :: "'w exec_fn \<Rightarrow> process_code list \<Rightarrow> process_code list \<Rightarrow> nat \<Rightarrow> borrowed_event \<Rightarrow> scope \<Rightarrow>
    ('w xstate, exec_result \<times> scope) M" where
  "exec_try rec t c nid ev sc =
     attempt (rec t nid ev sc) ret (\<lambda>e.
       bindM (rec c nid (workspace_set_str ''_error'' (VString e) (snapshot_in ev)) sc) (\<lambda>(r, sc').
       case r of
         Continue ev' \<Rightarrow> ret (Continue (snd (workspace_remove ''_error'' ev')), sc')
       | XDropped \<Rightarrow> ret (XDropped, sc')))"

text \<open>A bare expression merges an object into the workspace.\<close>

definition merge_result :: "val \<Rightarrow> borrowed_event \<Rightarrow> borrowed_event res" where
  "merge_result v ev = (case v of
     VObject es \<Rightarrow> Ok (fold (\<lambda>(k, x). workspace_set k x) es ev)
   | VNull \<Rightarrow> Ok ev
   | _ \<Rightarrow> Err (''bare expression statement must return Object or Null; got '' @ type_name v))"

fun exec_stmt :: "'w xenv \<Rightarrow> nat \<Rightarrow> 'w exec_fn \<Rightarrow> process_code \<Rightarrow> nat \<Rightarrow> borrowed_event \<Rightarrow> scope \<Rightarrow>
    ('w xstate, exec_result \<times> scope) M" where
  "exec_stmt env n rec (CAssign target e) nid ev sc =
     bindM (liftW (eval_expr_with_scope (xe_funcs env) ev n e sc)) (\<lambda>v.
     bindM (liftR (apply_assign (to_rfc3339 (xe_funcs env)) target v ev)) (\<lambda>ev'. ret (Continue ev', sc)))"
| "exec_stmt env n rec (CLet x e) nid ev sc =
     bindM (liftW (eval_expr_with_scope (xe_funcs env) ev n e sc)) (\<lambda>v. ret (Continue ev, scope_bind x v sc))"
| "exec_stmt env n rec (CCall name slot) nid ev sc =
     bindM (exec_call env rec name slot nid ev) (\<lambda>r. case r of
       Some ev' \<Rightarrow> ret (Continue ev', sc) | None \<Rightarrow> ret (XDropped, sc))"
| "exec_stmt env n rec CDrop nid ev sc = ret (XDropped, sc)"
| "exec_stmt env n rec (CError e) nid ev sc =
     bindM (error_message env (\<lambda>x. liftW (eval_expr_with_scope (xe_funcs env) ev n x sc)) e) fail"
| "exec_stmt env n rec (CIf branches els) nid ev sc =
     bindM (select_branch (\<lambda>c. liftW (eval_expr_with_scope (xe_funcs env) ev n c sc)) branches els) (\<lambda>b.
     exec_body_opt rec b nid ev sc)"
| "exec_stmt env n rec (CSwitch d arms) nid ev sc =
     bindM (liftW (eval_expr_with_scope (xe_funcs env) ev n d sc)) (\<lambda>v.
     bindM (select_arm (\<lambda>c. liftW (eval_expr_with_scope (xe_funcs env) ev n c sc)) v arms) (\<lambda>b.
     exec_body_opt rec b nid ev sc))"
| "exec_stmt env n rec (CTry t c) nid ev sc = exec_try rec t c nid ev sc"
| "exec_stmt env n rec (CExpr e) nid ev sc =
     bindM (liftW (eval_expr_with_scope (xe_funcs env) ev n e sc)) (\<lambda>v.
     bindM (liftR (merge_result v ev)) (\<lambda>ev'. ret (Continue ev', sc)))"

fun exec_stmts :: "'w xenv \<Rightarrow> nat \<Rightarrow> 'w exec_fn \<Rightarrow> 'w exec_fn" where
  "exec_stmts env n rec [] nid ev sc = ret (Continue ev, sc)"
| "exec_stmts env n rec (s # ss) nid ev sc =
     bindM (exec_stmt env n rec s nid ev sc) (\<lambda>(r, sc'). case r of
       Continue ev' \<Rightarrow> exec_stmts env n rec ss nid ev' sc'
     | XDropped \<Rightarrow> ret (XDropped, sc'))"

primrec exec_ir_process_code :: "'w xenv \<Rightarrow> nat \<Rightarrow> 'w exec_fn" where
  "exec_ir_process_code env 0 = (\<lambda>code nid ev sc. crash)"
| "exec_ir_process_code env (Suc n) = exec_stmts env n (exec_ir_process_code env n)"

subsection \<open>Pipelines\<close>

definition process_failure :: "'w xenv \<Rightarrow> rstr \<Rightarrow> string \<Rightarrow> ('w xstate, unit) M" where
  "process_failure env site reason =
     bindM (clock env) (\<lambda>t. push_errored
       (EProcess t (bp_name (xe_pl env)) site reason (process_event_from_owned (xe_original env))))"

text \<open>
  A process chain. \<open>Inl t\<close> ends the pipeline with termination \<open>t\<close>, \<open>Inr ev\<close> continues. A failed
  process is recorded for the dead-letter queue; an inline one without the error's prefix.
\<close>

type_synonym step_result = "pipeline_termination + borrowed_event"

fun exec_sites :: "'w xenv \<Rightarrow> 'w exec_fn \<Rightarrow> process_site list \<Rightarrow> borrowed_event \<Rightarrow> ('w xstate, step_result) M" where
  "exec_sites env prec [] ev = ret (Inr ev)"
| "exec_sites env prec (site # sites) ev =
     attempt (ir_call env prec (Known (site_body site)) (site_name site) (site_node site) ev (site_kind site))
       (\<lambda>r. case r of
          Some ev' \<Rightarrow> bindM (push_trace ''process'' (site_name site) ''ok'') (\<lambda>_. exec_sites env prec sites ev')
        | None \<Rightarrow> bindM (push_trace ''process'' (site_name site) ''dropped'') (\<lambda>_. ret (Inl Dropped)))
       (\<lambda>m. let reason = (case site_kind site of KNamed \<Rightarrow> failed m | KInline \<Rightarrow> m) in
         bindM (push_trace ''process'' (site_name site)
                  (''error: '' @ reason @ '' (event '' @ right_arrow @ '' error_log)'')) (\<lambda>_.
         bindM (process_failure env (site_name site) reason) (\<lambda>_. ret (Inl Errored))))"

definition exec_output :: "'w xenv \<Rightarrow> rstr \<Rightarrow> nat \<Rightarrow> borrowed_event \<Rightarrow> ('w xstate, unit) M" where
  "exec_output env name slot ev =
     bindM (push_trace ''output'' (right_arrow @ '' '' @ name) []) (\<lambda>_.
     let snapshot = (if should_capture_workspace (xe_policy env) name then event_to_owned ev
                     else to_owned_without_workspace ev) in
     bindM (clock env) (\<lambda>t.
     bindM (\<lambda>x. if slot < length (x_timers x)
               then (Ok (), x\<lparr>x_timers := (x_timers x)[slot := x_timers x ! slot @ [(xe_dispatch env, t)]]\<rparr>)
               else (Err ''output timer slot is out of range'', x)) (\<lambda>_.
     modify (\<lambda>x. x\<lparr>x_outputs := x_outputs x @ [(name, \<lparr>qe_event = snapshot, qe_emitted_ns = t\<rparr>)]\<rparr>))))"

type_synonym 'w pipe_fn = "pipeline_code list \<Rightarrow> borrowed_event \<Rightarrow>
  ('w xstate, borrowed_event option \<times> pipeline_termination) M"

definition exec_branch_opt :: "'w pipe_fn \<Rightarrow> pipeline_code list option \<Rightarrow> borrowed_event \<Rightarrow> ('w xstate, step_result) M" where
  "exec_branch_opt rec body ev = (case body of
     None \<Rightarrow> ret (Inr ev)
   | Some b \<Rightarrow> bindM (rec b ev) (\<lambda>(r, t). ret (case r of Some ev' \<Rightarrow> Inr ev' | None \<Rightarrow> Inl t)))"

fun exec_pipe_stmt :: "'w xenv \<Rightarrow> nat \<Rightarrow> 'w pipe_fn \<Rightarrow> pipeline_code \<Rightarrow> borrowed_event \<Rightarrow> ('w xstate, step_result) M" where
  "exec_pipe_stmt env n rec (LInput _) ev = ret (Inr ev)"
| "exec_pipe_stmt env n rec (LProcessChain sites) ev = exec_sites env (exec_ir_process_code env n) sites ev"
| "exec_pipe_stmt env n rec (LOutput name slot) ev = bindM (exec_output env name slot ev) (\<lambda>_. ret (Inr ev))"
| "exec_pipe_stmt env n rec LDrop ev = bindM (push_trace ''drop'' [] []) (\<lambda>_. ret (Inl Dropped))"
| "exec_pipe_stmt env n rec LFinish ev = bindM (push_trace ''finish'' [] []) (\<lambda>_. ret (Inl Finished))"
| "exec_pipe_stmt env n rec (LError e) ev =
     bindM (error_message env (\<lambda>x. liftW (eval_expr (xe_funcs env) ev n x)) e) (\<lambda>m.
     bindM (push_trace ''error'' m (''event '' @ right_arrow @ '' error_log'')) (\<lambda>_.
     bindM (process_failure env ''(pipeline)'' m) (\<lambda>_. ret (Inl Errored))))"
| "exec_pipe_stmt env n rec (LIf branches els) ev =
     bindM (select_branch (\<lambda>c. liftW (eval_expr (xe_funcs env) ev n c)) branches els) (\<lambda>b.
     exec_branch_opt rec b ev)"
| "exec_pipe_stmt env n rec (LSwitch d arms) ev =
     bindM (liftW (eval_expr (xe_funcs env) ev n d)) (\<lambda>v.
     bindM (select_arm (\<lambda>c. liftW (eval_expr (xe_funcs env) ev n c)) v arms) (\<lambda>b. exec_branch_opt rec b ev))"

fun exec_pipe_stmts :: "'w xenv \<Rightarrow> nat \<Rightarrow> 'w pipe_fn \<Rightarrow> 'w pipe_fn" where
  "exec_pipe_stmts env n rec [] ev = ret (Some ev, Finished)"
| "exec_pipe_stmts env n rec (s # ss) ev =
     bindM (exec_pipe_stmt env n rec s ev) (\<lambda>r. case r of
       Inr ev' \<Rightarrow> exec_pipe_stmts env n rec ss ev' | Inl t \<Rightarrow> ret (None, t))"

primrec exec_ir_pipeline_body :: "'w xenv \<Rightarrow> nat \<Rightarrow> 'w pipe_fn" where
  "exec_ir_pipeline_body env 0 = (\<lambda>code ev. crash)"
| "exec_ir_pipeline_body env (Suc n) = exec_pipe_stmts env n (exec_ir_pipeline_body env n)"

subsection \<open>Runs\<close>

text \<open>\<open>BoundPipelineMetrics\<close>: the counters and timers registered for a pipeline at start.\<close>

record bound_metrics =
  bm_counters :: "process_counters list"
  bm_timers :: "(int \<times> int) list list"

definition bound_execution_new :: "pipeline_blueprint \<Rightarrow> bound_metrics \<Rightarrow> (pipeline_blueprint \<times> bound_metrics) res" where
  "bound_execution_new pl m =
     (if length (bm_counters m) \<noteq> length (bp_nodes pl) \<or> length (bm_timers m) \<noteq> length (bp_timers pl)
      then Err (pipeline_err pl ''metric binding shape mismatch'') else Ok (pl, m))"

record run_result =
  rr_outputs :: "(rstr \<times> queued_event) list"
  rr_had_outputs :: bool
  rr_termination :: pipeline_termination
  rr_errored :: "errored_ctx list"

text \<open>
  \<open>run_pipeline_blueprint_resolved_at\<close>. The run's accumulators start empty; the caller's trace, the
  world, the metrics and the taps go on. The result is read off at the end.
\<close>

definition run_pipeline :: "'w xenv \<Rightarrow> nat \<Rightarrow> ('w xstate, run_result) M" where
  "run_pipeline env n =
     bindM (push_trace ''input'' [] (''ingress: '' @ from_utf8_lossy (oe_ingress (xe_original env)))) (\<lambda>_.
     bindM (modify (\<lambda>x. x\<lparr>x_outputs := [], x_errored := []\<rparr>)) (\<lambda>_.
     bindM (exec_ir_pipeline_body env n (bp_code (xe_pl env)) (event_view_in (xe_original env))) (\<lambda>(_, t).
     (\<lambda>x. (Ok \<lparr>rr_outputs = x_outputs x, rr_had_outputs = (x_outputs x \<noteq> []), rr_termination = t,
                rr_errored = x_errored x\<rparr>, x)))))"

end
