(* ===== verification/DiskQueue.thy ===== *)
theory DiskQueue
  imports F64
begin

section \<open>The disk queue\<close>

text \<open>
  The write-ahead log behind a disk-backed output (\<open>queue/disk.rs\<close>). The directory is a listing of
  segments (sequence number and content) and the content of the cursor file. A write runs under the
  mutex of the queue from beginning to end. The receiver reads the segment files without the mutex and
  takes it only to look at the state of the writer, so a read is a sequence of steps (\<open>read_step\<close>)
  between which the writer may write; \<open>try_read_next\<close> is the read in which it does not, and
  \<open>DiskQueue_Race\<close> has the reads in which it does. Failures of the file system are arguments: the fault
  a write meets, what a look at a segment file finds, the segments that cannot be removed,
  whether the cursor file could be replaced. The serialization of a record is an argument of the
  operations; the reader's is a function from a whole line to a record.
\<close>

subsection \<open>Directory, shared state, receiver\<close>

definition segment_max_bytes :: nat where
  "segment_max_bytes = 16 * 1024 * 1024"

definition newline :: char where "newline = CHR 0x0A"

record in_flight =
  if_start_seq :: nat
  if_start_offset :: nat
  if_end_seq :: nat
  if_end_offset :: nat
  if_acked :: bool

record wal_dir =
  wd_segments :: "(nat \<times> bytes) list"
  wd_cursor :: "bytes option"

record dq_state =
  dq_max_size :: nat
  dq_write_seq :: nat
  dq_write_open :: bool
  dq_write_size :: nat
  dq_read_seq :: nat
  dq_acked_seq :: nat

record dq_receiver =
  rx_read_seq :: nat
  rx_read_offset :: nat
  rx_acked_seq :: nat
  rx_acked_offset :: nat
  rx_in_flight :: "in_flight list"

record disk_queue =
  q_dir :: wal_dir
  q_state :: dq_state
  q_rx :: dq_receiver
  q_closed :: bool

subsection \<open>Cursor file\<close>

definition cursor_text :: "nat \<Rightarrow> nat \<Rightarrow> bytes" where
  "cursor_text seq off = nat_digits seq @ '':'' @ nat_digits off"

text \<open>\<open>save_cursor\<close>: write a temporary file and rename it; on failure the old cursor stays.\<close>

definition save_cursor :: "bool \<Rightarrow> nat \<Rightarrow> nat \<Rightarrow> wal_dir \<Rightarrow> wal_dir" where
  "save_cursor saved seq off dir = (if saved then dir\<lparr>wd_cursor := Some (cursor_text seq off)\<rparr> else dir)"

text \<open>\<open>u64::from_str\<close> behind \<open>unwrap_or(0)\<close>; \<open>trim\<close> on ASCII white space.\<close>

definition parse_u64 :: "string \<Rightarrow> nat" where
  "parse_u64 s =
     (let ds = (case s of c # cs \<Rightarrow> if c = CHR ''+'' then cs else s | [] \<Rightarrow> [])
      in if ds \<noteq> [] \<and> list_all is_digit ds \<and> digits_val ds < 2 ^ 64 then digits_val ds else 0)"

definition is_space :: "char \<Rightarrow> bool" where
  "is_space c \<longleftrightarrow> (of_char c :: nat) \<in> {9, 10, 11, 12, 13, 32}"

definition trim :: "string \<Rightarrow> string" where
  "trim s = rev (dropWhile is_space (rev (dropWhile is_space s)))"

definition load_cursor :: "wal_dir \<Rightarrow> nat \<times> nat" where
  "load_cursor dir = (case wd_cursor dir of
     None \<Rightarrow> (0, 0)
   | Some content \<Rightarrow> (case split_on (CHR '':'') (trim content) of
       [a, b] \<Rightarrow> (parse_u64 a, parse_u64 b) | _ \<Rightarrow> (0, 0)))"

subsection \<open>Opening\<close>

definition recover_state :: "wal_dir \<Rightarrow> nat \<times> nat \<times> nat" where
  "recover_state dir = (fold max (map fst (wd_segments dir)) 0, load_cursor dir)"

definition create_disk_queue :: "nat \<Rightarrow> wal_dir \<Rightarrow> disk_queue" where
  "create_disk_queue max_size dir = (case recover_state dir of (write_seq, read_seq, read_offset) \<Rightarrow>
     \<lparr>q_dir = dir,
      q_state = \<lparr>dq_max_size = max_size, dq_write_seq = write_seq, dq_write_open = False, dq_write_size = 0,
                 dq_read_seq = read_seq, dq_acked_seq = read_seq\<rparr>,
      q_rx = \<lparr>rx_read_seq = read_seq, rx_read_offset = read_offset, rx_acked_seq = read_seq,
              rx_acked_offset = read_offset, rx_in_flight = []\<rparr>,
      q_closed = False\<rparr>)"

subsection \<open>Writing\<close>

text \<open>\<open>enforce_max_size\<close>: oldest first, only below the acknowledged segment, until under the limit.\<close>

fun enforce_loop :: "(nat \<Rightarrow> bool) \<Rightarrow> nat \<Rightarrow> nat \<Rightarrow> nat \<Rightarrow> (nat \<times> nat) list \<Rightarrow> (nat \<times> bytes) list \<Rightarrow> (nat \<times> bytes) list" where
  "enforce_loop stuck max_size acked tot [] segs = segs"
| "enforce_loop stuck max_size acked tot ((seq, sz) # rest) segs =
     (if tot \<le> max_size \<or> acked \<le> seq then segs
      else if stuck seq then enforce_loop stuck max_size acked tot rest segs
      else enforce_loop stuck max_size acked (tot - sz) rest (al_remove seq segs))"

definition enforce_max_size :: "(nat \<Rightarrow> bool) \<Rightarrow> nat \<Rightarrow> nat \<Rightarrow> (nat \<times> bytes) list \<Rightarrow> (nat \<times> bytes) list" where
  "enforce_max_size stuck max_size acked segs =
     (if max_size = 0 then segs
      else let sizes = map (\<lambda>(s, c). (s, length c)) segs; tot = sum_list (map snd sizes)
           in if tot \<le> max_size then segs
              else enforce_loop stuck max_size acked tot (sort_key fst sizes) segs)"

datatype write_fault = NoFault | InspectFault | OpenFault | WriteFault nat | FlushFault

text \<open>
  The first part of \<open>write_to_segment\<close>: a recovered segment is never appended to behind an
  unterminated tail. \<open>None\<close> is a failed inspection.
\<close>

definition inspect_tail :: "write_fault \<Rightarrow> (nat \<times> bytes) list \<Rightarrow> dq_state \<Rightarrow> dq_state option" where
  "inspect_tail fault segs st =
     (if dq_write_open st then Some st
      else if fault = InspectFault then None
      else case map_of segs (dq_write_seq st) of
        None \<Rightarrow> Some (st\<lparr>dq_write_size := 0\<rparr>)
      | Some c \<Rightarrow>
          if c = [] then Some (st\<lparr>dq_write_size := 0\<rparr>)
          else if last c = newline then Some (st\<lparr>dq_write_size := length c\<rparr>)
          else Some (st\<lparr>dq_write_seq := Suc (dq_write_seq st), dq_write_size := 0\<rparr>))"

definition rotate :: "nat \<Rightarrow> dq_state \<Rightarrow> dq_state" where
  "rotate len st =
     (if segment_max_bytes < dq_write_size st + len + 1
      then st\<lparr>dq_write_open := False, dq_write_seq := Suc (dq_write_seq st), dq_write_size := 0\<rparr> else st)"

definition seg :: "(nat \<times> bytes) list \<Rightarrow> nat \<Rightarrow> bytes" where
  "seg segs s = (case map_of segs s of Some c \<Rightarrow> c | None \<Rightarrow> [])"

definition append_segment :: "nat \<Rightarrow> bytes \<Rightarrow> (nat \<times> bytes) list \<Rightarrow> (nat \<times> bytes) list" where
  "append_segment s b segs = al_set s (seg segs s @ b) segs"

text \<open>Opening in append mode creates a missing file; the size is read again.\<close>

definition open_segment :: "dq_state \<Rightarrow> (nat \<times> bytes) list \<Rightarrow> dq_state \<times> (nat \<times> bytes) list" where
  "open_segment st segs =
     (if dq_write_open st then (st, segs)
      else (st\<lparr>dq_write_open := True, dq_write_size := length (seg segs (dq_write_seq st))\<rparr>,
            append_segment (dq_write_seq st) [] segs))"

definition write_to_segment :: "write_fault \<Rightarrow> (nat \<Rightarrow> bool) \<Rightarrow> bytes \<Rightarrow> dq_state \<Rightarrow> (nat \<times> bytes) list \<Rightarrow>
    bool \<times> dq_state \<times> (nat \<times> bytes) list" where
  "write_to_segment fault stuck data st segs =
     (case inspect_tail fault segs st of
        None \<Rightarrow> (False, st, segs)
      | Some st1 \<Rightarrow>
          (let st2 = rotate (length data) st1 in
           if \<not> dq_write_open st2 \<and> fault = OpenFault then (False, st2, segs)
           else case open_segment st2 segs of (st3, segs3) \<Rightarrow>
             (let buf = data @ [newline]; s = dq_write_seq st3 in
              case fault of
                WriteFault k \<Rightarrow> (False, st3\<lparr>dq_write_open := False\<rparr>, append_segment s (take k buf) segs3)
              | FlushFault \<Rightarrow> (False, st3\<lparr>dq_write_open := False\<rparr>, append_segment s buf segs3)
              | _ \<Rightarrow> (True, st3\<lparr>dq_write_size := dq_write_size st3 + length buf\<rparr>,
                     enforce_max_size stuck (dq_max_size st3) (dq_acked_seq st3) (append_segment s buf segs3)))))"

text \<open>\<open>DiskQueueSender::send\<close> of a record already serialized.\<close>

definition dq_send :: "write_fault \<Rightarrow> (nat \<Rightarrow> bool) \<Rightarrow> bytes \<Rightarrow> disk_queue \<Rightarrow> bool \<times> disk_queue" where
  "dq_send fault stuck data q =
     (case write_to_segment fault stuck data (q_state q) (wd_segments (q_dir q)) of
        (ok, st, segs) \<Rightarrow> (ok, q\<lparr>q_state := st, q_dir := (q_dir q)\<lparr>wd_segments := segs\<rparr>\<rparr>))"

subsection \<open>Reading\<close>

text \<open>\<open>read_line_at\<close>: up to and including the next newline, or to the end of the file.\<close>

fun first_line :: "bytes \<Rightarrow> bytes" where
  "first_line [] = []"
| "first_line (c # cs) = (if c = newline then [c] else c # first_line cs)"

definition ascii_whitespace :: "char \<Rightarrow> bool" where
  "ascii_whitespace c \<longleftrightarrow> (of_char c :: nat) \<in> {9, 10, 12, 13, 32}"

definition complete_line :: "bytes \<Rightarrow> bool" where
  "complete_line l \<longleftrightarrow> l \<noteq> [] \<and> last l = newline"

text \<open>A line that is complete, not blank and readable is a record; any other is skipped.\<close>

definition line_record :: "(bytes \<Rightarrow> 'e option) \<Rightarrow> bytes \<Rightarrow> 'e option" where
  "line_record dec l = (if complete_line l \<and> \<not> list_all ascii_whitespace l then dec l else None)"

lemma first_line_Nil [simp]: "first_line s = [] \<longleftrightarrow> s = []"
  by (cases s) auto

lemma first_line_split: "first_line s @ drop (length (first_line s)) s = s"
  by (induction s) auto

lemma first_line_length: "length (first_line s) \<le> length s"
  by (induction s) auto

text \<open>
  The steps of \<open>try_read_next\<close>. \<open>Look\<close> and \<open>Reread\<close> open the file at the read position without the mutex,
  \<open>Locking\<close> and \<open>Checking\<close> take the mutex and read the state of the writer: whether the segment is the one it has
  open, and its sequence number. \<open>Reread\<close> carries what \<open>Locking\<close> found.
\<close>

datatype read_pc = Look | Locking | Reread bool | Checking

datatype 'e read_state = Running read_pc dq_receiver | Done "('e \<times> nat \<times> nat) option" dq_receiver

text \<open>What a look at a segment file finds; a second look at a file that is gone is an error of \<open>open\<close>.\<close>

datatype look = Absent | Content bytes | ReadError

definition look_at :: "(nat \<times> bytes) list \<Rightarrow> nat \<Rightarrow> look" where
  "look_at segs s = (case map_of segs s of None \<Rightarrow> Absent | Some c \<Rightarrow> Content c)"

definition advance_over :: "bytes \<Rightarrow> dq_receiver \<Rightarrow> dq_receiver" where
  "advance_over line rx = rx\<lparr>rx_read_offset := rx_read_offset rx + length line\<rparr>"

text \<open>The line is taken: the end of the file, a record, or a line to be skipped.\<close>

definition take_line :: "(bytes \<Rightarrow> 'e option) \<Rightarrow> bytes \<Rightarrow> dq_receiver \<Rightarrow> 'e read_state" where
  "take_line dec line rx =
     (if line = [] then Running Checking rx
      else (case line_record dec line of
        Some e \<Rightarrow> Done (Some (e, rx_read_seq rx, rx_read_offset rx)) ((advance_over line rx)\<lparr>rx_in_flight := rx_in_flight rx @
          [\<lparr>if_start_seq = rx_read_seq rx, if_start_offset = rx_read_offset rx, if_end_seq = rx_read_seq rx,
            if_end_offset = rx_read_offset rx + length line, if_acked = False\<rparr>]\<rparr>)
      | None \<Rightarrow> Running Look (advance_over line rx)))"

definition incomplete :: "bytes \<Rightarrow> bool" where
  "incomplete line \<longleftrightarrow> line \<noteq> [] \<and> \<not> complete_line line"

definition next_segment :: "dq_receiver \<Rightarrow> dq_receiver" where
  "next_segment rx = rx\<lparr>rx_read_seq := Suc (rx_read_seq rx), rx_read_offset := 0\<rparr>"

text \<open>One step: \<open>look\<close> is what the file at the read position shows, \<open>ws\<close> and \<open>active\<close> the state behind the mutex.\<close>

fun read_step :: "(bytes \<Rightarrow> 'e option) \<Rightarrow> look \<Rightarrow> nat \<Rightarrow> bool \<Rightarrow> read_pc \<Rightarrow> dq_receiver \<Rightarrow> 'e read_state" where
  "read_step dec look ws active Look rx = (case look of
     Absent \<Rightarrow> Running Checking rx
   | ReadError \<Rightarrow> Done None rx
   | Content c \<Rightarrow>
       (let line = first_line (drop (rx_read_offset rx) c)
        in if incomplete line then Running Locking rx else take_line dec line rx))"
| "read_step dec look ws active Locking rx = Running (Reread (rx_read_seq rx = ws \<and> active)) rx"
| "read_step dec look ws active (Reread act) rx = (case look of
     Content c \<Rightarrow>
       (let line = first_line (drop (rx_read_offset rx) c)
        in if incomplete line \<and> act then Done None rx else take_line dec line rx)
   | _ \<Rightarrow> Done None rx)"
| "read_step dec look ws active Checking rx =
     (if rx_read_seq rx < ws then Running Look (next_segment rx) else Done None rx)"

text \<open>The loop of \<open>try_read_next\<close> over files and a writer that stay as they are.\<close>

fun read_rank :: "read_pc \<Rightarrow> nat" where
  "read_rank Look = 3" | "read_rank Locking = 2" | "read_rank (Reread _) = 1" | "read_rank Checking = 0"

function read_loop :: "(bytes \<Rightarrow> 'e option) \<Rightarrow> (nat \<times> bytes) list \<Rightarrow> nat \<Rightarrow> bool \<Rightarrow> read_pc \<Rightarrow> dq_receiver \<Rightarrow>
    ('e \<times> nat \<times> nat) option \<times> dq_receiver" where
  "read_loop dec segs ws active pc rx =
     (case read_step dec (look_at segs (rx_read_seq rx)) ws active pc rx of
        Running pc' rx' \<Rightarrow> read_loop dec segs ws active pc' rx'
      | Done r rx' \<Rightarrow> (r, rx'))"
  by pat_completeness auto
termination
proof (relation "measures [\<lambda>(dec, segs, ws, active, pc, rx). Suc ws - rx_read_seq rx,
    \<lambda>(dec, segs, ws, active, pc, rx). length (seg segs (rx_read_seq rx)) - rx_read_offset rx,
    \<lambda>(dec, segs, ws, active, pc, rx). read_rank pc]", goal_cases)
  case (2 dec segs ws active pc rx pc' rx')
  have line: "pc' = Checking \<and> rx' = rx \<or> rx_read_seq rx' = rx_read_seq rx
      \<and> length (seg segs (rx_read_seq rx')) - rx_read_offset rx' < length (seg segs (rx_read_seq rx)) - rx_read_offset rx"
    if "take_line dec (first_line (drop (rx_read_offset rx) c)) rx = Running pc' rx'" "look_at segs (rx_read_seq rx) = Content c" for c
  proof (cases "drop (rx_read_offset rx) c = []")
    case True
    then show ?thesis using that(1) by (simp add: take_line_def)
  next
    case False
    then have "rx_read_offset rx < length c" "0 < length (first_line (drop (rx_read_offset rx) c))" by auto
    then have "length c - (rx_read_offset rx + length (first_line (drop (rx_read_offset rx) c))) < length c - rx_read_offset rx" by linarith
    then show ?thesis using that False
      by (auto simp: take_line_def advance_over_def seg_def look_at_def split: option.splits if_splits)
  qed
  show ?case
    using 2 by (cases pc) (auto simp: next_segment_def Let_def dest!: line split: if_splits look.splits)
qed auto

declare read_loop.simps [simp del]

definition try_read_next :: "(bytes \<Rightarrow> 'e option) \<Rightarrow> (nat \<times> bytes) list \<Rightarrow> nat \<Rightarrow> bool \<Rightarrow> dq_receiver \<Rightarrow>
    ('e \<times> nat \<times> nat) option \<times> dq_receiver" where
  "try_read_next dec segs ws active rx = read_loop dec segs ws active Look rx"

text \<open>One attempt of \<open>recv\<close> while no write runs; without a record the caller waits for a notification.\<close>

abbreviation sync_reader :: "dq_receiver \<Rightarrow> disk_queue \<Rightarrow> disk_queue" where
  "sync_reader rx q \<equiv> q\<lparr>q_rx := rx, q_state := (q_state q)\<lparr>dq_read_seq := rx_read_seq rx\<rparr>\<rparr>"

abbreviation writer_active :: "disk_queue \<Rightarrow> bool" where
  "writer_active q \<equiv> dq_write_open (q_state q) \<and> \<not> q_closed q"

definition dq_recv :: "(bytes \<Rightarrow> 'e option) \<Rightarrow> disk_queue \<Rightarrow> ('e \<times> nat \<times> nat) option \<times> disk_queue" where
  "dq_recv dec q =
     (case try_read_next dec (wd_segments (q_dir q)) (dq_write_seq (q_state q))
             (writer_active q) (q_rx q) of
        (r, rx) \<Rightarrow> (r, sync_reader rx q))"

definition dq_depth :: "disk_queue \<Rightarrow> nat" where
  "dq_depth q = dq_write_seq (q_state q) - dq_acked_seq (q_state q)"

subsection \<open>Acknowledging\<close>

text \<open>Marking the first entry at the position; \<open>None\<close> when there is none.\<close>

fun mark_acked :: "nat \<Rightarrow> nat \<Rightarrow> in_flight list \<Rightarrow> in_flight list option" where
  "mark_acked seq off [] = None"
| "mark_acked seq off (f # fs) =
     (if if_start_seq f = seq \<and> if_start_offset f = off then Some (f\<lparr>if_acked := True\<rparr> # fs)
      else map_option ((#) f) (mark_acked seq off fs))"

text \<open>Popping the acknowledged prefix; the last entry popped gives the new position.\<close>

fun pop_acked :: "(nat \<times> nat) option \<Rightarrow> in_flight list \<Rightarrow> (nat \<times> nat) option \<times> in_flight list" where
  "pop_acked adv [] = (adv, [])"
| "pop_acked adv (f # fs) =
     (if if_acked f then pop_acked (Some (if_end_seq f, if_end_offset f)) fs else (adv, f # fs))"

definition remove_segments :: "(nat \<Rightarrow> bool) \<Rightarrow> nat \<Rightarrow> nat \<Rightarrow> (nat \<times> bytes) list \<Rightarrow> (nat \<times> bytes) list" where
  "remove_segments stuck lo hi segs = fold (\<lambda>s. if stuck s then id else al_remove s) [lo..<hi] segs"

definition ack_to :: "(nat \<Rightarrow> bool) \<Rightarrow> bool \<Rightarrow> nat \<Rightarrow> nat \<Rightarrow> disk_queue \<Rightarrow> disk_queue" where
  "ack_to stuck saved seq off q =
     (let rx = q_rx q in
      case mark_acked seq off (rx_in_flight rx) of
        None \<Rightarrow> q
      | Some fs \<Rightarrow> (case pop_acked None fs of
          (None, fs') \<Rightarrow> q\<lparr>q_rx := rx\<lparr>rx_in_flight := fs'\<rparr>\<rparr>
        | (Some (s, o'), fs') \<Rightarrow>
            if s = rx_acked_seq rx \<and> o' = rx_acked_offset rx then q\<lparr>q_rx := rx\<lparr>rx_in_flight := fs'\<rparr>\<rparr>
            else q\<lparr>q_rx := rx\<lparr>rx_in_flight := fs', rx_acked_seq := s, rx_acked_offset := o'\<rparr>,
                   q_state := (q_state q)\<lparr>dq_acked_seq := s\<rparr>,
                   q_dir := save_cursor saved s o' ((q_dir q)
                     \<lparr>wd_segments := remove_segments stuck (rx_acked_seq rx) s (wd_segments (q_dir q))\<rparr>)\<rparr>))"

end
