(* ===== verification/DiskQueue_Facts.thy ===== *)
theory DiskQueue_Facts
  imports DiskQueue
begin

section \<open>Facts about the disk queue\<close>

text \<open>
  The disk queue refines an abstract queue: the list of records that are not yet confirmed and, for
  the ones already handed out, whether their acknowledgement arrived. The abstraction reads the
  records off the segment files behind a position.
\<close>

subsection \<open>Records in a byte sequence\<close>

function (sequential) records :: "(bytes \<Rightarrow> 'e option) \<Rightarrow> bytes \<Rightarrow> 'e list" where
  "records dec [] = []"
| "records dec bs = (case line_record dec (first_line bs) of
       Some e \<Rightarrow> e # records dec (drop (length (first_line bs)) bs)
     | None \<Rightarrow> records dec (drop (length (first_line bs)) bs))"
  by pat_completeness auto
termination
  by (relation "measure (\<lambda>(dec, bs). length bs)") auto

declare records.simps(2) [simp del]

lemma records_step:
  "bs \<noteq> [] \<Longrightarrow> records dec bs = (case line_record dec (first_line bs) of Some e \<Rightarrow> [e] | None \<Rightarrow> [])
     @ records dec (drop (length (first_line bs)) bs)"
  by (cases bs) (auto simp: records.simps(2) split: option.split)

definition bdry :: "bytes \<Rightarrow> bool" where
  "bdry a \<longleftrightarrow> a = [] \<or> last a = newline"

lemma first_line_append: "newline \<in> set a \<Longrightarrow> first_line (a @ b) = first_line a"
  by (induction a) auto

lemma first_line_open: "newline \<notin> set a \<Longrightarrow> first_line a = a"
  by (induction a) auto

lemma complete_first_line: "complete_line (first_line a) \<longleftrightarrow> newline \<in> set a"
  by (induction a) (auto simp: complete_line_def)

lemma bdry_drop: "bdry a \<Longrightarrow> bdry (drop n a)"
  unfolding bdry_def by (cases "n < length a") (auto simp: last_drop)

lemma bdry_newline: "bdry a \<Longrightarrow> a \<noteq> [] \<Longrightarrow> newline \<in> set a"
  unfolding bdry_def using last_in_set[of a] by auto

lemma records_append: "bdry a \<Longrightarrow> records dec (a @ b) = records dec a @ records dec b"
proof (induction "length a" arbitrary: a rule: less_induct)
  case less
  show ?case
  proof (cases "a = []")
    case False
    then have "newline \<in> set a" using bdry_newline[OF less.prems] by simp
    then have f: "first_line (a @ b) = first_line a" by (rule first_line_append)
    have d: "drop (length (first_line a)) (a @ b) = drop (length (first_line a)) a @ b"
      using first_line_length[of a] by simp
    have "length (drop (length (first_line a)) a) < length a" using False first_line_Nil[of a] by (cases "first_line a") auto
    from less.hyps[OF this bdry_drop[OF less.prems]]
    show ?thesis using False by (simp add: records_step[of "a @ b"] records_step[of a] f d del: drop_append)
  qed simp
qed

lemma records_open: "newline \<notin> set a \<Longrightarrow> records dec a = []"
  using complete_first_line[of a]
  by (cases "a = []") (auto simp: records_step first_line_open line_record_def)

lemma records_line:
  "newline \<notin> set d \<Longrightarrow> line_record dec (d @ [newline]) = Some e \<Longrightarrow> records dec (d @ [newline]) = [e]"
proof -
  assume d: "newline \<notin> set d" and e: "line_record dec (d @ [newline]) = Some e"
  from d have "first_line (d @ [newline]) = d @ [newline]" by (induction d) auto
  then show ?thesis using e by (simp add: records_step)
qed

lemma records_one:
  "newline \<notin> set d \<Longrightarrow> records dec (d @ [newline]) = (case line_record dec (d @ [newline]) of Some e \<Rightarrow> [e] | None \<Rightarrow> [])"
proof -
  assume "newline \<notin> set d"
  then have "first_line (d @ [newline]) = d @ [newline]" by (induction d) auto
  then show ?thesis by (simp add: records_step)
qed

lemma records_read:
  "records dec (drop off c) = (if drop off c = [] then [] else
     (case line_record dec (first_line (drop off c)) of Some e \<Rightarrow> [e] | None \<Rightarrow> [])
       @ records dec (drop (off + length (first_line (drop off c))) c))"
  by (simp add: records_step[of "drop off c"] add.commute)

subsection \<open>Positions\<close>

type_synonym pos = "nat \<times> nat"

definition ple :: "pos \<Rightarrow> pos \<Rightarrow> bool" where
  "ple p q \<longleftrightarrow> fst p < fst q \<or> fst p = fst q \<and> snd p \<le> snd q"

definition plt :: "pos \<Rightarrow> pos \<Rightarrow> bool" where
  "plt p q \<longleftrightarrow> fst p < fst q \<or> fst p = fst q \<and> snd p < snd q"

lemma ple_refl [simp]: "ple p p"
  by (simp add: ple_def)

lemma ple_trans: "ple p q \<Longrightarrow> ple q r \<Longrightarrow> ple p r"
  by (auto simp: ple_def)

lemma ple_plt_trans: "ple p q \<Longrightarrow> plt q r \<Longrightarrow> plt p r"
  by (auto simp: ple_def plt_def)

lemma plt_ple: "plt p q \<Longrightarrow> ple p q"
  by (auto simp: ple_def plt_def)

lemma plt_irrefl [simp]: "\<not> plt p p"
  by (simp add: plt_def)

text \<open>The records from a position to the end of the log.\<close>

definition recs :: "(bytes \<Rightarrow> 'e option) \<Rightarrow> (nat \<Rightarrow> bytes) \<Rightarrow> nat \<Rightarrow> pos \<Rightarrow> 'e list" where
  "recs dec sg ws p = records dec (drop (snd p) (sg (fst p)))
     @ concat (map (\<lambda>t. records dec (sg t)) [Suc (fst p)..<Suc ws])"

definition maxseq :: "(nat \<times> bytes) list \<Rightarrow> nat" where
  "maxseq segs = fold max (map fst segs) 0"

text \<open>
  A usable position: not past the write segment, inside its segment (or in one that is never
  written again), and not in the middle of a record.
\<close>

definition pos_ok :: "(bytes \<Rightarrow> 'e option) \<Rightarrow> (nat \<Rightarrow> bytes) \<Rightarrow> nat \<Rightarrow> nat \<Rightarrow> pos \<Rightarrow> bool" where
  "pos_ok dec sg mx ws p \<longleftrightarrow> fst p \<le> ws \<and> (snd p \<le> length (sg (fst p)) \<or> fst p < mx)
     \<and> (\<exists>X. records dec (sg (fst p)) = X @ records dec (drop (snd p) (sg (fst p))))"

lemma recs_split:
  assumes "s < fst a" "fst a \<le> ws" "pos_ok dec sg mx ws a"
  shows "\<exists>extra. recs dec sg ws (s, off) = extra @ recs dec sg ws a"
proof -
  obtain X where X: "records dec (sg (fst a)) = X @ records dec (drop (snd a) (sg (fst a)))"
    using assms(3) by (auto simp: pos_ok_def)
  have "[Suc s..<Suc ws] = [Suc s..<fst a] @ [fst a..<Suc ws]"
    using assms(1,2) by (metis Suc_leI le_SucI upt_add_eq_append le_add_diff_inverse)
  moreover have "[fst a..<Suc ws] = fst a # [Suc (fst a)..<Suc ws]"
    using assms(2) by (simp add: upt_conv_Cons)
  ultimately show ?thesis by (simp add: recs_def X del: upt_Suc)
qed

text \<open>Appending at the end of the log.\<close>

lemma recs_wider:
  assumes "\<And>s. ws < s \<Longrightarrow> sg s = []" "ws \<le> t" "fst p \<le> ws"
  shows "recs dec sg t p = recs dec sg ws p"
proof -
  have "[Suc (fst p)..<Suc t] = [Suc (fst p)..<Suc ws] @ [Suc ws..<Suc t]"
    using assms(2,3) by (metis Suc_le_mono le_add_diff_inverse upt_add_eq_append)
  moreover have "concat (map (\<lambda>s. records dec (sg s)) [Suc ws..<Suc t]) = []"
    using assms(1) by (auto simp: concat_eq_Nil_conv)
  ultimately show ?thesis by (simp add: recs_def del: upt_Suc)
qed

lemma recs_last:
  assumes "fst p < t"
  shows "recs dec sg t p = recs dec sg (t - 1) p @ records dec (sg t)"
proof -
  have "[Suc (fst p)..<Suc t] = [Suc (fst p)..<Suc (t - 1)] @ [t]" using assms by auto
  then show ?thesis by (simp add: recs_def del: upt_Suc)
qed

lemma recs_prune:
  assumes "\<And>s. a \<le> s \<Longrightarrow> s \<le> ws \<Longrightarrow> sg' s = sg s" "a \<le> fst p" "fst p \<le> ws"
  shows "recs dec sg' ws p = recs dec sg ws p"
proof -
  have "map (\<lambda>t. records dec (sg' t)) [Suc (fst p)..<Suc ws] = map (\<lambda>t. records dec (sg t)) [Suc (fst p)..<Suc ws]"
    using assms by (intro map_cong) auto
  then show ?thesis using assms unfolding recs_def by (simp del: upt_Suc map_eq_conv)
qed

lemma recs_grow:
  assumes "\<And>s. ws < s \<Longrightarrow> sg s = []" "ws \<le> t" "b \<noteq> [] \<Longrightarrow> t = ws \<Longrightarrow> bdry (sg ws)" "mx \<le> ws" "mx \<le> mx'"
    and "pos_ok dec sg mx ws p"
  shows "recs dec (sg(t := sg t @ b)) t p = recs dec sg ws p @ records dec b"
    and "pos_ok dec (sg(t := sg t @ b)) mx' t p"
proof -
  let ?sg = "sg(t := sg t @ b)"
  have p: "fst p \<le> ws" "snd p \<le> length (sg (fst p)) \<or> fst p < mx" using assms(6) by (auto simp: pos_ok_def)
  have t: "bdry (sg t)" if "b \<noteq> []" using assms(1,2,3) that by (cases "t = ws") (auto simp: bdry_def)
  then have app: "records dec (sg t @ b) = records dec (sg t) @ records dec b"
    "records dec (drop n (sg t) @ b) = records dec (drop n (sg t)) @ records dec b" for n
    by (cases "b = []"; simp add: records_append bdry_drop)+
  have drop: "drop (snd p) (?sg (fst p)) = (if fst p = t then drop (snd p) (sg t) @ b else drop (snd p) (sg (fst p)))"
    using p assms(2,4) by auto
  show "pos_ok dec ?sg mx' t p"
    using assms(2,5,6) app unfolding pos_ok_def drop by auto
  show "recs dec ?sg t p = recs dec sg ws p @ records dec b"
  proof (cases "fst p = t")
    case True
    then have "ws = t" using p assms(2) by simp
    then show ?thesis using True drop by (simp add: recs_def app)
  next
    case False
    then have lt: "fst p < t" using p assms(2) by simp
    have "recs dec ?sg (t - 1) p = recs dec sg (t - 1) p"
      using lt by (intro recs_prune[where a = "fst p"]) auto
    then show ?thesis
      using recs_last[OF lt, of dec ?sg] recs_last[OF lt, of dec sg] recs_wider[where dec = dec, OF assms(1,2) p(1)]
      by (simp add: app)
  qed
qed

text \<open>Removing segments below a position.\<close>

lemma pos_ok_prune:
  assumes "\<And>s. a \<le> s \<Longrightarrow> sg' s = sg s" "\<And>s. sg' s = sg s \<or> sg' s = []" "a \<le> mx" "pos_ok dec sg mx ws p"
  shows "pos_ok dec sg' mx ws p"
proof (cases "a \<le> fst p")
  case False
  then show ?thesis using assms(2)[of "fst p"] assms(3,4) by (auto simp: pos_ok_def)
qed (use assms(1,4) in \<open>simp add: pos_ok_def\<close>)

end
