(* ===== verification/DiskQueue_Spec.thy ===== *)
theory DiskQueue_Spec
  imports DiskQueue_Facts "HOL-Library.Multiset"
begin

section \<open>The disk queue refines an at-least-once queue\<close>

text \<open>
  The invariant of the disk queue and what each operation does to the two lists it stands for: the
  records not yet confirmed and the records not yet handed out. The interface \<open>wal_queue\<close> states the
  laws of an at-least-once queue; the disk queue, with crashes and restarts among its operations,
  is an instance.
\<close>

subsection \<open>Segments\<close>

definition keys :: "(nat \<times> bytes) list \<Rightarrow> nat set" where
  "keys segs = set (map fst segs)"

lemma maxseq_Max: "maxseq segs = Max (insert 0 (keys segs))"
  unfolding maxseq_def keys_def using Max.set_eq_fold[of 0 "map fst segs"] by simp

lemma finite_keys [simp]: "finite (keys segs)"
  by (simp add: keys_def)

lemma keys_le_maxseq: "s \<in> keys segs \<Longrightarrow> s \<le> maxseq segs"
  by (simp add: maxseq_Max)

lemma maxseq_key: "maxseq segs = 0 \<or> maxseq segs \<in> keys segs"
  using Max_in[of "insert 0 (keys segs)"] by (auto simp: maxseq_Max)

lemma keys_map_of: "s \<in> keys segs \<longleftrightarrow> map_of segs s \<noteq> None"
  by (simp add: keys_def map_of_eq_None_iff)

lemma seg_beyond: "maxseq segs < s \<Longrightarrow> seg segs s = []"
  using keys_le_maxseq[of s segs] by (auto simp: seg_def keys_map_of split: option.splits)

lemma keys_append [simp]: "keys (append_segment s b segs) = insert s (keys segs)"
  unfolding keys_def append_segment_def by (rule keys_al_set)

lemma seg_append [simp]: "seg (append_segment s b segs) = (seg segs)(s := seg segs s @ b)"
  by (auto simp: seg_def append_segment_def fun_eq_iff)

lemma map_of_append: "map_of (append_segment s b segs) = (map_of segs)(s \<mapsto> seg segs s @ b)"
  by (simp add: append_segment_def)

lemma distinct_append_segment [simp]: "distinct (map fst (append_segment s b segs)) = distinct (map fst segs)"
  by (simp add: append_segment_def)

lemma maxseq_append: "maxseq (append_segment s b segs) = max s (maxseq segs)"
  using Max_insert[of "insert 0 (keys segs)" s] by (simp only: maxseq_Max keys_append insert_commute[of 0 s]) simp

text \<open>Only segments below \<open>a\<close> may be missing.\<close>

definition pruned :: "nat \<Rightarrow> (nat \<times> bytes) list \<Rightarrow> (nat \<times> bytes) list \<Rightarrow> bool" where
  "pruned a segs segs' \<longleftrightarrow> distinct (map fst segs')
     \<and> (\<forall>s. map_of segs' s = map_of segs s \<or> s < a \<and> map_of segs' s = None)"

lemma pruned_refl: "distinct (map fst segs) \<Longrightarrow> pruned a segs segs"
  by (simp add: pruned_def)

lemma pruned_remove: "pruned a segs segs' \<Longrightarrow> s < a \<Longrightarrow> pruned a segs (al_remove s segs')"
  by (auto simp: pruned_def alist_simps)

lemma pruned_enforce_loop:
  "pruned a segs segs' \<Longrightarrow> pruned a segs (enforce_loop stuck max_size a tot sizes segs')"
  by (induction stuck max_size a tot sizes segs' rule: enforce_loop.induct) (auto simp: pruned_remove)

lemma pruned_enforce: "distinct (map fst segs) \<Longrightarrow> pruned a segs (enforce_max_size stuck max_size a segs)"
  by (simp add: enforce_max_size_def Let_def pruned_refl pruned_enforce_loop)

lemma pruned_fold:
  "pruned a segs segs' \<Longrightarrow> \<forall>s\<in>set ss. s < a \<Longrightarrow> pruned a segs (fold (\<lambda>s. if stuck s then id else al_remove s) ss segs')"
  by (induction ss arbitrary: segs') (auto simp: pruned_remove)

lemma pruned_remove_segments: "distinct (map fst segs) \<Longrightarrow> pruned hi segs (remove_segments stuck lo hi segs)"
  unfolding remove_segments_def by (intro pruned_fold pruned_refl) auto

lemma pruned_seg:
  assumes "pruned a segs segs'"
  shows "a \<le> s \<Longrightarrow> seg segs' s = seg segs s" "seg segs' s = seg segs s \<or> seg segs' s = []"
  using assms unfolding pruned_def seg_def by (metis leD, metis option.simps(4))

lemma pruned_maxseq:
  assumes "pruned a segs segs'" "a \<le> maxseq segs"
  shows "maxseq segs' = maxseq segs"
proof (rule antisym)
  have sub: "keys segs' \<subseteq> keys segs" using assms(1) unfolding pruned_def by (metis keys_map_of subsetI)
  then show "maxseq segs' \<le> maxseq segs" unfolding maxseq_Max by (intro Max_mono) auto
  show "maxseq segs \<le> maxseq segs'"
    using maxseq_key[of segs] keys_le_maxseq[of _ segs'] assms unfolding pruned_def
    by (metis keys_map_of le0 not_less)
qed

lemma sum_al_remove:
  "(s, c) \<in> set segs \<Longrightarrow> distinct (map fst segs)
    \<Longrightarrow> length c + sum_list (map (length \<circ> snd) (al_remove s segs)) = sum_list (map (length \<circ> snd) segs)"
  by (induction s segs rule: al_remove.induct) (force simp: image_iff)+

text \<open>The size limit holds, or nothing below the acknowledged segment is left.\<close>

lemma enforce_loop_bound:
  assumes "distinct (map fst segs)" "sorted (map fst sizes)" "tot = sum_list (map (length \<circ> snd) segs)"
    and "\<forall>(s, n)\<in>set sizes. \<exists>c. (s, c) \<in> set segs \<and> n = length c" "distinct (map fst sizes)"
    and "\<forall>s\<in>keys segs. s < a \<longrightarrow> s \<in> fst ` set sizes"
  shows "let segs' = enforce_loop (\<lambda>_. False) m a tot sizes segs in
      sum_list (map (length \<circ> snd) segs') \<le> m \<or> (\<forall>s\<in>keys segs'. a \<le> s)"
  using assms
proof (induction "(\<lambda>_::nat. False)" m a tot sizes segs rule: enforce_loop.induct)
  case (1 m a tot segs)
  then show ?case by (auto simp: Let_def not_less)
next
  case (2 m a tot seq sz rest segs)
  show ?case
  proof (cases "tot \<le> m \<or> a \<le> seq")
    case True
    moreover have "a \<le> s" if "a \<le> seq" "s \<in> keys segs" for s
    proof (rule ccontr)
      assume "\<not> a \<le> s"
      then have "s \<in> fst ` set ((seq, sz) # rest)" using 2(8) that(2) by simp
      then show False using 2(4) that(1) \<open>\<not> a \<le> s\<close> by auto
    qed
    ultimately show ?thesis using 2(5) by (auto simp: Let_def)
  next
    case False
    obtain c where c: "(seq, c) \<in> set segs" "sz = length c" using 2(6) by auto
    have d: "distinct (map fst segs)" by (rule 2(3))
    have tot: "tot - sz = sum_list (map (length \<circ> snd) (al_remove seq segs))"
      using sum_al_remove[OF c(1) d] unfolding 2(5) c(2) by linarith
    have keys: "keys (al_remove seq segs) = keys segs - {seq}"
      using d by (auto simp: keys_map_of alist_simps split: if_splits)
    have mem: "\<forall>(s, n)\<in>set rest. \<exists>c. (s, c) \<in> set (al_remove seq segs) \<and> n = length c"
    proof (clarify)
      fix s n assume sn: "(s, n) \<in> set rest"
      then obtain c' where "(s, c') \<in> set segs" "n = length c'" using 2(6) by auto
      moreover have "s \<noteq> seq" using 2(7) sn by (auto simp: image_iff)
      ultimately have "map_of (al_remove seq segs) s = Some c'"
        using d by (simp add: alist_simps)
      then show "\<exists>c. (s, c) \<in> set (al_remove seq segs) \<and> n = length c"
        using map_of_SomeD \<open>n = length c'\<close> by fast
    qed
    show ?thesis
      using 2(2)[OF False _ distinct_al_remove[OF d] _ tot mem] 2(4,7,8) False by (auto simp: keys)
  qed
qed

lemma enforce_max_size_bound:
  assumes "distinct (map fst segs)" "0 < m"
  shows "let segs' = enforce_max_size (\<lambda>_. False) m a segs in
      sum_list (map (length \<circ> snd) segs') \<le> m \<or> (\<forall>s\<in>keys segs'. a \<le> s)"
proof -
  let ?sizes = "map (\<lambda>(s, c). (s, length c)) segs"
  have fst: "map fst ?sizes = map fst segs" by (induction segs) auto
  have tot: "sum_list (map snd ?sizes) = sum_list (map (length \<circ> snd) segs)" by (induction segs) auto
  have dist: "distinct (map fst (sort_key fst ?sizes))"
    using assms(1) fst by (metis mset_eq_imp_distinct_iff mset_map mset_sort)
  have mem: "\<forall>(s, n)\<in>set (sort_key fst ?sizes). \<exists>c. (s, c) \<in> set segs \<and> n = length c" by auto
  have all: "\<forall>s\<in>keys segs. s < a \<longrightarrow> s \<in> fst ` set (sort_key fst ?sizes)" by (force simp: keys_def)
  show ?thesis
    using enforce_loop_bound[OF assms(1) _ tot mem dist all, of m] assms(2) tot
    by (simp add: enforce_max_size_def Let_def)
qed

subsection \<open>The writer\<close>

definition wr_inv :: "dq_state \<Rightarrow> (nat \<times> bytes) list \<Rightarrow> bool" where
  "wr_inv st segs \<longleftrightarrow> distinct (map fst segs) \<and> maxseq segs \<le> dq_write_seq st
     \<and> (dq_write_open st \<longrightarrow> dq_write_seq st \<in> keys segs \<and> bdry (seg segs (dq_write_seq st))
          \<and> dq_write_size st = length (seg segs (dq_write_seq st)))"

text \<open>The write position is known and not in the middle of a line.\<close>

definition wr_ready :: "dq_state \<Rightarrow> (nat \<times> bytes) list \<Rightarrow> bool" where
  "wr_ready st segs \<longleftrightarrow> wr_inv st segs \<and> bdry (seg segs (dq_write_seq st))
     \<and> dq_write_size st = length (seg segs (dq_write_seq st))"

definition st_same :: "dq_state \<Rightarrow> dq_state \<Rightarrow> bool" where
  "st_same st st' \<longleftrightarrow> dq_acked_seq st' = dq_acked_seq st \<and> dq_read_seq st' = dq_read_seq st
     \<and> dq_max_size st' = dq_max_size st \<and> dq_write_seq st \<le> dq_write_seq st'"

lemma inspect_tail_ready:
  assumes "wr_inv st segs" "inspect_tail fault segs st = Some st'"
  shows "wr_ready st' segs \<and> st_same st st'"
proof (cases "dq_write_open st")
  case True
  then show ?thesis using assms by (auto simp: inspect_tail_def wr_ready_def wr_inv_def st_same_def)
next
  case False
  have next_seg: "maxseq segs \<le> dq_write_seq st" "distinct (map fst segs)" "seg segs (Suc (dq_write_seq st)) = []"
    using assms(1) seg_beyond[of segs "Suc (dq_write_seq st)"] by (auto simp: wr_inv_def)
  show ?thesis
  proof (cases "map_of segs (dq_write_seq st)")
    case None
    then have "seg segs (dq_write_seq st) = []" by (simp add: seg_def)
    then show ?thesis using None False assms(2) next_seg
      by (auto simp: inspect_tail_def wr_ready_def wr_inv_def st_same_def bdry_def split: if_splits)
  next
    case (Some c)
    then have "seg segs (dq_write_seq st) = c" by (simp add: seg_def)
    then show ?thesis using Some False assms(2) next_seg
      by (auto simp: inspect_tail_def wr_ready_def wr_inv_def st_same_def bdry_def split: if_splits)
  qed
qed

lemma rotate_ready:
  assumes "wr_ready st segs"
  shows "wr_ready (rotate n st) segs \<and> st_same st (rotate n st)"
  using assms seg_beyond[of segs "Suc (dq_write_seq st)"]
  by (auto simp: rotate_def wr_ready_def wr_inv_def st_same_def bdry_def le_SucI)

lemma open_segment_ready:
  assumes "wr_ready st segs" "open_segment st segs = (st', segs')"
  shows "wr_ready st' segs' \<and> dq_write_open st' \<and> st_same st st' \<and> dq_write_seq st' = dq_write_seq st
     \<and> seg segs' = seg segs \<and> maxseq segs \<le> maxseq segs'"
  using assms
  by (auto simp: open_segment_def wr_ready_def wr_inv_def st_same_def maxseq_append split: if_splits)

lemma open_append:
  assumes "wr_ready st segs" "dq_write_open st"
  shows "wr_inv (st\<lparr>dq_write_open := False\<rparr>) (append_segment (dq_write_seq st) b segs)"
    and "bdry b \<Longrightarrow> b \<noteq> [] \<Longrightarrow> wr_inv (st\<lparr>dq_write_size := dq_write_size st + length b\<rparr>) (append_segment (dq_write_seq st) b segs)"
  using assms by (auto simp: wr_ready_def wr_inv_def maxseq_append bdry_def)

lemma wr_inv_pruned:
  assumes "wr_inv st segs" "pruned a segs segs'" "a \<le> maxseq segs"
  shows "wr_inv st segs'"
proof -
  have "a \<le> dq_write_seq st" using assms by (simp add: wr_inv_def)
  then have "map_of segs' (dq_write_seq st) = map_of segs (dq_write_seq st)"
    using assms(2) by (metis not_less pruned_def)
  then have "dq_write_seq st \<in> keys segs' \<longleftrightarrow> dq_write_seq st \<in> keys segs"
    "seg segs' (dq_write_seq st) = seg segs (dq_write_seq st)"
    by (simp_all only: keys_map_of seg_def)
  then show ?thesis using assms pruned_maxseq[OF assms(2,3)] by (simp add: wr_inv_def pruned_def)
qed

text \<open>What a write does to the log: bytes are added at its end, and segments below the acknowledged one may go.\<close>

lemma write_log:
  assumes "wr_inv st segs" "dq_acked_seq st \<le> maxseq segs"
    and "write_to_segment fault stuck data st segs = (ok, st', segs')"
  shows "\<exists>b segs1. wr_inv st' segs' \<and> st_same st st' \<and> pruned (dq_acked_seq st) segs1 segs' \<and> maxseq segs \<le> maxseq segs1
     \<and> seg segs1 = (seg segs)(dq_write_seq st' := seg segs (dq_write_seq st') @ b)
     \<and> (b \<noteq> [] \<longrightarrow> dq_write_seq st' = dq_write_seq st \<longrightarrow> bdry (seg segs (dq_write_seq st)))
     \<and> (if ok then b = data @ [newline] else \<exists>k. b = take k (data @ [newline]))"
proof (cases "inspect_tail fault segs st")
  case None
  then have "st' = st" "segs' = segs" "\<not> ok" using assms(3) by (auto simp: write_to_segment_def)
  then show ?thesis using assms(1)
    by (intro exI[of _ "[]"] exI[of _ segs]) (auto simp: st_same_def wr_inv_def pruned_refl intro: exI[of _ 0])
next
  case (Some st1)
  let ?st2 = "rotate (length data) st1"
  have st1: "wr_ready st1 segs" "st_same st st1" using inspect_tail_ready[OF assms(1) Some] by auto
  then have st2: "wr_ready ?st2 segs" "st_same st ?st2"
    using rotate_ready[OF st1(1), of "length data"] by (auto simp: st_same_def)
  show ?thesis
  proof (cases "\<not> dq_write_open ?st2 \<and> fault = OpenFault")
    case True
    then have "st' = ?st2" "segs' = segs" "\<not> ok" using assms(3) Some by (auto simp: write_to_segment_def Let_def)
    then show ?thesis using assms(1) st2
      by (intro exI[of _ "[]"] exI[of _ segs])
        (auto simp: wr_ready_def wr_inv_def pruned_refl intro: exI[of _ 0])
  next
    case False
    obtain st3 segs3 where o3: "open_segment ?st2 segs = (st3, segs3)" by fastforce
    note st3 = open_segment_ready[OF st2(1) o3]
    let ?s = "dq_write_seq st3" and ?buf = "data @ [newline]"
    have bd: "bdry (seg segs ?s)" using st3 wr_ready_def[of st3 segs3] by metis
    have mx: "dq_acked_seq st \<le> maxseq (append_segment ?s b segs3)" for b
      using assms(2) st3 unfolding maxseq_append by (meson le_trans max.cobounded2)
    let ?segs4 = "append_segment ?s ?buf segs3"
    note appd = open_append[of st3 segs3] 
    show ?thesis
    proof (cases "fault = FlushFault \<or> (\<exists>k. fault = WriteFault k)")
      case True
      then obtain k where k: "st' = st3\<lparr>dq_write_open := False\<rparr>" "segs' = append_segment ?s (take k ?buf) segs3" "\<not> ok"
      proof
        assume f: "fault = FlushFault"
        have "take (length ?buf) ?buf = ?buf" by simp
        then show ?thesis using that[of "length ?buf"] assms(3) Some False o3 f by (simp add: write_to_segment_def Let_def)
      next
        assume "\<exists>k. fault = WriteFault k"
        then show ?thesis using that assms(3) Some False o3 by (auto simp: write_to_segment_def Let_def)
      qed
      then show ?thesis using st2 st3 bd appd(1)[of "take k ?buf"]
        by (intro exI[of _ "take k ?buf"] exI[of _ segs'])
          (auto simp: wr_inv_def st_same_def maxseq_append pruned_refl)
    next
      case False2: False
      then have e: "st' = st3\<lparr>dq_write_size := dq_write_size st3 + length ?buf\<rparr>" "ok"
        "segs' = enforce_max_size stuck (dq_max_size st3) (dq_acked_seq st3) ?segs4"
        using assms(3) Some False o3 by (auto simp: write_to_segment_def Let_def split: write_fault.splits)
      have w4: "wr_inv st' ?segs4" using appd(2)[of ?buf] st3 e(1) by (simp add: bdry_def)
      have pr: "pruned (dq_acked_seq st) ?segs4 segs'"
        using pruned_enforce[of ?segs4 "dq_acked_seq st3" stuck] w4 st2 st3 e(3) by (simp add: wr_inv_def st_same_def)
      show ?thesis using wr_inv_pruned[OF w4 pr mx] pr st2 st3 bd e(1,2)
        by (intro exI[of _ ?buf] exI[of _ ?segs4]) (auto simp: st_same_def maxseq_append)
    qed
  qed
qed

subsection \<open>Records in flight\<close>

abbreviation start_pos :: "in_flight \<Rightarrow> pos" where
  "start_pos f \<equiv> (if_start_seq f, if_start_offset f)"

abbreviation end_pos :: "in_flight \<Rightarrow> pos" where
  "end_pos f \<equiv> (if_end_seq f, if_end_offset f)"

text \<open>
  The entries in flight name, in order, the records between the acknowledged position and the
  reader; between two of them there are no records.
\<close>

fun chain :: "(bytes \<Rightarrow> 'e option) \<Rightarrow> (nat \<Rightarrow> bytes) \<Rightarrow> nat \<Rightarrow> nat \<Rightarrow> pos \<Rightarrow> in_flight list \<Rightarrow> pos \<Rightarrow> bool" where
  "chain dec sg mx ws p [] rd \<longleftrightarrow> pos_ok dec sg mx ws p \<and> pos_ok dec sg mx ws rd \<and> ple p rd
     \<and> recs dec sg ws p = recs dec sg ws rd"
| "chain dec sg mx ws p (f # fs) rd \<longleftrightarrow> pos_ok dec sg mx ws p \<and> pos_ok dec sg mx ws (start_pos f)
     \<and> ple p (start_pos f) \<and> plt (start_pos f) (end_pos f)
     \<and> if_end_seq f \<le> mx \<and> if_end_offset f \<le> length (sg (if_end_seq f))
     \<and> recs dec sg ws p = recs dec sg ws (start_pos f)
     \<and> (\<exists>e. recs dec sg ws (start_pos f) = e # recs dec sg ws (end_pos f))
     \<and> chain dec sg mx ws (end_pos f) fs rd"

lemma chain_pos_ok: "chain dec sg mx ws p fs rd \<Longrightarrow> pos_ok dec sg mx ws p \<and> pos_ok dec sg mx ws rd"
  by (induction fs arbitrary: p) auto

lemma chain_le: "chain dec sg mx ws p fs rd \<Longrightarrow> ple p rd"
  by (induction fs arbitrary: p) (auto simp del: split_paired_All, meson ple_trans plt_ple)

lemma chain_split: "chain dec sg mx ws p fs rd \<Longrightarrow> \<exists>es. length es = length fs \<and> recs dec sg ws p = es @ recs dec sg ws rd"
proof (induction fs arbitrary: p)
  case (Cons f fs)
  then obtain es e where "length es = length fs" "recs dec sg ws (end_pos f) = es @ recs dec sg ws rd"
    "recs dec sg ws p = e # recs dec sg ws (end_pos f)" by auto metis
  then show ?case by (intro exI[of _ "e # es"]) simp
qed simp

text \<open>A change of the log that keeps the positions from \<open>p\<close> on and adds records at its end keeps the chain.\<close>

lemma chain_transfer:
  assumes "chain dec sg mx ws p fs rd"
    and "\<And>x. pos_ok dec sg mx ws x \<Longrightarrow> fst p \<le> fst x \<Longrightarrow>
           pos_ok dec sg' mx' ws' x \<and> recs dec sg' ws' x = recs dec sg ws x @ new"
    and "\<And>s. fst p \<le> s \<Longrightarrow> length (sg s) \<le> length (sg' s)" "mx \<le> mx'"
  shows "chain dec sg' mx' ws' p fs rd"
  using assms
proof (induction fs arbitrary: p)
  case Nil
  then have "fst p \<le> fst rd" by (auto simp: ple_def)
  then show ?case using Nil by simp
next
  case (Cons f fs)
  have le: "fst p \<le> if_start_seq f" "if_start_seq f \<le> if_end_seq f" using Cons.prems(1) by (auto simp: ple_def plt_def)
  have ok: "pos_ok dec sg mx ws (end_pos f)" using Cons.prems(1) chain_pos_ok by fastforce
  have "chain dec sg' mx' ws' (end_pos f) fs rd"
    using Cons.prems le by (intro Cons.IH) auto
  then show ?case
    using Cons.prems(1,4) Cons.prems(2)[of p] Cons.prems(2)[of "start_pos f"] Cons.prems(2)[OF ok]
      Cons.prems(3)[of "if_end_seq f"] le by auto
qed

lemma chain_snoc:
  assumes "chain dec sg mx ws p fs rd" "pos_ok dec sg mx ws (start_pos f)" "pos_ok dec sg mx ws (end_pos f)"
    and "ple rd (start_pos f)" "plt (start_pos f) (end_pos f)" "if_end_seq f \<le> mx" "if_end_offset f \<le> length (sg (if_end_seq f))"
    and "recs dec sg ws rd = recs dec sg ws (start_pos f)" "recs dec sg ws (start_pos f) = e # recs dec sg ws (end_pos f)"
  shows "chain dec sg mx ws p (fs @ [f]) (end_pos f)"
  using assms(1) by (induction fs arbitrary: p) (use assms(2-) in \<open>auto intro: ple_trans\<close>)

lemma chain_forward:
  "chain dec sg mx ws p fs rd \<Longrightarrow> pos_ok dec sg mx ws rd' \<Longrightarrow> ple rd rd' \<Longrightarrow> recs dec sg ws rd = recs dec sg ws rd'
    \<Longrightarrow> chain dec sg mx ws p fs rd'"
  by (induction fs arbitrary: p) (auto intro: ple_trans)

lemma chain_mark: "mark_acked s off fs = Some fs' \<Longrightarrow> chain dec sg mx ws p fs' rd = chain dec sg mx ws p fs rd"
  by (induction fs arbitrary: fs' p) (auto split: if_splits)

lemma mark_length: "mark_acked s off fs = Some fs' \<Longrightarrow> length fs' = length fs"
  by (induction fs arbitrary: fs') (auto split: if_splits)

lemma pop_acked_drop: "snd (pop_acked adv fs) = dropWhile if_acked fs"
  by (induction adv fs rule: pop_acked.induct) auto

lemma pop_acked_None: "fst (pop_acked adv fs) = None \<longleftrightarrow> adv = None \<and> dropWhile if_acked fs = fs"
proof (induction adv fs rule: pop_acked.induct)
  case (2 adv f fs)
  have "dropWhile if_acked fs \<noteq> f # fs" using length_dropWhile_le[of if_acked fs] by (metis Suc_n_not_le_n length_Cons)
  then show ?case using 2 by auto
qed simp

lemma pop_acked_chain:
  assumes "chain dec sg mx ws p fs rd" "pop_acked adv fs = (Some q, fs')"
    and "adv = None \<or> adv = Some p \<and> fst p \<le> mx \<and> snd p \<le> length (sg (fst p))"
  shows "chain dec sg mx ws q fs' rd \<and> (\<exists>es. length es + length fs' = length fs \<and> recs dec sg ws p = es @ recs dec sg ws q)
     \<and> ple p q \<and> (adv = None \<longrightarrow> plt p q) \<and> fst q \<le> mx \<and> snd q \<le> length (sg (fst q))"
  using assms
proof (induction adv fs arbitrary: p rule: pop_acked.induct)
  case (2 adv f fs)
  show ?case
  proof (cases "if_acked f")
    case True
    then have "pop_acked (Some (end_pos f)) fs = (Some q, fs')" using 2(3) by simp
    moreover have ch: "chain dec sg mx ws (end_pos f) fs rd" "ple p (start_pos f)" "plt (start_pos f) (end_pos f)"
      "if_end_seq f \<le> mx" "if_end_offset f \<le> length (sg (if_end_seq f))"
      using 2(2) by simp_all
    ultimately have IH: "chain dec sg mx ws q fs' rd" "ple (end_pos f) q" "fst q \<le> mx" "snd q \<le> length (sg (fst q))"
      "\<exists>es. length es + length fs' = length fs \<and> recs dec sg ws (end_pos f) = es @ recs dec sg ws q"
      using 2(1)[OF True, of "end_pos f"] by auto
    obtain e where "recs dec sg ws p = e # recs dec sg ws (end_pos f)" using 2(2) by auto
    then have "\<exists>es. length es + length fs' = length (f # fs) \<and> recs dec sg ws p = es @ recs dec sg ws q"
      using IH(5) by (metis Cons_eq_appendI add_Suc length_Cons)
    moreover have "plt p q" using ch(2,3) IH(2) by (auto simp: ple_def plt_def)
    ultimately show ?thesis using IH plt_ple by blast
  qed (use 2 in auto)
qed auto

subsection \<open>Invariant and abstraction\<close>

definition rec_log :: "(bytes \<Rightarrow> 'e option) \<Rightarrow> disk_queue \<Rightarrow> pos \<Rightarrow> 'e list" where
  "rec_log dec q = recs dec (seg (wd_segments (q_dir q))) (dq_write_seq (q_state q))"

definition pos_in :: "(bytes \<Rightarrow> 'e option) \<Rightarrow> disk_queue \<Rightarrow> pos \<Rightarrow> bool" where
  "pos_in dec q = pos_ok dec (seg (wd_segments (q_dir q))) (maxseq (wd_segments (q_dir q))) (dq_write_seq (q_state q))"

definition acked_pos :: "disk_queue \<Rightarrow> pos" where
  "acked_pos q = (rx_acked_seq (q_rx q), rx_acked_offset (q_rx q))"

definition read_pos :: "disk_queue \<Rightarrow> pos" where
  "read_pos q = (rx_read_seq (q_rx q), rx_read_offset (q_rx q))"

text \<open>The records not yet confirmed, and those not yet handed out.\<close>

definition unconfirmed :: "(bytes \<Rightarrow> 'e option) \<Rightarrow> disk_queue \<Rightarrow> 'e list" where
  "unconfirmed dec q = rec_log dec q (acked_pos q)"

definition unread :: "(bytes \<Rightarrow> 'e option) \<Rightarrow> disk_queue \<Rightarrow> 'e list" where
  "unread dec q = rec_log dec q (read_pos q)"

definition dq_inv :: "(bytes \<Rightarrow> 'e option) \<Rightarrow> disk_queue \<Rightarrow> bool" where
  "dq_inv dec q \<longleftrightarrow> wr_inv (q_state q) (wd_segments (q_dir q))
     \<and> dq_acked_seq (q_state q) = rx_acked_seq (q_rx q) \<and> dq_read_seq (q_state q) = rx_read_seq (q_rx q)
     \<and> rx_acked_seq (q_rx q) \<le> maxseq (wd_segments (q_dir q))
     \<and> chain dec (seg (wd_segments (q_dir q))) (maxseq (wd_segments (q_dir q))) (dq_write_seq (q_state q))
         (acked_pos q) (rx_in_flight (q_rx q)) (read_pos q)
     \<and> pos_in dec q (load_cursor (q_dir q)) \<and> ple (load_cursor (q_dir q)) (acked_pos q)
     \<and> (\<exists>extra. rec_log dec q (load_cursor (q_dir q)) = extra @ unconfirmed dec q)"

lemmas queue_simps = rec_log_def pos_in_def acked_pos_def read_pos_def unconfirmed_def unread_def

lemma rec_log_split: "pos_in dec q a \<Longrightarrow> fst c < fst a \<Longrightarrow> \<exists>extra. rec_log dec q c = extra @ rec_log dec q a"
  unfolding pos_in_def rec_log_def
  using recs_split[of "fst c" a _ dec _ _ "snd c"] pos_ok_def[of dec _ _ _ a] by (metis prod.collapse)

text \<open>The records handed out and not confirmed are the difference.\<close>

lemma pending_split:
  assumes "dq_inv dec q"
  shows "\<exists>es. length es = length (rx_in_flight (q_rx q)) \<and> unconfirmed dec q = es @ unread dec q"
  using assms chain_split unfolding dq_inv_def queue_simps by blast

subsection \<open>Sending\<close>

lemma records_partial:
  "newline \<notin> set data \<Longrightarrow> records dec (take k (data @ [newline])) \<in> {[], records dec (data @ [newline])}"
  using records_open[of "take k data" dec] in_set_takeD[of newline k data]
  by (cases "k \<le> length data") auto

text \<open>Growth of the log at its end, then loss of segments below \<open>a\<close>.\<close>

definition log_ext :: "(bytes \<Rightarrow> 'e option) \<Rightarrow> nat \<Rightarrow> 'e list \<Rightarrow> (nat \<times> bytes) list \<Rightarrow> nat \<Rightarrow> (nat \<times> bytes) list \<Rightarrow> nat \<Rightarrow> bool" where
  "log_ext dec a new segs ws segs' ws' \<longleftrightarrow> maxseq segs \<le> maxseq segs'
     \<and> (\<forall>s\<ge>a. length (seg segs s) \<le> length (seg segs' s))
     \<and> (\<forall>p. pos_ok dec (seg segs) (maxseq segs) ws p \<longrightarrow> pos_ok dec (seg segs') (maxseq segs') ws' p
          \<and> (a \<le> fst p \<longrightarrow> recs dec (seg segs') ws' p = recs dec (seg segs) ws p @ new))"

lemma grow_ext:
  assumes "seg segs1 = (seg segs)(t := seg segs t @ b)" "maxseq segs \<le> maxseq segs1" "maxseq segs \<le> ws" "ws \<le> t"
    and "b \<noteq> [] \<Longrightarrow> t = ws \<Longrightarrow> bdry (seg segs ws)"
  shows "log_ext dec a (records dec b) segs ws segs1 t"
proof -
  have "seg segs s = []" if "ws < s" for s using that assms(3) by (intro seg_beyond) simp
  then show ?thesis unfolding log_ext_def assms(1) using assms recs_grow[of ws "seg segs" t b] by auto
qed

lemma prune_ext:
  assumes "pruned a segs segs'" "a \<le> maxseq segs"
  shows "log_ext dec a [] segs ws segs' ws"
proof -
  have "pos_ok dec (seg segs') (maxseq segs) ws p" if "pos_ok dec (seg segs) (maxseq segs) ws p" for p
    using pos_ok_prune[OF pruned_seg(1)[OF assms(1)] pruned_seg(2)[OF assms(1)] assms(2) that] .
  moreover have "recs dec (seg segs') ws p = recs dec (seg segs) ws p"
    if "a \<le> fst p" "pos_ok dec (seg segs) (maxseq segs) ws p" for p
    using that pruned_seg(1)[OF assms(1)] by (intro recs_prune[where a = a]) (auto simp: pos_ok_def)
  ultimately show ?thesis
    unfolding log_ext_def pruned_maxseq[OF assms] using pruned_seg(1)[OF assms(1)] by simp
qed

lemma ext_trans:
  assumes "log_ext dec a xs segs ws segs1 ws1" "log_ext dec a ys segs1 ws1 segs2 ws2"
  shows "log_ext dec a (xs @ ys) segs ws segs2 ws2"
  using assms unfolding log_ext_def by (meson order_trans) auto


lemma inv_ext:
  assumes "dq_inv dec q" "q_rx q' = q_rx q" "wd_cursor (q_dir q') = wd_cursor (q_dir q)"
    and "wr_inv (q_state q') (wd_segments (q_dir q'))" "st_same (q_state q) (q_state q')"
    and ext: "log_ext dec (dq_acked_seq (q_state q)) new (wd_segments (q_dir q)) (dq_write_seq (q_state q))
           (wd_segments (q_dir q')) (dq_write_seq (q_state q'))"
  shows "dq_inv dec q' \<and> unconfirmed dec q' = unconfirmed dec q @ new \<and> unread dec q' = unread dec q @ new"
proof -
  let ?a = "rx_acked_seq (q_rx q)"
  let ?c = "load_cursor (q_dir q)"
  note inv = assms(1)[unfolded dq_inv_def]
  have a: "dq_acked_seq (q_state q) = ?a" and ch: "chain dec (seg (wd_segments (q_dir q)))
      (maxseq (wd_segments (q_dir q))) (dq_write_seq (q_state q)) (acked_pos q) (rx_in_flight (q_rx q)) (read_pos q)"
    using inv by auto
  have pos: "acked_pos q' = acked_pos q" "read_pos q' = read_pos q" "load_cursor (q_dir q') = ?c"
    using assms(2,3) by (simp_all add: acked_pos_def read_pos_def load_cursor_def)
  have mv: "pos_in dec q p \<Longrightarrow> pos_in dec q' p"
    "pos_in dec q p \<Longrightarrow> ?a \<le> fst p \<Longrightarrow> rec_log dec q' p = rec_log dec q p @ new" for p
    using ext by (cases p; simp add: log_ext_def a pos_in_def rec_log_def)+
  have ok: "pos_in dec q (acked_pos q)" "pos_in dec q (read_pos q)" and le: "?a \<le> fst (read_pos q)"
    using chain_pos_ok[OF ch] chain_le[OF ch] by (auto simp: pos_in_def ple_def acked_pos_def)
  have ch': "chain dec (seg (wd_segments (q_dir q'))) (maxseq (wd_segments (q_dir q'))) (dq_write_seq (q_state q'))
     (acked_pos q) (rx_in_flight (q_rx q)) (read_pos q)"
    using ext by (intro chain_transfer[OF ch]) (auto simp: log_ext_def a acked_pos_def)
  have new: "unconfirmed dec q' = unconfirmed dec q @ new" "unread dec q' = unread dec q @ new"
    using mv(2)[OF ok(1)] mv(2)[OF ok(2) le] assms(2) by (simp_all add: unconfirmed_def unread_def pos acked_pos_def)
  have "\<exists>extra. rec_log dec q' ?c = extra @ unconfirmed dec q'"
  proof (cases "fst ?c < ?a")
    case True
    then show ?thesis
      using rec_log_split[of dec q' "acked_pos q'" ?c] mv(1)[OF ok(1)] pos by (simp add: unconfirmed_def acked_pos_def)
  next
    case False
    then show ?thesis using inv mv(2)[of ?c] new(1) by auto
  qed
  then show ?thesis
    using inv assms(2,4,5) ch' mv(1)[of ?c] new ext
    unfolding dq_inv_def pos by (auto simp: st_same_def log_ext_def a)
qed

lemma send_refines:
  assumes "dq_inv dec q" "dq_send fault stuck data q = (ok, q')" "newline \<notin> set data"
  shows "\<exists>new. dq_inv dec q' \<and> unconfirmed dec q' = unconfirmed dec q @ new \<and> unread dec q' = unread dec q @ new
     \<and> (if ok then new = records dec (data @ [newline]) else new \<in> {[], records dec (data @ [newline])})"
proof -
  let ?segs = "wd_segments (q_dir q)"
  obtain st' segs' where w: "write_to_segment fault stuck data (q_state q) ?segs = (ok, st', segs')"
    and q': "q' = q\<lparr>q_state := st', q_dir := (q_dir q)\<lparr>wd_segments := segs'\<rparr>\<rparr>"
    using assms(2) by (auto simp: dq_send_def split: prod.splits)
  have inv: "wr_inv (q_state q) ?segs" "dq_acked_seq (q_state q) \<le> maxseq ?segs"
    using assms(1) by (auto simp: dq_inv_def)
  obtain b segs1 where l: "wr_inv st' segs'" "st_same (q_state q) st'" "pruned (dq_acked_seq (q_state q)) segs1 segs'"
    "maxseq ?segs \<le> maxseq segs1" "seg segs1 = (seg ?segs)(dq_write_seq st' := seg ?segs (dq_write_seq st') @ b)"
    "b \<noteq> [] \<longrightarrow> dq_write_seq st' = dq_write_seq (q_state q) \<longrightarrow> bdry (seg ?segs (dq_write_seq (q_state q)))"
    "if ok then b = data @ [newline] else \<exists>k. b = take k (data @ [newline])"
    using write_log[OF inv w] by blast
  have "log_ext dec (dq_acked_seq (q_state q)) (records dec b) ?segs (dq_write_seq (q_state q)) segs1 (dq_write_seq st')"
    using l inv by (intro grow_ext) (auto simp: wr_inv_def st_same_def)
  then have "log_ext dec (dq_acked_seq (q_state q)) (records dec b) ?segs (dq_write_seq (q_state q)) segs' (dq_write_seq st')"
    using ext_trans prune_ext[OF l(3)] inv(2) l(4) by (metis append_Nil2 le_trans)
  then have "dq_inv dec q' \<and> unconfirmed dec q' = unconfirmed dec q @ records dec b \<and> unread dec q' = unread dec q @ records dec b"
    using l(1,2) q' by (intro inv_ext[OF assms(1)]) auto
  then show ?thesis using l(7) records_partial[OF assms(3), of dec] by (cases ok) auto
qed

subsection \<open>Receiving\<close>

lemma recs_next_segment: "drop off (sg s) = [] \<Longrightarrow> s < ws \<Longrightarrow> recs dec sg ws (s, off) = recs dec sg ws (Suc s, 0)"
  by (simp add: recs_def upt_conv_Cons del: upt_Suc)

lemma recs_line:
  assumes "drop off (sg s) \<noteq> []"
  shows "recs dec sg ws (s, off) = (case line_record dec (first_line (drop off (sg s))) of Some e \<Rightarrow> [e] | None \<Rightarrow> [])
     @ recs dec sg ws (s, off + length (first_line (drop off (sg s))))"
  unfolding recs_def using records_read[of dec off "sg s"] assms by simp

lemma pos_ok_line:
  assumes "pos_ok dec sg mx ws (s, off)" "drop off (sg s) \<noteq> []"
  shows "pos_ok dec sg mx ws (s, off + length (first_line (drop off (sg s))))"
    and "off + length (first_line (drop off (sg s))) \<le> length (sg s)"
proof -
  show "off + length (first_line (drop off (sg s))) \<le> length (sg s)"
    using first_line_length[of "drop off (sg s)"] assms(2) by simp
  then show "pos_ok dec sg mx ws (s, off + length (first_line (drop off (sg s))))"
    using assms records_read[of dec off "sg s"] by (auto simp: pos_ok_def)
qed

definition rx_pos :: "dq_receiver \<Rightarrow> pos" where
  "rx_pos rx = (rx_read_seq rx, rx_read_offset rx)"

text \<open>What one attempt to read promises of the receiver.\<close>

definition read_result :: "(bytes \<Rightarrow> 'e option) \<Rightarrow> (nat \<times> bytes) list \<Rightarrow> nat \<Rightarrow> dq_receiver \<Rightarrow>
    ('e \<times> nat \<times> nat) option \<Rightarrow> dq_receiver \<Rightarrow> bool" where
  "read_result dec segs ws rx r rx' \<longleftrightarrow> pos_ok dec (seg segs) (maxseq segs) ws (rx_pos rx') \<and> ple (rx_pos rx) (rx_pos rx')
     \<and> rx_acked_seq rx' = rx_acked_seq rx \<and> rx_acked_offset rx' = rx_acked_offset rx
     \<and> (case r of
          None \<Rightarrow> rx_in_flight rx' = rx_in_flight rx \<and> recs dec (seg segs) ws (rx_pos rx) = []
                  \<and> recs dec (seg segs) ws (rx_pos rx') = []
        | Some (e, p) \<Rightarrow> \<exists>f. rx_in_flight rx' = rx_in_flight rx @ [f] \<and> start_pos f = p \<and> end_pos f = rx_pos rx'
                  \<and> \<not> if_acked f \<and> pos_ok dec (seg segs) (maxseq segs) ws p \<and> ple (rx_pos rx) p \<and> plt p (rx_pos rx')
                  \<and> if_end_seq f \<le> maxseq segs \<and> if_end_offset f \<le> length (seg segs (if_end_seq f))
                  \<and> recs dec (seg segs) ws (rx_pos rx) = recs dec (seg segs) ws p
                  \<and> recs dec (seg segs) ws p = e # recs dec (seg segs) ws (rx_pos rx'))"

lemma read_result_skip:
  assumes "read_result dec segs ws rx1 r rx'" "ple (rx_pos rx) (rx_pos rx1)"
    and "recs dec (seg segs) ws (rx_pos rx) = recs dec (seg segs) ws (rx_pos rx1)"
    and "rx_acked_seq rx1 = rx_acked_seq rx" "rx_acked_offset rx1 = rx_acked_offset rx" "rx_in_flight rx1 = rx_in_flight rx"
  shows "read_result dec segs ws rx r rx'"
  using assms unfolding read_result_def by (auto split: option.splits intro: ple_trans)

lemma read_result_None:
  "pos_ok dec (seg segs) (maxseq segs) ws (rx_pos rx) \<Longrightarrow> recs dec (seg segs) ws (rx_pos rx) = [] \<Longrightarrow> read_result dec segs ws rx None rx"
  by (simp add: read_result_def)

text \<open>
  A step that does not end the read moves the receiver over nothing that is a record. The writer may be at work: a look sees
  the file up to some byte. It may not see less than the file when it is the second look at a segment that was not the
  writer's, and the step to the next segment asks that nothing is left to read in this one.
\<close>

definition moved :: "(bytes \<Rightarrow> 'e option) \<Rightarrow> (nat \<times> bytes) list \<Rightarrow> nat \<Rightarrow> dq_receiver \<Rightarrow> dq_receiver \<Rightarrow> bool" where
  "moved dec segs ws rx rx' \<longleftrightarrow> pos_ok dec (seg segs) (maxseq segs) ws (rx_pos rx') \<and> ple (rx_pos rx) (rx_pos rx')
     \<and> recs dec (seg segs) ws (rx_pos rx) = recs dec (seg segs) ws (rx_pos rx')
     \<and> rx_acked_seq rx' = rx_acked_seq rx \<and> rx_acked_offset rx' = rx_acked_offset rx \<and> rx_in_flight rx' = rx_in_flight rx"

definition rest_at :: "(nat \<times> bytes) list \<Rightarrow> dq_receiver \<Rightarrow> bytes" where
  "rest_at segs rx = drop (rx_read_offset rx) (seg segs (rx_read_seq rx))"

definition sees :: "(nat \<times> bytes) list \<Rightarrow> read_pc \<Rightarrow> dq_receiver \<Rightarrow> look \<Rightarrow> bool" where
  "sees segs pc rx look \<longleftrightarrow> (case look of
     Content c \<Rightarrow> \<exists>b. seg segs (rx_read_seq rx) = c @ b \<and> (pc = Reread False \<longrightarrow> b = []) | _ \<Rightarrow> True)"

definition overruns :: "(nat \<times> bytes) list \<Rightarrow> nat \<Rightarrow> read_pc \<Rightarrow> dq_receiver \<Rightarrow> bool" where
  "overruns segs ws pc rx \<longleftrightarrow> pc = Checking \<and> rx_read_seq rx < ws \<and> rest_at segs rx \<noteq> []"

lemma moved_refl: "pos_ok dec (seg segs) (maxseq segs) ws (rx_pos rx) \<Longrightarrow> moved dec segs ws rx rx"
  by (simp add: moved_def)

lemma take_line_moves:
  assumes ok: "pos_ok dec (seg segs) (maxseq segs) ws (rx_pos rx)" and line: "line = [] \<or> line = first_line (rest_at segs rx)"
  shows "take_line dec line rx = Running pc' rx' \<Longrightarrow> moved dec segs ws rx rx' \<and> (if line = [] then pc' = Checking \<and> rx' = rx else pc' = Look)"
    and "take_line dec line rx = Done r rx' \<Longrightarrow> r \<noteq> None \<and> read_result dec segs ws rx r rx'"
proof -
  let ?s = "rx_read_seq rx" and ?off = "rx_read_offset rx" and ?rx = "advance_over line rx"
  have adv: "pos_ok dec (seg segs) (maxseq segs) ws (rx_pos ?rx)" "?off + length line \<le> length (seg segs ?s)" "?s \<le> maxseq segs"
    "plt (rx_pos rx) (rx_pos ?rx)" "recs dec (seg segs) ws (rx_pos rx) =
       (case line_record dec line of Some e \<Rightarrow> [e] | None \<Rightarrow> []) @ recs dec (seg segs) ws (rx_pos ?rx)"
    if ne: "line \<noteq> []"
  proof -
    have l: "line = first_line (drop ?off (seg segs ?s))" and rest: "drop ?off (seg segs ?s) \<noteq> []"
      using line ne by (auto simp: rest_at_def)
    show "pos_ok dec (seg segs) (maxseq segs) ws (rx_pos ?rx)" "?off + length line \<le> length (seg segs ?s)"
      using pos_ok_line[OF ok[unfolded rx_pos_def] rest] l by (simp_all add: rx_pos_def advance_over_def)
    show "?s \<le> maxseq segs" using seg_beyond[of segs ?s] rest by (metis drop_Nil not_le)
    show "plt (rx_pos rx) (rx_pos ?rx)" using ne by (simp add: plt_def rx_pos_def advance_over_def)
    show "recs dec (seg segs) ws (rx_pos rx) =
       (case line_record dec line of Some e \<Rightarrow> [e] | None \<Rightarrow> []) @ recs dec (seg segs) ws (rx_pos ?rx)"
      using recs_line[where off = ?off and sg = "seg segs" and s = ?s, OF rest, of dec ws] l by (simp add: rx_pos_def advance_over_def)
  qed
  show "take_line dec line rx = Running pc' rx' \<Longrightarrow> moved dec segs ws rx rx' \<and> (if line = [] then pc' = Checking \<and> rx' = rx else pc' = Look)"
    using adv plt_ple moved_refl[OF ok] by (auto simp: take_line_def moved_def advance_over_def split: if_splits option.splits)
  show "take_line dec line rx = Done r rx' \<Longrightarrow> r \<noteq> None \<and> read_result dec segs ws rx r rx'"
    using adv plt_ple[OF adv(4)] ok by (auto simp: take_line_def read_result_def advance_over_def rx_pos_def split: if_splits option.splits)
qed

lemma seen_line:
  assumes "seg segs (rx_read_seq rx) = c @ b" "line = first_line (drop (rx_read_offset rx) c)" "\<not> incomplete line \<or> b = []"
  shows "line = [] \<or> line = first_line (rest_at segs rx)"
proof (cases "b = [] \<or> line = []")
  case False
  then have "newline \<in> set (drop (rx_read_offset rx) c)"
    using assms(2,3) complete_first_line by (auto simp: incomplete_def)
  then show ?thesis using assms(1,2) first_line_append by (simp add: rest_at_def)
qed (use assms in \<open>auto simp: rest_at_def\<close>)

lemma look_line:
  assumes "sees segs pc rx (Content c)" "line = first_line (drop (rx_read_offset rx) c)" "\<not> incomplete line \<or> pc = Reread False"
  shows "line = [] \<or> line = first_line (rest_at segs rx)"
  using assms seen_line[OF _ assms(2)] by (auto simp: sees_def)

lemma read_step_moves:
  assumes ok: "pos_ok dec (seg segs) (maxseq segs) ws (rx_pos rx)" and sees: "sees segs pc rx look" and over: "\<not> overruns segs ws pc rx"
  shows "read_step dec look ws active pc rx = Running pc' rx' \<Longrightarrow> moved dec segs ws rx rx'"
    and "read_step dec look ws active pc rx = Done r rx' \<Longrightarrow> (case r of None \<Rightarrow> rx' = rx | Some x \<Rightarrow> read_result dec segs ws rx r rx')"
proof -
  have taken: "take_line dec (first_line (drop (rx_read_offset rx) c)) rx = Running pc' rx' \<Longrightarrow> moved dec segs ws rx rx'"
      "take_line dec (first_line (drop (rx_read_offset rx) c)) rx = Done r rx' \<Longrightarrow> r \<noteq> None \<and> read_result dec segs ws rx r rx'"
    if "look = Content c" "\<not> incomplete (first_line (drop (rx_read_offset rx) c)) \<or> pc = Reread False" for c
    using take_line_moves[OF ok look_line[OF _ refl that(2)]] sees that(1) by blast+
  have next_ok: "moved dec segs ws rx (next_segment rx)" if "pc = Checking" "rx_read_seq rx < ws"
    using that over recs_next_segment[of "rx_read_offset rx" "seg segs" "rx_read_seq rx" ws dec]
    by (simp add: moved_def next_segment_def rx_pos_def ple_def overruns_def rest_at_def pos_ok_def)
  show "read_step dec look ws active pc rx = Running pc' rx' \<Longrightarrow> moved dec segs ws rx rx'"
    using taken(1) next_ok moved_refl[OF ok]
    by (cases pc) (auto simp: Let_def split: look.splits if_splits)
  show "read_step dec look ws active pc rx = Done r rx' \<Longrightarrow> (case r of None \<Rightarrow> rx' = rx | Some x \<Rightarrow> read_result dec segs ws rx r rx')"
    using taken(2)
    by (cases pc) (auto simp: Let_def split: look.splits if_splits option.splits)
qed

text \<open>Where the loop is when nothing else runs.\<close>

definition loop_at :: "(nat \<times> bytes) list \<Rightarrow> nat \<Rightarrow> bool \<Rightarrow> read_pc \<Rightarrow> dq_receiver \<Rightarrow> bool" where
  "loop_at segs ws active pc rx \<longleftrightarrow> (case pc of
     Look \<Rightarrow> True | Checking \<Rightarrow> rest_at segs rx = [] | Locking \<Rightarrow> incomplete (first_line (rest_at segs rx))
   | Reread act \<Rightarrow> incomplete (first_line (rest_at segs rx)) \<and> (act \<longleftrightarrow> rx_read_seq rx = ws \<and> active))"

lemma read_loop_result:
  assumes "pos_ok dec (seg segs) (maxseq segs) ws (rx_pos rx)" "active \<Longrightarrow> bdry (seg segs ws)" "loop_at segs ws active pc rx"
    and "read_loop dec segs ws active pc rx = (r, rx')"
  shows "read_result dec segs ws rx r rx'"
  using assms
proof (induction dec segs ws active pc rx rule: read_loop.induct)
  case (1 dec segs ws active pc rx)
  let ?s = "rx_read_seq rx" and ?look = "look_at segs (rx_read_seq rx)"
  have look: "?look = Content (seg segs ?s) \<or> ?look = Absent \<and> seg segs ?s = []" by (auto simp: look_at_def seg_def split: option.split)
  have sees: "sees segs pc rx ?look" using look by (auto simp: sees_def)
  have over: "\<not> overruns segs ws pc rx" using 1(4) by (auto simp: overruns_def loop_at_def)
  note moves = read_step_moves[OF 1(2) sees over]
  show ?case
  proof (cases "read_step dec ?look ws active pc rx")
    case (Running pc' rx1)
    have m: "moved dec segs ws rx rx1" using moves(1)[OF Running] .
    have "loop_at segs ws active pc' rx1"
      using Running look 1(4)
      by (cases pc) (auto simp: loop_at_def rest_at_def Let_def take_line_def split: if_splits option.splits)
    moreover have "read_loop dec segs ws active pc' rx1 = (r, rx')"
      using 1(5) unfolding read_loop.simps[of dec segs ws active pc rx] Running read_state.case .
    moreover have "pos_ok dec (seg segs) (maxseq segs) ws (rx_pos rx1)" using m by (simp add: moved_def)
    ultimately have "read_result dec segs ws rx1 r rx'" by (intro 1(1)[OF Running _ 1(3)])
    then show ?thesis by (rule read_result_skip) (use m in \<open>auto simp: moved_def\<close>)
  next
    case (Done r1 rx1)
    have r: "r1 = r" "rx1 = rx'"
      using 1(5) unfolding read_loop.simps[of dec segs ws active pc rx] Done read_state.case by simp_all
    show ?thesis
    proof (cases r)
      case None
      have "rest_at segs rx = [] \<and> \<not> ?s < ws"
      proof (cases pc)
        case (Reread act)
        then have inc: "incomplete (first_line (rest_at segs rx))" "act = (?s = ws \<and> active)" using 1(4) by (auto simp: loop_at_def)
        then have "?s = ws \<and> active"
          using Done None r Reread look by (auto simp: rest_at_def Let_def take_line_def incomplete_def split: if_splits option.splits)
        then have "newline \<in> set (rest_at segs rx)"
          using inc(1) 1(3) bdry_newline[OF bdry_drop] by (auto simp: rest_at_def incomplete_def)
        then show ?thesis using inc(1) complete_first_line by (auto simp: incomplete_def)
      qed (use Done None r look 1(4) in \<open>auto simp: loop_at_def Let_def take_line_def split: if_splits option.splits\<close>)
      moreover have "?s \<le> ws" using 1(2) by (simp add: pos_ok_def rx_pos_def)
      moreover have "rx' = rx" using moves(2)[OF Done] None r by simp
      ultimately show ?thesis using 1(2) None
        by (auto intro!: read_result_None simp: rx_pos_def recs_def rest_at_def)
    next
      case (Some x)
      then show ?thesis using moves(2)[OF Done] r by simp
    qed
  qed
qed

lemma try_read_next_result:
  assumes "pos_ok dec (seg segs) (maxseq segs) ws (rx_pos rx)" "active \<Longrightarrow> bdry (seg segs ws)"
    and "try_read_next dec segs ws active rx = (r, rx')"
  shows "read_result dec segs ws rx r rx'"
  using read_loop_result[OF assms(1,2), of active Look r rx'] assms(3) by (simp add: try_read_next_def loop_at_def)

text \<open>What the receiver does to the queue when it moves, and when it takes a record.\<close>

lemma reader_ok:
  assumes "dq_inv dec q"
  shows "pos_ok dec (seg (wd_segments (q_dir q))) (maxseq (wd_segments (q_dir q))) (dq_write_seq (q_state q)) (rx_pos (q_rx q))"
    and "writer_active q \<Longrightarrow> bdry (seg (wd_segments (q_dir q)) (dq_write_seq (q_state q)))"
proof -
  have "chain dec (seg (wd_segments (q_dir q))) (maxseq (wd_segments (q_dir q))) (dq_write_seq (q_state q)) (acked_pos q)
      (rx_in_flight (q_rx q)) (rx_pos (q_rx q))"
    using assms by (simp add: dq_inv_def read_pos_def rx_pos_def)
  from chain_pos_ok[OF this] show "pos_ok dec (seg (wd_segments (q_dir q))) (maxseq (wd_segments (q_dir q)))
      (dq_write_seq (q_state q)) (rx_pos (q_rx q))" by simp
  show "writer_active q \<Longrightarrow> bdry (seg (wd_segments (q_dir q)) (dq_write_seq (q_state q)))"
    using assms by (simp add: dq_inv_def wr_inv_def)
qed

lemma reader_refines:
  assumes inv: "dq_inv dec q"
    and ch: "chain dec (seg (wd_segments (q_dir q))) (maxseq (wd_segments (q_dir q))) (dq_write_seq (q_state q)) (acked_pos q)
       (rx_in_flight rx) (rx_pos rx)"
    and same: "rx_acked_seq rx = rx_acked_seq (q_rx q)" "rx_acked_offset rx = rx_acked_offset (q_rx q)"
  shows "dq_inv dec (sync_reader rx q)" "unconfirmed dec (sync_reader rx q) = unconfirmed dec q"
    "unread dec (sync_reader rx q) = rec_log dec q (rx_pos rx)"
proof -
  have eq: "acked_pos (sync_reader rx q) = acked_pos q" "rec_log dec (sync_reader rx q) = rec_log dec q"
    "pos_in dec (sync_reader rx q) = pos_in dec q" "read_pos (sync_reader rx q) = rx_pos rx"
    "unconfirmed dec (sync_reader rx q) = unconfirmed dec q"
    using same by (auto simp: queue_simps rx_pos_def)
  show "dq_inv dec (sync_reader rx q)"
    using inv ch same unfolding dq_inv_def eq by (simp add: wr_inv_def)
  show "unconfirmed dec (sync_reader rx q) = unconfirmed dec q" "unread dec (sync_reader rx q) = rec_log dec q (rx_pos rx)"
    using eq by (simp_all add: unread_def)
qed

lemma moved_refines:
  assumes inv: "dq_inv dec q" and m: "moved dec (wd_segments (q_dir q)) (dq_write_seq (q_state q)) (q_rx q) rx"
  shows "dq_inv dec (sync_reader rx q) \<and> unconfirmed dec (sync_reader rx q) = unconfirmed dec q
     \<and> unread dec (sync_reader rx q) = unread dec q"
proof -
  have "chain dec (seg (wd_segments (q_dir q))) (maxseq (wd_segments (q_dir q))) (dq_write_seq (q_state q)) (acked_pos q)
      (rx_in_flight (q_rx q)) (rx_pos (q_rx q))"
    using inv by (simp add: dq_inv_def read_pos_def rx_pos_def)
  from chain_forward[OF this] have "chain dec (seg (wd_segments (q_dir q))) (maxseq (wd_segments (q_dir q)))
      (dq_write_seq (q_state q)) (acked_pos q) (rx_in_flight rx) (rx_pos rx)"
    using m by (simp add: moved_def)
  from reader_refines[OF inv this] show ?thesis using m by (simp add: moved_def unread_def rec_log_def read_pos_def rx_pos_def)
qed

lemma read_refines:
  assumes inv: "dq_inv dec q" and res: "read_result dec (wd_segments (q_dir q)) (dq_write_seq (q_state q)) (q_rx q) r rx"
  shows "dq_inv dec (sync_reader rx q) \<and> unconfirmed dec (sync_reader rx q) = unconfirmed dec q
     \<and> (case r of None \<Rightarrow> unread dec q = [] \<and> unread dec (sync_reader rx q) = []
        | Some (e, _) \<Rightarrow> unread dec q = e # unread dec (sync_reader rx q))"
proof -
  let ?segs = "wd_segments (q_dir q)" and ?ws = "dq_write_seq (q_state q)"
  let ?ch = "chain dec (seg ?segs) (maxseq ?segs) ?ws (acked_pos q)"
  have ch: "?ch (rx_in_flight (q_rx q)) (rx_pos (q_rx q))"
    using inv by (simp add: dq_inv_def read_pos_def rx_pos_def)
  have ch': "?ch (rx_in_flight rx) (rx_pos rx)"
  proof (cases r)
    case None
    then show ?thesis using res chain_forward[OF ch] by (simp add: read_result_def)
  next
    case (Some a)
    then obtain f where f: "rx_in_flight rx = rx_in_flight (q_rx q) @ [f]" "end_pos f = rx_pos rx"
      "pos_ok dec (seg ?segs) (maxseq ?segs) ?ws (start_pos f)" "ple (rx_pos (q_rx q)) (start_pos f)"
      "plt (start_pos f) (end_pos f)" "if_end_seq f \<le> maxseq ?segs" "if_end_offset f \<le> length (seg ?segs (if_end_seq f))"
      "recs dec (seg ?segs) ?ws (rx_pos (q_rx q)) = recs dec (seg ?segs) ?ws (start_pos f)"
      "recs dec (seg ?segs) ?ws (start_pos f) = fst a # recs dec (seg ?segs) ?ws (end_pos f)"
      using res by (cases a) (auto simp: read_result_def)
    moreover have "pos_ok dec (seg ?segs) (maxseq ?segs) ?ws (end_pos f)" using res f(2) by (simp add: read_result_def)
    ultimately show ?thesis using chain_snoc[OF ch f(3) _ f(4-9)] by simp
  qed
  have "rx_acked_seq rx = rx_acked_seq (q_rx q)" "rx_acked_offset rx = rx_acked_offset (q_rx q)"
    using res by (simp_all add: read_result_def)
  from reader_refines[OF inv ch' this] show ?thesis
    using res by (auto simp: read_result_def unread_def rec_log_def read_pos_def rx_pos_def split: option.splits)
qed

lemma recv_refines:
  assumes inv: "dq_inv dec q" and r: "dq_recv dec q = (r, q')"
  shows "dq_inv dec q' \<and> unconfirmed dec q' = unconfirmed dec q
     \<and> (case r of None \<Rightarrow> unread dec q = [] \<and> unread dec q' = [] | Some (e, _) \<Rightarrow> unread dec q = e # unread dec q')"
proof -
  obtain rx where t: "try_read_next dec (wd_segments (q_dir q)) (dq_write_seq (q_state q)) (writer_active q) (q_rx q) = (r, rx)"
    and q': "q' = sync_reader rx q"
    using r by (auto simp: dq_recv_def split: prod.splits)
  show ?thesis unfolding q' by (rule read_refines[OF inv try_read_next_result[OF reader_ok[OF inv] t]])
qed

subsection \<open>The cursor file\<close>

lemma is_digit_not: "is_digit c \<Longrightarrow> c \<noteq> CHR ''+'' \<and> c \<noteq> CHR '':'' \<and> \<not> is_space c"
  by (auto simp: is_digit_def is_space_def)

lemma parse_nat_digits: "n < 2 ^ 64 \<Longrightarrow> parse_u64 (nat_digits n) = n"
proof -
  assume n: "n < 2 ^ 64"
  obtain c cs where d: "nat_digits n = c # cs" "list_all is_digit (c # cs)"
    using nat_digits_digits[of n] by (cases "nat_digits n") auto
  then have "c \<noteq> CHR ''+''" "digits_val (c # cs) = n"
    using is_digit_not[of c] digits_val_nat_digits[of n] by auto
  then show ?thesis using n d by (simp add: parse_u64_def Let_def)
qed

lemma split_on_free: "sep \<notin> set a \<Longrightarrow> split_on sep a = [a]"
  by (induction a) auto

lemma split_on_one: "sep \<notin> set a \<Longrightarrow> sep \<notin> set b \<Longrightarrow> split_on sep (a @ sep # b) = [a, b]"
  by (induction a) (auto simp: split_on_free)

lemma trim_id: "s \<noteq> [] \<Longrightarrow> \<not> is_space (hd s) \<Longrightarrow> \<not> is_space (last s) \<Longrightarrow> trim s = s"
proof -
  assume s: "s \<noteq> []" "\<not> is_space (hd s)" "\<not> is_space (last s)"
  then have "dropWhile is_space s = s" by (cases s) auto
  moreover have "dropWhile is_space (rev s) = rev s" using s by (cases s rule: rev_cases) auto
  ultimately show ?thesis by (simp add: trim_def)
qed

lemma load_save_cursor:
  assumes "seq < 2 ^ 64" "off < 2 ^ 64"
  shows "load_cursor (save_cursor True seq off dir) = (seq, off)"
proof -
  have d: "list_all is_digit (nat_digits n)" "nat_digits n \<noteq> []" for n using nat_digits_digits by auto
  then have c: "CHR '':'' \<notin> set (nat_digits n)" for n using is_digit_not by (auto simp: list_all_iff)
  have "\<not> is_space (hd (nat_digits n))" "\<not> is_space (last (nat_digits n))" for n
    using d[of n] is_digit_not by (auto simp: list_all_iff)
  then have "trim (cursor_text seq off) = cursor_text seq off"
    using d by (intro trim_id) (auto simp: cursor_text_def)
  then show ?thesis
    using split_on_one[OF c c, of seq off] assms
    by (simp add: load_cursor_def save_cursor_def cursor_text_def parse_nat_digits)
qed

lemma save_cursor_segments [simp]: "wd_segments (save_cursor saved s off dir) = wd_segments dir"
  by (simp add: save_cursor_def)

subsection \<open>Acknowledging\<close>

text \<open>The sizes and sequence numbers that exist fit the program's 64-bit counters.\<close>

definition fits_u64 :: "(nat \<times> bytes) list \<Rightarrow> bool" where
  "fits_u64 segs \<longleftrightarrow> (\<forall>(s, c)\<in>set segs. s < 2 ^ 64 \<and> length c < 2 ^ 64)"

lemma fits_pos:
  assumes "fits_u64 segs" "s \<le> maxseq segs" "off \<le> length (seg segs s)"
  shows "s < 2 ^ 64 \<and> off < 2 ^ 64"
proof -
  have "maxseq segs < 2 ^ 64" using maxseq_key[of segs] assms(1) by (auto simp: fits_u64_def keys_def)
  moreover have "length (seg segs s) < 2 ^ 64"
    using assms(1) by (auto simp: seg_def fits_u64_def dest!: map_of_SomeD split: option.splits)
  ultimately show ?thesis using assms(2,3) by linarith
qed

text \<open>Moving the acknowledged position forward over confirmed records.\<close>

lemma advance_refines:
  assumes inv: "dq_inv dec q" and fits: "saved \<longrightarrow> fits_u64 (wd_segments (q_dir q))"
    and ch: "chain dec (seg (wd_segments (q_dir q))) (maxseq (wd_segments (q_dir q))) (dq_write_seq (q_state q))
      (s, off) fs (read_pos q)"
    and adv: "ple (acked_pos q) (s, off)" "s \<le> maxseq (wd_segments (q_dir q))" "off \<le> length (seg (wd_segments (q_dir q)) s)"
    and es: "unconfirmed dec q = es @ rec_log dec q (s, off)"
    and q': "q' = q\<lparr>q_rx := (q_rx q)\<lparr>rx_in_flight := fs, rx_acked_seq := s, rx_acked_offset := off\<rparr>,
       q_state := (q_state q)\<lparr>dq_acked_seq := s\<rparr>,
       q_dir := save_cursor saved s off ((q_dir q)
         \<lparr>wd_segments := remove_segments stuck (rx_acked_seq (q_rx q)) s (wd_segments (q_dir q))\<rparr>)\<rparr>"
  shows "dq_inv dec q' \<and> unconfirmed dec q = es @ unconfirmed dec q' \<and> unread dec q' = unread dec q"
proof -
  let ?segs = "wd_segments (q_dir q)" and ?segs' = "wd_segments (q_dir q')" and ?ws = "dq_write_seq (q_state q)"
  let ?c = "load_cursor (q_dir q)"
  note inv' = inv[unfolded dq_inv_def]
  have pr: "pruned s ?segs ?segs'" using inv' q' by (simp add: wr_inv_def pruned_remove_segments)
  have ext: "log_ext dec s [] ?segs ?ws ?segs' ?ws" by (rule prune_ext[OF pr adv(2)])
  have pos: "acked_pos q' = (s, off)" "read_pos q' = read_pos q" "dq_write_seq (q_state q') = ?ws"
    by (simp_all add: q' acked_pos_def read_pos_def)
  have mv: "pos_in dec q p \<Longrightarrow> pos_in dec q' p"
    "pos_in dec q p \<Longrightarrow> s \<le> fst p \<Longrightarrow> rec_log dec q' p = rec_log dec q p" for p
    using ext by (cases p; simp add: log_ext_def pos_in_def rec_log_def pos)+
  have ok: "pos_in dec q (s, off)" "pos_in dec q (read_pos q)" "s \<le> fst (read_pos q)"
    using chain_pos_ok[OF ch] chain_le[OF ch] by (auto simp: pos_in_def ple_def)
  have same: "unconfirmed dec q = es @ unconfirmed dec q'" "unread dec q' = unread dec q"
    using es mv(2)[OF ok(1)] mv(2)[OF ok(2,3)] by (simp_all add: unconfirmed_def unread_def pos)
  have ch': "chain dec (seg ?segs') (maxseq ?segs') ?ws (s, off) fs (read_pos q)"
    using ext by (intro chain_transfer[OF ch]) (auto simp: log_ext_def)
  have wr: "wr_inv (q_state q') ?segs'"
    using wr_inv_pruned[OF _ pr adv(2), of "q_state q"] inv' by (simp add: q' wr_inv_def)
  have cur: "pos_in dec q' (load_cursor (q_dir q')) \<and> ple (load_cursor (q_dir q')) (s, off)
     \<and> (\<exists>extra. rec_log dec q' (load_cursor (q_dir q')) = extra @ unconfirmed dec q')"
  proof (cases saved)
    case True
    then have "load_cursor (q_dir q') = (s, off)"
      using load_save_cursor fits_pos[OF _ adv(2,3)] fits by (simp add: q')
    then show ?thesis using mv(1)[OF ok(1)] by (simp add: unconfirmed_def pos)
  next
    case False
    then have c: "load_cursor (q_dir q') = ?c" by (simp add: q' save_cursor_def load_cursor_def)
    have le: "ple ?c (s, off)" using inv' adv(1) ple_trans by blast
    have "\<exists>extra. rec_log dec q' ?c = extra @ unconfirmed dec q'"
    proof (cases "fst ?c < s")
      case True
      then show ?thesis using rec_log_split[OF mv(1)[OF ok(1)], of ?c] by (simp add: unconfirmed_def pos)
    next
      case False
      then show ?thesis using inv' mv(2)[of ?c] same(1) by fastforce
    qed
    then show ?thesis using c le mv(1)[of ?c] inv' by simp
  qed
  have "dq_acked_seq (q_state q') = s" "rx_acked_seq (q_rx q') = s" "rx_in_flight (q_rx q') = fs"
    "dq_read_seq (q_state q') = rx_read_seq (q_rx q')" using inv' by (simp_all add: q')
  then have "dq_inv dec q'"
    unfolding dq_inv_def pos using wr cur ch' adv(2) pruned_maxseq[OF pr adv(2)] by simp
  then show ?thesis using same by simp
qed

lemma ack_refines:
  assumes inv: "dq_inv dec q" and fs: "mark_acked seq off (rx_in_flight (q_rx q)) = Some fs"
    and fits: "saved \<longrightarrow> fits_u64 (wd_segments (q_dir q))" and q': "ack_to stuck saved seq off q = q'"
  shows "dq_inv dec q' \<and> rx_in_flight (q_rx q') = dropWhile if_acked fs
     \<and> unconfirmed dec q' = drop (length (takeWhile if_acked fs)) (unconfirmed dec q) \<and> unread dec q' = unread dec q"
proof -
  let ?rx = "q_rx q" and ?segs = "wd_segments (q_dir q)"
  let ?ch = "chain dec (seg ?segs) (maxseq ?segs) (dq_write_seq (q_state q))"
  have ch: "?ch (acked_pos q) fs (read_pos q)" using inv by (simp add: dq_inv_def chain_mark[OF fs])
  have len: "length (takeWhile if_acked fs) + length (dropWhile if_acked fs) = length fs"
    by (metis length_append takeWhile_dropWhile_id)
  show ?thesis
  proof (cases "fst (pop_acked None fs)")
    case None
    then have fs': "dropWhile if_acked fs = fs" by (simp add: pop_acked_None)
    have "pop_acked None fs = (None, fs)" using None pop_acked_drop[of None fs] fs' by (metis prod.collapse)
    then have q'': "q' = q\<lparr>q_rx := ?rx\<lparr>rx_in_flight := fs\<rparr>\<rparr>" using q' fs by (simp add: ack_to_def)
    have same: "acked_pos q' = acked_pos q" "read_pos q' = read_pos q" "rec_log dec q' = rec_log dec q"
      "pos_in dec q' = pos_in dec q" "unconfirmed dec q' = unconfirmed dec q" "unread dec q' = unread dec q"
      by (simp_all add: q'' queue_simps)
    have "dq_inv dec q'" using inv ch unfolding dq_inv_def same by (simp add: q'')
    then show ?thesis using same fs' len by (simp add: q'')
  next
    case (Some p)
    then have pop: "pop_acked None fs = (Some p, dropWhile if_acked fs)"
      using pop_acked_drop[of None fs] by (metis prod.collapse)
    have p: "?ch p (dropWhile if_acked fs) (read_pos q)" "ple (acked_pos q) p" "plt (acked_pos q) p" "fst p \<le> maxseq ?segs"
      "snd p \<le> length (seg ?segs (fst p))"
      and ex: "\<exists>es. length es + length (dropWhile if_acked fs) = length fs \<and> unconfirmed dec q = es @ rec_log dec q p"
      using pop_acked_chain[OF ch pop] by (simp_all add: unconfirmed_def rec_log_def)
    obtain es where es: "length es = length (takeWhile if_acked fs)" "unconfirmed dec q = es @ rec_log dec q p"
      using ex len by (metis add_right_cancel)
    have "\<not> (fst p = rx_acked_seq ?rx \<and> snd p = rx_acked_offset ?rx)" using p(3) by (auto simp: plt_def acked_pos_def)
    then have q'': "q' = q\<lparr>q_rx := ?rx\<lparr>rx_in_flight := dropWhile if_acked fs, rx_acked_seq := fst p, rx_acked_offset := snd p\<rparr>,
       q_state := (q_state q)\<lparr>dq_acked_seq := fst p\<rparr>,
       q_dir := save_cursor saved (fst p) (snd p) ((q_dir q)
         \<lparr>wd_segments := remove_segments stuck (rx_acked_seq ?rx) (fst p) ?segs\<rparr>)\<rparr>"
      using q' fs pop by (cases p) (auto simp: ack_to_def Let_def)
    have "dq_inv dec q' \<and> unconfirmed dec q = es @ unconfirmed dec q' \<and> unread dec q' = unread dec q"
      using p es(2) by (intro advance_refines[OF inv fits _ _ _ _ _ q'']) auto
    then show ?thesis using es(1) by (simp add: q'')
  qed
qed

lemma ack_unknown: "mark_acked seq off (rx_in_flight (q_rx q)) = None \<Longrightarrow> ack_to stuck saved seq off q = q"
  by (simp add: ack_to_def Let_def)

subsection \<open>Opening and restarting\<close>

lemma create_fields:
  "q_dir (create_disk_queue m dir) = dir" "dq_write_seq (q_state (create_disk_queue m dir)) = maxseq (wd_segments dir)"
  "acked_pos (create_disk_queue m dir) = load_cursor dir" "read_pos (create_disk_queue m dir) = load_cursor dir"
  "rx_in_flight (q_rx (create_disk_queue m dir)) = []" "\<not> dq_write_open (q_state (create_disk_queue m dir))"
  "dq_acked_seq (q_state (create_disk_queue m dir)) = fst (load_cursor dir)"
  "dq_read_seq (q_state (create_disk_queue m dir)) = fst (load_cursor dir)"
  by (simp_all add: create_disk_queue_def recover_state_def acked_pos_def read_pos_def maxseq_def split: prod.split)

text \<open>A directory a queue may be opened on.\<close>

definition dir_ok :: "(bytes \<Rightarrow> 'e option) \<Rightarrow> wal_dir \<Rightarrow> bool" where
  "dir_ok dec dir \<longleftrightarrow> distinct (map fst (wd_segments dir))
     \<and> pos_ok dec (seg (wd_segments dir)) (maxseq (wd_segments dir)) (maxseq (wd_segments dir)) (load_cursor dir)"

lemma create_inv:
  assumes "dir_ok dec dir"
  shows "dq_inv dec (create_disk_queue m dir)"
    and "unconfirmed dec (create_disk_queue m dir) = recs dec (seg (wd_segments dir)) (maxseq (wd_segments dir)) (load_cursor dir)"
    and "unread dec (create_disk_queue m dir) = unconfirmed dec (create_disk_queue m dir)"
proof -
  let ?q = "create_disk_queue m dir"
  have rx: "rx_acked_seq (q_rx ?q) = fst (load_cursor dir)" "rx_read_seq (q_rx ?q) = fst (load_cursor dir)"
    using create_fields(3,4)[of m dir] unfolding acked_pos_def read_pos_def by (metis fst_conv)+
  show "dq_inv dec ?q" using assms rx
    by (simp add: dq_inv_def create_fields rec_log_def pos_in_def unconfirmed_def wr_inv_def dir_ok_def) (simp add: pos_ok_def)
  show "unconfirmed dec ?q = recs dec (seg (wd_segments dir)) (maxseq (wd_segments dir)) (load_cursor dir)"
    "unread dec ?q = unconfirmed dec ?q"
    by (simp_all add: unconfirmed_def unread_def rec_log_def create_fields)
qed

lemma empty_dir_ok: "dir_ok dec \<lparr>wd_segments = [], wd_cursor = None\<rparr>"
  by (simp add: dir_ok_def load_cursor_def pos_ok_def maxseq_def seg_def)

text \<open>Whatever the process was doing, opening the directory again replays every unconfirmed record.\<close>

lemma restart_refines:
  assumes inv: "dq_inv dec q" and q': "q' = create_disk_queue m (q_dir q)"
  shows "dq_inv dec q' \<and> (\<exists>extra. unconfirmed dec q' = extra @ unconfirmed dec q) \<and> unread dec q' = unconfirmed dec q'"
proof -
  let ?segs = "wd_segments (q_dir q)" and ?c = "load_cursor (q_dir q)"
  note inv' = inv[unfolded dq_inv_def]
  have c: "fst ?c \<le> maxseq ?segs" using inv' by (auto simp: ple_def acked_pos_def)
  then have ok: "dir_ok dec (q_dir q)" using inv' by (auto simp: dir_ok_def wr_inv_def pos_in_def pos_ok_def)
  have "recs dec (seg ?segs) (dq_write_seq (q_state q)) ?c = recs dec (seg ?segs) (maxseq ?segs) ?c"
    using inv' c by (intro recs_wider) (auto simp: wr_inv_def seg_beyond)
  then have "\<exists>extra. unconfirmed dec q' = extra @ unconfirmed dec q"
    using inv' create_inv(2)[OF ok] by (simp add: q' rec_log_def)
  then show ?thesis using create_inv[OF ok] q' by simp
qed

subsection \<open>Sequences of operations\<close>

text \<open>
  One operation of a process on the queue. A crash in the middle of an operation leaves what the
  operation with the matching fault leaves (a short write, a cursor that was not replaced), followed
  by \<open>Restart\<close>.
\<close>

datatype dq_op = Send write_fault "nat \<Rightarrow> bool" bytes | Recv | Ack "nat \<Rightarrow> bool" bool nat nat | Close | Restart nat

fun dq_step :: "(bytes \<Rightarrow> 'e option) \<Rightarrow> dq_op \<Rightarrow> disk_queue \<Rightarrow> disk_queue" where
  "dq_step dec (Send fault stuck data) q = snd (dq_send fault stuck data q)"
| "dq_step dec Recv q = snd (dq_recv dec q)"
| "dq_step dec (Ack stuck saved seq off) q = ack_to stuck saved seq off q"
| "dq_step dec Close q = q\<lparr>q_closed := True\<rparr>"
| "dq_step dec (Restart m) q = create_disk_queue m (q_dir q)"

text \<open>Records are single lines; a replaced cursor was written with 64-bit numbers.\<close>

fun dq_allowed :: "dq_op \<Rightarrow> disk_queue \<Rightarrow> bool" where
  "dq_allowed (Send fault stuck data) q \<longleftrightarrow> newline \<notin> set data"
| "dq_allowed (Ack stuck saved seq off) q \<longleftrightarrow> saved \<longrightarrow> fits_u64 (wd_segments (q_dir q))"
| "dq_allowed _ q \<longleftrightarrow> True"

text \<open>The records an operation accepted, handed out, and confirmed.\<close>

fun dq_sent :: "(bytes \<Rightarrow> 'e option) \<Rightarrow> dq_op \<Rightarrow> disk_queue \<Rightarrow> 'e list" where
  "dq_sent dec (Send fault stuck data) q =
     (if fst (dq_send fault stuck data q) then records dec (data @ [newline]) else [])"
| "dq_sent dec _ q = []"

fun dq_delivered :: "(bytes \<Rightarrow> 'e option) \<Rightarrow> dq_op \<Rightarrow> disk_queue \<Rightarrow> 'e list" where
  "dq_delivered dec Recv q = (case fst (dq_recv dec q) of Some (e, _) \<Rightarrow> [e] | None \<Rightarrow> [])"
| "dq_delivered dec _ q = []"

fun dq_confirmed :: "(bytes \<Rightarrow> 'e option) \<Rightarrow> dq_op \<Rightarrow> disk_queue \<Rightarrow> 'e list" where
  "dq_confirmed dec (Ack stuck saved seq off) q = (case mark_acked seq off (rx_in_flight (q_rx q)) of
     Some fs \<Rightarrow> take (length (takeWhile if_acked fs)) (unconfirmed dec q) | None \<Rightarrow> [])"
| "dq_confirmed dec _ q = []"

fun run_ops :: "('op \<Rightarrow> 'q \<Rightarrow> 'q) \<Rightarrow> 'op list \<Rightarrow> 'q \<Rightarrow> 'q" where
  "run_ops step [] q = q"
| "run_ops step (op # ops) q = run_ops step ops (step op q)"

fun observe :: "('op \<Rightarrow> 'q \<Rightarrow> 'e list) \<Rightarrow> ('op \<Rightarrow> 'q \<Rightarrow> 'q) \<Rightarrow> 'op list \<Rightarrow> 'q \<Rightarrow> 'e list" where
  "observe obs step [] q = []"
| "observe obs step (op # ops) q = obs op q @ observe obs step ops (step op q)"

fun all_allowed :: "('op \<Rightarrow> 'q \<Rightarrow> bool) \<Rightarrow> ('op \<Rightarrow> 'q \<Rightarrow> 'q) \<Rightarrow> 'op list \<Rightarrow> 'q \<Rightarrow> bool" where
  "all_allowed ok step [] q \<longleftrightarrow> True"
| "all_allowed ok step (op # ops) q \<longleftrightarrow> ok op q \<and> all_allowed ok step ops (step op q)"

text \<open>The contract of an at-least-once queue, and what it gives for whole runs.\<close>

locale at_least_once =
  fixes inv :: "'q \<Rightarrow> bool" and unconfirmed :: "'q \<Rightarrow> 'e list" and step :: "'op \<Rightarrow> 'q \<Rightarrow> 'q"
    and ok :: "'op \<Rightarrow> 'q \<Rightarrow> bool" and sent :: "'op \<Rightarrow> 'q \<Rightarrow> 'e list" and confirmed :: "'op \<Rightarrow> 'q \<Rightarrow> 'e list"
  assumes step_inv: "inv q \<Longrightarrow> ok op q \<Longrightarrow> inv (step op q)"
    and step_keeps: "inv q \<Longrightarrow> ok op q \<Longrightarrow>
      \<exists>extra more. extra @ unconfirmed q @ sent op q @ more = confirmed op q @ unconfirmed (step op q)"
begin

lemma step_account:
  assumes "inv q" "ok op q"
  shows "mset (unconfirmed q) + mset (sent op q) \<subseteq># mset (confirmed op q) + mset (unconfirmed (step op q))"
proof -
  obtain extra more where "extra @ unconfirmed q @ sent op q @ more = confirmed op q @ unconfirmed (step op q)"
    using step_keeps[OF assms] by blast
  then have "mset (confirmed op q) + mset (unconfirmed (step op q))
      = mset (unconfirmed q) + mset (sent op q) + (mset extra + mset more)"
    by (metis (no_types) mset_append union_assoc union_commute)
  then show ?thesis by simp
qed

lemma run_inv: "inv q \<Longrightarrow> all_allowed ok step ops q \<Longrightarrow> inv (run_ops step ops q)"
  by (induction ops arbitrary: q) (auto simp: step_inv)

lemma run_account:
  "inv q \<Longrightarrow> all_allowed ok step ops q \<Longrightarrow>
     mset (unconfirmed q) + mset (observe sent step ops q)
       \<subseteq># mset (observe confirmed step ops q) + mset (unconfirmed (run_ops step ops q))"
proof (induction ops arbitrary: q)
  case (Cons op ops)
  then have "inv (step op q)" by (simp add: step_inv)
  with Cons have IH: "mset (unconfirmed (step op q)) + mset (observe sent step ops (step op q))
      \<subseteq># mset (observe confirmed step ops (step op q)) + mset (unconfirmed (run_ops step ops (step op q)))" by simp
  have "mset (unconfirmed q) + mset (sent op q) \<subseteq># mset (confirmed op q) + mset (unconfirmed (step op q))"
    using Cons.prems by (simp add: step_account)
  from subset_mset.add_mono[OF this IH] show ?case
    by (simp add: ac_simps)
qed simp

end

text \<open>The disk queue is such a queue, crashes and restarts included.\<close>

interpretation dq: at_least_once "dq_inv dec" "unconfirmed dec" "dq_step dec" dq_allowed "dq_sent dec" "dq_confirmed dec"
  for dec :: "bytes \<Rightarrow> 'e option"
proof
  fix q op assume inv: "dq_inv dec q" and ok: "dq_allowed op q"
  have [simp]: "\<exists>extra more. extra @ xs @ more = xs" "\<exists>extra more. extra @ xs @ more = zs @ xs" for xs zs :: "'e list"
    by (metis append_Nil append_Nil2)+
  have "dq_inv dec (dq_step dec op q) \<and>
      (\<exists>extra more. extra @ unconfirmed dec q @ dq_sent dec op q @ more = dq_confirmed dec op q @ unconfirmed dec (dq_step dec op q))"
  proof (cases op)
    case (Send fault stuck data)
    obtain sok q' where q': "dq_send fault stuck data q = (sok, q')" by fastforce
    then obtain new where "dq_inv dec q'" "unconfirmed dec q' = unconfirmed dec q @ new" "sok \<longrightarrow> new = records dec (data @ [newline])"
      using send_refines[OF inv q'] ok Send by auto
    then show ?thesis
      using Send q' by (intro conjI exI[of _ "[]"] exI[of _ "if sok then [] else new"]) auto
  next
    case Recv
    obtain r q' where q': "dq_recv dec q = (r, q')" by fastforce
    then show ?thesis using recv_refines[OF inv q'] Recv by simp
  next
    case (Ack stuck saved seq off)
    show ?thesis
    proof (cases "mark_acked seq off (rx_in_flight (q_rx q))")
      case None
      then show ?thesis using inv Ack ack_unknown by simp
    next
      case (Some fs)
      then show ?thesis using ack_refines[OF inv Some _ refl] ok Ack append_take_drop_id by simp
    qed
  next
    case Close
    have "dq_inv dec (q\<lparr>q_closed := True\<rparr>) \<and> unconfirmed dec (q\<lparr>q_closed := True\<rparr>) = unconfirmed dec q"
      using inv by (simp add: dq_inv_def queue_simps)
    then show ?thesis using Close by simp
  next
    case (Restart m)
    then show ?thesis using restart_refines[OF inv refl, of m] by auto
  qed
  then show "dq_inv dec (dq_step dec op q)"
    "\<exists>extra more. extra @ unconfirmed dec q @ dq_sent dec op q @ more = dq_confirmed dec op q @ unconfirmed dec (dq_step dec op q)"
    by auto
qed

text \<open>Reading alone hands out what is unread, in order.\<close>

lemma drain:
  "dq_inv dec q \<Longrightarrow> observe (dq_delivered dec) (dq_step dec) (replicate n Recv) q = take n (unread dec q)"
proof (induction n arbitrary: q)
  case (Suc n)
  obtain r q' where q': "dq_recv dec q = (r, q')" by fastforce
  note res = recv_refines[OF Suc.prems q']
  then have "observe (dq_delivered dec) (dq_step dec) (replicate n Recv) q' = take n (unread dec q')"
    by (simp add: Suc.IH)
  then show ?case using res q' by (cases r) auto
qed simp

end
