(* ===== verification/Queue.thy ===== *)
theory Queue
  imports Event Metrics DiskQueue_Spec
begin

section \<open>Output queues\<close>

text \<open>
  The queue between a pipeline and an output (\<open>queue/mod.rs\<close>): the memory channel or the disk queue
  behind one sender and one receiver, the adaptive spin controller of the receiver, the handles an
  output resolves, and the retry policy. The disk queue's decoder and the serializer are arguments.
  The latch of \<open>shutdown_progress.rs\<close> is here as well.
\<close>

subsection \<open>Spin controller\<close>

definition spin_cap :: nat where "spin_cap = 128"

definition evidence_stale_after :: nat where "evidence_stale_after = 16"

definition pseudo_hit_park_ns :: nat where "pseudo_hit_park_ns = 10000"

definition u32_max :: nat where "u32_max = 2 ^ 32 - 1"

record spin_controller =
  sc_budget :: nat
  sc_evidence :: nat
  sc_age :: nat

definition spin_new :: spin_controller where
  "spin_new = \<lparr>sc_budget = 0, sc_evidence = 0, sc_age = 0\<rparr>"

definition should_spin :: "spin_controller \<Rightarrow> nat option" where
  "should_spin c = (if 0 < sc_budget c then Some (sc_budget c) else None)"

text \<open>\<open>budget.max(1).saturating_mul(2).min(SPIN_CAP)\<close>.\<close>

definition grow_budget :: "nat \<Rightarrow> nat" where
  "grow_budget b = min (min (max b 1 * 2) u32_max) spin_cap"

definition record_hit :: "nat \<Rightarrow> spin_controller \<Rightarrow> spin_controller" where
  "record_hit iterations c =
     c\<lparr>sc_evidence := max (sc_evidence c) iterations, sc_age := 0, sc_budget := grow_budget (sc_budget c)\<rparr>"

definition record_spin_miss :: "spin_controller \<Rightarrow> spin_controller" where
  "record_spin_miss c =
     (let age = min (sc_age c + 1) u32_max;
          (evidence, age) = (if evidence_stale_after \<le> age then (sc_evidence c div 2, 0) else (sc_evidence c, age));
          proposed = sc_budget c div 2
      in c\<lparr>sc_evidence := evidence, sc_age := age,
           sc_budget := (if proposed < evidence then min evidence (sc_budget c) else proposed)\<rparr>)"

definition record_park :: "nat \<Rightarrow> spin_controller \<Rightarrow> spin_controller" where
  "record_park parked_ns c =
     (if parked_ns < pseudo_hit_park_ns
      then let b = grow_budget (sc_budget c)
           in c\<lparr>sc_budget := b, sc_evidence := max (sc_evidence c) b, sc_age := 0\<rparr>
      else c)"

text \<open>The budget never exceeds the cap; evidence comes from a spin within the budget.\<close>

definition spin_ok :: "spin_controller \<Rightarrow> bool" where
  "spin_ok c \<longleftrightarrow> sc_budget c \<le> spin_cap \<and> sc_evidence c \<le> spin_cap \<and> sc_age c < evidence_stale_after"

lemma grow_budget_bounds: "1 \<le> grow_budget b" "grow_budget b \<le> spin_cap" "b \<le> spin_cap \<Longrightarrow> b \<le> grow_budget b"
  by (auto simp: grow_budget_def spin_cap_def u32_max_def)

lemma spin_new_ok: "spin_ok spin_new"
  by (simp add: spin_ok_def spin_new_def evidence_stale_after_def)

lemma record_hit_ok: "spin_ok c \<Longrightarrow> i \<le> sc_budget c \<Longrightarrow> spin_ok (record_hit i c)"
  by (auto simp: spin_ok_def record_hit_def grow_budget_bounds evidence_stale_after_def)

lemma record_park_ok: "spin_ok c \<Longrightarrow> spin_ok (record_park ns c)"
  by (auto simp: spin_ok_def record_park_def Let_def grow_budget_bounds evidence_stale_after_def)

lemma record_spin_miss_ok: "spin_ok c \<Longrightarrow> spin_ok (record_spin_miss c)"
  by (auto simp: spin_ok_def record_spin_miss_def Let_def evidence_stale_after_def spin_cap_def u32_max_def)

text \<open>A miss never raises the budget, and never takes it below the fresh evidence it had.\<close>

lemma record_spin_miss_budget:
  "sc_budget (record_spin_miss c) \<le> sc_budget c"
  "Suc (sc_age c) < evidence_stale_after \<Longrightarrow> min (sc_evidence c) (sc_budget c) \<le> sc_budget (record_spin_miss c)"
  by (auto simp: record_spin_miss_def Let_def evidence_stale_after_def u32_max_def)

lemma record_spin_miss_fresh:
  "Suc (sc_age c) < evidence_stale_after \<Longrightarrow>
     sc_evidence (record_spin_miss c) = sc_evidence c \<and> sc_age (record_spin_miss c) = Suc (sc_age c)"
  by (auto simp: record_spin_miss_def Let_def evidence_stale_after_def u32_max_def)

lemma record_spin_miss_stale:
  "Suc (sc_age c) = evidence_stale_after \<Longrightarrow>
     sc_evidence (record_spin_miss c) = sc_evidence c div 2 \<and> sc_age (record_spin_miss c) = 0"
  by (auto simp: record_spin_miss_def Let_def evidence_stale_after_def u32_max_def)

lemma spin_misses_ok: "spin_ok c \<Longrightarrow> spin_ok ((record_spin_miss ^^ n) c)"
  by (induction n) (auto simp: record_spin_miss_ok)

lemma spin_misses_fresh:
  "n + sc_age c < evidence_stale_after \<Longrightarrow>
     sc_evidence ((record_spin_miss ^^ n) c) = sc_evidence c \<and> sc_age ((record_spin_miss ^^ n) c) = sc_age c + n"
  by (induction n) (simp_all add: record_spin_miss_fresh)

lemma record_spin_miss_evidence: "sc_evidence (record_spin_miss c) \<le> sc_evidence c"
  by (auto simp: record_spin_miss_def Let_def)

lemma spin_misses_evidence: "sc_evidence ((record_spin_miss ^^ n) c) \<le> sc_evidence c"
  by (induction n) (auto intro: order_trans[OF record_spin_miss_evidence])

text \<open>Within sixteen misses the evidence halves; without evidence every miss halves the budget.\<close>

lemma spin_misses_halve:
  assumes "spin_ok c"
  shows "sc_evidence ((record_spin_miss ^^ evidence_stale_after) c) \<le> sc_evidence c div 2"
proof -
  let ?k = "evidence_stale_after - 1 - sc_age c"
  let ?c = "(record_spin_miss ^^ ?k) c"
  have age: "sc_age c < evidence_stale_after" using assms by (simp add: spin_ok_def)
  then have "sc_evidence ?c = sc_evidence c" "Suc (sc_age ?c) = evidence_stale_after"
    using spin_misses_fresh[of ?k c] by auto
  then have half: "sc_evidence (record_spin_miss ?c) = sc_evidence c div 2"
    using record_spin_miss_stale[of ?c] by simp
  have "evidence_stale_after = sc_age c + Suc ?k" using age by simp
  then have "(record_spin_miss ^^ evidence_stale_after) c = (record_spin_miss ^^ sc_age c) (record_spin_miss ?c)"
    by (metis comp_apply funpow.simps(2) funpow_add)
  then show ?thesis using spin_misses_evidence[of "sc_age c" "record_spin_miss ?c"] half by simp
qed

lemma spin_misses_evidence_pow:
  "spin_ok c \<Longrightarrow> sc_evidence ((record_spin_miss ^^ (k * evidence_stale_after)) c) \<le> sc_evidence c div 2 ^ k"
proof (induction k)
  case (Suc k)
  let ?c = "(record_spin_miss ^^ (k * evidence_stale_after)) c"
  have "(record_spin_miss ^^ (Suc k * evidence_stale_after)) c = (record_spin_miss ^^ evidence_stale_after) ?c"
    by (simp add: funpow_add)
  then have "sc_evidence ((record_spin_miss ^^ (Suc k * evidence_stale_after)) c) \<le> sc_evidence ?c div 2"
    using spin_misses_halve[OF spin_misses_ok[OF Suc.prems]] by simp
  also have "\<dots> \<le> sc_evidence c div 2 ^ k div 2" using Suc by (intro div_le_mono) simp
  finally show ?case by (simp only: power_Suc2 div_mult2_eq)
qed simp

lemma record_spin_miss_zero:
  "sc_evidence c = 0 \<Longrightarrow> sc_evidence (record_spin_miss c) = 0 \<and> sc_budget (record_spin_miss c) = sc_budget c div 2"
  by (simp add: record_spin_miss_def Let_def)

lemma spin_misses_budget_pow:
  "sc_evidence c = 0 \<Longrightarrow> sc_budget ((record_spin_miss ^^ k) c) = sc_budget c div 2 ^ k \<and> sc_evidence ((record_spin_miss ^^ k) c) = 0"
  by (induction k) (simp_all add: record_spin_miss_zero div_mult2_eq power_Suc2 del: power_Suc)

text \<open>At idle the controller is back at zero after 136 misses.\<close>

lemma spin_idle:
  assumes "spin_ok c"
  shows "sc_budget ((record_spin_miss ^^ 136) c) = 0"
proof -
  let ?c = "(record_spin_miss ^^ (8 * evidence_stale_after)) c"
  have "sc_evidence c < 2 ^ 8" using assms by (simp add: spin_ok_def spin_cap_def)
  then have ev: "sc_evidence ?c = 0" using spin_misses_evidence_pow[OF assms, of 8] by simp
  have "sc_budget ?c < 2 ^ 8" using spin_misses_ok[OF assms, of "8 * evidence_stale_after"]
    by (simp add: spin_ok_def spin_cap_def)
  then have "sc_budget ((record_spin_miss ^^ 8) ?c) = 0" using spin_misses_budget_pow[OF ev, of 8] by simp
  moreover have "(136::nat) = 8 + 8 * evidence_stale_after" by (simp add: evidence_stale_after_def)
  then have "(record_spin_miss ^^ 136) c = (record_spin_miss ^^ 8) ?c" by (simp only: funpow_add comp_apply)
  ultimately show ?thesis by simp
qed

subsection \<open>Retry policy\<close>

text \<open>Durations in nanoseconds; \<open>Duration::MAX\<close> is \<open>u64::MAX\<close> seconds and 999999999 nanoseconds.\<close>

definition duration_max :: nat where
  "duration_max = (2 ^ 64 - 1) * 1000000000 + 999999999"

datatype backoff_strategy = Exponential | FixedWait

record retry_config =
  rc_max_attempts :: nat
  rc_initial_wait :: nat
  rc_max_wait :: nat
  rc_backoff :: backoff_strategy

definition retry_default :: retry_config where
  "retry_default = \<lparr>rc_max_attempts = 5, rc_initial_wait = 1000000000, rc_max_wait = 60000000000, rc_backoff = Exponential\<rparr>"

definition next_wait :: "retry_config \<Rightarrow> nat \<Rightarrow> nat" where
  "next_wait cfg current = (case rc_backoff cfg of
     Exponential \<Rightarrow> min (min (current * 2) duration_max) (rc_max_wait cfg)
   | FixedWait \<Rightarrow> current)"

text \<open>The wait before the \<open>n\<close>-th retry.\<close>

definition nth_wait :: "retry_config \<Rightarrow> nat \<Rightarrow> nat" where
  "nth_wait cfg n = (next_wait cfg ^^ n) (rc_initial_wait cfg)"

lemma next_wait_fixed: "rc_backoff cfg = FixedWait \<Longrightarrow> nth_wait cfg n = rc_initial_wait cfg"
  unfolding nth_wait_def by (induction n) (auto simp: next_wait_def)

lemma nth_wait_exponential:
  assumes "rc_backoff cfg = Exponential" "rc_initial_wait cfg \<le> rc_max_wait cfg" "rc_max_wait cfg \<le> duration_max"
  shows "nth_wait cfg n = min (rc_initial_wait cfg * 2 ^ n) (rc_max_wait cfg)"
proof (induction n)
  case (Suc n)
  have "nth_wait cfg (Suc n) = next_wait cfg (nth_wait cfg n)" by (simp add: nth_wait_def)
  then show ?case using Suc assms by (auto simp: next_wait_def min_def)
qed (use assms in \<open>simp add: nth_wait_def\<close>)

subsection \<open>Acknowledgement handles\<close>

datatype queue_position = QMemory | QDisk nat nat

datatype ack_disposition = Delivered | Recovered | DDropped

datatype ack_resolution =
    RDelivered queue_position elapsed_nanos
  | RRecovered queue_position
  | RDropped queue_position

fun res_position :: "ack_resolution \<Rightarrow> queue_position" where
  "res_position (RDelivered p _) = p"
| "res_position (RRecovered p) = p"
| "res_position (RDropped p) = p"

fun res_disposition :: "ack_resolution \<Rightarrow> ack_disposition" where
  "res_disposition (RDelivered _ _) = Delivered"
| "res_disposition (RRecovered _) = Recovered"
| "res_disposition (RDropped _) = DDropped"

fun delivery_elapsed :: "ack_resolution \<Rightarrow> elapsed_nanos option" where
  "delivery_elapsed (RDelivered _ e) = Some e"
| "delivery_elapsed _ = None"

text \<open>\<open>qh_armed\<close> is the transmitter still being there, \<open>qh_resolved\<close> the flag the debug assertion reads.\<close>

record queue_handle =
  qh_armed :: bool
  qh_position :: queue_position
  qh_resolved :: bool
  qh_emitted_ns :: int

definition handle_new :: "queue_position \<Rightarrow> int \<Rightarrow> queue_handle" where
  "handle_new p emitted = \<lparr>qh_armed = True, qh_position = p, qh_resolved = False, qh_emitted_ns = emitted\<rparr>"

definition handle_send :: "ack_resolution \<Rightarrow> queue_handle \<Rightarrow> queue_handle \<times> ack_resolution list" where
  "handle_send r h = (h\<lparr>qh_resolved := True, qh_armed := False\<rparr>, if qh_armed h then [r] else [])"

definition resolve_delivered_at :: "int \<Rightarrow> queue_handle \<Rightarrow> queue_handle \<times> ack_resolution list" where
  "resolve_delivered_at t h = handle_send (RDelivered (qh_position h) (elapsed_since t (qh_emitted_ns h))) h"

definition resolve_recovered :: "queue_handle \<Rightarrow> queue_handle \<times> ack_resolution list" where
  "resolve_recovered h = handle_send (RRecovered (qh_position h)) h"

definition resolve_dropped :: "queue_handle \<Rightarrow> queue_handle \<times> ack_resolution list" where
  "resolve_dropped h = handle_send (RDropped (qh_position h)) h"

definition allow_abort_drop :: "queue_handle \<Rightarrow> queue_handle" where
  "allow_abort_drop h = h\<lparr>qh_resolved := True\<rparr>"

text \<open>\<open>Drop for QueueAckHandle\<close>: a handle still armed reports \<open>Dropped\<close>.\<close>

definition handle_drop :: "queue_handle \<Rightarrow> queue_handle \<times> ack_resolution list" where
  "handle_drop h = (h\<lparr>qh_armed := False\<rparr>, if qh_armed h then [RDropped (qh_position h)] else [])"

text \<open>What can be done with a handle: each method takes it by value, so its drop follows at once.\<close>

datatype handle_use = UseDelivered int | UseRecovered | UseDropped | UseAbort | UseForget

fun handle_finish :: "handle_use \<Rightarrow> queue_handle \<Rightarrow> ack_resolution list" where
  "handle_finish (UseDelivered t) h = (case resolve_delivered_at t h of (h', r) \<Rightarrow> r @ snd (handle_drop h'))"
| "handle_finish UseRecovered h = (case resolve_recovered h of (h', r) \<Rightarrow> r @ snd (handle_drop h'))"
| "handle_finish UseDropped h = (case resolve_dropped h of (h', r) \<Rightarrow> r @ snd (handle_drop h'))"
| "handle_finish UseAbort h = snd (handle_drop (allow_abort_drop h))"
| "handle_finish UseForget h = snd (handle_drop h)"

fun use_resolution :: "handle_use \<Rightarrow> queue_handle \<Rightarrow> ack_resolution" where
  "use_resolution (UseDelivered t) h = RDelivered (qh_position h) (elapsed_since t (qh_emitted_ns h))"
| "use_resolution UseRecovered h = RRecovered (qh_position h)"
| "use_resolution _ h = RDropped (qh_position h)"

lemma handle_finish_one: "qh_armed h \<Longrightarrow> handle_finish u h = [use_resolution u h]"
  by (cases u) (auto simp: resolve_delivered_at_def resolve_recovered_def resolve_dropped_def handle_send_def
      handle_drop_def allow_abort_drop_def)

lemma use_resolution_position [simp]: "res_position (use_resolution u h) = qh_position h"
  by (cases u) auto

subsection \<open>Backends\<close>

text \<open>
  The memory channel: \<open>mq_closed\<close> when the receiver closed it, \<open>mq_detached\<close> when no sender is left.
  A send on a full channel waits, so it runs when there is room.
\<close>

record mem_queue =
  mq_items :: "queued_event list"
  mq_capacity :: nat
  mq_closed :: bool
  mq_detached :: bool

datatype queue = MemQ mem_queue | DiskQ disk_queue

datatype queue_type = MemoryType | DiskType string nat

definition create_queue :: "nat \<Rightarrow> queue_type \<Rightarrow> wal_dir \<Rightarrow> queue" where
  "create_queue capacity ty dir = (case ty of
     MemoryType \<Rightarrow> MemQ \<lparr>mq_items = [], mq_capacity = capacity, mq_closed = False, mq_detached = False\<rparr>
   | DiskType path max_size \<Rightarrow> DiskQ (create_disk_queue max_size dir))"

datatype send_error = ChannelClosed | SerializeError | JoinError | DiskWrite

datatype send_io = JoinFault | WriteIO write_fault "nat \<Rightarrow> bool"

definition backend_send :: "(queued_event \<Rightarrow> bytes option) \<Rightarrow> send_io \<Rightarrow> queued_event \<Rightarrow> queue \<Rightarrow> (send_error + unit) \<times> queue" where
  "backend_send ser io ev q = (case q of
     MemQ m \<Rightarrow> if mq_closed m then (Inl ChannelClosed, q) else (Inr (), MemQ (m\<lparr>mq_items := mq_items m @ [ev]\<rparr>))
   | DiskQ d \<Rightarrow> (case ser ev of
       None \<Rightarrow> (Inl SerializeError, q)
     | Some data \<Rightarrow> (case io of
         JoinFault \<Rightarrow> (Inl JoinError, q)
       | WriteIO fault stuck \<Rightarrow> (case dq_send fault stuck data d of
           (ok, d') \<Rightarrow> (if ok then Inr () else Inl DiskWrite, DiskQ d')))))"

definition queue_send :: "(queued_event \<Rightarrow> bytes option) \<Rightarrow> send_io \<Rightarrow> queued_event \<Rightarrow> queue \<Rightarrow> output_metrics option \<Rightarrow>
    (send_error + unit) \<times> queue \<times> output_metrics option" where
  "queue_send ser io ev q m = (case backend_send ser io ev q of
     (Inr u, q') \<Rightarrow> (Inr u, q', map_option (\<lambda>m. m\<lparr>om_received := om_received m + 1\<rparr>) m)
   | (Inl e, q') \<Rightarrow> (Inl e, q', map_option (\<lambda>m. m\<lparr>om_failed := om_failed m + 1\<rparr>) m))"

definition queue_depth :: "queue \<Rightarrow> nat" where
  "queue_depth q = (case q of MemQ m \<Rightarrow> length (mq_items m) | DiskQ d \<Rightarrow> dq_depth d)"

definition queue_close :: "queue \<Rightarrow> queue" where
  "queue_close q = (case q of MemQ m \<Rightarrow> MemQ (m\<lparr>mq_closed := True\<rparr>) | DiskQ d \<Rightarrow> q)"

type_synonym received = "queued_event \<times> queue_position"

definition queue_try_recv :: "(bytes \<Rightarrow> queued_event option) \<Rightarrow> queue \<Rightarrow> received option \<times> queue" where
  "queue_try_recv dec q = (case q of
     MemQ m \<Rightarrow> (case mq_items m of
       [] \<Rightarrow> (None, q) | e # es \<Rightarrow> (Some (e, QMemory), MemQ (m\<lparr>mq_items := es\<rparr>)))
   | DiskQ d \<Rightarrow> (case dq_recv dec d of
       (None, d') \<Rightarrow> (None, DiskQ d') | (Some (e, s, off), d') \<Rightarrow> (Some (e, QDisk s off), DiskQ d')))"

text \<open>\<open>QueueReceiver::ack_to\<close>; a position of the other backend is ignored.\<close>

definition queue_ack_to :: "(nat \<Rightarrow> nat \<Rightarrow> (nat \<Rightarrow> bool) \<times> bool) \<Rightarrow> queue_position \<Rightarrow> queue \<Rightarrow> queue" where
  "queue_ack_to io p q = (case (q, p) of
     (DiskQ d, QDisk s off) \<Rightarrow> (case io s off of (stuck, saved) \<Rightarrow> DiskQ (ack_to stuck saved s off d))
   | _ \<Rightarrow> q)"

definition is_disk :: "queue \<Rightarrow> bool" where
  "is_disk q \<longleftrightarrow> (case q of DiskQ _ \<Rightarrow> True | _ \<Rightarrow> False)"

definition spin_budget_for_backend :: "queue \<Rightarrow> spin_controller \<Rightarrow> nat option" where
  "spin_budget_for_backend q c = (case q of MemQ _ \<Rightarrow> should_spin c | DiskQ _ \<Rightarrow> None)"

text \<open>Reading without waiting, up to \<open>n\<close> events.\<close>

fun drain_queue :: "(bytes \<Rightarrow> queued_event option) \<Rightarrow> nat \<Rightarrow> queue \<Rightarrow> received list \<times> queue" where
  "drain_queue dec 0 q = ([], q)"
| "drain_queue dec (Suc n) q = (case queue_try_recv dec q of
     (None, q') \<Rightarrow> ([], q')
   | (Some e, q') \<Rightarrow> (case drain_queue dec n q' of (es, q'') \<Rightarrow> (e # es, q'')))"

text \<open>The spin phase; \<open>others i\<close> is what other tasks did to the queue before poll \<open>i\<close>.\<close>

fun spin_phase :: "(bytes \<Rightarrow> queued_event option) \<Rightarrow> (nat \<Rightarrow> queue \<Rightarrow> queue) \<Rightarrow> nat \<Rightarrow> nat \<Rightarrow> queue \<Rightarrow>
    (received \<times> nat) option \<times> queue" where
  "spin_phase dec others i 0 q = (None, q)"
| "spin_phase dec others i (Suc left) q = (case queue_try_recv dec (others i q) of
     (Some e, q') \<Rightarrow> (Some (e, Suc i), q')
   | (None, q') \<Rightarrow> spin_phase dec others (Suc i) left q')"

text \<open>
  \<open>recv_many\<close>. The park ends when an event is there or the queue is closed; \<open>parked\<close> is what other
  tasks did meanwhile and \<open>ns\<close> how long it took.
\<close>

definition recv_many :: "(bytes \<Rightarrow> queued_event option) \<Rightarrow> (nat \<Rightarrow> queue \<Rightarrow> queue) \<Rightarrow> (queue \<Rightarrow> queue) \<Rightarrow> nat \<Rightarrow> nat \<Rightarrow>
    queue \<Rightarrow> spin_controller \<Rightarrow> received list \<times> queue \<times> spin_controller" where
  "recv_many dec others parked ns limit q c =
     (if limit = 0 then ([], q, c)
      else case drain_queue dec limit q of
        (e # es, q1) \<Rightarrow> (e # es, q1, c)
      | ([], q1) \<Rightarrow>
        (case (case spin_budget_for_backend q1 c of
                 None \<Rightarrow> (None, q1, c)
               | Some budget \<Rightarrow> (case spin_phase dec others 0 budget q1 of
                   (Some (e, n), q2) \<Rightarrow> (Some e, q2, record_hit n c)
                 | (None, q2) \<Rightarrow> (None, q2, record_spin_miss c))) of
           (Some e, q2, c2) \<Rightarrow> (case drain_queue dec (limit - 1) q2 of (es, q3) \<Rightarrow> (e # es, q3, c2))
         | (None, q2, c2) \<Rightarrow> (case queue_try_recv dec (parked q2) of
             (None, q3) \<Rightarrow> ([], q3, c2)
           | (Some e, q3) \<Rightarrow> (case drain_queue dec (limit - 1) q3 of
               (es, q4) \<Rightarrow> (e # es, q4, record_park ns c2)))))"

lemma drain_queue_length: "length (fst (drain_queue dec n q)) \<le> n"
  by (induction n arbitrary: q) (auto split: prod.split option.split simp: split_beta)

lemma spin_phase_hit: "spin_phase dec others i n q = (Some (e, k), q') \<Longrightarrow> i < k \<and> k \<le> i + n"
  by (induction dec others i n q rule: spin_phase.induct) (auto split: prod.splits option.splits)

lemma recv_many_bounds:
  assumes "recv_many dec others parked ns limit q c = (es, q', c')"
  shows "length es \<le> limit \<and> (spin_ok c \<longrightarrow> spin_ok c')"
proof -
  have one: "length (e # es) \<le> limit" if "drain_queue dec (limit - 1) q2 = (es, q3)" "limit \<noteq> 0" for e es q2 q3
    using drain_queue_length[of dec "limit - 1" q2] that by simp
  show ?thesis
    using assms drain_queue_length[of dec limit q] one
    by (auto simp: recv_many_def spin_budget_for_backend_def should_spin_def
        intro!: record_park_ok record_spin_miss_ok record_hit_ok dest: spin_phase_hit
        split: if_splits prod.splits list.splits option.splits queue.splits)
qed

subsection \<open>Shutdown progress\<close>

datatype progress = PIdle | PActive | PDirty | PClosed

definition progress_mark :: "progress \<Rightarrow> progress" where
  "progress_mark p = (if p = PActive then PDirty else p)"

definition progress_begin :: "progress \<Rightarrow> progress option" where
  "progress_begin p = (if p = PIdle then Some PActive else None)"

definition progress_take :: "progress \<Rightarrow> bool \<times> progress" where
  "progress_take p = (if p = PDirty then (True, PActive) else (False, p))"

definition progress_end :: "progress \<Rightarrow> progress" where
  "progress_end p = PClosed"

end
