(* ===== verification/OutputDlq.thy ===== *)
theory OutputDlq
  imports Exec Queue
begin

section \<open>Dead letters of the outputs\<close>

text \<open>
  What every output does with an event it cannot ship (\<open>modules/mod.rs\<close>): write a dead-letter record
  or a log line, and resolve the handle so that the event is counted once and, on a disk queue,
  replayed when nothing durable was written. Whether the writer of the error log manages to append a
  record is an argument; so is the clock reading of each record.
\<close>

datatype error_log_fallback = FbOff | FbMeta | FbFull

datatype dlq_outcome = DlqRecovered | DlqDropped

text \<open>The fields of the log line, and the record itself only on the last form.\<close>

datatype dlq_line =
    LineUnset string rstr rstr string
  | LineOff string rstr rstr string string
  | LineMeta string rstr rstr string string int nat "queue_position option"
  | LineFull string rstr rstr string string errored_ctx

record out_state =
  os_metrics :: output_metrics
  os_dlq :: "errored_ctx list"
  os_lines :: "dlq_line list"
  os_acks :: "ack_resolution list"

type_synonym error_log = "(errored_ctx \<Rightarrow> string option) option"

fun ctx_kind_name :: "errored_ctx \<Rightarrow> string \<times> rstr" where
  "ctx_kind_name (EOutput _ _ _ _ name _) = (''output'', name)"
| "ctx_kind_name (EProcess _ pl _ _ _) = (''process'', pl)"

definition emit_dlq_tracing_fallback :: "bool \<Rightarrow> error_log_fallback \<Rightarrow> errored_ctx \<Rightarrow> queue_position option \<Rightarrow>
    string option \<Rightarrow> dlq_line" where
  "emit_dlq_tracing_fallback configured fb ctx pos err =
     (case ctx_kind_name ctx of (kind, name) \<Rightarrow>
      if \<not> configured then LineUnset kind name (ctx_site ctx) (ctx_reason ctx)
      else let e = (case err of Some m \<Rightarrow> m | None \<Rightarrow> ''<unknown>'') in
        (case fb of
           FbOff \<Rightarrow> LineOff kind name (ctx_site ctx) (ctx_reason ctx) e
         | FbMeta \<Rightarrow> LineMeta kind name (ctx_site ctx) (ctx_reason ctx) e (ctx_timestamp ctx) (payload_size_hint ctx) pos
         | FbFull \<Rightarrow> LineFull kind name (ctx_site ctx) (ctx_reason ctx) e ctx))"

definition push_line :: "dlq_line \<Rightarrow> out_state \<Rightarrow> out_state" where
  "push_line l o' = o'\<lparr>os_lines := os_lines o' @ [l]\<rparr>"

definition push_dlq :: "errored_ctx \<Rightarrow> out_state \<Rightarrow> out_state" where
  "push_dlq c o' = o'\<lparr>os_dlq := os_dlq o' @ [c]\<rparr>"

definition bump_failed :: "out_state \<Rightarrow> out_state" where
  "bump_failed o' = o'\<lparr>os_metrics := (os_metrics o')\<lparr>om_failed := om_failed (os_metrics o') + 1\<rparr>\<rparr>"

definition bump_unwritable :: "out_state \<Rightarrow> out_state" where
  "bump_unwritable o' = o'\<lparr>os_metrics := (os_metrics o')\<lparr>om_errored_unwritable := om_errored_unwritable (os_metrics o') + 1\<rparr>\<rparr>"

definition bump_written :: "out_state \<Rightarrow> out_state" where
  "bump_written o' = o'\<lparr>os_metrics := (os_metrics o')\<lparr>om_written := om_written (os_metrics o') + 1\<rparr>\<rparr>"

definition use_handle :: "handle_use \<Rightarrow> queue_handle \<Rightarrow> out_state \<Rightarrow> out_state" where
  "use_handle u h o' = o'\<lparr>os_acks := os_acks o' @ handle_finish u h\<rparr>"

text \<open>Writing one record; the configured writer's error is the argument of the log line.\<close>

definition write_record :: "error_log \<Rightarrow> error_log_fallback \<Rightarrow> errored_ctx \<Rightarrow> queue_position \<Rightarrow> out_state \<Rightarrow>
    dlq_outcome \<times> out_state" where
  "write_record log fb ctx pos o' = (case log of
     Some write \<Rightarrow> (case write ctx of
       None \<Rightarrow> (DlqRecovered, push_dlq ctx o')
     | Some err \<Rightarrow> (DlqDropped, bump_unwritable (push_line (emit_dlq_tracing_fallback True fb ctx (Some pos) (Some err)) o')))
   | None \<Rightarrow> (DlqRecovered, push_line (emit_dlq_tracing_fallback False fb ctx (Some pos) None) o'))"

definition route_event_to_dlq :: "error_log \<Rightarrow> error_log_fallback \<Rightarrow> int \<Rightarrow> rstr \<Rightarrow> owned_event \<Rightarrow> queue_position \<Rightarrow>
    string \<Rightarrow> out_state \<Rightarrow> dlq_outcome \<times> out_state" where
  "route_event_to_dlq log fb now name ev pos reason =
     write_record log fb (EOutput now [] name reason name (output_event_from_owned ev)) pos"

definition resolve_ack_from_dlq_outcome :: "queue_handle \<Rightarrow> dlq_outcome \<Rightarrow> out_state \<Rightarrow> out_state" where
  "resolve_ack_from_dlq_outcome h outcome o' = (case (outcome, qh_position h) of
     (DlqDropped, QDisk _ _) \<Rightarrow> use_handle UseDropped h o'
   | _ \<Rightarrow> use_handle UseRecovered h (bump_failed o'))"

text \<open>The result of one bounded send during shutdown: \<open>Inl\<close> carries the error.\<close>

definition finalize_shutdown_singleton :: "error_log \<Rightarrow> error_log_fallback \<Rightarrow> int \<Rightarrow> int \<Rightarrow> rstr \<Rightarrow> owned_event \<Rightarrow>
    queue_handle \<Rightarrow> string + unit \<Rightarrow> out_state \<Rightarrow> out_state" where
  "finalize_shutdown_singleton log fb now delivered name ev h result o' = (case result of
     Inr _ \<Rightarrow> use_handle (UseDelivered delivered) h (bump_written o')
   | Inl e \<Rightarrow> (case route_event_to_dlq log fb now name ev (qh_position h) (''shutdown send failed: '' @ e) o' of
       (outcome, o'') \<Rightarrow> resolve_ack_from_dlq_outcome h outcome o''))"

definition finalize_shutdown_singleton_ambiguous :: "error_log \<Rightarrow> error_log_fallback \<Rightarrow> int \<Rightarrow> int \<Rightarrow> rstr \<Rightarrow>
    owned_event \<Rightarrow> queue_handle \<Rightarrow> string + unit \<Rightarrow> out_state \<Rightarrow> out_state" where
  "finalize_shutdown_singleton_ambiguous log fb now delivered name ev h result o' = (case result of
     Inr _ \<Rightarrow> use_handle (UseDelivered delivered) h (bump_written o')
   | Inl e \<Rightarrow> (case route_event_to_dlq log fb now name ev (qh_position h)
           (''shutdown send failed after side-effect boundary (ambiguous wire state): '' @ e) o' of
       (_, o'') \<Rightarrow> resolve_ack_from_dlq_outcome h DlqDropped o''))"

definition shutdown_ctx :: "int \<Rightarrow> rstr \<Rightarrow> string \<Rightarrow> owned_event \<Rightarrow> errored_ctx" where
  "shutdown_ctx now name reason ev = EOutput now [] (name @ '' shutdown'') reason name (output_event_from_owned ev)"

fun route_shutdown_batch_to_dlq :: "error_log \<Rightarrow> error_log_fallback \<Rightarrow> int \<Rightarrow> rstr \<Rightarrow> string \<Rightarrow>
    (owned_event \<times> queue_handle) list \<Rightarrow> out_state \<Rightarrow> out_state" where
  "route_shutdown_batch_to_dlq log fb now name err [] o' = o'"
| "route_shutdown_batch_to_dlq log fb now name err ((ev, h) # evs) o' =
     (case write_record log fb (shutdown_ctx now name (''shutdown flush failed: '' @ err) ev) (qh_position h) o' of
        (outcome, o'') \<Rightarrow> route_shutdown_batch_to_dlq log fb now name err evs (resolve_ack_from_dlq_outcome h outcome o''))"

fun route_shutdown_batch_ambiguous_to_dlq :: "error_log \<Rightarrow> error_log_fallback \<Rightarrow> int \<Rightarrow> rstr \<Rightarrow> string \<Rightarrow>
    (owned_event \<times> queue_handle) list \<Rightarrow> out_state \<Rightarrow> out_state" where
  "route_shutdown_batch_ambiguous_to_dlq log fb now name err [] o' = o'"
| "route_shutdown_batch_ambiguous_to_dlq log fb now name err ((ev, h) # evs) o' =
     (case write_record log fb
        (shutdown_ctx now name (''shutdown flush failed after send-boundary (ambiguous wire state): '' @ err) ev)
        (qh_position h) o' of
        (_, o'') \<Rightarrow> route_shutdown_batch_ambiguous_to_dlq log fb now name err evs (resolve_ack_from_dlq_outcome h DlqDropped o''))"

subsection \<open>Counting and durability\<close>

text \<open>How often a resolution makes the consumer count a failure.\<close>

fun ack_failures :: "ack_resolution list \<Rightarrow> counter" where
  "ack_failures [] = 0"
| "ack_failures (r # rs) = (if res_disposition r = DDropped then 1 else 0) + ack_failures rs"

lemma ack_failures_append [simp]: "ack_failures (xs @ ys) = ack_failures xs + ack_failures ys"
  by (induction xs) auto

text \<open>Failures counted now plus those the consumer counts when it sees the resolutions.\<close>

definition failures :: "out_state \<Rightarrow> counter" where
  "failures o' = om_failed (os_metrics o') + ack_failures (os_acks o')"

lemmas out_simps = push_line_def push_dlq_def bump_failed_def bump_unwritable_def bump_written_def use_handle_def

lemma write_record_effect:
  assumes "write_record log fb ctx pos o' = (outcome, o'')"
  shows "failures o'' = failures o' \<and> os_acks o'' = os_acks o'
     \<and> (outcome = DlqDropped \<longleftrightarrow> (\<exists>w e. log = Some w \<and> w ctx = Some e))
     \<and> os_dlq o'' = os_dlq o' @ (if \<exists>w. log = Some w \<and> w ctx = None then [ctx] else [])"
  using assms by (auto simp: write_record_def out_simps failures_def split: option.splits)

lemma resolve_ack_effect:
  assumes "qh_armed h"
  shows "failures (resolve_ack_from_dlq_outcome h outcome o') = failures o' + 1"
    and "os_acks (resolve_ack_from_dlq_outcome h outcome o') = os_acks o' @
      [if outcome = DlqDropped \<and> qh_position h \<noteq> QMemory then RDropped (qh_position h) else RRecovered (qh_position h)]"
    and "os_dlq (resolve_ack_from_dlq_outcome h outcome o') = os_dlq o'"
  using handle_finish_one[OF assms]
  by (auto simp: resolve_ack_from_dlq_outcome_def out_simps failures_def split: dlq_outcome.split queue_position.split)

lemma route_event_effect:
  assumes "qh_armed h" "route_event_to_dlq log fb now name ev (qh_position h) reason o' = (outcome, o1)"
    "o2 = resolve_ack_from_dlq_outcome h outcome o1"
  shows "failures o2 = failures o' + 1 \<and> (\<exists>r. os_acks o2 = os_acks o' @ [r] \<and> res_position r = qh_position h
     \<and> (res_disposition r = DDropped \<longleftrightarrow> qh_position h \<noteq> QMemory \<and> (\<exists>w e. log = Some w \<and> w (EOutput now [] name reason name (output_event_from_owned ev)) = Some e))
     \<and> (log \<noteq> None \<and> qh_position h \<noteq> QMemory \<and> res_disposition r \<noteq> DDropped \<longrightarrow>
          EOutput now [] name reason name (output_event_from_owned ev) \<in> set (os_dlq o2)))"
  using write_record_effect[OF assms(2)[unfolded route_event_to_dlq_def]] resolve_ack_effect[OF assms(1), of outcome o1] assms(3)
  by (auto split: if_splits)

text \<open>Each of a batch is resolved once and counted once, in order.\<close>

lemma shutdown_batch_effect:
  assumes "\<forall>(ev, h)\<in>set evs. qh_armed h" "o'' = route_shutdown_batch_to_dlq log fb now name err evs o'"
  shows "failures o'' = failures o' + of_nat (length evs)
     \<and> map res_position (os_acks o'') = map res_position (os_acks o') @ map (qh_position \<circ> snd) evs"
  using assms
proof (induction evs arbitrary: o')
  case (Cons eh evs)
  obtain ev h where eh: "eh = (ev, h)" by fastforce
  obtain outcome o1 where w: "write_record log fb (shutdown_ctx now name (''shutdown flush failed: '' @ err) ev) (qh_position h) o' = (outcome, o1)"
    by fastforce
  have h: "qh_armed h" using Cons.prems(1) eh by simp
  have "failures o'' = failures (resolve_ack_from_dlq_outcome h outcome o1) + of_nat (length evs)
     \<and> map res_position (os_acks o'') = map res_position (os_acks (resolve_ack_from_dlq_outcome h outcome o1)) @ map (qh_position \<circ> snd) evs"
    using Cons eh w by (intro Cons.IH) auto
  then show ?case
    using resolve_ack_effect[OF h, of outcome o1] write_record_effect[OF w] eh by (simp add: ac_simps)
qed simp

lemma shutdown_batch_ambiguous_effect:
  assumes "\<forall>(ev, h)\<in>set evs. qh_armed h" "o'' = route_shutdown_batch_ambiguous_to_dlq log fb now name err evs o'"
  shows "failures o'' = failures o' + of_nat (length evs)
     \<and> os_acks o'' = os_acks o' @ map (\<lambda>(ev, h). if qh_position h = QMemory then RRecovered QMemory else RDropped (qh_position h)) evs"
  using assms
proof (induction evs arbitrary: o')
  case (Cons eh evs)
  obtain ev h where eh: "eh = (ev, h)" by fastforce
  obtain outcome o1 where w: "write_record log fb (shutdown_ctx now name
      (''shutdown flush failed after send-boundary (ambiguous wire state): '' @ err) ev) (qh_position h) o' = (outcome, o1)"
    by fastforce
  have h: "qh_armed h" using Cons.prems(1) eh by simp
  have "failures o'' = failures (resolve_ack_from_dlq_outcome h DlqDropped o1) + of_nat (length evs)
     \<and> os_acks o'' = os_acks (resolve_ack_from_dlq_outcome h DlqDropped o1)
         @ map (\<lambda>(ev, h). if qh_position h = QMemory then RRecovered QMemory else RDropped (qh_position h)) evs"
    using Cons eh w by (intro Cons.IH) auto
  then show ?case
    using resolve_ack_effect[OF h, of DlqDropped o1] write_record_effect[OF w] eh by (simp add: ac_simps)
qed simp

text \<open>The log line carries the record only when an error log is configured and the operator asked for it.\<close>

lemma line_payload_free:
  "(\<exists>k n s r e c. emit_dlq_tracing_fallback configured fb ctx pos err = LineFull k n s r e c) \<longleftrightarrow> configured \<and> fb = FbFull"
  by (auto simp: emit_dlq_tracing_fallback_def Let_def split: prod.split error_log_fallback.split)

end
