(* ===== verification/Batched.thy ===== *)
theory Batched
  imports OutputDlq "HOL-Library.Multiset"
begin

section \<open>Batched outputs\<close>

text \<open>
  The skeleton shared by the HTTP and OTLP outputs (\<open>modules/output/batched.rs\<close>): events are parked in a
  buffer, a flusher takes the buffer in batches and sends them with retries, and every handle is
  resolved when the fate of its event is known. How an event is rendered and how a batch is prepared
  belong to the output and are parameters, as are the outcome of each send attempt and the moments a
  shutdown is noticed. The records written in one call share a clock reading.
\<close>

text \<open>A parked event; the last component says whether it holds a permit.\<close>

type_synonym parked = "owned_event \<times> queue_handle \<times> bool"

definition strip_permits :: "parked list \<Rightarrow> (owned_event \<times> queue_handle) list" where
  "strip_permits = map (\<lambda>(ev, h, _). (ev, h))"

record ('p, 'q) batch_policy =
  bs_render :: "owned_event \<Rightarrow> string + 'p"
  bs_prepare :: "'p list \<Rightarrow> string + 'q"

record ('p, 'q) sink_ctx =
  sx_policy :: "('p, 'q) batch_policy"
  sx_name :: rstr
  sx_retry :: retry_config
  sx_error_log :: error_log
  sx_fallback :: error_log_fallback
  sx_batch_size :: nat

subsection \<open>Flushing a batch\<close>

text \<open>Each event to the dead letters by itself.\<close>

fun dlq_each :: "('p, 'q) sink_ctx \<Rightarrow> int \<Rightarrow> (owned_event \<times> queue_handle \<times> string) list \<Rightarrow> out_state \<Rightarrow> out_state" where
  "dlq_each sx now [] o' = o'"
| "dlq_each sx now ((ev, h, reason) # rest) o' =
     (case route_event_to_dlq (sx_error_log sx) (sx_fallback sx) now (sx_name sx) ev (qh_position h) reason o' of
        (outcome, o'') \<Rightarrow> dlq_each sx now rest (resolve_ack_from_dlq_outcome h outcome o''))"

fun split_rendered :: "('p, 'q) sink_ctx \<Rightarrow> string \<Rightarrow> parked list \<Rightarrow> 'p list \<times> parked list \<times> (owned_event \<times> queue_handle \<times> string) list" where
  "split_rendered sx site [] = ([], [], [])"
| "split_rendered sx site ((ev, h, permit) # rest) = (case split_rendered sx site rest of (ps, ship, bad) \<Rightarrow>
     (case bs_render (sx_policy sx) ev of
        Inr p \<Rightarrow> (p # ps, (ev, h, permit) # ship, bad)
      | Inl e \<Rightarrow> (ps, ship, (ev, h, ''render failed during '' @ site @ '': '' @ e) # bad)))"

definition render_batch :: "('p, 'q) sink_ctx \<Rightarrow> int \<Rightarrow> string \<Rightarrow> parked list \<Rightarrow> out_state \<Rightarrow> 'p list \<times> parked list \<times> out_state" where
  "render_batch sx now site batch o' = (case split_rendered sx site batch of (ps, ship, bad) \<Rightarrow> (ps, ship, dlq_each sx now bad o'))"

fun deliver_each :: "int \<Rightarrow> parked list \<Rightarrow> out_state \<Rightarrow> out_state" where
  "deliver_each t [] o' = o'"
| "deliver_each t ((_, h, _) # rest) o' = deliver_each t rest (use_handle (UseDelivered t) h o')"

definition add_written :: "nat \<Rightarrow> out_state \<Rightarrow> out_state" where
  "add_written n o' = o'\<lparr>os_metrics := (os_metrics o')\<lparr>om_written := om_written (os_metrics o') + of_nat n\<rparr>\<rparr>"

definition resolve_send_success :: "('p, 'q) sink_ctx \<Rightarrow> int \<Rightarrow> int \<Rightarrow> parked list \<Rightarrow> nat \<Rightarrow> out_state \<Rightarrow> out_state" where
  "resolve_send_success sx now t shippable rejected o' =
     (let split = length shippable - min rejected (length shippable) in
      dlq_each sx now (map (\<lambda>(ev, h, _). (ev, h, ''collector reported partial_success rejection'')) (drop split shippable))
        (deliver_each t (take split shippable) (add_written split o')))"

text \<open>One send attempt raced against the shutdown signal.\<close>

datatype send_attempt = SendOk nat | SendFail string | SendCancelled

datatype send_result = Shipped nat | Cancelled string | GaveUp nat string

definition set_in_retry :: "counter \<Rightarrow> out_state \<Rightarrow> out_state" where
  "set_in_retry v o' = o'\<lparr>os_metrics := (os_metrics o')\<lparr>om_in_retry := v\<rparr>\<rparr>"

definition bump_retries :: "out_state \<Rightarrow> out_state" where
  "bump_retries o' = o'\<lparr>os_metrics := (os_metrics o')\<lparr>om_retries := om_retries (os_metrics o') + 1\<rparr>\<rparr>"

text \<open>
  The retry loop from attempt number \<open>tries\<close> with the current wait; \<open>stopping n\<close> is the shutdown flag after the
  \<open>n\<close>-th failure. It also returns the waits it started.
\<close>

function retry_loop :: "retry_config \<Rightarrow> (nat \<Rightarrow> send_attempt) \<Rightarrow> (nat \<Rightarrow> bool) \<Rightarrow> nat \<Rightarrow> nat \<Rightarrow> out_state \<Rightarrow>
    send_result \<times> nat list \<times> out_state" where
  "retry_loop cfg sends stopping tries wait o' = (case sends tries of
     SendOk rejected \<Rightarrow> (Shipped rejected, [], set_in_retry 0 o')
   | SendCancelled \<Rightarrow> (Cancelled ''shutdown cancelled in-flight send (collapsed retry budget)'', [], set_in_retry 0 o')
   | SendFail e \<Rightarrow>
       (let tries' = tries + 1; o1 = bump_retries o' in
        if rc_max_attempts cfg \<le> tries' then (GaveUp tries' e, [], set_in_retry 0 o1)
        else (let o2 = set_in_retry 1 o1 in
          if stopping tries' then (GaveUp tries' e, [], set_in_retry 0 o2)
          else (case retry_loop cfg sends stopping tries' (next_wait cfg wait) o2 of (r, ws, o3) \<Rightarrow> (r, wait # ws, o3)))))"
  by pat_completeness auto
termination
  by (relation "measure (\<lambda>(cfg, sends, stopping, tries, wait, o'). rc_max_attempts cfg - tries)") auto

declare retry_loop.simps [simp del]

definition flush_events :: "('p, 'q) sink_ctx \<Rightarrow> int \<Rightarrow> int \<Rightarrow> ('q \<Rightarrow> nat \<Rightarrow> send_attempt) \<Rightarrow> (nat \<Rightarrow> bool) \<Rightarrow> parked list \<Rightarrow>
    out_state \<Rightarrow> out_state" where
  "flush_events sx now t sends stopping batch o' =
     (if batch = [] then o'
      else case render_batch sx now ''batch flush'' batch o' of (ps, ship, o1) \<Rightarrow>
        if ps = [] then o1
        else case bs_prepare (sx_policy sx) ps of
          Inl e \<Rightarrow> dlq_each sx now (map (\<lambda>(ev, h, _). (ev, h, ''flush failed: '' @ e)) ship) o1
        | Inr q \<Rightarrow> (case retry_loop (sx_retry sx) (sends q) stopping 0 (rc_initial_wait (sx_retry sx)) o1 of (r, _, o2) \<Rightarrow>
            (case r of
               Shipped rejected \<Rightarrow> resolve_send_success sx now t ship rejected o2
             | Cancelled e \<Rightarrow> route_shutdown_batch_ambiguous_to_dlq (sx_error_log sx) (sx_fallback sx) now (sx_name sx) e (strip_permits ship) o2
             | GaveUp n e \<Rightarrow> dlq_each sx now
                 (map (\<lambda>(ev, h, _). (ev, h, ''flush failed after '' @ nat_digits n @ '' attempts: '' @ e)) ship) o2)))"

text \<open>The single bounded attempt of a shutdown.\<close>

datatype shutdown_send = NoTime | Attempted "string + nat" | Elapsed

definition flush_events_at_shutdown :: "('p, 'q) sink_ctx \<Rightarrow> int \<Rightarrow> int \<Rightarrow> ('q \<Rightarrow> shutdown_send) \<Rightarrow> parked list \<Rightarrow> out_state \<Rightarrow> out_state" where
  "flush_events_at_shutdown sx now t send batch o' =
     (if batch = [] then o'
      else case render_batch sx now ''shutdown flush'' batch o' of (ps, ship, o1) \<Rightarrow>
        if ps = [] then o1
        else (let dead = (\<lambda>e. route_shutdown_batch_to_dlq (sx_error_log sx) (sx_fallback sx) now (sx_name sx) e (strip_permits ship) o1) in
          case bs_prepare (sx_policy sx) ps of
            Inl e \<Rightarrow> dead (''transport error: '' @ e)
          | Inr q \<Rightarrow> (case send q of
              NoTime \<Rightarrow> dead ''shutdown flush deadline exhausted before send attempt''
            | Attempted (Inr rejected) \<Rightarrow> resolve_send_success sx now t ship rejected o1
            | Attempted (Inl e) \<Rightarrow> dead (''transport error: '' @ e)
            | Elapsed \<Rightarrow> route_shutdown_batch_ambiguous_to_dlq (sx_error_log sx) (sx_fallback sx) now (sx_name sx)
                ''deadline exceeded after 3s during shutdown flush'' (strip_permits ship) o1)))"

function hard_capped_batches :: "parked list \<Rightarrow> nat \<Rightarrow> parked list list" where
  "hard_capped_batches events n = (if events = [] then [] else take (max n 1) events # hard_capped_batches (drop (max n 1) events) n)"
  by pat_completeness auto
termination
  by (relation "measure (length \<circ> fst)") auto

declare hard_capped_batches.simps [simp del]

subsection \<open>The sink\<close>

text \<open>
  \<open>bk_hand\<close> are the batches the flusher has taken off the buffer and not yet flushed; events may be
  parked while it works on them.
\<close>

record sink =
  bk_buffer :: "parked list"
  bk_hand :: "parked list list"
  bk_permits :: nat
  bk_shutting :: bool
  bk_out :: out_state

definition sink_new :: "nat \<Rightarrow> out_state \<Rightarrow> sink" where
  "sink_new batch_size o' = \<lparr>bk_buffer = [], bk_hand = [], bk_permits = max (batch_size * 2) 1, bk_shutting = False, bk_out = o'\<rparr>"

text \<open>Parking an event; \<open>None\<close> while it waits for a permit. \<open>signalled\<close> is the runtime's shutdown signal.\<close>

definition consume :: "bool \<Rightarrow> owned_event \<Rightarrow> queue_handle \<Rightarrow> sink \<Rightarrow> sink option" where
  "consume signalled ev h s =
     (if bk_shutting s \<or> signalled then Some (s\<lparr>bk_buffer := bk_buffer s @ [(ev, h, False)]\<rparr>)
      else if 0 < bk_permits s then Some (s\<lparr>bk_buffer := bk_buffer s @ [(ev, h, True)], bk_permits := bk_permits s - 1\<rparr>)
      else None)"

definition consume_shutdown :: "owned_event \<Rightarrow> queue_handle \<Rightarrow> sink \<Rightarrow> sink" where
  "consume_shutdown ev h s = s\<lparr>bk_buffer := bk_buffer s @ [(ev, h, False)]\<rparr>"

definition held :: "parked list \<Rightarrow> nat" where
  "held batch = length (filter (\<lambda>(_, _, permit). permit) batch)"

text \<open>The flusher takes the buffer, and then flushes one batch after the other.\<close>

definition flusher_take :: "nat \<Rightarrow> sink \<Rightarrow> sink option" where
  "flusher_take batch_size s = (if bk_shutting s \<or> bk_hand s \<noteq> [] then None
     else Some (s\<lparr>bk_hand := hard_capped_batches (bk_buffer s) batch_size, bk_buffer := []\<rparr>))"

definition flusher_flush :: "('p, 'q) sink_ctx \<Rightarrow> int \<Rightarrow> int \<Rightarrow> ('q \<Rightarrow> nat \<Rightarrow> send_attempt) \<Rightarrow> (nat \<Rightarrow> bool) \<Rightarrow> sink \<Rightarrow> sink option" where
  "flusher_flush sx now t sends stopping s = (case bk_hand s of
     [] \<Rightarrow> None
   | batch # rest \<Rightarrow> Some (s\<lparr>bk_hand := rest, bk_permits := bk_permits s + held batch,
       bk_out := flush_events sx now t sends stopping batch (bk_out s)\<rparr>))"

text \<open>\<open>shutdown\<close> and \<open>shutdown_wedged\<close> after the flusher was told to stop: what is left in the buffer.\<close>

definition shutdown_signal :: "sink \<Rightarrow> sink" where
  "shutdown_signal s = s\<lparr>bk_shutting := True\<rparr>"

fun drain_batches :: "('p, 'q) sink_ctx \<Rightarrow> int \<Rightarrow> int \<Rightarrow> ('q \<Rightarrow> shutdown_send) list \<Rightarrow> parked list list \<Rightarrow> out_state \<Rightarrow> out_state" where
  "drain_batches sx now t sends [] o' = o'"
| "drain_batches sx now t sends (b # bs) o' =
     drain_batches sx now t (tl sends) bs (flush_events_at_shutdown sx now t (if sends = [] then (\<lambda>_. NoTime) else hd sends) b o')"

definition shutdown_drain :: "('p, 'q) sink_ctx \<Rightarrow> int \<Rightarrow> int \<Rightarrow> ('q \<Rightarrow> shutdown_send) list \<Rightarrow> sink \<Rightarrow> sink" where
  "shutdown_drain sx now t sends s =
     s\<lparr>bk_buffer := [], bk_permits := bk_permits s + held (bk_buffer s),
       bk_out := drain_batches sx now t sends (hard_capped_batches (bk_buffer s) (sx_batch_size sx)) (bk_out s)\<rparr>"

definition wedge_error :: "rstr \<Rightarrow> string" where
  "wedge_error name = ''output '' @ [CHR 0x27] @ name @ [CHR 0x27] @
     '' wedged: skipping shutdown flush; parked buffer resolved via ambiguous DLQ (no send attempted)''"

definition wedged_drain :: "('p, 'q) sink_ctx \<Rightarrow> int \<Rightarrow> sink \<Rightarrow> sink" where
  "wedged_drain sx now s =
     s\<lparr>bk_buffer := [], bk_permits := bk_permits s + held (bk_buffer s),
       bk_out := route_shutdown_batch_ambiguous_to_dlq (sx_error_log sx) (sx_fallback sx) now (sx_name sx) (wedge_error (sx_name sx))
         (strip_permits (bk_buffer s)) (bk_out s)\<rparr>"

text \<open>
  What can happen to a sink, in any order: events arrive, the flusher takes the buffer and flushes, the
  shutdown is signalled, and the rest is drained. \<open>None\<close> is an operation that has to wait.
\<close>

datatype 'q sink_op =
    OpConsume bool owned_event queue_handle
  | OpConsumeShutdown owned_event queue_handle
  | OpTake
  | OpFlush int int "'q \<Rightarrow> nat \<Rightarrow> send_attempt" "nat \<Rightarrow> bool"
  | OpSignal
  | OpDrain int int "('q \<Rightarrow> shutdown_send) list"
  | OpWedged int

fun sink_step :: "('p, 'q) sink_ctx \<Rightarrow> 'q sink_op \<Rightarrow> sink \<Rightarrow> sink option" where
  "sink_step sx (OpConsume signalled ev h) s = consume signalled ev h s"
| "sink_step sx (OpConsumeShutdown ev h) s = Some (consume_shutdown ev h s)"
| "sink_step sx OpTake s = flusher_take (sx_batch_size sx) s"
| "sink_step sx (OpFlush now t sends stopping) s = flusher_flush sx now t sends stopping s"
| "sink_step sx OpSignal s = Some (shutdown_signal s)"
| "sink_step sx (OpDrain now t sends) s = (if bk_shutting s then Some (shutdown_drain sx now t sends s) else None)"
| "sink_step sx (OpWedged now) s = (if bk_shutting s then Some (wedged_drain sx now s) else None)"

fun run_sink :: "('p, 'q) sink_ctx \<Rightarrow> 'q sink_op list \<Rightarrow> sink \<Rightarrow> sink option" where
  "run_sink sx [] s = Some s"
| "run_sink sx (op # ops) s = (case sink_step sx op s of None \<Rightarrow> None | Some s' \<Rightarrow> run_sink sx ops s')"

fun op_handles :: "'q sink_op \<Rightarrow> queue_handle list" where
  "op_handles (OpConsume _ _ h) = [h]"
| "op_handles (OpConsumeShutdown _ h) = [h]"
| "op_handles _ = []"

subsection \<open>Every event is settled once\<close>

text \<open>Events counted as written or as failed, now or by the consumer.\<close>

definition settled :: "out_state \<Rightarrow> counter" where
  "settled o' = failures o' + om_written (os_metrics o')"

definition resolved :: "out_state \<Rightarrow> queue_position multiset" where
  "resolved o' = mset (map res_position (os_acks o'))"

definition settles :: "queue_handle list \<Rightarrow> out_state \<Rightarrow> out_state \<Rightarrow> bool" where
  "settles hs o' o'' \<longleftrightarrow> settled o'' = settled o' + of_nat (length hs) \<and> resolved o'' = resolved o' + mset (map qh_position hs)"

definition handles :: "parked list \<Rightarrow> queue_handle list" where
  "handles = map (\<lambda>(_, h, _). h)"

lemma settles_refl [simp]: "settles [] o' o'" by (simp add: settles_def)

lemma settles_trans: "settles hs o1 o2 \<Longrightarrow> settles gs o2 o3 \<Longrightarrow> settles (hs @ gs) o1 o3"
  by (simp add: settles_def)

lemma settles_perm: "settles hs o' o'' \<Longrightarrow> mset hs = mset gs \<Longrightarrow> settles gs o' o''"
  unfolding settles_def by (metis mset_map size_mset)

lemma written_dlq:
  "om_written (os_metrics (snd (write_record log fb ctx pos o'))) = om_written (os_metrics o')"
  "om_written (os_metrics (resolve_ack_from_dlq_outcome h outcome o')) = om_written (os_metrics o')"
  by (auto simp: write_record_def resolve_ack_from_dlq_outcome_def out_simps split: option.split dlq_outcome.split queue_position.split)

lemma settles_route:
  assumes "qh_armed h" "write_record log fb ctx (qh_position h) o' = (outcome, o1)"
  shows "settles [h] o' (resolve_ack_from_dlq_outcome h outcome' o1)"
  using write_record_effect[OF assms(2)] resolve_ack_effect(1,2)[OF assms(1), of outcome' o1] written_dlq(1)[of log fb ctx "qh_position h" o']
    written_dlq(2)[of h outcome' o1] assms(2)
  by (auto simp: settles_def settled_def resolved_def)

lemma settles_dlq_each: "\<forall>(ev, h, r)\<in>set evs. qh_armed h \<Longrightarrow> settles (map (\<lambda>(_, h, _). h) evs) o' (dlq_each sx now evs o')"
proof (induction evs arbitrary: o')
  case (Cons e evs)
  obtain ev h r where e: "e = (ev, h, r)" by (cases e) auto
  obtain outcome o1 where o1: "route_event_to_dlq (sx_error_log sx) (sx_fallback sx) now (sx_name sx) ev (qh_position h) r o' = (outcome, o1)"
    by fastforce
  have "settles [h] o' (resolve_ack_from_dlq_outcome h outcome o1)"
    using settles_route o1 Cons.prems e by (auto simp: route_event_to_dlq_def)
  from settles_trans[OF this Cons.IH] show ?case using Cons.prems e o1 by auto
qed simp

lemma settles_ambiguous:
  "\<forall>(ev, h)\<in>set evs. qh_armed h \<Longrightarrow> settles (map snd evs) o' (route_shutdown_batch_ambiguous_to_dlq log fb now name err evs o')"
proof (induction evs arbitrary: o')
  case (Cons e evs)
  obtain ev h where e: "e = (ev, h)" by fastforce
  obtain outcome o1 where o1: "write_record log fb
      (shutdown_ctx now name (''shutdown flush failed after send-boundary (ambiguous wire state): '' @ err) ev) (qh_position h) o' = (outcome, o1)"
    by fastforce
  have "settles [h] o' (resolve_ack_from_dlq_outcome h DlqDropped o1)" using settles_route[OF _ o1] Cons.prems e by auto
  from settles_trans[OF this Cons.IH] show ?case using Cons.prems e o1 by auto
qed simp

lemma settles_batch:
  "\<forall>(ev, h)\<in>set evs. qh_armed h \<Longrightarrow> settles (map snd evs) o' (route_shutdown_batch_to_dlq log fb now name err evs o')"
proof (induction evs arbitrary: o')
  case (Cons e evs)
  obtain ev h where e: "e = (ev, h)" by fastforce
  obtain outcome o1 where o1: "write_record log fb (shutdown_ctx now name (''shutdown flush failed: '' @ err) ev) (qh_position h) o' = (outcome, o1)"
    by fastforce
  have "settles [h] o' (resolve_ack_from_dlq_outcome h outcome o1)" using settles_route[OF _ o1] Cons.prems e by auto
  from settles_trans[OF this Cons.IH] show ?case using Cons.prems e o1 by auto
qed simp

lemma use_delivered:
  assumes "qh_armed h"
  shows "failures (use_handle (UseDelivered t) h o') = failures o'"
    and "os_metrics (use_handle (UseDelivered t) h o') = os_metrics o'"
    and "resolved (use_handle (UseDelivered t) h o') = resolved o' + {#qh_position h#}"
  using handle_finish_one[OF assms, of "UseDelivered t"] by (simp_all add: use_handle_def failures_def resolved_def)

lemma deliver_each_effect:
  "\<forall>h\<in>set (handles batch). qh_armed h \<Longrightarrow> failures (deliver_each t batch o') = failures o'
     \<and> os_metrics (deliver_each t batch o') = os_metrics o'
     \<and> resolved (deliver_each t batch o') = resolved o' + mset (map qh_position (handles batch))"
proof (induction batch arbitrary: o')
  case (Cons b batch)
  obtain ev h p where b: "b = (ev, h, p)" by (cases b) auto
  have h: "qh_armed h" and rest: "\<forall>h\<in>set (handles batch). qh_armed h" using Cons.prems b by (auto simp: handles_def)
  show ?case
    using Cons.IH[OF rest, of "use_handle (UseDelivered t) h o'"] use_delivered[OF h, of t o'] b
    by (simp add: handles_def)
qed (simp add: handles_def)

lemma settles_delivered:
  assumes "\<forall>h\<in>set (handles batch). qh_armed h" "n = length batch"
  shows "settles (handles batch) o' (deliver_each t batch (add_written n o'))"
proof -
  have "failures (add_written n o') = failures o'" "resolved (add_written n o') = resolved o'"
    "om_written (os_metrics (add_written n o')) = om_written (os_metrics o') + of_nat n"
    by (simp_all add: add_written_def failures_def resolved_def)
  then show ?thesis
    using deliver_each_effect[OF assms(1), of t "add_written n o'"] assms(2)
    by (simp add: settles_def settled_def handles_def)
qed

definition with_reason :: "string \<Rightarrow> parked list \<Rightarrow> (owned_event \<times> queue_handle \<times> string) list" where
  "with_reason r = map (\<lambda>(ev, h, _). (ev, h, r))"

lemma settles_with_reason:
  assumes "\<forall>h\<in>set (handles batch). qh_armed h"
  shows "settles (handles batch) o' (dlq_each sx now (map (\<lambda>(ev, h, _). (ev, h, r)) batch) o')"
proof -
  have "map (\<lambda>(_, h, _). h) (map (\<lambda>(ev, h, _). (ev, h, r)) batch) = handles batch"
    by (simp add: handles_def comp_def split_beta)
  moreover have "\<forall>(ev, h, r')\<in>set (map (\<lambda>(ev, h, _). (ev, h, r)) batch). qh_armed h"
    using assms by (auto simp: handles_def)
  ultimately show ?thesis using settles_dlq_each by metis
qed

lemma handles_append: "handles (xs @ ys) = handles xs @ handles ys"
  by (simp add: handles_def)

lemma settles_success:
  assumes "\<forall>h\<in>set (handles ship). qh_armed h"
  shows "settles (handles ship) o' (resolve_send_success sx now t ship rejected o')"
proof -
  define n where "n = length ship - min rejected (length ship)"
  have n: "n \<le> length ship" by (simp add: n_def)
  have split: "handles ship = handles (take n ship) @ handles (drop n ship)"
    by (metis append_take_drop_id handles_append)
  have "settles (handles (take n ship)) o' (deliver_each t (take n ship) (add_written n o'))"
    using assms n split by (intro settles_delivered) auto
  moreover have "settles (handles (drop n ship)) (deliver_each t (take n ship) (add_written n o'))
      (resolve_send_success sx now t ship rejected o')"
    unfolding resolve_send_success_def Let_def n_def[symmetric] using assms split by (intro settles_with_reason) auto
  ultimately show ?thesis using settles_trans split by metis
qed

lemma retry_loop_keeps: "retry_loop cfg sends stopping tries wait o' = (r, ws, o'') \<Longrightarrow> settled o'' = settled o' \<and> resolved o'' = resolved o'"
proof (induction cfg sends stopping tries wait o' arbitrary: r ws o'' rule: retry_loop.induct)
  case (1 cfg sends stopping tries wait o')
  have keep: "settled (set_in_retry v x) = settled x" "resolved (set_in_retry v x) = resolved x"
    "settled (bump_retries x) = settled x" "resolved (bump_retries x) = resolved x" for v x
    by (simp_all add: settled_def resolved_def failures_def set_in_retry_def bump_retries_def)
  note run = 1(2)[unfolded retry_loop.simps[of cfg sends stopping tries]]
  show ?case
  proof (cases "sends tries")
    case (SendFail e)
    show ?thesis
    proof (cases "rc_max_attempts cfg \<le> tries + 1 \<or> stopping (tries + 1)")
      case True
      then show ?thesis using run SendFail keep by (auto simp: Let_def split: if_splits)
    next
      case False
      obtain ws' where "retry_loop cfg sends stopping (tries + 1) (next_wait cfg wait) (set_in_retry 1 (bump_retries o')) = (r, ws', o'')"
        using run SendFail False by (auto simp: Let_def split: prod.splits)
      from 1(1)[OF SendFail refl refl _ refl _ this] False keep show ?thesis by simp
    qed
  qed (use run keep in auto)
qed

lemma settles_after: "settled o1 = settled o' \<Longrightarrow> resolved o1 = resolved o' \<Longrightarrow> settles hs o1 o2 \<Longrightarrow> settles hs o' o2"
  by (simp add: settles_def)

lemma settles_render:
  assumes "\<forall>h\<in>set (handles batch). qh_armed h" "render_batch sx now site batch o' = (ps, ship, o1)"
  shows "\<exists>bad. settles bad o' o1 \<and> mset (handles batch) = mset bad + mset (handles ship)
     \<and> (ps = [] \<longleftrightarrow> ship = []) \<and> (\<forall>h\<in>set (handles ship). qh_armed h)"
proof -
  obtain fails where f: "split_rendered sx site batch = (ps, ship, fails)" "o1 = dlq_each sx now fails o'"
    using assms(2) by (auto simp: render_batch_def split: prod.splits)
  have m: "mset (handles batch) = mset (map (\<lambda>(_, h, _). h) fails) + mset (handles ship) \<and> (ps = [] \<longleftrightarrow> ship = [])"
    using f(1) by (induction sx site batch arbitrary: ps ship fails rule: split_rendered.induct)
      (auto simp: handles_def split: prod.splits sum.splits)
  then have "set (handles batch) = set (map (\<lambda>(_, h, _). h) fails) \<union> set (handles ship)"
    by (metis set_mset_mset set_mset_union)
  then have "\<forall>h\<in>set (map (\<lambda>(_, h, _). h) fails). qh_armed h" "\<forall>h\<in>set (handles ship). qh_armed h"
    using assms(1) by simp_all
  moreover from this(1) have "\<forall>(ev, h, r)\<in>set fails. qh_armed h" by fastforce
  ultimately show ?thesis using m settles_dlq_each[of fails o' sx now] f(2) by blast
qed

lemma strip_handles: "map snd (strip_permits ship) = handles ship"
  by (simp add: strip_permits_def handles_def comp_def split_beta)

lemma strip_armed: "\<forall>h\<in>set (handles ship). qh_armed h \<Longrightarrow> \<forall>(ev, h)\<in>set (strip_permits ship). qh_armed h"
  by (auto simp: strip_permits_def handles_def)

text \<open>Flushing a batch, whatever the sends do, settles exactly its events.\<close>

lemma flush_settles:
  assumes "\<forall>h\<in>set (handles batch). qh_armed h"
  shows "settles (handles batch) o' (flush_events sx now t sends stopping batch o')"
proof (cases "batch = []")
  case False
  obtain ps ship o1 where r: "render_batch sx now ''batch flush'' batch o' = (ps, ship, o1)" by (metis prod_cases3)
  obtain bad where b: "settles bad o' o1" "mset (handles batch) = mset bad + mset (handles ship)" "ps = [] \<longleftrightarrow> ship = []"
    "\<forall>h\<in>set (handles ship). qh_armed h" using settles_render[OF assms r] by blast
  have fin: "settles (handles batch) o' o2" if "settles (handles ship) o1 o2" for o2
    using settles_perm[OF settles_trans[OF b(1) that]] b(2) by simp
  show ?thesis
  proof (cases "ps = []")
    case True
    then show ?thesis using fin[of o1] False r b(3) by (simp add: flush_events_def handles_def)
  next
    case ps: False
    show ?thesis
    proof (cases "bs_prepare (sx_policy sx) ps")
      case (Inl e)
      then show ?thesis
        using fin settles_with_reason[OF b(4), of o1 sx now "''flush failed: '' @ e"] False ps r by (simp add: flush_events_def)
    next
      case (Inr q)
      obtain res ws o2 where l: "retry_loop (sx_retry sx) (sends q) stopping 0 (rc_initial_wait (sx_retry sx)) o1 = (res, ws, o2)"
        by (metis prod_cases3)
      note k = retry_loop_keeps[OF l]
      have "settles (handles ship) o1 (flush_events sx now t sends stopping batch o')"
      proof (rule settles_after[OF conjunct1[OF k] conjunct2[OF k]])
        show "settles (handles ship) o2 (flush_events sx now t sends stopping batch o')"
          using False ps r Inr l settles_success[OF b(4)] settles_with_reason[OF b(4)]
            settles_ambiguous[OF strip_armed[OF b(4)]] strip_handles[of ship]
          by (cases res) (simp_all add: flush_events_def)
      qed
      then show ?thesis by (rule fin)
    qed
  qed
qed (simp add: flush_events_def handles_def)

lemma flush_at_shutdown_settles:
  assumes "\<forall>h\<in>set (handles batch). qh_armed h"
  shows "settles (handles batch) o' (flush_events_at_shutdown sx now t send batch o')"
proof (cases "batch = []")
  case False
  obtain ps ship o1 where r: "render_batch sx now ''shutdown flush'' batch o' = (ps, ship, o1)" by (metis prod_cases3)
  obtain bad where b: "settles bad o' o1" "mset (handles batch) = mset bad + mset (handles ship)" "ps = [] \<longleftrightarrow> ship = []"
    "\<forall>h\<in>set (handles ship). qh_armed h" using settles_render[OF assms r] by blast
  have fin: "settles (handles batch) o' o2" if "settles (handles ship) o1 o2" for o2
    using settles_perm[OF settles_trans[OF b(1) that]] b(2) by simp
  note routes = settles_success[OF b(4)] settles_batch[OF strip_armed[OF b(4)]] settles_ambiguous[OF strip_armed[OF b(4)]]
    strip_handles[of ship]
  have "settles (handles ship) o1 (flush_events_at_shutdown sx now t send batch o')"
  proof (cases "ps = []")
    case True
    then show ?thesis using False r b(3) by (simp add: flush_events_at_shutdown_def handles_def)
  next
    case ps: False
    show ?thesis using False ps r routes
      by (auto simp: flush_events_at_shutdown_def Let_def split: sum.split shutdown_send.split)
  qed
  then show ?thesis by (rule fin)
qed (simp add: flush_events_at_shutdown_def handles_def)

lemma hard_capped_Nil [simp]: "hard_capped_batches [] n = []"
  by (simp add: hard_capped_batches.simps)

lemma hard_capped_concat: "concat (hard_capped_batches events n) = events"
proof (induction events n rule: hard_capped_batches.induct)
  case (1 events n)
  then show ?case by (cases "events = []") (simp_all add: hard_capped_batches.simps[of events])
qed

lemma hard_capped_size: "\<forall>b\<in>set (hard_capped_batches events n). b \<noteq> [] \<and> length b \<le> max n 1"
proof (induction events n rule: hard_capped_batches.induct)
  case (1 events n)
  then show ?case by (cases "events = []") (simp_all add: hard_capped_batches.simps[of events])
qed

lemma drain_settles:
  "\<forall>h\<in>set (handles (concat bs)). qh_armed h \<Longrightarrow> settles (handles (concat bs)) o' (drain_batches sx now t sends bs o')"
proof (induction bs arbitrary: o' sends)
  case (Cons b bs)
  then have "\<forall>h\<in>set (handles b). qh_armed h" "\<forall>h\<in>set (handles (concat bs)). qh_armed h" by (simp_all add: handles_append)
  from settles_trans[OF flush_at_shutdown_settles[OF this(1)] Cons.IH[OF this(2)]] show ?case
    by (cases sends) (simp_all add: handles_append)
qed (simp add: handles_def)

text \<open>Everything parked: in the buffer and in the flusher's hand.\<close>

definition parked_all :: "sink \<Rightarrow> parked list" where
  "parked_all s = concat (bk_hand s) @ bk_buffer s"

definition sink_ok :: "nat \<Rightarrow> sink \<Rightarrow> bool" where
  "sink_ok n s \<longleftrightarrow> (\<forall>h\<in>set (handles (parked_all s)). qh_armed h) \<and> bk_permits s + held (parked_all s) = max (n * 2) 1
     \<and> (\<forall>b\<in>set (bk_hand s). length b \<le> max n 1)"

definition accounts :: "queue_handle list \<Rightarrow> sink \<Rightarrow> sink \<Rightarrow> bool" where
  "accounts hs s s' \<longleftrightarrow> settled (bk_out s') + of_nat (length (parked_all s')) = settled (bk_out s) + of_nat (length (parked_all s)) + of_nat (length hs)
     \<and> resolved (bk_out s') + mset (map qh_position (handles (parked_all s')))
        = resolved (bk_out s) + mset (map qh_position (handles (parked_all s))) + mset (map qh_position hs)"

lemma held_append: "held (xs @ ys) = held xs + held ys" by (simp add: held_def)

lemma handles_length [simp]: "length (handles xs) = length xs" by (simp add: handles_def)

lemma accounts_settle:
  assumes "settles (handles b) (bk_out s) o'" "mset (parked_all s) = mset (b @ rest)" "parked_all s' = rest" "bk_out s' = o'"
  shows "accounts [] s s'"
proof -
  have "mset (map qh_position (handles (parked_all s))) = mset (map qh_position (handles (b @ rest)))"
    using assms(2) unfolding handles_def by (metis mset_map)
  moreover have "length (parked_all s) = length b + length rest" using assms(2) by (metis size_mset length_append)
  ultimately show ?thesis using assms(1,3,4) by (simp add: accounts_def settles_def handles_append)
qed

lemma accounts_park:
  assumes "bk_hand s' = bk_hand s" "bk_buffer s' = bk_buffer s @ [(ev, h, p)]" "bk_out s' = bk_out s"
  shows "accounts [h] s s'" "parked_all s' = parked_all s @ [(ev, h, p)]"
  using assms by (simp_all add: accounts_def parked_all_def handles_def)

lemma sink_ok_park:
  assumes "sink_ok n s" "qh_armed h" "parked_all s' = parked_all s @ [(ev, h, p)]" "bk_hand s' = bk_hand s"
    and "bk_permits s' + (if p then 1 else 0) = bk_permits s"
  shows "sink_ok n s'"
  using assms by (auto simp: sink_ok_def handles_append held_append handles_def held_def split: if_splits)

lemma sink_step_ok:
  assumes "sink_step sx op s = Some s'" "sink_ok (sx_batch_size sx) s" "\<forall>h\<in>set (op_handles op). qh_armed h"
  shows "sink_ok (sx_batch_size sx) s' \<and> accounts (op_handles op) s s'"
proof (cases op)
  case (OpConsume signalled ev h)
  then have step: "consume signalled ev h s = Some s'" and h: "qh_armed h" using assms(1,3) by simp_all
  obtain p where p: "bk_hand s' = bk_hand s" "bk_buffer s' = bk_buffer s @ [(ev, h, p)]" "bk_out s' = bk_out s"
    "bk_permits s' + (if p then 1 else 0) = bk_permits s"
    using step by (fastforce simp: consume_def split: if_splits)
  then show ?thesis using accounts_park[OF p(1-3)] sink_ok_park[OF assms(2) h] OpConsume by simp
next
  case (OpConsumeShutdown ev h)
  then have s': "s' = consume_shutdown ev h s" and h: "qh_armed h" using assms(1,3) by simp_all
  have p: "bk_hand s' = bk_hand s" "bk_buffer s' = bk_buffer s @ [(ev, h, False)]" "bk_out s' = bk_out s" "bk_permits s' = bk_permits s"
    by (simp_all add: s' consume_shutdown_def)
  then show ?thesis using accounts_park[OF p(1-3)] sink_ok_park[OF assms(2) h, of s' ev False] OpConsumeShutdown by simp
next
  case OpTake
  then have s': "s' = s\<lparr>bk_hand := hard_capped_batches (bk_buffer s) (sx_batch_size sx), bk_buffer := []\<rparr>" "bk_hand s = []"
    using assms(1) by (auto simp: flusher_take_def split: if_splits)
  then have "parked_all s' = parked_all s" by (simp add: parked_all_def hard_capped_concat)
  then show ?thesis using assms(2) s' OpTake hard_capped_size[of "bk_buffer s" "sx_batch_size sx"]
    by (simp add: sink_ok_def accounts_def)
next
  case (OpFlush now t sends stopping)
  then obtain b rest where b: "bk_hand s = b # rest" "s' = s\<lparr>bk_hand := rest, bk_permits := bk_permits s + held b,
      bk_out := flush_events sx now t sends stopping b (bk_out s)\<rparr>"
    using assms(1) by (auto simp: flusher_flush_def split: list.splits)
  then have p: "parked_all s = b @ parked_all s'" by (simp add: parked_all_def)
  then have "accounts [] s s'"
    using assms(2) b(2) flush_settles[of b "bk_out s" sx now t sends stopping]
    by (intro accounts_settle[where b = b]) (auto simp: sink_ok_def handles_append)
  then show ?thesis using assms(2) OpFlush b p by (auto simp: sink_ok_def handles_append held_append)
next
  case OpSignal
  then show ?thesis using assms by (auto simp: shutdown_signal_def sink_ok_def accounts_def parked_all_def)
next
  case (OpDrain now t sends)
  then have s': "s' = shutdown_drain sx now t sends s" using assms(1) by (auto split: if_splits)
  have "settles (handles (bk_buffer s)) (bk_out s) (bk_out s')"
    using assms(2) drain_settles[of "hard_capped_batches (bk_buffer s) (sx_batch_size sx)"] s'
    by (auto simp: hard_capped_concat sink_ok_def parked_all_def handles_append shutdown_drain_def)
  then have "accounts [] s s'"
    by (rule accounts_settle[where rest = "concat (bk_hand s)"]) (simp_all add: s' parked_all_def shutdown_drain_def)
  then show ?thesis using assms(2) OpDrain s' by (auto simp: sink_ok_def parked_all_def handles_append held_append shutdown_drain_def)
next
  case (OpWedged now)
  then have s': "s' = wedged_drain sx now s" using assms(1) by (auto split: if_splits)
  have "settles (handles (bk_buffer s)) (bk_out s) (bk_out s')"
    using assms(2) settles_ambiguous[OF strip_armed, of "bk_buffer s"] strip_handles[of "bk_buffer s"] s'
    by (auto simp: sink_ok_def parked_all_def handles_append wedged_drain_def)
  then have "accounts [] s s'"
    by (rule accounts_settle[where rest = "concat (bk_hand s)"]) (simp_all add: s' parked_all_def wedged_drain_def)
  then show ?thesis using assms(2) OpWedged s' by (auto simp: sink_ok_def parked_all_def handles_append held_append wedged_drain_def)
qed

lemma run_sink_ok:
  assumes "run_sink sx ops s = Some s'" "sink_ok (sx_batch_size sx) s" "\<forall>h\<in>set (concat (map op_handles ops)). qh_armed h"
  shows "sink_ok (sx_batch_size sx) s' \<and> accounts (concat (map op_handles ops)) s s'"
  using assms
proof (induction ops arbitrary: s)
  case (Cons op ops)
  obtain s1 where s1: "sink_step sx op s = Some s1" "run_sink sx ops s1 = Some s'" using Cons.prems(1) by (auto split: option.splits)
  have "sink_ok (sx_batch_size sx) s1" "accounts (op_handles op) s s1"
    using sink_step_ok[OF s1(1) Cons.prems(2)] Cons.prems(3) by simp_all
  with Cons.IH[OF s1(2)] Cons.prems(3) show ?case by (simp add: accounts_def)
qed (simp add: accounts_def)

lemma sink_new_ok: "sink_ok n (sink_new n o')" "parked_all (sink_new n o') = []" "bk_out (sink_new n o') = o'"
  by (simp_all add: sink_ok_def sink_new_def parked_all_def handles_def held_def)

text \<open>The waits of the retry loop are those of the retry configuration.\<close>

lemma retry_loop_waits:
  "retry_loop cfg sends stopping tries wait o' = (r, ws, o'') \<Longrightarrow> ws = map (\<lambda>k. (next_wait cfg ^^ k) wait) [0..<length ws]
     \<and> length ws \<le> rc_max_attempts cfg - tries - 1"
proof (induction cfg sends stopping tries wait o' arbitrary: r ws o'' rule: retry_loop.induct)
  case (1 cfg sends stopping tries wait o')
  note run = 1(2)[unfolded retry_loop.simps[of cfg sends stopping tries]]
  show ?case
  proof (cases "ws = []")
    case False
    then obtain e where e: "sends tries = SendFail e" "\<not> rc_max_attempts cfg \<le> tries + 1" "\<not> stopping (tries + 1)"
      using run by (cases "sends tries") (auto simp: Let_def split: if_splits)
    obtain ws' where ws': "retry_loop cfg sends stopping (tries + 1) (next_wait cfg wait) (set_in_retry 1 (bump_retries o')) = (r, ws', o'')"
      "ws = wait # ws'"
      using run e by (auto simp: Let_def split: prod.splits)
    from 1(1)[OF e(1) refl refl e(2) refl e(3) ws'(1)] have IH: "ws' = map (\<lambda>k. (next_wait cfg ^^ k) (next_wait cfg wait)) [0..<length ws']"
      "length ws' \<le> rc_max_attempts cfg - (tries + 1) - 1" by auto
    have "ws = map (\<lambda>k. (next_wait cfg ^^ k) wait) [0..<length ws]"
      unfolding ws'(2) by (subst IH(1)) (simp add: upt_conv_Cons map_Suc_upt[symmetric] funpow_swap1 del: upt_Suc map_Suc_upt)
    then show ?thesis using IH(2) ws'(2) e(2) by simp
  qed simp
qed

end
