(* ===== verification/LtpOutput.thy ===== *)
theory LtpOutput
  imports LtpInput OutputDlq Batched
begin

section \<open>The LTP output\<close>

text \<open>
  \<open>modules/output/ltp.rs\<close>: the metadata an event leaves with, writing it over a cached connection that
  starts with a hello, the retry loop and the single attempt of a shutdown. What the network does in each
  attempt is an argument; the bytes each connection received are part of the state.
\<close>

record working_meta =
  wm_meta :: ltp_meta
  wm_local :: nat

datatype write_io = WriteOk | WriteFailed nat string

datatype connect_io = ConnUp | ConnFailed string | ConnCancelled

text \<open>One attempt: the shutdown flag before and after connecting, the connect, the two writes, the clock.\<close>

record attempt_io =
  ai_stop_before :: bool
  ai_connect :: connect_io
  ai_stop_after :: bool
  ai_hello :: write_io
  ai_now :: int
  ai_event :: write_io

datatype write_outcome = WDelivered | WPreSendShutdown | WErr string

record ltp_output =
  lo_name :: rstr
  lo_node_id :: rstr
  lo_codec :: ltp_codec
  lo_hello :: bytes
  lo_retry :: retry_config
  lo_error_log :: error_log
  lo_fallback :: error_log_fallback

text \<open>The cached connection with the bytes written to it, and those of the connections before it.\<close>

record sender =
  sd_conn :: "bytes option"
  sd_closed :: "bytes list"
  sd_peer :: ltp_peer_metrics
  sd_out :: out_state

subsection \<open>Metadata\<close>

definition pending_local :: "rstr \<Rightarrow> hop_stamp list \<Rightarrow> bool" where
  "pending_local me ss \<longleftrightarrow> ss \<noteq> [] \<and> node_id (last ss) = me \<and> departure_unix_nano (last ss) = 0"

definition working_event_meta :: "ltp_output \<Rightarrow> owned_event \<Rightarrow> working_meta" where
  "working_event_meta lo ev =
     (let arrival = to_wire_u64 (clamp_i64 (oe_received_at ev));
          prefix = ltp_stamps_slice ev;
          stamps = (if pending_local (lo_node_id lo) prefix then prefix
                    else prefix @ [\<lparr>node_id = lo_node_id lo, arrival_unix_nano = arrival, departure_unix_nano = 0\<rparr>])
      in \<lparr>wm_meta = \<lparr>lm_key = lc_uuid_bytes (lo_codec lo) (oe_key ev), lm_stamps = stamps\<rparr>, wm_local = length stamps - 1\<rparr>)"

definition event_frame :: "ltp_output \<Rightarrow> int \<Rightarrow> working_meta \<Rightarrow> bytes \<Rightarrow> (frame_error + bytes) \<times> working_meta" where
  "event_frame lo now w payload =
     (let m = (wm_meta w)\<lparr>lm_stamps := sealed_at (wm_local w) (to_wire_u64 now) (lm_stamps (wm_meta w))\<rparr>
      in (encode_frame (lc_meta_enc (lo_codec lo)) m payload, w\<lparr>wm_meta := m\<rparr>))"

text \<open>\<open>event_meta\<close>: the smallest metadata, whose length is checked when the output is built.\<close>

definition event_meta :: "rstr \<Rightarrow> bytes \<Rightarrow> nat \<Rightarrow> nat \<Rightarrow> ltp_meta" where
  "event_meta me key arrival departure =
     \<lparr>lm_key = key, lm_stamps = [\<lparr>node_id = me, arrival_unix_nano = arrival, departure_unix_nano = departure\<rparr>]\<rparr>"

subsection \<open>Writing\<close>

definition write_bytes :: "write_io \<Rightarrow> bytes \<Rightarrow> bytes \<Rightarrow> (string + unit) \<times> bytes" where
  "write_bytes io bs conn = (case io of
     WriteOk \<Rightarrow> (Inr (), conn @ bs)
   | WriteFailed n e \<Rightarrow> (Inl e, conn @ take n bs))"

definition wrote_event :: "bytes \<Rightarrow> hop_stamp \<Rightarrow> sender \<Rightarrow> sender" where
  "wrote_event frame stamp sd = sd\<lparr>
     sd_out := (sd_out sd)\<lparr>os_metrics := (os_metrics (sd_out sd))\<lparr>om_bytes_written := om_bytes_written (os_metrics (sd_out sd)) + of_nat (length frame)\<rparr>\<rparr>,
     sd_peer := (sd_peer sd)\<lparr>pm_intra := hist_observe (as_seconds_f64 (departure_unix_nano stamp - arrival_unix_nano stamp)) (pm_intra (sd_peer sd))\<rparr>\<rparr>"

definition write_event :: "ltp_output \<Rightarrow> int \<Rightarrow> write_io \<Rightarrow> bytes \<Rightarrow> bytes \<Rightarrow> working_meta \<Rightarrow> sender \<Rightarrow>
    (string + unit) \<times> bytes \<times> working_meta \<times> sender" where
  "write_event lo now io payload conn w sd = (case event_frame lo now w payload of
     (Inl e, w') \<Rightarrow> (Inl (frame_error_text e), conn, w', sd)
   | (Inr frame, w') \<Rightarrow> (case write_bytes io frame conn of
       (Inl e, conn') \<Rightarrow> (Inl e, conn', w', sd)
     | (Inr _, conn') \<Rightarrow> (Inr (), conn', w', wrote_event frame (lm_stamps (wm_meta w') ! wm_local w') sd)))"

definition write_hello_and_event :: "ltp_output \<Rightarrow> attempt_io \<Rightarrow> bytes \<Rightarrow> bytes \<Rightarrow> working_meta \<Rightarrow> sender \<Rightarrow>
    (string + unit) \<times> bytes \<times> working_meta \<times> sender" where
  "write_hello_and_event lo io payload conn w sd = (case write_bytes (ai_hello io) (lo_hello lo) conn of
     (Inl e, conn') \<Rightarrow> (Inl e, conn', w, sd)
   | (Inr _, conn') \<Rightarrow> write_event lo (ai_now io) (ai_event io) payload conn' w sd)"

text \<open>A connection that is dropped keeps what it received.\<close>

definition drop_conn :: "bytes \<Rightarrow> sender \<Rightarrow> sender" where
  "drop_conn conn sd = sd\<lparr>sd_conn := None, sd_closed := sd_closed sd @ [conn]\<rparr>"

definition write_attempt :: "ltp_output \<Rightarrow> attempt_io \<Rightarrow> bytes \<Rightarrow> working_meta \<Rightarrow> sender \<Rightarrow> write_outcome \<times> working_meta \<times> sender" where
  "write_attempt lo io payload w sd =
     (if ai_stop_before io then (WPreSendShutdown, w, sd)
      else case sd_conn sd of
        None \<Rightarrow> (case ai_connect io of
            ConnFailed e \<Rightarrow> (WErr e, w, sd)
          | ConnCancelled \<Rightarrow> (WPreSendShutdown, w, sd)
          | ConnUp \<Rightarrow>
             (if ai_stop_after io then (WPreSendShutdown, w, drop_conn [] sd)
              else case write_hello_and_event lo io payload [] w sd of
                (Inr _, conn, w', sd') \<Rightarrow> (WDelivered, w', sd'\<lparr>sd_conn := Some conn\<rparr>)
              | (Inl e, conn, w', sd') \<Rightarrow> (WErr e, w', drop_conn conn sd')))
      | Some conn \<Rightarrow> (case write_event lo (ai_now io) (ai_event io) payload conn w sd of
            (Inr _, conn', w', sd') \<Rightarrow> (WDelivered, w', sd'\<lparr>sd_conn := Some conn'\<rparr>)
          | (Inl e, conn', w', sd') \<Rightarrow> (WErr e, w', drop_conn conn' sd')))"

text \<open>The bounded attempt of a shutdown takes the connection out first; \<open>late\<close> is its timer firing at the last write.\<close>

definition write_shutdown_attempt :: "ltp_output \<Rightarrow> attempt_io \<Rightarrow> bytes \<Rightarrow> working_meta \<Rightarrow> sender \<Rightarrow> (string + unit) \<times> working_meta \<times> sender" where
  "write_shutdown_attempt lo io payload w sd = (case sd_conn sd of
     None \<Rightarrow> (case ai_connect io of
         ConnUp \<Rightarrow> (case write_hello_and_event lo io payload [] w sd of
             (Inr _, conn, w', sd') \<Rightarrow> (Inr (), w', sd'\<lparr>sd_conn := Some conn\<rparr>)
           | (Inl e, conn, w', sd') \<Rightarrow> (Inl e, w', drop_conn conn sd'))
       | ConnFailed e \<Rightarrow> (Inl e, w, sd)
       | ConnCancelled \<Rightarrow> (Inl ''LTP shutdown write timed out'', w, sd))
   | Some conn \<Rightarrow> (case write_event lo (ai_now io) (ai_event io) payload conn w sd of
         (Inr _, conn', w', sd') \<Rightarrow> (Inr (), w', sd'\<lparr>sd_conn := Some conn'\<rparr>)
       | (Inl e, conn', w', sd') \<Rightarrow> (Inl e, w', drop_conn conn' sd')))"

subsection \<open>One event\<close>

definition on_out :: "(out_state \<Rightarrow> out_state) \<Rightarrow> sender \<Rightarrow> sender" where
  "on_out f sd = sd\<lparr>sd_out := f (sd_out sd)\<rparr>"

definition route_failure :: "ltp_output \<Rightarrow> int \<Rightarrow> owned_event \<Rightarrow> queue_handle \<Rightarrow> string \<Rightarrow> out_state \<Rightarrow> out_state" where
  "route_failure lo now ev h reason o' =
     (case route_event_to_dlq (lo_error_log lo) (lo_fallback lo) now (lo_name lo) ev (qh_position h) reason o' of
        (outcome, o'') \<Rightarrow> resolve_ack_from_dlq_outcome h outcome o'')"

definition oversize_reason :: "owned_event \<Rightarrow> string" where
  "oversize_reason ev = ''LTP payload length '' @ nat_digits (length (oe_egress ev)) @ '' exceeds the ''
     @ nat_digits max_payload_len @ '' byte limit''"

text \<open>
  The retry loop from attempt number \<open>tries\<close>; \<open>stopping n\<close> is whether the wait after the \<open>n\<close>-th failure is cut
  short by the shutdown, \<open>t\<close> the time of the delivery.
\<close>

function ltp_retry :: "ltp_output \<Rightarrow> (nat \<Rightarrow> attempt_io) \<Rightarrow> (nat \<Rightarrow> bool) \<Rightarrow> int \<Rightarrow> int \<Rightarrow> owned_event \<Rightarrow> queue_handle \<Rightarrow>
    nat \<Rightarrow> nat \<Rightarrow> working_meta \<Rightarrow> sender \<Rightarrow> nat list \<times> sender" where
  "ltp_retry lo io stopping now t ev h tries wait w sd = (case write_attempt lo (io tries) (oe_egress ev) w sd of
     (WDelivered, _, sd') \<Rightarrow> ([], on_out (use_handle (UseDelivered t) h \<circ> bump_written \<circ> set_in_retry 0) sd')
   | (WPreSendShutdown, _, sd') \<Rightarrow>
       ([], on_out (route_failure lo now ev h ''LTP write abandoned on shutdown before event bytes'' \<circ> set_in_retry 0) sd')
   | (WErr e, w', sd') \<Rightarrow>
       (let tries' = tries + 1; sd1 = on_out bump_retries sd' in
        if rc_max_attempts (lo_retry lo) \<le> tries' then
          ([], on_out (route_failure lo now ev h (''LTP write failed after '' @ nat_digits tries' @ '' attempts: '' @ e) \<circ> set_in_retry 0) sd1)
        else (let sd2 = on_out (set_in_retry 1) sd1 in
          if stopping tries' then
            ([wait], on_out (route_failure lo now ev h (''LTP write failed and shutdown interrupted retry: '' @ e) \<circ> set_in_retry 0) sd2)
          else (case ltp_retry lo io stopping now t ev h tries' (next_wait (lo_retry lo) wait) w' sd2 of (ws, sd3) \<Rightarrow> (wait # ws, sd3)))))"
  by pat_completeness auto
termination
  by (relation "measure (\<lambda>(lo, io, stopping, now, t, ev, h, tries, wait, w, sd). rc_max_attempts (lo_retry lo) - tries)") auto

declare ltp_retry.simps [simp del]

definition ltp_consume :: "ltp_output \<Rightarrow> (nat \<Rightarrow> attempt_io) \<Rightarrow> (nat \<Rightarrow> bool) \<Rightarrow> int \<Rightarrow> int \<Rightarrow> owned_event \<Rightarrow> queue_handle \<Rightarrow>
    sender \<Rightarrow> nat list \<times> sender" where
  "ltp_consume lo io stopping now t ev h sd =
     (if max_payload_len < length (oe_egress ev) then ([], on_out (route_failure lo now ev h (oversize_reason ev)) sd)
      else ltp_retry lo io stopping now t ev h 0 (rc_initial_wait (lo_retry lo)) (working_event_meta lo ev) sd)"

definition ltp_consume_shutdown :: "ltp_output \<Rightarrow> attempt_io \<Rightarrow> int \<Rightarrow> int \<Rightarrow> owned_event \<Rightarrow> queue_handle \<Rightarrow> sender \<Rightarrow> sender" where
  "ltp_consume_shutdown lo io now t ev h sd =
     (if max_payload_len < length (oe_egress ev) then on_out (route_failure lo now ev h (oversize_reason ev)) sd
      else (case write_shutdown_attempt lo io (oe_egress ev) (working_event_meta lo ev) sd of
        (r, _, sd') \<Rightarrow> on_out (finalize_shutdown_singleton_ambiguous (lo_error_log lo) (lo_fallback lo) now t (lo_name lo) ev h r) sd'))"

subsection \<open>Every event is settled once\<close>

lemma settled_neutral [simp]:
  "settled (set_in_retry v o') = settled o'" "resolved (set_in_retry v o') = resolved o'"
  "settled (bump_retries o') = settled o'" "resolved (bump_retries o') = resolved o'"
  by (simp_all add: settled_def resolved_def failures_def set_in_retry_def bump_retries_def)

lemma settles_route_failure: "qh_armed h \<Longrightarrow> settles [h] o' (route_failure lo now ev h reason o')"
  using settles_route[of h] by (auto simp: route_failure_def route_event_to_dlq_def split: prod.split)

lemma settles_written: "qh_armed h \<Longrightarrow> settles [h] o' (use_handle (UseDelivered t) h (bump_written o'))"
  using use_delivered[of h t "bump_written o'"]
  by (simp add: settles_def settled_def) (simp add: bump_written_def failures_def resolved_def)

lemma settles_neutral: "settles hs (set_in_retry v o') o'' \<longleftrightarrow> settles hs o' o''" "settles hs (bump_retries o') o'' \<longleftrightarrow> settles hs o' o''"
  by (simp_all add: settles_def)

lemma settles_reset:
  assumes "qh_armed h"
  shows "settles [h] o' (use_handle (UseDelivered t) h (bump_written (set_in_retry v o')))"
    "settles [h] o' (route_failure lo now ev h reason (set_in_retry v o'))"
    "settles [h] o' (route_failure lo now ev h reason (set_in_retry v (bump_retries o')))"
    "settles [h] o' (route_failure lo now ev h reason (set_in_retry v (set_in_retry u (bump_retries o'))))"
  using settles_written[OF assms, of "set_in_retry v o'" t] settles_route_failure[OF assms, of "set_in_retry v o'"]
    settles_route_failure[OF assms, of "set_in_retry v (bump_retries o')"]
    settles_route_failure[OF assms, of "set_in_retry v (set_in_retry u (bump_retries o'))"]
  by (simp_all add: settles_neutral)

lemma out_neutral:
  assumes "settled o' = settled o''" "resolved o' = resolved o''"
  shows "settles hs o' x \<longleftrightarrow> settles hs o'' x"
  using assms by (simp add: settles_def)

lemma write_event_out:
  "write_event lo now io p conn w sd = (r, conn', w', sd') \<Longrightarrow> settled (sd_out sd') = settled (sd_out sd) \<and> resolved (sd_out sd') = resolved (sd_out sd)
     \<and> os_acks (sd_out sd') = os_acks (sd_out sd) \<and> sd_conn sd' = sd_conn sd \<and> sd_closed sd' = sd_closed sd"
  by (auto simp: write_event_def wrote_event_def settled_def resolved_def failures_def split: prod.splits sum.splits)

lemma write_hello_and_event_out:
  "write_hello_and_event lo io p conn w sd = (r, conn', w', sd') \<Longrightarrow> settled (sd_out sd') = settled (sd_out sd) \<and> resolved (sd_out sd') = resolved (sd_out sd)
     \<and> os_acks (sd_out sd') = os_acks (sd_out sd) \<and> sd_conn sd' = sd_conn sd \<and> sd_closed sd' = sd_closed sd"
  by (auto simp: write_hello_and_event_def split: prod.splits sum.splits dest: write_event_out)

lemma write_attempt_out:
  "write_attempt lo io p w sd = (r, w', sd') \<Longrightarrow> settled (sd_out sd') = settled (sd_out sd) \<and> resolved (sd_out sd') = resolved (sd_out sd)
     \<and> os_acks (sd_out sd') = os_acks (sd_out sd)"
  by (auto simp: write_attempt_def drop_conn_def split: if_splits option.splits connect_io.splits prod.splits sum.splits
      dest!: write_event_out write_hello_and_event_out)

lemma write_shutdown_attempt_out:
  "write_shutdown_attempt lo io p w sd = (r, w', sd') \<Longrightarrow> settled (sd_out sd') = settled (sd_out sd) \<and> resolved (sd_out sd') = resolved (sd_out sd)
     \<and> os_acks (sd_out sd') = os_acks (sd_out sd)"
  by (auto simp: write_shutdown_attempt_def drop_conn_def split: if_splits option.splits connect_io.splits prod.splits sum.splits
      dest!: write_event_out write_hello_and_event_out)

lemma on_out_sel [simp]: "sd_out (on_out f sd) = f (sd_out sd)" "sd_conn (on_out f sd) = sd_conn sd" "sd_closed (on_out f sd) = sd_closed sd"
  by (simp_all add: on_out_def)

lemma ltp_retry_settles:
  assumes "qh_armed h" "ltp_retry lo io stopping now t ev h tries wait w sd = (ws, sd')"
  shows "settles [h] (sd_out sd) (sd_out sd')"
  using assms
proof (induction lo io stopping now t ev h tries wait w sd arbitrary: ws sd' rule: ltp_retry.induct)
  case (1 lo io stopping now t ev h tries wait w sd)
  obtain r w1 sd1 where a: "write_attempt lo (io tries) (oe_egress ev) w sd = (r, w1, sd1)" by (cases "write_attempt lo (io tries) (oe_egress ev) w sd") auto
  note o = out_neutral[of "sd_out sd" "sd_out sd1" "[h]"] write_attempt_out[OF a]
  show ?case
  proof (cases r)
    case WDelivered
    then show ?thesis using 1(3) a o settles_reset[OF 1(2)] by (subst (asm) ltp_retry.simps) auto
  next
    case WPreSendShutdown
    then show ?thesis using 1(3) a o settles_reset[OF 1(2)] by (subst (asm) ltp_retry.simps) auto
  next
    case (WErr e)
    show ?thesis
    proof (cases "rc_max_attempts (lo_retry lo) \<le> tries + 1 \<or> stopping (tries + 1)")
      case True
      then show ?thesis using 1(3) a o WErr settles_reset[OF 1(2)]
        by (subst (asm) ltp_retry.simps) (auto simp: Let_def split: if_splits)
    next
      case False
      obtain ws' where rec: "ltp_retry lo io stopping now t ev h (tries + 1) (next_wait (lo_retry lo) wait) w1
          (on_out (set_in_retry 1) (on_out bump_retries sd1)) = (ws', sd')"
        using 1(3) a WErr False by (subst (asm) ltp_retry.simps) (auto simp: Let_def split: prod.splits)
      have "settles [h] (sd_out (on_out (set_in_retry 1) (on_out bump_retries sd1))) (sd_out sd')"
        using 1(1)[OF a[symmetric] WErr refl refl refl _ refl _ 1(2) rec] False by simp
      then show ?thesis using o by (simp add: settles_neutral)
    qed
  qed
qed

lemma ltp_consume_settles:
  assumes "qh_armed h" "ltp_consume lo io stopping now t ev h sd = (ws, sd')"
  shows "settles [h] (sd_out sd) (sd_out sd')"
  using assms settles_route_failure[OF assms(1)] ltp_retry_settles[OF assms(1)] by (auto simp: ltp_consume_def split: if_splits)

lemma ltp_consume_shutdown_settles:
  assumes "qh_armed h"
  shows "settles [h] (sd_out sd) (sd_out (ltp_consume_shutdown lo io now t ev h sd))"
proof (cases "max_payload_len < length (oe_egress ev)")
  case False
  obtain r w' sd' where a: "write_shutdown_attempt lo io (oe_egress ev) (working_event_meta lo ev) sd = (r, w', sd')"
    by (cases "write_shutdown_attempt lo io (oe_egress ev) (working_event_meta lo ev) sd") auto
  have "settles [h] (sd_out sd') (finalize_shutdown_singleton_ambiguous (lo_error_log lo) (lo_fallback lo) now t (lo_name lo) ev h r (sd_out sd'))"
    using settles_written[OF assms] settles_route[OF assms]
    by (auto simp: finalize_shutdown_singleton_ambiguous_def route_event_to_dlq_def split: sum.split prod.split)
  then show ?thesis using False a write_shutdown_attempt_out[OF a] out_neutral[of "sd_out sd" "sd_out sd'" "[h]"]
    by (simp add: ltp_consume_shutdown_def)
qed (simp add: ltp_consume_shutdown_def settles_route_failure[OF assms])

subsection \<open>What a connection received\<close>

text \<open>
  The bytes of a connection are the hello and then whole event frames; the last write may have been cut
  short, after which the connection is dropped.
\<close>

definition meta_frames :: "ltp_output \<Rightarrow> (ltp_meta \<times> bytes) list \<Rightarrow> (bytes \<times> bytes) list" where
  "meta_frames lo ms = map (\<lambda>(m, p). (lc_meta_enc (lo_codec lo) m, p)) ms"

definition sent_ok :: "ltp_output \<Rightarrow> (ltp_meta \<times> bytes) list \<Rightarrow> bool" where
  "sent_ok lo ms \<longleftrightarrow> (\<forall>(m, p) \<in> set ms. frame_fits (lc_meta_enc (lo_codec lo) m) p \<and> meta_ok m \<and>
      (\<exists>k. key_ok (lo_codec lo) k \<and> lm_key m = lc_uuid_bytes (lo_codec lo) k))"

definition whole :: "ltp_output \<Rightarrow> (ltp_meta \<times> bytes) list \<Rightarrow> bytes \<Rightarrow> bool" where
  "whole lo ms b \<longleftrightarrow> sent_ok lo ms \<and> b = lo_hello lo @ wire (meta_frames lo ms)"

definition cut_short :: "ltp_output \<Rightarrow> bytes \<Rightarrow> bool" where
  "cut_short lo b \<longleftrightarrow> (\<exists>n. b = take n (lo_hello lo)) \<or> (\<exists>ms mb p n. sent_ok lo ms \<and> frame_fits mb p \<and>
      b = lo_hello lo @ wire (meta_frames lo ms) @ take n (frame_bytes mb p))"

definition sender_ok :: "ltp_output \<Rightarrow> sender \<Rightarrow> bool" where
  "sender_ok lo sd \<longleftrightarrow> (\<forall>b. sd_conn sd = Some b \<longrightarrow> (\<exists>ms. whole lo ms b)) \<and> (\<forall>b \<in> set (sd_closed sd). cut_short lo b)"

lemma whole_cut_short: "whole lo ms b \<Longrightarrow> cut_short lo b"
proof -
  assume w: "whole lo ms b"
  have "frame_fits [] []" by (simp add: frame_fits_def)
  with w show ?thesis unfolding cut_short_def whole_def
    by (intro disjI2 exI[of _ ms] exI[of _ "[]"] exI[of _ "[]"] exI[of _ 0]) simp
qed

lemma cut_shortI:
  "sent_ok lo ms \<Longrightarrow> frame_fits mb p \<Longrightarrow> cut_short lo (lo_hello lo @ wire (meta_frames lo ms) @ take n (frame_bytes mb p))"
  unfolding cut_short_def by blast

definition keyed :: "ltp_output \<Rightarrow> working_meta \<Rightarrow> bool" where
  "keyed lo w \<longleftrightarrow> meta_ok (wm_meta w) \<and> (\<exists>k. key_ok (lo_codec lo) k \<and> lm_key (wm_meta w) = lc_uuid_bytes (lo_codec lo) k)"

text \<open>A later attempt changes only the time of departure.\<close>

definition same_working :: "working_meta \<Rightarrow> working_meta \<Rightarrow> bool" where
  "same_working w w' \<longleftrightarrow> wm_local w' = wm_local w \<and> (w' = w \<or> (\<exists>d < 2 ^ 64. wm_meta w' = (wm_meta w)\<lparr>lm_stamps := sealed_at (wm_local w) d (lm_stamps (wm_meta w))\<rparr>))"

lemma same_working_refl [simp]: "same_working w w"
  by (simp add: same_working_def)

lemma same_working_trans: "same_working w w' \<Longrightarrow> same_working w' w'' \<Longrightarrow> same_working w w''"
  by (auto simp: same_working_def)

lemma event_frame_effect:
  assumes "event_frame lo now w payload = (r, w')" "in_i64 now"
  shows "same_working w w'" "r = Inr f \<Longrightarrow> frame_fits (lc_meta_enc (lo_codec lo) (wm_meta w')) payload \<and> f = frame_bytes (lc_meta_enc (lo_codec lo) (wm_meta w')) payload"
    "wm_meta w' = (wm_meta w)\<lparr>lm_stamps := sealed_at (wm_local w) (to_wire_u64 now) (lm_stamps (wm_meta w))\<rparr>"
  using assms to_wire_u64_bound[of now] by (auto simp: event_frame_def Let_def encode_frame_def same_working_def)

lemma keyed_same: "same_working w w' \<Longrightarrow> keyed lo w \<Longrightarrow> keyed lo w'"
  by (auto simp: same_working_def keyed_def meta_ok_def stamp_ok_sealed)

lemma whole_snoc:
  assumes "whole lo ms b" "frame_fits (lc_meta_enc (lo_codec lo) m) p" "lm_key m = lc_uuid_bytes (lo_codec lo) k" "key_ok (lo_codec lo) k" "meta_ok m"
  shows "whole lo (ms @ [(m, p)]) (b @ frame_bytes (lc_meta_enc (lo_codec lo) m) p)"
  using assms by (auto simp: whole_def sent_ok_def meta_frames_def)

lemma write_event_wire:
  assumes "write_event lo now io payload conn w sd = (r, conn', w', sd')" "whole lo ms conn" "keyed lo w" "in_i64 now"
  shows "same_working w w'" "r = Inr u \<Longrightarrow> whole lo (ms @ [(wm_meta w', payload)]) conn'" "r = Inl e \<Longrightarrow> cut_short lo conn' \<and> (\<exists>c. conn' = conn @ c)"
proof -
  obtain r1 w1 where f: "event_frame lo now w payload = (r1, w1)" by fastforce
  have w1: "w1 = w'" using assms(1) f by (auto simp: write_event_def split: prod.splits sum.splits)
  note ef = event_frame_effect[OF f assms(4)]
  show same: "same_working w w'" using ef(1) w1 by simp
  obtain k where k: "lm_key (wm_meta w') = lc_uuid_bytes (lo_codec lo) k" "key_ok (lo_codec lo) k" "meta_ok (wm_meta w')"
    using keyed_same[OF same assms(3)] by (auto simp: keyed_def)
  show "whole lo (ms @ [(wm_meta w', payload)]) conn'" if "r = Inr u"
    using assms(1) that f ef(2) w1 whole_snoc[OF assms(2) _ k]
    by (auto simp: write_event_def write_bytes_def split: prod.splits sum.splits write_io.splits)
  show "cut_short lo conn' \<and> (\<exists>c. conn' = conn @ c)" if r: "r = Inl e"
  proof (cases r1)
    case (Inl err)
    then show ?thesis using assms(1) f whole_cut_short[OF assms(2)] by (auto simp: write_event_def)
  next
    case (Inr fr)
    then obtain n where n: "conn' = conn @ take n fr"
      using assms(1) r f by (auto simp: write_event_def write_bytes_def split: write_io.splits)
    moreover have "cut_short lo (conn @ take n fr)"
      using assms(2) ef(2)[OF Inr] cut_shortI[of lo ms] by (auto simp: whole_def)
    ultimately show ?thesis by blast
  qed
qed

lemma write_hello_and_event_wire:
  assumes "write_hello_and_event lo io payload [] w sd = (r, conn', w', sd')" "keyed lo w" "in_i64 (ai_now io)"
  shows "same_working w w'" "r = Inr u \<Longrightarrow> whole lo [(wm_meta w', payload)] conn'" "r = Inl e \<Longrightarrow> cut_short lo conn'"
proof -
  have hello: "whole lo [] (lo_hello lo)" by (simp add: whole_def sent_ok_def meta_frames_def)
  show "same_working w w'"
    using assms write_event_wire(1)[OF _ hello assms(2,3)]
    by (auto simp: write_hello_and_event_def write_bytes_def split: write_io.splits)
  show "whole lo [(wm_meta w', payload)] conn'" if "r = Inr u"
    using assms that write_event_wire(2)[OF _ hello assms(2,3), where r = r and conn' = conn' and w' = w' and sd' = sd']
    by (auto simp: write_hello_and_event_def write_bytes_def split: write_io.splits)
  show "cut_short lo conn'" if "r = Inl e"
    using assms that write_event_wire(3)[OF _ hello assms(2,3), where r = r and conn' = conn' and w' = w' and sd' = sd']
    by (auto simp: write_hello_and_event_def write_bytes_def cut_short_def split: write_io.splits)
qed

text \<open>The logs of all connections, the cached one last; they only grow.\<close>

definition logs :: "sender \<Rightarrow> bytes list" where
  "logs sd = sd_closed sd @ (case sd_conn sd of Some b \<Rightarrow> [b] | None \<Rightarrow> [])"

definition grown :: "bytes list \<Rightarrow> bytes list \<Rightarrow> bool" where
  "grown xs ys \<longleftrightarrow> length xs \<le> length ys \<and> (\<forall>i < length xs. \<exists>c. ys ! i = xs ! i @ c)"

lemma grown_refl [simp]: "grown xs xs"
  by (simp add: grown_def)

lemma grown_trans: "grown xs ys \<Longrightarrow> grown ys zs \<Longrightarrow> grown xs zs"
  unfolding grown_def by (metis append.assoc order_trans less_le_trans)

lemma grown_append [simp]: "grown xs (xs @ ys)"
  by (simp add: grown_def nth_append)

lemma grown_last [simp]: "grown (xs @ [b]) (xs @ [b @ c])"
  by (simp add: grown_def nth_append)

lemma grown_in: "grown xs ys \<Longrightarrow> b \<in> set xs \<Longrightarrow> \<exists>c. b @ c \<in> set ys"
  unfolding grown_def by (metis in_set_conv_nth less_le_trans nth_mem)

lemma logs_drop_conn: "logs (drop_conn b sd) = sd_closed sd @ [b]"
  by (simp add: logs_def drop_conn_def)

lemma logs_on_out [simp]: "logs (on_out f sd) = logs sd" "sender_ok lo (on_out f sd) = sender_ok lo sd"
  by (simp_all add: logs_def sender_ok_def)

definition attempt_ok :: "ltp_output \<Rightarrow> bytes \<Rightarrow> working_meta \<Rightarrow> sender \<Rightarrow> bool \<Rightarrow> working_meta \<Rightarrow> sender \<Rightarrow> bool" where
  "attempt_ok lo payload w sd delivered w' sd' \<longleftrightarrow> sender_ok lo sd' \<and> same_working w w' \<and> grown (logs sd) (logs sd') \<and>
     (delivered \<longrightarrow> (\<exists>ms b. sd_conn sd' = Some b \<and> whole lo (ms @ [(wm_meta w', payload)]) b))"

lemma attempt_ok_new:
  assumes "sender_ok lo sd" "sd_conn sd = None" "keyed lo w" "in_i64 (ai_now io)" "write_hello_and_event lo io payload [] w sd = (r, conn, w', sd')"
  shows "r = Inr u \<Longrightarrow> attempt_ok lo payload w sd True w' (sd'\<lparr>sd_conn := Some conn\<rparr>)"
    "r = Inl e \<Longrightarrow> attempt_ok lo payload w sd False w' (drop_conn conn sd')"
proof -
  note wire = write_hello_and_event_wire[OF assms(5,3,4)] and o = write_hello_and_event_out[OF assms(5)]
  have logs: "logs sd = sd_closed sd" using assms(2) by (simp add: logs_def)
  { assume r: "r = Inr u"
    from wire(2)[OF this] have wh: "whole lo ([] @ [(wm_meta w', payload)]) conn" by simp
    have "sender_ok lo (sd'\<lparr>sd_conn := Some conn\<rparr>)" using assms(1) o wh by (auto simp: sender_ok_def)
    moreover have "grown (logs sd) (logs (sd'\<lparr>sd_conn := Some conn\<rparr>))" using o logs by (simp add: logs_def grown_append)
    ultimately show "attempt_ok lo payload w sd True w' (sd'\<lparr>sd_conn := Some conn\<rparr>)"
      using wh wire(1) unfolding attempt_ok_def by (auto intro: exI[of _ "[]"]) }
  { assume r: "r = Inl e"
    show "attempt_ok lo payload w sd False w' (drop_conn conn sd')"
      using assms(1) wire(1) wire(3)[OF r] o logs
      by (auto simp: attempt_ok_def sender_ok_def logs_drop_conn grown_append) (auto simp: drop_conn_def) }
qed

lemma attempt_ok_cached:
  assumes "sender_ok lo sd" "sd_conn sd = Some conn" "keyed lo w" "in_i64 now" "write_event lo now io payload conn w sd = (r, conn', w', sd')"
  shows "r = Inr u \<Longrightarrow> attempt_ok lo payload w sd True w' (sd'\<lparr>sd_conn := Some conn'\<rparr>)"
    "r = Inl e \<Longrightarrow> attempt_ok lo payload w sd False w' (drop_conn conn' sd')"
proof -
  obtain ms where ms: "whole lo ms conn" using assms(1,2) by (auto simp: sender_ok_def)
  note wire = write_event_wire[OF assms(5) ms assms(3,4)] and o = write_event_out[OF assms(5)]
  have logs: "logs sd = sd_closed sd @ [conn]" using assms(2) by (simp add: logs_def)
  { assume r: "r = Inr u"
    from wire(2)[OF this] have wh: "whole lo (ms @ [(wm_meta w', payload)]) conn'" .
    obtain c where "conn' = conn @ c" using wh ms by (auto simp: whole_def meta_frames_def)
    then have "grown (logs sd) (logs (sd'\<lparr>sd_conn := Some conn'\<rparr>))" using o logs by (simp add: logs_def grown_last)
    moreover have "sender_ok lo (sd'\<lparr>sd_conn := Some conn'\<rparr>)" using assms(1) o wh by (auto simp: sender_ok_def)
    ultimately show "attempt_ok lo payload w sd True w' (sd'\<lparr>sd_conn := Some conn'\<rparr>)"
      using wh wire(1) unfolding attempt_ok_def by auto }
  { assume r: "r = Inl e"
    from wire(3)[OF this] obtain c where "cut_short lo conn'" "conn' = conn @ c" by blast
    then show "attempt_ok lo payload w sd False w' (drop_conn conn' sd')"
      using assms(1) wire(1) o logs
      by (auto simp: attempt_ok_def sender_ok_def logs_drop_conn grown_last) (auto simp: drop_conn_def) }
qed

lemma attempt_ok_refl: "sender_ok lo sd \<Longrightarrow> attempt_ok lo payload w sd False w sd"
  by (simp add: attempt_ok_def)

lemma write_attempt_ok:
  assumes "sender_ok lo sd" "keyed lo w" "in_i64 (ai_now io)" "write_attempt lo io payload w sd = (r, w', sd')"
  shows "attempt_ok lo payload w sd (r = WDelivered) w' sd'"
proof -
  have empty: "attempt_ok lo payload w sd False w (drop_conn [] sd)" if "sd_conn sd = None"
  proof -
    have "cut_short lo []" unfolding cut_short_def by (intro disjI1 exI[of _ 0]) simp
    then show ?thesis using assms(1) that
      by (auto simp: attempt_ok_def sender_ok_def logs_drop_conn grown_append logs_def) (auto simp: drop_conn_def)
  qed
  show ?thesis
  proof (cases "sd_conn sd")
    case None
    obtain r1 c1 w1 s1 where e: "write_hello_and_event lo io payload [] w sd = (r1, c1, w1, s1)"
      by (cases "write_hello_and_event lo io payload [] w sd") auto
    show ?thesis using attempt_ok_new[OF assms(1) None assms(2,3) e] empty[OF None] assms(1,4) None e
      by (auto simp: write_attempt_def intro: attempt_ok_refl split: if_splits connect_io.splits sum.splits)
  next
    case (Some conn)
    obtain r1 c1 w1 s1 where e: "write_event lo (ai_now io) (ai_event io) payload conn w sd = (r1, c1, w1, s1)"
      by (cases "write_event lo (ai_now io) (ai_event io) payload conn w sd") auto
    show ?thesis using attempt_ok_cached[OF assms(1) Some assms(2,3) e] assms(1,4) Some e
      by (auto simp: write_attempt_def intro: attempt_ok_refl split: if_splits sum.splits)
  qed
qed

lemma write_shutdown_attempt_ok:
  assumes "sender_ok lo sd" "keyed lo w" "in_i64 (ai_now io)" "write_shutdown_attempt lo io payload w sd = (r, w', sd')"
  shows "attempt_ok lo payload w sd (r = Inr ()) w' sd'"
proof (cases "sd_conn sd")
  case None
  obtain r1 c1 w1 s1 where e: "write_hello_and_event lo io payload [] w sd = (r1, c1, w1, s1)"
    by (cases "write_hello_and_event lo io payload [] w sd") auto
  show ?thesis using attempt_ok_new[OF assms(1) None assms(2,3) e] assms(1,4) None e
    by (auto simp: write_shutdown_attempt_def intro: attempt_ok_refl split: if_splits connect_io.splits sum.splits)
next
  case (Some conn)
  obtain r1 c1 w1 s1 where e: "write_event lo (ai_now io) (ai_event io) payload conn w sd = (r1, c1, w1, s1)"
    by (cases "write_event lo (ai_now io) (ai_event io) payload conn w sd") auto
  show ?thesis using attempt_ok_cached[OF assms(1) Some assms(2,3) e] assms(1,4) Some e
    by (auto simp: write_shutdown_attempt_def split: if_splits sum.splits)
qed

text \<open>The resolution of an event and, when it says delivered, its frame at the end of the cached connection.\<close>

definition is_delivered :: "ack_resolution \<Rightarrow> bool" where
  "is_delivered r \<longleftrightarrow> res_disposition r = Delivered"

definition settled_wire :: "ltp_output \<Rightarrow> owned_event \<Rightarrow> working_meta \<Rightarrow> sender \<Rightarrow> sender \<Rightarrow> bool" where
  "settled_wire lo ev w sd sd' \<longleftrightarrow> sender_ok lo sd' \<and> grown (logs sd) (logs sd') \<and>
     (\<exists>ack. os_acks (sd_out sd') = os_acks (sd_out sd) @ [ack] \<and>
       (is_delivered ack \<longrightarrow> (\<exists>ms b w'. sd_conn sd' = Some b \<and> same_working w w' \<and> whole lo (ms @ [(wm_meta w', oe_egress ev)]) b)))"

lemma route_failure_acks:
  "qh_armed h \<Longrightarrow> \<exists>ack. os_acks (route_failure lo now ev h reason o') = os_acks o' @ [ack] \<and> \<not> is_delivered ack"
  using handle_finish_one[of h]
  by (auto simp: route_failure_def route_event_to_dlq_def write_record_def resolve_ack_from_dlq_outcome_def is_delivered_def out_simps
      split: prod.split option.split dlq_outcome.split queue_position.split)

lemma acks_neutral [simp]:
  "os_acks (set_in_retry v o') = os_acks o'" "os_acks (bump_retries o') = os_acks o'" "os_acks (bump_written o') = os_acks o'"
  by (simp_all add: set_in_retry_def bump_retries_def bump_written_def)

lemma event_ok_failed:
  assumes "qh_armed h" "attempt_ok lo payload w sd b w' sd1" "os_acks (sd_out sd1) = os_acks (sd_out sd)" "os_acks (f (sd_out sd1)) = os_acks (sd_out sd1)"
  shows "settled_wire lo ev w sd (on_out (\<lambda>o'. route_failure lo now ev h reason (f o')) sd1)"
  using route_failure_acks[OF assms(1), of lo now ev reason "f (sd_out sd1)"] assms(2-4) by (auto simp: settled_wire_def attempt_ok_def)

lemma ltp_retry_ok:
  assumes "qh_armed h" "\<forall>n. in_i64 (ai_now (io n))" "sender_ok lo sd" "keyed lo w" "ltp_retry lo io stopping now t ev h tries wait w sd = (ws, sd')"
  shows "settled_wire lo ev w sd sd'"
  using assms
proof (induction lo io stopping now t ev h tries wait w sd arbitrary: ws sd' rule: ltp_retry.induct)
  case (1 lo io stopping now t ev h tries wait w sd)
  obtain r w1 sd1 where a: "write_attempt lo (io tries) (oe_egress ev) w sd = (r, w1, sd1)" by (cases "write_attempt lo (io tries) (oe_egress ev) w sd") auto
  note ok = write_attempt_ok[OF 1(4,5) 1(3)[rule_format] a] and acks = write_attempt_out[OF a]
  note failed = event_ok_failed[OF 1(2) ok acks[THEN conjunct2, THEN conjunct2]]
  show ?case
  proof (cases r)
    case WDelivered
    then show ?thesis using 1(6) a ok acks handle_finish_one[OF 1(2), of "UseDelivered t"]
      by (subst (asm) ltp_retry.simps) (fastforce simp: settled_wire_def attempt_ok_def use_handle_def is_delivered_def)
  next
    case WPreSendShutdown
    then show ?thesis using 1(6) a failed[of "set_in_retry 0"]
      by (subst (asm) ltp_retry.simps) (auto simp: comp_def)
  next
    case (WErr e)
    show ?thesis
    proof (cases "rc_max_attempts (lo_retry lo) \<le> tries + 1 \<or> stopping (tries + 1)")
      case True
      then show ?thesis using 1(6) a WErr failed[of "\<lambda>o'. set_in_retry 0 (bump_retries o')"] failed[of "\<lambda>o'. set_in_retry 0 (set_in_retry 1 (bump_retries o'))"]
        by (subst (asm) ltp_retry.simps) (auto simp: Let_def on_out_def comp_def split: if_splits)
    next
      case False
      let ?sd2 = "on_out (set_in_retry 1) (on_out bump_retries sd1)"
      obtain ws' where rec: "ltp_retry lo io stopping now t ev h (tries + 1) (next_wait (lo_retry lo) wait) w1 ?sd2 = (ws', sd')"
        using 1(6) a WErr False by (subst (asm) ltp_retry.simps) (auto simp: Let_def split: prod.splits)
      have k1: "sender_ok lo ?sd2" "keyed lo w1" using ok keyed_same[of w w1 lo] 1(5) by (auto simp: attempt_ok_def)
      have "settled_wire lo ev w1 ?sd2 sd'"
        using 1(1)[OF a[symmetric] WErr refl refl refl _ refl _ 1(2,3) k1 rec] False by simp
      then show ?thesis using ok acks unfolding settled_wire_def attempt_ok_def
        by (auto intro: grown_trans) (meson same_working_trans)+
    qed
  qed
qed

definition output_ok :: "ltp_output \<Rightarrow> bool" where
  "output_ok lo \<longleftrightarrow> codec_ok (lo_codec lo) \<and> utf8_valid (lo_node_id lo) \<and>
     encode_hello_frame (lc_hello_enc (lo_codec lo)) \<lparr>lh_node_id = lo_node_id lo\<rparr> = Inr (lo_hello lo)"

lemma clamp_i64_in: "in_i64 (clamp_i64 n)"
  by (auto simp: in_i64_def clamp_i64_def i64_min_def i64_max_def)

lemma working_keyed: "output_ok lo \<Longrightarrow> ltp_event_ok (lo_codec lo) ev \<Longrightarrow> keyed lo (working_event_meta lo ev)"
  using to_wire_u64_bound[of "clamp_i64 (oe_received_at ev)"]
  by (auto simp: keyed_def working_event_meta_def Let_def output_ok_def ltp_event_ok_def meta_ok_def stamp_ok_def clamp_i64_in)

lemma ltp_consume_ok:
  assumes "qh_armed h" "output_ok lo" "ltp_event_ok (lo_codec lo) ev" "\<forall>n. in_i64 (ai_now (io n))" "sender_ok lo sd" "ltp_consume lo io stopping now t ev h sd = (ws, sd')"
  shows "settled_wire lo ev (working_event_meta lo ev) sd sd'"
proof (cases "max_payload_len < length (oe_egress ev)")
  case True
  have "attempt_ok lo [] (working_event_meta lo ev) sd False (working_event_meta lo ev) sd" using assms(5) by (simp add: attempt_ok_def)
  from event_ok_failed[OF assms(1) this, of "\<lambda>o'. o'"] True assms(6) show ?thesis by (auto simp: ltp_consume_def)
next
  case False
  then show ?thesis using ltp_retry_ok[OF assms(1,4,5) working_keyed[OF assms(2,3)]] assms(6) by (simp add: ltp_consume_def)
qed

end
