(* ===== verification/SyslogOut.thy ===== *)
theory SyslogOut
  imports SyslogPeers SyslogIn_Facts LtpOutput
begin

section \<open>The syslog TCP output\<close>

text \<open>
  \<open>modules/output/syslog_tcp.rs\<close> over the rotation of \<open>syslog_peers.rs\<close>. What the network does at each peer is an
  argument. The state of a connection is the bytes it has received; connections that were given up are kept as well.
\<close>

datatype syslog_framing = OctetCounting | NonTransparent

text \<open>\<open>write_framed\<close>: the buffer handed to one \<open>write_all\<close>.\<close>

definition frame_buf :: "syslog_framing \<Rightarrow> bytes \<Rightarrow> bytes" where
  "frame_buf f payload = (case f of OctetCounting \<Rightarrow> octet_frame payload | NonTransparent \<Rightarrow> line_frame payload)"

text \<open>
  Connecting, with the handshake, and writing: a failed write and one that runs into its timer leave the first bytes of
  the frame on the wire. \<open>Abandoned\<close> is the caller's own timer, which drops the whole call.
\<close>

datatype sl_connect = ScUp | ScFailed string | ScCancelled | ScAbandoned

datatype sl_write = SwOk | SwFailed nat string | SwTimedOut nat | SwAbandoned nat

record peer_io =
  pi_connect :: sl_connect
  pi_write :: sl_write
  pi_failed_at :: nat

record syslog_output =
  so_name :: rstr
  so_framing :: syslog_framing
  so_addresses :: "rstr list"
  so_retry :: retry_config
  so_error_log :: error_log
  so_fallback :: error_log_fallback

text \<open>Per peer the open connection and the ones before it.\<close>

type_synonym wires = "bytes option \<times> bytes list"

definition add_bytes_written :: "nat \<Rightarrow> out_state \<Rightarrow> out_state" where
  "add_bytes_written n o' = o'\<lparr>os_metrics := (os_metrics o')\<lparr>om_bytes_written := om_bytes_written (os_metrics o') + of_nat n\<rparr>\<rparr>"

text \<open>
  The send over an open connection: an error of the write closes it, but the \<open>?\<close> behind the timer returns before
  that happens.
\<close>

definition sl_send :: "bytes \<Rightarrow> rstr \<Rightarrow> peer_io \<Rightarrow> bytes \<Rightarrow> bytes list \<Rightarrow> out_state \<Rightarrow> attempt_result \<times> wires \<times> out_state \<times> nat" where
  "sl_send frame address io c old o' = (case pi_write io of
     SwOk \<Rightarrow> (AttOk, (Some (c @ frame), old), add_bytes_written (length frame) o', pi_failed_at io)
   | SwFailed n e \<Rightarrow> (AttErr e, (None, old @ [c @ take n frame]), o', pi_failed_at io)
   | SwTimedOut n \<Rightarrow> (AttErr (''syslog_tcp write to '' @ address @ '' timed out''), (Some (c @ take n frame), old), o', pi_failed_at io)
   | SwAbandoned n \<Rightarrow> (AttCut, (Some (c @ take n frame), old), o', pi_failed_at io))"

definition sl_attempt :: "syslog_output \<Rightarrow> (nat \<Rightarrow> peer_io) \<Rightarrow> bytes \<Rightarrow> (wires, out_state) attempt" where
  "sl_attempt so io payload idx cn o' = (case cn of
     (Some c, old) \<Rightarrow> sl_send (frame_buf (so_framing so) payload) (so_addresses so ! idx) (io idx) c old o'
   | (None, old) \<Rightarrow> (case pi_connect (io idx) of
       ScUp \<Rightarrow> sl_send (frame_buf (so_framing so) payload) (so_addresses so ! idx) (io idx) [] old o'
     | ScFailed e \<Rightarrow> (AttErr e, cn, o', pi_failed_at (io idx))
     | ScCancelled \<Rightarrow> (AttPreSend, cn, o', pi_failed_at (io idx))
     | ScAbandoned \<Rightarrow> (AttCut, cn, o', pi_failed_at (io idx))))"

record syslog_sender =
  ss_peers :: "wires peer_list"
  ss_out :: out_state

text \<open>What one steady-state write is given: the flag of the shutdown before each peer, the clock, the network.\<close>

record pass_io =
  pa_stop :: "nat \<Rightarrow> bool"
  pa_now :: nat
  pa_peers :: "nat \<Rightarrow> peer_io"

fun peer_send_error_text :: "peer_send_error \<Rightarrow> string" where
  "peer_send_error_text PeersEmpty = ''no peers configured''"
| "peer_send_error_text (AllPeersUnavailable n) = ''all '' @ nat_digits n @ '' peers are in cooldown or failed this round''"
| "peer_send_error_text PeerPreSendShutdown = ''shutdown fired during pre-send phase''"

definition write_payload_shutdown_aware :: "syslog_output \<Rightarrow> pass_io \<Rightarrow> bytes \<Rightarrow> syslog_sender \<Rightarrow> write_outcome \<times> syslog_sender" where
  "write_payload_shutdown_aware so io payload sd =
     (case write_with_rotation_shutdown_aware (pa_stop io) (pa_now io) (sl_attempt so (pa_peers io) payload) (ss_peers sd) (ss_out sd) of
        (r, pl, o') \<Rightarrow> ((case r of
            Sent \<Rightarrow> WDelivered
          | Unsent PeerPreSendShutdown \<Rightarrow> WPreSendShutdown
          | Unsent e \<Rightarrow> WErr (peer_send_error_text e)
          | Cut \<Rightarrow> WErr []), \<lparr>ss_peers = pl, ss_out = o'\<rparr>))"

text \<open>The single write of a shutdown under its three-second timer.\<close>

definition write_payload :: "syslog_output \<Rightarrow> pass_io \<Rightarrow> bytes \<Rightarrow> syslog_sender \<Rightarrow> (string + unit) \<times> syslog_sender" where
  "write_payload so io payload sd =
     (case write_with_rotation_at (pa_now io) (sl_attempt so (pa_peers io) payload) (ss_peers sd) (ss_out sd) of
        (r, pl, o') \<Rightarrow> ((case r of
            Sent \<Rightarrow> Inr ()
          | Unsent e \<Rightarrow> Inl (peer_send_error_text e)
          | Cut \<Rightarrow> Inl ''timed out after 3s''), \<lparr>ss_peers = pl, ss_out = o'\<rparr>))"

definition on_ss :: "(out_state \<Rightarrow> out_state) \<Rightarrow> syslog_sender \<Rightarrow> syslog_sender" where
  "on_ss f sd = sd\<lparr>ss_out := f (ss_out sd)\<rparr>"

definition sl_route_failure :: "syslog_output \<Rightarrow> int \<Rightarrow> owned_event \<Rightarrow> queue_handle \<Rightarrow> string \<Rightarrow> out_state \<Rightarrow> out_state" where
  "sl_route_failure so now ev h reason o' =
     (case route_event_to_dlq (so_error_log so) (so_fallback so) now (so_name so) ev (qh_position h) reason o' of
        (outcome, o'') \<Rightarrow> resolve_ack_from_dlq_outcome h outcome o'')"

function sl_retry :: "syslog_output \<Rightarrow> (nat \<Rightarrow> pass_io) \<Rightarrow> (nat \<Rightarrow> bool) \<Rightarrow> int \<Rightarrow> int \<Rightarrow> owned_event \<Rightarrow> queue_handle \<Rightarrow>
    nat \<Rightarrow> nat \<Rightarrow> syslog_sender \<Rightarrow> nat list \<times> syslog_sender" where
  "sl_retry so io stopping now t ev h tries wait sd = (case write_payload_shutdown_aware so (io tries) (oe_egress ev) sd of
     (WDelivered, sd') \<Rightarrow> ([], on_ss (use_handle (UseDelivered t) h \<circ> bump_written \<circ> set_in_retry 0) sd')
   | (WPreSendShutdown, sd') \<Rightarrow>
       ([], on_ss (sl_route_failure so now ev h (''output '' @ quoted (so_name so) @ '': write attempt abandoned on shutdown (pre-send)'')
              \<circ> set_in_retry 0) sd')
   | (WErr e, sd') \<Rightarrow>
       (let tries' = tries + 1; sd1 = on_ss bump_retries sd' in
        if rc_max_attempts (so_retry so) \<le> tries' then
          ([], on_ss (sl_route_failure so now ev h (''output write failed after '' @ nat_digits tries' @ '' attempts: '' @ e) \<circ> set_in_retry 0) sd1)
        else (let sd2 = on_ss (set_in_retry 1) sd1 in
          if stopping tries' then
            ([wait], on_ss (sl_route_failure so now ev h (''output write failed and shutdown observed mid-retry after ''
                @ nat_digits tries' @ '' attempts: '' @ e) \<circ> set_in_retry 0) sd2)
          else (case sl_retry so io stopping now t ev h tries' (next_wait (so_retry so) wait) sd2 of (ws, sd3) \<Rightarrow> (wait # ws, sd3)))))"
  by pat_completeness auto
termination
  by (relation "measure (\<lambda>(so, io, stopping, now, t, ev, h, tries, wait, sd). rc_max_attempts (so_retry so) - tries)") auto

declare sl_retry.simps [simp del]

definition sl_consume :: "syslog_output \<Rightarrow> (nat \<Rightarrow> pass_io) \<Rightarrow> (nat \<Rightarrow> bool) \<Rightarrow> int \<Rightarrow> int \<Rightarrow> owned_event \<Rightarrow> queue_handle \<Rightarrow>
    syslog_sender \<Rightarrow> nat list \<times> syslog_sender" where
  "sl_consume so io stopping now t ev h sd = sl_retry so io stopping now t ev h 0 (rc_initial_wait (so_retry so)) sd"

definition sl_consume_shutdown :: "syslog_output \<Rightarrow> pass_io \<Rightarrow> int \<Rightarrow> int \<Rightarrow> owned_event \<Rightarrow> queue_handle \<Rightarrow> syslog_sender \<Rightarrow> syslog_sender" where
  "sl_consume_shutdown so io now t ev h sd = (case write_payload so io (oe_egress ev) sd of
     (r, sd') \<Rightarrow> on_ss (finalize_shutdown_singleton_ambiguous (so_error_log so) (so_fallback so) now t (so_name so) ev h r) sd')"

end
