(* ===== verification/LtpNet.thy ===== *)
theory LtpNet
  imports LtpOutput
begin

section \<open>LTP between nodes\<close>

text \<open>
  An output and the listener of the next node put together: what a delivered event turns into at the other
  end, the room its metadata needs there, and the path of an event through any number of nodes.
\<close>

subsection \<open>The receiving end of a connection\<close>

lemma hello_frame_bytes:
  assumes "output_ok lo"
  shows "lo_hello lo = frame_bytes (lc_hello_enc (lo_codec lo) \<lparr>lh_node_id = lo_node_id lo\<rparr>) []"
    "frame_fits (lc_hello_enc (lo_codec lo) \<lparr>lh_node_id = lo_node_id lo\<rparr>) []"
  using assms by (auto simp: output_ok_def encode_hello_frame_def)

lemma establish_ok:
  assumes lo: "output_ok lo" and s: "arrived False s = lo_hello lo @ rest" and route: "routes spki = Some route"
    "pr_expected route = lo_node_id lo" "has_metrics (lo_node_id lo)"
  obtains s' where "establish (lo_codec lo) routes has_metrics (TlsUp (Some spki)) False s l = (Inr (spki, route, s'), l)"
    "arrived False s' = rest" "ending False s' = ending False s"
proof -
  let ?mb = "lc_hello_enc (lo_codec lo) \<lparr>lh_node_id = lo_node_id lo\<rparr>"
  note h = hello_frame_bytes[OF lo]
  obtain s' where s': "read_frame s = (Frame ?mb [], length [], s')" "arrived False s' = rest" "ending False s' = ending False s"
    by (rule read_frame_bytes[OF h(2), of s rest]) (use s h(1) in auto)
  have "lc_hello_dec (lo_codec lo) ?mb = Some \<lparr>lh_node_id = lo_node_id lo\<rparr>"
    using codec_okD(2)[of "lo_codec lo" "\<lparr>lh_node_id = lo_node_id lo\<rparr>"] lo by (simp add: output_ok_def)
  then show thesis using that s' route by (simp add: establish_def)
qed

text \<open>What the listener asks of an event's metadata.\<close>

definition admits :: "ltp_codec \<Rightarrow> peer_route \<Rightarrow> int \<Rightarrow> ltp_meta \<Rightarrow> bool" where
  "admits cx route now m \<longleftrightarrow> (\<forall>s \<in> set (lm_stamps m). node_id s \<noteq> pr_node_id route) \<and> length (lm_stamps m) < pr_max_hops route \<and>
     length (lc_meta_enc cx (m\<lparr>lm_stamps := lm_stamps m @
       [\<lparr>node_id = pr_node_id route, arrival_unix_nano = to_wire_u64 now, departure_unix_nano = 1\<rparr>]\<rparr>)) \<le> max_meta_len"

lemma event_from_frame_admits:
  assumes "codec_ok cx" "key_ok cx k" "lm_key m = lc_uuid_bytes cx k"
  shows "\<exists>d pm'. event_from_frame cx m p src (pr_node_id route) (pr_max_hops route) now pm = (Ok d, pm') \<and>
    (admits cx route now m \<longleftrightarrow> (\<exists>ev. d = Forward ev))"
proof -
  have k: "length (lm_key m) = 16" "lc_uuid_v7 cx (lm_key m)"
    using assms codec_okD(4)[OF assms(1), of k] by (simp_all add: key_ok_def)
  let ?m = "m\<lparr>lm_stamps := lm_stamps m @ [\<lparr>node_id = pr_node_id route, arrival_unix_nano = to_wire_u64 now, departure_unix_nano = 1\<rparr>]\<rparr>"
  consider "\<exists>s \<in> set (lm_stamps m). node_id s = pr_node_id route"
    | "\<not> (\<exists>s \<in> set (lm_stamps m). node_id s = pr_node_id route)" "pr_max_hops route \<le> length (lm_stamps m)"
    | "\<not> (\<exists>s \<in> set (lm_stamps m). node_id s = pr_node_id route)" "\<not> pr_max_hops route \<le> length (lm_stamps m)"
      "max_meta_len < length (lc_meta_enc cx ?m)"
    | "\<not> (\<exists>s \<in> set (lm_stamps m). node_id s = pr_node_id route)" "\<not> pr_max_hops route \<le> length (lm_stamps m)"
      "\<not> max_meta_len < length (lc_meta_enc cx ?m)" by blast
  then show ?thesis
    by cases (use k in \<open>auto simp: event_from_frame_def admits_def Let_def\<close>)
qed

lemma deliver_frames_all:
  assumes "codec_ok (lo_codec lo)" "sent_ok lo ms"
  shows "\<exists>l'. deliver_frames (lo_codec lo) route src clk (\<lambda>_. True) k (meta_frames lo ms) l = (None, l') \<and> (\<exists>evs. ls_sent l' = ls_sent l @ evs) \<and>
    (\<forall>i < length ms. admits (lo_codec lo) route (clk (k + i)) (fst (ms ! i)) \<longrightarrow>
       (\<exists>ev \<in> set (ls_sent l'). oe_ingress ev = snd (ms ! i) \<and> oe_key ev = lc_uuid_of (lo_codec lo) (lm_key (fst (ms ! i))) \<and>
          map node_id (ltp_stamps_slice ev) = map node_id (lm_stamps (fst (ms ! i))) @ [pr_node_id route]))"
  using assms(2)
proof (induction ms arbitrary: k l)
  case (Cons x ms)
  obtain m p where x: "x = (m, p)" by fastforce
  have m: "meta_ok m" "sent_ok lo ms" using Cons.prems x by (auto simp: sent_ok_def)
  obtain key where key: "key_ok (lo_codec lo) key" "lm_key m = lc_uuid_bytes (lo_codec lo) key" using Cons.prems x by (auto simp: sent_ok_def)
  let ?l1 = "count_bytes (length p) l"
  obtain d pm where d: "event_from_frame (lo_codec lo) m p src (pr_node_id route) (pr_max_hops route) (clk k) (ls_peer ?l1) = (Ok d, pm)"
    "admits (lo_codec lo) route (clk k) m \<longleftrightarrow> (\<exists>ev. d = Forward ev)"
    using event_from_frame_admits[OF assms(1) key] by blast
  define l2 where "l2 = (case d of Forward ev \<Rightarrow> send_on ev (?l1\<lparr>ls_peer := pm\<rparr>) | _ \<Rightarrow> count_invalid (?l1\<lparr>ls_peer := pm\<rparr>))"
  have dec: "lc_meta_dec (lo_codec lo) (lc_meta_enc (lo_codec lo) m) = Some m" using codec_okD(1)[OF assms(1) m(1)] .
  have step: "deliver_frames (lo_codec lo) route src clk (\<lambda>_. True) k (meta_frames lo (x # ms)) l =
      deliver_frames (lo_codec lo) route src clk (\<lambda>_. True) (k + 1) (meta_frames lo ms) l2"
    using d(1) dec x by (cases d) (simp_all add: meta_frames_def Let_def l2_def)
  obtain l' where l': "deliver_frames (lo_codec lo) route src clk (\<lambda>_. True) (k + 1) (meta_frames lo ms) l2 = (None, l')"
    "\<exists>evs. ls_sent l' = ls_sent l2 @ evs" and rest: "\<forall>i < length ms. admits (lo_codec lo) route (clk (k + 1 + i)) (fst (ms ! i)) \<longrightarrow>
       (\<exists>ev \<in> set (ls_sent l'). oe_ingress ev = snd (ms ! i) \<and> oe_key ev = lc_uuid_of (lo_codec lo) (lm_key (fst (ms ! i))) \<and>
          map node_id (ltp_stamps_slice ev) = map node_id (lm_stamps (fst (ms ! i))) @ [pr_node_id route])"
    using Cons.IH[OF m(2), of "k + 1" l2] by blast
  have sent: "\<exists>evs. ls_sent l2 = ls_sent l @ evs"
    by (cases d) (simp_all add: l2_def send_on_def count_invalid_def count_bytes_def)
  have first: "\<exists>ev \<in> set (ls_sent l'). oe_ingress ev = p \<and> oe_key ev = lc_uuid_of (lo_codec lo) (lm_key m) \<and>
      map node_id (ltp_stamps_slice ev) = map node_id (lm_stamps m) @ [pr_node_id route]" if adm: "admits (lo_codec lo) route (clk k) m"
  proof -
    obtain ev where ev: "d = Forward ev" using d(2) adm by blast
    note f = event_from_frame_Forward[OF d(1)[unfolded ev]]
    have "ev \<in> set (ls_sent l')" using l'(2) ev by (auto simp: l2_def send_on_def)
    moreover have "oe_key ev = lc_uuid_of (lo_codec lo) (lm_key m)" using f(6) by simp
    ultimately show ?thesis using f(5,7) by auto
  qed
  show ?case
  proof (intro exI[of _ l'] conjI allI impI)
    show "deliver_frames (lo_codec lo) route src clk (\<lambda>_. True) k (meta_frames lo (x # ms)) l = (None, l')" using step l'(1) by simp
    show "\<exists>evs. ls_sent l' = ls_sent l @ evs" using l'(2) sent by fastforce
    fix i assume i: "i < length (x # ms)" "admits (lo_codec lo) route (clk (k + i)) (fst ((x # ms) ! i))"
    show "\<exists>ev \<in> set (ls_sent l'). oe_ingress ev = snd ((x # ms) ! i) \<and> oe_key ev = lc_uuid_of (lo_codec lo) (lm_key (fst ((x # ms) ! i))) \<and>
          map node_id (ltp_stamps_slice ev) = map node_id (lm_stamps (fst ((x # ms) ! i))) @ [pr_node_id route]"
      using first rest i x by (cases i) auto
  qed
qed (simp add: meta_frames_def)

lemma meta_frames_fit: "sent_ok lo ms \<Longrightarrow> \<forall>(mb, p) \<in> set (meta_frames lo ms). frame_fits mb p"
  by (auto simp: sent_ok_def meta_frames_def)

text \<open>A whole connection read to its end by the listener it was meant for.\<close>

lemma connection_received:
  assumes lo: "output_ok lo" and w: "whole lo ms b" and s: "arrived False s = b" "ending False s = AtEof"
    and route: "routes spki = Some route" "pr_expected route = lo_node_id lo" "has_metrics (lo_node_id lo)"
  shows "\<exists>l'. handle_connection (lo_codec lo) routes has_metrics (TlsUp (Some spki)) False src clk (\<lambda>_. True) s l = (Inr (), l') \<and>
    (\<forall>i < length ms. admits (lo_codec lo) route (clk i) (fst (ms ! i)) \<longrightarrow>
       (\<exists>ev \<in> set (ls_sent l'). oe_ingress ev = snd (ms ! i) \<and> oe_key ev = lc_uuid_of (lo_codec lo) (lm_key (fst (ms ! i))) \<and>
          map node_id (ltp_stamps_slice ev) = map node_id (lm_stamps (fst (ms ! i))) @ [pr_node_id route]))"
proof -
  have cx: "codec_ok (lo_codec lo)" using lo by (simp add: output_ok_def)
  have ms: "sent_ok lo ms" "b = lo_hello lo @ wire (meta_frames lo ms)" using w by (auto simp: whole_def)
  obtain s' where s': "establish (lo_codec lo) routes has_metrics (TlsUp (Some spki)) False s l = (Inr (spki, route, s'), l)"
    "arrived False s' = wire (meta_frames lo ms)" "ending False s' = AtEof"
    by (rule establish_ok[OF lo, of s "wire (meta_frames lo ms)" routes spki route has_metrics l]) (use s ms(2) route in auto)
  obtain g ev pt where act: "activate spki (ls_table l) = ((g, ev), pt)" by (cases "activate spki (ls_table l)") auto
  obtain l' where l': "deliver_frames (lo_codec lo) route src clk (\<lambda>_. True) 0 (meta_frames lo ms) (l\<lparr>ls_table := pt\<rparr>) = (None, l')"
    "\<forall>i < length ms. admits (lo_codec lo) route (clk (0 + i)) (fst (ms ! i)) \<longrightarrow>
       (\<exists>ev \<in> set (ls_sent l'). oe_ingress ev = snd (ms ! i) \<and> oe_key ev = lc_uuid_of (lo_codec lo) (lm_key (fst (ms ! i))) \<and>
          map node_id (ltp_stamps_slice ev) = map node_id (lm_stamps (fst (ms ! i))) @ [pr_node_id route])"
    using deliver_frames_all[OF cx ms(1), of route src clk 0 "l\<lparr>ls_table := pt\<rparr>"] by blast
  have "event_loop (lo_codec lo) route src clk (\<lambda>_. True) 0 s' (l\<lparr>ls_table := pt\<rparr>) = (Inr (), l')"
    using event_loop_complete[OF meta_frames_fit[OF ms(1)] s'(2,3)] l'(1) by simp
  then show ?thesis using s' act l'(2) by (auto simp: handle_connection_def)
qed

subsection \<open>Room for the next hop\<close>

lemma working_after_forward:
  assumes f: "event_from_frame cx m p src me max_hops now pm = (Ok (Forward ev), pm')"
    and ev': "oe_key ev' = oe_key ev" "oe_ltp_stamps ev' = oe_ltp_stamps ev" and lo: "lo_node_id lo = me" "lo_codec lo = cx"
  shows "working_event_meta lo ev' = \<lparr>wm_meta = \<lparr>lm_key = lc_uuid_bytes cx (oe_key ev), lm_stamps = ltp_stamps_slice ev\<rparr>,
    wm_local = length (lm_stamps m)\<rparr>"
proof -
  have "ltp_stamps_slice ev' = ltp_stamps_slice ev" using ev'(2) by (simp add: ltp_stamps_slice_def)
  moreover have "pending_local me (ltp_stamps_slice ev)" using event_from_frame_Forward(5)[OF f] by (simp add: pending_local_def)
  ultimately show ?thesis
    using event_from_frame_Forward(5)[OF f] ev'(1) lo by (simp add: working_event_meta_def Let_def)
qed

lemma forwarded_fits:
  assumes cx: "codec_ok cx" and f: "event_from_frame cx m p src me max_hops now pm = (Ok (Forward ev), pm')"
    and ev': "oe_key ev' = oe_key ev" "oe_ltp_stamps ev' = oe_ltp_stamps ev" and lo: "lo_node_id lo = me" "lo_codec lo = cx"
    and small: "length payload \<le> max_payload_len"
  shows "\<exists>fr w. event_frame lo t (working_event_meta lo ev') payload = (Inr fr, w)"
proof -
  note e = event_from_frame_Forward[OF f]
  have "lc_uuid_bytes cx (oe_key ev) = lm_key m" using e(6) codec_okD(7)[OF cx e(1)] by simp
  moreover have "m = \<lparr>lm_key = lm_key m, lm_stamps = lm_stamps m\<rparr>" by simp
  ultimately have "length (lc_meta_enc cx \<lparr>lm_key = lc_uuid_bytes cx (oe_key ev),
      lm_stamps = sealed_at (length (lm_stamps m)) (to_wire_u64 t) (ltp_stamps_slice ev)\<rparr>) \<le> max_meta_len"
    using forward_reserves[OF cx, of "lm_key m" "lm_stamps m"] f by metis
  then show ?thesis using small working_after_forward[OF f ev' lo] lo(2)
    by (simp add: event_frame_def encode_frame_def encode_message_frame_def Let_def)
qed

subsection \<open>The path of an event\<close>

text \<open>
  The nodes an event has been at, and the event at the last of them. It starts without hop history at the node
  that received it first; processing and queues keep its key and stamps; an output of the node, at any attempt,
  writes a frame that the listener of another node decodes and forwards.
\<close>

definition default_max_hops :: nat where "default_max_hops = 16"

inductive travels :: "ltp_codec \<Rightarrow> rstr list \<Rightarrow> owned_event \<Rightarrow> bool" for cx where
  starts: "oe_ltp_stamps ev = None \<Longrightarrow> key_ok cx (oe_key ev) \<Longrightarrow> travels cx [n] ev"
| processed: "travels cx path ev \<Longrightarrow> oe_key ev' = oe_key ev \<Longrightarrow> oe_ltp_stamps ev' = oe_ltp_stamps ev \<Longrightarrow> travels cx path ev'"
| hop: "travels cx path ev \<Longrightarrow> output_ok lo \<Longrightarrow> lo_codec lo = cx \<Longrightarrow> lo_node_id lo = last path \<Longrightarrow>
    same_working (working_event_meta lo ev) w \<Longrightarrow> in_i64 t \<Longrightarrow> event_frame lo t w (oe_egress ev) = (Inr f, w') \<Longrightarrow>
    decode_frame (lc_meta_dec cx) f = Inr (m, p) \<Longrightarrow> utf8_valid me \<Longrightarrow> in_i64 now \<Longrightarrow> max_hops \<le> default_max_hops \<Longrightarrow>
    event_from_frame cx m p src me max_hops now pm = (Ok (Forward ev'), pm') \<Longrightarrow> travels cx (path @ [me]) ev'"

definition path_inv :: "ltp_codec \<Rightarrow> rstr list \<Rightarrow> owned_event \<Rightarrow> bool" where
  "path_inv cx path ev \<longleftrightarrow> path \<noteq> [] \<and> distinct path \<and> length path \<le> default_max_hops \<and> ltp_event_ok cx ev \<and>
     (ltp_stamps_slice ev = [] \<and> length path = 1 \<or>
      map node_id (ltp_stamps_slice ev) = path \<and> departure_unix_nano (last (ltp_stamps_slice ev)) = 0)"

lemma path_inv_hop:
  assumes cx: "codec_ok cx" and inv: "path_inv cx path ev" and lo: "output_ok lo" "lo_codec lo = cx" "lo_node_id lo = last path"
    and w: "same_working (working_event_meta lo ev) w" "in_i64 t" "event_frame lo t w (oe_egress ev) = (Inr f, w')"
    and dec: "decode_frame (lc_meta_dec cx) f = Inr (m, p)" and me: "utf8_valid me" "in_i64 now" "max_hops \<le> default_max_hops"
    and fwd: "event_from_frame cx m p src me max_hops now pm = (Ok (Forward ev'), pm')"
  shows "path_inv cx (path @ [me]) ev'" "oe_key ev' = oe_key ev"
proof -
  let ?w = "working_event_meta lo ev"
  have ev: "ltp_event_ok cx ev" using inv by (simp add: path_inv_def)
  have ids: "map node_id (lm_stamps (wm_meta ?w)) = path"
  proof (cases "ltp_stamps_slice ev = []")
    case True
    then have "length path = 1" using inv by (auto simp: path_inv_def)
    then obtain n where "path = [n]" by (auto simp: length_Suc_conv)
    then show ?thesis using True lo(3) by (simp add: working_event_meta_def pending_local_def Let_def)
  next
    case False
    then have "pending_local (lo_node_id lo) (ltp_stamps_slice ev)"
      using inv lo(3) by (auto simp: pending_local_def path_inv_def last_map)
    then show ?thesis using False inv by (auto simp: working_event_meta_def path_inv_def Let_def)
  qed
  have same: "same_working ?w w'" using same_working_trans[OF w(1) event_frame_effect(1)[OF w(3,2)]] .
  have keyed: "keyed lo w'" using keyed_same[OF same working_keyed[OF lo(1)]] ev lo(2) by simp
  have ids': "map node_id (lm_stamps (wm_meta w')) = path" "lm_key (wm_meta w') = lc_uuid_bytes cx (oe_key ev)"
    using same ids lo(2) by (auto simp: same_working_def working_event_meta_def Let_def)
  have fr: "frame_fits (lc_meta_enc cx (wm_meta w')) (oe_egress ev)" "f = frame_bytes (lc_meta_enc cx (wm_meta w')) (oe_egress ev)"
    using event_frame_effect(2)[OF w(3,2) refl] lo(2) by auto
  have "m = wm_meta w'" using dec decode_frame_bytes[OF fr(1), of "lc_meta_dec cx"] fr(2) codec_okD(1)[OF cx, of "wm_meta w'"] keyed
    by (auto simp: keyed_def)
  note m = this and e = event_from_frame_Forward[OF fwd]
  show "oe_key ev' = oe_key ev" using e(6) m ids'(2) codec_okD(5)[OF cx] ev by (simp add: ltp_event_ok_def key_ok_def)
  have "ltp_event_ok cx ev'" using event_from_frame_ok[OF cx _ me(1,2) fwd] keyed m by (simp add: keyed_def)
  moreover have "set path = node_id ` set (lm_stamps m)" "length path = length (lm_stamps m)" using ids'(1) m by (auto simp: image_set[symmetric])
  moreover have "map node_id (ltp_stamps_slice ev') = path @ [me]" "departure_unix_nano (last (ltp_stamps_slice ev')) = 0"
    using e(5) ids'(1) m by simp_all
  ultimately show "path_inv cx (path @ [me]) ev'" using inv e(3,4) me(3) by (auto simp: path_inv_def)
qed

lemma path_inv_processed:
  "path_inv cx path ev \<Longrightarrow> oe_key ev' = oe_key ev \<Longrightarrow> oe_ltp_stamps ev' = oe_ltp_stamps ev \<Longrightarrow> path_inv cx path ev'"
  by (auto simp: path_inv_def ltp_event_ok_def ltp_stamps_slice_def)

lemma travels_inv:
  assumes "codec_ok cx" "travels cx path ev"
  shows "path_inv cx path ev"
  using assms(2)
proof induction
  case (starts ev n)
  then show ?case by (simp add: path_inv_def ltp_event_ok_def ltp_stamps_slice_def default_max_hops_def)
next
  case (processed path ev ev')
  then show ?case using path_inv_processed by blast
next
  case (hop path ev lo w t f w' m p me now max_hops src pm ev' pm')
  then show ?case using path_inv_hop(1)[OF assms(1) hop.IH] by blast
qed

end
