(* ===== verification/LtpExample.thy ===== *)
theory LtpExample
  imports LtpNet
begin

section \<open>A concrete codec\<close>

text \<open>
  One instance of the third-party codec the LTP theories take as an argument: strings byte by byte behind a
  marker, times in eight bytes. It has what \<open>codec_ok\<close> asks for.
\<close>

definition put_text :: "bytes \<Rightarrow> bytes" where
  "put_text b = concat (map (\<lambda>c. [CHR 0x01, c]) b) @ [CHR 0x00]"

fun get_text :: "bytes \<Rightarrow> (bytes \<times> bytes) option" where
  "get_text (x # c # r) = (if x = CHR 0x01 then map_option (\<lambda>(b, r'). (c # b, r')) (get_text r)
     else if x = CHR 0x00 then Some ([], c # r) else None)"
| "get_text [x] = (if x = CHR 0x00 then Some ([], []) else None)"
| "get_text [] = None"

definition put64 :: "nat \<Rightarrow> bytes" where
  "put64 n = be32 (n div 2 ^ 32) @ be32 (n mod 2 ^ 32)"

definition get64 :: "bytes \<Rightarrow> (nat \<times> bytes) option" where
  "get64 b = (if length b < 8 then None else Some (of_be32 (take 4 b) * 2 ^ 32 + of_be32 (take 4 (drop 4 b)), drop 8 b))"

definition put_stamp :: "hop_stamp \<Rightarrow> bytes" where
  "put_stamp s = [CHR 0x01] @ put_text (node_id s) @ put64 (arrival_unix_nano s) @ put64 (departure_unix_nano s)"

definition put_stamps :: "hop_stamp list \<Rightarrow> bytes" where
  "put_stamps ss = concat (map put_stamp ss)"

fun get_stamps :: "nat \<Rightarrow> bytes \<Rightarrow> hop_stamp list option" where
  "get_stamps 0 b = (if b = [] then Some [] else None)"
| "get_stamps (Suc n) b = (case b of [] \<Rightarrow> Some []
   | x # b1 \<Rightarrow> (case get_text b1 of None \<Rightarrow> None | Some (name, b2) \<Rightarrow>
      (case get64 b2 of None \<Rightarrow> None | Some (a, b3) \<Rightarrow>
      (case get64 b3 of None \<Rightarrow> None | Some (d, b4) \<Rightarrow>
        map_option (\<lambda>ss. \<lparr>node_id = name, arrival_unix_nano = a, departure_unix_nano = d\<rparr> # ss) (get_stamps n b4)))))"

definition put_meta :: "ltp_meta \<Rightarrow> bytes" where
  "put_meta m = put_text (lm_key m) @ put_stamps (lm_stamps m)"

definition get_meta :: "bytes \<Rightarrow> ltp_meta option" where
  "get_meta b = (case get_text b of None \<Rightarrow> None | Some (key, r) \<Rightarrow>
     (case get_stamps (length r) r of None \<Rightarrow> None | Some ss \<Rightarrow>
       (let m = \<lparr>lm_key = key, lm_stamps = ss\<rparr> in if meta_ok m then Some m else None)))"

definition put_uuid :: "uuid \<Rightarrow> bytes" where
  "put_uuid k = put64 (k div 2 ^ 64) @ put64 (k mod 2 ^ 64)"

definition get_uuid :: "bytes \<Rightarrow> uuid" where
  "get_uuid b = fst (the (get64 b)) * 2 ^ 64 + fst (the (get64 (drop 8 b)))"

definition plain_codec :: ltp_codec where
  "plain_codec = \<lparr>lc_meta_enc = put_meta, lc_meta_dec = get_meta, lc_hello_enc = (\<lambda>h. lh_node_id h),
     lc_hello_dec = (\<lambda>b. Some \<lparr>lh_node_id = b\<rparr>), lc_uuid_of = get_uuid, lc_uuid_bytes = put_uuid,
     lc_uuid_v7 = (\<lambda>b. (of_char (b ! 6) :: nat) div 16 = 7 \<and> (of_char (b ! 8) :: nat) div 64 = 2)\<rparr>"

lemma get_put_text [simp]: "get_text (put_text b @ r) = Some (b, r)"
  by (induction b) (auto simp: put_text_def, cases r, auto)

lemma length_put64 [simp]: "length (put64 n) = 8"
  by (simp add: put64_def)

lemma get_put64 [simp]: "n < 2 ^ 64 \<Longrightarrow> get64 (put64 n @ r) = Some (n, r)"
proof -
  assume "n < 2 ^ 64"
  then have "n div 2 ^ 32 < 2 ^ 32" by (simp add: less_mult_imp_div_less)
  then show ?thesis by (simp add: get64_def put64_def of_be32_be32)
qed

lemma get_put_stamps: "\<forall>s \<in> set ss. stamp_ok s \<Longrightarrow> length ss \<le> n \<Longrightarrow> get_stamps n (put_stamps ss) = Some ss"
proof (induction ss arbitrary: n)
  case Nil
  then show ?case by (cases n) (simp_all add: put_stamps_def)
next
  case (Cons s ss)
  obtain k where n: "n = Suc k" using Cons.prems(2) by (cases n) auto
  have "get_stamps k (put_stamps ss) = Some ss" using Cons n by simp
  then show ?case using n Cons.prems(1) by (simp add: put_stamps_def put_stamp_def stamp_ok_def)
qed

lemma length_put_stamps: "length ss \<le> length (put_stamps ss)"
  by (induction ss) (auto simp: put_stamps_def put_stamp_def)

lemma get_put_meta: "meta_ok m \<Longrightarrow> get_meta (put_meta m) = Some m"
  using get_put_stamps[OF _ length_put_stamps, of "lm_stamps m"]
  by (simp add: get_meta_def put_meta_def meta_ok_def Let_def)

lemma of_be32_bound: "length b = 4 \<Longrightarrow> of_be32 b < 2 ^ 32"
proof -
  assume "length b = 4"
  then obtain a1 a2 a3 a4 where b: "b = [a1, a2, a3, a4]" by (auto simp: length_Suc_conv eval_nat_numeral)
  have "(of_char a :: nat) \<le> 255" for a :: char using nat_of_char_less_256[of a] by linarith
  from this[of a1] this[of a2] this[of a3] this[of a4] show ?thesis by (simp add: b of_be32_def)
qed

lemma put_get64: "length b = 8 \<Longrightarrow> \<exists>n < 2 ^ 64. get64 b = Some (n, []) \<and> put64 n = b"
proof -
  assume b: "length b = 8"
  define h l where "h = of_be32 (take 4 b)" and "l = of_be32 (drop 4 b)"
  have hl: "h < 2 ^ 32" "l < 2 ^ 32" "be32 h = take 4 b" "be32 l = drop 4 b"
    using of_be32_bound[of "take 4 b"] of_be32_bound[of "drop 4 b"] of_be32_inj[of "take 4 b"] of_be32_inj[of "drop 4 b"] b by (simp_all add: h_def l_def)
  have "get64 b = Some (h * 2 ^ 32 + l, [])" using b by (simp add: get64_def h_def l_def)
  moreover have "put64 (h * 2 ^ 32 + l) = b" using hl by (simp add: put64_def)
  moreover have "h * 2 ^ 32 + l < 2 ^ 64" using hl(1,2) by simp
  ultimately show ?thesis by blast
qed

lemma length_put_stamps_sealed: "length (put_stamps (sealed_at i t ss)) = length (put_stamps ss)"
proof -
  have "map (length \<circ> put_stamp) (sealed_at i t ss) = map (length \<circ> put_stamp) ss"
  proof (rule nth_equalityI)
    fix j assume "j < length (map (length \<circ> put_stamp) (sealed_at i t ss))"
    then show "map (length \<circ> put_stamp) (sealed_at i t ss) ! j = map (length \<circ> put_stamp) ss ! j"
      by (cases "i = j") (simp_all add: sealed_at_def put_stamp_def)
  qed simp
  then show ?thesis by (simp add: put_stamps_def length_concat)
qed

lemma uuid_round: "k < 2 ^ 128 \<Longrightarrow> get_uuid (put_uuid k) = k"
proof -
  assume "k < 2 ^ 128"
  then have "k div 2 ^ 64 < 2 ^ 64" by (simp add: less_mult_imp_div_less)
  moreover have "get64 (put64 (k mod 2 ^ 64)) = Some (k mod 2 ^ 64, [])" using get_put64[of "k mod 2 ^ 64" "[]"] by simp
  ultimately show ?thesis by (simp add: get_uuid_def put_uuid_def)
qed

lemma uuid_bytes_round: "length b = 16 \<Longrightarrow> get_uuid b < 2 ^ 128 \<and> put_uuid (get_uuid b) = b"
proof -
  assume b: "length b = 16"
  obtain h where h: "h < 2 ^ 64" "put64 h = take 8 b" using put_get64[of "take 8 b"] b by auto
  obtain l where l: "l < 2 ^ 64" "put64 l = drop 8 b" "get64 (drop 8 b) = Some (l, [])" using put_get64[of "drop 8 b"] b by auto
  have "get64 b = Some (h, drop 8 b)" using get_put64[OF h(1), of "drop 8 b"] h(2) by simp
  then have "get_uuid b = h * 2 ^ 64 + l" using l by (simp add: get_uuid_def)
  then show ?thesis using h l by (simp add: put_uuid_def)
qed

lemma plain_codec_ok: "codec_ok plain_codec"
  unfolding codec_ok_def
proof (intro conjI allI impI)
  show "\<And>m. meta_ok m \<Longrightarrow> lc_meta_dec plain_codec (lc_meta_enc plain_codec m) = Some m"
    by (simp add: plain_codec_def get_put_meta)
  show "\<And>b m. lc_meta_dec plain_codec b = Some m \<Longrightarrow> meta_ok m"
    by (auto simp: plain_codec_def get_meta_def Let_def split: option.splits prod.splits if_splits)
  show "\<And>k. k < 2 ^ 128 \<Longrightarrow> length (lc_uuid_bytes plain_codec k) = 16" by (simp add: plain_codec_def put_uuid_def)
  show "\<And>k. k < 2 ^ 128 \<Longrightarrow> lc_uuid_of plain_codec (lc_uuid_bytes plain_codec k) = k" by (simp add: plain_codec_def uuid_round)
  show "\<And>b. length b = 16 \<Longrightarrow> lc_uuid_of plain_codec b < 2 ^ 128" "\<And>b. length b = 16 \<Longrightarrow> lc_uuid_bytes plain_codec (lc_uuid_of plain_codec b) = b"
    using uuid_bytes_round by (auto simp: plain_codec_def)
qed (simp_all add: plain_codec_def put_meta_def length_put_stamps_sealed)

end
