(* ===== verification/Exec_Facts.thy ===== *)
theory Exec_Facts
  imports Exec
begin

section \<open>Facts about execution\<close>

text \<open>
  What running processes does to an event and to the state of a run. Both kinds of fact are proved
  once, in a locale over the relation: \<open>event_rel\<close> for relations between the event before and
  after, \<open>exec_rel\<close> and \<open>pipe_rel\<close> for relations between states. The interpretations at the end of
  each part give the concrete facts. The last part shows that more stack never changes a result
  and that a sealed blueprint always runs to completion.
\<close>

subsection \<open>Rules for the executor's combinators\<close>

lemma postM_attempt:
  "postM Q m \<Longrightarrow> (\<And>x. Q x \<Longrightarrow> postM P (k x)) \<Longrightarrow> (\<And>e. postM P (h e)) \<Longrightarrow> postM P (attempt m k h)"
  by (auto simp: postM_def attempt_def split: prod.splits res.splits) metis

lemma postM_bind_any: "(\<And>x. postM P (k x)) \<Longrightarrow> postM P (bindM m k)"
  by (rule postM_bind[where Q = "\<lambda>_. True"]) auto

lemma bindM_modify [simp]: "bindM (modify f) k s = k () (f s)"
  by (simp add: bindM_def modify_def)

lemma totalM_attempt [totalM_rules]:
  "totalM m \<Longrightarrow> (\<And>x. totalM (k x)) \<Longrightarrow> (\<And>e. totalM (h e)) \<Longrightarrow> totalM (attempt m k h)"
  by (auto simp: totalM_def attempt_def split: prod.splits res.splits) (metis fst_conv)

lemma totalM_modify [totalM_rules]: "totalM (modify f)"
  by (simp add: totalM_def modify_def)

lemma totalM_liftW [totalM_rules]: "totalM m \<Longrightarrow> totalM (liftW m)"
  by (auto simp: totalM_def liftW_def split: prod.splits) (metis fst_conv)

lemma leM_attempt [leM_rules]:
  "leM m m' \<Longrightarrow> (\<And>x. leM (k x) (k' x)) \<Longrightarrow> (\<And>e. leM (h e) (h' e)) \<Longrightarrow> leM (attempt m k h) (attempt m' k' h')"
  unfolding leM_def attempt_def
  by (auto split: prod.splits res.splits) (metis fst_conv prod.inject res.distinct res.inject)+

lemma leM_liftW [leM_rules]: "leM m m' \<Longrightarrow> leM (liftW m) (liftW m')"
  unfolding leM_def liftW_def by (auto split: prod.splits) (metis fst_conv prod.inject)+

subsection \<open>What execution does to an event\<close>

text \<open>
  A relation between the event before and after that every primitive change of an event
  satisfies: a workspace entry written or removed, \<open>egress\<close> replaced.
\<close>

locale event_rel =
  fixes E :: "borrowed_event \<Rightarrow> borrowed_event \<Rightarrow> bool"
  assumes refl: "E ev ev"
    and trans: "E a b \<Longrightarrow> E b c \<Longrightarrow> E a c"
    and put: "E ev (workspace_set k v ev)"
    and del: "E ev (snd (workspace_remove k ev))"
    and egress: "E ev (ev\<lparr>be_egress := bs\<rparr>)"
begin

definition holds :: "borrowed_event \<Rightarrow> exec_result \<times> scope \<Rightarrow> bool" where
  "holds ev r \<longleftrightarrow> (\<forall>ev'. fst r = Continue ev' \<longrightarrow> E ev ev')"

definition all_hold :: "'w exec_fn \<Rightarrow> bool" where
  "all_hold rec \<longleftrightarrow> (\<forall>code nid ev sc. postM (holds ev) (rec code nid ev sc))"

lemma assign: "apply_assign rfc t v ev = Ok ev' \<Longrightarrow> E ev ev'"
  by (auto simp: apply_assign_def set_workspace_path_def put egress
      split: assign_target.splits list.splits)

lemma merge_all: "E ev (fold (\<lambda>(k, x). workspace_set k x) es ev)"
proof (induction es arbitrary: ev)
  case (Cons p es)
  have "E ev (workspace_set (fst p) (snd p) ev)" by (rule put)
  with Cons show ?case by (auto simp: case_prod_beta intro: trans)
qed (simp add: refl)

lemma merged: "merge_result v ev = Ok ev' \<Longrightarrow> E ev ev'"
  by (auto simp: merge_result_def merge_all refl split: val.splits)

lemma call:
  assumes "all_hold rec"
  shows "postM (\<lambda>r. \<forall>ev'. r = Some ev' \<longrightarrow> E ev ev') (ir_call env rec tgt nm nid ev kind)"
proof -
  have "postM (\<lambda>r. \<forall>ev'. r = Continue ev' \<longrightarrow> E ev ev')
      (case body of Some b \<Rightarrow> bindM (rec (pb_code b) nid ev Map.empty) (\<lambda>(r, _). ret r)
       | None \<Rightarrow> ret (Continue ev))" for body :: "process_body_code option"
    using assms by (auto simp: all_hold_def holds_def intro!: postM_bind[where Q = "holds ev"] postM_ret refl
        split: option.split prod.split)
  then show ?thesis
    unfolding ir_call_def
    by (intro postM_bind_any) (auto intro!: postM_attempt postM_bind_any postM_rules
        simp: finish_call_def split: exec_result.split)
qed

lemma called:
  assumes "all_hold rec"
  shows "postM (\<lambda>r. \<forall>ev'. r = Some ev' \<longrightarrow> E ev ev') (exec_call env rec nm slot nid ev)"
  unfolding exec_call_def
  by (intro postM_bind_any postM_attempt[OF call[OF assms]]) (auto intro: postM_rules)

lemma tried:
  assumes "all_hold rec"
  shows "postM (holds ev) (exec_try rec t c nid ev sc)"
  unfolding exec_try_def
proof (rule postM_attempt)
  show "postM (holds ev) (rec t nid ev sc)" using assms by (simp add: all_hold_def)
next
  fix e
  let ?ev = "workspace_set_str ''_error'' (VString e) (snapshot_in ev)"
  have "E ev ?ev" by (simp add: put)
  then have "E ?ev ev' \<Longrightarrow> E ev (snd (workspace_remove ''_error'' ev'))" for ev'
    using trans del by blast
  moreover have "postM (holds ?ev) (rec c nid ?ev sc)" using assms by (simp only: all_hold_def)
  ultimately show "postM (holds ev) (bindM (rec c nid ?ev sc) (\<lambda>(r, sc'). case r of
      Continue ev' \<Rightarrow> ret (Continue (snd (workspace_remove ''_error'' ev')), sc')
    | XDropped \<Rightarrow> ret (XDropped, sc')))"
    by (intro postM_bind[where Q = "holds ?ev"])
      (auto simp: holds_def intro!: postM_ret split: exec_result.split)
qed (auto intro: postM_ret)

lemma updated:
  "(\<And>ev'. r = Ok ev' \<Longrightarrow> E ev ev') \<Longrightarrow> postM (holds ev) (bindM (liftR r) (\<lambda>ev'. ret (Continue ev', sc)))"
  by (auto simp: postM_def holds_def bindM_Ok liftR_def ret_def)

lemma stmt:
  assumes "all_hold rec"
  shows "postM (holds ev) (exec_stmt env n rec s nid ev sc)"
proof -
  have rec: "postM (holds ev) (rec code nid ev sc)" for code nid ev sc
    using assms by (simp add: all_hold_def)
  have body: "postM (holds ev) (exec_body_opt rec b nid ev sc)" for b
    using rec by (auto simp: exec_body_opt_def holds_def intro!: postM_ret refl split: option.split)
  have call: "postM (\<lambda>r. \<forall>ev'. r = Some ev' \<longrightarrow> E ev ev') (exec_call env rec nm slot nid ev)" for nm slot
    by (rule called[OF assms])
  show ?thesis
  proof (cases s)
    case (CCall nm slot)
    then show ?thesis
      by (auto intro!: postM_bind[OF call] postM_ret simp: holds_def split: option.split)
  next
    case (CAssign t e)
    then show ?thesis by (auto intro!: postM_bind_any updated dest: assign)
  next
    case (CExpr e)
    then show ?thesis by (auto intro!: postM_bind_any updated dest: merged)
  qed (auto intro!: postM_bind_any postM_rules body tried[OF assms] refl simp: holds_def)
qed

lemma stmts:
  assumes "all_hold rec"
  shows "postM (holds ev) (exec_stmts env n rec code nid ev sc)"
proof (induction code arbitrary: ev sc)
  case (Cons s code)
  show ?case
    unfolding exec_stmts.simps
  proof (rule postM_bind[OF stmt[OF assms]], goal_cases)
    case (1 r)
    obtain res sc' where r: "r = (res, sc')" by (cases r)
    show ?case
    proof (cases res)
      case (Continue ev')
      have "postM (holds ev') (exec_stmts env n rec code nid ev' sc')" by (rule Cons)
      moreover have "E ev ev'" using 1 r Continue by (simp add: holds_def)
      ultimately have "postM (holds ev) (exec_stmts env n rec code nid ev' sc')"
        unfolding postM_def holds_def using trans by blast
      with r Continue show ?thesis by simp
    qed (use r in \<open>simp add: postM_ret holds_def\<close>)
  qed
qed (simp add: postM_ret holds_def refl)

lemma code: "all_hold (exec_ir_process_code env n)"
proof (induction n)
  case (Suc n)
  then show ?case using stmts unfolding all_hold_def exec_ir_process_code.simps by blast
qed (simp add: all_hold_def postM_crash)

lemma process_run:
  "exec_ir_process_code env n cd nid ev sc x = (Ok (Continue ev', sc'), x') \<Longrightarrow> E ev ev'"
  using code unfolding all_hold_def postM_def holds_def by fastforce

lemma process_call: "ir_call env (exec_ir_process_code env n) tgt nm nid ev kind x = (Ok (Some ev'), x') \<Longrightarrow> E ev ev'"
  using call[OF code] unfolding postM_def by blast

end

text \<open>No process changes the header of an event, and workspaces keep their keys distinct.\<close>

interpretation hdr: event_rel "\<lambda>a b. be_header b = be_header a"
  by unfold_locales auto

interpretation keys: event_rel "\<lambda>a b. workspace_distinct a \<longrightarrow> workspace_distinct b"
proof unfold_locales
  show "workspace_distinct ev \<longrightarrow> workspace_distinct (ev\<lparr>be_egress := bs\<rparr>)" for ev bs
    by (simp add: workspace_distinct_def)
qed (auto intro: ws.invar_update ws.invar_delete)

subsection \<open>What execution does to the state\<close>

text \<open>\<open>relM R m\<close>: any outcome but a crash leaves a state related to the one before.\<close>

definition relM :: "('s \<Rightarrow> 's \<Rightarrow> bool) \<Rightarrow> ('s, 'a) M \<Rightarrow> bool" where
  "relM R m \<longleftrightarrow> (\<forall>s r s'. m s = (r, s') \<longrightarrow> r \<noteq> Crash \<longrightarrow> R s s')"

text \<open>Every metric node with a known target points into the body table.\<close>

definition bodies_in_range :: "'w xenv \<Rightarrow> bool" where
  "bodies_in_range env \<longleftrightarrow> (\<forall>node \<in> set (bp_nodes (xe_pl env)). \<forall>b.
     mn_target node = Known b \<longrightarrow> b < length (ub_bodies (xe_bp env)))"

text \<open>
  A preorder on states that running processes respects: it ignores the world and the taps, and a
  whole invocation frame, from the start of its counter to exactly one of the three outcomes,
  keeps it.
\<close>

locale exec_rel =
  fixes R :: "'w xstate \<Rightarrow> 'w xstate \<Rightarrow> bool"
  assumes R_refl: "R x x"
    and R_trans: "R x y \<Longrightarrow> R y z \<Longrightarrow> R x z"
    and R_world: "R x (x\<lparr>x_world := w\<rparr>)"
    and R_taps: "R x (x\<lparr>x_taps := ts\<rparr>)"
    and R_frame: "i < length (x_counters x) \<Longrightarrow> R (bump_counter pc_start i x) y \<Longrightarrow>
      f = pc_continued \<or> f = pc_drop \<or> f = pc_error \<Longrightarrow> R x (bump_counter f i y)"
begin

lemma ret_rel: "relM R (ret v)"
  by (auto simp: relM_def ret_def R_refl)

lemma fail_rel: "relM R (fail e)"
  by (auto simp: relM_def fail_def R_refl)

lemma liftR_rel: "relM R (liftR r)"
  by (auto simp: relM_def liftR_def R_refl)

lemma crash_rel: "relM R crash"
  by (auto simp: relM_def crash_def)

lemma liftW_rel: "relM R (liftW m)"
  by (auto simp: relM_def liftW_def R_world split: prod.splits)

lemma bind_rel: "relM R m \<Longrightarrow> (\<And>v. relM R (k v)) \<Longrightarrow> relM R (bindM m k)"
  unfolding relM_def bindM_def
  by (auto split: prod.splits res.splits) (metis R_trans res.distinct(3))

lemma attempt_rel: "relM R m \<Longrightarrow> (\<And>v. relM R (k v)) \<Longrightarrow> (\<And>e. relM R (h e)) \<Longrightarrow> relM R (attempt m k h)"
  unfolding relM_def attempt_def
  by (auto split: prod.splits res.splits) (metis R_trans res.distinct(3), metis R_trans res.distinct(5))

lemma tap_rel: "relM R (emit_tap env nm ev)"
  by (auto simp: relM_def emit_tap_def modify_def R_refl R_taps Let_def split: option.splits)

lemma branch_rel: "(\<And>c. relM R (ev c)) \<Longrightarrow> relM R (select_branch ev bs els)"
  by (induction ev bs els rule: select_branch.induct) (auto intro!: ret_rel bind_rel)

lemma arm_rel: "(\<And>c. relM R (ev c)) \<Longrightarrow> relM R (select_arm ev v arms)"
  by (induction ev v arms rule: select_arm.induct) (auto intro!: ret_rel bind_rel)

lemma message_rel: "(\<And>c. relM R (ev c)) \<Longrightarrow> relM R (error_message env ev e)"
  unfolding error_message_def by (auto intro!: ret_rel bind_rel split: option.split)

lemmas rels = ret_rel fail_rel liftR_rel liftW_rel bind_rel attempt_rel tap_rel branch_rel arm_rel message_rel

lemma frame_rel:
  assumes "relM R m" "i < length (x_counters x)" "m (bump_counter pc_start i x) = (r, y)"
    and "r \<noteq> Crash" "f = pc_continued \<or> f = pc_drop \<or> f = pc_error"
  shows "R x (bump_counter f i y)"
  using assms R_frame unfolding relM_def by blast

lemma finish_rel:
  assumes "finish_call env nm nid kind res y = (r, z)"
  shows "\<exists>f. (f = pc_continued \<or> f = pc_drop) \<and> R (bump_counter f nid y) z"
proof (cases res)
  case (Continue ev)
  have "relM R (bindM (if kind = KNamed then emit_tap env nm ev else ret ()) (\<lambda>_. ret (Some ev)))"
    by (auto intro!: rels)
  moreover have "r \<noteq> Crash"
    using assms Continue by (auto simp: finish_call_def bindM_def modify_def emit_tap_def ret_def split: if_splits)
  ultimately have "R (bump_counter pc_continued nid y) z"
    using assms Continue by (auto simp: finish_call_def relM_def)
  then show ?thesis by blast
qed (use assms in \<open>auto simp: finish_call_def bindM_def modify_def ret_def intro: R_refl\<close>)

lemma call_rel:
  assumes "bodies_in_range env" "\<And>code nid ev sc. relM R (rec code nid ev sc)"
  shows "relM R (ir_call env rec tgt nm nid ev kind)"
  unfolding relM_def
proof (intro allI impI)
  fix x :: "'w xstate" and r x'
  assume run: "ir_call env rec tgt nm nid ev kind x = (r, x')" and r: "r \<noteq> Crash"
  show "R x x'"
  proof (cases "nid < length (bp_nodes (xe_pl env)) \<and> mn_target (bp_nodes (xe_pl env) ! nid) = tgt
      \<and> nid < length (x_counters x)")
    case False
    then show ?thesis using run
      by (auto simp: ir_call_def bindM_def liftR_def get_or_def nth_opt_def ensure_def R_refl split: if_splits)
  next
    case True
    let ?m = "case tgt of
        Known b \<Rightarrow> bindM (rec (pb_code (ub_bodies (xe_bp env) ! b)) nid ev Map.empty) (\<lambda>(r, _). ret r)
      | Unknown \<Rightarrow> ret (Continue ev)"
    have b: "tgt = Known b \<Longrightarrow> b < length (ub_bodies (xe_bp env))" for b
      using assms(1) True by (force simp: bodies_in_range_def)
    have m: "relM R ?m" using assms(2) by (auto intro!: rels split: process_target.split)
    obtain q y where q: "?m (bump_counter pc_start nid x) = (q, y)" by fastforce
    have run': "(r, x') = (case q of Ok res \<Rightarrow> finish_call env nm nid kind res y
        | Err e \<Rightarrow> (Err e, bump_counter pc_error nid y) | Crash \<Rightarrow> (Crash, y))"
      using run True q b
      by (cases tgt) (auto simp: ir_call_def bindM_def liftR_def get_or_def nth_opt_def ensure_def attempt_def
          modify_def ret_def fail_def split: res.splits prod.splits)
    have fr: "q \<noteq> Crash \<Longrightarrow> f = pc_continued \<or> f = pc_drop \<or> f = pc_error \<Longrightarrow> R x (bump_counter f nid y)" for f
      using frame_rel[OF m _ q] True by blast
    show ?thesis
    proof (cases q)
      case (Ok res)
      with run' have "finish_call env nm nid kind res y = (r, x')" by simp
      from finish_rel[OF this] obtain f where "f = pc_continued \<or> f = pc_drop" "R (bump_counter f nid y) x'"
        by blast
      then show ?thesis using fr[of f] Ok R_trans by blast
    qed (use run' r fr in auto)
  qed
qed

lemma process_call_rel:
  assumes "bodies_in_range env" "\<And>code nid ev sc. relM R (rec code nid ev sc)"
  shows "relM R (exec_call env rec nm slot nid ev)"
  unfolding exec_call_def using call_rel[OF assms] by (auto intro!: rels split: process_target.split)

lemma try_rel: "(\<And>code nid ev sc. relM R (rec code nid ev sc)) \<Longrightarrow> relM R (exec_try rec t c nid ev sc)"
  unfolding exec_try_def by (auto intro!: rels split: exec_result.split prod.split)

lemma stmt_rel:
  assumes "bodies_in_range env" "\<And>code nid ev sc. relM R (rec code nid ev sc)"
  shows "relM R (exec_stmt env n rec s nid ev sc)"
  using process_call_rel[OF assms] try_rel[OF assms(2)] assms(2)
  by (cases s) (auto intro!: rels simp: exec_body_opt_def split: option.split)

lemma stmts_rel:
  assumes "bodies_in_range env" "\<And>code nid ev sc. relM R (rec code nid ev sc)"
  shows "relM R (exec_stmts env n rec code nid ev sc)"
  using stmt_rel[OF assms]
  by (induction code arbitrary: ev sc) (auto intro!: rels split: exec_result.split prod.split)

lemma code_rel: "bodies_in_range env \<Longrightarrow> relM R (exec_ir_process_code env n code nid ev sc)"
  by (induction n arbitrary: code nid ev sc) (auto intro!: crash_rel stmts_rel)

end

text \<open>Running processes leaves the accumulators of the run alone.\<close>

definition same_run :: "'w xstate \<Rightarrow> 'w xstate \<Rightarrow> bool" where
  "same_run x y \<longleftrightarrow> x_outputs y = x_outputs x \<and> x_errored y = x_errored x \<and> x_trace y = x_trace x
     \<and> x_timers y = x_timers x \<and> length (x_counters y) = length (x_counters x)"

interpretation run: exec_rel same_run
  by unfold_locales (auto simp: same_run_def bump_counter_def)

text \<open>A relation that a whole pipeline respects: it also ignores the accumulators.\<close>

locale pipe_rel = exec_rel +
  assumes R_trace: "R x (x\<lparr>x_trace := t\<rparr>)"
    and R_timers: "length ts = length (x_timers x) \<Longrightarrow> R x (x\<lparr>x_timers := ts\<rparr>)"
    and R_outputs: "R x (x\<lparr>x_outputs := os\<rparr>)"
    and R_errored: "R x (x\<lparr>x_errored := es\<rparr>)"
begin

lemma trace_rel: "relM R (push_trace a b c)"
  by (auto simp: relM_def push_trace_def modify_def R_trace)

lemma clock_rel: "relM R (clock env)"
  unfolding clock_def by (rule liftW_rel)

lemma errored_rel: "relM R (push_errored e)"
  by (auto simp: relM_def push_errored_def modify_def R_errored)

lemma failure_rel: "relM R (process_failure env site reason)"
  unfolding process_failure_def by (auto intro!: bind_rel clock_rel errored_rel)

lemma sites_rel: "bodies_in_range env \<Longrightarrow> relM R (exec_sites env (exec_ir_process_code env n) sites ev)"
  by (induction sites arbitrary: ev)
    (auto intro!: rels trace_rel failure_rel call_rel code_rel simp: Let_def split: option.split)

lemma output_rel: "relM R (exec_output env nm slot ev)"
proof -
  have "relM R (\<lambda>x. if slot < length (x_timers x)
      then (Ok (), x\<lparr>x_timers := (x_timers x)[slot := x_timers x ! slot @ [(d, t)]]\<rparr>) else (Err m, x))" for d t m
    by (auto simp: relM_def R_timers R_refl)
  moreover have "relM R (modify (\<lambda>x. x\<lparr>x_outputs := x_outputs x @ [q]\<rparr>))" for q
    by (auto simp: relM_def modify_def R_outputs)
  ultimately show ?thesis
    unfolding exec_output_def Let_def by (intro bind_rel trace_rel clock_rel)
qed

lemma pipe_stmt_rel:
  assumes "bodies_in_range env" "\<And>code ev. relM R (rec code ev)"
  shows "relM R (exec_pipe_stmt env n rec s ev)"
  using assms sites_rel[OF assms(1)]
  by (cases s) (auto intro!: rels trace_rel failure_rel output_rel simp: exec_branch_opt_def
      split: option.split prod.split)

lemma pipe_rel: "bodies_in_range env \<Longrightarrow> relM R (exec_ir_pipeline_body env n code ev)"
proof (induction n arbitrary: code ev)
  case (Suc n)
  have "relM R (exec_pipe_stmts env n (exec_ir_pipeline_body env n) code ev)"
    using pipe_stmt_rel[OF Suc.prems Suc.IH[OF Suc.prems]]
    by (induction code arbitrary: ev) (auto intro!: rels split: sum.split)
  then show ?case by simp
qed (simp add: crash_rel)

lemma run_rel:
  assumes "bodies_in_range env"
  shows "relM R (run_pipeline env n)"
proof -
  have "R x (x\<lparr>x_outputs := [], x_errored := []\<rparr>)" for x
    by (rule R_trans[OF R_outputs R_errored])
  then have "relM R (modify (\<lambda>x. x\<lparr>x_outputs := [], x_errored := []\<rparr>))"
    by (simp add: relM_def modify_def)
  moreover have "relM R (\<lambda>x. (Ok (g x), x))" for g :: "'a xstate \<Rightarrow> run_result"
    by (simp add: relM_def R_refl)
  ultimately show ?thesis
    unfolding run_pipeline_def using pipe_rel[OF assms]
    by (auto intro!: bind_rel trace_rel split: prod.split)
qed

end

text \<open>The invocations of a metric node that have started and not ended.\<close>

definition pending :: "process_counters \<Rightarrow> 64 word" where
  "pending c = pc_in c - (pc_out c + pc_dropped c + pc_errored c)"

definition same_pending :: "'w xstate \<Rightarrow> 'w xstate \<Rightarrow> bool" where
  "same_pending x y \<longleftrightarrow> map pending (x_counters y) = map pending (x_counters x)
     \<and> length (x_timers y) = length (x_timers x)"

lemma pending_bump [simp]:
  "pending (pc_start c) = pending c + 1" "pending (pc_continued c) = pending c - 1"
  "pending (pc_drop c) = pending c - 1" "pending (pc_error c) = pending c - 1"
  by (simp_all add: pending_def pc_start_def pc_continued_def pc_drop_def pc_error_def)

interpretation cnt: pipe_rel same_pending
proof unfold_locales
  fix i f and x y :: "'a xstate"
  assume i: "i < length (x_counters x)" and R: "same_pending (bump_counter pc_start i x) y"
    and f: "f = pc_continued \<or> f = pc_drop \<or> f = pc_error"
  have y: "map pending (x_counters y) = (map pending (x_counters x))[i := pending (x_counters x ! i) + 1]"
    using R i by (simp add: same_pending_def bump_counter_def map_update)
  then have l: "length (x_counters y) = length (x_counters x)" by (metis length_list_update length_map)
  then have "pending (x_counters y ! i) = pending (x_counters x ! i) + 1"
    using y i by (metis length_map nth_list_update_eq nth_map)
  with f have "pending (f (x_counters y ! i)) = pending (x_counters x ! i)" by auto
  then have "(map pending (x_counters x))[i := pending (f (x_counters y ! i))] = map pending (x_counters x)"
    using i by (simp add: list_update_same_conv)
  then show "same_pending x (bump_counter f i y)"
    using R y by (simp add: same_pending_def bump_counter_def map_update)
qed (auto simp: same_pending_def)

subsection \<open>What a run records\<close>

text \<open>
  Hoare triples over the state: \<open>validM P m Q\<close> says what holds after success, \<open>Q\<close>, and that an
  error keeps \<open>P\<close>.
\<close>

definition validM :: "('s \<Rightarrow> bool) \<Rightarrow> ('s, 'a) M \<Rightarrow> ('a \<Rightarrow> 's \<Rightarrow> bool) \<Rightarrow> bool" where
  "validM P m Q \<longleftrightarrow> (\<forall>s r s'. P s \<longrightarrow> m s = (r, s') \<longrightarrow>
     (case r of Ok v \<Rightarrow> Q v s' | Err _ \<Rightarrow> P s' | Crash \<Rightarrow> True))"

lemma validM_ret: "(\<And>s. P s \<Longrightarrow> Q v s) \<Longrightarrow> validM P (ret v) Q"
  by (auto simp: validM_def ret_def)

lemma validM_outcome:
  assumes "validM P m Q" "P s" "m s = (r, s')"
  shows "r = Ok v \<Longrightarrow> Q v s'" "r = Err e \<Longrightarrow> P s'"
  using assms unfolding validM_def by fastforce+

lemma validM_attempt:
  assumes "validM P m (\<lambda>v s. P s \<and> G v)" "\<And>v. G v \<Longrightarrow> validM P (k v) Q" "\<And>e. validM P (h e) Q"
  shows "validM P (attempt m k h) Q"
  unfolding validM_def
proof (intro allI impI)
  fix s r s' assume s: "P s" and run: "attempt m k h s = (r, s')"
  obtain q t where q: "m s = (q, t)" by fastforce
  note o = validM_outcome[OF assms(1) s q]
  show "case r of Ok v \<Rightarrow> Q v s' | Err _ \<Rightarrow> P s' | Crash \<Rightarrow> True"
  proof (cases q)
    case (Ok v)
    then have "k v t = (r, s')" "P t" "G v" using run q o(1) by (auto simp: attempt_def)
    then show ?thesis using validM_outcome[OF assms(2) _ \<open>k v t = (r, s')\<close>] by (cases r) simp_all
  next
    case (Err e)
    then have "h e t = (r, s')" "P t" using run q o(2) by (auto simp: attempt_def)
    then show ?thesis using validM_outcome[OF assms(3) _ \<open>h e t = (r, s')\<close>] by (cases r) simp_all
  qed (use run q in \<open>auto simp: attempt_def\<close>)
qed

lemma bindM_attempt: "bindM m k = attempt m k fail"
  by (auto simp: fun_eq_iff bindM_def attempt_def fail_def split: prod.splits res.splits)

lemma validM_fail: "validM P (fail e) Q"
  by (simp add: validM_def fail_def)

lemma validM_bind_post:
  assumes "validM P m (\<lambda>v s. P s \<and> G v)" "\<And>v. G v \<Longrightarrow> validM P (k v) Q"
  shows "validM P (bindM m k) Q"
  unfolding bindM_attempt by (rule validM_attempt[OF assms validM_fail])

lemma validM_bind: "validM P m (\<lambda>_. P) \<Longrightarrow> (\<And>v. validM P (k v) Q) \<Longrightarrow> validM P (bindM m k) Q"
  by (rule validM_bind_post[where G = "\<lambda>_. True"]) auto

lemma validM_map: "validM P m (\<lambda>v. Q (g v)) \<Longrightarrow> validM P (bindM m (\<lambda>v. ret (g v))) Q"
  unfolding validM_def bindM_def ret_def by (fastforce split: prod.splits res.splits)

lemma validM_rel: "relM R m \<Longrightarrow> (\<And>x y. R x y \<Longrightarrow> P x \<Longrightarrow> P y) \<Longrightarrow> validM P m (\<lambda>_. P)"
  unfolding relM_def validM_def by (fastforce split: res.splits)

lemma validM_post: "validM P m (\<lambda>_. P) \<Longrightarrow> postM G m \<Longrightarrow> validM P m (\<lambda>v s. P s \<and> G v)"
  unfolding postM_def validM_def by (fastforce split: res.splits)

text \<open>
  The accumulators of a run over an original event: every output carries the event's header, and
  no failure is recorded yet.
\<close>

definition outputs_from :: "owned_event \<Rightarrow> 'w xstate \<Rightarrow> bool" where
  "outputs_from oev x \<longleftrightarrow> (\<forall>(nm, q) \<in> set (x_outputs x). oe_header (qe_event q) = oe_header oev)"

definition clean :: "owned_event \<Rightarrow> 'w xstate \<Rightarrow> bool" where
  "clean oev x \<longleftrightarrow> outputs_from oev x \<and> x_errored x = []"

text \<open>How a step may end: only \<open>Errored\<close> has a record, exactly one, of the original event.\<close>

definition ended :: "'w xenv \<Rightarrow> pipeline_termination \<Rightarrow> 'w xstate \<Rightarrow> bool" where
  "ended env t x \<longleftrightarrow> outputs_from (xe_original env) x \<and> (if t = Errored
     then \<exists>tm site reason. x_errored x =
       [EProcess tm (bp_name (xe_pl env)) site reason (process_event_from_owned (xe_original env))]
     else x_errored x = [])"

definition step_ended :: "'w xenv \<Rightarrow> step_result \<Rightarrow> 'w xstate \<Rightarrow> bool" where
  "step_ended env r x \<longleftrightarrow> (case r of
     Inl t \<Rightarrow> ended env t x
   | Inr ev \<Rightarrow> clean (xe_original env) x \<and> be_header ev = oe_header (xe_original env))"

lemma clean_same_run: "same_run x y \<Longrightarrow> clean oev x \<Longrightarrow> clean oev y"
  by (simp add: clean_def same_run_def outputs_from_def)

lemma clean_ended: "clean (xe_original env) x \<Longrightarrow> t \<noteq> Errored \<Longrightarrow> ended env t x"
  by (simp add: clean_def ended_def)

lemma clean_trace: "validM (clean oev) (push_trace a b c) (\<lambda>_. clean oev)"
  by (auto simp: validM_def push_trace_def modify_def clean_def outputs_from_def)

lemma clean_liftW: "validM (clean oev) (liftW m) (\<lambda>_. clean oev)"
  by (rule validM_rel[OF run.liftW_rel]) (rule clean_same_run)

lemma clean_failure:
  "validM (clean (xe_original env)) (bindM (process_failure env site reason) (\<lambda>_. ret (Inl Errored))) (step_ended env)"
  by (auto simp: validM_def process_failure_def clock_def liftW_def push_errored_def modify_def bindM_def
      ret_def clean_def ended_def step_ended_def outputs_from_def split: prod.splits)

lemma clean_sites:
  assumes "bodies_in_range env" "be_header ev = oe_header (xe_original env)"
  shows "validM (clean (xe_original env)) (exec_sites env (exec_ir_process_code env n) sites ev) (step_ended env)"
  using assms(2)
proof (induction sites arbitrary: ev)
  case (Cons site sites)
  let ?P = "clean (xe_original env)"
  let ?c = "ir_call env (exec_ir_process_code env n) (Known (site_body site)) (site_name site)
    (site_node site) ev (site_kind site)"
  have c: "validM ?P ?c (\<lambda>r s. ?P s \<and> (\<forall>ev'. r = Some ev' \<longrightarrow> be_header ev' = be_header ev))"
    by (intro validM_post validM_rel[OF run.call_rel[OF assms(1) run.code_rel[OF assms(1)]]] hdr.call hdr.code)
      (rule clean_same_run)
  have ok: "validM ?P (bindM (push_trace a b d) (\<lambda>_. exec_sites env (exec_ir_process_code env n) sites ev'))
      (step_ended env)" if "be_header ev' = be_header ev" for ev' a b d
    using Cons.IH[of ev'] that Cons.prems by (intro validM_bind[OF clean_trace]) simp
  have dr: "validM ?P (bindM (push_trace a b d) (\<lambda>_. ret (Inl Dropped))) (step_ended env)" for a b d
    by (intro validM_bind[OF clean_trace] validM_ret) (simp add: step_ended_def clean_ended)
  have er: "validM ?P (bindM (push_trace a b d) (\<lambda>_. bindM (process_failure env site reason)
      (\<lambda>_. ret (Inl Errored)))) (step_ended env)" for a b d site reason
    by (intro validM_bind[OF clean_trace] clean_failure)
  show ?case unfolding exec_sites.simps
  proof (rule validM_attempt[OF c])
    fix v assume "\<forall>ev'. v = Some ev' \<longrightarrow> be_header ev' = be_header ev"
    then show "validM ?P (case v of
         Some ev' \<Rightarrow> bindM (push_trace ''process'' (site_name site) ''ok'')
           (\<lambda>_. exec_sites env (exec_ir_process_code env n) sites ev')
       | None \<Rightarrow> bindM (push_trace ''process'' (site_name site) ''dropped'') (\<lambda>_. ret (Inl Dropped))) (step_ended env)"
      by (cases v) (auto intro: ok dr)
  qed (simp add: Let_def er)
qed (simp add: validM_ret step_ended_def)

lemma clean_output:
  fixes env :: "'w xenv"
  assumes "be_header ev = oe_header (xe_original env)"
  shows "validM (clean (xe_original env)) (exec_output env nm slot ev) (\<lambda>_. clean (xe_original env))"
proof -
  let ?P = "clean (xe_original env) :: 'w xstate \<Rightarrow> bool"
  have "validM ?P (clock env) (\<lambda>_. ?P)" unfolding clock_def by (rule clean_liftW)
  moreover have "validM ?P (\<lambda>x. if slot < length (x_timers x)
      then (Ok (), x\<lparr>x_timers := (x_timers x)[slot := x_timers x ! slot @ [(d, t)]]\<rparr>) else (Err m, x)) (\<lambda>_. ?P)" for d t m
    by (auto simp: validM_def clean_def outputs_from_def)
  moreover have "validM ?P (modify (\<lambda>x. x\<lparr>x_outputs := x_outputs x @ [(nm, \<lparr>qe_event = q, qe_emitted_ns = t\<rparr>)]\<rparr>)) (\<lambda>_. ?P)"
    if "oe_header q = be_header ev" for q t
    using that assms by (auto simp: validM_def modify_def clean_def outputs_from_def)
  ultimately show ?thesis
    unfolding exec_output_def Let_def by (intro validM_bind clean_trace) auto
qed

lemma clean_select:
  "(\<And>c. validM P (f c) (\<lambda>_. P)) \<Longrightarrow> validM P (select_branch f bs els) (\<lambda>_. P)"
  "(\<And>c. validM P (f c) (\<lambda>_. P)) \<Longrightarrow> validM P (select_arm f v arms) (\<lambda>_. P)"
  "(\<And>c. validM P (f c) (\<lambda>_. P)) \<Longrightarrow> validM P (error_message env f e) (\<lambda>_. P)"
proof -
  show "(\<And>c. validM P (f c) (\<lambda>_. P)) \<Longrightarrow> validM P (select_branch f bs els) (\<lambda>_. P)"
    by (induction f bs els rule: select_branch.induct) (auto intro!: validM_ret validM_bind)
  show "(\<And>c. validM P (f c) (\<lambda>_. P)) \<Longrightarrow> validM P (select_arm f v arms) (\<lambda>_. P)"
    by (induction f v arms rule: select_arm.induct) (auto intro!: validM_ret validM_bind)
  show "(\<And>c. validM P (f c) (\<lambda>_. P)) \<Longrightarrow> validM P (error_message env f e) (\<lambda>_. P)"
    by (auto simp: error_message_def intro!: validM_ret validM_bind split: option.split)
qed

definition body_ended :: "'w xenv \<Rightarrow> borrowed_event option \<times> pipeline_termination \<Rightarrow> 'w xstate \<Rightarrow> bool" where
  "body_ended env r x \<longleftrightarrow> (case r of
     (Some ev, t) \<Rightarrow> t = Finished \<and> step_ended env (Inr ev) x | (None, t) \<Rightarrow> step_ended env (Inl t) x)"

lemma clean_branch:
  assumes "\<And>code ev. be_header ev = oe_header (xe_original env) \<Longrightarrow>
      validM (clean (xe_original env)) (rec code ev) (body_ended env)"
    and "be_header ev = oe_header (xe_original env)"
  shows "validM (clean (xe_original env)) (exec_branch_opt rec b ev) (step_ended env)"
proof (cases b)
  case (Some code)
  have "validM (clean (xe_original env)) (rec code ev)
      (\<lambda>(r, t). step_ended env (case r of Some ev' \<Rightarrow> Inr ev' | None \<Rightarrow> Inl t))"
    using assms(1)[OF assms(2), of code] unfolding validM_def body_ended_def
    by (fastforce split: res.splits option.splits)
  then have "validM (clean (xe_original env)) (bindM (rec code ev)
      (\<lambda>v. ret (case v of (r, t) \<Rightarrow> case r of Some ev' \<Rightarrow> Inr ev' | None \<Rightarrow> Inl t))) (step_ended env)"
    by (intro validM_map) (simp add: case_prod_beta')
  then show ?thesis
    unfolding exec_branch_opt_def Some by (simp add: case_prod_beta')
qed (use assms(2) in \<open>simp add: exec_branch_opt_def validM_ret step_ended_def\<close>)

lemma clean_pipe_stmt:
  assumes "bodies_in_range env" "be_header ev = oe_header (xe_original env)"
    and "\<And>code ev. be_header ev = oe_header (xe_original env) \<Longrightarrow>
      validM (clean (xe_original env)) (rec code ev) (body_ended env)"
  shows "validM (clean (xe_original env)) (exec_pipe_stmt env n rec s ev) (step_ended env)"
proof -
  have fin: "validM (clean (xe_original env)) (ret (Inr ev)) (step_ended env)"
    "t \<noteq> Errored \<Longrightarrow> validM (clean (xe_original env)) (ret (Inl t)) (step_ended env)" for t
    using assms(2) by (auto intro!: validM_ret simp: step_ended_def clean_ended)
  show ?thesis
  proof (cases s)
    case (LProcessChain sites)
    then show ?thesis using clean_sites[OF assms(1,2)] by simp
  next
    case (LOutput nm slot)
    then show ?thesis using fin(1) by (simp add: validM_bind[OF clean_output[OF assms(2)]])
  next
    case (LIf bs els)
    then show ?thesis using clean_branch[OF assms(3,2)] by (auto intro!: validM_bind clean_select clean_liftW)
  next
    case (LSwitch d arms)
    then show ?thesis using clean_branch[OF assms(3,2)] by (auto intro!: validM_bind clean_select clean_liftW)
  qed (auto intro!: validM_bind clean_trace clean_select clean_liftW fin clean_failure)
qed

lemma clean_pipe_stmts:
  assumes "bodies_in_range env"
    and "\<And>code ev. be_header ev = oe_header (xe_original env) \<Longrightarrow>
      validM (clean (xe_original env)) (rec code ev) (body_ended env)"
  shows "be_header ev = oe_header (xe_original env) \<Longrightarrow>
    validM (clean (xe_original env)) (exec_pipe_stmts env n rec code ev) (body_ended env)"
proof (induction code arbitrary: ev)
  case (Cons s code)
  let ?P = "clean (xe_original env)"
  have st: "validM ?P (exec_pipe_stmt env n rec s ev) (step_ended env)"
    by (rule clean_pipe_stmt[OF assms(1) Cons.prems]) (rule assms(2))
  show ?case unfolding exec_pipe_stmts.simps validM_def
  proof (intro allI impI)
    fix x r x' assume x: "?P x" and run: "bindM (exec_pipe_stmt env n rec s ev)
      (\<lambda>r. case r of Inr ev' \<Rightarrow> exec_pipe_stmts env n rec code ev' | Inl t \<Rightarrow> ret (None, t)) x = (r, x')"
    obtain q y where q: "exec_pipe_stmt env n rec s ev x = (q, y)" by fastforce
    note o = validM_outcome[OF st x q]
    show "case r of Ok v \<Rightarrow> body_ended env v x' | Err _ \<Rightarrow> ?P x' | Crash \<Rightarrow> True"
    proof (cases q)
      case (Ok v)
      show ?thesis
      proof (cases v)
        case (Inr ev')
        then have "?P y" "be_header ev' = oe_header (xe_original env)"
          using o(1)[OF Ok] by (auto simp: step_ended_def)
        moreover have "exec_pipe_stmts env n rec code ev' y = (r, x')" using run q Ok Inr by (simp add: bindM_def)
        ultimately show ?thesis using Cons.IH unfolding validM_def by blast
      qed (use run q Ok o(1)[OF Ok] in \<open>auto simp: bindM_def ret_def body_ended_def\<close>)
    qed (use run q o(2) in \<open>auto simp: bindM_def\<close>)
  qed
qed (auto intro!: validM_ret simp: body_ended_def step_ended_def)

lemma clean_pipe:
  "bodies_in_range env \<Longrightarrow> be_header ev = oe_header (xe_original env) \<Longrightarrow>
   validM (clean (xe_original env)) (exec_ir_pipeline_body env n code ev) (body_ended env)"
proof (induction n arbitrary: code ev)
  case (Suc n)
  then show ?case using clean_pipe_stmts by fastforce
qed (simp add: validM_def crash_def)

lemma run_pipeline_ended:
  assumes "bodies_in_range env" "run_pipeline env n x = (Ok res, x')"
  shows "ended env (rr_termination res) x' \<and> rr_outputs res = x_outputs x' \<and> rr_errored res = x_errored x'
     \<and> rr_had_outputs res = (rr_outputs res \<noteq> [])"
proof -
  define y where "y = (snd (push_trace ''input'' [] (''ingress: '' @ from_utf8_lossy (oe_ingress (xe_original env))) x))
    \<lparr>x_outputs := [], x_errored := []\<rparr>"
  have y: "clean (xe_original env) y" by (simp add: y_def clean_def outputs_from_def)
  from assms(2) obtain r t where
    b: "exec_ir_pipeline_body env n (bp_code (xe_pl env)) (event_view_in (xe_original env)) y = (Ok (r, t), x')"
    and res: "res = \<lparr>rr_outputs = x_outputs x', rr_had_outputs = (x_outputs x' \<noteq> []), rr_termination = t,
                rr_errored = x_errored x'\<rparr>"
    by (auto simp: run_pipeline_def push_trace_def bindM_Ok y_def modify_def)
  have "body_ended env (r, t) x'"
    using validM_outcome(1)[OF clean_pipe[OF assms(1)] y b] by simp
  then have "ended env t x'"
    by (cases r) (auto simp: body_ended_def step_ended_def clean_ended)
  then show ?thesis using res by simp
qed

subsection \<open>More stack never changes a run\<close>

lemma leM_select [leM_rules]:
  "(\<And>c. leM (f c) (g c)) \<Longrightarrow> leM (select_branch f bs els) (select_branch g bs els)"
  "(\<And>c. leM (f c) (g c)) \<Longrightarrow> leM (select_arm f v arms) (select_arm g v arms)"
  "(\<And>c. leM (f c) (g c)) \<Longrightarrow> leM (error_message env f e) (error_message env g e)"
proof -
  show "(\<And>c. leM (f c) (g c)) \<Longrightarrow> leM (select_branch f bs els) (select_branch g bs els)"
    by (induction f bs els rule: select_branch.induct) (auto intro!: leM_rules)
  show "(\<And>c. leM (f c) (g c)) \<Longrightarrow> leM (select_arm f v arms) (select_arm g v arms)"
    by (induction f v arms rule: select_arm.induct) (auto intro!: leM_rules)
  show "(\<And>c. leM (f c) (g c)) \<Longrightarrow> leM (error_message env f e) (error_message env g e)"
    by (auto simp: error_message_def intro!: leM_rules split: option.split)
qed

lemma leM_ir_call [leM_rules]:
  "(\<And>c i e s. leM (rec c i e s) (rec' c i e s)) \<Longrightarrow>
   leM (ir_call env rec tgt nm nid ev kind) (ir_call env rec' tgt nm nid ev kind)"
  unfolding ir_call_def by (auto intro!: leM_rules split: option.split prod.split)

lemma leM_exec_call [leM_rules]:
  "(\<And>c i e s. leM (rec c i e s) (rec' c i e s)) \<Longrightarrow>
   leM (exec_call env rec nm slot nid ev) (exec_call env rec' nm slot nid ev)"
  unfolding exec_call_def by (auto intro!: leM_rules)

lemma leM_exec_try [leM_rules]:
  "(\<And>c i e s. leM (rec c i e s) (rec' c i e s)) \<Longrightarrow>
   leM (exec_try rec t c nid ev sc) (exec_try rec' t c nid ev sc)"
  unfolding exec_try_def by (auto intro!: leM_rules)

lemma leM_exec_stmt:
  assumes "\<And>c i e s. leM (rec c i e s) (rec' c i e s)"
  shows "leM (exec_stmt env n rec s nid ev sc) (exec_stmt env (Suc n) rec' s nid ev sc)"
  using assms
  by (cases s) (auto intro!: leM_rules eval_Suc_le simp: exec_body_opt_def split: option.split
      simp del: eval_expr_with_scope.simps)

lemma leM_exec_stmts:
  assumes "\<And>c i e s. leM (rec c i e s) (rec' c i e s)"
  shows "leM (exec_stmts env n rec code nid ev sc) (exec_stmts env (Suc n) rec' code nid ev sc)"
  using leM_exec_stmt[OF assms]
  by (induction code arbitrary: ev sc) (auto intro!: leM_rules split: prod.split exec_result.split)

lemma exec_Suc_le:
  "leM (exec_ir_process_code env n code nid ev sc) (exec_ir_process_code env (Suc n) code nid ev sc)"
proof (induction n arbitrary: code nid ev sc)
  case (Suc n)
  then show ?case unfolding exec_ir_process_code.simps(2) by (rule leM_exec_stmts)
qed simp

lemma leM_exec_sites:
  "leM (exec_sites env (exec_ir_process_code env n) sites ev) (exec_sites env (exec_ir_process_code env (Suc n)) sites ev)"
  by (induction sites arbitrary: ev)
    (auto intro!: leM_rules exec_Suc_le simp: Let_def split: option.split simp del: exec_ir_process_code.simps)

lemma leM_exec_pipe_stmt:
  assumes "\<And>c e. leM (rec c e) (rec' c e)"
  shows "leM (exec_pipe_stmt env n rec s ev) (exec_pipe_stmt env (Suc n) rec' s ev)"
  using assms leM_exec_sites[of env n]
  by (cases s) (auto intro!: leM_rules eval_Suc_le simp: exec_branch_opt_def eval_expr_def split: option.split
      simp del: eval_expr_with_scope.simps exec_ir_process_code.simps)

lemma leM_exec_pipe_stmts:
  assumes "\<And>c e. leM (rec c e) (rec' c e)"
  shows "leM (exec_pipe_stmts env n rec code ev) (exec_pipe_stmts env (Suc n) rec' code ev)"
  using leM_exec_pipe_stmt[OF assms]
  by (induction code arbitrary: ev) (auto intro!: leM_rules split: sum.split)

lemma pipe_Suc_le: "leM (exec_ir_pipeline_body env n code ev) (exec_ir_pipeline_body env (Suc n) code ev)"
proof (induction n arbitrary: code ev)
  case (Suc n)
  then show ?case unfolding exec_ir_pipeline_body.simps(2) by (rule leM_exec_pipe_stmts)
qed simp

lemma run_Suc_le: "leM (run_pipeline env n) (run_pipeline env (Suc n))"
  unfolding run_pipeline_def
  by (intro leM_bind leM_refl pipe_Suc_le)

lemma run_mono: "n \<le> m \<Longrightarrow> leM (run_pipeline env n) (run_pipeline env m)"
  by (induction m rule: dec_induct) (auto intro: leM_trans[OF _ run_Suc_le])

subsection \<open>A sealed blueprint runs to completion\<close>

text \<open>Every expression of a code tree, and every assignment target.\<close>

definition target_ok :: "assign_target \<Rightarrow> bool" where
  "target_ok t \<longleftrightarrow> t \<noteq> Workspace []"

fun stmt_all :: "(expr \<Rightarrow> bool) \<Rightarrow> process_code \<Rightarrow> bool"
  and code_all :: "(expr \<Rightarrow> bool) \<Rightarrow> process_code list \<Rightarrow> bool"
  and branches_all :: "(expr \<Rightarrow> bool) \<Rightarrow> (expr \<times> process_code list) list \<Rightarrow> bool"
  and arms_all :: "(expr \<Rightarrow> bool) \<Rightarrow> (expr option \<times> process_code list) list \<Rightarrow> bool"
where
  "stmt_all P (CAssign t e) \<longleftrightarrow> target_ok t \<and> P e"
| "stmt_all P (CLet x e) \<longleftrightarrow> P e"
| "stmt_all P (CCall _ _) \<longleftrightarrow> True"
| "stmt_all P CDrop \<longleftrightarrow> True"
| "stmt_all P (CError e) \<longleftrightarrow> pred_option P e"
| "stmt_all P (CIf bs els) \<longleftrightarrow> branches_all P bs \<and> (case els of Some b \<Rightarrow> code_all P b | None \<Rightarrow> True)"
| "stmt_all P (CSwitch d arms) \<longleftrightarrow> P d \<and> arms_all P arms"
| "stmt_all P (CTry t c) \<longleftrightarrow> code_all P t \<and> code_all P c"
| "stmt_all P (CExpr e) \<longleftrightarrow> P e"
| "code_all P [] \<longleftrightarrow> True"
| "code_all P (s # ss) \<longleftrightarrow> stmt_all P s \<and> code_all P ss"
| "branches_all P [] \<longleftrightarrow> True"
| "branches_all P ((c, b) # bs) \<longleftrightarrow> P c \<and> code_all P b \<and> branches_all P bs"
| "arms_all P [] \<longleftrightarrow> True"
| "arms_all P ((p, b) # bs) \<longleftrightarrow> pred_option P p \<and> code_all P b \<and> arms_all P bs"

text \<open>How deep the nested bodies of a code tree go.\<close>

fun stmt_depth :: "process_code \<Rightarrow> nat"
  and code_depth :: "process_code list \<Rightarrow> nat"
  and branches_depth :: "(expr \<times> process_code list) list \<Rightarrow> nat"
  and arms_depth :: "(expr option \<times> process_code list) list \<Rightarrow> nat"
where
  "stmt_depth (CIf bs els) = Suc (max (branches_depth bs) (case els of Some b \<Rightarrow> code_depth b | None \<Rightarrow> 0))"
| "stmt_depth (CSwitch d arms) = Suc (arms_depth arms)"
| "stmt_depth (CTry t c) = Suc (max (code_depth t) (code_depth c))"
| "stmt_depth _ = 0"
| "code_depth [] = 0"
| "code_depth (s # ss) = max (stmt_depth s) (code_depth ss)"
| "branches_depth [] = 0"
| "branches_depth ((c, b) # bs) = max (code_depth b) (branches_depth bs)"
| "arms_depth [] = 0"
| "arms_depth ((p, b) # bs) = max (code_depth b) (arms_depth bs)"

lemma branches_mem:
  "(c, b) \<in> set bs \<Longrightarrow> branches_all P bs \<Longrightarrow> P c \<and> code_all P b \<and> code_depth b \<le> branches_depth bs"
  by (induction bs) auto

lemma arms_mem:
  "(p, b) \<in> set arms \<Longrightarrow> arms_all P arms \<Longrightarrow> pred_option P p \<and> code_all P b \<and> code_depth b \<le> arms_depth arms"
  by (induction arms) auto

lemma totalM_bind_post: "totalM m \<Longrightarrow> postM Q m \<Longrightarrow> (\<And>x. Q x \<Longrightarrow> totalM (k x)) \<Longrightarrow> totalM (bindM m k)"
  unfolding totalM_def postM_def bindM_def by (auto split: prod.splits res.splits) (metis fst_conv)+

lemma select_branch_post: "postM (\<lambda>r. \<forall>b. r = Some b \<longrightarrow> b \<in> snd ` set bs \<or> els = Some b) (select_branch f bs els)"
proof (induction f bs els rule: select_branch.induct)
  case (2 f c b bs els)
  have "postM (\<lambda>r. \<forall>b'. r = Some b' \<longrightarrow> b' \<in> snd ` set ((c, b) # bs) \<or> els = Some b') (select_branch f bs els)"
    if "\<not> is_truthy v" for v
    using "2.IH"[OF that] unfolding postM_def by fastforce
  then show ?case by (auto intro!: postM_bind_any postM_ret)
qed (simp add: postM_ret)

lemma select_arm_post: "postM (\<lambda>r. \<forall>b. r = Some b \<longrightarrow> b \<in> snd ` set arms) (select_arm f v arms)"
proof (induction f v arms rule: select_arm.induct)
  case (3 f v p b arms)
  have "postM (\<lambda>r. \<forall>b'. r = Some b' \<longrightarrow> b' \<in> snd ` set ((Some p, b) # arms)) (select_arm f v arms)"
    if "\<not> values_match v pv" for pv
    using "3.IH"[OF that] unfolding postM_def by fastforce
  then show ?case by (auto intro!: postM_bind_any postM_ret)
qed (simp_all add: postM_ret)

lemma select_branch_total: "(\<And>c b. (c, b) \<in> set bs \<Longrightarrow> totalM (f c)) \<Longrightarrow> totalM (select_branch f bs els)"
proof (induction f bs els rule: select_branch.induct)
  case (2 f c b bs els)
  have "totalM (select_branch f bs els)" if "\<not> is_truthy v" for v
    by (rule "2.IH"[OF that]) (use "2.prems" in auto)
  then show ?case using "2.prems"[of c b] by (auto intro!: totalM_rules)
qed (simp add: totalM_ret)

lemma select_arm_total: "(\<And>p b. (Some p, b) \<in> set arms \<Longrightarrow> totalM (f p)) \<Longrightarrow> totalM (select_arm f v arms)"
proof (induction f v arms rule: select_arm.induct)
  case (3 f v p b arms)
  have "totalM (select_arm f v arms)" if "\<not> values_match v pv" for pv
    by (rule "3.IH"[OF that]) (use "3.prems" in auto)
  then show ?case using "3.prems"[of p b] by (auto intro!: totalM_rules)
qed (simp_all add: totalM_ret)

lemma apply_assign_total: "target_ok t \<Longrightarrow> apply_assign rfc t v ev \<noteq> Crash"
  by (auto simp: apply_assign_def set_workspace_path_def target_ok_def split: assign_target.split list.split)

lemma merge_result_total: "merge_result v ev \<noteq> Crash"
  by (auto simp: merge_result_def split: val.split)

lemma error_message_total: "pred_option (\<lambda>x. totalM (f x)) e \<Longrightarrow> totalM (error_message env f e)"
  by (cases e) (auto simp: error_message_def intro!: totalM_rules)

text \<open>\<open>evals env n e\<close>: with \<open>n\<close> frames the expression evaluates without a crash, whatever the event.\<close>

definition evals :: "'w registry \<Rightarrow> nat \<Rightarrow> expr \<Rightarrow> bool" where
  "evals reg n e \<longleftrightarrow> (\<forall>ev sc. totalM (eval_expr_with_scope reg ev n e sc))"

lemma exec_stmt_total:
  assumes rec: "\<And>code ev sc. code_all P code \<Longrightarrow> code_depth code < d \<Longrightarrow> totalM (rec code nid ev sc)"
    and call: "\<And>nm slot ev. totalM (exec_call env rec nm slot nid ev)"
    and ev: "\<And>e. P e \<Longrightarrow> evals (xe_funcs env) n e"
    and s: "stmt_all P s" "stmt_depth s \<le> d"
  shows "totalM (exec_stmt env n rec s nid ev sc)"
proof -
  have e: "P e \<Longrightarrow> totalM (liftW (eval_expr_with_scope (xe_funcs env) ev n e sc))" for e ev sc
    using ev by (auto simp: evals_def intro: totalM_liftW)
  have body: "totalM (exec_body_opt rec b nid ev sc)"
    if "\<And>c. b = Some c \<Longrightarrow> code_all P c \<and> code_depth c < d" for b
    using that rec by (auto simp: exec_body_opt_def intro!: totalM_rules split: option.split)
  show ?thesis
  proof (cases s)
    case (CIf bs els)
    show ?thesis unfolding CIf exec_stmt.simps
    proof (rule totalM_bind_post[OF select_branch_total select_branch_post])
      show "totalM (liftW (eval_expr_with_scope (xe_funcs env) ev n c sc))" if "(c, b) \<in> set bs" for c b
        using branches_mem[OF that] s CIf by (auto intro: e)
      show "totalM (exec_body_opt rec r nid ev sc)"
        if "\<forall>b. r = Some b \<longrightarrow> b \<in> snd ` set bs \<or> els = Some b" for r
        using that s CIf by (intro body) (fastforce dest: branches_mem)
    qed
  next
    case (CSwitch d' arms)
    show ?thesis unfolding CSwitch exec_stmt.simps
    proof (rule totalM_bind)
      show "totalM (liftW (eval_expr_with_scope (xe_funcs env) ev n d' sc))" using s CSwitch by (auto intro: e)
      show "totalM (bindM (select_arm (\<lambda>c. liftW (eval_expr_with_scope (xe_funcs env) ev n c sc)) v arms)
        (\<lambda>b. exec_body_opt rec b nid ev sc))" for v
      proof (rule totalM_bind_post[OF select_arm_total select_arm_post])
        show "totalM (liftW (eval_expr_with_scope (xe_funcs env) ev n p sc))" if "(Some p, b) \<in> set arms" for p b
          using arms_mem[OF that] s CSwitch by (auto intro: e)
        show "totalM (exec_body_opt rec r nid ev sc)" if "\<forall>b. r = Some b \<longrightarrow> b \<in> snd ` set arms" for r
          using that s CSwitch by (intro body) (fastforce dest: arms_mem)
      qed
    qed
  next
    case (CTry t c)
    then show ?thesis using s rec
      by (auto simp: exec_try_def intro!: totalM_rules split: exec_result.split)
  next
    case (CError m)
    then have "pred_option (\<lambda>x. totalM (liftW (eval_expr_with_scope (xe_funcs env) ev n x sc))) m"
      using s by (cases m) (auto intro: e)
    then show ?thesis using CError by (auto intro!: totalM_rules error_message_total)
  qed (use s in \<open>auto intro!: totalM_rules e call apply_assign_total merge_result_total split: option.split\<close>)
qed

lemma exec_stmts_total:
  assumes "\<And>code ev sc. code_all P code \<Longrightarrow> code_depth code < d \<Longrightarrow> totalM (rec code nid ev sc)"
    and "\<And>nm slot ev. totalM (exec_call env rec nm slot nid ev)"
    and "\<And>e. P e \<Longrightarrow> evals (xe_funcs env) n e"
  shows "code_all P code \<Longrightarrow> code_depth code \<le> d \<Longrightarrow> totalM (exec_stmts env n rec code nid ev sc)"
proof (induction code arbitrary: ev sc)
  case (Cons s code)
  have "totalM (exec_stmt env n rec s nid ev sc)"
    using Cons.prems by (intro exec_stmt_total[where P = P and d = d] assms) auto
  with Cons show ?case by (auto intro!: totalM_rules split: prod.split exec_result.split)
qed (simp add: totalM_ret)

lemma totalM_leM: "totalM m \<Longrightarrow> leM m m' \<Longrightarrow> totalM m'"
  by (auto simp: totalM_def leM_def)

lemma evals_mono: "evals reg n e \<Longrightarrow> n \<le> m \<Longrightarrow> evals reg m e"
  unfolding evals_def using totalM_leM[OF _ eval_mono] by blast

lemma bindM_assoc: "bindM (bindM m f) g = bindM m (\<lambda>x. bindM (f x) g)"
  by (auto simp: fun_eq_iff bindM_def split: prod.splits res.splits)

lemma totalM_get_or:
  "(i < length xs \<Longrightarrow> totalM (k (xs ! i))) \<Longrightarrow> totalM (bindM (liftR (get_or xs i m)) k)"
  by (simp add: totalM_def bindM_def liftR_def get_or_def nth_opt_def)

lemma totalM_ensure: "(b \<Longrightarrow> totalM (k ())) \<Longrightarrow> totalM (bindM (liftR (ensure b m)) k)"
  by (simp add: totalM_def bindM_def liftR_def ensure_def)

lemma ir_call_total:
  assumes "\<And>b ev sc. tgt = Known b \<Longrightarrow> nid < length (bp_nodes (xe_pl env)) \<Longrightarrow>
      mn_target (bp_nodes (xe_pl env) ! nid) = Known b \<Longrightarrow> b < length (ub_bodies (xe_bp env)) \<Longrightarrow>
      totalM (rec (pb_code (ub_bodies (xe_bp env) ! b)) nid ev sc)"
  shows "totalM (ir_call env rec tgt nm nid ev kind)"
  unfolding ir_call_def
proof (intro totalM_get_or totalM_ensure, rule totalM_bind, goal_cases)
  case (2 u)
  have fin: "totalM (finish_call env nm nid kind r)" for r
    by (auto simp: finish_call_def emit_tap_def intro!: totalM_rules split: exec_result.split)
  show ?case
  proof (cases tgt)
    case (Known b)
    show ?thesis unfolding Known process_target.case bindM_assoc bindM_ret
      using assms[OF Known] 2 Known
      by (intro totalM_bind[OF totalM_modify] totalM_get_or) (auto intro!: totalM_rules fin)
  qed (auto intro!: totalM_rules fin)
qed (simp add: totalM_def)

lemma exec_call_total:
  assumes "\<And>cur e child. nid < length (bp_nodes (xe_pl env)) \<Longrightarrow>
      mn_target (bp_nodes (xe_pl env) ! nid) = Known cur \<Longrightarrow> cur < length (ub_bodies (xe_bp env)) \<Longrightarrow>
      e \<in> set (pb_edges (ub_bodies (xe_bp env) ! cur)) \<Longrightarrow>
      totalM (ir_call env rec (edge_target e) (edge_name e) child ev KNamed)"
  shows "totalM (exec_call env rec nm slot nid ev)"
  unfolding exec_call_def
proof (rule totalM_get_or, goal_cases)
  case 1
  show ?case
  proof (cases "mn_target (bp_nodes (xe_pl env) ! nid)")
    case (Known cur)
    show ?thesis
      using assms[OF 1 Known] by (auto simp: Known intro!: totalM_get_or totalM_ensure totalM_rules)
  qed (simp add: totalM_fail)
qed

text \<open>
  Enough frames: the nesting of the code, a level of the deepest body for every process that can
  still be called, and what evaluation needs.
\<close>

lemma exec_total:
  assumes "edges_in_range (xe_bp env)" "acyclic (call_graph (xe_bp env))"
    and bodies: "\<And>b. b \<in> set (ub_bodies (xe_bp env)) \<Longrightarrow>
      code_all (evals (xe_funcs env) E) (pb_code b) \<and> code_depth (pb_code b) \<le> D"
  shows "code_all (evals (xe_funcs env) E) code \<Longrightarrow>
    (\<And>b. nid < length (bp_nodes (xe_pl env)) \<Longrightarrow> mn_target (bp_nodes (xe_pl env) ! nid) = Known b \<Longrightarrow>
      call_rank (xe_bp env) b \<le> r) \<Longrightarrow>
    code_depth code + r * Suc D + E < n \<Longrightarrow> totalM (exec_ir_process_code env n code nid ev sc)"
proof (induction n arbitrary: code nid r ev sc)
  case (Suc n)
  have call: "totalM (exec_call env (exec_ir_process_code env n) nm slot nid ev)" for nm slot ev
  proof (intro exec_call_total ir_call_total)
    fix cur e child b ev' and sc' :: scope
    assume cur: "nid < length (bp_nodes (xe_pl env))" "mn_target (bp_nodes (xe_pl env) ! nid) = Known cur"
      "cur < length (ub_bodies (xe_bp env))" "e \<in> set (pb_edges (ub_bodies (xe_bp env) ! cur))"
      and b: "edge_target e = Known b" "child < length (bp_nodes (xe_pl env))"
      "mn_target (bp_nodes (xe_pl env) ! child) = Known b" "b < length (ub_bodies (xe_bp env))"
    have "b \<in> body_calls (xe_bp env) cur" using b(1) cur by (auto simp: body_calls_def)
    then have "call_rank (xe_bp env) b < r"
      using call_rank_less[OF assms(1,2)] Suc.prems(2)[OF cur(1,2)] by fastforce
    then have "Suc (call_rank (xe_bp env) b) * Suc D \<le> r * Suc D" by (intro mult_le_mono1) simp
    moreover have "code_depth (pb_code (ub_bodies (xe_bp env) ! b)) \<le> D"
      "code_all (evals (xe_funcs env) E) (pb_code (ub_bodies (xe_bp env) ! b))"
      using bodies[of "ub_bodies (xe_bp env) ! b"] b(4) by auto
    ultimately show "totalM (exec_ir_process_code env n (pb_code (ub_bodies (xe_bp env) ! b)) child ev' sc')"
      using Suc.prems(3) b by (intro Suc.IH[where r = "call_rank (xe_bp env) b"]) auto
  qed
  have "totalM (exec_ir_process_code env n c nid ev sc)"
    if "code_all (evals (xe_funcs env) E) c" "code_depth c < code_depth code" for c ev sc
    using that Suc.prems by (intro Suc.IH[where r = r]) auto
  moreover have "evals (xe_funcs env) E e \<Longrightarrow> evals (xe_funcs env) n e" for e
    using evals_mono[of "xe_funcs env" E e n] Suc.prems(3) by simp
  ultimately show ?case
    using Suc.prems(1) call by (auto intro!: exec_stmts_total[where P = "evals (xe_funcs env) E" and d = "code_depth code"])
qed simp

text \<open>The same measures for pipeline code.\<close>

fun pstmt_all :: "(expr \<Rightarrow> bool) \<Rightarrow> pipeline_code \<Rightarrow> bool"
  and pcode_all :: "(expr \<Rightarrow> bool) \<Rightarrow> pipeline_code list \<Rightarrow> bool"
  and pbranches_all :: "(expr \<Rightarrow> bool) \<Rightarrow> (expr \<times> pipeline_code list) list \<Rightarrow> bool"
  and parms_all :: "(expr \<Rightarrow> bool) \<Rightarrow> (expr option \<times> pipeline_code list) list \<Rightarrow> bool"
where
  "pstmt_all P (LError e) \<longleftrightarrow> pred_option P e"
| "pstmt_all P (LIf bs els) \<longleftrightarrow> pbranches_all P bs \<and> (case els of Some b \<Rightarrow> pcode_all P b | None \<Rightarrow> True)"
| "pstmt_all P (LSwitch d arms) \<longleftrightarrow> P d \<and> parms_all P arms"
| "pstmt_all P _ \<longleftrightarrow> True"
| "pcode_all P [] \<longleftrightarrow> True"
| "pcode_all P (s # ss) \<longleftrightarrow> pstmt_all P s \<and> pcode_all P ss"
| "pbranches_all P [] \<longleftrightarrow> True"
| "pbranches_all P ((c, b) # bs) \<longleftrightarrow> P c \<and> pcode_all P b \<and> pbranches_all P bs"
| "parms_all P [] \<longleftrightarrow> True"
| "parms_all P ((p, b) # bs) \<longleftrightarrow> pred_option P p \<and> pcode_all P b \<and> parms_all P bs"

fun pstmt_depth :: "pipeline_code \<Rightarrow> nat"
  and pcode_depth :: "pipeline_code list \<Rightarrow> nat"
  and pbranches_depth :: "(expr \<times> pipeline_code list) list \<Rightarrow> nat"
  and parms_depth :: "(expr option \<times> pipeline_code list) list \<Rightarrow> nat"
where
  "pstmt_depth (LIf bs els) = Suc (max (pbranches_depth bs) (case els of Some b \<Rightarrow> pcode_depth b | None \<Rightarrow> 0))"
| "pstmt_depth (LSwitch d arms) = Suc (parms_depth arms)"
| "pstmt_depth _ = 0"
| "pcode_depth [] = 0"
| "pcode_depth (s # ss) = max (pstmt_depth s) (pcode_depth ss)"
| "pbranches_depth [] = 0"
| "pbranches_depth ((c, b) # bs) = max (pcode_depth b) (pbranches_depth bs)"
| "parms_depth [] = 0"
| "parms_depth ((p, b) # bs) = max (pcode_depth b) (parms_depth bs)"

lemma pbranches_mem:
  "(c, b) \<in> set bs \<Longrightarrow> pbranches_all P bs \<Longrightarrow> P c \<and> pcode_all P b \<and> pcode_depth b \<le> pbranches_depth bs"
  by (induction bs) auto

lemma parms_mem:
  "(p, b) \<in> set arms \<Longrightarrow> parms_all P arms \<Longrightarrow> pred_option P p \<and> pcode_all P b \<and> pcode_depth b \<le> parms_depth arms"
  by (induction arms) auto

lemma clock_total [totalM_rules]: "totalM (clock env)"
  unfolding clock_def by (rule totalM_liftW) (simp add: totalM_def split: prod.split)

lemma push_total [totalM_rules]: "totalM (push_trace a b c)" "totalM (push_errored e)"
  by (simp_all add: push_trace_def push_errored_def totalM_modify)

lemma process_failure_total [totalM_rules]: "totalM (process_failure env site reason)"
  unfolding process_failure_def by (auto intro!: totalM_rules)

lemma exec_output_total [totalM_rules]: "totalM (exec_output env nm slot ev)"
proof -
  have "totalM (\<lambda>x. if slot < length (x_timers x) then (Ok (), g x) else (Err m, x))" for g m
    by (simp add: totalM_def)
  then show ?thesis unfolding exec_output_def Let_def by (auto intro!: totalM_rules)
qed

lemma exec_sites_total:
  assumes "\<And>b nm nid ev kind. totalM (ir_call env prec (Known b) nm nid ev kind)"
  shows "totalM (exec_sites env prec sites ev)"
  using assms by (induction sites arbitrary: ev) (auto intro!: totalM_rules simp: Let_def split: option.split)

lemma exec_pipe_stmt_total:
  assumes rec: "\<And>code ev. pcode_all P code \<Longrightarrow> pcode_depth code < d \<Longrightarrow> totalM (rec code ev)"
    and sites: "\<And>sites ev. totalM (exec_sites env (exec_ir_process_code env n) sites ev)"
    and ev: "\<And>e. P e \<Longrightarrow> evals (xe_funcs env) n e"
    and s: "pstmt_all P s" "pstmt_depth s \<le> d"
  shows "totalM (exec_pipe_stmt env n rec s ev)"
proof -
  have e: "P e \<Longrightarrow> totalM (liftW (eval_expr (xe_funcs env) ev n e))" for e ev
    using ev by (auto simp: evals_def eval_expr_def intro: totalM_liftW)
  have body: "totalM (exec_branch_opt rec b ev)"
    if "\<And>c. b = Some c \<Longrightarrow> pcode_all P c \<and> pcode_depth c < d" for b
    using that rec by (auto simp: exec_branch_opt_def intro!: totalM_rules split: option.split)
  show ?thesis
  proof (cases s)
    case (LIf bs els)
    show ?thesis unfolding LIf exec_pipe_stmt.simps
    proof (rule totalM_bind_post[OF select_branch_total select_branch_post])
      show "totalM (liftW (eval_expr (xe_funcs env) ev n c))" if "(c, b) \<in> set bs" for c b
        using pbranches_mem[OF that] s LIf by (auto intro: e)
      show "totalM (exec_branch_opt rec r ev)"
        if "\<forall>b. r = Some b \<longrightarrow> b \<in> snd ` set bs \<or> els = Some b" for r
        using that s LIf by (intro body) (fastforce dest: pbranches_mem)
    qed
  next
    case (LSwitch d' arms)
    show ?thesis unfolding LSwitch exec_pipe_stmt.simps
    proof (rule totalM_bind)
      show "totalM (liftW (eval_expr (xe_funcs env) ev n d'))" using s LSwitch by (auto intro: e)
      show "totalM (bindM (select_arm (\<lambda>c. liftW (eval_expr (xe_funcs env) ev n c)) v arms)
        (\<lambda>b. exec_branch_opt rec b ev))" for v
      proof (rule totalM_bind_post[OF select_arm_total select_arm_post])
        show "totalM (liftW (eval_expr (xe_funcs env) ev n p))" if "(Some p, b) \<in> set arms" for p b
          using parms_mem[OF that] s LSwitch by (auto intro: e)
        show "totalM (exec_branch_opt rec r ev)" if "\<forall>b. r = Some b \<longrightarrow> b \<in> snd ` set arms" for r
          using that s LSwitch by (intro body) (fastforce dest: parms_mem)
      qed
    qed
  next
    case (LError m)
    then have "pred_option (\<lambda>x. totalM (liftW (eval_expr (xe_funcs env) ev n x))) m"
      using s by (cases m) (auto intro: e)
    then show ?thesis using LError by (auto intro!: totalM_rules error_message_total)
  qed (use sites in \<open>auto intro!: totalM_rules\<close>)
qed

text \<open>The frames a blueprint needs beyond the nesting of the pipeline's own code.\<close>

definition call_frames :: "blueprint \<Rightarrow> nat \<Rightarrow> nat \<Rightarrow> nat" where
  "call_frames bp D E = D + length (ub_bodies bp) * Suc D + E"

definition bodies_fit :: "'w registry \<Rightarrow> blueprint \<Rightarrow> nat \<Rightarrow> nat \<Rightarrow> bool" where
  "bodies_fit reg bp D E \<longleftrightarrow> (\<forall>b \<in> set (ub_bodies bp). code_all (evals reg E) (pb_code b) \<and> code_depth (pb_code b) \<le> D)"

lemma call_fits:
  assumes "edges_in_range (xe_bp env)" "acyclic (call_graph (xe_bp env))" "bodies_fit (xe_funcs env) (xe_bp env) D E"
    and "call_frames (xe_bp env) D E < n"
  shows "totalM (ir_call env (exec_ir_process_code env n) tgt nm nid ev kind)"
proof (rule ir_call_total)
  fix b ev' and sc :: scope assume b: "b < length (ub_bodies (xe_bp env))"
  then have "code_depth (pb_code (ub_bodies (xe_bp env) ! b)) \<le> D"
    "code_all (evals (xe_funcs env) E) (pb_code (ub_bodies (xe_bp env) ! b))"
    using assms(3) by (auto simp: bodies_fit_def)
  then show "totalM (exec_ir_process_code env n (pb_code (ub_bodies (xe_bp env) ! b)) nid ev' sc)"
    using assms call_rank_le[OF assms(1)]
    by (intro exec_total[where D = D and E = E and r = "length (ub_bodies (xe_bp env))"])
      (auto simp: bodies_fit_def call_frames_def)
qed

lemma pipe_total:
  assumes "edges_in_range (xe_bp env)" "acyclic (call_graph (xe_bp env))" "bodies_fit (xe_funcs env) (xe_bp env) D E"
  shows "pcode_all (evals (xe_funcs env) E) code \<Longrightarrow> Suc (pcode_depth code + call_frames (xe_bp env) D E) < n \<Longrightarrow>
    totalM (exec_ir_pipeline_body env n code ev)"
proof (induction n arbitrary: code ev)
  case (Suc n)
  have sites: "totalM (exec_sites env (exec_ir_process_code env n) sites ev)" for sites ev
    using Suc.prems(2) by (intro exec_sites_total call_fits[OF assms]) simp
  have rec: "totalM (exec_ir_pipeline_body env n c ev)"
    if "pcode_all (evals (xe_funcs env) E) c" "pcode_depth c < pcode_depth code" for c ev
    using that Suc.prems by (intro Suc.IH) auto
  have ev: "evals (xe_funcs env) E e \<Longrightarrow> evals (xe_funcs env) n e" for e
    using evals_mono[of "xe_funcs env" E e n] Suc.prems(2) by (simp add: call_frames_def)
  have "totalM (exec_pipe_stmts env n (exec_ir_pipeline_body env n) c ev)"
    if "pcode_all (evals (xe_funcs env) E) c" "pcode_depth c \<le> pcode_depth code" for c ev
    using that
  proof (induction c arbitrary: ev)
    case (Cons s c)
    have "totalM (exec_pipe_stmt env n (exec_ir_pipeline_body env n) s ev)"
      using Cons.prems by (intro exec_pipe_stmt_total[where P = "evals (xe_funcs env) E" and d = "pcode_depth code"]
          rec sites ev) auto
    with Cons show ?case by (auto intro!: totalM_rules split: sum.split)
  qed (simp add: totalM_ret)
  then show ?case using Suc.prems(1) by simp
qed simp

lemma run_total:
  assumes "edges_in_range (xe_bp env)" "acyclic (call_graph (xe_bp env))" "bodies_fit (xe_funcs env) (xe_bp env) D E"
    and "pcode_all (evals (xe_funcs env) E) (bp_code (xe_pl env))"
    and "Suc (pcode_depth (bp_code (xe_pl env)) + call_frames (xe_bp env) D E) < n"
  shows "totalM (run_pipeline env n)"
proof -
  have "totalM (\<lambda>x. (Ok (g x), x))" for g :: "'a xstate \<Rightarrow> run_result" by (simp add: totalM_def)
  with pipe_total[OF assms] show ?thesis unfolding run_pipeline_def by (auto intro!: totalM_rules split: prod.split)
qed

subsection \<open>Reading back an assignment\<close>

lemma map_of_rewrite:
  "map_of (map (\<lambda>(k, old). if k = p then (k, f old) else (k, old)) es) q
     = (if q = p then map_option f (map_of es p) else map_of es q)"
  by (induction es) auto

lemma set_object_path_read: "resolve_workspace_path ps (set_object_path cur ps v) = Ok v"
proof (induction ps arbitrary: cur)
  case (Cons p ps)
  have "map_of (object_entries cur) p \<noteq> None" if "p \<in> fst ` set (object_entries cur)"
    using that by (simp add: map_of_eq_None_iff)
  with Cons show ?case
    by (auto simp: Let_def or_null_def map_of_rewrite map_add_def map_of_eq_None_iff split: option.split)
qed simp

lemma set_object_path_sibling:
  assumes "q \<noteq> p"
  shows "resolve_workspace_path (q # qs) (set_object_path (Some (VObject es)) (p # ps) v) = resolve_workspace_path (q # qs) (VObject es)"
  using assms by (auto simp: Let_def object_entries_def map_of_rewrite map_add_def split: option.split)

lemma assign_read:
  assumes "apply_assign rfc (Workspace path) v ev = Ok ev'"
  shows "resolve_event (''workspace'' # path) ev' = Ok v"
    and "k \<noteq> hd path \<Longrightarrow> workspace_get ev' k = workspace_get ev k"
proof -
  show "k \<noteq> hd path \<Longrightarrow> workspace_get ev' k = workspace_get ev k"
    using assms by (auto simp: apply_assign_def set_workspace_path_def ws.lookup_other split: list.splits)
  show "resolve_event (''workspace'' # path) ev' = Ok v"
  proof (cases path)
    case (Cons p ps)
    then have "ev' = workspace_set p (if ps = [] then v else set_object_path (workspace_get ev p) ps v) ev"
      using assms by (auto simp: apply_assign_def set_workspace_path_def split: list.splits)
    then show ?thesis
      using Cons by (auto simp: resolve_event_def resolve_workspace_direct_def or_null_def ws.lookup_same
          set_object_path_read Let_def)
  qed (use assms in \<open>simp add: apply_assign_def set_workspace_path_def\<close>)
qed

end
