(* ===== verification/Examples.thy ===== *)
theory Examples
  imports Exec_Facts
begin

section \<open>A small configuration\<close>

text \<open>
  Concrete inputs for the witnesses: a registry with one user-defined function, an event, and the
  configuration

    process tag { workspace.seen = 1 }
    process main { process tag; try { error "boom" } catch { workspace.why = error } }
    pipeline p { input in; process main; output out }
\<close>

definition ex_double :: function_def where
  "ex_double = \<lparr>fd_name = ''double'', fd_params = [''x''],
     fd_body = FuncBody [] (BinOp (Ident [''x'']) OpAdd (Ident [''x'']))\<rparr>"

definition ex_registry :: "unit registry" where
  "ex_registry = \<lparr>reg_functions = [], reg_signatures = [], user_definitions = [(''double'', ex_double)],
     to_rfc3339 = (\<lambda>_. [])\<rparr>"

definition ex_event :: owned_event where
  "ex_event = event_new 7 1000 ''hello'' (V4 10 0 0 1, 514)"

definition ex_config :: config where
  "ex_config = \<lparr>cfg_processes =
       [(''tag'', \<lparr>pd_name = ''tag'', pd_body = [Assign (Workspace [''seen'']) (IntLit 1)]\<rparr>),
        (''main'', \<lparr>pd_name = ''main'', pd_body = [ProcessCall ''tag'',
           TryCatch [PError (Some (StringLit ''boom''))] [Assign (Workspace [''why'']) (Ident [''error''])]]\<rparr>)],
     cfg_pipelines = [(''p'', \<lparr>pl_name = ''p'',
       pl_body = [SInput [''in''], SProcessChain [Named ''main''], SOutput ''out'']\<rparr>)],
     cfg_functions = []\<rparr>"

definition ex_pipeline :: pipeline_blueprint where
  "ex_pipeline = \<lparr>bp_name = ''p'',
     bp_code = [LInput [''in''],
       LProcessChain [\<lparr>site_name = ''main'', site_kind = KNamed, site_body = 0, site_node = 0\<rparr>], LOutput ''out'' 0],
     bp_flow = \<lparr>flow_inputs = [''in''], flow_processes = [''main''], flow_outputs = [''out'']\<rparr>,
     bp_subscription = [''in''],
     bp_nodes = [\<lparr>mn_parent = None, mn_step = 1, mn_path = ''/main'', mn_name = ''main'', mn_target = Known 0, mn_children = [1]\<rparr>,
                 \<lparr>mn_parent = Some 0, mn_step = 2, mn_path = ''/main/tag'', mn_name = ''tag'', mn_target = Known 1, mn_children = []\<rparr>],
     bp_timers = [''out'']\<rparr>"

definition ex_blueprint :: blueprint where
  "ex_blueprint = \<lparr>ub_functions = [],
     ub_bodies = [\<lparr>pb_name = ''main'', pb_code = [CCall ''tag'' 0,
          CTry [CError (Some (StringLit ''boom''))] [CAssign (Workspace [''why'']) (Ident [''error''])]],
          pb_edges = [\<lparr>edge_name = ''tag'', edge_target = Known 1\<rparr>]\<rparr>,
        \<lparr>pb_name = ''tag'', pb_code = [CAssign (Workspace [''seen'']) (IntLit 1)], pb_edges = []\<rparr>],
     ub_names = [(''main'', 0), (''tag'', 1)], ub_pipelines = [(''p'', ex_pipeline)], ub_ids = [(''p'', 0)],
     ub_order = [''p'']\<rparr>"

lemma ex_compile: "blueprint_compile ex_config = Ok ex_blueprint"
  by (simp add: blueprint_compile_def ex_config_def ex_blueprint_def ex_pipeline_def compiler_new_def
      compile_named_processes_def compile_process_body_def compile_pipeline_def edge_slot_def output_slot_def
      attach_site_def push_node_def set_children_def collect_pipeline_flow_def push_new_def call_target_def
      from_index_def u32_limit_def bindR_def monad_simps get_or_def nth_opt_def unset_node_def)

lemma ex_seal: "seal ex_blueprint = Ok ex_blueprint"
  by (simp add: seal_def ex_blueprint_def ex_pipeline_def validate_process_identity_and_edges_def validate_edges_def
      validate_pipeline_def validate_node_def validate_child_def validate_site_def validate_process_cycles_def
      visit_all_def from_index_def u32_limit_def bindR_def monad_simps get_or_def nth_opt_def ensure_def
      enumerate_eq_zip)

definition ex_env :: "unit xenv" where
  "ex_env = \<lparr>xe_bp = ex_blueprint, xe_pl = ex_pipeline, xe_funcs = ex_registry, xe_tap = None,
     xe_now = (\<lambda>w. (42, w)), xe_policy = CaptureAll, xe_original = ex_event, xe_dispatch = 40\<rparr>"

definition pc_zero :: process_counters where
  "pc_zero = \<lparr>pc_in = 0, pc_out = 0, pc_dropped = 0, pc_errored = 0\<rparr>"

definition ex_state :: "unit xstate" where
  "ex_state = \<lparr>x_world = (), x_counters = [pc_zero, pc_zero], x_taps = [], x_timers = [[]], x_trace = None,
     x_outputs = [], x_errored = []\<rparr>"

lemmas ex_defs = ex_env_def ex_state_def ex_blueprint_def ex_pipeline_def ex_registry_def ex_event_def
  event_new_def pc_zero_def

lemmas exec_defs = run_pipeline_def push_trace_def modify_def ir_call_def exec_call_def exec_try_def
  finish_call_def emit_tap_def attempt_def bump_counter_def exec_output_def error_message_def clock_def liftW_def
  process_failure_def push_errored_def monad_simps get_or_def nth_opt_def ensure_def apply_assign_def
  set_workspace_path_def event_view_in_def event_to_owned_def snapshot_in_def workspace_set_def workspace_get_def
  pc_start_def pc_continued_def pc_drop_def pc_error_def exec_body_opt_def exec_branch_opt_def
  workspace_remove_def resolve_ident_def resolve_event_def or_null_def imap_of_def imap_insert_def

lemma frames_numeral [simp]:
  "eval_expr_with_scope reg ev (numeral k) = eval_frame reg ev (eval_expr_with_scope reg ev (pred_numeral k))"
  "exec_ir_process_code env (numeral k) = exec_stmts env (pred_numeral k) (exec_ir_process_code env (pred_numeral k))"
  "exec_ir_pipeline_body env (numeral k) = exec_pipe_stmts env (pred_numeral k) (exec_ir_pipeline_body env (pred_numeral k))"
  by (simp_all add: numeral_eq_Suc)

lemma ex_run:
  "run_pipeline ex_env 9 ex_state =
     (Ok \<lparr>rr_outputs = [(''out'', \<lparr>qe_event = ex_event\<lparr>oe_workspace := [(''seen'', OInt 1), (''why'', OString ''boom'')]\<rparr>,
                                 qe_emitted_ns = 42\<rparr>)],
          rr_had_outputs = True, rr_termination = Finished, rr_errored = []\<rparr>,
      ex_state\<lparr>x_counters := [pc_zero\<lparr>pc_in := 1, pc_out := 1\<rparr>, pc_zero\<lparr>pc_in := 1, pc_out := 1\<rparr>],
               x_timers := [[(40, 42)]],
               x_outputs := [(''out'', \<lparr>qe_event = ex_event\<lparr>oe_workspace := [(''seen'', OInt 1), (''why'', OString ''boom'')]\<rparr>,
                                 qe_emitted_ns = 42\<rparr>)]\<rparr>)"
  by (simp add: ex_defs exec_defs)

end
