(* ===== verification/Consumer.thy ===== *)
theory Consumer
  imports Queue
begin

section \<open>The queue consumer\<close>

text \<open>
  \<open>run_queue_consumer\<close>: read batches from the queue, hand every event with its handle to the output,
  and advance the queue as the handles come back. Each arm of the consumer's \<open>select!\<close> is a
  function; the output is not modelled: it holds handles and may resolve any of them at any time, in
  any order, which is a step of its own.
\<close>

definition recv_batch_max :: nat where "recv_batch_max = 64"

definition ack_recv_batch_max :: nat where "ack_recv_batch_max = 64"

datatype phase = Running | Draining | Stopped

record consumer =
  cn_queue :: queue
  cn_spin :: spin_controller
  cn_in_flight :: nat
  cn_accepting :: bool
  cn_wedged :: bool
  cn_metrics :: output_metrics
  cn_acks :: "ack_resolution list"
  cn_held :: "(queued_event \<times> queue_handle) list"
  cn_phase :: phase
  cn_progress :: progress

text \<open>File-system outcomes of an acknowledgement, by position.\<close>

type_synonym ack_io = "nat \<Rightarrow> nat \<Rightarrow> (nat \<Rightarrow> bool) \<times> bool"

definition set_depth :: "consumer \<Rightarrow> consumer" where
  "set_depth c = c\<lparr>cn_metrics := (cn_metrics c)\<lparr>om_queue_depth := of_nat (queue_depth (cn_queue c))\<rparr>\<rparr>"

definition consumer_new :: "queue \<Rightarrow> output_metrics \<Rightarrow> progress \<Rightarrow> consumer" where
  "consumer_new q m p = set_depth \<lparr>cn_queue = q, cn_spin = spin_new, cn_in_flight = 0, cn_accepting = True,
     cn_wedged = False, cn_metrics = m, cn_acks = [], cn_held = [], cn_phase = Running, cn_progress = p\<rparr>"

definition merge_delivery_metrics :: "ack_resolution list \<Rightarrow> output_metrics \<Rightarrow> output_metrics" where
  "merge_delivery_metrics rs = merge_delivery_delta (record_all (List.map_filter delivery_elapsed rs) delta_empty)"

definition handle_ack_disposition :: "ack_disposition \<Rightarrow> output_metrics \<Rightarrow> output_metrics" where
  "handle_ack_disposition d m = (case d of DDropped \<Rightarrow> m\<lparr>om_failed := om_failed m + 1\<rparr> | _ \<Rightarrow> m)"

definition dropped_on_disk :: "ack_resolution \<Rightarrow> bool" where
  "dropped_on_disk r \<longleftrightarrow> res_disposition r = DDropped \<and> res_position r \<noteq> QMemory"

definition record_wedge_transition_if_first :: "ack_resolution \<Rightarrow> bool \<Rightarrow> output_metrics \<Rightarrow> bool \<times> output_metrics" where
  "record_wedge_transition_if_first r wedged m =
     (if dropped_on_disk r \<and> \<not> wedged then (True, m\<lparr>om_wedged := om_wedged m + 1\<rparr>) else (wedged, m))"

text \<open>What both ack loops do with a resolution; \<open>hold\<close> is whether the position is left unacknowledged.\<close>

definition settle :: "ack_io \<Rightarrow> bool \<Rightarrow> ack_resolution \<Rightarrow> consumer \<Rightarrow> consumer" where
  "settle io hold r c =
     (let c = (if hold then c else set_depth (c\<lparr>cn_queue := queue_ack_to io (res_position r) (cn_queue c)\<rparr>));
          c = c\<lparr>cn_in_flight := cn_in_flight c - 1\<rparr>
      in if res_disposition r = DDropped then c else c\<lparr>cn_progress := progress_mark (cn_progress c)\<rparr>)"

text \<open>One resolution in the steady state.\<close>

definition steady_ack :: "ack_io \<Rightarrow> ack_resolution \<Rightarrow> consumer \<Rightarrow> consumer" where
  "steady_ack io r c =
     (case record_wedge_transition_if_first r (cn_wedged c) (handle_ack_disposition (res_disposition r) (cn_metrics c)) of
        (wedged, m) \<Rightarrow>
          let first = (\<not> cn_wedged c \<and> wedged);
              c = c\<lparr>cn_metrics := m, cn_wedged := wedged, cn_accepting := (if first then False else cn_accepting c)\<rparr>
          in settle io first r c)"

text \<open>A burst; the loop ends early when nothing is accepted any more and the last handle came back.\<close>

fun steady_acks :: "ack_io \<Rightarrow> ack_resolution list \<Rightarrow> consumer \<Rightarrow> consumer" where
  "steady_acks io [] c = c"
| "steady_acks io (r # rs) c =
     (let c = steady_ack io r c in
      if \<not> cn_accepting c \<and> cn_in_flight c = 0 then c\<lparr>cn_phase := Draining\<rparr> else steady_acks io rs c)"

definition ack_arm :: "ack_io \<Rightarrow> consumer \<Rightarrow> consumer" where
  "ack_arm io c =
     (let batch = take ack_recv_batch_max (cn_acks c) in
      steady_acks io batch (c\<lparr>cn_acks := drop ack_recv_batch_max (cn_acks c),
        cn_metrics := merge_delivery_metrics batch (cn_metrics c)\<rparr>))"

text \<open>Handing events to the output.\<close>

fun hand_over :: "received list \<Rightarrow> consumer \<Rightarrow> consumer" where
  "hand_over [] c = c"
| "hand_over ((ev, pos) # rest) c = hand_over rest
     (c\<lparr>cn_held := cn_held c @ [(ev, handle_new pos (qe_emitted_ns ev))], cn_in_flight := cn_in_flight c + 1\<rparr>)"

definition recv_arm :: "received list \<Rightarrow> queue \<Rightarrow> spin_controller \<Rightarrow> consumer \<Rightarrow> consumer" where
  "recv_arm batch q sp c =
     (let c = set_depth (c\<lparr>cn_queue := q, cn_spin := sp\<rparr>) in
      if batch = [] then
        let c = c\<lparr>cn_accepting := False\<rparr> in if cn_in_flight c = 0 then c\<lparr>cn_phase := Draining\<rparr> else c
      else hand_over batch c)"

text \<open>The terminal shutdown arm: memory queues are closed and emptied, disk queues left as they are.\<close>

definition shutdown_arm :: "consumer \<Rightarrow> consumer" where
  "shutdown_arm c =
     (if cn_wedged c then c\<lparr>cn_phase := Draining\<rparr>
      else case cn_queue c of
        MemQ m \<Rightarrow> (hand_over (map (\<lambda>e. (e, QMemory)) (mq_items m))
            (set_depth (c\<lparr>cn_queue := MemQ (m\<lparr>mq_items := [], mq_closed := True\<rparr>)\<rparr>)))\<lparr>cn_phase := Draining\<rparr>
      | DiskQ _ \<Rightarrow> c\<lparr>cn_phase := Draining\<rparr>)"

text \<open>The loop after the writer's shutdown: a drop on a disk queue never acknowledges.\<close>

definition drain_ack :: "ack_io \<Rightarrow> ack_resolution \<Rightarrow> consumer \<Rightarrow> consumer" where
  "drain_ack io r c =
     (case record_wedge_transition_if_first r (cn_wedged c) (handle_ack_disposition (res_disposition r) (cn_metrics c)) of
        (wedged, m) \<Rightarrow> settle io (dropped_on_disk r) r (c\<lparr>cn_metrics := m, cn_wedged := wedged\<rparr>))"

definition drain_acks :: "ack_io \<Rightarrow> ack_resolution list \<Rightarrow> consumer \<Rightarrow> consumer" where
  "drain_acks io rs c = fold (drain_ack io) rs c"

definition drain_arm :: "ack_io \<Rightarrow> consumer \<Rightarrow> consumer" where
  "drain_arm io c =
     (let batch = take ack_recv_batch_max (cn_acks c) in
      drain_acks io batch (c\<lparr>cn_acks := drop ack_recv_batch_max (cn_acks c),
        cn_metrics := merge_delivery_metrics batch (cn_metrics c)\<rparr>))"

definition stop_arm :: "consumer \<Rightarrow> consumer" where
  "stop_arm c = c\<lparr>cn_metrics := (cn_metrics c)\<lparr>om_queue_depth := 0\<rparr>, cn_phase := Stopped\<rparr>"

text \<open>The output finishes with the \<open>i\<close>-th handle it holds.\<close>

definition resolve_step :: "nat \<Rightarrow> handle_use \<Rightarrow> consumer \<Rightarrow> consumer" where
  "resolve_step i u c =
     (case cn_held c ! i of (ev, h) \<Rightarrow>
        c\<lparr>cn_held := take i (cn_held c) @ drop (Suc i) (cn_held c), cn_acks := cn_acks c @ handle_finish u h,
          cn_progress := (case u of UseDelivered _ \<Rightarrow> progress_mark (cn_progress c)
                                  | UseRecovered \<Rightarrow> progress_mark (cn_progress c) | _ \<Rightarrow> cn_progress c)\<rparr>)"

text \<open>
  One step of the consumer, the output or a sender. A batch is at most \<open>recv_batch_max\<close> events read
  off the queue; an empty batch stands for a queue that is closed and empty.
\<close>

inductive cstep :: "(bytes \<Rightarrow> queued_event option) \<Rightarrow> consumer \<Rightarrow> consumer \<Rightarrow> bool" for dec where
  send: "backend_send ser io ev (cn_queue c) = (r, q) \<Longrightarrow> (\<forall>data. ser ev = Some data \<longrightarrow> newline \<notin> set data) \<Longrightarrow>
    cstep dec c (c\<lparr>cn_queue := q\<rparr>)"
| recv: "cn_phase c = Running \<Longrightarrow> cn_accepting c \<Longrightarrow> drain_queue dec n (cn_queue c) = (batch, q) \<Longrightarrow> n \<le> recv_batch_max \<Longrightarrow>
    cstep dec c (recv_arm batch q sp c)"
| ack: "cn_phase c = Running \<Longrightarrow> cn_acks c \<noteq> [] \<Longrightarrow>
    (\<forall>s off. snd (io s off) \<longrightarrow> (\<forall>d. cn_queue c = DiskQ d \<longrightarrow> fits_u64 (wd_segments (q_dir d)))) \<Longrightarrow> cstep dec c (ack_arm io c)"
| shutdown: "cn_phase c = Running \<Longrightarrow> cn_accepting c \<or> cn_wedged c \<Longrightarrow> cstep dec c (shutdown_arm c)"
| resolve: "cn_phase c \<noteq> Stopped \<Longrightarrow> i < length (cn_held c) \<Longrightarrow> cstep dec c (resolve_step i u c)"
| drain: "cn_phase c = Draining \<Longrightarrow> cn_acks c \<noteq> [] \<Longrightarrow>
    (\<forall>s off. snd (io s off) \<longrightarrow> (\<forall>d. cn_queue c = DiskQ d \<longrightarrow> fits_u64 (wd_segments (q_dir d)))) \<Longrightarrow> cstep dec c (drain_arm io c)"
| stop: "cn_phase c = Draining \<Longrightarrow> cn_acks c = [] \<Longrightarrow> cn_held c = [] \<Longrightarrow> cstep dec c (stop_arm c)"

inductive_cases cstepE: "cstep dec c c'"

end
