(* ===== verification/Consumer_Facts.thy ===== *)
theory Consumer_Facts
  imports Consumer
begin

section \<open>Facts about the queue consumer\<close>

text \<open>
  Each handle is answered for: the number of events in flight is the number of handles the output
  holds plus the number of resolutions on their way, and on a disk queue their positions are distinct
  entries of the receiver that are not acknowledged. From there: a position the consumer holds back
  stays unconfirmed, with its record, until the queue is opened again.
\<close>

subsection \<open>Records in flight\<close>

definition flight :: "(bytes \<Rightarrow> 'e option) \<Rightarrow> disk_queue \<Rightarrow> ((pos \<times> bool) \<times> 'e) list" where
  "flight dec d = zip (map (\<lambda>f. (start_pos f, if_acked f)) (rx_in_flight (q_rx d))) (unconfirmed dec d)"

lemma send_rx: "dq_send fault stuck data q = (ok, q') \<Longrightarrow> q_rx q' = q_rx q"
  by (auto simp: dq_send_def split: prod.splits)

lemma zip_longer: "length xs \<le> length ys \<Longrightarrow> zip xs (ys @ zs) = zip xs ys"
  by (simp add: zip_append1 zip_append2)

lemma in_flight_shorter: "dq_inv dec q \<Longrightarrow> length (rx_in_flight (q_rx q)) \<le> length (unconfirmed dec q)"
  using pending_split[of dec q] by auto

lemma flight_send:
  assumes "dq_inv dec q" "dq_send fault stuck data q = (ok, q')" "newline \<notin> set data"
  shows "flight dec q' = flight dec q"
  using send_refines[OF assms] send_rx[OF assms(2)] in_flight_shorter[OF assms(1)]
  by (auto simp: flight_def zip_longer)

lemma chain_starts: "chain dec sg mx ws p fs rd \<Longrightarrow> f \<in> set fs \<Longrightarrow> plt (start_pos f) rd"
proof (induction fs arbitrary: p)
  case (Cons g fs)
  then have ch: "chain dec sg mx ws (end_pos g) fs rd" "plt (start_pos g) (end_pos g)" by auto
  show ?case
  proof (cases "f = g")
    case True
    then show ?thesis using ch(2) chain_le[OF ch(1)] by (auto simp: ple_def plt_def)
  qed (use Cons ch in auto)
qed simp

lemma flight_recv:
  assumes inv: "dq_inv dec q" and r: "dq_recv dec q = (r, q')"
  shows "case r of None \<Rightarrow> flight dec q' = flight dec q
     | Some (e, p) \<Rightarrow> flight dec q' = flight dec q @ [((p, False), e)] \<and> p \<notin> fst ` fst ` set (flight dec q)"
proof -
  let ?segs = "wd_segments (q_dir q)" and ?ws = "dq_write_seq (q_state q)" and ?fs = "rx_in_flight (q_rx q)"
  obtain rx where t: "try_read_next dec ?segs ?ws (dq_write_open (q_state q) \<and> \<not> q_closed q) (q_rx q) = (r, rx)"
    and q': "q' = q\<lparr>q_rx := rx, q_state := (q_state q)\<lparr>dq_read_seq := rx_read_seq rx\<rparr>\<rparr>"
    using r by (auto simp: dq_recv_def split: prod.splits)
  have ch: "chain dec (seg ?segs) (maxseq ?segs) ?ws (acked_pos q) ?fs (rx_pos (q_rx q))"
    using inv by (simp add: dq_inv_def read_pos_def rx_pos_def)
  have "dq_write_open (q_state q) \<and> \<not> q_closed q \<Longrightarrow> bdry (seg ?segs ?ws)"
    using inv by (simp add: dq_inv_def wr_inv_def)
  then have res: "read_result dec ?segs ?ws (q_rx q) r rx"
    using t chain_pos_ok[OF ch] by (intro try_read_next_result) auto
  have same: "unconfirmed dec q' = unconfirmed dec q" and un: "case r of None \<Rightarrow> True | Some (e, _) \<Rightarrow> unread dec q = e # unread dec q'"
    using recv_refines[OF inv r] by (auto split: option.splits)
  obtain es where es: "length es = length ?fs" "unconfirmed dec q = es @ unread dec q"
    using pending_split[OF inv] by auto
  show ?thesis
  proof (cases r)
    case None
    then show ?thesis using res same q' by (simp add: flight_def read_result_def)
  next
    case (Some a)
    obtain e p where a: "a = (e, p)" by (cases a)
    obtain f where f: "rx_in_flight rx = ?fs @ [f]" "start_pos f = p" "\<not> if_acked f" "ple (rx_pos (q_rx q)) p"
      using res Some a by (auto simp: read_result_def)
    have "flight dec q' = zip (map (\<lambda>f. (start_pos f, if_acked f)) ?fs) es @ [((p, False), e)]"
      using f q' same es un Some a by (simp add: flight_def)
    moreover have "flight dec q = zip (map (\<lambda>f. (start_pos f, if_acked f)) ?fs) es"
      using es by (simp add: flight_def zip_longer)
    moreover have "p \<notin> fst ` fst ` set (zip (map (\<lambda>f. (start_pos f, if_acked f)) ?fs) es)"
    proof -
      have ne: "p \<noteq> start_pos g" if "g \<in> set ?fs" for g
        using chain_starts[OF ch that] f(4) unfolding ple_def plt_def by (metis less_not_sym not_less)
      show ?thesis
      proof
        assume "p \<in> fst ` fst ` set (zip (map (\<lambda>f. (start_pos f, if_acked f)) ?fs) es)"
        then obtain b x where "((p, b), x) \<in> set (zip (map (\<lambda>f. (start_pos f, if_acked f)) ?fs) es)" by force
        then obtain g where "g \<in> set ?fs" "p = start_pos g" by (auto dest!: set_zip_leftD)
        then show False using ne[of g] by simp
      qed
    qed
    ultimately show ?thesis using Some a by simp
  qed
qed

lemma mark_acked_map:
  "mark_acked s off fs = Some fs' \<Longrightarrow> distinct (map start_pos fs) \<Longrightarrow>
     map (\<lambda>f. (start_pos f, if_acked f)) fs' = map (\<lambda>f. (start_pos f, if_acked f \<or> start_pos f = (s, off))) fs"
proof (induction fs arbitrary: fs')
  case (Cons f fs)
  show ?case
  proof (cases "start_pos f = (s, off)")
    case True
    then have "\<forall>g\<in>set fs. start_pos g \<noteq> (s, off)" using Cons.prems(2) by (auto simp: image_iff)
    then show ?thesis using True Cons.prems(1) by (auto intro!: map_cong)
  next
    case False
    then show ?thesis using Cons by (auto split: if_splits)
  qed
qed simp

lemma mark_acked_found: "(s, off) \<in> set (map start_pos fs) \<Longrightarrow> \<exists>fs'. mark_acked s off fs = Some fs'"
  by (induction fs) auto

lemma chain_distinct: "chain dec sg mx ws p fs rd \<Longrightarrow> distinct (map start_pos fs) \<and> (\<forall>f\<in>set fs. ple p (start_pos f))"
proof (induction fs arbitrary: p)
  case (Cons f fs)
  then have IH: "distinct (map start_pos fs)" "\<forall>g\<in>set fs. ple (end_pos f) (start_pos g)"
    and f: "plt (start_pos f) (end_pos f)" "ple p (start_pos f)" by auto
  have ne: "start_pos g \<noteq> start_pos f \<and> ple p (start_pos g)" if "g \<in> set fs" for g
    using bspec[OF IH(2) that] f by (auto simp: ple_def plt_def)
  have "start_pos f \<notin> start_pos ` set fs"
  proof
    assume "start_pos f \<in> start_pos ` set fs"
    then obtain g where "start_pos f = start_pos g" "g \<in> set fs" by (rule imageE)
    then show False using ne[of g] by simp
  qed
  then show ?case using IH(1) f(2) ne by simp
qed simp

lemma in_flight_distinct: "dq_inv dec q \<Longrightarrow> distinct (map start_pos (rx_in_flight (q_rx q)))"
  using chain_distinct unfolding dq_inv_def by blast

text \<open>Acknowledging a position touches no other entry that is not acknowledged.\<close>

lemma flight_ack:
  assumes inv: "dq_inv dec q" and fits: "saved \<longrightarrow> fits_u64 (wd_segments (q_dir q))"
    and x: "((p, False), e) \<in> set (flight dec q)" "p \<noteq> (s, off)"
  shows "((p, False), e) \<in> set (flight dec (ack_to stuck saved s off q))"
proof (cases "mark_acked s off (rx_in_flight (q_rx q))")
  case None
  then show ?thesis using x(1) by (simp add: ack_unknown)
next
  case (Some fs)
  let ?k = "\<lambda>f. (start_pos f, if_acked f)" and ?n = "length (takeWhile if_acked fs)"
  note ref = ack_refines[OF inv Some fits refl, of stuck]
  obtain i where i0: "i < length (rx_in_flight (q_rx q))" "i < length (unconfirmed dec q)" "unconfirmed dec q ! i = e"
    "start_pos (rx_in_flight (q_rx q) ! i) = p" "\<not> if_acked (rx_in_flight (q_rx q) ! i)"
    using x(1) by (auto simp: flight_def set_zip)
  have len: "length fs = length (rx_in_flight (q_rx q))" by (rule mark_length[OF Some])
  have "map ?k fs ! i = map (\<lambda>f. (start_pos f, if_acked f \<or> start_pos f = (s, off))) (rx_in_flight (q_rx q)) ! i"
    using mark_acked_map[OF Some in_flight_distinct[OF inv]] by simp
  then have i: "i < length fs" "?k (fs ! i) = (p, False)" using i0 x(2) len by auto
  have n: "?n \<le> i"
  proof (rule ccontr)
    assume "\<not> ?n \<le> i"
    then have "i < ?n" by simp
    then have "if_acked (takeWhile if_acked fs ! i)" using nth_mem set_takeWhileD by metis
    then show False using i(2) takeWhile_nth[OF \<open>i < ?n\<close>] by simp
  qed
  have "dropWhile if_acked fs = drop ?n fs" by (rule dropWhile_eq_drop)
  then have "flight dec (ack_to stuck saved s off q) = drop ?n (zip (map ?k fs) (unconfirmed dec q))"
    using ref by (simp add: flight_def drop_zip drop_map)
  moreover have "drop ?n (zip (map ?k fs) (unconfirmed dec q)) ! (i - ?n) = ((p, False), e)"
    using n i i0 by simp
  moreover have "i - ?n < length (drop ?n (zip (map ?k fs) (unconfirmed dec q)))" using n i i0 by simp
  ultimately show ?thesis by (metis nth_mem)
qed

subsection \<open>The invariant\<close>

text \<open>\<open>rs\<close> are the resolutions of a burst the consumer has taken off the channel and not settled yet.\<close>

definition positions :: "ack_resolution list \<Rightarrow> consumer \<Rightarrow> queue_position list" where
  "positions rs c = map (qh_position \<circ> snd) (cn_held c) @ map res_position (rs @ cn_acks c)"

definition disk_ok :: "(bytes \<Rightarrow> queued_event option) \<Rightarrow> queue_position list \<Rightarrow> queue \<Rightarrow> bool" where
  "disk_ok dec ps q \<longleftrightarrow> (case q of MemQ _ \<Rightarrow> True | DiskQ d \<Rightarrow> dq_inv dec d \<and> distinct ps
     \<and> (\<forall>p\<in>set ps. \<exists>s off e. p = QDisk s off \<and> (((s, off), False), e) \<in> set (flight dec d)))"

definition cinv :: "(bytes \<Rightarrow> queued_event option) \<Rightarrow> ack_resolution list \<Rightarrow> consumer \<Rightarrow> bool" where
  "cinv dec rs c \<longleftrightarrow> cn_in_flight c = length (cn_held c) + length rs + length (cn_acks c)
     \<and> (\<forall>x\<in>set (cn_held c). qh_armed (snd x)) \<and> disk_ok dec (positions rs c) (cn_queue c)"

text \<open>The record \<open>e\<close> at position \<open>p\<close> is in flight, not acknowledged, and no handle can acknowledge it any more.\<close>

definition kept :: "(bytes \<Rightarrow> queued_event option) \<Rightarrow> pos \<Rightarrow> queued_event \<Rightarrow> queue_position list \<Rightarrow> queue \<Rightarrow> bool" where
  "kept dec p e ps q \<longleftrightarrow> (case q of MemQ _ \<Rightarrow> False
     | DiskQ d \<Rightarrow> ((p, False), e) \<in> set (flight dec d) \<and> QDisk (fst p) (snd p) \<notin> set ps)"

definition io_ok :: "ack_io \<Rightarrow> queue \<Rightarrow> bool" where
  "io_ok io q \<longleftrightarrow> (case q of MemQ _ \<Rightarrow> True
     | DiskQ d \<Rightarrow> \<forall>s off. snd (io s off) \<longrightarrow> fits_u64 (wd_segments (q_dir d)))"

lemma fits_remove: "fits_u64 segs \<Longrightarrow> fits_u64 (remove_segments stuck lo hi segs)"
proof -
  have "set (fold (\<lambda>s. if stuck s then id else al_remove s) xs segs) \<subseteq> set segs" for xs
    by (induction xs arbitrary: segs) (auto dest: subsetD[OF al_remove_subset])
  then show "fits_u64 segs \<Longrightarrow> fits_u64 (remove_segments stuck lo hi segs)"
    unfolding fits_u64_def remove_segments_def by blast
qed

lemma fits_ack_to: "fits_u64 (wd_segments (q_dir d)) \<Longrightarrow> fits_u64 (wd_segments (q_dir (ack_to stuck saved s off d)))"
  by (auto simp: ack_to_def Let_def fits_remove split: option.split prod.split)

lemma ack_inv:
  "dq_inv dec d \<Longrightarrow> saved \<longrightarrow> fits_u64 (wd_segments (q_dir d)) \<Longrightarrow> dq_inv dec (ack_to stuck saved s off d)"
  using ack_refines[of dec d s off _ saved stuck] ack_unknown[of s off d stuck saved]
  by (cases "mark_acked s off (rx_in_flight (q_rx d))") auto

lemma queue_ack_io: "io_ok io q \<Longrightarrow> io_ok io (queue_ack_to io p q)"
  by (auto simp: io_ok_def queue_ack_to_def fits_ack_to split: queue.splits queue_position.splits prod.splits)

lemma io_fits: "io_ok io (DiskQ d) \<Longrightarrow> io s off = (stuck, saved) \<Longrightarrow> saved \<longrightarrow> fits_u64 (wd_segments (q_dir d))"
  by (auto simp: io_ok_def) (metis snd_conv)

lemma queue_ack_kept:
  assumes "io_ok io q" "disk_ok dec ps q" "kept dec p e ps' q" "pos \<noteq> QDisk (fst p) (snd p)"
  shows "kept dec p e ps' (queue_ack_to io pos q)"
proof (cases q)
  case (DiskQ d)
  show ?thesis
  proof (cases pos)
    case (QDisk s off)
    obtain stuck saved where io: "io s off = (stuck, saved)" by fastforce
    have inv: "dq_inv dec d" "p \<noteq> (s, off)" and fits: "saved \<longrightarrow> fits_u64 (wd_segments (q_dir d))"
      using assms DiskQ QDisk io_fits[of io d s off stuck saved] io by (auto simp: disk_ok_def)
    show ?thesis
      using flight_ack[OF inv(1) fits _ inv(2)] assms DiskQ QDisk io by (simp add: kept_def queue_ack_to_def)
  qed (use assms DiskQ in \<open>simp add: queue_ack_to_def\<close>)
qed (use assms in \<open>simp add: kept_def\<close>)

lemma disk_okD:
  "disk_ok dec ps (DiskQ d) \<Longrightarrow> x \<in> set ps \<Longrightarrow> \<exists>s off e. x = QDisk s off \<and> (((s, off), False), e) \<in> set (flight dec d)"
  by (simp add: disk_ok_def)

lemma queue_ack_disk_ok:
  assumes "io_ok io q" "disk_ok dec (xs @ pos # ys) q"
  shows "disk_ok dec (xs @ ys) (queue_ack_to io pos q)"
proof (cases q)
  case (DiskQ d)
  then obtain s off where pos: "pos = QDisk s off" using assms(2) by (auto simp: disk_ok_def)
  obtain stuck saved where io: "io s off = (stuck, saved)" by fastforce
  have inv: "dq_inv dec d" and fits: "saved \<longrightarrow> fits_u64 (wd_segments (q_dir d))"
    using assms DiskQ io_fits[of io d s off stuck saved] io by (auto simp: disk_ok_def)
  have "\<exists>s' off' e. x = QDisk s' off' \<and> (((s', off'), False), e) \<in> set (flight dec (ack_to stuck saved s off d))"
    if x: "x \<in> set (xs @ ys)" for x
  proof -
    obtain s' off' e where e: "x = QDisk s' off'" "(((s', off'), False), e) \<in> set (flight dec d)"
      using disk_okD[of dec "xs @ pos # ys" d x] assms(2) DiskQ x by auto
    have "(s', off') \<noteq> (s, off)" using assms(2) DiskQ x e(1) pos by (auto simp: disk_ok_def)
    then show ?thesis using flight_ack[OF inv fits e(2)] e(1) by blast
  qed
  then show ?thesis using assms(2) DiskQ io pos ack_inv[OF inv fits, of stuck s off]
    by (auto simp: disk_ok_def queue_ack_to_def)
qed (simp add: disk_ok_def queue_ack_to_def split: queue_position.split)

lemma disk_ok_drop: "disk_ok dec (xs @ pos # ys) q \<Longrightarrow> disk_ok dec (xs @ ys) q"
  by (auto simp: disk_ok_def split: queue.splits)

subsection \<open>Settling resolutions\<close>

lemma set_depth_fields [simp]:
  "cn_queue (set_depth c) = cn_queue c" "cn_held (set_depth c) = cn_held c" "cn_acks (set_depth c) = cn_acks c"
  "cn_in_flight (set_depth c) = cn_in_flight c" "cn_accepting (set_depth c) = cn_accepting c"
  "cn_wedged (set_depth c) = cn_wedged c" "cn_phase (set_depth c) = cn_phase c" "cn_progress (set_depth c) = cn_progress c"
  by (simp_all add: set_depth_def)

lemma settle_fields:
  "cn_queue (settle io hold r c) = (if hold then cn_queue c else queue_ack_to io (res_position r) (cn_queue c))"
  "cn_held (settle io hold r c) = cn_held c" "cn_acks (settle io hold r c) = cn_acks c"
  "cn_in_flight (settle io hold r c) = cn_in_flight c - 1" "cn_accepting (settle io hold r c) = cn_accepting c"
  "cn_wedged (settle io hold r c) = cn_wedged c" "cn_phase (settle io hold r c) = cn_phase c"
  "positions rs (settle io hold r c) = positions rs c"
  by (simp_all add: settle_def Let_def positions_def)

lemma settle_inv:
  assumes "cinv dec (r # rs) c" "io_ok io (cn_queue c)"
  shows "cinv dec rs (settle io hold r c)" "io_ok io (cn_queue (settle io hold r c))"
proof -
  have ps: "positions (r # rs) c = map (qh_position \<circ> snd) (cn_held c) @ res_position r # map res_position (rs @ cn_acks c)"
    "positions rs c = map (qh_position \<circ> snd) (cn_held c) @ map res_position (rs @ cn_acks c)"
    by (simp_all add: positions_def)
  show "cinv dec rs (settle io hold r c)"
    using assms(1) queue_ack_disk_ok[OF assms(2), of dec "map (qh_position \<circ> snd) (cn_held c)" "res_position r"]
      disk_ok_drop[of dec "map (qh_position \<circ> snd) (cn_held c)" "res_position r"]
    unfolding cinv_def settle_fields ps by simp
  show "io_ok io (cn_queue (settle io hold r c))"
    using assms(2) queue_ack_io by (simp add: settle_fields)
qed

lemma settle_kept:
  assumes "cinv dec (r # rs) c" "io_ok io (cn_queue c)" "kept dec p e (positions (r # rs) c) (cn_queue c)"
  shows "kept dec p e (positions rs (settle io hold r c)) (cn_queue (settle io hold r c))"
proof -
  have "kept dec p e (positions rs c) (cn_queue c)" "res_position r \<noteq> QDisk (fst p) (snd p)"
    using assms(3) by (auto simp: kept_def positions_def split: queue.splits)
  then show ?thesis
    using assms(1) queue_ack_kept[OF assms(2), of dec "positions (r # rs) c" p e "positions rs c" "res_position r"]
    by (auto simp: settle_fields cinv_def)
qed

lemma settle_hold_kept:
  assumes "cinv dec (r # rs) c" "res_position r = QDisk s off" "cn_queue c = DiskQ d"
  shows "\<exists>e. kept dec (s, off) e (positions rs (settle io True r c)) (cn_queue (settle io True r c))"
  using assms by (auto simp: cinv_def disk_ok_def settle_fields kept_def positions_def)

text \<open>Only the queue, the handles and the counts matter to the invariant.\<close>

lemma cinv_cong:
  assumes "cn_queue c' = cn_queue c" "cn_held c' = cn_held c" "cn_acks c' = cn_acks c" "cn_in_flight c' = cn_in_flight c"
  shows "cinv dec rs c' = cinv dec rs c" "positions rs c' = positions rs c"
  using assms by (simp_all add: cinv_def positions_def)

lemma steady_ack_settle:
  "\<exists>c1 first. steady_ack io r c = settle io first r c1 \<and> cn_queue c1 = cn_queue c \<and> cn_held c1 = cn_held c
     \<and> cn_acks c1 = cn_acks c \<and> cn_in_flight c1 = cn_in_flight c \<and> cn_phase c1 = cn_phase c
     \<and> (first \<longleftrightarrow> \<not> cn_wedged c \<and> dropped_on_disk r) \<and> cn_wedged c1 = (cn_wedged c \<or> dropped_on_disk r)"
  by (auto simp: steady_ack_def record_wedge_transition_if_first_def Let_def)

lemma drain_ack_settle:
  "\<exists>c1. drain_ack io r c = settle io (dropped_on_disk r) r c1 \<and> cn_queue c1 = cn_queue c \<and> cn_held c1 = cn_held c
     \<and> cn_acks c1 = cn_acks c \<and> cn_in_flight c1 = cn_in_flight c \<and> cn_phase c1 = cn_phase c"
  by (auto simp: drain_ack_def record_wedge_transition_if_first_def)

text \<open>What a step that settles one resolution keeps.\<close>

definition keeps :: "(bytes \<Rightarrow> queued_event option) \<Rightarrow> ack_io \<Rightarrow> ack_resolution list \<Rightarrow> consumer \<Rightarrow> ack_resolution list \<Rightarrow> consumer \<Rightarrow> bool" where
  "keeps dec io rs c rs' c' \<longleftrightarrow> (cinv dec rs c \<and> io_ok io (cn_queue c) \<longrightarrow> cinv dec rs' c' \<and> io_ok io (cn_queue c')
     \<and> (\<forall>p e. kept dec p e (positions rs c) (cn_queue c) \<longrightarrow> kept dec p e (positions rs' c') (cn_queue c')))"

lemma keeps_trans: "keeps dec io rs c rs1 c1 \<Longrightarrow> keeps dec io rs1 c1 rs2 c2 \<Longrightarrow> keeps dec io rs c rs2 c2"
  by (auto simp: keeps_def)

lemma keeps_settle:
  assumes "cn_queue c1 = cn_queue c" "cn_held c1 = cn_held c" "cn_acks c1 = cn_acks c" "cn_in_flight c1 = cn_in_flight c"
  shows "keeps dec io (r # rs) c rs (settle io hold r c1)"
  using settle_inv[of dec r rs c1 io hold] settle_kept[of dec r rs c1 io _ _ hold] cinv_cong(1)[OF assms, of dec "r # rs"] cinv_cong(2)[OF assms, of "r # rs"] assms
  by (auto simp: keeps_def)

lemma keeps_steady_ack: "keeps dec io (r # rs) c rs (steady_ack io r c)"
  using steady_ack_settle[of io r c] keeps_settle by metis

lemma keeps_drain_ack: "keeps dec io (r # rs) c rs (drain_ack io r c)"
  using drain_ack_settle[of io r c] keeps_settle by metis

text \<open>The early exit of a burst loses nothing: with no event in flight the burst is over.\<close>

lemma keeps_exit:
  assumes "cinv dec rs c" "cn_in_flight c = 0"
  shows "rs = [] \<and> cn_acks c = [] \<and> cn_held c = []"
  using assms by (simp add: cinv_def)

lemma keeps_steady_acks: "keeps dec io rs c [] (steady_acks io rs c)"
proof (induction rs arbitrary: c)
  case (Cons r rs)
  let ?c = "steady_ack io r c"
  show ?case
  proof (cases "\<not> cn_accepting ?c \<and> cn_in_flight ?c = 0")
    case True
    have same: "cinv dec [] (?c\<lparr>cn_phase := Draining\<rparr>) = cinv dec [] ?c"
      "positions [] (?c\<lparr>cn_phase := Draining\<rparr>) = positions [] ?c"
      by (simp_all add: cinv_def positions_def)
    show ?thesis
      using True keeps_steady_ack[of dec io r rs c] keeps_exit[of dec rs ?c] same
      by (auto simp: keeps_def)
  next
    case False
    then have "steady_acks io (r # rs) c = steady_acks io rs ?c" by auto
    then show ?thesis using keeps_trans[OF keeps_steady_ack Cons.IH] by simp
  qed
qed (simp add: keeps_def)

lemma keeps_drain_acks: "keeps dec io rs c [] (drain_acks io rs c)"
  unfolding drain_acks_def
proof (induction rs arbitrary: c)
  case (Cons r rs)
  then show ?case using keeps_trans[OF keeps_drain_ack Cons.IH] by simp
qed (simp add: keeps_def)

lemma keeps_take:
  "cinv dec [] c = cinv dec (take n (cn_acks c)) (c\<lparr>cn_acks := drop n (cn_acks c), cn_metrics := m\<rparr>)"
  "positions [] c = positions (take n (cn_acks c)) (c\<lparr>cn_acks := drop n (cn_acks c), cn_metrics := m\<rparr>)"
proof -
  have "take n (cn_acks c) @ drop n (cn_acks c) = cn_acks c" by simp
  moreover have "length (take n (cn_acks c)) + length (drop n (cn_acks c)) = length (cn_acks c)"
    by (metis append_take_drop_id length_append)
  ultimately show "cinv dec [] c = cinv dec (take n (cn_acks c)) (c\<lparr>cn_acks := drop n (cn_acks c), cn_metrics := m\<rparr>)"
    "positions [] c = positions (take n (cn_acks c)) (c\<lparr>cn_acks := drop n (cn_acks c), cn_metrics := m\<rparr>)"
    by (simp_all add: cinv_def positions_def add.assoc del: length_take length_drop)
qed

lemma keeps_ack_arm: "keeps dec io [] c [] (ack_arm io c)"
  using keeps_steady_acks[of dec io "take ack_recv_batch_max (cn_acks c)"
      "c\<lparr>cn_acks := drop ack_recv_batch_max (cn_acks c),
         cn_metrics := merge_delivery_metrics (take ack_recv_batch_max (cn_acks c)) (cn_metrics c)\<rparr>"]
    keeps_take(1)[where n = ack_recv_batch_max and c = c and dec = dec] keeps_take(2)[where n = ack_recv_batch_max and c = c]
  by (simp add: keeps_def ack_arm_def Let_def)

lemma keeps_drain_arm: "keeps dec io [] c [] (drain_arm io c)"
  using keeps_drain_acks[of dec io "take ack_recv_batch_max (cn_acks c)"
      "c\<lparr>cn_acks := drop ack_recv_batch_max (cn_acks c),
         cn_metrics := merge_delivery_metrics (take ack_recv_batch_max (cn_acks c)) (cn_metrics c)\<rparr>"]
    keeps_take(1)[where n = ack_recv_batch_max and c = c and dec = dec] keeps_take(2)[where n = ack_recv_batch_max and c = c]
  by (simp add: keeps_def drain_arm_def Let_def)

subsection \<open>Receiving, sending, resolving\<close>

definition q_keeps :: "(bytes \<Rightarrow> queued_event option) \<Rightarrow> queue_position list \<Rightarrow> queue \<Rightarrow> queue_position list \<Rightarrow> queue \<Rightarrow> bool" where
  "q_keeps dec ps q ps' q' \<longleftrightarrow> (disk_ok dec ps q \<longrightarrow> disk_ok dec ps' q'
     \<and> (\<forall>p e. kept dec p e ps q \<longrightarrow> kept dec p e ps' q'))"

lemma q_keeps_trans: "q_keeps dec ps q ps1 q1 \<Longrightarrow> q_keeps dec ps1 q1 ps2 q2 \<Longrightarrow> q_keeps dec ps q ps2 q2"
  by (auto simp: q_keeps_def)

lemma q_keeps_send:
  assumes "backend_send ser io ev q = (r, q')" "\<forall>data. ser ev = Some data \<longrightarrow> newline \<notin> set data"
  shows "q_keeps dec ps q ps q'"
proof (cases q)
  case (MemQ m)
  then show ?thesis using assms by (auto simp: backend_send_def q_keeps_def disk_ok_def kept_def split: if_splits)
next
  case (DiskQ d)
  show ?thesis
  proof (cases "q' = q")
    case False
    then obtain data fault stuck where d: "ser ev = Some data" "io = WriteIO fault stuck"
      using assms(1) DiskQ by (auto simp: backend_send_def split: option.splits send_io.splits)
    obtain ok d' where d': "dq_send fault stuck data d = (ok, d')" by fastforce
    have "q' = DiskQ d'" using assms(1) DiskQ d d' by (auto simp: backend_send_def)
    then show ?thesis
      using DiskQ d assms(2) flight_send[OF _ d', of dec] send_refines[OF _ d', of dec]
      by (auto simp: q_keeps_def disk_ok_def kept_def)
  qed (simp add: q_keeps_def)
qed

lemma q_keeps_try_recv:
  assumes "queue_try_recv dec q = (r, q')"
  shows "q_keeps dec ps q (case r of None \<Rightarrow> ps | Some (e, pos) \<Rightarrow> ps @ [pos]) q'"
proof (cases q)
  case (MemQ m)
  then show ?thesis using assms
    by (auto simp: queue_try_recv_def q_keeps_def disk_ok_def kept_def split: list.splits)
next
  case (DiskQ d)
  obtain a d' where d': "dq_recv dec d = (a, d')" by fastforce
  show ?thesis
  proof (cases a)
    case None
    then have "r = None" "q' = DiskQ d'" using assms DiskQ d' by (auto simp: queue_try_recv_def)
    then show ?thesis
      using DiskQ flight_recv[OF _ d'] recv_refines[OF _ d'] None
      by (auto simp: q_keeps_def disk_ok_def kept_def)
  next
    case (Some b)
    obtain e s off where b: "b = (e, s, off)" by (cases b)
    then have r: "r = Some (e, QDisk s off)" "q' = DiskQ d'" using assms DiskQ d' Some by (auto simp: queue_try_recv_def)
    have fl: "flight dec d' = flight dec d @ [(((s, off), False), e)]" "(s, off) \<notin> fst ` fst ` set (flight dec d)" "dq_inv dec d'"
      if "dq_inv dec d" using flight_recv[OF that d'] recv_refines[OF that d'] Some b by auto
    have new: "QDisk s off \<notin> set ps" if ok: "disk_ok dec ps (DiskQ d)"
    proof
      assume "QDisk s off \<in> set ps"
      then obtain x where "(((s, off), False), x) \<in> set (flight dec d)" using disk_okD[OF ok] by fastforce
      then show False using fl(2) ok by (force simp: disk_ok_def)
    qed
    have "kept dec p x (ps @ [QDisk s off]) (DiskQ d')" if "disk_ok dec ps (DiskQ d)" "kept dec p x ps (DiskQ d)" for p x
    proof -
      have "((p, False), x) \<in> set (flight dec d)" "dq_inv dec d" using that by (auto simp: kept_def disk_ok_def)
      then have "p \<noteq> (s, off)" using fl(2) by force
      then show ?thesis using that fl(1) \<open>dq_inv dec d\<close> by (auto simp: kept_def)
    qed
    moreover have "disk_ok dec (ps @ [QDisk s off]) (DiskQ d')" if "disk_ok dec ps (DiskQ d)"
      using that fl new[OF that] by (auto simp: disk_ok_def) blast+
    ultimately show ?thesis using r DiskQ by (simp add: q_keeps_def)
  qed
qed

lemma q_keeps_drain_queue:
  "drain_queue dec n q = (batch, q') \<Longrightarrow> q_keeps dec ps q (ps @ map snd batch) q'"
proof (induction n arbitrary: q batch q' ps)
  case (Suc n)
  obtain r q1 where r: "queue_try_recv dec q = (r, q1)" by fastforce
  show ?case
  proof (cases r)
    case None
    then show ?thesis using q_keeps_try_recv[OF r, of ps] Suc.prems r by simp
  next
    case (Some a)
    obtain e pos where a: "a = (e, pos)" by fastforce
    obtain rest q2 where d: "drain_queue dec n q1 = (rest, q2)" by fastforce
    have "q_keeps dec ps q (ps @ [pos]) q1" using q_keeps_try_recv[OF r, of ps] Some a by simp
    from q_keeps_trans[OF this Suc.IH[OF d]] show ?thesis using Suc.prems r Some a d by auto
  qed
qed (simp add: q_keeps_def)

lemma hand_over_fields:
  "cn_queue (hand_over batch c) = cn_queue c" "cn_acks (hand_over batch c) = cn_acks c"
  "cn_in_flight (hand_over batch c) = cn_in_flight c + length batch"
  "cn_held (hand_over batch c) = cn_held c @ map (\<lambda>(ev, pos). (ev, handle_new pos (qe_emitted_ns ev))) batch"
  by (induction batch c rule: hand_over.induct) auto

lemma disk_ok_cong: "distinct ps = distinct ps' \<Longrightarrow> set ps = set ps' \<Longrightarrow> disk_ok dec ps q = disk_ok dec ps' q"
  by (simp add: disk_ok_def split: queue.split)

lemma kept_cong: "set ps = set ps' \<Longrightarrow> kept dec p e ps q = kept dec p e ps' q"
  by (simp add: kept_def split: queue.split)

text \<open>A consumer whose handles and resolutions cover the same positions.\<close>

lemma step_keeps:
  assumes "q_keeps dec (positions [] c) (cn_queue c) ps (cn_queue c')"
    and "mset ps = mset (positions [] c')" "cinv dec [] c"
    and "cn_in_flight c' = length (cn_held c') + length (cn_acks c')" "\<forall>x\<in>set (cn_held c'). qh_armed (snd x)"
  shows "cinv dec [] c' \<and> (\<forall>p e. kept dec p e (positions [] c) (cn_queue c) \<longrightarrow> kept dec p e (positions [] c') (cn_queue c'))"
proof -
  have eq: "distinct ps = distinct (positions [] c')" "set ps = set (positions [] c')"
    using assms(2) mset_eq_imp_distinct_iff mset_eq_setD by blast+
  show ?thesis
    using assms(1,3-) unfolding cinv_def q_keeps_def disk_ok_cong[OF eq] kept_cong[OF eq(2)] by simp
qed

lemma keeps_recv_arm:
  assumes "cinv dec [] c" "drain_queue dec n (cn_queue c) = (batch, q)"
  shows "cinv dec [] (recv_arm batch q sp c) \<and> (\<forall>p e. kept dec p e (positions [] c) (cn_queue c) \<longrightarrow>
     kept dec p e (positions [] (recv_arm batch q sp c)) (cn_queue (recv_arm batch q sp c)))"
proof -
  have qk: "q_keeps dec (positions [] c) (cn_queue c) (positions [] c @ map snd batch) q"
    by (rule q_keeps_drain_queue[OF assms(2)])
  have pos: "map (qh_position \<circ> snd) (map (\<lambda>(ev, pos). (ev, handle_new pos (qe_emitted_ns ev))) batch) = map snd batch" for batch :: "received list"
    by (induction batch) (auto simp: handle_new_def)
  have "cn_queue (recv_arm batch q sp c) = q" "cn_acks (recv_arm batch q sp c) = cn_acks c"
    "cn_in_flight (recv_arm batch q sp c) = cn_in_flight c + length batch"
    "cn_held (recv_arm batch q sp c) = cn_held c @ map (\<lambda>(ev, pos). (ev, handle_new pos (qe_emitted_ns ev))) batch"
    by (auto simp: recv_arm_def Let_def hand_over_fields)
  note f = this
  have "mset (positions [] c @ map snd batch) = mset (positions [] (recv_arm batch q sp c))"
    using pos[of batch] by (simp add: positions_def f del: map_map)
  moreover have "\<forall>x\<in>set (cn_held (recv_arm batch q sp c)). qh_armed (snd x)"
    using assms(1) by (auto simp: f cinv_def handle_new_def)
  ultimately show ?thesis
    using qk assms(1) by (intro step_keeps[where ps = "positions [] c @ map snd batch"]) (auto simp: f cinv_def)
qed

lemma keeps_resolve:
  assumes "cinv dec [] c" "i < length (cn_held c)"
  shows "cinv dec [] (resolve_step i u c) \<and> (\<forall>p e. kept dec p e (positions [] c) (cn_queue c) \<longrightarrow>
     kept dec p e (positions [] (resolve_step i u c)) (cn_queue (resolve_step i u c)))"
proof -
  obtain ev h where h: "cn_held c ! i = (ev, h)" by fastforce
  have split: "cn_held c = take i (cn_held c) @ (ev, h) # drop (Suc i) (cn_held c)"
    using id_take_nth_drop[OF assms(2)] h by simp
  have armed: "qh_armed h" using assms h nth_mem[OF assms(2)] by (auto simp: cinv_def)
  have f: "cn_queue (resolve_step i u c) = cn_queue c" "cn_in_flight (resolve_step i u c) = cn_in_flight c"
    "cn_held (resolve_step i u c) = take i (cn_held c) @ drop (Suc i) (cn_held c)"
    "cn_acks (resolve_step i u c) = cn_acks c @ [use_resolution u h]"
    using handle_finish_one[OF armed] by (auto simp: resolve_step_def h)
  have "mset (positions [] c) = mset (positions [] (resolve_step i u c))"
    using arg_cong[OF split, of "\<lambda>l. mset (map (qh_position \<circ> snd) l)"] by (simp add: positions_def f)
  moreover have "length (cn_held c) = Suc (length (take i (cn_held c) @ drop (Suc i) (cn_held c)))"
    using assms(2) by simp
  then have "cn_in_flight (resolve_step i u c) = length (cn_held (resolve_step i u c)) + length (cn_acks (resolve_step i u c))"
    using assms(1) unfolding f cinv_def by simp
  moreover have "\<forall>x\<in>set (cn_held (resolve_step i u c)). qh_armed (snd x)"
    using assms(1) by (auto simp: f cinv_def dest: in_set_takeD in_set_dropD)
  ultimately show ?thesis using assms(1)
    by (intro step_keeps[where ps = "positions [] c"]) (auto simp: f q_keeps_def)
qed

lemma keeps_shutdown:
  assumes "cinv dec [] c"
  shows "cinv dec [] (shutdown_arm c) \<and> (\<forall>p e. kept dec p e (positions [] c) (cn_queue c) \<longrightarrow>
     kept dec p e (positions [] (shutdown_arm c)) (cn_queue (shutdown_arm c)))"
proof (cases "cn_wedged c \<or> is_disk (cn_queue c)")
  case True
  then have "shutdown_arm c = c\<lparr>cn_phase := Draining\<rparr>" by (auto simp: shutdown_arm_def is_disk_def split: queue.splits)
  then show ?thesis using assms by (simp add: cinv_def positions_def)
next
  case False
  then obtain m where m: "cn_queue c = MemQ m" by (auto simp: is_disk_def split: queue.splits)
  then show ?thesis
    using assms False
    by (auto simp: shutdown_arm_def cinv_def hand_over_fields disk_ok_def kept_def handle_new_def)
qed

lemma cstep_keeps:
  assumes "cstep dec c c'" "cinv dec [] c"
  shows "cinv dec [] c' \<and> (\<forall>p e. kept dec p e (positions [] c) (cn_queue c) \<longrightarrow> kept dec p e (positions [] c') (cn_queue c'))"
  using assms
proof (cases rule: cstep.cases)
  case (send ser io ev r q)
  then show ?thesis
    using assms(2) q_keeps_send[OF send(2,3)]
    by (intro step_keeps[where ps = "positions [] c"]) (auto simp: cinv_def positions_def)
next
  case (recv n batch q sp)
  then show ?thesis using keeps_recv_arm[OF assms(2)] by simp
next
  case (ack io)
  then have "io_ok io (cn_queue c)" by (auto simp: io_ok_def split: queue.split)
  then show ?thesis using keeps_ack_arm[of dec io c] assms(2) ack by (simp add: keeps_def)
next
  case shutdown
  then show ?thesis using keeps_shutdown[OF assms(2)] by simp
next
  case (resolve i u)
  then show ?thesis using keeps_resolve[OF assms(2)] by simp
next
  case (drain io)
  then have "io_ok io (cn_queue c)" by (auto simp: io_ok_def split: queue.split)
  then show ?thesis using keeps_drain_arm[of dec io c] assms(2) drain by (simp add: keeps_def)
next
  case stop
  then show ?thesis using assms(2) by (simp add: stop_arm_def cinv_def positions_def)
qed

subsection \<open>Whole runs\<close>

lemma csteps_keep:
  assumes "(cstep dec)\<^sup>*\<^sup>* c c'" "cinv dec [] c"
  shows "cinv dec [] c' \<and> (\<forall>p e. kept dec p e (positions [] c) (cn_queue c) \<longrightarrow> kept dec p e (positions [] c') (cn_queue c'))"
  using assms by (induction rule: rtranclp_induct) (auto dest: cstep_keeps)

lemma consumer_new_inv:
  "(\<And>d. q = DiskQ d \<Longrightarrow> dq_inv dec d) \<Longrightarrow> cinv dec [] (consumer_new q m p)"
  by (auto simp: consumer_new_def cinv_def positions_def disk_ok_def split: queue.split)

text \<open>What is kept is still unconfirmed.\<close>

lemma kept_unconfirmed: "kept dec p e ps q \<Longrightarrow> \<exists>d. q = DiskQ d \<and> e \<in> set (unconfirmed dec d)"
  by (auto simp: kept_def flight_def split: queue.splits dest: set_zip_rightD)

text \<open>The first drop on a disk queue wedges the consumer and holds its position for good.\<close>

lemma wedge_first:
  assumes "cinv dec (r # rs) c" "\<not> cn_wedged c" "res_disposition r = DDropped" "res_position r = QDisk s off"
    and "cn_queue c = DiskQ d"
  shows "\<exists>e. (((s, off), False), e) \<in> set (flight dec d)
     \<and> kept dec (s, off) e (positions rs (steady_ack io r c)) (cn_queue (steady_ack io r c)) \<and> cn_wedged (steady_ack io r c)"
proof -
  obtain c1 where c1: "steady_ack io r c = settle io True r c1" "cn_queue c1 = cn_queue c" "cn_held c1 = cn_held c"
    "cn_acks c1 = cn_acks c" "cn_in_flight c1 = cn_in_flight c" "cn_wedged c1"
    using steady_ack_settle[of io r c] assms(2-4) by (auto simp: dropped_on_disk_def)
  obtain e where e: "(((s, off), False), e) \<in> set (flight dec d)"
    using assms(1,4,5) by (auto simp: cinv_def disk_ok_def positions_def)
  have "QDisk s off \<notin> set (positions rs c1)"
    using assms(1,4,5) c1(2-4) by (auto simp: cinv_def disk_ok_def positions_def)
  then show ?thesis using e c1 assms(5) by (auto simp: settle_fields kept_def)
qed

lemma wedge_ack_arm:
  assumes inv: "cinv dec [] c" "cn_queue c = DiskQ d" "io_ok io (cn_queue c)" and w: "\<not> cn_wedged c"
    and r: "cn_acks c = r # rest" "res_disposition r = DDropped" "res_position r = QDisk s off"
  shows "\<exists>e. (((s, off), False), e) \<in> set (flight dec d)
     \<and> kept dec (s, off) e (positions [] (ack_arm io c)) (cn_queue (ack_arm io c)) \<and> cinv dec [] (ack_arm io c)"
proof -
  let ?m = "merge_delivery_metrics (take ack_recv_batch_max (cn_acks c)) (cn_metrics c)"
  let ?c = "c\<lparr>cn_acks := drop ack_recv_batch_max (cn_acks c), cn_metrics := ?m\<rparr>"
  obtain rs where rs: "take ack_recv_batch_max (cn_acks c) = r # rs" using r(1) by (simp add: ack_recv_batch_max_def take_Cons')
  have ci: "cinv dec (r # rs) ?c" using inv(1) keeps_take(1)[of dec c ack_recv_batch_max ?m] rs by simp
  obtain e where e: "(((s, off), False), e) \<in> set (flight dec d)"
    "kept dec (s, off) e (positions rs (steady_ack io r ?c)) (cn_queue (steady_ack io r ?c))"
    using wedge_first[OF ci _ r(2,3), of d io] w inv(2) by auto
  have st: "keeps dec io (r # rs) ?c rs (steady_ack io r ?c)" by (rule keeps_steady_ack)
  have ci': "cinv dec rs (steady_ack io r ?c)" "io_ok io (cn_queue (steady_ack io r ?c))"
    using st ci inv(3) by (auto simp: keeps_def)
  have arm: "ack_arm io c = steady_acks io (r # rs) ?c" by (simp add: ack_arm_def Let_def rs)
  have fin: "cinv dec [] (ack_arm io c)" using keeps_ack_arm[of dec io c] inv by (simp add: keeps_def)
  show ?thesis
  proof (cases "\<not> cn_accepting (steady_ack io r ?c) \<and> cn_in_flight (steady_ack io r ?c) = 0")
    case True
    then have "rs = []" using keeps_exit[OF ci'(1)] by simp
    then show ?thesis using e fin arm True by (auto simp: positions_def Let_def)
  next
    case False
    then have "ack_arm io c = steady_acks io rs (steady_ack io r ?c)" unfolding arm by (auto simp: Let_def)
    then show ?thesis
      using keeps_steady_acks[of dec io rs "steady_ack io r ?c"] ci' e fin by (auto simp: keeps_def)
  qed
qed

text \<open>While draining, every drop on a disk queue is held back.\<close>

lemma drain_drop_kept:
  assumes "cinv dec (r # rs) c" "res_disposition r = DDropped" "res_position r = QDisk s off" "cn_queue c = DiskQ d"
  shows "\<exists>e. (((s, off), False), e) \<in> set (flight dec d)
     \<and> kept dec (s, off) e (positions rs (drain_ack io r c)) (cn_queue (drain_ack io r c))"
proof -
  obtain c1 where c1: "drain_ack io r c = settle io True r c1" "cn_queue c1 = cn_queue c" "cn_held c1 = cn_held c"
    "cn_acks c1 = cn_acks c" using drain_ack_settle[of io r c] assms(2,3) by (auto simp: dropped_on_disk_def)
  obtain e where e: "(((s, off), False), e) \<in> set (flight dec d)"
    using assms(1,3,4) by (auto simp: cinv_def disk_ok_def positions_def)
  have "QDisk s off \<notin> set (positions rs c1)"
    using assms(1,3,4) c1(2-4) by (auto simp: cinv_def disk_ok_def positions_def)
  then show ?thesis using e c1 assms(4) by (auto simp: settle_fields kept_def)
qed

text \<open>
  In the steady state only the first drop is held back: when a later position was dropped first, the
  drop of the record in front is acknowledged and the record is confirmed.
\<close>

lemma second_drop_confirmed:
  assumes inv: "dq_inv dec d" and c: "cn_queue c = DiskQ d" "\<not> cn_wedged c" "io_ok io (cn_queue c)"
    and fs: "rx_in_flight (q_rx d) = f # g # fs" "\<not> if_acked g"
    and c': "c' = steady_ack io (RDropped (QDisk (if_start_seq f) (if_start_offset f)))
      (steady_ack io (RDropped (QDisk (if_start_seq g) (if_start_offset g))) c)"
  shows "\<exists>d'. cn_queue c' = DiskQ d' \<and> unconfirmed dec d' = tl (unconfirmed dec d)"
proof -
  let ?s = "if_start_seq f" and ?o = "if_start_offset f"
  obtain stuck saved where io: "io ?s ?o = (stuck, saved)" by fastforce
  obtain c1 where c1: "steady_ack io (RDropped (QDisk (if_start_seq g) (if_start_offset g))) c
      = settle io True (RDropped (QDisk (if_start_seq g) (if_start_offset g))) c1" "cn_queue c1 = cn_queue c" "cn_wedged c1"
    using steady_ack_settle[of io "RDropped (QDisk (if_start_seq g) (if_start_offset g))" c] c(2) by (auto simp: dropped_on_disk_def)
  obtain c2 where c2: "c' = settle io False (RDropped (QDisk ?s ?o)) c2" "cn_queue c2 = cn_queue c"
    using steady_ack_settle[of io "RDropped (QDisk ?s ?o)" "settle io True (RDropped (QDisk (if_start_seq g) (if_start_offset g))) c1"]
      c1 c' by (auto simp: settle_fields)
  have q: "cn_queue c' = DiskQ (ack_to stuck saved ?s ?o d)" using c2 c(1) io by (simp add: settle_fields queue_ack_to_def)
  have m: "mark_acked ?s ?o (rx_in_flight (q_rx d)) = Some (f\<lparr>if_acked := True\<rparr> # g # fs)" using fs by simp
  have "unconfirmed dec (ack_to stuck saved ?s ?o d) = drop 1 (unconfirmed dec d)"
    using ack_refines[OF inv m _ refl, of saved stuck] io_fits[of io d ?s ?o stuck saved] io c(1,3) fs(2) by simp
  then show ?thesis using q by (simp add: drop_Suc)
qed

end
