(* ===== verification/Json.thy ===== *)
theory Json
  imports Text
begin

section \<open>The JSON form of values and events\<close>

text \<open>
  How values and events cross a JSON boundary (\<open>dsl/value_json.rs\<close> and the JSON half of \<open>event.rs\<close>): byte
  strings under a marker key, keys that start with a dollar sign escaped, timestamps as nanoseconds.
  \<open>json\<close> mirrors the data type of the \<open>serde_json\<close> crate, with objects in insertion order. The base64
  codec, the text of a UUID and the text of a JSON value belong to other crates and are parameters.
\<close>

datatype json_num = JPos nat | JNeg int | JFloat f64

datatype json =
    JNull
  | JBool bool
  | JNum json_num
  | JStr rstr
  | JArr "json list"
  | JObj "(rstr \<times> json) list"

record json_codec =
  jx_b64_encode :: "bytes \<Rightarrow> string"
  jx_b64_decode :: "string \<Rightarrow> string + bytes"
  jx_uuid_text :: "uuid \<Rightarrow> string"
  jx_uuid_parse :: "string \<Rightarrow> uuid option"
  jx_uuid_v7 :: "uuid \<Rightarrow> bool"
  jx_to_text :: "json \<Rightarrow> bytes option"
  jx_of_text :: "bytes \<Rightarrow> json option"

subsection \<open>Accessors\<close>

definition num_of_i64 :: "int \<Rightarrow> json_num" where
  "num_of_i64 n = (if 0 \<le> n then JPos (nat n) else JNeg n)"

fun as_i64 :: "json_num \<Rightarrow> int option" where
  "as_i64 (JPos n) = (if int n \<le> i64_max then Some (int n) else None)"
| "as_i64 (JNeg n) = Some n"
| "as_i64 (JFloat _) = None"

fun as_u64 :: "json_num \<Rightarrow> nat option" where
  "as_u64 (JPos n) = Some n"
| "as_u64 _ = None"

fun jget :: "rstr \<Rightarrow> json \<Rightarrow> json option" where
  "jget k (JObj m) = map_of m k"
| "jget k _ = None"

fun jstr :: "json \<Rightarrow> rstr option" where
  "jstr (JStr s) = Some s"
| "jstr _ = None"

fun ji64 :: "json \<Rightarrow> int option" where
  "ji64 (JNum n) = as_i64 n"
| "ji64 _ = None"

fun ju64 :: "json \<Rightarrow> nat option" where
  "ju64 (JNum n) = as_u64 n"
| "ju64 _ = None"

subsection \<open>Keys\<close>

definition bytes_marker_key :: rstr where "bytes_marker_key = ''$bytes_b64''"

definition escape_user_key :: "rstr \<Rightarrow> rstr" where
  "escape_user_key k = (case k of c # _ \<Rightarrow> if c = CHR ''$'' then CHR ''$'' # k else k | [] \<Rightarrow> k)"

text \<open>The message shows the key in Rust's debug form; its escapes are left out.\<close>

definition reserved_key_error :: "rstr \<Rightarrow> string" where
  "reserved_key_error k = ''unknown reserved key in JSON object: \"'' @ k @ ''\" '' @
     ''(single-`$`-prefixed keys are reserved for limpid internal markers; '' @
     ''user keys starting with `$` must be doubled in JSON form)''"

fun unescape_user_key :: "rstr \<Rightarrow> rstr res" where
  "unescape_user_key (c # d # rest) =
     (if c = CHR ''$'' then (if d = CHR ''$'' then Ok (CHR ''$'' # rest) else Err (reserved_key_error (c # d # rest)))
      else Ok (c # d # rest))"
| "unescape_user_key [c] = (if c = CHR ''$'' then Err (reserved_key_error [c]) else Ok [c])"
| "unescape_user_key [] = Ok []"

lemma unescape_escape [simp]: "unescape_user_key (escape_user_key k) = Ok k"
proof (cases k)
  case (Cons c cs)
  then show ?thesis by (cases cs) (auto simp: escape_user_key_def)
qed (simp add: escape_user_key_def)

lemma escape_inj: "inj escape_user_key"
  by (rule injI) (metis unescape_escape res.inject(1))

lemma escape_not_marker: "escape_user_key k \<noteq> bytes_marker_key"
  by (auto simp: escape_user_key_def bytes_marker_key_def split: list.split)

lemma unescape_inj: "unescape_user_key k = Ok x \<Longrightarrow> unescape_user_key l = Ok x \<Longrightarrow> k = l"
  by (cases k rule: unescape_user_key.cases; cases l rule: unescape_user_key.cases) (auto split: if_splits)

subsection \<open>Values\<close>

text \<open>Results of a loop, in order; the first error ends it.\<close>

fun collectR :: "'a res list \<Rightarrow> 'a list res" where
  "collectR [] = Ok []"
| "collectR (r # rs) = bindR r (\<lambda>x. bindR (collectR rs) (\<lambda>xs. Ok (x # xs)))"

fun value_to_json :: "json_codec \<Rightarrow> owned \<Rightarrow> json res" where
  "value_to_json cx ONull = Ok JNull"
| "value_to_json cx (OBool b) = Ok (JBool b)"
| "value_to_json cx (OInt n) = Ok (JNum (num_of_i64 n))"
| "value_to_json cx (OFloat x) = (if f64_is_finite x then Ok (JNum (JFloat x))
     else Err (''cannot serialize non-finite float to JSON: '' @ f64_to_string x))"
| "value_to_json cx (OString s) = Ok (JStr s)"
| "value_to_json cx (OTimestamp t) = (if in_i64 t then Ok (JNum (num_of_i64 t))
     else Err ''timestamp out of i64 nanosecond range'')"
| "value_to_json cx (OBytes b) = Ok (JObj [(bytes_marker_key, JStr (jx_b64_encode cx b))])"
| "value_to_json cx (OArray a) = bindR (collectR (map (value_to_json cx) a)) (\<lambda>out. Ok (JArr out))"
| "value_to_json cx (OObject m) =
     bindR (collectR (map (\<lambda>(k, v). bindR (value_to_json cx v) (\<lambda>j. Ok (escape_user_key k, j))) m)) (\<lambda>es. Ok (JObj (imap_of es)))"

fun json_shape :: "json \<Rightarrow> string" where
  "json_shape JNull = ''null''"
| "json_shape (JBool _) = ''bool''"
| "json_shape (JNum _) = ''number''"
| "json_shape (JStr _) = ''string''"
| "json_shape (JArr _) = ''array''"
| "json_shape (JObj _) = ''object''"

text \<open>An object with the marker key as its only key: the bytes, or why there are none.\<close>

definition marker_bytes :: "json_codec \<Rightarrow> json \<Rightarrow> bytes res" where
  "marker_bytes cx payload = (case jstr payload of
     None \<Rightarrow> Err (bytes_marker_key @ '' marker must hold a string, got '' @ json_shape payload)
   | Some s \<Rightarrow> (case jx_b64_decode cx s of
       Inl e \<Rightarrow> Err (''invalid base64 in '' @ bytes_marker_key @ '': '' @ e) | Inr b \<Rightarrow> Ok b))"

definition marker_payload :: "(rstr \<times> json) list \<Rightarrow> json option" where
  "marker_payload m = (if length m = 1 then map_of m bytes_marker_key else None)"

text \<open>A number as a value: an \<open>i64\<close> when it is one, a double otherwise.\<close>

definition num_to_owned :: "json_num \<Rightarrow> owned" where
  "num_to_owned n = (case as_i64 n of Some i \<Rightarrow> OInt i
   | None \<Rightarrow> (case as_u64 n of
       Some u \<Rightarrow> if int u \<le> i64_max then OInt (int u) else OFloat (f64_of_int (int u))
     | None \<Rightarrow> (case n of JFloat x \<Rightarrow> OFloat x | _ \<Rightarrow> OFloat f64_zero)))"

fun json_to_value :: "json_codec \<Rightarrow> json \<Rightarrow> owned res" where
  "json_to_value cx JNull = Ok ONull"
| "json_to_value cx (JBool b) = Ok (OBool b)"
| "json_to_value cx (JNum n) = Ok (num_to_owned n)"
| "json_to_value cx (JStr s) = Ok (OString s)"
| "json_to_value cx (JArr a) = bindR (collectR (map (json_to_value cx) a)) (\<lambda>out. Ok (OArray out))"
| "json_to_value cx (JObj m) = (case marker_payload m of
     Some payload \<Rightarrow> bindR (marker_bytes cx payload) (\<lambda>b. Ok (OBytes b))
   | None \<Rightarrow> bindR (collectR (map (\<lambda>(k, j). bindR (unescape_user_key k) (\<lambda>k'.
       bindR (json_to_value cx j) (\<lambda>v. Ok (k', v)))) m)) (\<lambda>es. Ok (OObject (imap_of es))))"

text \<open>\<open>json_to_value_in\<close>: the same into the arena, where an object keeps its entries as they come.\<close>

definition num_to_val :: "json_num \<Rightarrow> val" where
  "num_to_val n = (case as_i64 n of Some i \<Rightarrow> VInt i
   | None \<Rightarrow> (case as_u64 n of
       Some u \<Rightarrow> if int u \<le> i64_max then VInt (int u) else VFloat (f64_of_int (int u))
     | None \<Rightarrow> (case n of JFloat x \<Rightarrow> VFloat x | _ \<Rightarrow> VFloat f64_zero)))"

fun json_to_value_in :: "json_codec \<Rightarrow> json \<Rightarrow> val res" where
  "json_to_value_in cx JNull = Ok VNull"
| "json_to_value_in cx (JBool b) = Ok (VBool b)"
| "json_to_value_in cx (JNum n) = Ok (num_to_val n)"
| "json_to_value_in cx (JStr s) = Ok (VString s)"
| "json_to_value_in cx (JArr a) = bindR (collectR (map (json_to_value_in cx) a)) (\<lambda>out. Ok (VArray out))"
| "json_to_value_in cx (JObj m) = (case marker_payload m of
     Some payload \<Rightarrow> bindR (marker_bytes cx payload) (\<lambda>b. Ok (VBytes b))
   | None \<Rightarrow> bindR (collectR (map (\<lambda>(k, j). bindR (unescape_user_key k) (\<lambda>k'.
       bindR (json_to_value_in cx j) (\<lambda>v. Ok (k', v)))) m)) (\<lambda>es. Ok (VObject es)))"

text \<open>
  \<open>Serialize for Value\<close>: the direct path of \<open>to_json\<close>, as the tree of what it writes.
\<close>

fun serialize_value :: "json_codec \<Rightarrow> val \<Rightarrow> json res" where
  "serialize_value cx VNull = Ok JNull"
| "serialize_value cx (VBool b) = Ok (JBool b)"
| "serialize_value cx (VInt n) = Ok (JNum (num_of_i64 n))"
| "serialize_value cx (VFloat x) = (if f64_is_finite x then Ok (JNum (JFloat x))
     else Err (''cannot serialize non-finite float to JSON: '' @ f64_to_string x))"
| "serialize_value cx (VString s) = Ok (JStr s)"
| "serialize_value cx (VBytes b) = Ok (JObj [(bytes_marker_key, JStr (jx_b64_encode cx b))])"
| "serialize_value cx (VTimestamp t) = (if in_i64 t then Ok (JNum (num_of_i64 t))
     else Err ''timestamp out of i64 nanosecond range'')"
| "serialize_value cx (VArray a) = bindR (collectR (map (serialize_value cx) a)) (\<lambda>out. Ok (JArr out))"
| "serialize_value cx (VObject es) =
     bindR (collectR (map (\<lambda>(k, v). bindR (serialize_value cx v)
       (\<lambda>j. Ok (if k \<noteq> [] \<and> hd k = CHR ''$'' then CHR ''$'' # k else k, j))) es)) (\<lambda>es'. Ok (JObj es'))"

subsection \<open>Round trip of values\<close>

lemma collectR_Ok: "collectR rs = Ok xs \<longleftrightarrow> rs = map Ok xs"
  by (induction rs arbitrary: xs) (auto simp: Cons_eq_map_conv)

lemma collectR_map_Ok: "collectR (map f xs) = Ok ys \<longleftrightarrow> list_all2 (\<lambda>x y. f x = Ok y) xs ys"
  unfolding collectR_Ok by (simp add: list_all2_conv_all_nth list_eq_iff_nth_eq) (auto simp: nth_map)

text \<open>What a boundary does to a value: timestamps come back as integers.\<close>

fun untimed :: "owned \<Rightarrow> owned" where
  "untimed (OTimestamp t) = OInt t"
| "untimed (OArray xs) = OArray (map untimed xs)"
| "untimed (OObject m) = OObject (map (\<lambda>(k, v). (k, untimed v)) m)"
| "untimed v = v"

text \<open>What JSON can hold: finite floats and timestamps in the nanosecond range.\<close>

fun storable :: "owned \<Rightarrow> bool" where
  "storable (OFloat x) = f64_is_finite x"
| "storable (OTimestamp t) = in_i64 t"
| "storable (OArray xs) = list_all storable xs"
| "storable (OObject m) = list_all (\<lambda>(k, v). storable v) m"
| "storable _ = True"

definition b64_ok :: "json_codec \<Rightarrow> bool" where
  "b64_ok cx \<longleftrightarrow> (\<forall>b. jx_b64_decode cx (jx_b64_encode cx b) = Inr b)"

lemma num_to_owned_i64: "in_i64 n \<Longrightarrow> num_to_owned (num_of_i64 n) = OInt n"
  by (auto simp: num_to_owned_def num_of_i64_def in_i64_def)

lemma num_to_owned_float [simp]: "num_to_owned (JFloat x) = OFloat x"
  by (simp add: num_to_owned_def)

lemma collectR_all: "\<forall>x\<in>set xs. \<exists>y. f x = Ok y \<Longrightarrow> \<exists>ys. collectR (map f xs) = Ok ys"
  by (induction xs) auto

lemma collectR_each: "collectR (map f xs) = Ok ys \<Longrightarrow> x \<in> set xs \<Longrightarrow> \<exists>y. f x = Ok y"
  by (induction xs arbitrary: ys) auto

lemma storable_json: "storable v \<Longrightarrow> \<exists>j. value_to_json cx v = Ok j"
proof (induction v)
  case (OArray xs)
  then have "\<forall>x\<in>set xs. \<exists>j. value_to_json cx x = Ok j" by (simp add: list_all_iff)
  then show ?case using collectR_all[of xs "value_to_json cx"] by auto
next
  case (OObject m)
  have "\<exists>y. (case x of (k, v) \<Rightarrow> bindR (value_to_json cx v) (\<lambda>j. Ok (escape_user_key k, j))) = Ok y" if x: "x \<in> set m" for x
  proof -
    obtain k v where kv: "x = (k, v)" by fastforce
    then have "storable v" using OObject.prems x by (auto simp: list_all_iff)
    then have "\<exists>j. value_to_json cx v = Ok j" using OObject.IH[of x v] x kv by simp
    then show ?thesis using kv by auto
  qed
  then show ?case
    using collectR_all[of m "\<lambda>(k, v). bindR (value_to_json cx v) (\<lambda>j. Ok (escape_user_key k, j))"] by auto
qed auto

lemma json_storable: "value_to_json cx v = Ok j \<Longrightarrow> storable v"
proof (induction v arbitrary: j)
  case (OArray xs)
  then show ?case using collectR_each[of "value_to_json cx" xs] by (fastforce simp: list_all_iff)
next
  case (OObject m)
  obtain es where es: "collectR (map (\<lambda>(k, v). bindR (value_to_json cx v) (\<lambda>j. Ok (escape_user_key k, j))) m) = Ok es"
    using OObject.prems by auto
  have "storable v" if kv: "(k, v) \<in> set m" for k v
    using collectR_each[OF es kv] OObject.IH[OF kv, of v] by auto
  then show ?case by (auto simp: list_all_iff)
qed (auto split: if_splits)

text \<open>The entries of an object, written and read back.\<close>

lemma entries_back:
  assumes "collectR (map (\<lambda>(k, v). bindR (f v) (\<lambda>j. Ok (escape_user_key k, j))) m) = Ok es"
    and "\<forall>(k, v)\<in>set m. \<forall>j. f v = Ok j \<longrightarrow> g j = Ok (h v)"
  shows "map fst es = map (escape_user_key \<circ> fst) m
     \<and> collectR (map (\<lambda>(k, j). bindR (unescape_user_key k) (\<lambda>k'. bindR (g j) (\<lambda>v. Ok (k', v)))) es) = Ok (map (\<lambda>(k, v). (k, h v)) m)"
  using assms
proof (induction m arbitrary: es)
  case (Cons x m)
  obtain k v where x: "x = (k, v)" by fastforce
  obtain j es' where j: "f v = Ok j" "collectR (map (\<lambda>(k, v). bindR (f v) (\<lambda>j. Ok (escape_user_key k, j))) m) = Ok es'"
    "es = (escape_user_key k, j) # es'"
    using Cons.prems(1) x by auto
  have "g j = Ok (h v)" using Cons.prems(2) x j(1) by auto
  then show ?case using Cons.IH[OF j(2)] Cons.prems(2) x j(3) by (auto simp: bindR_def)
qed simp

lemma marker_payload_escaped: "map fst es = map (escape_user_key \<circ> fst) m \<Longrightarrow> marker_payload es = None"
proof -
  assume "map fst es = map (escape_user_key \<circ> fst) m"
  then have "bytes_marker_key \<notin> fst ` set es"
    using escape_not_marker by (metis (mono_tags, lifting) comp_apply image_iff list.set_map)
  then show ?thesis by (simp add: marker_payload_def map_of_eq_None_iff)
qed

lemma json_value_back:
  assumes "b64_ok cx"
  shows "owned_ok v \<Longrightarrow> value_to_json cx v = Ok j \<Longrightarrow> json_to_value cx j = Ok (untimed v)"
proof (induction v arbitrary: j)
  case (OBytes b)
  then show ?case using assms by (auto simp: marker_payload_def marker_bytes_def bindR_def b64_ok_def)
next
  case (OArray xs)
  obtain ys where ys: "collectR (map (value_to_json cx) xs) = Ok ys" "j = JArr ys" using OArray.prems by auto
  have "\<forall>x\<in>set xs. \<forall>y. value_to_json cx x = Ok y \<longrightarrow> json_to_value cx y = Ok (untimed x)"
    using OArray by (auto simp: list_all_iff)
  then have "collectR (map (json_to_value cx) ys) = Ok (map untimed xs)"
    using ys(1)
  proof (induction xs arbitrary: ys)
    case (Cons x xs)
    then obtain y ys' where "ys = y # ys'" "value_to_json cx x = Ok y" "collectR (map (value_to_json cx) xs) = Ok ys'" by auto
    then show ?case using Cons by auto
  qed simp
  then show ?case using ys(2) by simp
next
  case (OObject m)
  obtain es where es: "collectR (map (\<lambda>(k, v). bindR (value_to_json cx v) (\<lambda>j. Ok (escape_user_key k, j))) m) = Ok es"
    "j = JObj (imap_of es)" using OObject.prems by auto
  have "\<forall>(k, v)\<in>set m. \<forall>j. value_to_json cx v = Ok j \<longrightarrow> json_to_value cx j = Ok (untimed v)"
    using OObject by (fastforce simp: list_all_iff)
  note bk = entries_back[OF es(1) this]
  have "distinct (map fst m)" using OObject.prems(1) by simp
  then have d: "distinct (map fst es)"
    using bk escape_inj by (auto simp: distinct_map inj_on_def dest: injD)
  have "distinct (map fst (map (\<lambda>(k, v). (k, untimed v)) m))" using OObject.prems(1) by (simp add: comp_def split_beta)
  then show ?case
    using es(2) bk marker_payload_escaped[of es m] d by (simp add: imap_of_id)
qed (auto simp: num_to_owned_i64 split: if_splits)

subsection \<open>The direct paths agree\<close>

text \<open>A JSON object has one entry per key.\<close>

fun json_ok :: "json \<Rightarrow> bool" where
  "json_ok (JArr a) = list_all json_ok a"
| "json_ok (JObj m) = (distinct (map fst m) \<and> list_all (\<lambda>(k, j). json_ok j) m)"
| "json_ok _ = True"

lemma bind_map_res: "bindR (map_res f r) k = bindR r (\<lambda>x. k (f x))"
  by (cases r) (simp_all add: bindR_def)

lemma map_res_bindR: "map_res f (bindR r k) = bindR r (\<lambda>x. map_res f (k x))"
  by (cases r) (simp_all add: bindR_def)

lemmas map_res_bind = bind_map_res map_res_bindR

lemma collectR_map_res: "\<forall>x\<in>set xs. f x = map_res h (g x) \<Longrightarrow> collectR (map f xs) = map_res (map h) (collectR (map g xs))"
proof (induction xs)
  case (Cons x xs)
  then show ?case by (cases "g x"; cases "collectR (map g xs)") (simp_all add: bindR_def)
qed simp

lemma bindR_cong: "r = r' \<Longrightarrow> (\<And>x. r' = Ok x \<Longrightarrow> k x = k' x) \<Longrightarrow> bindR r k = bindR r' k'"
  by (cases r') (auto simp: bindR_def)

text \<open>Reading into the arena gives the view of what reading into an owned value gives.\<close>

lemma unescaped_keys:
  assumes "collectR (map (\<lambda>(k, j). bindR (unescape_user_key k) (\<lambda>k'. bindR (g j) (\<lambda>v. Ok (k', v)))) m) = Ok es"
    and "distinct (map fst m)"
  shows "distinct (map fst es)"
proof -
  have l: "list_all2 (\<lambda>x y. unescape_user_key (fst x) = Ok (fst y)) m es"
    using assms(1) by (induction m arbitrary: es) auto
  show ?thesis unfolding distinct_conv_nth
  proof (intro allI impI notI)
    fix a b assume ab: "a < length (map fst es)" "b < length (map fst es)" "a \<noteq> b" "map fst es ! a = map fst es ! b"
    then have len: "a < length m" "b < length m" using l by (simp_all add: list_all2_lengthD)
    then have "fst (m ! a) = fst (m ! b)"
      using ab list_all2_nthD[OF l len(1)] list_all2_nthD[OF l len(2)] unescape_inj by simp
    then show False using assms(2) len ab(3) by (simp add: distinct_conv_nth)
  qed
qed

lemma num_to_val_view: "num_to_val n = view_in (num_to_owned n)"
  by (simp add: num_to_val_def num_to_owned_def split: option.split json_num.split)

lemma json_in_view: "json_ok j \<Longrightarrow> json_to_value_in cx j = map_res view_in (json_to_value cx j)"
proof (induction j)
  case (JArr a)
  then have "\<forall>x\<in>set a. json_to_value_in cx x = map_res view_in (json_to_value cx x)" by (simp add: list_all_iff)
  from collectR_map_res[OF this] show ?case by (simp add: map_res_bind)
next
  case (JObj m)
  show ?case
  proof (cases "marker_payload m")
    case None
    let ?f = "\<lambda>(k, j). bindR (unescape_user_key k) (\<lambda>k'. bindR (json_to_value cx j) (\<lambda>v. Ok (k', v)))"
    have "\<forall>x\<in>set m. (case x of (k, j) \<Rightarrow> bindR (unescape_user_key k) (\<lambda>k'. bindR (json_to_value_in cx j) (\<lambda>v. Ok (k', v))))
        = map_res (\<lambda>(k, v). (k, view_in v)) (?f x)"
      using JObj by (fastforce simp: map_res_bind list_all_iff)
    from collectR_map_res[OF this] have eq: "json_to_value_in cx (JObj m) = bindR (collectR (map ?f m)) (\<lambda>es. Ok (VObject (map (\<lambda>(k, v). (k, view_in v)) es)))"
      using None by (simp add: map_res_bind)
    show ?thesis unfolding eq using None JObj.prems unescaped_keys[of "json_to_value cx" m]
      by (simp add: map_res_bind imap_of_id cong: bindR_cong)
  qed (simp add: map_res_bind)
qed (simp_all add: num_to_val_view)

text \<open>Writing a value directly writes the JSON of its owned form.\<close>

lemma serialize_view: "owned_ok v \<Longrightarrow> serialize_value cx (view_in v) = value_to_json cx v"
proof (induction v)
  case (OArray xs)
  then have "map (serialize_value cx \<circ> view_in) xs = map (value_to_json cx) xs" by (simp add: list_all_iff)
  then show ?case unfolding view_in.simps serialize_value.simps value_to_json.simps map_map by (simp only:)
next
  case (OObject m)
  let ?f = "\<lambda>(k, v). bindR (value_to_json cx v) (\<lambda>j. Ok (escape_user_key k, j))"
  have "(if k \<noteq> [] \<and> hd k = CHR ''$'' then CHR ''$'' # k else k) = escape_user_key k" for k
    by (cases k) (auto simp: escape_user_key_def)
  then have "serialize_value cx (view_in (OObject m)) = bindR (collectR (map ?f m)) (\<lambda>es. Ok (JObj es))"
    using OObject.prems OObject.IH[OF _ snds.intros] by (auto simp: list_all_iff comp_def split_beta intro!: arg_cong[where f = "\<lambda>xs. bindR (collectR xs) (\<lambda>es. Ok (JObj es))"])
  moreover have "imap_of es = es" if es: "collectR (map ?f m) = Ok es" for es
  proof -
    have "map fst es = map (escape_user_key \<circ> fst) m" using es by (induction m arbitrary: es) auto
    then have "distinct (map fst es)" using OObject.prems escape_inj by (auto simp: distinct_map inj_on_def dest: injD)
    then show ?thesis by (rule imap_of_id)
  qed
  ultimately show ?case by (simp cong: bindR_cong)
qed auto

end
