(* ===== verification/EventJson.thy ===== *)
theory EventJson
  imports Json
begin

section \<open>The JSON form of events\<close>

text \<open>
  \<open>to_json_value\<close> and \<open>from_json_value\<close> of \<open>event.rs\<close>, and the record a disk queue writes for a queued event
  (\<open>DiskQueueSender::send\<close>, \<open>try_read_next\<close>). The source address is printed and parsed by Rust's standard
  library, as in \<open>Text\<close>. The key minted for a record without one is an argument.
\<close>

definition bytes_to_json :: "json_codec \<Rightarrow> bytes \<Rightarrow> json" where
  "bytes_to_json cx b = (if utf8_valid b then JStr b
     else case value_to_json cx (OBytes b) of Ok j \<Rightarrow> j | _ \<Rightarrow> JNull)"

definition json_to_bytes :: "json_codec \<Rightarrow> json \<Rightarrow> bytes option" where
  "json_to_bytes cx j = (case jstr j of Some s \<Rightarrow> Some s
   | None \<Rightarrow> (case json_to_value cx j of Ok (OBytes b) \<Rightarrow> Some b | _ \<Rightarrow> None))"

definition stamp_json :: "hop_stamp \<Rightarrow> json" where
  "stamp_json s = JObj [(''node_id'', JStr (node_id s)), (''arrival_unix_nano'', JNum (JPos (arrival_unix_nano s))),
     (''departure_unix_nano'', JNum (JPos (departure_unix_nano s)))]"

definition to_json_value_with :: "json_codec \<Rightarrow> bool \<Rightarrow> owned_event \<Rightarrow> json" where
  "to_json_value_with cx include_workspace ev =
     JObj ([(''key'', JStr (jx_uuid_text cx (oe_key ev))),
            (''received_at'', JNum (num_of_i64 (if in_i64 (oe_received_at ev) then oe_received_at ev else 0))),
            (''source'', JObj [(''ip'', JStr (show_ip (fst (oe_source ev)))), (''port'', JNum (JPos (snd (oe_source ev))))]),
            (''ingress'', bytes_to_json cx (oe_ingress ev)),
            (''egress'', bytes_to_json cx (oe_egress ev))]
       @ (case oe_ltp_stamps ev of None \<Rightarrow> [] | Some ss \<Rightarrow> [(''ltp_stamps'', JArr (map stamp_json ss))])
       @ (if include_workspace \<and> oe_workspace ev \<noteq> []
          then [(''workspace'', case value_to_json cx (OObject (oe_workspace ev)) of Ok j \<Rightarrow> j | _ \<Rightarrow> JObj [])] else []))"

definition to_json_value :: "json_codec \<Rightarrow> owned_event \<Rightarrow> json" where
  "to_json_value cx ev = to_json_value_with cx True ev"

definition to_json_value_without_workspace :: "json_codec \<Rightarrow> owned_event \<Rightarrow> json" where
  "to_json_value_without_workspace cx ev = to_json_value_with cx False ev"

text \<open>The steps of \<open>from_json_value\<close>; \<open>None\<close> is its \<open>None\<close>.\<close>

definition parse_key :: "json_codec \<Rightarrow> uuid \<Rightarrow> json \<Rightarrow> uuid option" where
  "parse_key cx fresh j = (case jget ''key'' j of
     Some (JStr raw) \<Rightarrow> (case jx_uuid_parse cx raw of
       None \<Rightarrow> None
     | Some k \<Rightarrow> if jx_uuid_v7 cx k \<and> jx_uuid_text cx k = raw then Some k else None)
   | Some _ \<Rightarrow> None
   | None \<Rightarrow> Some fresh)"

definition parse_source :: "json \<Rightarrow> sock_addr option" where
  "parse_source j = (case jget ''source'' j of
     Some (JObj m) \<Rightarrow>
       (case (Option.bind (map_of m ''ip'') jstr, Option.bind (map_of m ''port'') ju64) of
          (Some ip, Some port) \<Rightarrow> if 65535 < port then None else parse_socket_addr (ip @ '':'' @ nat_digits port)
        | _ \<Rightarrow> None)
   | _ \<Rightarrow> None)"

definition parse_stamp :: "json \<Rightarrow> hop_stamp option" where
  "parse_stamp j =
     (case (Option.bind (jget ''node_id'' j) jstr, Option.bind (jget ''arrival_unix_nano'' j) ju64,
            Option.bind (jget ''departure_unix_nano'' j) ju64) of
        (Some n, Some a, Some d) \<Rightarrow> Some \<lparr>node_id = n, arrival_unix_nano = a, departure_unix_nano = d\<rparr>
      | _ \<Rightarrow> None)"

definition parse_stamps :: "json \<Rightarrow> hop_stamp list option option" where
  "parse_stamps j = (case jget ''ltp_stamps'' j of
     None \<Rightarrow> Some None
   | Some (JArr ss) \<Rightarrow> (case those (map parse_stamp ss) of
       None \<Rightarrow> None | Some stamps \<Rightarrow> Some (if stamps = [] then None else Some stamps))
   | Some _ \<Rightarrow> None)"

definition parse_workspace :: "json_codec \<Rightarrow> json \<Rightarrow> omap" where
  "parse_workspace cx j = (case jget ''workspace'' j of
     Some w \<Rightarrow> (case json_to_value cx w of Ok (OObject m) \<Rightarrow> imap_of m | _ \<Rightarrow> [])
   | None \<Rightarrow> [])"

definition from_json_value :: "json_codec \<Rightarrow> uuid \<Rightarrow> json \<Rightarrow> owned_event option" where
  "from_json_value cx fresh j =
     (case parse_key cx fresh j of None \<Rightarrow> None | Some key \<Rightarrow>
      case Option.bind (jget ''ingress'' j) (json_to_bytes cx) of None \<Rightarrow> None | Some ingress \<Rightarrow>
      case parse_source j of None \<Rightarrow> None | Some src \<Rightarrow>
      case Option.bind (jget ''received_at'' j) ji64 of None \<Rightarrow> None | Some received_at \<Rightarrow>
      (let egress = (case Option.bind (jget ''egress'' j) (json_to_bytes cx) of Some e \<Rightarrow> e | None \<Rightarrow> ingress) in
       case parse_stamps j of None \<Rightarrow> None | Some stamps \<Rightarrow>
         Some \<lparr>oe_key = key, oe_received_at = received_at, oe_source = src, oe_ingress = ingress, oe_egress = egress,
               oe_workspace = parse_workspace cx j, oe_ltp_stamps = stamps, oe_ack = None\<rparr>))"

definition to_json_string :: "json_codec \<Rightarrow> owned_event \<Rightarrow> bytes" where
  "to_json_string cx ev = (case jx_to_text cx (to_json_value cx ev) of Some s \<Rightarrow> s | None \<Rightarrow> [])"

definition from_json :: "json_codec \<Rightarrow> uuid \<Rightarrow> bytes \<Rightarrow> owned_event option" where
  "from_json cx fresh s = Option.bind (jx_of_text cx s) (from_json_value cx fresh)"

subsection \<open>Records of a disk queue\<close>

text \<open>\<open>Map::insert\<close> and, with insertion order preserved, \<open>Map::remove\<close>: the last entry takes the place.\<close>

definition swap_remove :: "rstr \<Rightarrow> (rstr \<times> json) list \<Rightarrow> (rstr \<times> json) list" where
  "swap_remove k m =
     (case List.extract (\<lambda>x. fst x = k) m of
        None \<Rightarrow> m
      | Some (before, _, after) \<Rightarrow> if after = [] then before else before @ last after # butlast after)"

definition wal_json :: "json_codec \<Rightarrow> queued_event \<Rightarrow> json" where
  "wal_json cx qe = (case to_json_value cx (qe_event qe) of
     JObj m \<Rightarrow> JObj (al_set ''emitted_ns'' (JNum (num_of_i64 (qe_emitted_ns qe))) m) | j \<Rightarrow> j)"

definition wal_ser :: "json_codec \<Rightarrow> queued_event \<Rightarrow> bytes option" where
  "wal_ser cx qe = jx_to_text cx (wal_json cx qe)"

definition wal_dec :: "json_codec \<Rightarrow> uuid \<Rightarrow> bytes \<Rightarrow> queued_event option" where
  "wal_dec cx fresh line = (case jx_of_text cx line of
     Some (JObj m) \<Rightarrow>
       (case Option.bind (map_of m ''emitted_ns'') ji64 of
          None \<Rightarrow> None
        | Some t \<Rightarrow> (case from_json_value cx fresh (JObj (swap_remove ''emitted_ns'' m)) of
            None \<Rightarrow> None | Some ev \<Rightarrow> Some \<lparr>qe_event = ev, qe_emitted_ns = t\<rparr>))
   | _ \<Rightarrow> None)"

subsection \<open>Printing and parsing an address\<close>

lemma is_digit_of_10: "is_digit_of 10 c \<longleftrightarrow> is_digit c"
  by (auto simp: is_digit_of_def digit_of_def is_digit_def Let_def)

lemma digit_of_10: "is_digit c \<Longrightarrow> digit_of 10 c = Some (digit_val c)"
  by (auto simp: digit_of_def is_digit_def digit_val_def Let_def)

lemma foldl_digits: "list_all is_digit ds \<Longrightarrow> foldl (\<lambda>n c. 10 * n + the (digit_of 10 c)) acc ds = foldl (\<lambda>n c. 10 * n + digit_val c) acc ds"
  by (induction ds arbitrary: acc) (auto simp: digit_of_10)

lemma nat_digits_lead: "hd (nat_digits n) = CHR ''0'' \<Longrightarrow> length (nat_digits n) = 1"
proof (induction n rule: nat_digits.induct)
  case (1 n)
  show ?case
  proof (cases "n < 10")
    case False
    have ne: "nat_digits (n div 10) \<noteq> []" using nat_digits_digits by auto
    then have h: "hd (nat_digits (n div 10)) = CHR ''0''" using 1(2) False by (simp add: nat_digits.simps[of n])
    then have "length (nat_digits (n div 10)) = 1" using 1(1)[OF False] by simp
    then have "n div 10 < 10" by (metis length_Suc_conv_rev One_nat_def append_self_conv2 length_0_conv list.inject ne nat_digits.simps snoc_eq_iff_butlast butlast_snoc butlast.simps(2))
    then have "nat_digits (n div 10) = [digit_char (n div 10)]" by (simp add: nat_digits.simps)
    then have "digit_char (n div 10) = CHR ''0''" using h by simp
    then have "digit_val (digit_char (n div 10)) = 0" by (simp add: digit_val_def)
    then have "n div 10 = 0" using \<open>n div 10 < 10\<close> by simp
    then show ?thesis using False by simp
  qed (simp add: nat_digits.simps)
qed

lemma nat_digits_short: "n < 1000 \<Longrightarrow> length (nat_digits n) \<le> 3"
  by (simp add: nat_digits.simps[of n] nat_digits.simps[of "n div 10"] nat_digits.simps[of "n div 10 div 10"])

lemma read_number_digits:
  assumes "n < bound" "rest = [] \<or> \<not> is_digit (hd rest)" "\<forall>k. md = Some k \<longrightarrow> length (nat_digits n) \<le> k"
  shows "read_number 10 md az bound (nat_digits n @ rest) = Some (n, rest)"
proof -
  have d: "list_all is_digit (nat_digits n)" "nat_digits n \<noteq> []" using nat_digits_digits by auto
  have tw: "takeWhile (is_digit_of 10) (nat_digits n @ rest) = nat_digits n" "dropWhile (is_digit_of 10) (nat_digits n @ rest) = rest"
    using d(1) assms(2) by (auto simp: takeWhile_append dropWhile_append is_digit_of_10 list_all_iff hd_conv_nth takeWhile_eq_Nil_iff dropWhile_eq_self_iff)
  have v: "foldl (\<lambda>n c. 10 * n + the (digit_of 10 c)) 0 (nat_digits n) = n"
    using foldl_digits[OF d(1), of 0] digits_val_nat_digits[of n] by (simp add: digits_val_def)
  show ?thesis
    using assms(1,3) d(2) nat_digits_lead[of n] by (auto simp: read_number_def Let_def tw v split: option.split)
qed

lemma parse_v4:
  assumes "ip_ok (V4 a b c d)" "p < 65536"
  shows "parse_socket_addr (show_ip (V4 a b c d) @ '':'' @ nat_digits p) = Some (V4 a b c d, p)"
proof -
  have oct: "read_number 10 (Some 3) False 256 (nat_digits n @ rest) = Some (n, rest)"
    if "n < 256" "rest = [] \<or> \<not> is_digit (hd rest)" for n rest
    using that nat_digits_short[of n] by (intro read_number_digits) auto
  have port: "read_number 10 None True 65536 (nat_digits p) = Some (p, [])"
    using read_number_digits[of p 65536 "[]" None True] assms(2) by simp
  have nd: "\<not> is_digit (CHR ''.'')" "\<not> is_digit (CHR '':'')" by (simp_all add: is_digit_def)
  show ?thesis
    using assms oct port nd
    by (simp add: parse_socket_addr_def read_socket_v4_def read_ipv4_def read_octet_def read_sep_def read_char_def read_port_def
        show_v4_def)
qed

text \<open>An IPv6 address prints hexadecimal digits up to the first colon, and without brackets.\<close>

definition is_hex :: "char \<Rightarrow> bool" where
  "is_hex c \<longleftrightarrow> is_digit c \<or> (of_char c :: nat) \<in> {97..102}"

lemma hex_char_hex: "d < 16 \<Longrightarrow> is_hex (hex_char d)"
  by (auto simp: is_hex_def hex_char_def is_digit_def)

lemma hex_digits_hex: "list_all is_hex (hex_digits n)"
proof (induction n rule: hex_digits.induct)
  case (1 n)
  then show ?case by (cases "n < 16") (simp_all add: hex_digits.simps[of n] hex_char_hex)
qed

lemma segments_colon:
  assumes "2 \<le> length ss"
  shows "\<exists>h rest. show_segments ss = h @ CHR '':'' # rest \<and> list_all is_hex h"
proof -
  obtain x y ys where "ss = x # y # ys" using assms by (metis Suc_le_length_iff numeral_2_eq_2)
  then have "show_segments ss = hex_digits x @ CHR '':'' # show_segments (y # ys)" by (simp add: show_segments_def)
  then show ?thesis using hex_digits_hex by blast
qed

lemma show_v6_colon:
  assumes "length ss = 8"
  shows "\<exists>h rest. show_v6 ss = h @ CHR '':'' # rest \<and> list_all is_hex h"
proof -
  obtain st len where z: "zero_span 0 (0, 0) (0, 0) ss = (st, len)" by fastforce
  have join: "\<exists>h rest. show_segments ts @ CHR '':'' # t = h @ CHR '':'' # rest \<and> list_all is_hex h" for ts t
  proof (cases "2 \<le> length ts")
    case True
    then show ?thesis using segments_colon[OF True] by fastforce
  next
    case False
    then consider "ts = []" | x where "ts = [x]" by (cases ts; cases "tl ts") auto
    then show ?thesis
    proof cases
      case 1
      then show ?thesis by (intro exI[of _ "[]"] exI[of _ t]) (simp add: show_segments_def)
    next
      case (2 x)
      then show ?thesis using hex_digits_hex[of x] by (intro exI[of _ "hex_digits x"] exI[of _ t]) (simp add: show_segments_def)
    qed
  qed
  have full: "\<exists>h rest. show_segments ss = h @ CHR '':'' # rest \<and> list_all is_hex h"
    using segments_colon[of ss] assms by simp
  have "\<exists>h rest. ''::ffff:'' @ v = h @ CHR '':'' # rest \<and> list_all is_hex h" for v
    by (intro exI[of _ "[]"] exI[of _ "'':ffff:'' @ v"]) simp
  then show ?thesis
    using full join[of "take st ss" "CHR '':'' # show_segments (drop (st + len) ss)"] z by (auto simp: show_v6_def)
qed

lemma read_ipv4_hex:
  assumes "list_all is_hex h"
  shows "read_ipv4 (h @ CHR '':'' # rest) = None"
proof (cases "read_octet 0 (h @ CHR '':'' # rest)")
  case (Some r)
  obtain a s1 where r: "r = (a, s1)" by fastforce
  have "s1 = dropWhile (is_digit_of 10) (h @ CHR '':'' # rest)"
    using Some r by (auto simp: read_octet_def read_sep_def read_number_def Let_def split: if_splits)
  then obtain c cs where c: "s1 = c # cs" "c = CHR '':'' \<or> is_hex c"
    using assms by (induction h arbitrary: s1) (auto simp: is_digit_of_10 is_digit_def split: if_splits)
  have "c \<noteq> CHR ''.''" using c(2) by (auto simp: is_hex_def is_digit_def)
  then show ?thesis using Some r c(1) by (simp add: read_ipv4_def read_octet_def read_sep_def read_char_def)
qed (simp add: read_ipv4_def)

lemma parse_v6:
  assumes "length ss = 8"
  shows "parse_socket_addr (show_ip (V6 ss) @ t) = None"
proof -
  obtain h rest where h: "show_v6 ss @ t = h @ CHR '':'' # rest" "list_all is_hex h"
    using show_v6_colon[OF assms] by auto
  have "read_char (CHR ''['') (h @ CHR '':'' # rest) = None"
    using h(2) by (cases h) (auto simp: read_char_def is_hex_def is_digit_def)
  then show ?thesis using h by (simp add: parse_socket_addr_def read_socket_v4_def read_socket_v6_def read_ipv4_hex)
qed

subsection \<open>Round trip of events\<close>

text \<open>What the UUID crate promises of a key: its text parses back, and it is of version 7.\<close>

definition uuid_ok :: "json_codec \<Rightarrow> uuid \<Rightarrow> bool" where
  "uuid_ok cx k \<longleftrightarrow> jx_uuid_v7 cx k \<and> jx_uuid_parse cx (jx_uuid_text cx k) = Some k"

text \<open>An event as the program builds it, whose workspace JSON can hold.\<close>

definition persistable :: "json_codec \<Rightarrow> owned_event \<Rightarrow> bool" where
  "persistable cx ev \<longleftrightarrow> uuid_ok cx (oe_key ev) \<and> in_i64 (oe_received_at ev) \<and> snd (oe_source ev) < 65536
     \<and> oe_ltp_stamps ev \<noteq> Some [] \<and> owned_ok (OObject (oe_workspace ev)) \<and> storable (OObject (oe_workspace ev))"

definition untimed_event :: "owned_event \<Rightarrow> owned_event" where
  "untimed_event ev = ev\<lparr>oe_workspace := map (\<lambda>(k, v). (k, untimed v)) (oe_workspace ev), oe_ack := None\<rparr>"

lemma json_to_bytes_back: "b64_ok cx \<Longrightarrow> json_to_bytes cx (bytes_to_json cx b) = Some b"
  using json_value_back[of cx "OBytes b"] by (auto simp: json_to_bytes_def bytes_to_json_def)

lemma parse_stamp_back [simp]: "parse_stamp (stamp_json s) = Some s"
  by (simp add: parse_stamp_def stamp_json_def)

lemma those_stamps [simp]: "those (map (parse_stamp \<circ> stamp_json) ss) = Some ss"
  by (induction ss) auto

text \<open>A JSON value that has the fields of the event, whatever else it has.\<close>

definition has_fields :: "json_codec \<Rightarrow> owned_event \<Rightarrow> json \<Rightarrow> bool" where
  "has_fields cx ev j \<longleftrightarrow> (\<forall>k\<in>{''key'', ''received_at'', ''source'', ''ingress'', ''egress'', ''ltp_stamps'', ''workspace''}.
     jget k j = jget k (to_json_value cx ev))"

lemma get_fields:
  "jget ''key'' (to_json_value cx ev) = Some (JStr (jx_uuid_text cx (oe_key ev)))"
  "jget ''received_at'' (to_json_value cx ev) = Some (JNum (num_of_i64 (if in_i64 (oe_received_at ev) then oe_received_at ev else 0)))"
  "jget ''source'' (to_json_value cx ev) =
     Some (JObj [(''ip'', JStr (show_ip (fst (oe_source ev)))), (''port'', JNum (JPos (snd (oe_source ev))))])"
  "jget ''ingress'' (to_json_value cx ev) = Some (bytes_to_json cx (oe_ingress ev))"
  "jget ''egress'' (to_json_value cx ev) = Some (bytes_to_json cx (oe_egress ev))"
  "jget ''ltp_stamps'' (to_json_value cx ev) = map_option (\<lambda>ss. JArr (map stamp_json ss)) (oe_ltp_stamps ev)"
  "jget ''workspace'' (to_json_value cx ev) = (if oe_workspace ev \<noteq> []
     then Some (case value_to_json cx (OObject (oe_workspace ev)) of Ok j \<Rightarrow> j | _ \<Rightarrow> JObj []) else None)"
  by (simp_all add: to_json_value_def to_json_value_with_def split: option.split)

lemma as_i64_num: "in_i64 n \<Longrightarrow> as_i64 (num_of_i64 n) = Some n"
  by (auto simp: num_of_i64_def in_i64_def)

lemma workspace_back:
  assumes "b64_ok cx" "owned_ok (OObject ws)" "storable (OObject ws)" "value_to_json cx (OObject ws) = Ok j"
  shows "json_to_value cx j = Ok (OObject (map (\<lambda>(k, v). (k, untimed v)) ws))"
    and "imap_of (map (\<lambda>(k, v). (k, untimed v)) ws) = map (\<lambda>(k, v). (k, untimed v)) ws"
  using json_value_back[OF assms(1,2,4)] assms(2) by (simp_all add: imap_of_id comp_def split_beta)

lemma from_json_fields:
  assumes "b64_ok cx" "persistable cx ev" "has_fields cx ev j"
  shows "from_json_value cx fresh j =
     map_option (\<lambda>src. (untimed_event ev)\<lparr>oe_source := src\<rparr>)
       (parse_socket_addr (show_ip (fst (oe_source ev)) @ '':'' @ nat_digits (snd (oe_source ev))))"
proof -
  note g = assms(3)[unfolded has_fields_def, simplified] and p = assms(2)[unfolded persistable_def]
  have key: "parse_key cx fresh j = Some (oe_key ev)" using g p by (simp add: parse_key_def get_fields uuid_ok_def)
  have src: "parse_source j = parse_socket_addr (show_ip (fst (oe_source ev)) @ '':'' @ nat_digits (snd (oe_source ev)))"
    using g p by (simp add: parse_source_def get_fields)
  have st: "parse_stamps j = Some (oe_ltp_stamps ev)"
    using g p by (cases "oe_ltp_stamps ev") (simp_all add: parse_stamps_def get_fields)
  obtain w where w: "value_to_json cx (OObject (oe_workspace ev)) = Ok w"
    using storable_json p by blast
  have wj: "jget ''workspace'' j = (if oe_workspace ev \<noteq> [] then Some w else None)"
    using g unfolding get_fields w by simp
  have ws: "parse_workspace cx j = map (\<lambda>(k, v). (k, untimed v)) (oe_workspace ev)"
    using workspace_back[OF assms(1) _ _ w] p unfolding parse_workspace_def wj by (simp del: owned_ok.simps storable.simps json_to_value.simps)
  have num: "Option.bind (jget ''received_at'' j) ji64 = Some (oe_received_at ev)"
    using g p as_i64_num by (simp add: get_fields)
  show ?thesis
    using g key src st ws num json_to_bytes_back[OF assms(1)]
    by (cases "parse_socket_addr (show_ip (fst (oe_source ev)) @ '':'' @ nat_digits (snd (oe_source ev)))")
      (simp_all add: from_json_value_def get_fields Let_def untimed_event_def)
qed

end
