(* ===== verification/Worker.thy ===== *)
theory Worker
  imports Exec_Facts OutputDlq
begin

section \<open>Pipeline workers\<close>

text \<open>
  What happens to one event of an input (\<open>runtime/pipeline_worker.rs\<close>): every pipeline of the input
  runs on it, its outputs go to their queues, and the run is counted once; a failure, be it of the
  pipeline or of a queue, ends as a dead-letter record. The output queues, the dead letters and the
  log lines are shared between the workers; every worker has its own metrics.
\<close>

record pipeline_metrics =
  pm_received :: counter
  pm_finished :: counter
  pm_dropped :: counter
  pm_discarded :: counter
  pm_errored :: counter
  pm_errored_unwritable :: counter
  pm_inflight :: counter

record worker =
  wk_bp :: blueprint
  wk_pl :: pipeline_blueprint
  wk_metrics :: pipeline_metrics
  wk_counters :: "process_counters list"
  wk_timers :: "(int \<times> int) list list"

record 'w shared =
  sh_world :: 'w
  sh_taps :: "(string \<times> owned_event) list"
  sh_queues :: "(rstr \<times> (queue \<times> output_metrics option)) list"
  sh_dlq :: "errored_ctx list"
  sh_lines :: "dlq_line list"

record 'w worker_ctx =
  wx_funcs :: "'w registry"
  wx_tap :: "string \<Rightarrow> 'w \<Rightarrow> bool"
  wx_now :: "'w \<Rightarrow> int \<times> 'w"
  wx_disk_outputs :: "rstr list"
  wx_ser :: "queued_event \<Rightarrow> bytes option"
  wx_io :: "rstr \<Rightarrow> queued_event \<Rightarrow> send_io"
  wx_error_log :: error_log
  wx_fallback :: error_log_fallback

definition worker_env :: "'w worker_ctx \<Rightarrow> worker \<Rightarrow> owned_event \<Rightarrow> int \<Rightarrow> 'w xenv" where
  "worker_env ctx wk ev dispatch =
     \<lparr>xe_bp = wk_bp wk, xe_pl = wk_pl wk, xe_funcs = wx_funcs ctx, xe_tap = Some (wx_tap ctx), xe_now = wx_now ctx,
      xe_policy = DiskOnly (wx_disk_outputs ctx), xe_original = ev, xe_dispatch = dispatch\<rparr>"

definition worker_xstate :: "worker \<Rightarrow> 'w shared \<Rightarrow> 'w xstate" where
  "worker_xstate wk sh =
     \<lparr>x_world = sh_world sh, x_counters = wk_counters wk, x_taps = sh_taps sh, x_timers = wk_timers wk, x_trace = None,
      x_outputs = [], x_errored = []\<rparr>"

text \<open>
  The first loop of \<open>enqueue_pipeline_outputs\<close>: the outputs that could not be queued, each with the
  snapshot taken before the send.
\<close>

fun enqueue_loop :: "'w worker_ctx \<Rightarrow> (rstr \<times> queued_event) list \<Rightarrow> 'w shared \<Rightarrow> (rstr \<times> output_event) list \<times> 'w shared" where
  "enqueue_loop ctx [] sh = ([], sh)"
| "enqueue_loop ctx ((name, ev) # rest) sh =
     (let snapshot = output_event_from_owned (qe_event ev) in
      case map_of (sh_queues sh) name of
        None \<Rightarrow> (case enqueue_loop ctx rest sh of (lost, sh') \<Rightarrow> ((name, snapshot) # lost, sh'))
      | Some (q, m) \<Rightarrow> (case queue_send (wx_ser ctx) (wx_io ctx name ev) ev q m of
          (r, q', m') \<Rightarrow>
            (case enqueue_loop ctx rest (sh\<lparr>sh_queues := al_set name (q', m') (sh_queues sh)\<rparr>) of
               (lost, sh') \<Rightarrow> (case r of Inr _ \<Rightarrow> (lost, sh') | Inl _ \<Rightarrow> ((name, snapshot) # lost, sh')))))"

definition enqueue_reason :: string where
  "enqueue_reason = ''output enqueue failed (queue closed, disk write error, or unknown output)''"

fun enqueue_records :: "'w worker_ctx \<Rightarrow> rstr \<Rightarrow> (rstr \<times> output_event) list \<Rightarrow> 'w shared \<Rightarrow> errored_ctx list \<times> 'w shared" where
  "enqueue_records ctx pl [] sh = ([], sh)"
| "enqueue_records ctx pl ((name, snapshot) # rest) sh =
     (case wx_now ctx (sh_world sh) of (t, w) \<Rightarrow>
      case enqueue_records ctx pl rest (sh\<lparr>sh_world := w\<rparr>) of (cs, sh') \<Rightarrow>
        (EOutput t pl (name @ '' enqueue'') enqueue_reason name snapshot # cs, sh'))"

definition enqueue_pipeline_outputs :: "'w worker_ctx \<Rightarrow> rstr \<Rightarrow> run_result \<Rightarrow> 'w shared \<Rightarrow> run_result \<times> 'w shared" where
  "enqueue_pipeline_outputs ctx pl result sh =
     (case enqueue_loop ctx (rr_outputs result) sh of (lost, sh1) \<Rightarrow>
      let result = result\<lparr>rr_outputs := []\<rparr> in
      if lost = [] then (result, sh1)
      else case enqueue_records ctx pl lost sh1 of (cs, sh2) \<Rightarrow>
        (result\<lparr>rr_termination := Errored, rr_errored := rr_errored result @ cs\<rparr>, sh2))"

definition run_pipeline_with_outputs_inner :: "'w worker_ctx \<Rightarrow> nat \<Rightarrow> owned_event \<Rightarrow> int \<Rightarrow> worker \<Rightarrow> 'w shared \<Rightarrow>
    run_result res \<times> worker \<times> 'w shared" where
  "run_pipeline_with_outputs_inner ctx n ev dispatch wk sh =
     (case run_pipeline (worker_env ctx wk ev dispatch) n (worker_xstate wk sh) of (res, x) \<Rightarrow>
      let wk' = wk\<lparr>wk_counters := x_counters x, wk_timers := x_timers x\<rparr>;
          sh' = sh\<lparr>sh_world := x_world x, sh_taps := x_taps x\<rparr>
      in case res of
           Ok result \<Rightarrow> (case enqueue_pipeline_outputs ctx (bp_name (wk_pl wk)) result sh' of
             (result', sh'') \<Rightarrow> (Ok result', wk', sh''))
         | Err e \<Rightarrow> (Err e, wk', sh')
         | Crash \<Rightarrow> (Crash, wk', sh'))"

definition write_errored_to_dlq :: "'w worker_ctx \<Rightarrow> errored_ctx \<Rightarrow> pipeline_metrics \<Rightarrow> 'w shared \<Rightarrow> pipeline_metrics \<times> 'w shared" where
  "write_errored_to_dlq ctx c m sh = (case wx_error_log ctx of
     Some write \<Rightarrow> (case write c of
       None \<Rightarrow> (m, sh\<lparr>sh_dlq := sh_dlq sh @ [c]\<rparr>)
     | Some err \<Rightarrow> (m\<lparr>pm_errored_unwritable := pm_errored_unwritable m + 1\<rparr>,
         sh\<lparr>sh_lines := sh_lines sh @ [emit_dlq_tracing_fallback True (wx_fallback ctx) c None (Some err)]\<rparr>))
   | None \<Rightarrow> (m, sh\<lparr>sh_lines := sh_lines sh @ [emit_dlq_tracing_fallback False (wx_fallback ctx) c None None]\<rparr>))"

fun write_all_errored :: "'w worker_ctx \<Rightarrow> errored_ctx list \<Rightarrow> pipeline_metrics \<Rightarrow> 'w shared \<Rightarrow> pipeline_metrics \<times> 'w shared" where
  "write_all_errored ctx [] m sh = (m, sh)"
| "write_all_errored ctx (c # cs) m sh = (case write_errored_to_dlq ctx c m sh of (m', sh') \<Rightarrow> write_all_errored ctx cs m' sh')"

text \<open>Counting a run by its result; \<open>None\<close> is a panic.\<close>

definition settle_run :: "'w worker_ctx \<Rightarrow> rstr \<Rightarrow> owned_event \<Rightarrow> run_result res \<Rightarrow> pipeline_metrics \<Rightarrow> 'w shared \<Rightarrow>
    (pipeline_metrics \<times> 'w shared) option" where
  "settle_run ctx pl ev res m sh = (case res of
     Ok result \<Rightarrow> (case rr_termination result of
       Dropped \<Rightarrow> Some (m\<lparr>pm_dropped := pm_dropped m + 1\<rparr>, sh)
     | Errored \<Rightarrow> Some (write_all_errored ctx (rr_errored result) (m\<lparr>pm_errored := pm_errored m + 1\<rparr>) sh)
     | Finished \<Rightarrow> Some (if rr_had_outputs result then m\<lparr>pm_finished := pm_finished m + 1\<rparr>
                         else m\<lparr>pm_discarded := pm_discarded m + 1\<rparr>, sh))
   | Err e \<Rightarrow> (case wx_now ctx (sh_world sh) of (t, w) \<Rightarrow>
       Some (write_errored_to_dlq ctx (EProcess t pl ''(pipeline body)'' e (process_event_from_owned ev))
         (m\<lparr>pm_errored := pm_errored m + 1\<rparr>) (sh\<lparr>sh_world := w\<rparr>)))
   | Crash \<Rightarrow> None)"

definition run_worker :: "'w worker_ctx \<Rightarrow> nat \<Rightarrow> owned_event \<Rightarrow> int \<Rightarrow> worker \<Rightarrow> 'w shared \<Rightarrow> (worker \<times> 'w shared) option" where
  "run_worker ctx n ev dispatch wk sh =
     (let m = (wk_metrics wk)\<lparr>pm_received := pm_received (wk_metrics wk) + 1\<rparr>;
          m = m\<lparr>pm_inflight := pm_inflight m + 1\<rparr>
      in case run_pipeline_with_outputs_inner ctx n ev dispatch wk sh of (res, wk', sh') \<Rightarrow>
         (case settle_run ctx (bp_name (wk_pl wk)) ev res m sh' of
            None \<Rightarrow> None
          | Some (m', sh'') \<Rightarrow> Some (wk'\<lparr>wk_metrics := m'\<lparr>pm_inflight := gauge_dec (pm_inflight m')\<rparr>\<rparr>, sh'')))"

fun run_workers :: "'w worker_ctx \<Rightarrow> nat \<Rightarrow> owned_event \<Rightarrow> int \<Rightarrow> worker list \<Rightarrow> 'w shared \<Rightarrow> (worker list \<times> 'w shared) option" where
  "run_workers ctx n ev dispatch [] sh = Some ([], sh)"
| "run_workers ctx n ev dispatch (wk # wks) sh = (case run_worker ctx n ev dispatch wk sh of
     None \<Rightarrow> None
   | Some (wk', sh') \<Rightarrow> (case run_workers ctx n ev dispatch wks sh' of
       None \<Rightarrow> None | Some (wks', sh'') \<Rightarrow> Some (wk' # wks', sh'')))"

text \<open>\<open>process_event_at\<close>: the input's queue timer, the input's tap, then the workers in order.\<close>

record input_timer =
  it_histogram :: histogram
  it_negative :: counter

definition input_observe_between :: "int \<Rightarrow> int \<Rightarrow> input_timer \<Rightarrow> input_timer" where
  "input_observe_between received dispatch t =
     (let el = elapsed_since dispatch received in
      t\<lparr>it_negative := it_negative t + (if el_reversed el then 1 else 0),
        it_histogram := hist_observe (as_seconds_f64 (el_duration el)) (it_histogram t)\<rparr>)"

definition process_event_at :: "'w worker_ctx \<Rightarrow> nat \<Rightarrow> string \<Rightarrow> owned_event \<Rightarrow> int \<Rightarrow> worker list \<Rightarrow> input_timer \<Rightarrow> 'w shared \<Rightarrow>
    (worker list \<times> input_timer \<times> 'w shared) option" where
  "process_event_at ctx n tap_key ev dispatch wks timer sh =
     (let sh = (if wx_tap ctx tap_key (sh_world sh) then sh\<lparr>sh_taps := sh_taps sh @ [(tap_key, ev)]\<rparr> else sh) in
      case run_workers ctx n ev dispatch wks sh of
        None \<Rightarrow> None
      | Some (wks', sh') \<Rightarrow> Some (wks', input_observe_between (oe_received_at ev) dispatch timer, sh'))"

definition process_event_now :: "'w worker_ctx \<Rightarrow> nat \<Rightarrow> string \<Rightarrow> owned_event \<Rightarrow> worker list \<Rightarrow> input_timer \<Rightarrow> 'w shared \<Rightarrow>
    (worker list \<times> input_timer \<times> 'w shared) option" where
  "process_event_now ctx n tap_key ev wks timer sh = (case wx_now ctx (sh_world sh) of
     (t, w) \<Rightarrow> process_event_at ctx n tap_key ev t wks timer (sh\<lparr>sh_world := w\<rparr>))"

text \<open>
  \<open>run_pipeline_workers\<close> on the events of the input's channel, in the order they were sent: the loop ends
  when the channel is closed and empty, and a shutdown closes the channel and drains it the same way.
\<close>

fun run_pipeline_workers :: "'w worker_ctx \<Rightarrow> nat \<Rightarrow> string \<Rightarrow> owned_event list \<Rightarrow> worker list \<Rightarrow> input_timer \<Rightarrow> progress \<Rightarrow>
    'w shared \<Rightarrow> (worker list \<times> input_timer \<times> progress \<times> 'w shared) option" where
  "run_pipeline_workers ctx n input_name [] wks timer p sh = Some (wks, timer, p, sh)"
| "run_pipeline_workers ctx n input_name (ev # evs) wks timer p sh =
     (case process_event_now ctx n (''input '' @ input_name) ev wks timer sh of
        None \<Rightarrow> None
      | Some (wks', timer', sh') \<Rightarrow> run_pipeline_workers ctx n input_name evs wks' timer' (progress_mark p) sh')"

subsection \<open>Accounting\<close>

text \<open>Events received and not yet counted by their result.\<close>

definition uncounted :: "pipeline_metrics \<Rightarrow> counter" where
  "uncounted m = pm_received m - pm_finished m - pm_dropped m - pm_discarded m - pm_errored m"

lemma uncounted_update [simp]:
  "uncounted (m\<lparr>pm_errored := pm_errored m + 1\<rparr>) = uncounted m - 1"
  "uncounted (m\<lparr>pm_finished := pm_finished m + 1\<rparr>) = uncounted m - 1"
  "uncounted (m\<lparr>pm_dropped := pm_dropped m + 1\<rparr>) = uncounted m - 1"
  "uncounted (m\<lparr>pm_discarded := pm_discarded m + 1\<rparr>) = uncounted m - 1"
  "uncounted (m\<lparr>pm_inflight := g\<rparr>) = uncounted m"
  "uncounted (m\<lparr>pm_received := pm_received m + 1\<rparr>) = uncounted m + 1"
  "uncounted (m\<lparr>pm_received := pm_received m + 1, pm_inflight := g\<rparr>) = uncounted m + 1"
  by (simp_all add: uncounted_def algebra_simps)

lemma write_errored_effect:
  assumes "write_errored_to_dlq ctx c m sh = (m', sh')"
  shows "uncounted m' = uncounted m \<and> pm_inflight m' = pm_inflight m \<and> pm_received m' = pm_received m
     \<and> sh_queues sh' = sh_queues sh
     \<and> sh_dlq sh' = sh_dlq sh @ (if \<exists>w. wx_error_log ctx = Some w \<and> w c = None then [c] else [])
     \<and> length (sh_dlq sh') + length (sh_lines sh') = Suc (length (sh_dlq sh) + length (sh_lines sh))"
  using assms by (auto simp: write_errored_to_dlq_def uncounted_def split: option.splits)

lemma write_all_errored_effect:
  assumes "write_all_errored ctx cs m sh = (m', sh')"
  shows "uncounted m' = uncounted m \<and> pm_inflight m' = pm_inflight m \<and> pm_received m' = pm_received m
     \<and> sh_queues sh' = sh_queues sh
     \<and> sh_dlq sh' = sh_dlq sh @ filter (\<lambda>c. \<exists>w. wx_error_log ctx = Some w \<and> w c = None) cs
     \<and> length (sh_dlq sh') + length (sh_lines sh') = length cs + (length (sh_dlq sh) + length (sh_lines sh))"
  using assms
proof (induction cs arbitrary: m sh)
  case (Cons c cs)
  obtain m1 sh1 where w: "write_errored_to_dlq ctx c m sh = (m1, sh1)" by fastforce
  then have "write_all_errored ctx cs m1 sh1 = (m', sh')" using Cons.prems by simp
  from Cons.IH[OF this] show ?case
    using write_errored_effect[OF w] by (cases "\<exists>w. wx_error_log ctx = Some w \<and> w c = None") auto
qed simp

lemma write_errored_errored: "write_errored_to_dlq ctx c m sh = (m', sh') \<Longrightarrow> pm_errored m' = pm_errored m"
  by (auto simp: write_errored_to_dlq_def split: option.splits)

lemma write_all_errored_errored: "write_all_errored ctx cs m sh = (m', sh') \<Longrightarrow> pm_errored m' = pm_errored m"
  by (induction ctx cs m sh rule: write_all_errored.induct) (auto split: prod.splits dest: write_errored_errored)

lemma settle_run_balance:
  assumes "settle_run ctx pl ev res m sh = Some (m', sh')"
  shows "uncounted m' = uncounted m - 1 \<and> pm_inflight m' = pm_inflight m \<and> pm_received m' = pm_received m"
proof (cases res)
  case (Ok result)
  show ?thesis
  proof (cases "rr_termination result = Errored")
    case True
    then have "write_all_errored ctx (rr_errored result) (m\<lparr>pm_errored := pm_errored m + 1\<rparr>) sh = (m', sh')"
      using Ok assms by (simp add: settle_run_def)
    from write_all_errored_effect[OF this] show ?thesis by simp
  next
    case False
    then show ?thesis
      using Ok assms by (cases "rr_termination result") (auto simp: settle_run_def split: if_splits)
  qed
next
  case (Err e)
  obtain t w where tw: "wx_now ctx (sh_world sh) = (t, w)" by fastforce
  then have "write_errored_to_dlq ctx (EProcess t pl ''(pipeline body)'' e (process_event_from_owned ev))
      (m\<lparr>pm_errored := pm_errored m + 1\<rparr>) (sh\<lparr>sh_world := w\<rparr>) = (m', sh')"
    using Err assms by (simp add: settle_run_def)
  from write_errored_effect[OF this] show ?thesis by simp
next
  case Crash
  then show ?thesis using assms by (simp add: settle_run_def)
qed

lemma gauge_inc_dec: "gauge_dec (g + 1) = (if g + 1 = 0 then 0 else g)"
  by (simp add: gauge_dec_def)

lemma run_worker_balance:
  assumes "run_worker ctx n ev dispatch wk sh = Some (wk', sh')"
  shows "uncounted (wk_metrics wk') = uncounted (wk_metrics wk)
     \<and> pm_received (wk_metrics wk') = pm_received (wk_metrics wk) + 1
     \<and> (pm_inflight (wk_metrics wk) + 1 \<noteq> 0 \<longrightarrow> pm_inflight (wk_metrics wk') = pm_inflight (wk_metrics wk))"
proof -
  define m where "m = (wk_metrics wk)\<lparr>pm_received := pm_received (wk_metrics wk) + 1,
    pm_inflight := pm_inflight (wk_metrics wk) + 1\<rparr>"
  obtain res wk1 sh1 where r: "run_pipeline_with_outputs_inner ctx n ev dispatch wk sh = (res, wk1, sh1)"
    by (metis prod_cases3)
  obtain m' sh2 where s: "settle_run ctx (bp_name (wk_pl wk)) ev res m sh1 = Some (m', sh2)"
    and wk': "wk' = wk1\<lparr>wk_metrics := m'\<lparr>pm_inflight := gauge_dec (pm_inflight m')\<rparr>\<rparr>"
    using assms r by (auto simp: run_worker_def Let_def m_def split: option.splits)
  show ?thesis
    using settle_run_balance[OF s] unfolding wk' m_def by (simp add: gauge_inc_dec)
qed

text \<open>How a run ends, the counter that is meant for it, and the runs of one worker: each event with the result of its run.\<close>

datatype outcome = AsFinished | AsDiscarded | AsDropped | AsErrored

fun outcome_of :: "run_result res \<Rightarrow> outcome" where
  "outcome_of (Ok r) = (case rr_termination r of
     Finished \<Rightarrow> if rr_had_outputs r then AsFinished else AsDiscarded | Dropped \<Rightarrow> AsDropped | Errored \<Rightarrow> AsErrored)"
| "outcome_of _ = AsErrored"

fun counted_as :: "outcome \<Rightarrow> pipeline_metrics \<Rightarrow> counter" where
  "counted_as AsFinished m = pm_finished m"
| "counted_as AsDiscarded m = pm_discarded m"
| "counted_as AsDropped m = pm_dropped m"
| "counted_as AsErrored m = pm_errored m"

inductive worker_runs :: "'w worker_ctx \<Rightarrow> nat \<Rightarrow> worker \<Rightarrow> (owned_event \<times> run_result res) list \<Rightarrow> worker \<Rightarrow> bool" for ctx n where
  none: "worker_runs ctx n wk [] wk"
| run: "run_pipeline_with_outputs_inner ctx n ev dispatch wk sh = (res, wk1, sh1) \<Longrightarrow> run_worker ctx n ev dispatch wk sh = Some (wk', sh')
    \<Longrightarrow> worker_runs ctx n wk' rs wk'' \<Longrightarrow> worker_runs ctx n wk ((ev, res) # rs) wk''"

lemma write_all_errored_counters: "write_all_errored ctx cs m sh = (m', sh') \<Longrightarrow> counted_as k m' = counted_as k m"
proof (induction ctx cs m sh rule: write_all_errored.induct)
  case (2 ctx c cs m sh)
  then show ?case by (cases k) (auto simp: write_errored_to_dlq_def split: prod.splits option.splits)
qed simp

lemma settle_run_counts:
  assumes "settle_run ctx pl ev res m sh = Some (m', sh')"
  shows "counted_as k m' = counted_as k m + (if outcome_of res = k then 1 else 0)"
proof (cases res)
  case (Ok result)
  show ?thesis
  proof (cases "rr_termination result = Errored")
    case True
    then have "write_all_errored ctx (rr_errored result) (m\<lparr>pm_errored := pm_errored m + 1\<rparr>) sh = (m', sh')"
      using Ok assms by (simp add: settle_run_def)
    from write_all_errored_counters[OF this, of k] show ?thesis using True Ok by (cases k) simp_all
  next
    case False
    then show ?thesis
      using Ok assms by (cases k; cases "rr_termination result") (auto simp: settle_run_def split: if_splits)
  qed
next
  case (Err e)
  then show ?thesis using assms by (cases k) (auto simp: settle_run_def write_errored_to_dlq_def split: prod.splits option.splits)
next
  case Crash
  then show ?thesis using assms by (simp add: settle_run_def)
qed

lemma run_worker_counts:
  assumes "run_worker ctx n ev dispatch wk sh = Some (wk', sh')"
    and "run_pipeline_with_outputs_inner ctx n ev dispatch wk sh = (res, wk1, sh1)"
  shows "counted_as k (wk_metrics wk') = counted_as k (wk_metrics wk) + (if outcome_of res = k then 1 else 0)"
proof -
  define m where "m = (wk_metrics wk)\<lparr>pm_received := pm_received (wk_metrics wk) + 1,
    pm_inflight := pm_inflight (wk_metrics wk) + 1\<rparr>"
  obtain m' sh2 where s: "settle_run ctx (bp_name (wk_pl wk)) ev res m sh1 = Some (m', sh2)"
    and wk': "wk' = wk1\<lparr>wk_metrics := m'\<lparr>pm_inflight := gauge_dec (pm_inflight m')\<rparr>\<rparr>"
    using assms by (auto simp: run_worker_def Let_def m_def split: option.splits)
  have "counted_as k m = counted_as k (wk_metrics wk)" "counted_as k (wk_metrics wk') = counted_as k m'"
    by (cases k; simp add: m_def wk')+
  then show ?thesis using settle_run_counts[OF s, of k] by simp
qed

lemma worker_runs_counts:
  assumes "worker_runs ctx n wk rs wk'"
  shows "counted_as k (wk_metrics wk') = counted_as k (wk_metrics wk) + of_nat (count_list (map (outcome_of \<circ> snd) rs) k)"
    and "pm_received (wk_metrics wk') = pm_received (wk_metrics wk) + of_nat (length rs)"
    and "uncounted (wk_metrics wk') = uncounted (wk_metrics wk)"
  using assms
proof induction
  case (run ev dispatch wk sh res wk1 sh1 wk' sh' rs wk'')
  {
    case 1
    show ?case using run_worker_counts[OF run.hyps(2,1), of k] run.IH(1) by simp
  next
    case 2
    show ?case using run_worker_balance[OF run.hyps(2)] run.IH(2) by simp
  next
    case 3
    show ?case using run_worker_balance[OF run.hyps(2)] run.IH(3) by simp
  }
qed simp_all

lemma run_workers_step:
  assumes "run_workers ctx n ev dispatch wks sh = Some (wks', sh')"
  shows "list_all2 (\<lambda>wk wk'. \<exists>res. \<forall>rs wk''. worker_runs ctx n wk' rs wk'' \<longrightarrow> worker_runs ctx n wk ((ev, res) # rs) wk'') wks wks'"
  using assms
proof (induction wks arbitrary: sh wks')
  case (Cons wk wks)
  obtain wk1 sh1 wks1 where s: "run_worker ctx n ev dispatch wk sh = Some (wk1, sh1)"
    and r: "run_workers ctx n ev dispatch wks sh1 = Some (wks1, sh')" "wks' = wk1 # wks1"
    using Cons.prems by (auto split: option.splits)
  obtain res a b where "run_pipeline_with_outputs_inner ctx n ev dispatch wk sh = (res, a, b)" by (metis prod_cases3)
  then show ?case using Cons.IH[OF r(1)] r(2) worker_runs.run[OF _ s] by auto
qed simp

lemma run_pipeline_workers_runs:
  assumes "run_pipeline_workers ctx n input_name evs wks timer p sh = Some (wks', timer', p', sh')"
  shows "list_all2 (\<lambda>wk wk'. \<exists>rs. map fst rs = evs \<and> worker_runs ctx n wk rs wk') wks wks'"
  using assms
proof (induction evs arbitrary: wks timer p sh)
  case Nil
  then show ?case by (auto simp: list_all2_same intro: worker_runs.none)
next
  case (Cons ev evs)
  obtain wks1 timer1 sh1 where s: "process_event_now ctx n (''input '' @ input_name) ev wks timer sh = Some (wks1, timer1, sh1)"
    and r: "run_pipeline_workers ctx n input_name evs wks1 timer1 (progress_mark p) sh1 = Some (wks', timer', p', sh')"
    using Cons.prems by (auto split: option.splits)
  from s have "list_all2 (\<lambda>wk wk'. \<exists>res. \<forall>rs wk''. worker_runs ctx n wk' rs wk'' \<longrightarrow> worker_runs ctx n wk ((ev, res) # rs) wk'') wks wks1"
    by (auto simp: process_event_now_def process_event_at_def Let_def split: prod.splits option.splits dest: run_workers_step)
  then show ?case
  proof (rule list_all2_trans[OF _ _ Cons.IH[OF r], rotated])
    fix wk wk1 wk2
    assume "\<exists>res. \<forall>rs wk''. worker_runs ctx n wk1 rs wk'' \<longrightarrow> worker_runs ctx n wk ((ev, res) # rs) wk''"
      and "\<exists>rs. map fst rs = evs \<and> worker_runs ctx n wk1 rs wk2"
    then obtain res rs where "map fst ((ev, res) # rs) = ev # evs" "worker_runs ctx n wk ((ev, res) # rs) wk2" by auto
    then show "\<exists>rs. map fst rs = ev # evs \<and> worker_runs ctx n wk rs wk2" by (intro exI[of _ "(ev, res) # rs"] conjI)
  qed
qed

subsection \<open>Nothing is lost silently\<close>

text \<open>The events a queue still owes its output.\<close>

definition queue_contents :: "(bytes \<Rightarrow> queued_event option) \<Rightarrow> queue \<Rightarrow> queued_event list" where
  "queue_contents dec q = (case q of MemQ m \<Rightarrow> mq_items m | DiskQ d \<Rightarrow> unconfirmed dec d)"

definition queue_ok :: "(bytes \<Rightarrow> queued_event option) \<Rightarrow> queue \<Rightarrow> bool" where
  "queue_ok dec q \<longleftrightarrow> (case q of MemQ _ \<Rightarrow> True | DiskQ d \<Rightarrow> dq_inv dec d)"

text \<open>The serialization of an event is one line that reads back as the event.\<close>

definition ser_ok :: "(queued_event \<Rightarrow> bytes option) \<Rightarrow> (bytes \<Rightarrow> queued_event option) \<Rightarrow> queued_event \<Rightarrow> bool" where
  "ser_ok ser dec ev \<longleftrightarrow> (\<forall>data. ser ev = Some data \<longrightarrow> newline \<notin> set data \<and> records dec (data @ [newline]) = [ev])"

lemma backend_send_contents:
  assumes "backend_send ser io ev q = (r, q')" "queue_ok dec q" "ser_ok ser dec ev"
  shows "queue_ok dec q' \<and> set (queue_contents dec q) \<subseteq> set (queue_contents dec q')
     \<and> (\<forall>u. r = Inr u \<longrightarrow> queue_contents dec q' = queue_contents dec q @ [ev])"
proof (cases q)
  case (MemQ m)
  then show ?thesis using assms by (auto simp: backend_send_def queue_ok_def queue_contents_def split: if_splits)
next
  case (DiskQ d)
  show ?thesis
  proof (cases "\<exists>data fault stuck. ser ev = Some data \<and> io = WriteIO fault stuck")
    case True
    then obtain data fault stuck where d: "ser ev = Some data" "io = WriteIO fault stuck" by blast
    obtain ok d' where d': "dq_send fault stuck data d = (ok, d')" by fastforce
    have q': "q' = DiskQ d'" "r = (if ok then Inr () else Inl DiskWrite)"
      using assms(1) DiskQ d d' by (auto simp: backend_send_def split: if_splits)
    have "newline \<notin> set data" "records dec (data @ [newline]) = [ev]" using assms(3) d by (auto simp: ser_ok_def)
    then show ?thesis
      using send_refines[OF _ d', of dec] assms(2) DiskQ q' by (auto simp: queue_ok_def queue_contents_def split: if_splits)
  next
    case False
    then have "q' = q" "\<exists>e. r = Inl e" using assms(1) DiskQ by (auto simp: backend_send_def split: option.splits send_io.splits)
    then show ?thesis using assms(2) by auto
  qed
qed

definition queues_ok :: "(bytes \<Rightarrow> queued_event option) \<Rightarrow> 'w shared \<Rightarrow> bool" where
  "queues_ok dec sh \<longleftrightarrow> (\<forall>name q m. map_of (sh_queues sh) name = Some (q, m) \<longrightarrow> queue_ok dec q)"

definition queued :: "(bytes \<Rightarrow> queued_event option) \<Rightarrow> rstr \<Rightarrow> queued_event \<Rightarrow> 'w shared \<Rightarrow> bool" where
  "queued dec name ev sh \<longleftrightarrow> (\<exists>q m. map_of (sh_queues sh) name = Some (q, m) \<and> ev \<in> set (queue_contents dec q))"

lemma queue_send_contents:
  assumes "queue_send ser io ev q m = (r, q', m')" "queue_ok dec q" "ser_ok ser dec ev"
  shows "queue_ok dec q' \<and> set (queue_contents dec q) \<subseteq> set (queue_contents dec q')
     \<and> (\<forall>u. r = Inr u \<longrightarrow> ev \<in> set (queue_contents dec q'))"
proof -
  obtain r1 q1 where b: "backend_send ser io ev q = (r1, q1)" by fastforce
  then have "q' = q1" "r = r1" using assms(1) by (auto simp: queue_send_def split: sum.splits)
  then show ?thesis using backend_send_contents[OF b assms(2,3)] by auto
qed

lemma queued_send:
  assumes "map_of (sh_queues sh) name = Some (q, m)" "queue_send ser io ev q m = (r, q', m')"
    and "queues_ok dec sh" "ser_ok ser dec ev" "sh1 = sh\<lparr>sh_queues := al_set name (q', m') (sh_queues sh)\<rparr>"
  shows "queues_ok dec sh1 \<and> (\<forall>n e. queued dec n e sh \<longrightarrow> queued dec n e sh1) \<and> (\<forall>u. r = Inr u \<longrightarrow> queued dec name ev sh1)"
proof -
  have "queue_ok dec q" using assms(1,3) by (auto simp: queues_ok_def)
  from queue_send_contents[OF assms(2) this assms(4)] show ?thesis
    using assms(1,3,5) by (auto simp: queues_ok_def queued_def)
qed

text \<open>Each output of the run is in its queue afterwards, or is among the lost ones.\<close>

lemma enqueue_loop_kept:
  assumes "enqueue_loop ctx outs sh = (lost, sh')" "queues_ok dec sh" "\<forall>(name, ev)\<in>set outs. ser_ok (wx_ser ctx) dec ev"
  shows "queues_ok dec sh' \<and> (\<forall>n e. queued dec n e sh \<longrightarrow> queued dec n e sh') \<and> sh_dlq sh' = sh_dlq sh \<and> sh_lines sh' = sh_lines sh
     \<and> sh_world sh' = sh_world sh
     \<and> (\<forall>(name, ev)\<in>set outs. queued dec name ev sh' \<or> (name, output_event_from_owned (qe_event ev)) \<in> set lost)"
  using assms
proof (induction outs arbitrary: sh lost sh')
  case (Cons out outs)
  obtain name ev where out: "out = (name, ev)" by fastforce
  have ser: "ser_ok (wx_ser ctx) dec ev" "\<forall>(name, ev)\<in>set outs. ser_ok (wx_ser ctx) dec ev" using Cons.prems(3) out by auto
  show ?case
  proof (cases "map_of (sh_queues sh) name")
    case None
    obtain l sh1 where l: "enqueue_loop ctx outs sh = (l, sh1)" by fastforce
    have "lost = (name, output_event_from_owned (qe_event ev)) # l" "sh' = sh1"
      using Cons.prems(1) out None l by (auto simp: Let_def)
    then show ?thesis using Cons.IH[OF l Cons.prems(2) ser(2)] out by auto
  next
    case (Some qm)
    obtain q m where qm: "qm = (q, m)" by fastforce
    obtain r q' m' where s: "queue_send (wx_ser ctx) (wx_io ctx name ev) ev q m = (r, q', m')" by (metis prod_cases3)
    define sh1 where "sh1 = sh\<lparr>sh_queues := al_set name (q', m') (sh_queues sh)\<rparr>"
    obtain l sh2 where l: "enqueue_loop ctx outs sh1 = (l, sh2)" by fastforce
    have lost: "lost = (case r of Inr _ \<Rightarrow> l | Inl _ \<Rightarrow> (name, output_event_from_owned (qe_event ev)) # l)" "sh' = sh2"
      using Cons.prems(1) out Some qm s l by (auto simp: Let_def sh1_def split: sum.splits)
    have q1: "queues_ok dec sh1" "\<forall>n e. queued dec n e sh \<longrightarrow> queued dec n e sh1" "\<forall>u. r = Inr u \<longrightarrow> queued dec name ev sh1"
      using queued_send[OF _ s Cons.prems(2) ser(1) sh1_def] Some qm by auto
    show ?thesis
    proof (cases r)
      case (Inl a)
      then show ?thesis using Cons.IH[OF l q1(1) ser(2)] q1 lost out by (auto simp: sh1_def)
    next
      case (Inr b)
      then show ?thesis using Cons.IH[OF l q1(1) ser(2)] q1 lost out by (auto simp: sh1_def)
    qed
  qed
qed simp

lemma enqueue_records_cover:
  assumes "enqueue_records ctx pl lost sh = (cs, sh')"
  shows "length cs = length lost \<and> sh_queues sh' = sh_queues sh \<and> sh_dlq sh' = sh_dlq sh \<and> sh_lines sh' = sh_lines sh
     \<and> (\<forall>(name, snap)\<in>set lost. \<exists>t. EOutput t pl (name @ '' enqueue'') enqueue_reason name snap \<in> set cs)"
  using assms
proof (induction lost arbitrary: sh cs sh')
  case (Cons x lost)
  obtain name snap where x: "x = (name, snap)" by fastforce
  obtain t w where t: "wx_now ctx (sh_world sh) = (t, w)" by fastforce
  obtain cs1 sh1 where r: "enqueue_records ctx pl lost (sh\<lparr>sh_world := w\<rparr>) = (cs1, sh1)" by fastforce
  then show ?case using Cons.IH[OF r] Cons.prems x t by fastforce
qed auto

lemma enqueue_outputs_kept:
  assumes "enqueue_pipeline_outputs ctx pl result sh = (result', sh')"
    and "queues_ok dec sh" "\<forall>(name, ev)\<in>set (rr_outputs result). ser_ok (wx_ser ctx) dec ev"
  shows "queues_ok dec sh'
     \<and> (\<forall>(name, ev)\<in>set (rr_outputs result). queued dec name ev sh'
          \<or> rr_termination result' = Errored
            \<and> (\<exists>t. EOutput t pl (name @ '' enqueue'') enqueue_reason name (output_event_from_owned (qe_event ev)) \<in> set (rr_errored result')))"
proof -
  obtain lost sh1 where l: "enqueue_loop ctx (rr_outputs result) sh = (lost, sh1)" by fastforce
  note k = enqueue_loop_kept[OF l assms(2,3)]
  show ?thesis
  proof (cases "lost = []")
    case True
    then show ?thesis using k l assms(1) by (auto simp: enqueue_pipeline_outputs_def Let_def)
  next
    case False
    obtain cs sh2 where c: "enqueue_records ctx pl lost sh1 = (cs, sh2)" by fastforce
    have r: "rr_termination result' = Errored" "rr_errored result' = rr_errored result @ cs" "sh' = sh2"
      using False c l assms(1) by (auto simp: enqueue_pipeline_outputs_def Let_def)
    note cov = enqueue_records_cover[OF c]
    have q: "queues_ok dec sh2" "queued dec n e sh1 \<longleftrightarrow> queued dec n e sh2" for n e
      using k cov by (simp_all add: queues_ok_def queued_def)
    show ?thesis using k cov q unfolding r by fastforce
  qed
qed

text \<open>
  Every output a pipeline produced is in its queue when the worker is done with the event, or a
  dead-letter record with its snapshot was written.
\<close>

lemma run_worker_outputs:
  assumes run: "run_worker ctx n ev dispatch wk sh = Some (wk', sh')"
    and ok: "run_pipeline (worker_env ctx wk ev dispatch) n (worker_xstate wk sh) = (Ok result, x)"
    and inv: "queues_ok dec sh" and ser: "\<forall>(name, e)\<in>set (rr_outputs result). ser_ok (wx_ser ctx) dec e"
    and log: "wx_error_log ctx = Some write" "\<forall>c. write c = None"
  shows "queues_ok dec sh'
     \<and> (\<forall>(name, e)\<in>set (rr_outputs result). queued dec name e sh'
          \<or> (\<exists>t. EOutput t (bp_name (wk_pl wk)) (name @ '' enqueue'') enqueue_reason name
                (output_event_from_owned (qe_event e)) \<in> set (sh_dlq sh')))"
proof -
  define m where "m = (wk_metrics wk)\<lparr>pm_received := pm_received (wk_metrics wk) + 1,
    pm_inflight := pm_inflight (wk_metrics wk) + 1\<rparr>"
  define sh1 where "sh1 = sh\<lparr>sh_world := x_world x, sh_taps := x_taps x\<rparr>"
  obtain result' sh2 where e: "enqueue_pipeline_outputs ctx (bp_name (wk_pl wk)) result sh1 = (result', sh2)" by fastforce
  have "queues_ok dec sh1" using inv by (simp add: sh1_def queues_ok_def)
  note k = enqueue_outputs_kept[OF e this ser]
  obtain m' where s: "settle_run ctx (bp_name (wk_pl wk)) ev (Ok result') m sh2 = Some (m', sh')"
    using run ok e
    by (auto simp: run_worker_def run_pipeline_with_outputs_inner_def Let_def m_def sh1_def split: option.splits)
  show ?thesis
  proof (cases "rr_termination result' = Errored")
    case True
    then have "write_all_errored ctx (rr_errored result') (m\<lparr>pm_errored := pm_errored m + 1\<rparr>) sh2 = (m', sh')"
      using s by (simp add: settle_run_def)
    from write_all_errored_effect[OF this]
    have w: "sh_queues sh' = sh_queues sh2" "set (rr_errored result') \<subseteq> set (sh_dlq sh')" using log by auto
    show ?thesis using k w by (fastforce simp: queues_ok_def queued_def)
  next
    case False
    then have "sh' = sh2" using s by (cases "rr_termination result'") (auto simp: settle_run_def split: if_splits)
    then show ?thesis using k False by auto
  qed
qed

text \<open>
  A run counted as errored leaves at least one dead-letter record or log line; a run counted
  otherwise leaves none.
\<close>

lemma enqueue_outputs_records:
  assumes "enqueue_pipeline_outputs ctx pl result sh = (result', sh')"
    and "rr_termination result = Errored \<longleftrightarrow> rr_errored result \<noteq> []"
  shows "(rr_termination result' = Errored \<longleftrightarrow> rr_errored result' \<noteq> []) \<and> sh_dlq sh' = sh_dlq sh \<and> sh_lines sh' = sh_lines sh"
proof -
  have loop: "sh_dlq sh2 = sh_dlq sh1 \<and> sh_lines sh2 = sh_lines sh1" if "enqueue_loop ctx outs sh1 = (lost, sh2)" for outs sh1 lost sh2
    using that
    by (induction ctx outs sh1 arbitrary: lost sh2 rule: enqueue_loop.induct)
      (auto simp: Let_def split: option.splits prod.splits sum.splits)
  obtain lost sh1 where l: "enqueue_loop ctx (rr_outputs result) sh = (lost, sh1)" by fastforce
  obtain cs sh2 where c: "enqueue_records ctx pl lost sh1 = (cs, sh2)" by fastforce
  have "lost \<noteq> [] \<Longrightarrow> cs \<noteq> []" using enqueue_records_cover[OF c] by auto
  then show ?thesis
    using loop[OF l] enqueue_records_cover[OF c] assms l c
    by (auto simp: enqueue_pipeline_outputs_def Let_def split: if_splits)
qed

lemma run_worker_recorded:
  assumes run: "run_worker ctx n ev dispatch wk sh = Some (wk', sh')" and b: "bodies_in_range (worker_env ctx wk ev dispatch)"
  shows "length (sh_dlq sh) + length (sh_lines sh) < length (sh_dlq sh') + length (sh_lines sh')
     \<longleftrightarrow> pm_errored (wk_metrics wk') \<noteq> pm_errored (wk_metrics wk)"
proof -
  define m where "m = (wk_metrics wk)\<lparr>pm_received := pm_received (wk_metrics wk) + 1,
    pm_inflight := pm_inflight (wk_metrics wk) + 1\<rparr>"
  obtain res wk1 sh1 where r: "run_pipeline_with_outputs_inner ctx n ev dispatch wk sh = (res, wk1, sh1)"
    by (metis prod_cases3)
  obtain m' where s: "settle_run ctx (bp_name (wk_pl wk)) ev res m sh1 = Some (m', sh')"
    and m': "pm_errored (wk_metrics wk') = pm_errored m'"
    using run r by (auto simp: run_worker_def Let_def m_def split: option.splits)
  have mm: "pm_errored m = pm_errored (wk_metrics wk)" by (simp add: m_def)
  obtain res0 x where x: "run_pipeline (worker_env ctx wk ev dispatch) n (worker_xstate wk sh) = (res0, x)" by fastforce
  have sh1: "sh_dlq sh1 = sh_dlq sh \<and> sh_lines sh1 = sh_lines sh
     \<and> (\<forall>result. res = Ok result \<longrightarrow> (rr_termination result = Errored \<longleftrightarrow> rr_errored result \<noteq> []))"
  proof (cases res0)
    case (Ok result)
    have t: "rr_termination result = Errored \<longleftrightarrow> rr_errored result \<noteq> []"
      using run_pipeline_ended[OF b x[unfolded Ok]] by (auto simp: ended_def split: if_splits)
    obtain result' sh2 where e: "enqueue_pipeline_outputs ctx (bp_name (wk_pl wk)) result
        (sh\<lparr>sh_world := x_world x, sh_taps := x_taps x\<rparr>) = (result', sh2)" by fastforce
    then show ?thesis using enqueue_outputs_records[OF e t] r x Ok by (auto simp: run_pipeline_with_outputs_inner_def Let_def)
  qed (use r x in \<open>auto simp: run_pipeline_with_outputs_inner_def Let_def\<close>)
  show ?thesis
  proof (cases res)
    case (Ok result)
    show ?thesis
    proof (cases "rr_termination result = Errored")
      case True
      then have w: "write_all_errored ctx (rr_errored result) (m\<lparr>pm_errored := pm_errored m + 1\<rparr>) sh1 = (m', sh')"
        using Ok s by (simp add: settle_run_def)
      have "rr_errored result \<noteq> []" using sh1 Ok True by blast
      moreover have "length (sh_dlq sh') + length (sh_lines sh') = length (rr_errored result) + (length (sh_dlq sh) + length (sh_lines sh))"
        using write_all_errored_effect[OF w] sh1 by metis
      ultimately show ?thesis using write_all_errored_errored[OF w] m' mm by simp
    next
      case False
      then have "sh' = sh1" "pm_errored m' = pm_errored m"
        using Ok s by (cases "rr_termination result"; auto simp: settle_run_def split: if_splits)+
      then show ?thesis using sh1 m' mm by simp
    qed
  next
    case (Err e)
    obtain t w where tw: "wx_now ctx (sh_world sh1) = (t, w)" by fastforce
    then have w: "write_errored_to_dlq ctx (EProcess t (bp_name (wk_pl wk)) ''(pipeline body)'' e (process_event_from_owned ev))
        (m\<lparr>pm_errored := pm_errored m + 1\<rparr>) (sh1\<lparr>sh_world := w\<rparr>) = (m', sh')"
      using Err s by (simp add: settle_run_def)
    have "length (sh_dlq sh') + length (sh_lines sh') = Suc (length (sh_dlq sh) + length (sh_lines sh))"
      using write_errored_effect[OF w] sh1 by (metis shared.ext_inject shared.surjective shared.update_convs(1))
    then show ?thesis using write_errored_errored[OF w] m' mm by simp
  qed (use s in \<open>simp add: settle_run_def\<close>)
qed

end
