(* ===== verification/Wal.thy ===== *)
theory Wal
  imports EventJson Worker
begin

section \<open>Records in the write-ahead log\<close>

text \<open>
  The record a disk queue writes for an event, against the queue's own contract: it is one line, and
  reading the line gives the event back if its source is an IPv4 address. For an IPv6 source the
  line is unreadable.
\<close>

text \<open>JSON without floating-point numbers, whose text the JSON crate reads back exactly.\<close>

fun json_exact :: "json \<Rightarrow> bool" where
  "json_exact (JNum (JFloat _)) = False"
| "json_exact (JArr a) = list_all json_exact a"
| "json_exact (JObj m) = list_all (\<lambda>(k, j). json_exact j) m"
| "json_exact _ = True"

fun float_free :: "owned \<Rightarrow> bool" where
  "float_free (OFloat _) = False"
| "float_free (OArray xs) = list_all float_free xs"
| "float_free (OObject m) = list_all (\<lambda>(k, v). float_free v) m"
| "float_free _ = True"

text \<open>What the JSON crate promises of a value: compact text on one line, not blank, that parses back.\<close>

definition serde_ok :: "json_codec \<Rightarrow> json \<Rightarrow> bool" where
  "serde_ok cx j \<longleftrightarrow> (json_exact j \<longrightarrow> (\<exists>t. jx_to_text cx j = Some t \<and> newline \<notin> set t
     \<and> \<not> list_all ascii_whitespace t \<and> jx_of_text cx (t @ [newline]) = Some j))"

lemma num_exact [simp]: "json_exact (JNum (num_of_i64 n))"
  by (simp add: num_of_i64_def)

lemma value_exact: "float_free v \<Longrightarrow> value_to_json cx v = Ok j \<Longrightarrow> json_exact j"
proof (induction v arbitrary: j)
  case (OArray xs)
  obtain ys where ys: "collectR (map (value_to_json cx) xs) = Ok ys" "j = JArr ys" using OArray.prems by auto
  have "\<forall>x\<in>set xs. \<forall>y. value_to_json cx x = Ok y \<longrightarrow> json_exact y" using OArray by (auto simp: list_all_iff)
  then have "list_all json_exact ys" using ys(1)
  proof (induction xs arbitrary: ys)
    case (Cons x xs)
    then show ?case by auto
  qed simp
  then show ?case using ys(2) by simp
next
  case (OObject m)
  obtain es where es: "collectR (map (\<lambda>(k, v). bindR (value_to_json cx v) (\<lambda>j. Ok (escape_user_key k, j))) m) = Ok es"
    "j = JObj (imap_of es)" using OObject.prems by auto
  have "\<forall>(k, v)\<in>set m. \<forall>y. value_to_json cx v = Ok y \<longrightarrow> json_exact y" using OObject by (fastforce simp: list_all_iff)
  then have "list_all (\<lambda>(k, j). json_exact j) es" using es(1)
  proof (induction m arbitrary: es)
    case (Cons x m)
    then show ?case by (cases x) auto
  qed simp
  then show ?case using set_imap_of[of es] es(2) by (auto simp: list_all_iff)
qed (auto split: if_splits)

lemma bytes_exact [simp]: "json_exact (bytes_to_json cx b)"
  by (simp add: bytes_to_json_def)

text \<open>The object of a record: the event's, with the time it was emitted.\<close>

definition event_fields :: "json_codec \<Rightarrow> owned_event \<Rightarrow> (rstr \<times> json) list" where
  "event_fields cx ev = (case to_json_value cx ev of JObj m \<Rightarrow> m | _ \<Rightarrow> [])"

lemma to_json_fields: "to_json_value cx ev = JObj (event_fields cx ev)"
  by (simp add: event_fields_def to_json_value_def to_json_value_with_def)

lemma no_emitted: "''emitted_ns'' \<notin> fst ` set (event_fields cx ev)"
  by (auto simp: event_fields_def to_json_value_def to_json_value_with_def split: option.splits)

lemma event_exact:
  assumes "float_free (OObject (oe_workspace ev))"
  shows "json_exact (JObj (event_fields cx ev))"
proof -
  have "json_exact (case value_to_json cx (OObject (oe_workspace ev)) of Ok j \<Rightarrow> j | _ \<Rightarrow> JObj [])"
    using value_exact[OF assms] by (auto split: res.split)
  then show ?thesis
    by (auto simp: event_fields_def to_json_value_def to_json_value_with_def stamp_json_def list_all_iff split: option.split)
qed

lemma swap_remove_last: "k \<notin> fst ` set m \<Longrightarrow> swap_remove k (m @ [(k, v)]) = m"
proof -
  assume k: "k \<notin> fst ` set m"
  then have "List.extract (\<lambda>x. fst x = k) (m @ [(k, v)]) = Some (m, (k, v), [])"
    by (auto simp: extract_Some_iff)
  then show ?thesis by (simp add: swap_remove_def)
qed

lemma wal_line:
  assumes "serde_ok cx (wal_json cx qe)" "float_free (OObject (oe_workspace (qe_event qe)))" "in_i64 (qe_emitted_ns qe)"
  shows "\<exists>data. wal_ser cx qe = Some data \<and> newline \<notin> set data \<and> \<not> list_all ascii_whitespace data
     \<and> wal_dec cx fresh (data @ [newline]) = map_option (\<lambda>ev. \<lparr>qe_event = ev, qe_emitted_ns = qe_emitted_ns qe\<rparr>)
         (from_json_value cx fresh (to_json_value cx (qe_event qe)))"
proof -
  let ?m = "event_fields cx (qe_event qe)" and ?e = "(''emitted_ns'', JNum (num_of_i64 (qe_emitted_ns qe)))"
  have set: "al_set ''emitted_ns'' (JNum (num_of_i64 (qe_emitted_ns qe))) ?m = ?m @ [?e]"
    by (rule al_set_fresh[OF no_emitted])
  have j: "wal_json cx qe = JObj (?m @ [?e])" by (simp add: wal_json_def to_json_fields set)
  have "json_exact (JObj (?m @ [?e]))" using event_exact[OF assms(2), of cx] by simp
  then obtain t where t: "jx_to_text cx (wal_json cx qe) = Some t" "newline \<notin> set t" "\<not> list_all ascii_whitespace t"
    "jx_of_text cx (t @ [newline]) = Some (JObj (?m @ [?e]))"
    using assms(1) unfolding serde_ok_def j by blast
  have "map_of (?m @ [?e]) ''emitted_ns'' = Some (JNum (num_of_i64 (qe_emitted_ns qe)))"
    using no_emitted[of cx "qe_event qe", folded map_of_eq_None_iff] by (simp add: map_add_def)
  then have "wal_dec cx fresh (t @ [newline]) = map_option (\<lambda>ev. \<lparr>qe_event = ev, qe_emitted_ns = qe_emitted_ns qe\<rparr>)
      (from_json_value cx fresh (JObj ?m))"
    using t(4) as_i64_num[OF assms(3)] swap_remove_last[OF no_emitted[of cx "qe_event qe"]]
    by (simp add: wal_dec_def split: option.split)
  then show ?thesis using t by (auto simp: wal_ser_def to_json_fields)
qed

definition queued_untimed :: "queued_event \<Rightarrow> queued_event" where
  "queued_untimed qe = qe\<lparr>qe_event := untimed_event (qe_event qe)\<rparr>"

text \<open>What makes a queued event one the log can hold.\<close>

definition loggable :: "json_codec \<Rightarrow> queued_event \<Rightarrow> bool" where
  "loggable cx qe \<longleftrightarrow> persistable cx (qe_event qe) \<and> float_free (OObject (oe_workspace (qe_event qe))) \<and> in_i64 (qe_emitted_ns qe)"

lemma records_none:
  assumes "newline \<notin> set d" "line_record dec (d @ [newline]) = None"
  shows "records dec (d @ [newline]) = []"
  using assms by (simp add: records_one)

lemma complete_record: "newline \<notin> set data \<Longrightarrow> complete_line (data @ [newline])"
  by (simp add: complete_line_def)

lemma wal_v4:
  assumes "b64_ok cx" "serde_ok cx (wal_json cx qe)" "loggable cx qe" "oe_source (qe_event qe) = (V4 a b c d, p)" "ip_ok (V4 a b c d)"
  shows "\<exists>data. wal_ser cx qe = Some data \<and> newline \<notin> set data \<and> records (wal_dec cx fresh) (data @ [newline]) = [queued_untimed qe]"
proof -
  obtain data where data: "wal_ser cx qe = Some data" "newline \<notin> set data" "\<not> list_all ascii_whitespace data"
    "wal_dec cx fresh (data @ [newline]) = map_option (\<lambda>ev. \<lparr>qe_event = ev, qe_emitted_ns = qe_emitted_ns qe\<rparr>)
       (from_json_value cx fresh (to_json_value cx (qe_event qe)))"
    using wal_line[OF assms(2), of fresh] assms(3) by (auto simp: loggable_def)
  have port: "p < 65536" using assms(3,4) by (simp add: loggable_def persistable_def)
  have "from_json_value cx fresh (to_json_value cx (qe_event qe)) = Some (untimed_event (qe_event qe))"
    using from_json_fields[OF assms(1), of "qe_event qe" "to_json_value cx (qe_event qe)" fresh] assms(3)
      parse_v4[OF assms(5) port] assms(4)
    by (simp add: loggable_def has_fields_def untimed_event_def)
  then have "line_record (wal_dec cx fresh) (data @ [newline]) = Some (queued_untimed qe)"
    using data complete_record[OF data(2)] by (simp add: line_record_def queued_untimed_def)
  then show ?thesis using data records_line[OF data(2), of "wal_dec cx fresh"] by auto
qed

text \<open>Without timestamps in the workspace the event comes back as it was, so the queue's contract holds.\<close>

lemma wal_ser_ok:
  assumes "b64_ok cx" "serde_ok cx (wal_json cx qe)" "loggable cx qe" "oe_source (qe_event qe) = (V4 a b c d, p)" "ip_ok (V4 a b c d)"
    and "queued_untimed qe = qe"
  shows "ser_ok (wal_ser cx) (wal_dec cx fresh) qe"
  using wal_v4[OF assms(1-5), of fresh] assms(6) by (auto simp: ser_ok_def)

text \<open>A record of an event from an IPv6 source is no record.\<close>

lemma wal_v6:
  assumes "b64_ok cx" "serde_ok cx (wal_json cx qe)" "loggable cx qe" "oe_source (qe_event qe) = (V6 ss, p)" "length ss = 8"
  shows "\<exists>data. wal_ser cx qe = Some data \<and> newline \<notin> set data \<and> records (wal_dec cx fresh) (data @ [newline]) = []"
proof -
  obtain data where data: "wal_ser cx qe = Some data" "newline \<notin> set data" "\<not> list_all ascii_whitespace data"
    "wal_dec cx fresh (data @ [newline]) = map_option (\<lambda>ev. \<lparr>qe_event = ev, qe_emitted_ns = qe_emitted_ns qe\<rparr>)
       (from_json_value cx fresh (to_json_value cx (qe_event qe)))"
    using wal_line[OF assms(2), of fresh] assms(3) by (auto simp: loggable_def)
  have "from_json_value cx fresh (to_json_value cx (qe_event qe)) = None"
    using from_json_fields[OF assms(1), of "qe_event qe" "to_json_value cx (qe_event qe)" fresh] assms(3)
      parse_v6[OF assms(5)] assms(4)
    by (simp add: loggable_def has_fields_def)
  then have "line_record (wal_dec cx fresh) (data @ [newline]) = None" using data by (simp add: line_record_def)
  then show ?thesis using data records_none[OF data(2), of "wal_dec cx fresh"] by auto
qed

text \<open>A send of such an event succeeds and leaves nothing to deliver.\<close>

lemma send_v6:
  assumes "b64_ok cx" "serde_ok cx (wal_json cx qe)" "loggable cx qe" "oe_source (qe_event qe) = (V6 ss, p)" "length ss = 8"
    and "dq_inv (wal_dec cx fresh) d" "backend_send (wal_ser cx) (WriteIO NoFault stuck) qe (DiskQ d) = (Inr (), q')"
  shows "\<exists>d'. q' = DiskQ d' \<and> dq_inv (wal_dec cx fresh) d' \<and> unconfirmed (wal_dec cx fresh) d' = unconfirmed (wal_dec cx fresh) d"
proof -
  obtain data where data: "wal_ser cx qe = Some data" "newline \<notin> set data" "records (wal_dec cx fresh) (data @ [newline]) = []"
    using wal_v6[OF assms(1-5)] by blast
  obtain ok d' where d': "dq_send NoFault stuck data d = (ok, d')" by fastforce
  then have "q' = DiskQ d'" "ok" using assms(7) data(1) by (auto simp: backend_send_def split: if_splits)
  then show ?thesis using send_refines[OF assms(6) d' data(2)] data(3) by auto
qed

end
