(* ===== verification/DiskQueue_Race.thy ===== *)
theory DiskQueue_Race
  imports DiskQueue_Spec
begin

section \<open>Reading while the writer writes\<close>

text \<open>
  The queue with a receiver that is interrupted. An operation of the writer, a closing or a restart runs at any point
  between two steps of \<open>try_read_next\<close>; an acknowledgement runs when no read is under way, since both are the receiver's.
  A look without the mutex sees the file up to some byte, so that a write in progress is visible in part: the write itself
  is one operation here, and the looks that come too early for its last bytes are hidden. A second look at a segment that was
  not the writer's when the mutex was taken is not hidden: no write to it was in progress then, and a later one to a segment
  that is opened again goes behind a complete line.
\<close>

subsection \<open>Steps\<close>

datatype live_op = Other dq_op | Tick nat | TickFails

type_synonym live_queue = "disk_queue \<times> read_pc"

definition look_upto :: "nat \<Rightarrow> (nat \<times> bytes) list \<Rightarrow> nat \<Rightarrow> look" where
  "look_upto hidden segs s = (case map_of segs s of None \<Rightarrow> Absent | Some c \<Rightarrow> Content (take (length c - hidden) c))"

fun live_look :: "live_op \<Rightarrow> disk_queue \<Rightarrow> look" where
  "live_look (Tick hidden) q = look_upto hidden (wd_segments (q_dir q)) (rx_read_seq (q_rx q))"
| "live_look _ q = ReadError"

definition live_read :: "(bytes \<Rightarrow> 'e option) \<Rightarrow> live_op \<Rightarrow> live_queue \<Rightarrow> 'e read_state" where
  "live_read dec op s = (case s of (q, pc) \<Rightarrow>
     read_step dec (live_look op q) (dq_write_seq (q_state q)) (writer_active q) pc (q_rx q))"

definition after_read :: "disk_queue \<Rightarrow> 'e read_state \<Rightarrow> live_queue" where
  "after_read q r = (case r of Running pc rx \<Rightarrow> (sync_reader rx q, pc) | Done _ rx \<Rightarrow> (sync_reader rx q, Look))"

fun live_step :: "(bytes \<Rightarrow> 'e option) \<Rightarrow> live_op \<Rightarrow> live_queue \<Rightarrow> live_queue" where
  "live_step dec (Other op) s = (dq_step dec op (fst s), case op of Restart _ \<Rightarrow> Look | _ \<Rightarrow> snd s)"
| "live_step dec op s = after_read (fst s) (live_read dec op s)"

text \<open>
  The histories in which the receiver never leaves a segment that still has bytes to read. The program does not rule the
  others out: it compares the sequence numbers after the look that found the end of the file.
\<close>

fun live_allowed :: "live_op \<Rightarrow> live_queue \<Rightarrow> bool" where
  "live_allowed (Other op) s \<longleftrightarrow> dq_allowed op (fst s) \<and> (case op of Recv \<Rightarrow> False | Ack _ _ _ _ \<Rightarrow> snd s = Look | _ \<Rightarrow> True)"
| "live_allowed (Tick hidden) s \<longleftrightarrow> (snd s = Reread False \<longrightarrow> hidden = 0)
     \<and> \<not> overruns (wd_segments (q_dir (fst s))) (dq_write_seq (q_state (fst s))) (snd s) (q_rx (fst s))"
| "live_allowed TickFails s \<longleftrightarrow>
     \<not> overruns (wd_segments (q_dir (fst s))) (dq_write_seq (q_state (fst s))) (snd s) (q_rx (fst s))"

fun live_sent :: "(bytes \<Rightarrow> 'e option) \<Rightarrow> live_op \<Rightarrow> live_queue \<Rightarrow> 'e list" where
  "live_sent dec (Other op) s = dq_sent dec op (fst s)"
| "live_sent dec _ s = []"

fun live_confirmed :: "(bytes \<Rightarrow> 'e option) \<Rightarrow> live_op \<Rightarrow> live_queue \<Rightarrow> 'e list" where
  "live_confirmed dec (Other op) s = dq_confirmed dec op (fst s)"
| "live_confirmed dec _ s = []"

fun live_delivered :: "(bytes \<Rightarrow> 'e option) \<Rightarrow> live_op \<Rightarrow> live_queue \<Rightarrow> 'e list" where
  "live_delivered dec (Other op) s = []"
| "live_delivered dec op s = (case live_read dec op s of Done (Some (e, _)) _ \<Rightarrow> [e] | _ \<Rightarrow> [])"

subsection \<open>At least once, whatever is in between\<close>

lemma live_sees: "pc = Reread False \<longrightarrow> live_look op q = live_look (Tick 0) q \<or> live_look op q = ReadError
    \<Longrightarrow> sees (wd_segments (q_dir q)) pc (q_rx q) (live_look op q)"
proof -
  assume pc: "pc = Reread False \<longrightarrow> live_look op q = live_look (Tick 0) q \<or> live_look op q = ReadError"
  have "seg (wd_segments (q_dir q)) (rx_read_seq (q_rx q)) = c @ drop (length c) (seg (wd_segments (q_dir q)) (rx_read_seq (q_rx q)))"
    if "live_look op q = Content c" for c
    using that by (cases op) (auto simp: look_upto_def seg_def split: option.splits)
  moreover have "c = seg (wd_segments (q_dir q)) (rx_read_seq (q_rx q))" if "live_look (Tick 0) q = Content c" for c
    using that by (auto simp: look_upto_def seg_def split: option.splits)
  ultimately show ?thesis using pc by (auto simp: sees_def split: look.split)
qed

lemma live_read_refines:
  assumes inv: "dq_inv dec q" and ok: "live_allowed op (q, pc)" and op: "\<forall>x. op \<noteq> Other x"
    and s': "live_step dec op (q, pc) = (q', pc')"
  shows "dq_inv dec q' \<and> unconfirmed dec q' = unconfirmed dec q
     \<and> unread dec q = live_delivered dec op (q, pc) @ unread dec q'"
proof -
  let ?segs = "wd_segments (q_dir q)" and ?ws = "dq_write_seq (q_state q)"
  have sees: "sees ?segs pc (q_rx q) (live_look op q)" using ok op by (intro live_sees) (cases op; auto)
  have over: "\<not> overruns ?segs ?ws pc (q_rx q)" using ok op by (cases op) auto
  note moves = read_step_moves[OF reader_ok(1)[OF inv] sees over]
  have step: "live_step dec op (q, pc) = after_read q (live_read dec op (q, pc))"
    "live_delivered dec op (q, pc) = (case live_read dec op (q, pc) of Done (Some (e, _)) _ \<Rightarrow> [e] | _ \<Rightarrow> [])"
    using op by (cases op; simp)+
  show ?thesis
  proof (cases "live_read dec op (q, pc)")
    case (Running pc1 rx)
    then show ?thesis
      using moved_refines[OF inv moves(1)] s' step by (auto simp: live_read_def after_read_def)
  next
    case (Done r rx)
    show ?thesis
    proof (cases r)
      case None
      have "rx = q_rx q" using moves(2)[of "writer_active q" None rx] Done None by (simp add: live_read_def)
      moreover have "sync_reader (q_rx q) q = q" using inv by (simp add: dq_inv_def)
      ultimately show ?thesis using Done None s' step inv by (simp add: after_read_def)
    next
      case (Some x)
      have "read_result dec ?segs ?ws (q_rx q) r rx" using moves(2)[of "writer_active q" r rx] Done Some by (simp add: live_read_def)
      from read_refines[OF inv this] show ?thesis using Done Some s' step by (cases x) (auto simp: after_read_def)
    qed
  qed
qed

interpretation live: at_least_once "\<lambda>s. dq_inv dec (fst s)" "\<lambda>s. unconfirmed dec (fst s)" "live_step dec" live_allowed
    "live_sent dec" "live_confirmed dec"
  for dec :: "bytes \<Rightarrow> 'e option"
proof
  fix s op assume inv: "dq_inv dec (fst s)" and ok: "live_allowed op s"
  have "dq_inv dec (fst (live_step dec op s)) \<and> (\<exists>extra more. extra @ unconfirmed dec (fst s) @ live_sent dec op s @ more
      = live_confirmed dec op s @ unconfirmed dec (fst (live_step dec op s)))"
  proof (cases "\<exists>x. op = Other x")
    case True
    then obtain x where x: "op = Other x" ..
    then have "dq_allowed x (fst s)" using ok by simp
    then show ?thesis using x dq.step_inv[OF inv] dq.step_keeps[OF inv] by simp
  next
    case False
    obtain q pc where s: "s = (q, pc)" by fastforce
    obtain q' pc' where s': "live_step dec op (q, pc) = (q', pc')" by fastforce
    have "live_sent dec op s = []" "live_confirmed dec op s = []" using False by (cases op; simp)+
    then show ?thesis
      using live_read_refines[OF _ _ _ s', of] inv ok False s s'
      by (intro conjI exI[of _ "[]"]) auto
  qed
  then show "dq_inv dec (fst (live_step dec op s))"
    "\<exists>extra more. extra @ unconfirmed dec (fst s) @ live_sent dec op s @ more
      = live_confirmed dec op s @ unconfirmed dec (fst (live_step dec op s))"
    by auto
qed

text \<open>The steps of a read in which nothing else runs end as \<open>try_read_next\<close> does.\<close>

lemma undisturbed_read:
  assumes "dq_recv dec q = (r, q')" "dq_read_seq (q_state q) = rx_read_seq (q_rx q)"
  shows "\<exists>n. run_ops (live_step dec) (replicate n (Tick 0)) (q, Look) = (q', Look)"
proof -
  define segs ws active where "segs = wd_segments (q_dir q)" and "ws = dq_write_seq (q_state q)" and "active = writer_active q"
  have look: "look_upto 0 segs s = look_at segs s" for s by (simp add: look_upto_def look_at_def split: option.split)
  have step: "live_step dec (Tick 0) (sync_reader rx q, pc) = (case read_step dec (look_at segs (rx_read_seq rx)) ws active pc rx of
      Running pc' rx' \<Rightarrow> (sync_reader rx' q, pc') | Done _ rx' \<Rightarrow> (sync_reader rx' q, Look))" for rx pc
    using look by (simp add: live_read_def after_read_def segs_def ws_def active_def split: read_state.split)
  have "\<exists>n. run_ops (live_step dec) (replicate n (Tick 0)) (sync_reader rx0 q, pc) = (sync_reader rx q, Look)"
    if "read_loop dec segs ws active pc rx0 = (r, rx)" for pc rx0 rx
    using that step
  proof (induction dec segs ws active pc rx0 rule: read_loop.induct)
    case (1 dec segs ws active pc rx0)
    note loop = 1(2)[unfolded read_loop.simps[of dec segs ws active pc rx0]]
    show ?case
    proof (cases "read_step dec (look_at segs (rx_read_seq rx0)) ws active pc rx0")
      case (Running pc' rx')
      then obtain n where "run_ops (live_step dec) (replicate n (Tick 0)) (sync_reader rx' q, pc') = (sync_reader rx q, Look)"
        using 1(1)[OF Running _ 1(3)] loop by auto
      then show ?thesis using Running 1(3)[of rx0 pc] by (intro exI[of _ "Suc n"]) simp
    next
      case (Done r' rx')
      then show ?thesis using loop 1(3)[of rx0 pc] by (intro exI[of _ 1]) simp
    qed
  qed
  moreover have "sync_reader (q_rx q) q = q" using assms(2)[symmetric] by simp
  moreover obtain rx where "read_loop dec segs ws active Look (q_rx q) = (r, rx)" "q' = sync_reader rx q"
    using assms(1) by (auto simp: dq_recv_def try_read_next_def segs_def ws_def active_def split: prod.splits)
  ultimately show ?thesis by metis
qed

subsection \<open>The histories left out\<close>

text \<open>
  A queue whose only segment is read and acknowledged up to \<open>k\<close>, and the same queue after a record that did not fit into it.
\<close>

definition lines :: "bytes list \<Rightarrow> bytes" where
  "lines ds = concat (map (\<lambda>d. d @ [newline]) ds)"

definition empty_dir :: wal_dir where "empty_dir = \<lparr>wd_segments = [], wd_cursor = None\<rparr>"

definition one_segment :: "nat \<Rightarrow> nat \<Rightarrow> bytes option \<Rightarrow> bytes \<Rightarrow> disk_queue" where
  "one_segment m k cur b = \<lparr>q_dir = \<lparr>wd_segments = [(0, b)], wd_cursor = cur\<rparr>,
     q_state = \<lparr>dq_max_size = m, dq_write_seq = 0, dq_write_open = True, dq_write_size = length b, dq_read_seq = 0, dq_acked_seq = 0\<rparr>,
     q_rx = \<lparr>rx_read_seq = 0, rx_read_offset = k, rx_acked_seq = 0, rx_acked_offset = k, rx_in_flight = []\<rparr>, q_closed = False\<rparr>"

definition two_segments :: "nat \<Rightarrow> nat \<Rightarrow> bytes option \<Rightarrow> bytes \<Rightarrow> bytes \<Rightarrow> disk_queue" where
  "two_segments m k cur b c = (one_segment m k cur b)\<lparr>q_dir := \<lparr>wd_segments = [(0, b), (1, c)], wd_cursor = cur\<rparr>,
     q_state := \<lparr>dq_max_size = m, dq_write_seq = 1, dq_write_open = True, dq_write_size = length c, dq_read_seq = 0, dq_acked_seq = 0\<rparr>\<rparr>"

lemma enforce_none: "enforce_max_size stuck m 0 segs = segs"
proof -
  have "enforce_loop stuck m 0 tot sizes segs = segs" for tot sizes by (cases sizes) auto
  then show ?thesis by (simp add: enforce_max_size_def Let_def)
qed

lemma send_first:
  "length d + 1 \<le> segment_max_bytes \<Longrightarrow> dq_send NoFault stuck d (create_disk_queue m empty_dir) = (True, one_segment m 0 None (d @ [newline]))"
  by (simp add: dq_send_def create_disk_queue_def recover_state_def empty_dir_def load_cursor_def write_to_segment_def
      inspect_tail_def rotate_def open_segment_def Let_def append_segment_def seg_def enforce_none one_segment_def)

lemma send_next:
  "length b + length d + 1 \<le> segment_max_bytes \<Longrightarrow> dq_send NoFault stuck d (one_segment m k cur b) = (True, one_segment m k cur (b @ d @ [newline]))"
  by (simp add: dq_send_def one_segment_def write_to_segment_def inspect_tail_def rotate_def open_segment_def Let_def
      append_segment_def seg_def enforce_none)

lemma send_over:
  "segment_max_bytes < length b + length d + 1 \<Longrightarrow> dq_send NoFault stuck d (one_segment m k cur b) = (True, two_segments m k cur b (d @ [newline]))"
  by (simp add: dq_send_def one_segment_def two_segments_def write_to_segment_def inspect_tail_def rotate_def open_segment_def Let_def
      append_segment_def seg_def enforce_none)

abbreviation line_sends :: "(nat \<Rightarrow> bool) \<Rightarrow> bytes list \<Rightarrow> live_op list" where
  "line_sends stuck ds \<equiv> map (\<lambda>d. Other (Send NoFault stuck d)) ds"

lemma run_ops_append: "run_ops step (xs @ ys) s = run_ops step ys (run_ops step xs s)"
  by (induction xs arbitrary: s) auto

lemma observe_append: "observe obs step (xs @ ys) s = observe obs step xs s @ observe obs step ys (run_ops step xs s)"
  by (induction xs arbitrary: s) auto

lemma send_lines:
  assumes "length b + length (lines ds) \<le> segment_max_bytes"
  shows "run_ops (live_step dec) (line_sends stuck ds) (one_segment m k cur b, pc) = (one_segment m k cur (b @ lines ds), pc)
    \<and> observe (live_sent dec) (live_step dec) (line_sends stuck ds) (one_segment m k cur b, pc) = concat (map (\<lambda>d. records dec (d @ [newline])) ds)
    \<and> observe (live_delivered dec) (live_step dec) (line_sends stuck ds) (one_segment m k cur b, pc) = []"
  using assms
proof (induction ds arbitrary: b)
  case (Cons d ds)
  have "length b + length d + 1 \<le> segment_max_bytes" "length (b @ d @ [newline]) + length (lines ds) \<le> segment_max_bytes"
    using Cons.prems by (simp_all add: lines_def)
  then show ?case using Cons.IH[of "b @ d @ [newline]"] by (simp add: send_next) (simp add: lines_def)
qed (simp add: lines_def)

lemma first_line_whole: "newline \<notin> set d \<Longrightarrow> first_line (d @ [newline]) = d @ [newline]"
  by (induction d) auto

text \<open>The receiver steps over the first segment, takes the record of the second and acknowledges it.\<close>

definition stepped_over :: "nat \<Rightarrow> nat \<Rightarrow> bytes option \<Rightarrow> bytes \<Rightarrow> bytes \<Rightarrow> disk_queue" where
  "stepped_over m k cur b c = sync_reader \<lparr>rx_read_seq = 1, rx_read_offset = length c, rx_acked_seq = 0, rx_acked_offset = k,
     rx_in_flight = [\<lparr>if_start_seq = 1, if_start_offset = 0, if_end_seq = 1, if_end_offset = length c, if_acked = False\<rparr>]\<rparr>
     (two_segments m k cur b c)"

lemma step_over:
  assumes "newline \<notin> set d" "line_record dec (d @ [newline]) = Some e"
  shows "run_ops (live_step dec) [Tick 0, Tick 0] (two_segments m k cur b (d @ [newline]), Checking)
      = (stepped_over m k cur b (d @ [newline]), Look)"
    and "observe (live_delivered dec) (live_step dec) [Tick 0, Tick 0] (two_segments m k cur b (d @ [newline]), Checking) = [e]"
  using assms first_line_whole[OF assms(1)]
  by (simp_all add: live_read_def after_read_def two_segments_def one_segment_def next_segment_def look_upto_def incomplete_def
      complete_line_def take_line_def advance_over_def stepped_over_def)

lemma ack_over:
  assumes "length c < 2 ^ 64" "c \<noteq> []"
  shows "unread dec (create_disk_queue m' (q_dir (ack_to (\<lambda>_. False) True 1 0 (stepped_over m k cur b c)))) = []"
proof -
  define dir where "dir = q_dir (ack_to (\<lambda>_. False) True 1 0 (stepped_over m k cur b c))"
  have dir: "dir = save_cursor True 1 (length c) \<lparr>wd_segments = [(1, c)], wd_cursor = cur\<rparr>"
    by (simp add: dir_def ack_to_def stepped_over_def two_segments_def one_segment_def remove_segments_def Let_def)
  have segs: "wd_segments dir = [(1, c)]" by (simp add: dir)
  have "load_cursor dir = (1, length c)" unfolding dir using assms(1) by (intro load_save_cursor) simp_all
  then have "unread dec (create_disk_queue m' dir) = []"
    using segs by (simp add: unread_def rec_log_def create_fields recs_def maxseq_def seg_def)
  then show ?thesis by (simp add: dir_def)
qed

text \<open>
  Records that the writer puts into the open segment after the receiver found its end, and before the receiver compares the
  sequence numbers, are stepped over when one more record begins a new segment in the same moment. The acknowledgement of that
  record removes them.
\<close>

definition overrun_ops :: "(nat \<Rightarrow> bool) \<Rightarrow> bytes list \<Rightarrow> bytes \<Rightarrow> live_op list" where
  "overrun_ops stuck ds d = Tick 0 # line_sends stuck ds @ line_sends stuck [d] @ [Tick 0, Tick 0] @ [Other (Ack (\<lambda>_. False) True 1 0)]"

lemma overrun_history:
  fixes dec :: "bytes \<Rightarrow> 'e option" and b :: bytes and m :: nat and cur :: "bytes option"
  assumes "length b + length (lines ds) \<le> segment_max_bytes" "segment_max_bytes < length b + length (lines ds) + length d + 1"
    and "newline \<notin> set d" "line_record dec (d @ [newline]) = Some e"
  defines "q \<equiv> one_segment m (length b) cur b" and "c \<equiv> d @ [newline]"
  shows "observe (live_sent dec) (live_step dec) (overrun_ops stuck ds d) (q, Look)
      = concat (map (\<lambda>x. records dec (x @ [newline])) ds) @ [e]"
    and "observe (live_delivered dec) (live_step dec) (overrun_ops stuck ds d) (q, Look) = [e]"
    and "run_ops (live_step dec) (overrun_ops stuck ds d) (q, Look)
      = (ack_to (\<lambda>_. False) True 1 0 (stepped_over m (length b) cur (b @ lines ds) c), Look)"
proof -
  have tick: "live_step dec (Tick 0) (q, Look) = (q, Checking)" "live_delivered dec (Tick 0) (q, Look) = []"
    by (simp_all add: live_read_def after_read_def q_def one_segment_def look_upto_def incomplete_def take_line_def)
  note fill = send_lines[OF assms(1), of dec stuck m "length b" cur Checking, folded q_def]
  have over: "dq_send NoFault stuck d (one_segment m (length b) cur (b @ lines ds)) = (True, two_segments m (length b) cur (b @ lines ds) c)"
    using send_over[of "b @ lines ds" d] assms(2) by (simp add: c_def)
  have last: "records dec c = [e]" using records_line[OF assms(3,4)] by (simp add: c_def)
  note steps = step_over[OF assms(3,4), of m "length b" cur "b @ lines ds", folded c_def]
  note expand = overrun_ops_def run_ops.simps observe.simps(2) run_ops_append observe_append tick fill[THEN conjunct1]
    fill[THEN conjunct2, THEN conjunct1] fill[THEN conjunct2, THEN conjunct2]
  show "run_ops (live_step dec) (overrun_ops stuck ds d) (q, Look)
      = (ack_to (\<lambda>_. False) True 1 0 (stepped_over m (length b) cur (b @ lines ds) c), Look)"
    unfolding expand using steps(1) by (simp add: over)
  show "observe (live_sent dec) (live_step dec) (overrun_ops stuck ds d) (q, Look) = concat (map (\<lambda>x. records dec (x @ [newline])) ds) @ [e]"
    unfolding expand using last by (simp add: over c_def)
  show "observe (live_delivered dec) (live_step dec) (overrun_ops stuck ds d) (q, Look) = [e]"
    unfolding expand using steps(2) by (simp add: over)
qed

end
