(* ===== verification/Delivery.thy ===== *)
theory Delivery
  imports Examples Consumer_Facts Wal Batched DiskQueue_Race
begin

text \<open>
  The properties of delivery: the disk queue, its consumer, the dead letters and the pipeline
  workers, each with a witness on a concrete queue or event.
\<close>

section \<open>The disk queue\<close>

text \<open>The empty directory, one record in it, and a decoder for which every line is a record.\<close>

definition ex_dec :: "bytes \<Rightarrow> bytes option" where "ex_dec l = Some (butlast l)"

definition ex_dir :: wal_dir where "ex_dir = \<lparr>wd_segments = [], wd_cursor = None\<rparr>"

definition ex_queue :: disk_queue where "ex_queue = create_disk_queue 0 ex_dir"

definition ex_queue1 :: disk_queue where "ex_queue1 = snd (dq_send NoFault (\<lambda>_. False) ''one'' ex_queue)"

definition ex_queue2 :: disk_queue where "ex_queue2 = snd (dq_recv ex_dec ex_queue1)"

lemma ex_queue_inv: "dq_inv ex_dec ex_queue" "unconfirmed ex_dec ex_queue = []" "unread ex_dec ex_queue = []"
  using create_inv[where m = 0 and dec = ex_dec, OF empty_dir_ok]
  by (simp_all add: ex_queue_def ex_dir_def recs_def load_cursor_def maxseq_def seg_def)

lemma ex_line: "records ex_dec (''one'' @ [newline]) = [''one'']"
  by (intro records_line) (auto simp: newline_def line_record_def complete_line_def ex_dec_def ascii_whitespace_def)

lemma ex_one: "dq_send NoFault (\<lambda>_. False) ''one'' ex_queue = (True, ex_queue1)" "newline \<notin> set ''one''"
  by (simp_all add: ex_queue1_def dq_send_def ex_queue_def create_disk_queue_def recover_state_def ex_dir_def load_cursor_def
      write_to_segment_def inspect_tail_def rotate_def open_segment_def segment_max_bytes_def Let_def newline_def)

lemma ex_queue1_inv: "dq_inv ex_dec ex_queue1" "unconfirmed ex_dec ex_queue1 = [''one'']" "unread ex_dec ex_queue1 = [''one'']"
  using send_refines[OF ex_queue_inv(1) ex_one] ex_queue_inv ex_line by auto

lemma ex_recv: "dq_recv ex_dec ex_queue1 = (Some (''one'', 0, 0), ex_queue2)"
  "rx_in_flight (q_rx ex_queue2) = [\<lparr>if_start_seq = 0, if_start_offset = 0, if_end_seq = 0, if_end_offset = 4, if_acked = False\<rparr>]"
  "fits_u64 (wd_segments (q_dir ex_queue2))"
proof -
  have q1: "ex_queue1 = \<lparr>q_dir = \<lparr>wd_segments = [(0, ''one'' @ [newline])], wd_cursor = None\<rparr>,
    q_state = \<lparr>dq_max_size = 0, dq_write_seq = 0, dq_write_open = True, dq_write_size = 4, dq_read_seq = 0, dq_acked_seq = 0\<rparr>,
    q_rx = \<lparr>rx_read_seq = 0, rx_read_offset = 0, rx_acked_seq = 0, rx_acked_offset = 0, rx_in_flight = []\<rparr>, q_closed = False\<rparr>"
    by (simp add: ex_queue1_def dq_send_def ex_queue_def create_disk_queue_def recover_state_def ex_dir_def load_cursor_def
        write_to_segment_def inspect_tail_def rotate_def open_segment_def segment_max_bytes_def Let_def newline_def
        append_segment_def seg_def enforce_max_size_def)
  have "fst (dq_recv ex_dec ex_queue1) = Some (''one'', 0, 0) \<and> rx_in_flight (q_rx ex_queue2) =
      [\<lparr>if_start_seq = 0, if_start_offset = 0, if_end_seq = 0, if_end_offset = 4, if_acked = False\<rparr>]
      \<and> wd_segments (q_dir ex_queue2) = [(0, ''one'' @ [newline])]"
    by (simp add: ex_queue2_def q1 dq_recv_def try_read_next_def read_loop.simps look_at_def take_line_def incomplete_def advance_over_def newline_def complete_line_def line_record_def
        ascii_whitespace_def ex_dec_def Let_def)
  then show "dq_recv ex_dec ex_queue1 = (Some (''one'', 0, 0), ex_queue2)"
    "rx_in_flight (q_rx ex_queue2) = [\<lparr>if_start_seq = 0, if_start_offset = 0, if_end_seq = 0, if_end_offset = 4, if_acked = False\<rparr>]"
    "fits_u64 (wd_segments (q_dir ex_queue2))"
    unfolding ex_queue2_def by (simp_all add: fits_u64_def prod_eq_iff)
qed

text \<open>C18: Sending a record appends it behind everything not yet confirmed, as the record that the reader makes of its line: a
  line that reads back as a record appends exactly that record, and one that does not (an event from an IPv6 source has
  such a line) appends none. When the send fails nothing already queued is lost: at most the record itself has still reached the log.\<close>

theorem queue_send_appends:
  assumes "dq_inv dec q" "dq_send fault stuck data q = (ok, q')" "newline \<notin> set data"
  shows "\<exists>new. dq_inv dec q' \<and> unconfirmed dec q' = unconfirmed dec q @ new \<and> unread dec q' = unread dec q @ new
     \<and> (if ok then new = records dec (data @ [newline]) else new \<in> {[], records dec (data @ [newline])})
     \<and> records dec (data @ [newline]) = (case line_record dec (data @ [newline]) of Some e \<Rightarrow> [e] | None \<Rightarrow> [])"
  using send_refines[OF assms] records_one[OF assms(3), of dec] by auto

theorem queue_send_appends_witness: "unconfirmed ex_dec ex_queue1 = [] @ [''one'']"
  using queue_send_appends[OF ex_queue_inv(1) ex_one] ex_queue_inv ex_line by auto

text \<open>Receiving hands out the oldest record that was not handed out since the queue was opened, and only reports
  none when there is none.\<close>

theorem queue_recv_oldest:
  assumes "dq_inv dec q" "dq_recv dec q = (r, q')"
  shows "dq_inv dec q' \<and> unconfirmed dec q' = unconfirmed dec q
     \<and> (case r of None \<Rightarrow> unread dec q = [] \<and> unread dec q' = [] | Some (e, _) \<Rightarrow> unread dec q = e # unread dec q')"
  by (rule recv_refines[OF assms])

theorem queue_recv_oldest_witness: "unread ex_dec ex_queue1 = ''one'' # unread ex_dec ex_queue2"
  using queue_recv_oldest[OF ex_queue1_inv(1) ex_recv(1)] by simp

text \<open>C17: Acknowledging a record in flight confirms exactly the acknowledged records in front of the first one that is
  not: the cursor never passes a record that is still in flight, whatever order the acknowledgements arrive in. What is
  still to be handed out is unchanged.\<close>

theorem queue_ack_prefix:
  assumes "dq_inv dec q" "mark_acked seq off (rx_in_flight (q_rx q)) = Some fs"
    and "saved \<longrightarrow> fits_u64 (wd_segments (q_dir q))" "ack_to stuck saved seq off q = q'"
  shows "dq_inv dec q' \<and> rx_in_flight (q_rx q') = dropWhile if_acked fs
     \<and> unconfirmed dec q' = drop (length (takeWhile if_acked fs)) (unconfirmed dec q) \<and> unread dec q' = unread dec q"
  by (rule ack_refines[OF assms])

theorem queue_ack_prefix_witness: "unconfirmed ex_dec (ack_to (\<lambda>_. False) True 0 0 ex_queue2) = []"
proof -
  have "mark_acked 0 0 (rx_in_flight (q_rx ex_queue2)) =
      Some [\<lparr>if_start_seq = 0, if_start_offset = 0, if_end_seq = 0, if_end_offset = 4, if_acked = True\<rparr>]"
    by (simp add: ex_recv(2))
  then show ?thesis
    using queue_ack_prefix[OF conjunct1[OF recv_refines[OF ex_queue1_inv(1) ex_recv(1)]] _ _ refl, of 0 0 _ True "\<lambda>_. False"]
      recv_refines[OF ex_queue1_inv(1) ex_recv(1)] ex_recv(3) ex_queue1_inv(2) by simp
qed

text \<open>C35: Opening the directory again, at whatever point the process stopped, queues every record that was not
  confirmed, in order, behind at most some records that were.\<close>

theorem queue_restart_replays:
  assumes "dq_inv dec q" "q' = create_disk_queue m (q_dir q)"
  shows "dq_inv dec q' \<and> (\<exists>extra. unconfirmed dec q' = extra @ unconfirmed dec q) \<and> unread dec q' = unconfirmed dec q'"
  by (rule restart_refines[OF assms])

theorem queue_restart_replays_witness:
  "\<exists>extra. unread ex_dec (create_disk_queue 0 (q_dir ex_queue2)) = extra @ [''one'']"
  using queue_restart_replays[OF conjunct1[OF recv_refines[OF ex_queue1_inv(1) ex_recv(1)]] refl, of 0]
    recv_refines[OF ex_queue1_inv(1) ex_recv(1)] ex_queue1_inv(2) by auto

text \<open>C2: At least once. Take any history of sends (with any write fault), acknowledgements (with segments that cannot be
  removed and cursors that cannot be written), closings and restarts between the single steps of the receiver's reads, which may
  see a write in part or fail. If the receiver never goes on to the next segment while this one has bytes it has not read, then
  every record pending at the start and every record that a successful send accepted was confirmed or is still pending. A record is
  what its line reads back as, so an event from an IPv6 source counts as none. The histories left out are real and lose records.\<close>

theorem queue_at_least_once:
  assumes "dq_inv dec q" "all_allowed live_allowed (live_step dec) ops (q, Look)"
  shows "dq_inv dec (fst (run_ops (live_step dec) ops (q, Look))) \<and>
    mset (unconfirmed dec q) + mset (observe (live_sent dec) (live_step dec) ops (q, Look))
      \<subseteq># mset (observe (live_confirmed dec) (live_step dec) ops (q, Look)) + mset (unconfirmed dec (fst (run_ops (live_step dec) ops (q, Look))))"
  using live.run_inv[of dec "(q, Look)" ops] live.run_account[of dec "(q, Look)" ops] assms by simp

definition ex_live_ops :: "live_op list" where
  "ex_live_ops = [Tick 0, Other (Send NoFault (\<lambda>_. False) ''one''), Tick 0, Tick 2, Tick 0, Other (Restart 0)]"

lemma ex_queue_states:
  "ex_queue = create_disk_queue 0 empty_dir" "ex_queue1 = one_segment 0 0 None (''one'' @ [newline])"
  "live_step ex_dec (Tick 0) (ex_queue, Look) = (ex_queue, Checking)" "live_step ex_dec (Tick 0) (ex_queue1, Checking) = (ex_queue1, Look)"
  "live_step ex_dec (Tick 2) (ex_queue1, Look) = (ex_queue1, Locking)"
  "live_step ex_dec (Tick 0) (ex_queue1, Locking) = (ex_queue1, Reread True)"
proof -
  show q: "ex_queue = create_disk_queue 0 empty_dir" "ex_queue1 = one_segment 0 0 None (''one'' @ [newline])"
    using ex_one(1) send_first[of "''one''" "\<lambda>_. False" 0] by (simp_all add: ex_queue_def ex_dir_def empty_dir_def segment_max_bytes_def)
  show "live_step ex_dec (Tick 0) (ex_queue, Look) = (ex_queue, Checking)" "live_step ex_dec (Tick 0) (ex_queue1, Checking) = (ex_queue1, Look)"
    "live_step ex_dec (Tick 2) (ex_queue1, Look) = (ex_queue1, Locking)"
    "live_step ex_dec (Tick 0) (ex_queue1, Locking) = (ex_queue1, Reread True)"
    unfolding q by (simp_all add: live_read_def after_read_def create_disk_queue_def recover_state_def empty_dir_def load_cursor_def
        look_upto_def one_segment_def incomplete_def complete_line_def newline_def)
qed

theorem queue_at_least_once_witness:
  "''one'' \<in># mset (unconfirmed ex_dec (fst (run_ops (live_step ex_dec) ex_live_ops (ex_queue, Look))))"
proof -
  have "\<not> overruns segs ws Look rx" "\<not> overruns segs ws Locking rx" for segs ws rx by (simp_all add: overruns_def)
  moreover have "\<not> overruns (wd_segments (q_dir ex_queue1)) (dq_write_seq (q_state ex_queue1)) Checking (q_rx ex_queue1)"
    by (simp add: ex_queue_states(2) overruns_def one_segment_def)
  ultimately show ?thesis
    using queue_at_least_once[OF ex_queue_inv(1), of ex_live_ops] ex_one ex_line ex_queue_inv(2) mset_subset_eqD[of "{#''one''#}"]
    by (simp add: ex_live_ops_def ex_queue_states(3-6) del: live_step.simps(2))
qed

text \<open>C38: The histories that the at-least-once property leaves out lose records. Everything in the open segment is delivered and
  acknowledged, and the receiver has just found its end. Before it compares its sequence number with the writer's, the writer accepts
  some records that still fit into the segment and one that begins the next segment; when the segment is nearly full, two sends do. Then
  the receiver leaves the first segment with the accepted records unread, hands out only the last one, and its acknowledgement removes
  the segment: after a restart nothing is left.\<close>

theorem overrun_loses_records:
  fixes dec :: "bytes \<Rightarrow> 'e option"
  assumes "length b + length (lines ds) \<le> segment_max_bytes" "segment_max_bytes < length b + length (lines ds) + length d + 1"
    and "length d < segment_max_bytes" "newline \<notin> set d" "line_record dec (d @ [newline]) = Some e"
    and "q = one_segment m (length b) cur b"
  shows "observe (live_sent dec) (live_step dec) (overrun_ops stuck ds d) (q, Look)
      = concat (map (\<lambda>x. records dec (x @ [newline])) ds) @ [e] \<and>
    observe (live_delivered dec) (live_step dec) (overrun_ops stuck ds d) (q, Look) = [e] \<and>
    unread dec (create_disk_queue m' (q_dir (fst (run_ops (live_step dec) (overrun_ops stuck ds d) (q, Look))))) = []"
proof -
  have "length (d @ [newline]) < 2 ^ 64" using assms(3) by (simp add: segment_max_bytes_def)
  then show ?thesis
    using overrun_history[OF assms(1,2,4,5), of stuck m cur] ack_over[of "d @ [newline]" dec m' m "length b" cur "b @ lines ds"] assms(6)
    by simp
qed

definition ex_nearly_full :: bytes where
  "ex_nearly_full = replicate (segment_max_bytes - 5) CHR ''x'' @ [newline]"

theorem overrun_loses_records_witness:
  "observe (live_sent ex_dec) (live_step ex_dec) (overrun_ops (\<lambda>_. False) [''one''] ''two'')
       (one_segment 0 (length ex_nearly_full) None ex_nearly_full, Look) = [''one'', ''two''] \<and>
   observe (live_delivered ex_dec) (live_step ex_dec) (overrun_ops (\<lambda>_. False) [''one''] ''two'')
       (one_segment 0 (length ex_nearly_full) None ex_nearly_full, Look) = [''two'']"
proof -
  have "length ex_nearly_full = segment_max_bytes - 4" "5 \<le> segment_max_bytes" by (simp_all add: ex_nearly_full_def segment_max_bytes_def)
  then have "length ex_nearly_full + length (lines [''one'']) \<le> segment_max_bytes"
    "segment_max_bytes < length ex_nearly_full + length (lines [''one'']) + length ''two'' + 1" "length ''two'' < segment_max_bytes"
    by (simp_all add: lines_def)
  moreover have "newline \<notin> set ''two''" "line_record ex_dec (''two'' @ [newline]) = Some ''two''"
    by (simp_all add: line_record_def complete_line_def ex_dec_def ascii_whitespace_def newline_def)
  ultimately show ?thesis
    using overrun_loses_records[of ex_nearly_full "[''one'']" "''two''" ex_dec "''two''" _ 0 None "\<lambda>_. False" 0] ex_line by simp
qed

text \<open>Receiving repeatedly hands out everything unread, oldest first; nothing is skipped for ever.\<close>

theorem queue_drains:
  assumes "dq_inv dec q" "n = length (unread dec q)"
  shows "observe (dq_delivered dec) (dq_step dec) (replicate n Recv) q = unread dec q"
  using DiskQueue_Spec.drain[OF assms(1), of n] assms(2) by simp

theorem queue_drains_witness:
  "observe (dq_delivered ex_dec) (dq_step ex_dec) (replicate 1 Recv) ex_queue1 = [''one'']"
  using queue_drains[OF ex_queue1_inv(1), of 1] ex_queue1_inv(3) by simp

text \<open>After a write the segments take at most \<open>max_size\<close> bytes, or only segments at or above the acknowledged one
  are left; no segment at or above it is ever removed.\<close>

theorem queue_size_limit:
  assumes "distinct (map fst segs)" "0 < m" "segs' = enforce_max_size (\<lambda>_. False) m acked segs"
  shows "(sum_list (map (length \<circ> snd) segs') \<le> m \<or> (\<forall>s\<in>keys segs'. acked \<le> s))
     \<and> (\<forall>s\<ge>acked. map_of segs' s = map_of segs s)"
  using enforce_max_size_bound[OF assms(1,2), of acked] pruned_enforce[OF assms(1), of acked "\<lambda>_. False" m] assms(3)
  by (auto simp: Let_def pruned_def not_less dest: leD)

theorem queue_size_limit_witness:
  "map_of (enforce_max_size (\<lambda>_. False) 5 1 [(1, ''bbbb''), (0, ''aaaa'')]) 1 = Some ''bbbb''"
  using queue_size_limit[of "[(1, ''bbbb''), (0, ''aaaa'')]" 5 _ 1, OF _ _ refl] by simp

text \<open>A cursor that was saved is read back exactly.\<close>

theorem queue_cursor_roundtrip:
  assumes "seq < 2 ^ 64" "off < 2 ^ 64"
  shows "load_cursor (save_cursor True seq off dir) = (seq, off)"
  by (rule load_save_cursor[OF assms])

theorem queue_cursor_roundtrip_witness: "load_cursor (save_cursor True 12 345 ex_dir) = (12, 345)"
  by (rule queue_cursor_roundtrip) simp_all

section \<open>The consumer\<close>

text \<open>A queue with one and with two records in flight, read by a decoder of events.\<close>

definition ex_qdec :: "bytes \<Rightarrow> queued_event option" where
  "ex_qdec l = Some \<lparr>qe_event = event_new 0 0 (butlast l) (V4 10 0 0 1, 514), qe_emitted_ns = 0\<rparr>"

definition ex_ser :: "queued_event \<Rightarrow> bytes option" where "ex_ser ev = Some (oe_ingress (qe_event ev))"

definition ex_ev :: "string \<Rightarrow> queued_event" where
  "ex_ev s = \<lparr>qe_event = event_new 0 0 s (V4 10 0 0 1, 514), qe_emitted_ns = 0\<rparr>"

definition ex_io :: ack_io where "ex_io s off = ((\<lambda>_. False), True)"

definition ex_out_metrics :: output_metrics where
  "ex_out_metrics = \<lparr>om_received = 0, om_injected = 0, om_written = 0, om_failed = 0, om_retries = 0, om_wedged = 0,
     om_errored_unwritable = 0, om_bytes_written = 0, om_queue_depth = 0, om_in_retry = 0, om_delivery = delivery_histogram,
     om_negative_delta = 0\<rparr>"

definition ex_read1 :: disk_queue where
  "ex_read1 = \<lparr>q_dir = \<lparr>wd_segments = [(0, ''one'' @ [newline])], wd_cursor = None\<rparr>,
     q_state = \<lparr>dq_max_size = 0, dq_write_seq = 0, dq_write_open = True, dq_write_size = 4, dq_read_seq = 0, dq_acked_seq = 0\<rparr>,
     q_rx = \<lparr>rx_read_seq = 0, rx_read_offset = 4, rx_acked_seq = 0, rx_acked_offset = 0,
       rx_in_flight = [\<lparr>if_start_seq = 0, if_start_offset = 0, if_end_seq = 0, if_end_offset = 4, if_acked = False\<rparr>]\<rparr>, q_closed = False\<rparr>"

lemma ex_send_one: "backend_send ex_ser (WriteIO NoFault (\<lambda>_. False)) (ex_ev ''one'') (DiskQ ex_queue) = (Inr (), DiskQ ex_queue1)"
  by (simp add: backend_send_def ex_ser_def ex_ev_def event_new_def ex_one)

lemma ex_read_one: "drain_queue ex_qdec 1 (DiskQ ex_queue1) = ([(ex_ev ''one'', QDisk 0 0)], DiskQ ex_read1)"
  by (simp add: queue_try_recv_def ex_queue1_def dq_send_def ex_queue_def create_disk_queue_def recover_state_def ex_dir_def load_cursor_def
        write_to_segment_def inspect_tail_def rotate_def open_segment_def segment_max_bytes_def Let_def newline_def
        append_segment_def seg_def enforce_max_size_def dq_recv_def try_read_next_def read_loop.simps look_at_def take_line_def incomplete_def advance_over_def complete_line_def line_record_def
        ascii_whitespace_def ex_qdec_def ex_read1_def ex_ev_def)

lemma ex_qdec_inv: "dq_inv ex_qdec ex_queue"
  using create_inv[where m = 0 and dec = ex_qdec, OF empty_dir_ok] by (simp add: ex_queue_def ex_dir_def)

text \<open>The consumer with \<open>one\<close> handed to the output, and after the output dropped it.\<close>

definition ex_consumer1 :: consumer where
  "ex_consumer1 = recv_arm [(ex_ev ''one'', QDisk 0 0)] (DiskQ ex_read1) spin_new
     ((consumer_new (DiskQ ex_queue) ex_out_metrics PIdle)\<lparr>cn_queue := DiskQ ex_queue1\<rparr>)"

lemma ex_reach1: "(cstep ex_qdec)\<^sup>*\<^sup>* (consumer_new (DiskQ ex_queue) ex_out_metrics PIdle) ex_consumer1"
proof -
  let ?c = "consumer_new (DiskQ ex_queue) ex_out_metrics PIdle"
  have ph: "cn_phase ?c = Running" "cn_accepting ?c" "cn_queue ?c = DiskQ ex_queue" by (simp_all add: consumer_new_def)
  have "cstep ex_qdec ?c (?c\<lparr>cn_queue := DiskQ ex_queue1\<rparr>)"
    using ex_one(2) ex_send_one ph(3)
    by (intro cstep.send[where ser = ex_ser and ev = "ex_ev ''one''"]) (auto simp: ex_ser_def ex_ev_def event_new_def)
  moreover have "cstep ex_qdec (?c\<lparr>cn_queue := DiskQ ex_queue1\<rparr>) ex_consumer1"
    unfolding ex_consumer1_def using ph ex_read_one by (intro cstep.recv[where n = 1]) (simp_all add: recv_batch_max_def)
  ultimately show ?thesis by (meson converse_rtranclp_into_rtranclp r_into_rtranclp)
qed

lemma ex_reach2: "(cstep ex_qdec)\<^sup>*\<^sup>* (consumer_new (DiskQ ex_queue) ex_out_metrics PIdle) (resolve_step 0 UseDropped ex_consumer1)"
  by (rule rtranclp.rtrancl_into_rtrancl[OF ex_reach1 cstep.resolve])
    (simp_all add: ex_consumer1_def recv_arm_def set_depth_def consumer_new_def Let_def)

text \<open>C16: The in-flight count of the consumer is exact, over every interleaving of sends, reads, resolutions by the
  output, acknowledgements and the shutdown: it is the number of handles the output holds plus the resolutions on their
  way back. On a disk queue each of them stands for its own record, which is in flight and not acknowledged.\<close>

theorem consumer_in_flight_exact:
  assumes "(cstep dec)\<^sup>*\<^sup>* (consumer_new q m p) c" "\<And>d. q = DiskQ d \<Longrightarrow> dq_inv dec d"
  shows "cn_in_flight c = length (cn_held c) + length (cn_acks c) \<and> (\<forall>x\<in>set (cn_held c). qh_armed (snd x))
     \<and> (case cn_queue c of MemQ _ \<Rightarrow> True | DiskQ d \<Rightarrow> dq_inv dec d \<and> distinct (positions [] c)
         \<and> (\<forall>p\<in>set (positions [] c). \<exists>s off e. p = QDisk s off \<and> (((s, off), False), e) \<in> set (flight dec d)))"
  using csteps_keep[OF assms(1) consumer_new_inv[OF assms(2)]] by (simp add: cinv_def disk_ok_def)

theorem consumer_in_flight_exact_witness:
  "cn_in_flight (resolve_step 0 UseDropped ex_consumer1)
     = length (cn_held (resolve_step 0 UseDropped ex_consumer1)) + length (cn_acks (resolve_step 0 UseDropped ex_consumer1))"
  using consumer_in_flight_exact[OF ex_reach2] ex_qdec_inv by simp


lemma ex_dropped:
  "cn_queue (resolve_step 0 UseDropped ex_consumer1) = DiskQ ex_read1"
  "cn_acks (resolve_step 0 UseDropped ex_consumer1) = [RDropped (QDisk 0 0)]"
  "\<not> cn_wedged (resolve_step 0 UseDropped ex_consumer1)" "io_ok ex_io (DiskQ ex_read1)"
  by (simp_all add: resolve_step_def ex_consumer1_def recv_arm_def set_depth_def consumer_new_def Let_def handle_new_def
      resolve_dropped_def handle_send_def handle_drop_def io_ok_def ex_io_def fits_u64_def ex_read1_def newline_def)


text \<open>The guarantee does not extend to a second drop. Once the consumer is wedged by a later record, the drop of
  the record in front of it is acknowledged like a delivery and the record is confirmed.\<close>

theorem wedge_second_drop_confirms:
  assumes "dq_inv dec d" "cn_queue c = DiskQ d" "\<not> cn_wedged c" "io_ok io (cn_queue c)"
    and "rx_in_flight (q_rx d) = f # g # fs" "\<not> if_acked g"
    and "c' = steady_ack io (RDropped (QDisk (if_start_seq f) (if_start_offset f)))
      (steady_ack io (RDropped (QDisk (if_start_seq g) (if_start_offset g))) c)"
  shows "\<exists>d'. cn_queue c' = DiskQ d' \<and> unconfirmed dec d' = tl (unconfirmed dec d)"
  by (rule second_drop_confirmed[OF assms])

definition ex_two :: disk_queue where "ex_two = snd (dq_send NoFault (\<lambda>_. False) ''two'' ex_read1)"

definition ex_read2 :: disk_queue where "ex_read2 = snd (dq_recv ex_qdec ex_two)"

lemma ex_read2_flight: "rx_in_flight (q_rx ex_read2) =
    [\<lparr>if_start_seq = 0, if_start_offset = 0, if_end_seq = 0, if_end_offset = 4, if_acked = False\<rparr>,
     \<lparr>if_start_seq = 0, if_start_offset = 4, if_end_seq = 0, if_end_offset = 8, if_acked = False\<rparr>]"
  "fits_u64 (wd_segments (q_dir ex_read2))" "fst (dq_send NoFault (\<lambda>_. False) ''two'' ex_read1)"
  by (simp_all add: ex_read2_def ex_two_def ex_read1_def dq_send_def write_to_segment_def inspect_tail_def rotate_def
      open_segment_def segment_max_bytes_def Let_def newline_def append_segment_def seg_def enforce_max_size_def dq_recv_def
      try_read_next_def read_loop.simps look_at_def take_line_def incomplete_def advance_over_def complete_line_def line_record_def ascii_whitespace_def ex_qdec_def fits_u64_def)

lemma ex_read2_inv: "dq_inv ex_qdec ex_read2"
proof -
  have "dq_inv ex_qdec ex_read1"
    using csteps_keep[OF ex_reach2 consumer_new_inv] ex_qdec_inv ex_dropped(1) by (auto simp: cinv_def disk_ok_def)
  then have "dq_inv ex_qdec ex_two"
    using send_refines[of ex_qdec ex_read1 NoFault "\<lambda>_. False" "''two''" True ex_two] ex_read2_flight(3)
    by (simp add: ex_two_def prod_eq_iff newline_def)
  then show ?thesis using recv_refines[of ex_qdec ex_two] unfolding ex_read2_def by (metis prod.collapse)
qed

theorem wedge_second_drop_confirms_witness:
  "\<exists>d'. cn_queue (steady_ack ex_io (RDropped (QDisk 0 0)) (steady_ack ex_io (RDropped (QDisk 0 4))
       (consumer_new (DiskQ ex_read2) ex_out_metrics PIdle))) = DiskQ d' \<and> unconfirmed ex_qdec d' = tl (unconfirmed ex_qdec ex_read2)"
  using wedge_second_drop_confirms[OF ex_read2_inv _ _ _ ex_read2_flight(1) _ refl,
      of "consumer_new (DiskQ ex_read2) ex_out_metrics PIdle" ex_io] ex_read2_flight(2)
  by (simp add: consumer_new_def io_ok_def ex_io_def)

section \<open>Dead letters\<close>

text \<open>An event an output gives up on is counted as failed exactly once, now or by the consumer when it sees the
  resolution, and its handle resolves exactly once, for its own position. On a disk queue the resolution is \<open>Dropped\<close>,
  which replays the event, exactly when the dead-letter record could not be written; otherwise, with an error log, the
  record is there.\<close>

theorem dead_letter_counted_once:
  assumes "qh_armed h" "route_event_to_dlq log fb now name ev (qh_position h) reason o' = (outcome, o1)"
    and "o2 = resolve_ack_from_dlq_outcome h outcome o1"
  shows "failures o2 = failures o' + 1 \<and> (\<exists>r. os_acks o2 = os_acks o' @ [r] \<and> res_position r = qh_position h
     \<and> (res_disposition r = DDropped \<longleftrightarrow> qh_position h \<noteq> QMemory
          \<and> (\<exists>w e. log = Some w \<and> w (EOutput now [] name reason name (output_event_from_owned ev)) = Some e))
     \<and> (log \<noteq> None \<and> qh_position h \<noteq> QMemory \<and> res_disposition r \<noteq> DDropped \<longrightarrow>
          EOutput now [] name reason name (output_event_from_owned ev) \<in> set (os_dlq o2)))"
  by (rule route_event_effect[OF assms])

definition ex_out :: out_state where
  "ex_out = \<lparr>os_metrics = ex_out_metrics, os_dlq = [], os_lines = [], os_acks = []\<rparr>"

theorem dead_letter_counted_once_witness:
  "failures (case route_event_to_dlq (Some (\<lambda>_. Some ''disk full'')) FbOff 5 ''out'' ex_event (QDisk 0 0) ''refused'' ex_out of
     (outcome, o1) \<Rightarrow> resolve_ack_from_dlq_outcome (handle_new (QDisk 0 0) 0) outcome o1) = failures ex_out + 1"
  using dead_letter_counted_once[of "handle_new (QDisk 0 0) 0" "Some (\<lambda>_. Some ''disk full'')" FbOff 5 "''out''" ex_event
      "''refused''" ex_out _ _ _, OF _ surjective_pairing refl]
  by (simp add: handle_new_def split_beta)

text \<open>When an output stops with a batch it could not ship, every event of the batch is counted as failed once and
  every handle resolves once, in the batch's order. When it is unknown whether the batch arrived, the resolutions of a
  disk queue are all \<open>Dropped\<close>, so nothing is confirmed that may not have arrived.\<close>

theorem shutdown_batch_resolved:
  assumes "\<forall>(ev, h)\<in>set evs. qh_armed h"
  shows "failures (route_shutdown_batch_to_dlq log fb now name err evs o') = failures o' + of_nat (length evs)
     \<and> map res_position (os_acks (route_shutdown_batch_to_dlq log fb now name err evs o'))
         = map res_position (os_acks o') @ map (qh_position \<circ> snd) evs
     \<and> failures (route_shutdown_batch_ambiguous_to_dlq log fb now name err evs o') = failures o' + of_nat (length evs)
     \<and> os_acks (route_shutdown_batch_ambiguous_to_dlq log fb now name err evs o') = os_acks o' @
         map (\<lambda>(ev, h). if qh_position h = QMemory then RRecovered QMemory else RDropped (qh_position h)) evs"
  using shutdown_batch_effect[OF assms refl] shutdown_batch_ambiguous_effect[OF assms refl] by blast

theorem shutdown_batch_resolved_witness:
  "os_acks (route_shutdown_batch_ambiguous_to_dlq None FbOff 5 ''out'' ''timeout''
     [(ex_event, handle_new (QDisk 0 0) 0), (ex_event, handle_new (QDisk 0 9) 0)] ex_out) = [RDropped (QDisk 0 0), RDropped (QDisk 0 9)]"
  using shutdown_batch_resolved[of "[(ex_event, handle_new (QDisk 0 0) 0), (ex_event, handle_new (QDisk 0 9) 0)]" None FbOff
      5 "''out''" "''timeout''" ex_out]
  by (simp add: handle_new_def ex_out_def)

section \<open>Waiting\<close>

text \<open>A receive never returns more than it was asked for and keeps the spin controller in its bounds; whatever the
  controller has learnt, 136 misses in a row bring its budget to zero, so an idle queue is not polled.\<close>

theorem spin_bounded:
  assumes "spin_ok c" "recv_many dec others parked ns limit q c = (es, q', c')"
  shows "length es \<le> limit \<and> spin_ok c' \<and> sc_budget c' \<le> spin_cap \<and> sc_budget ((record_spin_miss ^^ 136) c') = 0"
  using recv_many_bounds[OF assms(2)] assms(1) spin_idle[of c'] by (simp add: spin_ok_def)

theorem spin_bounded_witness:
  "sc_budget ((record_spin_miss ^^ 136) (snd (snd (recv_many ex_qdec (\<lambda>_. id) id 0 4 (DiskQ ex_queue1) spin_new)))) = 0"
  using spin_bounded[OF spin_new_ok, of ex_qdec "\<lambda>_. id" id 0 4 "DiskQ ex_queue1"] by (metis prod.collapse)

text \<open>Retries are bounded and paced: whatever the sends do, a flush waits at most one time less than the configured
  attempts, and its \<open>k\<close>-th wait is the initial wait doubled \<open>k\<close> times and cut at the maximum, with no overflow of the
  duration, or always the initial wait with fixed backoff.\<close>

theorem retry_waits:
  assumes "rc_initial_wait cfg \<le> rc_max_wait cfg" "rc_max_wait cfg \<le> duration_max"
    and "retry_loop cfg sends stopping 0 (rc_initial_wait cfg) o' = (r, ws, o'')"
  shows "length ws \<le> rc_max_attempts cfg - 1 \<and> ws = map (\<lambda>k. case rc_backoff cfg of
     Exponential \<Rightarrow> min (rc_initial_wait cfg * 2 ^ k) (rc_max_wait cfg) | FixedWait \<Rightarrow> rc_initial_wait cfg) [0..<length ws]"
proof -
  have w: "(next_wait cfg ^^ k) (rc_initial_wait cfg) = (case rc_backoff cfg of
     Exponential \<Rightarrow> min (rc_initial_wait cfg * 2 ^ k) (rc_max_wait cfg) | FixedWait \<Rightarrow> rc_initial_wait cfg)" for k
    using nth_wait_exponential[OF _ assms(1,2)] next_wait_fixed unfolding nth_wait_def by (auto split: backoff_strategy.split)
  show ?thesis using retry_loop_waits[OF assms(3)] unfolding w by simp
qed

theorem retry_waits_witness:
  "\<exists>r ws o''. retry_loop retry_default (\<lambda>_. SendFail ''refused'') (\<lambda>_. False) 0 1000000000 ex_out = (r, ws, o'') \<and> length ws \<le> 4"
proof -
  obtain r ws o'' where l: "retry_loop retry_default (\<lambda>_. SendFail ''refused'') (\<lambda>_. False) 0 1000000000 ex_out = (r, ws, o'')"
    by (metis prod_cases3)
  then show ?thesis
    using retry_waits[of retry_default "\<lambda>_. SendFail ''refused''" "\<lambda>_. False" ex_out r ws o'']
    by (auto simp: retry_default_def duration_max_def)
qed

text \<open>Folding the deliveries of a burst and merging them once counts the same as observing each by itself: the same
  buckets and the same total.\<close>

theorem burst_merge_exact:
  assumes "h_boundaries h = output_delivery_buckets" "length (h_buckets h) = length output_delivery_buckets"
  shows "hist_tally (hist_merge (record_all els delta_empty) h) = hist_tally (observe_all els h)"
  by (rule merge_burst[OF assms])

theorem burst_merge_exact_witness:
  "hist_tally (hist_merge (record_all [elapsed_since 7 3, elapsed_since 3 7] delta_empty) delivery_histogram)
     = hist_tally (observe_all [elapsed_since 7 3, elapsed_since 3 7] delivery_histogram)"
  by (rule burst_merge_exact) (simp_all add: delivery_histogram_def)

section \<open>Batched outputs\<close>

text \<open>C25: A batched output settles every event it was given exactly once, in any interleaving of arrivals, flushes and
  shutdown and whatever the sends do: the events counted as written or failed and the positions resolved, together with
  what is still parked, are those given to it. It never owns more than twice its batch size of events under a permit,
  and no batch is larger than the batch size.\<close>

theorem batched_settles_once:
  assumes "run_sink sx ops (sink_new (sx_batch_size sx) o') = Some s" "\<forall>h\<in>set (concat (map op_handles ops)). qh_armed h"
  shows "settled (bk_out s) + of_nat (length (parked_all s)) = settled o' + of_nat (length (concat (map op_handles ops)))
     \<and> resolved (bk_out s) + mset (map qh_position (handles (parked_all s)))
        = resolved o' + mset (map qh_position (concat (map op_handles ops)))
     \<and> held (parked_all s) \<le> max (sx_batch_size sx * 2) 1 \<and> (\<forall>b\<in>set (bk_hand s). length b \<le> max (sx_batch_size sx) 1)"
  using run_sink_ok[OF assms(1) sink_new_ok(1) assms(2)] sink_new_ok[of "sx_batch_size sx" o']
  by (simp add: accounts_def sink_ok_def handles_def)

definition ex_sink :: "(owned_event, owned_event list) sink_ctx" where
  "ex_sink = \<lparr>sx_policy = \<lparr>bs_render = Inr, bs_prepare = Inr\<rparr>, sx_name = ''out'', sx_retry = retry_default, sx_error_log = None,
     sx_fallback = FbOff, sx_batch_size = 1\<rparr>"

theorem batched_settles_once_witness:
  "\<exists>s. run_sink ex_sink [OpConsume False ex_event (handle_new (QDisk 0 0) 0), OpTake, OpFlush 0 5 (\<lambda>_ _. SendOk 0) (\<lambda>_. False)]
       (sink_new 1 ex_out) = Some s
     \<and> resolved (bk_out s) = resolved ex_out + {#QDisk 0 0#}"
proof -
  let ?ops = "[OpConsume False ex_event (handle_new (QDisk 0 0) 0), OpTake, OpFlush 0 5 (\<lambda>_ _. SendOk 0) (\<lambda>_. False)]"
  obtain s where s: "run_sink ex_sink ?ops (sink_new 1 ex_out) = Some s" "parked_all s = []"
    by (simp add: ex_sink_def sink_new_def consume_def flusher_take_def flusher_flush_def hard_capped_batches.simps parked_all_def)
  then show ?thesis
    using batched_settles_once[of ex_sink ?ops ex_out s] by (auto simp: ex_sink_def handle_new_def handles_def)
qed

section \<open>Workers\<close>

text \<open>One worker on the example pipeline with an empty memory queue for its output, and an error log that takes
  every record.\<close>

definition ex_ctx :: "unit worker_ctx" where
  "ex_ctx = \<lparr>wx_funcs = ex_registry, wx_tap = (\<lambda>_ _. False), wx_now = (\<lambda>w. (42, w)), wx_disk_outputs = [], wx_ser = ex_ser,
     wx_io = (\<lambda>_ _. JoinFault), wx_error_log = Some (\<lambda>_. None), wx_fallback = FbOff\<rparr>"

definition ex_worker :: worker where
  "ex_worker = \<lparr>wk_bp = ex_blueprint, wk_pl = ex_pipeline,
     wk_metrics = \<lparr>pm_received = 0, pm_finished = 0, pm_dropped = 0, pm_discarded = 0, pm_errored = 0,
       pm_errored_unwritable = 0, pm_inflight = 0\<rparr>,
     wk_counters = [pc_zero, pc_zero], wk_timers = [[]]\<rparr>"

definition ex_shared :: "bool \<Rightarrow> unit shared" where
  "ex_shared closed = \<lparr>sh_world = (), sh_taps = [],
     sh_queues = [(''out'', (MemQ \<lparr>mq_items = [], mq_capacity = 8, mq_closed = closed, mq_detached = False\<rparr>, None))],
     sh_dlq = [], sh_lines = []\<rparr>"

definition ex_sent :: queued_event where
  "ex_sent = \<lparr>qe_event = ex_event\<lparr>oe_workspace := []\<rparr>, qe_emitted_ns = 42\<rparr>"

lemma ex_worker_run:
  "\<exists>x. run_pipeline (worker_env ex_ctx ex_worker ex_event d) 9 (worker_xstate ex_worker (ex_shared closed)) =
     (Ok \<lparr>rr_outputs = [(''out'', ex_sent)], rr_had_outputs = True, rr_termination = Finished, rr_errored = []\<rparr>, x)"
  by (simp add: worker_env_def worker_xstate_def ex_ctx_def ex_worker_def ex_shared_def ex_sent_def ex_defs exec_defs
      to_owned_without_workspace_def)

lemma ex_worker_done: "\<exists>wk' sh'. run_worker ex_ctx 9 ex_event d ex_worker (ex_shared closed) = Some (wk', sh')"
proof -
  obtain x where x: "run_pipeline (worker_env ex_ctx ex_worker ex_event d) 9 (worker_xstate ex_worker (ex_shared closed)) =
     (Ok \<lparr>rr_outputs = [(''out'', ex_sent)], rr_had_outputs = True, rr_termination = Finished, rr_errored = []\<rparr>, x)"
    using ex_worker_run by blast
  show ?thesis
    by (simp add: run_worker_def run_pipeline_with_outputs_inner_def x Let_def settle_run_def split_beta
        split: option.split pipeline_termination.split)
qed



text \<open>C19: Every event of an input is counted once by every worker, by the result of its own run: there is one run per event, in
  order, and each of the counters for finished, discarded, dropped and errored events has grown by the number of runs that ended that
  way, 64-bit wrap-around included.\<close>

theorem worker_accounting:
  assumes "run_pipeline_workers ctx n input_name evs wks timer p sh = Some (wks', timer', p', sh')"
  shows "list_all2 (\<lambda>wk wk'. \<exists>rs. map fst rs = evs \<and> worker_runs ctx n wk rs wk'
     \<and> (\<forall>k. counted_as k (wk_metrics wk') = counted_as k (wk_metrics wk) + of_nat (count_list (map (outcome_of \<circ> snd) rs) k))
     \<and> pm_received (wk_metrics wk') = pm_received (wk_metrics wk) + of_nat (length evs)
     \<and> uncounted (wk_metrics wk') = uncounted (wk_metrics wk)) wks wks'"
  using run_pipeline_workers_runs[OF assms]
  by (rule list_all2_mono) (use worker_runs_counts in \<open>metis length_map\<close>)

definition ex_timer :: input_timer where "ex_timer = \<lparr>it_histogram = delivery_histogram, it_negative = 0\<rparr>"

lemma ex_shared_world: "(ex_shared closed)\<lparr>sh_world := w\<rparr> = ex_shared closed" by (simp add: ex_shared_def)

lemma ex_workers_done:
  "\<exists>wks' t' p' sh'. run_pipeline_workers ex_ctx 9 ''in'' [ex_event] [ex_worker] ex_timer PIdle (ex_shared True) = Some (wks', t', p', sh')"
proof -
  have "wx_now ex_ctx w = (42, w)" "wx_tap ex_ctx k w = False" for w k by (simp_all add: ex_ctx_def)
  moreover obtain wk' sh' where "run_worker ex_ctx 9 ex_event 42 ex_worker (ex_shared True) = Some (wk', sh')"
    using ex_worker_done by blast
  ultimately show ?thesis by (simp add: process_event_now_def process_event_at_def Let_def ex_shared_world)
qed

theorem worker_accounting_witness:
  "\<exists>wks' t' p' sh'. run_pipeline_workers ex_ctx 9 ''in'' [ex_event] [ex_worker] ex_timer PIdle (ex_shared True) = Some (wks', t', p', sh')
     \<and> map (pm_received \<circ> wk_metrics) wks' = [1]"
proof -
  obtain wks' t' p' sh' where
    r: "run_pipeline_workers ex_ctx 9 ''in'' [ex_event] [ex_worker] ex_timer PIdle (ex_shared True) = Some (wks', t', p', sh')"
    using ex_workers_done by blast
  from worker_accounting[OF r] have "map (pm_received \<circ> wk_metrics) wks' = [1]"
    by (auto simp: list_all2_Cons1 ex_worker_def)
  then show ?thesis using r by (intro exI conjI)
qed

text \<open>C15: Nothing a pipeline put out is lost silently, when an error log is configured and every write to it succeeds, and when the
  serialization of each output, if it has one, is a line that reads back as that output (so no IPv6 source and no timestamp in the
  workspace on a disk queue): each output is in its queue when the worker is done, or the dead letters hold a record of it.\<close>

theorem worker_outputs_kept:
  assumes "run_worker ctx n ev dispatch wk sh = Some (wk', sh')"
    and "run_pipeline (worker_env ctx wk ev dispatch) n (worker_xstate wk sh) = (Ok result, x)"
    and "queues_ok dec sh" "\<forall>(name, e)\<in>set (rr_outputs result). ser_ok (wx_ser ctx) dec e"
    and "wx_error_log ctx = Some write" "\<forall>c. write c = None"
  shows "queues_ok dec sh'
     \<and> (\<forall>(name, e)\<in>set (rr_outputs result). queued dec name e sh'
          \<or> (\<exists>t. EOutput t (bp_name (wk_pl wk)) (name @ '' enqueue'') enqueue_reason name
                (output_event_from_owned (qe_event e)) \<in> set (sh_dlq sh')))"
  by (rule run_worker_outputs[OF assms])

theorem worker_outputs_kept_witness:
  "\<exists>wk' sh'. run_worker ex_ctx 9 ex_event 40 ex_worker (ex_shared True) = Some (wk', sh')
     \<and> (queued (\<lambda>_. Some ex_sent) ''out'' ex_sent sh' \<or> (\<exists>t. EOutput t ''p'' ''out enqueue'' enqueue_reason ''out''
          (output_event_from_owned (qe_event ex_sent)) \<in> set (sh_dlq sh')))"
proof -
  obtain wk' sh' x where run: "run_worker ex_ctx 9 ex_event 40 ex_worker (ex_shared True) = Some (wk', sh')"
    and x: "run_pipeline (worker_env ex_ctx ex_worker ex_event 40) 9 (worker_xstate ex_worker (ex_shared True)) =
      (Ok \<lparr>rr_outputs = [(''out'', ex_sent)], rr_had_outputs = True, rr_termination = Finished, rr_errored = []\<rparr>, x)"
    using ex_worker_done ex_worker_run by meson
  have "records (\<lambda>_. Some ex_sent) (''hello'' @ [newline]) = [ex_sent]"
    by (rule records_line) (simp_all add: newline_def line_record_def complete_line_def ascii_whitespace_def)
  then have ser: "ser_ok ex_ser (\<lambda>_. Some ex_sent) ex_sent"
    by (simp add: ser_ok_def ex_ser_def) (simp add: ex_sent_def ex_event_def event_new_def newline_def)
  have "queues_ok (\<lambda>_. Some ex_sent) (ex_shared True)" by (simp add: queues_ok_def ex_shared_def queue_ok_def)
  from worker_outputs_kept[OF run x this] show ?thesis
    using run ser by (auto simp: ex_ctx_def ex_worker_def ex_pipeline_def queued_def queue_contents_def)
qed

text \<open>A worker counts a run as errored exactly when the run left a dead-letter record or a log line.\<close>

theorem worker_errors_recorded:
  assumes "run_worker ctx n ev dispatch wk sh = Some (wk', sh')" "bodies_in_range (worker_env ctx wk ev dispatch)"
  shows "length (sh_dlq sh) + length (sh_lines sh) < length (sh_dlq sh') + length (sh_lines sh')
     \<longleftrightarrow> pm_errored (wk_metrics wk') \<noteq> pm_errored (wk_metrics wk)"
  by (rule run_worker_recorded[OF assms])

theorem worker_errors_recorded_witness:
  "\<exists>wk' sh'. run_worker ex_ctx 9 ex_event 40 ex_worker (ex_shared True) = Some (wk', sh')
     \<and> (0 < length (sh_dlq sh') + length (sh_lines sh') \<longleftrightarrow> pm_errored (wk_metrics wk') \<noteq> 0)"
proof -
  have "bodies_in_range (worker_env ex_ctx ex_worker ex_event 40)"
    by (simp add: bodies_in_range_def worker_env_def ex_worker_def ex_pipeline_def ex_blueprint_def)
  then show ?thesis
    using ex_worker_done[of 40 True] worker_errors_recorded[of ex_ctx 9 ex_event 40 ex_worker "ex_shared True"]
    by (fastforce simp: ex_shared_def ex_worker_def)
qed

section \<open>Persistence\<close>

text \<open>A value crosses a JSON boundary and comes back: whatever JSON can hold is written and read back exactly, except
  that a timestamp returns as the integer of its nanoseconds. Keys that start with a dollar sign and byte strings never
  collide with the marker. The direct writer of the hot path writes the same JSON.\<close>

theorem json_value_roundtrip:
  assumes "b64_ok cx" "owned_ok v" "storable v"
  shows "\<exists>j. value_to_json cx v = Ok j \<and> json_to_value cx j = Ok (untimed v) \<and> serialize_value cx (view_in v) = Ok j"
  using storable_json[OF assms(3)] json_value_back[OF assms(1,2)] serialize_view[OF assms(2)] by metis

definition ex_codec :: "json \<Rightarrow> json_codec" where
  "ex_codec j = \<lparr>jx_b64_encode = id, jx_b64_decode = Inr, jx_uuid_text = nat_digits, jx_uuid_parse = Some \<circ> digits_val,
     jx_uuid_v7 = (\<lambda>_. True), jx_to_text = (\<lambda>_. Some ''{...}''), jx_of_text = (\<lambda>_. Some j)\<rparr>"

lemma ex_b64: "b64_ok (ex_codec j)"
  by (simp add: b64_ok_def ex_codec_def)

theorem json_value_roundtrip_witness:
  "\<exists>j. value_to_json (ex_codec JNull) (OObject [(''$bytes_b64'', OBytes ''x''), (''t'', OTimestamp 5)]) = Ok j
     \<and> json_to_value (ex_codec JNull) j = Ok (OObject [(''$bytes_b64'', OBytes ''x''), (''t'', OInt 5)])"
  using json_value_roundtrip[OF ex_b64[of JNull], of "OObject [(''$bytes_b64'', OBytes ''x''), (''t'', OTimestamp 5)]"]
  by (auto simp: in_i64_def i64_min_def i64_max_def simp del: value_to_json.simps json_to_value.simps)

text \<open>C27: An event from an IPv4 source survives the write-ahead log, if its fields are in the ranges of their types, its workspace is
  what JSON can hold, and the JSON text and base64 libraries keep their contracts: its record is one line, and reading the line gives
  the event and its emission time back, with workspace timestamps as integers and without the acknowledgement handle.\<close>

theorem wal_record_roundtrip:
  assumes "b64_ok cx" "serde_ok cx (wal_json cx qe)" "loggable cx qe"
    and "oe_source (qe_event qe) = (V4 a b c d, p)" "ip_ok (V4 a b c d)"
  shows "\<exists>data. wal_ser cx qe = Some data \<and> newline \<notin> set data \<and> records (wal_dec cx fresh) (data @ [newline]) = [queued_untimed qe]"
  by (rule wal_v4[OF assms])

lemma ex_loggable: "loggable (ex_codec j) \<lparr>qe_event = event_new 7 1000 ''hello'' (ip, 514), qe_emitted_ns = 42\<rparr>"
  by (simp add: loggable_def persistable_def uuid_ok_def event_new_def ex_codec_def digits_val_nat_digits
      in_i64_def i64_min_def i64_max_def)

lemma ex_serde: "serde_ok (ex_codec j) j"
  by (simp add: serde_ok_def ex_codec_def newline_def ascii_whitespace_def)

lemma wal_json_codec: "wal_json (ex_codec j) \<lparr>qe_event = event_new 7 1000 ''hello'' (ip, 514), qe_emitted_ns = 42\<rparr>
    = wal_json (ex_codec JNull) \<lparr>qe_event = event_new 7 1000 ''hello'' (ip, 514), qe_emitted_ns = 42\<rparr>"
  by (simp add: wal_json_def to_json_value_def to_json_value_with_def bytes_to_json_def event_new_def ex_codec_def)

lemma ex_wal: "\<exists>j. serde_ok (ex_codec j) (wal_json (ex_codec j) \<lparr>qe_event = event_new 7 1000 ''hello'' (ip, 514), qe_emitted_ns = 42\<rparr>)"
  by (intro exI, subst wal_json_codec) (rule ex_serde)

theorem wal_record_roundtrip_witness:
  "\<exists>cx data. wal_ser cx \<lparr>qe_event = ex_event, qe_emitted_ns = 42\<rparr> = Some data
     \<and> records (wal_dec cx 0) (data @ [newline]) = [\<lparr>qe_event = ex_event, qe_emitted_ns = 42\<rparr>]"
proof -
  obtain j where "serde_ok (ex_codec j) (wal_json (ex_codec j) \<lparr>qe_event = ex_event, qe_emitted_ns = 42\<rparr>)"
    using ex_wal unfolding ex_event_def by blast
  from wal_record_roundtrip[OF ex_b64 this, of 10 0 0 1 514 0] ex_loggable[of j "V4 10 0 0 1"] show ?thesis
    by (auto simp: ex_event_def event_new_def queued_untimed_def untimed_event_def)
qed

text \<open>C34: An event from an IPv6 source does not survive it: the send reports success and the queue has no record of the
  event, because the reader puts the address and the port together without the brackets the parser needs.\<close>

theorem ipv6_records_lost:
  assumes "b64_ok cx" "serde_ok cx (wal_json cx qe)" "loggable cx qe" "oe_source (qe_event qe) = (V6 ss, p)" "length ss = 8"
    and "dq_inv (wal_dec cx fresh) d" "backend_send (wal_ser cx) (WriteIO NoFault stuck) qe (DiskQ d) = (Inr (), q')"
  shows "\<exists>d'. q' = DiskQ d' \<and> dq_inv (wal_dec cx fresh) d' \<and> unconfirmed (wal_dec cx fresh) d' = unconfirmed (wal_dec cx fresh) d"
  by (rule send_v6[OF assms])

definition ex_v6 :: queued_event where
  "ex_v6 = \<lparr>qe_event = event_new 7 1000 ''hello'' (V6 [0, 0, 0, 0, 0, 0, 0, 1], 514), qe_emitted_ns = 42\<rparr>"

theorem ipv6_records_lost_witness:
  "\<exists>cx q' d'. backend_send (wal_ser cx) (WriteIO NoFault (\<lambda>_. False)) ex_v6 (DiskQ ex_queue) = (Inr (), q')
     \<and> q' = DiskQ d' \<and> unconfirmed (wal_dec cx 0) d' = unconfirmed (wal_dec cx 0) ex_queue"
proof -
  obtain j where j: "serde_ok (ex_codec j) (wal_json (ex_codec j) ex_v6)"
    using ex_wal unfolding ex_v6_def by blast
  have l: "loggable (ex_codec j) ex_v6" unfolding ex_v6_def by (rule ex_loggable)
  have inv: "dq_inv (wal_dec (ex_codec j) 0) ex_queue"
    using create_inv[where m = 0 and dec = "wal_dec (ex_codec j) 0", OF empty_dir_ok] by (simp add: ex_queue_def ex_dir_def)
  have "\<exists>q'. backend_send (wal_ser (ex_codec j)) (WriteIO NoFault (\<lambda>_. False)) ex_v6 (DiskQ ex_queue) = (Inr (), q')"
    by (simp add: backend_send_def wal_ser_def ex_codec_def dq_send_def ex_queue_def create_disk_queue_def recover_state_def
        ex_dir_def load_cursor_def write_to_segment_def inspect_tail_def rotate_def open_segment_def segment_max_bytes_def Let_def)
  then obtain q' where s: "backend_send (wal_ser (ex_codec j)) (WriteIO NoFault (\<lambda>_. False)) ex_v6 (DiskQ ex_queue) = (Inr (), q')" by blast
  have src: "oe_source (qe_event ex_v6) = (V6 [0, 0, 0, 0, 0, 0, 0, 1], 514)" "length [0, 0, 0, 0, 0, 0, 0, 1 :: nat] = 8"
    by (simp_all add: ex_v6_def event_new_def)
  from ipv6_records_lost[OF ex_b64 j l src inv s] s show ?thesis by blast
qed

end
