(* ===== verification/Transport.thy ===== *)
theory Transport
  imports LtpExample Delivery
begin

text \<open>
  The properties of what moves events in and out of the daemon: LTP frames, listeners, outputs and the paths
  between nodes, each with a witness on concrete events.
\<close>

section \<open>LTP\<close>

text \<open>An event with a version 7 key at node \<open>a\<close>, and the output of that node.\<close>

definition ex_key :: uuid where "ex_key = 7 * 2 ^ 76 + 2 ^ 63"

definition ex_src :: sock_addr where "ex_src = (V4 10 0 0 1, 514)"

definition ex_msg :: owned_event where "ex_msg = event_new ex_key 1000 ''hi'' ex_src"

definition ex_ltp :: ltp_output where
  "ex_ltp = \<lparr>lo_name = ''up'', lo_node_id = ''a'', lo_codec = plain_codec, lo_hello = frame_bytes ''a'' [],
     lo_retry = retry_default, lo_error_log = None, lo_fallback = FbOff\<rparr>"

definition ex_pm :: ltp_peer_metrics where
  "ex_pm = \<lparr>pm_network = delivery_histogram, pm_intra = delivery_histogram, pm_negative = 0, pm_loop_dropped = 0\<rparr>"

definition ex_sender :: sender where
  "ex_sender = \<lparr>sd_conn = None, sd_closed = [], sd_peer = ex_pm, sd_out = ex_out\<rparr>"

definition ex_attempt :: attempt_io where
  "ex_attempt = \<lparr>ai_stop_before = False, ai_connect = ConnUp, ai_stop_after = False, ai_hello = WriteOk, ai_now = 2000, ai_event = WriteOk\<rparr>"

definition ex_stamp :: "nat \<Rightarrow> hop_stamp" where
  "ex_stamp d = \<lparr>node_id = ''a'', arrival_unix_nano = 1000, departure_unix_nano = d\<rparr>"

definition ex_meta :: ltp_meta where
  "ex_meta = \<lparr>lm_key = put_uuid ex_key, lm_stamps = [ex_stamp 2000]\<rparr>"

lemma ex_key_ok: "key_ok plain_codec ex_key"
  by (simp add: key_ok_def plain_codec_def put_uuid_def put64_def be32_def ex_key_def)

lemma ex_ltp_ok: "output_ok ex_ltp"
  using plain_codec_ok by (simp add: output_ok_def ex_ltp_def encode_hello_frame_def frame_fits_def max_meta_len_def plain_codec_def utf8_valid_def)

lemma ex_msg_ok: "ltp_event_ok plain_codec ex_msg"
  using ex_key_ok by (simp add: ltp_event_ok_def ex_msg_def event_new_def ltp_stamps_slice_def)

lemma ex_working: "working_event_meta ex_ltp ex_msg = \<lparr>wm_meta = \<lparr>lm_key = put_uuid ex_key, lm_stamps = [ex_stamp 0]\<rparr>, wm_local = 0\<rparr>"
  by (simp add: working_event_meta_def ex_msg_def event_new_def ltp_stamps_slice_def pending_local_def ex_ltp_def plain_codec_def
      to_wire_u64_def clamp_i64_def i64_min_def i64_max_def ex_stamp_def)

lemma ex_fits: "frame_fits (put_meta ex_meta) ''hi''" "meta_ok ex_meta"
  by (simp_all add: frame_fits_def max_meta_len_def max_payload_len_def put_meta_def ex_meta_def put_text_def put_uuid_def length_concat
      put_stamps_def put_stamp_def ex_stamp_def meta_ok_def stamp_ok_def utf8_valid_def comp_def sum_list_triv)

lemma ex_frame: "event_frame ex_ltp 2000 (working_event_meta ex_ltp ex_msg) ''hi'' =
    (Inr (frame_bytes (put_meta ex_meta) ''hi''), \<lparr>wm_meta = ex_meta, wm_local = 0\<rparr>)"
proof -
  have "encode_frame put_meta ex_meta ''hi'' = Inr (frame_bytes (put_meta ex_meta) ''hi'')" using ex_fits by (simp add: encode_frame_def)
  moreover have "sealed_at 0 2000 [ex_stamp 0] = [ex_stamp 2000]" by (simp add: sealed_at_def ex_stamp_def)
  ultimately show ?thesis unfolding ex_working
    by (simp add: event_frame_def ex_ltp_def plain_codec_def to_wire_u64_def ex_meta_def[symmetric])
qed

lemma ex_decode: "decode_frame (lc_meta_dec plain_codec) (frame_bytes (put_meta ex_meta) ''hi'') = Inr (ex_meta, ''hi'')"
  using decode_frame_bytes[OF ex_fits(1)] get_put_meta[OF ex_fits(2)] by (simp add: plain_codec_def)

lemma ex_forward: "\<exists>ev pm'. event_from_frame plain_codec ex_meta ''hi'' src ''b'' 16 3000 pm = (Ok (Forward ev), pm')"
proof -
  have "key_ok plain_codec ex_key" "lm_key ex_meta = lc_uuid_bytes plain_codec ex_key" using ex_key_ok by (simp_all add: ex_meta_def plain_codec_def)
  from event_from_frame_admits[OF plain_codec_ok this, of "''hi''" src "\<lparr>pr_expected = ''a'', pr_node_id = ''b'', pr_max_hops = 16\<rparr>" 3000 pm]
  show ?thesis
    by (auto simp: admits_def ex_meta_def ex_stamp_def plain_codec_def put_meta_def put_text_def put_uuid_def length_concat put_stamps_def
        put_stamp_def max_meta_len_def comp_def sum_list_triv)
qed

text \<open>C5: However an event travels between nodes by LTP, through any outputs, listeners, pipelines and queues on the way, it is never
  accepted twice by one node, it is at no more than sixteen nodes, and past its first node its hop history names exactly the nodes
  it has been at, in order.\<close>

theorem ltp_loop_free:
  assumes "codec_ok cx" "travels cx path ev"
  shows "distinct path \<and> length path \<le> default_max_hops \<and> (1 < length path \<longrightarrow> map node_id (ltp_stamps_slice ev) = path)"
  using travels_inv[OF assms] by (auto simp: path_inv_def)

lemma ex_travels: "\<exists>ev. travels plain_codec [''a'', ''b''] ev"
proof -
  obtain ev pm' where fwd: "event_from_frame plain_codec ex_meta ''hi'' ex_src ''b'' 16 3000 ex_pm = (Ok (Forward ev), pm')" using ex_forward by blast
  have start: "travels plain_codec [''a''] ex_msg"
    by (rule travels.starts) (use ex_key_ok in \<open>simp_all add: ex_msg_def event_new_def\<close>)
  have "travels plain_codec ([''a''] @ [''b'']) ev"
    by (rule travels.hop[OF start ex_ltp_ok _ _ same_working_refl, of 2000 "frame_bytes (put_meta ex_meta) ''hi''" _ ex_meta "''hi''" _ 3000 16 ex_src ex_pm ev pm'])
      (use ex_frame ex_decode fwd in \<open>auto simp: ex_ltp_def ex_msg_def event_new_def in_i64_def i64_min_def i64_max_def utf8_valid_def default_max_hops_def\<close>)
  then show ?thesis by auto
qed

theorem ltp_loop_free_witness: "\<exists>ev. travels plain_codec [''a'', ''b''] ev \<and> map node_id (ltp_stamps_slice ev) = [''a'', ''b'']"
proof -
  obtain ev where ev: "travels plain_codec [''a'', ''b''] ev" using ex_travels by blast
  from ltp_loop_free[OF plain_codec_ok ev] ev show ?thesis by auto
qed

text \<open>C3: A delivered event arrives. When an LTP output resolves an event as delivered, whatever earlier attempts did, the bytes of
  the connection are such that the listener they were meant for, reading them in pieces of any size, ends without an error and has
  passed on an event with the same key, the egress as its payload and the hop history of the sender followed by its own node,
  unless the hop rules forbid it there.\<close>

theorem ltp_delivered_is_received:
  assumes "output_ok lo" "ltp_event_ok (lo_codec lo) ev" "\<forall>n. in_i64 (ai_now (io n))" "sender_ok lo sd" "qh_armed h"
    and "ltp_consume lo io stopping now t ev h sd = (ws, sd')" "is_delivered (last (os_acks (sd_out sd')))"
    and "sd_conn sd' = Some b" "arrived False s = b" "ending False s = AtEof"
    and "routes spki = Some route" "pr_expected route = lo_node_id lo" "has_metrics (lo_node_id lo)"
    and "\<forall>w k. same_working (working_event_meta lo ev) w \<longrightarrow> admits (lo_codec lo) route (clk k) (wm_meta w)"
  shows "\<exists>l' ev'. handle_connection (lo_codec lo) routes has_metrics (TlsUp (Some spki)) False src clk (\<lambda>_. True) s l = (Inr (), l') \<and>
    ev' \<in> set (ls_sent l') \<and> oe_key ev' = oe_key ev \<and> oe_ingress ev' = oe_egress ev \<and>
    map node_id (ltp_stamps_slice ev') = map node_id (lm_stamps (wm_meta (working_event_meta lo ev))) @ [pr_node_id route]"
proof -
  have "settled_wire lo ev (working_event_meta lo ev) sd sd'" using ltp_consume_ok assms(1-6) by blast
  then obtain ms w' where w': "same_working (working_event_meta lo ev) w'" "whole lo (ms @ [(wm_meta w', oe_egress ev)]) b"
    using assms(7,8) by (auto simp: settled_wire_def)
  have m: "lc_uuid_of (lo_codec lo) (lm_key (wm_meta w')) = oe_key ev"
    "map node_id (lm_stamps (wm_meta w')) = map node_id (lm_stamps (wm_meta (working_event_meta lo ev)))"
    using w'(1) assms(1,2) codec_okD(5)[of "lo_codec lo" "oe_key ev"]
    by (auto simp: same_working_def working_event_meta_def Let_def output_ok_def ltp_event_ok_def key_ok_def)
  show ?thesis
    using connection_received[where has_metrics = has_metrics and routes = routes and src = src and clk = clk and l = l,
        OF assms(1) w'(2) assms(9-13)] assms(14)[rule_format, OF w'(1), of "length ms"] m
    by fastforce
qed

definition ex_route :: peer_route where "ex_route = \<lparr>pr_expected = ''a'', pr_node_id = ''b'', pr_max_hops = 16\<rparr>"

definition ex_handle :: queue_handle where "ex_handle = handle_new (QDisk 0 0) 0"

definition ex_wire :: bytes where "ex_wire = frame_bytes ''a'' [] @ frame_bytes (put_meta ex_meta) ''hi''"

lemma ex_write_attempt: "\<exists>w' sd'. write_attempt ex_ltp ex_attempt ''hi'' (working_event_meta ex_ltp ex_msg) ex_sender = (WDelivered, w', sd') \<and>
    sd_conn sd' = Some ex_wire \<and> os_acks (sd_out sd') = []"
  using ex_frame
  by (auto simp: write_attempt_def ex_attempt_def ex_sender_def write_hello_and_event_def write_bytes_def write_event_def wrote_event_def
      ex_out_def ex_wire_def) (auto simp: ex_ltp_def)

lemma ex_consume: "\<exists>sd'. ltp_consume ex_ltp (\<lambda>_. ex_attempt) (\<lambda>_. False) 0 5000 ex_msg ex_handle ex_sender = ([], sd') \<and>
    sd_conn sd' = Some ex_wire \<and> is_delivered (last (os_acks (sd_out sd')))"
proof -
  obtain w' sd' where a: "write_attempt ex_ltp ex_attempt ''hi'' (working_event_meta ex_ltp ex_msg) ex_sender = (WDelivered, w', sd')"
    "sd_conn sd' = Some ex_wire" "os_acks (sd_out sd') = []" using ex_write_attempt by blast
  have e: "oe_egress ex_msg = ''hi''" by (simp add: ex_msg_def event_new_def)
  show ?thesis using a handle_finish_one[of ex_handle "UseDelivered 5000"]
    by (auto simp: ltp_consume_def e max_payload_len_def ltp_retry.simps use_handle_def is_delivered_def ex_handle_def handle_new_def)
qed

lemma ex_admits: "same_working (working_event_meta ex_ltp ex_msg) w \<Longrightarrow> admits plain_codec ex_route k (wm_meta w)"
  unfolding ex_working
  by (auto simp: same_working_def admits_def ex_route_def ex_stamp_def plain_codec_def put_meta_def put_text_def put_uuid_def length_concat
      put_stamps_def put_stamp_def max_meta_len_def comp_def sum_list_triv sealed_at_def)

lemma single_bytes: "arrived False (map (\<lambda>c. Data [c]) b) = b" "ending False (map (\<lambda>c. Data [c]) b) = AtEof"
  by (induction b) simp_all

definition ex_listener :: listener where
  "ex_listener = \<lparr>ls_input = \<lparr>im_received = 0, im_invalid = 0, im_injected = 0, im_bytes = 0\<rparr>, ls_rejected_unknown = 0, ls_peer = ex_pm,
     ls_table = peer_table_new, ls_sent = []\<rparr>"

theorem ltp_delivered_is_received_witness:
  "\<exists>l' ev'. handle_connection plain_codec (\<lambda>k. if k = ''K'' then Some ex_route else None) (\<lambda>_. True) (TlsUp (Some ''K'')) False ex_src (\<lambda>_. 3000)
      (\<lambda>_. True) (map (\<lambda>c. Data [c]) ex_wire) ex_listener = (Inr (), l') \<and> ev' \<in> set (ls_sent l') \<and> oe_key ev' = ex_key \<and> oe_ingress ev' = ''hi''"
proof -
  obtain sd' where sd': "ltp_consume ex_ltp (\<lambda>_. ex_attempt) (\<lambda>_. False) 0 5000 ex_msg ex_handle ex_sender = ([], sd')"
    "sd_conn sd' = Some ex_wire" "is_delivered (last (os_acks (sd_out sd')))" using ex_consume by blast
  have pre: "ltp_event_ok (lo_codec ex_ltp) ex_msg" "\<forall>n. in_i64 (ai_now ((\<lambda>_. ex_attempt) n))" "sender_ok ex_ltp ex_sender" "qh_armed ex_handle"
    using ex_msg_ok by (simp_all add: ex_ltp_def ex_attempt_def in_i64_def i64_min_def i64_max_def sender_ok_def ex_sender_def ex_handle_def handle_new_def)
  show ?thesis
    using ltp_delivered_is_received[OF ex_ltp_ok pre sd'(1,3,2) single_bytes, of "\<lambda>k. if k = ''K'' then Some ex_route else None" "''K''" ex_route
        "\<lambda>_. True" "\<lambda>_. 3000" ex_src ex_listener] ex_admits
    by (auto simp: ex_ltp_def ex_route_def ex_msg_def event_new_def)
qed

text \<open>An event a listener has accepted can always be sent on: whatever the clock says, an output of the same node finds room for its
  metadata, since the listener checked the length with its own stamp filled in. Only a payload that a pipeline made too large is refused.\<close>

theorem ltp_forwarded_fits:
  assumes "codec_ok cx" "event_from_frame cx m p src me max_hops now pm = (Ok (Forward ev), pm')"
    and "oe_key ev' = oe_key ev" "oe_ltp_stamps ev' = oe_ltp_stamps ev" "lo_node_id lo = me" "lo_codec lo = cx"
  shows "(\<exists>f w. event_frame lo t (working_event_meta lo ev') payload = (Inr f, w)) \<longleftrightarrow> length payload \<le> max_payload_len"
  using forwarded_fits[OF assms] by (auto simp: event_frame_def encode_frame_def frame_fits_def Let_def)

theorem ltp_forwarded_fits_witness:
  "\<exists>ev pm' f w. event_from_frame plain_codec ex_meta ''hi'' ex_src ''b'' 16 3000 ex_pm = (Ok (Forward ev), pm') \<and>
     event_frame (ex_ltp\<lparr>lo_node_id := ''b''\<rparr>) 4000 (working_event_meta (ex_ltp\<lparr>lo_node_id := ''b''\<rparr>) ev) ''ok'' = (Inr f, w)"
proof -
  obtain ev pm' where fwd: "event_from_frame plain_codec ex_meta ''hi'' ex_src ''b'' 16 3000 ex_pm = (Ok (Forward ev), pm')" using ex_forward by blast
  have "length ''ok'' \<le> max_payload_len" by (simp add: max_payload_len_def)
  with ltp_forwarded_fits[OF plain_codec_ok fwd refl refl, of "ex_ltp\<lparr>lo_node_id := ''b''\<rparr>" 4000 "''ok''"] fwd show ?thesis by (auto simp: ex_ltp_def)
qed

text \<open>C33: The two readers of LTP frames agree with the writer and with each other: a frame decodes to what was encoded, everything that
  decodes is a frame in exactly the encoder's form, and the reader of a stream takes exactly the first frame off it, however the
  bytes are cut, leaving the rest for the next.\<close>

theorem ltp_frame_roundtrip:
  assumes "encode_frame enc m p = Inr f" "dec (enc m) = Some m"
  shows "decode_frame dec f = Inr (m, p) \<and> (\<forall>g n q. decode_frame dec g = Inr (n, q) \<longrightarrow> (\<exists>mb. frame_fits mb q \<and> g = frame_bytes mb q \<and> dec mb = Some n)) \<and>
    (\<forall>s rest. arrived False s = f @ rest \<longrightarrow> (\<exists>s'. read_frame s = (Frame (enc m) p, length p, s') \<and> arrived False s' = rest \<and> ending False s' = ending False s))"
proof -
  have f: "frame_fits (enc m) p" "f = frame_bytes (enc m) p" using assms(1) by (simp_all add: encode_frame_def)
  have "decode_frame dec f = Inr (m, p)" using decode_frame_bytes[OF f(1), of dec] f(2) assms(2) by simp
  moreover have "\<exists>mb. frame_fits mb q \<and> g = frame_bytes mb q \<and> dec mb = Some n" if "decode_frame dec g = Inr (n, q)" for g n q
    using decode_frame_Inr[OF that] by blast
  moreover have "\<exists>s'. read_frame s = (Frame (enc m) p, length p, s') \<and> arrived False s' = rest \<and> ending False s' = ending False s"
    if "arrived False s = f @ rest" for s rest
    using read_frame_bytes[OF f(1), of s rest] that f(2) by metis
  ultimately show ?thesis by blast
qed

theorem ltp_frame_roundtrip_witness:
  "encode_frame put_meta ex_meta ''hi'' = Inr (frame_bytes (put_meta ex_meta) ''hi'') \<and> decode_frame get_meta (frame_bytes (put_meta ex_meta) ''hi'') = Inr (ex_meta, ''hi'')"
  using ltp_frame_roundtrip[of put_meta ex_meta "''hi''" "frame_bytes (put_meta ex_meta) ''hi''" get_meta] ex_fits get_put_meta
  by (simp add: encode_frame_def)

text \<open>In any interleaving of connections being established and ending, a peer key has at most two established connections; each of them is one
  whose task is still alive, they are the newest ones, an evicted task that ends later takes nothing else with it, and a key without
  connections leaves no entry behind.\<close>

theorem ltp_peers_bounded:
  assumes "leased n pt live" "n \<le> 2 ^ 64"
  shows "length (entries pt spki) \<le> 2 \<and> sorted_wrt (<) (entries pt spki) \<and> (\<forall>g \<in> set (entries pt spki). (spki, g) \<in> set live) \<and>
    (\<forall>g. (spki, g) \<in> set live \<longrightarrow> g \<in> set (entries pt spki) \<or> (\<forall>h \<in> set (entries pt spki). g < h)) \<and>
    (spki \<notin> fst ` set live \<longrightarrow> pt_by_spki pt spki = None)"
proof -
  have inv: "leased_inv n pt live" using leased_leased_inv[OF assms] .
  have "pt_by_spki pt spki = None" if "spki \<notin> fst ` set live"
  proof (rule ccontr)
    assume "pt_by_spki pt spki \<noteq> None"
    then obtain q where q: "pt_by_spki pt spki = Some q" by blast
    then have "q \<noteq> []" "\<forall>g \<in> set q. (spki, g) \<in> set live" using inv by (auto simp: leased_inv_def entries_def)
    then show False using that by (cases q) force+
  qed
  then show ?thesis using inv by (auto simp: leased_inv_def)
qed

lemma ex_leases: "\<exists>pt. leased 3 pt [(''K'', 0), (''K'', 1), (''K'', 2)] \<and> entries pt ''K'' = [1, 2]"
proof -
  have act: "activate ''K'' \<lparr>pt_next = g, pt_by_spki = f\<rparr> =
      ((g, if length (case f ''K'' of Some q \<Rightarrow> q | None \<Rightarrow> []) = 2 then Some (hd (the (f ''K''))) else None),
       \<lparr>pt_next = g + 1, pt_by_spki = f(''K'' \<mapsto> (if length (case f ''K'' of Some q \<Rightarrow> q | None \<Rightarrow> []) = 2 then tl (the (f ''K'')) else (case f ''K'' of Some q \<Rightarrow> q | None \<Rightarrow> [])) @ [g])\<rparr>)" for g f
    by (auto simp: activate_def Let_def split: option.split)
  have l0: "leased 0 \<lparr>pt_next = 0, pt_by_spki = (\<lambda>_. None)\<rparr> []" using leased_new by (simp add: peer_table_new_def)
  have l1: "leased (Suc 0) \<lparr>pt_next = 0 + 1, pt_by_spki = (\<lambda>_. None)(''K'' \<mapsto> [] @ [0])\<rparr> ([] @ [(''K'', 0)])"
    by (rule leased_activate[OF l0]) (simp add: act)
  have l2: "leased (Suc (Suc 0)) \<lparr>pt_next = 0 + 1 + 1, pt_by_spki = ((\<lambda>_. None)(''K'' \<mapsto> [] @ [0]))(''K'' \<mapsto> [0] @ [0 + 1])\<rparr> (([] @ [(''K'', 0)]) @ [(''K'', 0 + 1)])"
    by (rule leased_activate[OF l1]) (simp add: act)
  have "leased (Suc (Suc (Suc 0))) \<lparr>pt_next = 0 + 1 + 1 + 1, pt_by_spki = (((\<lambda>_. None)(''K'' \<mapsto> [] @ [0]))(''K'' \<mapsto> [0] @ [0 + 1]))(''K'' \<mapsto> [1] @ [0 + 1 + 1])\<rparr>
      ((([] @ [(''K'', 0)]) @ [(''K'', 0 + 1)]) @ [(''K'', 0 + 1 + 1)])"
    by (rule leased_activate[OF l2]) (simp add: act)
  then show ?thesis by (auto simp: entries_def eval_nat_numeral)
qed

theorem ltp_peers_bounded_witness: "\<exists>pt. leased 3 pt [(''K'', 0), (''K'', 1), (''K'', 2)] \<and> length (entries pt ''K'') \<le> 2"
proof -
  obtain pt where pt: "leased 3 pt [(''K'', 0), (''K'', 1), (''K'', 2)]" using ex_leases by blast
  from ltp_peers_bounded[OF pt, of "''K''"] pt show ?thesis by auto
qed

end
