(* ===== verification/SyslogNet.thy ===== *)
theory SyslogNet
  imports SyslogOut Transport
begin

section \<open>From the syslog output to the syslog input\<close>

text \<open>
  What an output writes a listener reads, for both framings, as long as no write runs into its timer; and what goes
  wrong when one does.
\<close>

subsection \<open>The bytes on the connections\<close>

text \<open>A message the framing can carry.\<close>

definition carries :: "syslog_framing \<Rightarrow> bytes \<Rightarrow> bool" where
  "carries f m \<longleftrightarrow> pri_ok m \<and> length m \<le> max_message_size \<and> (f = NonTransparent \<longrightarrow> line_safe m)"

definition stream_of :: "syslog_framing \<Rightarrow> bytes list \<Rightarrow> bytes" where
  "stream_of f ms = concat (map (frame_buf f) ms)"

definition wires_ok :: "syslog_framing \<Rightarrow> wires \<Rightarrow> bool" where
  "wires_ok f w \<longleftrightarrow> (\<forall>b. fst w = Some b \<longrightarrow> (\<exists>ms. (\<forall>m \<in> set ms. carries f m) \<and> b = stream_of f ms))"

text \<open>A write that ends in time, one way or the other.\<close>

fun in_time :: "sl_write \<Rightarrow> bool" where
  "in_time SwOk = True"
| "in_time (SwFailed _ _) = True"
| "in_time _ = False"

lemma stream_of_snoc: "stream_of f (ms @ [m]) = stream_of f ms @ frame_buf f m"
  by (simp add: stream_of_def)

lemma wires_ok_snoc:
  assumes "carries f m" "wires_ok f (Some c, old)"
  shows "wires_ok f (Some (c @ frame_buf f m), old')"
proof -
  obtain ms where "\<forall>x \<in> set ms. carries f x" "c = stream_of f ms" using assms(2) by (auto simp: wires_ok_def)
  then have "(\<forall>x \<in> set (ms @ [m]). carries f x) \<and> c @ frame_buf f m = stream_of f (ms @ [m])" using assms(1) by (simp add: stream_of_snoc)
  then show ?thesis unfolding wires_ok_def by (metis fst_conv option.inject)
qed

lemma sl_attempt_wires:
  assumes "sl_attempt so io m idx cn o' = (r, cn', o'', t)" "wires_ok (so_framing so) cn" "carries (so_framing so) m" "\<forall>i. in_time (pi_write (io i))"
  shows "wires_ok (so_framing so) cn' \<and> os_acks o'' = os_acks o' \<and> settled o'' = settled o' \<and> resolved o'' = resolved o' \<and>
    (r = AttOk \<longrightarrow> (\<exists>ms old. (\<forall>x \<in> set ms. carries (so_framing so) x) \<and> cn' = (Some (stream_of (so_framing so) (ms @ [m])), old)))"
proof -
  have e: "wires_ok f (Some [], old)" for f old by (auto simp: wires_ok_def stream_of_def intro!: exI[of _ "[]"])
  have none: "wires_ok f (None, old)" for f old by (simp add: wires_ok_def)
  have ab: "os_acks (add_bytes_written n o') = os_acks o' \<and> settled (add_bytes_written n o') = settled o' \<and> resolved (add_bytes_written n o') = resolved o'" for n o'
    by (simp add: add_bytes_written_def settled_def resolved_def failures_def)
  have send: "wires_ok (so_framing so) cn' \<and> os_acks o'' = os_acks o' \<and> settled o'' = settled o' \<and> resolved o'' = resolved o' \<and>
      (r = AttOk \<longrightarrow> (\<exists>ms old. (\<forall>x \<in> set ms. carries (so_framing so) x) \<and> cn' = (Some (stream_of (so_framing so) (ms @ [m])), old)))"
    if s: "sl_send (frame_buf (so_framing so) m) (so_addresses so ! idx) (io idx) c old o' = (r, cn', o'', t)" and c: "wires_ok (so_framing so) (Some c, old)" for c old
  proof (cases "pi_write (io idx)")
    case SwOk
    obtain ms where ms: "\<forall>x \<in> set ms. carries (so_framing so) x" "c = stream_of (so_framing so) ms" using c by (auto simp: wires_ok_def)
    then show ?thesis using s SwOk wires_ok_snoc[OF assms(3) c] ab by (auto simp: sl_send_def stream_of_snoc)
  next
    case (SwFailed n e)
    then show ?thesis using s none by (auto simp: sl_send_def)
  qed (use assms(4)[rule_format, of idx] in simp_all)
  show ?thesis
  proof (cases "fst cn")
    case None
    then show ?thesis using assms(1,2) send[of "[]"] e by (cases cn) (auto simp: sl_attempt_def split: sl_connect.splits)
  next
    case (Some c)
    then show ?thesis using assms(1,2) send[of c] by (cases cn) (auto simp: sl_attempt_def)
  qed
qed

definition sender_wires :: "syslog_output \<Rightarrow> syslog_sender \<Rightarrow> bool" where
  "sender_wires so sd \<longleftrightarrow> (\<forall>i < length (pl_state (ss_peers sd)). wires_ok (so_framing so) (ps_conn (pl_state (ss_peers sd) ! i)))"

text \<open>The frame of a message is the last one on an open connection.\<close>

definition on_a_wire :: "syslog_output \<Rightarrow> bytes \<Rightarrow> syslog_sender \<Rightarrow> bool" where
  "on_a_wire so m sd \<longleftrightarrow> (\<exists>idx < length (pl_state (ss_peers sd)). \<exists>ms old. (\<forall>x \<in> set ms. carries (so_framing so) x) \<and>
     ps_conn (pl_state (ss_peers sd) ! idx) = (Some (stream_of (so_framing so) (ms @ [m])), old))"

lemma rotation_wires:
  assumes "rotation aware stop now (sl_attempt so io m) pl o' = (r, pl', o'')" "carries (so_framing so) m" "\<forall>i. in_time (pi_write (io i))"
    and "sender_wires so \<lparr>ss_peers = pl, ss_out = o'\<rparr>"
  shows "sender_wires so \<lparr>ss_peers = pl', ss_out = o''\<rparr> \<and> os_acks o'' = os_acks o' \<and> settled o'' = settled o' \<and> resolved o'' = resolved o' \<and>
    (r = Sent \<longrightarrow> on_a_wire so m \<lparr>ss_peers = pl', ss_out = o''\<rparr>)"
proof (cases "length (pl_state pl) = 0")
  case False
  define n where "n = length (pl_state pl)"
  define idxs where "idxs = rotation_order n (unat (pl_cursor pl) mod n)"
  let ?pl = "pl\<lparr>pl_cursor := pl_cursor pl + 1\<rparr>"
  have n: "0 < n" using False by (simp add: n_def)
  have run: "rotate_over aware stop now (sl_attempt so io m) idxs ?pl o' = (r, pl', o'')"
    using assms(1) False by (simp add: rotation_def idxs_def n_def Let_def)
  have sub: "set idxs \<subseteq> {..<n}" using rotation_order_set[OF n] by (simp add: idxs_def)
  have len: "length (pl_state ?pl) = n" by (simp add: n_def)
  have ok: "\<forall>i < n. wires_ok (so_framing so) (ps_conn (pl_state ?pl ! i))" using assms(4) by (simp add: sender_wires_def n_def)
  let ?P = "\<lambda>i c w. wires_ok (so_framing so) c \<and> os_acks w = os_acks o' \<and> settled w = settled o' \<and> resolved w = resolved o'"
  have P: "length (pl_state pl') = n \<and> (\<forall>i < n. ?P i (ps_conn (pl_state pl' ! i)) o'')"
  proof (rule rotate_over_inv[OF run sub len, where P = ?P])
    fix i c w r c' w' t assume "?P i c w" and a: "sl_attempt so io m i c w = (r, c', w', t)"
    then show "?P i c' w' \<and> (\<forall>j d. j \<noteq> i \<longrightarrow> ?P j d w \<longrightarrow> ?P j d w')" using sl_attempt_wires[OF a _ assms(2,3)] by auto
  qed (use ok in simp)
  have "on_a_wire so m \<lparr>ss_peers = pl', ss_out = o''\<rparr>" if "r = Sent"
  proof -
    have step: "wires_ok (so_framing so) c'" if "wires_ok (so_framing so) c" "sl_attempt so io m i c w = (r, c', w', t)" for i c w r c' w' t
      using sl_attempt_wires[OF that(2,1) assms(2,3)] by blast
    have "\<exists>idx < n. \<exists>c0 w1 c t. wires_ok (so_framing so) c0 \<and> sl_attempt so io m idx c0 w1 = (AttOk, c, o'', t) \<and>
        ps_conn (pl_state pl' ! idx) = c"
      by (rule rotate_over_Sent[OF run[unfolded \<open>r = Sent\<close>] sub len ok]) (erule (1) step)
    then obtain idx c0 w1 c t where i: "idx < n" "wires_ok (so_framing so) c0" "sl_attempt so io m idx c0 w1 = (AttOk, c, o'', t)"
      "ps_conn (pl_state pl' ! idx) = c" by blast
    show ?thesis using sl_attempt_wires[OF i(3,2) assms(2,3)] i(1,4) P by (auto simp: on_a_wire_def)
  qed
  then show ?thesis using P n by (auto simp: sender_wires_def)
next
  case True
  then show ?thesis using assms(1,4) by (auto simp: rotation_def sender_wires_def)
qed

definition sl_settled :: "syslog_output \<Rightarrow> bytes \<Rightarrow> syslog_sender \<Rightarrow> syslog_sender \<Rightarrow> bool" where
  "sl_settled so m sd sd' \<longleftrightarrow> sender_wires so sd' \<and>
     (\<exists>ack. os_acks (ss_out sd') = os_acks (ss_out sd) @ [ack] \<and> (is_delivered ack \<longrightarrow> on_a_wire so m sd'))"

lemma sl_route_failure_acks:
  "qh_armed h \<Longrightarrow> \<exists>ack. os_acks (sl_route_failure so now ev h reason o') = os_acks o' @ [ack] \<and> \<not> is_delivered ack"
  using handle_finish_one[of h]
  by (auto simp: sl_route_failure_def route_event_to_dlq_def write_record_def resolve_ack_from_dlq_outcome_def is_delivered_def out_simps
      split: prod.split option.split dlq_outcome.split queue_position.split)

lemma on_ss_sel [simp]: "ss_out (on_ss f sd) = f (ss_out sd)" "ss_peers (on_ss f sd) = ss_peers sd"
  by (simp_all add: on_ss_def)

lemma on_ss_wires [simp]: "sender_wires so (on_ss f sd) = sender_wires so sd" "on_a_wire so m (on_ss f sd) = on_a_wire so m sd"
  by (simp_all add: sender_wires_def on_a_wire_def)

lemma sl_settled_failed:
  assumes "qh_armed h" "sender_wires so sd1" "os_acks (f (ss_out sd1)) = os_acks (ss_out sd)"
  shows "sl_settled so m sd (on_ss (\<lambda>o'. sl_route_failure so now ev h reason (f o')) sd1)"
  using sl_route_failure_acks[OF assms(1), of so now ev reason "f (ss_out sd1)"] assms(2,3) by (auto simp: sl_settled_def)

lemma write_payload_aware_wires:
  assumes "write_payload_shutdown_aware so io m sd = (r, sd')" "carries (so_framing so) m" "\<forall>i. in_time (pi_write (pa_peers io i))" "sender_wires so sd"
  shows "sender_wires so sd' \<and> os_acks (ss_out sd') = os_acks (ss_out sd) \<and> (r = WDelivered \<longrightarrow> on_a_wire so m sd')"
proof -
  obtain q pl o' where q: "rotation True (pa_stop io) (pa_now io) (sl_attempt so (pa_peers io) m) (ss_peers sd) (ss_out sd) = (q, pl, o')"
    by (cases "rotation True (pa_stop io) (pa_now io) (sl_attempt so (pa_peers io) m) (ss_peers sd) (ss_out sd)") auto
  have "sender_wires so \<lparr>ss_peers = ss_peers sd, ss_out = ss_out sd\<rparr>" using assms(4) by (cases sd) simp
  from rotation_wires[OF q assms(2,3) this] assms(1) show ?thesis
    by (auto simp: write_payload_shutdown_aware_def write_with_rotation_shutdown_aware_def q split: rotation_end.splits peer_send_error.splits)
qed

lemma sl_retry_settled:
  assumes "qh_armed h" "\<forall>k i. in_time (pi_write (pa_peers (io k) i))" "carries (so_framing so) (oe_egress ev)" "sender_wires so sd"
    and "sl_retry so io stopping now t ev h tries wait sd = (ws, sd')"
  shows "sl_settled so (oe_egress ev) sd sd'"
  using assms
proof (induction so io stopping now t ev h tries wait sd arbitrary: ws sd' rule: sl_retry.induct)
  case (1 so io stopping now t ev h tries wait sd)
  obtain r sd1 where a: "write_payload_shutdown_aware so (io tries) (oe_egress ev) sd = (r, sd1)"
    by (cases "write_payload_shutdown_aware so (io tries) (oe_egress ev) sd") auto
  have inv: "sender_wires so sd1" "os_acks (ss_out sd1) = os_acks (ss_out sd)" "r = WDelivered \<longrightarrow> on_a_wire so (oe_egress ev) sd1"
    using write_payload_aware_wires[OF a 1(4) _ 1(5)] 1(3) by auto
  note failed = sl_settled_failed[OF 1(2) inv(1), of _ sd]
  show ?case
  proof (cases r)
    case WDelivered
    then show ?thesis using 1(6) a inv handle_finish_one[OF 1(2), of "UseDelivered t"]
      by (subst (asm) sl_retry.simps) (auto simp: sl_settled_def use_handle_def)
  next
    case WPreSendShutdown
    then show ?thesis using 1(6) a failed[of "set_in_retry 0"] inv(2) by (subst (asm) sl_retry.simps) (auto simp: comp_def)
  next
    case (WErr e)
    show ?thesis
    proof (cases "rc_max_attempts (so_retry so) \<le> tries + 1 \<or> stopping (tries + 1)")
      case True
      then show ?thesis
        using 1(6) a WErr failed[of "\<lambda>o'. set_in_retry 0 (bump_retries o')"] failed[of "\<lambda>o'. set_in_retry 0 (set_in_retry 1 (bump_retries o'))"] inv(2)
        by (subst (asm) sl_retry.simps) (auto simp: Let_def on_ss_def comp_def split: if_splits)
    next
      case False
      let ?sd2 = "on_ss (set_in_retry 1) (on_ss bump_retries sd1)"
      obtain ws' where rec: "sl_retry so io stopping now t ev h (tries + 1) (next_wait (so_retry so) wait) ?sd2 = (ws', sd')"
        using 1(6) a WErr False by (subst (asm) sl_retry.simps) (auto simp: Let_def split: prod.splits)
      have "sl_settled so (oe_egress ev) ?sd2 sd'"
        using 1(1)[OF a[symmetric] WErr refl refl _ refl _ 1(2,3,4) _ rec] False inv(1) by simp
      then show ?thesis using inv(2) by (simp add: sl_settled_def)
    qed
  qed
qed

text \<open>Whatever the network does, the counters of the event are settled by the disposition alone.\<close>

lemma sl_attempt_neutral:
  "sl_attempt so io m idx cn o' = (r, cn', o'', t) \<Longrightarrow> settled o'' = settled o' \<and> resolved o'' = resolved o'"
  by (auto simp: sl_attempt_def sl_send_def add_bytes_written_def settled_def resolved_def failures_def
      split: prod.splits option.splits sl_connect.splits sl_write.splits)

lemma rotation_neutral:
  assumes "rotation aware stop now (sl_attempt so io m) pl o' = (r, pl', o'')"
  shows "settled o'' = settled o' \<and> resolved o'' = resolved o'"
proof (cases "length (pl_state pl) = 0")
  case False
  define n where "n = length (pl_state pl)"
  have n: "0 < n" using False by (simp add: n_def)
  let ?pl = "pl\<lparr>pl_cursor := pl_cursor pl + 1\<rparr>"
  have run: "rotate_over aware stop now (sl_attempt so io m) (rotation_order n (unat (pl_cursor pl) mod n)) ?pl o' = (r, pl', o'')"
    using assms False by (simp add: rotation_def n_def Let_def)
  let ?P = "\<lambda>(i :: nat) (c :: wires) w. settled w = settled o' \<and> resolved w = resolved o'"
  have "length (pl_state pl') = n \<and> (\<forall>i < n. ?P i (ps_conn (pl_state pl' ! i)) o'')"
  proof (rule rotate_over_inv[OF run, where P = ?P])
    fix i c w r c' w' t assume "?P i c w" and a: "sl_attempt so io m i c w = (r, c', w', t)"
    then show "?P i c' w' \<and> (\<forall>j d. j \<noteq> i \<longrightarrow> ?P j d w \<longrightarrow> ?P j d w')" using sl_attempt_neutral[OF a] by auto
  qed (use rotation_order_set[OF n] in \<open>simp_all add: n_def\<close>)
  then show ?thesis using n by auto
qed (use assms in \<open>auto simp: rotation_def\<close>)

lemma settles_sl_route: "qh_armed h \<Longrightarrow> settles [h] o' (sl_route_failure so now ev h reason o')"
  using settles_route[of h] by (auto simp: sl_route_failure_def route_event_to_dlq_def split: prod.split)

lemma settles_sl_reset:
  assumes "qh_armed h"
  shows "settles [h] o' (sl_route_failure so now ev h reason (set_in_retry v o'))"
    "settles [h] o' (sl_route_failure so now ev h reason (set_in_retry v (bump_retries o')))"
    "settles [h] o' (sl_route_failure so now ev h reason (set_in_retry v (set_in_retry u (bump_retries o'))))"
  using settles_sl_route[OF assms, of "set_in_retry v o'"] settles_sl_route[OF assms, of "set_in_retry v (bump_retries o')"]
    settles_sl_route[OF assms, of "set_in_retry v (set_in_retry u (bump_retries o'))"]
  by (simp_all add: settles_neutral)

lemma sl_retry_settles:
  assumes "qh_armed h" "sl_retry so io stopping now t ev h tries wait sd = (ws, sd')"
  shows "settles [h] (ss_out sd) (ss_out sd')"
  using assms
proof (induction so io stopping now t ev h tries wait sd arbitrary: ws sd' rule: sl_retry.induct)
  case (1 so io stopping now t ev h tries wait sd)
  obtain r sd1 where a: "write_payload_shutdown_aware so (io tries) (oe_egress ev) sd = (r, sd1)"
    by (cases "write_payload_shutdown_aware so (io tries) (oe_egress ev) sd") auto
  have "settled (ss_out sd1) = settled (ss_out sd) \<and> resolved (ss_out sd1) = resolved (ss_out sd)"
    using a rotation_neutral by (auto simp: write_payload_shutdown_aware_def write_with_rotation_shutdown_aware_def split: prod.splits)
  then have o: "settles [h] (ss_out sd) x \<longleftrightarrow> settles [h] (ss_out sd1) x" for x using out_neutral[of "ss_out sd" "ss_out sd1"] by simp
  show ?case
  proof (cases r)
    case WDelivered
    then show ?thesis using 1(3) a o settles_reset(1)[OF 1(2)] by (subst (asm) sl_retry.simps) auto
  next
    case WPreSendShutdown
    then show ?thesis using 1(3) a o settles_sl_reset[OF 1(2)] by (subst (asm) sl_retry.simps) auto
  next
    case (WErr e)
    show ?thesis
    proof (cases "rc_max_attempts (so_retry so) \<le> tries + 1 \<or> stopping (tries + 1)")
      case True
      then show ?thesis using 1(3) a o WErr settles_sl_reset[OF 1(2)]
        by (subst (asm) sl_retry.simps) (auto simp: Let_def split: if_splits)
    next
      case False
      let ?sd2 = "on_ss (set_in_retry 1) (on_ss bump_retries sd1)"
      obtain ws' where rec: "sl_retry so io stopping now t ev h (tries + 1) (next_wait (so_retry so) wait) ?sd2 = (ws', sd')"
        using 1(3) a WErr False by (subst (asm) sl_retry.simps) (auto simp: Let_def split: prod.splits)
      have "settles [h] (ss_out ?sd2) (ss_out sd')" using 1(1)[OF a[symmetric] WErr refl refl _ refl _ 1(2) rec] False by simp
      then show ?thesis using o by (simp add: settles_neutral)
    qed
  qed
qed

lemma sl_consume_shutdown_settles:
  assumes "qh_armed h"
  shows "settles [h] (ss_out sd) (ss_out (sl_consume_shutdown so io now t ev h sd))"
proof -
  obtain r sd1 where a: "write_payload so io (oe_egress ev) sd = (r, sd1)" by (cases "write_payload so io (oe_egress ev) sd") auto
  have "settled (ss_out sd1) = settled (ss_out sd) \<and> resolved (ss_out sd1) = resolved (ss_out sd)"
    using a rotation_neutral by (auto simp: write_payload_def write_with_rotation_at_def split: prod.splits)
  moreover have "settles [h] (ss_out sd1) (finalize_shutdown_singleton_ambiguous (so_error_log so) (so_fallback so) now t (so_name so) ev h r (ss_out sd1))"
    using settles_written[OF assms] settles_route[OF assms]
    by (auto simp: finalize_shutdown_singleton_ambiguous_def route_event_to_dlq_def split: sum.split prod.split)
  ultimately show ?thesis using a out_neutral[of "ss_out sd" "ss_out sd1"] by (simp add: sl_consume_shutdown_def)
qed

subsection \<open>Reading it back\<close>

text \<open>The framing a listener is configured with for an output.\<close>

definition listens_to :: "syslog_framing \<Rightarrow> tcp_framing \<Rightarrow> bool" where
  "listens_to f fr \<longleftrightarrow> fr = FrAuto \<or> fr = (case f of OctetCounting \<Rightarrow> FrOctetCounting | NonTransparent \<Rightarrow> FrNonTransparent)"

lemma pri_ok_hd: "pri_ok m \<Longrightarrow> hd m = CHR ''<''"
  by (auto simp: pri_ok_def validate_pri_def split: if_splits)

lemma fill_buf_first:
  assumes "arrived True s = b" "b \<noteq> []"
  obtains x s' where "fill_buf True s = (Got x, s')" "hd x = hd b" "arrived True s' = b" "ending True s' = ending True s"
proof -
  obtain r s' where r: "fill_buf True s = (r, s')" by fastforce
  show thesis
  proof (cases r)
    case (Got x)
    note g = fill_buf_Got[OF r[unfolded Got]]
    then obtain s'' where "s' = Data x # s''" by blast
    then have "b = x @ arrived True s''" using g assms by auto
    then show thesis using that r Got g assms by (cases x) auto
  next
    case (Stop e)
    then show thesis using fill_buf_Stop[of True s e s'] r assms by simp
  qed
qed

lemma stream_hd:
  assumes "\<forall>m \<in> set ms. carries f m" "ms \<noteq> []"
  shows "stream_of f ms \<noteq> [] \<and> (case f of OctetCounting \<Rightarrow> is_digit (hd (stream_of f ms)) \<and> hd (stream_of f ms) \<noteq> CHR ''0''
     | NonTransparent \<Rightarrow> hd (stream_of f ms) = CHR ''<'')"
proof -
  obtain m ms' where ms: "ms = m # ms'" using assms(2) by (cases ms) auto
  then have m: "pri_ok m" "m \<noteq> []" using assms(1) pri_ok_ne by (auto simp: carries_def)
  then have d: "list_all is_digit (nat_digits (length m))" "nat_digits (length m) \<noteq> []" "hd (nat_digits (length m)) \<noteq> CHR ''0''"
    using nat_digits_digits[of "length m"] nat_digits_hd[of "length m"] by auto
  show ?thesis
  proof (cases f)
    case OctetCounting
    then show ?thesis using d ms by (cases "nat_digits (length m)") (auto simp: stream_of_def frame_buf_def octet_frame_def)
  next
    case NonTransparent
    then show ?thesis using m pri_ok_hd[OF m(1)] ms by (cases m) (auto simp: stream_of_def frame_buf_def line_frame_def)
  qed
qed

lemma stream_received:
  assumes "\<forall>m \<in> set ms. carries f m" "ms \<noteq> []" "arrived True s = stream_of f ms" "ending True s = AtEof" "listens_to f fr"
  shows "syslog_connection fr mint (\<lambda>_. True) addr s c = (Some CEof, take_msgs mint addr (frame_buf f) ms c)"
proof -
  have read: "(case f of OctetCounting \<Rightarrow> read_octet_counting mint (\<lambda>_. True) addr s' c | NonTransparent \<Rightarrow> read_non_transparent mint (\<lambda>_. True) addr s' c)
      = (CEof, take_msgs mint addr (frame_buf f) ms c)" if s': "arrived True s' = stream_of f ms" "ending True s' = AtEof" for s'
  proof (cases f)
    case OctetCounting
    have fb: "frame_buf OctetCounting = octet_frame" by (simp add: fun_eq_iff frame_buf_def)
    have ms: "\<forall>m \<in> set ms. pri_ok m \<and> length m \<le> max_message_size" using assms(1) by (simp add: carries_def)
    have a: "arrived True s' = concat (map octet_frame ms) @ []" using s'(1) by (simp add: stream_of_def OctetCounting fb)
    obtain s2 where s2: "arrived True s2 = []" "ending True s2 = AtEof"
      "\<And>c. read_octet_counting mint (\<lambda>_. True) addr s' c = read_octet_counting mint (\<lambda>_. True) addr s2 (take_msgs mint addr octet_frame ms c)"
      using read_octet_counting_frames[OF ms _ a, of "\<lambda>_. True" mint addr] s'(2) by auto
    show ?thesis unfolding OctetCounting fb by (simp add: s2(3) read_octet_counting_end[OF s2(1)] s2(2))
  next
    case NonTransparent
    have fb: "frame_buf NonTransparent = line_frame" by (simp add: fun_eq_iff frame_buf_def)
    have ms: "\<forall>m \<in> set ms. pri_ok m \<and> line_safe m \<and> length m \<le> max_message_size" using assms(1) NonTransparent by (simp add: carries_def)
    have a: "arrived True s' = concat (map line_frame ms) @ []" using s'(1) by (simp add: stream_of_def NonTransparent fb)
    obtain s2 where s2: "arrived True s2 = []" "ending True s2 = AtEof"
      "\<And>c. read_non_transparent mint (\<lambda>_. True) addr s' c = read_non_transparent mint (\<lambda>_. True) addr s2 (take_msgs mint addr line_frame ms c)"
      using read_non_transparent_frames[OF ms _ a, of "\<lambda>_. True" mint addr] s'(2) by auto
    show ?thesis unfolding NonTransparent fb by (simp add: s2(3) read_non_transparent_end[OF s2(1)] s2(2))
  qed
  show ?thesis
  proof (cases "fr = FrAuto")
    case False
    then show ?thesis using read[OF assms(3,4)] assms(5)
      by (cases f) (auto simp: listens_to_def syslog_connection_def)
  next
    case True
    obtain x s' where x: "fill_buf True s = (Got x, s')" "hd x = hd (stream_of f ms)" "arrived True s' = stream_of f ms" "ending True s' = AtEof"
      using fill_buf_first[OF assms(3)] stream_hd[OF assms(1,2)] assms(4) by metis
    then show ?thesis using read[OF x(3,4)] stream_hd[OF assms(1,2)] True
      by (cases f) (auto simp: syslog_connection_def detect_framing_def is_digit_def)
  qed
qed

text \<open>The output writes any payload; the listener closes the connection at one without a valid priority, and passes on nothing.\<close>

lemma egress_not_checked:
  assumes "validate_pri m = Inl e" "m \<noteq> []" "length m \<le> max_message_size"
  shows "pi_write (io idx) = SwOk \<Longrightarrow> fst (sl_attempt so io m idx (Some w, old) o') = AttOk"
    and "arrived True s = octet_frame m @ rest \<Longrightarrow>
      \<exists>c'. read_octet_counting mint takes addr s c = (CFraming (InvalidPri e), c') \<and> sc_sent c' = sc_sent c"
proof -
  show "pi_write (io idx) = SwOk \<Longrightarrow> fst (sl_attempt so io m idx (Some w, old) o') = AttOk"
    by (simp add: sl_attempt_def sl_send_def)
  assume "arrived True s = octet_frame m @ rest"
  then obtain s1 where 1: "read_msg_len [] s = (Inr (length m), length (nat_digits (length m)) + 1, s1)" "arrived True s1 = m @ rest"
    using read_msg_len_frame assms(2,3) by blast
  obtain s2 where 2: "read_exact True (length m) s1 = (Inr m, length m, s2)" by (rule read_exact_ok[OF 1(2) refl])
  show "\<exists>c'. read_octet_counting mint takes addr s c = (CFraming (InvalidPri e), c') \<and> sc_sent c' = sc_sent c"
    by (subst read_octet_counting.simps) (simp add: 1 2 assms(1) sc_bytes_def sc_invalid_def)
qed

section \<open>Properties\<close>

text \<open>C4: A delivered event arrives, if the framing can carry its egress and that of every event written before it on the open connections:
  a valid priority header, at most the largest message of the listener, and no delimiter or final carriage return under non-transparent
  framing. The output checks none of this (\<open>egress_not_checked\<close>). When the syslog output resolves such an event as delivered, whichever
  peers failed before and however often it retried, the event's frame is the last one on an open connection on which every frame is whole,
  and a listener that reads that connection, in either framing or detecting it, in pieces of any size, ends without an error and passes
  on last an event with exactly the bytes of the egress. Writes that run into their timer are excluded, and have to be.\<close>

theorem syslog_delivered_is_received:
  assumes "\<forall>k i. in_time (pi_write (pa_peers (io k) i))" "carries (so_framing so) (oe_egress ev)" "sender_wires so sd" "qh_armed h"
    and "sl_consume so io stopping now t ev h sd = (ws, sd')" "is_delivered (last (os_acks (ss_out sd')))" "listens_to (so_framing so) fr"
  shows "\<exists>idx b old. idx < length (pl_state (ss_peers sd')) \<and> ps_conn (pl_state (ss_peers sd') ! idx) = (Some b, old) \<and>
    (\<forall>s. arrived True s = b \<longrightarrow> ending True s = AtEof \<longrightarrow>
      (\<exists>c'. syslog_connection fr mint (\<lambda>_. True) addr s c = (Some CEof, c') \<and> oe_ingress (last (sc_sent c')) = oe_egress ev))"
proof -
  have "sl_settled so (oe_egress ev) sd sd'" using sl_retry_settled[OF assms(4,1,2,3)] assms(5) by (simp add: sl_consume_def)
  then have "on_a_wire so (oe_egress ev) sd'" using assms(6) by (auto simp: sl_settled_def)
  then obtain idx ms old where w: "idx < length (pl_state (ss_peers sd'))" "\<forall>x \<in> set ms. carries (so_framing so) x"
    "ps_conn (pl_state (ss_peers sd') ! idx) = (Some (stream_of (so_framing so) (ms @ [oe_egress ev])), old)"
    by (auto simp: on_a_wire_def)
  have all: "\<forall>x \<in> set (ms @ [oe_egress ev]). carries (so_framing so) x" using w(2) assms(2) by simp
  let ?c' = "take_msgs mint addr (frame_buf (so_framing so)) (ms @ [oe_egress ev]) c"
  have sent: "map oe_ingress (sc_sent ?c') = (map oe_ingress (sc_sent c) @ ms) @ [oe_egress ev]" using take_msgs_facts(1) by simp
  then have "sc_sent ?c' \<noteq> []" by auto
  then have "oe_ingress (last (sc_sent ?c')) = last (map oe_ingress (sc_sent ?c'))" by (simp add: last_map)
  then have last: "oe_ingress (last (sc_sent ?c')) = oe_egress ev" using sent by simp
  have "syslog_connection fr mint (\<lambda>_. True) addr s c = (Some CEof, ?c')"
    if "arrived True s = stream_of (so_framing so) (ms @ [oe_egress ev])" "ending True s = AtEof" for s
    using stream_received[OF all _ that assms(7)] by simp
  then show ?thesis using w(1,3) last by blast
qed

definition ex_so :: syslog_output where
  "ex_so = \<lparr>so_name = ''siem'', so_framing = OctetCounting, so_addresses = [''10.0.0.9:514''], so_retry = retry_default,
     so_error_log = None, so_fallback = FbOff\<rparr>"

definition ex_line :: owned_event where "ex_line = event_new ex_key 1000 ''<13>hello'' ex_src"

definition ex_pass :: "nat \<Rightarrow> sl_write \<Rightarrow> pass_io" where
  "ex_pass now wr = \<lparr>pa_stop = (\<lambda>_. False), pa_now = now, pa_peers = (\<lambda>_. \<lparr>pi_connect = ScUp, pi_write = wr, pi_failed_at = now\<rparr>)\<rparr>"

definition ex_ss :: syslog_sender where
  "ex_ss = \<lparr>ss_peers = peer_list_new [(None, [])], ss_out = ex_out\<rparr>"

definition ex_sc :: syslog_conn where
  "ex_sc = \<lparr>sc_metrics = \<lparr>im_received = 0, im_invalid = 0, im_injected = 0, im_bytes = 0\<rparr>, sc_sent = []\<rparr>"

definition ex_mint :: "nat \<Rightarrow> uuid \<times> int" where "ex_mint k = (ex_key, 0)"

lemma ex_carries: "carries OctetCounting ''<13>hello''"
  by (simp add: carries_def pri_ok_def validate_pri_def position_def LtpWire.slice_def is_digit_def digits_val_def digit_val_def max_message_size_def)

lemma nine: "nat_digits (length ''<13>hello'') = ''9''"
  by code_simp

lemma ex_frame_buf: "frame_buf (so_framing ex_so) (oe_egress ex_line) = ''9 <13>hello''"
  by (simp add: ex_so_def ex_line_def event_new_def frame_buf_def octet_frame_def nine[simplified])

text \<open>One round of the retry loop.\<close>

lemma sl_retry_again:
  "write_payload_shutdown_aware so (io tries) (oe_egress ev) sd = (WErr e, sd1) \<Longrightarrow> tries + 1 < rc_max_attempts (so_retry so) \<Longrightarrow> \<not> stopping (tries + 1) \<Longrightarrow>
     sl_retry so io stopping now t ev h tries wait sd =
       (case sl_retry so io stopping now t ev h (tries + 1) (next_wait (so_retry so) wait) (on_ss (set_in_retry 1) (on_ss bump_retries sd1)) of
          (ws, sd') \<Rightarrow> (wait # ws, sd'))"
  by (subst sl_retry.simps) (simp add: Let_def)

lemma sl_retry_delivered:
  "write_payload_shutdown_aware so (io tries) (oe_egress ev) sd = (WDelivered, sd1) \<Longrightarrow>
     sl_retry so io stopping now t ev h tries wait sd = ([], on_ss (use_handle (UseDelivered t) h \<circ> bump_written \<circ> set_in_retry 0) sd1)"
  by (subst sl_retry.simps) simp

text \<open>One write over one peer.\<close>

definition one_peer :: "64 word \<Rightarrow> wires \<Rightarrow> nat option \<Rightarrow> peer_metrics \<Rightarrow> wires peer_list" where
  "one_peer k w cd m = \<lparr>pl_cursor = k, pl_state = [\<lparr>ps_conn = w, ps_cooldown = cd\<rparr>], pl_metrics = [m]\<rparr>"

lemma ex_write:
  assumes "case cd of Some till \<Rightarrow> till \<le> now | None \<Rightarrow> True"
  shows "\<exists>m'. write_payload_shutdown_aware ex_so (ex_pass now SwOk) (oe_egress ex_line) \<lparr>ss_peers = one_peer k (c, old) cd m, ss_out = o'\<rparr> =
      (WDelivered, \<lparr>ss_peers = one_peer (k + 1) (Some ((case c of None \<Rightarrow> [] | Some b \<Rightarrow> b) @ ''9 <13>hello''), old) None m', ss_out = add_bytes_written (length ''9 <13>hello'') o'\<rparr>)"
    "\<exists>m'. write_payload_shutdown_aware ex_so (ex_pass now (SwTimedOut n)) (oe_egress ex_line) \<lparr>ss_peers = one_peer k (c, old) cd m, ss_out = o'\<rparr> =
      (WErr (peer_send_error_text (AllPeersUnavailable 1)), \<lparr>ss_peers = one_peer (k + 1)
         (Some ((case c of None \<Rightarrow> [] | Some b \<Rightarrow> b) @ take n ''9 <13>hello''), old) (Some (now + peer_cooldown)) m', ss_out = o'\<rparr>)"
  using assms
  by (auto simp: write_payload_shutdown_aware_def write_with_rotation_shutdown_aware_def rotation_def rotation_order_def ex_pass_def one_peer_def
      sl_attempt_def sl_send_def cooled_def peer_succeeded_def peer_failed_def ex_frame_buf Let_def split: option.splits)

lemma ex_ss_one: "\<exists>m. ex_ss = \<lparr>ss_peers = one_peer 0 (None, []) None m, ss_out = ex_out\<rparr>"
  by (simp add: ex_ss_def peer_list_new_def one_peer_def)

lemma ex_ack: "use_handle (UseDelivered 5000) ex_handle o' = o'\<lparr>os_acks := os_acks o' @ [RDelivered (QDisk 0 0) (elapsed_since 5000 0)]\<rparr>"
  using handle_finish_one[of ex_handle "UseDelivered 5000"] by (auto simp: use_handle_def ex_handle_def handle_new_def)

lemma ex_delivers: "\<exists>sd'. sl_consume ex_so (\<lambda>_. ex_pass 0 SwOk) (\<lambda>_. False) 0 5000 ex_line ex_handle ex_ss = ([], sd') \<and>
    is_delivered (last (os_acks (ss_out sd')))"
proof -
  obtain m where m: "ex_ss = \<lparr>ss_peers = one_peer 0 (None, []) None m, ss_out = ex_out\<rparr>" using ex_ss_one by blast
  obtain m' where "write_payload_shutdown_aware ex_so (ex_pass 0 SwOk) (oe_egress ex_line) ex_ss =
      (WDelivered, \<lparr>ss_peers = one_peer (0 + 1) (Some ((case None of None \<Rightarrow> [] | Some b \<Rightarrow> b) @ ''9 <13>hello''), []) None m', ss_out = add_bytes_written (length ''9 <13>hello'') ex_out\<rparr>)"
    unfolding m using ex_write(1)[where cd = None and now = 0 and k = 0 and c = None and old = "[]" and m = m and o' = ex_out] by auto
  then show ?thesis unfolding sl_consume_def by (subst sl_retry.simps) (simp add: ex_ack is_delivered_def)
qed

theorem syslog_delivered_is_received_witness:
  "\<exists>sd' b s c'. sl_consume ex_so (\<lambda>_. ex_pass 0 SwOk) (\<lambda>_. False) 0 5000 ex_line ex_handle ex_ss = ([], sd') \<and> arrived True s = b \<and>
     syslog_connection FrAuto ex_mint (\<lambda>_. True) ex_src s ex_sc = (Some CEof, c') \<and> oe_ingress (last (sc_sent c')) = ''<13>hello''"
proof -
  obtain sd' where sd': "sl_consume ex_so (\<lambda>_. ex_pass 0 SwOk) (\<lambda>_. False) 0 5000 ex_line ex_handle ex_ss = ([], sd')"
    "is_delivered (last (os_acks (ss_out sd')))" using ex_delivers by blast
  have pre: "\<forall>k i. in_time (pi_write (pa_peers (ex_pass 0 SwOk) i))" "carries (so_framing ex_so) (oe_egress ex_line)" "sender_wires ex_so ex_ss"
    "qh_armed ex_handle" "listens_to (so_framing ex_so) FrAuto"
    using ex_carries
    by (simp_all add: ex_pass_def ex_so_def ex_line_def event_new_def sender_wires_def ex_ss_def peer_list_new_def wires_ok_def ex_handle_def
        handle_new_def listens_to_def)
  obtain b where b: "\<forall>s. arrived True s = b \<longrightarrow> ending True s = AtEof \<longrightarrow>
      (\<exists>c'. syslog_connection FrAuto ex_mint (\<lambda>_. True) ex_src s ex_sc = (Some CEof, c') \<and> oe_ingress (last (sc_sent c')) = oe_egress ex_line)"
    using syslog_delivered_is_received[where mint = ex_mint and addr = ex_src and c = ex_sc, OF pre(1-4) sd' pre(5)] by blast
  have "arrived True [Data b] = b" "ending True [Data b] = AtEof" by simp_all
  then obtain c' where "syslog_connection FrAuto ex_mint (\<lambda>_. True) ex_src [Data b] ex_sc = (Some CEof, c')" "oe_ingress (last (sc_sent c')) = oe_egress ex_line"
    using b by blast
  moreover have "oe_egress ex_line = ''<13>hello''" by (simp add: ex_line_def event_new_def)
  moreover have "arrived True [Data b] = b" by simp
  ultimately show ?thesis using sd'(1) by metis
qed

text \<open>One run with a write that runs into its timer: it leaves the connection open with five bytes of a frame on it. After the cooldown the
  retry writes the whole frame behind them and the event counts as delivered, but the listener takes the rest of the first frame from the
  second, finds no valid message, and drops the connection without passing on anything.\<close>

theorem syslog_timeout_corrupts:
  "\<exists>sd' b ws c'. sl_consume ex_so (\<lambda>k. if k = 0 then ex_pass 0 (SwTimedOut 5) else ex_pass (2 * peer_cooldown) SwOk) (\<lambda>_. False) 0 5000 ex_line ex_handle ex_ss = (ws, sd') \<and>
     is_delivered (last (os_acks (ss_out sd'))) \<and> ps_conn (pl_state (ss_peers sd') ! 0) = (Some b, []) \<and>
     syslog_connection FrAuto ex_mint (\<lambda>_. True) ex_src [Data b] ex_sc = (Some (CFraming (InvalidPri (ClosePosition 8))), c') \<and> sc_sent c' = []"
proof -
  let ?io = "\<lambda>k :: nat. if k = 0 then ex_pass 0 (SwTimedOut 5) else ex_pass (2 * peer_cooldown) SwOk"
  obtain m where m: "ex_ss = \<lparr>ss_peers = one_peer 0 (None, []) None m, ss_out = ex_out\<rparr>" using ex_ss_one by blast
  obtain m1 where 1: "write_payload_shutdown_aware ex_so (?io 0) (oe_egress ex_line) ex_ss = (WErr (peer_send_error_text (AllPeersUnavailable 1)),
      \<lparr>ss_peers = one_peer 1 (Some ''9 <13'', []) (Some (0 + peer_cooldown)) m1, ss_out = ex_out\<rparr>)"
    unfolding m using ex_write(2)[where cd = None and now = 0 and n = 5 and k = 0 and c = None and old = "[]" and m = m and o' = ex_out] by auto
  define o1 where "o1 = set_in_retry 1 (bump_retries ex_out)"
  obtain m2 where 2: "write_payload_shutdown_aware ex_so (?io (Suc 0)) (oe_egress ex_line)
      \<lparr>ss_peers = one_peer 1 (Some ''9 <13'', []) (Some (0 + peer_cooldown)) m1, ss_out = o1\<rparr> =
      (WDelivered, \<lparr>ss_peers = one_peer (1 + 1) (Some (''9 <13'' @ ''9 <13>hello''), []) None m2, ss_out = add_bytes_written (length ''9 <13>hello'') o1\<rparr>)"
    using ex_write(1)[where cd = "Some (0 + peer_cooldown)" and now = "2 * peer_cooldown" and k = 1 and c = "Some ''9 <13''" and old = "[]" and m = m1 and o' = o1] by auto
  define sd1 where "sd1 = \<lparr>ss_peers = one_peer 1 (Some ''9 <13'', []) (Some (0 + peer_cooldown)) m1, ss_out = ex_out\<rparr>"
  define sd2 where "sd2 = \<lparr>ss_peers = one_peer (1 + 1) (Some (''9 <13'' @ ''9 <13>hello''), []) None m2, ss_out = add_bytes_written (length ''9 <13>hello'') o1\<rparr>"
  have o1: "on_ss (set_in_retry 1) (on_ss bump_retries sd1) = sd1\<lparr>ss_out := o1\<rparr>" by (simp add: sd1_def on_ss_def o1_def)
  have 3: "write_payload_shutdown_aware ex_so (?io (0 + 1)) (oe_egress ex_line) (sd1\<lparr>ss_out := o1\<rparr>) = (WDelivered, sd2)"
    using 2 by (simp add: sd1_def sd2_def)
  have more: "0 + 1 < rc_max_attempts (so_retry ex_so)" by (simp add: ex_so_def retry_default_def)
  have "sl_retry ex_so ?io (\<lambda>_. False) 0 5000 ex_line ex_handle 0 w0 ex_ss =
      ([w0], on_ss (use_handle (UseDelivered 5000) ex_handle \<circ> bump_written \<circ> set_in_retry 0) sd2)" for w0
    unfolding sl_retry_again[where io = ?io and tries = 0 and stopping = "\<lambda>_. False", OF 1[folded sd1_def] more not_False_eq_True[THEN iffD2, OF TrueI]] o1
      sl_retry_delivered[where io = ?io and tries = "0 + 1", OF 3] by simp
  then have "\<exists>ws sd'. sl_consume ex_so ?io (\<lambda>_. False) 0 5000 ex_line ex_handle ex_ss = (ws, sd') \<and>
     is_delivered (last (os_acks (ss_out sd'))) \<and> ps_conn (pl_state (ss_peers sd') ! 0) = (Some ''9 <139 <13>hello'', [])"
    by (simp add: sl_consume_def sd2_def on_ss_def ex_ack is_delivered_def one_peer_def)
  moreover have "\<exists>c'. syslog_connection FrAuto ex_mint (\<lambda>_. True) ex_src [Data ''9 <139 <13>hello''] ex_sc = (Some (CFraming (InvalidPri (ClosePosition 8))), c') \<and> sc_sent c' = []"
  proof -
    let ?s = "[Data ''9 <139 <13>hello'']"
    obtain s1 where s1: "read_msg_len [] ?s = (Inr 9, 2, s1)" "arrived True s1 = ''<139 <13>hello''"
      using read_msg_len_digits[of ?s "''9''" "''<139 <13>hello''" "[]"]
      by (auto simp: is_digit_def digits_val_def digit_val_def max_msg_len_digits_def max_message_size_def)
    obtain s2 where s2: "read_exact True 9 s1 = (Inr ''<139 <13>'', 9, s2)" using read_exact_ok[of True s1 "''<139 <13>''" "''hello''" 9] s1(2) by auto
    have bad: "validate_pri ''<139 <13>'' = Inl (ClosePosition 8)" by (simp add: validate_pri_def position_def)
    have "detect_framing ?s = (Some FrOctetCounting, ?s)" by (simp add: detect_framing_def is_digit_def)
    then show ?thesis
      by (simp add: syslog_connection_def) (subst read_octet_counting.simps, simp add: s1(1) s2 bad sc_invalid_def sc_bytes_def ex_sc_def)
  qed
  ultimately show ?thesis by blast
qed

text \<open>C26: Whatever the network does, the LTP output and the syslog output resolve the handle of each event exactly once and count the event
  exactly once, as written or as failed, in steady state and during the shutdown.\<close>

theorem stream_outputs_settle_once:
  assumes "qh_armed h"
  shows "settles [h] (sd_out sd) (sd_out (snd (ltp_consume lo io stopping now t ev h sd))) \<and>
    settles [h] (sd_out sd) (sd_out (ltp_consume_shutdown lo io1 now t ev h sd)) \<and>
    settles [h] (ss_out ss) (ss_out (snd (sl_consume so sio stopping now t ev h ss))) \<and>
    settles [h] (ss_out ss) (ss_out (sl_consume_shutdown so sio1 now t ev h ss))"
  using ltp_consume_settles[OF assms prod.collapse[symmetric]] ltp_consume_shutdown_settles[OF assms]
    sl_retry_settles[OF assms prod.collapse[symmetric]] sl_consume_shutdown_settles[OF assms]
  by (simp add: sl_consume_def)

theorem stream_outputs_settle_once_witness:
  "settles [ex_handle] (sd_out ex_sender) (sd_out (snd (ltp_consume ex_ltp (\<lambda>_. ex_attempt) (\<lambda>_. False) 0 5000 ex_msg ex_handle ex_sender)))"
  using stream_outputs_settle_once[of ex_handle ex_sender] by (simp add: ex_handle_def handle_new_def)

end
