(* ===== verification/Str.thy ===== *)
theory Str
  imports Text
begin

section \<open>More of Rust's strings\<close>

text \<open>
  \<open>trim\<close>, \<open>lines\<close>, \<open>split_once\<close> and the parsing of integers, on UTF-8 bytes. A pattern that is a whole
  encoding matches at the front of valid UTF-8 exactly where the character starts, and likewise from the
  back.
\<close>

subsection \<open>White space\<close>

text \<open>The encodings of the characters with the Unicode property \<open>White_Space\<close>.\<close>

definition ws_encodings :: "string list" where
  "ws_encodings = map (map char_of)
     ([[9], [10], [11], [12], [13], [32], [194, 133], [194, 160], [225, 154, 128]]
      @ map (\<lambda>b. [226, 128, b]) [128 ..< 139]
      @ [[226, 128, 168], [226, 128, 169], [226, 128, 175], [226, 129, 159], [227, 128, 128 :: nat]])"

definition matching :: "string list \<Rightarrow> string \<Rightarrow> string option" where
  "matching pats s = find (\<lambda>w. w \<noteq> [] \<and> take (length w) s = w) pats"

lemma matching_shorter: "matching pats s = Some w \<Longrightarrow> length (drop (length w) s) < length s"
  by (auto simp: matching_def find_Some_iff) (metis length_0_conv length_drop length_take diff_less min_0R not_gr_zero
    take_eq_Nil length_greater_0_conv)

function strip_all :: "string list \<Rightarrow> string \<Rightarrow> string" where
  "strip_all pats s = (case matching pats s of None \<Rightarrow> s | Some w \<Rightarrow> strip_all pats (drop (length w) s))"
  by pat_completeness auto
termination
  by (relation "measure (\<lambda>(_, s). length s)") (auto dest: matching_shorter)

declare strip_all.simps [simp del]

definition trim_start :: "string \<Rightarrow> string" where
  "trim_start s = strip_all ws_encodings s"

definition trim_end :: "string \<Rightarrow> string" where
  "trim_end s = rev (strip_all (map rev ws_encodings) (rev s))"

definition str_trim :: "string \<Rightarrow> string" where
  "str_trim s = trim_end (trim_start s)"

lemma strip_all_unmatched: "matching pats (strip_all pats s) = None"
  by (induction pats s rule: strip_all.induct) (subst strip_all.simps, auto split: option.splits)

lemma strip_all_same: "matching pats s = None \<Longrightarrow> strip_all pats s = s"
  by (subst strip_all.simps) simp

subsection \<open>Cutting\<close>

text \<open>\<open>split_once\<close> at a character, and \<open>lines\<close>: the pieces between newlines without a carriage return at their
  end; a last piece that is empty is no line.\<close>

fun split_once :: "char \<Rightarrow> string \<Rightarrow> (string \<times> string) option" where
  "split_once sep [] = None"
| "split_once sep (c # cs) =
     (if c = sep then Some ([], cs) else map_option (\<lambda>(a, b). (c # a, b)) (split_once sep cs))"

lemma split_once_Some: "split_once sep s = Some (a, b) \<longleftrightarrow> s = a @ sep # b \<and> sep \<notin> set a"
proof (induction s arbitrary: a)
  case (Cons c cs)
  show ?case
  proof (cases "c = sep")
    case False
    then show ?thesis using Cons.IH by (cases a) auto
  qed (cases a; auto)
qed simp

lemma split_once_None: "split_once sep s = None \<longleftrightarrow> sep \<notin> set s"
  by (induction s) auto

definition chomp_cr :: "string \<Rightarrow> string" where
  "chomp_cr s = (if s \<noteq> [] \<and> last s = CHR 0x0D then butlast s else s)"

definition str_lines :: "string \<Rightarrow> string list" where
  "str_lines s = (let ps = split_on (CHR 0x0A) s
     in map chomp_cr (butlast ps) @ (if last ps = [] then [] else [last ps]))"

lemma split_on_ne [simp]: "split_on sep s \<noteq> []"
  by (induction s) (auto split: list.split)

lemma split_on_plain: "sep \<notin> set s \<Longrightarrow> split_on sep s = [s]"
  by (induction s) auto

lemma split_on_append: "sep \<notin> set s \<Longrightarrow> split_on sep (s @ sep # t) = s # split_on sep t"
  by (induction s) auto

end
