(* ===== verification/Tables.thy ===== *)
theory Tables
  imports Str EventJson Eval
begin

section \<open>Key-value tables\<close>

text \<open>
  The tables of \<open>functions/table.rs\<close> and the functions \<open>table_lookup\<close>, \<open>table_upsert\<close> and \<open>table_delete\<close> of
  \<open>functions/primitives/table.rs\<close>. A hash map is an association list without repeated keys; the order in
  which a loaded map is iterated is the order of the list it is given as. An \<open>Instant\<close> is its nanoseconds;
  adding a duration past the largest one panics.
\<close>

subsection \<open>One table\<close>

type_synonym instant = nat

definition instant_limit :: nat where "instant_limit = 2 ^ 63 * 1000000000"

definition instant_add :: "instant \<Rightarrow> nat \<Rightarrow> instant res" where
  "instant_add now d = (if now + d < instant_limit then Ok (now + d) else Crash)"

record table_entry =
  te_value :: owned
  te_expires :: "instant option"

record table =
  tb_entries :: "(rstr \<times> table_entry) list"
  tb_order :: "rstr list"
  tb_max :: "nat option"
  tb_ttl :: "nat option"

datatype lookup_result = Found owned | NotFound | Expired

definition table_new :: "nat option \<Rightarrow> nat option \<Rightarrow> table" where
  "table_new mx ttl = \<lparr>tb_entries = [], tb_order = [], tb_max = mx, tb_ttl = ttl\<rparr>"

definition entry_live :: "instant \<Rightarrow> table_entry \<Rightarrow> bool" where
  "entry_live now en = (case te_expires en of Some e \<Rightarrow> now < e | None \<Rightarrow> True)"

definition lookup_read :: "instant \<Rightarrow> rstr \<Rightarrow> table \<Rightarrow> lookup_result" where
  "lookup_read now key t = (case map_of (tb_entries t) key of
     Some en \<Rightarrow> if entry_live now en then Found (te_value en) else Expired
   | None \<Rightarrow> NotFound)"

definition evict_expired :: "rstr \<Rightarrow> table \<Rightarrow> table" where
  "evict_expired key t = t\<lparr>tb_entries := al_remove key (tb_entries t)\<rparr>"

text \<open>\<open>evict_oldest\<close>: keys that have no entry any more are skipped.\<close>

fun evict_from :: "rstr list \<Rightarrow> (rstr \<times> table_entry) list \<Rightarrow> rstr list \<times> (rstr \<times> table_entry) list" where
  "evict_from [] es = ([], es)"
| "evict_from (k # ks) es = (if map_of es k = None then evict_from ks es else (ks, al_remove k es))"

definition evict_oldest :: "table \<Rightarrow> table" where
  "evict_oldest t = (case evict_from (tb_order t) (tb_entries t) of
     (ks, es) \<Rightarrow> t\<lparr>tb_order := ks, tb_entries := es\<rparr>)"

lemma evict_from_shorter: "ks \<noteq> [] \<Longrightarrow> length (fst (evict_from ks es)) < length ks"
proof (induction ks es rule: evict_from.induct)
  case (2 k ks es)
  then show ?case by (cases ks) (auto simp: less_Suc_eq)
qed simp

function make_room :: "nat \<Rightarrow> table \<Rightarrow> table" where
  "make_room mx t = (if mx \<le> length (tb_entries t) \<and> tb_order t \<noteq> [] then make_room mx (evict_oldest t) else t)"
  by pat_completeness auto
termination
  by (relation "measure (\<lambda>(_, t). length (tb_order t))")
    (use evict_from_shorter in \<open>auto simp: evict_oldest_def split: prod.split\<close>, metis fst_conv)

declare make_room.simps [simp del]

definition insert_entry :: "rstr \<Rightarrow> table_entry \<Rightarrow> table \<Rightarrow> table" where
  "insert_entry key en t =
     (let is_new = map_of (tb_entries t) key = None;
          t1 = (case tb_max t of Some mx \<Rightarrow> if is_new then make_room mx t else t | None \<Rightarrow> t);
          t2 = t1\<lparr>tb_entries := al_set key en (tb_entries t1)\<rparr>
      in if is_new then t2\<lparr>tb_order := tb_order t2 @ [key]\<rparr> else t2)"

definition tbl_upsert :: "instant \<Rightarrow> rstr \<Rightarrow> owned \<Rightarrow> nat option \<Rightarrow> table \<Rightarrow> table res" where
  "tbl_upsert now key v expire t =
     bindR (case expire of None \<Rightarrow> Ok None | Some d \<Rightarrow> bindR (instant_add now d) (\<lambda>e. Ok (Some e))) (\<lambda>expires_at.
       Ok (insert_entry key \<lparr>te_value = v, te_expires = expires_at\<rparr> t))"

definition tbl_delete :: "rstr \<Rightarrow> table \<Rightarrow> table" where
  "tbl_delete key t = t\<lparr>tb_entries := al_remove key (tb_entries t)\<rparr>"

subsection \<open>The store\<close>

text \<open>
  A table that is loaded gets the entries of its file, without expiry. \<open>file\<close> is what \<open>load_file\<close> returns for a
  path. A table configured twice is the second one.
\<close>

record table_config =
  tc_name :: rstr
  tc_max :: "nat option"
  tc_ttl :: "nat option"
  tc_load :: "rstr option"

type_synonym table_store = "(rstr \<times> table) list"

definition table_load :: "(rstr \<times> owned) list \<Rightarrow> table \<Rightarrow> table" where
  "table_load data t = foldl (\<lambda>t (k, v). t\<lparr>tb_entries := al_set k \<lparr>te_value = v, te_expires = None\<rparr> (tb_entries t),
     tb_order := tb_order t @ [k]\<rparr>) t data"

fun from_configs :: "(rstr \<Rightarrow> (rstr \<times> owned) list res) \<Rightarrow> table_config list \<Rightarrow> table_store \<Rightarrow> table_store res" where
  "from_configs file [] st = Ok st"
| "from_configs file (c # cs) st =
     bindR (case tc_load c of None \<Rightarrow> Ok (table_new (tc_max c) (tc_ttl c))
            | Some path \<Rightarrow> bindR (file path) (\<lambda>data. Ok (table_load data (table_new (tc_max c) (tc_ttl c)))))
       (\<lambda>t. from_configs file cs (al_set (tc_name c) t st))"

text \<open>
  \<open>lookup\<close> reads under the shared lock and, when the entry has expired, again under the exclusive lock: \<open>others\<close>
  is what other workers did in between, \<open>later\<close> the second reading of the clock.
\<close>

definition evict_if_expired :: "instant \<Rightarrow> rstr \<Rightarrow> table \<Rightarrow> owned \<times> table" where
  "evict_if_expired now key t = (case lookup_read now key t of
     Found v \<Rightarrow> (v, t) | NotFound \<Rightarrow> (ONull, t) | Expired \<Rightarrow> (ONull, evict_expired key t))"

definition tbl_lookup :: "instant \<Rightarrow> instant \<Rightarrow> (table \<Rightarrow> table) \<Rightarrow> rstr \<Rightarrow> table \<Rightarrow> owned \<times> table" where
  "tbl_lookup now later others key t = (case lookup_read now key t of
     Found v \<Rightarrow> (v, t) | NotFound \<Rightarrow> (ONull, t) | Expired \<Rightarrow> evict_if_expired later key (others t))"

definition store_lookup :: "instant \<Rightarrow> instant \<Rightarrow> (table \<Rightarrow> table) \<Rightarrow> rstr \<Rightarrow> rstr \<Rightarrow> table_store \<Rightarrow> owned \<times> table_store" where
  "store_lookup now later others name key st = (case map_of st name of
     None \<Rightarrow> (ONull, st)
   | Some t \<Rightarrow> (case tbl_lookup now later others key t of (v, t') \<Rightarrow> (v, al_set name t' st)))"

definition store_upsert :: "instant \<Rightarrow> rstr \<Rightarrow> rstr \<Rightarrow> owned \<Rightarrow> nat option \<Rightarrow> table_store \<Rightarrow> table_store res" where
  "store_upsert now name key v expire st = (case map_of st name of
     None \<Rightarrow> Ok st
   | Some t \<Rightarrow> bindR (tbl_upsert now key v expire t) (\<lambda>t'. Ok (al_set name t' st)))"

definition upsert_with_default :: "instant \<Rightarrow> rstr \<Rightarrow> rstr \<Rightarrow> owned \<Rightarrow> table_store \<Rightarrow> table_store res" where
  "upsert_with_default now name key v st = (case map_of st name of
     None \<Rightarrow> Ok st
   | Some t \<Rightarrow> bindR (tbl_upsert now key v (tb_ttl t) t) (\<lambda>t'. Ok (al_set name t' st)))"

definition store_delete :: "rstr \<Rightarrow> rstr \<Rightarrow> table_store \<Rightarrow> table_store" where
  "store_delete name key st = (case map_of st name of
     None \<Rightarrow> st | Some t \<Rightarrow> al_set name (tbl_delete key t) st)"

subsection \<open>Loading a file\<close>

definition load_json :: "json_codec \<Rightarrow> rstr \<Rightarrow> bytes \<Rightarrow> (rstr \<times> owned) list res" where
  "load_json cx path content = (case jx_of_text cx content of
     None \<Rightarrow> Err (''failed to parse JSON from '' @ path)
   | Some j \<Rightarrow> (case json_to_value cx j of
       Ok (OObject m) \<Rightarrow> Ok m
     | Ok _ \<Rightarrow> Err (''table file must be a JSON object: '' @ path)
     | Err e \<Rightarrow> Err (''invalid JSON shape in '' @ path)
     | Crash \<Rightarrow> Crash))"

definition csv_cols :: "string \<Rightarrow> string list" where
  "csv_cols line = map str_trim (split_on (CHR '','') line)"

definition csv_row :: "string list \<Rightarrow> string list \<Rightarrow> owned" where
  "csv_row headers cols =
     (if length headers = 2 \<and> 2 \<le> length cols then OString (cols ! 1)
      else OObject (foldl (\<lambda>m (i, h). al_set h (OString (if i < length cols then cols ! i else [])) m) []
             (drop 1 (enumerate 0 headers))))"

definition load_csv :: "rstr \<Rightarrow> (rstr \<times> owned) list res" where
  "load_csv content = (case str_lines content of
     [] \<Rightarrow> Ok []
   | h # ls \<Rightarrow> Ok (foldl (\<lambda>m line. al_set (hd (csv_cols line)) (csv_row (csv_cols h) (csv_cols line)) m) [] ls))"

text \<open>\<open>load_file\<close>: the extension after the last dot of the file name decides, and the default is JSON.\<close>

definition load_file :: "json_codec \<Rightarrow> (rstr \<Rightarrow> bytes res) \<Rightarrow> (rstr \<Rightarrow> string) \<Rightarrow> rstr \<Rightarrow> (rstr \<times> owned) list res" where
  "load_file cx read_to_string extension path =
     bindR (read_to_string path) (\<lambda>content.
       if extension path = ''csv'' then load_csv content else load_json cx path content)"

subsection \<open>The functions of the language\<close>

record table_world =
  tw_store :: table_store
  tw_now :: instant
  tw_later :: instant
  tw_others :: "table \<Rightarrow> table"

definition val_to_str :: "(int \<Rightarrow> string) \<Rightarrow> val \<Rightarrow> rstr res" where
  "val_to_str rfc v = (if is_bytes v then Err ''expected text value, got bytes'' else Ok (value_to_string rfc v))"

text \<open>\<open>f as u64\<close> for a finite number that is not negative: truncate and saturate.\<close>

fun f64_to_u64 :: "f64 \<Rightarrow> nat" where
  "f64_to_u64 (FFin s m e) = (if s then 0 else min (2 ^ 64 - 1) (mul_pow2 m e div mul_pow2 1 (- e)))"
| "f64_to_u64 (FInf s) = (if s then 0 else 2 ^ 64 - 1)"
| "f64_to_u64 FNaN = 0"

fun expire_secs :: "val \<Rightarrow> nat option" where
  "expire_secs (VInt n) = (if 0 \<le> n then Some (nat n) else None)"
| "expire_secs (VFloat f) = (if f64_is_finite f \<and> f64_ge f f64_zero then Some (f64_to_u64 f) else None)"
| "expire_secs _ = None"

definition from_secs :: "nat \<Rightarrow> nat" where "from_secs s = s * 1000000000"

definition fn_table_lookup :: "(int \<Rightarrow> string) \<Rightarrow> table_world builtin" where
  "fn_table_lookup rfc args ev =
     bindM (liftR (val_to_str rfc (args ! 0))) (\<lambda>name. bindM (liftR (val_to_str rfc (args ! 1))) (\<lambda>key.
       \<lambda>w. (case store_lookup (tw_now w) (tw_later w) (tw_others w) name key (tw_store w) of
              (v, st) \<Rightarrow> (Ok (view_in v), w\<lparr>tw_store := st\<rparr>))))"

definition write_store :: "(table_world \<Rightarrow> table_store res) \<Rightarrow> (table_world, val) M" where
  "write_store f w = (case f w of Ok st \<Rightarrow> (Ok VNull, w\<lparr>tw_store := st\<rparr>) | Err e \<Rightarrow> (Err e, w) | Crash \<Rightarrow> (Crash, w))"

definition fn_table_upsert :: "(int \<Rightarrow> string) \<Rightarrow> table_world builtin" where
  "fn_table_upsert rfc args ev =
     bindM (liftR (val_to_str rfc (args ! 0))) (\<lambda>name. bindM (liftR (val_to_str rfc (args ! 1))) (\<lambda>key.
       (let v = to_owned_value (args ! 2) in
        if length args = 3 then write_store (\<lambda>w. upsert_with_default (tw_now w) name key v (tw_store w))
        else (case expire_secs (args ! 3) of
            Some s \<Rightarrow> write_store (\<lambda>w. store_upsert (tw_now w) name key v (if s = 0 then None else Some (from_secs s)) (tw_store w))
          | None \<Rightarrow> write_store (\<lambda>w. upsert_with_default (tw_now w) name key v (tw_store w))))))"

definition fn_table_delete :: "(int \<Rightarrow> string) \<Rightarrow> table_world builtin" where
  "fn_table_delete rfc args ev =
     bindM (liftR (val_to_str rfc (args ! 0))) (\<lambda>name. bindM (liftR (val_to_str rfc (args ! 1))) (\<lambda>key.
       write_store (\<lambda>w. Ok (store_delete name key (tw_store w)))))"

end
