(* ===== verification/Tables_Facts.thy ===== *)
theory Tables_Facts
  imports Tables
begin

section \<open>Tables as maps\<close>

text \<open>
  What a program may rely on: a lookup never returns anything but the last value written under the key that has
  not expired, and it does return it as long as the number of keys stays within the limit of the table.
\<close>

subsection \<open>Keyed stores\<close>

text \<open>A store that may forget entries when it has no room, but never changes or invents one.\<close>

locale keyed_store =
  fixes get :: "'s \<Rightarrow> 'k \<Rightarrow> 'v option" and put :: "'k \<Rightarrow> 'v \<Rightarrow> 's \<Rightarrow> 's" and del :: "'k \<Rightarrow> 's \<Rightarrow> 's"
    and ok :: "'s \<Rightarrow> bool" and room :: "'k \<Rightarrow> 's \<Rightarrow> bool"
  assumes put_get: "ok s \<Longrightarrow> get (put k v s) k = Some v"
    and put_other: "ok s \<Longrightarrow> j \<noteq> k \<Longrightarrow> get (put k v s) j = Some w \<Longrightarrow> get s j = Some w"
    and put_keeps: "ok s \<Longrightarrow> room k s \<Longrightarrow> j \<noteq> k \<Longrightarrow> get (put k v s) j = get s j"
    and del_get: "ok s \<Longrightarrow> get (del k s) = (get s)(k := None)"
    and ok_put: "ok s \<Longrightarrow> ok (put k v s)"
    and ok_del: "ok s \<Longrightarrow> ok (del k s)"
begin

lemma put_below: "ok s \<Longrightarrow> get s \<subseteq>\<^sub>m m \<Longrightarrow> get (put k v s) \<subseteq>\<^sub>m m(k \<mapsto> v)"
  using put_get put_other by (fastforce simp: map_le_def dom_def)

lemma put_exact: "ok s \<Longrightarrow> room k s \<Longrightarrow> get (put k v s) = (get s)(k \<mapsto> v)"
  using put_get put_keeps by (fastforce simp: fun_eq_iff)

lemma del_below: "ok s \<Longrightarrow> get s \<subseteq>\<^sub>m m \<Longrightarrow> get (del k s) \<subseteq>\<^sub>m m(k := None)"
  by (simp add: del_get map_le_def)

lemma del_shrinks: "ok s \<Longrightarrow> get (del k s) \<subseteq>\<^sub>m get s"
  by (simp add: del_get map_le_def)

end

interpretation alist: keyed_store map_of al_set al_remove "\<lambda>xs. distinct (map fst xs)" "\<lambda>_ _. True"
  by unfold_locales (auto simp: alist_simps)

subsection \<open>Making room\<close>

lemma length_al_remove: "length (al_remove k xs) = (if k \<in> fst ` set xs then length xs - 1 else length xs)"
  by (induction k xs rule: al_remove.induct) (auto, (metis Suc_pred length_pos_if_in_set)+)

lemma length_al_set: "length (al_set k v xs) = (if k \<in> fst ` set xs then length xs else Suc (length xs))"
  by (induction k v xs rule: al_set.induct) auto

definition table_ok :: "table \<Rightarrow> bool" where
  "table_ok t \<longleftrightarrow> distinct (map fst (tb_entries t)) \<and> fst ` set (tb_entries t) \<subseteq> set (tb_order t)"

definition has_room :: "rstr \<Rightarrow> table \<Rightarrow> bool" where
  "has_room k t \<longleftrightarrow> k \<in> fst ` set (tb_entries t) \<or> (case tb_max t of None \<Rightarrow> True | Some mx \<Rightarrow> length (tb_entries t) < mx)"

lemma keys_al_remove: "distinct (map fst xs) \<Longrightarrow> fst ` set (al_remove k xs) = fst ` set xs - {k}"
  unfolding dom_map_of_conv_image_fst[symmetric] by (simp add: map_of_al_remove)

lemma evict_from_facts:
  assumes "evict_from ks es = (ks', es')" "distinct (map fst es)" "fst ` set es \<subseteq> set ks"
  shows "distinct (map fst es') \<and> fst ` set es' \<subseteq> set ks' \<and> map_of es' \<subseteq>\<^sub>m map_of es \<and> length es' = length es - 1"
  using assms
proof (induction ks es rule: evict_from.induct)
  case (2 k ks es)
  show ?case
  proof (cases "map_of es k = None")
    case True
    then have "fst ` set es \<subseteq> set ks" using "2.prems"(3) by (auto simp: map_of_eq_None_iff)
    with True show ?thesis using 2 by simp
  next
    case False
    then have k: "k \<in> fst ` set es" by (simp add: map_of_eq_None_iff)
    have e: "ks' = ks" "es' = al_remove k es" using "2.prems"(1) False by simp_all
    have "fst ` set es' \<subseteq> set ks" using "2.prems"(3) unfolding e keys_al_remove[OF "2.prems"(2)] by auto
    moreover have "map_of es' \<subseteq>\<^sub>m map_of es"
      unfolding e map_of_al_remove[OF "2.prems"(2)] by (simp add: map_le_def)
    ultimately show ?thesis using "2.prems"(2) k e by (simp add: length_al_remove)
  qed
qed auto

lemma evict_oldest_facts:
  assumes "table_ok t"
  shows "table_ok (evict_oldest t) \<and> map_of (tb_entries (evict_oldest t)) \<subseteq>\<^sub>m map_of (tb_entries t) \<and>
    tb_max (evict_oldest t) = tb_max t \<and> tb_ttl (evict_oldest t) = tb_ttl t \<and> length (tb_entries (evict_oldest t)) = length (tb_entries t) - 1"
proof -
  obtain ks' es' where e: "evict_from (tb_order t) (tb_entries t) = (ks', es')" by (cases "evict_from (tb_order t) (tb_entries t)") auto
  from evict_from_facts[OF this] assms show ?thesis by (simp add: evict_oldest_def e table_ok_def)
qed

lemma make_room_facts:
  assumes "table_ok t"
  shows "table_ok (make_room mx t) \<and> map_of (tb_entries (make_room mx t)) \<subseteq>\<^sub>m map_of (tb_entries t) \<and>
    tb_max (make_room mx t) = tb_max t \<and> tb_ttl (make_room mx t) = tb_ttl t \<and> length (tb_entries (make_room mx t)) < max mx 1"
  using assms
proof (induction mx t rule: make_room.induct)
  case (1 mx t)
  show ?case
  proof (cases "mx \<le> length (tb_entries t) \<and> tb_order t \<noteq> []")
    case True
    then show ?thesis using 1 evict_oldest_facts[OF "1.prems"]
      by (subst (1 2 3 4 5) make_room.simps) (auto intro: map_le_trans)
  next
    case False
    then have "length (tb_entries t) < max mx 1" using "1.prems" by (auto simp: table_ok_def)
    then show ?thesis using "1.prems" False by (subst (1 2 3 4 5) make_room.simps) auto
  qed
qed

lemma make_room_evict: "mx \<le> length (tb_entries t) \<Longrightarrow> tb_order t \<noteq> [] \<Longrightarrow> make_room mx t = make_room mx (evict_oldest t)"
  by (subst make_room.simps) simp

lemma make_room_same: "length (tb_entries t) < mx \<Longrightarrow> make_room mx t = t"
  by (subst make_room.simps) simp

subsection \<open>Tables are keyed stores\<close>

lemma insert_entry_facts:
  assumes "table_ok t"
  shows "table_ok (insert_entry k en t)" "map_of (tb_entries (insert_entry k en t)) k = Some en"
    "map_of (tb_entries (insert_entry k en t)) \<subseteq>\<^sub>m (map_of (tb_entries t))(k \<mapsto> en)"
    "tb_max (insert_entry k en t) = tb_max t" "tb_ttl (insert_entry k en t) = tb_ttl t"
    "k \<notin> fst ` set (tb_entries t) \<Longrightarrow> tb_max t = Some mx \<Longrightarrow> length (tb_entries (insert_entry k en t)) \<le> max mx 1"
    "k \<in> fst ` set (tb_entries t) \<Longrightarrow> length (tb_entries (insert_entry k en t)) = length (tb_entries t)"
proof -
  define t1 where "t1 = (case tb_max t of Some mx \<Rightarrow> if map_of (tb_entries t) k = None then make_room mx t else t | None \<Rightarrow> t)"
  have t1: "table_ok t1 \<and> map_of (tb_entries t1) \<subseteq>\<^sub>m map_of (tb_entries t) \<and> tb_max t1 = tb_max t \<and> tb_ttl t1 = tb_ttl t"
    using make_room_facts[OF assms] assms by (auto simp: t1_def split: option.split)
  have e: "tb_entries (insert_entry k en t) = al_set k en (tb_entries t1)"
    "tb_order (insert_entry k en t) = (if map_of (tb_entries t) k = None then tb_order t1 @ [k] else tb_order t1)"
    "tb_max (insert_entry k en t) = tb_max t" "tb_ttl (insert_entry k en t) = tb_ttl t"
    using t1 by (auto simp: insert_entry_def t1_def[symmetric] Let_def)
  show "tb_max (insert_entry k en t) = tb_max t" "tb_ttl (insert_entry k en t) = tb_ttl t"
    "map_of (tb_entries (insert_entry k en t)) k = Some en" using e by simp_all
  show "map_of (tb_entries (insert_entry k en t)) \<subseteq>\<^sub>m (map_of (tb_entries t))(k \<mapsto> en)"
    using t1 by (auto simp: e map_le_def)
  have old: "map_of (tb_entries t) k \<noteq> None \<Longrightarrow> t1 = t" by (auto simp: t1_def split: option.split)
  have "fst ` set (al_set k en (tb_entries t1)) = insert k (fst ` set (tb_entries t1))"
    using keys_al_set[of k en "tb_entries t1"] by simp
  moreover have "map_of (tb_entries t) k \<noteq> None \<Longrightarrow> k \<in> set (tb_order t1)"
    using old assms by (auto simp: table_ok_def map_of_eq_None_iff)
  ultimately show "table_ok (insert_entry k en t)" using t1 by (auto simp: table_ok_def e)
  show "length (tb_entries (insert_entry k en t)) \<le> max mx 1"
    if "k \<notin> fst ` set (tb_entries t)" "tb_max t = Some mx"
    using that make_room_facts[OF assms, of mx] by (auto simp: e length_al_set t1_def map_of_eq_None_iff)
  show "length (tb_entries (insert_entry k en t)) = length (tb_entries t)" if "k \<in> fst ` set (tb_entries t)"
    using that old by (auto simp: e length_al_set map_of_eq_None_iff)
qed

lemma insert_entry_room: "has_room k t \<Longrightarrow> tb_entries (insert_entry k en t) = al_set k en (tb_entries t)"
  by (auto simp: insert_entry_def has_room_def Let_def make_room_same map_of_eq_None_iff split: option.split option.splits)

lemma table_ok_delete: "table_ok t \<Longrightarrow> table_ok (tbl_delete k t)"
  using keys_al_remove[of "tb_entries t" k] by (auto simp: table_ok_def tbl_delete_def)

interpretation tbl: keyed_store "\<lambda>t. map_of (tb_entries t)" insert_entry tbl_delete table_ok has_room
proof unfold_locales
  fix t k en j w assume ok: "table_ok t"
  show "map_of (tb_entries (insert_entry k en t)) k = Some en" by (rule insert_entry_facts(2)[OF ok])
  show "map_of (tb_entries t) j = Some w" if "j \<noteq> k" "map_of (tb_entries (insert_entry k en t)) j = Some w"
    using insert_entry_facts(3)[OF ok, of k en] that by (force simp: map_le_def dom_def)
  show "map_of (tb_entries (insert_entry k en t)) j = map_of (tb_entries t) j" if "has_room k t" "j \<noteq> k"
    using that by (simp add: insert_entry_room)
  show "map_of (tb_entries (tbl_delete k t)) = (map_of (tb_entries t))(k := None)"
    using ok by (simp add: tbl_delete_def table_ok_def alist_simps)
  show "table_ok (insert_entry k en t)" by (rule insert_entry_facts(1)[OF ok])
  show "table_ok (tbl_delete k t)" by (rule table_ok_delete[OF ok])
qed

subsection \<open>A table over time\<close>

text \<open>
  What workers do to a table, each step under its lock at its time: \<open>Purge\<close> is the second half of a lookup that
  met an expired entry.
\<close>

datatype table_op = Put rstr owned "nat option" | Del rstr | Purge rstr

fun apply_op :: "instant \<Rightarrow> table_op \<Rightarrow> table \<Rightarrow> table res" where
  "apply_op now (Put k v d) t = tbl_upsert now k v d t"
| "apply_op now (Del k) t = Ok (tbl_delete k t)"
| "apply_op now (Purge k) t = Ok (snd (evict_if_expired now k t))"

fun run_ops :: "(instant \<times> table_op) list \<Rightarrow> table \<Rightarrow> table res" where
  "run_ops [] t = Ok t"
| "run_ops ((now, op) # ops) t = bindR (apply_op now op t) (run_ops ops)"

fun op_key :: "table_op \<Rightarrow> rstr" where
  "op_key (Put k v d) = k"
| "op_key (Del k) = k"
| "op_key (Purge k) = k"

text \<open>What was last written under each key.\<close>

fun written :: "(instant \<times> table_op) list \<Rightarrow> (rstr \<rightharpoonup> table_entry) \<Rightarrow> rstr \<rightharpoonup> table_entry" where
  "written [] m = m"
| "written ((now, Put k v d) # ops) m = written ops (m(k \<mapsto> \<lparr>te_value = v, te_expires = map_option (\<lambda>d. now + d) d\<rparr>))"
| "written ((now, Del k) # ops) m = written ops (m(k := None))"
| "written ((now, Purge k) # ops) m = written ops m"

definition loaded :: "(rstr \<times> owned) list \<Rightarrow> rstr \<rightharpoonup> table_entry" where
  "loaded data = map_of (map (\<lambda>(k, v). (k, \<lparr>te_value = v, te_expires = None\<rparr>)) data)"

lemma tbl_upsert_Ok:
  "tbl_upsert now k v d t = Ok t' \<Longrightarrow> t' = insert_entry k \<lparr>te_value = v, te_expires = map_option (\<lambda>d. now + d) d\<rparr> t"
  by (auto simp: tbl_upsert_def instant_add_def split: option.splits if_splits)

lemma evict_if_expired_table:
  "snd (evict_if_expired now k t) = (if lookup_read now k t = Expired then tbl_delete k t else t)"
  by (simp add: evict_if_expired_def evict_expired_def tbl_delete_def split: lookup_result.split)

text \<open>The entries that count at a time agree: all of them where nothing had to be forgotten.\<close>

definition agrees :: "bool \<Rightarrow> instant \<Rightarrow> (rstr \<rightharpoonup> table_entry) \<Rightarrow> table \<Rightarrow> bool" where
  "agrees exact now m t \<longleftrightarrow> table_ok t \<and> map_of (tb_entries t) \<subseteq>\<^sub>m m \<and>
     (exact \<longrightarrow> (\<forall>k en. m k = Some en \<and> entry_live now en \<longrightarrow> map_of (tb_entries t) k = Some en))"

lemma entry_live_later: "entry_live later en \<Longrightarrow> now \<le> later \<Longrightarrow> entry_live now en"
  by (auto simp: entry_live_def split: option.splits)

lemma agrees_later: "agrees exact now m t \<Longrightarrow> now \<le> later \<Longrightarrow> agrees exact later m t"
  using entry_live_later by (auto simp: agrees_def)

lemma agrees_insert:
  assumes "agrees exact now m t" "exact \<Longrightarrow> has_room k t"
  shows "agrees exact now (m(k \<mapsto> en)) (insert_entry k en t)"
  using assms tbl.put_below[of t m k en] tbl.put_exact[of t k en] tbl.ok_put[of t k en] by (auto simp: agrees_def)

lemma agrees_delete: "agrees exact now m t \<Longrightarrow> agrees exact now (m(k := None)) (tbl_delete k t)"
  using tbl.del_below[of t m k] tbl.del_get[of t k] tbl.ok_del[of t k] by (auto simp: agrees_def)

lemma agrees_purge:
  assumes "agrees exact now m t"
  shows "agrees exact now m (snd (evict_if_expired now k t))"
proof (cases "lookup_read now k t = Expired")
  case True
  then obtain en where en: "map_of (tb_entries t) k = Some en" "\<not> entry_live now en"
    by (auto simp: lookup_read_def split: option.splits if_splits)
  then have m: "m k = Some en" using assms by (auto simp: agrees_def map_le_def dom_def)
  have ok: "table_ok t" using assms by (simp add: agrees_def)
  show ?thesis
    using assms en m tbl.del_get[OF ok, of k] tbl.ok_del[OF ok, of k] map_le_trans[OF tbl.del_shrinks[OF ok, of k]]
    by (auto simp: agrees_def evict_if_expired_table True)
qed (use assms in \<open>simp add: evict_if_expired_table\<close>)

text \<open>The steps keep the limits and only touch the key they name.\<close>

lemma apply_op_keeps:
  assumes "table_ok t" "apply_op now op t = Ok t'"
  shows "table_ok t'" "tb_max t' = tb_max t" "fst ` set (tb_entries t') \<subseteq> insert (op_key op) (fst ` set (tb_entries t))"
    "tb_max t = Some mx \<Longrightarrow> length (tb_entries t') \<le> max (max mx 1) (length (tb_entries t))"
proof -
  have sub: "fst ` set (tb_entries t') \<subseteq> insert (op_key op) (fst ` set (tb_entries t))"
    if "map_of (tb_entries t') \<subseteq>\<^sub>m (map_of (tb_entries t))(op_key op \<mapsto> en)" for en
    using map_le_implies_dom_le[OF that] by (auto simp: dom_map_of_conv_image_fst)
  have del: "table_ok (tbl_delete k t) \<and> tb_max (tbl_delete k t) = tb_max t \<and> fst ` set (tb_entries (tbl_delete k t)) \<subseteq> fst ` set (tb_entries t)
      \<and> length (tb_entries (tbl_delete k t)) \<le> length (tb_entries t)" for k
    using table_ok_delete[OF assms(1), of k] assms(1) keys_al_remove[of "tb_entries t" k]
    by (auto simp: tbl_delete_def table_ok_def length_al_remove)
  have "table_ok t' \<and> tb_max t' = tb_max t \<and> fst ` set (tb_entries t') \<subseteq> insert (op_key op) (fst ` set (tb_entries t)) \<and>
    (tb_max t = Some mx \<longrightarrow> length (tb_entries t') \<le> max (max mx 1) (length (tb_entries t)))"
  proof (cases op)
    case (Put k v d)
    then have t': "t' = insert_entry k \<lparr>te_value = v, te_expires = map_option (\<lambda>d. now + d) d\<rparr> t" using assms(2) tbl_upsert_Ok by simp
    have "tb_max t = Some mx \<longrightarrow> length (tb_entries t') \<le> max (max mx 1) (length (tb_entries t))"
      using insert_entry_facts(6)[OF assms(1), of k mx "\<lparr>te_value = v, te_expires = map_option (\<lambda>d. now + d) d\<rparr>", folded t']
        insert_entry_facts(7)[OF assms(1), of k "\<lparr>te_value = v, te_expires = map_option (\<lambda>d. now + d) d\<rparr>", folded t']
      by (cases "k \<in> fst ` set (tb_entries t)") auto
    moreover have "fst ` set (tb_entries t') \<subseteq> insert (op_key op) (fst ` set (tb_entries t))"
      unfolding t' using insert_entry_facts(3)[OF assms(1)] Put by (intro sub[unfolded t']) simp
    ultimately show ?thesis using insert_entry_facts(1,4)[OF assms(1)] t' by simp
  next
    case (Del k)
    then show ?thesis using assms(2) del[of k] by auto
  next
    case (Purge k)
    then show ?thesis using assms del[of k] by (cases "lookup_read now k t = Expired") (auto simp: evict_if_expired_table)
  qed
  then show "table_ok t'" "tb_max t' = tb_max t" "fst ` set (tb_entries t') \<subseteq> insert (op_key op) (fst ` set (tb_entries t))"
    "tb_max t = Some mx \<Longrightarrow> length (tb_entries t') \<le> max (max mx 1) (length (tb_entries t))" by auto
qed

lemma room_for_keys:
  assumes "table_ok t" "fst ` set (tb_entries t) \<subseteq> K" "k \<in> K" "finite K" "tb_max t = None \<or> card K \<le> the (tb_max t)"
  shows "has_room k t"
proof (cases "k \<in> fst ` set (tb_entries t) \<or> tb_max t = None")
  case False
  have "length (tb_entries t) = card (fst ` set (tb_entries t))"
    using assms(1) distinct_card[of "map fst (tb_entries t)"] by (simp add: table_ok_def)
  also have "... < card K" using False assms(2-4) by (intro psubset_card_mono) auto
  finally show ?thesis using False assms(5) by (auto simp: has_room_def)
qed (auto simp: has_room_def)

lemma run_ops_agrees:
  assumes "run_ops ops t = Ok t'" "agrees exact now m t" "sorted (now # map fst ops @ [later])"
    and "exact \<Longrightarrow> finite K \<and> fst ` set (tb_entries t) \<subseteq> K \<and> op_key ` snd ` set ops \<subseteq> K \<and> (tb_max t = None \<or> card K \<le> the (tb_max t))"
  shows "agrees exact later (written ops m) t'"
  using assms
proof (induction ops arbitrary: t now m)
  case Nil
  then show ?case by (auto intro: agrees_later)
next
  case (Cons step ops)
  obtain at op where step: "step = (at, op)" by fastforce
  then obtain t1 where t1: "apply_op at op t = Ok t1" "run_ops ops t1 = Ok t'" using Cons.prems(1) by auto
  have at: "agrees exact at m t" using Cons.prems(2,3) step by (auto intro: agrees_later)
  have ok: "table_ok t" using at by (simp add: agrees_def)
  have room: "has_room (op_key op) t" if exact
    using room_for_keys[OF ok, of K "op_key op"] Cons.prems(4)[OF that] step by auto
  define m1 where "m1 = written [step] m"
  have m1: "written (step # ops) m = written ops m1" by (cases op) (auto simp: m1_def step)
  have "agrees exact at m1 t1"
  proof (cases op)
    case (Put k v d)
    then show ?thesis using agrees_insert[OF at, of k] room t1(1) tbl_upsert_Ok by (fastforce simp: m1_def step)
  next
    case (Del k)
    then show ?thesis using agrees_delete[OF at] t1(1) by (auto simp: m1_def step)
  next
    case (Purge k)
    then show ?thesis using agrees_purge[OF at] t1(1) by (auto simp: m1_def step)
  qed
  moreover have "exact \<Longrightarrow> finite K \<and> fst ` set (tb_entries t1) \<subseteq> K \<and> op_key ` snd ` set ops \<subseteq> K \<and> (tb_max t1 = None \<or> card K \<le> the (tb_max t1))"
    using Cons.prems(4) subset_trans[OF apply_op_keeps(3)[OF ok t1(1)], of K] apply_op_keeps(2)[OF ok t1(1)] step by auto
  ultimately show ?case using Cons.IH[OF t1(2), of at m1] Cons.prems(3) step m1 by auto
qed

lemma run_ops_keeps:
  assumes "run_ops ops t = Ok t'" "table_ok t"
  shows "table_ok t' \<and> tb_max t' = tb_max t \<and> (tb_max t = Some mx \<longrightarrow> length (tb_entries t') \<le> max (max mx 1) (length (tb_entries t)))"
  using assms
proof (induction ops arbitrary: t)
  case (Cons step ops)
  obtain at op where step: "step = (at, op)" by fastforce
  then obtain t1 where t1: "apply_op at op t = Ok t1" "run_ops ops t1 = Ok t'" using Cons.prems(1) by auto
  show ?case using Cons.IH[OF t1(2) apply_op_keeps(1)[OF Cons.prems(2) t1(1)]] apply_op_keeps(2,4)[OF Cons.prems(2) t1(1)]
    by auto
qed simp

subsection \<open>Loading\<close>

lemma table_load_facts:
  assumes "distinct (map fst data)"
  shows "tb_entries (table_load data (table_new mx ttl)) = map (\<lambda>(k, v). (k, \<lparr>te_value = v, te_expires = None\<rparr>)) data"
    "tb_order (table_load data (table_new mx ttl)) = map fst data"
    "tb_max (table_load data (table_new mx ttl)) = mx" "tb_ttl (table_load data (table_new mx ttl)) = ttl"
proof -
  have fresh: "k \<notin> fst ` set xs \<Longrightarrow> al_set k v xs = xs @ [(k, v)]" for k and v :: table_entry and xs
    by (induction k v xs rule: al_set.induct) auto
  have "tb_entries (table_load data (table_new mx ttl)) = map (\<lambda>(k, v). (k, \<lparr>te_value = v, te_expires = None\<rparr>)) data \<and>
    tb_order (table_load data (table_new mx ttl)) = map fst data \<and> tb_max (table_load data (table_new mx ttl)) = mx \<and>
    tb_ttl (table_load data (table_new mx ttl)) = ttl"
    using assms
  proof (induction data rule: rev_induct)
    case (snoc x data)
    then have "fst x \<notin> fst ` set (map (\<lambda>(k, v). (k, \<lparr>te_value = v, te_expires = None :: instant option\<rparr>)) data)"
      by (auto simp: image_image case_prod_beta)
    with snoc show ?case by (cases x) (auto simp: table_load_def fresh)
  qed (simp add: table_load_def table_new_def)
  then show "tb_entries (table_load data (table_new mx ttl)) = map (\<lambda>(k, v). (k, \<lparr>te_value = v, te_expires = None\<rparr>)) data"
    "tb_order (table_load data (table_new mx ttl)) = map fst data"
    "tb_max (table_load data (table_new mx ttl)) = mx" "tb_ttl (table_load data (table_new mx ttl)) = ttl" by simp_all
qed

lemma table_load_ok: "distinct (map fst data) \<Longrightarrow> table_ok (table_load data (table_new mx ttl))"
  by (simp add: table_ok_def table_load_facts comp_def case_prod_beta image_image)

lemma table_load_agrees:
  "distinct (map fst data) \<Longrightarrow> agrees exact 0 (loaded data) (table_load data (table_new mx ttl))"
  by (simp add: agrees_def table_load_ok) (simp add: table_load_facts loaded_def)

section \<open>Properties of tables\<close>

text \<open>C37: Whatever workers do to a table, in any order, a lookup finds only the value last written under the key, or loaded and not
  written since, that has not been deleted and has not expired. It does find it as long as no more keys were used than the table may
  hold.\<close>

theorem table_lookup_exact:
  assumes "distinct (map fst data)" "run_ops ops (table_load data (table_new mx ttl)) = Ok t" "sorted (map fst ops @ [now])"
  shows "(lookup_read now k t = Found v \<longrightarrow> (\<exists>en. written ops (loaded data) k = Some en \<and> te_value en = v \<and> entry_live now en)) \<and>
    (mx = None \<or> card (fst ` set data \<union> op_key ` snd ` set ops) \<le> the mx \<longrightarrow>
       (\<forall>en. written ops (loaded data) k = Some en \<and> entry_live now en \<longrightarrow> lookup_read now k t = Found (te_value en)))"
proof -
  have srt: "sorted (0 # map fst ops @ [now])" using assms(3) by simp
  have sound: "agrees False now (written ops (loaded data)) t"
    by (rule run_ops_agrees[OF assms(2) table_load_agrees[OF assms(1)] srt]) simp
  have "agrees True now (written ops (loaded data)) t" if "mx = None \<or> card (fst ` set data \<union> op_key ` snd ` set ops) \<le> the mx"
    using run_ops_agrees[OF assms(2) table_load_agrees[OF assms(1)] srt, where K = "fst ` set data \<union> op_key ` snd ` set ops" and exact = True] that assms(1)
    by (auto simp: table_load_facts image_image case_prod_beta)
  then have "lookup_read now k t = Found (te_value en)"
    if "mx = None \<or> card (fst ` set data \<union> op_key ` snd ` set ops) \<le> the mx" "written ops (loaded data) k = Some en" "entry_live now en" for en
    using that by (auto simp: agrees_def lookup_read_def)
  moreover have "\<exists>en. written ops (loaded data) k = Some en \<and> te_value en = v \<and> entry_live now en" if found: "lookup_read now k t = Found v"
  proof -
    obtain en where en: "map_of (tb_entries t) k = Some en" "te_value en = v" "entry_live now en"
      using found by (auto simp: lookup_read_def split: option.splits if_splits)
    then have "written ops (loaded data) k = Some en" using sound by (auto simp: agrees_def map_le_def dom_def)
    with en show ?thesis by blast
  qed
  ultimately show ?thesis by blast
qed

definition ex_ops :: "(instant \<times> table_op) list" where
  "ex_ops = [(0, Put ''a'' (OInt 1) None), (1, Put ''b'' (OInt 2) (Some 10)), (2, Del ''a''), (3, Put ''a'' (OInt 3) None)]"

lemmas table_run = tbl_upsert_def bindR_def insert_entry_def table_new_def table_load_def make_room_same make_room_evict evict_oldest_def
  tbl_delete_def instant_add_def instant_limit_def

lemma ex_ops_run: "run_ops ex_ops (table_load [] (table_new (Some 2) None)) =
    Ok \<lparr>tb_entries = [(''b'', \<lparr>te_value = OInt 2, te_expires = Some 11\<rparr>), (''a'', \<lparr>te_value = OInt 3, te_expires = None\<rparr>)],
        tb_order = [''a'', ''b'', ''a''], tb_max = Some 2, tb_ttl = None\<rparr>"
  by (simp add: ex_ops_def table_run)

theorem table_lookup_exact_witness:
  "\<exists>t. run_ops ex_ops (table_load [] (table_new (Some 2) None)) = Ok t \<and> lookup_read 5 ''b'' t = Found (OInt 2)"
proof -
  have "sorted (map fst ex_ops @ [5])" "card (fst ` set ([] :: (rstr \<times> owned) list) \<union> op_key ` snd ` set ex_ops) \<le> the (Some 2)"
    "written ex_ops (loaded []) ''b'' = Some \<lparr>te_value = OInt 2, te_expires = Some 11\<rparr>" by (simp_all add: ex_ops_def card_insert_if)
  then have "lookup_read 5 ''b'' \<lparr>tb_entries = [(''b'', \<lparr>te_value = OInt 2, te_expires = Some 11\<rparr>), (''a'', \<lparr>te_value = OInt 3, te_expires = None\<rparr>)],
        tb_order = [''a'', ''b'', ''a''], tb_max = Some 2, tb_ttl = None\<rparr> = Found (OInt 2)"
    using table_lookup_exact[OF _ ex_ops_run, of 5 "''b''"] by (simp add: entry_live_def)
  then show ?thesis using ex_ops_run by blast
qed

text \<open>A table with a limit never holds more entries than the limit, than one, or than were loaded, and it is within the limit (or
  holds one entry) after any write of a new key.\<close>

theorem table_bounded:
  assumes "distinct (map fst data)" "run_ops ops (table_load data (table_new (Some mx) ttl)) = Ok t"
  shows "length (tb_entries t) \<le> max (max mx 1) (length data) \<and>
    (\<forall>now v d t'. map_of (tb_entries t) k = None \<and> tbl_upsert now k v d t = Ok t' \<longrightarrow> length (tb_entries t') \<le> max mx 1)"
proof -
  have t: "table_ok t" "tb_max t = Some mx" "length (tb_entries t) \<le> max (max mx 1) (length data)"
    using run_ops_keeps[OF assms(2) table_load_ok[OF assms(1)], of mx] assms(1) by (auto simp: table_load_facts)
  moreover have "length (tb_entries t') \<le> max mx 1" if "map_of (tb_entries t) k = None" "tbl_upsert now k v d t = Ok t'" for now v d t'
    using insert_entry_facts(6)[OF t(1) _ t(2)] that(1) tbl_upsert_Ok[OF that(2)] by (auto simp: map_of_eq_None_iff)
  ultimately show ?thesis by blast
qed

theorem table_bounded_witness:
  "\<exists>t. run_ops ex_ops (table_load [] (table_new (Some 2) None)) = Ok t \<and> length (tb_entries t) \<le> 2"
  using table_bounded[OF _ ex_ops_run] ex_ops_run by auto

text \<open>The order of insertion is not kept through a delete: a key that is deleted and written again keeps its old place, so the next
  eviction removes it although it is the newest and leaves the oldest. And places are only given up by evictions, so without them the
  record of the order grows by one with every expiry or delete, without bound, however small the table is.\<close>

theorem table_stale_order:
  "(\<exists>t. run_ops (ex_ops @ [(4, Put ''c'' (OInt 4) None)]) (table_new (Some 2) None) = Ok t \<and>
     lookup_read 5 ''a'' t = NotFound \<and> lookup_read 5 ''b'' t = Found (OInt 2)) \<and>
   (\<forall>n. \<exists>ops t. run_ops ops (table_new (map_option Suc mx) ttl) = Ok t \<and> tb_entries t = [] \<and> length (tb_order t) = n)"
proof -
  define lim where "lim = map_option Suc mx"
  have "\<exists>ops t. run_ops ops (table_new lim ttl) = Ok t \<and> tb_entries t = [] \<and> tb_max t = lim \<and> length (tb_order t) = n" for n
  proof (induction n)
    case 0
    show ?case by (rule exI[of _ "[]"]) (simp add: table_new_def)
  next
    case (Suc n)
    then obtain ops t where t: "run_ops ops (table_new lim ttl) = Ok t" "tb_entries t = []" "tb_max t = lim" "length (tb_order t) = n" by blast
    have app: "run_ops (xs @ ys) s = bindR (run_ops xs s) (run_ops ys)" for xs ys s
      by (induction xs arbitrary: s) (auto simp: bindR_def split: res.split)
    have room: "make_room m t = t" if "lim = Some m" for m using that t(2) by (intro make_room_same) (auto simp: lim_def)
    have "run_ops (ops @ [(0, Put ''k'' ONull None), (0, Del ''k'')]) (table_new lim ttl) = Ok (t\<lparr>tb_order := tb_order t @ [''k'']\<rparr>)"
      using t room by (cases lim) (simp_all add: app bindR_def tbl_upsert_def insert_entry_def tbl_delete_def)
    then show ?case using t by (intro exI[of _ "ops @ [(0, Put ''k'' ONull None), (0, Del ''k'')]"]) auto
  qed
  moreover have "\<exists>t. run_ops (ex_ops @ [(4, Put ''c'' (OInt 4) None)]) (table_new (Some 2) None) = Ok t \<and>
     lookup_read 5 ''a'' t = NotFound \<and> lookup_read 5 ''b'' t = Found (OInt 2)"
    by (simp add: ex_ops_def table_run lookup_read_def entry_live_def)
  ultimately show ?thesis unfolding lim_def by blast
qed

text \<open>An expiry time too far in the future panics, whatever the table is for: the sum leaves the range of the clock.\<close>

lemma table_upsert_panics:
  assumes "instant_limit \<le> now + from_secs s" "map_of (tw_store w) ''seen'' = Some t" "tw_now w = now" "s < 2 ^ 63" "0 < s"
  shows "fst (fn_table_upsert rfc [VString ''seen'', VString ''k'', v, VInt (int s)] ev w) = Crash"
  using assms
  by (simp add: fn_table_upsert_def val_to_str_def write_store_def store_upsert_def tbl_upsert_def instant_add_def bindR_def monad_simps)

text \<open>A value written by the language is what a lookup returns.\<close>

lemma table_functions_roundtrip:
  assumes "map_of (tw_store w) name = Some t" "tb_ttl t = None" "val_ok v"
    and "fn_table_upsert rfc [VString name, VString k, v] ev w = (Ok r, w1)"
    and "fn_table_lookup rfc [VString name, VString k] ev w1 = (Ok u, w2)" "table_ok t"
  shows "r = VNull \<and> u = view_in (to_owned_value v) \<and> w2 = w1"
proof -
  let ?en = "\<lparr>te_value = to_owned_value v, te_expires = None\<rparr>"
  have w1: "r = VNull" "w1 = w\<lparr>tw_store := al_set name (insert_entry k ?en t) (tw_store w)\<rparr>"
    using assms(1,2,4)
    by (auto simp: fn_table_upsert_def val_to_str_def write_store_def upsert_with_default_def tbl_upsert_def bindR_def monad_simps)
  have same: "map_of xs n = Some y \<Longrightarrow> al_set n y xs = xs" for n and y :: table and xs
    by (induction xs) auto
  have "lookup_read now k (insert_entry k ?en t) = Found (to_owned_value v)" for now
    using insert_entry_facts(2)[OF assms(6)] by (simp add: lookup_read_def entry_live_def)
  then show ?thesis using w1 assms(5)
    by (auto simp: fn_table_lookup_def val_to_str_def store_lookup_def tbl_lookup_def monad_simps same)
qed

end
