(* ===== verification/Diagnostics.thy ===== *)
theory Diagnostics
  imports Tables
begin

section \<open>Diagnostics and suggestions\<close>

text \<open>
  The issues of the analyzer (\<open>check/mod.rs\<close>, without the source spans that only place a caret) and the search for the
  nearest name (\<open>nearest\<close>, \<open>levenshtein\<close> of \<open>dsl/schema.rs\<close>). The rows of the distance table are lists.
\<close>

datatype level = LError | LWarning | LInfo

datatype diag_kind = UnknownIdent | TypeMismatch | Dataflow | PropertySchema | OtherKind

record diagnostic =
  dg_level :: level
  dg_kind :: diag_kind
  dg_message :: string
  dg_help :: "string option"

definition error_kind :: "diag_kind \<Rightarrow> string \<Rightarrow> diagnostic" where
  "error_kind k m = \<lparr>dg_level = LError, dg_kind = k, dg_message = m, dg_help = None\<rparr>"

definition warning_kind :: "diag_kind \<Rightarrow> string \<Rightarrow> diagnostic" where
  "warning_kind k m = \<lparr>dg_level = LWarning, dg_kind = k, dg_message = m, dg_help = None\<rparr>"

definition with_help :: "string \<Rightarrow> diagnostic \<Rightarrow> diagnostic" where
  "with_help h d = d\<lparr>dg_help := Some h\<rparr>"

definition promote_unknown_idents :: "diagnostic list \<Rightarrow> diagnostic list" where
  "promote_unknown_idents ds =
     map (\<lambda>d. if dg_level d = LWarning \<and> dg_kind d = UnknownIdent then d\<lparr>dg_level := LError\<rparr> else d) ds"

definition quote :: "string \<Rightarrow> string" where
  "quote s = [CHR 0x60] @ s @ [CHR 0x60]"

definition did_you_mean :: "string option \<Rightarrow> string option" where
  "did_you_mean near = map_option (\<lambda>n. ''did you mean '' @ quote n @ ''?'') near"

subsection \<open>Edit distance\<close>

text \<open>\<open>chars\<close>: a text as its characters, each the bytes that encode it.\<close>

fun chars :: "rstr \<Rightarrow> string list" where
  "chars [] = []"
| "chars [c] = [[c]]"
| "chars (c # d # s) = (if cont_byte (of_char d)
     then (case chars (d # s) of [] \<Rightarrow> [[c]] | g # gs \<Rightarrow> (c # g) # gs)
     else [c] # chars (d # s))"

text \<open>The inner loop: \<open>left\<close> is \<open>curr[j]\<close>, the list holds \<open>prev[j ..]\<close>.\<close>

fun lev_row :: "'a \<Rightarrow> nat \<Rightarrow> nat list \<Rightarrow> 'a list \<Rightarrow> nat list" where
  "lev_row lc left (diag # up # prev) (sc # short) =
     (let v = min (min (up + 1) (left + 1)) (diag + (if lc = sc then 0 else 1)) in v # lev_row lc v (up # prev) short)"
| "lev_row lc left _ _ = []"

fun lev_rows :: "nat \<Rightarrow> nat list \<Rightarrow> 'a list \<Rightarrow> 'a list \<Rightarrow> nat list" where
  "lev_rows i prev [] short = prev"
| "lev_rows i prev (lc # long) short = lev_rows (i + 1) ((i + 1) # lev_row lc (i + 1) prev short) long short"

definition lev_chars :: "'a list \<Rightarrow> 'a list \<Rightarrow> nat" where
  "lev_chars a b =
     (if a = b then 0 else if a = [] then length b else if b = [] then length a
      else let (short, long) = (if length a \<le> length b then (a, b) else (b, a)) in
        last (lev_rows 0 [0 ..< length short + 1] long short))"

definition levenshtein :: "rstr \<Rightarrow> rstr \<Rightarrow> nat" where
  "levenshtein a b = lev_chars (chars a) (chars b)"

fun nearest_from :: "rstr \<Rightarrow> nat \<Rightarrow> (rstr \<times> nat) option \<Rightarrow> rstr list \<Rightarrow> (rstr \<times> nat) option" where
  "nearest_from needle threshold best [] = best"
| "nearest_from needle threshold best (cand # cands) =
     (let d = levenshtein needle cand in
      nearest_from needle threshold
        (if cand = needle \<or> threshold < d then best
         else case best of
             None \<Rightarrow> Some (cand, d)
           | Some (bname, bd) \<Rightarrow> if d < bd \<or> (d = bd \<and> bytes_cmp cand bname = Less) then Some (cand, d) else best)
        cands)"

definition nearest :: "rstr \<Rightarrow> rstr list \<Rightarrow> rstr option" where
  "nearest needle cands = map_option fst (nearest_from needle (max (length needle div 3) 2) None cands)"

subsection \<open>The distance is the least number of edits\<close>

text \<open>\<open>aligned a b n\<close>: \<open>n\<close> insertions, deletions and replacements turn \<open>a\<close> into \<open>b\<close>.\<close>

inductive aligned :: "'a list \<Rightarrow> 'a list \<Rightarrow> nat \<Rightarrow> bool" where
  nil: "aligned [] [] 0"
| del: "aligned a b n \<Longrightarrow> aligned (a @ [x]) b (n + 1)"
| ins: "aligned a b n \<Longrightarrow> aligned a (b @ [y]) (n + 1)"
| keep: "aligned a b n \<Longrightarrow> aligned (a @ [x]) (b @ [x]) n"
| repl: "aligned a b n \<Longrightarrow> aligned (a @ [x]) (b @ [y]) (n + 1)"

fun ed :: "'a list \<Rightarrow> 'a list \<Rightarrow> nat" where
  "ed [] b = length b"
| "ed a [] = length a"
| "ed (x # a) (y # b) = min (min (ed (x # a) b + 1) (ed a (y # b) + 1)) (ed a b + (if x = y then 0 else 1))"

lemma ed_nil2 [simp]: "ed a [] = length a"
  by (cases a) simp_all

lemma ed_sym: "ed a b = ed b a"
  by (induction a b rule: ed.induct) (auto simp: min.commute min.left_commute)

lemma ed_refl [simp]: "ed a a = 0"
  by (induction a) simp_all

lemma aligned_length: "aligned (rev a) [] (length a)" "aligned [] (rev b) (length b)"
proof -
  show "aligned (rev a) [] (length a)" by (induction a) (auto intro: aligned.nil dest: aligned.del)
  show "aligned [] (rev b) (length b)" by (induction b) (auto intro: aligned.nil dest: aligned.ins)
qed

lemma ed_aligned: "aligned (rev a) (rev b) (ed a b)"
proof (induction a b rule: ed.induct)
  case (3 x a y b)
  have "aligned (rev a) (rev (y # b)) (ed a (y # b)) \<Longrightarrow> aligned (rev (x # a)) (rev (y # b)) (ed a (y # b) + 1)"
    using aligned.del[of "rev a" "rev (y # b)" _ x] by simp
  moreover have "aligned (rev (x # a)) (rev b) (ed (x # a) b) \<Longrightarrow> aligned (rev (x # a)) (rev (y # b)) (ed (x # a) b + 1)"
    using aligned.ins[of "rev (x # a)" "rev b" _ y] by simp
  moreover have "aligned (rev (x # a)) (rev (y # b)) (ed a b + (if x = y then 0 else 1))"
    using 3(3) aligned.keep[of "rev a" "rev b" "ed a b" x] aligned.repl[of "rev a" "rev b" "ed a b" x y] by auto
  ultimately show ?case using 3 by (auto simp: min_def)
next
  case (2 x a)
  show ?case using aligned_length(1)[of "x # a"] by simp
qed (use aligned_length(2) in simp)

lemma ed_delete: "ed (x # a) b \<le> ed a b + 1"
proof (induction b arbitrary: x a)
  case (Cons y b)
  show ?case by simp
qed simp

lemma ed_insert: "ed a (y # b) \<le> ed a b + 1"
  using ed_delete[of y b a] by (simp add: ed_sym)

lemma aligned_ed: "aligned a b n \<Longrightarrow> ed (rev a) (rev b) \<le> n"
proof (induction rule: aligned.induct)
  case (del a b n x)
  then show ?case using ed_delete[of x "rev a" "rev b"] by simp
next
  case (ins a b n y)
  then show ?case using ed_insert[of "rev a" y "rev b"] by simp
qed (auto simp: min_def)

text \<open>The row of the table behind the prefix \<open>rev p\<close> of the long text.\<close>

definition ed_row :: "'a list \<Rightarrow> 'a list \<Rightarrow> 'a list \<Rightarrow> nat list" where
  "ed_row p q short = map (\<lambda>j. ed p (rev (take j short) @ q)) [0 ..< length short + 1]"

lemma ed_row_Nil [simp]: "ed_row p q [] = [ed p q]"
  by (simp add: ed_row_def)

lemma ed_row_Cons [simp]: "ed_row p q (s # short) = ed p q # ed_row p (s # q) short"
proof -
  have "[0 ..< length (s # short) + 1] = 0 # map Suc [0 ..< length short + 1]"
    unfolding map_Suc_upt by (subst upt_conv_Cons) simp_all
  then show ?thesis by (simp only: ed_row_def list.map list.map_comp) (simp add: comp_def del: upt_Suc)
qed

lemma ed_row_hd: "\<exists>t. ed_row p q short = ed p q # t"
  by (cases short) simp_all

lemma lev_row_ed: "ed (lc # p) q # lev_row lc (ed (lc # p) q) (ed_row p q short) short = ed_row (lc # p) q short"
proof (induction short arbitrary: q)
  case (Cons s short)
  obtain t where t: "ed_row p (s # q) short = ed p (s # q) # t" using ed_row_hd by blast
  have "min (min (ed p (s # q) + 1) (ed (lc # p) q + 1)) (ed p q + (if lc = s then 0 else 1)) = ed (lc # p) (s # q)"
    by (simp add: min.commute)
  then show ?case using Cons[of "s # q"] t by (simp add: Let_def)
qed simp

lemma lev_rows_ed: "lev_rows (length p) (ed_row p [] short) long short = ed_row (rev long @ p) [] short"
proof (induction long arbitrary: p)
  case (Cons lc long)
  have "(length p + 1) # lev_row lc (length p + 1) (ed_row p [] short) short = ed_row (lc # p) [] short"
    using lev_row_ed[of lc p "[]" short] by simp
  then show ?case using Cons[of "lc # p"] by simp
qed simp

lemma last_ed_row: "last (ed_row p q short) = ed p (rev short @ q)"
  by (simp add: ed_row_def)

lemma lev_chars_ed: "lev_chars a b = ed (rev a) (rev b)"
proof -
  have "last (lev_rows 0 [0 ..< length short + 1] long short) = ed (rev long) (rev short)" for short long :: "'a list"
  proof -
    have "[0 ..< length short + 1] = ed_row [] [] short" by (auto simp: ed_row_def intro!: map_idI[symmetric])
    then show ?thesis using lev_rows_ed[of "[]" short long] last_ed_row[of "rev long" "[]" short] by simp
  qed
  then show ?thesis using ed_sym[of "rev a" "rev b"] by (auto simp: lev_chars_def)
qed

lemma lev_chars_least: "aligned a b (lev_chars a b)" "aligned a b n \<Longrightarrow> lev_chars a b \<le> n"
  using ed_aligned[of "rev a" "rev b"] aligned_ed[of a b n] by (simp_all add: lev_chars_ed)

end
