(* ===== verification/Builtins.thy ===== *)
theory Builtins
  imports Tables
begin

section \<open>Built-in functions\<close>

text \<open>
  The functions of \<open>functions/primitives/\<close>, one definition per Rust function, and their registration. What the
  regular expressions, hashes, the CSV reader and the case tables of Unicode do is in third-party code: fields of the
  record \<open>libs\<close>. The formatting and parsing of times is left to \<open>chrono\<close> and is not modelled. Offsets into text always
  lie next to an ASCII character here, so the slices never cut a character.
\<close>

record 'w libs =
  lb_rfc3339 :: "int \<Rightarrow> string"
  lb_codec :: json_codec
  lb_lower :: "rstr \<Rightarrow> rstr"
  lb_upper :: "rstr \<Rightarrow> rstr"
  lb_digest :: "string \<Rightarrow> rstr \<Rightarrow> rstr"
  lb_csv_row :: "rstr \<Rightarrow> rstr list option"
  lb_rx_error :: "rstr \<Rightarrow> string option"
  lb_rx_match :: "rstr \<Rightarrow> rstr \<Rightarrow> bool"
  lb_rx_groups :: "rstr \<Rightarrow> rstr \<Rightarrow> rstr option list option"
  lb_rx_names :: "rstr \<Rightarrow> rstr list"
  lb_rx_named :: "rstr \<Rightarrow> rstr \<Rightarrow> (rstr \<Rightarrow> rstr option) option"
  lb_rx_replace :: "rstr \<Rightarrow> rstr \<Rightarrow> rstr \<Rightarrow> rstr"
  lb_geoip :: "rstr \<Rightarrow> val res"
  lb_version :: rstr
  lb_hostname :: "'w \<Rightarrow> rstr option"
  lb_now :: "'w \<Rightarrow> int"
  lb_tables :: "'w \<Rightarrow> table_world"
  lb_put_tables :: "table_store \<Rightarrow> 'w \<Rightarrow> 'w"

text \<open>\<open>args[i]\<close>, which panics past the end; and a function that neither reads the event nor the world.\<close>

definition arg :: "val list \<Rightarrow> nat \<Rightarrow> val res" where
  "arg args i = (if i < length args then Ok (args ! i) else Crash)"

definition pure_fn :: "(val list \<Rightarrow> val res) \<Rightarrow> 'w builtin" where
  "pure_fn f args ev = liftR (f args)"

definition on1 :: "(val \<Rightarrow> val res) \<Rightarrow> 'w builtin" where
  "on1 f = pure_fn (\<lambda>args. bindR (arg args 0) f)"

definition on2 :: "(val \<Rightarrow> val \<Rightarrow> val res) \<Rightarrow> 'w builtin" where
  "on2 f = pure_fn (\<lambda>args. bindR (arg args 0) (\<lambda>x. bindR (arg args 1) (\<lambda>y. f x y)))"

text \<open>A function on texts: each argument through \<open>val_to_str\<close>.\<close>

definition text_fn :: "(int \<Rightarrow> string) \<Rightarrow> nat \<Rightarrow> (rstr list \<Rightarrow> val res) \<Rightarrow> 'w builtin" where
  "text_fn rfc n f = pure_fn (\<lambda>args. bindR (collectR (map (\<lambda>i. bindR (arg args i) (val_to_str rfc)) [0 ..< n])) f)"

subsection \<open>Arrays\<close>

fun push_back :: "val \<Rightarrow> val \<Rightarrow> val" where
  "push_back (VArray items) v = VArray (items @ [v])"
| "push_back _ v = VNull"

fun push_front :: "val \<Rightarrow> val \<Rightarrow> val" where
  "push_front (VArray items) v = VArray (v # items)"
| "push_front _ v = VNull"

fun coalesce :: "val list \<Rightarrow> val" where
  "coalesce [] = VNull"
| "coalesce (v # vs) = (if v \<noteq> VNull then v else coalesce vs)"

fun join_arrays :: "val list \<Rightarrow> val list res" where
  "join_arrays [] = Ok []"
| "join_arrays (v # vs) = (case v of
     VArray items \<Rightarrow> bindR (join_arrays vs) (\<lambda>out. Ok (items @ out))
   | _ \<Rightarrow> Err (''concat() expects Array arguments, got '' @ type_name v))"

definition dedup_items :: "val list \<Rightarrow> val list" where
  "dedup_items = foldl (\<lambda>seen x. if list_ex (\<lambda>s. val_eq s x) seen then seen else seen @ [x]) []"

fun dedup :: "val \<Rightarrow> val" where
  "dedup (VArray items) = VArray (dedup_items items)"
| "dedup _ = VArray []"

fun entitle_pairs :: "val list \<Rightarrow> val list \<Rightarrow> obj res" where
  "entitle_pairs (k # ks) (v # vs) = (case k of
     VString s \<Rightarrow> bindR (entitle_pairs ks vs) (\<lambda>es. Ok ((s, v) # es))
   | _ \<Rightarrow> Err (''entitle() keys must be strings, got '' @ type_name k))"
| "entitle_pairs _ _ = Ok []"

definition entitle :: "val \<Rightarrow> val \<Rightarrow> val res" where
  "entitle values keys = (case values of
     VArray vs \<Rightarrow> (case keys of
         VArray ks \<Rightarrow>
           (if length vs \<noteq> length ks
            then Err (''entitle() length mismatch: '' @ show_nat (length vs) @ '' values vs '' @ show_nat (length ks) @ '' keys'')
            else bindR (entitle_pairs ks vs) (\<lambda>es. Ok (VObject es)))
       | _ \<Rightarrow> Err (''entitle() expects Array for keys, got '' @ type_name keys))
   | _ \<Rightarrow> Err (''entitle() expects Array for values, got '' @ type_name values))"

fun head_of :: "val \<Rightarrow> val" where
  "head_of (VArray (x # xs)) = x"
| "head_of _ = VNull"

fun tail_of :: "val \<Rightarrow> val" where
  "tail_of (VArray items) = (if items = [] then VNull else last items)"
| "tail_of _ = VNull"

text \<open>\<open>n as i64\<close> of a length, and \<open>chars().count()\<close>: the bytes that do not continue a character.\<close>

definition usize_as_i64 :: "nat \<Rightarrow> int" where
  "usize_as_i64 n = (let m = int n mod 2 ^ 64 in if m < 2 ^ 63 then m else m - 2 ^ 64)"

definition char_count :: "rstr \<Rightarrow> nat" where
  "char_count s = length (List.filter (\<lambda>c. \<not> cont_byte (of_char c)) s)"

fun measure_val :: "val \<Rightarrow> val" where
  "measure_val (VArray items) = VInt (usize_as_i64 (length items))"
| "measure_val (VString s) = VInt (usize_as_i64 (char_count s))"
| "measure_val (VBytes b) = VInt (usize_as_i64 (length b))"
| "measure_val (VObject es) = VInt (usize_as_i64 (length es))"
| "measure_val _ = VNull"

fun as_f64 :: "val \<Rightarrow> f64 option" where
  "as_f64 (VInt n) = Some (f64_of_int n)"
| "as_f64 (VFloat n) = Some n"
| "as_f64 _ = None"

definition pick_name :: "bool \<Rightarrow> string" where
  "pick_name want_max = (if want_max then ''max'' else ''min'')"

fun pick_from :: "bool \<Rightarrow> val option \<Rightarrow> val list \<Rightarrow> val res" where
  "pick_from want_max best [] = Ok (or_null best)"
| "pick_from want_max best (item # items) = (case as_f64 item of
     None \<Rightarrow> Err (pick_name want_max @ ''() expects numeric elements, got '' @ type_name item)
   | Some cur \<Rightarrow> (case best of
       None \<Rightarrow> pick_from want_max (Some item) items
     | Some b \<Rightarrow> (case as_f64 b of
         None \<Rightarrow> Crash
       | Some bf \<Rightarrow> pick_from want_max
           (if f64_partial_cmp cur bf = Some (if want_max then Greater else Less) then Some item else best) items)))"

definition pick :: "bool \<Rightarrow> val \<Rightarrow> val res" where
  "pick want_max v = (case v of
     VArray items \<Rightarrow> pick_from want_max None items
   | VNull \<Rightarrow> Ok VNull
   | _ \<Rightarrow> Err (pick_name want_max @ ''() expects an Array, got '' @ type_name v))"

definition not_numeric :: "val \<Rightarrow> string" where
  "not_numeric item = ''sum() expects numeric elements, got '' @ type_name item"

fun is_float :: "val \<Rightarrow> bool" where
  "is_float (VFloat _) = True"
| "is_float _ = False"

fun sum_floats :: "f64 \<Rightarrow> val list \<Rightarrow> val res" where
  "sum_floats acc [] = Ok (VFloat acc)"
| "sum_floats acc (item # items) = (case as_f64 item of
     Some n \<Rightarrow> sum_floats (f64_add acc n) items | None \<Rightarrow> Err (not_numeric item))"

fun sum_ints :: "int \<Rightarrow> val list \<Rightarrow> val res" where
  "sum_ints acc [] = Ok (VInt acc)"
| "sum_ints acc (item # items) = (case item of
     VInt n \<Rightarrow> (case checked_i64 (acc + n) of
         Some acc' \<Rightarrow> sum_ints acc' items
       | None \<Rightarrow> Err (''sum() overflowed i64 (accumulator '' @ string_of_int acc @ '', element '' @ string_of_int n @ '')''))
   | _ \<Rightarrow> Err (not_numeric item))"

definition sum_val :: "val \<Rightarrow> val res" where
  "sum_val v = (case v of
     VArray items \<Rightarrow> if list_ex is_float items then sum_floats f64_zero items else sum_ints 0 items
   | _ \<Rightarrow> Err (''sum() expects an Array, got '' @ type_name v))"

subsection \<open>Objects\<close>

text \<open>\<open>strip\<close>: \<open>None\<close> for a null, whose key goes; elements of an array stay.\<close>

fun strip_nulls :: "val \<Rightarrow> val option" where
  "strip_nulls VNull = None"
| "strip_nulls (VObject es) = Some (VObject (concat (map (\<lambda>(k, v). case strip_nulls v of Some s \<Rightarrow> [(k, s)] | None \<Rightarrow> []) es)))"
| "strip_nulls (VArray items) = Some (VArray (map (\<lambda>item. or_null (strip_nulls item)) items))"
| "strip_nulls v = Some v"

definition null_omit :: "val \<Rightarrow> val" where
  "null_omit v = or_null (strip_nulls v)"

text \<open>\<open>path(obj, key, ...)\<close>; \<open>i\<close> numbers the argument.\<close>

fun path_walk :: "nat \<Rightarrow> val \<Rightarrow> val list \<Rightarrow> val res" where
  "path_walk i current [] = Ok current"
| "path_walk i current (key # keys) = (case key of
     VString k \<Rightarrow> path_walk (i + 1) (case current of VObject es \<Rightarrow> or_null (map_of es k) | _ \<Rightarrow> VNull) keys
   | VInt _ \<Rightarrow> Err (''path() rejects integer keys; arg #'' @ show_nat i @ '' was an integer'')
   | _ \<Rightarrow> Err (''path() keys must be strings, got '' @ type_name key @ '' at arg #'' @ show_nat i))"

definition fn_path :: "val list \<Rightarrow> val res" where
  "fn_path args = bindR (arg args 0) (\<lambda>v. path_walk 2 v (tl args))"

text \<open>\<open>apply_defaults\<close>: the input wins, missing keys come from the defaults.\<close>

definition apply_defaults :: "string \<Rightarrow> val option \<Rightarrow> val \<Rightarrow> val res" where
  "apply_defaults name defaults v = (case v of
     VObject es \<Rightarrow> (case defaults of
         None \<Rightarrow> Ok v
       | Some VNull \<Rightarrow> Ok v
       | Some (VObject ds) \<Rightarrow> Ok (VObject (es @ List.filter (\<lambda>(k, _). k \<notin> fst ` set es) ds))
       | Some d \<Rightarrow> Err (name @ ''(): second argument must be a hash literal, got '' @ type_name d))
   | _ \<Rightarrow> Err (name @ ''(): internal error '' @ em_dash @ '' apply_defaults expected Object, got '' @ type_name v))"

subsection \<open>Keys with dots\<close>

text \<open>\<open>nest_dotted_keys\<close>. A \<open>BTreeMap\<close> is the list of its entries in the order of the keys.\<close>

definition tick :: "string \<Rightarrow> string" where
  "tick s = [CHR 0x27] @ s @ [CHR 0x27]"

datatype node = Leaf val | Branch "(rstr \<times> node) list"

definition max_dotted_depth :: nat where "max_dotted_depth = 32"
definition max_value_depth :: nat where "max_value_depth = 64"

fun bt_set :: "rstr \<Rightarrow> 'a \<Rightarrow> (rstr \<times> 'a) list \<Rightarrow> (rstr \<times> 'a) list" where
  "bt_set k v [] = [(k, v)]"
| "bt_set k v ((l, x) # es) =
     (if bytes_cmp k l = Less then (k, v) # (l, x) # es else if k = l then (k, v) # es else (l, x) # bt_set k v es)"

fun insert_path :: "(rstr \<times> node) list \<Rightarrow> rstr list \<Rightarrow> val \<Rightarrow> rstr \<Rightarrow> (rstr \<times> node) list res" where
  "insert_path tree [] v key = Crash"
| "insert_path tree [h] v key = (case map_of tree h of
     None \<Rightarrow> Ok (bt_set h (Leaf v) tree)
   | Some _ \<Rightarrow> Err (''nest_dotted_keys(): key '' @ tick key @ '' conflicts with an earlier sibling at segment '' @ tick h))"
| "insert_path tree (h # rest) v key = (case map_of tree h of
     Some (Leaf _) \<Rightarrow> Err (''nest_dotted_keys(): key '' @ tick key @ '' tries to nest under '' @ tick h
                         @ '' which is already a leaf value'')
   | Some (Branch sub) \<Rightarrow> bindR (insert_path sub rest v key) (\<lambda>s. Ok (bt_set h (Branch s) tree))
   | None \<Rightarrow> bindR (insert_path [] rest v key) (\<lambda>s. Ok (bt_set h (Branch s) tree)))"

fun materialise :: "node \<Rightarrow> val" where
  "materialise (Leaf v) = v"
| "materialise (Branch es) = VObject (map (\<lambda>(k, n). (k, materialise n)) es)"

text \<open>The entries of an object, each with its value already nested, into the tree.\<close>

fun nest_entries :: "(rstr \<times> node) list \<Rightarrow> (rstr \<times> val res) list \<Rightarrow> (rstr \<times> node) list res" where
  "nest_entries tree [] = Ok tree"
| "nest_entries tree ((key, r) # es) = (let segments = split_on (CHR ''.'') key in
     if [] \<in> set segments then Err (''nest_dotted_keys(): key '' @ tick key @ '' has an empty segment (leading/trailing/double dot)'')
     else if max_dotted_depth < length segments then
       Err (''nest_dotted_keys(): key '' @ tick key @ '' has '' @ show_nat (length segments) @ '' dotted segments, exceeds limit (''
         @ show_nat max_dotted_depth @ '')'')
     else bindR r (\<lambda>v. bindR (insert_path tree segments v key) (\<lambda>tree'. nest_entries tree' es)))"

definition depth_err :: "val res" where
  "depth_err = Err (''nest_dotted_keys(): value nesting exceeds depth limit ('' @ show_nat max_value_depth @ '')'')"

fun nest_inner :: "nat \<Rightarrow> val \<Rightarrow> val res" where
  "nest_inner depth (VObject es) =
     (if max_value_depth < depth then depth_err
      else bindR (nest_entries [] (map (\<lambda>(k, v). (k, nest_inner (depth + 1) v)) es)) (\<lambda>tree. Ok (materialise (Branch tree))))"
| "nest_inner depth (VArray items) =
     (if max_value_depth < depth then depth_err
      else bindR (collectR (map (nest_inner (depth + 1)) items)) (\<lambda>out. Ok (VArray out)))"
| "nest_inner depth v = (if max_value_depth < depth then depth_err else Ok v)"

subsection \<open>Conversions\<close>

text \<open>\<open>str::parse::<i64>\<close>\<close>

definition parse_i64 :: "string \<Rightarrow> int option" where
  "parse_i64 s = (case strip_sign s of (neg, ds) \<Rightarrow>
     (if ds \<noteq> [] \<and> list_all is_digit ds
      then checked_i64 (if neg then - int (digits_val ds) else int (digits_val ds)) else None))"

fun to_int :: "val \<Rightarrow> val res" where
  "to_int VNull = Ok VNull"
| "to_int (VBool b) = Ok (VInt (if b then 1 else 0))"
| "to_int (VInt n) = Ok (VInt n)"
| "to_int (VFloat f) = Ok (if f64_is_finite f then VInt (f64_to_i64 f) else VNull)"
| "to_int (VString s) = Ok (case parse_i64 (str_trim s) of Some i \<Rightarrow> VInt i | None \<Rightarrow> VNull)"
| "to_int (VBytes _) = Err ''to_int() does not accept bytes (use to_string() first)''"
| "to_int (VTimestamp t) = Ok (VInt (if in_i64 t then t else 0))"
| "to_int (VArray _) = Ok VNull"
| "to_int (VObject _) = Ok VNull"

fun has_bytes :: "val \<Rightarrow> bool" where
  "has_bytes (VBytes _) = True"
| "has_bytes (VArray a) = list_ex has_bytes a"
| "has_bytes (VObject es) = list_ex (\<lambda>(_, v). has_bytes v) es"
| "has_bytes _ = False"

definition to_json :: "json_codec \<Rightarrow> val \<Rightarrow> val res" where
  "to_json cx v =
     (if has_bytes v then Err ''to_json() does not accept bytes; convert explicitly via to_string()''
      else case serialize_value cx v of
        Ok j \<Rightarrow> (case jx_to_text cx j of Some t \<Rightarrow> Ok (VString t) | None \<Rightarrow> Err ''to_json(): '')
      | Err e \<Rightarrow> Err (''to_json(): '' @ e)
      | Crash \<Rightarrow> Crash)"

definition hex_digit :: "char \<Rightarrow> nat res" where
  "hex_digit c = (let b = of_char c in
     if 48 \<le> b \<and> b \<le> 57 then Ok (b - 48) else if 97 \<le> b \<and> b \<le> 102 then Ok (b - 97 + 10)
     else if 65 \<le> b \<and> b \<le> 70 then Ok (b - 65 + 10) else Err ''to_bytes(hex): invalid hex digit'')"

fun decode_hex :: "string \<Rightarrow> bytes res" where
  "decode_hex (a # b # s) = bindR (hex_digit a) (\<lambda>hi. bindR (hex_digit b) (\<lambda>lo.
     bindR (decode_hex s) (\<lambda>out. Ok (char_of (hi * 16 + lo) # out))))"
| "decode_hex [_] = Crash"
| "decode_hex [] = Ok []"

definition encode_hex :: "bytes \<Rightarrow> string" where
  "encode_hex buf = concat (map (\<lambda>c. [hex_char (of_char c div 16), hex_char (of_char c mod 16)]) buf)"

definition bytes_from :: "json_codec \<Rightarrow> rstr \<Rightarrow> rstr \<Rightarrow> bytes res" where
  "bytes_from cx s encoding =
     (if encoding = ''utf8'' then Ok s
      else if encoding = ''hex'' then (if odd (length s) then Err ''to_bytes(hex): input length must be even'' else decode_hex s)
      else if encoding = ''base64'' then
        (case jx_b64_decode cx s of Inl e \<Rightarrow> Err (''to_bytes(base64): '' @ e) | Inr b \<Rightarrow> Ok b)
      else Err (''to_bytes(): unknown encoding '' @ encoding @ '' (expected utf8, hex, or base64)''))"

definition text_from :: "json_codec \<Rightarrow> bytes \<Rightarrow> rstr \<Rightarrow> bool \<Rightarrow> rstr res" where
  "text_from cx buf encoding strict =
     (if encoding = ''utf8'' then
        (if strict then (if utf8_valid buf then Ok buf else Err ''to_string(utf8): '') else Ok (from_utf8_lossy buf))
      else if encoding = ''hex'' then Ok (encode_hex buf)
      else if encoding = ''base64'' then Ok (jx_b64_encode cx buf)
      else Err (''to_string(): unknown encoding '' @ encoding @ '' (expected utf8, hex, or base64)''))"

definition encoding_arg :: "string \<Rightarrow> val option \<Rightarrow> rstr res" where
  "encoding_arg fn a = (case a of
     None \<Rightarrow> Ok ''utf8'' | Some (VString e) \<Rightarrow> Ok e
   | Some v \<Rightarrow> Err (fn @ ''(): encoding must be a string, got '' @ type_name v))"

definition fn_to_bytes :: "json_codec \<Rightarrow> val list \<Rightarrow> val res" where
  "fn_to_bytes cx args = bindR (arg args 0) (\<lambda>v. (case v of
     VString s \<Rightarrow> bindR (encoding_arg ''to_bytes'' (nth_opt args 1)) (\<lambda>encoding.
       bindR (bytes_from cx s encoding) (\<lambda>b. Ok (VBytes b)))
   | _ \<Rightarrow> Err (''to_bytes(): first argument must be a string, got '' @ type_name v)))"

definition fn_to_string :: "json_codec \<Rightarrow> val list \<Rightarrow> val res" where
  "fn_to_string cx args = bindR (arg args 0) (\<lambda>v.
     bindR (case v of VBytes b \<Rightarrow> Ok b | VString s \<Rightarrow> Ok s
            | _ \<Rightarrow> Err (''to_string(): first argument must be bytes, got '' @ type_name v)) (\<lambda>buf.
     bindR (encoding_arg ''to_string'' (nth_opt args 1)) (\<lambda>encoding.
     bindR (case nth_opt args 2 of None \<Rightarrow> Ok True | Some (VBool b) \<Rightarrow> Ok b
            | Some x \<Rightarrow> Err (''to_string(): strict must be a bool, got '' @ type_name x)) (\<lambda>strict.
     bindR (text_from cx buf encoding strict) (\<lambda>s. Ok (VString s))))))"

end
