(* ===== verification/Parsers.thy ===== *)
theory Parsers
  imports Builtins
begin

section \<open>Parsing functions\<close>

text \<open>
  \<open>parse_json\<close>, \<open>parse_kv\<close>, \<open>csv_parse\<close> and the functions on regular expressions of \<open>functions/primitives/\<close>; \<open>functions/syslog/\<close>
  and \<open>functions/cef/\<close>. A loop over an index into the text is a recursion over the rest of the text.
\<close>

subsection \<open>JSON, CSV\<close>

definition parse_json_impl :: "(int \<Rightarrow> string) \<Rightarrow> json_codec \<Rightarrow> val list \<Rightarrow> val res" where
  "parse_json_impl rfc cx args = bindR (bindR (arg args 0) (val_to_str rfc)) (\<lambda>text. (case jx_of_text cx text of
     None \<Rightarrow> Err ''parse_json(): JSON parse error: ''
   | Some j \<Rightarrow> (case json_to_value_in cx j of
       Ok parsed \<Rightarrow> apply_defaults ''parse_json'' (nth_opt args 1)
         (case parsed of VObject _ \<Rightarrow> parsed | _ \<Rightarrow> VObject [(''_json'', parsed)])
     | Err e \<Rightarrow> Err (''parse_json(): '' @ e)
     | Crash \<Rightarrow> Crash)))"

definition csv_cell :: "rstr list \<Rightarrow> nat \<Rightarrow> val" where
  "csv_cell record i = (case nth_opt record i of Some s \<Rightarrow> if s = [] then VNull else VString s | None \<Rightarrow> VNull)"

definition csv_name :: "val \<Rightarrow> rstr" where
  "csv_name v = (case v of VString s \<Rightarrow> s | _ \<Rightarrow> [])"

definition csv_parse :: "(rstr \<Rightarrow> rstr list option) \<Rightarrow> val \<Rightarrow> val \<Rightarrow> val" where
  "csv_parse row text field_names = (case (text, field_names) of
     (VString t, VArray items) \<Rightarrow>
       (if items = [] then VObject []
        else case row t of
          None \<Rightarrow> VNull
        | Some record \<Rightarrow> VObject (map (\<lambda>(i, name). (name, csv_cell record i))
            (List.filter (\<lambda>(_, name). name \<noteq> []) (enumerate 0 (map csv_name items)))))
   | _ \<Rightarrow> VNull)"

subsection \<open>Key-value pairs\<close>

text \<open>The value between quotes: a backslash takes the next byte with it. The rest begins behind the closing quote.\<close>

fun kv_quoted :: "string \<Rightarrow> string \<times> string" where
  "kv_quoted [] = ([], [])"
| "kv_quoted (c # cs) =
     (if c = CHR 0x22 then ([], cs)
      else if c = CHR 0x5C then (case cs of
          [] \<Rightarrow> ([c], [])
        | d # ds \<Rightarrow> (case kv_quoted ds of (v, r) \<Rightarrow> (c # d # v, r)))
      else (case kv_quoted cs of (v, r) \<Rightarrow> (c # v, r)))"

lemma kv_quoted_length: "length (snd (kv_quoted s)) \<le> length s"
proof (induction s rule: kv_quoted.induct)
  case (2 c cs)
  consider "c = CHR 0x22" | "c = CHR 0x5C" "cs = []" | d ds where "c = CHR 0x5C" "cs = d # ds" | "c \<noteq> CHR 0x22" "c \<noteq> CHR 0x5C"
    by (cases cs) auto
  then show ?case
  proof cases
    case 3
    then have "length (snd (kv_quoted ds)) \<le> length ds" using 2(1) by simp
    then show ?thesis using 3 by (simp add: split_beta)
  next
    case 4
    then have "length (snd (kv_quoted cs)) \<le> length cs" using 2(2) by simp
    then show ?thesis using 4 by (simp add: split_beta)
  qed simp_all
qed simp

definition kv_value :: "char \<Rightarrow> string \<Rightarrow> string \<times> string" where
  "kv_value sep s = (if hd s = CHR 0x22 then kv_quoted (tl s) else (takeWhile (\<lambda>c. c \<noteq> sep) s, dropWhile (\<lambda>c. c \<noteq> sep) s))"

lemma kv_value_length: "s \<noteq> [] \<Longrightarrow> length (snd (kv_value sep s)) \<le> length s"
  using kv_quoted_length[of "tl s"] by (auto simp: kv_value_def length_dropWhile_le)

function kv_pairs :: "char \<Rightarrow> string \<Rightarrow> (string \<times> string) list" where
  "kv_pairs sep s = (let s1 = dropWhile (\<lambda>c. c = sep) s in
     if s1 = [] then []
     else let key = takeWhile (\<lambda>c. c \<noteq> CHR ''='' \<and> c \<noteq> sep) s1; s2 = drop (length key) s1 in
       if s2 = [] \<or> hd s2 \<noteq> CHR ''='' then (let s3 = dropWhile (\<lambda>c. c \<noteq> sep) s2 in if s3 = [] then [] else kv_pairs sep (tl s3))
       else if tl s2 = [] then [(key, [])]
       else (case kv_value sep (tl s2) of (v, s3) \<Rightarrow> (if key = [] then [] else [(key, v)]) @ kv_pairs sep s3))"
  by pat_completeness auto
termination
proof (relation "measure (\<lambda>(_, s). length s)", goal_cases)
  case (2 sep s s1 key s2 s3)
  have "length s3 \<le> length s2" "length s1 \<le> length s" unfolding 2(1,6) by (rule length_dropWhile_le)+
  moreover have "length s2 \<le> length s1" unfolding 2(4) by simp
  ultimately show ?case using 2(7) by (cases s3) auto
next
  case (3 sep s s1 key s2 v s3)
  then have "length s3 \<le> length (tl s2)" using kv_value_length[of "tl s2" sep] by (metis snd_conv)
  moreover have "length s1 \<le> length s" unfolding 3(1) by (rule length_dropWhile_le)
  moreover have "length s2 \<le> length s1" unfolding 3(4) by simp
  ultimately show ?case using 3(5) by (cases s2) auto
qed simp

declare kv_pairs.simps [simp del]

definition separator_byte :: "rstr \<Rightarrow> char res" where
  "separator_byte s = (case s of
     [c] \<Rightarrow> if (of_char c :: nat) < 128 then Ok c else Err ''parse_kv(): separator must be a single ASCII byte''
   | _ \<Rightarrow> Err ''parse_kv(): separator must be a single ASCII byte'')"

definition parse_kv_impl :: "(int \<Rightarrow> string) \<Rightarrow> val list \<Rightarrow> val res" where
  "parse_kv_impl rfc args = bindR (bindR (arg args 0) (val_to_str rfc)) (\<lambda>text.
     bindR (case nth_opt args 1 of
         None \<Rightarrow> Ok (CHR '' '', None)
       | Some v \<Rightarrow> (case (v, nth_opt args 2) of
           (VString s, d) \<Rightarrow> bindR (separator_byte s) (\<lambda>c. Ok (c, d))
         | (VObject _, None) \<Rightarrow> Ok (CHR '' '', Some v)
         | (VNull, None) \<Rightarrow> Ok (CHR '' '', Some v)
         | _ \<Rightarrow> Err (''parse_kv(): second argument must be a separator string or a hash literal, got '' @ type_name v)))
       (\<lambda>(sep, defaults).
         (let parsed = VObject (map (\<lambda>(k, v). (k, VString v)) (kv_pairs sep text)) in
          case defaults of
            None \<Rightarrow> Ok parsed
          | Some d \<Rightarrow> (if d = VNull \<or> (\<exists>es. d = VObject es) then apply_defaults ''parse_kv'' (Some d) parsed
                       else Err (''parse_kv(): defaults argument must be a hash literal, got '' @ type_name d)))))"

subsection \<open>Regular expressions\<close>

definition compiled :: "('w, 'x) libs_scheme \<Rightarrow> rstr \<Rightarrow> val res \<Rightarrow> val res" where
  "compiled lib pattern k = (case lb_rx_error lib pattern of Some e \<Rightarrow> Err (''invalid regex: '' @ e) | None \<Rightarrow> k)"

definition regex_match :: "('w, 'x) libs_scheme \<Rightarrow> rstr \<Rightarrow> rstr \<Rightarrow> val res" where
  "regex_match lib target pattern = compiled lib pattern (Ok (VBool (lb_rx_match lib pattern target)))"

definition regex_extract :: "('w, 'x) libs_scheme \<Rightarrow> rstr \<Rightarrow> rstr \<Rightarrow> val res" where
  "regex_extract lib target pattern = compiled lib pattern (Ok (case lb_rx_groups lib pattern target of
     None \<Rightarrow> VNull
   | Some groups \<Rightarrow> (case nth_opt groups 1 of Some (Some m) \<Rightarrow> VString m
       | _ \<Rightarrow> (case nth_opt groups 0 of Some (Some m) \<Rightarrow> VString m | _ \<Rightarrow> VNull))))"

definition regex_replace :: "('w, 'x) libs_scheme \<Rightarrow> rstr \<Rightarrow> rstr \<Rightarrow> rstr \<Rightarrow> val res" where
  "regex_replace lib target pattern replacement = compiled lib pattern (Ok (VString (lb_rx_replace lib pattern target replacement)))"

text \<open>\<open>str::replace\<close> for patterns that are not empty, and \<open>byte as char\<close> pushed to a string.\<close>

definition dot_marker :: string where "dot_marker = ''__DOT__''"

function str_replace :: "string \<Rightarrow> string \<Rightarrow> string \<Rightarrow> string" where
  "str_replace pat with s =
     (if s = [] \<or> pat = [] then s
      else if take (length pat) s = pat then with @ str_replace pat with (drop (length pat) s)
      else hd s # str_replace pat with (tl s))"
  by pat_completeness auto
termination
  by (relation "measure (\<lambda>(_, _, s). length s)") auto

declare str_replace.simps [simp del]

definition push_byte :: "char \<Rightarrow> string" where
  "push_byte c = (let b = of_char c :: nat in if b < 128 then [c] else [char_of (192 + b div 64), char_of (128 + b mod 64)])"

definition starts_with :: "string \<Rightarrow> string \<Rightarrow> bool" where
  "starts_with pre s \<longleftrightarrow> take (length pre) s = pre"

function mangle_pattern :: "rstr \<Rightarrow> rstr" where
  "mangle_pattern s =
     (if s = [] then []
      else let n = (if starts_with ''(?P<'' s then 4 else if starts_with ''(?<'' s then 3 else 0) in
        if n = 0 then push_byte (hd s) @ mangle_pattern (tl s)
        else (let name = takeWhile (\<lambda>c. c \<noteq> CHR ''>'') (drop n s) in
          take n s @ str_replace ''.'' dot_marker name @ mangle_pattern (drop (n + length name) s)))"
  by pat_completeness auto
termination
  by (relation "measure length") (auto split: if_splits)

declare mangle_pattern.simps [simp del]

definition demangle :: "rstr \<Rightarrow> rstr" where
  "demangle s = str_replace dot_marker ''.'' s"

text \<open>The tree of the captures: the children of a node in the order of their insertion.\<close>

datatype capture_tree = CNode (cn_leaf: "rstr option") (cn_children: "(rstr \<times> capture_tree) list")

fun insert_capture :: "capture_tree \<Rightarrow> rstr list \<Rightarrow> rstr \<Rightarrow> capture_tree" where
  "insert_capture (CNode l cs) [] v = CNode l cs"
| "insert_capture (CNode l cs) [part] v =
     (if map_of cs part \<noteq> None then CNode l cs else CNode l (cs @ [(part, CNode (Some v) [])]))"
| "insert_capture (CNode l cs) (part # parts) v =
     (case map_of cs part of
        Some sub \<Rightarrow> CNode l (al_set part (insert_capture sub parts v) cs)
      | None \<Rightarrow> CNode l (cs @ [(part, insert_capture (CNode None []) parts v)]))"

fun capture_value :: "capture_tree \<Rightarrow> val" where
  "capture_value (CNode l cs) =
     VObject (map (\<lambda>(k, c). (k, case cn_leaf c of Some s \<Rightarrow> VString s | None \<Rightarrow> capture_value c)) cs)"

definition regex_parse :: "('w, 'x) libs_scheme \<Rightarrow> rstr \<Rightarrow> rstr \<Rightarrow> val res" where
  "regex_parse lib target pattern =
     (let mangled = mangle_pattern pattern in
      compiled lib mangled (Ok (if lb_rx_names lib mangled = [] then VObject []
        else case lb_rx_named lib mangled target of
          None \<Rightarrow> VNull
        | Some capture \<Rightarrow> capture_value (foldl (\<lambda>root name. case capture name of
            Some m \<Rightarrow> insert_capture root (split_on (CHR ''.'') (demangle name)) m | None \<Rightarrow> root)
            (CNode None []) (lb_rx_names lib mangled)))))"

subsection \<open>The priority header\<close>

definition parse_leading_pri :: "rstr \<Rightarrow> (nat \<times> nat) option" where
  "parse_leading_pri s =
     (if s = [] \<or> hd s \<noteq> CHR ''<'' then None
      else let front = take 6 s; gt = length (takeWhile (\<lambda>c. c \<noteq> CHR ''>'') front) in
        if gt = length front \<or> gt < 2 then None
        else let digits = tl (take gt s); n = digits_val digits in
          if \<not> list_all is_digit digits \<or> 191 < n then None else Some (n, gt + 1))"

definition strip_pri :: "rstr \<Rightarrow> rstr" where
  "strip_pri s = (case parse_leading_pri s of Some (_, body) \<Rightarrow> drop body s | None \<Rightarrow> s)"

definition extract_pri :: "rstr \<Rightarrow> val" where
  "extract_pri s = (case parse_leading_pri s of Some (n, _) \<Rightarrow> VInt (int n) | None \<Rightarrow> VNull)"

definition arg_as_u8 :: "val \<Rightarrow> string \<Rightarrow> nat \<Rightarrow> nat res" where
  "arg_as_u8 v name mx = bindR (case v of
      VInt n \<Rightarrow> if 0 \<le> n then Ok (nat n) else Err (''syslog.set_pri(): '' @ name @ '' must be a non-negative integer'')
    | VFloat f \<Rightarrow> if f64_is_finite f \<and> f64_ge f f64_zero \<and> f64_fract_zero f then Ok (f64_to_u64 f)
                 else Err (''syslog.set_pri(): '' @ name @ '' must be a non-negative integer'')
    | _ \<Rightarrow> Err (''syslog.set_pri(): '' @ name @ '' must be a non-negative integer''))
   (\<lambda>n. if mx < n then Err (''syslog.set_pri(): '' @ name @ '' must be 0-'' @ show_nat mx @ '', got '' @ show_nat n) else Ok n)"

definition set_pri_impl :: "(int \<Rightarrow> string) \<Rightarrow> val list \<Rightarrow> val res" where
  "set_pri_impl rfc args = bindR (bindR (arg args 0) (val_to_str rfc)) (\<lambda>text.
     bindR (bindR (arg args 1) (\<lambda>v. arg_as_u8 v ''facility'' 23)) (\<lambda>facility.
     bindR (bindR (arg args 2) (\<lambda>v. arg_as_u8 v ''severity'' 7)) (\<lambda>severity.
       Ok (VString (''<'' @ nat_digits (facility * 8 + severity) @ ''>'' @ strip_pri text)))))"

end
