(* ===== verification/EventFormats.thy ===== *)
theory EventFormats
  imports Parsers
begin

section \<open>Syslog and CEF messages\<close>

text \<open>\<open>syslog.parse\<close> (\<open>functions/syslog/parse.rs\<close>) and \<open>cef.parse\<close> (\<open>functions/cef/parse.rs\<close>).\<close>

subsection \<open>Pieces of text\<close>

text \<open>\<open>splitn\<close> at a character, and the bytes from one offset to another.\<close>

fun splitn :: "nat \<Rightarrow> char \<Rightarrow> string \<Rightarrow> string list" where
  "splitn 0 sep s = []"
| "splitn (Suc 0) sep s = [s]"
| "splitn (Suc n) sep s = (case split_once sep s of None \<Rightarrow> [s] | Some (a, b) \<Rightarrow> a # splitn n sep b)"

definition substr :: "nat \<Rightarrow> nat \<Rightarrow> string \<Rightarrow> string" where
  "substr a b s = take (b - a) (drop a s)"

definition part_or :: "string \<Rightarrow> nat \<Rightarrow> string list \<Rightarrow> string" where
  "part_or d i ps = (case nth_opt ps i of Some p \<Rightarrow> p | None \<Rightarrow> d)"

definition set_field :: "rstr \<Rightarrow> string \<Rightarrow> obj" where
  "set_field key v = (if v \<noteq> ''-'' \<and> v \<noteq> [] then [(key, VString v)] else [])"

definition next_token :: "string \<Rightarrow> string \<times> string" where
  "next_token input = (let s = trim_start input in case split_once (CHR '' '') s of Some r \<Rightarrow> r | None \<Rightarrow> (s, []))"

subsection \<open>RFC 5424\<close>

text \<open>An element up to its closing bracket, a backslash taking the next byte with it; then the blanks behind it.\<close>

fun skip_element :: "string \<Rightarrow> string" where
  "skip_element [] = []"
| "skip_element (c # cs) =
     (if c = CHR 0x5C \<and> cs \<noteq> [] then skip_element (tl cs) else if c = CHR '']'' then cs else skip_element cs)"

lemma skip_element_length: "length (skip_element s) \<le> length s"
  by (induction s rule: skip_element.induct) (auto intro: le_SucI simp: le_diff_conv)

function skip_elements :: "string \<Rightarrow> string" where
  "skip_elements s = (if s = [] \<or> hd s \<noteq> CHR ''['' then s
     else skip_elements (dropWhile (\<lambda>c. c = CHR '' '') (skip_element (tl s))))"
  by pat_completeness auto
termination
proof (relation "measure length"; simp)
  fix s :: string assume "s \<noteq> [] \<and> hd s = CHR ''[''"
  then show "length (dropWhile (\<lambda>c. c = CHR '' '') (skip_element (tl s))) < length s"
    using length_dropWhile_le[of "\<lambda>c. c = CHR '' ''" "skip_element (tl s)"] skip_element_length[of "tl s"] by (cases s) auto
qed

declare skip_elements.simps [simp del]

definition skip_structured_data :: "string \<Rightarrow> string" where
  "skip_structured_data input = (let s = trim_start input in
     if s \<noteq> [] \<and> hd s = CHR ''['' then skip_elements s
     else if s \<noteq> [] \<and> hd s = CHR ''-'' then trim_start (tl s) else s)"

definition parse_rfc5424 :: "string \<Rightarrow> obj" where
  "parse_rfc5424 input = (let ps = splitn 7 (CHR '' '') input; msg = skip_structured_data (part_or [] 6 ps) in
     set_field ''timestamp'' (part_or ''-'' 1 ps) @ set_field ''hostname'' (part_or ''-'' 2 ps)
     @ set_field ''appname'' (part_or ''-'' 3 ps) @ set_field ''procid'' (part_or ''-'' 4 ps)
     @ set_field ''msgid'' (part_or ''-'' 5 ps) @ (if msg \<noteq> [] then [(''msg'', VString msg)] else []))"

subsection \<open>RFC 3164\<close>

text \<open>
  \<open>rfc3164_timestamp_end\<close>, byte by byte: only the first byte of a character decides, and it is no blank in the
  encodings of more than one byte.
\<close>

fun timestamp_end :: "nat \<Rightarrow> nat \<Rightarrow> nat \<Rightarrow> string \<Rightarrow> nat option" where
  "timestamp_end field month_spaces offset [] = None"
| "timestamp_end field month_spaces offset (c # cs) =
     (let sp = (c = CHR '' '') in
      if \<not> sp \<and> matching ws_encodings (c # cs) \<noteq> None then None
      else if field = 0 then
        (if sp then (if offset = 0 then None else timestamp_end 1 1 (offset + 1) cs) else timestamp_end 0 month_spaces (offset + 1) cs)
      else if field = 1 then
        (if sp then (if 2 < month_spaces + 1 then None else timestamp_end 1 (month_spaces + 1) (offset + 1) cs)
         else timestamp_end 2 month_spaces (offset + 1) cs)
      else if field = 2 then timestamp_end (if sp then 3 else 2) month_spaces (offset + 1) cs
      else if field = 3 then (if sp then None else timestamp_end 4 month_spaces (offset + 1) cs)
      else if sp then Some (offset + 1) else timestamp_end 4 month_spaces (offset + 1) cs)"

definition is_alnum :: "char \<Rightarrow> bool" where
  "is_alnum c \<longleftrightarrow> is_digit c \<or> (let b = of_char (to_ascii_lower c) :: nat in 97 \<le> b \<and> b \<le> 122)"

definition tag_max :: nat where "tag_max = 32"

definition parse_tag_and_msg :: "string \<Rightarrow> string \<times> string option \<times> string" where
  "parse_tag_and_msg input = (let s = trim_start input; tag = takeWhile is_alnum (take tag_max s); after_tag = drop (length tag) s in
     if tag = [] then ([], None, s)
     else case (if after_tag \<noteq> [] \<and> hd after_tag = CHR ''[''
                then map_option (\<lambda>(p, r). (Some p, r)) (split_once (CHR '']'') (tl after_tag)) else Some (None, after_tag)) of
       None \<Rightarrow> ([], None, s)
     | Some (procid, after_pid) \<Rightarrow>
        (if starts_with '': '' after_pid then (tag, procid, drop 2 after_pid)
         else if after_pid = '':'' then (tag, procid, []) else ([], None, s)))"

definition parse_rfc3164 :: "string \<Rightarrow> obj" where
  "parse_rfc3164 input =
     (let (timestamp, rest) = (case timestamp_end 0 0 0 input of
            Some idx \<Rightarrow> (str_trim (take idx input), drop idx input) | None \<Rightarrow> ([], input));
          (hostname, after_host) = next_token rest; (appname, procid, msg) = parse_tag_and_msg after_host
      in set_field ''timestamp'' timestamp @ set_field ''hostname'' hostname @ set_field ''appname'' appname
         @ (case procid of Some pid \<Rightarrow> set_field ''procid'' pid | None \<Rightarrow> [])
         @ (if msg \<noteq> [] then [(''msg'', VString msg)] else []))"

definition syslog_parse :: "(int \<Rightarrow> string) \<Rightarrow> val list \<Rightarrow> val res" where
  "syslog_parse rfc args = bindR (bindR (arg args 0) (val_to_str rfc)) (\<lambda>text. (case parse_leading_pri text of
     None \<Rightarrow> Err ''syslog.parse(): no PRI header''
   | Some (pri, body) \<Rightarrow> (let after_pri = drop body text in
       apply_defaults ''syslog.parse'' (nth_opt args 1) (VObject
         ([(''pri'', VInt (int pri)), (''facility'', VInt (int (pri div 8))), (''severity'', VInt (int (pri mod 8)))]
          @ (if 2 \<le> length after_pri \<and> is_digit (after_pri ! 0) \<and> after_pri ! 1 = CHR '' ''
             then parse_rfc5424 after_pri else parse_rfc3164 after_pri))))))"

subsection \<open>CEF\<close>

fun split_unescaped_pipe :: "string \<Rightarrow> (string \<times> string) option" where
  "split_unescaped_pipe [] = None"
| "split_unescaped_pipe (c # cs) =
     (if c = CHR 0x5C \<and> cs \<noteq> [] then map_option (\<lambda>(a, b). (c # hd cs # a, b)) (split_unescaped_pipe (tl cs))
      else if c = CHR ''|'' then Some ([], cs)
      else map_option (\<lambda>(a, b). (c # a, b)) (split_unescaped_pipe cs))"

fun unescape_header :: "string \<Rightarrow> string" where
  "unescape_header [] = []"
| "unescape_header (c # cs) =
     (if c = CHR 0x5C then (case cs of
          [] \<Rightarrow> [c]
        | d # ds \<Rightarrow> (if d = CHR ''|'' \<or> d = CHR 0x5C then d # unescape_header ds else c # d # unescape_header ds))
      else c # unescape_header cs)"

fun header_fields :: "nat \<Rightarrow> string \<Rightarrow> (string list \<times> string) option" where
  "header_fields 0 s = Some ([], s)"
| "header_fields (Suc n) s = (case split_unescaped_pipe s of
     None \<Rightarrow> None
   | Some (field, rest) \<Rightarrow> map_option (\<lambda>(fs, r). (field # fs, r)) (header_fields n rest))"

definition is_key_char :: "char \<Rightarrow> bool" where
  "is_key_char c \<longleftrightarrow> is_alnum c \<or> c = CHR ''_''"

definition key_follows :: "string \<Rightarrow> bool" where
  "key_follows s \<longleftrightarrow> (let r = dropWhile is_key_char s in r \<noteq> [] \<and> hd r = CHR ''='' \<and> r \<noteq> s)"

text \<open>The value of a key ends before a blank that a next key follows.\<close>

fun value_end :: "nat \<Rightarrow> string \<Rightarrow> nat \<times> string" where
  "value_end i [] = (i, [])"
| "value_end i (c # cs) = (if c = CHR '' '' \<and> key_follows cs then (i, c # cs) else value_end (i + 1) cs)"

lemma value_end_length: "length (snd (value_end i s)) \<le> length s"
  by (induction i s rule: value_end.induct) auto

function key_positions :: "nat \<Rightarrow> string \<Rightarrow> (string \<times> nat) list" where
  "key_positions i s = (if s = [] then []
     else let key = takeWhile is_key_char s; r = drop (length key) s; k = i + length key in
       if r \<noteq> [] \<and> hd r = CHR ''='' \<and> key \<noteq> [] then (case value_end (k + 1) (tl r) of (j, r') \<Rightarrow> (key, k + 1) # key_positions j r')
       else key_positions (k + 1) (tl r))"
  by pat_completeness auto
termination
proof (relation "measure (\<lambda>(_, s). length s)", goal_cases)
  case (2 i s key r k j r')
  then have "length r' \<le> length (tl r)" using value_end_length[of "k + 1" "tl r"] by (metis snd_conv)
  moreover have "length r \<le> length s" unfolding 2(3) by simp
  ultimately show ?case using 2(5) by (cases r) auto
next
  case (3 i s key r k)
  then show ?case by (cases s) auto
qed simp

declare key_positions.simps [simp del]

fun extension_values :: "string \<Rightarrow> (string \<times> nat) list \<Rightarrow> obj" where
  "extension_values ext [] = []"
| "extension_values ext [(k, v)] = [(k, VString (str_trim (substr v (length ext) ext)))]"
| "extension_values ext ((k, v) # (l, w) # ps) =
     (k, VString (str_trim (substr v (max (w - (length l + 2)) v) ext))) # extension_values ext ((l, w) # ps)"

definition parse_cef_extensions :: "string \<Rightarrow> obj" where
  "parse_cef_extensions ext = extension_values ext (key_positions 0 ext)"

definition cef_names :: "rstr list" where
  "cef_names = [''version'', ''device_vendor'', ''device_product'', ''device_version'', ''signature_id'', ''name'']"

definition severity_value :: "string \<Rightarrow> val" where
  "severity_value s = (case parse_i64 s of Some n \<Rightarrow> VInt n | None \<Rightarrow> VString s)"

definition cef_parse :: "(int \<Rightarrow> string) \<Rightarrow> val list \<Rightarrow> val res" where
  "cef_parse rfc args = bindR (bindR (arg args 0) (val_to_str rfc)) (\<lambda>text.
     if \<not> starts_with ''CEF:'' text then Err ''cef.parse(): input does not start with `CEF:`''
     else case header_fields 7 (drop 4 text) of
       None \<Rightarrow> Err ''cef.parse(): incomplete CEF header''
     | Some (parts, ext) \<Rightarrow> apply_defaults ''cef.parse'' (nth_opt args 1) (VObject
         (zip cef_names (map (\<lambda>p. VString (unescape_header p)) parts)
          @ [(''severity'', severity_value (unescape_header (last parts)))]
          @ (if ext \<noteq> [] then [(''extension_raw'', VString ext), (''extension'', VObject (parse_cef_extensions ext))] else []))))"

end
