(* ===== verification/FieldTypes.thy ===== *)
theory FieldTypes
  imports Eval
begin

section \<open>Types of the analyzer\<close>

text \<open>\<open>dsl/field_schema.rs\<close>. The type \<open>field_type\<close> itself belongs to the signatures of the registry (\<open>Eval\<close>).\<close>

fun ty_is_numeric :: "field_type \<Rightarrow> bool" where
  "ty_is_numeric TInt = True"
| "ty_is_numeric TFloat = True"
| "ty_is_numeric TAny = True"
| "ty_is_numeric (TUnion ms) = list_all ty_is_numeric ms"
| "ty_is_numeric _ = False"

fun ty_is_string :: "field_type \<Rightarrow> bool" where
  "ty_is_string TString = True"
| "ty_is_string TAny = True"
| "ty_is_string (TUnion ms) = list_all ty_is_string ms"
| "ty_is_string _ = False"

fun ty_members :: "field_type \<Rightarrow> field_type list" where
  "ty_members (TUnion ms) = ms"
| "ty_members t = [t]"

definition push_member :: "field_type list \<Rightarrow> field_type \<Rightarrow> field_type list" where
  "push_member ms m = (if m \<in> set ms then ms else ms @ [m])"

definition ty_union :: "field_type \<Rightarrow> field_type \<Rightarrow> field_type" where
  "ty_union a b =
     (if a = b then a else if a = TAny \<or> b = TAny then TAny
      else let ms = foldl push_member [] (ty_members a @ ty_members b) in if length ms = 1 then hd ms else TUnion ms)"

fun ty_display :: "field_type \<Rightarrow> string" where
  "ty_display TString = ''String''"
| "ty_display TInt = ''Int''"
| "ty_display TFloat = ''Float''"
| "ty_display TBool = ''Bool''"
| "ty_display TTimestamp = ''Timestamp''"
| "ty_display TNull = ''Null''"
| "ty_display TObject = ''Object''"
| "ty_display TArray = ''Array''"
| "ty_display TBytes = ''Bytes''"
| "ty_display TAny = ''Any''"
| "ty_display (TUnion ms) = ''Union('' @ join '' | '' (map ty_display ms) @ '')''"

lemma ty_member_size: "m \<in> set ms \<Longrightarrow> size m < Suc (size_list size ms)"
  using size_list_estimation'[of m ms "size m" size] by simp

function type_compatible :: "field_type \<Rightarrow> field_type \<Rightarrow> bool" where
  "type_compatible expected actual =
     (if expected = actual \<or> expected = TAny \<or> actual = TAny then True
      else case (expected, actual) of
        (TInt, TFloat) \<Rightarrow> True
      | (TFloat, TInt) \<Rightarrow> True
      | (_, TUnion ms) \<Rightarrow> list_all (\<lambda>m. type_compatible expected m) ms
      | (TUnion ms, _) \<Rightarrow> list_ex (\<lambda>m. type_compatible m actual) ms
      | _ \<Rightarrow> False)"
  by pat_completeness auto
termination
  by (relation "measure (\<lambda>(e, a). size e + size a)") (auto dest: ty_member_size)

declare type_compatible.simps [simp del]

subsection \<open>The type of a value\<close>

fun ty_of :: "val \<Rightarrow> field_type" where
  "ty_of VNull = TNull"
| "ty_of (VBool _) = TBool"
| "ty_of (VInt _) = TInt"
| "ty_of (VFloat _) = TFloat"
| "ty_of (VString _) = TString"
| "ty_of (VBytes _) = TBytes"
| "ty_of (VTimestamp _) = TTimestamp"
| "ty_of (VArray _) = TArray"
| "ty_of (VObject _) = TObject"

text \<open>A type as the set of the types its values have.\<close>

fun ty_has :: "field_type \<Rightarrow> field_type \<Rightarrow> bool" where
  "ty_has TAny b = True"
| "ty_has (TUnion ms) b = list_ex (\<lambda>m. ty_has m b) ms"
| "ty_has t b = (t = b)"

definition has_ty :: "val \<Rightarrow> field_type \<Rightarrow> bool" where
  "has_ty v t \<longleftrightarrow> ty_has t (ty_of v)"

lemma ty_has_members: "t \<noteq> TAny \<Longrightarrow> ty_has t b = list_ex (\<lambda>m. ty_has m b) (ty_members t)"
  by (cases t) auto

lemma set_push_members: "set (foldl push_member ms ts) = set ms \<union> set ts"
  by (induction ts arbitrary: ms) (auto simp: push_member_def)

lemma ty_has_union [simp]: "ty_has (ty_union a b) t = (ty_has a t \<or> ty_has b t)"
proof (cases "a = b \<or> a = TAny \<or> b = TAny")
  case False
  define ms where "ms = foldl push_member [] (ty_members a @ ty_members b)"
  have "ty_has a t \<or> ty_has b t \<longleftrightarrow> list_ex (\<lambda>m. ty_has m t) ms"
    using False ty_has_members[of a t] ty_has_members[of b t]
    by (auto simp: ms_def list_ex_iff set_push_members)
  moreover have "ty_has (ty_union a b) t \<longleftrightarrow> list_ex (\<lambda>m. ty_has m t) ms"
  proof -
    have "ty_union a b = (if length ms = 1 then hd ms else TUnion ms)"
      using False by (simp add: ty_union_def ms_def Let_def)
    then show ?thesis by (auto simp: length_Suc_conv)
  qed
  ultimately show ?thesis by simp
qed (auto simp: ty_union_def)

lemma has_ty_union [simp]: "has_ty v (ty_union a b) = (has_ty v a \<or> has_ty v b)"
  by (simp add: has_ty_def)

lemma has_ty_simps [simp]:
  "has_ty v TAny" "has_ty VNull TNull" "has_ty (VBool b) TBool" "has_ty (VInt n) TInt" "has_ty (VFloat f) TFloat"
  "has_ty (VString s) TString" "has_ty (VBytes bs) TBytes" "has_ty (VTimestamp i) TTimestamp" "has_ty (VArray a) TArray"
  "has_ty (VObject es) TObject" "has_ty v (TUnion ts) = list_ex (has_ty v) ts"
  by (auto simp: has_ty_def list_ex_iff)

lemma has_ty_iff:
  "has_ty v TNull \<longleftrightarrow> v = VNull" "has_ty v TBool \<longleftrightarrow> (\<exists>b. v = VBool b)" "has_ty v TInt \<longleftrightarrow> (\<exists>n. v = VInt n)"
  "has_ty v TFloat \<longleftrightarrow> (\<exists>f. v = VFloat f)" "has_ty v TString \<longleftrightarrow> (\<exists>s. v = VString s)" "has_ty v TBytes \<longleftrightarrow> (\<exists>b. v = VBytes b)"
  "has_ty v TTimestamp \<longleftrightarrow> (\<exists>t. v = VTimestamp t)" "has_ty v TArray \<longleftrightarrow> (\<exists>a. v = VArray a)" "has_ty v TObject \<longleftrightarrow> (\<exists>es. v = VObject es)"
  by (cases v; simp add: has_ty_def)+

end
