(* ===== verification/Functions.thy ===== *)
theory Functions
  imports EventFormats FieldTypes
begin

section \<open>The table of built-in functions\<close>

text \<open>
  \<open>register\<close> of the files under \<open>functions/\<close> as a list of entries, in the order of \<open>primitives::register\<close>, with the signatures
  that the arity check and the analyzer read. Functions on times and \<open>otlp.*\<close> are not modelled; \<open>others\<close> stands for them.
  The store of the tables and the clock they read are a part of the world, which \<open>lb_tables\<close> and \<open>lb_put_tables\<close> read and write.
\<close>

type_synonym 'w entry = "fn_key \<times> function_sig \<times> 'w builtin"

definition block_collection_type :: field_type where
  "block_collection_type = TUnion [TArray, TObject, TNull]"

definition or_null_ty :: "field_type \<Rightarrow> field_type" where
  "or_null_ty t = TUnion [t, TNull]"

definition stub :: "string \<Rightarrow> 'w builtin" where
  "stub msg = pure_fn (\<lambda>_. Err msg)"

definition array_entries :: "'w entry list" where
  "array_entries =
    [((None, ''append''), sig_fixed [TArray, TAny] (or_null_ty TArray), on2 (\<lambda>a v. Ok (push_back a v))),
     ((None, ''coalesce''), sig_variadic TAny 1 TAny, pure_fn (\<lambda>args. Ok (coalesce args))),
     ((None, ''concat''), sig_variadic TArray 1 TArray, pure_fn (\<lambda>args. bindR (join_arrays args) (\<lambda>out. Ok (VArray out)))),
     ((None, ''distinct''), sig_fixed [TArray] TArray, on1 (\<lambda>v. Ok (dedup v))),
     ((None, ''entitle''), sig_fixed [TArray, TArray] TObject, on2 entitle),
     ((None, ''filter''), sig_fixed [block_collection_type] (TUnion [TArray, TObject]), stub ''filter() requires a block argument''),
     ((None, ''find''), sig_fixed [block_collection_type] TAny, stub ''find() requires a block argument''),
     ((None, ''first''), sig_fixed [TAny] TAny, on1 (\<lambda>v. Ok (head_of v))),
     ((None, ''is_array''), sig_fixed [TAny] TBool, on1 (\<lambda>v. Ok (VBool (\<exists>a. v = VArray a)))),
     ((None, ''last''), sig_fixed [TAny] TAny, on1 (\<lambda>v. Ok (tail_of v))),
     ((None, ''map''), sig_fixed [block_collection_type] TArray, stub ''map() requires a block argument''),
     ((None, ''max''), sig_fixed [TArray] TAny, on1 (pick True)),
     ((None, ''min''), sig_fixed [TArray] TAny, on1 (pick False)),
     ((None, ''path''), sig_variadic TAny 2 TAny, pure_fn fn_path),
     ((None, ''reduce''), sig_fixed [block_collection_type, TAny] TAny, stub ''reduce() requires a block argument''),
     ((None, ''sum''), sig_fixed [TArray] TAny, on1 sum_val),
     ((None, ''len''), sig_fixed [TAny] (or_null_ty TInt), on1 (\<lambda>v. Ok (measure_val v))),
     ((None, ''nest_dotted_keys''), sig_fixed [TAny] TAny, on1 (nest_inner 0)),
     ((None, ''null_omit''), sig_fixed [TAny] TAny, on1 (\<lambda>v. Ok (null_omit v))),
     ((None, ''prepend''), sig_fixed [TArray, TAny] (or_null_ty TArray), on2 (\<lambda>a v. Ok (push_front a v)))]"

fun ends_with :: "string \<Rightarrow> string \<Rightarrow> bool" where
  "ends_with post s = starts_with (rev post) (rev s)"

fun contains_str :: "string \<Rightarrow> string \<Rightarrow> bool" where
  "contains_str n [] = (n = [])"
| "contains_str n (c # cs) = (starts_with n (c # cs) \<or> contains_str n cs)"

definition pred_fn :: "(int \<Rightarrow> string) \<Rightarrow> (string \<Rightarrow> string \<Rightarrow> bool) \<Rightarrow> 'w builtin" where
  "pred_fn rfc p = text_fn rfc 2 (\<lambda>ts. Ok (VBool (p (ts ! 0) (ts ! 1))))"

definition hash_entry :: "('w, 'x) libs_scheme \<Rightarrow> string \<Rightarrow> 'w entry" where
  "hash_entry lib name = ((None, name), sig_fixed [TString] TString,
     text_fn (lb_rfc3339 lib) 1 (\<lambda>ts. Ok (VString (lb_digest lib name (hd ts)))))"

definition text_entries :: "('w, 'x) libs_scheme \<Rightarrow> 'w entry list" where
  "text_entries lib = (let rfc = lb_rfc3339 lib; cx = lb_codec lib in
    [((None, ''lower''), sig_fixed [TString] TString, text_fn rfc 1 (\<lambda>ts. Ok (VString (lb_lower lib (hd ts))))),
     ((None, ''upper''), sig_fixed [TString] TString, text_fn rfc 1 (\<lambda>ts. Ok (VString (lb_upper lib (hd ts))))),
     ((None, ''regex_match''), sig_fixed [TString, TString] TBool, text_fn rfc 2 (\<lambda>ts. regex_match lib (ts ! 0) (ts ! 1))),
     ((None, ''regex_extract''), sig_fixed [TString, TString] (or_null_ty TString), text_fn rfc 2 (\<lambda>ts. regex_extract lib (ts ! 0) (ts ! 1))),
     ((None, ''regex_parse''), sig_fixed [TString, TString] TAny, text_fn rfc 2 (\<lambda>ts. regex_parse lib (ts ! 0) (ts ! 1))),
     ((None, ''regex_replace''), sig_fixed [TString, TString, TString] TString,
        text_fn rfc 3 (\<lambda>ts. regex_replace lib (ts ! 0) (ts ! 1) (ts ! 2))),
     ((None, ''contains''), sig_fixed [TString, TString] TBool, pred_fn rfc (\<lambda>h n. contains_str n h)),
     ((None, ''starts_with''), sig_fixed [TString, TString] TBool, pred_fn rfc (\<lambda>h n. starts_with n h)),
     ((None, ''ends_with''), sig_fixed [TString, TString] TBool, pred_fn rfc (\<lambda>h n. ends_with n h)),
     ((None, ''csv_parse''), sig_fixed [TString, TAny] (TUnion [TObject, TNull]), on2 (\<lambda>t f. Ok (csv_parse (lb_csv_row lib) t f))),
     ((None, ''to_bytes''), sig_optional [TString, TString] 1 TBytes, pure_fn (fn_to_bytes cx)),
     ((None, ''to_int''), sig_fixed [TAny] (or_null_ty TInt), on1 to_int),
     ((None, ''to_json''), sig_fixed [TAny] TString, on1 (to_json cx)),
     ((None, ''to_string''), sig_optional [TUnion [TString, TBytes], TString, TBool] 1 TString, pure_fn (fn_to_string cx)),
     ((None, ''geoip''), sig_fixed [TString] TObject, text_fn rfc 1 (\<lambda>ts. lb_geoip lib (hd ts))),
     hash_entry lib ''md5'', hash_entry lib ''sha1'', hash_entry lib ''sha256''])"

text \<open>\<open>register_parser\<close> gives a parser without a signature of its own the one below.\<close>

definition parser_sig :: function_sig where
  "parser_sig = sig_optional [TString, TObject] 1 TObject"

definition parser_entries :: "('w, 'x) libs_scheme \<Rightarrow> 'w entry list" where
  "parser_entries lib = (let rfc = lb_rfc3339 lib; cx = lb_codec lib in
    [((None, ''parse_json''), parser_sig, pure_fn (parse_json_impl rfc cx)),
     ((None, ''parse_kv''), sig_optional [TString, TUnion [TString, TObject], TObject] 1 TObject, pure_fn (parse_kv_impl rfc)),
     ((Some ''syslog'', ''parse''), parser_sig, pure_fn (syslog_parse rfc)),
     ((Some ''syslog'', ''strip_pri''), sig_fixed [TString] TString, text_fn rfc 1 (\<lambda>ts. Ok (VString (strip_pri (hd ts))))),
     ((Some ''syslog'', ''set_pri''), sig_fixed [TString, TInt, TInt] TString, pure_fn (set_pri_impl rfc)),
     ((Some ''syslog'', ''extract_pri''), sig_fixed [TString] (or_null_ty TInt), text_fn rfc 1 (\<lambda>ts. Ok (extract_pri (hd ts)))),
     ((Some ''cef'', ''parse''), parser_sig, pure_fn (cef_parse rfc))])"

definition world_entries :: "('w, 'x) libs_scheme \<Rightarrow> 'w entry list" where
  "world_entries lib =
    [((None, ''hostname''), sig_fixed [] (or_null_ty TString),
        (\<lambda>_ _ w. (Ok (case lb_hostname lib w of Some h \<Rightarrow> VString h | None \<Rightarrow> VNull), w))),
     ((None, ''timestamp''), sig_fixed [] TTimestamp, (\<lambda>_ _ w. (Ok (VTimestamp (lb_now lib w)), w))),
     ((None, ''version''), sig_fixed [] TString, (\<lambda>_ _ w. (Ok (VString (lb_version lib)), w)))]"

definition on_tables :: "('w, 'x) libs_scheme \<Rightarrow> table_world builtin \<Rightarrow> 'w builtin" where
  "on_tables lib f args ev w = (case f args ev (lb_tables lib w) of (r, tw) \<Rightarrow> (r, lb_put_tables lib (tw_store tw) w))"

definition table_entries :: "('w, 'x) libs_scheme \<Rightarrow> 'w entry list" where
  "table_entries lib = (let rfc = lb_rfc3339 lib in
    [((None, ''table_lookup''), sig_fixed [TString, TString] TAny, on_tables lib (fn_table_lookup rfc)),
     ((None, ''table_upsert''), sig_optional [TString, TString, TAny, TInt] 3 TNull, on_tables lib (fn_table_upsert rfc)),
     ((None, ''table_delete''), sig_fixed [TString, TString] TNull, on_tables lib (fn_table_delete rfc))])"

definition register_all :: "'w entry list \<Rightarrow> 'w registry \<Rightarrow> 'w registry" where
  "register_all es reg = foldl (\<lambda>reg (key, fsig, f). register_with_sig (fst key) (snd key) fsig f reg) reg es"

text \<open>\<open>primitives::register\<close> with the registrations of \<open>syslog\<close> and \<open>cef\<close>, up to the functions named above.\<close>

definition builtin_entries :: "('w, 'x) libs_scheme \<Rightarrow> 'w entry list" where
  "builtin_entries lib = array_entries @ text_entries lib @ parser_entries lib @ world_entries lib @ table_entries lib"

definition registry_new :: "(int \<Rightarrow> string) \<Rightarrow> 'w registry" where
  "registry_new rfc = \<lparr>reg_functions = [], reg_signatures = [], user_definitions = [], to_rfc3339 = rfc\<rparr>"

definition register_user_functions :: "function_def list \<Rightarrow> 'w registry \<Rightarrow> 'w registry" where
  "register_user_functions fds reg = foldl (\<lambda>reg fd. register_user_function fd reg) reg fds"

definition runtime_registry :: "('w, 'x) libs_scheme \<Rightarrow> 'w entry list \<Rightarrow> function_def list \<Rightarrow> 'w registry" where
  "runtime_registry lib others fds =
     register_user_functions fds (register_all (builtin_entries lib @ others) (registry_new (lb_rfc3339 lib)))"

end
