(* ===== verification/Typing.thy ===== *)
theory Typing
  imports Diagnostics Functions Eval_Facts
begin

section \<open>Names and types in the analyzer\<close>

text \<open>
  \<open>check/bindings.rs\<close>, \<open>check/suggestions.rs\<close> and \<open>check/expr_types.rs\<close>. The diagnostics of a walk are returned as a list,
  in the order in which the code pushes them. The innermost \<open>let\<close> scope is the first.
\<close>

subsection \<open>Bindings\<close>

record bindings =
  bd_workspace :: "(rstr \<times> field_type) list"
  bd_wildcard :: bool
  bd_scoped :: "rstr list"
  bd_lets :: "(rstr \<times> field_type) list list"

definition bindings_new :: bindings where
  "bindings_new = \<lparr>bd_workspace = [], bd_wildcard = False, bd_scoped = [], bd_lets = []\<rparr>"

definition dotted :: "rstr list \<Rightarrow> rstr" where
  "dotted path = join ''.'' path"

definition bind_workspace :: "rstr list \<Rightarrow> field_type \<Rightarrow> bindings \<Rightarrow> bindings" where
  "bind_workspace path ty b = b\<lparr>bd_workspace := al_set (dotted path) ty (bd_workspace b)\<rparr>"

definition get_workspace :: "bindings \<Rightarrow> rstr list \<Rightarrow> field_type option" where
  "get_workspace b path = map_of (bd_workspace b) (dotted path)"

definition set_workspace_wildcard :: "bindings \<Rightarrow> bindings" where
  "set_workspace_wildcard b = b\<lparr>bd_wildcard := True\<rparr>"

definition set_workspace_scoped_wildcard :: "rstr list \<Rightarrow> bindings \<Rightarrow> bindings" where
  "set_workspace_scoped_wildcard path b = b\<lparr>bd_scoped := List.insert (dotted path) (bd_scoped b)\<rparr>"

definition is_workspace_path_wildcard :: "bindings \<Rightarrow> rstr list \<Rightarrow> bool" where
  "is_workspace_path_wildcard b path \<longleftrightarrow> bd_wildcard b \<or>
     list_ex (\<lambda>scope. dotted path = scope \<or> starts_with (scope @ ''.'') (dotted path)) (bd_scoped b)"

definition push_let_scope :: "bindings \<Rightarrow> bindings" where
  "push_let_scope b = b\<lparr>bd_lets := [] # bd_lets b\<rparr>"

definition pop_let_scope :: "bindings \<Rightarrow> bindings" where
  "pop_let_scope b = b\<lparr>bd_lets := tl (bd_lets b)\<rparr>"

definition bind_let :: "rstr \<Rightarrow> field_type \<Rightarrow> bindings \<Rightarrow> bindings" where
  "bind_let name ty b = (case bd_lets b of [] \<Rightarrow> b | inner # rest \<Rightarrow> b\<lparr>bd_lets := al_set name ty inner # rest\<rparr>)"

fun find_let :: "(rstr \<times> field_type) list list \<Rightarrow> rstr \<Rightarrow> field_type option" where
  "find_let [] name = None"
| "find_let (s # ss) name = (case map_of s name of Some t \<Rightarrow> Some t | None \<Rightarrow> find_let ss name)"

definition get_let :: "bindings \<Rightarrow> rstr \<Rightarrow> field_type option" where
  "get_let b name = find_let (bd_lets b) name"

definition intersect_with :: "bindings \<Rightarrow> bindings \<Rightarrow> bindings" where
  "intersect_with b other = b\<lparr>
     bd_workspace := concat (map (\<lambda>(k, t). case map_of (bd_workspace other) k of Some t' \<Rightarrow> [(k, ty_union t t')] | None \<Rightarrow> [])
       (bd_workspace b)),
     bd_wildcard := bd_wildcard b \<and> bd_wildcard other,
     bd_scoped := (if bd_wildcard b then (if bd_wildcard other then [] else bd_scoped other)
       else if bd_wildcard other then bd_scoped b else List.filter (\<lambda>s. s \<in> set (bd_scoped other)) (bd_scoped b))\<rparr>"

definition intersect_branches :: "bindings list \<Rightarrow> bindings" where
  "intersect_branches bs = (case bs of [] \<Rightarrow> bindings_new | b # rest \<Rightarrow> foldl intersect_with b rest)"

subsection \<open>Suggestions\<close>

definition reserved_names :: "rstr list" where
  "reserved_names = [''ingress'', ''egress'', ''source'', ''received_at'', ''error'']"

definition near_workspace_path :: "rstr \<Rightarrow> bindings \<Rightarrow> rstr option" where
  "near_workspace_path needle b = nearest needle (map fst (bd_workspace b) @ reserved_names)"

definition flat_function_names :: "'w registry \<Rightarrow> rstr list" where
  "flat_function_names reg = map snd (List.filter (\<lambda>(ns, _). ns = None) (map fst (reg_functions reg)))"

definition near_function_name :: "rstr \<Rightarrow> 'w registry \<Rightarrow> rstr option" where
  "near_function_name needle reg = nearest needle (flat_function_names reg)"

subsection \<open>Inference\<close>

definition signature :: "'w registry \<Rightarrow> rstr option \<Rightarrow> rstr \<Rightarrow> function_sig option" where
  "signature reg ns name = map_of (reg_signatures reg) (ns, name)"

text \<open>\<open>Iterator::reduce\<close> with \<open>union\<close>.\<close>

definition reduce_union :: "field_type list \<Rightarrow> field_type option" where
  "reduce_union ts = (case ts of [] \<Rightarrow> None | t # rest \<Rightarrow> Some (foldl ty_union t rest))"

definition or_any :: "field_type option \<Rightarrow> field_type" where
  "or_any t = (case t of Some t \<Rightarrow> t | None \<Rightarrow> TAny)"

fun filter_return_type :: "field_type \<Rightarrow> field_type" where
  "filter_return_type TArray = TArray"
| "filter_return_type TNull = TArray"
| "filter_return_type TObject = TObject"
| "filter_return_type (TUnion ms) = or_any (reduce_union (map filter_return_type ms))"
| "filter_return_type _ = TAny"

fun type_can_be_null :: "field_type \<Rightarrow> bool" where
  "type_can_be_null TNull = True"
| "type_can_be_null TAny = True"
| "type_can_be_null (TUnion ms) = list_ex type_can_be_null ms"
| "type_can_be_null _ = False"

fun type_without_null :: "field_type \<Rightarrow> field_type option" where
  "type_without_null TNull = None"
| "type_without_null (TUnion ms) = reduce_union (List.map_filter id (map type_without_null ms))"
| "type_without_null t = Some t"

definition coalesce_return_type :: "field_type list \<Rightarrow> field_type" where
  "coalesce_return_type types =
     (let final_can_be_null = (types \<noteq> [] \<and> type_can_be_null (last types));
          result = reduce_union (List.map_filter type_without_null types)
      in if final_can_be_null then (case result of Some t \<Rightarrow> ty_union t TNull | None \<Rightarrow> TNull) else or_any result)"

fun len_return_type :: "field_type \<Rightarrow> field_type" where
  "len_return_type (TUnion ms) = or_any (reduce_union (map len_return_type ms))"
| "len_return_type TAny = ty_union TInt TNull"
| "len_return_type t = (if t \<in> {TString, TObject, TArray, TBytes} then TInt else TNull)"

definition ident_type :: "rstr list \<Rightarrow> bindings \<Rightarrow> field_type" where
  "ident_type parts b = (case parts of
     [] \<Rightarrow> TAny
   | p # ps \<Rightarrow>
      (if ps = [] \<and> (p = ''ingress'' \<or> p = ''egress'') then ty_union TString TBytes
       else if ps = [] \<and> p = ''received_at'' then TTimestamp
       else if ps = [] \<and> p = ''error'' then TString
       else if ps = [] \<and> p = ''source'' then TObject
       else if p = ''source'' \<and> ps = [''ip''] then TString
       else if p = ''source'' \<and> ps = [''port''] then TInt
       else if p = ''workspace'' then
         (if ps = [] then TObject else case get_workspace b parts of Some t \<Rightarrow> t | None \<Rightarrow> TAny)
       else if ps = [] then or_any (get_let b p) else TAny))"

text \<open>The union over the arms, \<open>Null\<close> where none matches.\<close>

definition switch_type :: "bool \<Rightarrow> field_type list \<Rightarrow> field_type" where
  "switch_type has_default tys = (let result = (case reduce_union tys of Some t \<Rightarrow> t | None \<Rightarrow> TNull)
     in if has_default then result else ty_union result TNull)"

fun infer :: "'w registry \<Rightarrow> bindings \<Rightarrow> expr \<Rightarrow> field_type" where
  "infer reg b (StringLit _) = TString"
| "infer reg b (Template _) = TString"
| "infer reg b (IntLit _) = TInt"
| "infer reg b (FloatLit _) = TFloat"
| "infer reg b (BoolLit _) = TBool"
| "infer reg b NullLit = TNull"
| "infer reg b (HashLit _) = TObject"
| "infer reg b (ArrayLit _) = TArray"
| "infer reg b (Ident parts) = ident_type parts b"
| "infer reg b (PropertyAccess base suffix) = (case base of Ident parts \<Rightarrow> ident_type (parts @ suffix) b | _ \<Rightarrow> TAny)"
| "infer reg b (FuncCall ns name args blk) =
     (let tys = map (infer reg b) args; first = (\<lambda>f. case tys of [] \<Rightarrow> TAny | t # _ \<Rightarrow> f t) in
      if ns = None \<and> name = ''filter'' then first filter_return_type
      else if ns = None \<and> name = ''coalesce'' then coalesce_return_type tys
      else if ns = None \<and> name = ''len'' then first len_return_type
      else (case signature reg ns name of Some s \<Rightarrow> fs_ret s | None \<Rightarrow> TAny))"
| "infer reg b (BinOp l op r) = (if op \<in> {OpEq, OpNe, OpLt, OpLe, OpGt, OpGe, OpAnd, OpOr} then TBool else TAny)"
| "infer reg b (UnaryOp op e) = (case op of OpNot \<Rightarrow> TBool | OpNeg \<Rightarrow> infer reg b e)"
| "infer reg b (SwitchExpr s arms) = switch_type (list_ex (\<lambda>(p, _). p = None) arms) (map (\<lambda>(_, body). infer reg b body) arms)"

subsection \<open>Checks\<close>

definition type_warning :: "string \<Rightarrow> string \<Rightarrow> diagnostic" where
  "type_warning pn m = warning_kind TypeMismatch (''[pipeline '' @ pn @ ''] '' @ m)"

fun binop_display :: "bin_op \<Rightarrow> string" where
  "binop_display OpEq = ''==''"
| "binop_display OpNe = ''!=''"
| "binop_display OpLt = ''<''"
| "binop_display OpLe = ''<=''"
| "binop_display OpGt = ''>''"
| "binop_display OpGe = ''>=''"
| "binop_display OpAnd = ''and''"
| "binop_display OpOr = ''or''"
| "binop_display OpAdd = ''+''"
| "binop_display OpSub = ''-''"
| "binop_display OpMul = ''*''"
| "binop_display OpDiv = ''/''"
| "binop_display OpMod = ''%''"

definition check_binop :: "string \<Rightarrow> field_type \<Rightarrow> bin_op \<Rightarrow> field_type \<Rightarrow> diagnostic list" where
  "check_binop pn lt op rt =
     (if lt = TAny \<or> rt = TAny then []
      else if op = OpEq \<or> op = OpNe then
        (if lt \<noteq> TNull \<and> rt \<noteq> TNull \<and> \<not> type_compatible lt rt \<and> \<not> type_compatible rt lt
         then [type_warning pn (''comparison '' @ quote (binop_display op) @ '' between '' @ ty_display lt @ '' and '' @ ty_display rt
                 @ '' always evaluates the same; types don'' @ [CHR 0x27] @ ''t match'')] else [])
      else if op \<in> {OpLt, OpLe, OpGt, OpGe} then
        (if (ty_is_numeric lt \<or> lt = TTimestamp) \<and> (ty_is_numeric rt \<or> rt = TTimestamp) then []
         else [type_warning pn (''ordering comparison '' @ quote (binop_display op) @ '' between '' @ ty_display lt @ '' and '' @ ty_display rt
                 @ '' is not numeric or temporal'')])
      else if op = OpAdd then
        (if ty_is_numeric lt \<and> ty_is_numeric rt \<or> ty_is_string lt \<or> ty_is_string rt then []
         else [type_warning pn (quote ''+'' @ '' between '' @ ty_display lt @ '' and '' @ ty_display rt
                 @ '' is neither numeric addition nor string concatenation'')])
      else if op \<in> {OpSub, OpMul, OpDiv, OpMod} then
        (if ty_is_numeric lt \<and> ty_is_numeric rt then []
         else [type_warning pn (''arithmetic '' @ quote (binop_display op) @ '' requires numeric operands, got '' @ ty_display lt
                 @ '' and '' @ ty_display rt)])
      else [])"

definition qualified_name :: "rstr option \<Rightarrow> rstr \<Rightarrow> rstr" where
  "qualified_name ns name = (case ns of Some n \<Rightarrow> n @ ''.'' @ name | None \<Rightarrow> name)"

definition expected_arity :: "function_sig \<Rightarrow> string" where
  "expected_arity fsig = (case fs_arity fsig of
     Fixed \<Rightarrow> (let n = length (fs_args fsig) in if n = 1 then ''1 argument'' else show_nat n @ '' arguments'')
   | Optional required \<Rightarrow> show_nat required @ '' to '' @ show_nat (length (fs_args fsig)) @ '' arguments''
   | Variadic mn \<Rightarrow> ''at least '' @ show_nat mn @ '' '' @ (if mn = 1 then ''argument'' else ''arguments''))"

text \<open>The slot of an argument, the last one for those behind. A signature that takes arguments has a slot.\<close>

definition expected_arg_type :: "function_sig \<Rightarrow> nat \<Rightarrow> field_type" where
  "expected_arg_type fsig i = (case nth_opt (fs_args fsig) (min i (length (fs_args fsig) - 1)) of Some t \<Rightarrow> t | None \<Rightarrow> TAny)"

definition reserved_payload_matches_text :: "field_type \<Rightarrow> expr \<Rightarrow> field_type \<Rightarrow> bool" where
  "reserved_payload_matches_text expected actual actual_ty \<longleftrightarrow> expected = TString \<and> actual_ty = ty_union TString TBytes
     \<and> (actual = Ident [''ingress''] \<or> actual = Ident [''egress''])"

definition check_fn_call :: "string \<Rightarrow> 'w registry \<Rightarrow> bindings \<Rightarrow> rstr option \<Rightarrow> rstr \<Rightarrow> expr list \<Rightarrow> diagnostic list" where
  "check_fn_call pn reg b ns name args = (case signature reg ns name of
     None \<Rightarrow> (let d = warning_kind UnknownIdent (''[pipeline '' @ pn @ ''] call to unknown function '' @ quote (qualified_name ns name)) in
       [d\<lparr>dg_help := if ns = None then did_you_mean (near_function_name name reg) else None\<rparr>])
   | Some fsig \<Rightarrow>
      (if \<not> arity_ok fsig (length args) then
         (if ns = None \<and> map_of (user_definitions reg) name \<noteq> None
          then [type_warning pn (''function '' @ quote name @ '' expects '' @ expected_arity fsig @ '', got '' @ show_nat (length args))]
          else [])
       else concat (map (\<lambda>(i, actual). let expected = expected_arg_type fsig i; actual_ty = infer reg b actual in
         if type_compatible expected actual_ty \<or> reserved_payload_matches_text expected actual actual_ty then []
         else [type_warning pn (''function '' @ quote (qualified_name ns name) @ '' argument '' @ show_nat (i + 1) @ '' expects ''
                 @ ty_display expected @ '', got '' @ ty_display actual_ty)]) (enumerate 0 args))))"

definition check_unknown_ident :: "string \<Rightarrow> bindings \<Rightarrow> rstr list \<Rightarrow> diagnostic list" where
  "check_unknown_ident pn b parts = (case parts of
     [] \<Rightarrow> []
   | p # ps \<Rightarrow>
      (if ps = [] \<and> p \<in> set reserved_names then []
       else if p = ''source'' \<and> (ps = [''ip''] \<or> ps = [''port'']) then []
       else if p = ''workspace'' then []
       else if get_let b p \<noteq> None then []
       else if ps = [] \<and> p = ''timestamp'' then
         [with_help (''use '' @ quote ''received_at'' @ '' for the wall-clock event time, or '' @ quote ''timestamp()''
            @ '' for the current instant'')
          (warning_kind UnknownIdent (''[pipeline '' @ pn @ ''] bare '' @ quote ''timestamp''
            @ '' is no longer a reserved identifier (renamed in v0.5.0)''))]
       else [(warning_kind UnknownIdent (''[pipeline '' @ pn @ ''] unknown identifier '' @ quote (dotted parts)))
              \<lparr>dg_help := if ps = [] then did_you_mean (near_workspace_path p b) else None\<rparr>]))"

definition block_parameter_type :: "'w registry \<Rightarrow> bindings \<Rightarrow> rstr \<Rightarrow> expr list \<Rightarrow> nat \<Rightarrow> field_type" where
  "block_parameter_type reg b name args index =
     (let collection = (case args of [] \<Rightarrow> TAny | a # _ \<Rightarrow> infer reg b a) in
      if name \<in> {''map'', ''filter'', ''find''} \<and> collection = TObject \<and> index = 0 then TString
      else if name = ''reduce'' \<and> index = 0 then (case nth_opt args 1 of Some a \<Rightarrow> infer reg b a | None \<Rightarrow> TAny)
      else if name = ''reduce'' \<and> collection = TObject \<and> index = 1 then TString else TAny)"

text \<open>
  \<open>validate_switch_default_position\<close> (\<open>check/control_flow.rs\<close>) on the patterns of the arms: \<open>i\<close> numbers the arm, \<open>first\<close> is the
  first default.
\<close>

fun default_positions :: "string \<Rightarrow> nat \<Rightarrow> nat \<Rightarrow> nat option \<Rightarrow> bool list \<Rightarrow> diagnostic list" where
  "default_positions pn n i first [] = []"
| "default_positions pn n i first (is_default # ds) =
     (if \<not> is_default then default_positions pn n (i + 1) first ds
      else (case first of
          None \<Rightarrow> (if i + 1 < n then [error_kind Dataflow (quote ''switch'' @ '' in pipeline '' @ tick pn @ '': '' @ quote ''default''
              @ '' arm is at position '' @ show_nat i @ '' of '' @ show_nat n @ '' but must be the last arm; the '' @ show_nat (n - i - 1)
              @ '' arm(s) after '' @ quote ''default'' @ '' are unreachable (the runtime dispatches at the first match)'')] else [])
            @ default_positions pn n (i + 1) (Some i) ds
        | Some prev \<Rightarrow> error_kind Dataflow (quote ''switch'' @ '' in pipeline '' @ tick pn @ '': multiple '' @ quote ''default''
              @ '' arms (positions '' @ show_nat prev @ '' and '' @ show_nat i @ ''); only one is allowed and only the first runs'')
            # default_positions pn n (i + 1) first ds))"

definition validate_switch_default_position :: "string \<Rightarrow> ('p option \<times> 'b) list \<Rightarrow> diagnostic list" where
  "validate_switch_default_position pn arms = default_positions pn (length arms) 0 None (map (\<lambda>(p, _). p = None) arms)"

text \<open>\<open>check_types\<close>; the lets of a block see the parameters and the lets before them.\<close>

definition bind_params :: "'w registry \<Rightarrow> bindings \<Rightarrow> rstr \<Rightarrow> expr list \<Rightarrow> rstr list \<Rightarrow> bindings" where
  "bind_params reg b name args ps =
     foldl (\<lambda>bb (i, p). bind_let p (block_parameter_type reg b name args i) bb) (push_let_scope b) (enumerate 0 ps)"

lemma binop_size: "size l < size (BinOp l op r)" "size r < size (BinOp l op r)"
  by simp_all

lemma arg_size: "a \<in> set args \<Longrightarrow> size a < size (FuncCall ns name args blk)"
  by (rule children_size) simp

lemma block_size:
  "2 * (size_list (size_prod (\<lambda>_. 0) size) (fb_lets (ba_body blk)) + size (fb_ret (ba_body blk))) + 1
   < 2 * size (FuncCall ns name args (Some blk))"
  by (cases blk; cases "ba_body blk") auto

function check_types :: "string \<Rightarrow> 'w registry \<Rightarrow> bindings \<Rightarrow> expr \<Rightarrow> diagnostic list"
  and check_body :: "string \<Rightarrow> 'w registry \<Rightarrow> bindings \<Rightarrow> (rstr \<times> expr) list \<Rightarrow> expr \<Rightarrow> diagnostic list" where
  "check_types pn reg b e = (case e of
     BinOp l op r \<Rightarrow> check_types pn reg b l @ check_types pn reg b r @ check_binop pn (infer reg b l) op (infer reg b r)
   | FuncCall ns name args blk \<Rightarrow> concat (map (\<lambda>a. check_types pn reg b a) args)
       @ (case blk of None \<Rightarrow> []
          | Some blk \<Rightarrow> check_body pn reg (bind_params reg b name args (ba_params blk)) (fb_lets (ba_body blk)) (fb_ret (ba_body blk)))
       @ check_fn_call pn reg b ns name args
   | Ident parts \<Rightarrow> check_unknown_ident pn b parts
   | SwitchExpr s arms \<Rightarrow> concat (map (\<lambda>c. check_types pn reg b c) (children e)) @ validate_switch_default_position pn arms
   | _ \<Rightarrow> concat (map (\<lambda>c. check_types pn reg b c) (children e)))"
| "check_body pn reg b [] final = check_types pn reg b final"
| "check_body pn reg b ((x, e) # lets) final =
     check_types pn reg b e @ check_body pn reg (bind_let x (infer reg b e) b) lets final"
  by pat_completeness auto
termination
proof (relation "measure (\<lambda>x. case x of Inl (_, _, _, e) \<Rightarrow> 2 * size e
    | Inr (_, _, _, lets, final) \<Rightarrow> 2 * (size_list (size_prod (\<lambda>_. 0) size) lets + size final) + 1)", goal_cases)
qed (auto simp del: children.simps expr.size intro: children_size binop_size arg_size block_size[simplified])

declare check_types.simps [simp del]

end
