(* ===== verification/Schema.thy ===== *)
theory Schema
  imports Diagnostics Builtins
begin

section \<open>Properties and their schemas\<close>

text \<open>
  The properties of a definition, the readers that modules use on them (\<open>dsl/props.rs\<close>) and the validator that both the
  analyzer and the start of the daemon run (\<open>dsl/schema.rs\<close>), without source spans.
\<close>

datatype property =
    KeyValue (pr_key: rstr) (pr_quoted: bool) (pr_value: expr)
  | Block (pr_key: rstr) (pr_quoted: bool) (pr_inner: "property list")

datatype value_kind =
    KString | KInt | KBool | KDuration | KSize
  | KEnum "string list"
  | KBlock "property_spec list"
  | KBlockMap "property_spec list"
  | KStringMap
  | KOneOf "value_kind list"
and property_spec =
    Spec (sp_name: string) (sp_required: bool) (sp_repeatable: bool) (sp_group: "string option") (sp_kind: value_kind)

subsection \<open>Sizes and durations\<close>

text \<open>
  \<open>str::parse::<u64>\<close>. \<open>to_uppercase\<close> maps no character outside ASCII to a letter of a unit, and a digit to itself, so
  mapping the ASCII letters decides the same. \<open>n * multiplier\<close> is the product of a release build, which wraps.
\<close>

definition parse_u64_str :: "string \<Rightarrow> nat option" where
  "parse_u64_str s = (let ds = (if s \<noteq> [] \<and> hd s = CHR ''+'' then tl s else s) in
     if ds \<noteq> [] \<and> list_all is_digit ds \<and> digits_val ds < 2 ^ 64 then Some (digits_val ds) else None)"

definition wrap_u64 :: "nat \<Rightarrow> nat" where
  "wrap_u64 n = n mod 2 ^ 64"

definition ascii_upper :: "char \<Rightarrow> char" where
  "ascii_upper c = (let b = of_char c :: nat in if 97 \<le> b \<and> b \<le> 122 then char_of (b - 32) else c)"

definition strip_suffix :: "string \<Rightarrow> string \<Rightarrow> string option" where
  "strip_suffix suf s = (if length suf \<le> length s \<and> drop (length s - length suf) s = suf
     then Some (take (length s - length suf) s) else None)"

definition parse_size :: "string \<Rightarrow> nat option" where
  "parse_size t = (let s = map ascii_upper (str_trim t);
       scaled = (\<lambda>num m. map_option (\<lambda>n. wrap_u64 (n * m)) (parse_u64_str (str_trim num))) in
     case strip_suffix ''GB'' s of Some num \<Rightarrow> scaled num (1024 * 1024 * 1024)
   | None \<Rightarrow> (case strip_suffix ''MB'' s of Some num \<Rightarrow> scaled num (1024 * 1024)
   | None \<Rightarrow> (case strip_suffix ''KB'' s of Some num \<Rightarrow> scaled num 1024
   | None \<Rightarrow> parse_u64_str s)))"

text \<open>A duration in milliseconds.\<close>

definition parse_duration :: "string \<Rightarrow> nat option" where
  "parse_duration t = (let s = str_trim t in
     case strip_suffix ''ms'' s of Some num \<Rightarrow> parse_u64_str (str_trim num)
   | None \<Rightarrow> (case strip_suffix ''s'' s of Some num \<Rightarrow> map_option (\<lambda>n. n * 1000) (parse_u64_str (str_trim num))
   | None \<Rightarrow> (case strip_suffix ''m'' s of Some num \<Rightarrow> map_option (\<lambda>n. wrap_u64 (n * 60) * 1000) (parse_u64_str (str_trim num))
   | None \<Rightarrow> parse_u64_str s)))"

subsection \<open>Readers\<close>

text \<open>The value of the first scalar property with the key, and the first block with it.\<close>

fun get_expr :: "property list \<Rightarrow> rstr \<Rightarrow> expr option" where
  "get_expr [] key = None"
| "get_expr (KeyValue k q e # ps) key = (if k = key then Some e else get_expr ps key)"
| "get_expr (Block k q inner # ps) key = get_expr ps key"

fun get_block :: "property list \<Rightarrow> rstr \<Rightarrow> property list option" where
  "get_block [] key = None"
| "get_block (Block k q inner # ps) key = (if k = key then Some inner else get_block ps key)"
| "get_block (KeyValue k q e # ps) key = get_block ps key"

text \<open>The text between the markers of a template; \<open>debug\<close> is what \<open>{:?}\<close> and \<open>to_string\<close> of a float print.\<close>

fun expr_source :: "(expr \<Rightarrow> string) \<Rightarrow> expr \<Rightarrow> string" where
  "expr_source debug (Ident parts) = join ''.'' parts"
| "expr_source debug (StringLit s) =
     [CHR 0x22] @ concat (map (\<lambda>c. if c = CHR 0x5C \<or> c = CHR 0x22 then [CHR 0x5C, c] else [c]) s) @ [CHR 0x22]"
| "expr_source debug (IntLit n) = string_of_int n"
| "expr_source debug (BoolLit b) = (if b then ''true'' else ''false'')"
| "expr_source debug NullLit = ''null''"
| "expr_source debug e = debug e"

fun fragment_source :: "(expr \<Rightarrow> string) \<Rightarrow> fragment \<Rightarrow> string" where
  "fragment_source debug (Literal s) = s"
| "fragment_source debug (Interp e) = [CHR 0x24, CHR 0x7B] @ expr_source debug e @ [CHR 0x7D]"

definition template_to_source :: "(expr \<Rightarrow> string) \<Rightarrow> fragment list \<Rightarrow> string" where
  "template_to_source debug fs = concat (map (fragment_source debug) fs)"

definition get_string :: "(expr \<Rightarrow> string) \<Rightarrow> property list \<Rightarrow> rstr \<Rightarrow> string option" where
  "get_string debug ps key = (case get_expr ps key of
     Some (StringLit s) \<Rightarrow> Some s
   | Some (Template fs) \<Rightarrow> Some (template_to_source debug fs)
   | Some (Ident parts) \<Rightarrow> Some (join ''.'' parts)
   | Some (IntLit n) \<Rightarrow> Some (string_of_int n)
   | _ \<Rightarrow> None)"

text \<open>\<open>get_ident\<close> and \<open>get_int\<close> look for the first value of their own shape.\<close>

fun get_ident :: "property list \<Rightarrow> rstr \<Rightarrow> rstr option" where
  "get_ident [] key = None"
| "get_ident (KeyValue k q (Ident parts) # ps) key =
     (if k = key then (case parts of [] \<Rightarrow> None | p # _ \<Rightarrow> Some p) else get_ident ps key)"
| "get_ident (_ # ps) key = get_ident ps key"

fun get_int :: "property list \<Rightarrow> rstr \<Rightarrow> int option" where
  "get_int [] key = None"
| "get_int (KeyValue k q (IntLit n) # ps) key = (if k = key then Some n else get_int ps key)"
| "get_int (_ # ps) key = get_int ps key"

fun bool_expr :: "expr \<Rightarrow> bool option" where
  "bool_expr (BoolLit b) = Some b"
| "bool_expr (Ident [p]) = (if p = ''true'' then Some True else if p = ''false'' then Some False else None)"
| "bool_expr _ = None"

definition get_bool :: "property list \<Rightarrow> rstr \<Rightarrow> bool option" where
  "get_bool ps key = (case get_expr ps key of Some e \<Rightarrow> bool_expr e | None \<Rightarrow> None)"

definition get_positive_int :: "property list \<Rightarrow> rstr \<Rightarrow> nat option res" where
  "get_positive_int ps key = (case get_int ps key of
     Some n \<Rightarrow> if 0 \<le> n then Ok (Some (nat n)) else Err (tick key @ '' must be non-negative, got '' @ string_of_int n)
   | None \<Rightarrow> Ok None)"

definition get_strictly_positive_int :: "property list \<Rightarrow> rstr \<Rightarrow> nat option res" where
  "get_strictly_positive_int ps key = (case get_int ps key of
     Some n \<Rightarrow> if 1 \<le> n then Ok (Some (nat n)) else Err (tick key @ '' must be >= 1, got '' @ string_of_int n)
   | None \<Rightarrow> Ok None)"

fun string_entry :: "rstr \<times> expr \<Rightarrow> (rstr \<times> rstr) list" where
  "string_entry (k, StringLit s) = [(k, s)]"
| "string_entry (k, _) = []"

definition get_string_map :: "property list \<Rightarrow> rstr \<Rightarrow> (rstr \<times> rstr) list" where
  "get_string_map ps key = (case get_expr ps key of Some (HashLit es) \<Rightarrow> concat (map string_entry es) | _ \<Rightarrow> [])"

subsection \<open>Findings\<close>

datatype schema_error_kind =
    QuotedKey | UnknownKey | MissingRequired | DuplicateKey
  | ExclusiveGroup string "rstr list"
  | ExpectedBlock | ExpectedValue
  | WrongType string
  | OneOfMismatch "string list" string
  | UnknownEnumValue "string list"

record schema_error =
  se_kind :: schema_error_kind
  se_key :: rstr
  se_did_you_mean :: "rstr option"

definition finding :: "schema_error_kind \<Rightarrow> rstr \<Rightarrow> schema_error" where
  "finding k key = \<lparr>se_kind = k, se_key = key, se_did_you_mean = None\<rparr>"

definition schema_text :: "schema_error \<Rightarrow> string" where
  "schema_text e = (let k = tick (se_key e); hint = (\<lambda>s. '' (did you mean '' @ tick s @ ''?)'') in case se_kind e of
     QuotedKey \<Rightarrow> ''quoted property keys are only allowed inside a StringMap''
   | UnknownKey \<Rightarrow> ''unknown property '' @ k @ (case se_did_you_mean e of Some s \<Rightarrow> hint s | None \<Rightarrow> [])
   | MissingRequired \<Rightarrow> ''missing required property '' @ k
   | DuplicateKey \<Rightarrow> ''duplicate property '' @ k
   | ExclusiveGroup g cs \<Rightarrow> ''properties in exclusive group '' @ tick g @ '' conflict: '' @ join '', '' cs
   | ExpectedBlock \<Rightarrow> k @ '' expects a block ({ ... })''
   | ExpectedValue \<Rightarrow> k @ '' expects a value, not a block''
   | WrongType expected \<Rightarrow> k @ '' expects '' @ expected
   | OneOfMismatch expected actual \<Rightarrow> k @ '' expects one of: '' @ join '' | '' expected @ '', got '' @ actual
   | UnknownEnumValue allowed \<Rightarrow> k @ '' has unknown value''
       @ (case se_did_you_mean e of Some s \<Rightarrow> hint s | None \<Rightarrow> '' (allowed: '' @ join '', '' allowed @ '')''))"

definition from_schema_error :: "schema_error \<Rightarrow> string \<Rightarrow> diagnostic" where
  "from_schema_error e surface = (let d = error_kind PropertySchema (surface @ '': '' @ schema_text e) in
     case se_did_you_mean e of Some s \<Rightarrow> with_help (''did you mean '' @ quote s @ ''?'') d | None \<Rightarrow> d)"

fun kind_label :: "value_kind \<Rightarrow> string" where
  "kind_label KString = ''String''"
| "kind_label KInt = ''Int''"
| "kind_label KBool = ''Bool''"
| "kind_label KDuration = ''Duration''"
| "kind_label KSize = ''Size''"
| "kind_label (KEnum _) = ''Ident''"
| "kind_label (KBlock _) = ''Block''"
| "kind_label (KBlockMap _) = ''BlockMap''"
| "kind_label KStringMap = ''StringMap''"
| "kind_label (KOneOf _) = ''OneOf''"

fun expr_label :: "expr \<Rightarrow> string" where
  "expr_label (StringLit _) = ''String''"
| "expr_label (Template _) = ''Template''"
| "expr_label (IntLit _) = ''Int''"
| "expr_label (FloatLit _) = ''Float''"
| "expr_label (BoolLit _) = ''Bool''"
| "expr_label NullLit = ''Null''"
| "expr_label (Ident _) = ''Ident''"
| "expr_label (FuncCall _ _ _ _) = ''FuncCall''"
| "expr_label (BinOp _ _ _) = ''BinOp''"
| "expr_label (UnaryOp _ _) = ''UnaryOp''"
| "expr_label (HashLit _) = ''Hash''"
| "expr_label (ArrayLit _) = ''Array''"
| "expr_label (PropertyAccess _ _) = ''PropertyAccess''"
| "expr_label (SwitchExpr _ _) = ''Switch''"

fun property_label :: "property \<Rightarrow> string" where
  "property_label (KeyValue _ _ e) = expr_label e"
| "property_label (Block _ _ _) = ''Block''"

fun expects_block_outer_shape :: "value_kind \<Rightarrow> bool" where
  "expects_block_outer_shape (KBlock _) = True"
| "expects_block_outer_shape (KBlockMap _) = True"
| "expects_block_outer_shape _ = False"

fun is_block :: "property \<Rightarrow> bool" where
  "is_block (Block _ _ _) = True"
| "is_block (KeyValue _ _ _) = False"

subsection \<open>The validator\<close>

fun is_string_lit :: "expr \<Rightarrow> bool" where
  "is_string_lit (StringLit _) = True"
| "is_string_lit _ = False"

definition validate_string_map :: "rstr \<Rightarrow> expr \<Rightarrow> schema_error list" where
  "validate_string_map key e = (case e of
     HashLit es \<Rightarrow> map (\<lambda>(name, _). finding (WrongType ''a static string'') name) (List.filter (\<lambda>(_, v). \<not> is_string_lit v) es)
   | _ \<Rightarrow> [finding (WrongType ''a static string object'') key])"

definition check_value :: "rstr \<Rightarrow> value_kind \<Rightarrow> expr \<Rightarrow> schema_error list" where
  "check_value key kind e = (let mismatch = (\<lambda>expected. [finding (WrongType expected) key]) in case kind of
     KString \<Rightarrow> (case e of StringLit _ \<Rightarrow> [] | Template _ \<Rightarrow> [] | Ident _ \<Rightarrow> [] | IntLit _ \<Rightarrow> [] | _ \<Rightarrow> mismatch ''a string'')
   | KInt \<Rightarrow> (case e of IntLit _ \<Rightarrow> [] | _ \<Rightarrow> mismatch ''an integer'')
   | KBool \<Rightarrow> if bool_expr e \<noteq> None then [] else mismatch ''a boolean (true | false)''
   | KDuration \<Rightarrow> (case e of
       StringLit s \<Rightarrow> if parse_duration s \<noteq> None then []
         else mismatch (''a duration string like '' @ [CHR 0x22] @ ''5s'' @ [CHR 0x22] @ '' or '' @ [CHR 0x22] @ ''100ms'' @ [CHR 0x22])
     | _ \<Rightarrow> mismatch ''a duration string'')
   | KSize \<Rightarrow> (case e of
       StringLit s \<Rightarrow> if parse_size s \<noteq> None then []
         else mismatch (''a size string like '' @ [CHR 0x22] @ ''100MB'' @ [CHR 0x22] @ '' or '' @ [CHR 0x22] @ ''1GB'' @ [CHR 0x22])
     | _ \<Rightarrow> mismatch ''a size string'')
   | KEnum allowed \<Rightarrow> (case e of
       Ident [candidate] \<Rightarrow> if candidate \<in> set allowed then []
         else [(finding (UnknownEnumValue allowed) key)\<lparr>se_did_you_mean := nearest candidate allowed\<rparr>]
     | _ \<Rightarrow> mismatch ''an identifier'')
   | _ \<Rightarrow> [])"

definition note_group :: "string option \<Rightarrow> rstr \<Rightarrow> (string \<times> rstr list) list \<Rightarrow> (string \<times> rstr list) list" where
  "note_group g name groups = (case g of None \<Rightarrow> groups
   | Some grp \<Rightarrow> al_set grp ((case map_of groups grp of Some ns \<Rightarrow> ns | None \<Rightarrow> []) @ [name]) groups)"

text \<open>\<open>sort\<close> and \<open>dedup\<close> of the names. The groups come in the order of a hash map; here in that of their first member.\<close>

fun insert_name :: "rstr \<Rightarrow> rstr list \<Rightarrow> rstr list" where
  "insert_name n [] = [n]"
| "insert_name n (m # ms) = (if n = m then m # ms else if bytes_cmp n m = Less then n # m # ms else m # insert_name n ms)"

definition sort_dedup :: "rstr list \<Rightarrow> rstr list" where
  "sort_dedup ns = foldr insert_name ns []"

definition group_findings :: "(string \<times> rstr list) list \<Rightarrow> schema_error list" where
  "group_findings groups = concat (map (\<lambda>(g, ns). let cs = sort_dedup ns in
     if 1 < length cs then [finding (ExclusiveGroup g cs) g] else []) groups)"

definition missing_findings :: "property_spec list \<Rightarrow> rstr list \<Rightarrow> schema_error list" where
  "missing_findings spec seen = map (\<lambda>s. finding MissingRequired (sp_name s))
     (List.filter (\<lambda>s. sp_required s \<and> sp_name s \<notin> set seen) spec)"

text \<open>What one of the variants leaves; \<open>results\<close> holds the findings of each.\<close>

definition pick_variant :: "rstr \<Rightarrow> value_kind list \<Rightarrow> property \<Rightarrow> schema_error list list \<Rightarrow> schema_error list" where
  "pick_variant key variants p results =
     (if [] \<in> set results then []
      else case map snd (List.filter (\<lambda>(k, _). expects_block_outer_shape k = is_block p) (zip variants results)) of
          [only] \<Rightarrow> only
        | _ \<Rightarrow> [finding (OneOfMismatch (map kind_label variants) (property_label p)) key])"

lemma spec_size: "s \<in> set spec \<Longrightarrow> size (sp_kind s) < size_list size spec"
  by (cases s) (use size_list_estimation[of s spec _ size] in force)

lemma found_size: "find P spec = Some s \<Longrightarrow> size (sp_kind s) < size_list size spec"
  using spec_size[of s spec] by (auto simp: find_Some_iff)

lemma variant_size: "k \<in> set ks \<Longrightarrow> size k < Suc (size_list size ks)"
  using size_list_estimation'[of k ks "size k" size] by simp

function validate :: "property_spec list \<Rightarrow> property list \<Rightarrow> schema_error list"
  and validate_props :: "property_spec list \<Rightarrow> rstr list \<Rightarrow> (string \<times> rstr list) list \<Rightarrow> property list \<Rightarrow> schema_error list"
  and check_property :: "rstr \<Rightarrow> value_kind \<Rightarrow> property \<Rightarrow> schema_error list"
  and validate_block_map :: "property_spec list \<Rightarrow> property list \<Rightarrow> schema_error list" where
  "validate spec ps = validate_props spec [] [] ps"
| "validate_props spec seen groups [] = missing_findings spec seen @ group_findings groups"
| "validate_props spec seen groups (p # ps) =
     (if pr_quoted p then finding QuotedKey (pr_key p) # validate_props spec seen groups ps
      else case find (\<lambda>s. sp_name s = pr_key p) spec of
        None \<Rightarrow> (finding UnknownKey (pr_key p))\<lparr>se_did_you_mean := nearest (pr_key p) (map sp_name spec)\<rparr>
                 # validate_props spec seen groups ps
      | Some s \<Rightarrow>
          (if pr_key p \<in> set seen \<and> \<not> sp_repeatable s then [finding DuplicateKey (pr_key p)] else [])
          @ check_property (pr_key p) (sp_kind s) p
          @ validate_props spec (List.insert (pr_key p) seen) (note_group (sp_group s) (pr_key p) groups) ps)"
| "check_property key kind p = (case kind of
     KBlock inner \<Rightarrow> (case p of Block _ _ ps \<Rightarrow> validate inner ps | KeyValue _ _ _ \<Rightarrow> [finding ExpectedBlock key])
   | KBlockMap inner \<Rightarrow> (case p of Block _ _ ps \<Rightarrow> validate_block_map inner ps | KeyValue _ _ _ \<Rightarrow> [finding ExpectedBlock key])
   | KStringMap \<Rightarrow> (case p of
       Block _ _ ps \<Rightarrow> if ps = [] then [] else [finding (WrongType ''a static string object'') key]
     | KeyValue _ _ e \<Rightarrow> validate_string_map key e)
   | KOneOf variants \<Rightarrow> pick_variant key variants p (map (\<lambda>k. check_property key k p) variants)
   | _ \<Rightarrow> (case p of Block _ _ _ \<Rightarrow> [finding ExpectedValue key] | KeyValue _ _ e \<Rightarrow> check_value key kind e))"
| "validate_block_map inner [] = []"
| "validate_block_map inner (p # ps) =
     (if pr_quoted p then [finding QuotedKey (pr_key p)]
      else case p of Block _ _ qs \<Rightarrow> validate inner qs | KeyValue k _ _ \<Rightarrow> [finding ExpectedBlock k])
     @ validate_block_map inner ps"
  by pat_completeness auto
termination
proof (relation "measure (\<lambda>x. case x of
    Inl (Inl (spec, ps)) \<Rightarrow> 2 * (size_list size spec + size_list size ps) + 1
  | Inl (Inr (spec, seen, groups, ps)) \<Rightarrow> 2 * (size_list size spec + size_list size ps)
  | Inr (Inl (key, kind, p)) \<Rightarrow> 2 * (size kind + size p)
  | Inr (Inr (inner, ps)) \<Rightarrow> 2 * (size_list size inner + size_list size ps) + 1)"; (simp; fail)?)
qed (auto dest!: variant_size found_size)

declare validate_props.simps(2) [simp del] check_property.simps [simp del]

end
