(* ===== verification/Purity.thy ===== *)
theory Purity
  imports Typing Schema Blueprint
begin

section \<open>Checks of functions and processes\<close>

text \<open>
  \<open>check/function.rs\<close> and \<open>check/process.rs\<close>. The functions and processes of a configuration are lists of entries; a walk over
  a hash map goes through the list. The two depth-first walks differ in nothing but the word in the message, and share a model
  with fuel for the depth; one more than the number of definitions is enough.
\<close>

subsection \<open>Bodies of functions\<close>

definition event_idents :: "rstr list" where
  "event_idents = [''ingress'', ''egress'', ''source'', ''received_at'', ''error'', ''workspace'']"

definition fn_prefix :: "rstr \<Rightarrow> string" where
  "fn_prefix fn = ''[function '' @ fn @ ''] ''"

definition unknown_ident :: "string \<Rightarrow> diagnostic" where
  "unknown_ident m = error_kind UnknownIdent m"

definition purity_ident :: "rstr \<Rightarrow> rstr list \<Rightarrow> rstr list \<Rightarrow> diagnostic list" where
  "purity_ident fn known parts =
     (if length parts = 1 \<and> hd parts \<in> set known then []
      else if parts \<noteq> [] \<and> hd parts \<in> set event_idents then
        [with_help ''rewrite the call site to pass the value as an argument; functions cannot read from the surrounding event''
          (unknown_ident (fn_prefix fn @ ''body references Event-bound identifier '' @ quote (dotted parts) @ '' '' @ em_dash
             @ '' functions are pure and may only read their parameters''))]
      else if length parts = 1 then
        [unknown_ident (fn_prefix fn @ ''body references unknown identifier '' @ quote (hd parts) @ '' '' @ em_dash @ '' not a parameter'')]
      else if hd parts \<notin> set known then
        [unknown_ident (fn_prefix fn @ ''body references unknown path '' @ quote (dotted parts) @ '' '' @ em_dash @ '' head ''
           @ quote (hd parts) @ '' is neither a parameter nor an Event-bound identifier'')]
      else [])"

definition purity_call :: "rstr \<Rightarrow> config \<Rightarrow> 'w registry \<Rightarrow> rstr option \<Rightarrow> rstr \<Rightarrow> diagnostic list" where
  "purity_call fn cfg reg ns name =
     (if ns = None \<and> map_of (cfg_processes cfg) name \<noteq> None then
        [unknown_ident (fn_prefix fn @ ''body calls process '' @ quote name @ '' '' @ em_dash
           @ '' functions can only call other functions and built-in primitives'')]
      else if signature reg ns name = None \<and> \<not> (ns = None \<and> map_of (cfg_functions cfg) name \<noteq> None) then
        [(unknown_ident (fn_prefix fn @ ''call to unknown function '' @ quote (qualified_name ns name)))
           \<lparr>dg_help := if ns = None then did_you_mean (near_function_name name reg) else None\<rparr>]
      else [])"

function walk_for_purity :: "rstr \<Rightarrow> config \<Rightarrow> 'w registry \<Rightarrow> rstr list \<Rightarrow> expr \<Rightarrow> diagnostic list"
  and walk_body :: "rstr \<Rightarrow> config \<Rightarrow> 'w registry \<Rightarrow> rstr list \<Rightarrow> (rstr \<times> expr) list \<Rightarrow> expr \<Rightarrow> diagnostic list" where
  "walk_for_purity fn cfg reg known e = (case e of
     Ident parts \<Rightarrow> purity_ident fn known parts
   | FuncCall ns name args blk \<Rightarrow> purity_call fn cfg reg ns name @ concat (map (\<lambda>a. walk_for_purity fn cfg reg known a) args)
       @ (case blk of None \<Rightarrow> []
          | Some b \<Rightarrow> walk_body fn cfg reg (known @ ba_params b) (fb_lets (ba_body b)) (fb_ret (ba_body b)))
   | SwitchExpr s arms \<Rightarrow> concat (map (\<lambda>c. walk_for_purity fn cfg reg known c) (children e))
       @ validate_switch_default_position fn arms
   | _ \<Rightarrow> concat (map (\<lambda>c. walk_for_purity fn cfg reg known c) (children e)))"
| "walk_body fn cfg reg known [] final = walk_for_purity fn cfg reg known final"
| "walk_body fn cfg reg known ((x, e) # lets) final =
     walk_for_purity fn cfg reg known e @ walk_body fn cfg reg (x # known) lets final"
  by pat_completeness auto
termination
proof (relation "measure (\<lambda>x. case x of Inl (_, _, _, _, e) \<Rightarrow> 2 * size e
    | Inr (_, _, _, _, lets, final) \<Rightarrow> 2 * (size_list (size_prod (\<lambda>_. 0) size) lets + size final) + 1)", goal_cases)
qed (auto simp del: children.simps expr.size intro: children_size arg_size block_size[simplified])

declare walk_for_purity.simps [simp del]

definition check_function_body :: "config \<Rightarrow> 'w registry \<Rightarrow> function_def \<Rightarrow> diagnostic list" where
  "check_function_body cfg reg fd =
     walk_body (fd_name fd) cfg reg (fd_params fd) (fb_lets (fd_body fd)) (fb_ret (fd_body fd))"

subsection \<open>Cycles of calls\<close>

text \<open>The user functions that an expression calls: the block of a call is not walked.\<close>

function collect_user_callees :: "config \<Rightarrow> expr \<Rightarrow> rstr list" where
  "collect_user_callees cfg e = (case e of
     FuncCall ns name args blk \<Rightarrow>
       (if ns = None \<and> map_of (cfg_functions cfg) name \<noteq> None then [name] else [])
       @ concat (map (\<lambda>a. collect_user_callees cfg a) args)
   | _ \<Rightarrow> concat (map (\<lambda>c. collect_user_callees cfg c) (children e)))"
  by pat_completeness auto
termination
  by (relation "measure (\<lambda>(_, e). size e)") (auto simp del: children.simps expr.size intro: children_size arg_size)

declare collect_user_callees.simps [simp del]

definition body_callees :: "config \<Rightarrow> func_body \<Rightarrow> rstr list" where
  "body_callees cfg b = concat (map (\<lambda>(_, e). collect_user_callees cfg e) (fb_lets b)) @ collect_user_callees cfg (fb_ret b)"

record walk_state =
  ws_color :: "(rstr \<times> nat) list"
  ws_reported :: "rstr list list"
  ws_diags :: "diagnostic list"

definition color_of :: "walk_state \<Rightarrow> rstr \<Rightarrow> nat" where
  "color_of st n = (case map_of (ws_color st) n of Some c \<Rightarrow> c | None \<Rightarrow> 0)"

definition set_color :: "rstr \<Rightarrow> nat \<Rightarrow> walk_state \<Rightarrow> walk_state" where
  "set_color n c st = st\<lparr>ws_color := al_set n c (ws_color st)\<rparr>"

text \<open>The index of the least name, the first of equal ones, and the message of a cycle.\<close>

fun least_index :: "nat \<Rightarrow> nat \<Rightarrow> rstr \<Rightarrow> rstr list \<Rightarrow> nat" where
  "least_index i best b [] = best"
| "least_index i best b (n # ns) =
     (if bytes_cmp n b = Less then least_index (i + 1) i n ns else least_index (i + 1) best b ns)"

definition canonical :: "rstr list \<Rightarrow> rstr list" where
  "canonical cycle = (let i = (case cycle of [] \<Rightarrow> 0 | n # ns \<Rightarrow> least_index 1 0 n ns) in rotate i cycle)"

definition cycle_message :: "string \<Rightarrow> rstr list \<Rightarrow> diagnostic" where
  "cycle_message what cycle = (let sep = [CHR 0x60] @ '' '' @ right_arrow @ '' '' @ [CHR 0x60];
       path = (if length cycle = 1 then quote (hd cycle) @ '' calls itself'' else quote (join sep cycle @ sep @ hd cycle)) in
     with_help (''rewrite the '' @ what @ '' calls to form an acyclic graph'')
       (error_kind OtherKind (what @ '' call cycle detected: '' @ path @ ''; recursion in '' @ quote (''def '' @ what) @ '' is not supported'')))"

text \<open>A call of a name that is on the stack.\<close>

definition report_cycle :: "string \<Rightarrow> rstr list \<Rightarrow> rstr \<Rightarrow> walk_state \<Rightarrow> walk_state" where
  "report_cycle what stack callee st =
     (let cycle = dropWhile (\<lambda>n. n \<noteq> callee) stack; canon = canonical cycle in
      if canon \<in> set (ws_reported st) then st
      else st\<lparr>ws_reported := ws_reported st @ [canon], ws_diags := ws_diags st @ [cycle_message what cycle]\<rparr>)"

fun walk_callees :: "string \<Rightarrow> (rstr \<Rightarrow> walk_state \<Rightarrow> walk_state option) \<Rightarrow> rstr list \<Rightarrow> rstr list \<Rightarrow> walk_state \<Rightarrow> walk_state option" where
  "walk_callees what go stack [] st = Some st"
| "walk_callees what go stack (c # cs) st =
     (if color_of st c = 0 then (case go c st of None \<Rightarrow> None | Some st' \<Rightarrow> walk_callees what go stack cs st')
      else if color_of st c = 1 then walk_callees what go stack cs (report_cycle what stack c st)
      else walk_callees what go stack cs st)"

primrec dfs_cycle :: "string \<Rightarrow> (rstr \<times> rstr list) list \<Rightarrow> nat \<Rightarrow> rstr list \<Rightarrow> rstr \<Rightarrow> walk_state \<Rightarrow> walk_state option" where
  "dfs_cycle what adj 0 stack node st = None"
| "dfs_cycle what adj (Suc n) stack node st =
     map_option (set_color node 2)
       (walk_callees what (dfs_cycle what adj n (stack @ [node])) (stack @ [node])
         (case map_of adj node of Some cs \<Rightarrow> cs | None \<Rightarrow> []) (set_color node 1 st))"

fun dfs_all :: "string \<Rightarrow> (rstr \<times> rstr list) list \<Rightarrow> rstr list \<Rightarrow> walk_state \<Rightarrow> walk_state option" where
  "dfs_all what adj [] st = Some st"
| "dfs_all what adj (n # ns) st =
     (if color_of st n = 0 then (case dfs_cycle what adj (length adj + 1) [] n st of None \<Rightarrow> None | Some st' \<Rightarrow> dfs_all what adj ns st')
      else dfs_all what adj ns st)"

definition walk_start :: "(rstr \<times> rstr list) list \<Rightarrow> walk_state" where
  "walk_start adj = \<lparr>ws_color = map (\<lambda>(n, _). (n, 0)) adj, ws_reported = [], ws_diags = []\<rparr>"

definition function_graph :: "config \<Rightarrow> (rstr \<times> rstr list) list" where
  "function_graph cfg = map (\<lambda>(n, fd). (n, body_callees cfg (fd_body fd))) (cfg_functions cfg)"

definition check_function_cycles :: "config \<Rightarrow> diagnostic list option" where
  "check_function_cycles cfg = (let adj = function_graph cfg in
     map_option ws_diags (dfs_all ''function'' adj (map fst adj) (walk_start adj)))"

definition check_all_functions :: "config \<Rightarrow> 'w registry \<Rightarrow> diagnostic list option" where
  "check_all_functions cfg reg = map_option (\<lambda>ds. concat (map (\<lambda>(_, fd). check_function_body cfg reg fd) (cfg_functions cfg)) @ ds)
     (check_function_cycles cfg)"

subsection \<open>Processes\<close>

text \<open>Statements of a pipeline in a branch are ignored.\<close>

fun collect_process_callees :: "config \<Rightarrow> process_statement \<Rightarrow> rstr list"
  and collect_branch_callees :: "config \<Rightarrow> branch_body \<Rightarrow> rstr list" where
  "collect_process_callees cfg (ProcessCall name) = (if map_of (cfg_processes cfg) name \<noteq> None then [name] else [])"
| "collect_process_callees cfg (PIf branches els) =
     concat (map (\<lambda>(_, body). concat (map (collect_branch_callees cfg) body)) branches)
     @ (case els of Some body \<Rightarrow> concat (map (collect_branch_callees cfg) body) | None \<Rightarrow> [])"
| "collect_process_callees cfg (PSwitch e arms) =
     concat (map (\<lambda>(_, body). concat (map (collect_branch_callees cfg) body)) arms)"
| "collect_process_callees cfg (TryCatch t c) =
     concat (map (collect_process_callees cfg) t) @ concat (map (collect_process_callees cfg) c)"
| "collect_process_callees cfg _ = []"
| "collect_branch_callees cfg (BProcess s) = collect_process_callees cfg s"
| "collect_branch_callees cfg (BPipeline _) = []"

definition process_graph :: "config \<Rightarrow> (rstr \<times> rstr list) list" where
  "process_graph cfg = map (\<lambda>(n, pd). (n, sort_dedup (concat (map (collect_process_callees cfg) (pd_body pd))))) (cfg_processes cfg)"

definition check_process_cycles :: "config \<Rightarrow> diagnostic list option" where
  "check_process_cycles cfg = (let adj = process_graph cfg in
     map_option ws_diags (dfs_all ''process'' adj (sort_dedup (map fst adj)) (walk_start adj)))"

end
