(* ===== verification/Functions_Facts.thy ===== *)
theory Functions_Facts
  imports Functions Eval_Facts
begin

section \<open>Facts about the built-in functions\<close>

text \<open>No function panics on arguments the arity check lets through, and every function returns a value of the type its
  signature gives to the analyzer.\<close>

subsection \<open>Entries\<close>

definition typed_entry :: "'w entry \<Rightarrow> bool" where
  "typed_entry e \<longleftrightarrow> (case e of (key, fsig, f) \<Rightarrow> \<forall>args ev w v w'.
     arity_ok fsig (length args) \<longrightarrow> f args ev w = (Ok v, w') \<longrightarrow> has_ty v (fs_ret fsig))"

definition total_entry :: "'w entry \<Rightarrow> bool" where
  "total_entry e \<longleftrightarrow> (case e of (key, fsig, f) \<Rightarrow> \<forall>args ev. arity_ok fsig (length args) \<longrightarrow> totalM (f args ev))"

named_theorems entry_rules \<open>typing and totality of an entry from those of its function\<close>

lemma bindR_simps [simp]: "bindR (Ok x) k = k x" "bindR (Err e) k = Err e" "bindR Crash k = Crash"
  by (simp_all add: bindR_def)

lemma sig_simps [simp]:
  "fs_ret (sig_fixed ts r) = r" "fs_ret (sig_optional ts n r) = r" "fs_ret (sig_variadic t n r) = r" "fs_ret parser_sig = TObject"
  "arity_ok (sig_fixed ts r) k = (k = length ts)" "arity_ok (sig_optional ts n r) k = (n \<le> k \<and> k \<le> length ts)"
  "arity_ok (sig_variadic t n r) k = (n \<le> k)" "arity_ok parser_sig k = (1 \<le> k \<and> k \<le> 2)"
  by (auto simp: sig_fixed_def sig_optional_def sig_variadic_def arity_ok_def parser_sig_def)

lemma typed_pure [entry_rules]: "(\<And>args v. arity_ok fsig (length args) \<Longrightarrow> g args = Ok v \<Longrightarrow> has_ty v (fs_ret fsig)) \<Longrightarrow> typed_entry (key, fsig, pure_fn g)"
  by (auto simp: typed_entry_def pure_fn_def liftR_def)

lemma typed_on1 [entry_rules]: "(\<And>x v. f x = Ok v \<Longrightarrow> has_ty v (fs_ret fsig)) \<Longrightarrow> typed_entry (key, fsig, on1 f)"
  unfolding on1_def by (rule typed_pure) (auto simp: arg_def split: if_splits)

lemma typed_on2 [entry_rules]: "(\<And>x y v. f x y = Ok v \<Longrightarrow> has_ty v (fs_ret fsig)) \<Longrightarrow> typed_entry (key, fsig, on2 f)"
  unfolding on2_def by (rule typed_pure) (auto simp: arg_def split: if_splits)

lemma typed_text [entry_rules]: "(\<And>ts v. f ts = Ok v \<Longrightarrow> has_ty v (fs_ret fsig)) \<Longrightarrow> typed_entry (key, fsig, text_fn rfc n f)"
  unfolding text_fn_def by (rule typed_pure) auto

lemma collectR_total: "(\<And>r. r \<in> set rs \<Longrightarrow> r \<noteq> Crash) \<Longrightarrow> collectR rs \<noteq> Crash"
  by (induction rs) (auto simp: bindR_def split: res.splits)

lemma bindR_total: "r \<noteq> Crash \<Longrightarrow> (\<And>x. r = Ok x \<Longrightarrow> k x \<noteq> Crash) \<Longrightarrow> bindR r k \<noteq> Crash"
  by (auto simp: bindR_def split: res.split)

lemma totalM_liftR_iff: "totalM (liftR r) \<longleftrightarrow> r \<noteq> Crash"
  by (auto simp: totalM_def liftR_def)

lemma total_pure [entry_rules]: "(\<And>args. arity_ok fsig (length args) \<Longrightarrow> g args \<noteq> Crash) \<Longrightarrow> total_entry (key, fsig, pure_fn g)"
  by (auto simp: total_entry_def pure_fn_def totalM_liftR_iff)

lemma total_on1 [entry_rules]: "arity_ok fsig = (\<lambda>k. k = 1) \<Longrightarrow> (\<And>x. f x \<noteq> Crash) \<Longrightarrow> total_entry (key, fsig, on1 f)"
  unfolding on1_def by (rule total_pure) (auto simp: arg_def intro!: bindR_total)

lemma total_on2 [entry_rules]: "arity_ok fsig = (\<lambda>k. k = 2) \<Longrightarrow> (\<And>x y. f x y \<noteq> Crash) \<Longrightarrow> total_entry (key, fsig, on2 f)"
  unfolding on2_def by (rule total_pure) (auto simp: arg_def intro!: bindR_total)

lemma val_to_str_total: "val_to_str rfc v \<noteq> Crash"
  by (simp add: val_to_str_def)

lemma arg0_text_total: "args \<noteq> [] \<Longrightarrow> bindR (arg args 0) (val_to_str rfc) \<noteq> Crash"
  by (intro bindR_total) (auto simp: arg_def val_to_str_total)

lemma total_text [entry_rules]:
  assumes "arity_ok fsig = (\<lambda>k. k = n)" "\<And>ts. length ts = n \<Longrightarrow> f ts \<noteq> Crash"
  shows "total_entry (key, fsig, text_fn rfc n f)"
proof -
  have "bindR (collectR (map (\<lambda>i. bindR (arg args i) (val_to_str rfc)) [0..<n])) f \<noteq> Crash" if "length args = n" for args
  proof (rule bindR_total)
    show "collectR (map (\<lambda>i. bindR (arg args i) (val_to_str rfc)) [0..<n]) \<noteq> Crash"
      using that by (intro collectR_total) (auto simp: arg_def val_to_str_total intro!: bindR_total)
    show "f ts \<noteq> Crash" if "collectR (map (\<lambda>i. bindR (arg args i) (val_to_str rfc)) [0..<n]) = Ok ts" for ts
      using that assms(2) by (auto simp: collectR_map_Ok dest: list_all2_lengthD)
  qed
  then show ?thesis unfolding text_fn_def using assms(1) by (intro total_pure) simp
qed

lemma bindR_Crash [simp]: "bindR r k = Crash \<longleftrightarrow> r = Crash \<or> (\<exists>x. r = Ok x \<and> k x = Crash)"
  by (cases r) simp_all

lemma collectR_Crash [dest!]: "collectR (map f xs) = Crash \<Longrightarrow> \<exists>x \<in> set xs. f x = Crash"
  using collectR_total[of "map f xs"] by (metis imageE list.set_map)

subsection \<open>Types\<close>

lemma apply_defaults_object: "apply_defaults n d (VObject es) = Ok v \<Longrightarrow> \<exists>es'. v = VObject es'"
  by (auto simp: apply_defaults_def split: option.splits val.splits)

lemma apply_defaults_total: "apply_defaults n d v \<noteq> Crash"
  by (auto simp: apply_defaults_def split: option.splits val.splits)

lemma array_entries_typed: "list_all typed_entry array_entries"
proof -
  have "has_ty (push_back a v) (or_null_ty TArray)" "has_ty (push_front a v) (or_null_ty TArray)" for a v
    by (cases a; simp add: or_null_ty_def)+
  moreover have "has_ty (dedup v) TArray" "has_ty (measure_val v) (or_null_ty TInt)" for v
    by (cases v; simp add: or_null_ty_def)+
  moreover have "has_ty w TObject" if "entitle a b = Ok w" for a b w
    using that by (auto simp: entitle_def split: val.splits if_splits)
  ultimately show ?thesis
    unfolding array_entries_def stub_def by (auto intro!: entry_rules)
qed

lemma compiled_Ok: "compiled lib p r = Ok v \<Longrightarrow> r = Ok v"
  by (auto simp: compiled_def split: option.splits)

definition libs_ok :: "('w, 'x) libs_scheme \<Rightarrow> bool" where
  "libs_ok lib \<longleftrightarrow> (\<forall>s. lb_geoip lib s \<noteq> Crash \<and> (\<forall>v. lb_geoip lib s = Ok v \<longrightarrow> (\<exists>es. v = VObject es)))"

lemma to_bytes_bytes: "fn_to_bytes cx args = Ok v \<Longrightarrow> \<exists>b. v = VBytes b"
  unfolding fn_to_bytes_def by (cases "arg args 0"; simp; cases "case arg args 0 of Ok x \<Rightarrow> x | _ \<Rightarrow> VNull") (auto simp: bindR_def split: res.split_asm)

lemma to_string_string: "fn_to_string cx args = Ok v \<Longrightarrow> \<exists>s. v = VString s"
  unfolding fn_to_string_def bindR_Ok by auto

lemma to_int_int: "to_int x = Ok v \<Longrightarrow> v = VNull \<or> (\<exists>i. v = VInt i)"
  by (cases x) (auto split: option.split_asm if_split_asm)

lemma to_json_string: "to_json cx x = Ok v \<Longrightarrow> \<exists>s. v = VString s"
  by (auto simp: to_json_def split: if_split_asm res.split_asm option.split_asm)

lemma csv_ty: "has_ty (csv_parse row t f) TObject \<or> has_ty (csv_parse row t f) TNull"
  by (cases t; cases f; simp add: csv_parse_def split: option.split)

lemma geoip_object: "libs_ok lib \<Longrightarrow> lb_geoip lib s = Ok v \<Longrightarrow> \<exists>es. v = VObject es"
  by (simp add: libs_ok_def)

lemma regex_types:
  "regex_match lib t p = Ok v \<Longrightarrow> \<exists>b. v = VBool b" "regex_extract lib t p = Ok v \<Longrightarrow> v = VNull \<or> (\<exists>s. v = VString s)"
  "regex_replace lib t p r = Ok v \<Longrightarrow> \<exists>s. v = VString s"
  by (auto simp: regex_match_def regex_extract_def regex_replace_def dest!: compiled_Ok split: option.split_asm)

lemma text_entries_typed: "libs_ok lib \<Longrightarrow> list_all typed_entry (text_entries lib)"
  unfolding text_entries_def pred_fn_def hash_entry_def Let_def or_null_ty_def list.pred_inject
  by (intro conjI TrueI entry_rules)
    (use csv_ty in \<open>auto dest!: geoip_object regex_types to_bytes_bytes to_string_string to_int_int to_json_string\<close>)

lemma parsers_objects:
  "parse_json_impl rfc cx args = Ok v \<Longrightarrow> \<exists>es. v = VObject es" "parse_kv_impl rfc args = Ok v \<Longrightarrow> \<exists>es. v = VObject es"
  "syslog_parse rfc args = Ok v \<Longrightarrow> \<exists>es. v = VObject es" "cef_parse rfc args = Ok v \<Longrightarrow> \<exists>es. v = VObject es"
proof -
  show "\<exists>es. v = VObject es" if "parse_json_impl rfc cx args = Ok v"
  proof -
    from that obtain t where "(case jx_of_text cx t of None \<Rightarrow> Err ''parse_json(): JSON parse error: ''
        | Some j \<Rightarrow> (case json_to_value_in cx j of
            Ok parsed \<Rightarrow> apply_defaults ''parse_json'' (nth_opt args 1)
              (case parsed of VObject _ \<Rightarrow> parsed | _ \<Rightarrow> VObject [(''_json'', parsed)])
          | Err e \<Rightarrow> Err (''parse_json(): '' @ e) | Crash \<Rightarrow> Crash)) = Ok v"
      unfolding parse_json_impl_def bindR_Ok by blast
    then obtain parsed where "apply_defaults ''parse_json'' (nth_opt args 1)
        (case parsed of VObject _ \<Rightarrow> parsed | _ \<Rightarrow> VObject [(''_json'', parsed)]) = Ok v"
      by (cases "jx_of_text cx t"; simp) (cases "json_to_value_in cx (the (jx_of_text cx t))"; simp; blast)
    moreover have "\<exists>es. (case parsed of VObject _ \<Rightarrow> parsed | _ \<Rightarrow> VObject [(''_json'', parsed)]) = VObject es" by (cases parsed) auto
    ultimately show ?thesis using apply_defaults_object by metis
  qed
  show "\<exists>es. v = VObject es" if "parse_kv_impl rfc args = Ok v"
    using that by (auto simp: parse_kv_impl_def Let_def dest: apply_defaults_object split: option.splits if_splits)
  show "\<exists>es. v = VObject es" if "syslog_parse rfc args = Ok v"
    using that by (auto simp: syslog_parse_def Let_def dest: apply_defaults_object split: option.splits prod.splits)
  show "\<exists>es. v = VObject es" if "cef_parse rfc args = Ok v"
    using that by (auto simp: cef_parse_def dest: apply_defaults_object split: option.splits prod.splits if_splits)
qed

lemma parser_entries_typed: "list_all typed_entry (parser_entries lib)"
  unfolding parser_entries_def Let_def or_null_ty_def list.pred_inject
  by (intro conjI TrueI entry_rules)
    (auto simp: set_pri_impl_def extract_pri_def dest!: parsers_objects split: option.splits)

lemma world_entries_typed: "list_all typed_entry (world_entries lib)"
  by (auto simp: world_entries_def typed_entry_def or_null_ty_def split: option.splits)

subsection \<open>No panics\<close>

lemma join_arrays_total: "join_arrays vs \<noteq> Crash"
  by (induction vs) (auto split: val.split)

lemma entitle_total: "entitle a b \<noteq> Crash"
proof -
  have "entitle_pairs ks vs \<noteq> Crash" for ks vs
    by (induction ks vs rule: entitle_pairs.induct) (auto split: val.split)
  then show ?thesis by (auto simp: entitle_def split: val.split)
qed

lemma pick_total: "pick m v \<noteq> Crash"
proof -
  have "pick_from m best items \<noteq> Crash" if "\<And>b. best = Some b \<Longrightarrow> as_f64 b \<noteq> None" for best items
    using that
  proof (induction items arbitrary: best)
    case (Cons x xs)
    show ?case
    proof (cases "as_f64 x")
      case (Some cur)
      have "pick_from m (Some b) xs \<noteq> Crash" if "as_f64 b \<noteq> None" for b using Cons.IH[of "Some b"] that by simp
      then show ?thesis using Some Cons.prems by (cases best) (auto split: option.split)
    qed simp
  qed (simp add: or_null_def)
  then show ?thesis by (auto simp: pick_def split: val.split)
qed

lemma sum_total: "sum_val v \<noteq> Crash"
proof -
  have "sum_floats a items \<noteq> Crash" for a items by (induction a items rule: sum_floats.induct) (auto split: option.split)
  moreover have "sum_ints a items \<noteq> Crash" for a items by (induction a items rule: sum_ints.induct) (auto split: option.split val.split)
  ultimately show ?thesis by (auto simp: sum_val_def split: val.split)
qed

lemma path_total: "path_walk i v ks \<noteq> Crash"
  by (induction i v ks rule: path_walk.induct) (auto split: val.split)

lemma insert_path_total: "ss \<noteq> [] \<Longrightarrow> insert_path tree ss v key \<noteq> Crash"
  by (induction tree ss v key rule: insert_path.induct) (auto split: option.split node.split)

lemma nest_total: "nest_inner d v \<noteq> Crash"
proof -
  have entries: "nest_entries tree es \<noteq> Crash" if "\<And>k r. (k, r) \<in> set es \<Longrightarrow> r \<noteq> Crash" for tree es
    using that
  proof (induction tree es rule: nest_entries.induct)
    case (2 tree key r es)
    then show ?case by (auto simp: Let_def insert_path_total)
  qed simp
  show ?thesis
  proof (induction d v rule: nest_inner.induct)
    case (1 d es)
    then have "nest_entries [] (map (\<lambda>(k, v). (k, nest_inner (d + 1) v)) es) \<noteq> Crash" if "\<not> max_value_depth < d"
      using that by (intro entries) auto
    then show ?case by (auto simp: depth_err_def)
  next
    case (2 d items)
    then show ?case by (auto simp: depth_err_def)
  qed (simp_all add: depth_err_def)
qed

lemma decode_hex_total: "even (length s) \<Longrightarrow> decode_hex s \<noteq> Crash"
  by (induction s rule: decode_hex.induct) (auto simp: hex_digit_def Let_def)

lemma serialize_total: "serialize_value cx v \<noteq> Crash"
  by (induction cx v rule: serialize_value.induct) auto

lemma json_in_total: "json_to_value_in cx j \<noteq> Crash"
proof (induction cx j rule: json_to_value_in.induct)
  case (6 cx m)
  have u: "unescape_user_key k \<noteq> Crash" for k by (cases k rule: unescape_user_key.cases) auto
  show ?case
    using 6 by (auto simp: marker_bytes_def u split: option.splits sum.splits)
qed auto

lemma total_stub [entry_rules]: "total_entry (key, fsig, stub m)"
  unfolding stub_def by (rule total_pure) simp

lemma array_entries_total: "list_all total_entry array_entries"
  unfolding array_entries_def list.pred_inject
  by (intro conjI TrueI entry_rules)
    (auto simp: join_arrays_total entitle_total pick_total sum_total nest_total fn_path_def path_total arg_def fun_eq_iff)

lemma to_int_total: "to_int v \<noteq> Crash"
  by (cases v) auto

lemma to_json_total: "to_json cx v \<noteq> Crash"
  using serialize_total[of cx v] by (auto simp: to_json_def split: res.split option.split)

lemma to_bytes_total: "args \<noteq> [] \<Longrightarrow> fn_to_bytes cx args \<noteq> Crash"
  unfolding fn_to_bytes_def
  by (intro bindR_total)
    (auto simp: arg_def encoding_arg_def bytes_from_def decode_hex_total intro!: bindR_total split: val.split option.split sum.split)

lemma to_string_total: "args \<noteq> [] \<Longrightarrow> fn_to_string cx args \<noteq> Crash"
  unfolding fn_to_string_def
  by (intro bindR_total)
    (auto simp: arg_def encoding_arg_def text_from_def split: val.split option.split)

lemma not_empty: "fn_to_bytes cx args = Crash \<Longrightarrow> args = []" "fn_to_string cx args = Crash \<Longrightarrow> args = []"
  using to_bytes_total to_string_total by blast+

lemma text_entries_total: "libs_ok lib \<Longrightarrow> list_all total_entry (text_entries lib)"
  unfolding text_entries_def pred_fn_def hash_entry_def Let_def list.pred_inject
  by (intro conjI TrueI entry_rules)
    (auto simp: libs_ok_def to_int_total to_json_total regex_match_def regex_extract_def regex_parse_def
      regex_replace_def compiled_def Let_def fun_eq_iff dest: not_empty split: option.split)

lemma parse_json_total: "args \<noteq> [] \<Longrightarrow> parse_json_impl rfc cx args \<noteq> Crash"
  unfolding parse_json_impl_def
  by (intro bindR_total arg0_text_total) (auto simp: apply_defaults_total json_in_total split: option.split res.split)

lemma parse_kv_total: "args \<noteq> [] \<Longrightarrow> parse_kv_impl rfc args \<noteq> Crash"
  unfolding parse_kv_impl_def
  by (intro bindR_total arg0_text_total)
    (auto simp: apply_defaults_total separator_byte_def Let_def intro!: bindR_total split: option.split val.split list.split prod.split)

lemma syslog_parse_total: "args \<noteq> [] \<Longrightarrow> syslog_parse rfc args \<noteq> Crash"
  unfolding syslog_parse_def
  by (intro bindR_total arg0_text_total) (auto simp: apply_defaults_total Let_def split: option.split prod.split)

lemma cef_parse_total: "args \<noteq> [] \<Longrightarrow> cef_parse rfc args \<noteq> Crash"
  unfolding cef_parse_def
  by (intro bindR_total arg0_text_total) (auto simp: apply_defaults_total split: option.split prod.split)

lemma arg_as_u8_total: "arg_as_u8 v n m \<noteq> Crash"
  unfolding arg_as_u8_def by (intro bindR_total) (auto split: val.split)

lemma set_pri_total: "length args = 3 \<Longrightarrow> set_pri_impl rfc args \<noteq> Crash"
  unfolding set_pri_impl_def
  by (intro bindR_total arg0_text_total) (auto simp: arg_def arg_as_u8_total)

lemma parsers_not_empty:
  "parse_json_impl rfc cx args = Crash \<Longrightarrow> args = []" "parse_kv_impl rfc args = Crash \<Longrightarrow> args = []"
  "syslog_parse rfc args = Crash \<Longrightarrow> args = []" "cef_parse rfc args = Crash \<Longrightarrow> args = []"
  "set_pri_impl rfc args = Crash \<Longrightarrow> length args \<noteq> 3"
  using parse_json_total parse_kv_total syslog_parse_total cef_parse_total set_pri_total by blast+

lemma parser_entries_total: "list_all total_entry (parser_entries lib)"
  unfolding parser_entries_def Let_def list.pred_inject
  by (intro conjI TrueI entry_rules) (auto simp: fun_eq_iff dest: parsers_not_empty)

lemma world_entries_total: "list_all total_entry (world_entries lib)"
  by (auto simp: world_entries_def total_entry_def totalM_def)

subsection \<open>The registry\<close>

definition eventless_entry :: "'w entry \<Rightarrow> bool" where
  "eventless_entry e \<longleftrightarrow> (case e of (key, fsig, f) \<Rightarrow> \<forall>args ev ev'. f args ev = f args ev')"

lemma eventless_pure [entry_rules]: "eventless_entry (key, fsig, pure_fn g)"
  by (simp add: eventless_entry_def pure_fn_def)

lemma builtin_entries_eventless: "list_all eventless_entry (builtin_entries lib)"
proof -
  have world: "list_all eventless_entry (world_entries lib)" "list_all eventless_entry (table_entries lib)"
    by (simp_all add: world_entries_def table_entries_def Let_def eventless_entry_def on_tables_def fn_table_lookup_def fn_table_upsert_def
        fn_table_delete_def fun_eq_iff)
  have on: "eventless_entry (key, fsig, on1 f)" "eventless_entry (key, fsig, on2 h)" "eventless_entry (key, fsig, stub m)"
    "eventless_entry (key, fsig, text_fn rfc n g)" "eventless_entry (key, fsig, pred_fn rfc p)" for key fsig f h m rfc n g p
    by (simp_all add: on1_def on2_def stub_def text_fn_def pred_fn_def eventless_pure)
  show ?thesis
    unfolding builtin_entries_def list_all_append
    using world by (simp add: array_entries_def text_entries_def parser_entries_def hash_entry_def Let_def on eventless_pure)
qed

lemma table_entries_typed: "list_all typed_entry (table_entries lib)"
proof -
  have "has_ty v TNull" if "fn_table_upsert rfc args ev w = (Ok v, w')" for rfc args ev w v w'
    using that by (auto simp: fn_table_upsert_def write_store_def bindM_def liftR_def Let_def split: res.splits prod.splits if_splits option.splits)
  moreover have "has_ty v TNull" if "fn_table_delete rfc args ev w = (Ok v, w')" for rfc args ev w v w'
    using that by (auto simp: fn_table_delete_def write_store_def bindM_def liftR_def split: res.splits prod.splits)
  ultimately show ?thesis
    by (auto simp: table_entries_def Let_def typed_entry_def on_tables_def split: prod.splits)
qed

text \<open>\<open>table_upsert\<close> is the one function that can panic: when the time at which the entry would expire leaves the range of the
  clock.\<close>

definition upsert_key :: fn_key where
  "upsert_key = (None, ''table_upsert'')"

definition upsert_expiry :: "val list \<Rightarrow> table \<Rightarrow> nat option" where
  "upsert_expiry args t = (case if length args = 3 then None else expire_secs (args ! 3) of
     Some s \<Rightarrow> if s = 0 then None else Some (from_secs s) | None \<Rightarrow> tb_ttl t)"

definition upsert_overflows :: "('w, 'x) libs_scheme \<Rightarrow> val list \<Rightarrow> 'w \<Rightarrow> bool" where
  "upsert_overflows lib args w \<longleftrightarrow> (\<exists>name t d. val_to_str (lb_rfc3339 lib) (args ! 0) = Ok name
     \<and> map_of (tw_store (lb_tables lib w)) name = Some t \<and> upsert_expiry args t = Some d
     \<and> instant_limit \<le> tw_now (lb_tables lib w) + d)"

lemma tbl_upsert_crash: "tbl_upsert now k v d t = Crash \<Longrightarrow> \<exists>x. d = Some x \<and> instant_limit \<le> now + x"
  by (auto simp: tbl_upsert_def instant_add_def split: option.splits if_splits)

lemma upsert_crash:
  assumes "fst (on_tables lib (fn_table_upsert (lb_rfc3339 lib)) args ev w) = Crash"
  shows "upsert_overflows lib args w"
  using assms tbl_upsert_crash val_to_str_total
  by (fastforce simp: on_tables_def fn_table_upsert_def write_store_def bindM_def liftR_def Let_def upsert_overflows_def
      upsert_expiry_def store_upsert_def upsert_with_default_def split: res.splits prod.splits if_splits option.splits)

lemma table_entries_total: "list_all (\<lambda>en. fst en = upsert_key \<or> total_entry en) (table_entries lib)"
proof -
  have "totalM (on_tables lib (fn_table_lookup rfc) args ev)" "totalM (on_tables lib (fn_table_delete rfc) args ev)" for rfc args ev
    using val_to_str_total
    by (auto simp: totalM_def on_tables_def fn_table_lookup_def fn_table_delete_def write_store_def bindM_def liftR_def
        split: res.splits prod.splits)
  then show ?thesis by (simp add: table_entries_def Let_def upsert_key_def total_entry_def)
qed

lemma builtin_entries_total: "libs_ok lib \<Longrightarrow> list_all (\<lambda>en. fst en = upsert_key \<or> total_entry en) (builtin_entries lib)"
  using array_entries_total text_entries_total[of lib] parser_entries_total[of lib] world_entries_total[of lib] table_entries_total[of lib]
  unfolding builtin_entries_def by (simp add: list_all_iff) blast

lemma builtin_entries_typed: "libs_ok lib \<Longrightarrow> list_all typed_entry (builtin_entries lib)"
  by (simp add: builtin_entries_def array_entries_typed text_entries_typed parser_entries_typed world_entries_typed table_entries_typed)

text \<open>A function and its signature come from one entry, unless a user function took the name.\<close>

definition from_entries :: "'w entry set \<Rightarrow> 'w registry \<Rightarrow> bool" where
  "from_entries E reg \<longleftrightarrow> (\<forall>key f. map_of (reg_functions reg) key = Some f \<longrightarrow>
     fst key = None \<and> map_of (user_definitions reg) (snd key) \<noteq> None \<or>
     (\<exists>fsig. map_of (reg_signatures reg) key = Some fsig \<and> (key, fsig, f) \<in> E))"

lemma from_register: "from_entries E reg \<Longrightarrow> (key, fsig, f) \<in> E \<Longrightarrow> from_entries E (register_with_sig (fst key) (snd key) fsig f reg)"
  unfolding from_entries_def register_with_sig_def by simp

lemma from_user_function: "from_entries E reg \<Longrightarrow> from_entries E (register_user_function fd reg)"
  unfolding from_entries_def register_user_function_def by auto

lemma from_register_all: "from_entries E reg \<Longrightarrow> set es \<subseteq> E \<Longrightarrow> from_entries E (register_all es reg)"
  unfolding register_all_def by (induction es arbitrary: reg) (auto dest: from_register)

lemma from_user_functions: "from_entries E reg \<Longrightarrow> from_entries E (register_user_functions fds reg)"
  unfolding register_user_functions_def by (induction fds arbitrary: reg) (auto simp: from_user_function)

lemma from_runtime: "from_entries (set (builtin_entries lib @ others)) (runtime_registry lib others fds)"
  unfolding runtime_registry_def
  by (intro from_user_functions from_register_all) (auto simp: from_entries_def registry_new_def)

lemma from_entriesE:
  assumes "from_entries E reg" "map_of (reg_functions reg) key = Some f" "applies reg key args"
  obtains fsig where "map_of (reg_signatures reg) key = Some fsig" "(key, fsig, f) \<in> E" "arity_ok fsig (length args)"
proof -
  have "\<not> (fst key = None \<and> map_of (user_definitions reg) (snd key) \<noteq> None)" using assms(3) by (auto simp: applies_def)
  then obtain fsig where "map_of (reg_signatures reg) key = Some fsig" "(key, fsig, f) \<in> E"
    using assms(1,2) unfolding from_entries_def by blast
  then show ?thesis using assms(3) that by (auto simp: applies_def)
qed

text \<open>The keys that may be called without a panic: not \<open>table_upsert\<close>, and none of a function outside the model that can panic.\<close>

definition safe_keys :: "'w entry list \<Rightarrow> fn_key set" where
  "safe_keys others = {key. key \<noteq> upsert_key \<and> (\<forall>en \<in> set others. fst en = key \<longrightarrow> total_entry en)}"

lemma runtime_total_on:
  assumes "libs_ok lib"
  shows "total_on (safe_keys others) (runtime_registry lib others fds)"
  unfolding total_on_def
proof (intro ballI allI impI)
  fix key f args ev
  assume key: "key \<in> safe_keys others"
  assume "map_of (reg_functions (runtime_registry lib others fds)) key = Some f" "applies (runtime_registry lib others fds) key args"
  then obtain fsig where "(key, fsig, f) \<in> set (builtin_entries lib @ others)" "arity_ok fsig (length args)"
    using from_runtime by (metis from_entriesE)
  then show "totalM (f args ev)"
    using key builtin_entries_total[OF assms] by (force simp: list_all_iff total_entry_def safe_keys_def)
qed

lemma upsert_entry:
  fixes lib :: "('w, 'x) libs_scheme"
  shows "(upsert_key, fsig, f) \<in> set (builtin_entries lib) \<Longrightarrow> f = on_tables lib (fn_table_upsert (lb_rfc3339 lib))"
proof -
  have "upsert_key \<notin> fst ` set (array_entries :: 'w entry list)" by (simp add: upsert_key_def array_entries_def)
  moreover have "upsert_key \<notin> fst ` set (text_entries lib)" by (simp add: upsert_key_def text_entries_def hash_entry_def Let_def)
  moreover have "upsert_key \<notin> fst ` set (parser_entries lib)" "upsert_key \<notin> fst ` set (world_entries lib)"
    by (simp_all add: upsert_key_def parser_entries_def world_entries_def Let_def)
  moreover assume "(upsert_key, fsig, f) \<in> set (builtin_entries lib)"
  ultimately have "(upsert_key, fsig, f) \<in> set (table_entries lib)" unfolding builtin_entries_def by force
  then show ?thesis by (simp add: upsert_key_def table_entries_def Let_def)
qed

lemma builtin_entry:
  assumes "key \<notin> fst ` set others"
    and "map_of (reg_functions (runtime_registry lib others fds)) key = Some f" "applies (runtime_registry lib others fds) key args"
  obtains fsig where "map_of (reg_signatures (runtime_registry lib others fds)) key = Some fsig"
    "(key, fsig, f) \<in> set (builtin_entries lib)" "arity_ok fsig (length args)"
proof -
  obtain fsig where "map_of (reg_signatures (runtime_registry lib others fds)) key = Some fsig"
    "(key, fsig, f) \<in> set (builtin_entries lib @ others)" "arity_ok fsig (length args)"
    by (rule from_entriesE[OF from_runtime assms(2,3)])
  moreover from this have "(key, fsig, f) \<notin> set others" using assms(1) by force
  ultimately show ?thesis using that by simp
qed

lemma builtin_crash:
  assumes "libs_ok lib" "key \<notin> fst ` set others"
    and "map_of (reg_functions (runtime_registry lib others fds)) key = Some f" "applies (runtime_registry lib others fds) key args"
    and "fst (f args ev w) = Crash"
  shows "key = upsert_key \<and> upsert_overflows lib args w"
proof -
  obtain fsig where en: "(key, fsig, f) \<in> set (builtin_entries lib)" "arity_ok fsig (length args)"
    by (rule builtin_entry[OF assms(2-4)])
  have "\<not> total_entry (key, fsig, f)" using assms(5) en(2) by (auto simp: total_entry_def totalM_def)
  then have "key = upsert_key" using builtin_entries_total[OF assms(1)] en(1) by (auto simp: list_all_iff)
  moreover from this have "f = on_tables lib (fn_table_upsert (lb_rfc3339 lib))" using en(1) by (intro upsert_entry[of fsig]) simp
  ultimately show ?thesis using upsert_crash[of lib args ev w] assms(5) by simp
qed

lemma builtin_typed:
  assumes "libs_ok lib" "key \<notin> fst ` set others"
    and "map_of (reg_functions (runtime_registry lib others fds)) key = Some f" "applies (runtime_registry lib others fds) key args"
    and "map_of (reg_signatures (runtime_registry lib others fds)) key = Some fsig" "fst (f args ev w) = Ok v"
  shows "has_ty v (fs_ret fsig)"
proof -
  obtain fsig' where "map_of (reg_signatures (runtime_registry lib others fds)) key = Some fsig'"
    "(key, fsig', f) \<in> set (builtin_entries lib)" "arity_ok fsig' (length args)"
    by (rule builtin_entry[OF assms(2-4)])
  then have "typed_entry (key, fsig, f)" "arity_ok fsig (length args)"
    using assms(5) builtin_entries_typed[OF assms(1)] by (auto simp: list_all_iff)
  then show ?thesis using assms(6) unfolding typed_entry_def prod.case by (metis prod.collapse)
qed

definition signatures_sound :: "'w registry \<Rightarrow> bool" where
  "signatures_sound reg \<longleftrightarrow> (\<forall>key f fsig args ev w v w'. map_of (reg_functions reg) key = Some f \<longrightarrow> applies reg key args \<longrightarrow>
     map_of (reg_signatures reg) key = Some fsig \<longrightarrow> f args ev w = (Ok v, w') \<longrightarrow> has_ty v (fs_ret fsig))"

lemma runtime_signatures_sound:
  assumes "libs_ok lib" "list_all typed_entry others"
  shows "signatures_sound (runtime_registry lib others fds)"
  unfolding signatures_sound_def
proof (intro allI impI)
  fix key f fsig args ev w v w'
  let ?reg = "runtime_registry lib others fds"
  assume fn: "map_of (reg_functions ?reg) key = Some f" "applies ?reg key args"
    and sg: "map_of (reg_signatures ?reg) key = Some fsig" and ok: "f args ev w = (Ok v, w')"
  from fn obtain fsig' where "map_of (reg_signatures ?reg) key = Some fsig'"
    "(key, fsig', f) \<in> set (builtin_entries lib @ others)" "arity_ok fsig' (length args)"
    using from_runtime by (metis from_entriesE)
  then have "(key, fsig, f) \<in> set (builtin_entries lib @ others)" "arity_ok fsig (length args)" using sg by auto
  then have "typed_entry (key, fsig, f)" "arity_ok fsig (length args)"
    using assms builtin_entries_typed[of lib] by (auto simp: list_all_iff)
  then show "has_ty v (fs_ret fsig)" using ok unfolding typed_entry_def prod.case by blast
qed

definition eventless :: "'w registry \<Rightarrow> bool" where
  "eventless reg \<longleftrightarrow> (\<forall>key f args ev ev'. map_of (reg_functions reg) key = Some f \<longrightarrow> applies reg key args \<longrightarrow> f args ev = f args ev')"

lemma runtime_eventless:
  assumes "list_all eventless_entry others"
  shows "eventless (runtime_registry lib others fds)"
  unfolding eventless_def
proof (intro allI impI)
  fix key f args ev ev'
  assume "map_of (reg_functions (runtime_registry lib others fds)) key = Some f" "applies (runtime_registry lib others fds) key args"
  then obtain fsig where "(key, fsig, f) \<in> set (builtin_entries lib @ others)"
    using from_runtime by (metis from_entriesE)
  then show "f args ev = f args ev'"
    using assms builtin_entries_eventless[of lib] by (fastforce simp: list_all_iff eventless_entry_def)
qed

end
