(* ===== verification/Typing_Facts.thy ===== *)
theory Typing_Facts
  imports Typing Functions_Facts
begin

section \<open>Soundness of the inferred types\<close>

text \<open>
  A value that an expression evaluates to has the type inferred for it, when the bindings describe the event. The negation is
  excluded unless its operand is of type \<open>Any\<close>: its result has another type than the operand.
\<close>

subsection \<open>Type functions\<close>

lemma foldl_union: "has_ty v (foldl ty_union t ts) \<longleftrightarrow> (\<exists>x \<in> set (t # ts). has_ty v x)"
  by (induction ts arbitrary: t) auto

lemma reduce_union_Some: "reduce_union ts = Some t \<Longrightarrow> has_ty v t \<longleftrightarrow> (\<exists>x \<in> set ts. has_ty v x)"
  using foldl_union by (auto simp: reduce_union_def split: list.split_asm)

lemma reduce_union_None [simp]: "reduce_union ts = None \<longleftrightarrow> ts = []"
  by (simp add: reduce_union_def split: list.split)

lemma or_any_reduce: "x \<in> set ts \<Longrightarrow> has_ty v x \<Longrightarrow> has_ty v (or_any (reduce_union ts))"
  using reduce_union_Some by (auto simp: or_any_def split: option.split)

lemma null_type: "has_ty VNull t \<Longrightarrow> type_can_be_null t"
proof (induction t rule: type_can_be_null.induct)
  case (3 ms)
  then show ?case by (auto simp: list_ex_iff)
qed (auto simp: has_ty_iff)

lemma map_filter_mem: "x \<in> set (List.map_filter f xs) \<longleftrightarrow> (\<exists>y \<in> set xs. f y = Some x)"
  by (auto simp: List.map_filter_def image_iff)

lemma without_null: "has_ty v t \<Longrightarrow> v \<noteq> VNull \<Longrightarrow> \<exists>t'. type_without_null t = Some t' \<and> has_ty v t'"
proof (induction t rule: type_without_null.induct)
  case (2 ms)
  then obtain m where m: "m \<in> set ms" "has_ty v m" by (auto simp: list_ex_iff)
  then obtain t' where t': "type_without_null m = Some t'" "has_ty v t'" using 2 by blast
  then have mem: "t' \<in> set (List.map_filter id (map type_without_null ms))" using m(1) by (force simp: map_filter_mem)
  then obtain r where "type_without_null (TUnion ms) = Some r" by (cases "type_without_null (TUnion ms)") auto
  then show ?case using reduce_union_Some mem t'(2) by (metis type_without_null.simps(2))
qed (auto simp: has_ty_iff)

lemma coalesce_type:
  assumes "list_all2 has_ty vs ts" "vs \<noteq> []"
  shows "has_ty (coalesce vs) (coalesce_return_type ts)"
proof -
  let ?r = "reduce_union (List.map_filter type_without_null ts)"
  have nonnull: "\<exists>t. ?r = Some t \<and> has_ty v t" if "v \<in> set vs" "v \<noteq> VNull" for v
  proof -
    note v = that
    obtain i where i: "i < length vs" "vs ! i = v" using v(1) by (auto simp: in_set_conv_nth)
    then have "ts ! i \<in> set ts" "has_ty v (ts ! i)" using assms(1) by (auto simp: list_all2_conv_all_nth)
    then obtain t where "t \<in> set ts" "has_ty v t" by blast
    then obtain t' where "t' \<in> set (List.map_filter type_without_null ts)" "has_ty v t'"
      using without_null v(2) by (metis map_filter_mem)
    then show ?thesis using reduce_union_Some by (cases ?r) auto
  qed
  have cases: "coalesce us = VNull \<and> (us \<noteq> [] \<longrightarrow> last us = VNull) \<or> coalesce us \<in> set us \<and> coalesce us \<noteq> VNull" for us
    by (induction us) auto
  have len: "ts \<noteq> []" "length vs = length ts" using assms by (auto dest: list_all2_lengthD)
  show ?thesis
  proof (cases "coalesce vs = VNull")
    case True
    then have "last vs = VNull" using cases[of vs] assms(2) by auto
    moreover have "has_ty (last vs) (last ts)"
      using assms len by (simp add: last_conv_nth list_all2_conv_all_nth)
    ultimately have "type_can_be_null (last ts)" using null_type by metis
    then show ?thesis using True len by (simp add: coalesce_return_type_def Let_def split: option.split)
  next
    case False
    then have "coalesce vs \<in> set vs" using cases[of vs] by auto
    with nonnull False obtain t where "?r = Some t" "has_ty (coalesce vs) t" by blast
    then show ?thesis by (simp add: coalesce_return_type_def Let_def or_any_def)
  qed
qed

lemma len_type: "has_ty v t \<Longrightarrow> has_ty (measure_val v) (len_return_type t)"
proof (induction t rule: len_return_type.induct)
  case (1 ms)
  then obtain m where "m \<in> set ms" "has_ty v m" by (auto simp: list_ex_iff)
  then show ?case using 1 by (auto intro!: or_any_reduce)
next
  case 2
  show ?case by (cases v) simp_all
qed (auto simp: has_ty_iff)

text \<open>What \<open>filter\<close> with a block returns for a collection.\<close>

definition filter_result :: "val \<Rightarrow> val \<Rightarrow> bool" where
  "filter_result c r \<longleftrightarrow> (case c of VArray _ \<Rightarrow> \<exists>a. r = VArray a | VNull \<Rightarrow> \<exists>a. r = VArray a | VObject _ \<Rightarrow> \<exists>es. r = VObject es | _ \<Rightarrow> False)"

lemma filter_type: "has_ty c t \<Longrightarrow> filter_result c r \<Longrightarrow> has_ty r (filter_return_type t)"
proof (induction t rule: filter_return_type.induct)
  case (4 ms)
  then obtain m where "m \<in> set ms" "has_ty c m" by (auto simp: list_ex_iff)
  then show ?case using 4 by (auto intro!: or_any_reduce)
qed (auto simp: has_ty_iff filter_result_def)

subsection \<open>Bindings that describe an event\<close>

definition described :: "bindings \<Rightarrow> borrowed_event \<Rightarrow> scope \<Rightarrow> bool" where
  "described b ev sc \<longleftrightarrow>
     (\<forall>path t v. path \<noteq> [] \<longrightarrow> get_workspace b (''workspace'' # path) = Some t \<longrightarrow> resolve_workspace_direct path ev = Ok v \<longrightarrow> has_ty v t) \<and>
     (\<forall>x t v. get_let b x = Some t \<longrightarrow> sc x = Some v \<longrightarrow> has_ty v t) \<and>
     (\<forall>x \<in> insert ''workspace'' (set reserved_names). sc x = None)"

lemma prop_walk_resolve: "prop_walk ps v = resolve_workspace_path ps v"
proof -
  have null: "prop_walk ps VNull = Ok VNull" for ps by (induction ps) simp_all
  show ?thesis by (induction ps v rule: prop_walk.induct) (auto simp: null split: val.split)
qed

lemma prop_walk_append: "prop_walk (ps @ qs) v = bindR (prop_walk ps v) (prop_walk qs)"
  by (induction ps arbitrary: v) (auto split: val.split)

lemma resolve_direct: "resolve_workspace_direct (q # qs) ev = prop_walk qs (or_null (workspace_get ev q))"
  by (cases qs) (simp_all add: resolve_workspace_direct_def prop_walk_resolve)

lemma resolve_reserved:
  "resolve_event [''ingress''] ev = Ok (bytes_to_value (be_ingress ev))" "resolve_event [''egress''] ev = Ok (bytes_to_value (be_egress ev))"
  "resolve_event [''received_at''] ev = Ok (VTimestamp (be_received_at ev))"
  "resolve_event [''error''] ev = Ok (or_null (workspace_get ev ''_error''))"
  by (simp_all add: resolve_event_def Let_def)

lemma bytes_to_value_ty: "has_ty (bytes_to_value x) TString \<or> has_ty (bytes_to_value x) TBytes"
  by (simp add: bytes_to_value_def)

lemma resolve_source:
  "resolve_event [''source''] ev = Ok (VObject [(''ip'', VString (show_ip (fst (be_source ev)))), (''port'', VInt (int (snd (be_source ev))))])"
  "resolve_event [''source'', ''ip''] ev = Ok (VString (show_ip (fst (be_source ev))))"
  "resolve_event [''source'', ''port''] ev = Ok (VInt (int (snd (be_source ev))))"
  by (simp_all add: resolve_event_def Let_def)

lemma source_path: "ps @ qs = [f] \<Longrightarrow> ps = [] \<and> qs = [f] \<or> ps = [f] \<and> qs = []"
  by (cases ps) auto

lemma ident_type_source: "ps \<noteq> [] \<Longrightarrow> ps \<noteq> [''ip''] \<Longrightarrow> ps \<noteq> [''port''] \<Longrightarrow> ident_type (''source'' # ps) b = TAny"
  by (simp add: ident_type_def)

text \<open>A reference, with the access behind it, to a path.\<close>

lemma resolve_path_typed:
  assumes d: "described b ev sc" and res: "bindR (resolve_ident (p # ps) ev sc) (prop_walk qs) = Ok v"
    and err: "p # ps @ qs = [''error''] \<Longrightarrow> \<exists>s. workspace_get ev ''_error'' = Some (VString s)"
  shows "has_ty v (ident_type (p # ps @ qs) b)"
proof (cases "sc p")
  case (Some root)
  then have "p \<notin> insert ''workspace'' (set reserved_names)" using d by (auto simp: described_def)
  then have ty: "ident_type (p # ps @ qs) b = (if ps @ qs = [] then or_any (get_let b p) else TAny)"
    by (simp add: ident_type_def reserved_names_def)
  show ?thesis
  proof (cases "ps @ qs = []")
    case True
    then have "v = root" using res Some by (simp add: resolve_ident_def)
    then show ?thesis using d Some ty True by (auto simp: described_def or_any_def split: option.split)
  next
    case False
    then have "ident_type (p # ps @ qs) b = TAny" using ty by presburger
    then show ?thesis by simp
  qed
next
  case None
  then have ev: "bindR (resolve_event (p # ps) ev) (prop_walk qs) = Ok v" using res by (simp add: resolve_ident_def)
  show ?thesis
  proof (cases "p = ''workspace''")
    case True
    show ?thesis
    proof (cases "ps @ qs = []")
      case True
      then show ?thesis using ev \<open>p = _\<close> by (auto simp: resolve_event_def Let_def ident_type_def)
    next
      case False
      have "resolve_workspace_direct (ps @ qs) ev = Ok v"
      proof (cases ps)
        case Nil
        then obtain q qs' where "qs = q # qs'" using False by (cases qs) auto
        then show ?thesis using ev \<open>p = _\<close> Nil
          by (cases qs') (auto simp: resolve_event_def Let_def resolve_workspace_direct_def prop_walk_resolve workspace_get_def)
      next
        case (Cons r rs)
        then show ?thesis using ev \<open>p = _\<close>
          by (simp add: resolve_event_def Let_def resolve_direct prop_walk_append)
      qed
      then show ?thesis using d False \<open>p = _\<close>
        by (auto simp: described_def ident_type_def split: option.split)
    qed
  next
    case nws: False
    show ?thesis
    proof (cases "p = ''source''")
      case True
      consider "ps @ qs = []" | "ps @ qs = [''ip'']" | "ps @ qs = [''port'']" | "ident_type (p # ps @ qs) b = TAny"
        unfolding True using ident_type_source[of "ps @ qs" b] by argo
      then show ?thesis
      proof cases
        case 1
        then show ?thesis using ev True by (auto simp: resolve_source ident_type_def)
      next
        case 2
        then show ?thesis using ev True source_path[OF 2] by (auto simp: resolve_source ident_type_def or_null_def)
      next
        case 3
        then show ?thesis using ev True source_path[OF 3] by (auto simp: resolve_source ident_type_def or_null_def)
      qed simp
    next
      case False
      show ?thesis
      proof (cases "ps @ qs = []")
        case True
        then have "resolve_event [p] ev = Ok v" using ev by simp
        then show ?thesis
          using True False nws err bytes_to_value_ty
          by (auto simp: ident_type_def resolve_event_def Let_def or_null_def split: if_split_asm)
      next
        case ne: False
        then show ?thesis using False nws by (auto simp: ident_type_def)
      qed
    qed
  qed
qed

subsection \<open>Expressions\<close>

text \<open>A registry with the functions whose types the analyzer refines by name.\<close>

definition standard :: "'w registry \<Rightarrow> bool" where
  "standard reg \<longleftrightarrow> signatures_sound reg \<and>
     (\<forall>name fd. map_of (user_definitions reg) name = Some fd \<longrightarrow> (\<exists>s. signature reg None name = Some s \<and> fs_ret s = TAny)) \<and>
     (\<forall>name \<in> {''filter'', ''coalesce'', ''len'', ''map'', ''find'', ''reduce''}. map_of (user_definitions reg) name = None) \<and>
     map_of (reg_functions reg) (None, ''filter'') = Some (stub ''filter() requires a block argument'') \<and>
     map_of (reg_functions reg) (None, ''coalesce'') = Some (pure_fn (\<lambda>args. Ok (coalesce args))) \<and>
     signature reg None ''coalesce'' = Some (sig_variadic TAny 1 TAny) \<and>
     map_of (reg_functions reg) (None, ''len'') = Some (on1 (\<lambda>v. Ok (measure_val v))) \<and>
     (\<exists>s. signature reg None ''map'' = Some s \<and> fs_ret s = TArray) \<and>
     (\<exists>s. signature reg None ''find'' = Some s \<and> fs_ret s = TAny) \<and>
     (\<exists>s. signature reg None ''reduce'' = Some s \<and> fs_ret s = TAny)"

text \<open>The expressions whose type the analyzer gets right; \<open>err\<close> tells that the text of an error is there.\<close>

fun inferable :: "'w registry \<Rightarrow> bindings \<Rightarrow> bool \<Rightarrow> expr \<Rightarrow> bool" where
  "inferable reg b err (UnaryOp op e) = (op = OpNeg \<longrightarrow> infer reg b e = TAny)"
| "inferable reg b err (Ident parts) = (parts \<noteq> [] \<and> (parts = [''error''] \<longrightarrow> err))"
| "inferable reg b err (PropertyAccess base suffix) = (case base of
     Ident parts \<Rightarrow> parts \<noteq> [] \<and> (parts @ suffix = [''error''] \<longrightarrow> err) | _ \<Rightarrow> True)"
| "inferable reg b err (FuncCall ns name args blk) = list_all (inferable reg b err) args"
| "inferable reg b err (SwitchExpr s arms) = list_all (\<lambda>(_, body). inferable reg b err body) arms"
| "inferable reg b err _ = True"

lemma postM_mapM2: "(\<And>x. x \<in> set xs \<Longrightarrow> postM (P x) (f x)) \<Longrightarrow> postM (list_all2 P xs) (mapM f xs)"
proof (induction xs)
  case (Cons x xs)
  then have "postM (P x) (f x)" "postM (list_all2 P xs) (mapM f xs)" by simp_all
  then show ?case by (auto intro!: postM_bind[where Q = "P x"] postM_bind[where Q = "list_all2 P xs"] postM_ret)
qed (simp add: postM_ret)

lemma switch_arms_typed:
  assumes "\<And>p body s. (p, body) \<in> set arms \<Longrightarrow> postM (\<lambda>v. has_ty v (ty body)) (rec body sc)"
  shows "postM (\<lambda>v. (\<exists>(p, body) \<in> set arms. has_ty v (ty body)) \<or> v = VNull \<and> (\<forall>(p, body) \<in> set arms. p \<noteq> None))
    (eval_switch_arms rec target arms sc)"
  using assms
proof (induction arms)
  case (Cons arm arms)
  let ?P = "\<lambda>as v. (\<exists>(p, body) \<in> set as. has_ty v (ty body)) \<or> v = VNull \<and> (\<forall>(p, body) \<in> set as. p \<noteq> None)"
  obtain p body where arm: "arm = (p, body)" by (cases arm)
  have body: "postM (\<lambda>v. has_ty v (ty body)) (rec body sc)" by (rule Cons.prems[of p]) (simp add: arm)
  show ?case
  proof (cases p)
    case None
    then show ?thesis using body arm by (auto simp: postM_def)
  next
    case (Some pat)
    have rest: "postM (?P arms) (eval_switch_arms rec target arms sc)"
      by (rule Cons.IH) (use Cons.prems in auto)
    have "postM (?P (arm # arms)) (if values_equal target pv then rec body sc else eval_switch_arms rec target arms sc)" for pv
      using body rest arm Some by (auto simp: postM_def)
    then show ?thesis using arm Some by (auto intro!: postM_bind[where Q = "\<lambda>_. True"])
  qed
qed (simp add: postM_ret)

lemma switch_type_typed:
  assumes "(\<exists>(p, body) \<in> set arms. has_ty v (ty body)) \<or> v = VNull \<and> (\<forall>(p, body) \<in> set arms. p \<noteq> None)"
  shows "has_ty v (switch_type (list_ex (\<lambda>(p, _). p = None) arms) (map (\<lambda>(_, body). ty body) arms))"
  using assms
proof
  assume "\<exists>(p, body) \<in> set arms. has_ty v (ty body)"
  then obtain p body where pb: "(p, body) \<in> set arms" "has_ty v (ty body)" by auto
  then have "ty body \<in> set (map (\<lambda>(_, body). ty body) arms)" by force
  then have "\<exists>t. reduce_union (map (\<lambda>(_, body). ty body) arms) = Some t \<and> has_ty v t"
    using pb(2) reduce_union_Some by (metis (no_types, lifting) not_None_eq reduce_union_None empty_iff empty_set)
  then show ?thesis by (auto simp: switch_type_def Let_def)
next
  assume "v = VNull \<and> (\<forall>(p, body) \<in> set arms. p \<noteq> None)"
  then show ?thesis by (auto simp: switch_type_def Let_def list_ex_iff)
qed

lemma postM_registry_call:
  assumes "signatures_sound reg" "\<And>fd. ns = None \<Longrightarrow> map_of (user_definitions reg) name = Some fd \<Longrightarrow> t = TAny"
    and "\<And>f s. map_of (reg_functions reg) (ns, name) = Some f \<Longrightarrow> signature reg ns name = Some s \<Longrightarrow> t = fs_ret s"
    and "signature reg ns name = None \<Longrightarrow> t = TAny"
  shows "postM (\<lambda>v. has_ty v t) (registry_call reg ev rec ns name vs)"
proof (cases rule: registry_call_cases[of ns reg name ev rec vs])
  case (builtin f)
  show ?thesis
  proof (cases "signature reg ns name")
    case (Some s)
    then show ?thesis
      using builtin assms(1) assms(3)[OF builtin(1) Some] by (auto simp: postM_def signatures_sound_def signature_def)
  next
    case None
    then show ?thesis by (simp add: assms(4))
  qed
next
  case (user fd)
  then have "t = TAny" using assms(2) by blast
  then show ?thesis by simp
qed (simp add: postM_fail)

definition collection :: "val \<Rightarrow> bool" where
  "collection c \<longleftrightarrow> c = VNull \<or> (\<exists>a. c = VArray a) \<or> (\<exists>es. c = VObject es)"

lemma collection_typed:
  assumes "length args = k \<Longrightarrow> args \<noteq> [] \<Longrightarrow> postM (\<lambda>v. has_ty v t) (rec (hd args) sc)"
  shows "postM (\<lambda>c. has_ty c t \<and> collection c) (expect_collection_arg rec nm args k sc)"
  unfolding expect_collection_arg_def
  using assms by (cases args) (auto intro!: postM_rules postM_bind[where Q = "\<lambda>c. has_ty c t"] simp: collection_def split: val.split)

lemma filter_typed:
  assumes "length args = 1 \<Longrightarrow> postM (\<lambda>v. has_ty v t) (rec (hd args) sc)"
  shows "postM (\<lambda>r. has_ty r (filter_return_type t)) (eval_filter rec args blk sc)"
  unfolding eval_filter_def
proof (rule postM_bind[OF collection_typed[where t = t]], goal_cases)
  case (2 c)
  then show ?case
    using filter_type[of c t]
    by (auto intro!: postM_arity postM_ret postM_bind[where Q = "\<lambda>_. True"] simp: filter_result_def collection_def)
qed (use assms in simp)

lemma map_typed: "postM (\<lambda>r. has_ty r TArray) (eval_map rec args blk sc)"
  unfolding eval_map_def
  by (rule postM_bind[where Q = "\<lambda>_. True"])
    (auto intro!: postM_arity postM_ret postM_bind[where Q = "\<lambda>_. True"] split: val.split)

lemma fail_typed [simp]: "postM P (fail e)"
  by (rule postM_fail)

lemma block_primitive_cases:
  obtains "ns = None" "name = ''map''" | "ns = None" "name = ''filter''" | "ns = None" "name = ''find''" | "ns = None" "name = ''reduce''"
  | e where "eval_block_primitive rec ns name args bl sc = fail e"
proof (cases "ns = None \<and> name \<in> {''map'', ''filter'', ''find'', ''reduce''}")
  case False
  then have "\<exists>e. eval_block_primitive rec ns name args bl sc = fail e"
    unfolding eval_block_primitive_def by (cases ns) auto
  then show ?thesis using that by blast
qed (use that in blast)

text \<open>A call by name, of values of the types of the arguments.\<close>

definition call_type :: "'w registry \<Rightarrow> rstr option \<Rightarrow> rstr \<Rightarrow> field_type list \<Rightarrow> field_type" where
  "call_type reg ns name tys = (let first = (\<lambda>f. case tys of [] \<Rightarrow> TAny | t # _ \<Rightarrow> f t) in
      if ns = None \<and> name = ''filter'' then first filter_return_type
      else if ns = None \<and> name = ''coalesce'' then coalesce_return_type tys
      else if ns = None \<and> name = ''len'' then first len_return_type
      else (case signature reg ns name of Some s \<Rightarrow> fs_ret s | None \<Rightarrow> TAny))"

lemma builtin_call:
  assumes "\<And>fd. ns = None \<Longrightarrow> map_of (user_definitions reg) name \<noteq> Some fd"
    and "\<And>f. map_of (reg_functions reg) (ns, name) = Some f \<Longrightarrow> applies reg (ns, name) vs \<Longrightarrow> postM P (f vs ev)"
  shows "postM P (registry_call reg ev rec ns name vs)"
  using assms by (cases rule: registry_call_cases[of ns reg name ev rec vs]) auto

lemma call_typed:
  assumes reg: "standard reg" and vs: "list_all2 has_ty vs tys"
  shows "postM (\<lambda>v. has_ty v (call_type reg ns name tys)) (registry_call reg ev rec ns name vs)"
proof -
  consider "ns = None" "name = ''filter''" | "ns = None" "name = ''coalesce''" | "ns = None" "name = ''len''"
    | "\<not> (ns = None \<and> name \<in> {''filter'', ''coalesce'', ''len''})" by blast
  then show ?thesis
  proof cases
    case 1
    then show ?thesis
      using reg by (intro builtin_call) (auto simp: standard_def stub_def pure_fn_def liftR_def postM_def)
  next
    case 2
    have "vs \<noteq> []" if "applies reg (None, ''coalesce'') vs"
      using that reg by (auto simp: applies_def standard_def signature_def)
    then show ?thesis
      using reg coalesce_type[OF vs] 2
      by (intro builtin_call) (auto simp: standard_def pure_fn_def liftR_def postM_def call_type_def)
  next
    case 3
    have "has_ty v (call_type reg ns name tys)" if "bindR (arg vs 0) (\<lambda>v. Ok (measure_val v)) = Ok v" for v
    proof -
      note ok = that
      obtain x xs where x: "vs = x # xs" using ok by (cases vs) (auto simp: arg_def)
      then obtain t ts where "tys = t # ts" "has_ty x t" using vs by (auto simp: list_all2_Cons1)
      then show ?thesis using ok x 3 len_type by (auto simp: call_type_def arg_def)
    qed
    then show ?thesis
      using reg 3 by (intro builtin_call) (auto simp: standard_def on1_def pure_fn_def liftR_def postM_def)
  next
    case 4
    then have ty: "call_type reg ns name tys = (case signature reg ns name of Some s \<Rightarrow> fs_ret s | None \<Rightarrow> TAny)"
      by (auto simp: call_type_def)
    show ?thesis
      unfolding ty using reg by (intro postM_registry_call) (auto simp: standard_def)
  qed
qed

lemma infer_call: "infer reg b (FuncCall ns name args blk) = call_type reg ns name (map (infer reg b) args)"
  by (simp add: call_type_def Let_def)

lemma infer_sound:
  assumes reg: "standard reg" and d: "described b ev sc" and err: "err \<Longrightarrow> \<exists>s. workspace_get ev ''_error'' = Some (VString s)"
  shows "inferable reg b err e \<Longrightarrow> postM (\<lambda>v. has_ty v (infer reg b e)) (eval_expr_with_scope reg ev n e sc)"
proof (induction n arbitrary: e)
  case (Suc n)
  let ?rec = "eval_expr_with_scope reg ev n"
  have "postM (\<lambda>v. has_ty v (infer reg b e)) (eval_frame reg ev ?rec e sc)"
  proof (cases e)
    case (Ident parts)
    then obtain p ps where parts: "parts = p # ps" using Suc.prems by (cases parts) auto
    have "has_ty v (ident_type parts b)" if "resolve_ident parts ev sc = Ok v" for v
      using resolve_path_typed[OF d, of p ps "[]" v] that err Suc.prems parts Ident by auto
    then show ?thesis using Ident by (auto intro: postM_liftR)
  next
    case (PropertyAccess base suffix)
    show ?thesis
    proof (cases "\<exists>parts. base = Ident parts")
      case True
      then obtain p ps where base: "base = Ident (p # ps)" using Suc.prems PropertyAccess by (auto simp: neq_Nil_conv)
      show ?thesis
      proof (cases n)
        case (Suc m)
        have "has_ty v (ident_type (p # ps @ suffix) b)" if "bindR (resolve_ident (p # ps) ev sc) (prop_walk suffix) = Ok v" for v
          using resolve_path_typed[OF d that] err Suc.prems PropertyAccess base by auto
        then show ?thesis
          using PropertyAccess base Suc
          by (auto simp: postM_def bindM_def liftR_def bindR_def split: res.splits prod.splits)
      qed (use PropertyAccess in \<open>auto intro: postM_bind[OF postM_crash] simp: postM_crash\<close>)
    next
      case False
      then have "infer reg b e = TAny" using PropertyAccess by (cases base) auto
      then show ?thesis by simp
    qed
  next
    case (UnaryOp op x)
    show ?thesis
    proof (cases op)
      case OpNot
      then show ?thesis using UnaryOp
        by (auto intro!: postM_bind[where Q = "\<lambda>_. True"] postM_liftR simp: eval_unary_op_def)
    next
      case OpNeg
      then have "infer reg b e = TAny" using Suc.prems UnaryOp by simp
      then show ?thesis by simp
    qed
  next
    case (BinOp l op r)
    have "has_ty v (infer reg b e)" if "eval_bin_op rfc x op y = Ok v" for rfc x y v
      using that BinOp by (cases op) (auto simp: eval_bin_op_def)
    then show ?thesis using BinOp by (auto intro!: postM_bind[where Q = "\<lambda>_. True"] postM_liftR)
  next
    case (SwitchExpr s arms)
    have "postM (\<lambda>v. has_ty v (infer reg b body)) (?rec body sc)" if "(p, body) \<in> set arms" for p body
      using Suc.IH[of body] Suc.prems that SwitchExpr by (auto simp: list_all_iff)
    then have "postM (\<lambda>v. has_ty v (infer reg b e)) (eval_switch_arms ?rec t arms sc)" for t
      using switch_arms_typed[of arms "infer reg b" ?rec sc t] switch_type_typed[of arms _ "infer reg b"] SwitchExpr
      by (auto simp: postM_def)
    then show ?thesis using SwitchExpr by (auto intro!: postM_bind[where Q = "\<lambda>_. True"])
  next
    case (FuncCall ns name args blk)
    have arg: "postM (\<lambda>v. has_ty v (infer reg b a)) (?rec a sc)" if "a \<in> set args" for a
      using Suc.IH[of a] Suc.prems that FuncCall by (auto simp: list_all_iff)
    have head: "postM (\<lambda>v. has_ty v (infer reg b (hd args))) (?rec (hd args) sc)" if "args \<noteq> []"
      using arg that by simp
    show ?thesis
    proof (cases blk)
      case (Some bl)
      show ?thesis
      proof (cases rule: block_primitive_cases[of ns name _ ?rec args bl sc])
        case 1
        then have "infer reg b e = TArray" using reg FuncCall by (auto simp: standard_def Let_def)
        then show ?thesis using FuncCall Some 1 map_typed by (simp add: eval_block_primitive_def)
      next
        case 2
        have "postM (\<lambda>r. has_ty r (filter_return_type (infer reg b (hd args)))) (eval_filter ?rec args bl sc)"
          by (rule filter_typed) (use head in \<open>cases args; simp\<close>)
        then show ?thesis using FuncCall Some 2
          by (cases args) (simp_all add: eval_block_primitive_def eval_filter_def expect_collection_arg_def)
      next
        case 3
        then have "infer reg b e = TAny" using reg FuncCall by (auto simp: standard_def Let_def)
        then show ?thesis by simp
      next
        case 4
        then have "infer reg b e = TAny" using reg FuncCall by (auto simp: standard_def Let_def)
        then show ?thesis by simp
      next
        case 5
        then show ?thesis using FuncCall Some by simp
      qed
    next
      case None
      have args: "postM (list_all2 (\<lambda>a v. has_ty v (infer reg b a)) args) (mapM (\<lambda>a. ?rec a sc) args)"
        using arg by (intro postM_mapM2)
      have "postM (\<lambda>v. has_ty v (infer reg b e)) (registry_call reg ev ?rec ns name vs)"
        if "list_all2 (\<lambda>a v. has_ty v (infer reg b a)) args vs" for vs
      proof -
        have "list_all2 has_ty vs (map (infer reg b) args)" using that by (auto simp: list_all2_conv_all_nth)
        then show ?thesis using call_typed[OF reg] FuncCall by (simp only: infer_call)
      qed
      then show ?thesis using FuncCall None args by (auto intro!: postM_bind)
    qed
  qed (auto intro!: postM_ret postM_bind[where Q = "\<lambda>_. True"])
  then show ?case by simp
qed (simp add: postM_crash)

subsection \<open>Joins\<close>

text \<open>At the join of branches the bindings describe what either branch describes.\<close>

lemma map_of_join:
  "map_of (concat (map (\<lambda>(k, t). case map_of other k of Some t' \<Rightarrow> [(k, ty_union t t')] | None \<Rightarrow> []) ws)) k =
   (case (map_of ws k, map_of other k) of (Some t, Some t') \<Rightarrow> Some (ty_union t t') | _ \<Rightarrow> None)"
  by (induction ws) (auto split: option.split)

lemma get_workspace_join:
  "get_workspace (intersect_with b c) path = Some t \<Longrightarrow>
   \<exists>t1 t2. get_workspace b path = Some t1 \<and> get_workspace c path = Some t2 \<and> t = ty_union t1 t2"
  by (auto simp: get_workspace_def intersect_with_def map_of_join split: option.split_asm)

lemma get_let_join [simp]: "get_let (intersect_with b c) x = get_let b x"
  by (simp add: get_let_def intersect_with_def)

lemma described_join:
  assumes "described b ev sc \<or> described c ev sc" "bd_lets b = bd_lets c"
  shows "described (intersect_with b c) ev sc"
proof -
  have lets: "get_let b x = get_let c x" for x using assms(2) by (simp add: get_let_def)
  show ?thesis using assms(1) unfolding described_def get_let_join lets
    by (auto dest!: get_workspace_join)
qed

lemma intersect_lets: "bd_lets (intersect_with b c) = bd_lets b"
  by (simp add: intersect_with_def)

lemma described_branches:
  assumes "c \<in> set bs" "described c ev sc" "\<And>b. b \<in> set bs \<Longrightarrow> bd_lets b = ls"
  shows "described (intersect_branches bs) ev sc"
proof -
  have "described (foldl intersect_with b rest) ev sc"
    if "described b ev sc \<or> (\<exists>c \<in> set rest. described c ev sc)" "bd_lets b = ls" "\<And>b. b \<in> set rest \<Longrightarrow> bd_lets b = ls" for b rest
    using that
  proof (induction rest arbitrary: b)
    case (Cons c rest)
    have "described (intersect_with b c) ev sc \<or> (\<exists>c \<in> set rest. described c ev sc)"
      using Cons.prems described_join[of b ev sc c] by auto
    then show ?case using Cons.IH[of "intersect_with b c"] Cons.prems by (simp add: intersect_lets)
  qed simp
  then show ?thesis using assms by (cases bs) (auto simp: intersect_branches_def)
qed

subsection \<open>The registry of a configuration\<close>

lemma register_all_maps:
  "map_of (reg_functions (register_all es reg)) key =
     (case map_of (rev es) key of Some (s, f) \<Rightarrow> Some f | None \<Rightarrow> map_of (reg_functions reg) key)"
  "map_of (reg_signatures (register_all es reg)) key =
     (case map_of (rev es) key of Some (s, f) \<Rightarrow> Some s | None \<Rightarrow> map_of (reg_signatures reg) key)"
  "user_definitions (register_all es reg) = user_definitions reg"
  unfolding register_all_def
  by (induction es arbitrary: reg) (auto simp: register_with_sig_def map_add_def split: option.split)

lemma user_functions_maps:
  "reg_functions (register_user_functions fds reg) = reg_functions reg"
  "name \<notin> fd_name ` set fds \<Longrightarrow> map_of (reg_signatures (register_user_functions fds reg)) (None, name) = map_of (reg_signatures reg) (None, name)"
  "name \<notin> fd_name ` set fds \<Longrightarrow> map_of (user_definitions (register_user_functions fds reg)) name = map_of (user_definitions reg) name"
  unfolding register_user_functions_def
  by (induction fds arbitrary: reg) (auto simp: register_user_function_def)

definition any_signatures :: "'w registry \<Rightarrow> bool" where
  "any_signatures reg \<longleftrightarrow> (\<forall>name fd. map_of (user_definitions reg) name = Some fd \<longrightarrow> (\<exists>s. signature reg None name = Some s \<and> fs_ret s = TAny))"

lemma user_functions_any: "any_signatures reg \<Longrightarrow> any_signatures (register_user_functions fds reg)"
  unfolding register_user_functions_def
proof (induction fds arbitrary: reg)
  case (Cons fd fds)
  have "any_signatures (register_user_function fd reg)"
    using Cons.prems by (auto simp: any_signatures_def register_user_function_def signature_def)
  then show ?case using Cons.IH by simp
qed simp

definition refined :: "rstr list" where
  "refined = [''filter'', ''coalesce'', ''len'', ''map'', ''find'', ''reduce'']"

lemma builtin_lookup:
  "map_of (rev (builtin_entries lib)) (None, ''filter'') = Some (sig_fixed [block_collection_type] (TUnion [TArray, TObject]), stub ''filter() requires a block argument'')"
  "map_of (rev (builtin_entries lib)) (None, ''coalesce'') = Some (sig_variadic TAny 1 TAny, pure_fn (\<lambda>args. Ok (coalesce args)))"
  "map_of (rev (builtin_entries lib)) (None, ''len'') = Some (sig_fixed [TAny] (or_null_ty TInt), on1 (\<lambda>v. Ok (measure_val v)))"
  "map_of (rev (builtin_entries lib)) (None, ''map'') = Some (sig_fixed [block_collection_type] TArray, stub ''map() requires a block argument'')"
  "map_of (rev (builtin_entries lib)) (None, ''find'') = Some (sig_fixed [block_collection_type] TAny, stub ''find() requires a block argument'')"
  "map_of (rev (builtin_entries lib)) (None, ''reduce'') = Some (sig_fixed [block_collection_type, TAny] TAny, stub ''reduce() requires a block argument'')"
  by (simp_all add: builtin_entries_def array_entries_def text_entries_def parser_entries_def world_entries_def table_entries_def hash_entry_def Let_def)

lemma runtime_standard:
  assumes "libs_ok lib" "list_all typed_entry others" "\<forall>name \<in> set refined. (None, name) \<notin> fst ` set others \<and> name \<notin> fd_name ` set fds"
  shows "standard (runtime_registry lib others fds)"
proof -
  let ?base = "register_all (builtin_entries lib @ others) (registry_new (lb_rfc3339 lib))"
  have base: "map_of (reg_functions ?base) (None, name) = map_option snd (map_of (rev (builtin_entries lib)) (None, name))"
    "map_of (reg_signatures ?base) (None, name) = map_option fst (map_of (rev (builtin_entries lib)) (None, name))" if "name \<in> set refined" for name
  proof -
    have "map_of (rev others) (None, name) = None" using assms(3) that by (simp add: map_of_eq_None_iff)
    then show "map_of (reg_functions ?base) (None, name) = map_option snd (map_of (rev (builtin_entries lib)) (None, name))"
      "map_of (reg_signatures ?base) (None, name) = map_option fst (map_of (rev (builtin_entries lib)) (None, name))"
      by (simp_all add: register_all_maps registry_new_def map_add_def split: option.split)
  qed
  have "any_signatures (runtime_registry lib others fds)"
    unfolding runtime_registry_def
    by (rule user_functions_any) (simp add: any_signatures_def register_all_maps registry_new_def)
  moreover have sig: "signature (runtime_registry lib others fds) None name = map_option fst (map_of (rev (builtin_entries lib)) (None, name))"
    "map_of (reg_functions (runtime_registry lib others fds)) (None, name) = map_option snd (map_of (rev (builtin_entries lib)) (None, name))"
    "map_of (user_definitions (runtime_registry lib others fds)) name = None" if "name \<in> set refined" for name
    using base[OF that] assms(3) that
    by (simp_all add: runtime_registry_def signature_def user_functions_maps register_all_maps(3) registry_new_def)
  ultimately show ?thesis
    using runtime_signatures_sound[OF assms(1,2)] sig[of "''filter''"] sig[of "''coalesce''"] sig[of "''len''"] sig[of "''map''"]
      sig[of "''find''"] sig[of "''reduce''"]
    by (simp add: standard_def any_signatures_def refined_def builtin_lookup)
qed

end
