(* ===== verification/Schema_Facts.thy ===== *)
theory Schema_Facts
  imports Schema
begin

section \<open>Facts about the schema validator\<close>

text \<open>What the validator accepts, and that an accepted surface is read by the reader of each kind.\<close>

subsection \<open>What is accepted\<close>

definition spec_of :: "property_spec list \<Rightarrow> rstr \<Rightarrow> property_spec option" where
  "spec_of spec k = find (\<lambda>s. sp_name s = k) spec"

definition declared :: "property_spec list \<Rightarrow> property \<Rightarrow> bool" where
  "declared spec p \<longleftrightarrow> \<not> pr_quoted p \<and> (\<exists>s. spec_of spec (pr_key p) = Some s \<and> check_property (pr_key p) (sp_kind s) p = [])"

definition once :: "property_spec list \<Rightarrow> rstr set \<Rightarrow> rstr list \<Rightarrow> bool" where
  "once spec seen keys \<longleftrightarrow> (\<forall>k s. spec_of spec k = Some s \<longrightarrow> \<not> sp_repeatable s \<longrightarrow>
     count_list keys k \<le> (if k \<in> seen then 0 else 1))"

definition group_of :: "property_spec list \<Rightarrow> rstr \<Rightarrow> string option" where
  "group_of spec k = (case spec_of spec k of Some s \<Rightarrow> sp_group s | None \<Rightarrow> None)"

definition one_each :: "(string \<Rightarrow> rstr set) \<Rightarrow> bool" where
  "one_each names \<longleftrightarrow> (\<forall>g. \<forall>a \<in> names g. \<forall>b \<in> names g. a = b)"

definition names_of :: "(string \<times> rstr list) list \<Rightarrow> string \<Rightarrow> rstr set" where
  "names_of groups g = (case map_of groups g of Some ns \<Rightarrow> set ns | None \<Rightarrow> {})"

lemma set_insert_name [simp]: "set (insert_name n ms) = insert n (set ms)"
  by (induction n ms rule: insert_name.induct) auto

lemma set_sort_dedup [simp]: "set (sort_dedup ns) = set ns"
  by (induction ns) (auto simp: sort_dedup_def)

lemma sort_dedup_same: "(\<And>b. b \<in> set ns \<Longrightarrow> b = a) \<Longrightarrow> length (sort_dedup ns) \<le> 1"
proof (induction ns)
  case (Cons n ns)
  then have "length (sort_dedup ns) \<le> 1" by simp
  moreover have "b = a" if "b \<in> set (sort_dedup ns)" for b using that Cons.prems by simp
  ultimately show ?case using Cons.prems[of n]
    by (cases "sort_dedup ns"; cases "tl (sort_dedup ns)") (auto simp: sort_dedup_def)
qed (simp add: sort_dedup_def)

lemma several_names: "1 < length (sort_dedup ns) \<longleftrightarrow> (\<exists>a \<in> set ns. \<exists>b \<in> set ns. a \<noteq> b)"
proof
  assume "\<exists>a \<in> set ns. \<exists>b \<in> set ns. a \<noteq> b"
  then obtain a b where ab: "a \<in> set (sort_dedup ns)" "b \<in> set (sort_dedup ns)" "a \<noteq> b" by auto
  then show "1 < length (sort_dedup ns)" by (cases "sort_dedup ns"; cases "tl (sort_dedup ns)") auto
next
  assume len: "1 < length (sort_dedup ns)"
  show "\<exists>a \<in> set ns. \<exists>b \<in> set ns. a \<noteq> b"
  proof (cases ns)
    case (Cons n ms)
    then show ?thesis using len sort_dedup_same[of ns n] by (meson leD list.set_intros(1))
  qed (use len in \<open>simp add: sort_dedup_def\<close>)
qed

lemma group_findings_none:
  assumes "distinct (map fst groups)"
  shows "group_findings groups = [] \<longleftrightarrow> one_each (names_of groups)"
proof -
  have "group_findings groups = [] \<longleftrightarrow> (\<forall>g ns. (g, ns) \<in> set groups \<longrightarrow> \<not> 1 < length (sort_dedup ns))"
    by (auto simp: group_findings_def Let_def)
  also have "\<dots> \<longleftrightarrow> (\<forall>g ns. map_of groups g = Some ns \<longrightarrow> (\<forall>a \<in> set ns. \<forall>b \<in> set ns. a = b))"
    unfolding several_names map_of_eq_Some_iff[OF assms] by blast
  also have "\<dots> \<longleftrightarrow> one_each (names_of groups)"
    unfolding one_each_def names_of_def by (intro all_cong1) (simp split: option.split)
  finally show ?thesis .
qed

lemma note_group_distinct: "distinct (map fst groups) \<Longrightarrow> distinct (map fst (note_group g k groups))"
  by (simp add: note_group_def split: option.split)

lemma note_group_names:
  "names_of (note_group go k groups) g = names_of groups g \<union> (if go = Some g then {k} else {})"
  by (auto simp: note_group_def names_of_def split: option.split)

definition complete :: "property_spec list \<Rightarrow> rstr set \<Rightarrow> bool" where
  "complete spec keys \<longleftrightarrow> (\<forall>s \<in> set spec. sp_required s \<longrightarrow> sp_name s \<in> keys)"

lemma once_Cons: "once spec seen (k # ks) \<longleftrightarrow>
  (case spec_of spec k of Some s \<Rightarrow> k \<in> seen \<longrightarrow> sp_repeatable s | None \<Rightarrow> True) \<and> once spec (insert k seen) ks"
proof -
  have "count_list (k # ks) k' \<le> (if k' \<in> seen then 0 else 1) \<longleftrightarrow>
      (k' = k \<longrightarrow> k \<notin> seen) \<and> count_list ks k' \<le> (if k' \<in> insert k seen then 0 else 1)" for k'
    by auto
  then show ?thesis
    unfolding once_def by (auto split: option.split simp del: count_list.simps)
qed

lemma validate_props_none:
  "distinct (map fst groups) \<Longrightarrow> validate_props spec seen groups ps = [] \<longleftrightarrow>
   (\<forall>p \<in> set ps. declared spec p) \<and> once spec (set seen) (map pr_key ps) \<and> complete spec (set seen \<union> pr_key ` set ps) \<and>
   one_each (\<lambda>g. names_of groups g \<union> {k \<in> pr_key ` set ps. group_of spec k = Some g})"
proof (induction ps arbitrary: seen groups)
  case Nil
  then show ?case
    by (simp add: group_findings_none missing_findings_def filter_empty_conv complete_def once_def)
next
  case (Cons p ps)
  show ?case
  proof (cases "pr_quoted p")
    case True
    then show ?thesis by (simp add: validate_props.simps declared_def)
  next
    case nq: False
    show ?thesis
    proof (cases "spec_of spec (pr_key p)")
      case None
      then show ?thesis using nq by (simp add: validate_props.simps declared_def spec_of_def)
    next
      case (Some s)
      let ?groups = "note_group (sp_group s) (pr_key p) groups"
      have names: "names_of ?groups g \<union> {k \<in> pr_key ` set ps. group_of spec k = Some g}
          = names_of groups g \<union> {k \<in> pr_key ` set (p # ps). group_of spec k = Some g}" for g
        using Some by (auto simp: note_group_names group_of_def)
      have "validate_props spec seen groups (p # ps) = [] \<longleftrightarrow>
          (pr_key p \<in> set seen \<longrightarrow> sp_repeatable s) \<and> check_property (pr_key p) (sp_kind s) p = []
          \<and> validate_props spec (List.insert (pr_key p) seen) ?groups ps = []"
        using nq Some by (simp add: validate_props.simps spec_of_def)
      also have "\<dots> \<longleftrightarrow> (\<forall>q \<in> set (p # ps). declared spec q) \<and> once spec (set seen) (map pr_key (p # ps))
          \<and> complete spec (set seen \<union> pr_key ` set (p # ps))
          \<and> one_each (\<lambda>g. names_of groups g \<union> {k \<in> pr_key ` set (p # ps). group_of spec k = Some g})"
        unfolding Cons.IH[OF note_group_distinct[OF Cons.prems]] names
        using nq Some by (auto simp: once_Cons declared_def)
      finally show ?thesis .
    qed
  qed
qed

lemma validate_none:
  "validate spec ps = [] \<longleftrightarrow> (\<forall>p \<in> set ps. declared spec p) \<and>
     (\<forall>k s. spec_of spec k = Some s \<longrightarrow> \<not> sp_repeatable s \<longrightarrow> count_list (map pr_key ps) k \<le> 1) \<and>
     (\<forall>s \<in> set spec. sp_required s \<longrightarrow> sp_name s \<in> pr_key ` set ps) \<and>
     (\<forall>p \<in> set ps. \<forall>q \<in> set ps. group_of spec (pr_key p) \<noteq> None \<longrightarrow> group_of spec (pr_key p) = group_of spec (pr_key q) \<longrightarrow>
        pr_key p = pr_key q)"
proof -
  have "one_each (\<lambda>g. {k \<in> pr_key ` set ps. group_of spec k = Some g}) \<longleftrightarrow>
      (\<forall>p \<in> set ps. \<forall>q \<in> set ps. group_of spec (pr_key p) \<noteq> None \<longrightarrow> group_of spec (pr_key p) = group_of spec (pr_key q) \<longrightarrow>
        pr_key p = pr_key q)"
    unfolding one_each_def by fastforce
  then show ?thesis
    using validate_props_none[of "[]" spec "[]" ps] by (simp add: once_def complete_def names_of_def)
qed

subsection \<open>Readers\<close>

text \<open>Every property with a key has the shape of its kind, so the first one has.\<close>

lemma declared_kind:
  assumes "validate spec ps = []" "spec_of spec k = Some s" "p \<in> set ps" "pr_key p = k"
  shows "check_property k (sp_kind s) p = []"
  using assms unfolding validate_none declared_def by auto

lemma get_expr_member: "get_expr ps k = Some e \<Longrightarrow> \<exists>q. KeyValue k q e \<in> set ps"
  by (induction ps k rule: get_expr.induct) (auto split: if_split_asm)

lemma get_expr_found:
  assumes "p \<in> set ps" "pr_key p = k" "\<And>q. q \<in> set ps \<Longrightarrow> pr_key q = k \<Longrightarrow> \<not> is_block q"
  shows "\<exists>e. get_expr ps k = Some e"
  using assms
proof (induction ps)
  case (Cons r rs)
  show ?case
  proof (cases r)
    case (Block k' q inner)
    then have "k' \<noteq> k" using Cons.prems(3)[of r] by auto
    then have "p \<in> set rs" using Block Cons.prems(1,2) by auto
    then show ?thesis using Block Cons.IH Cons.prems(2,3) by simp
  next
    case (KeyValue k' q e)
    then show ?thesis using Cons by (cases "k' = k") auto
  qed
qed simp

lemma get_block_found:
  assumes "p \<in> set ps" "pr_key p = k" "\<And>q. q \<in> set ps \<Longrightarrow> pr_key q = k \<Longrightarrow> is_block q"
  shows "\<exists>b q. get_block ps k = Some b \<and> Block k q b \<in> set ps"
  using assms
proof (induction ps)
  case (Cons r rs)
  show ?case
  proof (cases r)
    case (KeyValue k' q e)
    then have "k' \<noteq> k" using Cons.prems(3)[of r] by auto
    then have "p \<in> set rs" using KeyValue Cons.prems(1,2) by auto
    then show ?thesis using KeyValue Cons.IH Cons.prems(2,3) by simp
  next
    case (Block k' q inner)
    show ?thesis
    proof (cases "k' = k")
      case False
      then have "p \<in> set rs" using Block Cons.prems(1,2) by auto
      then show ?thesis using Block False Cons.IH Cons.prems(2,3) by simp
    qed (use Block in auto)
  qed
qed simp

lemma get_int_expr:
  assumes "get_expr ps k = Some (IntLit n)" shows "get_int ps k = Some n"
  using assms
proof (induction ps)
  case (Cons p ps)
  show ?case
  proof (cases p)
    case (KeyValue k' q e)
    then show ?thesis using Cons by (cases "k' = k"; cases e) auto
  qed (use Cons in auto)
qed simp

lemma get_ident_expr:
  assumes "get_expr ps k = Some (Ident (x # xs))" shows "get_ident ps k = Some x"
  using assms
proof (induction ps)
  case (Cons p ps)
  show ?case
  proof (cases p)
    case (KeyValue k' q e)
    then show ?thesis using Cons by (cases "k' = k"; cases e) auto
  qed (use Cons in auto)
qed simp

text \<open>The kinds of a single value.\<close>

definition scalar_kind :: "value_kind \<Rightarrow> bool" where
  "scalar_kind kind \<longleftrightarrow> kind \<in> {KString, KInt, KBool, KDuration, KSize} \<or> (\<exists>a. kind = KEnum a)"

lemma check_scalar: "scalar_kind kind \<Longrightarrow> check_property k kind p = [] \<longleftrightarrow> (\<exists>k' q e. p = KeyValue k' q e \<and> check_value k kind e = [])"
  by (cases p) (auto simp: scalar_kind_def check_property.simps)

lemma scalar_read:
  assumes "validate spec ps = []" "spec_of spec k = Some s" "k \<in> pr_key ` set ps" "scalar_kind (sp_kind s)"
  shows "\<exists>e. get_expr ps k = Some e \<and> check_value k (sp_kind s) e = []"
proof -
  have shape: "\<exists>q e. p = KeyValue k q e \<and> check_value k (sp_kind s) e = []" if "p \<in> set ps" "pr_key p = k" for p
    using declared_kind[OF assms(1,2) that] that(2) by (auto simp: check_scalar[OF assms(4)])
  obtain p where "p \<in> set ps" "pr_key p = k" using assms(3) by auto
  then obtain e where e: "get_expr ps k = Some e" using get_expr_found[of p ps k] shape by (metis is_block.simps(2))
  then obtain q where "KeyValue k q e \<in> set ps" using get_expr_member by blast
  then show ?thesis using e shape[of "KeyValue k q e"] by auto
qed

lemma check_value_shapes:
  "check_value k KString e = [] \<Longrightarrow> (\<exists>t. e = StringLit t) \<or> (\<exists>fs. e = Template fs) \<or> (\<exists>is. e = Ident is) \<or> (\<exists>n. e = IntLit n)"
  "check_value k KInt e = [] \<Longrightarrow> \<exists>n. e = IntLit n"
  "check_value k KBool e = [] \<Longrightarrow> \<exists>b. bool_expr e = Some b"
  "check_value k KDuration e = [] \<Longrightarrow> \<exists>t n. e = StringLit t \<and> parse_duration t = Some n"
  "check_value k KSize e = [] \<Longrightarrow> \<exists>t n. e = StringLit t \<and> parse_size t = Some n"
  "check_value k (KEnum a) e = [] \<Longrightarrow> \<exists>i. e = Ident [i] \<and> i \<in> set a"
  by (auto simp: check_value_def Let_def split: expr.split_asm if_split_asm list.split_asm)

lemma schema_readers:
  assumes "validate spec ps = []" "spec_of spec k = Some s" "k \<in> pr_key ` set ps"
  shows "(sp_kind s = KInt \<longrightarrow> (\<exists>n. get_int ps k = Some n)) \<and>
    (sp_kind s = KString \<longrightarrow> (\<exists>t. get_string debug ps k = Some t)) \<and>
    (sp_kind s = KBool \<longrightarrow> (\<exists>b. get_bool ps k = Some b)) \<and>
    (sp_kind s = KDuration \<longrightarrow> (\<exists>t n. get_string debug ps k = Some t \<and> parse_duration t = Some n)) \<and>
    (sp_kind s = KSize \<longrightarrow> (\<exists>t n. get_string debug ps k = Some t \<and> parse_size t = Some n)) \<and>
    (\<forall>a. sp_kind s = KEnum a \<longrightarrow> (\<exists>i \<in> set a. get_ident ps k = Some i)) \<and>
    (\<forall>inner. sp_kind s = KBlock inner \<longrightarrow> (\<exists>qs. get_block ps k = Some qs \<and> validate inner qs = []))"
proof (intro conjI allI impI)
  note read = scalar_read[OF assms]
  show "\<exists>n. get_int ps k = Some n" if "sp_kind s = KInt"
    using read that check_value_shapes(2) get_int_expr by (fastforce simp: scalar_kind_def)
  show "\<exists>t. get_string debug ps k = Some t" if "sp_kind s = KString"
    using read that check_value_shapes(1) by (fastforce simp: scalar_kind_def get_string_def)
  show "\<exists>b. get_bool ps k = Some b" if "sp_kind s = KBool"
    using read that check_value_shapes(3) by (fastforce simp: scalar_kind_def get_bool_def)
  show "\<exists>t n. get_string debug ps k = Some t \<and> parse_duration t = Some n" if "sp_kind s = KDuration"
    using read that check_value_shapes(4) by (fastforce simp: scalar_kind_def get_string_def)
  show "\<exists>t n. get_string debug ps k = Some t \<and> parse_size t = Some n" if "sp_kind s = KSize"
    using read that check_value_shapes(5) by (fastforce simp: scalar_kind_def get_string_def)
  show "\<exists>i \<in> set a. get_ident ps k = Some i" if "sp_kind s = KEnum a" for a
    using read that check_value_shapes(6) get_ident_expr by (fastforce simp: scalar_kind_def)
  show "\<exists>qs. get_block ps k = Some qs \<and> validate inner qs = []" if kind: "sp_kind s = KBlock inner" for inner
  proof -
    have shape: "\<exists>q qs. p = Block k q qs \<and> validate inner qs = []" if "p \<in> set ps" "pr_key p = k" for p
      using declared_kind[OF assms(1,2) that] that(2) kind by (cases p) (auto simp: check_property.simps)
    obtain p where "p \<in> set ps" "pr_key p = k" using assms(3) by auto
    then obtain b q where "get_block ps k = Some b" "Block k q b \<in> set ps"
      using get_block_found[of p ps k] shape by (metis is_block.simps(1))
    then show ?thesis using shape[of "Block k q b"] by auto
  qed
qed

end
