(* ===== verification/Purity_Facts.thy ===== *)
theory Purity_Facts
  imports Purity Typing_Facts Schema_Facts
begin

section \<open>Facts about the checks of functions\<close>

text \<open>
  The walk for cycles accepts exactly the graphs without one, with the fuel it is given. A function the checks accept does not
  read the event, and its evaluation ends if the blocks in the functions call no user function.
\<close>

subsection \<open>The walk\<close>

definition callees :: "(rstr \<times> rstr list) list \<Rightarrow> rstr \<Rightarrow> rstr list" where
  "callees adj n = (case map_of adj n of Some cs \<Rightarrow> cs | None \<Rightarrow> [])"

definition acyclic_graph :: "(rstr \<times> rstr list) list \<Rightarrow> (rstr \<Rightarrow> nat) \<Rightarrow> bool" where
  "acyclic_graph adj rk \<longleftrightarrow> (\<forall>n. \<forall>c \<in> set (callees adj n). rk c < rk n)"

definition closed_graph :: "(rstr \<times> rstr list) list \<Rightarrow> bool" where
  "closed_graph adj \<longleftrightarrow> (\<forall>n. set (callees adj n) \<subseteq> fst ` set adj)"

definition white :: "(rstr \<times> rstr list) list \<Rightarrow> walk_state \<Rightarrow> rstr set" where
  "white adj st = {n \<in> fst ` set adj. color_of st n = 0}"

lemma color_set_color [simp]: "color_of (set_color n c st) m = (if m = n then c else color_of st m)"
  by (simp add: color_of_def set_color_def)

lemma set_color_simps [simp]:
  "ws_reported (set_color n c st) = ws_reported st" "ws_diags (set_color n c st) = ws_diags st"
  by (simp_all add: set_color_def)

lemma color_report [simp]: "color_of (report_cycle what stack c st) m = color_of st m"
  by (simp add: report_cycle_def color_of_def Let_def)

lemma report_reported: "ws_reported (report_cycle what stack c st) \<noteq> []"
  by (auto simp: report_cycle_def Let_def)

text \<open>What a walk never takes back: reports, and the colors of the nodes that are not white.\<close>

definition grows :: "walk_state \<Rightarrow> walk_state \<Rightarrow> bool" where
  "grows st st' \<longleftrightarrow> (ws_reported st' = [] \<longrightarrow> ws_reported st = []) \<and>
     (\<forall>n. color_of st n = 0 \<and> color_of st' n = 2 \<or> color_of st' n = color_of st n)"

definition colors_ok :: "walk_state \<Rightarrow> bool" where
  "colors_ok st \<longleftrightarrow> (\<forall>n. color_of st n \<le> 2)"

lemma grows_refl: "grows st st"
  by (simp add: grows_def)

lemma grows_trans: "grows a b \<Longrightarrow> grows b c \<Longrightarrow> grows a c"
  unfolding grows_def by (metis zero_neq_numeral)

lemma grows_report: "grows st (report_cycle what stack c st)"
  by (simp add: grows_def report_reported)

lemma grows_reported: "grows a b \<Longrightarrow> ws_reported b = [] \<Longrightarrow> ws_reported a = []"
  by (simp add: grows_def)

lemma grows_color: "grows a b \<Longrightarrow> color_of a n \<noteq> 0 \<Longrightarrow> color_of b n = color_of a n"
  unfolding grows_def by (metis zero_neq_numeral)

lemma colors_report [simp]: "colors_ok (report_cycle what stack c st) = colors_ok st"
  by (simp add: colors_ok_def)

definition ranked :: "(rstr \<times> rstr list) list \<Rightarrow> walk_state \<Rightarrow> bool" where
  "ranked adj st \<longleftrightarrow> (\<exists>rk :: rstr \<Rightarrow> nat. \<forall>n. color_of st n = 2 \<longrightarrow> (\<forall>c \<in> set (callees adj n). color_of st c = 2 \<and> rk c < rk n))"

lemma ranked_finish:
  assumes "ranked adj s" "color_of s node = 1" "\<forall>c \<in> set (callees adj node). color_of s c = 2"
  shows "ranked adj (set_color node 2 s)"
proof -
  obtain rk :: "rstr \<Rightarrow> nat" where rk: "\<forall>n. color_of s n = 2 \<longrightarrow> (\<forall>c \<in> set (callees adj n). color_of s c = 2 \<and> rk c < rk n)"
    using assms(1) unfolding ranked_def ..
  let ?rk = "rk(node := Suc (sum_list (map rk (callees adj node))))"
  have ne: "c \<noteq> node" if "color_of s c = 2" for c using that assms(2) by auto
  have "rk c \<le> sum_list (map rk (callees adj node))" if "c \<in> set (callees adj node)" for c
    using that by (intro member_le_sum_list) auto
  then have "color_of (set_color node 2 s) c = 2 \<and> ?rk c < ?rk n"
    if "color_of (set_color node 2 s) n = 2" "c \<in> set (callees adj n)" for n c
    using that rk ne assms(3) by (cases "n = node") (auto simp: less_Suc_eq_le)
  then show ?thesis unfolding ranked_def by blast
qed

text \<open>A step of the walk, from a white node to its blackening; and the steps over a list of callees.\<close>

definition blackens :: "(rstr \<times> rstr list) list \<Rightarrow> rstr list \<Rightarrow> walk_state \<Rightarrow> walk_state \<Rightarrow> bool" where
  "blackens adj cs st st' \<longleftrightarrow> grows st st' \<and> colors_ok st' \<and>
     (ws_reported st' = [] \<longrightarrow> (ranked adj st \<longrightarrow> ranked adj st') \<and> (\<forall>c \<in> set cs. color_of st' c = 2))"

lemma blackens_Nil: "colors_ok st \<Longrightarrow> blackens adj [] st st"
  by (simp add: blackens_def grows_refl)

lemma blackens_Cons: "blackens adj [c] a b \<Longrightarrow> blackens adj cs b d \<Longrightarrow> blackens adj (c # cs) a d"
  unfolding blackens_def using grows_trans[of a b d] grows_reported[of b d] grows_color[of b d c] by simp

lemma walk_callees_blackens:
  assumes "\<And>c st st'. c \<in> set cs \<Longrightarrow> colors_ok st \<Longrightarrow> color_of st c = 0 \<Longrightarrow> go c st = Some st' \<Longrightarrow> blackens adj [c] st st'"
    and "colors_ok st" "walk_callees what go stack cs st = Some st'"
  shows "blackens adj cs st st'"
  using assms
proof (induction cs arbitrary: st)
  case Nil
  then show ?case by (simp add: blackens_Nil)
next
  case (Cons c cs)
  have rest: "blackens adj cs s1 st'" if "colors_ok s1" "walk_callees what go stack cs s1 = Some st'" for s1
    by (rule Cons.IH) (use Cons.prems(1) that in \<open>simp_all\<close>)
  have "color_of st c \<le> 2" using Cons.prems(2) by (simp add: colors_ok_def)
  then consider "color_of st c = 0" | "color_of st c = 1" | "color_of st c = 2" by linarith
  then show ?case
  proof cases
    case 1
    then obtain s1 where s1: "go c st = Some s1" "walk_callees what go stack cs s1 = Some st'"
      using Cons.prems(3) by (auto split: option.split_asm)
    have b: "blackens adj [c] st s1" by (rule Cons.prems(1)) (use Cons.prems(2) 1 s1 in simp_all)
    then show ?thesis using rest[OF _ s1(2)] blackens_Cons[OF b] by (simp add: blackens_def)
  next
    case 2
    let ?s1 = "report_cycle what stack c st"
    have w: "walk_callees what go stack cs ?s1 = Some st'" using 2 Cons.prems(3) by simp
    have "blackens adj [c] st ?s1"
      using Cons.prems(2) by (simp add: blackens_def grows_report report_reported)
    then show ?thesis using rest[OF _ w] Cons.prems(2) blackens_Cons by simp
  next
    case 3
    then have w: "walk_callees what go stack cs st = Some st'" using Cons.prems(3) by simp
    have "blackens adj [c] st st" using 3 Cons.prems(2) by (simp add: blackens_def grows_refl)
    then show ?thesis using rest[OF _ w] Cons.prems(2) blackens_Cons by simp
  qed
qed

lemma dfs_blackens:
  "colors_ok st \<Longrightarrow> color_of st node = 0 \<Longrightarrow> dfs_cycle what adj n stack node st = Some st' \<Longrightarrow> blackens adj [node] st st'"
proof (induction n arbitrary: stack node st st')
  case (Suc n)
  let ?st = "set_color node 1 st"
  obtain s where s: "walk_callees what (dfs_cycle what adj n (stack @ [node])) (stack @ [node]) (callees adj node) ?st = Some s"
    "st' = set_color node 2 s" using Suc.prems(3) by (auto simp: callees_def)
  have b: "blackens adj (callees adj node) ?st s"
    by (rule walk_callees_blackens[OF _ _ s(1)]) (use Suc in \<open>auto simp: colors_ok_def\<close>)
  have one: "color_of s node = 1" using b grows_color[of ?st s node] by (simp add: blackens_def)
  have "grows st st'"
    using b Suc.prems(2) s(2) unfolding blackens_def grows_def by simp (metis zero_neq_one)
  moreover have "colors_ok st'" using b s(2) by (simp add: blackens_def colors_ok_def)
  moreover have "ranked adj st'" if rep: "ws_reported st' = []" and r: "ranked adj st"
  proof -
    have rep_s: "ws_reported s = []" using rep s(2) by simp
    have "ranked adj ?st"
    proof -
      obtain rk :: "rstr \<Rightarrow> nat" where rk: "\<forall>n. color_of st n = 2 \<longrightarrow> (\<forall>c \<in> set (callees adj n). color_of st c = 2 \<and> rk c < rk n)"
        using r unfolding ranked_def ..
      have "color_of ?st c = 2 \<and> rk c < rk n" if "color_of ?st n = 2" "c \<in> set (callees adj n)" for n c
      proof -
        have "n \<noteq> node" "color_of st n = 2" using that(1) by (auto split: if_split_asm)
        then have "color_of st c = 2 \<and> rk c < rk n" using rk that(2) by blast
        then show ?thesis using Suc.prems(2) by auto
      qed
      then show ?thesis unfolding ranked_def by blast
    qed
    then have "ranked adj s" "\<forall>c \<in> set (callees adj node). color_of s c = 2" using b rep_s by (simp_all add: blackens_def)
    then show ?thesis unfolding s(2) using one by (intro ranked_finish)
  qed
  ultimately show ?case using s(2) by (simp add: blackens_def)
qed simp

text \<open>The fuel is enough.\<close>

lemma white_finite [simp]: "finite (white adj st)"
  by (simp add: white_def)

lemma white_grows: "grows st st' \<Longrightarrow> white adj st' \<subseteq> white adj st"
  unfolding grows_def white_def by auto

lemma white_set_color: "node \<in> white adj st \<Longrightarrow> card (white adj (set_color node 1 st)) < card (white adj st)"
  by (rule psubset_card_mono) (auto simp: white_def)

lemma walk_callees_total:
  assumes "\<And>c st. c \<in> set cs \<Longrightarrow> colors_ok st \<Longrightarrow> c \<in> white adj st \<Longrightarrow> card (white adj st) \<le> n \<Longrightarrow> \<exists>st'. go c st = Some st'"
    and "\<And>c st st'. c \<in> set cs \<Longrightarrow> colors_ok st \<Longrightarrow> color_of st c = 0 \<Longrightarrow> go c st = Some st' \<Longrightarrow> grows st st' \<and> colors_ok st'"
    and "colors_ok st" "set cs \<subseteq> fst ` set adj" "card (white adj st) \<le> n"
  shows "\<exists>st'. walk_callees what go stack cs st = Some st'"
  using assms
proof (induction cs arbitrary: st)
  case (Cons c cs)
  have rest: "\<exists>st'. walk_callees what go stack cs s1 = Some st'" if s1: "colors_ok s1" "grows st s1" for s1
  proof (rule Cons.IH)
    show "card (white adj s1) \<le> n"
      using card_mono[OF white_finite white_grows[OF s1(2)]] Cons.prems(5) by (rule order_trans)
    show "\<exists>st'. go c' s = Some st'" if "c' \<in> set cs" "colors_ok s" "c' \<in> white adj s" "card (white adj s) \<le> n" for c' s
      by (rule Cons.prems(1)) (use that in simp_all)
    show "grows s s' \<and> colors_ok s'" if "c' \<in> set cs" "colors_ok s" "color_of s c' = 0" "go c' s = Some s'" for c' s s'
      by (rule Cons.prems(2)[of c']) (use that in simp_all)
  qed (use Cons.prems(4) s1 in simp_all)
  show ?case
  proof (cases "color_of st c = 0")
    case True
    then have "c \<in> white adj st" using Cons.prems(4) by (simp add: white_def)
    then obtain s1 where s1: "go c st = Some s1" using Cons.prems(1)[of c st] Cons.prems(3,5) by auto
    then have "grows st s1" "colors_ok s1" using Cons.prems(2)[of c st s1] Cons.prems(3) True by simp_all
    then show ?thesis using rest s1 True by simp
  next
    case False
    then show ?thesis using rest[of st] rest[of "report_cycle what stack c st"] Cons.prems(3)
      by (simp add: grows_refl grows_report)
  qed
qed simp

lemma dfs_total:
  assumes "closed_graph adj"
  shows "colors_ok st \<Longrightarrow> node \<in> white adj st \<Longrightarrow> card (white adj st) \<le> n \<Longrightarrow> \<exists>st'. dfs_cycle what adj n stack node st = Some st'"
proof (induction n arbitrary: stack node st)
  case 0
  then have "white adj st = {}" by simp
  then show ?case using 0(2) by simp
next
  case (Suc n)
  let ?st = "set_color node 1 st"
  let ?go = "dfs_cycle what adj n (stack @ [node])"
  have "\<exists>st'. walk_callees what ?go (stack @ [node]) (callees adj node) ?st = Some st'"
  proof (rule walk_callees_total[of _ adj n])
    show "card (white adj ?st) \<le> n" using white_set_color[OF Suc.prems(2)] Suc.prems(3) by simp
    show "colors_ok ?st" using Suc.prems(1) by (simp add: colors_ok_def)
    show "set (callees adj node) \<subseteq> fst ` set adj" using assms by (simp add: closed_graph_def)
    show "\<exists>st'. ?go c s = Some st'" if "colors_ok s" "c \<in> white adj s" "card (white adj s) \<le> n" for c s
      using Suc.IH that by blast
    show "grows s s' \<and> colors_ok s'" if "colors_ok s" "color_of s c = 0" "?go c s = Some s'" for c s s'
      using dfs_blackens[OF that] by (simp add: blackens_def)
  qed
  then show ?case by (auto simp: callees_def)
qed

text \<open>Without a cycle nothing is reported.\<close>

lemma dfs_acyclic:
  assumes "acyclic_graph adj rk"
  shows "colors_ok st \<Longrightarrow> color_of st node = 0 \<Longrightarrow> \<forall>x. color_of st x = 1 \<longrightarrow> rk node < rk x \<Longrightarrow>
    dfs_cycle what adj n stack node st = Some st' \<Longrightarrow> ws_reported st' = ws_reported st"
proof (induction n arbitrary: stack node st st')
  case (Suc n)
  let ?go = "dfs_cycle what adj n (stack @ [node])"
  have walk: "ws_reported b = ws_reported a"
    if "walk_callees what ?go (stack @ [node]) cs a = Some b" "\<forall>c \<in> set cs. rk c < rk node" "colors_ok a"
      "\<forall>x. color_of a x = 1 \<longrightarrow> rk node \<le> rk x" for cs a b
    using that
  proof (induction cs arbitrary: a)
    case (Cons c cs)
    have c: "rk c < rk node" using Cons.prems(2) by simp
    have "color_of a c \<noteq> 1" using c Cons.prems(4) by force
    then consider "color_of a c = 0" | "color_of a c \<noteq> 0" "color_of a c \<noteq> 1" by blast
    then show ?case
    proof cases
      case 1
      then obtain a1 where a1: "?go c a = Some a1" "walk_callees what ?go (stack @ [node]) cs a1 = Some b"
        using Cons.prems(1) by (auto split: option.split_asm)
      have "\<forall>x. color_of a x = 1 \<longrightarrow> rk c < rk x" using c Cons.prems(4) by force
      then have "ws_reported a1 = ws_reported a" using Suc.IH[OF Cons.prems(3) 1 _ a1(1)] by simp
      moreover have b: "blackens adj [c] a a1" using dfs_blackens[OF Cons.prems(3) 1 a1(1)] .
      moreover have "\<forall>x. color_of a1 x = 1 \<longrightarrow> rk node \<le> rk x"
        using b Cons.prems(4) unfolding blackens_def grows_def by (metis one_neq_zero num.distinct(1) one_eq_numeral_iff)
      ultimately show ?thesis using Cons.IH[OF a1(2)] Cons.prems(2) by (simp add: blackens_def)
    next
      case 2
      then show ?thesis using Cons.IH[of a] Cons.prems by simp
    qed
  qed simp
  obtain s where s: "walk_callees what ?go (stack @ [node]) (callees adj node) (set_color node 1 st) = Some s"
    "st' = set_color node 2 s" using Suc.prems(4) by (auto simp: callees_def)
  have "ws_reported s = ws_reported (set_color node 1 st)"
    by (rule walk[OF s(1)]) (use assms Suc.prems in \<open>auto simp: acyclic_graph_def colors_ok_def less_imp_le\<close>)
  then show ?case using s(2) by simp
qed simp

text \<open>A diagnostic stands for each report.\<close>

definition balanced :: "walk_state \<Rightarrow> bool" where
  "balanced st \<longleftrightarrow> length (ws_diags st) = length (ws_reported st)"

lemma balanced_steps [simp]: "balanced (set_color n c st) = balanced st" "balanced st \<Longrightarrow> balanced (report_cycle what stack callee st)"
  by (simp_all add: balanced_def report_cycle_def Let_def)

lemma walk_callees_balanced:
  "(\<And>c st st'. balanced st \<Longrightarrow> go c st = Some st' \<Longrightarrow> balanced st') \<Longrightarrow> balanced st \<Longrightarrow>
   walk_callees what go stack cs st = Some st' \<Longrightarrow> balanced st'"
proof (induction cs arbitrary: st)
  case (Cons c cs)
  show ?case
  proof (cases "color_of st c = 0")
    case True
    then obtain s1 where "go c st = Some s1" "walk_callees what go stack cs s1 = Some st'"
      using Cons.prems(3) by (auto split: option.split_asm)
    then show ?thesis using Cons.IH Cons.prems(1,2) by blast
  next
    case False
    have IH: "walk_callees what go stack cs a = Some st' \<Longrightarrow> balanced a \<Longrightarrow> balanced st'" for a
      using Cons.IH Cons.prems(1) by blast
    show ?thesis using False Cons.prems(2,3) IH[of st] IH[of "report_cycle what stack c st"] by (simp split: if_split_asm)
  qed
qed simp

lemma dfs_balanced: "balanced st \<Longrightarrow> dfs_cycle what adj n stack node st = Some st' \<Longrightarrow> balanced st'"
proof (induction n arbitrary: stack node st st')
  case (Suc n)
  then obtain s where s: "walk_callees what (dfs_cycle what adj n (stack @ [node])) (stack @ [node]) (callees adj node) (set_color node 1 st) = Some s"
    "st' = set_color node 2 s" by (auto simp: callees_def)
  have "balanced s" by (rule walk_callees_balanced[OF _ _ s(1)]) (use Suc in auto)
  then show ?case using s(2) by simp
qed simp

subsection \<open>The check for cycles\<close>

definition no_gray :: "walk_state \<Rightarrow> bool" where
  "no_gray st \<longleftrightarrow> (\<forall>n. color_of st n = 0 \<or> color_of st n = 2)"

lemma no_gray_grows: "no_gray st \<Longrightarrow> grows st st' \<Longrightarrow> no_gray st'"
  unfolding no_gray_def grows_def by metis

lemma no_gray_ok: "no_gray st \<Longrightarrow> colors_ok st"
  unfolding no_gray_def colors_ok_def by (metis le_refl zero_le)

lemma dfs_top_total:
  assumes "closed_graph adj" "n \<in> fst ` set adj" "no_gray st" "color_of st n = 0"
  shows "\<exists>s1. dfs_cycle what adj (length adj + 1) [] n st = Some s1 \<and> blackens adj [n] st s1"
proof -
  have w: "n \<in> white adj st" using assms(2,4) by (simp add: white_def)
  have "card (white adj st) \<le> card (fst ` set adj)" by (rule card_mono) (auto simp: white_def)
  also have "\<dots> \<le> length adj" using card_image_le[of "set adj" fst] card_length[of adj] by simp
  finally have "card (white adj st) \<le> length adj + 1" by simp
  then obtain s1 where "dfs_cycle what adj (length adj + 1) [] n st = Some s1"
    using dfs_total[OF assms(1) no_gray_ok[OF assms(3)] w] by blast
  then show ?thesis using dfs_blackens[OF no_gray_ok[OF assms(3)] assms(4)] by blast
qed

lemma dfs_all_blackens:
  assumes "closed_graph adj"
  shows "set ns \<subseteq> fst ` set adj \<Longrightarrow> no_gray st \<Longrightarrow> \<exists>st'. dfs_all what adj ns st = Some st' \<and> blackens adj ns st st'"
proof (induction ns arbitrary: st)
  case Nil
  then show ?case by (simp add: blackens_Nil no_gray_ok)
next
  case (Cons n ns)
  have IH: "\<exists>st'. dfs_all what adj ns s1 = Some st' \<and> blackens adj ns s1 st'" if "no_gray s1" for s1
    using Cons.IH[OF _ that] Cons.prems(1) by simp
  show ?case
  proof (cases "color_of st n = 0")
    case True
    have "n \<in> fst ` set adj" using Cons.prems(1) by simp
    from dfs_top_total[OF assms this Cons.prems(2) True]
    obtain s1 where s1: "dfs_cycle what adj (length adj + 1) [] n st = Some s1" "blackens adj [n] st s1" by blast
    then have "no_gray s1" using no_gray_grows Cons.prems(2) by (simp add: blackens_def)
    from IH[OF this] show ?thesis using True s1(1) blackens_Cons[OF s1(2)] by auto
  next
    case False
    then have "color_of st n = 2" using Cons.prems(2) unfolding no_gray_def by metis
    then have "blackens adj [n] st st" using Cons.prems(2) by (simp add: blackens_def grows_refl no_gray_ok)
    from blackens_Cons[OF this] IH[OF Cons.prems(2)] show ?thesis using False by auto
  qed
qed

lemma dfs_all_acyclic:
  assumes "acyclic_graph adj rk"
  shows "no_gray st \<Longrightarrow> dfs_all what adj ns st = Some st' \<Longrightarrow> ws_reported st' = ws_reported st"
proof (induction ns arbitrary: st)
  case (Cons n ns)
  show ?case
  proof (cases "color_of st n = 0")
    case True
    then obtain s1 where s1: "dfs_cycle what adj (length adj + 1) [] n st = Some s1" "dfs_all what adj ns s1 = Some st'"
      using Cons.prems(2) by (auto split: option.split_asm)
    have "\<forall>x. color_of st x = 1 \<longrightarrow> rk n < rk x" using Cons.prems(1) unfolding no_gray_def by (metis one_neq_zero num.distinct(1) one_eq_numeral_iff)
    then have "ws_reported s1 = ws_reported st"
      using dfs_acyclic[OF assms no_gray_ok[OF Cons.prems(1)] True _ s1(1)] by blast
    moreover have "no_gray s1"
      using dfs_blackens[OF no_gray_ok[OF Cons.prems(1)] True s1(1)] no_gray_grows[OF Cons.prems(1)] by (simp add: blackens_def)
    ultimately show ?thesis using Cons.IH s1(2) by simp
  next
    case False
    then show ?thesis using Cons by simp
  qed
qed simp

lemma dfs_all_balanced: "balanced st \<Longrightarrow> dfs_all what adj ns st = Some st' \<Longrightarrow> balanced st'"
  by (induction ns arbitrary: st) (auto simp del: dfs_cycle.simps split: if_split_asm option.split_asm dest: dfs_balanced)

lemma color_start: "color_of (walk_start adj) n = 0"
  unfolding color_of_def walk_start_def by (induction adj) auto

text \<open>The walk returns, and reports nothing exactly when the graph has no cycle.\<close>

lemma cycle_walk:
  assumes "closed_graph adj" "set ns = fst ` set adj"
  shows "\<exists>st. dfs_all what adj ns (walk_start adj) = Some st \<and> (ws_diags st = [] \<longleftrightarrow> (\<exists>rk. acyclic_graph adj rk))"
proof -
  have start: "no_gray (walk_start adj)" "balanced (walk_start adj)" "ranked adj (walk_start adj)" "ws_reported (walk_start adj) = []"
    by (simp_all add: no_gray_def color_start ranked_def) (simp_all add: balanced_def walk_start_def)
  obtain st where st: "dfs_all what adj ns (walk_start adj) = Some st" "blackens adj ns (walk_start adj) st"
    using dfs_all_blackens[OF assms(1) _ start(1)] assms(2) by blast
  have diags: "ws_diags st = [] \<longleftrightarrow> ws_reported st = []"
    using dfs_all_balanced[OF start(2) st(1)] by (auto simp: balanced_def)
  have "\<exists>rk. acyclic_graph adj rk" if "ws_reported st = []"
  proof -
    have r: "ranked adj st" "\<forall>n \<in> fst ` set adj. color_of st n = 2" using st(2) that start(3) assms(2) by (simp_all add: blackens_def)
    then obtain rk :: "rstr \<Rightarrow> nat" where rk: "\<forall>n. color_of st n = 2 \<longrightarrow> (\<forall>c \<in> set (callees adj n). color_of st c = 2 \<and> rk c < rk n)"
      unfolding ranked_def by auto
    have "rk c < rk n" if c: "c \<in> set (callees adj n)" for n c
    proof -
      have "map_of adj n \<noteq> None" using c by (cases "map_of adj n") (auto simp: callees_def)
      then have "n \<in> fst ` set adj" by (simp add: map_of_eq_None_iff)
      then show ?thesis using rk r(2) c by blast
    qed
    then show ?thesis by (auto simp: acyclic_graph_def)
  qed
  moreover have "ws_reported st = []" if "acyclic_graph adj rk" for rk
    using dfs_all_acyclic[OF that start(1) st(1)] start(4) by simp
  ultimately show ?thesis using st(1) diags by blast
qed

lemma callees_of_call:
  "collect_user_callees cfg (FuncCall ns name args blk) =
     (if ns = None \<and> map_of (cfg_functions cfg) name \<noteq> None then [name] else []) @ concat (map (collect_user_callees cfg) args)"
  by (subst collect_user_callees.simps) simp

lemma callees_of_other:
  "(\<And>ns name args blk. e \<noteq> FuncCall ns name args blk) \<Longrightarrow> collect_user_callees cfg e = concat (map (collect_user_callees cfg) (children e))"
  by (subst collect_user_callees.simps) (simp split: expr.split)

lemma user_callees_declared: "n \<in> set (collect_user_callees cfg e) \<Longrightarrow> map_of (cfg_functions cfg) n \<noteq> None"
proof (induction e rule: measure_induct_rule[where f = size])
  case (less e)
  show ?case
  proof (cases "\<exists>ns name args blk. e = FuncCall ns name args blk")
    case True
    then obtain ns name args blk where e: "e = FuncCall ns name args blk" by blast
    then consider "n = name" "map_of (cfg_functions cfg) name \<noteq> None" | a where "a \<in> set args" "n \<in> set (collect_user_callees cfg a)"
      using less.prems e by (auto simp: callees_of_call split: if_split_asm)
    then show ?thesis using less.IH arg_size e by cases blast+
  next
    case False
    then have "collect_user_callees cfg e = concat (map (collect_user_callees cfg) (children e))"
      by (intro callees_of_other) blast
    then obtain c where "c \<in> set (children e)" "n \<in> set (collect_user_callees cfg c)" using less.prems by auto
    then show ?thesis using less.IH children_size by blast
  qed
qed

lemma callees_functions:
  "callees (function_graph cfg) n = (case map_of (cfg_functions cfg) n of Some fd \<Rightarrow> body_callees cfg (fd_body fd) | None \<Rightarrow> [])"
  by (cases "map_of (cfg_functions cfg) n") (simp_all add: callees_def function_graph_def map_of_map)

lemma mem_callees_functions:
  "c \<in> set (callees (function_graph cfg) n) \<longleftrightarrow> (\<exists>fd. map_of (cfg_functions cfg) n = Some fd \<and> c \<in> set (body_callees cfg (fd_body fd)))"
  by (cases "map_of (cfg_functions cfg) n") (simp_all add: callees_functions)

lemma closed_functions: "closed_graph (function_graph cfg)"
proof -
  have "c \<in> fst ` set (function_graph cfg)" if "c \<in> set (callees (function_graph cfg) n)" for n c
  proof -
    have "map_of (cfg_functions cfg) c \<noteq> None"
      using that user_callees_declared by (auto simp: callees_functions body_callees_def split: option.split_asm)
    then have "c \<in> fst ` set (cfg_functions cfg)" by (simp add: map_of_eq_None_iff)
    then show ?thesis by (force simp: function_graph_def)
  qed
  then show ?thesis by (auto simp: closed_graph_def)
qed

definition functions_ranked :: "config \<Rightarrow> (rstr \<Rightarrow> nat) \<Rightarrow> bool" where
  "functions_ranked cfg rk \<longleftrightarrow> (\<forall>n fd. map_of (cfg_functions cfg) n = Some fd \<longrightarrow> (\<forall>c \<in> set (body_callees cfg (fd_body fd)). rk c < rk n))"

lemma function_cycles:
  "\<exists>ds. check_function_cycles cfg = Some ds \<and> (ds = [] \<longleftrightarrow> (\<exists>rk. functions_ranked cfg rk))"
proof -
  have "acyclic_graph (function_graph cfg) rk \<longleftrightarrow> functions_ranked cfg rk" for rk
    unfolding acyclic_graph_def functions_ranked_def Ball_def mem_callees_functions by blast
  then show ?thesis
    using cycle_walk[OF closed_functions, of "map fst (function_graph cfg)" cfg "''function''"]
    by (auto simp: check_function_cycles_def Let_def)
qed

lemma process_callees_declared:
  "n \<in> set (collect_process_callees cfg s) \<Longrightarrow> map_of (cfg_processes cfg) n \<noteq> None"
  "n \<in> set (collect_branch_callees cfg b) \<Longrightarrow> map_of (cfg_processes cfg) n \<noteq> None"
  by (induction cfg s and cfg b rule: collect_process_callees_collect_branch_callees.induct)
    (auto split: if_split_asm option.split_asm)

lemma callees_processes: "set (callees (process_graph cfg) n) =
  (case map_of (cfg_processes cfg) n of Some pd \<Rightarrow> set (concat (map (collect_process_callees cfg) (pd_body pd))) | None \<Rightarrow> {})"
  by (cases "map_of (cfg_processes cfg) n") (simp_all add: callees_def process_graph_def map_of_map)

lemma closed_processes: "closed_graph (process_graph cfg)"
proof -
  have "c \<in> fst ` set (process_graph cfg)" if "c \<in> set (callees (process_graph cfg) n)" for n c
  proof -
    have "map_of (cfg_processes cfg) c \<noteq> None"
      using that process_callees_declared(1) by (auto simp: callees_processes split: option.split_asm)
    then have "c \<in> fst ` set (cfg_processes cfg)" by (simp add: map_of_eq_None_iff)
    then show ?thesis by (force simp: process_graph_def)
  qed
  then show ?thesis by (auto simp: closed_graph_def)
qed

definition processes_ranked :: "config \<Rightarrow> (rstr \<Rightarrow> nat) \<Rightarrow> bool" where
  "processes_ranked cfg rk \<longleftrightarrow> (\<forall>n pd. map_of (cfg_processes cfg) n = Some pd \<longrightarrow>
     (\<forall>s \<in> set (pd_body pd). \<forall>c \<in> set (collect_process_callees cfg s). rk c < rk n))"

lemma process_cycles:
  "\<exists>ds. check_process_cycles cfg = Some ds \<and> (ds = [] \<longleftrightarrow> (\<exists>rk. processes_ranked cfg rk))"
proof -
  have "acyclic_graph (process_graph cfg) rk \<longleftrightarrow> processes_ranked cfg rk" for rk
    unfolding acyclic_graph_def processes_ranked_def callees_processes by (intro all_cong1) (auto split: option.split)
  then show ?thesis
    using cycle_walk[OF closed_processes, of "sort_dedup (map fst (process_graph cfg))" cfg "''process''"]
    by (auto simp: check_process_cycles_def Let_def)
qed

end
