(* ===== verification/Noninterference.thy ===== *)
theory Noninterference
  imports Purity_Facts
begin

section \<open>What the event has no part in\<close>

text \<open>
  \<open>reads P K e\<close>: every name that \<open>e\<close> reads is bound in the scope (a name of \<open>K\<close>, a parameter or a \<open>let\<close>) or a path
  of \<open>P\<close>. Evaluation is then the same for two events that agree on the paths of \<open>P\<close>. The check of functions gives this with
  no path at all, the check of outputs with the paths that the pipeline does not change.
\<close>

function reads :: "(rstr list \<Rightarrow> bool) \<Rightarrow> rstr set \<Rightarrow> expr \<Rightarrow> bool"
  and reads_body :: "(rstr list \<Rightarrow> bool) \<Rightarrow> rstr set \<Rightarrow> (rstr \<times> expr) list \<Rightarrow> expr \<Rightarrow> bool" where
  "reads P K e = (case e of
     Ident parts \<Rightarrow> parts = [] \<or> hd parts \<in> K \<or> P parts
   | FuncCall ns name args blk \<Rightarrow> (\<forall>a \<in> set args. reads P K a) \<and>
       (case blk of None \<Rightarrow> True | Some b \<Rightarrow> reads_body P (K \<union> set (ba_params b)) (fb_lets (ba_body b)) (fb_ret (ba_body b)))
   | _ \<Rightarrow> (\<forall>c \<in> set (children e). reads P K c))"
| "reads_body P K [] final = reads P K final"
| "reads_body P K ((x, e) # lets) final = (reads P K e \<and> reads_body P (insert x K) lets final)"
  by pat_completeness auto
termination
proof (relation "measure (\<lambda>x. case x of Inl (_, _, e) \<Rightarrow> 2 * size e
    | Inr (_, _, lets, final) \<Rightarrow> 2 * (size_list (size_prod (\<lambda>_. 0) size) lets + size final) + 1)", goal_cases)
qed (auto simp del: children.simps expr.size intro: children_size arg_size block_size[simplified])

declare reads.simps [simp del]

lemma reads_ident [simp]: "reads P K (Ident parts) = (parts = [] \<or> hd parts \<in> K \<or> P parts)"
  by (subst reads.simps) simp

lemma reads_call [simp]: "reads P K (FuncCall ns name args blk) = ((\<forall>a \<in> set args. reads P K a) \<and>
    (case blk of None \<Rightarrow> True | Some b \<Rightarrow> reads_body P (K \<union> set (ba_params b)) (fb_lets (ba_body b)) (fb_ret (ba_body b))))"
  by (subst reads.simps) simp

lemma reads_children:
  "reads P K e \<Longrightarrow> (\<And>ns name args blk. e \<noteq> FuncCall ns name args blk) \<Longrightarrow> c \<in> set (children e) \<Longrightarrow> reads P K c"
  by (subst (asm) reads.simps) (auto split: expr.split_asm)

subsection \<open>Two evaluators that agree\<close>

lemma bindM_cong: "m = m' \<Longrightarrow> (\<And>x. k x = k' x) \<Longrightarrow> bindM m k = bindM m' k'"
proof -
  assume "m = m'" and "\<And>x. k x = k' x"
  then have "m = m'" "k = k'" by (simp_all add: fun_eq_iff)
  then show ?thesis by simp
qed

lemma mapM_cong: "(\<And>x. x \<in> set xs \<Longrightarrow> f x = g x) \<Longrightarrow> mapM f xs = mapM g xs"
  by (induction xs) simp_all

lemma fragments_agree:
  "(\<And>e. Interp e \<in> set fs \<Longrightarrow> rec e sc = rec' e sc) \<Longrightarrow> eval_fragments rfc rec fs sc = eval_fragments rfc rec' fs sc"
  by (induction rfc rec fs sc rule: eval_fragments.induct) (auto intro!: bindM_cong)

lemma arms_agree:
  "(\<And>p b. (p, b) \<in> set arms \<Longrightarrow> rec b sc = rec' b sc \<and> (\<forall>q. p = Some q \<longrightarrow> rec q sc = rec' q sc)) \<Longrightarrow>
   eval_switch_arms rec t arms sc = eval_switch_arms rec' t arms sc"
proof (induction arms)
  case (Cons arm arms)
  obtain p b where arm: "arm = (p, b)" by (cases arm)
  have "rec b sc = rec' b sc \<and> (\<forall>q. p = Some q \<longrightarrow> rec q sc = rec' q sc)" using Cons.prems[of p b] arm by simp
  moreover have "eval_switch_arms rec t arms sc = eval_switch_arms rec' t arms sc"
    by (rule Cons.IH) (use Cons.prems in auto)
  ultimately show ?case using arm by (cases p) (auto intro!: bindM_cong)
qed simp

definition agree_on :: "(rstr list \<Rightarrow> bool) \<Rightarrow> 'w eval_fn \<Rightarrow> 'w eval_fn \<Rightarrow> bool" where
  "agree_on P rec rec' \<longleftrightarrow> (\<forall>K e sc. reads P K e \<longrightarrow> K \<subseteq> dom sc \<longrightarrow> rec e sc = rec' e sc)"

lemma agree_onD: "agree_on P rec rec' \<Longrightarrow> reads P K e \<Longrightarrow> K \<subseteq> dom sc \<Longrightarrow> rec e sc = rec' e sc"
  unfolding agree_on_def by blast

lemma bind_all_dom: "length ps = length vs \<Longrightarrow> dom (scope_bind_all ps vs sc) = dom sc \<union> set ps"
  unfolding scope_bind_all_def
proof (induction ps vs arbitrary: sc rule: list_induct2)
  case (Cons p ps v vs)
  then show ?case by (auto simp: scope_bind_def)
qed simp

lemma bindM_bindM: "bindM (bindM m f) g = bindM m (\<lambda>x. bindM (f x) g)"
  by (auto simp: bindM_def fun_eq_iff split: prod.split res.split)

lemma bind_ret_bind: "bindM (bindM m (\<lambda>v. ret (f v))) k = bindM m (\<lambda>v. k (f v))"
  by (auto simp: bindM_def ret_def fun_eq_iff split: prod.split res.split)

lemma body_agree:
  assumes "agree_on P rec rec'"
  shows "reads_body P K lets final \<Longrightarrow> K \<subseteq> dom sc \<Longrightarrow> eval_body rec (FuncBody lets final) sc = eval_body rec' (FuncBody lets final) sc"
proof (induction lets arbitrary: K sc)
  case Nil
  then show ?case using agree_onD[OF assms] by (simp add: eval_body_def)
next
  case (Cons l lets)
  obtain x e where l: "l = (x, e)" by (cases l)
  have e: "rec e sc = rec' e sc" by (rule agree_onD[OF assms, of K]) (use Cons.prems l in simp_all)
  have "eval_body r (FuncBody (l # lets) final) sc = bindM (r e sc) (\<lambda>v. eval_body r (FuncBody lets final) (scope_bind x v sc))" for r :: "'a eval_fn"
    by (simp add: eval_body_def l bind_ret_bind bindM_bindM)
  moreover have "eval_body rec (FuncBody lets final) (scope_bind x v sc) = eval_body rec' (FuncBody lets final) (scope_bind x v sc)" for v
    by (rule Cons.IH[of "insert x K"]) (use Cons.prems l in \<open>auto simp: scope_bind_def\<close>)
  ultimately show ?case using e by simp
qed

definition block_reads :: "(rstr list \<Rightarrow> bool) \<Rightarrow> rstr set \<Rightarrow> block_arg \<Rightarrow> bool" where
  "block_reads P K b \<longleftrightarrow> reads_body P (K \<union> set (ba_params b)) (fb_lets (ba_body b)) (fb_ret (ba_body b))"

lemma block_agree:
  assumes "agree_on P rec rec'" "block_reads P K b" "K \<subseteq> dom sc"
  shows "eval_block_body rec b vs sc = eval_block_body rec' b vs sc"
proof (cases "length vs = length (ba_params b)")
  case True
  have "dom (scope_bind_all (ba_params b) vs sc) = dom sc \<union> set (ba_params b)" using True by (intro bind_all_dom) simp
  then have "K \<union> set (ba_params b) \<subseteq> dom (scope_bind_all (ba_params b) vs sc)" using assms(3) by auto
  from body_agree[OF assms(1) assms(2)[unfolded block_reads_def] this] show ?thesis
    using True by (simp add: eval_block_body_def)
qed (simp add: eval_block_body_def)

lemma collection_agree:
  assumes "\<And>a. a \<in> set args \<Longrightarrow> rec a sc = rec' a sc"
  shows "expect_collection_arg rec nm args k sc = expect_collection_arg rec' nm args k sc"
  using assms by (cases args) (simp_all add: expect_collection_arg_def)

lemma blocks_agree:
  assumes args: "\<And>a. a \<in> set args \<Longrightarrow> rec a sc = rec' a sc" and body: "\<And>vs. eval_block_body rec b vs sc = eval_block_body rec' b vs sc"
  shows "eval_block_primitive rec ns name args b sc = eval_block_primitive rec' ns name args b sc"
proof -
  have coll: "expect_collection_arg rec nm args k sc = expect_collection_arg rec' nm args k sc" for nm k
    by (rule collection_agree) (rule args)
  have "eval_map rec args b sc = eval_map rec' args b sc" "eval_filter rec args b sc = eval_filter rec' args b sc"
    "eval_find rec args b sc = eval_find rec' args b sc"
    unfolding eval_map_def eval_filter_def eval_find_def coll body by (rule refl)+
  moreover have "eval_reduce rec args b sc = eval_reduce rec' args b sc"
  proof (cases "length args = 2")
    case True
    then have "rec (args ! 1) sc = rec' (args ! 1) sc" by (intro args) simp
    then show ?thesis unfolding eval_reduce_def coll body by simp
  next
    case False
    then show ?thesis by (simp add: eval_reduce_def expect_collection_arg_def)
  qed
  ultimately show ?thesis by (simp add: eval_block_primitive_def split: option.split)
qed

text \<open>One frame of each evaluator, under events that agree on \<open>P\<close>.\<close>

definition same_paths :: "(rstr list \<Rightarrow> bool) \<Rightarrow> borrowed_event \<Rightarrow> borrowed_event \<Rightarrow> bool" where
  "same_paths P ev ev' \<longleftrightarrow> (\<forall>parts. P parts \<longrightarrow> resolve_event parts ev = resolve_event parts ev')"

definition pure_functions :: "'w registry \<Rightarrow> bool" where
  "pure_functions reg \<longleftrightarrow> (\<forall>name fd. map_of (user_definitions reg) name = Some fd \<longrightarrow>
     reads_body (\<lambda>_. False) (set (fd_params fd)) (fb_lets (fd_body fd)) (fb_ret (fd_body fd)))"

lemma user_call_agree:
  assumes "agree_on (\<lambda>_. False) rec rec'" "reads_body (\<lambda>_. False) (set (fd_params fd)) (fb_lets (fd_body fd)) (fb_ret (fd_body fd))"
  shows "call_user_function rec fd vs = call_user_function rec' fd vs"
proof (cases "length vs = length (fd_params fd)")
  case True
  have "set (fd_params fd) \<subseteq> dom (scope_bind_all (fd_params fd) vs Map.empty)" using True bind_all_dom[of "fd_params fd" vs Map.empty] by simp
  from body_agree[OF assms this] show ?thesis using True by (simp add: call_user_function_def)
qed (simp add: call_user_function_def)

lemma frame_agree:
  assumes reg: "eventless reg" "pure_functions reg" and ev: "same_paths P ev ev'"
    and rec: "agree_on P rec rec'" "agree_on (\<lambda>_. False) rec rec'"
    and e: "reads P K e" "K \<subseteq> dom sc"
  shows "eval_frame reg ev rec e sc = eval_frame reg ev' rec' e sc"
proof (cases "\<exists>ns name args blk. e = FuncCall ns name args blk")
  case True
  then obtain ns name args blk where call: "e = FuncCall ns name args blk" by blast
  have args: "rec a sc = rec' a sc" if "a \<in> set args" for a
    by (rule agree_onD[OF rec(1) _ e(2)]) (use e(1) call that in simp)
  show ?thesis
  proof (cases blk)
    case (Some b)
    then have "block_reads P K b" using e(1) call by (simp add: block_reads_def)
    then have "eval_block_primitive rec ns name args b sc = eval_block_primitive rec' ns name args b sc"
      using args block_agree[OF rec(1) _ e(2)] by (intro blocks_agree) auto
    then show ?thesis using call Some by simp
  next
    case None
    have "registry_call reg ev rec ns name vs = registry_call reg ev' rec' ns name vs" for vs
    proof (cases "if ns = None then map_of (user_definitions reg) name else None")
      case (Some fd)
      then have "map_of (user_definitions reg) name = Some fd" by (simp split: if_split_asm)
      then have "call_user_function rec fd vs = call_user_function rec' fd vs"
        using reg(2) by (intro user_call_agree[OF rec(2)]) (simp add: pure_functions_def)
      then show ?thesis using Some by (simp add: registry_call_def)
    next
      case none: None
      show ?thesis
      proof (cases "map_of (reg_functions reg) (ns, name)")
        case (Some f)
        show ?thesis
        proof (cases "applies reg (ns, name) vs")
          case True
          then have "f vs ev = f vs ev'" using reg(1) Some by (simp add: eventless_def)
          then show ?thesis using none Some by (simp add: registry_call_def)
        next
          case False
          then obtain fsig where "map_of (reg_signatures reg) (ns, name) = Some fsig" "\<not> arity_ok fsig (length vs)"
            using none by (auto simp: applies_def split: if_splits)
          then show ?thesis using none Some
            by (simp add: registry_call_def validate_arity_def Let_def liftR_def bindM_def)
        qed
      qed (use none in \<open>simp add: registry_call_def\<close>)
    qed
    then have "registry_call reg ev rec ns name = registry_call reg ev' rec' ns name" by (simp add: fun_eq_iff)
    then show ?thesis using call None mapM_cong[of args "\<lambda>a. rec a sc" "\<lambda>a. rec' a sc"] args by simp
  qed
next
  case False
  have sub: "rec c sc = rec' c sc" if "c \<in> set (children e)" for c
    by (rule agree_onD[OF rec(1) reads_children[OF e(1) _ that] e(2)]) (use False in blast)
  show ?thesis
  proof (cases e)
    case (Ident parts)
    then have "parts = [] \<or> hd parts \<in> dom sc \<or> P parts" using e by auto
    then have "resolve_ident parts ev sc = resolve_ident parts ev' sc"
      using ev by (cases parts) (auto simp: resolve_ident_def same_paths_def split: option.split)
    then show ?thesis using Ident by simp
  next
    case (Template fs)
    have "eval_fragments (to_rfc3339 reg) rec fs sc = eval_fragments (to_rfc3339 reg) rec' fs sc"
      by (rule fragments_agree) (use sub Template in force)
    then show ?thesis using Template by simp
  next
    case (HashLit es)
    have "mapM (\<lambda>(k, e). bindM (rec e sc) (\<lambda>v. ret (k, v))) es = mapM (\<lambda>(k, e). bindM (rec' e sc) (\<lambda>v. ret (k, v))) es"
      by (rule mapM_cong) (use sub HashLit in force)
    then show ?thesis using HashLit by simp
  next
    case (ArrayLit es)
    have "mapM (\<lambda>e. rec e sc) es = mapM (\<lambda>e. rec' e sc) es" by (rule mapM_cong) (use sub ArrayLit in simp)
    then show ?thesis using ArrayLit by simp
  next
    case (SwitchExpr s arms)
    have "eval_switch_arms rec t arms sc = eval_switch_arms rec' t arms sc" for t
      by (rule arms_agree) (use sub SwitchExpr children_arm in blast)
    then show ?thesis using SwitchExpr sub by simp
  qed (use sub False in simp_all)
qed

lemma noninterference:
  assumes "eventless reg" "pure_functions reg" "same_paths P ev ev'"
  shows "reads P K e \<Longrightarrow> K \<subseteq> dom sc \<Longrightarrow> eval_expr_with_scope reg ev n e sc = eval_expr_with_scope reg ev' n e sc"
proof -
  have "agree_on P (eval_expr_with_scope reg ev n) (eval_expr_with_scope reg ev' n) \<and>
    agree_on (\<lambda>_. False) (eval_expr_with_scope reg ev n) (eval_expr_with_scope reg ev' n)"
  proof (induction n)
    case (Suc n)
    have "same_paths (\<lambda>_. False) ev ev'" by (simp add: same_paths_def)
    then show ?case
      using Suc frame_agree[OF assms(1,2)] assms(3) unfolding agree_on_def[of _ "eval_expr_with_scope reg ev (Suc n)"]
      by simp
  qed (simp add: agree_on_def)
  then show "reads P K e \<Longrightarrow> K \<subseteq> dom sc \<Longrightarrow> eval_expr_with_scope reg ev n e sc = eval_expr_with_scope reg ev' n e sc"
    using agree_onD by blast
qed

subsection \<open>What the check of functions gives\<close>

lemma walk_call: "walk_for_purity fn cfg reg known (FuncCall ns name args blk) =
    purity_call fn cfg reg ns name @ concat (map (\<lambda>a. walk_for_purity fn cfg reg known a) args)
    @ (case blk of None \<Rightarrow> []
       | Some b \<Rightarrow> walk_body fn cfg reg (known @ ba_params b) (fb_lets (ba_body b)) (fb_ret (ba_body b)))"
  by (subst walk_for_purity.simps) simp

lemma walk_children:
  assumes "walk_for_purity fn cfg reg known e = []" "\<And>ns name args blk. e \<noteq> FuncCall ns name args blk" "\<And>parts. e \<noteq> Ident parts"
    and "c \<in> set (children e)"
  shows "walk_for_purity fn cfg reg known c = []"
proof -
  have "concat (map (\<lambda>c. walk_for_purity fn cfg reg known c) (children e)) = []"
  proof (cases e)
    case FuncCall
    then show ?thesis using assms(2) by blast
  next
    case Ident
    then show ?thesis using assms(3) by blast
  qed (use assms(1) in \<open>subst (asm) walk_for_purity.simps; simp\<close>)+
  then show ?thesis using assms(4) by (metis concat_eq_Nil_conv image_eqI list.set_map)
qed

lemma reads_other:
  assumes "\<And>ns name args blk. e \<noteq> FuncCall ns name args blk" "\<And>parts. e \<noteq> Ident parts" "\<And>c. c \<in> set (children e) \<Longrightarrow> reads P K c"
  shows "reads P K e"
proof (cases e)
  case FuncCall
  then show ?thesis using assms(1) by blast
next
  case Ident
  then show ?thesis using assms(2) by blast
qed (subst reads.simps; use assms(3) in simp)+

lemma purity_ident_reads: "purity_ident fn known parts = [] \<Longrightarrow> parts = [] \<or> hd parts \<in> set known"
  by (auto simp: purity_ident_def split: if_split_asm)

lemma walk_body_reads:
  assumes rec: "\<And>known e. e \<in> snd ` set lets \<union> {final} \<Longrightarrow> walk_for_purity fn cfg reg known e = [] \<Longrightarrow> reads Q (set known) e"
  shows "walk_body fn cfg reg known lets final = [] \<Longrightarrow> reads_body Q (set known) lets final"
  using rec
proof (induction lets arbitrary: known)
  case (Cons l lets)
  then show ?case using Cons.IH[of "fst l # known"] by (cases l) auto
qed simp

lemma walk_reads: "walk_for_purity fn cfg reg known e = [] \<Longrightarrow> reads P (set known) e"
proof (induction e arbitrary: known rule: measure_induct_rule[where f = size])
  case (less e)
  consider parts where "e = Ident parts" | ns name args blk where "e = FuncCall ns name args blk"
    | "\<And>ns name args blk. e \<noteq> FuncCall ns name args blk" "\<And>parts. e \<noteq> Ident parts" by (cases e) blast+
  then show ?case
  proof cases
    case 1
    then show ?thesis using less.prems purity_ident_reads by (subst (asm) walk_for_purity.simps) auto
  next
    case 2
    have parts: "walk_for_purity fn cfg reg known a = []" if "a \<in> set args" for a using less.prems 2 that by (auto simp: walk_call)
    then have args: "\<forall>a \<in> set args. reads P (set known) a" using less.IH arg_size 2 by blast
    have "reads_body P (set (known @ ba_params b)) (fb_lets (ba_body b)) (fb_ret (ba_body b))" if "blk = Some b" for b
    proof (rule walk_body_reads)
      show "walk_body fn cfg reg (known @ ba_params b) (fb_lets (ba_body b)) (fb_ret (ba_body b)) = []"
        using less.prems 2 that by (simp add: walk_call)
      show "reads P (set known') c" if c: "c \<in> snd ` set (fb_lets (ba_body b)) \<union> {fb_ret (ba_body b)}"
        and "walk_for_purity fn cfg reg known' c = []" for known' c
        using less.IH[of c known'] that children_size[of c e] 2 \<open>blk = Some b\<close> by auto
    qed
    then show ?thesis using 2 args by (auto split: option.split)
  next
    case 3
    show ?thesis
      by (rule reads_other[OF 3]) (use less.IH children_size walk_children[OF less.prems 3] in blast)
  qed
qed

end
