(* ===== verification/OutputCheck.thy ===== *)
theory OutputCheck
  imports Purity
begin

section \<open>Checks of properties\<close>

text \<open>
  \<open>check/module_props.rs\<close>, \<open>check/global_props.rs\<close> and \<open>check/outputs.rs\<close>: the properties of inputs and outputs against the
  schemas of their modules (a parameter: each module's own table), the global blocks against the tables here, and what the
  expressions of an output may refer to. The branches for Windows are left out.
\<close>

subsection \<open>Modules and global blocks\<close>

record module_def =
  md_name :: rstr
  md_type :: rstr
  md_props :: "property list"

type_synonym schemas = "(string \<times> property_spec list) list"

definition unknown_module_type_diag :: "string \<Rightarrow> rstr \<Rightarrow> rstr \<Rightarrow> string list \<Rightarrow> diagnostic" where
  "unknown_module_type_diag surface name bad candidates =
     (error_kind PropertySchema (surface @ '' '' @ tick name @ '': unknown type '' @ tick bad))
       \<lparr>dg_help := did_you_mean (nearest bad candidates)\<rparr>"

text \<open>\<open>analyze_input_def\<close> and \<open>analyze_output_def\<close>: \<open>surface\<close> is the word for the definition.\<close>

definition analyze_module_def :: "string \<Rightarrow> schemas \<Rightarrow> module_def \<Rightarrow> diagnostic list" where
  "analyze_module_def surface schemas def = (case map_of schemas (md_type def) of
     None \<Rightarrow> [unknown_module_type_diag surface (md_name def) (md_type def) (map fst schemas)]
   | Some spec \<Rightarrow> map (\<lambda>err. from_schema_error err (surface @ '' '' @ tick (md_name def))) (validate spec (md_props def)))"

definition analyze_modules :: "schemas \<Rightarrow> schemas \<Rightarrow> module_def list \<Rightarrow> module_def list \<Rightarrow> diagnostic list" where
  "analyze_modules in_schemas out_schemas inputs outputs =
     concat (map (analyze_module_def ''input'' in_schemas) inputs) @ concat (map (analyze_module_def ''output'' out_schemas) outputs)"

definition schema_declares_key :: "property_spec list \<Rightarrow> rstr \<Rightarrow> bool" where
  "schema_declares_key spec key = list_ex (\<lambda>p. sp_name p = key) spec"

definition optional_spec :: "string \<Rightarrow> value_kind \<Rightarrow> property_spec" where
  "optional_spec name kind = Spec name False False None kind"

definition control_schema :: "property_spec list" where
  "control_schema = map (\<lambda>n. optional_spec n KString) [''socket'', ''error_log'', ''error_log_fallback'']"

definition geoip_schema :: "property_spec list" where
  "geoip_schema = [optional_spec ''database'' KString]"

definition table_entry_schema :: "property_spec list" where
  "table_entry_schema = [optional_spec ''load'' KString, optional_spec ''max'' KInt, optional_spec ''ttl'' KInt]"

definition emit_findings :: "string \<Rightarrow> schema_error list \<Rightarrow> diagnostic list" where
  "emit_findings surface errs = map (\<lambda>err. from_schema_error err surface) errs"

definition analyze_table_entry :: "property \<Rightarrow> diagnostic list" where
  "analyze_table_entry entry = (case entry of
     Block name _ inner \<Rightarrow> emit_findings (''table '' @ tick name) (validate table_entry_schema inner)
   | KeyValue key _ _ \<Rightarrow> [error_kind PropertySchema (''table '' @ tick key @ '': expects a block ({ ... }), not a scalar value'')])"

definition analyze_globals :: "(rstr \<times> property list) list \<Rightarrow> diagnostic list" where
  "analyze_globals blocks =
     (case map_of blocks ''control'' of Some ps \<Rightarrow> emit_findings ''control'' (validate control_schema ps) | None \<Rightarrow> [])
     @ (case map_of blocks ''geoip'' of Some ps \<Rightarrow> emit_findings ''geoip'' (validate geoip_schema ps) | None \<Rightarrow> [])
     @ (case map_of blocks ''table'' of Some ps \<Rightarrow> concat (map analyze_table_entry ps) | None \<Rightarrow> [])"

subsection \<open>What an output may read\<close>

text \<open>The schema of a nested block. Of several variants only a single block-shaped one counts.\<close>

fun the_only :: "'a option list \<Rightarrow> 'a option" where
  "the_only [] = None"
| "the_only (None # xs) = the_only xs"
| "the_only (Some x # xs) = (if list_all (\<lambda>y. y = None) xs then Some x else None)"

fun inner_block_schema_of :: "value_kind \<Rightarrow> property_spec list option" where
  "inner_block_schema_of (KBlock s) = Some s"
| "inner_block_schema_of (KBlockMap s) = Some s"
| "inner_block_schema_of (KOneOf variants) = the_only (map inner_block_schema_of variants)"
| "inner_block_schema_of _ = None"

definition inner_block_schema :: "property_spec list \<Rightarrow> rstr \<Rightarrow> property_spec list option" where
  "inner_block_schema parent key = (case find (\<lambda>p. sp_name p = key) parent of
     None \<Rightarrow> None | Some spec \<Rightarrow> inner_block_schema_of (sp_kind spec))"

definition pipeline_only_idents :: "rstr list" where
  "pipeline_only_idents = [''workspace'', ''egress'', ''error'']"

definition check_pipeline_only_reference :: "rstr \<Rightarrow> string \<Rightarrow> rstr list \<Rightarrow> diagnostic list" where
  "check_pipeline_only_reference output_name pn path = (case path of
     [] \<Rightarrow> []
   | head # _ \<Rightarrow> if head \<notin> set pipeline_only_idents then []
       else [with_help ''transport metadata must use event-intrinsic fields (source, received_at, ingress) only; route per-tenant or per-event traffic via separate outputs from the pipeline body''
         (error_kind UnknownIdent (''[pipeline '' @ pn @ ''] output '' @ quote output_name @ '' references '' @ quote (dotted path)
            @ '': pipeline-mutable state is not addressable from output config''))])"

function collect_workspace_refs :: "expr \<Rightarrow> rstr list list" where
  "collect_workspace_refs e = (case e of
     Ident parts \<Rightarrow> [parts]
   | PropertyAccess base suffix \<Rightarrow> (case base of
       Ident base_parts \<Rightarrow> [base_parts @ suffix]
     | _ \<Rightarrow> collect_workspace_refs base)
   | _ \<Rightarrow> concat (map (\<lambda>c. collect_workspace_refs c) (children e)))"
  by pat_completeness auto
termination
  by (relation "measure size") (auto simp del: children.simps expr.size intro: children_size, auto)

declare collect_workspace_refs.simps [simp del]

text \<open>A bare name under a declared key is the literal of an enumeration or a text, not a reference.\<close>

definition is_literal_ident :: "expr \<Rightarrow> bool" where
  "is_literal_ident e = (case e of Ident parts \<Rightarrow> length parts = 1 | _ \<Rightarrow> False)"

primrec analyze_property :: "rstr \<Rightarrow> string \<Rightarrow> 'w registry \<Rightarrow> bindings \<Rightarrow> property_spec list option \<Rightarrow> property \<Rightarrow> diagnostic list" where
  "analyze_property oname pn reg b schema (KeyValue key _ e) =
     (if (case schema of Some s \<Rightarrow> schema_declares_key s key | None \<Rightarrow> False) \<and> is_literal_ident e then []
      else check_types pn reg b e @ concat (map (check_pipeline_only_reference oname pn) (collect_workspace_refs e)))"
| "analyze_property oname pn reg b schema (Block key _ ps) =
     concat (map (\<lambda>p. analyze_property oname pn reg b (case schema of Some s \<Rightarrow> inner_block_schema s key | None \<Rightarrow> None) p) ps)"

definition analyze_output :: "string \<Rightarrow> 'w registry \<Rightarrow> schemas \<Rightarrow> bindings \<Rightarrow> module_def \<Rightarrow> diagnostic list" where
  "analyze_output pn reg schemas b def =
     concat (map (analyze_property (md_name def) pn reg b (map_of schemas (md_type def))) (md_props def))"

end
