(* ===== verification/Checked.thy ===== *)
theory Checked
  imports Noninterference OutputCheck Examples
begin

section \<open>What an accepted configuration guarantees\<close>

text \<open>
  The checks of functions and outputs against the evaluator: functions of an accepted configuration do not depend on the event,
  expressions of an accepted output only on what the input set, and evaluation needs a bounded stack, unless a function
  calls itself from a block, which the check does not see.
\<close>

subsection \<open>The registry of a configuration\<close>

text \<open>The functions of a configuration are a map from their names.\<close>

definition functions_keyed :: "config \<Rightarrow> bool" where
  "functions_keyed cfg \<longleftrightarrow> distinct (map fst (cfg_functions cfg)) \<and> list_all (\<lambda>(n, fd). fd_name fd = n) (cfg_functions cfg)"

definition config_registry :: "('w, 'x) libs_scheme \<Rightarrow> 'w entry list \<Rightarrow> config \<Rightarrow> 'w registry" where
  "config_registry lib others cfg = runtime_registry lib others (map snd (cfg_functions cfg))"

lemma register_users:
  assumes "distinct (map fst fns)" "list_all (\<lambda>(n, fd). fd_name fd = n) fns"
  shows "map_of (user_definitions (register_user_functions (map snd fns) reg)) name =
    (case map_of fns name of Some fd \<Rightarrow> Some fd | None \<Rightarrow> map_of (user_definitions reg) name)"
  using assms
proof (induction fns arbitrary: reg)
  case (Cons fn fns)
  obtain n fd where fn: "fn = (n, fd)" by (cases fn)
  have fd: "fd_name fd = n" and new: "map_of fns n = None" using Cons.prems fn by (auto simp: map_of_eq_None_iff)
  have "map_of (user_definitions (register_user_functions (map snd fns) (register_user_function fd reg))) name =
      (case map_of fns name of Some fd \<Rightarrow> Some fd | None \<Rightarrow> map_of (user_definitions (register_user_function fd reg)) name)"
    by (rule Cons.IH) (use Cons.prems in auto)
  then show ?case using fn fd new by (auto simp: register_user_functions_def register_user_function_def split: option.split)
qed (simp add: register_user_functions_def)

lemma config_users:
  assumes "functions_keyed cfg"
  shows "map_of (user_definitions (config_registry lib others cfg)) name = map_of (cfg_functions cfg) name"
  using assms by (simp add: functions_keyed_def config_registry_def runtime_registry_def register_users register_all_maps(3)
      registry_new_def split: option.split)

subsection \<open>Functions\<close>

lemma checked_body:
  assumes "check_all_functions cfg creg = Some []" "(n, fd) \<in> set (cfg_functions cfg)"
  shows "reads_body P (set (fd_params fd)) (fb_lets (fd_body fd)) (fb_ret (fd_body fd))"
proof (rule walk_body_reads)
  show "walk_body (fd_name fd) cfg creg (fd_params fd) (fb_lets (fd_body fd)) (fb_ret (fd_body fd)) = []"
    using assms by (fastforce simp: check_all_functions_def check_function_body_def)
qed (rule walk_reads)

lemma checked_pure:
  assumes "functions_keyed cfg" "check_all_functions cfg creg = Some []"
  shows "pure_functions (config_registry lib others cfg)"
  unfolding pure_functions_def config_users[OF assms(1)]
  using checked_body[OF assms(2)] map_of_SomeD by fast

lemma checked_noninterference:
  assumes "functions_keyed cfg" "check_all_functions cfg creg = Some []" "list_all eventless_entry others"
    and "same_paths P ev ev'" "reads P K e" "K \<subseteq> dom sc"
  shows "eval_expr_with_scope (config_registry lib others cfg) ev n e sc = eval_expr_with_scope (config_registry lib others cfg) ev' n e sc"
  by (rule noninterference[OF _ checked_pure[OF assms(1,2)] assms(4-6)]) (simp add: config_registry_def runtime_eventless[OF assms(3)])

text \<open>A call of a user function.\<close>

lemma checked_calls:
  assumes "functions_keyed cfg" "check_all_functions cfg creg = Some []" "list_all eventless_entry others"
    and fd: "map_of (cfg_functions cfg) name = Some fd"
  shows "call_user_function (eval_expr_with_scope (config_registry lib others cfg) ev n) fd vs =
    call_user_function (eval_expr_with_scope (config_registry lib others cfg) ev' n) fd vs"
proof (rule user_call_agree)
  have "same_paths (\<lambda>_. False) ev ev'" by (simp add: same_paths_def)
  then show "agree_on (\<lambda>_. False) (eval_expr_with_scope (config_registry lib others cfg) ev n)
      (eval_expr_with_scope (config_registry lib others cfg) ev' n)"
    unfolding agree_on_def using checked_noninterference[OF assms(1-3)] by blast
  show "reads_body (\<lambda>_. False) (set (fd_params fd)) (fb_lets (fd_body fd)) (fb_ret (fd_body fd))"
    by (rule checked_body[OF assms(2) map_of_SomeD[OF fd]])
qed

subsection \<open>Stack\<close>

text \<open>No user function is called from the block of a call.\<close>

definition blocks_call_free :: "config \<Rightarrow> expr \<Rightarrow> bool" where
  "blocks_call_free cfg e \<longleftrightarrow> (\<forall>ns name args blk x nm as. subexpr (FuncCall ns name args (Some blk)) e \<longrightarrow>
     x \<in> set (body_exprs (ba_body blk)) \<longrightarrow> subexpr (FuncCall None nm as None) x \<longrightarrow> map_of (cfg_functions cfg) nm = None)"

definition functions_wf :: "config \<Rightarrow> bool" where
  "functions_wf cfg \<longleftrightarrow> (\<forall>n fd b. (n, fd) \<in> set (cfg_functions cfg) \<longrightarrow> b \<in> set (body_exprs (fd_body fd)) \<longrightarrow>
     expr_wf b \<and> blocks_call_free cfg b)"

lemma blocks_call_free_child: "c \<in> set (children e) \<Longrightarrow> blocks_call_free cfg e \<Longrightarrow> blocks_call_free cfg c"
  unfolding blocks_call_free_def by (meson subexpr.child)

lemma calls_collected:
  assumes "subexpr (FuncCall None nm as None) e" "blocks_call_free cfg e" "map_of (cfg_functions cfg) nm \<noteq> None"
  shows "nm \<in> set (collect_user_callees cfg e)"
  using assms
proof (induction "FuncCall None nm as None" e rule: subexpr.induct)
  case here
  then show ?case by (simp add: callees_of_call)
next
  case (child c e)
  have c: "nm \<in> set (collect_user_callees cfg c)" using child blocks_call_free_child by blast
  show ?case
  proof (cases "\<exists>ns name args blk. e = FuncCall ns name args blk")
    case True
    then obtain ns name args blk where e: "e = FuncCall ns name args blk" by blast
    show ?thesis
    proof (cases "c \<in> set args")
      case True
      then show ?thesis using c e by (auto simp: callees_of_call)
    next
      case False
      then obtain b where b: "blk = Some b" "c \<in> set (body_exprs (ba_body b))"
        using child.hyps(1) e by (cases blk) (auto simp: body_exprs_def)
      then have "map_of (cfg_functions cfg) nm = None"
        using child.prems(1) child.hyps(2) e subexpr.here unfolding blocks_call_free_def by blast
      then show ?thesis using child.prems(2) by simp
    qed
  next
    case False
    then show ?thesis using c child.hyps(1) by (auto simp: callees_of_other)
  qed
qed

lemma sizes_bounded: "\<exists>D. \<forall>n fd b. (n, fd) \<in> set fns \<longrightarrow> b \<in> set (body_exprs (fd_body fd)) \<longrightarrow> size b \<le> (D::nat)"
proof (intro exI allI impI)
  fix n fd b assume "(n, fd) \<in> set fns" "b \<in> set (body_exprs (fd_body fd))"
  then have "b \<in> set (concat (map (\<lambda>(_, fd). body_exprs (fd_body fd)) fns))" by auto
  then show "size b \<le> Max (set (map size (concat (map (\<lambda>(_, fd). body_exprs (fd_body fd)) fns))))"
    by (intro Max_ge List.finite_set) simp
qed

lemma checked_ranked:
  assumes keyed: "functions_keyed cfg" and wf: "functions_wf cfg" and ok: "check_function_cycles cfg = Some []"
  shows "\<exists>rk D. reg_ranked (config_registry lib others cfg) rk D"
proof -
  obtain rk where rk: "functions_ranked cfg rk" using function_cycles[of cfg] ok by auto
  obtain D where D: "\<forall>n fd b. (n, fd) \<in> set (cfg_functions cfg) \<longrightarrow> b \<in> set (body_exprs (fd_body fd)) \<longrightarrow> size b \<le> D"
    using sizes_bounded ..
  have "calls_below (config_registry lib others cfg) rk (rk n) b \<and> expr_wf b \<and> size b \<le> D"
    if fd: "map_of (cfg_functions cfg) n = Some fd" and b: "b \<in> set (body_exprs (fd_body fd))" for n fd b
  proof -
    have mem: "(n, fd) \<in> set (cfg_functions cfg)" using fd by (rule map_of_SomeD)
    have "rk nm < rk n" if "subexpr (FuncCall None nm as None) b" "map_of (cfg_functions cfg) nm \<noteq> None" for nm as
    proof -
      have "blocks_call_free cfg b" using wf mem b unfolding functions_wf_def by blast
      then have "nm \<in> set (collect_user_callees cfg b)" using calls_collected that by blast
      then have "nm \<in> set (body_callees cfg (fd_body fd))" using b by (fastforce simp: body_callees_def body_exprs_def)
      then show ?thesis using rk fd unfolding functions_ranked_def by blast
    qed
    then show ?thesis using wf D mem b by (auto simp: calls_below_def config_users[OF keyed] functions_wf_def)
  qed
  then have "reg_ranked (config_registry lib others cfg) rk D" by (simp add: reg_ranked_def config_users[OF keyed])
  then show ?thesis by blast
qed

text \<open>The expressions in the bodies of the functions.\<close>

definition function_exprs :: "config \<Rightarrow> expr set" where
  "function_exprs cfg = {b. \<exists>n fd. (n, fd) \<in> set (cfg_functions cfg) \<and> b \<in> set (body_exprs (fd_body fd))}"

lemma checked_total:
  fixes lib :: "('w, 'x) libs_scheme"
  assumes "libs_ok lib" "functions_keyed cfg" "functions_wf cfg" "check_function_cycles cfg = Some []"
    and "expr_wf e" "\<forall>b \<in> insert e (function_exprs cfg). called b \<subseteq> safe_keys others"
  shows "\<exists>frames. \<forall>n > frames. \<forall>ev sc. totalM (eval_expr_with_scope (config_registry lib others cfg) ev n e sc)"
proof -
  obtain rk D where rk: "reg_ranked (config_registry lib others cfg) rk D" using checked_ranked[OF assms(2-4)] by blast
  define r where "r = Suc (Max (rk ` fst ` set (cfg_functions cfg)))"
  have "rk nm < r" if "map_of (cfg_functions cfg) nm \<noteq> None" for nm
  proof -
    have "nm \<in> fst ` set (cfg_functions cfg)" using that by (simp add: map_of_eq_None_iff)
    then show ?thesis unfolding r_def by (intro le_imp_less_Suc Max_ge) auto
  qed
  then have "calls_below (config_registry lib others cfg) rk r e" by (simp add: calls_below_def config_users[OF assms(2)])
  moreover have "total_on (safe_keys others) (config_registry lib others cfg)"
    unfolding config_registry_def by (rule runtime_total_on[OF assms(1)])
  moreover have "bodies_call (safe_keys others) (config_registry lib others cfg)"
    using assms(6) by (fastforce simp: bodies_call_def config_users[OF assms(2)] function_exprs_def dest: map_of_SomeD)
  ultimately show ?thesis using eval_total_on[OF _ rk _ _ _ assms(5)] assms(6) by blast
qed

subsection \<open>Outputs\<close>

definition same_intrinsics :: "borrowed_event \<Rightarrow> borrowed_event \<Rightarrow> bool" where
  "same_intrinsics ev ev' \<longleftrightarrow> be_received_at ev = be_received_at ev' \<and> be_source ev = be_source ev' \<and> be_ingress ev = be_ingress ev'"

definition intrinsic_path :: "rstr list \<Rightarrow> bool" where
  "intrinsic_path parts \<longleftrightarrow> hd parts \<notin> set pipeline_only_idents"

lemma intrinsics_same_paths: "same_intrinsics ev ev' \<Longrightarrow> same_paths intrinsic_path ev ev'"
  by (auto simp: same_paths_def intrinsic_path_def pipeline_only_idents_def resolve_event_def same_intrinsics_def Let_def)

text \<open>The expressions of a property that are not literals by their schema.\<close>

primrec property_exprs :: "property_spec list option \<Rightarrow> property \<Rightarrow> expr list" where
  "property_exprs schema (KeyValue key _ e) =
     (if (case schema of Some s \<Rightarrow> schema_declares_key s key | None \<Rightarrow> False) \<and> is_literal_ident e then [] else [e])"
| "property_exprs schema (Block key _ ps) =
     concat (map (\<lambda>p. property_exprs (case schema of Some s \<Rightarrow> inner_block_schema s key | None \<Rightarrow> None) p) ps)"

definition output_exprs :: "schemas \<Rightarrow> module_def \<Rightarrow> expr list" where
  "output_exprs schemas def = concat (map (property_exprs (map_of schemas (md_type def))) (md_props def))"

lemma property_refs:
  "analyze_property oname pn reg b schema p = [] \<Longrightarrow> e \<in> set (property_exprs schema p) \<Longrightarrow>
   concat (map (check_pipeline_only_reference oname pn) (collect_workspace_refs e)) = []"
proof (induction p arbitrary: schema)
  case (KeyValue key quoted v)
  then show ?case by (auto split: if_split_asm)
next
  case (Block key quoted ps)
  then show ?case by auto
qed

lemma no_pipeline_reference: "check_pipeline_only_reference oname pn path = [] \<Longrightarrow> path = [] \<or> intrinsic_path path"
  by (cases path) (auto simp: check_pipeline_only_reference_def intrinsic_path_def split: if_split_asm)

lemma refs_of: "collect_workspace_refs (Ident parts) = [parts]"
  "collect_workspace_refs (PropertyAccess base suffix) =
     (case base of Ident ps \<Rightarrow> [ps @ suffix] | _ \<Rightarrow> collect_workspace_refs base)"
  by (subst collect_workspace_refs.simps; simp)+

lemma refs_other:
  "(\<And>parts. e \<noteq> Ident parts) \<Longrightarrow> (\<And>base suffix. e \<noteq> PropertyAccess base suffix) \<Longrightarrow>
   collect_workspace_refs e = concat (map collect_workspace_refs (children e))"
  by (subst collect_workspace_refs.simps) (simp split: expr.split)

text \<open>Every path of the expression begins like one of the references.\<close>

lemma refs_complete:
  "subexpr (Ident parts) e \<Longrightarrow> parts \<noteq> [] \<Longrightarrow> \<exists>p \<in> set (collect_workspace_refs e). p \<noteq> [] \<and> hd p = hd parts"
proof (induction "Ident parts" e rule: subexpr.induct)
  case here
  then show ?case by (simp add: refs_of)
next
  case (child c e)
  then obtain p where p: "p \<in> set (collect_workspace_refs c)" "p \<noteq> []" "hd p = hd parts" by blast
  consider base suffix where "e = PropertyAccess base suffix" | "\<And>base suffix. e \<noteq> PropertyAccess base suffix" by blast
  then show ?case
  proof cases
    case 1
    then have "c = base" using child.hyps(1) by simp
    then show ?thesis using p 1 by (cases base) (auto simp: refs_of)
  next
    case 2
    have "e \<noteq> Ident ps" for ps using child.hyps(1) by auto
    then show ?thesis using p 2 child.hyps(1) by (auto simp: refs_other)
  qed
qed

lemma idents_reads: "(\<And>parts. subexpr (Ident parts) e \<Longrightarrow> parts \<noteq> [] \<Longrightarrow> P parts) \<Longrightarrow> reads P K e"
proof (induction e arbitrary: K rule: measure_induct_rule[where f = size])
  case (less e)
  have sub: "reads P K' c" if "c \<in> set (children e)" for c K'
    using less.IH[OF children_size[OF that]] less.prems subexpr.child[OF that] by blast
  have body: "reads_body P K' lets final" if "snd ` set lets \<union> {final} \<subseteq> set (children e)" for K' lets final
    using that by (induction lets arbitrary: K') (auto simp: sub)
  consider parts where "e = Ident parts" | ns name args blk where "e = FuncCall ns name args blk"
    | "\<And>ns name args blk. e \<noteq> FuncCall ns name args blk" "\<And>parts. e \<noteq> Ident parts" by (cases e) blast+
  then show ?case
  proof cases
    case 1
    then show ?thesis using less.prems[of parts] 1 subexpr.here[of e] by auto
  next
    case 2
    have "reads_body P (K \<union> set (ba_params b)) (fb_lets (ba_body b)) (fb_ret (ba_body b))" if "blk = Some b" for b
      by (rule body) (use 2 that in auto)
    then show ?thesis using 2 sub by (auto split: option.split)
  next
    case 3
    then show ?thesis by (intro reads_other[OF 3] sub)
  qed
qed

lemma output_reads:
  assumes "analyze_output pn reg schemas b def = []" "e \<in> set (output_exprs schemas def)"
  shows "reads intrinsic_path K e"
proof (rule idents_reads)
  fix parts assume sub: "subexpr (Ident parts) e" and ne: "parts \<noteq> []"
  obtain p where p: "p \<in> set (md_props def)" "e \<in> set (property_exprs (map_of schemas (md_type def)) p)"
    using assms(2) by (auto simp: output_exprs_def)
  have "analyze_property (md_name def) pn reg b (map_of schemas (md_type def)) p = []"
    using assms(1) p(1) by (auto simp: analyze_output_def)
  from property_refs[OF this p(2)]
  have "check_pipeline_only_reference (md_name def) pn q = []" if "q \<in> set (collect_workspace_refs e)" for q
    using that by simp
  then have "q = [] \<or> intrinsic_path q" if "q \<in> set (collect_workspace_refs e)" for q
    using that no_pipeline_reference by blast
  moreover obtain q where "q \<in> set (collect_workspace_refs e)" "q \<noteq> []" "hd q = hd parts" using refs_complete[OF sub ne] by blast
  ultimately show "intrinsic_path parts" unfolding intrinsic_path_def by metis
qed

lemma checked_outputs:
  assumes "functions_keyed cfg" "check_all_functions cfg creg = Some []" "list_all eventless_entry others"
    and "analyze_output pn creg schemas b def = []" "e \<in> set (output_exprs schemas def)" "same_intrinsics ev ev'"
  shows "eval_expr (config_registry lib others cfg) ev n e w = eval_expr (config_registry lib others cfg) ev' n e w"
proof -
  have "eval_expr_with_scope (config_registry lib others cfg) ev n e Map.empty = eval_expr_with_scope (config_registry lib others cfg) ev' n e Map.empty"
    by (rule checked_noninterference[OF assms(1-3) intrinsics_same_paths[OF assms(6)] output_reads[OF assms(4,5), of "{}"]]) simp
  then show ?thesis by (simp add: eval_expr_def)
qed

subsection \<open>A recursion that passes\<close>

definition loop_block :: block_arg where
  "loop_block = BlockArg [''y''] (FuncBody [] (FuncCall None ''f'' [Ident [''x'']] None))"

definition loop_def :: function_def where
  "loop_def = \<lparr>fd_name = ''f'', fd_params = [''x''], fd_body = FuncBody [] (FuncCall None ''map'' [Ident [''x'']] (Some loop_block))\<rparr>"

definition loop_config :: config where
  "loop_config = \<lparr>cfg_processes = [], cfg_pipelines = [], cfg_functions = [(''f'', loop_def)]\<rparr>"

lemma loop_lookup: "map_of (user_definitions (config_registry lib others loop_config)) ''f'' = Some loop_def"
  by (subst config_users) (simp_all add: functions_keyed_def loop_config_def loop_def_def)

lemma bindM_step: "m w = (Ok v, w') \<Longrightarrow> bindM m k w = k v w'"
  by (simp add: bindM_def)

lemma bindM_crashed: "fst (m w) = Crash \<Longrightarrow> fst (bindM m k w) = Crash"
  by (auto simp: bindM_def split: prod.split res.split)

lemma eval_call_step:
  "mapM (\<lambda>a. eval_expr_with_scope reg ev k a sc) args w = (Ok vs, w') \<Longrightarrow>
   eval_expr_with_scope reg ev (Suc k) (FuncCall ns nm args None) sc w = registry_call reg ev (eval_expr_with_scope reg ev k) ns nm vs w'"
  by (simp add: bindM_step)

lemma loop_crashes:
  "sc ''x'' = Some (VArray [VInt 1]) \<Longrightarrow>
   fst (eval_expr_with_scope (config_registry lib others loop_config) ev n (FuncCall None ''f'' [Ident [''x'']] None) sc w) = Crash"
proof (induction n arbitrary: sc w rule: less_induct)
  case (less n)
  let ?reg = "config_registry lib others loop_config"
  let ?call = "FuncCall None ''f'' [Ident [''x'']] None"
  let ?body = "FuncCall None ''map'' [Ident [''x'']] (Some loop_block)"
  let ?sc = "scope_bind_all [''x''] [VArray [VInt 1]] Map.empty"
  have x: "eval_expr_with_scope ?reg ev k (Ident [''x'']) s v = (if k = 0 then Crash else Ok (VArray [VInt 1]), v)"
    if "s ''x'' = Some (VArray [VInt 1])" for k s v
    using that by (cases k) (simp_all add: crash_def resolve_ident_def liftR_def)
  show ?case
  proof (cases "\<exists>m. n = Suc (Suc (Suc m))")
    case True
    then obtain m where n: "n = Suc (Suc (Suc m))" by blast
    have sc: "?sc ''x'' = Some (VArray [VInt 1])" "scope_bind_all [''y''] [VInt 1] ?sc ''x'' = Some (VArray [VInt 1])"
      by (simp_all add: scope_bind_all_def scope_bind_def)
    have rec: "fst (eval_expr_with_scope ?reg ev (Suc m) ?call (scope_bind_all [''y''] [VInt 1] ?sc) w) = Crash"
      by (rule less.IH) (use n sc(2) in simp_all)
    have item: "fst (eval_block_body (eval_expr_with_scope ?reg ev (Suc m)) loop_block [VInt 1] ?sc w) = Crash"
      using rec by (simp add: eval_block_body_def loop_block_def eval_body_def del: eval_expr_with_scope.simps)
    have coll: "expect_collection_arg (eval_expr_with_scope ?reg ev (Suc m)) ''map'' [Ident [''x'']] 1 ?sc w = (Ok (VArray [VInt 1]), w)"
      using x[where s = ?sc and k = "Suc m" and v = w, OF sc(1)] by (simp add: expect_collection_arg_def bindM_step ret_def del: eval_expr_with_scope.simps)
    have "fst (eval_map (eval_expr_with_scope ?reg ev (Suc m)) [Ident [''x'']] loop_block ?sc w) = Crash"
      using item coll unfolding eval_map_def by (simp add: bindM_step bindM_crashed expect_block_arity_def loop_block_def del: eval_expr_with_scope.simps)
    then have body: "fst (eval_expr_with_scope ?reg ev (Suc (Suc m)) ?body ?sc w) = Crash"
      by (simp add: eval_block_primitive_def)
    have "fst (registry_call ?reg ev (eval_expr_with_scope ?reg ev (Suc (Suc m))) None ''f'' [VArray [VInt 1]] w) = Crash"
      using body by (simp add: registry_call_def loop_lookup call_user_function_def eval_body_def loop_def_def del: eval_expr_with_scope.simps)
    moreover have "mapM (\<lambda>a. eval_expr_with_scope ?reg ev (Suc (Suc m)) a sc) [Ident [''x'']] w = (Ok [VArray [VInt 1]], w)"
      using x[where s = sc and k = "Suc (Suc m)" and v = w, OF less.prems] by (simp add: bindM_step ret_def del: eval_expr_with_scope.simps)
    ultimately show ?thesis unfolding n by (subst eval_call_step) simp_all
  next
    case False
    then consider "n = 0" | "n = Suc 0" | "n = Suc (Suc 0)" by (metis not0_implies_Suc)
    then show ?thesis
    proof cases
      case 3
      have "fst (eval_map (eval_expr_with_scope ?reg ev 0) [Ident [''x'']] loop_block ?sc w) = Crash"
        by (simp add: eval_map_def bindM_crashed expect_collection_arg_def crash_def)
      then have body: "fst (eval_expr_with_scope ?reg ev (Suc 0) ?body ?sc w) = Crash"
        by (simp add: eval_block_primitive_def)
      have "fst (registry_call ?reg ev (eval_expr_with_scope ?reg ev (Suc 0)) None ''f'' [VArray [VInt 1]] w) = Crash"
        using body by (simp add: registry_call_def loop_lookup call_user_function_def eval_body_def loop_def_def del: eval_expr_with_scope.simps)
      moreover have "mapM (\<lambda>a. eval_expr_with_scope ?reg ev (Suc 0) a sc) [Ident [''x'']] w = (Ok [VArray [VInt 1]], w)"
        using x[where s = sc and k = "Suc 0" and v = w, OF less.prems] by (simp add: bindM_step ret_def del: eval_expr_with_scope.simps)
      ultimately show ?thesis unfolding 3 by (subst eval_call_step) simp_all
    qed (simp_all add: bindM_crashed crash_def)
  qed
qed

lemma eval_call_crashed:
  "fst (mapM (\<lambda>a. eval_expr_with_scope reg ev k a sc) args w) = Crash \<Longrightarrow>
   fst (eval_expr_with_scope reg ev (Suc k) (FuncCall ns nm args None) sc w) = Crash"
  by (simp add: bindM_crashed)

lemma loop_call:
  "fst (registry_call (config_registry lib others loop_config) ev (eval_expr_with_scope (config_registry lib others loop_config) ev k)
     None ''f'' [VArray [VInt 1]] w) = Crash"
proof (cases k)
  case 0
  then show ?thesis by (simp add: registry_call_def loop_lookup call_user_function_def eval_body_def loop_def_def crash_def)
next
  case (Suc j)
  let ?sc = "scope_bind ''x'' (VArray [VInt 1]) Map.empty"
  have "fst (eval_expr_with_scope (config_registry lib others loop_config) ev (Suc k) (FuncCall None ''f'' [Ident [''x'']] None) ?sc w) = Crash"
    by (rule loop_crashes) (simp add: scope_bind_def)
  moreover have "mapM (\<lambda>a. eval_expr_with_scope (config_registry lib others loop_config) ev k a ?sc) [Ident [''x'']] w = (Ok [VArray [VInt 1]], w)"
    unfolding Suc by (simp add: bindM_step ret_def resolve_ident_def liftR_def scope_bind_def)
  ultimately show ?thesis by (simp only: eval_call_step)
qed

lemma loop_call_crashes:
  "fst (eval_expr (config_registry lib others loop_config) ev n (FuncCall None ''f'' [ArrayLit [IntLit 1]] None) w) = Crash"
proof -
  let ?reg = "config_registry lib others loop_config"
  consider "n = 0" | k where "n = Suc k" "k < 2" | j where "n = Suc (Suc (Suc j))"
    by (metis One_nat_def Suc_1 less_Suc_eq not0_implies_Suc zero_less_Suc)
  then show ?thesis
  proof cases
    case 2
    then have "k = 0 \<or> k = Suc 0" by auto
    then have "fst (mapM (\<lambda>a. eval_expr_with_scope ?reg ev k a Map.empty) [ArrayLit [IntLit 1]] w) = Crash"
      by (elim disjE) (simp_all add: bindM_crashed crash_def bindM_def)
    then show ?thesis unfolding eval_expr_def 2(1) by (rule eval_call_crashed)
  next
    case 3
    have "mapM (\<lambda>a. eval_expr_with_scope ?reg ev (Suc (Suc j)) a Map.empty) [ArrayLit [IntLit 1]] w = (Ok [VArray [VInt 1]], w)"
      by (simp add: bindM_step ret_def)
    then show ?thesis using loop_call unfolding eval_expr_def 3 by (subst eval_call_step)
  qed (simp add: eval_expr_def crash_def)
qed

lemma user_functions_keep:
  "map_of (reg_signatures reg) key \<noteq> None \<Longrightarrow> map_of (reg_signatures (register_user_functions fds reg)) key \<noteq> None"
  unfolding register_user_functions_def
proof (induction fds arbitrary: reg)
  case (Cons fd fds)
  then show ?case by (simp add: register_user_function_def)
qed simp

lemma builtin_signature: "(ns, name) \<in> fst ` set (builtin_entries lib) \<Longrightarrow> signature (config_registry lib others cfg) ns name \<noteq> None"
proof -
  assume "(ns, name) \<in> fst ` set (builtin_entries lib)"
  then have "map_of (rev (builtin_entries lib @ others)) (ns, name) \<noteq> None" by (auto simp: map_of_eq_None_iff)
  then have "map_of (reg_signatures (register_all (builtin_entries lib @ others) (registry_new (lb_rfc3339 lib)))) (ns, name) \<noteq> None"
    unfolding register_all_maps(2) by (simp only: option.case_eq_if split_beta if_False not_False_eq_True option.distinct)
  then show ?thesis unfolding signature_def config_registry_def runtime_registry_def by (rule user_functions_keep)
qed

lemma loop_accepted: "check_all_functions loop_config (config_registry lib others loop_config) = Some []"
proof -
  have "signature (config_registry lib others loop_config) None ''map'' \<noteq> None"
    by (rule builtin_signature) (simp add: builtin_entries_def array_entries_def)
  then have "check_function_body loop_config (config_registry lib others loop_config) loop_def = []"
    by (simp add: check_function_body_def loop_def_def walk_call purity_call_def loop_block_def loop_config_def)
      (simp add: walk_for_purity.simps purity_ident_def)
  moreover have "body_callees loop_config (fd_body loop_def) = []"
    by (simp add: body_callees_def loop_def_def callees_of_call callees_of_other loop_config_def)
  then have "check_function_cycles loop_config = Some []"
    by (simp add: check_function_cycles_def function_graph_def loop_config_def walk_start_def color_of_def set_color_def Let_def)
  ultimately show ?thesis by (simp add: check_all_functions_def loop_config_def)
qed

subsection \<open>Properties\<close>

definition ex_libs :: "unit libs" where
  "ex_libs = \<lparr>lb_rfc3339 = (\<lambda>_. []),
     lb_codec = \<lparr>jx_b64_encode = (\<lambda>_. []), jx_b64_decode = (\<lambda>_. Inr []), jx_uuid_text = (\<lambda>_. []), jx_uuid_parse = (\<lambda>_. None),
       jx_uuid_v7 = (\<lambda>_. False), jx_to_text = (\<lambda>_. None), jx_of_text = (\<lambda>_. None)\<rparr>,
     lb_lower = (\<lambda>s. s), lb_upper = (\<lambda>s. s), lb_digest = (\<lambda>_ s. s), lb_csv_row = (\<lambda>_. None), lb_rx_error = (\<lambda>_. None),
     lb_rx_match = (\<lambda>_ _. False), lb_rx_groups = (\<lambda>_ _. None), lb_rx_names = (\<lambda>_. []), lb_rx_named = (\<lambda>_ _. None),
     lb_rx_replace = (\<lambda>_ t _. t), lb_geoip = (\<lambda>_. Ok (VObject [])), lb_version = ''0.8'', lb_hostname = (\<lambda>_. None), lb_now = (\<lambda>_. 0),
     lb_tables = (\<lambda>_. \<lparr>tw_store = [], tw_now = 0, tw_later = 0, tw_others = (\<lambda>t. t)\<rparr>), lb_put_tables = (\<lambda>_ w. w)\<rparr>"

definition ex_quad :: function_def where
  "ex_quad = \<lparr>fd_name = ''quad'', fd_params = [''x''], fd_body = FuncBody []
     (FuncCall None ''double'' [FuncCall None ''double'' [Ident [''x'']] None] None)\<rparr>"

definition ex_functions :: config where
  "ex_functions = \<lparr>cfg_processes = [], cfg_pipelines = [], cfg_functions = [(''double'', ex_double), (''quad'', ex_quad)]\<rparr>"

lemma ex_functions_keyed: "functions_keyed ex_functions"
  by (simp add: functions_keyed_def ex_functions_def ex_double_def ex_quad_def)

lemma ex_functions_checked: "check_all_functions ex_functions (config_registry lib others ex_functions) = Some []"
proof -
  have "check_function_body ex_functions (config_registry lib others ex_functions) ex_double = []"
      "check_function_body ex_functions (config_registry lib others ex_functions) ex_quad = []"
    by (simp_all add: check_function_body_def ex_double_def ex_quad_def walk_call purity_call_def ex_functions_def)
      (simp_all add: walk_for_purity.simps purity_ident_def)
  moreover have "body_callees ex_functions (fd_body ex_double) = []" "body_callees ex_functions (fd_body ex_quad) = [''double'', ''double'']"
    by (simp_all add: body_callees_def ex_double_def ex_quad_def callees_of_call callees_of_other ex_functions_def)
  then have "check_function_cycles ex_functions = Some []"
    by (simp add: check_function_cycles_def function_graph_def ex_functions_def walk_start_def color_of_def set_color_def Let_def)
  ultimately show ?thesis by (simp add: check_all_functions_def ex_functions_def)
qed

inductive_simps subexpr_lit: "subexpr x (IntLit n)"
inductive_simps subexpr_ident: "subexpr x (Ident ps)"
inductive_simps subexpr_bin: "subexpr x (BinOp l op r)"
inductive_simps subexpr_call: "subexpr x (FuncCall ns nm args blk)"

lemmas subexpr_simps = subexpr_lit subexpr_ident subexpr_bin subexpr_call

lemma ex_functions_wf: "functions_wf ex_functions"
  by (auto simp: functions_wf_def ex_functions_def ex_double_def ex_quad_def body_exprs_def expr_wf_def blocks_call_free_def
      subexpr_simps)

lemma ex_libs_ok: "libs_ok ex_libs"
  by (simp add: libs_ok_def ex_libs_def)

text \<open>C20: A function of an accepted configuration is pure: its result is the same under any two events.\<close>

theorem checked_functions_pure:
  assumes "functions_keyed cfg" "check_all_functions cfg creg = Some []" "list_all eventless_entry others"
    and "map_of (cfg_functions cfg) name = Some fd"
  shows "call_user_function (eval_expr_with_scope (config_registry lib others cfg) ev n) fd vs w =
    call_user_function (eval_expr_with_scope (config_registry lib others cfg) ev' n) fd vs w"
  by (simp only: checked_calls[OF assms, of lib ev n vs ev'])

theorem checked_functions_pure_witness:
  "call_user_function (eval_expr_with_scope (config_registry ex_libs [] ex_functions) (event_view_in ex_event) 9) ex_quad [VInt 3] () =
   call_user_function (eval_expr_with_scope (config_registry ex_libs [] ex_functions) (event_view_in (ex_event\<lparr>oe_egress := ''x''\<rparr>)) 9)
     ex_quad [VInt 3] ()"
  by (rule checked_functions_pure[OF ex_functions_keyed ex_functions_checked[of ex_libs "[]"], where name = "''quad''"])
    (simp_all add: ex_functions_def)

text \<open>C9: When the check of the call graph accepts a configuration, no function is called from a block, and neither the functions
  nor the expression call \<open>table_upsert\<close> or a function outside this model that can panic, a number of stack frames is enough for
  every evaluation of the expression: it ends with a value or an error, whatever the event.\<close>

theorem checked_evaluation_terminates:
  fixes lib :: "('w, 'x) libs_scheme"
  assumes "libs_ok lib" "functions_keyed cfg" "functions_wf cfg" "check_function_cycles cfg = Some []"
    and "expr_wf e" "\<forall>b \<in> insert e (function_exprs cfg). called b \<subseteq> safe_keys others"
  shows "\<exists>frames. \<forall>n > frames. \<forall>ev w. fst (eval_expr (config_registry lib others cfg) ev n e w) \<noteq> Crash"
  using checked_total[OF assms] unfolding eval_expr_def totalM_def by blast

text \<open>One function outside the model, which panics.\<close>

definition ex_others :: "unit entry list" where
  "ex_others = [((None, ''strftime''), sig_optional [TTimestamp, TString, TString] 2 TString, pure_fn (\<lambda>_. Crash))]"

theorem checked_evaluation_terminates_witness:
  "\<exists>frames. \<forall>n > frames. \<forall>ev w. fst (eval_expr (config_registry ex_libs ex_others ex_functions) ev n
     (FuncCall None ''quad'' [IntLit 5] None) w) \<noteq> Crash"
proof (rule checked_evaluation_terminates[OF ex_libs_ok ex_functions_keyed ex_functions_wf])
  show "check_function_cycles ex_functions = Some []"
    using ex_functions_checked[of ex_libs "[]"] by (auto simp: check_all_functions_def)
  show "expr_wf (FuncCall None ''quad'' [IntLit 5] None)" by (auto simp: expr_wf_def subexpr_simps)
  show "\<forall>b \<in> insert (FuncCall None ''quad'' [IntLit 5] None) (function_exprs ex_functions). called b \<subseteq> safe_keys ex_others"
    by (auto simp: function_exprs_def ex_functions_def ex_double_def ex_quad_def body_exprs_def called_def safe_keys_def upsert_key_def
        ex_others_def subexpr_simps)
qed

text \<open>C40: The hypothesis on blocks is needed: \<open>def function f(x) { map(x) { |y| f(x) } }\<close> passes every check of functions,
  and a call of \<open>f\<close> on a list of one element exhausts the stack, however large it is.\<close>

theorem block_recursion_accepted:
  "check_all_functions loop_config (config_registry lib others loop_config) = Some [] \<and>
   fst (eval_expr (config_registry lib others loop_config) ev n (FuncCall None ''f'' [ArrayLit [IntLit 1]] None) w) = Crash"
  by (intro conjI loop_accepted loop_call_crashes)

text \<open>C8: An accepted output reads nothing that the pipeline changes: its expressions have the same value for two events that
  agree on the time of arrival, the source and the received bytes.\<close>

theorem checked_outputs_intrinsic:
  assumes "functions_keyed cfg" "check_all_functions cfg creg = Some []" "list_all eventless_entry others"
    and "analyze_output pn creg schemas b def = []" "e \<in> set (output_exprs schemas def)" "same_intrinsics ev ev'"
  shows "eval_expr (config_registry lib others cfg) ev n e w = eval_expr (config_registry lib others cfg) ev' n e w"
  by (rule checked_outputs[OF assms])

definition ex_output :: module_def where
  "ex_output = \<lparr>md_name = ''o'', md_type = ''file'', md_props =
     [KeyValue ''path'' False (Template [Literal ''/log/'', Interp (Ident [''source'', ''ip''])])]\<rparr>"

definition ex_schemas :: schemas where
  "ex_schemas = [(''file'', [optional_spec ''path'' KString])]"

lemma check_types_path:
  "check_types pn reg b (Ident parts) = check_unknown_ident pn b parts"
  "check_types pn reg b (Template fs) = concat (map (check_types pn reg b) (children (Template fs)))"
  by (subst check_types.simps; simp)+

theorem checked_outputs_intrinsic_witness:
  "eval_expr (config_registry ex_libs [] ex_functions) (event_view_in ex_event) 9
     (Template [Literal ''/log/'', Interp (Ident [''source'', ''ip''])]) () =
   eval_expr (config_registry ex_libs [] ex_functions) (event_view_in (ex_event\<lparr>oe_egress := ''x''\<rparr>)) 9
     (Template [Literal ''/log/'', Interp (Ident [''source'', ''ip''])]) ()"
proof (rule checked_outputs_intrinsic[OF ex_functions_keyed ex_functions_checked[of ex_libs "[]"]])
  have types: "check_types pn reg b (Template [Literal t, Interp (Ident [''source'', ''ip''])]) = []" for pn reg b t
    by (simp add: check_types_path check_unknown_ident_def)
  have refs: "collect_workspace_refs (Template [Literal t, Interp (Ident [''source'', ''ip''])]) = [[''source'', ''ip'']]" for t
    by (subst collect_workspace_refs.simps) (simp add: refs_of)
  show "analyze_output ''p'' (config_registry ex_libs [] ex_functions) ex_schemas bindings_new ex_output = []"
    unfolding analyze_output_def ex_output_def by (simp add: is_literal_ident_def types refs check_pipeline_only_reference_def pipeline_only_idents_def)
  show "Template [Literal ''/log/'', Interp (Ident [''source'', ''ip''])] \<in> set (output_exprs ex_schemas ex_output)"
    by (simp add: output_exprs_def ex_output_def is_literal_ident_def)
  show "same_intrinsics (event_view_in ex_event) (event_view_in (ex_event\<lparr>oe_egress := ''x''\<rparr>))"
    by (simp add: same_intrinsics_def event_view_in_def)
qed simp

end
