(* ===== verification/Formats_Facts.thy ===== *)
theory Formats_Facts
  imports Functions_Facts SyslogIn_Facts EventJson
begin

section \<open>Facts about the formats\<close>

text \<open>Round trips of the parsing functions: the priority header, CEF headers, key-value pairs, hexadecimal bytes; and what nesting
  dotted keys does to a path.\<close>

subsection \<open>The priority header\<close>

lemma takeWhile_stop: "\<forall>c \<in> set a. p c \<Longrightarrow> \<not> p x \<Longrightarrow> takeWhile p (a @ x # b) = a"
  by (induction a) auto

lemma digits_no_close: "list_all is_digit ds \<Longrightarrow> CHR ''>'' \<notin> set ds"
  by (auto simp: list_all_iff is_digit_def)

lemma parse_leading_pri_header:
  assumes "list_all is_digit ds" "ds \<noteq> []" "length ds \<le> 3" "digits_val ds \<le> 191"
  shows "parse_leading_pri (''<'' @ ds @ ''>'' @ body) = Some (digits_val ds, length ds + 2)"
proof -
  have "CHR ''>'' \<notin> set ds" using assms(1) by (rule digits_no_close)
  moreover have front: "take 6 (''<'' @ ds @ ''>'' @ body) = (CHR ''<'' # ds) @ CHR ''>'' # take (4 - length ds) body"
    using assms(3) by (simp add: take_Cons')
  ultimately have "takeWhile (\<lambda>c. c \<noteq> CHR ''>'') (take 6 (''<'' @ ds @ ''>'' @ body)) = CHR ''<'' # ds"
    unfolding front by (intro takeWhile_stop) auto
  moreover have "length ds \<noteq> 0" using assms(2) by simp
  ultimately show ?thesis
    using assms front by (simp add: parse_leading_pri_def Let_def)
qed

definition header_of :: "nat \<Rightarrow> string" where
  "header_of n = ''<'' @ nat_digits n @ ''>''"

lemma parse_header_of: "n \<le> 191 \<Longrightarrow> parse_leading_pri (header_of n @ body) = Some (n, length (header_of n))"
  using parse_leading_pri_header[of "nat_digits n" body] nat_digits_digits[of n] nat_digits_short[of n]
  by (simp add: header_of_def digits_val_nat_digits)

lemma strip_header_of: "n \<le> 191 \<Longrightarrow> strip_pri (header_of n @ body) = body"
  by (simp add: strip_pri_def parse_header_of)

lemma extract_header_of: "n \<le> 191 \<Longrightarrow> extract_pri (header_of n @ body) = VInt (int n)"
  by (simp add: extract_pri_def parse_header_of)

lemma set_pri_ints:
  assumes "facility \<le> 23" "severity \<le> 7"
  shows "set_pri_impl rfc [VString s, VInt (int facility), VInt (int severity)] = Ok (VString (header_of (facility * 8 + severity) @ strip_pri s))"
  using assms by (simp add: set_pri_impl_def arg_def arg_as_u8_def header_of_def val_to_str_def bindR_def)

lemma validate_header_of:
  assumes "n \<le> 191"
  shows "validate_pri (header_of n @ body) = Inr ()"
proof -
  let ?ds = "nat_digits n"
  have ds: "list_all is_digit ?ds" "?ds \<noteq> []" "length ?ds \<le> 3"
    using nat_digits_digits[of n] nat_digits_short[of n] assms by auto
  have "takeWhile (\<lambda>c. c \<noteq> CHR ''>'') (header_of n @ body) = CHR ''<'' # ?ds"
    using digits_no_close[OF ds(1)] by (auto simp: header_of_def intro!: takeWhile_stop)
  then have "position (\<lambda>c. c = CHR ''>'') (header_of n @ body) = Some (Suc (length ?ds))"
    by (simp add: position_def header_of_def)
  moreover have "LtpWire.slice 1 (Suc (length ?ds)) (header_of n @ body) = ?ds"
    by (simp add: LtpWire.slice_def header_of_def)
  moreover have "Suc 0 \<le> length ?ds" using ds(2) by (simp add: Suc_le_eq)
  ultimately show ?thesis
    using ds assms by (simp add: validate_pri_def digits_val_nat_digits) (simp add: header_of_def)
qed

subsection \<open>Hexadecimal bytes\<close>

lemma hex_digit_char: "d < 16 \<Longrightarrow> hex_digit (hex_char d) = Ok d"
  by (simp add: hex_digit_def hex_char_def Let_def)

lemma decode_encode_hex: "decode_hex (encode_hex b) = Ok b"
proof (induction b)
  case (Cons c cs)
  have "(of_char c :: nat) div 16 < 16" "(of_char c :: nat) mod 16 < 16"
    using nat_of_char_less_256[of c] by (auto simp: less_mult_imp_div_less)
  then show ?case using Cons by (simp add: encode_hex_def hex_digit_char)
qed (simp add: encode_hex_def)

lemma encode_hex_even: "even (length (encode_hex b))"
  by (induction b) (simp_all add: encode_hex_def)

subsection \<open>CEF\<close>

text \<open>How a header field is written: pipes and backslashes behind a backslash.\<close>

definition escape_field :: "string \<Rightarrow> string" where
  "escape_field s = concat (map (\<lambda>c. if c = CHR ''|'' \<or> c = CHR 0x5C then [CHR 0x5C, c] else [c]) s)"

lemma split_escaped: "split_unescaped_pipe (escape_field s @ CHR ''|'' # rest) = Some (escape_field s, rest)"
  by (induction s) (simp_all add: escape_field_def)

lemma unescape_escaped: "unescape_header (escape_field s) = s"
  by (induction s) (simp_all add: escape_field_def)

definition cef_header :: "string list \<Rightarrow> string" where
  "cef_header fs = concat (map (\<lambda>f. escape_field f @ ''|'') fs)"

lemma header_fields_of: "header_fields (length fs) (cef_header fs @ ext) = Some (map escape_field fs, ext)"
  by (induction fs) (simp_all add: cef_header_def split_escaped)

text \<open>The header of a message is read back whatever the extension holds.\<close>

lemma cef_parse_header:
  assumes "length fs = 6"
  shows "\<exists>es. cef_parse rfc [VString (''CEF:'' @ cef_header (fs @ [sev]) @ ext)] = Ok (VObject
     (zip cef_names (map VString fs) @ [(''severity'', severity_value sev)] @ es))
     \<and> (ext \<noteq> [] \<longrightarrow> es = [(''extension_raw'', VString ext), (''extension'', VObject (parse_cef_extensions ext))]) \<and> (ext = [] \<longrightarrow> es = [])"
proof -
  have "header_fields 7 (cef_header (fs @ [sev]) @ ext) = Some (map escape_field (fs @ [sev]), ext)"
    using header_fields_of[of "fs @ [sev]" ext] assms by simp
  moreover have "zip cef_names (xs @ [x]) = zip cef_names xs" if "length xs = 6" for xs :: "val list" and x
    using that by (simp add: cef_names_def zip_append2)
  ultimately show ?thesis
    using assms by (simp add: cef_parse_def arg_def val_to_str_def starts_with_def apply_defaults_def
      nth_opt_def comp_def unescape_escaped bindR_def)
qed

subsection \<open>Key-value pairs\<close>

text \<open>How a pair is written: the value between quotes where it holds the separator or would read as a quoted one.\<close>

definition kv_render :: "char \<Rightarrow> string \<times> string \<Rightarrow> string" where
  "kv_render sep p = (case p of (k, v) \<Rightarrow>
     k @ ''='' @ (if sep \<in> set v \<or> v = [] \<or> hd v = CHR 0x22 then [CHR 0x22] @ v @ [CHR 0x22] else v))"

definition kv_ok :: "char \<Rightarrow> string \<times> string \<Rightarrow> bool" where
  "kv_ok sep p \<longleftrightarrow> (case p of (k, v) \<Rightarrow> k \<noteq> [] \<and> sep \<notin> set k \<and> CHR ''='' \<notin> set k \<and> CHR 0x22 \<notin> set v \<and> CHR 0x5C \<notin> set v)"

lemma kv_quoted_plain: "CHR 0x22 \<notin> set v \<Longrightarrow> CHR 0x5C \<notin> set v \<Longrightarrow> kv_quoted (v @ CHR 0x22 # r) = (v, r)"
  by (induction v) auto

lemma kv_pairs_nil: "kv_pairs sep [] = []"
  by (simp add: kv_pairs.simps)

lemma kv_pairs_sep: "kv_pairs sep (sep # s) = kv_pairs sep s"
  by (subst (1 2) kv_pairs.simps) simp

lemma kv_pairs_step:
  assumes "dropWhile (\<lambda>c. c = sep) s = key @ CHR ''='' # t" "CHR ''='' \<notin> set key" "sep \<notin> set key" "key \<noteq> []" "t \<noteq> []"
    "kv_value sep t = (v, rest)"
  shows "kv_pairs sep s = (key, v) # kv_pairs sep rest"
proof -
  have "takeWhile (\<lambda>c. c \<noteq> CHR ''='' \<and> c \<noteq> sep) (key @ CHR ''='' # t) = key"
    using assms(2,3) by (intro takeWhile_stop) auto
  then show ?thesis
    using assms by (simp add: kv_pairs.simps[of sep s] Let_def)
qed

lemma kv_pairs_one:
  assumes "kv_ok sep (k, v)" "sep \<noteq> CHR ''=''" "sep \<noteq> CHR 0x22" "rest = [] \<or> hd rest = sep"
  shows "kv_pairs sep (kv_render sep (k, v) @ rest) = (k, v) # kv_pairs sep rest"
proof -
  let ?q = "sep \<in> set v \<or> v = [] \<or> hd v = CHR 0x22"
  let ?r = "if ?q then [CHR 0x22] @ v @ [CHR 0x22] else v"
  obtain c k' where k: "k = c # k'" "c \<noteq> sep" using assms(1) by (cases k) (auto simp: kv_ok_def)
  have skip: "dropWhile (\<lambda>c. c = sep) (kv_render sep (k, v) @ rest) = k @ CHR ''='' # ?r @ rest"
    using k by (simp add: kv_render_def)
  have ne: "?r @ rest \<noteq> []" by simp
  have val: "kv_value sep (?r @ rest) = (v, rest)"
  proof (cases ?q)
    case True
    then show ?thesis using assms(1) by (simp add: kv_value_def kv_quoted_plain kv_ok_def)
  next
    case False
    then have "\<forall>c \<in> set v. c \<noteq> sep" by auto
    then have "takeWhile (\<lambda>c. c \<noteq> sep) (v @ rest) = v \<and> dropWhile (\<lambda>c. c \<noteq> sep) (v @ rest) = rest"
      using assms(4) by (cases rest) (simp_all add: takeWhile_append2 dropWhile_append2)
    then show ?thesis using False by (simp add: kv_value_def)
  qed
  show ?thesis
    using kv_pairs_step[OF skip _ _ _ ne val] assms(1) by (auto simp: kv_ok_def)
qed

lemma kv_pairs_render:
  assumes "sep \<noteq> CHR ''=''" "sep \<noteq> CHR 0x22" "\<And>p. p \<in> set ps \<Longrightarrow> kv_ok sep p"
  shows "kv_pairs sep (join [sep] (map (kv_render sep) ps)) = ps"
  using assms(3)
proof (induction ps)
  case (Cons p ps)
  obtain k v where p: "p = (k, v)" by (cases p)
  show ?case
  proof (cases ps)
    case Nil
    then show ?thesis using kv_pairs_one[of sep k v "[]"] assms(1,2) Cons.prems p by (simp add: kv_pairs_nil)
  next
    case (Cons q qs)
    let ?t = "join [sep] (map (kv_render sep) ps)"
    have "kv_pairs sep (kv_render sep (k, v) @ sep # ?t) = (k, v) # kv_pairs sep (sep # ?t)"
      using assms(1,2) Cons.prems p by (intro kv_pairs_one) auto
    then show ?thesis using Cons.IH Cons.prems p Cons by (simp add: kv_pairs_sep)
  qed
qed (simp add: kv_pairs_nil)

subsection \<open>Keys with dots\<close>

fun at_path :: "node \<Rightarrow> rstr list \<Rightarrow> node option" where
  "at_path n [] = Some n"
| "at_path (Branch es) (k # ks) = (case map_of es k of Some n \<Rightarrow> at_path n ks | None \<Rightarrow> None)"
| "at_path (Leaf _) (k # ks) = None"

lemma map_of_bt_set [simp]: "map_of (bt_set k v es) = (map_of es)(k \<mapsto> v)"
  by (induction k v es rule: bt_set.induct) auto

lemma insert_path_here: "insert_path tree ss v key = Ok tree' \<Longrightarrow> at_path (Branch tree') ss = Some (Leaf v)"
  by (induction tree ss v key arbitrary: tree' rule: insert_path.induct)
    (auto simp: bindR_Ok split: option.split_asm node.split_asm)

lemma insert_path_keeps:
  "insert_path tree ss v key = Ok tree' \<Longrightarrow> at_path (Branch tree) qs = Some (Leaf x) \<Longrightarrow> at_path (Branch tree') qs = Some (Leaf x)"
proof (induction tree ss v key arbitrary: tree' qs rule: insert_path.induct)
  case (2 tree h v key)
  then show ?case by (cases qs) (auto split: option.split_asm)
next
  case (3 tree h h2 rest v key)
  show ?case
  proof (cases "map_of tree h")
    case None
    with 3(3) obtain s where "tree' = bt_set h (Branch s) tree" by (auto simp: bindR_Ok)
    then show ?thesis using 3(4) None by (cases qs) (auto split: option.split_asm)
  next
    case (Some n)
    with 3(3) obtain sub s where n: "n = Branch sub" "insert_path sub (h2 # rest) v key = Ok s" "tree' = bt_set h (Branch s) tree"
      by (cases n) (auto simp: bindR_Ok)
    show ?thesis
    proof (cases qs)
      case (Cons q qs')
      then show ?thesis using 3(2)[OF Some n(1,2), of qs'] 3(4) n Some by (auto split: option.split_asm)
    qed (use 3(4) in simp)
  qed
qed simp

lemma path_at: "at_path n qs = Some (Leaf x) \<Longrightarrow> path_walk i (materialise n) (map VString qs) = Ok x"
proof (induction n qs arbitrary: i rule: at_path.induct)
  case (2 es k ks)
  then obtain m where m: "map_of es k = Some m" "at_path m ks = Some (Leaf x)" by (auto split: option.split_asm)
  have "map_of (map (\<lambda>(k, n). (k, materialise n)) es) k = Some (materialise m)"
    using m(1) by (simp add: map_of_map)
  then show ?case using 2(1)[OF m] by (simp add: or_null_def)
qed simp_all

lemma nest_entries_keeps:
  "nest_entries tree es = Ok tree' \<Longrightarrow> at_path (Branch tree) qs = Some (Leaf x) \<Longrightarrow> at_path (Branch tree') qs = Some (Leaf x)"
  by (induction tree es rule: nest_entries.induct) (auto simp: Let_def bindR_Ok dest: insert_path_keeps split: if_split_asm)

lemma nest_entries_all:
  "nest_entries tree es = Ok tree' \<Longrightarrow> (key, r) \<in> set es \<Longrightarrow>
   \<exists>v. r = Ok v \<and> at_path (Branch tree') (split_on (CHR ''.'') key) = Some (Leaf v)"
proof (induction tree es rule: nest_entries.induct)
  case (2 tree k q es)
  from 2(2) obtain v t where v: "[] \<notin> set (split_on (CHR ''.'') k)" "\<not> max_dotted_depth < length (split_on (CHR ''.'') k)"
    "q = Ok v" "insert_path tree (split_on (CHR ''.'') k) v k = Ok t" "nest_entries t es = Ok tree'"
    by (auto simp: Let_def bindR_Ok split: if_split_asm)
  show ?case
  proof (cases "(key, r) \<in> set es")
    case True
    then show ?thesis using 2(1)[OF refl v(1,2)] v by blast
  next
    case False
    then have "key = k" "r = q" using 2(3) by auto
    then show ?thesis using nest_entries_keeps[OF v(5) insert_path_here[OF v(4)]] v(3) by simp
  qed
qed simp

lemma nest_then_path:
  assumes "nest_inner d (VObject es) = Ok v" "(key, x) \<in> set es"
  shows "\<exists>x'. nest_inner (d + 1) x = Ok x' \<and> path_walk i v (map VString (split_on (CHR ''.'') key)) = Ok x'"
proof -
  from assms(1) obtain tree where t: "nest_entries [] (map (\<lambda>(k, v). (k, nest_inner (d + 1) v)) es) = Ok tree"
    "v = materialise (Branch tree)"
    by (auto simp: bindR_Ok depth_err_def split: if_split_asm)
  have "(key, nest_inner (d + 1) x) \<in> set (map (\<lambda>(k, v). (k, nest_inner (d + 1) v)) es)" using assms(2) by force
  from nest_entries_all[OF t(1) this] show ?thesis using path_at t(2) by blast
qed

end
