(* ===== verification/Guarantees.thy ===== *)
theory Guarantees
  imports Checked Formats_Facts Schema_Facts
begin

section \<open>Built-in functions, types and schemas: properties\<close>

text \<open>
  The properties of the built-in functions, of the inference of types and of the schemas of properties, over the registry that
  the daemon and the analyzer build. \<open>ex_libs\<close> of \<open>Checked\<close> stands for the libraries in the witnesses.
\<close>

subsection \<open>Built-in functions\<close>

text \<open>C21: A call of a modelled built-in function that passes the arity check returns a value of the type that the signature
  declares or an error. The one exception is \<open>table_upsert\<close>, which panics only when the time at which the entry would expire is
  outside the range of the clock.\<close>

theorem builtin_calls_sound:
  assumes "libs_ok lib" "key \<notin> fst ` set others"
    and "map_of (reg_functions (config_registry lib others cfg)) key = Some f" "applies (config_registry lib others cfg) key args"
    and "map_of (reg_signatures (config_registry lib others cfg)) key = Some fsig"
  shows "\<exists>r w'. f args ev w = (r, w') \<and> (r = Crash \<longrightarrow> key = upsert_key \<and> upsert_overflows lib args w)
     \<and> (\<forall>v. r = Ok v \<longrightarrow> has_ty v (fs_ret fsig))"
proof -
  obtain r w' where r: "f args ev w = (r, w')" by (cases "f args ev w")
  have "key = upsert_key \<and> upsert_overflows lib args w" if "r = Crash"
    using builtin_crash[OF assms(1,2), where fds = "map snd (cfg_functions cfg)" and f = f and args = args and ev = ev and w = w] assms(3,4) r that by (simp add: config_registry_def)
  moreover have "has_ty v (fs_ret fsig)" if "r = Ok v" for v
    using builtin_typed[OF assms(1,2), where fds = "map snd (cfg_functions cfg)" and f = f and args = args and ev = ev and w = w and v = v] assms(3-5) r that by (simp add: config_registry_def)
  ultimately show ?thesis using r by blast
qed

lemma no_entries: "list_all typed_entry []"
  by simp

lemma ex_len:
  "map_of (reg_functions (config_registry ex_libs [] ex_functions)) (None, ''len'') = Some (on1 (\<lambda>v. Ok (measure_val v)))"
  "map_of (reg_signatures (config_registry ex_libs [] ex_functions)) (None, ''len'') = Some (sig_fixed [TAny] (or_null_ty TInt))"
  "applies (config_registry ex_libs [] ex_functions) (None, ''len'') [VString ''abc'']"
proof -
  have fresh: "''len'' \<notin> fd_name ` set (map snd (cfg_functions ex_functions))" by (simp add: ex_functions_def ex_double_def ex_quad_def)
  have len: "map_of (rev (builtin_entries ex_libs)) (None, ''len'') = Some (sig_fixed [TAny] (or_null_ty TInt), on1 (\<lambda>v. Ok (measure_val v)))"
    by (rule builtin_lookup)
  show f: "map_of (reg_functions (config_registry ex_libs [] ex_functions)) (None, ''len'') = Some (on1 (\<lambda>v. Ok (measure_val v)))"
    and s: "map_of (reg_signatures (config_registry ex_libs [] ex_functions)) (None, ''len'') = Some (sig_fixed [TAny] (or_null_ty TInt))"
    using fresh len by (simp_all add: config_registry_def runtime_registry_def user_functions_maps register_all_maps)
  show "applies (config_registry ex_libs [] ex_functions) (None, ''len'') [VString ''abc'']"
    unfolding applies_def s using config_users[OF ex_functions_keyed, of ex_libs "[]" "''len''"]
    by (simp add: ex_functions_def arity_ok_def sig_fixed_def)
qed

theorem builtin_calls_sound_witness:
  "\<exists>r w'. on1 (\<lambda>v. Ok (measure_val v)) [VString ''abc''] (event_view_in ex_event) () = (r, w') \<and> r \<noteq> Crash \<and>
     (\<forall>v. r = Ok v \<longrightarrow> has_ty v (or_null_ty TInt))"
  using builtin_calls_sound[OF ex_libs_ok _ ex_len(1) ex_len(3) ex_len(2), of "event_view_in ex_event" "()"]
  by (simp add: sig_fixed_def upsert_key_def)

text \<open>A priority header written by \<open>syslog.set_pri\<close> is the one \<open>extract_pri\<close> reads, \<open>strip_pri\<close> gives back the text without a
  header, and the listener accepts the message.\<close>

theorem pri_roundtrip:
  assumes "facility \<le> 23" "severity \<le> 7"
  shows "\<exists>t. set_pri_impl rfc [VString s, VInt (int facility), VInt (int severity)] = Ok (VString t)
    \<and> extract_pri t = VInt (int (facility * 8 + severity)) \<and> strip_pri t = strip_pri s \<and> validate_pri t = Inr ()"
proof -
  have n: "facility * 8 + severity \<le> 191" using assms by simp
  show ?thesis unfolding set_pri_ints[OF assms] using extract_header_of[OF n] strip_header_of[OF n] validate_header_of[OF n] by simp
qed

theorem pri_roundtrip_witness:
  "\<exists>t. set_pri_impl (\<lambda>_. []) [VString ''<13>hi'', VInt (int 16), VInt (int 5)] = Ok (VString t)
    \<and> extract_pri t = VInt (int (16 * 8 + 5)) \<and> strip_pri t = strip_pri ''<13>hi'' \<and> validate_pri t = Inr ()"
  by (rule pri_roundtrip) simp_all

text \<open>C29: A CEF header is read back field by field, whatever characters the fields hold, when pipes and backslashes are
  written behind a backslash; the extension does not touch it.\<close>

theorem cef_header_roundtrip:
  assumes "length fs = 6"
  shows "\<exists>es. cef_parse rfc [VString (''CEF:'' @ cef_header (fs @ [sev]) @ ext)] = Ok (VObject
     (zip cef_names (map VString fs) @ [(''severity'', severity_value sev)] @ es)) \<and>
     es = (if ext = [] then [] else [(''extension_raw'', VString ext), (''extension'', VObject (parse_cef_extensions ext))])"
proof -
  obtain es where "cef_parse rfc [VString (''CEF:'' @ cef_header (fs @ [sev]) @ ext)] = Ok (VObject
     (zip cef_names (map VString fs) @ [(''severity'', severity_value sev)] @ es))"
     "ext \<noteq> [] \<longrightarrow> es = [(''extension_raw'', VString ext), (''extension'', VObject (parse_cef_extensions ext))]" "ext = [] \<longrightarrow> es = []"
    using cef_parse_header[OF assms, of rfc sev ext] by (elim exE conjE)
  then show ?thesis by (intro exI[of _ es]) simp
qed

theorem cef_header_roundtrip_witness:
  "\<exists>es. cef_parse (\<lambda>_. []) [VString (''CEF:'' @ cef_header ([''0'', ''a|b'', ''c'', ''1'', ''9'', ''n''] @ [''5'']) @ ''src=x'')] = Ok (VObject
     (zip cef_names (map VString [''0'', ''a|b'', ''c'', ''1'', ''9'', ''n'']) @ [(''severity'', severity_value ''5'')] @ es)) \<and>
     es = (if ''src=x'' = [] then [] else [(''extension_raw'', VString ''src=x''), (''extension'', VObject (parse_cef_extensions ''src=x''))])"
  by (rule cef_header_roundtrip) simp

text \<open>C30: Pairs of keys and values written with a separator, values that need it in quotes, are what \<open>parse_kv\<close> reads.\<close>

theorem kv_roundtrip:
  assumes "sep \<noteq> CHR ''=''" "sep \<noteq> CHR 0x22" "(of_char sep :: nat) < 128" "\<forall>p \<in> set ps. kv_ok sep p"
  shows "parse_kv_impl rfc [VString (join [sep] (map (kv_render sep) ps)), VString [sep]] =
    Ok (VObject (map (\<lambda>(k, v). (k, VString v)) ps))"
  using kv_pairs_render[of sep ps] assms
  by (simp add: parse_kv_impl_def arg_def val_to_str_def nth_opt_def separator_byte_def bindR_def)

theorem kv_roundtrip_witness:
  "parse_kv_impl (\<lambda>_. []) [VString (join [CHR '' ''] (map (kv_render (CHR '' '')) [(''a'', ''1''), (''b'', ''x y'')])), VString [CHR '' '']] =
    Ok (VObject (map (\<lambda>(k, v). (k, VString v)) [(''a'', ''1''), (''b'', ''x y'')]))"
  by (rule kv_roundtrip) (simp_all add: kv_ok_def)

text \<open>C31: When \<open>nest_dotted_keys\<close> succeeds, \<open>path\<close> along the segments of each key finds the nested form of the value the key had:
  no entry is lost or overwritten.\<close>

theorem nested_keys_found:
  assumes "nest_inner 0 (VObject es) = Ok v" "(key, x) \<in> set es"
  shows "\<exists>x'. nest_inner 1 x = Ok x' \<and> fn_path (v # map VString (split_on (CHR ''.'') key)) = Ok x'"
  using nest_then_path[OF assms, where i = 2] by (simp add: fn_path_def arg_def bindR_def)

theorem nested_keys_found_witness:
  "\<exists>x'. nest_inner 1 (VInt 2) = Ok x' \<and>
     fn_path (VObject [(''a'', VObject [(''b'', VInt 2), (''c'', VInt 1)])] # map VString (split_on (CHR ''.'') ''a.b'')) = Ok x'"
  by (rule nested_keys_found[of "[(''a.c'', VInt 1), (''a.b'', VInt 2)]"]) code_simp+

subsection \<open>The analyzer\<close>

text \<open>C10: The type the analyzer infers is the type of the value. Take an \<open>inferable\<close> expression, whose value is not
  given by the negation of an operand of known type and which names \<open>error\<close> only where there is an error text, and a configuration that
  does not redefine one of the six functions whose type the analyzer refines. When the bindings describe the workspace and the expression evaluates, its value has the
  inferred type.\<close>

theorem inferred_types_sound:
  assumes "libs_ok lib" "list_all typed_entry others"
    and "\<forall>name \<in> set refined. (None, name) \<notin> fst ` set others \<and> name \<notin> fd_name ` set (map snd (cfg_functions cfg))"
    and "described b ev Map.empty" "err \<Longrightarrow> \<exists>s. workspace_get ev ''_error'' = Some (VString s)"
    and "inferable (config_registry lib others cfg) b err e"
    and "eval_expr (config_registry lib others cfg) ev n e w = (Ok v, w')"
  shows "has_ty v (infer (config_registry lib others cfg) b e)"
proof -
  have "standard (config_registry lib others cfg)"
    unfolding config_registry_def by (rule runtime_standard[OF assms(1-3)])
  from infer_sound[OF this assms(4,5,6), of n] show ?thesis
    using assms(7) unfolding postM_def eval_expr_def by blast
qed

lemma bindings_new_described: "(\<forall>x \<in> insert ''workspace'' (set reserved_names). sc x = None) \<Longrightarrow> described bindings_new ev sc"
  by (simp add: described_def bindings_new_def get_workspace_def get_let_def)

lemma ex_len_call:
  "eval_expr (config_registry ex_libs [] ex_functions) (event_view_in ex_event) 5 (FuncCall None ''len'' [StringLit ''abc''] None) () = (Ok (VInt 3), ())"
proof -
  have user: "map_of (user_definitions (config_registry ex_libs [] ex_functions)) ''len'' = None"
    using config_users[OF ex_functions_keyed, of ex_libs "[]" "''len''"] by (simp add: ex_functions_def)
  have "measure_val (VString ''abc'') = VInt 3" by code_simp
  then have "registry_call (config_registry ex_libs [] ex_functions) (event_view_in ex_event) rec None ''len'' [VString ''abc''] () = (Ok (VInt 3), ())" for rec
    by (simp add: registry_call_def user ex_len(1,2) validate_arity_def Let_def arity_ok_def sig_fixed_def liftR_def on1_def pure_fn_def arg_def bindR_def bindM_def)
  moreover have "mapM (\<lambda>a. eval_expr_with_scope (config_registry ex_libs [] ex_functions) (event_view_in ex_event) 4 a Map.empty) [StringLit ''abc''] ()
      = (Ok [VString ''abc''], ())"
    by (simp add: numeral_eq_Suc bindM_step ret_def)
  ultimately show ?thesis
    using eval_call_step[of "config_registry ex_libs [] ex_functions" "event_view_in ex_event" 4 Map.empty "[StringLit ''abc'']" "()"]
    unfolding eval_expr_def by (simp only: numeral_eq_Suc pred_numeral_simps BitM.simps)
qed

theorem inferred_types_sound_witness:
  "has_ty (VInt 3) (infer (config_registry ex_libs [] ex_functions) bindings_new (FuncCall None ''len'' [StringLit ''abc''] None))"
proof (rule inferred_types_sound[OF ex_libs_ok no_entries _ _ _ _ ex_len_call, where err = False])
  show "described bindings_new (event_view_in ex_event) Map.empty" by (rule bindings_new_described) simp
qed (simp_all add: refined_def ex_functions_def ex_double_def ex_quad_def)

text \<open>C28: The checks of the call graphs are exact, and never run out: no diagnostic exactly when the calls that they see have
  a rank, for functions and for processes.\<close>

theorem call_cycles_exact:
  "(\<exists>ds. check_function_cycles cfg = Some ds \<and> (ds = [] \<longleftrightarrow> (\<exists>rk. functions_ranked cfg rk))) \<and>
   (\<exists>ds. check_process_cycles cfg = Some ds \<and> (ds = [] \<longleftrightarrow> (\<exists>rk. processes_ranked cfg rk)))"
  by (intro conjI function_cycles process_cycles)

text \<open>The suggestions of the analyzer use the edit distance: the number computed is that of some sequence of insertions,
  deletions and replacements of characters, and no sequence is shorter.\<close>

theorem levenshtein_least:
  "aligned (chars a) (chars b) (levenshtein a b) \<and> (aligned (chars a) (chars b) n \<longrightarrow> levenshtein a b \<le> n)"
  unfolding levenshtein_def using lev_chars_least by blast

theorem levenshtein_least_witness:
  "levenshtein ''ab'' ''b'' \<le> 1"
proof -
  have "aligned [[CHR ''a''], [CHR ''b'']] [[CHR ''b'']] 1"
    using aligned.keep[OF aligned.del[OF aligned.nil, of "[CHR ''a'']"], of "[CHR ''b'']"] by simp
  moreover have "chars ''ab'' = [[CHR ''a''], [CHR ''b'']]" "chars ''b'' = [[CHR ''b'']]" by code_simp+
  ultimately show ?thesis using levenshtein_least[of "''ab''" "''b''" 1] by simp
qed

subsection \<open>Schemas\<close>

text \<open>C22: The validator accepts a list of properties exactly when every property is declared with a value of its kind, none is
  given twice unless it may be, the required ones are there, and of an exclusive group at most one is used.\<close>

theorem schema_accepts_exactly:
  "validate spec ps = [] \<longleftrightarrow> (\<forall>p \<in> set ps. declared spec p) \<and>
     (\<forall>k s. spec_of spec k = Some s \<longrightarrow> \<not> sp_repeatable s \<longrightarrow> count_list (map pr_key ps) k \<le> 1) \<and>
     (\<forall>s \<in> set spec. sp_required s \<longrightarrow> sp_name s \<in> pr_key ` set ps) \<and>
     (\<forall>p \<in> set ps. \<forall>q \<in> set ps. group_of spec (pr_key p) \<noteq> None \<longrightarrow> group_of spec (pr_key p) = group_of spec (pr_key q) \<longrightarrow>
        pr_key p = pr_key q)"
  by (rule validate_none)

definition ex_spec :: "property_spec list" where
  "ex_spec = [Spec ''path'' True False None KString, Spec ''mode'' False False None (KEnum [''append'', ''truncate''])]"

definition ex_props :: "property list" where
  "ex_props = [KeyValue ''path'' False (StringLit ''/log''), KeyValue ''mode'' False (Ident [''append''])]"

lemma ex_valid: "validate ex_spec ex_props = []"
  by code_simp

theorem schema_accepts_exactly_witness:
  "declared ex_spec (KeyValue ''mode'' False (Ident [''append'']))"
  using iffD1[OF schema_accepts_exactly ex_valid] by (simp add: ex_props_def)

text \<open>C23: A property that the validator accepts is read: the reader of its kind returns a value, durations and sizes parse, an
  enumeration gives one of its variants, and a block is accepted by its own schema.\<close>

theorem accepted_properties_read:
  assumes "validate spec ps = []" "spec_of spec k = Some s" "k \<in> pr_key ` set ps"
  shows "(sp_kind s = KInt \<longrightarrow> (\<exists>n. get_int ps k = Some n)) \<and>
    (sp_kind s = KString \<longrightarrow> (\<exists>t. get_string debug ps k = Some t)) \<and>
    (sp_kind s = KBool \<longrightarrow> (\<exists>b. get_bool ps k = Some b)) \<and>
    (sp_kind s = KDuration \<longrightarrow> (\<exists>t n. get_string debug ps k = Some t \<and> parse_duration t = Some n)) \<and>
    (sp_kind s = KSize \<longrightarrow> (\<exists>t n. get_string debug ps k = Some t \<and> parse_size t = Some n)) \<and>
    (\<forall>a. sp_kind s = KEnum a \<longrightarrow> (\<exists>i \<in> set a. get_ident ps k = Some i)) \<and>
    (\<forall>inner. sp_kind s = KBlock inner \<longrightarrow> (\<exists>qs. get_block ps k = Some qs \<and> validate inner qs = []))"
  by (rule schema_readers[OF assms])

theorem accepted_properties_read_witness:
  "\<exists>i \<in> {''append'', ''truncate''}. get_ident ex_props ''mode'' = Some i"
proof -
  have "spec_of ex_spec ''mode'' = Some (Spec ''mode'' False False None (KEnum [''append'', ''truncate'']))" by (simp add: ex_spec_def spec_of_def)
  from accepted_properties_read[OF ex_valid this, of "\<lambda>_. []"] show ?thesis by (simp add: ex_props_def)
qed

text \<open>A size whose product leaves 64 bits wraps: 17179869184 gigabytes are read as 0.\<close>

lemma parse_size_wraps: "parse_size ''17179869184GB'' = Some 0"
proof -
  have "str_trim ''17179869184GB'' = ''17179869184GB''" "str_trim ''17179869184'' = ''17179869184''" by code_simp+
  moreover have "map ascii_upper ''17179869184GB'' = ''17179869184GB''" by code_simp
  moreover have "strip_suffix ''GB'' ''17179869184GB'' = Some ''17179869184''" by code_simp
  moreover have "parse_u64_str ''17179869184'' = Some 17179869184"
    by (simp add: parse_u64_str_def Let_def digits_val_def is_digit_def digit_val_def)
  ultimately show ?thesis by (simp add: parse_size_def Let_def wrap_u64_def)
qed

end
