(* ===== verification/Config.thy ===== *)
theory Config
  imports OutputCheck LtpNet
begin

section \<open>The compiled configuration\<close>

text \<open>
  \<open>pipeline/compiled_config.rs\<close>: definitions by name, and the cross-references that must resolve before a configuration is
  compiled; \<open>ModuleProperties\<close> of \<open>dsl/module_props.rs\<close>; the peers of LTP inputs and outputs that \<open>modules/input/ltp.rs\<close> and
  \<open>modules/output/ltp.rs\<close> check for it. Hash maps are association lists in the order of insertion: only which of several errors
  is reported depends on it. Base64 and the check of server names in the TLS library are parameters.
\<close>

subsection \<open>Properties of a module\<close>

text \<open>\<open>ModuleProperties::parse\<close>: the type, and the properties behind it.\<close>

fun parse_module_from :: "property list \<Rightarrow> rstr option \<Rightarrow> property list \<Rightarrow> (rstr \<times> property list) res" where
  "parse_module_from [] ty user = (case ty of Some t \<Rightarrow> Ok (t, user) | None \<Rightarrow> Err (''missing required property '' @ tick ''type''))"
| "parse_module_from (p # ps) ty user =
     (if pr_key p \<noteq> ''type'' then parse_module_from ps ty (user @ [p])
      else if pr_quoted p then Err ''quoted property keys are only allowed inside a StringMap; use bare type''
      else (case p of
        KeyValue _ _ (Ident [t]) \<Rightarrow>
          if ty \<noteq> None then Err (tick ''type'' @ '' specified more than once'') else parse_module_from ps (Some t) user
      | _ \<Rightarrow> Err (tick ''type'' @ '' must be a bare identifier (e.g. `type syslog_tcp`)'')))"

definition parse_module :: "property list \<Rightarrow> (rstr \<times> property list) res" where
  "parse_module raw = parse_module_from raw None []"

subsection \<open>Definitions by name\<close>

datatype definition_item =
  DInput module_def | DOutput module_def | DProcess process_def | DPipeline pipeline_def | DFunction function_def

record parsed_config =
  rc_node_id :: "rstr option"
  rc_node_key :: "rstr option"
  rc_definitions :: "definition_item list"
  rc_globals :: "(rstr \<times> property list) list"

text \<open>Processes, pipelines and functions are the \<open>config\<close> of the blueprint compiler.\<close>

record compiled_config =
  cc_node_id :: "rstr option"
  cc_node_key :: "rstr option"
  cc_inputs :: "(rstr \<times> module_def) list"
  cc_outputs :: "(rstr \<times> module_def) list"
  cc_config :: config
  cc_globals :: "(rstr \<times> property list) list"

definition insert_new :: "string \<Rightarrow> rstr \<Rightarrow> 'a \<Rightarrow> (rstr \<times> 'a) list \<Rightarrow> (rstr \<times> 'a) list res" where
  "insert_new what name d ds =
     (if name \<in> fst ` set ds then Err (''duplicate '' @ what @ '' definition: '' @ name) else Ok (ds @ [(name, d)]))"

fun add_definition :: "definition_item \<Rightarrow> compiled_config \<Rightarrow> compiled_config res" where
  "add_definition (DInput d) c = bindR (insert_new ''input'' (md_name d) d (cc_inputs c)) (\<lambda>ds. Ok (c\<lparr>cc_inputs := ds\<rparr>))"
| "add_definition (DOutput d) c = bindR (insert_new ''output'' (md_name d) d (cc_outputs c)) (\<lambda>ds. Ok (c\<lparr>cc_outputs := ds\<rparr>))"
| "add_definition (DProcess d) c = bindR (insert_new ''process'' (pd_name d) d (cfg_processes (cc_config c)))
     (\<lambda>ds. Ok (c\<lparr>cc_config := (cc_config c)\<lparr>cfg_processes := ds\<rparr>\<rparr>))"
| "add_definition (DPipeline d) c = bindR (insert_new ''pipeline'' (pl_name d) d (cfg_pipelines (cc_config c)))
     (\<lambda>ds. Ok (c\<lparr>cc_config := (cc_config c)\<lparr>cfg_pipelines := ds\<rparr>\<rparr>))"
| "add_definition (DFunction d) c = bindR (insert_new ''function'' (fd_name d) d (cfg_functions (cc_config c)))
     (\<lambda>ds. Ok (c\<lparr>cc_config := (cc_config c)\<lparr>cfg_functions := ds\<rparr>\<rparr>))"

fun add_definitions :: "definition_item list \<Rightarrow> compiled_config \<Rightarrow> compiled_config res" where
  "add_definitions [] c = Ok c"
| "add_definitions (d # ds) c = bindR (add_definition d c) (add_definitions ds)"

text \<open>\<open>CompiledConfig::from_config\<close>: of two global blocks with one name the later counts.\<close>

definition from_config :: "parsed_config \<Rightarrow> compiled_config res" where
  "from_config rc = bindR
     (add_definitions (rc_definitions rc) \<lparr>cc_node_id = rc_node_id rc, cc_node_key = rc_node_key rc, cc_inputs = [], cc_outputs = [],
        cc_config = \<lparr>cfg_processes = [], cfg_pipelines = [], cfg_functions = []\<rparr>, cc_globals = []\<rparr>)
     (\<lambda>c. Ok (c\<lparr>cc_globals := fold (\<lambda>(n, ps). al_set n ps) (rc_globals rc) []\<rparr>))"

subsection \<open>Peers of LTP inputs\<close>

definition peer_blocks :: "property list \<Rightarrow> property list list" where
  "peer_blocks ps = concat (map (\<lambda>p. case p of Block k _ inner \<Rightarrow> if k = ''peer'' then [inner] else [] | KeyValue _ _ _ \<Rightarrow> []) ps)"

definition literal_strings :: "property list \<Rightarrow> rstr \<Rightarrow> rstr list" where
  "literal_strings ps key = concat (map (\<lambda>p. case p of KeyValue k _ (StringLit s) \<Rightarrow> if k = key then [s] else [] | _ \<Rightarrow> []) ps)"

definition required_literal_string :: "string \<Rightarrow> rstr \<Rightarrow> property list \<Rightarrow> rstr \<Rightarrow> rstr res" where
  "required_literal_string surface name ps key = (case literal_strings ps key of
     [v] \<Rightarrow> Ok v
   | [] \<Rightarrow> Err (surface @ '' '' @ tick name @ '': peer '' @ key @ '' requires a string value'')
   | _ \<Rightarrow> Err (surface @ '' '' @ tick name @ '': duplicate peer '' @ key))"

definition ed25519_spki_prefix :: bytes where
  "ed25519_spki_prefix = map char_of [0x30, 0x2a, 0x30, 0x05, 0x06, 0x03, 0x2b, 0x65, 0x70, 0x03, 0x21, 0x00 :: nat]"

definition decode_ed25519_spki :: "(string \<Rightarrow> bytes option) \<Rightarrow> string \<Rightarrow> rstr \<Rightarrow> string \<Rightarrow> bytes res" where
  "decode_ed25519_spki b64 surface name encoded = (case b64 encoded of
     None \<Rightarrow> Err (surface @ '' '' @ tick name @ '': peer pubkey is not valid base64'')
   | Some d \<Rightarrow> if length d \<noteq> length ed25519_spki_prefix + 32 \<or> \<not> starts_with ed25519_spki_prefix d
       then Err (surface @ '' '' @ tick name @ '': peer pubkey must be an Ed25519 SPKI DER value'') else Ok d)"

text \<open>The node of each public key; the second list is the set of node names seen.\<close>

fun parse_peer_blocks :: "(string \<Rightarrow> bytes option) \<Rightarrow> rstr \<Rightarrow> property list list \<Rightarrow> (bytes \<times> rstr) list \<Rightarrow> rstr list \<Rightarrow> (bytes \<times> rstr) list res" where
  "parse_peer_blocks b64 name [] by_spki ids =
     (if by_spki = [] then Err (''input '' @ tick name @ '': at least one peer block is required'') else Ok by_spki)"
| "parse_peer_blocks b64 name (peer # peers) by_spki ids =
     bindR (required_literal_string ''input'' name peer ''node_id'') (\<lambda>nid.
     if nid = [] then Err (''input '' @ tick name @ '': peer node_id must be non-empty'')
     else if nid \<in> set ids then Err (''input '' @ tick name @ '': duplicate peer node_id '' @ tick nid)
     else bindR (required_literal_string ''input'' name peer ''pubkey'') (\<lambda>encoded.
       bindR (decode_ed25519_spki b64 ''input'' name encoded) (\<lambda>spki.
       if spki \<in> fst ` set by_spki then Err (''input '' @ tick name @ '': duplicate peer pubkey'')
       else parse_peer_blocks b64 name peers (by_spki @ [(spki, nid)]) (nid # ids))))"

definition parse_peers :: "(string \<Rightarrow> bytes option) \<Rightarrow> rstr \<Rightarrow> property list \<Rightarrow> (bytes \<times> rstr) list res" where
  "parse_peers b64 name ps = parse_peer_blocks b64 name (peer_blocks ps) [] []"

definition validate_ltp_input :: "(string \<Rightarrow> bytes option) \<Rightarrow> rstr \<Rightarrow> property list \<Rightarrow> unit res" where
  "validate_ltp_input b64 name ps = bindR (parse_peers b64 name ps) (\<lambda>_.
     bindR (get_positive_int ps ''max_hops'') (\<lambda>hops.
     ensure ((case hops of Some n \<Rightarrow> n | None \<Rightarrow> default_max_hops) \<le> default_max_hops)
       (''input '' @ tick name @ '': max_hops must be between 1 and '' @ nat_digits default_max_hops)))"

subsection \<open>Listener groups\<close>

definition default_ltp_port :: nat where "default_ltp_port = 7514"
definition default_max_connections :: nat where "default_max_connections = 1024"

record listener_spec =
  ls_name :: rstr
  ls_bind :: string
  ls_max :: nat
  ls_peers :: "(bytes \<times> rstr) list"

definition listener_spec_of :: "(string \<Rightarrow> bytes option) \<Rightarrow> (expr \<Rightarrow> string) \<Rightarrow> rstr \<times> property list \<Rightarrow> listener_spec res" where
  "listener_spec_of b64 debug = (\<lambda>(name, ps).
     bindR (get_positive_int ps ''max_connections'') (\<lambda>mc.
     bindR (parse_peers b64 name ps) (\<lambda>peers.
     Ok \<lparr>ls_name = name,
         ls_bind = (case get_string debug ps ''bind'' of Some b \<Rightarrow> b | None \<Rightarrow> ''0.0.0.0:'' @ nat_digits default_ltp_port),
         ls_max = (case mc of Some n \<Rightarrow> n | None \<Rightarrow> default_max_connections), ls_peers = peers\<rparr>)))"

text \<open>The names and keys seen so far in the group, each with the input that declared it.\<close>

fun check_peers :: "string \<Rightarrow> rstr \<Rightarrow> (bytes \<times> rstr) list \<Rightarrow> (rstr \<times> rstr) list \<Rightarrow> (bytes \<times> rstr) list \<Rightarrow> ((rstr \<times> rstr) list \<times> (bytes \<times> rstr) list) res" where
  "check_peers bind member [] ids pks = Ok (ids, pks)"
| "check_peers bind member ((spki, nid) # ps) ids pks = (case map_of ids nid of
     Some previous \<Rightarrow> Err (''duplicate LTP peer node_id in listener group '' @ tick bind @ '': inputs '' @ tick previous @ '' and '' @ tick member)
   | None \<Rightarrow> (case map_of pks spki of
       Some previous \<Rightarrow> Err (''duplicate LTP peer public key in listener group '' @ tick bind @ '': inputs '' @ tick previous @ '' and '' @ tick member)
     | None \<Rightarrow> check_peers bind member ps ((nid, member) # ids) ((spki, member) # pks)))"

fun check_members :: "string \<Rightarrow> rstr \<Rightarrow> nat \<Rightarrow> listener_spec list \<Rightarrow> (rstr \<times> rstr) list \<Rightarrow> (bytes \<times> rstr) list \<Rightarrow> unit res" where
  "check_members bind leader mc [] ids pks = Ok ()"
| "check_members bind leader mc (m # ms) ids pks =
     (if ls_max m \<noteq> mc
      then Err (''LTP listener max_connections mismatch on bind '' @ tick bind @ '' between inputs '' @ tick leader @ '' and '' @ tick (ls_name m))
      else bindR (check_peers bind (ls_name m) (ls_peers m) ids pks) (\<lambda>(ids', pks'). check_members bind leader mc ms ids' pks'))"

definition check_group :: "listener_spec list \<Rightarrow> string \<Rightarrow> unit res" where
  "check_group specs bind = (case List.filter (\<lambda>s. ls_bind s = bind) specs of
     [] \<Rightarrow> Ok () | m # ms \<Rightarrow> check_members bind (ls_name m) (ls_max m) (m # ms) [] [])"

fun unspecified_ip :: "ip_addr \<Rightarrow> bool" where
  "unspecified_ip (V4 a b c d) = (a = 0 \<and> b = 0 \<and> c = 0 \<and> d = 0)"
| "unspecified_ip (V6 gs) = list_all (\<lambda>g. g = 0) gs"

fun listener_binds_overlap :: "sock_addr \<Rightarrow> sock_addr \<Rightarrow> bool" where
  "listener_binds_overlap (V4 a b c d, p) (V4 a' b' c' d', p') =
     (p = p' \<and> (V4 a b c d = V4 a' b' c' d' \<or> unspecified_ip (V4 a b c d) \<or> unspecified_ip (V4 a' b' c' d')))"
| "listener_binds_overlap (V6 gs, p) (V6 gs', p') = (p = p' \<and> (gs = gs' \<or> unspecified_ip (V6 gs) \<or> unspecified_ip (V6 gs')))"
| "listener_binds_overlap _ _ = False"

definition specs_overlap :: "listener_spec \<Rightarrow> listener_spec \<Rightarrow> bool" where
  "specs_overlap l r = (ls_bind l \<noteq> ls_bind r \<and> (case (parse_socket_addr (ls_bind l), parse_socket_addr (ls_bind r)) of
     (Some a, Some b) \<Rightarrow> listener_binds_overlap a b | _ \<Rightarrow> False))"

fun check_overlaps :: "listener_spec list \<Rightarrow> unit res" where
  "check_overlaps [] = Ok ()"
| "check_overlaps (l # ls) = bindR (eachR (\<lambda>r. ensure (\<not> specs_overlap l r)
     (''overlapping LTP listener binds '' @ tick (ls_bind l) @ '' (input '' @ tick (ls_name l) @ '') and '' @ tick (ls_bind r)
        @ '' (input '' @ tick (ls_name r) @ '')'')) ls) (\<lambda>_. check_overlaps ls)"

fun mapR :: "('a \<Rightarrow> 'b res) \<Rightarrow> 'a list \<Rightarrow> 'b list res" where
  "mapR f [] = Ok []"
| "mapR f (x # xs) = bindR (f x) (\<lambda>y. bindR (mapR f xs) (\<lambda>ys. Ok (y # ys)))"

definition validate_listener_groups :: "(string \<Rightarrow> bytes option) \<Rightarrow> (expr \<Rightarrow> string) \<Rightarrow> (rstr \<times> property list) list \<Rightarrow> unit res" where
  "validate_listener_groups b64 debug inputs =
     bindR (mapR (listener_spec_of b64 debug) inputs) (\<lambda>unsorted.
     let specs = sort_key ls_name unsorted in
     bindR (eachR (check_group specs) (sort_dedup (map ls_bind specs))) (\<lambda>_. check_overlaps specs))"

subsection \<open>The peer of an LTP output\<close>

definition parse_ipv6 :: "string \<Rightarrow> ip_addr option" where
  "parse_ipv6 s = (case read_ipv6 s of Some (a, []) \<Rightarrow> Some a | _ \<Rightarrow> None)"

definition parse_u16 :: "string \<Rightarrow> nat option" where
  "parse_u16 s = (case parse_u64_str s of Some n \<Rightarrow> if n < 65536 then Some n else None | None \<Rightarrow> None)"

definition rsplit_once :: "char \<Rightarrow> string \<Rightarrow> (string \<times> string) option" where
  "rsplit_once c s = map_option (\<lambda>(a, b). (rev b, rev a)) (split_once c (rev s))"

text \<open>The host and the address to connect to.\<close>

definition parse_endpoint :: "rstr \<Rightarrow> string \<Rightarrow> (string \<times> string) res" where
  "parse_endpoint name ep =
     (let bad = (\<lambda>m. Err (''output '' @ tick name @ '': '' @ m));
          bracketed = (\<lambda>host port. ''['' @ host @ '']:'' @ nat_digits port) in
      case ep of
        [] \<Rightarrow> bad ''peer endpoint must be non-empty''
      | c # rest \<Rightarrow>
        if c = CHR ''['' then (case split_once (CHR '']'') rest of
            None \<Rightarrow> bad ''invalid bracketed peer endpoint''
          | Some (host, suffix) \<Rightarrow>
              if parse_ipv6 host = None then bad ''invalid IPv6 peer endpoint''
              else (case suffix of
                [] \<Rightarrow> Ok (host, bracketed host default_ltp_port)
              | d # port \<Rightarrow> if d \<noteq> CHR '':'' then bad ''invalid peer endpoint''
                  else (case parse_u16 port of None \<Rightarrow> bad ''invalid peer endpoint port'' | Some p \<Rightarrow> Ok (host, bracketed host p))))
        else if 1 < length (List.filter (\<lambda>x. x = CHR '':'') ep) then
          (if parse_ipv6 ep = None then bad ''invalid peer endpoint'' else Ok (ep, bracketed ep default_ltp_port))
        else (case rsplit_once (CHR '':'') ep of
            Some (host, port) \<Rightarrow>
              if host = [] then bad ''peer endpoint host must be non-empty''
              else (case parse_u16 port of None \<Rightarrow> bad ''invalid peer endpoint port'' | Some p \<Rightarrow> Ok (host, host @ '':'' @ nat_digits p))
          | None \<Rightarrow> Ok (ep, ep @ '':'' @ nat_digits default_ltp_port)))"

record peer_config =
  pf_node_id :: rstr
  pf_address :: string
  pf_server_name :: string
  pf_spki :: bytes

definition parse_peer :: "(string \<Rightarrow> bytes option) \<Rightarrow> (string \<Rightarrow> bool) \<Rightarrow> rstr \<Rightarrow> property list \<Rightarrow> peer_config res" where
  "parse_peer b64 server_name name ps = (case peer_blocks ps of
     [peer] \<Rightarrow>
       bindR (required_literal_string ''output'' name peer ''node_id'') (\<lambda>nid.
       if nid = [] then Err (''output '' @ tick name @ '': peer node_id must be non-empty'') else
       bindR (required_literal_string ''output'' name peer ''pubkey'') (\<lambda>pubkey.
       bindR (decode_ed25519_spki b64 ''output'' name pubkey) (\<lambda>spki.
       bindR (required_literal_string ''output'' name peer ''endpoint'') (\<lambda>ep.
       bindR (parse_endpoint name ep) (\<lambda>(host, address).
       if \<not> server_name host then Err (''output '' @ tick name @ '': invalid peer endpoint host '' @ tick host)
       else Ok \<lparr>pf_node_id = nid, pf_address = address, pf_server_name = host, pf_spki = spki\<rparr>)))))
   | _ \<Rightarrow> Err (''output '' @ tick name @ '': exactly one peer block is required''))"

subsection \<open>Cross-references\<close>

fun validate_inputs :: "compiled_config \<Rightarrow> string \<Rightarrow> rstr list \<Rightarrow> rstr list \<Rightarrow> unit res" where
  "validate_inputs c pn [] seen = Ok ()"
| "validate_inputs c pn (n # ns) seen =
     (if map_of (cc_inputs c) n = None then Err (''pipeline '' @ tick pn @ '': references unknown input '' @ tick n)
      else if n \<in> set seen then Err (''pipeline '' @ tick pn @ '': input '' @ tick n @ '' listed more than once'')
      else validate_inputs c pn ns (n # seen))"

definition validate_element :: "compiled_config \<Rightarrow> string \<Rightarrow> chain_element \<Rightarrow> unit res" where
  "validate_element c pn el = (case el of
     Named name \<Rightarrow> ensure (map_of (cfg_processes (cc_config c)) name \<noteq> None)
       (''pipeline '' @ tick pn @ '': references unknown process '' @ tick name @ ''. Built-in processes were removed in v0.3.0 '' @ em_dash
          @ '' use a DSL function (e.g. `syslog.parse(ingress)` as a statement) or define your own with `def process { ... }`.'')
   | Inline _ \<Rightarrow> Ok ())"

lemma eachR_cong [fundef_cong]: "xs = ys \<Longrightarrow> (\<And>x. x \<in> set ys \<Longrightarrow> f x = g x) \<Longrightarrow> eachR f xs = eachR g ys"
  by (induction xs arbitrary: ys) auto

fun validate_pipeline_stmt :: "compiled_config \<Rightarrow> string \<Rightarrow> pipeline_statement \<Rightarrow> unit res"
  and validate_branch_item :: "compiled_config \<Rightarrow> string \<Rightarrow> branch_body \<Rightarrow> unit res" where
  "validate_pipeline_stmt c pn (SInput ns) =
     (if ns = [] then Err (''pipeline '' @ tick pn @ '': input statement has no input names'') else validate_inputs c pn ns [])"
| "validate_pipeline_stmt c pn (SOutput n) = ensure (map_of (cc_outputs c) n \<noteq> None)
     (''pipeline '' @ tick pn @ '': references unknown output '' @ tick n)"
| "validate_pipeline_stmt c pn (SProcessChain els) = eachR (validate_element c pn) els"
| "validate_pipeline_stmt c pn (SIf branches els) =
     bindR (eachR (\<lambda>(_, body). eachR (\<lambda>i. validate_branch_item c pn i) body) branches) (\<lambda>_.
       case els of Some body \<Rightarrow> eachR (\<lambda>i. validate_branch_item c pn i) body | None \<Rightarrow> Ok ())"
| "validate_pipeline_stmt c pn (SSwitch e arms) = eachR (\<lambda>(_, body). eachR (\<lambda>i. validate_branch_item c pn i) body) arms"
| "validate_pipeline_stmt c pn _ = Ok ()"
| "validate_branch_item c pn (BPipeline s) = validate_pipeline_stmt c pn s"
| "validate_branch_item c pn (BProcess s) = Ok ()"

definition ltp_modules :: "(rstr \<times> module_def) list \<Rightarrow> (rstr \<times> property list) list" where
  "ltp_modules ms = map (\<lambda>(n, d). (n, md_props d)) (List.filter (\<lambda>(_, d). md_type d = ''ltp'') ms)"

definition validate_config :: "(string \<Rightarrow> bytes option) \<Rightarrow> (string \<Rightarrow> bool) \<Rightarrow> (expr \<Rightarrow> string) \<Rightarrow> compiled_config \<Rightarrow> unit res" where
  "validate_config b64 server_name debug c =
     bindR (ensure (cc_node_key c \<noteq> None \<or> ltp_modules (cc_outputs c) = [] \<and> ltp_modules (cc_inputs c) = [])
       (''module type '' @ tick ''ltp'' @ '' requires top-level node_key'')) (\<lambda>_.
     bindR (eachR (\<lambda>(n, ps). validate_ltp_input b64 n ps) (ltp_modules (cc_inputs c))) (\<lambda>_.
     bindR (validate_listener_groups b64 debug (ltp_modules (cc_inputs c))) (\<lambda>_.
     bindR (eachR (\<lambda>(n, ps). bindR (parse_peer b64 server_name n ps) (\<lambda>_. Ok ())) (ltp_modules (cc_outputs c))) (\<lambda>_.
     eachR (\<lambda>(n, pl). eachR (validate_pipeline_stmt c n) (pl_body pl)) (cfg_pipelines (cc_config c))))))"

end
