(* ===== verification/Analyzer.thy ===== *)
theory Analyzer
  imports OutputCheck
begin

section \<open>The walk of the analyzer\<close>

text \<open>
  \<open>check/mod.rs\<close>, \<open>check/control_flow.rs\<close> and \<open>check/parser_effects.rs\<close>: the bindings threaded through the statements of a pipeline
  and its processes. A walk takes the bindings and returns them with the diagnostics it adds, in order.
\<close>

subsection \<open>Effects of parsers\<close>

record parser_info =
  pi_produces :: "(rstr list \<times> field_type) list"
  pi_wildcards :: bool
  pi_scoped :: "rstr list list"
  pi_defaults_indices :: "nat list"
  pi_extractor :: "(expr list \<Rightarrow> (rstr \<times> expr) list option) option"

definition in_workspace :: "rstr \<Rightarrow> rstr list" where
  "in_workspace k = [''workspace'', k]"

definition hash_at :: "expr list \<Rightarrow> nat \<Rightarrow> (rstr \<times> expr) list option" where
  "hash_at args i = (case nth_opt args i of Some (HashLit es) \<Rightarrow> Some es | _ \<Rightarrow> None)"

definition is_separator_string :: "expr list \<Rightarrow> nat \<Rightarrow> bool" where
  "is_separator_string args i = (case nth_opt args i of Some (StringLit _) \<Rightarrow> True | Some (Template _) \<Rightarrow> True | _ \<Rightarrow> False)"

definition extract_defaults :: "expr list \<Rightarrow> (rstr \<times> expr) list option" where
  "extract_defaults args =
     (if length args = 2 then hash_at args 1
      else if length args = 3 \<and> is_separator_string args 1 then hash_at args 2 else None)"

definition data_driven :: "nat list \<Rightarrow> (expr list \<Rightarrow> (rstr \<times> expr) list option) option \<Rightarrow> parser_info" where
  "data_driven is ex = \<lparr>pi_produces = [], pi_wildcards = True, pi_scoped = [], pi_defaults_indices = is, pi_extractor = ex\<rparr>"

definition syslog_parser :: parser_info where
  "syslog_parser = \<lparr>pi_produces =
       map (\<lambda>k. (in_workspace k, TInt)) [''pri'', ''facility'', ''severity'']
       @ map (\<lambda>k. (in_workspace k, TString)) [''timestamp'', ''hostname'', ''appname'', ''procid'', ''msgid'', ''msg''],
     pi_wildcards = False, pi_scoped = [], pi_defaults_indices = [1], pi_extractor = None\<rparr>"

definition cef_parser :: parser_info where
  "cef_parser = \<lparr>pi_produces =
       map (\<lambda>k. (in_workspace k, TString)) [''version'', ''device_vendor'', ''device_product'', ''device_version'', ''signature_id'', ''name'']
       @ [(in_workspace ''severity'', TUnion [TInt, TString]), (in_workspace ''extension_raw'', TString), (in_workspace ''extension'', TObject)],
     pi_wildcards = False, pi_scoped = [in_workspace ''extension''], pi_defaults_indices = [1], pi_extractor = None\<rparr>"

definition builtin_parsers :: "(fn_key \<times> parser_info) list" where
  "builtin_parsers =
    [((None, ''regex_parse''), data_driven [] None),
     ((None, ''parse_json''), data_driven [1] None),
     ((None, ''parse_kv''), data_driven [1, 2] (Some extract_defaults)),
     ((Some ''syslog'', ''parse''), syslog_parser),
     ((Some ''cef'', ''parse''), cef_parser)]"

definition is_dsl_identifier :: "rstr \<Rightarrow> bool" where
  "is_dsl_identifier s = (case s of [] \<Rightarrow> False | c # cs \<Rightarrow>
     (is_key_char c \<and> \<not> is_digit c) \<and> list_all is_key_char cs)"

definition bind_names :: "(rstr \<times> field_type) list \<Rightarrow> bindings \<Rightarrow> bindings" where
  "bind_names ks b = foldl (\<lambda>b (k, t). bind_workspace (in_workspace k) t b) b ks"

definition csv_name_of :: "expr \<Rightarrow> (rstr \<times> field_type) list" where
  "csv_name_of e = (case e of StringLit s \<Rightarrow> if is_dsl_identifier s then [(s, ty_union TString TNull)] else [] | _ \<Rightarrow> [])"

definition apply_csv_parse_effect :: "expr list \<Rightarrow> bindings \<Rightarrow> bindings" where
  "apply_csv_parse_effect args b = (case nth_opt args 1 of
     Some (ArrayLit names) \<Rightarrow> bind_names (concat (map csv_name_of names)) b
   | _ \<Rightarrow> b)"

fun literal_type :: "expr \<Rightarrow> field_type" where
  "literal_type (StringLit _) = TString"
| "literal_type (Template _) = TString"
| "literal_type (IntLit _) = TInt"
| "literal_type (FloatLit _) = TFloat"
| "literal_type (BoolLit _) = TBool"
| "literal_type NullLit = TNull"
| "literal_type (HashLit _) = TObject"
| "literal_type _ = TAny"

text \<open>The first hash literal at one of the indices, unless the parser brings its own rule.\<close>

fun first_hash :: "expr list \<Rightarrow> nat list \<Rightarrow> (rstr \<times> expr) list option" where
  "first_hash args [] = None"
| "first_hash args (i # is) = (case hash_at args i of Some es \<Rightarrow> Some es | None \<Rightarrow> first_hash args is)"

definition apply_parser_info :: "parser_info \<Rightarrow> expr list \<Rightarrow> bindings \<Rightarrow> bindings" where
  "apply_parser_info info args b =
     (let b1 = foldl (\<lambda>b (p, t). bind_workspace p t b) b (pi_produces info);
          b2 = foldl (\<lambda>b p. set_workspace_scoped_wildcard p b) b1 (pi_scoped info) in
      case (case pi_extractor info of Some ex \<Rightarrow> ex args | None \<Rightarrow> first_hash args (pi_defaults_indices info)) of
        Some es \<Rightarrow> bind_names (map (\<lambda>(k, v). (k, literal_type v)) es) b2
      | None \<Rightarrow> if pi_wildcards info then set_workspace_wildcard b2 else b2)"

definition apply_parser_effects ::
  "(fn_key \<times> parser_info) list \<Rightarrow> 'w registry \<Rightarrow> rstr option \<Rightarrow> rstr \<Rightarrow> expr list \<Rightarrow> bindings \<Rightarrow> bindings" where
  "apply_parser_effects parsers reg ns name args b =
     (if ns = None \<and> name = ''csv_parse'' \<and> length args = 2 \<and> map_of (user_definitions reg) name = None \<and> signature reg None name \<noteq> None
      then apply_csv_parse_effect args b
      else case map_of parsers (ns, name) of None \<Rightarrow> b | Some info \<Rightarrow> apply_parser_info info args b)"

subsection \<open>Statements\<close>

type_synonym walk = "bindings \<times> diagnostic list"

fun walk_list :: "('a \<Rightarrow> bindings \<Rightarrow> walk) \<Rightarrow> 'a list \<Rightarrow> bindings \<Rightarrow> walk" where
  "walk_list f [] b = (b, [])"
| "walk_list f (x # xs) b = (case f x b of (b1, d1) \<Rightarrow> (case walk_list f xs b1 of (b2, d2) \<Rightarrow> (b2, d1 @ d2)))"

lemma walk_list_cong [fundef_cong]:
  "xs = ys \<Longrightarrow> b = c \<Longrightarrow> (\<And>x b. x \<in> set ys \<Longrightarrow> f x b = g x b) \<Longrightarrow> walk_list f xs b = walk_list g ys c"
proof (induction xs arbitrary: ys b c)
  case (Cons x xs)
  then show ?case by (cases ys) (auto split: prod.split)
qed simp

lemma walk_list_fun_cong [fundef_cong]: "xs = ys \<Longrightarrow> (\<And>x. x \<in> set ys \<Longrightarrow> f x = g x) \<Longrightarrow> walk_list f xs = walk_list g ys"
proof -
  assume "xs = ys" and "\<And>x. x \<in> set ys \<Longrightarrow> f x = g x"
  then show ?thesis by (intro ext walk_list_cong) simp_all
qed

text \<open>\<open>push_let_scope\<close>, the walk, \<open>pop_let_scope\<close>.\<close>

definition in_scope :: "(bindings \<Rightarrow> walk) \<Rightarrow> bindings \<Rightarrow> walk" where
  "in_scope f b = (case f (push_let_scope b) of (b', ds) \<Rightarrow> (pop_let_scope b', ds))"

text \<open>
  Branches from the same start: each entry is the diagnostics of its guard and the walk of its body. Without an \<open>else\<close> or a
  default the start is one more result.
\<close>

definition analyze_branches :: "(diagnostic list \<times> (bindings \<Rightarrow> walk)) list \<Rightarrow> bool \<Rightarrow> bindings \<Rightarrow> walk" where
  "analyze_branches branches exhaustive b =
     (intersect_branches (map (\<lambda>(_, f). fst (f b)) branches @ (if exhaustive then [] else [b])),
      concat (map (\<lambda>(guard, f). guard @ snd (f b)) branches))"

definition shadow_warning :: "string \<Rightarrow> bindings \<Rightarrow> rstr list \<Rightarrow> field_type \<Rightarrow> diagnostic list" where
  "shadow_warning pn b full ty =
     (if get_workspace b full = Some TObject \<and> ty \<noteq> TObject \<and> ty \<noteq> TAny then
        [warning_kind Dataflow (''[pipeline '' @ pn @ ''] assignment to '' @ quote (dotted full) @ '' overwrites an Object with ''
           @ ty_display ty @ ''; nested references (e.g. '' @ quote (dotted full @ ''.*'') @ '') will become dead'')]
      else [])"

fun analyze_process_stmt ::
  "(fn_key \<times> parser_info) list \<Rightarrow> 'w registry \<Rightarrow> string \<Rightarrow> process_statement \<Rightarrow> bindings \<Rightarrow> walk"
  and analyze_inline_item :: "(fn_key \<times> parser_info) list \<Rightarrow> 'w registry \<Rightarrow> string \<Rightarrow> branch_body \<Rightarrow> bindings \<Rightarrow> walk" where
  "analyze_process_stmt parsers reg pn (Assign target e) b = (case target of
     Egress \<Rightarrow> (b, check_types pn reg b e)
   | Workspace path \<Rightarrow> (let full = ''workspace'' # path; ty = infer reg b e in
       (bind_workspace full ty b, check_types pn reg b e @ shadow_warning pn b full ty)))"
| "analyze_process_stmt parsers reg pn (LetBinding x e) b = (bind_let x (infer reg b e) b, check_types pn reg b e)"
| "analyze_process_stmt parsers reg pn (ExprStmt e) b =
     ((case e of FuncCall ns name args None \<Rightarrow> apply_parser_effects parsers reg ns name args b | _ \<Rightarrow> b), check_types pn reg b e)"
| "analyze_process_stmt parsers reg pn (ProcessCall name) b = (b, [])"
| "analyze_process_stmt parsers reg pn PDrop b = (b, [])"
| "analyze_process_stmt parsers reg pn (PError msg) b = (b, case msg of Some e \<Rightarrow> check_types pn reg b e | None \<Rightarrow> [])"
| "analyze_process_stmt parsers reg pn (PIf branches els) b =
     analyze_branches
       (map (\<lambda>(c, body). (check_types pn reg b c, in_scope (\<lambda>b. walk_list (\<lambda>i b. analyze_inline_item parsers reg pn i b) body b))) branches
        @ (case els of Some body \<Rightarrow> [([], in_scope (\<lambda>b. walk_list (\<lambda>i b. analyze_inline_item parsers reg pn i b) body b))] | None \<Rightarrow> []))
       (els \<noteq> None) b"
| "analyze_process_stmt parsers reg pn (PSwitch e arms) b =
     (case analyze_branches
        (map (\<lambda>(p, body). (case p of Some q \<Rightarrow> check_types pn reg b q | None \<Rightarrow> [],
           in_scope (\<lambda>b. walk_list (\<lambda>i b. analyze_inline_item parsers reg pn i b) body b))) arms)
        (list_ex (\<lambda>(p, _). p = None) arms) b
      of (b', ds) \<Rightarrow> (b', check_types pn reg b e @ validate_switch_default_position pn arms @ ds))"
| "analyze_process_stmt parsers reg pn (TryCatch t c) b =
     analyze_branches
       [([], in_scope (\<lambda>b. walk_list (\<lambda>s b. analyze_process_stmt parsers reg pn s b) t b)),
        ([], in_scope (\<lambda>b. walk_list (\<lambda>s b. analyze_process_stmt parsers reg pn s b) c (bind_workspace (in_workspace ''_error'') TString b)))]
       True b"
| "analyze_inline_item parsers reg pn (BProcess s) b = analyze_process_stmt parsers reg pn s b"
| "analyze_inline_item parsers reg pn (BPipeline s) b = (b, [])"

definition analyze_process_body :: "(fn_key \<times> parser_info) list \<Rightarrow> 'w registry \<Rightarrow> string \<Rightarrow> process_statement list \<Rightarrow> bindings \<Rightarrow> walk" where
  "analyze_process_body parsers reg pn body = in_scope (walk_list (analyze_process_stmt parsers reg pn) body)"

subsection \<open>Pipelines\<close>

record analysis =
  an_parsers :: "(fn_key \<times> parser_info) list"
  an_config :: config
  an_outputs :: "(rstr \<times> module_def) list"
  an_schemas :: schemas

definition analyze_chain_element :: "analysis \<Rightarrow> 'w registry \<Rightarrow> string \<Rightarrow> chain_element \<Rightarrow> bindings \<Rightarrow> walk" where
  "analyze_chain_element an reg pn el b = (case el of
     Named name \<Rightarrow> (case map_of (cfg_processes (an_config an)) name of
         Some pd \<Rightarrow> analyze_process_body (an_parsers an) reg pn (pd_body pd) b
       | None \<Rightarrow> (set_workspace_wildcard b, []))
   | Inline body \<Rightarrow> analyze_process_body (an_parsers an) reg pn body b)"

fun analyze_pipeline_stmt :: "analysis \<Rightarrow> 'w registry \<Rightarrow> string \<Rightarrow> pipeline_statement \<Rightarrow> bindings \<Rightarrow> walk"
  and analyze_item :: "analysis \<Rightarrow> 'w registry \<Rightarrow> string \<Rightarrow> branch_body \<Rightarrow> bindings \<Rightarrow> walk" where
  "analyze_pipeline_stmt an reg pn (SInput names) b = (b, [])"
| "analyze_pipeline_stmt an reg pn (SProcessChain els) b = walk_list (analyze_chain_element an reg pn) els b"
| "analyze_pipeline_stmt an reg pn (SOutput name) b = (b, case map_of (an_outputs an) name of
     Some out \<Rightarrow> analyze_output pn reg (an_schemas an) b out | None \<Rightarrow> [])"
| "analyze_pipeline_stmt an reg pn SDrop b = (b, [])"
| "analyze_pipeline_stmt an reg pn SFinish b = (b, [])"
| "analyze_pipeline_stmt an reg pn (SError msg) b = (b, case msg of Some e \<Rightarrow> check_types pn reg b e | None \<Rightarrow> [])"
| "analyze_pipeline_stmt an reg pn (SIf branches els) b =
     analyze_branches
       (map (\<lambda>(c, body). (check_types pn reg b c, \<lambda>b. walk_list (\<lambda>i b. analyze_item an reg pn i b) body b)) branches
        @ (case els of Some body \<Rightarrow> [([], \<lambda>b. walk_list (\<lambda>i b. analyze_item an reg pn i b) body b)] | None \<Rightarrow> []))
       (els \<noteq> None) b"
| "analyze_pipeline_stmt an reg pn (SSwitch e arms) b =
     (case analyze_branches
        (map (\<lambda>(p, body). (case p of Some q \<Rightarrow> check_types pn reg b q | None \<Rightarrow> [], \<lambda>b. walk_list (\<lambda>i b. analyze_item an reg pn i b) body b)) arms)
        (list_ex (\<lambda>(p, _). p = None) arms) b
      of (b', ds) \<Rightarrow> (b', check_types pn reg b e @ validate_switch_default_position pn arms @ ds))"
| "analyze_item an reg pn (BProcess s) b = analyze_process_stmt (an_parsers an) reg pn s b"
| "analyze_item an reg pn (BPipeline s) b = analyze_pipeline_stmt an reg pn s b"

definition analyze_pipeline :: "analysis \<Rightarrow> 'w registry \<Rightarrow> pipeline_def \<Rightarrow> diagnostic list" where
  "analyze_pipeline an reg pl = snd (walk_list (analyze_pipeline_stmt an reg (pl_name pl)) (pl_body pl) (push_let_scope bindings_new))"

end
