(* ===== verification/Analyzer_Facts.thy ===== *)
theory Analyzer_Facts
  imports Analyzer Guarantees Examples
begin

section \<open>Types along a process\<close>

text \<open>
  The bindings that the walk of a process computes describe the event when the process is done. The statements covered assign
  to single keys of the workspace and to the egress, branch, recover and bind names outside branches. The others are not sound:
  the walk takes the names bound in a branch back, the evaluator keeps them; it keeps the types of nested paths when their root
  is assigned, ignores what a called process assigns, and believes the declared fields of a parser.
\<close>

subsection \<open>The statements covered\<close>

fun plain :: "expr \<Rightarrow> bool" where
  "plain (UnaryOp op e) = (op \<noteq> OpNeg)"
| "plain (Ident parts) = (parts \<noteq> [] \<and> parts \<noteq> [''error''])"
| "plain (PropertyAccess base suffix) = (case base of Ident parts \<Rightarrow> parts \<noteq> [] \<and> parts @ suffix \<noteq> [''error''] | _ \<Rightarrow> True)"
| "plain (FuncCall ns name args blk) = list_all plain args"
| "plain (SwitchExpr s arms) = list_all (\<lambda>(_, body). plain body) arms"
| "plain _ = True"

lemma plain_inferable: "plain e \<Longrightarrow> inferable reg b err e"
  by (induction reg b err e rule: inferable.induct) (auto simp: list_all_iff split: expr.splits)

definition plain_key :: "rstr \<Rightarrow> bool" where
  "plain_key k \<longleftrightarrow> CHR ''.'' \<notin> set k \<and> k \<noteq> ''_error''"

text \<open>\<open>lets\<close>: names may be bound here; \<open>tries\<close>: the statement is not in a \<open>catch\<close>.\<close>

fun tame :: "bool \<Rightarrow> bool \<Rightarrow> process_statement \<Rightarrow> bool" and tame_item :: "bool \<Rightarrow> branch_body \<Rightarrow> bool" where
  "tame lets tries (Assign target e) = (case target of
     Egress \<Rightarrow> True | Workspace path \<Rightarrow> plain e \<and> (case path of [k] \<Rightarrow> plain_key k | _ \<Rightarrow> False))"
| "tame lets tries (LetBinding x e) = (lets \<and> x \<noteq> ''workspace'' \<and> x \<notin> set reserved_names \<and> plain e)"
| "tame lets tries (ProcessCall name) = False"
| "tame lets tries PDrop = True"
| "tame lets tries (PError msg) = True"
| "tame lets tries (PIf branches els) = (list_all (\<lambda>(_, body). list_all (tame_item tries) body) branches \<and>
     (case els of Some body \<Rightarrow> list_all (tame_item tries) body | None \<Rightarrow> True))"
| "tame lets tries (PSwitch e arms) = list_all (\<lambda>(_, body). list_all (tame_item tries) body) arms"
| "tame lets tries (TryCatch t c) = (tries \<and> list_all (tame False True) t \<and> list_all (tame False False) c)"
| "tame lets tries (ExprStmt e) = False"
| "tame_item tries (BProcess s) = tame False tries s"
| "tame_item tries (BPipeline s) = False"

subsection \<open>The shape of the bindings\<close>

definition flat :: "bindings \<Rightarrow> bool" where
  "flat b \<longleftrightarrow> (\<forall>key \<in> dom (map_of (bd_workspace b)). \<exists>k. key = dotted (in_workspace k) \<and> CHR ''.'' \<notin> set k)"

definition shape :: "bool \<Rightarrow> bindings \<Rightarrow> bool" where
  "shape tries b \<longleftrightarrow> flat b \<and> (tries \<longrightarrow> get_workspace b (in_workspace ''_error'') = None)"

lemma dotted_workspace: "path \<noteq> [] \<Longrightarrow> dotted (''workspace'' # path) = ''workspace.'' @ dotted path"
  by (cases path) (simp_all add: dotted_def)

lemma dotted_single: "CHR ''.'' \<notin> set k \<Longrightarrow> path \<noteq> [] \<Longrightarrow> dotted path = k \<longleftrightarrow> path = [k]"
  by (cases path; cases "tl path") (auto simp: dotted_def)

lemma dotted_in_workspace: "dotted (in_workspace k) = ''workspace.'' @ k"
  by (simp add: in_workspace_def dotted_def)

lemma flat_path:
  assumes "flat b" "path \<noteq> []" "get_workspace b (''workspace'' # path) = Some t"
  shows "\<exists>k. path = [k]"
proof -
  obtain k where "dotted (''workspace'' # path) = dotted (in_workspace k)" "CHR ''.'' \<notin> set k"
    using assms(1,3) unfolding flat_def get_workspace_def by blast
  then show ?thesis using dotted_single[of k path] assms(2) by (simp add: dotted_workspace dotted_in_workspace)
qed

lemma shape_bind:
  assumes "shape tries b" "CHR ''.'' \<notin> set k" "tries \<longrightarrow> k \<noteq> ''_error''"
  shows "shape tries (bind_workspace (in_workspace k) ty b)"
  using assms by (auto simp: shape_def flat_def bind_workspace_def get_workspace_def dotted_in_workspace)

lemma shape_scopes [simp]: "shape tries (push_let_scope b) = shape tries b" "shape tries (pop_let_scope b) = shape tries b"
  "shape tries (bind_let x ty b) = shape tries b"
  by (auto simp: shape_def flat_def get_workspace_def push_let_scope_def pop_let_scope_def bind_let_def split: list.split)

lemma shape_error: "shape True b \<Longrightarrow> shape False b"
  by (simp add: shape_def)

lemma intersect_keys: "dom (map_of (bd_workspace (intersect_with b c))) \<subseteq> dom (map_of (bd_workspace b)) \<inter> dom (map_of (bd_workspace c))"
  by (auto simp: intersect_with_def map_of_join split: option.split_asm)

lemma shape_intersect:
  assumes "flat b" "shape tries b \<or> shape tries c"
  shows "shape tries (intersect_with b c)"
  using assms intersect_keys[of b c] unfolding shape_def flat_def get_workspace_def by (auto simp: domIff)

lemma shape_branches:
  assumes "\<forall>b \<in> set bs. flat b" "\<exists>b \<in> set bs. shape tries b"
  shows "shape tries (intersect_branches bs)"
proof -
  have "shape tries (foldl intersect_with b rest)"
    if "flat b" "\<forall>c \<in> set rest. flat c" "shape tries b \<or> (\<exists>c \<in> set rest. shape tries c)" for b rest
    using that
  proof (induction rest arbitrary: b)
    case (Cons c rest)
    have "flat (intersect_with b c)" using shape_intersect[of b False c] Cons.prems by (simp add: shape_def)
    moreover have "shape tries (intersect_with b c) \<or> (\<exists>c \<in> set rest. shape tries c)"
      using Cons.prems shape_intersect by auto
    ultimately show ?case using Cons.IH Cons.prems by simp
  qed simp
  then show ?thesis using assms by (cases bs) (auto simp: intersect_branches_def)
qed

lemma lets_branches: "bs \<noteq> [] \<Longrightarrow> \<forall>b \<in> set bs. bd_lets b = ls \<Longrightarrow> bd_lets (intersect_branches bs) = ls"
proof -
  have "bd_lets (foldl intersect_with b rest) = bd_lets b" for b rest
    by (induction rest arbitrary: b) (simp_all add: intersect_lets)
  then show "bs \<noteq> [] \<Longrightarrow> \<forall>b \<in> set bs. bd_lets b = ls \<Longrightarrow> ?thesis" by (cases bs) (simp_all add: intersect_branches_def)
qed

subsection \<open>The walk keeps the shape\<close>

definition keeps :: "bool \<Rightarrow> bool \<Rightarrow> (bindings \<Rightarrow> walk) \<Rightarrow> bool" where
  "keeps lets tries f \<longleftrightarrow> (\<forall>b. shape tries b \<longrightarrow> shape tries (fst (f b)) \<and> (lets \<or> bd_lets (fst (f b)) = bd_lets b))"

lemma keepsD: "keeps lets tries f \<Longrightarrow> shape tries b \<Longrightarrow> shape tries (fst (f b))"
  "keeps False tries f \<Longrightarrow> shape tries b \<Longrightarrow> bd_lets (fst (f b)) = bd_lets b"
  by (auto simp: keeps_def)

lemma keeps_walk_list:
  assumes "\<And>x. x \<in> set xs \<Longrightarrow> keeps lets tries (f x)"
  shows "keeps lets tries (walk_list f xs)"
  using assms
proof (induction xs)
  case (Cons x xs)
  have "keeps lets tries (f x)" "keeps lets tries (walk_list f xs)" using Cons by simp_all
  then show ?case by (auto simp: keeps_def split: prod.split) (metis fst_conv)+
qed (simp add: keeps_def)

lemma keeps_in_scope: "keeps False tries f \<Longrightarrow> keeps False tries (in_scope f)"
proof -
  assume f: "keeps False tries f"
  have "shape tries (fst (in_scope f b)) \<and> bd_lets (fst (in_scope f b)) = bd_lets b" if "shape tries b" for b
    using keepsD[OF f, of "push_let_scope b"] that
    by (auto simp: in_scope_def push_let_scope_def pop_let_scope_def shape_def flat_def get_workspace_def split: prod.split)
  then show ?thesis by (simp add: keeps_def)
qed

lemma branch_results: "fst (analyze_branches branches exhaustive b) =
    intersect_branches (map (\<lambda>(_, f). fst (f b)) branches @ (if exhaustive then [] else [b]))"
  by (simp add: analyze_branches_def)

lemma keeps_branches:
  assumes "\<And>g f. (g, f) \<in> set branches \<Longrightarrow> keeps False tries f" "branches \<noteq> [] \<or> \<not> exhaustive"
  shows "keeps lets tries (analyze_branches branches exhaustive)"
proof -
  have "shape tries (fst (analyze_branches branches exhaustive b)) \<and> bd_lets (fst (analyze_branches branches exhaustive b)) = bd_lets b"
    if b: "shape tries b" for b
  proof -
    let ?rs = "map (\<lambda>(_, f). fst (f b)) branches @ (if exhaustive then [] else [b])"
    have branch: "shape tries (fst (f b)) \<and> bd_lets (fst (f b)) = bd_lets b" if "(g, f) \<in> set branches" for g f
      using keepsD[OF assms(1)[OF that] b] by simp
    have each: "shape tries r \<and> bd_lets r = bd_lets b" if "r \<in> set ?rs" for r
    proof -
      from that consider g f where "(g, f) \<in> set branches" "r = fst (f b)" | "r = b" by (auto split: if_split_asm)
      then show ?thesis
      proof cases
        case 1
        then show ?thesis using branch[of g f] by simp
      qed (simp add: b)
    qed
    have ne: "?rs \<noteq> []" using assms(2) by auto
    have "\<forall>r \<in> set ?rs. flat r" using each unfolding shape_def by blast
    moreover have "\<exists>r \<in> set ?rs. shape tries r" using each[OF last_in_set[OF ne]] last_in_set[OF ne] by blast
    ultimately show ?thesis unfolding branch_results
      using shape_branches lets_branches[OF ne] each by blast
  qed
  then show ?thesis by (auto simp: keeps_def)
qed

lemma tame_items: "list_all (tame_item tries) body \<Longrightarrow> \<exists>ss. body = map BProcess ss \<and> list_all (tame False tries) ss"
proof (induction body)
  case (Cons i body)
  then obtain s where "i = BProcess s" "tame False tries s" by (cases i) auto
  moreover obtain ss where "body = map BProcess ss" "list_all (tame False tries) ss" using Cons by auto
  ultimately show ?case by (intro exI[of _ "s # ss"]) simp
qed simp

lemma walk_items: "walk_list (\<lambda>i b. analyze_inline_item parsers reg pn i b) (map BProcess ss) = walk_list (analyze_process_stmt parsers reg pn) ss"
proof (induction ss)
  case (Cons s ss)
  then show ?case by (intro ext) (simp add: fun_eq_iff)
qed (simp add: fun_eq_iff)

lemma items_keep:
  assumes "\<And>i. i \<in> set body \<Longrightarrow> keeps False tries (analyze_inline_item parsers reg pn i)"
  shows "keeps False tries (in_scope (walk_list (analyze_inline_item parsers reg pn) body))"
  by (intro keeps_in_scope keeps_walk_list assms)

lemma walk_keeps: "tame lets tries s \<Longrightarrow> keeps lets tries (analyze_process_stmt parsers reg pn s)"
  and item_keeps: "tame_item tries i \<Longrightarrow> keeps False tries (analyze_inline_item parsers reg pn i)"
proof (induction lets tries s and tries i rule: tame_tame_item.induct)
  case (1 lets tries target e)
  show ?case
  proof (cases target)
    case (Workspace path)
    then obtain k where k: "path = [k]" "plain_key k" using "1.prems" by (auto split: list.split_asm)
    have "''workspace'' # path = in_workspace k" using k by (simp add: in_workspace_def)
    moreover have "bd_lets (bind_workspace (in_workspace k) ty b) = bd_lets b" for ty b by (simp add: bind_workspace_def)
    ultimately show ?thesis using Workspace k(2) by (simp add: keeps_def shape_bind plain_key_def Let_def)
  qed (simp add: keeps_def)
next
  case (6 lets tries branches els)
  have bodies: "keeps False tries (in_scope (walk_list (analyze_inline_item parsers reg pn) body))" if "(c, body) \<in> set branches" for c body
    by (rule items_keep) (use 6 that in \<open>fastforce simp: list_all_iff\<close>)
  have final: "keeps False tries (in_scope (walk_list (analyze_inline_item parsers reg pn) body))" if "els = Some body" for body
    by (rule items_keep) (use 6 that in \<open>fastforce simp: list_all_iff\<close>)
  have "keeps lets tries (\<lambda>b. analyze_branches
       (map (\<lambda>(c, body). (check_types pn reg b' c, in_scope (walk_list (analyze_inline_item parsers reg pn) body))) branches
        @ (case els of Some body \<Rightarrow> [([], in_scope (walk_list (analyze_inline_item parsers reg pn) body))] | None \<Rightarrow> []))
       (els \<noteq> None) b)" for b'
    by (rule keeps_branches) (use bodies final in \<open>auto split: option.split_asm\<close>)
  then show ?case by (simp add: keeps_def)
next
  case (7 lets tries e arms)
  have bodies: "keeps False tries (in_scope (walk_list (analyze_inline_item parsers reg pn) body))" if "(c, body) \<in> set arms" for c body
    by (rule items_keep) (use 7 that in \<open>fastforce simp: list_all_iff\<close>)
  have "keeps lets tries (\<lambda>b. analyze_branches
       (map (\<lambda>(p, body). (case p of Some q \<Rightarrow> check_types pn reg b' q | None \<Rightarrow> [], in_scope (walk_list (analyze_inline_item parsers reg pn) body))) arms)
       (list_ex (\<lambda>(p, _). p = None) arms) b)" for b'
    by (rule keeps_branches) (use bodies in auto)
  then show ?case by (simp add: keeps_def split: prod.split) (metis fst_conv)
next
  case (8 lets tries t c)
  have t: "keeps False True (in_scope (walk_list (analyze_process_stmt parsers reg pn) t))"
    by (intro keeps_in_scope keeps_walk_list) (use 8 in \<open>auto simp: list_all_iff\<close>)
  have bind: "keeps False False (\<lambda>b. (bind_workspace (in_workspace ''_error'') TString b, []))"
    by (simp add: keeps_def shape_bind) (simp add: bind_workspace_def)
  have c: "keeps False False (walk_list (analyze_process_stmt parsers reg pn) c)"
    by (intro keeps_walk_list) (use 8 in \<open>auto simp: list_all_iff\<close>)
  have "keeps False False (\<lambda>b. walk_list (analyze_process_stmt parsers reg pn) c (bind_workspace (in_workspace ''_error'') TString b))"
    using keepsD[OF c] keepsD[OF bind] by (simp add: keeps_def)
  then have c': "keeps False False (in_scope (\<lambda>b. walk_list (analyze_process_stmt parsers reg pn) c (bind_workspace (in_workspace ''_error'') TString b)))"
    by (rule keeps_in_scope)
  have "shape tries (fst (analyze_process_stmt parsers reg pn (TryCatch t c) b)) \<and> bd_lets (fst (analyze_process_stmt parsers reg pn (TryCatch t c) b)) = bd_lets b"
    if b: "shape tries b" for b
  proof -
    have "tries" using "8.prems" by simp
    then have b': "shape True b" "shape False b" using b shape_error by simp_all
    let ?rs = "[fst (in_scope (walk_list (analyze_process_stmt parsers reg pn) t) b),
      fst (in_scope (\<lambda>b. walk_list (analyze_process_stmt parsers reg pn) c (bind_workspace (in_workspace ''_error'') TString b)) b)]"
    have "\<forall>r \<in> set ?rs. flat r" "\<exists>r \<in> set ?rs. shape tries r" "\<forall>r \<in> set ?rs. bd_lets r = bd_lets b"
      using keepsD[OF t b'(1)] keepsD[OF c' b'(2)] \<open>tries\<close> by (auto simp: shape_def)
    then show ?thesis using shape_branches[of ?rs tries] lets_branches[of ?rs "bd_lets b"] by (simp add: branch_results)
  qed
  then show ?case by (simp add: keeps_def)
qed (auto simp: keeps_def)

subsection \<open>Compiled code is the source\<close>

fun source_of :: "process_code \<Rightarrow> process_statement" where
  "source_of (CAssign t e) = Assign t e"
| "source_of (CLet x e) = LetBinding x e"
| "source_of (CCall name slot) = ProcessCall name"
| "source_of CDrop = PDrop"
| "source_of (CError e) = PError e"
| "source_of (CIf branches els) = PIf (map (\<lambda>(c, body). (c, map (\<lambda>s. BProcess (source_of s)) body)) branches)
     (map_option (map (\<lambda>s. BProcess (source_of s))) els)"
| "source_of (CSwitch e arms) = PSwitch e (map (\<lambda>(p, body). (p, map (\<lambda>s. BProcess (source_of s)) body)) arms)"
| "source_of (CTry t c) = TryCatch (map source_of t) (map source_of c)"
| "source_of (CExpr e) = ExprStmt e"

lemma compiled_source:
  "compile_process_statement names s st = (Ok c, st') \<Longrightarrow> source_of c = s"
  "compile_process_statements names ss st = (Ok cs, st') \<Longrightarrow> map source_of cs = ss"
  "compile_process_branch names body st = (Ok cs, st') \<Longrightarrow> map (\<lambda>s. BProcess (source_of s)) cs = body"
  "compile_process_branches names branches st = (Ok bs, st') \<Longrightarrow>
     map (\<lambda>(c, body). (c, map (\<lambda>s. BProcess (source_of s)) body)) bs = branches"
  "compile_process_arms names arms st = (Ok as, st') \<Longrightarrow> map (\<lambda>(p, body). (p, map (\<lambda>s. BProcess (source_of s)) body)) as = arms"
proof (induction names s and names ss and names body and names branches and names arms
    arbitrary: c st st' and cs st st' and cs st st' and bs st st' and as st st' rule:
    compile_process_statement_compile_process_statements_compile_process_branch_compile_process_branches_compile_process_arms.induct)
  case (6 names branches els)
  then obtain bs el st1 where c: "c = CIf bs el" and bs: "compile_process_branches names branches st = (Ok bs, st1)"
    and el: "(case els of None \<Rightarrow> ret None | Some b \<Rightarrow> bindM (compile_process_branch names b) (\<lambda>c. ret (Some c))) st1 = (Ok el, st')"
    by (auto simp: bindM_Ok ret_def)
  have "map_option (map (\<lambda>s. BProcess (source_of s))) el = els"
  proof (cases els)
    case (Some body)
    then obtain cs where "compile_process_branch names body st1 = (Ok cs, st')" "el = Some cs" using el by (auto simp: bindM_Ok ret_def)
    then show ?thesis using 6(2)[OF Some] Some by simp
  qed (use el in \<open>simp add: ret_def\<close>)
  then show ?case using c 6(1)[OF bs] by simp
qed (auto simp: bindM_Ok ret_def fail_def)

subsection \<open>Running a process keeps the event described\<close>

lemma get_workspace_bind:
  assumes "CHR ''.'' \<notin> set k" "path \<noteq> []"
  shows "get_workspace (bind_workspace (in_workspace k) ty b) (''workspace'' # path) =
    (if path = [k] then Some ty else get_workspace b (''workspace'' # path))"
  using dotted_single[OF assms(1,2)] assms(2)
  by (simp add: get_workspace_def bind_workspace_def dotted_in_workspace dotted_workspace)

lemma resolve_single: "resolve_workspace_direct [k] ev = Ok (or_null (workspace_get ev k))"
  by (simp add: resolve_direct)

lemma described_assign:
  assumes "described b ev sc" "flat b" "CHR ''.'' \<notin> set k" "has_ty v ty"
  shows "described (bind_workspace (in_workspace k) ty b) (workspace_set k v ev) sc"
proof -
  have "has_ty u t" if t: "get_workspace (bind_workspace (in_workspace k) ty b) (''workspace'' # path) = Some t" "path \<noteq> []"
    and u: "resolve_workspace_direct path (workspace_set k v ev) = Ok u" for path t u
  proof (cases "path = [k]")
    case True
    then show ?thesis using t u assms(3,4) by (simp add: get_workspace_bind resolve_single workspace_get_def workspace_set_def or_null_def)
  next
    case False
    then have old: "get_workspace b (''workspace'' # path) = Some t" using t assms(3) by (simp add: get_workspace_bind)
    then obtain j where j: "path = [j]" using flat_path[OF assms(2) t(2)] by blast
    then have "resolve_workspace_direct path ev = Ok u" using u False by (simp add: resolve_single workspace_get_def workspace_set_def)
    then show ?thesis using assms(1) old t(2) by (auto simp: described_def)
  qed
  moreover have "get_let (bind_workspace (in_workspace k) ty b) x = get_let b x" for x by (simp add: get_let_def bind_workspace_def)
  ultimately show ?thesis using assms(1) by (auto simp: described_def)
qed

lemma described_egress: "described b ev sc \<Longrightarrow> described b (ev\<lparr>be_egress := x\<rparr>) sc"
proof -
  have "resolve_workspace_direct path (ev\<lparr>be_egress := x\<rparr>) = resolve_workspace_direct path ev" if "path \<noteq> []" for path
    using that by (cases path) (simp_all add: resolve_direct workspace_get_def)
  then show "described b ev sc \<Longrightarrow> ?thesis" by (simp add: described_def)
qed

lemma map_of_al_remove_other: "j \<noteq> k \<Longrightarrow> map_of (al_remove k xs) j = map_of xs j"
  by (induction k xs rule: al_remove.induct) auto

lemma described_remove:
  assumes "described b ev sc" "shape True b"
  shows "described b (snd (workspace_remove ''_error'' ev)) sc"
proof -
  have "has_ty u t" if t: "get_workspace b (''workspace'' # path) = Some t" "path \<noteq> []"
    and u: "resolve_workspace_direct path (snd (workspace_remove ''_error'' ev)) = Ok u" for path t u
  proof -
    obtain j where j: "path = [j]" using flat_path[OF _ t(2,1)] assms(2) by (auto simp: shape_def)
    have "j \<noteq> ''_error''" using t j assms(2) by (auto simp: shape_def in_workspace_def)
    then have "resolve_workspace_direct path ev = Ok u" using u j
      by (simp add: resolve_single workspace_get_def workspace_remove_def map_of_al_remove_other)
    then show ?thesis using assms(1) t by (auto simp: described_def)
  qed
  then show ?thesis using assms(1) by (auto simp: described_def)
qed

lemma described_push [simp]: "described (push_let_scope b) ev sc = described b ev sc"
  by (simp add: described_def get_workspace_def get_let_def push_let_scope_def)

lemma described_pop: "described b ev sc \<Longrightarrow> bd_lets b = [] # ls \<Longrightarrow> described (pop_let_scope b) ev sc"
  by (simp add: described_def get_workspace_def get_let_def pop_let_scope_def)

lemma described_let:
  assumes "described b ev sc" "has_ty v ty" "x \<noteq> ''workspace''" "x \<notin> set reserved_names"
  shows "described (bind_let x ty b) ev (scope_bind x v sc)"
proof -
  have "get_let (bind_let x ty b) y = (if y = x \<and> bd_lets b \<noteq> [] then Some ty else get_let b y)" for y
    by (cases "bd_lets b") (auto simp: get_let_def bind_let_def)
  moreover have "get_let b y = None" if "bd_lets b = []" for y using that by (simp add: get_let_def)
  moreover have "get_workspace (bind_let x ty b) path = get_workspace b path" for path
    by (simp add: get_workspace_def bind_let_def split: list.split)
  ultimately show ?thesis using assms by (auto simp: described_def scope_bind_def split: if_split_asm)
qed

subsection \<open>Statements keep the event described\<close>

lemma postM_described: "postM Q m \<Longrightarrow> (\<And>x. Q x \<Longrightarrow> P x) \<Longrightarrow> postM P m"
  by (auto simp: postM_def)

lemma postM_liftW: "postM P m \<Longrightarrow> postM P (liftW m)"
  by (auto simp: postM_def liftW_def split: prod.split_asm) blast

lemma postM_select_branch: "postM (\<lambda>r. r = els \<or> (\<exists>c body. (c, body) \<in> set bs \<and> r = Some body)) (select_branch f bs els)"
proof (induction bs)
  case (Cons b bs)
  obtain c body where b: "b = (c, body)" by (cases b)
  let ?P = "\<lambda>r. r = els \<or> (\<exists>c body. (c, body) \<in> set (b # bs) \<and> r = Some body)"
  have "postM ?P (select_branch f bs els)" by (rule postM_described[OF Cons.IH]) auto
  moreover have "postM ?P (ret (Some body))" by (rule postM_ret) (auto simp: b)
  ultimately show ?case unfolding b select_branch.simps by (auto intro!: postM_bind_any)
qed (simp add: postM_ret)

lemma postM_select_arm:
  "postM (\<lambda>r. case r of Some body \<Rightarrow> \<exists>p. (p, body) \<in> set arms | None \<Rightarrow> \<not> list_ex (\<lambda>(p, _). p = None) arms) (select_arm f v arms)"
proof (induction arms)
  case (Cons a arms)
  obtain p body where a: "a = (p, body)" by (cases a)
  show ?case
  proof (cases p)
    case (Some q)
    let ?P = "\<lambda>r. case r of Some body \<Rightarrow> \<exists>p. (p, body) \<in> set (a # arms) | None \<Rightarrow> \<not> list_ex (\<lambda>(p, _). p = None) (a # arms)"
    have "postM ?P (select_arm f v arms)"
      by (rule postM_described[OF Cons.IH]) (auto simp: a Some split: option.splits)
    moreover have "postM ?P (ret (Some body))" by (rule postM_ret) (auto simp: a)
    ultimately show ?thesis unfolding a Some select_arm.simps by (auto intro!: postM_bind_any)
  qed (auto simp: a intro!: postM_ret)
qed (simp add: postM_ret)

text \<open>What a continued run leaves: an event that the walk's bindings describe.\<close>

definition ends :: "bindings \<Rightarrow> exec_result \<times> scope \<Rightarrow> bool" where
  "ends b r \<longleftrightarrow> (\<forall>ev'. fst r = Continue ev' \<longrightarrow> described b ev' (snd r))"

definition follows :: "(fn_key \<times> parser_info) list \<Rightarrow> 'w registry \<Rightarrow> string \<Rightarrow> 'w exec_fn \<Rightarrow> bool" where
  "follows ps reg pn rec \<longleftrightarrow> (\<forall>lets tries code b nid ev sc. list_all (tame lets tries) (map source_of code) \<longrightarrow> shape tries b \<longrightarrow>
     described b ev sc \<longrightarrow>
     postM (ends (fst (walk_list (analyze_process_stmt ps reg pn) (map source_of code) b))) (rec code nid ev sc))"

lemma ends_pop: "ends b r \<Longrightarrow> bd_lets b = [] # ls \<Longrightarrow> ends (pop_let_scope b) r"
  by (simp add: ends_def described_pop)

text \<open>A nested body: the scope of the walk around it is empty again at its end.\<close>

lemma follows_scoped:
  assumes "follows ps reg pn rec" "list_all (tame False tries) (map source_of code)" "shape tries b" "described b ev sc"
  shows "postM (ends (fst (in_scope (walk_list (analyze_process_stmt ps reg pn) (map source_of code)) b))) (rec code nid ev sc)"
proof -
  let ?w = "walk_list (analyze_process_stmt ps reg pn) (map source_of code)"
  have "keeps False tries ?w" by (rule keeps_walk_list) (use assms(2) in \<open>auto simp: list_all_iff intro!: walk_keeps\<close>)
  then have lets: "bd_lets (fst (?w (push_let_scope b))) = [] # bd_lets b"
    using keepsD(2)[of tries ?w "push_let_scope b"] assms(3) by (simp add: push_let_scope_def shape_def flat_def get_workspace_def)
  have "postM (ends (fst (?w (push_let_scope b)))) (rec code nid ev sc)"
    using assms unfolding follows_def by simp
  then have "postM (ends (pop_let_scope (fst (?w (push_let_scope b))))) (rec code nid ev sc)"
    by (rule postM_described) (rule ends_pop[OF _ lets])
  then show ?thesis by (simp add: in_scope_def split: prod.split) (metis fst_conv)
qed

definition nested :: "(fn_key \<times> parser_info) list \<Rightarrow> 'w registry \<Rightarrow> string \<Rightarrow> process_code list \<Rightarrow> bindings \<Rightarrow> walk" where
  "nested ps reg pn body = in_scope (walk_list (analyze_process_stmt ps reg pn) (map source_of body))"

lemma nested_keeps: "list_all (tame False tries) (map source_of body) \<Longrightarrow> keeps False tries (nested ps reg pn body)"
  unfolding nested_def by (intro keeps_in_scope keeps_walk_list) (auto simp: list_all_iff intro!: walk_keeps)

lemma nested_items: "in_scope (\<lambda>b. walk_list (\<lambda>i b. analyze_inline_item ps reg pn i b) (map (\<lambda>s. BProcess (source_of s)) body) b) = nested ps reg pn body"
  using walk_items[of ps reg pn "map source_of body"] by (simp add: nested_def comp_def)

lemma tame_branch: "list_all (tame_item tries) (map (\<lambda>s. BProcess (source_of s)) body) = list_all (tame False tries) (map source_of body)"
  by (simp add: list_all_iff)

text \<open>Running the selected body, against the meet of all of them.\<close>

lemma branches_follow:
  assumes rec: "follows ps reg pn rec" and b: "shape tries b" "described b ev sc"
    and tame: "\<And>g f. (g, f) \<in> set brs \<Longrightarrow> \<exists>body. f = nested ps reg pn body \<and> list_all (tame False tries) (map source_of body)"
    and sel: "postM (\<lambda>r. case r of Some body \<Rightarrow> (\<exists>g. (g, nested ps reg pn body) \<in> set brs) \<and> list_all (tame False tries) (map source_of body)
      | None \<Rightarrow> \<not> exhaustive) sel"
  shows "postM (ends (fst (analyze_branches brs exhaustive b))) (bindM sel (\<lambda>c. exec_body_opt rec c nid ev sc))"
proof (rule postM_bind[OF sel])
  fix c assume c: "case c of Some body \<Rightarrow> (\<exists>g. (g, nested ps reg pn body) \<in> set brs) \<and> list_all (tame False tries) (map source_of body)
      | None \<Rightarrow> \<not> exhaustive"
  let ?rs = "map (\<lambda>(_, f). fst (f b)) brs @ (if exhaustive then [] else [b])"
  have lets: "bd_lets r = bd_lets b" if "r \<in> set ?rs" for r
  proof -
    from that consider g f where "(g, f) \<in> set brs" "r = fst (f b)" | "r = b" by (auto split: if_split_asm)
    then show ?thesis
    proof cases
      case 1
      then show ?thesis using tame[of g f] keepsD(2)[OF nested_keeps b(1)] by auto
    qed simp
  qed
  have meet: "ends (fst (analyze_branches brs exhaustive b)) x" if "r \<in> set ?rs" "ends r x" for r x
    using described_branches[OF that(1) _ lets] that(2) by (simp add: branch_results ends_def)
  show "postM (ends (fst (analyze_branches brs exhaustive b))) (exec_body_opt rec c nid ev sc)"
  proof (cases c)
    case None
    then have "b \<in> set ?rs" "ends b (Continue ev, sc)" using c b(2) by (simp_all add: ends_def)
    then show ?thesis using None meet by (simp add: exec_body_opt_def postM_ret)
  next
    case (Some body)
    then obtain g where g: "(g, nested ps reg pn body) \<in> set brs" "list_all (tame False tries) (map source_of body)" using c by auto
    then have result: "fst (nested ps reg pn body b) \<in> set ?rs" by force
    have "postM (ends (fst (nested ps reg pn body b))) (rec body nid ev sc)"
      unfolding nested_def by (rule follows_scoped[OF rec g(2) b])
    then have "postM (ends (fst (analyze_branches brs exhaustive b))) (rec body nid ev sc)"
      by (rule postM_described) (rule meet[OF result])
    then show ?thesis using Some by (simp add: exec_body_opt_def)
  qed
qed

lemma try_follows:
  assumes rec: "follows ps reg pn rec" and b: "shape True b" "described b ev sc"
    and tame: "list_all (tame False True) (map source_of t)" "list_all (tame False False) (map source_of c)"
  shows "postM (ends (fst (analyze_process_stmt ps reg pn (source_of (CTry t c)) b))) (exec_try rec t c nid ev sc)"
proof -
  let ?wc = "walk_list (analyze_process_stmt ps reg pn) (map source_of c)"
  let ?b1 = "bind_workspace (in_workspace ''_error'') TString (push_let_scope b)"
  let ?rt = "fst (nested ps reg pn t b)" and ?rc = "pop_let_scope (fst (?wc ?b1))"
  define m where "m = fst (analyze_process_stmt ps reg pn (source_of (CTry t c)) b)"
  have m: "m = intersect_branches [?rt, ?rc]"
    by (simp add: m_def branch_results nested_def) (simp add: in_scope_def split: prod.split)
  have shape: "shape True m" unfolding m_def by (rule keepsD(1)[OF walk_keeps b(1), where lets = True]) (use tame in \<open>simp\<close>)
  have b1: "shape False ?b1" using shape_bind[of False "push_let_scope b" "''_error''"] shape_error[OF b(1)] by simp
  have "keeps False False ?wc" by (rule keeps_walk_list) (use tame(2) in \<open>auto simp: list_all_iff intro!: walk_keeps\<close>)
  from keepsD(2)[OF this b1] have lc: "bd_lets (fst (?wc ?b1)) = [] # bd_lets b"
    by (simp add: bind_workspace_def push_let_scope_def)
  then have lets: "bd_lets r = bd_lets b" if "r \<in> set [?rt, ?rc]" for r
    using that keepsD(2)[OF nested_keeps[OF tame(1)] b(1)] by (auto simp: pop_let_scope_def)
  have meet: "ends m x" if "r \<in> set [?rt, ?rc]" "ends r x" for r x
    using described_branches[OF that(1) _ lets] that(2) unfolding m by (simp add: ends_def)
  have tried: "postM (ends ?rt) (rec t nid ev sc)"
    unfolding nested_def by (rule follows_scoped[OF rec tame(1) b])
  have caught: "postM (ends m) (rec c nid (workspace_set ''_error'' (VString e) ev) sc)" for e
  proof -
    have "described ?b1 (workspace_set ''_error'' (VString e) ev) sc"
      by (rule described_assign) (use b in \<open>simp_all add: shape_def flat_def push_let_scope_def has_ty_iff\<close>, simp add: described_def get_workspace_def get_let_def)
    then have "postM (ends (fst (?wc ?b1))) (rec c nid (workspace_set ''_error'' (VString e) ev) sc)"
      using rec tame(2) b1 unfolding follows_def by blast
    then have "postM (ends ?rc) (rec c nid (workspace_set ''_error'' (VString e) ev) sc)"
      by (rule postM_described) (rule ends_pop[OF _ lc])
    then show ?thesis by (rule postM_described) (rule meet, simp_all)
  qed
  show ?thesis
    unfolding exec_try_def m_def[symmetric]
  proof (rule postM_attempt[OF tried])
    fix x assume "ends ?rt x"
    then show "postM (ends m) (ret x)" by (intro postM_ret meet[of ?rt]) simp_all
  next
    fix e
    show "postM (ends m) (bindM (rec c nid (workspace_set_str ''_error'' (VString e) (snapshot_in ev)) sc)
       (\<lambda>(r, sc'). case r of Continue ev' \<Rightarrow> ret (Continue (snd (workspace_remove ''_error'' ev')), sc') | XDropped \<Rightarrow> ret (XDropped, sc')))"
      unfolding workspace_set_str_eq snapshot_in_id
      by (rule postM_bind[OF caught]) (auto simp: ends_def described_remove[OF _ shape] split: exec_result.split intro!: postM_ret)
  qed
qed

lemma walk_if:
  "analyze_process_stmt ps reg pn (source_of (CIf branches els)) b = analyze_branches
     (map (\<lambda>(c, body). (check_types pn reg b c, nested ps reg pn body)) branches
      @ (case els of Some body \<Rightarrow> [([], nested ps reg pn body)] | None \<Rightarrow> [])) (els \<noteq> None) b"
  by (cases els) (simp_all add: nested_items comp_def split_def)

lemma walk_switch:
  "fst (analyze_process_stmt ps reg pn (source_of (CSwitch e arms)) b) = fst (analyze_branches
     (map (\<lambda>(p, body). (case p of Some q \<Rightarrow> check_types pn reg b q | None \<Rightarrow> [], nested ps reg pn body)) arms)
     (list_ex (\<lambda>(p, _). p = None) arms) b)"
  by (simp add: nested_items comp_def split_def list_ex_iff)

lemma stmt_follows:
  assumes reg: "standard (xe_funcs env)" and rec: "follows ps (xe_funcs env) pn rec"
    and tame: "tame lets tries (source_of s)" and b: "shape tries b" "described b ev sc"
  shows "postM (ends (fst (analyze_process_stmt ps (xe_funcs env) pn (source_of s) b))) (exec_stmt env n rec s nid ev sc)"
proof -
  let ?ev = "\<lambda>e. eval_expr_with_scope (xe_funcs env) ev n e sc"
  have typed: "postM (\<lambda>v. has_ty v (infer (xe_funcs env) b e)) (liftW (?ev e))" if "plain e" for e
    by (rule postM_liftW, rule infer_sound[OF reg b(2), where err = False]) (simp_all add: plain_inferable that)
  show ?thesis
  proof (cases s)
    case (CAssign target e)
    show ?thesis
    proof (cases target)
      case Egress
      then show ?thesis using CAssign b(2)
        by (auto simp: apply_assign_def ends_def described_egress liftR_def postM_def bindM_Ok ret_def)
    next
      case (Workspace path)
      then obtain k where k: "path = [k]" "plain_key k" "plain e" using tame CAssign by (auto split: list.split_asm)
      let ?t = "infer (xe_funcs env) b e"
      have "''workspace'' # path = in_workspace k" using k by (simp add: in_workspace_def)
      then have m: "fst (analyze_process_stmt ps (xe_funcs env) pn (source_of s) b) = bind_workspace (in_workspace k) ?t b"
        using CAssign Workspace by (simp add: Let_def)
      have "described (bind_workspace (in_workspace k) ?t b) (workspace_set k v ev) sc" if "has_ty v ?t" for v
        using described_assign[OF b(2) _ _ that] b(1) k(2) by (simp add: shape_def plain_key_def)
      then show ?thesis unfolding m unfolding CAssign Workspace exec_stmt.simps
        by (intro postM_bind[OF typed[OF k(3)]])
          (auto simp: apply_assign_def set_workspace_path_def k(1) liftR_def postM_def bindM_Ok ends_def ret_def)
    qed
  next
    case (CLet x e)
    then have x: "x \<noteq> ''workspace''" "x \<notin> set reserved_names" "plain e" using tame by simp_all
    show ?thesis unfolding CLet exec_stmt.simps
      by (rule postM_bind[OF typed[OF x(3)]]) (auto simp: ends_def described_let[OF b(2) _ x(1,2)] intro!: postM_ret)
  next
    case (CIf branches els)
    let ?brs = "map (\<lambda>(c, body). (check_types pn (xe_funcs env) b c, nested ps (xe_funcs env) pn body)) branches
        @ (case els of Some body \<Rightarrow> [([], nested ps (xe_funcs env) pn body)] | None \<Rightarrow> [])"
    have bodies: "list_all (tame False tries) (map source_of body)" if "(c, body) \<in> set branches \<or> els = Some body" for c body
      using tame that unfolding CIf by (fastforce simp: list_all_iff)
    have sel: "postM (\<lambda>r. case r of Some body \<Rightarrow> (\<exists>g. (g, nested ps (xe_funcs env) pn body) \<in> set ?brs) \<and> list_all (tame False tries) (map source_of body)
      | None \<Rightarrow> \<not> els \<noteq> None) (select_branch (\<lambda>c. liftW (?ev c)) branches els)"
      by (rule postM_described[OF postM_select_branch]) (use bodies in \<open>force split: option.split\<close>)
    show ?thesis unfolding CIf walk_if exec_stmt.simps
      by (rule branches_follow[OF rec b _ sel]) (use bodies in \<open>auto split: option.split_asm\<close>)
  next
    case (CSwitch e arms)
    let ?brs = "map (\<lambda>(p, body). (case p of Some q \<Rightarrow> check_types pn (xe_funcs env) b q | None \<Rightarrow> [], nested ps (xe_funcs env) pn body)) arms"
    have bodies: "list_all (tame False tries) (map source_of body)" if "(p, body) \<in> set arms" for p body
      using tame that unfolding CSwitch by (fastforce simp: list_all_iff)
    have sel: "postM (\<lambda>r. case r of Some body \<Rightarrow> (\<exists>g. (g, nested ps (xe_funcs env) pn body) \<in> set ?brs) \<and> list_all (tame False tries) (map source_of body)
      | None \<Rightarrow> \<not> list_ex (\<lambda>(p, _). p = None) arms) (select_arm (\<lambda>c. liftW (?ev c)) v arms)" for v
      by (rule postM_described[OF postM_select_arm]) (use bodies in \<open>force split: option.split_asm option.split\<close>)
    show ?thesis unfolding CSwitch walk_switch exec_stmt.simps
      by (rule postM_bind_any, rule branches_follow[OF rec b _ sel]) (use bodies in auto)
  next
    case (CTry t c)
    then have "tries" using tame by simp
    then show ?thesis using try_follows[OF rec _ b(2), of t c nid] b(1) tame CTry by simp
  qed (use tame b(2) in \<open>auto simp: ends_def intro!: postM_ret postM_bind_any postM_fail\<close>)
qed

lemma stmts_follow:
  assumes reg: "standard (xe_funcs env)" and rec: "follows ps (xe_funcs env) pn rec"
    and "list_all (tame lets tries) (map source_of code)" "shape tries b" "described b ev sc"
  shows "postM (ends (fst (walk_list (analyze_process_stmt ps (xe_funcs env) pn) (map source_of code) b))) (exec_stmts env n rec code nid ev sc)"
  using assms(3-5)
proof (induction code arbitrary: b ev sc)
  case Nil
  then show ?case by (simp add: ends_def postM_ret)
next
  case (Cons s code)
  let ?b = "fst (analyze_process_stmt ps (xe_funcs env) pn (source_of s) b)"
  let ?b' = "fst (walk_list (analyze_process_stmt ps (xe_funcs env) pn) (map source_of code) ?b)"
  have tame: "tame lets tries (source_of s)" "list_all (tame lets tries) (map source_of code)" using Cons.prems(1) by simp_all
  have walk: "fst (walk_list (analyze_process_stmt ps (xe_funcs env) pn) (map source_of (s # code)) b) = ?b'"
    by (simp split: prod.split)
  have shape: "shape tries ?b" by (rule keepsD(1)[OF walk_keeps[OF tame(1)] Cons.prems(2)])
  show ?case unfolding walk exec_stmts.simps
  proof (rule postM_bind[OF stmt_follows[OF reg rec tame(1) Cons.prems(2,3)]])
    fix r assume "ends ?b r"
    then show "postM (ends ?b') (case r of (r, sc') \<Rightarrow> (case r of
        Continue ev' \<Rightarrow> exec_stmts env n rec code nid ev' sc' | XDropped \<Rightarrow> ret (XDropped, sc')))"
      using Cons.IH[OF tame(2) shape] by (cases r; cases "fst r") (auto simp: ends_def[of ?b] intro!: postM_ret, simp add: ends_def)
  qed
qed

lemma code_follows: "standard (xe_funcs env) \<Longrightarrow> follows ps (xe_funcs env) pn (exec_ir_process_code env n)"
proof (induction n)
  case 0
  then show ?case by (simp add: follows_def postM_crash)
next
  case (Suc n)
  then show ?case using stmts_follow unfolding follows_def exec_ir_process_code.simps by blast
qed

subsection \<open>A whole process\<close>

lemma described_scopeless: "described b ev sc \<Longrightarrow> described (pop_let_scope b) ev Map.empty"
  by (simp add: described_def get_workspace_def pop_let_scope_def)

lemma process_followed:
  assumes reg: "standard (xe_funcs env)" and code: "compile_process_body names name body = Ok pb"
    and tame: "list_all (tame True True) body" and b: "shape True b" "described b ev Map.empty"
    and run: "exec_ir_process_code env n (pb_code pb) nid ev Map.empty x = (Ok (Continue ev', sc'), x')"
  shows "described (fst (analyze_process_body ps (xe_funcs env) pn body b)) ev' Map.empty"
    "shape True (fst (analyze_process_body ps (xe_funcs env) pn body b))"
proof -
  let ?w = "walk_list (analyze_process_stmt ps (xe_funcs env) pn) body"
  obtain es st where "compile_process_statements names body ([], []) = (Ok (pb_code pb), es, st)"
    using code by (auto simp: compile_process_body_def split: prod.split_asm res.split_asm)
  then have body: "map source_of (pb_code pb) = body" by (rule compiled_source)
  have fst_walk: "fst (analyze_process_body ps (xe_funcs env) pn body b) = pop_let_scope (fst (?w (push_let_scope b)))"
    by (simp add: analyze_process_body_def in_scope_def split: prod.split)
  have "postM (ends (fst (?w (push_let_scope b)))) (exec_ir_process_code env n (pb_code pb) nid ev Map.empty)"
    using code_follows[OF reg, of ps pn n] tame b unfolding follows_def body[symmetric] by auto
  then have "described (fst (?w (push_let_scope b))) ev' sc'" using run by (auto simp: postM_def ends_def)
  then show "described (fst (analyze_process_body ps (xe_funcs env) pn body b)) ev' Map.empty"
    unfolding fst_walk by (rule described_scopeless)
  have "keeps True True ?w" by (rule keeps_walk_list) (use tame in \<open>auto simp: list_all_iff intro!: walk_keeps\<close>)
  then show "shape True (fst (analyze_process_body ps (xe_funcs env) pn body b))"
    unfolding fst_walk using keepsD(1)[of True True ?w "push_let_scope b"] b(1) by simp
qed

subsection \<open>Properties\<close>

text \<open>C12: The type inference is sound along a process of \<open>tame\<close> statements: they assign to the egress or to single keys of the workspace
  other than \<open>_error\<close>, bind names outside branches, branch, recover, drop and fail, but call no process and no parser as a statement, and
  their expressions negate no operand. Once the compiled body of such a process has run on an event that the bindings describe, every
  \<open>plain\<close> expression over the event that the process hands on has a value of the type that the analyzer infers from the bindings of its
  walk, through every branch and every recovery. The configuration redefines none of the six functions whose type the analyzer refines.\<close>

theorem process_types_sound:
  assumes "libs_ok lib" "list_all typed_entry others"
    and "\<forall>name \<in> set refined. (None, name) \<notin> fst ` set others \<and> name \<notin> fd_name ` set (map snd (cfg_functions cfg))"
    and env: "xe_funcs env = config_registry lib others cfg"
    and code: "compile_process_body names name body = Ok pb" and tame: "list_all (tame True True) body"
    and b: "shape True b" "described b ev Map.empty"
    and run: "exec_ir_process_code env n (pb_code pb) nid ev Map.empty x = (Ok (Continue ev', sc'), x')"
    and e: "plain e" "eval_expr (config_registry lib others cfg) ev' m e w = (Ok v, w')"
  shows "has_ty v (infer (config_registry lib others cfg) (fst (analyze_process_body ps (config_registry lib others cfg) pn body b)) e)"
proof -
  have reg: "standard (xe_funcs env)" unfolding env config_registry_def by (rule runtime_standard[OF assms(1-3)])
  note after = process_followed(1)[OF reg code tame b run, of ps pn]
  show ?thesis using infer_sound[OF reg after _ plain_inferable[OF e(1)], of False m] e(2)
    unfolding postM_def eval_expr_def env by blast
qed

definition ex_typed :: "process_statement list" where
  "ex_typed = [PIf [(BoolLit True, [BProcess (Assign (Workspace [''n'']) (IntLit 5))])]
     (Some [BProcess (Assign (Workspace [''n'']) (StringLit ''none''))])]"

definition ex_typed_code :: "process_code list" where
  "ex_typed_code = [CIf [(BoolLit True, [CAssign (Workspace [''n'']) (IntLit 5)])] (Some [CAssign (Workspace [''n'']) (StringLit ''none'')])]"

definition ex_typed_body :: process_body_code where
  "ex_typed_body = \<lparr>pb_name = ''p'', pb_code = ex_typed_code, pb_edges = []\<rparr>"

lemma ex_typed_compiled: "compile_process_body [] ''p'' ex_typed = Ok ex_typed_body"
  by (simp add: ex_typed_def ex_typed_code_def ex_typed_body_def compile_process_body_def bindM_def ret_def)

definition ex_typed_env :: "unit xenv" where
  "ex_typed_env = ex_env\<lparr>xe_funcs := config_registry ex_libs [] ex_functions\<rparr>"

definition ex_typed_bindings :: bindings where
  "ex_typed_bindings = fst (analyze_process_body builtin_parsers (config_registry ex_libs [] ex_functions) ''p'' ex_typed bindings_new)"

lemma ex_typed_run: "exec_ir_process_code ex_typed_env 3 (pb_code ex_typed_body) 0 (event_view_in ex_event) Map.empty ex_state =
    (Ok (Continue (workspace_set ''n'' (VInt 5) (event_view_in ex_event)), Map.empty), ex_state)"
  by (simp add: ex_typed_body_def ex_typed_code_def numeral_eq_Suc bindM_def liftW_def ret_def exec_body_opt_def apply_assign_def set_workspace_path_def liftR_def)

text \<open>Both branches bind the key, so that its type is the union of theirs.\<close>

theorem process_types_sound_witness:
  "has_ty (VInt 5) (infer (config_registry ex_libs [] ex_functions) ex_typed_bindings (Ident [''workspace'', ''n'']))"
  unfolding ex_typed_bindings_def
proof (rule process_types_sound[OF ex_libs_ok no_entries _ _ ex_typed_compiled _ _ _ ex_typed_run, where m = 1 and w = "()" and w' = "()"])
  show "described bindings_new (event_view_in ex_event) Map.empty" by (rule bindings_new_described) simp
  show "eval_expr (config_registry ex_libs [] ex_functions) (workspace_set ''n'' (VInt 5) (event_view_in ex_event)) 1
      (Ident [''workspace'', ''n'']) () = (Ok (VInt 5), ())"
    by (simp add: eval_expr_def liftR_def resolve_ident_def resolve_event_def Let_def resolve_direct workspace_get_def workspace_set_def or_null_def)
  show "shape True bindings_new" by (simp add: shape_def flat_def bindings_new_def get_workspace_def)
qed (simp_all add: refined_def ex_functions_def ex_double_def ex_quad_def ex_typed_env_def ex_typed_def plain_key_def)

text \<open>Compiling loses nothing: the code of a sealed process reads back as its statements, calls by the name of their edge.\<close>

theorem compiled_code_is_source:
  assumes "compile_process_body names name body = Ok pb"
  shows "map source_of (pb_code pb) = body"
proof -
  obtain es st where "compile_process_statements names body ([], []) = (Ok (pb_code pb), es, st)"
    using assms by (auto simp: compile_process_body_def split: prod.split_asm res.split_asm)
  then show ?thesis by (rule compiled_source)
qed

theorem compiled_code_is_source_witness: "map source_of ex_typed_code = ex_typed"
  using compiled_code_is_source[OF ex_typed_compiled] by (simp add: ex_typed_body_def)

end
