(* ===== verification/ConfigCheck.thy ===== *)
theory ConfigCheck
  imports Config Analyzer_Facts OutputDlq
begin

section \<open>The whole check\<close>

text \<open>
  \<open>check/recovery_readiness.rs\<close>, \<open>check/tls_verify.rs\<close> and \<open>check/journal_match_format.rs\<close>, and \<open>check::analyze\<close>, which runs every
  check over a compiled configuration. \<open>debug\<close> is how the readers of properties print an expression that has no other form.
\<close>

subsection \<open>Recovery\<close>

definition plain_diag :: "level \<Rightarrow> string \<Rightarrow> diagnostic" where
  "plain_diag l m = \<lparr>dg_level = l, dg_kind = OtherKind, dg_message = m, dg_help = None\<rparr>"

definition output_types_with_shutdown_drain :: "rstr list" where
  "output_types_with_shutdown_drain = [''http'', ''otlp_http'', ''otlp_grpc'']"

definition dq :: "string \<Rightarrow> string" where
  "dq s = [CHR 0x22] @ s @ [CHR 0x22]"

definition parse_fallback :: "string \<Rightarrow> error_log_fallback res" where
  "parse_fallback s =
     (if s = ''off'' then Ok FbOff else if s = ''meta'' then Ok FbMeta else if s = ''full'' then Ok FbFull
      else Err (''control.error_log_fallback: unknown value '' @ dq s @ ''; expected '' @ dq ''off'' @ '', '' @ dq ''meta'' @ '', or '' @ dq ''full''))"

definition fallback_text :: "error_log_fallback \<Rightarrow> string" where
  "fallback_text f = (case f of FbOff \<Rightarrow> ''off'' | FbMeta \<Rightarrow> ''meta'' | FbFull \<Rightarrow> ''full'')"

definition control_string :: "(expr \<Rightarrow> string) \<Rightarrow> compiled_config \<Rightarrow> rstr \<Rightarrow> string option" where
  "control_string debug c key = (case map_of (cc_globals c) ''control'' of Some ps \<Rightarrow> get_string debug ps key | None \<Rightarrow> None)"

definition error_log_configured :: "(expr \<Rightarrow> string) \<Rightarrow> compiled_config \<Rightarrow> bool" where
  "error_log_configured debug c \<longleftrightarrow> control_string debug c ''error_log'' \<noteq> None"

definition recovery_reason :: "module_def \<Rightarrow> string option" where
  "recovery_reason out = (if get_block (md_props out) ''retry'' \<noteq> None then Some ''retry''
     else if md_type out \<in> set output_types_with_shutdown_drain then Some ''batched'' else None)"

definition recovery_affected :: "compiled_config \<Rightarrow> (rstr \<times> string) list" where
  "recovery_affected c = sort_key fst (concat (map (\<lambda>(n, out). case recovery_reason out of Some r \<Rightarrow> [(n, r)] | None \<Rightarrow> []) (cc_outputs c)))"

definition recovery_message :: "(rstr \<times> string) list \<Rightarrow> string" where
  "recovery_message affected =
     ''config has outputs that depend on `error_log` for failure recovery, but `control { error_log '' @ dq ''...'' @ '' }` is not configured. ''
     @ ''Affected outputs: '' @ join '', '' (map (\<lambda>(n, r). quote n @ '' ('' @ r @ '')'') affected) @ ''. ''
     @ ''Without `error_log` the daemon emits a one-line `tracing::error!` summary per failed event but does not persist the payload anywhere ''
     @ em_dash @ '' the metadata / full-JSONL tracing fallback is off by default and requires an explicit `control { error_log_fallback ''
     @ dq ''meta'' @ '' | '' @ dq ''full'' @ '' }` opt-in, which itself only takes effect when `error_log` is also set. ''
     @ ''To enable durable file-based recovery, add:'' @ [CHR 0x0A] @ ''    control {'' @ [CHR 0x0A] @ ''        error_log ''
     @ dq ''/var/log/limpid/errored.jsonl'' @ [CHR 0x0A] @ ''    }''"

definition inert_fallback_message :: "string \<Rightarrow> string" where
  "inert_fallback_message s =
     ''control.error_log_fallback = '' @ dq s @ '' is set but control.error_log is unset '' @ em_dash
     @ '' the fallback is inert without a durable DLQ target. Either set control.error_log to opt into the fallback (payload / metadata surface on ''
     @ ''the tracing side when the DLQ write itself fails), or remove control.error_log_fallback to silence this warning.''"

definition analyze_recovery :: "(expr \<Rightarrow> string) \<Rightarrow> compiled_config \<Rightarrow> diagnostic list" where
  "analyze_recovery debug c =
     (case control_string debug c ''error_log_fallback'' of
        None \<Rightarrow> []
      | Some s \<Rightarrow> (case parse_fallback s of Err m \<Rightarrow> [plain_diag level.LError m] | _ \<Rightarrow> [])
          @ (if error_log_configured debug c then [] else [plain_diag level.LWarning (inert_fallback_message s)]))
     @ (if error_log_configured debug c \<or> recovery_affected c = [] then []
        else [plain_diag level.LWarning (recovery_message (recovery_affected c))])"

subsection \<open>Certificates\<close>

definition output_types_with_verify_toggle :: "rstr list" where
  "output_types_with_verify_toggle = [''http'', ''otlp_http'']"

definition verify_disabled :: "module_def \<Rightarrow> bool" where
  "verify_disabled out \<longleftrightarrow> get_bool (md_props out) ''verify'' = Some False"

definition verify_message :: "rstr \<Rightarrow> string" where
  "verify_message n = ''output '' @ tick n @ '': TLS certificate verification disabled (`verify false`) '' @ em_dash
     @ '' MITM possible; intended for test environments only. Connections to this peer will accept any certificate, valid or not.''"

definition analyze_verify :: "compiled_config \<Rightarrow> diagnostic list" where
  "analyze_verify c = map (\<lambda>n. plain_diag level.LWarning (verify_message n)) (sort (map fst
     (List.filter (\<lambda>(_, out). md_type out \<in> set output_types_with_verify_toggle \<and> verify_disabled out) (cc_outputs c))))"

subsection \<open>Journal filters\<close>

definition bad_match_diag :: "rstr \<Rightarrow> string \<Rightarrow> diagnostic" where
  "bad_match_diag name offending = error_kind PropertySchema
     (''input '' @ tick name @ '': journal `match` requires `FIELD=value` shape (got '' @ dq offending @ '') '' @ em_dash
      @ '' each match string must contain '' @ tick ''='' @ ''; see `docs/src/inputs/journal.md` for the filter combining rules'')"

definition analyze_journal :: "compiled_config \<Rightarrow> diagnostic list" where
  "analyze_journal c = concat (map (\<lambda>(_, d). if md_type d \<noteq> ''journal'' then [] else
     concat (map (\<lambda>p. case p of
         KeyValue k _ (StringLit s) \<Rightarrow> if k = ''match'' \<and> CHR ''='' \<notin> set s then [bad_match_diag (md_name d) s] else []
       | _ \<Rightarrow> []) (md_props d))) (cc_inputs c))"

subsection \<open>Every check\<close>

text \<open>\<open>analyze\<close>; \<open>None\<close> if a walk over a call graph ran out of its measure, which \<open>call_cycles_exact\<close> excludes.\<close>

definition analyze_config ::
  "('w, 'x) libs_scheme \<Rightarrow> 'w entry list \<Rightarrow> (expr \<Rightarrow> string) \<Rightarrow> schemas \<Rightarrow> schemas \<Rightarrow> compiled_config \<Rightarrow> diagnostic list option" where
  "analyze_config lib others debug in_schemas out_schemas c =
     (let cfg = cc_config c;
          reg = config_registry lib others cfg;
          an = \<lparr>an_parsers = builtin_parsers, an_config = cfg, an_outputs = cc_outputs c, an_schemas = out_schemas\<rparr> in
      case (check_all_functions cfg reg, check_process_cycles cfg) of
        (Some fs, Some ps) \<Rightarrow> Some (fs @ ps
          @ analyze_modules in_schemas out_schemas (map snd (cc_inputs c)) (map snd (cc_outputs c))
          @ analyze_globals (cc_globals c)
          @ analyze_journal c @ analyze_recovery debug c @ analyze_verify c
          @ concat (map (\<lambda>(_, pl). analyze_pipeline an reg pl) (cfg_pipelines cfg)))
      | _ \<Rightarrow> None)"

end
