(* ===== verification/Compile_Facts.thy ===== *)
theory Compile_Facts
  imports Purity_Facts
begin

section \<open>Checked configurations compile\<close>

text \<open>
  The blueprint compiler on a configuration whose references resolve and whose process calls have a rank: it fails only when a table
  outgrows its 32-bit identifiers, and what it builds passes every test of \<open>seal\<close>.
\<close>

subsection \<open>Failing only for size\<close>

definition limit_error :: "string \<Rightarrow> bool" where
  "limit_error m \<longleftrightarrow> m = ''metric step overflow'' \<or> (\<exists>what. m = what @ '' count exceeds the execution IR limit'')"

definition okR :: "'a res \<Rightarrow> ('a \<Rightarrow> bool) \<Rightarrow> bool" where
  "okR r Q \<longleftrightarrow> (case r of Ok x \<Rightarrow> Q x | Err e \<Rightarrow> limit_error e | Crash \<Rightarrow> False)"

definition okM :: "('s \<Rightarrow> bool) \<Rightarrow> ('s, 'a) M \<Rightarrow> ('a \<Rightarrow> 's \<Rightarrow> bool) \<Rightarrow> bool" where
  "okM I m Q \<longleftrightarrow> (\<forall>s. I s \<longrightarrow> okR (fst (m s)) (\<lambda>x. Q x (snd (m s))))"

lemma okR_simps [simp]: "okR (Ok x) Q = Q x" "okR (Err e) Q = limit_error e" "okR Crash Q = False"
  by (simp_all add: okR_def)

lemma okR_mono: "okR r Q \<Longrightarrow> (\<And>x. Q x \<Longrightarrow> R x) \<Longrightarrow> okR r R"
  by (simp add: okR_def split: res.split_asm)

lemma okR_bind: "okR r Q \<Longrightarrow> (\<And>x. Q x \<Longrightarrow> okR (k x) R) \<Longrightarrow> okR (bindR r k) R"
  by (simp add: okR_def bindR_def split: res.split_asm)

lemma okR_index: "okR (from_index what i) (\<lambda>j. j = i \<and> i < u32_limit)"
  by (auto simp: from_index_def limit_error_def)

lemma okM_D: "okM I m Q \<Longrightarrow> I s \<Longrightarrow> okR (fst (m s)) (\<lambda>x. Q x (snd (m s)))"
  by (simp add: okM_def)

lemma okM_pull: "(P \<Longrightarrow> okM I m Q) \<Longrightarrow> okM (\<lambda>s. P \<and> I s) m Q"
  by (simp add: okM_def)

lemma okM_ret: "(\<And>s. I s \<Longrightarrow> Q x s) \<Longrightarrow> okM I (ret x) Q"
  by (simp add: okM_def ret_def)

lemma okM_bind:
  assumes "okM I m R" "\<And>x. okM (R x) (k x) Q"
  shows "okM I (bindM m k) Q"
proof -
  have "okR (fst (bindM m k s)) (\<lambda>x. Q x (snd (bindM m k s)))" if "I s" for s
  proof -
    have m: "okR (fst (m s)) (\<lambda>x. R x (snd (m s)))" using assms(1) that by (simp add: okM_def)
    obtain r s' where ms: "m s = (r, s')" by (cases "m s")
    show ?thesis
    proof (cases r)
      case (Ok x)
      then have "R x s'" using m ms by simp
      then show ?thesis using assms(2)[of x] ms Ok by (simp add: okM_def bindM_def)
    qed (use m ms in \<open>simp_all add: bindM_def\<close>)
  qed
  then show ?thesis by (simp add: okM_def)
qed

lemma okM_mono:
  assumes "okM I m Q" "\<And>s. J s \<Longrightarrow> I s" "\<And>x s. Q x s \<Longrightarrow> R x s"
  shows "okM J m R"
  unfolding okM_def
proof (intro allI impI)
  fix s assume "J s"
  then have "okR (fst (m s)) (\<lambda>x. Q x (snd (m s)))" using assms(1,2) by (simp add: okM_def)
  then show "okR (fst (m s)) (\<lambda>x. R x (snd (m s)))" by (rule okR_mono) (rule assms(3))
qed

text \<open>A loop that adds to a set of established facts.\<close>

lemma okM_mapM:
  assumes "\<And>x K. x \<in> set xs \<Longrightarrow> okM (I K) (f x) (\<lambda>y. I (K \<union> g x y))"
  shows "okM (I K) (mapM f xs) (\<lambda>ys s. length ys = length xs \<and> I (K \<union> (\<Union>(x, y) \<in> set (zip xs ys). g x y)) s)"
  using assms
proof (induction xs arbitrary: K)
  case (Cons x xs)
  have tail: "okM (I (K \<union> g x y)) (mapM f xs)
      (\<lambda>ys s. length ys = length xs \<and> I ((K \<union> g x y) \<union> (\<Union>(x, y) \<in> set (zip xs ys). g x y)) s)" for y
    using Cons by simp
  show ?case unfolding mapM.simps
    by (rule okM_bind[OF Cons.prems], simp, rule okM_bind[OF tail], rule okM_ret) (simp add: Un_assoc)
qed (simp add: okM_ret)

subsection \<open>Process bodies\<close>

text \<open>What the grammar gives: only process statements in the branches of a process.\<close>

fun process_placed :: "process_statement \<Rightarrow> bool" and process_item :: "branch_body \<Rightarrow> bool" where
  "process_placed (PIf branches els) = (list_all (\<lambda>(_, body). list_all process_item body) branches \<and>
     (case els of Some body \<Rightarrow> list_all process_item body | None \<Rightarrow> True))"
| "process_placed (PSwitch e arms) = list_all (\<lambda>(_, body). list_all process_item body) arms"
| "process_placed (TryCatch t c) = (list_all process_placed t \<and> list_all process_placed c)"
| "process_placed _ = True"
| "process_item (BProcess s) = process_placed s"
| "process_item (BPipeline s) = False"

text \<open>The edges of a body under compilation, and calls already resolved to a slot.\<close>

definition edges_ok :: "(rstr \<times> nat) list \<Rightarrow> (rstr \<Rightarrow> bool) \<Rightarrow> process_edge list \<Rightarrow> bool" where
  "edges_ok names P edges \<longleftrightarrow> distinct (map edge_name edges) \<and> length edges \<le> u32_limit \<and>
     (\<forall>e \<in> set edges. edge_target e = call_target names (edge_name e) \<and> (\<forall>i. edge_target e = Known i \<longrightarrow> P (edge_name e)))"

definition edge_inv :: "(rstr \<times> nat) list \<Rightarrow> (rstr \<Rightarrow> bool) \<Rightarrow> (rstr \<times> nat) set \<Rightarrow> edge_state \<Rightarrow> bool" where
  "edge_inv names P K st \<longleftrightarrow> edges_ok names P (fst st) \<and>
     (\<forall>nm s. map_of (snd st) nm = Some s \<longleftrightarrow> s < length (fst st) \<and> edge_name (fst st ! s) = nm) \<and>
     (\<forall>(nm, s) \<in> K. s < length (fst st) \<and> edge_name (fst st ! s) = nm)"

lemma edge_slot_ok:
  assumes "map_of names name \<noteq> None \<Longrightarrow> P name"
  shows "okM (edge_inv names P K) (edge_slot names name) (\<lambda>slot. edge_inv names P (K \<union> {(name, slot)}))"
proof -
  have "okR (fst (edge_slot names name st)) (\<lambda>slot. edge_inv names P (K \<union> {(name, slot)}) (snd (edge_slot names name st)))"
    if inv: "edge_inv names P K st" for st
  proof -
    obtain edges slots where st: "st = (edges, slots)" by (cases st)
    show ?thesis
    proof (cases "map_of slots name")
      case (Some slot)
      then have "edge_inv names P (K \<union> {(name, slot)}) st" using inv st by (auto simp: edge_inv_def)
      then show ?thesis using Some st by (simp add: edge_slot_def)
    next
      case None
      let ?e = "\<lparr>edge_name = name, edge_target = call_target names name\<rparr>"
      have slots: "map_of slots nm = Some s \<longleftrightarrow> s < length edges \<and> edge_name (edges ! s) = nm" for nm s
        using inv st by (simp add: edge_inv_def)
      have "\<forall>i < length edges. edge_name (edges ! i) \<noteq> name" using slots[of name] None by simp
      then have new: "name \<notin> set (map edge_name edges)" by (auto simp: in_set_conv_nth)
      have "edges_ok names P (edges @ [?e])" if "length edges < u32_limit"
        using inv st new that assms by (auto simp: edge_inv_def edges_ok_def call_target_def split: option.split_asm)
      moreover have "map_of (al_set name (length edges) slots) nm = Some s \<longleftrightarrow> s < length (edges @ [?e]) \<and> edge_name ((edges @ [?e]) ! s) = nm" for nm s
        using new slots[of nm s] by (auto simp: nth_append less_Suc_eq)
      moreover have "\<forall>(nm, s) \<in> K \<union> {(name, length edges)}. s < length (edges @ [?e]) \<and> edge_name ((edges @ [?e]) ! s) = nm"
        using inv st by (auto simp: edge_inv_def nth_append)
      ultimately show ?thesis using None st
        by (auto simp: edge_slot_def from_index_def edge_inv_def limit_error_def)
    qed
  qed
  then show ?thesis by (simp add: okM_def)
qed

lemma compile_statement_ok:
  assumes decl: "\<And>n. map_of names n \<noteq> None \<Longrightarrow> map_of (cfg_processes cfg) n \<noteq> None"
  shows "process_placed s \<Longrightarrow> \<forall>n \<in> set (collect_process_callees cfg s). P n \<Longrightarrow>
      okM (edge_inv names P K) (compile_process_statement names s) (\<lambda>c. edge_inv names P (K \<union> set (stmt_calls c)))"
    and "list_all process_placed ss \<Longrightarrow> \<forall>s \<in> set ss. \<forall>n \<in> set (collect_process_callees cfg s). P n \<Longrightarrow>
      okM (edge_inv names P K) (compile_process_statements names ss) (\<lambda>cs. edge_inv names P (K \<union> set (code_calls cs)))"
    and "list_all process_item body \<Longrightarrow> \<forall>i \<in> set body. \<forall>n \<in> set (collect_branch_callees cfg i). P n \<Longrightarrow>
      okM (edge_inv names P K) (compile_process_branch names body) (\<lambda>cs. edge_inv names P (K \<union> set (code_calls cs)))"
    and "list_all (\<lambda>(_, body). list_all process_item body) branches \<Longrightarrow>
      \<forall>(c, body) \<in> set branches. \<forall>i \<in> set body. \<forall>n \<in> set (collect_branch_callees cfg i). P n \<Longrightarrow>
      okM (edge_inv names P K) (compile_process_branches names branches) (\<lambda>bs. edge_inv names P (K \<union> set (branches_calls bs)))"
    and "list_all (\<lambda>(_, body). list_all process_item body) arms \<Longrightarrow>
      \<forall>(p, body) \<in> set arms. \<forall>i \<in> set body. \<forall>n \<in> set (collect_branch_callees cfg i). P n \<Longrightarrow>
      okM (edge_inv names P K) (compile_process_arms names arms) (\<lambda>as. edge_inv names P (K \<union> set (arms_calls as)))"
  using decl
proof (induction names s and names ss and names body and names branches and names arms arbitrary: K and K and K and K and K rule:
    compile_process_statement_compile_process_statements_compile_process_branch_compile_process_branches_compile_process_arms.induct)
  case (3 names name)
  have "P name" if "map_of names name \<noteq> None" using "3.prems"(2) "3.prems"(3)[OF that] by simp
  then show ?case unfolding compile_process_statement.simps
    by (rule okM_bind[OF edge_slot_ok]) (auto intro!: okM_ret)
next
  case (6 names branches els)
  have "P n" if "(c, body) \<in> set branches" "i \<in> set body" "n \<in> set (collect_branch_callees cfg i)" for c body i n
  proof -
    have "n \<in> set (collect_process_callees cfg (PIf branches els))"
      using that by (auto intro!: bexI[of _ "(c, body)"])
    then show ?thesis using "6.prems"(2) by blast
  qed
  then have P: "\<forall>(c, body) \<in> set branches. \<forall>i \<in> set body. \<forall>n \<in> set (collect_branch_callees cfg i). P n" by blast
  have bs: "okM (edge_inv names P K) (compile_process_branches names branches) (\<lambda>bs. edge_inv names P (K \<union> set (branches_calls bs)))" for K
    using "6.IH"(1) P "6.prems"(1,3) by simp
  have el: "okM (edge_inv names P K) (case els of None \<Rightarrow> ret None | Some b \<Rightarrow> bindM (compile_process_branch names b) (\<lambda>c. ret (Some c)))
      (\<lambda>el. edge_inv names P (K \<union> set (case el of Some b \<Rightarrow> code_calls b | None \<Rightarrow> [])))" for K
  proof (cases els)
    case (Some b)
    have "set (collect_branch_callees cfg i) \<subseteq> set (collect_process_callees cfg (PIf branches els))" if "i \<in> set b" for i
      using that Some by auto
    then have Pe: "\<forall>i \<in> set b. \<forall>n \<in> set (collect_branch_callees cfg i). P n" using "6.prems"(2) by blast
    have "okM (edge_inv names P K) (compile_process_branch names b) (\<lambda>cs. edge_inv names P (K \<union> set (code_calls cs)))"
      using "6.IH"(2)[OF Some] "6.prems"(1,3) Pe Some by simp
    then show ?thesis using Some by (auto intro!: okM_bind okM_ret)
  qed (simp add: okM_ret)
  show ?case unfolding compile_process_statement.simps
    by (rule okM_bind[OF bs], rule okM_bind[OF el], rule okM_ret) (simp add: Un_assoc)
next
  case (7 names e arms)
  have "n \<in> set (collect_process_callees cfg (PSwitch e arms))"
    if "(c, body) \<in> set arms" "i \<in> set body" "n \<in> set (collect_branch_callees cfg i)" for c body i n
    using that by (auto intro!: bexI[of _ "(c, body)"])
  then have P: "\<forall>(p, body) \<in> set arms. \<forall>i \<in> set body. \<forall>n \<in> set (collect_branch_callees cfg i). P n" using "7.prems"(2) by blast
  have "okM (edge_inv names P K) (compile_process_arms names arms) (\<lambda>as. edge_inv names P (K \<union> set (arms_calls as)))"
    using "7.IH" P "7.prems"(1,3) by simp
  then show ?case by (auto intro!: okM_bind okM_ret)
next
  case (8 names t c)
  have P: "\<forall>s \<in> set t. \<forall>n \<in> set (collect_process_callees cfg s). P n" "\<forall>s \<in> set c. \<forall>n \<in> set (collect_process_callees cfg s). P n"
    using "8.prems"(2) by auto
  have t: "okM (edge_inv names P K) (compile_process_statements names t) (\<lambda>cs. edge_inv names P (K \<union> set (code_calls cs)))"
    and c: "okM (edge_inv names P K) (compile_process_statements names c) (\<lambda>cs. edge_inv names P (K \<union> set (code_calls cs)))" for K
    using "8.IH" P "8.prems"(1,3) by simp_all
  show ?case unfolding compile_process_statement.simps
    by (rule okM_bind[OF t], rule okM_bind[OF c], rule okM_ret) (simp add: Un_assoc)
qed (auto simp: Un_assoc intro!: okM_ret okM_bind)

definition good_body :: "(rstr \<times> nat) list \<Rightarrow> (rstr \<Rightarrow> bool) \<Rightarrow> process_body_code \<Rightarrow> bool" where
  "good_body names P b \<longleftrightarrow> edges_ok names P (pb_edges b) \<and> (\<forall>c \<in> set (code_calls (pb_code b)). call_ok b c)"

lemma compile_body_ok:
  assumes "\<And>n. map_of names n \<noteq> None \<Longrightarrow> map_of (cfg_processes cfg) n \<noteq> None"
    and "list_all process_placed stmts" "\<forall>s \<in> set stmts. \<forall>n \<in> set (collect_process_callees cfg s). P n"
  shows "okR (compile_process_body names name stmts) (\<lambda>b. pb_name b = name \<and> good_body names P b)"
proof -
  have "edge_inv names P {} ([], [])" by (simp add: edge_inv_def edges_ok_def)
  then have ok: "okR (fst (compile_process_statements names stmts ([], [])))
      (\<lambda>cs. edge_inv names P (set (code_calls cs)) (snd (compile_process_statements names stmts ([], []))))"
    using compile_statement_ok(2)[OF assms(1) assms(2,3), where K = "{}"] by (simp add: okM_def)
  obtain r st where r: "compile_process_statements names stmts ([], []) = (r, st)" by (cases "compile_process_statements names stmts ([], [])")
  obtain edges slots where st: "st = (edges, slots)" by (cases st)
  show ?thesis using ok unfolding compile_process_body_def r st
    by (cases r) (auto simp: edge_inv_def good_body_def call_ok_def)
qed

subsection \<open>Named processes\<close>

definition names_wf :: "(rstr \<times> nat) list \<Rightarrow> bool" where
  "names_wf names \<longleftrightarrow> distinct (map fst names) \<and> map snd names = [0..<length names] \<and> length names \<le> u32_limit"

lemma names_nth: "names_wf names \<Longrightarrow> map_of names nm = Some i \<longleftrightarrow> i < length names \<and> fst (names ! i) = nm"
proof -
  assume wf: "names_wf names"
  have "map snd names ! j = [0..<length names] ! j" for j using wf by (simp add: names_wf_def)
  then have snd: "snd (names ! j) = j" if "j < length names" for j using that by (metis add_0 nth_map nth_upt)
  have "map_of names nm = Some i \<longleftrightarrow> (nm, i) \<in> set names" using wf by (simp add: names_wf_def map_of_eq_Some_iff)
  also have "\<dots> \<longleftrightarrow> i < length names \<and> fst (names ! i) = nm"
  proof
    assume "(nm, i) \<in> set names"
    then obtain j where j: "j < length names" "names ! j = (nm, i)" by (auto simp: in_set_conv_nth)
    then show "i < length names \<and> fst (names ! i) = nm" using snd[OF j(1)] by simp
  next
    assume i: "i < length names \<and> fst (names ! i) = nm"
    then have "names ! i = (nm, i)" using snd[of i] by (simp add: prod_eq_iff)
    then show "(nm, i) \<in> set names" using i nth_mem[of i names] by simp
  qed
  finally show ?thesis .
qed

lemma al_set_new: "k \<notin> fst ` set xs \<Longrightarrow> al_set k v xs = xs @ [(k, v)]"
  by (induction xs) auto

lemma number_names_ok:
  "names_wf acc \<Longrightarrow> distinct (map fst acc @ ns) \<Longrightarrow> okR (number_names ns acc) (\<lambda>r. names_wf r \<and> map fst r = map fst acc @ ns)"
proof (induction ns arbitrary: acc)
  case (Cons n ns)
  have new: "al_set n (length acc) acc = acc @ [(n, length acc)]" by (rule al_set_new) (use Cons.prems in auto)
  show ?case unfolding number_names.simps
  proof (rule okR_bind[OF okR_index])
    fix j assume j: "j = length acc \<and> length acc < u32_limit"
    then have "names_wf (al_set n j acc)" "distinct (map fst (al_set n j acc) @ ns)"
      using Cons.prems new by (auto simp: names_wf_def)
    from Cons.IH[OF this] show "okR (number_names ns (al_set n j acc)) (\<lambda>r. names_wf r \<and> map fst r = map fst acc @ n # ns)"
      by (rule okR_mono) (use j new in simp)
  qed
qed simp

text \<open>What the grammar gives for a configuration, and the ranks of the call graph.\<close>

definition processes_placed :: "config \<Rightarrow> bool" where
  "processes_placed cfg \<longleftrightarrow> distinct (map fst (cfg_processes cfg)) \<and> list_all (\<lambda>(_, pd). list_all process_placed (pd_body pd)) (cfg_processes cfg)"

definition body_at :: "(rstr \<times> nat) list \<Rightarrow> (rstr \<Rightarrow> nat) \<Rightarrow> nat \<Rightarrow> process_body_code \<Rightarrow> bool" where
  "body_at names rk i b \<longleftrightarrow> pb_name b = fst (names ! i) \<and> good_body names (\<lambda>n. rk n < rk (fst (names ! i))) b"

lemma compile_named_ok:
  assumes wf: "names_wf names" and keys: "\<And>n. map_of names n \<noteq> None \<longleftrightarrow> map_of (cfg_processes cfg) n \<noteq> None"
    and placed: "processes_placed cfg" and ranked: "processes_ranked cfg rk"
  shows "rest = drop (length bodies) names \<Longrightarrow> length bodies \<le> length names \<Longrightarrow> \<forall>i < length bodies. body_at names rk i (bodies ! i) \<Longrightarrow>
    okR (compile_named cfg names rest bodies) (\<lambda>bs. length bs = length names \<and> (\<forall>i < length bs. body_at names rk i (bs ! i)))"
proof (induction rest arbitrary: bodies)
  case Nil
  then show ?case by simp
next
  case (Cons ne rest)
  obtain name expected where ne: "ne = (name, expected)" by (cases ne)
  let ?i = "length bodies"
  have i: "?i < length names" using Cons.prems(1) by (metis drop_all leI list.distinct(1))
  have "names ! ?i # drop (Suc ?i) names = ne # rest" using Cons.prems(1) Cons_nth_drop_Suc[OF i] by simp
  then have at: "names ! ?i = (name, expected)" and rest: "rest = drop (Suc ?i) names" using ne by simp_all
  have "map_of names name = Some ?i" using names_nth[OF wf] i at by simp
  moreover have "map_of names name = Some expected" using at i wf by (metis names_wf_def map_of_is_SomeI nth_mem)
  ultimately have expected: "expected = ?i" by simp
  obtain pd where pd: "map_of (cfg_processes cfg) name = Some pd" using keys[of name] \<open>map_of names name = Some ?i\<close> by auto
  have body: "okR (compile_process_body names name (pd_body pd)) (\<lambda>b. pb_name b = name \<and> good_body names (\<lambda>n. rk n < rk name) b)"
  proof (rule compile_body_ok)
    show "list_all process_placed (pd_body pd)" using placed map_of_SomeD[OF pd] by (auto simp: processes_placed_def list_all_iff)
    show "\<forall>s \<in> set (pd_body pd). \<forall>n \<in> set (collect_process_callees cfg s). rk n < rk name"
      using ranked pd by (auto simp: processes_ranked_def)
  qed (use keys in blast)
  have "okR (compile_named cfg names rest (bodies @ [b])) (\<lambda>bs. length bs = length names \<and> (\<forall>i < length bs. body_at names rk i (bs ! i)))"
    if "pb_name b = name \<and> good_body names (\<lambda>n. rk n < rk name) b" for b
  proof (rule Cons.IH)
    show "\<forall>i < length (bodies @ [b]). body_at names rk i ((bodies @ [b]) ! i)"
      using Cons.prems(3) that at by (auto simp: body_at_def nth_append less_Suc_eq)
  qed (use rest i in auto)
  then show ?case unfolding ne compile_named.simps pd
    by (auto simp: bindR_def[of "Ok pd"] expected intro!: okR_bind[OF body] okR_bind[OF okR_index])
qed

subsection \<open>Metric nodes\<close>

definition rooted :: "metric_node \<Rightarrow> nat option \<Rightarrow> process_target \<Rightarrow> rstr \<Rightarrow> rstr \<Rightarrow> bool" where
  "rooted node parent target name path \<longleftrightarrow> mn_parent node = parent \<and> mn_target node = target \<and> mn_name node = name \<and> mn_path node = path"

definition child_of :: "metric_node list \<Rightarrow> nat \<Rightarrow> rstr \<Rightarrow> process_edge \<Rightarrow> nat \<Rightarrow> bool" where
  "child_of nodes j path e cid \<longleftrightarrow> cid < length nodes \<and> rooted (nodes ! cid) (Some j) (edge_target e) (edge_name e) (path @ ''/'' @ edge_name e)"

definition node_fine :: "process_body_code list \<Rightarrow> metric_node list \<Rightarrow> nat \<Rightarrow> bool" where
  "node_fine bodies nodes j \<longleftrightarrow> mn_step (nodes ! j) = Suc j \<and> Suc (Suc j) < u32_limit \<and>
     (case mn_target (nodes ! j) of
        Unknown \<Rightarrow> mn_children (nodes ! j) = []
      | Known b \<Rightarrow> b < length bodies \<and>
          list_all2 (child_of nodes j (mn_path (nodes ! j))) (pb_edges (bodies ! b)) (mn_children (nodes ! j)))"

lemma child_of_ext: "child_of nodes j path e cid \<Longrightarrow> child_of (nodes @ ext) j path e cid"
  by (auto simp: child_of_def nth_append)

lemma node_fine_ext: "node_fine bodies nodes j \<Longrightarrow> j < length nodes \<Longrightarrow> node_fine (bodies @ bs) (nodes @ ext) j"
  by (auto simp: node_fine_def nth_append elim: list_all2_mono child_of_ext split: process_target.split_asm process_target.split)

lemma child_of_update: "child_of nodes j path e cid \<Longrightarrow> child_of (nodes[i := (nodes ! i)\<lparr>mn_children := cs\<rparr>]) j path e cid"
  by (cases "i = cid") (auto simp: child_of_def rooted_def)

lemma node_fine_update: "node_fine bodies nodes j \<Longrightarrow> i \<noteq> j \<Longrightarrow> node_fine bodies (nodes[i := (nodes ! i)\<lparr>mn_children := cs\<rparr>]) j"
  by (auto simp: node_fine_def elim: list_all2_mono child_of_update split: process_target.split_asm process_target.split)

text \<open>The table after \<open>nodes\<close> has only finished nodes.\<close>

definition code_grown :: "process_body_code list \<Rightarrow> metric_node list \<Rightarrow> node_state \<Rightarrow> bool" where
  "code_grown bodies nodes st \<longleftrightarrow> snd st = Suc (length (fst st)) \<and> (\<exists>ext. fst st = nodes @ ext) \<and>
     (\<forall>j. length nodes \<le> j \<longrightarrow> j < length (fst st) \<longrightarrow> node_fine bodies (fst st) j)"

lemma code_grown_trans:
  assumes "code_grown bodies nodes st" "code_grown bodies (fst st) st'"
  shows "code_grown bodies nodes st'"
proof -
  obtain ext where ext: "fst st' = fst st @ ext" using assms(2) by (auto simp: code_grown_def)
  have "node_fine bodies (fst st') j" if "length nodes \<le> j" "j < length (fst st')" for j
  proof (cases "j < length (fst st)")
    case True
    then show ?thesis using assms(1) that node_fine_ext[of bodies "fst st" j "[]" ext] by (simp add: code_grown_def ext)
  next
    case False
    then show ?thesis using assms(2) that by (simp add: code_grown_def)
  qed
  then show ?thesis using assms by (auto simp: code_grown_def)
qed

definition bodies_ranked :: "(nat \<Rightarrow> nat) \<Rightarrow> process_body_code list \<Rightarrow> bool" where
  "bodies_ranked R bodies \<longleftrightarrow> (\<forall>i < length bodies. \<forall>e \<in> set (pb_edges (bodies ! i)). \<forall>t. edge_target e = Known t \<longrightarrow> t < length bodies \<and> R t < R i)"

definition at_end :: "metric_node list \<Rightarrow> node_state \<Rightarrow> bool" where
  "at_end nodes st \<longleftrightarrow> st = (nodes, Suc (length nodes))"

lemma push_node_ok: "okM (at_end nodes) (push_node node) (\<lambda>i st. i = length nodes \<and> Suc (Suc (length nodes)) < u32_limit \<and>
    at_end (nodes @ [node\<lparr>mn_step := Suc (length nodes)\<rparr>]) st)"
  by (auto simp: okM_def push_node_def at_end_def from_index_def limit_error_def)

lemma set_children_ok:
  assumes i: "i = length nodes" and node: "mn_step node = Suc i" "Suc (Suc i) < u32_limit" "mn_target node = Known b" "b < length bodies"
  shows "okM (\<lambda>st. code_grown bodies (nodes @ [node]) st \<and> list_all2 (child_of (fst st) i (mn_path node)) (pb_edges (bodies ! b)) cs)
    (set_children i cs)
    (\<lambda>_ st. code_grown bodies nodes st \<and> i < length (fst st) \<and> rooted (fst st ! i) (mn_parent node) (mn_target node) (mn_name node) (mn_path node))"
  unfolding okM_def
proof (intro allI impI)
  fix st assume st: "code_grown bodies (nodes @ [node]) st \<and> list_all2 (child_of (fst st) i (mn_path node)) (pb_edges (bodies ! b)) cs"
  then obtain ext where ext: "st = ((nodes @ [node]) @ ext, Suc (length ((nodes @ [node]) @ ext)))" by (cases st) (auto simp: code_grown_def)
  let ?N = "(nodes @ [node]) @ ext"
  let ?N' = "?N[i := (?N ! i)\<lparr>mn_children := cs\<rparr>]"
  have at: "?N ! i = node" by (simp add: i nth_append)
  then have at': "?N' ! i = node\<lparr>mn_children := cs\<rparr>" by (simp add: i)
  have N': "?N' = nodes @ (node\<lparr>mn_children := cs\<rparr>) # ext" by (simp add: i)
  have kids: "list_all2 (child_of ?N' i (mn_path node)) (pb_edges (bodies ! b)) cs"
    using st ext by (auto elim!: list_all2_mono intro: child_of_update)
  have "node_fine bodies ?N' j" if j: "length nodes \<le> j" "j < length ?N'" for j
  proof (cases "j = i")
    case True
    then show ?thesis using at' node kids by (simp add: node_fine_def)
  next
    case False
    then have "node_fine bodies ?N j" using st ext j i by (auto simp: code_grown_def)
    then show ?thesis using False by (intro node_fine_update) auto
  qed
  then have "code_grown bodies nodes (?N', snd st)" using N' ext by (auto simp: code_grown_def)
  moreover have "set_children i cs st = (Ok (), (?N', snd st))" using ext by (simp add: set_children_def i)
  moreover have "rooted (?N' ! i) (mn_parent node) (mn_target node) (mn_name node) (mn_path node)" using at' by (simp add: rooted_def)
  ultimately show "okR (fst (set_children i cs st)) (\<lambda>_. code_grown bodies nodes (snd (set_children i cs st)) \<and> i < length (fst (snd (set_children i cs st)))
      \<and> rooted (fst (snd (set_children i cs st)) ! i) (mn_parent node) (mn_target node) (mn_name node) (mn_path node))"
    by (simp add: i)
qed

lemma add_metric_node_ok:
  assumes ranked: "bodies_ranked R bodies"
  shows "distinct (map fst anc) \<Longrightarrow> \<forall>a \<in> fst ` set anc. a < length bodies \<Longrightarrow> length bodies < n + length anc \<Longrightarrow>
    \<forall>b. target = Known b \<longrightarrow> b < length bodies \<and> (\<forall>a \<in> fst ` set anc. R b < R a) \<Longrightarrow>
    okM (at_end nodes) (add_metric_node bodies n parent target name path anc)
      (\<lambda>i st. code_grown bodies nodes st \<and> i = length nodes \<and> i < length (fst st) \<and> rooted (fst st ! i) parent target name path)"
proof (induction n arbitrary: parent target name path anc nodes)
  case 0
  have "length anc \<le> length bodies"
    using card_mono[of "{..<length bodies}" "fst ` set anc"] 0 distinct_card[of "map fst anc"] by auto
  then show ?case using 0 by simp
next
  case (Suc n)
  let ?i = "length nodes"
  let ?node = "\<lparr>mn_parent = parent, mn_step = Suc ?i, mn_path = path, mn_name = name, mn_target = target, mn_children = []\<rparr>"
  let ?N = "nodes @ [?node]"
  show ?case
  proof (cases target)
    case Unknown
    have "code_grown bodies nodes st" if "at_end ?N st" "Suc (Suc ?i) < u32_limit" for st
      using that Unknown by (auto simp: code_grown_def at_end_def node_fine_def less_Suc_eq)
    then show ?thesis unfolding add_metric_node.simps Unknown
      by (intro okM_bind[OF push_node_ok]) (auto simp: Unknown rooted_def at_end_def intro!: okM_ret)
  next
    case (Known b)
    then have b: "b < length bodies" "\<forall>a \<in> fst ` set anc. R b < R a" using Suc.prems(4) by auto
    let ?I = "\<lambda>K st. code_grown bodies ?N st \<and> (\<forall>(e, cid) \<in> K. child_of (fst st) ?i path e cid)"
    have child: "okM (?I K) (add_metric_node bodies n (Some ?i) (edge_target e) (edge_name e) (path @ ''/'' @ edge_name e) (anc @ [(b, name)]))
        (\<lambda>cid. ?I (K \<union> {(e, cid)}))" if e: "e \<in> set (pb_edges (bodies ! b))" for e K
    proof -
      have dist: "distinct (map fst (anc @ [(b, name)]))" using Suc.prems(1) b(2) by fastforce
      have inner: "okM (at_end nodes') (add_metric_node bodies n (Some ?i) (edge_target e) (edge_name e) (path @ ''/'' @ edge_name e) (anc @ [(b, name)]))
        (\<lambda>i st. code_grown bodies nodes' st \<and> i = length nodes' \<and> i < length (fst st)
           \<and> rooted (fst st ! i) (Some ?i) (edge_target e) (edge_name e) (path @ ''/'' @ edge_name e))" for nodes'
      proof (rule Suc.IH[OF dist])
        show "\<forall>t. edge_target e = Known t \<longrightarrow> t < length bodies \<and> (\<forall>a \<in> fst ` set (anc @ [(b, name)]). R t < R a)"
          using ranked e b by (fastforce simp: bodies_ranked_def intro: less_trans)
      qed (use Suc.prems(2,3) b(1) in auto)
      show ?thesis unfolding okM_def
      proof (intro allI impI)
        fix st assume st: "?I K st"
        let ?r = "add_metric_node bodies n (Some ?i) (edge_target e) (edge_name e) (path @ ''/'' @ edge_name e) (anc @ [(b, name)]) st"
        have "at_end (fst st) st" using st by (cases st) (simp add: code_grown_def at_end_def)
        then have "okR (fst ?r) (\<lambda>i. code_grown bodies (fst st) (snd ?r) \<and> i = length (fst st) \<and> i < length (fst (snd ?r))
           \<and> rooted (fst (snd ?r) ! i) (Some ?i) (edge_target e) (edge_name e) (path @ ''/'' @ edge_name e))"
          by (rule okM_D[OF inner])
        then show "okR (fst ?r) (\<lambda>cid. ?I (K \<union> {(e, cid)}) (snd ?r))"
        proof (rule okR_mono)
          fix cid assume c: "code_grown bodies (fst st) (snd ?r) \<and> cid = length (fst st) \<and> cid < length (fst (snd ?r))
           \<and> rooted (fst (snd ?r) ! cid) (Some ?i) (edge_target e) (edge_name e) (path @ ''/'' @ edge_name e)"
          then obtain ext where "fst (snd ?r) = fst st @ ext" by (auto simp: code_grown_def)
          then have "\<forall>(e, cid) \<in> K. child_of (fst (snd ?r)) ?i path e cid" using st child_of_ext by fastforce
          then show "?I (K \<union> {(e, cid)}) (snd ?r)" using c code_grown_trans[of bodies ?N st "snd ?r"] st by (auto simp: child_of_def)
        qed
      qed
    qed
    let ?m = "mapM (\<lambda>e. add_metric_node bodies n (Some ?i) (edge_target e) (edge_name e) (path @ ''/'' @ edge_name e) (anc @ [(b, name)]))
        (pb_edges (bodies ! b))"
    let ?Q = "\<lambda>i st. code_grown bodies nodes st \<and> i = ?i \<and> i < length (fst st) \<and> rooted (fst st ! i) parent target name path"
    have "okM (?I {}) ?m (\<lambda>cs st. length cs = length (pb_edges (bodies ! b)) \<and>
        ?I ({} \<union> (\<Union>(e, cid) \<in> set (zip (pb_edges (bodies ! b)) cs). {(e, cid)})) st)"
      by (rule okM_mapM[where g = "\<lambda>e cid. {(e, cid)}", OF child])
    then have loop: "okM (at_end ?N) ?m (\<lambda>cs st. code_grown bodies ?N st \<and> list_all2 (child_of (fst st) ?i path) (pb_edges (bodies ! b)) cs)"
      by (rule okM_mono) (auto simp: code_grown_def at_end_def list_all2_iff)
    have rest: "okM (at_end ?N) (bindM ?m (\<lambda>cs. bindM (set_children ?i cs) (\<lambda>_. ret ?i))) ?Q" if "Suc (Suc ?i) < u32_limit"
      using set_children_ok[of ?i nodes ?node b bodies] that b(1) Known
      by (intro okM_bind[OF loop]) (auto intro!: okM_bind okM_ret)
    have "b \<notin> set (map fst anc)" using b(2) by auto
    then show ?thesis unfolding add_metric_node.simps
      by (intro okM_bind[OF push_node_ok], auto simp: Known liftR_def get_or_def nth_opt_def bindM_def[of "\<lambda>w. (Ok _, w)"] b(1)
          intro!: okM_pull) (use rest Known in simp)
  qed
qed

subsection \<open>Pipelines\<close>

text \<open>The process sites of a pipeline, and its outputs with their timer slots.\<close>

type_synonym atom = "process_site + rstr \<times> nat"

fun atoms :: "pipeline_code \<Rightarrow> atom list"
  and code_atoms :: "pipeline_code list \<Rightarrow> atom list"
  and branches_atoms :: "(expr \<times> pipeline_code list) list \<Rightarrow> atom list"
  and arms_atoms :: "(expr option \<times> pipeline_code list) list \<Rightarrow> atom list" where
  "atoms (LProcessChain sites) = map Inl sites"
| "atoms (LOutput name slot) = [Inr (name, slot)]"
| "atoms (LIf bs els) = branches_atoms bs @ (case els of Some b \<Rightarrow> code_atoms b | None \<Rightarrow> [])"
| "atoms (LSwitch e arms) = arms_atoms arms"
| "atoms _ = []"
| "code_atoms [] = []"
| "code_atoms (s # ss) = atoms s @ code_atoms ss"
| "branches_atoms [] = []"
| "branches_atoms ((_, b) # bs) = code_atoms b @ branches_atoms bs"
| "arms_atoms [] = []"
| "arms_atoms ((_, b) # bs) = code_atoms b @ arms_atoms bs"

definition atom_valid :: "blueprint \<Rightarrow> pipeline_blueprint \<Rightarrow> atom \<Rightarrow> bool" where
  "atom_valid bp pl a = (case a of Inl site \<Rightarrow> validate_site bp pl site = Ok () | Inr (name, slot) \<Rightarrow> nth_opt (bp_timers pl) slot = Some name)"

lemma validate_atoms:
  "validate_pipeline_statement bp pl s = Ok () \<longleftrightarrow> (\<forall>a \<in> set (atoms s). atom_valid bp pl a)"
  "validate_pipeline_code bp pl code = Ok () \<longleftrightarrow> (\<forall>a \<in> set (code_atoms code). atom_valid bp pl a)"
  "validate_pipeline_branches bp pl bs = Ok () \<longleftrightarrow> (\<forall>a \<in> set (branches_atoms bs). atom_valid bp pl a)"
  "validate_pipeline_arms bp pl arms = Ok () \<longleftrightarrow> (\<forall>a \<in> set (arms_atoms arms). atom_valid bp pl a)"
  by (induction bp pl s and bp pl code and bp pl bs and bp pl arms rule:
      validate_pipeline_statement_validate_pipeline_code_validate_pipeline_branches_validate_pipeline_arms.induct)
    (auto simp: atom_valid_def ensure_def split: option.splits)

text \<open>What an atom satisfies before the metric nodes exist, and where they put it.\<close>

definition static :: "(rstr \<times> nat) list \<Rightarrow> nat \<Rightarrow> rstr list \<Rightarrow> atom \<Rightarrow> bool" where
  "static names nb timers a = (case a of
     Inl site \<Rightarrow> site_body site < nb \<and> (site_kind site = KNamed) = (site_body site < length names)
   | Inr (name, slot) \<Rightarrow> nth_opt timers slot = Some name)"

definition placed_at :: "metric_node list \<Rightarrow> atom \<Rightarrow> bool" where
  "placed_at nodes a = (case a of
     Inl site \<Rightarrow> site_node site < length nodes \<and>
       rooted (nodes ! site_node site) None (Known (site_body site)) (site_name site) (''/'' @ site_name site)
   | Inr _ \<Rightarrow> True)"

definition attached :: "process_body_code list \<Rightarrow> (rstr \<times> nat) list \<Rightarrow> rstr list \<Rightarrow> atom set \<Rightarrow> node_state \<Rightarrow> bool" where
  "attached bodies names timers K st \<longleftrightarrow> code_grown bodies [] st \<and> (\<forall>a \<in> K. static names (length bodies) timers a \<and> placed_at (fst st) a)"

lemma placed_at_ext: "placed_at nodes a \<Longrightarrow> placed_at (nodes @ ext) a"
  by (auto simp: placed_at_def nth_append split: sum.splits)

lemma attach_site_ok:
  assumes ranked: "bodies_ranked R bodies" and site: "static names (length bodies) timers (Inl site)"
  shows "okM (attached bodies names timers K) (attach_site bodies site) (\<lambda>site'. attached bodies names timers (K \<union> {Inl site'}))"
proof -
  define m where "m = add_metric_node bodies (length bodies + 2) None (Known (site_body site)) (site_name site) (''/'' @ site_name site) []"
  have body: "site_body site < length bodies" using site by (simp add: static_def)
  have spec: "okM (at_end nodes) m (\<lambda>i st. code_grown bodies nodes st \<and> i = length nodes \<and> i < length (fst st)
      \<and> rooted (fst st ! i) None (Known (site_body site)) (site_name site) (''/'' @ site_name site))" for nodes
    unfolding m_def by (rule add_metric_node_ok[OF ranked]) (use body in auto)
  have add: "okM (attached bodies names timers K) m
      (\<lambda>i. attached bodies names timers (K \<union> {Inl (site\<lparr>site_node := i\<rparr>)}))"
    unfolding okM_def
  proof (intro allI impI)
    fix st assume st: "attached bodies names timers K st"
    then have "at_end (fst st) st" by (cases st) (simp add: attached_def code_grown_def at_end_def)
    then have "okR (fst (m st)) (\<lambda>i. code_grown bodies (fst st) (snd (m st)) \<and> i = length (fst st) \<and> i < length (fst (snd (m st)))
        \<and> rooted (fst (snd (m st)) ! i) None (Known (site_body site)) (site_name site) (''/'' @ site_name site))"
      by (rule okM_D[OF spec])
    then show "okR (fst (m st)) (\<lambda>i. attached bodies names timers (K \<union> {Inl (site\<lparr>site_node := i\<rparr>)}) (snd (m st)))"
    proof (rule okR_mono)
      fix i assume i: "code_grown bodies (fst st) (snd (m st)) \<and> i = length (fst st) \<and> i < length (fst (snd (m st)))
        \<and> rooted (fst (snd (m st)) ! i) None (Known (site_body site)) (site_name site) (''/'' @ site_name site)"
      then obtain ext where ext: "fst (snd (m st)) = fst st @ ext" by (auto simp: code_grown_def)
      have "code_grown bodies [] (snd (m st))" using code_grown_trans[of bodies "[]" st] st i by (auto simp: attached_def)
      moreover have "\<forall>a \<in> K. static names (length bodies) timers a \<and> placed_at (fst (snd (m st))) a"
        unfolding ext using st placed_at_ext by (auto simp: attached_def)
      moreover have "placed_at (fst (snd (m st))) (Inl (site\<lparr>site_node := i\<rparr>))" using i by (auto simp: placed_at_def)
      moreover have "static names (length bodies) timers (Inl (site\<lparr>site_node := i\<rparr>))" using site by (simp add: static_def)
      ultimately show "attached bodies names timers (K \<union> {Inl (site\<lparr>site_node := i\<rparr>)}) (snd (m st))" by (simp add: attached_def)
    qed
  qed
  show ?thesis unfolding attach_site_def m_def[symmetric] by (rule okM_bind[OF add]) (rule okM_ret)
qed

lemma attach_ok:
  assumes ranked: "bodies_ranked R bodies"
  shows "\<forall>a \<in> set (atoms s). static names (length bodies) timers a \<Longrightarrow>
      okM (attached bodies names timers K) (attach_statement bodies s) (\<lambda>s'. attached bodies names timers (K \<union> set (atoms s')))"
    and "\<forall>a \<in> set (code_atoms code). static names (length bodies) timers a \<Longrightarrow>
      okM (attached bodies names timers K) (attach_nodes bodies code) (\<lambda>code'. attached bodies names timers (K \<union> set (code_atoms code')))"
    and "\<forall>a \<in> set (branches_atoms bs). static names (length bodies) timers a \<Longrightarrow>
      okM (attached bodies names timers K) (attach_branches bodies bs) (\<lambda>bs'. attached bodies names timers (K \<union> set (branches_atoms bs')))"
    and "\<forall>a \<in> set (arms_atoms arms). static names (length bodies) timers a \<Longrightarrow>
      okM (attached bodies names timers K) (attach_arms bodies arms) (\<lambda>arms'. attached bodies names timers (K \<union> set (arms_atoms arms')))"
  using ranked
proof (induction bodies s and bodies code and bodies bs and bodies arms arbitrary: K and K and K and K rule:
    attach_statement_attach_nodes_attach_branches_attach_arms.induct)
  case (1 bodies sites)
  have loop: "okM (attached bodies names timers K) (mapM (attach_site bodies) sites)
     (\<lambda>ys st. length ys = length sites \<and> attached bodies names timers (K \<union> (\<Union>(x, y) \<in> set (zip sites ys). {Inl y})) st)"
    by (rule okM_mapM[where I = "attached bodies names timers" and g = "\<lambda>x y. {Inl y}"]) (rule attach_site_ok, use 1 in auto)
  have zip: "(\<Union>(x, y) \<in> set (zip sites ys). {Inl y}) = Inl ` set ys" if "length ys = length sites" for ys :: "process_site list"
    using that by (induction ys sites rule: list_induct2) auto
  show ?case unfolding attach_statement.simps
    by (rule okM_bind[OF loop], rule okM_ret) (auto simp: zip)
next
  case (2 bodies bs els)
  have bs: "okM (attached bodies names timers K) (attach_branches bodies bs) (\<lambda>bs'. attached bodies names timers (K \<union> set (branches_atoms bs')))" for K
    using 2 by simp
  have el: "okM (attached bodies names timers K) (case els of None \<Rightarrow> ret None | Some b \<Rightarrow> bindM (attach_nodes bodies b) (\<lambda>c. ret (Some c)))
      (\<lambda>el. attached bodies names timers (K \<union> set (case el of Some b \<Rightarrow> code_atoms b | None \<Rightarrow> [])))" for K
  proof (cases els)
    case (Some b)
    have "okM (attached bodies names timers K) (attach_nodes bodies b) (\<lambda>code'. attached bodies names timers (K \<union> set (code_atoms code')))"
      using "2.IH"(2)[OF Some] "2.prems" Some by simp
    then show ?thesis using Some by (auto intro!: okM_bind okM_ret)
  qed (simp add: okM_ret)
  show ?case unfolding attach_statement.simps
    by (rule okM_bind[OF bs], rule okM_bind[OF el], rule okM_ret) (simp add: Un_assoc)
qed (auto simp: Un_assoc attached_def placed_at_def intro!: okM_ret okM_bind)

subsection \<open>Compiling a pipeline\<close>

text \<open>Process statements only in inline bodies, pipeline statements only outside, and every named process defined.\<close>

fun pipeline_ready :: "config \<Rightarrow> pipeline_statement \<Rightarrow> bool" and pipeline_item :: "config \<Rightarrow> branch_body \<Rightarrow> bool" where
  "pipeline_ready cfg (SProcessChain els) = list_all (\<lambda>el. case el of
     Named n \<Rightarrow> map_of (cfg_processes cfg) n \<noteq> None | Inline ss \<Rightarrow> list_all process_placed ss) els"
| "pipeline_ready cfg (SIf branches els) = (list_all (\<lambda>(_, body). list_all (pipeline_item cfg) body) branches \<and>
     (case els of Some body \<Rightarrow> list_all (pipeline_item cfg) body | None \<Rightarrow> True))"
| "pipeline_ready cfg (SSwitch e arms) = list_all (\<lambda>(_, body). list_all (pipeline_item cfg) body) arms"
| "pipeline_ready cfg _ = True"
| "pipeline_item cfg (BPipeline s) = pipeline_ready cfg s"
| "pipeline_item cfg (BProcess s) = False"

text \<open>\<open>M\<close> is above the ranks of all named processes: the rank of an inline body.\<close>

definition bodies_good :: "(rstr \<times> nat) list \<Rightarrow> (rstr \<Rightarrow> nat) \<Rightarrow> nat \<Rightarrow> process_body_code list \<Rightarrow> bool" where
  "bodies_good names rk M bodies \<longleftrightarrow> length names \<le> length bodies \<and> length bodies \<le> u32_limit \<and>
     (\<forall>i < length bodies. if i < length names then body_at names rk i (bodies ! i) else good_body names (\<lambda>n. rk n < M) (bodies ! i))"

definition body_rank :: "(rstr \<times> nat) list \<Rightarrow> (rstr \<Rightarrow> nat) \<Rightarrow> nat \<Rightarrow> nat \<Rightarrow> nat" where
  "body_rank names rk M i = (if i < length names then rk (fst (names ! i)) else M)"

lemma bodies_good_ranked:
  assumes wf: "names_wf names" and good: "bodies_good names rk M bodies"
  shows "bodies_ranked (body_rank names rk M) bodies"
proof -
  have "t < length bodies \<and> body_rank names rk M t < body_rank names rk M i"
    if i: "i < length bodies" "e \<in> set (pb_edges (bodies ! i))" "edge_target e = Known t" for i e t
  proof -
    have "good_body names (\<lambda>n. rk n < body_rank names rk M i) (bodies ! i)"
      using good i(1) by (auto simp: bodies_good_def body_at_def body_rank_def split: if_split_asm)
    then have e: "edge_target e = call_target names (edge_name e)" "rk (edge_name e) < body_rank names rk M i"
      using i by (auto simp: good_body_def edges_ok_def)
    then have "map_of names (edge_name e) = Some t" using i(3) by (simp add: call_target_def split: option.split_asm)
    then have t: "t < length names" "fst (names ! t) = edge_name e" using names_nth[OF wf] by auto
    then show ?thesis using e(2) good by (simp add: body_rank_def bodies_good_def)
  qed
  then show ?thesis by (simp add: bodies_ranked_def)
qed

definition pipe_inv :: "(rstr \<times> nat) list \<Rightarrow> (rstr \<Rightarrow> nat) \<Rightarrow> nat \<Rightarrow> process_body_code list \<Rightarrow> atom set \<Rightarrow> pipe_state \<Rightarrow> bool" where
  "pipe_inv names rk M base K st \<longleftrightarrow> (case st of (bodies, timers, slots) \<Rightarrow>
     bodies_good names rk M bodies \<and> (\<exists>ext. bodies = base @ ext) \<and>
     (\<forall>nm s. map_of slots nm = Some s \<longleftrightarrow> s < length timers \<and> timers ! s = nm) \<and>
     (\<forall>a \<in> K. static names (length bodies) timers a))"

lemma static_mono: "static names nb timers a \<Longrightarrow> nb \<le> nb' \<Longrightarrow> static names nb' (timers @ ts) a"
  by (auto simp: static_def nth_append split: sum.splits)

definition names_fit :: "config \<Rightarrow> (rstr \<times> nat) list \<Rightarrow> (rstr \<Rightarrow> nat) \<Rightarrow> nat \<Rightarrow> bool" where
  "names_fit cfg names rk M \<longleftrightarrow> names_wf names \<and> (\<forall>n. map_of names n \<noteq> None \<longleftrightarrow> map_of (cfg_processes cfg) n \<noteq> None) \<and>
     (\<forall>n. map_of names n \<noteq> None \<longrightarrow> rk n < M)"

lemma inline_ok:
  assumes fit: "names_fit cfg names rk M" and placed: "list_all process_placed stmts"
  shows "okM (pipe_inv names rk M base K) (compile_inline names stmts)
    (\<lambda>i. pipe_inv names rk M base (K \<union> {Inl \<lparr>site_name = nm, site_kind = KInline, site_body = i, site_node = nd\<rparr>}))"
  unfolding okM_def
proof (intro allI impI)
  fix st assume st: "pipe_inv names rk M base K st"
  obtain bodies timers slots where s: "st = (bodies, timers, slots)" by (cases st)
  let ?name = "''(inline@'' @ show_nat (length bodies) @ '')''"
  have callees: "\<forall>s \<in> set stmts. \<forall>n \<in> set (collect_process_callees cfg s). rk n < M"
    using process_callees_declared(1) fit unfolding names_fit_def by blast
  have "okR (compile_process_body names ?name stmts) (\<lambda>b. pb_name b = ?name \<and> good_body names (\<lambda>n. rk n < M) b)"
    by (rule compile_body_ok[OF _ placed callees]) (use fit in \<open>auto simp: names_fit_def\<close>)
  then have "okR (bindR (from_index ''process body'' (length bodies)) (\<lambda>i.
       bindR (compile_process_body names (''(inline@'' @ show_nat i @ '')'') stmts) (\<lambda>b. Ok (i, b))))
     (\<lambda>(i, b). i = length bodies \<and> length bodies < u32_limit \<and> good_body names (\<lambda>n. rk n < M) b)"
    by (intro okR_bind[OF okR_index]) (auto intro!: okR_bind)
  then show "okR (fst (compile_inline names stmts st)) (\<lambda>i. pipe_inv names rk M base
      (K \<union> {Inl \<lparr>site_name = nm, site_kind = KInline, site_body = i, site_node = nd\<rparr>}) (snd (compile_inline names stmts st)))"
    using st static_mono[of names "length bodies" timers _ "Suc (length bodies)" "[]"]
    by (auto simp: compile_inline_def s pipe_inv_def bodies_good_def nth_append less_Suc_eq static_def[of _ _ _ "Inl _"] okR_def split: res.split res.split_asm)
qed

lemma named_ok:
  assumes fit: "names_fit cfg names rk M" and i: "map_of names n = Some i"
  shows "okM (pipe_inv names rk M base K) (ret \<lparr>site_name = n, site_kind = KNamed, site_body = i, site_node = nd\<rparr>)
    (\<lambda>site. pipe_inv names rk M base (K \<union> {Inl site}))"
proof (rule okM_ret)
  fix st assume "pipe_inv names rk M base K st"
  moreover have "i < length names" using i names_nth fit by (auto simp: names_fit_def)
  ultimately show "pipe_inv names rk M base (K \<union> {Inl \<lparr>site_name = n, site_kind = KNamed, site_body = i, site_node = nd\<rparr>}) st"
    by (auto simp: pipe_inv_def bodies_good_def static_def split: prod.split)
qed

lemma site_ok:
  assumes fit: "names_fit cfg names rk M"
    and el: "case el of Named n \<Rightarrow> map_of (cfg_processes cfg) n \<noteq> None | Inline ss \<Rightarrow> list_all process_placed ss"
  shows "okM (pipe_inv names rk M base K) (compile_site names el) (\<lambda>site. pipe_inv names rk M base (K \<union> {Inl site}))"
proof (cases el)
  case (Named n)
  then obtain i where i: "map_of names n = Some i" using el fit by (auto simp: names_fit_def)
  show ?thesis using named_ok[OF fit i] Named i by simp
next
  case (Inline ss)
  then show ?thesis using el inline_ok[OF fit, of ss] by (auto intro!: okM_bind okM_ret)
qed

lemma output_slot_ok:
  "okM (pipe_inv names rk M base K) (output_slot name) (\<lambda>slot. pipe_inv names rk M base (K \<union> {Inr (name, slot)}))"
  unfolding okM_def
proof (intro allI impI)
  fix st assume st: "pipe_inv names rk M base K st"
  obtain bodies timers slots where s: "st = (bodies, timers, slots)" by (cases st)
  have slots: "map_of slots nm = Some j \<longleftrightarrow> j < length timers \<and> timers ! j = nm" for nm j using st by (simp add: pipe_inv_def s)
  show "okR (fst (output_slot name st)) (\<lambda>slot. pipe_inv names rk M base (K \<union> {Inr (name, slot)}) (snd (output_slot name st)))"
  proof (cases "map_of slots name")
    case (Some slot)
    then have "static names (length bodies) timers (Inr (name, slot))" using slots by (simp add: static_def)
    moreover have "output_slot name st = (Ok slot, st)" using Some by (simp add: output_slot_def s)
    ultimately show ?thesis using st by (simp add: s pipe_inv_def)
  next
    case None
    have new: "\<forall>j < length timers. timers ! j \<noteq> name" using None slots[of name] by simp
    have "map_of (al_set name (length timers) slots) nm = Some j \<longleftrightarrow> j < length (timers @ [name]) \<and> (timers @ [name]) ! j = nm" for nm j
      using new slots[of nm j] by (auto simp: nth_append less_Suc_eq)
    moreover have "\<forall>a \<in> K. static names (length bodies) (timers @ [name]) a" using st static_mono[OF _ order_refl] by (auto simp: s pipe_inv_def)
    moreover have "static names (length bodies) (timers @ [name]) (Inr (name, length timers))" by (simp add: static_def)
    ultimately show ?thesis using st None
      by (auto simp: output_slot_def s pipe_inv_def from_index_def limit_error_def)
  qed
qed

lemma compile_pipeline_ok:
  assumes fit: "names_fit cfg names rk M"
  shows "pipeline_ready cfg s \<Longrightarrow>
      okM (pipe_inv names rk M base K) (compile_pipeline_statement names s) (\<lambda>c. pipe_inv names rk M base (K \<union> set (atoms c)))"
    and "list_all (pipeline_item cfg) body \<Longrightarrow>
      okM (pipe_inv names rk M base K) (compile_pipeline_branch names body) (\<lambda>cs. pipe_inv names rk M base (K \<union> set (code_atoms cs)))"
    and "list_all (\<lambda>(_, body). list_all (pipeline_item cfg) body) branches \<Longrightarrow>
      okM (pipe_inv names rk M base K) (compile_pipeline_branches names branches) (\<lambda>bs. pipe_inv names rk M base (K \<union> set (branches_atoms bs)))"
    and "list_all (\<lambda>(_, body). list_all (pipeline_item cfg) body) arms \<Longrightarrow>
      okM (pipe_inv names rk M base K) (compile_pipeline_arms names arms) (\<lambda>as. pipe_inv names rk M base (K \<union> set (arms_atoms as)))"
  using fit
proof (induction names s and names body and names branches and names arms arbitrary: K and K and K and K rule:
    compile_pipeline_statement_compile_pipeline_branch_compile_pipeline_branches_compile_pipeline_arms.induct)
  case (2 names chain)
  have loop: "okM (pipe_inv names rk M base K) (mapM (compile_site names) chain)
     (\<lambda>ys st. length ys = length chain \<and> pipe_inv names rk M base (K \<union> (\<Union>(x, y) \<in> set (zip chain ys). {Inl y})) st)"
    by (rule okM_mapM[where I = "pipe_inv names rk M base" and g = "\<lambda>x y. {Inl y}"], rule site_ok)
      (use 2 in \<open>simp, fastforce simp: list_all_iff split: chain_element.split\<close>)
  have zip: "(\<Union>(x, y) \<in> set (zip chain ys). {Inl y}) = Inl ` set ys" if "length ys = length chain" for ys :: "process_site list"
    using that by (induction ys chain rule: list_induct2) auto
  show ?case unfolding compile_pipeline_statement.simps
    by (rule okM_bind[OF loop], rule okM_ret) (auto simp: zip)
next
  case (3 names name)
  then show ?case using output_slot_ok by (auto intro!: okM_bind okM_ret)
next
  case (7 names branches els)
  have bs: "okM (pipe_inv names rk M base K) (compile_pipeline_branches names branches) (\<lambda>bs. pipe_inv names rk M base (K \<union> set (branches_atoms bs)))" for K
    using 7 by simp
  have el: "okM (pipe_inv names rk M base K) (case els of None \<Rightarrow> ret None | Some b \<Rightarrow> bindM (compile_pipeline_branch names b) (\<lambda>c. ret (Some c)))
      (\<lambda>el. pipe_inv names rk M base (K \<union> set (case el of Some b \<Rightarrow> code_atoms b | None \<Rightarrow> [])))" for K
  proof (cases els)
    case (Some b)
    have "okM (pipe_inv names rk M base K) (compile_pipeline_branch names b) (\<lambda>cs. pipe_inv names rk M base (K \<union> set (code_atoms cs)))"
      using "7.IH"(2)[OF Some] "7.prems" Some by simp
    then show ?thesis using Some by (auto intro!: okM_bind okM_ret)
  qed (simp add: okM_ret)
  show ?case unfolding compile_pipeline_statement.simps
    by (rule okM_bind[OF bs], rule okM_bind[OF el], rule okM_ret) (simp add: Un_assoc)
qed (auto simp: Un_assoc intro!: okM_ret okM_bind)

definition pl_fine :: "(rstr \<times> nat) list \<Rightarrow> process_body_code list \<Rightarrow> pipeline_blueprint \<Rightarrow> bool" where
  "pl_fine names bodies pl \<longleftrightarrow> length (bp_nodes pl) < u32_limit \<and> (\<forall>j < length (bp_nodes pl). node_fine bodies (bp_nodes pl) j) \<and>
     (\<forall>a \<in> set (code_atoms (bp_code pl)). static names (length bodies) (bp_timers pl) a \<and> placed_at (bp_nodes pl) a) \<and>
     bp_subscription pl = first_input (bp_code pl)"

lemma pl_fine_ext: "pl_fine names bodies pl \<Longrightarrow> pl_fine names (bodies @ bs) pl"
  using node_fine_ext[of bodies "bp_nodes pl" _ bs "[]"] static_mono[of names "length bodies" "bp_timers pl" _ "length (bodies @ bs)" "[]"]
  by (auto simp: pl_fine_def)

lemma grown_short: "code_grown bodies [] st \<Longrightarrow> length (fst st) < u32_limit"
  by (cases "length (fst st)") (auto simp: code_grown_def node_fine_def u32_limit_def)

lemma compile_pipeline_fine:
  assumes fit: "names_fit cfg names rk M" and good: "bodies_good names rk M bodies" and ready: "list_all (pipeline_ready cfg) (pl_body pl)"
  shows "okM (\<lambda>bs. bs = bodies) (compile_pipeline names pl)
    (\<lambda>p bs. bodies_good names rk M bs \<and> (\<exists>ext. bs = bodies @ ext) \<and> pl_fine names bs p)"
proof -
  let ?m = "mapM (compile_pipeline_statement names) (pl_body pl)"
  have start: "pipe_inv names rk M bodies {} (bodies, [], [])" using good by (simp add: pipe_inv_def)
  have step: "okM (pipe_inv names rk M bodies K) (compile_pipeline_statement names s) (\<lambda>c. pipe_inv names rk M bodies (K \<union> set (atoms c)))"
    if "s \<in> set (pl_body pl)" for s K
    by (rule compile_pipeline_ok(1)[OF fit]) (use ready that in \<open>simp add: list_all_iff\<close>)
  have loop: "okM (pipe_inv names rk M bodies {}) ?m (\<lambda>cs st. length cs = length (pl_body pl) \<and>
      pipe_inv names rk M bodies ({} \<union> (\<Union>(s, c) \<in> set (zip (pl_body pl) cs). set (atoms c))) st)"
    by (rule okM_mapM[where I = "pipe_inv names rk M bodies" and g = "\<lambda>s c. set (atoms c)", OF step])
  have zip: "(\<Union>(s, c) \<in> set (zip ss cs). set (atoms c)) = set (code_atoms cs)" if "length cs = length ss" for cs and ss :: "pipeline_statement list"
    using that by (induction cs ss rule: list_induct2) auto
  have compiled: "okR (fst (?m (bodies, [], []))) (\<lambda>cs. pipe_inv names rk M bodies (set (code_atoms cs)) (snd (?m (bodies, [], []))))"
    by (rule okR_mono[OF okM_D[OF loop start]]) (elim conjE, simp only: Un_empty_left zip)
  have attach: "okR (fst (attach_nodes bs code ([], 1))) (\<lambda>code'. attached bs names timers (set (code_atoms code')) (snd (attach_nodes bs code ([], 1))))"
    if "bodies_good names rk M bs" "\<forall>a \<in> set (code_atoms code). static names (length bs) timers a" for bs timers code
  proof -
    have "names_wf names" using fit by (simp add: names_fit_def)
    then have "okM (attached bs names timers {}) (attach_nodes bs code) (\<lambda>code'. attached bs names timers ({} \<union> set (code_atoms code')))"
      using attach_ok(2)[OF bodies_good_ranked that(2)] that(1) by blast
    moreover have "attached bs names timers {} ([], 1)" by (simp add: attached_def code_grown_def)
    ultimately show ?thesis using okM_D by fastforce
  qed
  show ?thesis unfolding okM_def
  proof (intro allI impI)
    fix bs :: "process_body_code list" assume bs: "bs = bodies"
    obtain r bs1 timers slots where m: "?m (bodies, [], []) = (r, bs1, timers, slots)" by (cases "?m (bodies, [], [])") auto
    show "okR (fst (compile_pipeline names pl bs)) (\<lambda>p. bodies_good names rk M (snd (compile_pipeline names pl bs)) \<and>
        (\<exists>ext. snd (compile_pipeline names pl bs) = bodies @ ext) \<and> pl_fine names (snd (compile_pipeline names pl bs)) p)"
    proof (cases r)
      case (Ok code)
      then have inv: "pipe_inv names rk M bodies (set (code_atoms code)) (bs1, timers, slots)" using compiled m by simp
      then have good1: "bodies_good names rk M bs1" "\<exists>ext. bs1 = bodies @ ext" "\<forall>a \<in> set (code_atoms code). static names (length bs1) timers a"
        by (simp_all add: pipe_inv_def)
      obtain r2 nodes n2 where a: "attach_nodes bs1 code ([], 1) = (r2, nodes, n2)" by (cases "attach_nodes bs1 code ([], 1)") auto
      show ?thesis
      proof (cases r2)
        case (Ok code')
        then have att: "attached bs1 names timers (set (code_atoms code')) (nodes, n2)" using attach[OF good1(1,3)] a by simp
        let ?p = "\<lparr>bp_name = pl_name pl, bp_code = code', bp_flow = collect_pipeline_flow code', bp_subscription = first_input code',
            bp_nodes = nodes, bp_timers = timers\<rparr>"
        have "pl_fine names bs1 ?p" using att grown_short[of bs1 "(nodes, n2)"] by (auto simp: pl_fine_def attached_def code_grown_def)
        then show ?thesis using good1 by (simp add: compile_pipeline_def bs m \<open>r = Ok code\<close> a[unfolded One_nat_def] Ok)
      qed (use attach[OF good1(1,3)] a in \<open>simp_all add: compile_pipeline_def bs m \<open>r = Ok code\<close> a[unfolded One_nat_def]\<close>)
    qed (use compiled m in \<open>simp_all add: compile_pipeline_def bs\<close>)
  qed
qed

definition pipelines_ready :: "config \<Rightarrow> bool" where
  "pipelines_ready cfg \<longleftrightarrow> distinct (map fst (cfg_pipelines cfg)) \<and> list_all (\<lambda>(_, pl). list_all (pipeline_ready cfg) (pl_body pl)) (cfg_pipelines cfg)"

lemma compile_pipelines_fine:
  assumes fit: "names_fit cfg names rk M" and ready: "pipelines_ready cfg"
  shows "distinct (map fst acc @ ns) \<Longrightarrow> set ns \<subseteq> fst ` set (cfg_pipelines cfg) \<Longrightarrow>
    okM (\<lambda>bs. bodies_good names rk M bs \<and> (\<forall>p \<in> snd ` set acc. pl_fine names bs p)) (compile_pipelines cfg names ns acc)
      (\<lambda>acc' bs. bodies_good names rk M bs \<and> (\<forall>p \<in> snd ` set acc'. pl_fine names bs p) \<and> map fst acc' = map fst acc @ ns)"
proof (induction ns arbitrary: acc)
  case Nil
  then show ?case by (auto intro!: okM_ret)
next
  case (Cons n ns)
  obtain pl where pl: "map_of (cfg_pipelines cfg) n = Some pl"
    using Cons.prems(2) by (cases "map_of (cfg_pipelines cfg) n") (auto simp: map_of_eq_None_iff)
  have body: "list_all (pipeline_ready cfg) (pl_body pl)"
    using ready map_of_SomeD[OF pl] by (auto simp: pipelines_ready_def list_all_iff)
  have one: "okM (\<lambda>bs. bodies_good names rk M bs \<and> (\<forall>p \<in> snd ` set acc. pl_fine names bs p)) (compile_pipeline names pl)
      (\<lambda>p bs. bodies_good names rk M bs \<and> (\<forall>p \<in> snd ` set (al_set n p acc). pl_fine names bs p))"
    unfolding okM_def
  proof (intro allI impI)
    fix bs assume bs: "bodies_good names rk M bs \<and> (\<forall>p \<in> snd ` set acc. pl_fine names bs p)"
    have new: "al_set n p acc = acc @ [(n, p)]" for p by (rule al_set_new) (use Cons.prems(1) in auto)
    have "okR (fst (compile_pipeline names pl bs)) (\<lambda>p. bodies_good names rk M (snd (compile_pipeline names pl bs)) \<and>
        (\<exists>ext. snd (compile_pipeline names pl bs) = bs @ ext) \<and> pl_fine names (snd (compile_pipeline names pl bs)) p)"
      using bs by (intro okM_D[OF compile_pipeline_fine[OF fit _ body]]) auto
    then show "okR (fst (compile_pipeline names pl bs)) (\<lambda>p. bodies_good names rk M (snd (compile_pipeline names pl bs)) \<and>
        (\<forall>p \<in> snd ` set (al_set n p acc). pl_fine names (snd (compile_pipeline names pl bs)) p))"
      by (rule okR_mono) (use bs new pl_fine_ext in fastforce)
  qed
  have new: "al_set n p acc = acc @ [(n, p)]" for p by (rule al_set_new) (use Cons.prems(1) in auto)
  show ?case unfolding compile_pipelines.simps pl option.case
    by (rule okM_bind[OF one], rule okM_mono[OF Cons.IH]) (use Cons.prems new in auto)
qed

subsection \<open>The compiled blueprint is sealed\<close>

lemma eachR_enumerate: "(\<And>i. i < length xs \<Longrightarrow> f (i, xs ! i) = Ok ()) \<Longrightarrow> eachR f (enumerate 0 xs) = Ok ()"
  by (auto simp: in_set_enumerate_eq)

lemma good_edges_valid:
  assumes wf: "names_wf names" and body: "good_body names P b" and len: "length names \<le> length (ub_bodies bp)"
  shows "validate_edges bp b = Ok ()"
  unfolding validate_edges_def
proof (rule eachR_enumerate)
  fix i assume i: "i < length (pb_edges b)"
  let ?e = "pb_edges b ! i"
  have b: "distinct (map edge_name (pb_edges b))" "length (pb_edges b) \<le> u32_limit" "edge_target ?e = call_target names (edge_name ?e)"
    using body i by (auto simp: good_body_def edges_ok_def)
  have "case edge_target ?e of Known t \<Rightarrow> t < length (ub_bodies bp) | Unknown \<Rightarrow> True"
    using b(3) names_nth[OF wf] len by (fastforce simp: call_target_def split: option.split process_target.split)
  moreover have "edge_name ?e \<notin> set (map edge_name (take i (pb_edges b)))"
    using b(1) i by (metis distinct_take length_map nth_map take_map id_take_nth_drop distinct_append disjoint_iff list.set_intros(1))
  ultimately show "(case (i, ?e) of (i, e) \<Rightarrow>
      bindR (ensure (case edge_target e of Known t \<Rightarrow> t < length (ub_bodies bp) | Unknown \<Rightarrow> True)
         (''process '' @ quoted (pb_name b) @ '' edge target is out of range'')) (\<lambda>_.
      bindR (from_index ''process edge'' i) (\<lambda>_.
      ensure (edge_name e \<notin> set (map edge_name (take i (pb_edges b))))
         (''process '' @ quoted (pb_name b) @ '' has duplicate edge '' @ quoted (edge_name e))))) = Ok ()"
    using i b(2) by (simp add: ensure_def from_index_def bindR_def)
qed

lemma node_fine_valid:
  assumes "node_fine (ub_bodies bp) (bp_nodes pl) j"
  shows "validate_node bp pl j (bp_nodes pl ! j) = Ok ()"
proof (cases "mn_target (bp_nodes pl ! j)")
  case (Known b)
  then have b: "b < length (ub_bodies bp)" and kids: "list_all2 (child_of (bp_nodes pl) j (mn_path (bp_nodes pl ! j)))
      (pb_edges (ub_bodies bp ! b)) (mn_children (bp_nodes pl ! j))"
    using assms by (auto simp: node_fine_def)
  have "\<forall>(e, cid) \<in> set (zip (pb_edges (ub_bodies bp ! b)) (mn_children (bp_nodes pl ! j))).
      validate_child pl j (bp_nodes pl ! j) e cid = Ok ()"
    using kids by (auto simp: list_all2_iff validate_child_def child_of_def rooted_def get_or_def nth_opt_def ensure_def bindR_def)
  then show ?thesis using assms Known b list_all2_lengthD[OF kids]
    by (auto simp: validate_node_def node_fine_def from_index_def bindR_def get_or_def nth_opt_def ensure_def)
qed (use assms in \<open>auto simp: validate_node_def node_fine_def from_index_def bindR_def ensure_def\<close>)

lemma pl_fine_valid:
  assumes "pl_fine (ub_names bp) (ub_bodies bp) pl" "names_wf (ub_names bp)"
  shows "validate_pipeline bp pl = Ok ()"
proof -
  have snd: "set (map snd (ub_names bp)) = {..<length (ub_names bp)}" using assms(2) by (auto simp: names_wf_def)
  have "validate_site bp pl site = Ok ()" if "static (ub_names bp) (length (ub_bodies bp)) (bp_timers pl) (Inl site)" "placed_at (bp_nodes pl) (Inl site)" for site
    using that snd by (simp add: validate_site_def static_def placed_at_def rooted_def get_or_def nth_opt_def ensure_def bindR_def)
  then have "atom_valid bp pl a" if "a \<in> set (code_atoms (bp_code pl))" for a
    using assms(1) that by (cases a) (auto simp: pl_fine_def atom_valid_def static_def[of _ _ _ "Inr _"])
  then have "validate_pipeline_code bp pl (bp_code pl) = Ok ()" by (simp add: validate_atoms(2))
  moreover have "eachR (\<lambda>(i, node). validate_node bp pl i node) (enumerate 0 (bp_nodes pl)) = Ok ()"
    by (rule eachR_enumerate) (use assms(1) node_fine_valid in \<open>simp add: pl_fine_def\<close>)
  ultimately show ?thesis using assms(1) by (simp add: validate_pipeline_def ensure_def pl_fine_def)
qed

lemma number_order_ok:
  "okR (number_order i ns) (\<lambda>ids. ids = zip ns [i..<i + length ns] \<and> (ns \<noteq> [] \<longrightarrow> i + length ns \<le> u32_limit))"
proof (induction ns arbitrary: i)
  case (Cons n ns)
  show ?case unfolding number_order.simps
  proof (rule okR_bind[OF okR_index])
    fix j assume j: "j = i \<and> i < u32_limit"
    show "okR (bindR (number_order (Suc i) ns) (\<lambda>rest. Ok ((n, j) # rest)))
        (\<lambda>ids. ids = zip (n # ns) [i..<i + length (n # ns)] \<and> (n # ns \<noteq> [] \<longrightarrow> i + length (n # ns) \<le> u32_limit))"
    proof (rule okR_bind[OF Cons.IH])
      fix rest assume "rest = zip ns [Suc i..<Suc i + length ns] \<and> (ns \<noteq> [] \<longrightarrow> Suc i + length ns \<le> u32_limit)"
      moreover have "[i..<i + length (n # ns)] = i # [Suc i..<Suc i + length ns]" by (simp add: upt_conv_Cons del: upt_Suc)
      ultimately show "okR (Ok ((n, j) # rest)) (\<lambda>ids. ids = zip (n # ns) [i..<i + length (n # ns)] \<and> (n # ns \<noteq> [] \<longrightarrow> i + length (n # ns) \<le> u32_limit))"
        using j by (cases "ns = []") simp_all
    qed
  qed
qed simp

lemma good_blueprint_seals:
  assumes wf: "names_wf (ub_names bp)" and good: "bodies_good (ub_names bp) rk M (ub_bodies bp)"
    and pls: "\<forall>p \<in> snd ` set (ub_pipelines bp). pl_fine (ub_names bp) (ub_bodies bp) p"
    and order: "ub_order bp = map fst (ub_pipelines bp)" "distinct (ub_order bp)" "ub_ids bp = zip (ub_order bp) [0..<length (ub_order bp)]"
      "length (ub_order bp) \<le> u32_limit"
  shows "seal bp = Ok bp"
proof -
  have body: "\<exists>P. good_body (ub_names bp) P b" if "b \<in> set (ub_bodies bp)" for b
    using that good by (auto simp: bodies_good_def body_at_def in_set_conv_nth split: if_split_asm)
  have len: "length (ub_names bp) \<le> length (ub_bodies bp)" using good by (simp add: bodies_good_def)
  have edges: "validate_edges bp b = Ok () \<and> validate_process_code b (pb_code b) = Ok ()" if "b \<in> set (ub_bodies bp)" for b
    using body[OF that] good_edges_valid[OF wf _ len] by (auto simp: validate_code_iff(2) good_body_def)
  have names: "bindR (get_or (ub_bodies bp) i (''process body id for '' @ quoted n @ '' is out of range''))
         (\<lambda>b. ensure (pb_name b = n) (''process body identity mismatch for '' @ quoted n)) = Ok ()" if "(n, i) \<in> set (ub_names bp)" for n i
  proof -
    have i: "i < length (ub_names bp)" "fst (ub_names bp ! i) = n" using that names_nth[OF wf] wf by (auto simp: names_wf_def)
    have "body_at (ub_names bp) rk i (ub_bodies bp ! i)" using good i(1) less_le_trans[OF i(1) len] unfolding bodies_good_def by presburger
    then have "pb_name (ub_bodies bp ! i) = n" using i by (simp add: body_at_def)
    then show ?thesis using i len by (simp add: get_or_def nth_opt_def ensure_def bindR_def)
  qed
  have ranked: "bodies_ranked (body_rank (ub_names bp) rk M) (ub_bodies bp)" by (rule bodies_good_ranked[OF wf good])
  have calls: "t < length (ub_bodies bp) \<and> body_rank (ub_names bp) rk M t < body_rank (ub_names bp) rk M i" if "t \<in> body_calls bp i" for i t
    using ranked that unfolding bodies_ranked_def body_calls_def by auto
  have "validate_process_cycles bp = Ok ()"
  proof (rule visit_all_accepts)
    show "edges_in_range bp" using calls by (auto simp: edges_in_range_def)
    show "acyclic (call_graph bp)" by (rule rank_acyclic[where rk = "body_rank (ub_names bp) rk M"]) (use calls in blast)
  qed (use good in \<open>simp add: bodies_good_def\<close>)
  then have identity: "validate_process_identity_and_edges bp = Ok ()"
    using names edges by (auto simp: validate_process_identity_and_edges_def)
  have pipelines: "eachR (\<lambda>(_, pl). validate_pipeline bp pl) (ub_pipelines bp) = Ok ()"
    using pls pl_fine_valid[OF _ wf] by force
  have "eachR (\<lambda>(i, name). bindR (from_index ''pipeline'' i) (\<lambda>expected.
              ensure (map_of (ub_ids bp) name = Some expected \<and> map_of (ub_pipelines bp) name \<noteq> None)
                (''pipeline identity table mismatch for '' @ quoted name))) (enumerate 0 (ub_order bp)) = Ok ()"
  proof (rule eachR_enumerate)
    fix i assume i: "i < length (ub_order bp)"
    have "map_of (ub_ids bp) (ub_order bp ! i) = Some i"
      unfolding order(3) using i order(2) by (simp add: map_of_zip_nth)
    moreover have "map_of (ub_pipelines bp) (ub_order bp ! i) \<noteq> None"
      using i order(1) nth_mem[OF i] by (simp add: map_of_eq_None_iff)
    ultimately show "(case (i, ub_order bp ! i) of (i, name) \<Rightarrow> bindR (from_index ''pipeline'' i) (\<lambda>expected.
              ensure (map_of (ub_ids bp) name = Some expected \<and> map_of (ub_pipelines bp) name \<noteq> None)
                (''pipeline identity table mismatch for '' @ quoted name))) = Ok ()"
      using i order(4) by (simp add: from_index_def ensure_def bindR_def)
  qed
  then show ?thesis using identity pipelines order by (simp add: seal_def ensure_def)
qed

lemma blueprint_compiles:
  assumes placed: "processes_placed cfg" and ready: "pipelines_ready cfg" and ranked: "processes_ranked cfg rk"
  shows "okR (compile_runtime_blueprint cfg) (\<lambda>bp. seal bp = Ok bp)"
proof -
  have names: "okR (compiler_new cfg) (\<lambda>names. names_wf names \<and> map fst names = sort (map fst (cfg_processes cfg)))"
    unfolding compiler_new_def
    by (rule okR_mono[OF number_names_ok]) (use placed in \<open>simp_all add: names_wf_def processes_placed_def\<close>)
  have "okR (blueprint_compile cfg) (\<lambda>bp. seal bp = Ok bp)"
    unfolding blueprint_compile_def
  proof (rule okR_bind[OF names])
    fix names assume n: "names_wf names \<and> map fst names = sort (map fst (cfg_processes cfg))"
    define M where "M = Suc (sum_list (map (\<lambda>(n, _). rk n) names))"
    have "set (map fst names) = set (map fst (cfg_processes cfg))" using n by simp
    then have "fst ` set names = fst ` set (cfg_processes cfg)" by simp
    then have keys: "map_of names k \<noteq> None \<longleftrightarrow> map_of (cfg_processes cfg) k \<noteq> None" for k unfolding map_of_eq_None_iff by simp
    have "rk k < M" if k: "map_of names k \<noteq> None" for k
    proof -
      obtain i where "map_of names k = Some i" using k by blast
      then have "(\<lambda>(n, _). rk n) (k, i) \<in> (\<lambda>(n, _). rk n) ` set names" by (intro imageI map_of_SomeD)
      then have "rk k \<le> sum_list (map (\<lambda>(n, _). rk n) names)" by (intro member_le_sum_list) simp_all
      then show ?thesis by (simp add: M_def)
    qed
    then have fit: "names_fit cfg names rk M" using n keys by (simp add: names_fit_def)
    have "okR (compile_named cfg names names []) (\<lambda>bs. length bs = length names \<and> (\<forall>i < length bs. body_at names rk i (bs ! i)))"
      by (rule compile_named_ok[OF _ keys placed ranked]) (use n in simp_all)
    then have named: "okR (compile_named_processes cfg names) (bodies_good names rk M)"
      unfolding compile_named_processes_def by (rule okR_mono) (use n in \<open>simp add: bodies_good_def names_wf_def\<close>)
    show "okR (bindR (compile_named_processes cfg names) (\<lambda>named.
        case compile_pipelines cfg names (sort (map fst (cfg_pipelines cfg))) [] named of
          (Ok pipelines, bodies) \<Rightarrow> bindR (number_order 0 (map fst pipelines)) (\<lambda>ids.
            Ok \<lparr>ub_functions = cfg_functions cfg, ub_bodies = bodies, ub_names = names,
                ub_pipelines = pipelines, ub_ids = ids, ub_order = map fst pipelines\<rparr>)
        | (Err m, _) \<Rightarrow> Err m | (Crash, _) \<Rightarrow> Crash)) (\<lambda>bp. seal bp = Ok bp)"
    proof (rule okR_bind[OF named])
      fix named assume good: "bodies_good names rk M named"
      let ?m = "compile_pipelines cfg names (sort (map fst (cfg_pipelines cfg))) []"
      have sorted: "distinct (map fst ([] :: (rstr \<times> pipeline_blueprint) list) @ sort (map fst (cfg_pipelines cfg)))" "set (sort (map fst (cfg_pipelines cfg))) \<subseteq> fst ` set (cfg_pipelines cfg)"
        using ready by (simp_all add: pipelines_ready_def)
      have "okR (fst (?m named)) (\<lambda>acc. bodies_good names rk M (snd (?m named)) \<and> (\<forall>p \<in> snd ` set acc. pl_fine names (snd (?m named)) p)
          \<and> map fst acc = map fst ([] :: (rstr \<times> pipeline_blueprint) list) @ sort (map fst (cfg_pipelines cfg)))"
        by (rule okM_D[OF compile_pipelines_fine[OF fit ready sorted]]) (use good in simp)
      moreover obtain r bodies where m: "?m named = (r, bodies)" by (cases "?m named")
      ultimately have r: "okR r (\<lambda>acc. bodies_good names rk M bodies \<and> (\<forall>p \<in> snd ` set acc. pl_fine names bodies p)
          \<and> map fst acc = sort (map fst (cfg_pipelines cfg)))" by simp
      show "okR (case ?m named of
          (Ok pipelines, bodies) \<Rightarrow> bindR (number_order 0 (map fst pipelines)) (\<lambda>ids.
            Ok \<lparr>ub_functions = cfg_functions cfg, ub_bodies = bodies, ub_names = names,
                ub_pipelines = pipelines, ub_ids = ids, ub_order = map fst pipelines\<rparr>)
        | (Err m, _) \<Rightarrow> Err m | (Crash, _) \<Rightarrow> Crash) (\<lambda>bp. seal bp = Ok bp)"
      proof (cases r)
        case (Ok acc)
        let ?bp = "\<lambda>ids. \<lparr>ub_functions = cfg_functions cfg, ub_bodies = bodies, ub_names = names,
                ub_pipelines = acc, ub_ids = ids, ub_order = map fst acc\<rparr>"
        have "seal (?bp ids) = Ok (?bp ids)" if "ids = zip (map fst acc) [0..<0 + length (map fst acc)] \<and> (map fst acc \<noteq> [] \<longrightarrow> 0 + length (map fst acc) \<le> u32_limit)" for ids
        proof -
          have acc: "bodies_good names rk M bodies" "\<forall>p \<in> snd ` set acc. pl_fine names bodies p" "distinct (map fst acc)"
            using r Ok sorted(1) by simp_all
          have len: "length (map fst acc) \<le> u32_limit" using that by (cases acc) simp_all
          have ids: "ids = zip (map fst acc) [0..<length (map fst acc)]" using that by simp
          have "names_wf names" using n by blast
          then show ?thesis
            by (intro good_blueprint_seals[where rk = rk and M = M], simp_all only: blueprint.simps acc(1,3) len ids) (rule acc(2))
        qed
        then show ?thesis using Ok m by (auto intro!: okR_bind[OF number_order_ok])
      qed (use r m in simp_all)
    qed
  qed
  then show ?thesis unfolding compile_runtime_blueprint_def by (rule okR_bind) simp
qed

end
