(* ===== verification/Config_Facts.thy ===== *)
theory Config_Facts
  imports ConfigCheck Compile_Facts
begin

section \<open>What the checks of a configuration guarantee\<close>

text \<open>
  From the parsed configuration to the sealed blueprint: definitions are found by their own names, references resolve, the peers of
  LTP listeners are told apart by their keys, and a configuration that passes the checks compiles.
\<close>

subsection \<open>Definitions by name\<close>

definition keyed_by :: "('a \<Rightarrow> rstr) \<Rightarrow> ('a \<Rightarrow> bool) \<Rightarrow> (rstr \<times> 'a) list \<Rightarrow> bool" where
  "keyed_by f P ds \<longleftrightarrow> distinct (map fst ds) \<and> list_all (\<lambda>(n, d). f d = n \<and> P d) ds"

lemma insert_new_keyed: "insert_new what (f d) d ds = Ok ds' \<Longrightarrow> keyed_by f P ds \<Longrightarrow> P d \<Longrightarrow> keyed_by f P ds'"
  by (auto simp: insert_new_def keyed_by_def split: if_split_asm)

text \<open>What the grammar gives: statements where they belong.\<close>

fun pipeline_placed :: "pipeline_statement \<Rightarrow> bool" and pipeline_placed_item :: "branch_body \<Rightarrow> bool" where
  "pipeline_placed (SProcessChain els) = list_all (\<lambda>el. case el of Named n \<Rightarrow> True | Inline ss \<Rightarrow> list_all process_placed ss) els"
| "pipeline_placed (SIf branches els) = (list_all (\<lambda>(_, body). list_all pipeline_placed_item body) branches \<and>
     (case els of Some body \<Rightarrow> list_all pipeline_placed_item body | None \<Rightarrow> True))"
| "pipeline_placed (SSwitch e arms) = list_all (\<lambda>(_, body). list_all pipeline_placed_item body) arms"
| "pipeline_placed _ = True"
| "pipeline_placed_item (BPipeline s) = pipeline_placed s"
| "pipeline_placed_item (BProcess s) = False"

definition definition_placed :: "definition_item \<Rightarrow> bool" where
  "definition_placed d = (case d of DProcess pd \<Rightarrow> list_all process_placed (pd_body pd)
     | DPipeline pl \<Rightarrow> list_all pipeline_placed (pl_body pl) | _ \<Rightarrow> True)"

definition config_keyed :: "compiled_config \<Rightarrow> bool" where
  "config_keyed c \<longleftrightarrow> keyed_by md_name (\<lambda>_. True) (cc_inputs c) \<and> keyed_by md_name (\<lambda>_. True) (cc_outputs c) \<and>
     keyed_by pd_name (\<lambda>pd. list_all process_placed (pd_body pd)) (cfg_processes (cc_config c)) \<and>
     keyed_by pl_name (\<lambda>pl. list_all pipeline_placed (pl_body pl)) (cfg_pipelines (cc_config c)) \<and>
     keyed_by fd_name (\<lambda>_. True) (cfg_functions (cc_config c))"

lemma add_definition_keyed: "add_definition d c = Ok c' \<Longrightarrow> config_keyed c \<Longrightarrow> definition_placed d \<Longrightarrow> config_keyed c'"
  by (cases d) (auto simp: config_keyed_def definition_placed_def intro: insert_new_keyed[where f = md_name] insert_new_keyed[where f = pd_name]
      insert_new_keyed[where f = pl_name] insert_new_keyed[where f = fd_name])

lemma add_definitions_keyed: "add_definitions ds c = Ok c' \<Longrightarrow> config_keyed c \<Longrightarrow> list_all definition_placed ds \<Longrightarrow> config_keyed c'"
  by (induction ds arbitrary: c) (auto intro: add_definition_keyed)

lemma from_config_keyed:
  assumes "from_config rc = Ok c" "list_all definition_placed (rc_definitions rc)"
  shows "config_keyed c"
proof -
  obtain c0 where c0: "add_definitions (rc_definitions rc) \<lparr>cc_node_id = rc_node_id rc, cc_node_key = rc_node_key rc, cc_inputs = [], cc_outputs = [],
        cc_config = \<lparr>cfg_processes = [], cfg_pipelines = [], cfg_functions = []\<rparr>, cc_globals = []\<rparr> = Ok c0"
    and c: "c = c0\<lparr>cc_globals := fold (\<lambda>(n, ps). al_set n ps) (rc_globals rc) []\<rparr>"
    using assms(1) by (auto simp: from_config_def)
  have "config_keyed c0" by (rule add_definitions_keyed[OF c0 _ assms(2)]) (simp add: config_keyed_def keyed_by_def)
  then show ?thesis by (simp add: c config_keyed_def)
qed

subsection \<open>References\<close>

lemma validated_ready:
  "pipeline_placed s \<Longrightarrow> validate_pipeline_stmt c pn s = Ok () \<Longrightarrow> pipeline_ready (cc_config c) s"
  "pipeline_placed_item i \<Longrightarrow> validate_branch_item c pn i = Ok () \<Longrightarrow> pipeline_item (cc_config c) i"
proof (induction c pn s and c pn i rule: validate_pipeline_stmt_validate_branch_item.induct)
  case (3 c pn els)
  then show ?case
    by (auto simp: list_all_iff validate_element_def ensure_def split: chain_element.splits if_splits)
next
  case (4 c pn branches els)
  then show ?case by (cases els) (fastforce simp: list_all_iff)+
next
  case (5 c pn e arms)
  then show ?case by (fastforce simp: list_all_iff)
qed auto

subsection \<open>Levels of diagnostics\<close>

definition errors_only :: "walk_state \<Rightarrow> bool" where
  "errors_only st \<longleftrightarrow> (\<forall>d \<in> set (ws_diags st). dg_level d = level.LError)"

lemma report_errors: "errors_only st \<Longrightarrow> errors_only (report_cycle what stack c st)"
  by (auto simp: errors_only_def report_cycle_def Let_def cycle_message_def with_help_def error_kind_def)

lemma walk_errors:
  assumes "\<And>c st st'. go c st = Some st' \<Longrightarrow> errors_only st \<Longrightarrow> errors_only st'"
  shows "walk_callees what go stack cs st = Some st' \<Longrightarrow> errors_only st \<Longrightarrow> errors_only st'"
  by (induction cs arbitrary: st) (auto simp: report_errors split: if_split_asm option.split_asm intro: assms)

lemma dfs_errors: "dfs_cycle what adj n stack node st = Some st' \<Longrightarrow> errors_only st \<Longrightarrow> errors_only st'"
proof (induction n arbitrary: stack node st st')
  case (Suc n)
  then obtain st1 where w: "walk_callees what (dfs_cycle what adj n (stack @ [node])) (stack @ [node])
         (case map_of adj node of Some cs \<Rightarrow> cs | None \<Rightarrow> []) (set_color node 1 st) = Some st1" and st': "st' = set_color node 2 st1"
    by auto
  have "errors_only (set_color node 1 st)" using Suc.prems(2) by (simp add: errors_only_def set_color_def)
  then have "errors_only st1" using walk_errors[of "dfs_cycle what adj n (stack @ [node])", OF _ w] Suc.IH by blast
  then show ?case by (simp add: st' errors_only_def set_color_def)
qed simp

lemma dfs_all_errors: "dfs_all what adj ns st = Some st' \<Longrightarrow> errors_only st \<Longrightarrow> errors_only st'"
  by (induction ns arbitrary: st) (auto split: if_split_asm option.split_asm intro: dfs_errors simp del: dfs_cycle.simps)

lemma process_cycle_errors: "check_process_cycles cfg = Some ds \<Longrightarrow> d \<in> set ds \<Longrightarrow> dg_level d = level.LError"
  using dfs_all_errors[of "''process''" "process_graph cfg" _ "walk_start (process_graph cfg)"]
  by (auto simp: check_process_cycles_def Let_def errors_only_def walk_start_def)

subsection \<open>A checked configuration compiles\<close>

lemma each_ok: "eachR f xs = Ok () \<Longrightarrow> x \<in> set xs \<Longrightarrow> f x = Ok ()"
  by (induction xs) auto

lemma validated_pipelines:
  assumes "config_keyed c" "validate_config b64 sn debug c = Ok ()"
  shows "pipelines_ready (cc_config c)"
proof -
  have each: "eachR (\<lambda>(n, pl). eachR (validate_pipeline_stmt c n) (pl_body pl)) (cfg_pipelines (cc_config c)) = Ok ()"
    using assms(2) by (auto simp: validate_config_def ensure_def split: if_split_asm)
  have "pipeline_ready (cc_config c) s" if "(n, pl) \<in> set (cfg_pipelines (cc_config c))" "s \<in> set (pl_body pl)" for n pl s
  proof (rule validated_ready(1))
    show "pipeline_placed s" using assms(1) that by (auto simp: config_keyed_def keyed_by_def list_all_iff)
    show "validate_pipeline_stmt c n s = Ok ()" using each_ok[OF each that(1)] that(2) by (auto dest: each_ok)
  qed
  then show ?thesis using assms(1) by (auto simp: pipelines_ready_def config_keyed_def keyed_by_def list_all_iff)
qed

lemma config_ranked:
  assumes "analyze_config lib others debug ins outs c = Some ds" "\<forall>d \<in> set ds. dg_level d \<noteq> level.LError"
  shows "\<exists>rk. processes_ranked (cc_config c) rk"
proof -
  obtain ps where ps: "check_process_cycles (cc_config c) = Some ps" using process_cycles[of "cc_config c"] by blast
  then have "set ps \<subseteq> set ds" using assms(1) by (auto simp: analyze_config_def Let_def split: option.split_asm)
  have "ps = []"
  proof (rule ccontr)
    assume "ps \<noteq> []"
    then have "hd ps \<in> set ps" by simp
    then show False using process_cycle_errors[OF ps] \<open>set ps \<subseteq> set ds\<close> assms(2) by blast
  qed
  then show ?thesis using process_cycles[of "cc_config c"] ps by simp
qed

text \<open>C11: a configuration that its parser, its cross-reference validation and \<open>--check\<close> accept without an error compiles to a
  blueprint that passes every check of the validator that seals it, unless it is so large that a counter of the intermediate
  representation overflows: compilation never meets a name that is missing, a call of a process compiled later or a panic, and
  \<open>seal\<close> never rejects what the compiler made.
\<close>

theorem checked_config_compiles:
  assumes "list_all definition_placed (rc_definitions rc)" "from_config rc = Ok c" "validate_config b64 sn debug c = Ok ()"
    and "analyze_config lib others debug ins outs c = Some ds" "\<forall>d \<in> set ds. dg_level d \<noteq> level.LError"
  shows "(\<exists>bp. compile_runtime_blueprint (cc_config c) = Ok bp \<and> seal bp = Ok bp) \<or>
    (\<exists>m. compile_runtime_blueprint (cc_config c) = Err m \<and> limit_error m)"
proof -
  have keyed: "config_keyed c" by (rule from_config_keyed[OF assms(2,1)])
  then have "processes_placed (cc_config c)" by (auto simp: processes_placed_def config_keyed_def keyed_by_def list_all_iff)
  moreover obtain rk where "processes_ranked (cc_config c) rk" using config_ranked[OF assms(4,5)] by blast
  ultimately have "okR (compile_runtime_blueprint (cc_config c)) (\<lambda>bp. seal bp = Ok bp)"
    by (intro blueprint_compiles validated_pipelines[OF keyed assms(3)])
  then show ?thesis by (cases "compile_runtime_blueprint (cc_config c)") auto
qed

definition small_config :: parsed_config where
  "small_config = \<lparr>rc_node_id = None, rc_node_key = None, rc_definitions =
     [DInput \<lparr>md_name = ''i'', md_type = ''tail'', md_props = [KeyValue ''path'' False (StringLit ''/var/log/messages'')]\<rparr>, DOutput \<lparr>md_name = ''o'', md_type = ''stdout'', md_props = []\<rparr>,
      DProcess \<lparr>pd_name = ''p'', pd_body = [PDrop]\<rparr>,
      DPipeline \<lparr>pl_name = ''q'', pl_body = [SInput [''i''], SProcessChain [Named ''p''], SOutput ''o'']\<rparr>], rc_globals = []\<rparr>"

definition small_compiled :: compiled_config where
  "small_compiled = \<lparr>cc_node_id = None, cc_node_key = None, cc_inputs = [(''i'', \<lparr>md_name = ''i'', md_type = ''tail'', md_props = [KeyValue ''path'' False (StringLit ''/var/log/messages'')]\<rparr>)],
     cc_outputs = [(''o'', \<lparr>md_name = ''o'', md_type = ''stdout'', md_props = []\<rparr>)],
     cc_config = \<lparr>cfg_processes = [(''p'', \<lparr>pd_name = ''p'', pd_body = [PDrop]\<rparr>)],
       cfg_pipelines = [(''q'', \<lparr>pl_name = ''q'', pl_body = [SInput [''i''], SProcessChain [Named ''p''], SOutput ''o'']\<rparr>)], cfg_functions = []\<rparr>,
     cc_globals = []\<rparr>"

lemma small_from_config: "from_config small_config = Ok small_compiled"
  by (simp add: small_config_def small_compiled_def from_config_def insert_new_def)

lemma small_validates: "validate_config (\<lambda>_. None) (\<lambda>_. True) (\<lambda>_. []) small_compiled = Ok ()"
  by (simp add: small_compiled_def validate_config_def ltp_modules_def ensure_def validate_listener_groups_def validate_element_def)

lemma small_parts:
  "check_function_cycles (cc_config small_compiled) = Some []" "check_process_cycles (cc_config small_compiled) = Some []"
  "analyze_modules [(''tail'', [Spec ''path'' True False None KString])] [(''stdout'', [])] (map snd (cc_inputs small_compiled))
     (map snd (cc_outputs small_compiled)) = []"
  by code_simp+

lemma small_rest:
  "cfg_functions (cc_config small_compiled) = []" "analyze_globals (cc_globals small_compiled) = []"
  "analyze_journal small_compiled = []" "analyze_recovery debug small_compiled = []" "analyze_verify small_compiled = []"
  by (simp_all add: small_compiled_def analyze_globals_def analyze_journal_def analyze_recovery_def analyze_verify_def control_string_def
      recovery_affected_def recovery_reason_def output_types_with_shutdown_drain_def output_types_with_verify_toggle_def)

lemma small_pipeline:
  "analyze_pipeline \<lparr>an_parsers = ps, an_config = cc_config small_compiled, an_outputs = cc_outputs small_compiled, an_schemas = [(''stdout'', [])]\<rparr> reg
     \<lparr>pl_name = ''q'', pl_body = [SInput [''i''], SProcessChain [Named ''p''], SOutput ''o'']\<rparr> = []"
  by (simp add: analyze_pipeline_def small_compiled_def analyze_chain_element_def analyze_process_body_def in_scope_def analyze_output_def)

lemma small_analyzed:
  "analyze_config lib others debug [(''tail'', [Spec ''path'' True False None KString])] [(''stdout'', [])] small_compiled = Some []"
  using small_pipeline
  by (simp add: analyze_config_def Let_def check_all_functions_def small_parts small_rest) (simp add: small_compiled_def)

theorem checked_config_compiles_witness:
  "(\<exists>bp. compile_runtime_blueprint (cc_config small_compiled) = Ok bp \<and> seal bp = Ok bp) \<or>
    (\<exists>m. compile_runtime_blueprint (cc_config small_compiled) = Err m \<and> limit_error m)"
  by (rule checked_config_compiles[OF _ small_from_config small_validates small_analyzed])
    (simp_all add: small_config_def definition_placed_def)

subsection \<open>Listeners\<close>

lemma sorted_wrt_insort: "symp R \<Longrightarrow> sorted_wrt R (insort_key f x xs) \<longleftrightarrow> (\<forall>y \<in> set xs. R x y) \<and> sorted_wrt R xs"
  by (induction xs) (auto simp: set_insort_key dest: sympD)

lemma sorted_wrt_sort: "symp R \<Longrightarrow> sorted_wrt R (sort_key f xs) \<longleftrightarrow> sorted_wrt R xs"
  by (induction xs) (auto simp: sorted_wrt_insort)

lemma sorted_wrt_groups:
  "(\<And>b. sorted_wrt R (List.filter (\<lambda>x. f x = b) xs)) \<Longrightarrow> sorted_wrt (\<lambda>x y. f x = f y \<longrightarrow> R x y) xs"
proof (induction xs)
  case (Cons x xs)
  have "sorted_wrt R (List.filter (\<lambda>y. f y = b) xs)" for b using Cons.prems[of b] by (auto split: if_split_asm)
  then show ?case using Cons.IH Cons.prems[of "f x"] by auto
qed simp

definition peer_keys :: "listener_spec \<Rightarrow> bytes set" where "peer_keys l = fst ` set (ls_peers l)"
definition peer_nodes :: "listener_spec \<Rightarrow> rstr set" where "peer_nodes l = snd ` set (ls_peers l)"

definition apart :: "listener_spec \<Rightarrow> listener_spec \<Rightarrow> bool" where
  "apart l r \<longleftrightarrow> ls_max l = ls_max r \<and> peer_keys l \<inter> peer_keys r = {} \<and> peer_nodes l \<inter> peer_nodes r = {}"

lemma apart_sym: "apart l r \<longleftrightarrow> apart r l"
  by (auto simp: apart_def)

lemma check_peers_ok:
  "check_peers bind m ps ids pks = Ok (ids', pks') \<Longrightarrow>
     fst ` set ids' = snd ` set ps \<union> fst ` set ids \<and> snd ` set ps \<inter> fst ` set ids = {} \<and>
     fst ` set pks' = fst ` set ps \<union> fst ` set pks \<and> fst ` set ps \<inter> fst ` set pks = {}"
  by (induction bind m ps ids pks rule: check_peers.induct)
    (auto split: option.split_asm simp: map_of_eq_None_iff)

lemma check_members_ok:
  "check_members bind leader mc ms ids pks = Ok () \<Longrightarrow> sorted_wrt apart ms \<and>
     (\<forall>m \<in> set ms. ls_max m = mc \<and> peer_nodes m \<inter> fst ` set ids = {} \<and> peer_keys m \<inter> fst ` set pks = {})"
proof (induction ms arbitrary: ids pks)
  case (Cons m ms)
  then obtain ids' pks' where c: "ls_max m = mc" "check_peers bind (ls_name m) (ls_peers m) ids pks = Ok (ids', pks')"
    "check_members bind leader mc ms ids' pks' = Ok ()" by (auto split: if_split_asm)
  have seen: "fst ` set ids' = peer_nodes m \<union> fst ` set ids" "peer_nodes m \<inter> fst ` set ids = {}"
    "fst ` set pks' = peer_keys m \<union> fst ` set pks" "peer_keys m \<inter> fst ` set pks = {}"
    using check_peers_ok[OF c(2)] by (simp_all add: peer_nodes_def peer_keys_def)
  have rest: "sorted_wrt apart ms" "\<forall>n \<in> set ms. ls_max n = mc \<and> peer_nodes n \<inter> fst ` set ids' = {} \<and> peer_keys n \<inter> fst ` set pks' = {}"
    using Cons.IH[OF c(3)] by simp_all
  have "apart m n \<and> ls_max n = mc \<and> peer_nodes n \<inter> fst ` set ids = {} \<and> peer_keys n \<inter> fst ` set pks = {}" if "n \<in> set ms" for n
  proof -
    have "ls_max n = mc" "peer_nodes n \<inter> (peer_nodes m \<union> fst ` set ids) = {}" "peer_keys n \<inter> (peer_keys m \<union> fst ` set pks) = {}"
      using rest(2) that unfolding seen(1,3) by simp_all
    then show ?thesis using c(1) unfolding apart_def by blast
  qed
  then show ?case using rest(1) c(1) seen(2,4) by simp
qed simp

lemma overlap_sym: "specs_overlap l r \<longleftrightarrow> specs_overlap r l"
proof -
  have "listener_binds_overlap a b \<longleftrightarrow> listener_binds_overlap b a" for a b
    by (induction a b rule: listener_binds_overlap.induct) auto
  then show ?thesis by (auto simp: specs_overlap_def split: option.split)
qed

lemma overlaps_ok: "check_overlaps ls = Ok () \<Longrightarrow> sorted_wrt (\<lambda>l r. \<not> specs_overlap l r) ls"
  by (induction ls) (auto dest!: each_ok simp: ensure_def split: if_split_asm)

lemma mapR_ok: "mapR f xs = Ok ys \<Longrightarrow> length ys = length xs \<and> (\<forall>i < length xs. f (xs ! i) = Ok (ys ! i))"
  by (induction xs arbitrary: ys) (auto simp: nth_Cons split: nat.split)

text \<open>C24: once the LTP inputs are validated, two of them that listen on one address have the same connection limit and share neither a
  peer's public key nor a node name, so the key presented in a handshake selects one input and one node, and two that listen on
  different addresses do not overlap, the wildcard address included.
\<close>

theorem ltp_peers_unambiguous:
  assumes "validate_listener_groups b64 debug inputs = Ok ()" "i < j" "j < length inputs"
    and "listener_spec_of b64 debug (inputs ! i) = Ok l" "listener_spec_of b64 debug (inputs ! j) = Ok r"
  shows "if ls_bind l = ls_bind r then apart l r else \<not> specs_overlap l r"
proof -
  obtain us where us: "mapR (listener_spec_of b64 debug) inputs = Ok us"
    and groups: "eachR (check_group (sort_key ls_name us)) (sort_dedup (map ls_bind (sort_key ls_name us))) = Ok ()"
    and overlaps: "check_overlaps (sort_key ls_name us) = Ok ()"
    using assms(1) by (auto simp: validate_listener_groups_def Let_def)
  have nth: "l = us ! i" "r = us ! j" "j < length us" using mapR_ok[OF us] assms(2-5) by auto
  have "sorted_wrt apart (List.filter (\<lambda>s. ls_bind s = b) (sort_key ls_name us))" for b
  proof (cases "List.filter (\<lambda>s. ls_bind s = b) (sort_key ls_name us)")
    case (Cons m ms)
    then have "m \<in> set us \<and> ls_bind m = b" by (metis (mono_tags, lifting) list.set_intros(1) mem_Collect_eq set_filter set_sort)
    then have "b \<in> set (sort_dedup (map ls_bind (sort_key ls_name us)))" by auto
    from each_ok[OF groups this] have "check_members b (ls_name m) (ls_max m) (m # ms) [] [] = Ok ()"
      unfolding check_group_def Cons by simp
    then show ?thesis using check_members_ok Cons by metis
  qed simp
  then have "sorted_wrt (\<lambda>l r. ls_bind l = ls_bind r \<longrightarrow> apart l r) (sort_key ls_name us)" by (rule sorted_wrt_groups)
  then have a: "sorted_wrt (\<lambda>l r. ls_bind l = ls_bind r \<longrightarrow> apart l r) us" by (subst (asm) sorted_wrt_sort) (auto intro: sympI simp: apart_sym)
  have o: "sorted_wrt (\<lambda>l r. \<not> specs_overlap l r) us"
    using overlaps_ok[OF overlaps] by (subst (asm) sorted_wrt_sort) (auto intro: sympI simp: overlap_sym)
  show ?thesis using sorted_wrt_nth_less[OF a assms(2) nth(3)] sorted_wrt_nth_less[OF o assms(2) nth(3)] nth by simp
qed

text \<open>Two inputs on the default port, each with one peer; the decoder of Base64 answers with the prefix and 32 times the first character.\<close>

definition toy_b64 :: "string \<Rightarrow> bytes option" where
  "toy_b64 s = (case s of c # _ \<Rightarrow> Some (ed25519_spki_prefix @ replicate 32 c) | [] \<Rightarrow> None)"

definition peer_block :: "rstr \<Rightarrow> string \<Rightarrow> property" where
  "peer_block n k = Block ''peer'' False [KeyValue ''node_id'' False (StringLit n), KeyValue ''pubkey'' False (StringLit k)]"

definition two_listeners :: "(rstr \<times> property list) list" where
  "two_listeners = [(''b'', [peer_block ''east'' ''A'']), (''a'', [peer_block ''west'' ''B''])]"

definition toy_spec :: "rstr \<Rightarrow> rstr \<Rightarrow> char \<Rightarrow> listener_spec" where
  "toy_spec n node c = \<lparr>ls_name = n, ls_bind = ''0.0.0.0:'' @ nat_digits default_ltp_port, ls_max = default_max_connections, ls_peers = [(ed25519_spki_prefix @ replicate 32 c, node)]\<rparr>"

lemma toy_key: "decode_ed25519_spki toy_b64 surface n [c] = Ok (ed25519_spki_prefix @ replicate 32 c)"
proof -
  have "starts_with p (p @ xs)" for p xs :: string by (simp add: starts_with_def)
  then show ?thesis by (simp add: decode_ed25519_spki_def toy_b64_def)
qed

lemma toy_specs:
  "listener_spec_of toy_b64 (\<lambda>_. []) (two_listeners ! 0) = Ok (toy_spec ''b'' ''east'' CHR ''A'')"
  "listener_spec_of toy_b64 (\<lambda>_. []) (two_listeners ! 1) = Ok (toy_spec ''a'' ''west'' CHR ''B'')"
  by (simp_all add: listener_spec_of_def two_listeners_def peer_block_def toy_spec_def get_string_def get_positive_int_def parse_peers_def
      peer_blocks_def required_literal_string_def literal_strings_def toy_key)

lemma toy_validates: "validate_listener_groups toy_b64 (\<lambda>_. []) two_listeners = Ok ()"
proof -
  have "mapR (listener_spec_of toy_b64 (\<lambda>_. [])) two_listeners = Ok [toy_spec ''b'' ''east'' CHR ''A'', toy_spec ''a'' ''west'' CHR ''B'']"
    using toy_specs by (simp add: two_listeners_def)
  moreover have "sort_key ls_name [toy_spec ''b'' ''east'' CHR ''A'', toy_spec ''a'' ''west'' CHR ''B'']
      = [toy_spec ''a'' ''west'' CHR ''B'', toy_spec ''b'' ''east'' CHR ''A'']" by (simp add: toy_spec_def)
  moreover have "check_group [toy_spec ''a'' ''west'' CHR ''B'', toy_spec ''b'' ''east'' CHR ''A''] (''0.0.0.0:'' @ nat_digits default_ltp_port) = Ok ()"
    by (simp add: check_group_def toy_spec_def)
  ultimately show ?thesis
    by (simp add: validate_listener_groups_def sort_dedup_def specs_overlap_def ensure_def) (simp add: toy_spec_def ensure_def)
qed

theorem ltp_peers_unambiguous_witness: "apart (toy_spec ''b'' ''east'' CHR ''A'') (toy_spec ''a'' ''west'' CHR ''B'')"
  using ltp_peers_unambiguous[OF toy_validates _ _ toy_specs] by (simp add: two_listeners_def toy_spec_def)

end
