(* ===== verification/DeadLetter.thy ===== *)
theory DeadLetter
  imports OutputDlq Wal
begin

section \<open>Records of the error log\<close>

text \<open>
  \<open>ErroredEventContext::to_jsonl\<close> of \<open>error_log.rs\<close>: the line written for an event that failed, with the event in it that an operator
  replays. \<open>Map::remove\<close> is \<open>swap_remove\<close> of \<open>EventJson\<close>; \<open>rfc\<close> prints a time. What the \<open>event\<close> of a line is read back as is shown
  here; the replay itself is in \<open>Control\<close>.
\<close>

definition json_remove :: "rstr \<Rightarrow> json \<Rightarrow> json" where
  "json_remove k j = (case j of JObj m \<Rightarrow> JObj (swap_remove k m) | _ \<Rightarrow> j)"

text \<open>The event rebuilt from the snapshot; a process record has the received bytes twice.\<close>

definition errored_event :: "errored_ctx \<Rightarrow> owned_event" where
  "errored_event ctx = (case ctx of
     EProcess _ _ _ _ ev \<Rightarrow>
       from_persisted_parts_with_stamps (pe_key ev) (pe_received_at ev) (pe_source ev) (pe_ingress ev) (pe_ingress ev) (pe_ltp_stamps ev)
   | EOutput _ _ _ _ _ ev \<Rightarrow>
       from_persisted_parts_with_stamps (ov_key ev) (ov_received_at ev) (ov_source ev) (ov_ingress ev) (ov_egress ev) (ov_ltp_stamps ev))"

definition errored_event_json :: "json_codec \<Rightarrow> errored_ctx \<Rightarrow> json" where
  "errored_event_json cx ctx =
     (let j = to_json_value cx (errored_event ctx) in
      case ctx of EProcess _ _ _ _ _ \<Rightarrow> json_remove ''workspace'' (json_remove ''egress'' j)
                | EOutput _ _ _ _ _ _ \<Rightarrow> json_remove ''workspace'' j)"

definition kind_block :: "errored_ctx \<Rightarrow> (rstr \<times> json) list" where
  "kind_block ctx = (case ctx of
     EProcess _ _ site _ _ \<Rightarrow> [(''kind'', JStr ''process''), (''process'', JObj [(''name'', JStr site)])]
   | EOutput _ _ _ _ name _ \<Rightarrow> [(''kind'', JStr ''output''), (''output'', JObj [(''name'', JStr name)])])"

definition errored_record :: "json_codec \<Rightarrow> (int \<Rightarrow> string) \<Rightarrow> errored_ctx \<Rightarrow> json" where
  "errored_record cx rfc ctx =
     JObj ([(''schema_version'', JNum (JPos 3)), (''timestamp'', JStr (rfc (ctx_timestamp ctx))), (''reason'', JStr (ctx_reason ctx)),
            (''pipeline'', JStr (ctx_pipeline ctx))] @ kind_block ctx @ [(''event'', errored_event_json cx ctx)])"

definition to_jsonl :: "json_codec \<Rightarrow> (int \<Rightarrow> string) \<Rightarrow> errored_ctx \<Rightarrow> bytes" where
  "to_jsonl cx rfc ctx = (case jx_to_text cx (errored_record cx rfc ctx) of Some t \<Rightarrow> t | None \<Rightarrow> [])"

subsection \<open>What is in a record\<close>

lemma record_event: "jget ''event'' (errored_record cx rfc ctx) = Some (errored_event_json cx ctx)"
  by (cases ctx) (simp_all add: errored_record_def kind_block_def)

lemma map_of_same_set: "distinct (map fst xs) \<Longrightarrow> distinct (map fst ys) \<Longrightarrow> set xs = set ys \<Longrightarrow> map_of xs = map_of ys"
  by (rule ext) (metis map_of_eq_Some_iff not_None_eq)

lemma map_of_without:
  assumes "k \<notin> fst ` set before" "k \<notin> fst ` set after"
  shows "(map_of (before @ (k, v) # after))(k := None) = map_of (before @ after)"
proof
  fix x
  have "map_of before k = None" "map_of after k = None" using assms by (simp_all add: map_of_eq_None_iff)
  then show "((map_of (before @ (k, v) # after))(k := None)) x = map_of (before @ after) x"
    by (cases "x = k") (simp_all add: map_add_def split: option.split)
qed

lemma map_of_swap_remove:
  assumes "distinct (map fst m)"
  shows "map_of (swap_remove k m) = (map_of m)(k := None)"
proof (cases "List.extract (\<lambda>x. fst x = k) m")
  case None
  then have "k \<notin> fst ` set m" by (auto simp: extract_None_iff)
  then have "map_of m k = None" by (simp add: map_of_eq_None_iff)
  then show ?thesis using None by (auto simp: swap_remove_def)
next
  case (Some r)
  then obtain before j after where r: "r = (before, (k, j), after)" "m = before @ (k, j) # after"
    by (cases r) (auto simp: extract_Some_iff)
  have no: "k \<notin> fst ` set before" "k \<notin> fst ` set after" using assms r by auto
  have "map_of (swap_remove k m) = map_of (before @ after)"
  proof (cases after rule: rev_cases)
    case Nil
    then show ?thesis using Some r by (simp add: swap_remove_def)
  next
    case (snoc xs x)
    have "map_of (before @ x # xs) = map_of (before @ xs @ [x])" by (rule map_of_same_set) (use assms r snoc in auto)
    then show ?thesis using Some r snoc by (simp add: swap_remove_def)
  qed
  then show ?thesis using map_of_without[OF no] r by simp
qed

lemma event_fields_distinct: "distinct (map fst (event_fields cx ev))"
  by (simp add: event_fields_def to_json_value_def to_json_value_with_def split: option.split)

lemma swap_remove_keys:
  assumes "distinct (map fst m)"
  shows "distinct (map fst (swap_remove k m))"
proof (cases "List.extract (\<lambda>x. fst x = k) m")
  case (Some r)
  then obtain before v after where r: "r = (before, v, after)" "m = before @ v # after"
    by (cases r) (auto simp: extract_Some_iff)
  then show ?thesis using assms Some by (cases after rule: rev_cases) (auto simp: swap_remove_def)
qed (simp add: swap_remove_def assms)

lemma jget_remove: "jget x (json_remove k (JObj m)) = (if x = k then None else jget x (JObj m))" if "distinct (map fst m)"
  by (simp add: json_remove_def map_of_swap_remove[OF that])

lemma output_fields: "has_fields cx (errored_event (EOutput t p s r n ev)) (errored_event_json cx (EOutput t p s r n ev))"
proof -
  have "jget ''workspace'' (to_json_value cx (errored_event (EOutput t p s r n ev))) = None"
    by (simp add: get_fields errored_event_def from_persisted_parts_with_stamps_def)
  then show ?thesis by (auto simp: has_fields_def errored_event_json_def to_json_fields jget_remove event_fields_distinct simp del: jget.simps)
qed

text \<open>Without egress the event is read with its ingress for it.\<close>

lemma from_json_no_egress:
  assumes "\<And>k. k \<noteq> ''egress'' \<Longrightarrow> jget k j = jget k j'" "jget ''egress'' j = None"
    and "Option.bind (jget ''egress'' j') (json_to_bytes cx) = Option.bind (jget ''ingress'' j') (json_to_bytes cx)"
  shows "from_json_value cx fresh j = from_json_value cx fresh j'"
  using assms by (simp add: from_json_value_def parse_key_def parse_source_def parse_stamps_def parse_workspace_def Let_def cong: option.case_cong split: option.split)

lemma dead_letter_event:
  assumes "b64_ok cx" "persistable cx (errored_event ctx)"
  shows "from_json_value cx fresh (errored_event_json cx ctx) =
    map_option (\<lambda>src. (errored_event ctx)\<lparr>oe_source := src\<rparr>)
      (parse_socket_addr (show_ip (fst (oe_source (errored_event ctx))) @ '':'' @ nat_digits (snd (oe_source (errored_event ctx)))))"
proof -
  let ?ev = "errored_event ctx"
  have bare: "untimed_event ?ev = ?ev"
    by (cases ctx) (simp_all add: untimed_event_def errored_event_def from_persisted_parts_with_stamps_def)
  have "from_json_value cx fresh (errored_event_json cx ctx) = from_json_value cx fresh (to_json_value cx ?ev)"
  proof (cases ctx)
    case (EProcess t p s r pe)
    have ws: "jget ''workspace'' (to_json_value cx ?ev) = None"
      by (simp add: get_fields EProcess errored_event_def from_persisted_parts_with_stamps_def)
    have same: "oe_egress ?ev = oe_ingress ?ev" by (simp add: EProcess errored_event_def from_persisted_parts_with_stamps_def)
    have j: "errored_event_json cx ctx = json_remove ''workspace'' (json_remove ''egress'' (to_json_value cx ?ev))"
      by (simp add: EProcess errored_event_json_def Let_def)
    have g: "jget k (errored_event_json cx ctx) = (if k = ''workspace'' \<or> k = ''egress'' then None else jget k (to_json_value cx ?ev))" for k
      unfolding j to_json_fields
      using jget_remove[OF swap_remove_keys[OF event_fields_distinct]] jget_remove[OF event_fields_distinct]
      by (simp add: json_remove_def del: jget.simps)
    show ?thesis
      by (rule from_json_no_egress) (use ws in \<open>auto simp: g same get_fields(4,5) simp del: jget.simps\<close>)
  next
    case (EOutput t p s r n ov)
    have "has_fields cx ?ev (to_json_value cx ?ev)" by (simp add: has_fields_def)
    then show ?thesis using from_json_fields[OF assms(1,2)] output_fields[of cx t p s r n ov] EOutput by metis
  qed
  then show ?thesis
    using from_json_fields[OF assms, of "to_json_value cx ?ev" fresh] by (simp add: has_fields_def bare)
qed

end
