(* ===== verification/Control.thy ===== *)
theory Control
  imports DeadLetter Blueprint LtpInput Builtins
begin

section \<open>The control socket\<close>

text \<open>
  \<open>control.rs\<close>: the command line of a connection, the listing of tap points, the lines of a tap, and \<open>inject\<close>, which feeds events to
  an input or to the queue of an output. The socket and its directory are left out. What a client sends is a byte string; a read that
  fails for another reason than bad UTF-8 is not modelled. The \<open>n\<close>-th line of an injection takes the \<open>n\<close>-th of a supply of fresh keys,
  times and outcomes of the send.
\<close>

subsection \<open>Commands\<close>

text \<open>\<open>split_whitespace\<close>: the second argument is the word under way.\<close>

function (sequential) words_from :: "string \<Rightarrow> string \<Rightarrow> string list" where
  "words_from [] acc = (if acc = [] then [] else [acc])"
| "words_from (c # cs) acc = (case matching ws_encodings (c # cs) of
     Some w \<Rightarrow> (if acc = [] then [] else [acc]) @ words_from (drop (length w) (c # cs)) []
   | None \<Rightarrow> words_from cs (acc @ [c]))"
  by pat_completeness auto
termination
  by (relation "measure (\<lambda>(s, _). length s)") (auto dest: matching_shorter)

definition split_whitespace :: "string \<Rightarrow> string list" where
  "split_whitespace s = words_from s []"

definition max_command_len :: nat where "max_command_len = 4096"

datatype command =
  CmdInject rstr rstr bool
| CmdTap rstr bool
| CmdHealth | CmdStats | CmdList
| CmdUnknown string
| CmdError string

definition has_prefix :: "string \<Rightarrow> string \<Rightarrow> bool" where
  "has_prefix pre s \<longleftrightarrow> take (length pre) s = pre"

definition parse_command :: "string \<Rightarrow> command" where
  "parse_command cmd =
     (if has_prefix ''inject '' cmd then
        (case split_whitespace (drop 7 cmd) of
           [kind, name] \<Rightarrow> if kind \<in> {''input'', ''output''} then CmdInject kind name False
             else CmdError (''error: expected '' @ tick ''inject <input|output> <name> [json]'')
         | [kind, name, mode] \<Rightarrow> if kind \<in> {''input'', ''output''} \<and> mode = ''json'' then CmdInject kind name True
             else CmdError (''error: expected '' @ tick ''inject <input|output> <name> [json]'')
         | _ \<Rightarrow> CmdError (''error: expected '' @ tick ''inject <input|output> <name> [json]''))
      else if has_prefix ''tap '' cmd then
        (case split_whitespace (drop 4 cmd) of
           [kind, name] \<Rightarrow> if kind \<in> {''input'', ''process'', ''output''} then CmdTap (kind @ '' '' @ name) False
             else CmdError (''error: expected '' @ tick ''tap <input|process|output> <name> [json]'')
         | [kind, name, mode] \<Rightarrow> if kind \<in> {''input'', ''process'', ''output''} \<and> mode = ''json'' then CmdTap (kind @ '' '' @ name) True
             else CmdError (''error: expected '' @ tick ''tap <input|process|output> <name> [json]'')
         | _ \<Rightarrow> CmdError (''error: expected '' @ tick ''tap <input|process|output> <name> [json]''))
      else if cmd = ''health'' then CmdHealth else if cmd = ''stats'' then CmdStats else if cmd = ''list'' then CmdList
      else CmdUnknown cmd)"

text \<open>The first line of a connection and its length; \<open>None\<close> if the connection is closed without an answer.\<close>

definition read_command :: "bytes \<Rightarrow> (command \<times> nat) option" where
  "read_command sent =
     (let line = first_line (take max_command_len sent) in
      if line = [] \<or> \<not> utf8_valid line then None
      else if last line \<noteq> newline then Some (CmdError ''error: command too long'', length line)
      else Some (parse_command (str_trim line), length line))"

subsection \<open>Pipelines and taps\<close>

definition names_json :: "rstr list \<Rightarrow> json" where
  "names_json ns = JArr (map JStr ns)"

definition pipeline_json :: "pipeline_blueprint \<Rightarrow> json" where
  "pipeline_json pl = (let flow = bp_flow pl in
     JObj ([(''name'', JStr (bp_name pl))]
       @ (case flow_inputs flow of [] \<Rightarrow> [] | [i] \<Rightarrow> [(''input'', JStr i)] | is \<Rightarrow> [(''inputs'', names_json is)])
       @ [(''processes'', names_json (flow_processes flow)), (''outputs'', names_json (flow_outputs flow))]))"

definition build_list_json :: "blueprint \<Rightarrow> json" where
  "build_list_json bp = JObj [(''pipelines'', JArr (map pipeline_json (sort_key bp_name (map snd (ub_pipelines bp)))))]"

datatype tap_recv = TapEvent owned_event | TapLagged nat | TapClosed

definition tap_header :: "rstr \<Rightarrow> bool \<Rightarrow> bytes" where
  "tap_header target json_mode = (if json_mode then [] else ''tapping '' @ tick target @ '' '' @ em_dash @ '' events will stream below'' @ [newline])"

definition tap_event :: "json_codec \<Rightarrow> rstr \<Rightarrow> bool \<Rightarrow> owned_event \<Rightarrow> bytes" where
  "tap_event cx target json_mode ev =
     (if json_mode then
        (if has_prefix ''output '' target
         then (case jx_to_text cx (to_json_value_without_workspace cx ev) of Some t \<Rightarrow> t | None \<Rightarrow> [])
         else to_json_string cx ev)
      else from_utf8_lossy (oe_egress ev))"

fun tap_lines :: "json_codec \<Rightarrow> rstr \<Rightarrow> bool \<Rightarrow> tap_recv list \<Rightarrow> bytes" where
  "tap_lines cx target json_mode [] = []"
| "tap_lines cx target json_mode (TapEvent ev # rs) = tap_event cx target json_mode ev @ [newline] @ tap_lines cx target json_mode rs"
| "tap_lines cx target json_mode (TapLagged k # rs) =
     ''[warning: dropped '' @ nat_digits k @ '' events due to slow reader]'' @ [newline] @ tap_lines cx target json_mode rs"
| "tap_lines cx target json_mode (TapClosed # rs) = ''[output closed]'' @ [newline]"

definition handle_tap :: "json_codec \<Rightarrow> rstr \<Rightarrow> bool \<Rightarrow> tap_recv list \<Rightarrow> bytes" where
  "handle_tap cx target json_mode rs = tap_header target json_mode @ tap_lines cx target json_mode rs"

subsection \<open>Injection\<close>

definition max_inject_bytes :: nat where "max_inject_bytes = 16 * 1024 * 1024"

definition trim_eol :: "bytes \<Rightarrow> bytes" where
  "trim_eol s = rev (dropWhile (\<lambda>c. c = newline \<or> c = CHR 0x0D) (rev s))"

record inject_supply =
  is_key :: "nat \<Rightarrow> uuid"
  is_now :: "nat \<Rightarrow> int"

definition default_source :: sock_addr where "default_source = (V4 127 0 0 1, 0)"

definition inject_event :: "json_codec \<Rightarrow> bool \<Rightarrow> inject_supply \<Rightarrow> nat \<Rightarrow> bytes \<Rightarrow> owned_event option" where
  "inject_event cx json_mode fr n t =
     (if json_mode then from_json cx (is_key fr n) t else Some (event_new (is_key fr n) (is_now fr n) t default_source))"

text \<open>
  \<open>put\<close> hands the event of line \<open>n\<close> to the target and says whether it was taken. The result has the state of the target, the number
  of events taken, and whether the loop saw the end of what it may read.
\<close>

lemma first_line_shorter: "s \<noteq> [] \<Longrightarrow> length (drop (length (first_line s)) s) < length s"
  by (cases s) auto

function inject_loop ::
  "json_codec \<Rightarrow> bool \<Rightarrow> inject_supply \<Rightarrow> (nat \<Rightarrow> owned_event \<Rightarrow> 's \<Rightarrow> bool \<times> 's) \<Rightarrow> bytes \<Rightarrow> nat \<Rightarrow> nat \<Rightarrow> 's \<Rightarrow> 's \<times> nat \<times> bool" where
  "inject_loop cx json_mode fr put avail n injected s =
     (if avail = [] then (s, injected, True)
      else let line = first_line avail; rest = drop (length line) avail in
        if \<not> utf8_valid line then (s, injected, False)
        else let t = trim_eol line in
          if t = [] then inject_loop cx json_mode fr put rest (Suc n) injected s
          else (case inject_event cx json_mode fr n t of
              None \<Rightarrow> inject_loop cx json_mode fr put rest (Suc n) injected s
            | Some ev \<Rightarrow> (case put n ev s of
                (True, s') \<Rightarrow> inject_loop cx json_mode fr put rest (Suc n) (Suc injected) s'
              | (False, s') \<Rightarrow> (s', injected, False))))"
  by pat_completeness auto
termination
  by (relation "measure (\<lambda>(_, _, _, _, avail, _). length avail)") (simp_all add: first_line_shorter)

declare inject_loop.simps [simp del]

definition inject_reply :: "nat \<Rightarrow> bool \<Rightarrow> json" where
  "inject_reply injected exceeded = JObj ((''injected'', JNum (JPos injected))
     # (if exceeded then [(''error'', JStr (''inject payload exceeded '' @ nat_digits max_inject_bytes @ '' byte cap''))] else []))"

text \<open>
  The payload follows the command. \<open>consumed\<close> is the length of the command line and \<open>buffered\<close> the part of the payload that was read
  with it; the cap is set on what is still to come.
\<close>

definition inject_limit :: "nat \<Rightarrow> nat \<Rightarrow> nat" where
  "inject_limit consumed buffered = buffered + (max_inject_bytes + consumed)"

definition handle_inject ::
  "json_codec \<Rightarrow> bool \<Rightarrow> inject_supply \<Rightarrow> (nat \<Rightarrow> owned_event \<Rightarrow> 's \<Rightarrow> bool \<times> 's) \<Rightarrow> nat \<Rightarrow> nat \<Rightarrow> bytes \<Rightarrow> 's \<Rightarrow> 's \<times> json" where
  "handle_inject cx json_mode fr put consumed buffered payload s =
     (let cap = inject_limit consumed buffered in
      case inject_loop cx json_mode fr put (take cap payload) 0 0 s of
        (s', injected, at_end) \<Rightarrow> (s', inject_reply injected (at_end \<and> cap \<le> length payload)))"

definition inject_target :: "rstr list \<Rightarrow> rstr list \<Rightarrow> rstr \<Rightarrow> rstr \<Rightarrow> unit res" where
  "inject_target inputs outputs kind name =
     (if kind = ''input'' then ensure (name \<in> set inputs) (''error: unknown input '' @ tick name)
      else if kind = ''output'' then ensure (name \<in> set outputs) (''error: unknown output '' @ tick name)
      else Err (''error: inject kind must be '' @ tick ''input'' @ '' or '' @ tick ''output''))"

text \<open>The two targets: the channel of an input, whose receiver may be gone, and the queue of an output.\<close>

definition put_input :: "(nat \<Rightarrow> bool) \<Rightarrow> nat \<Rightarrow> owned_event \<Rightarrow> owned_event list \<times> input_metrics \<Rightarrow> bool \<times> (owned_event list \<times> input_metrics)" where
  "put_input gone n ev = (\<lambda>(sent, m).
     if gone n then (False, (sent, m)) else (True, (sent @ [ev], m\<lparr>im_injected := im_injected m + 1\<rparr>)))"

definition put_output ::
  "(queued_event \<Rightarrow> bytes option) \<Rightarrow> (nat \<Rightarrow> send_io) \<Rightarrow> (nat \<Rightarrow> int) \<Rightarrow> nat \<Rightarrow> owned_event \<Rightarrow> queue \<times> output_metrics option
     \<Rightarrow> bool \<times> (queue \<times> output_metrics option)" where
  "put_output ser io now n ev = (\<lambda>(q, m). case queue_send ser (io n) \<lparr>qe_event = ev, qe_emitted_ns = now n\<rparr> q m of
     (Inr _, q', m') \<Rightarrow> (True, (q', map_option (\<lambda>m. m\<lparr>om_injected := om_injected m + 1\<rparr>) m'))
   | (Inl _, q', m') \<Rightarrow> (False, (q', m')))"

end
