(* ===== verification/Control_Facts.thy ===== *)
theory Control_Facts
  imports Control Delivery Transport
begin

section \<open>Replaying dead letters\<close>

text \<open>
  What an injection counts, and where it leads: the events of the error log, fed back over the control socket, are the events that were
  given up, except for those from an IPv6 source; an injection into a disk queue appends them to its unconfirmed records.
\<close>

subsection \<open>Lines\<close>

text \<open>The loop over the lines instead of the bytes.\<close>

fun inject_each ::
  "json_codec \<Rightarrow> bool \<Rightarrow> inject_supply \<Rightarrow> (nat \<Rightarrow> owned_event \<Rightarrow> 's \<Rightarrow> bool \<times> 's) \<Rightarrow> bytes list \<Rightarrow> nat \<Rightarrow> nat \<Rightarrow> 's \<Rightarrow> 's \<times> nat \<times> bool" where
  "inject_each cx json_mode fr put [] n injected s = (s, injected, True)"
| "inject_each cx json_mode fr put (t # ts) n injected s = (case inject_event cx json_mode fr n t of
     None \<Rightarrow> inject_each cx json_mode fr put ts (Suc n) injected s
   | Some ev \<Rightarrow> (case put n ev s of
       (True, s') \<Rightarrow> inject_each cx json_mode fr put ts (Suc n) (Suc injected) s'
     | (False, s') \<Rightarrow> (s', injected, False)))"

definition line_ok :: "bytes \<Rightarrow> bool" where
  "line_ok t \<longleftrightarrow> t \<noteq> [] \<and> newline \<notin> set t \<and> CHR 0x0D \<notin> set t \<and> utf8_valid (t @ [newline])"

definition lines_of :: "bytes list \<Rightarrow> bytes" where
  "lines_of ts = concat (map (\<lambda>t. t @ [newline]) ts)"

lemma first_line_of: "newline \<notin> set t \<Longrightarrow> first_line (t @ newline # rest) = t @ [newline]"
  by (induction t) auto

lemma first_line_id: "newline \<notin> set s \<Longrightarrow> first_line s = s"
  by (induction s) auto

lemma trim_eol_line: "line_ok t \<Longrightarrow> trim_eol (t @ [newline]) = t"
  by (cases t rule: rev_cases) (auto simp: line_ok_def trim_eol_def)

lemma inject_lines:
  "\<forall>t \<in> set ts. line_ok t \<Longrightarrow> inject_loop cx json_mode fr put (lines_of ts) n injected s = inject_each cx json_mode fr put ts n injected s"
proof (induction ts arbitrary: n injected s)
  case Nil
  then show ?case by (simp add: lines_of_def inject_loop.simps)
next
  case (Cons t ts)
  have f: "lines_of (t # ts) \<noteq> []" "first_line (lines_of (t # ts)) = t @ [newline]"
    "drop (length (t @ [newline])) (lines_of (t # ts)) = lines_of ts"
    using Cons.prems first_line_of[of t] by (simp_all add: lines_of_def line_ok_def)
  have t: "utf8_valid (t @ [newline])" "trim_eol (t @ [newline]) = t" "t \<noteq> []"
    using Cons.prems trim_eol_line by (auto simp: line_ok_def)
  have rest: "inject_loop cx json_mode fr put (lines_of ts) m k s' = inject_each cx json_mode fr put ts m k s'" for m k s'
    using Cons by simp
  show ?case
    by (subst inject_loop.simps) (simp only: f t Let_def rest inject_each.simps if_False not_True_eq_False)
qed

subsection \<open>What a line of JSON holds\<close>

text \<open>What the JSON crate promises of compact text: one line of UTF-8 that parses back.\<close>

definition serde_line :: "json_codec \<Rightarrow> json \<Rightarrow> bool" where
  "serde_line cx j \<longleftrightarrow> (json_exact j \<longrightarrow> (\<exists>t. jx_to_text cx j = Some t \<and> line_ok t \<and> jx_of_text cx t = Some j))"

definition json_line :: "json_codec \<Rightarrow> json \<Rightarrow> bytes" where
  "json_line cx j = (case jx_to_text cx j of Some t \<Rightarrow> t | None \<Rightarrow> [])"

lemma serde_line_back:
  assumes "serde_line cx j" "json_exact j"
  shows "line_ok (json_line cx j)" "jx_of_text cx (json_line cx j) = Some j"
  using assms by (auto simp: serde_line_def json_line_def)

lemma exact_swap_remove: "list_all (\<lambda>(k, j). json_exact j) m \<Longrightarrow> list_all (\<lambda>(k, j). json_exact j) (swap_remove x m)"
proof (cases "List.extract (\<lambda>y. fst y = x) m")
  case (Some r)
  assume m: "list_all (\<lambda>(k, j). json_exact j) m"
  obtain before v after where r: "r = (before, v, after)" "m = before @ v # after" using Some by (cases r) (auto simp: extract_Some_iff)
  show ?thesis using m Some r by (cases after rule: rev_cases) (auto simp: swap_remove_def)
qed (simp add: swap_remove_def)

lemma dead_letter_exact: "json_exact (errored_event_json cx ctx)"
proof -
  have "float_free (OObject (oe_workspace (errored_event ctx)))"
    by (cases ctx) (simp_all add: errored_event_def from_persisted_parts_with_stamps_def)
  then have e: "list_all (\<lambda>(k, j). json_exact j) (event_fields cx (errored_event ctx))" using event_exact[of "errored_event ctx" cx] by simp
  then show ?thesis
    using exact_swap_remove[OF e] exact_swap_remove[OF exact_swap_remove[OF e]]
    by (cases ctx) (simp_all add: errored_event_json_def Let_def to_json_fields json_remove_def)
qed

subsection \<open>Dead letters\<close>

text \<open>What an operator selects of the error log: the \<open>event\<close> of each record, one on each line.\<close>

definition replay_lines :: "json_codec \<Rightarrow> (int \<Rightarrow> string) \<Rightarrow> errored_ctx list \<Rightarrow> bytes list" where
  "replay_lines cx rfc ctxs = map (\<lambda>c. json_line cx (the (jget ''event'' (errored_record cx rfc c)))) ctxs"

definition replayable :: "json_codec \<Rightarrow> errored_ctx \<Rightarrow> bool" where
  "replayable cx c \<longleftrightarrow> persistable cx (errored_event c) \<and> serde_line cx (errored_event_json cx c) \<and> ip_ok (fst (oe_source (errored_event c)))"

fun from_v4 :: "owned_event \<Rightarrow> bool" where
  "from_v4 ev = (case fst (oe_source ev) of V4 _ _ _ _ \<Rightarrow> True | V6 _ \<Rightarrow> False)"

lemma replay_line:
  assumes "b64_ok cx" "replayable cx c"
  shows "line_ok (json_line cx (errored_event_json cx c))"
    and "inject_event cx True fr n (json_line cx (errored_event_json cx c)) = (if from_v4 (errored_event c) then Some (errored_event c) else None)"
proof -
  let ?ev = "errored_event c"
  have p: "persistable cx ?ev" "ip_ok (fst (oe_source ?ev))" "serde_line cx (errored_event_json cx c)"
    using assms(2) by (simp_all add: replayable_def)
  note rd = serde_line_back[OF p(3) dead_letter_exact]
  show "line_ok (json_line cx (errored_event_json cx c))" by (rule rd(1))
  obtain ip port where src: "oe_source ?ev = (ip, port)" by fastforce
  have port: "port < 65536" using p(1) src by (simp add: persistable_def)
  have "inject_event cx True fr n (json_line cx (errored_event_json cx c)) = from_json_value cx (is_key fr n) (errored_event_json cx c)"
    by (simp add: inject_event_def from_json_def rd(2))
  also have "\<dots> = map_option (\<lambda>src. ?ev\<lparr>oe_source := src\<rparr>) (parse_socket_addr (show_ip ip @ '':'' @ nat_digits port))"
    using dead_letter_event[OF assms(1) p(1)] src by simp
  also have "\<dots> = (if from_v4 ?ev then Some ?ev else None)"
  proof (cases ip)
    case (V4 a b c d)
    then show ?thesis using parse_v4[of a b c d port] p(2) port src by simp
  next
    case (V6 ss)
    then show ?thesis using parse_v6[of ss] p(2) src by simp
  qed
  finally show "inject_event cx True fr n (json_line cx (errored_event_json cx c)) = (if from_v4 ?ev then Some ?ev else None)" .
qed

lemma replay_lines_ok:
  assumes "b64_ok cx" "\<forall>c \<in> set ctxs. replayable cx c"
  shows "\<forall>t \<in> set (replay_lines cx rfc ctxs). line_ok t"
  using replay_line(1)[OF assms(1)] assms(2) by (auto simp: replay_lines_def record_event)

subsection \<open>Where the events go\<close>

text \<open>The events read from the lines, with the numbers of the lines.\<close>

fun decoded :: "json_codec \<Rightarrow> bool \<Rightarrow> inject_supply \<Rightarrow> bytes list \<Rightarrow> nat \<Rightarrow> (nat \<times> owned_event) list" where
  "decoded cx json_mode fr [] n = []"
| "decoded cx json_mode fr (t # ts) n = (case inject_event cx json_mode fr n t of
     None \<Rightarrow> decoded cx json_mode fr ts (Suc n) | Some ev \<Rightarrow> (n, ev) # decoded cx json_mode fr ts (Suc n))"

lemma inject_accepted:
  assumes put: "\<And>n ev s. I s \<Longrightarrow> P ev \<Longrightarrow> \<exists>s'. put n ev s = (True, s') \<and> I s' \<and> got s' = got s @ [ev]"
  shows "I s \<Longrightarrow> \<forall>(m, ev) \<in> set (decoded cx json_mode fr ts n). P ev \<Longrightarrow>
    \<exists>s'. inject_each cx json_mode fr put ts n k s = (s', k + length (decoded cx json_mode fr ts n), True) \<and> I s' \<and>
      got s' = got s @ map snd (decoded cx json_mode fr ts n)"
proof (induction ts arbitrary: n k s)
  case (Cons t ts)
  show ?case
  proof (cases "inject_event cx json_mode fr n t")
    case None
    then show ?thesis using Cons by simp
  next
    case (Some ev)
    then obtain s1 where s1: "put n ev s = (True, s1)" "I s1" "got s1 = got s @ [ev]" using put[of s ev n] Cons.prems by auto
    then show ?thesis using Cons.IH[OF s1(2), of "Suc n" "Suc k"] Cons.prems(2) Some by auto
  qed
qed simp

lemma decoded_replay:
  assumes "b64_ok cx" "\<forall>c \<in> set ctxs. replayable cx c"
  shows "map snd (decoded cx True fr (replay_lines cx rfc ctxs) n) = List.filter from_v4 (map errored_event ctxs)"
  using assms(2)
proof (induction ctxs arbitrary: n)
  case (Cons c ctxs)
  then show ?case using replay_line(2)[OF assms(1), of c fr n] by (simp add: replay_lines_def record_event)
qed (simp add: replay_lines_def)

lemma handle_inject_lines:
  assumes "\<forall>t \<in> set ts. line_ok t" "length (lines_of ts) < inject_limit consumed buffered"
    and "inject_each cx json_mode fr put ts 0 0 s = (s', k, True)"
  shows "handle_inject cx json_mode fr put consumed buffered (lines_of ts) s = (s', inject_reply k False)"
  using assms by (simp add: handle_inject_def Let_def inject_lines)

lemma send_accepted: "fst (dq_send NoFault stuck data q)"
  by (simp add: dq_send_def write_to_segment_def inspect_tail_def Let_def split: prod.split option.split)

lemma dead_letter_loggable: "replayable cx c \<Longrightarrow> in_i64 t \<Longrightarrow> loggable cx \<lparr>qe_event = errored_event c, qe_emitted_ns = t\<rparr>"
  by (cases c) (auto simp: replayable_def loggable_def errored_event_def from_persisted_parts_with_stamps_def)

definition queueable :: "json_codec \<Rightarrow> (nat \<Rightarrow> int) \<Rightarrow> owned_event \<Rightarrow> bool" where
  "queueable cx now ev \<longleftrightarrow> from_v4 ev \<and> ip_ok (fst (oe_source ev)) \<and> untimed_event ev = ev \<and>
     (\<forall>n. serde_ok cx (wal_json cx \<lparr>qe_event = ev, qe_emitted_ns = now n\<rparr>) \<and> loggable cx \<lparr>qe_event = ev, qe_emitted_ns = now n\<rparr>)"

lemma put_output_accepts:
  assumes "b64_ok cx" "\<exists>d. fst s = DiskQ d \<and> dq_inv (wal_dec cx fresh) d" "queueable cx now ev"
  defines "got \<equiv> \<lambda>s. case fst s of DiskQ d \<Rightarrow> map qe_event (unconfirmed (wal_dec cx fresh) d) | MemQ _ \<Rightarrow> []"
  shows "\<exists>s'. put_output (wal_ser cx) (\<lambda>_. WriteIO NoFault stuck) now n ev s = (True, s') \<and>
    (\<exists>d. fst s' = DiskQ d \<and> dq_inv (wal_dec cx fresh) d) \<and> got s' = got s @ [ev]"
proof -
  obtain d m where s: "s = (DiskQ d, m)" "dq_inv (wal_dec cx fresh) d" using assms(2) by (cases s) auto
  let ?qe = "\<lparr>qe_event = ev, qe_emitted_ns = now n\<rparr>"
  have q: "from_v4 ev" "ip_ok (fst (oe_source ev))" "untimed_event ev = ev" "serde_ok cx (wal_json cx ?qe)" "loggable cx ?qe"
    using assms(3) by (simp_all add: queueable_def)
  obtain a b c e p where src: "oe_source (qe_event ?qe) = (V4 a b c e, p)" using q(1) by (cases "oe_source ev") (auto split: ip_addr.split_asm)
  have ip: "ip_ok (V4 a b c e)" using q(2) src by simp
  have same: "queued_untimed ?qe = ?qe" using q(3) by (simp add: queued_untimed_def)
  obtain data where data: "wal_ser cx ?qe = Some data" "newline \<notin> set data" "records (wal_dec cx fresh) (data @ [newline]) = [?qe]"
    using wal_v4[OF assms(1) q(4,5) src ip, of fresh] same by auto
  obtain d' where d': "dq_send NoFault stuck data d = (True, d')" using send_accepted[of stuck data d] by (cases "dq_send NoFault stuck data d") auto
  have "dq_inv (wal_dec cx fresh) d'" "unconfirmed (wal_dec cx fresh) d' = unconfirmed (wal_dec cx fresh) d @ [?qe]"
    using send_refines[OF s(2) d' data(2)] data(3) by auto
  then show ?thesis using data(1) d' by (auto simp: s(1) put_output_def queue_send_def backend_send_def got_def)
qed

lemma inject_loop_inv:
  assumes "\<And>n ev s k. K s k \<Longrightarrow> case put n ev s of (True, s') \<Rightarrow> K s' (Suc k) | (False, s') \<Rightarrow> K s' k"
  shows "inject_loop cx json_mode fr put avail n k s = (s', k', e) \<Longrightarrow> K s k \<Longrightarrow> K s' k'"
proof (induction "length avail" arbitrary: avail n k s rule: less_induct)
  case less
  let ?rest = "drop (length (first_line avail)) avail"
  show ?case
  proof (cases "avail = [] \<or> \<not> utf8_valid (first_line avail)")
    case True
    then show ?thesis using less.prems by (subst (asm) inject_loop.simps) (auto simp: Let_def split: if_split_asm)
  next
    case False
    then have shorter: "length ?rest < length avail" using first_line_shorter by blast
    note step = less.prems(1)[unfolded inject_loop.simps[of cx json_mode fr put avail]]
    show ?thesis
    proof (cases "trim_eol (first_line avail) = [] \<or> inject_event cx json_mode fr n (trim_eol (first_line avail)) = None")
      case True
      then have "inject_loop cx json_mode fr put ?rest (Suc n) k s = (s', k', e)"
        using step False by (auto simp: Let_def split: if_split_asm)
      then show ?thesis by (rule less.hyps[OF shorter _ less.prems(2)])
    next
      case some: False
      then obtain ev where ev: "inject_event cx json_mode fr n (trim_eol (first_line avail)) = Some ev" by auto
      obtain b s1 where put: "put n ev s = (b, s1)" by fastforce
      show ?thesis
      proof (cases b)
        case True
        then have "inject_loop cx json_mode fr put ?rest (Suc n) (Suc k) s1 = (s', k', e)" using step False some ev put by (auto simp: Let_def)
        moreover have "K s1 (Suc k)" using assms[OF less.prems(2), of n ev] put True by simp
        ultimately show ?thesis by (rule less.hyps[OF shorter])
      next
        case no: False
        then show ?thesis using step False some ev put assms[OF less.prems(2), of n ev] by (auto simp: Let_def)
      qed
    qed
  qed
qed

subsection \<open>Guarantees\<close>

lemma letters_queued:
  assumes "b64_ok cx" "\<forall>c \<in> set ctxs. replayable cx c" "\<forall>c \<in> set ctxs. from_v4 (errored_event c) \<longrightarrow> queueable cx now (errored_event c)"
    and "length (lines_of (replay_lines cx rfc ctxs)) < inject_limit consumed buffered" "dq_inv (wal_dec cx fresh) d"
  shows "\<exists>d' m'. handle_inject cx True fr (put_output (wal_ser cx) (\<lambda>_. WriteIO NoFault stuck) now) consumed buffered
        (lines_of (replay_lines cx rfc ctxs)) (DiskQ d, m)
      = ((DiskQ d', m'), inject_reply (length (List.filter from_v4 (map errored_event ctxs))) False) \<and> dq_inv (wal_dec cx fresh) d' \<and>
    map qe_event (unconfirmed (wal_dec cx fresh) d')
      = map qe_event (unconfirmed (wal_dec cx fresh) d) @ List.filter from_v4 (map errored_event ctxs)"
proof -
  define got where "got = (\<lambda>s :: queue \<times> output_metrics option. case fst s of DiskQ d \<Rightarrow> map qe_event (unconfirmed (wal_dec cx fresh) d) | MemQ _ \<Rightarrow> [])"
  let ?put = "put_output (wal_ser cx) (\<lambda>_. WriteIO NoFault stuck) now" and ?ts = "replay_lines cx rfc ctxs"
  let ?evs = "List.filter from_v4 (map errored_event ctxs)"
  have evs: "map snd (decoded cx True fr ?ts 0) = ?evs" by (rule decoded_replay[OF assms(1,2)])
  have ok: "\<forall>(n, ev) \<in> set (decoded cx True fr ?ts 0). queueable cx now ev"
  proof -
    have "ev \<in> set ?evs" if "(n, ev) \<in> set (decoded cx True fr ?ts 0)" for n ev using that image_eqI[of ev snd "(n, ev)"] evs by (metis list.set_map snd_conv)
    then show ?thesis using assms(3) by fastforce
  qed
  have len: "length (decoded cx True fr ?ts 0) = length ?evs" using arg_cong[OF evs, of length] by (simp only: length_map)
  obtain s' where s': "inject_each cx True fr ?put ?ts 0 0 (DiskQ d, m) = (s', length ?evs, True)"
    "\<exists>d. fst s' = DiskQ d \<and> dq_inv (wal_dec cx fresh) d" "got s' = got (DiskQ d, m) @ ?evs"
    using inject_accepted[where I = "\<lambda>s. \<exists>d. fst s = DiskQ d \<and> dq_inv (wal_dec cx fresh) d" and P = "queueable cx now" and got = got
        and put = ?put and s = "(DiskQ d, m)" and k = 0, OF _ _ ok] put_output_accepts[OF assms(1)] assms(5) evs len
    unfolding got_def by auto
  have "handle_inject cx True fr ?put consumed buffered (lines_of ?ts) (DiskQ d, m) = (s', inject_reply (length ?evs) False)"
    by (rule handle_inject_lines[OF replay_lines_ok[OF assms(1,2)] assms(4) s'(1)])
  then show ?thesis using s'(2,3) by (cases s') (auto simp: got_def)
qed

text \<open>The event that was given up, as far as a record keeps it: a failed process leaves the received bytes to start over with.\<close>

definition given_up :: "errored_ctx \<Rightarrow> owned_event" where
  "given_up ctx = (case ctx of
     EProcess _ _ _ _ ev \<Rightarrow> \<lparr>oe_key = pe_key ev, oe_received_at = pe_received_at ev, oe_source = pe_source ev, oe_ingress = pe_ingress ev,
       oe_egress = pe_ingress ev, oe_workspace = [], oe_ltp_stamps = (if pe_ltp_stamps ev = Some [] then None else pe_ltp_stamps ev), oe_ack = None\<rparr>
   | EOutput _ _ _ _ _ ev \<Rightarrow> \<lparr>oe_key = ov_key ev, oe_received_at = ov_received_at ev, oe_source = ov_source ev, oe_ingress = ov_ingress ev,
       oe_egress = ov_egress ev, oe_workspace = [], oe_ltp_stamps = (if ov_ltp_stamps ev = Some [] then None else ov_ltp_stamps ev), oe_ack = None\<rparr>)"

lemma errored_given_up: "errored_event ctx = given_up ctx"
  by (auto simp: errored_event_def given_up_def from_persisted_parts_with_stamps_def split: errored_ctx.split option.split)

text \<open>C6: The error log can be replayed into the queue it came from: the events of its records, injected line by line as \<open>limpidctl\<close> does,
  become the newest unconfirmed records of the output's disk queue, in order and unchanged in every field that the program keeps, and the
  answer counts them. Exactly the events from an IPv6 source are skipped, without an error in the answer: their dead letters are lost.\<close>

theorem dead_letters_return:
  assumes "b64_ok cx" "\<forall>c \<in> set ctxs. replayable cx c" "\<forall>c \<in> set ctxs. from_v4 (given_up c) \<longrightarrow> queueable cx now (given_up c)"
    and "length (lines_of (replay_lines cx rfc ctxs)) < inject_limit consumed buffered" "dq_inv (wal_dec cx fresh) d"
  shows "\<exists>d' m'. handle_inject cx True fr (put_output (wal_ser cx) (\<lambda>_. WriteIO NoFault stuck) now) consumed buffered
        (lines_of (replay_lines cx rfc ctxs)) (DiskQ d, m)
      = ((DiskQ d', m'), inject_reply (length (List.filter from_v4 (map given_up ctxs))) False) \<and> dq_inv (wal_dec cx fresh) d' \<and>
    map qe_event (unconfirmed (wal_dec cx fresh) d')
      = map qe_event (unconfirmed (wal_dec cx fresh) d) @ List.filter from_v4 (map given_up ctxs)"
  using letters_queued[OF assms(1,2), of now rfc] assms(3-) unfolding errored_given_up by blast

text \<open>C32: Whatever is sent to an input, and whenever its receiver goes away, the answer of an injection and the counter of injected events
  give the number of events that the input was handed, no more and no fewer.\<close>

theorem injection_counted:
  assumes "handle_inject cx json_mode fr (put_input gone) consumed buffered payload (sent, m) = ((sent', m'), reply)"
  shows "\<exists>evs exceeded. sent' = sent @ evs \<and> im_injected m' = im_injected m + of_nat (length evs) \<and> reply = inject_reply (length evs) exceeded"
proof -
  define K where "K = (\<lambda>(s :: owned_event list \<times> input_metrics) k.
    \<exists>evs. fst s = sent @ evs \<and> im_injected (snd s) = im_injected m + of_nat (length evs) \<and> k = length evs)"
  obtain k e where loop: "inject_loop cx json_mode fr (put_input gone) (take (inject_limit consumed buffered) payload) 0 0 (sent, m) = ((sent', m'), k, e)"
    and reply: "reply = inject_reply k (e \<and> inject_limit consumed buffered \<le> length payload)"
    using assms by (auto simp: handle_inject_def Let_def split: prod.split_asm)
  have "K (sent', m') k"
  proof (rule inject_loop_inv[OF _ loop])
    show "case put_input gone n ev s of (True, s') \<Rightarrow> K s' (Suc k) | (False, s') \<Rightarrow> K s' k" if k: "K s k" for n ev s k
    proof -
      obtain evs where "fst s = sent @ evs" "im_injected (snd s) = im_injected m + of_nat (length evs)" "k = length evs" using k by (auto simp: K_def)
      then show ?thesis by (cases s) (auto simp: put_input_def K_def intro!: exI[of _ "evs @ [ev]"])
    qed
  qed (simp add: K_def)
  then show ?thesis using reply by (auto simp: K_def)
qed

text \<open>C39: An injection of plain lines that runs into the cap hands the part of the line before the cap to its target as if it were a
  whole message, and counts it; only the answer then mentions the cap.\<close>

theorem injection_cut_in_line:
  assumes "newline \<notin> set payload" "inject_limit consumed buffered < length payload" "utf8_valid (take (inject_limit consumed buffered) payload)"
    and "CHR 0x0D \<notin> set payload"
  shows "handle_inject cx False fr (put_input (\<lambda>_. False)) consumed buffered payload (sent, m) =
    ((sent @ [event_new (is_key fr 0) (is_now fr 0) (take (inject_limit consumed buffered) payload) default_source],
      m\<lparr>im_injected := im_injected m + 1\<rparr>), inject_reply 1 True)"
proof -
  let ?part = "take (inject_limit consumed buffered) payload"
  have "0 < inject_limit consumed buffered" unfolding inject_limit_def max_inject_bytes_def by simp
  then have ne: "?part \<noteq> []" using assms(2) by (cases payload) (simp_all add: take_Cons')
  have no: "newline \<notin> set ?part" "CHR 0x0D \<notin> set ?part" using assms(1,4) by (auto dest: in_set_takeD)
  have line: "first_line ?part = ?part" using no(1) by (rule first_line_id)
  have trim: "trim_eol ?part = ?part" using no by (cases ?part rule: rev_cases) (auto simp: trim_eol_def)
  have "inject_loop cx False fr (put_input (\<lambda>_. False)) ?part 0 0 (sent, m) =
    ((sent @ [event_new (is_key fr 0) (is_now fr 0) ?part default_source], m\<lparr>im_injected := im_injected m + 1\<rparr>), 1, True)"
    by (subst inject_loop.simps) (simp add: ne line trim assms(3) inject_event_def put_input_def inject_loop.simps del: take_eq_Nil take_eq_Nil2)
  then show ?thesis using assms(2) by (simp add: handle_inject_def Let_def)
qed

subsection \<open>Instances\<close>

text \<open>A codec whose text of every value is one line, read back as one value with a newline behind it and as another without.\<close>

definition two_codec :: "json \<Rightarrow> json \<Rightarrow> json_codec" where
  "two_codec j1 j2 = (ex_codec j1)\<lparr>jx_of_text := (\<lambda>t. Some (if newline \<in> set t then j1 else j2))\<rparr>"

definition ex_letter :: errored_ctx where
  "ex_letter = EOutput 5 [] ''o'' ''refused'' ''o'' \<lparr>ov_key = 7, ov_source = (V4 10 0 0 1, 514), ov_received_at = 1000,
     ov_ingress = ''hello'', ov_egress = ''HELLO'', ov_ltp_stamps = None\<rparr>"

definition ex_fresh :: inject_supply where
  "ex_fresh = \<lparr>is_key = (\<lambda>n. 100 + n), is_now = (\<lambda>_. 2000)\<rparr>"

definition letter_json :: json where
  "letter_json = errored_event_json (ex_codec JNull) ex_letter"

definition letter_wal :: json where
  "letter_wal = wal_json (ex_codec JNull) \<lparr>qe_event = errored_event ex_letter, qe_emitted_ns = 2000\<rparr>"

definition letter_codec :: json_codec where
  "letter_codec = two_codec letter_wal letter_json"

lemma two_codec_same:
  "b64_ok (two_codec j1 j2)" "oe_workspace ev = [] \<Longrightarrow> to_json_value (two_codec j1 j2) ev = to_json_value (ex_codec JNull) ev"
  by (simp_all add: two_codec_def ex_codec_def b64_ok_def to_json_value_def to_json_value_with_def bytes_to_json_def)

lemma errored_bare: "oe_workspace (errored_event c) = []"
  by (cases c) (simp_all add: errored_event_def from_persisted_parts_with_stamps_def)

lemma letter_codec_ok:
  "b64_ok letter_codec"
  "errored_event_json letter_codec ex_letter = letter_json"
  "wal_json letter_codec \<lparr>qe_event = errored_event ex_letter, qe_emitted_ns = 2000\<rparr> = letter_wal"
  unfolding letter_codec_def letter_json_def letter_wal_def errored_event_json_def wal_json_def
  by (simp_all add: two_codec_same errored_bare)

lemma letter_replayable: "replayable letter_codec ex_letter" "queueable letter_codec (\<lambda>_. 2000) (errored_event ex_letter)"
proof -
  have p: "persistable letter_codec (errored_event ex_letter)"
    by (simp add: persistable_def uuid_ok_def letter_codec_def two_codec_def ex_codec_def errored_event_def ex_letter_def
        from_persisted_parts_with_stamps_def digits_val_nat_digits in_i64_def i64_min_def i64_max_def)
  have l: "serde_line letter_codec letter_json"
    by (simp add: serde_line_def line_ok_def letter_codec_def two_codec_def ex_codec_def newline_def utf8_valid_def)
  have w: "serde_ok letter_codec letter_wal"
    by (simp add: serde_ok_def letter_codec_def two_codec_def ex_codec_def newline_def ascii_whitespace_def)
  show r: "replayable letter_codec ex_letter"
    using p l by (simp add: replayable_def letter_codec_ok) (simp add: errored_event_def ex_letter_def from_persisted_parts_with_stamps_def)
  have "from_v4 (errored_event ex_letter)" "ip_ok (fst (oe_source (errored_event ex_letter)))" "untimed_event (errored_event ex_letter) = errored_event ex_letter"
    by (simp_all add: errored_event_def ex_letter_def from_persisted_parts_with_stamps_def untimed_event_def)
  then show "queueable letter_codec (\<lambda>_. 2000) (errored_event ex_letter)"
    using dead_letter_loggable[OF r, of 2000] w by (simp add: queueable_def letter_codec_ok in_i64_def i64_min_def i64_max_def)
qed

theorem dead_letters_return_witness:
  "\<exists>d' m'. handle_inject letter_codec True ex_fresh (put_output (wal_ser letter_codec) (\<lambda>_. WriteIO NoFault (\<lambda>_. False)) (\<lambda>_. 2000)) 20 0
      (lines_of (replay_lines letter_codec (\<lambda>_. []) [ex_letter])) (DiskQ ex_queue, None) = ((DiskQ d', m'), inject_reply 1 False) \<and>
    map qe_event (unconfirmed (wal_dec letter_codec 0) d') = map qe_event (unconfirmed (wal_dec letter_codec 0) ex_queue) @ [given_up ex_letter]"
proof -
  have inv: "dq_inv (wal_dec letter_codec 0) ex_queue"
    using create_inv[where m = 0 and dec = "wal_dec letter_codec 0", OF empty_dir_ok] by (simp add: ex_queue_def ex_dir_def)
  have short: "length (lines_of (replay_lines letter_codec (\<lambda>_. []) [ex_letter])) < inject_limit 20 0"
    by (simp add: lines_of_def replay_lines_def json_line_def letter_codec_def two_codec_def ex_codec_def inject_limit_def max_inject_bytes_def)
  have v4: "List.filter from_v4 (map given_up [ex_letter]) = [given_up ex_letter]"
    by (simp add: given_up_def ex_letter_def)
  show ?thesis
    using dead_letters_return[OF letter_codec_ok(1) _ _ short inv, of "\<lambda>_. 2000" ex_fresh "\<lambda>_. False" None] letter_replayable[unfolded errored_given_up]
    unfolding v4 by auto
qed

theorem injection_counted_witness:
  "\<exists>evs exceeded. [event_new 100 2000 ''hi'' default_source] = [] @ evs \<and>
     inject_reply 1 False = inject_reply (length evs) exceeded"
proof -
  have "handle_inject (ex_codec JNull) False ex_fresh (put_input (\<lambda>_. False)) 12 0 (''hi'' @ [newline]) ([], ls_input ex_listener) =
    (([event_new 100 2000 ''hi'' default_source], (ls_input ex_listener)\<lparr>im_injected := 1\<rparr>), inject_reply 1 False)"
    by (simp add: handle_inject_def inject_loop.simps Let_def inject_limit_def max_inject_bytes_def newline_def utf8_valid_def trim_eol_def
        inject_event_def ex_fresh_def put_input_def ex_listener_def)
  from injection_counted[OF this] show ?thesis by blast
qed

lemma utf8_ascii: "utf8_valid (replicate n CHR ''a'')"
  by (induction n) (simp_all add: utf8_valid_def)

theorem injection_cut_in_line_witness:
  "snd (handle_inject (ex_codec JNull) False ex_fresh (put_input (\<lambda>_. False)) 12 0 (replicate (inject_limit 12 0 + 1) CHR ''a'') ([], ls_input ex_listener))
   = inject_reply 1 True"
proof -
  have cut: "take (inject_limit 12 0) (replicate (inject_limit 12 0 + 1) CHR ''a'') = replicate (inject_limit 12 0) CHR ''a''" by (simp only: take_replicate) simp
  show ?thesis
    using injection_cut_in_line[of "replicate (inject_limit 12 0 + 1) CHR ''a''" 12 0 "ex_codec JNull" ex_fresh "[]" "ls_input ex_listener"]
    unfolding cut by (simp add: utf8_ascii newline_def del: replicate.simps)
qed

end
