(* ===== verification/Spec2Isabelle.thy ===== *)
theory Spec2Isabelle
  imports SyslogNet Tables_Facts Guarantees Config_Facts Control_Facts
begin

text \<open>
  Limpid is a log-routing daemon: inputs turn bytes into events, pipelines written in a small language
  rewrite and route them, output queues buffer them, and outputs ship them. This development models
  the core of the daemon, \<open>crates/limpid/src\<close>, from the language's values to the acknowledgement of a
  shipped event, and proves what an operator relies on: pipelines of an accepted configuration
  terminate when their expressions do, no event is changed behind the configuration's back, every event is counted once, and
  an event accepted by a disk queue is delivered or still there after a crash, but for the losses named below.

  \<^bold>\<open>The parts and their theories.\<close>
  \<^item> \<open>Prelude\<close>: shared lemmas, association lists, insertion-ordered maps, the result monad (\<open>Ok\<close>, \<open>Err\<close> for
    a returned error, \<open>Crash\<close> for a panic or an exhausted stack) and its Hoare-style rules.
  \<^item> \<open>F64\<close>: IEEE doubles with round-to-nearest-even, as far as the evaluator and the metrics use them.
  \<^item> \<open>Value\<close>, \<open>Event\<close>: \<open>dsl/value.rs\<close>, \<open>event.rs\<close>; borrowed and owned values, events, the workspace.
  \<^item> \<open>Text\<close>, \<open>Syntax\<close>: what the code uses of Rust's strings; the syntax tree of \<open>dsl/ast.rs\<close>.
  \<^item> \<open>Eval\<close>, \<open>Eval_Facts\<close>: \<open>dsl/eval.rs\<close> and the registry of \<open>functions/mod.rs\<close>. Recursion is bounded by
    a number of stack frames; \<open>Eval_Facts\<close> shows that the number is not observable, gives a number
    that is enough, and shows that integers stay in range.
  \<^item> \<open>Blueprint\<close>: \<open>pipeline/blueprint.rs\<close>; compilation to slots and metric nodes, and sealing, whose checks
    are shown to be exact where the executor relies on them.
  \<^item> \<open>Exec\<close>, \<open>Exec_Facts\<close>: \<open>pipeline/execution.rs\<close> and \<open>dsl/exec.rs\<close>; processes, pipelines, outputs, failure
    records. Invariants are proved once over a locale of step relations and interpreted for the
    header, the workspace keys and the counters.
  \<^item> \<open>DiskQueue\<close>, \<open>DiskQueue_Facts\<close>, \<open>DiskQueue_Spec\<close>: \<open>queue/disk.rs\<close>; segment files, cursor and receiver state.
    \<open>DiskQueue_Spec\<close> maps a queue to the list of its unconfirmed records, shows that every operation
    refines the list operation, with write faults, files that cannot be removed and restarts at any
    point, and interprets a locale of at-least-once queues. The receiver reads without the mutex:
    \<open>read_step\<close> is one step of a read, and \<open>DiskQueue_Race\<close> lets the writer in between, interprets the locale
    again for the histories in which the receiver never leaves a segment with unread bytes, and shows
    that the others lose records. The consumer and everything above it use the reads without a writer in between.
  \<^item> \<open>Metrics\<close>: \<open>time.rs\<close> and the counters, gauges and histograms of \<open>metrics.rs\<close>.
  \<^item> \<open>Queue\<close>: the front end of \<open>queue/mod.rs\<close>: both backends, the spin controller, retries, handles; and
    \<open>shutdown_progress.rs\<close>.
  \<^item> \<open>Consumer\<close>, \<open>Consumer_Facts\<close>: \<open>run_queue_consumer\<close> as a step relation over the queue, the handles an output
    holds and the resolutions on their way back, with an invariant over all interleavings.
  \<^item> \<open>OutputDlq\<close>: the dead-letter paths of \<open>modules/mod.rs\<close>.
  \<^item> \<open>Batched\<close>: \<open>modules/output/batched.rs\<close>, the buffer, flusher and retry loop of the HTTP and OTLP outputs.
  \<^item> \<open>Json\<close>, \<open>EventJson\<close>, \<open>Wal\<close>: \<open>dsl/value_json.rs\<close>, the JSON half of \<open>event.rs\<close> and the records of a disk queue.
    \<open>Wal\<close> discharges the serialization contract the queue properties ask for, and shows where it fails.
  \<^item> \<open>Worker\<close>: \<open>runtime/pipeline_worker.rs\<close>, which ties executor, queues and dead letters together.
  \<^item> \<open>ByteSource\<close>, \<open>LtpWire\<close>, \<open>LtpInput\<close>, \<open>LtpOutput\<close>: byte streams cut into pieces, and the log transfer protocol of \<open>ltp.rs\<close>,
    \<open>modules/input/ltp.rs\<close> and \<open>modules/output/ltp.rs\<close>: frames, hop rules, leases of connections, the cached connection of
    the sender. \<open>LtpNet\<close>, \<open>LtpExample\<close> and \<open>Transport\<close> join sender and listener: what is resolved as delivered is received,
    and paths over several nodes have no loops.
  \<^item> \<open>SyslogIn\<close>, \<open>SyslogIn_Facts\<close>: the framings of \<open>modules/input/syslog_tcp.rs\<close> and \<open>validate.rs\<close>. \<open>SyslogPeers\<close>, \<open>SyslogOut\<close>: the
    rotation over peers of \<open>output/syslog_peers.rs\<close> and the sender of \<open>output/syslog_tcp.rs\<close>. \<open>SyslogNet\<close> joins them as above, shows
    that a write that times out can break the stream, and that the LTP and the syslog output settle each event once.
  \<^item> \<open>Str\<close>, \<open>Tables\<close>, \<open>Tables_Facts\<close>: the key-value tables of \<open>functions/table.rs\<close> with their functions
    \<open>functions/primitives/table.rs\<close>: bounds, what a lookup finds, and how the order of eviction goes wrong.
  \<^item> \<open>Builtins\<close>, \<open>Parsers\<close>, \<open>EventFormats\<close>, \<open>Functions\<close>: the functions of \<open>functions/primitives/\<close>, \<open>functions/syslog/\<close> and
    \<open>functions/cef/\<close>, and the registry that holds them, the table functions included. \<open>Functions_Facts\<close> shows that each returns what its
    signature says, does not read the event and, but for \<open>table_upsert\<close>, never panics; functions outside the model are not
    assumed to be total: what needs that asks that only functions that are total are called (\<open>safe_keys\<close>); \<open>Formats_Facts\<close> that the formats are read as they are written.
  \<^item> \<open>FieldTypes\<close>, \<open>Diagnostics\<close>, \<open>Typing\<close>, \<open>Purity\<close>, \<open>OutputCheck\<close>: the static checks of \<open>check/\<close> on expressions, functions,
    processes and properties, with the types of \<open>dsl/field_schema.rs\<close>; \<open>Schema\<close>: \<open>dsl/schema.rs\<close> and the readers of \<open>dsl/props.rs\<close>.
    \<open>Typing_Facts\<close> shows inference sound for the evaluator, \<open>Purity_Facts\<close> the cycle checks exact, \<open>Schema_Facts\<close> what the validator
    accepts, \<open>Noninterference\<close> that evaluation depends only on the paths an expression reads. \<open>Checked\<close> and \<open>Guarantees\<close> draw the
    conclusions for accepted configurations, and show a recursion that the checks miss.
  \<^item> \<open>Analyzer\<close>, \<open>Analyzer_Facts\<close>: the walk of \<open>check/mod.rs\<close>, \<open>check/control_flow.rs\<close> and \<open>check/parser_effects.rs\<close> over processes and
    pipelines. Along a run of the compiled code the bindings of the walk describe the event, and compiled code reads back as its source.
  \<^item> \<open>Config\<close>, \<open>ConfigCheck\<close>: \<open>pipeline/compiled_config.rs\<close>, the module type of \<open>dsl/module_props.rs\<close>, the peers and listener groups of
    \<open>modules/input/ltp.rs\<close> and \<open>modules/output/ltp.rs\<close>; the remaining checks of \<open>check/\<close> and \<open>check::analyze\<close>, which runs all of them.
  \<^item> \<open>Compile_Facts\<close>, \<open>Config_Facts\<close>: the compiler, followed operation by operation, makes what the validator accepts; so a
    configuration that passes its checks compiles and seals, short of the limits of 32-bit indices. Listeners tell their peers apart.
  \<^item> \<open>DeadLetter\<close>, \<open>Control\<close>, \<open>Control_Facts\<close>: the records of \<open>error_log.rs\<close> and the commands of \<open>control.rs\<close>. Together they give the way back of
    an event that was given up: into a record, through an injection, into the queue it came from.
  \<^item> \<open>Examples\<close>, \<open>Delivery\<close>: a small configuration, concrete queues, and the properties of delivery. The
    properties of the language are in this theory.

  \<^bold>\<open>Conventions.\<close> A Rust \<open>Result\<close> is \<open>res\<close>; machine integers are \<open>int\<close> with explicit range checks where the
  code checks them and 64-bit words where it wraps; asynchronous code is a function of its inputs, and
  where tasks interleave a step relation. I/O outcomes (a write fault, a file that cannot be removed,
  a full error log), clocks, taps and the built-in functions are arguments of the definitions that
  use them. The queue takes the serialization of a record as a parameter, and its properties ask that it
  is one line that reads back; \<open>Wal\<close> gives the program's own. What \<open>serde_json\<close>, \<open>base64\<close> and \<open>uuid\<close> do is a
  parameter (\<open>json_codec\<close>) with the hypotheses \<open>b64_ok\<close>, \<open>serde_ok\<close> and \<open>uuid_ok\<close>.

  \<^bold>\<open>Stack frames.\<close> \<open>eval_expr\<close>, \<open>exec_ir_process_code\<close> and \<open>exec_ir_pipeline_body\<close> take the number of frames left.
  \<open>eval_terminates\<close> and \<open>sealed_run_completes\<close> state numbers that are enough; \<open>eval_more_stack\<close> and
  \<open>run_more_stack\<close> state that more frames change nothing.

  \<^bold>\<open>Losses.\<close> Three losses of accepted events are theorems: records of events from IPv6 sources (\<open>ipv6_records_lost\<close>), records
  stepped over by a reader that the writer overtakes (\<open>overrun_loses_records\<close>), and the second drop of a wedged queue
  (\<open>wedge_second_drop_confirms\<close>). A syslog message that the listener refuses counts as delivered (\<open>egress_not_checked\<close>), and so can
  one behind a write that timed out (\<open>syslog_timeout_corrupts\<close>).

  \<^bold>\<open>Not modelled.\<close> The grammar (generated; \<open>definition_placed\<close> names what is used of it), the graph output and the rendering of
  diagnostics, the property tables of the single modules (parameters), the functions on times and the OTLP encoder, the engines behind regular expressions, hashes and CSV (parameters), the inputs and outputs not named above (I/O around third-party
  protocols; the consumer's model allows them any order of resolutions), accept loops and TLS, the name
  registry of the metrics, task start and stop, the files behind the error log and the control socket, and the companion programs.
\<close>

section \<open>Evaluation\<close>

text \<open>An expression always evaluates to a value or an error. If no user-defined function calls
  itself through others, which the rank witnesses, the evaluator needs at most \<open>size e + r * (D + 1)\<close>
  nested frames and never panics: \<open>r\<close> bounds the ranks called and \<open>D\<close> the sizes of the bodies.\<close>

theorem eval_terminates:
  assumes "builtins_total reg" "reg_ranked reg rk D" "calls_below reg rk r e" "expr_wf e"
    and "size e + r * Suc D < n"
  shows "\<exists>res w'. eval_expr reg ev n e w = (res, w') \<and> res \<noteq> Crash"
  using eval_total[OF assms, of ev Map.empty] unfolding totalM_def eval_expr_def
  by (metis prod.collapse)

lemma ex_ranked: "reg_ranked ex_registry (\<lambda>_. 0) 10"
  by (auto simp: reg_ranked_def ex_registry_def ex_double_def body_exprs_def calls_below_def expr_wf_def
      subexpr_simps split: if_splits)

lemma ex_call_below:
  "calls_below ex_registry (\<lambda>_. 0) 1 (FuncCall None ''double'' [IntLit 21] None)"
  "expr_wf (FuncCall None ''double'' [IntLit 21] None)"
  by (auto simp: calls_below_def expr_wf_def subexpr_simps)

theorem eval_terminates_witness:
  "\<exists>res w'. eval_expr ex_registry (event_view_in ex_event) 20 (FuncCall None ''double'' [IntLit 21] None) ()
     = (res, w') \<and> res \<noteq> Crash"
  by (rule eval_terminates[OF _ ex_ranked ex_call_below]) (simp_all add: builtins_total_def ex_registry_def)

text \<open>Evaluation keeps every value in the \<open>i64\<close> range, at any depth of arrays and objects: literals,
  fields of the event, results of arithmetic and of the functions.\<close>

theorem eval_values_well_formed:
  assumes "builtins_ok reg" "user_lits_ok reg" "event_ok ev" "lits_ok e"
    and "eval_expr reg ev n e w = (Ok v, w')"
  shows "val_ok v"
  using eval_ok[OF assms(1-4) scope_ok_empty] assms(5) unfolding postM_def eval_expr_def by blast

theorem eval_values_well_formed_witness:
  "eval_expr ex_registry (event_view_in ex_event) 20 (FuncCall None ''double'' [IntLit 21] None) () = (Ok (VInt 42), ())
   \<and> val_ok (VInt 42)"
proof -
  have v: "eval_expr ex_registry (event_view_in ex_event) 20 (FuncCall None ''double'' [IntLit 21] None) () = (Ok (VInt 42), ())"
    by (simp add: eval_expr_def registry_call_def call_user_function_def eval_body_def ex_registry_def ex_double_def
        monad_simps scope_bind_all_def scope_bind_def resolve_ident_def eval_bin_op_def add_values_def
        numeric_op_def exact_int_op_def checked_int_op_def checked_i64_def in_i64_def i64_min_def i64_max_def)
  have ev: "event_ok (event_view_in ex_event)"
    by (simp add: event_ok_def workspace_ok_def event_view_in_def ex_event_def event_new_def)
  have reg: "builtins_ok ex_registry" "user_lits_ok ex_registry" "lits_ok (FuncCall None ''double'' [IntLit 21] None)"
    by (auto simp: builtins_ok_def user_lits_ok_def lits_ok_def ex_registry_def ex_double_def body_exprs_def subexpr_simps
        in_i64_def i64_min_def i64_max_def split: if_splits)
  show ?thesis using v eval_values_well_formed[OF reg(1,2) ev reg(3) v] by blast
qed

text \<open>The stack depth is not observable: once an evaluation returns a value or an error, a deeper stack
  gives the same outcome and the same effects.\<close>

theorem eval_more_stack:
  assumes "eval_expr reg ev n e w = (res, w')" "res \<noteq> Crash" "n \<le> m"
  shows "eval_expr reg ev m e w = (res, w')"
  using assms(1,2) unfolding eval_expr_def by (rule leM_run[OF eval_mono[OF assms(3)]])

theorem eval_more_stack_witness:
  "eval_expr ex_registry (event_view_in ex_event) 100 (IntLit 5) () = (Ok (VInt 5), ())"
  by (rule eval_more_stack[of _ _ 1]) (simp_all add: eval_expr_def ret_def)

text \<open>Addition, subtraction and multiplication of integers return the exact result when it is in the
  \<open>i64\<close> range and an error otherwise; they never wrap and never lose precision.\<close>

theorem int_arithmetic_exact:
  "((eval_bin_op rfc (VInt l) OpAdd (VInt r) = Ok v) = (in_i64 (l + r) \<and> v = VInt (l + r)))
   \<and> ((eval_bin_op rfc (VInt l) OpSub (VInt r) = Ok v) = (in_i64 (l - r) \<and> v = VInt (l - r)))
   \<and> ((eval_bin_op rfc (VInt l) OpMul (VInt r) = Ok v) = (in_i64 (l * r) \<and> v = VInt (l * r)))"
  by (intro conjI int_op_exact)

text \<open>Integer division and remainder agree: the quotient times the divisor plus the remainder is the
  dividend and the remainder is smaller than the divisor; a zero divisor gives zero for both.\<close>

theorem int_division_law:
  assumes "eval_bin_op rfc (VInt l) OpDiv (VInt r) = Ok (VInt q)" "eval_bin_op rfc (VInt l) OpMod (VInt r) = Ok (VInt m)"
  shows "if r = 0 then q = 0 \<and> m = 0 else l = q * r + m \<and> \<bar>m\<bar> < \<bar>r\<bar>"
  by (rule int_div_mod[OF assms])

theorem int_division_law_witness:
  "eval_bin_op (\<lambda>_. []) (VInt (- 7)) OpDiv (VInt 2) = Ok (VInt (- 3)) \<and> - 7 = (- 3) * 2 + (- 1 :: int)"
  using int_division_law[of "\<lambda>_. []" "- 7" 2 "- 3" "- 1"]
  by (simp add: eval_bin_op_def numeric_op_def exact_int_op_def checked_int_op_def checked_i64_def in_i64_def
      i64_min_def i64_max_def trunc_div_def trunc_rem_def)

text \<open>Negating an integer goes through a double and loses precision beyond \<open>2 ^ 53\<close>.\<close>

theorem int_negation_loses_precision:
  "eval_unary_op OpNeg (VInt 9007199254740993) = Ok (VInt (- 9007199254740992))"
  by (simp add: eval_unary_op_def numeric_value_from_f64_def f64_of_int_def Let_def round_f64_def floor_log2_def
      bit_len.simps mul_pow2_def f64_ge_def f64_lt_def i64_min_def i64_max_def
      cmp_int_def scaled_def clamp_i64_def)

section \<open>Execution\<close>

text \<open>Running a process never changes the key, the reception time, the source, the ingress bytes or the hop
  stamps of the event it returns; only \<open>egress\<close> and the workspace can differ.\<close>

theorem process_keeps_header:
  assumes "exec_ir_process_code env n code nid ev sc x = (Ok (Continue ev', sc'), x')"
  shows "be_header ev' = be_header ev"
  by (rule hdr.process_run[OF assms])

theorem process_keeps_header_witness:
  "be_header (workspace_set ''seen'' (VInt 1) (event_view_in ex_event)) = be_header (event_view_in ex_event)"
  by (rule process_keeps_header[of ex_env 2 "[CAssign (Workspace [''seen'']) (IntLit 1)]" 0 "event_view_in ex_event"
        Map.empty ex_state _ Map.empty ex_state])
    (simp add: ex_defs exec_defs)

text \<open>C1: What a run reports. Every output carries the header of the event that entered the pipeline. The run has
  a failure record exactly when it terminates \<open>Errored\<close>, and then exactly one, of the original event under the
  pipeline's name. \<open>had_outputs\<close> says whether an output was reached.\<close>

theorem run_records:
  assumes "bodies_in_range env" "run_pipeline env n x = (Ok res, x')"
  shows "(\<forall>(nm, q) \<in> set (rr_outputs res). oe_header (qe_event q) = oe_header (xe_original env))
    \<and> (if rr_termination res = Errored
      then \<exists>tm site reason. rr_errored res =
        [EProcess tm (bp_name (xe_pl env)) site reason (process_event_from_owned (xe_original env))]
      else rr_errored res = [])
    \<and> rr_had_outputs res = (rr_outputs res \<noteq> [])"
  using run_pipeline_ended[OF assms] by (auto simp: ended_def outputs_from_def)

lemma ex_in_range: "bodies_in_range ex_env"
  by (simp add: bodies_in_range_def ex_env_def ex_pipeline_def ex_blueprint_def)

theorem run_records_witness:
  "oe_header (ex_event\<lparr>oe_workspace := [(''seen'', OInt 1), (''why'', OString ''boom'')]\<rparr>) = oe_header ex_event"
  using run_records[OF ex_in_range ex_run] by (simp add: ex_env_def)

text \<open>C13: No process invocation is lost in the counters: per metric node, the invocations started and not counted as
  continued, dropped or errored are the same after a run as before, whether the run returns a result or an error, and
  64-bit wrap-around included.\<close>

theorem run_counts_balance:
  assumes "bodies_in_range env" "run_pipeline env n x = (res, x')" "res \<noteq> Crash"
  shows "map pending (x_counters x') = map pending (x_counters x)"
  using cnt.run_rel[OF assms(1)] assms(2,3) unfolding relM_def same_pending_def by blast

theorem run_counts_balance_witness:
  "map pending [pc_zero\<lparr>pc_in := 1, pc_out := 1\<rparr>, pc_zero\<lparr>pc_in := 1, pc_out := 1\<rparr>] = map pending [pc_zero, pc_zero]"
  using run_counts_balance[OF ex_in_range ex_run] by (simp add: ex_state_def)

text \<open>C36: A failed \<open>try\<close> body leaves no trace in the event or the scope: the catch body starts from the state
  before the try body with the error text under \<open>_error\<close>, and the event that leaves the statement has no
  \<open>_error\<close> entry and the same header.\<close>

theorem try_catch_recovers:
  assumes "exec_ir_process_code env n t nid ev sc x = (Err e, y)" "workspace_distinct ev"
    and "exec_ir_process_code env n c nid (workspace_set ''_error'' (VString e) ev) sc y = (Ok (Continue ev', sc'), z)"
  shows "exec_stmt env m (exec_ir_process_code env n) (CTry t c) nid ev sc x
      = (Ok (Continue (snd (workspace_remove ''_error'' ev')), sc'), z)
    \<and> workspace_get (snd (workspace_remove ''_error'' ev')) ''_error'' = None
    \<and> be_header (snd (workspace_remove ''_error'' ev')) = be_header ev"
proof (intro conjI)
  show "exec_stmt env m (exec_ir_process_code env n) (CTry t c) nid ev sc x
      = (Ok (Continue (snd (workspace_remove ''_error'' ev')), sc'), z)"
    using assms(1,3) by (simp add: exec_try_def attempt_def bindM_def ret_def)
  have "workspace_distinct ev'"
    using keys.process_run[OF assms(3)] assms(2) ws.invar_update by blast
  then show "workspace_get (snd (workspace_remove ''_error'' ev')) ''_error'' = None"
    by (simp add: ws.lookup_delete)
  show "be_header (snd (workspace_remove ''_error'' ev')) = be_header ev"
    using hdr.process_run[OF assms(3)] by simp
qed

theorem try_catch_recovers_witness:
  "workspace_get (snd (workspace_remove ''_error'' (workspace_set ''why'' (VString ''boom'')
     (workspace_set ''_error'' (VString ''boom'') (event_view_in ex_event))))) ''_error'' = None"
proof (rule conjunct1[OF conjunct2[OF try_catch_recovers[of ex_env 3 "[CError (Some (StringLit ''boom''))]" 0 "event_view_in ex_event"
      Map.empty ex_state "''boom''" ex_state "[CAssign (Workspace [''why'']) (Ident [''error''])]" _ Map.empty ex_state]]])
qed (simp_all add: ex_defs exec_defs workspace_distinct_def)

text \<open>Reading back an assignment: after \<open>workspace.a.b.c = v\<close> the same path reads \<open>v\<close>, and every other top-level
  workspace key reads as before.\<close>

theorem assign_then_read:
  assumes "apply_assign rfc (Workspace path) v ev = Ok ev'"
  shows "resolve_event (''workspace'' # path) ev' = Ok v
    \<and> (\<forall>k. k \<noteq> hd path \<longrightarrow> workspace_get ev' k = workspace_get ev k)"
  using assign_read[OF assms] by auto

theorem assign_then_read_witness:
  "resolve_event [''workspace'', ''a'', ''b''] (workspace_set ''a'' (VObject [(''b'', VInt 3)]) (event_view_in ex_event))
     = Ok (VInt 3)"
  by (rule conjunct1[OF assign_then_read[of "\<lambda>_. []" "[''a'', ''b'']" "VInt 3" "event_view_in ex_event"]])
    (simp add: apply_assign_def set_workspace_path_def object_entries_def workspace_get_def event_view_in_def
      ex_event_def event_new_def)

text \<open>The stack depth is not observable in a run: once a run returns, a deeper stack gives the same result and the
  same state.\<close>

theorem run_more_stack:
  assumes "run_pipeline env n x = (res, x')" "res \<noteq> Crash" "n \<le> m"
  shows "run_pipeline env m x = (res, x')"
  by (rule leM_run[OF run_mono[OF assms(3)] assms(1,2)])

theorem run_more_stack_witness: "run_pipeline ex_env 1000 ex_state = run_pipeline ex_env 9 ex_state"
  using run_more_stack[OF ex_run, of 1000] unfolding ex_run by simp

section \<open>The blueprint\<close>

text \<open>The cycle check is exact: on a blueprint whose edges are in range it accepts precisely the acyclic call
  graphs.\<close>

theorem cycle_check_exact:
  assumes "edges_in_range bp" "length (ub_bodies bp) \<le> u32_limit"
  shows "validate_process_cycles bp = Ok () \<longleftrightarrow> acyclic (call_graph bp)"
  using visit_all_accepts[OF assms(1) _ assms(2)] cycles_ok_acyclic by blast

theorem cycle_check_exact_witness:
  "validate_process_cycles ex_blueprint = Ok () \<longleftrightarrow> acyclic (call_graph ex_blueprint)"
  by (rule cycle_check_exact) (use sealD(2)[OF ex_seal] in \<open>auto simp: ex_blueprint_def u32_limit_def\<close>)

text \<open>In a sealed blueprint every call resolves: a call statement of the body of a metric node has its edge, the
  edge has the callee's name, and the node's child at that slot exists, belongs to the node and has the edge's
  target.\<close>

theorem sealed_calls_resolve:
  assumes "seal bp = Ok bp'" "(nm, pl) \<in> set (ub_pipelines bp)" "i < length (bp_nodes pl)"
    and "mn_target (bp_nodes pl ! i) = Known b"
    and "(callee, slot) \<in> set (code_calls (pb_code (ub_bodies bp ! b)))"
  shows "b < length (ub_bodies bp) \<and> slot < length (pb_edges (ub_bodies bp ! b))
    \<and> edge_name (pb_edges (ub_bodies bp ! b) ! slot) = callee
    \<and> slot < length (mn_children (bp_nodes pl ! i))
    \<and> (let c = mn_children (bp_nodes pl ! i) ! slot in c < length (bp_nodes pl)
        \<and> mn_parent (bp_nodes pl ! c) = Some i \<and> mn_name (bp_nodes pl ! c) = callee
        \<and> mn_target (bp_nodes pl ! c) = edge_target (pb_edges (ub_bodies bp ! b) ! slot))"
proof -
  have n: "node_ok bp pl i" by (rule validate_pipeline_node[OF sealD(5)[OF assms(1,2)] assms(3)])
  then have b: "b < length (ub_bodies bp)" using assms(4) by (auto simp: node_ok_def Let_def)
  then have "call_ok (ub_bodies bp ! b) (callee, slot)"
    using sealD(4)[OF assms(1)] assms(5) validate_code_iff(2) nth_mem by blast
  then show ?thesis using n assms(4) b by (auto simp: node_ok_def call_ok_def Let_def)
qed

theorem sealed_calls_resolve_witness:
  "mn_target (bp_nodes ex_pipeline ! (mn_children (bp_nodes ex_pipeline ! 0) ! 0)) = Known 1"
  using sealed_calls_resolve[OF ex_seal, of "''p''" ex_pipeline 0 0 "''tag''" 0]
  by (simp add: ex_blueprint_def ex_pipeline_def)

text \<open>C7: A pipeline of a sealed blueprint runs to completion if its expressions do. If every expression of the pipeline and of the
  process bodies evaluates within \<open>E\<close> frames on every event (which a function that calls itself from a block, or a panicking call,
  does not) and bodies nest at most \<open>D\<close> deep, a stack of the pipeline's nesting plus \<open>D + bodies * (D + 1) + E + 2\<close> frames is
  enough: the run ends with a result or an error, never in a panic or an overflow.\<close>

theorem sealed_run_completes:
  assumes "seal bp = Ok (xe_bp env)" "bodies_fit (xe_funcs env) bp D E"
    and "pcode_all (evals (xe_funcs env) E) (bp_code (xe_pl env))"
    and "Suc (pcode_depth (bp_code (xe_pl env)) + call_frames bp D E) < n"
  shows "\<exists>res x'. run_pipeline env n x = (res, x') \<and> res \<noteq> Crash"
proof -
  note [simp] = sealD(1)[OF assms(1)]
  have "totalM (run_pipeline env n)"
    using sealD(2,3)[OF assms(1)] assms(2-4) by (intro run_total[where D = D and E = E]) simp_all
  then show ?thesis unfolding totalM_def by (metis prod.collapse)
qed

theorem sealed_run_completes_witness:
  "\<exists>res x'. run_pipeline ex_env 20 ex_state = (res, x') \<and> res \<noteq> Crash"
proof -
  have "evals ex_registry 1 (IntLit k)" "evals ex_registry 1 (StringLit t)" "evals ex_registry 1 (Ident [''error''])" for k t
    by (simp_all add: evals_def totalM_def monad_simps resolve_ident_def resolve_event_def split: option.split)
  then have "bodies_fit ex_registry ex_blueprint 1 1"
    by (simp add: bodies_fit_def ex_blueprint_def target_ok_def)
  moreover have frames: "call_frames ex_blueprint 1 1 = 6" by (simp add: call_frames_def ex_blueprint_def)
  moreover have code: "pcode_all (evals ex_registry 1) (bp_code ex_pipeline)" "pcode_depth (bp_code ex_pipeline) = 0"
    by (simp_all add: ex_pipeline_def)
  ultimately show ?thesis
    using sealed_run_completes[of ex_blueprint ex_env 1 1 20 ex_state]
      frames code by (simp add: ex_seal ex_env_def)
qed

section \<open>Events\<close>

text \<open>Borrowing an event into the arena and owning it again gives the event back, without its acknowledgement
  handle.\<close>

theorem event_borrow_own:
  assumes "owned_event_ok ev"
  shows "event_to_owned (event_view_in ev) = ev\<lparr>oe_ack := None\<rparr>"
  by (rule event_to_owned_view[OF assms])

theorem event_borrow_own_witness: "event_to_owned (event_view_in ex_event) = ex_event\<lparr>oe_ack := None\<rparr>"
  by (rule event_borrow_own) (simp add: owned_event_ok_def ex_event_def event_new_def)

end
